(* ===== verification/SH_Prelude.thy ===== *)
theory SH_Prelude
  imports Main "HOL-Library.Word"
begin

text \<open>
  Shared vocabulary of the development: the C integer types as machine words, the volatile
  32-bit memory as a function from byte addresses to words, the console log, and the generic
  lemmas on words and lists that several components use.  The collection \<open>word_nat\<close> holds the
  rewrites from word arithmetic to natural numbers.
\<close>

unbundle bit_operations_syntax

named_theorems word_nat

type_synonym u8 = "8 word"
type_synonym u16 = "16 word"
type_synonym u32 = "32 word"
type_synonym u64 = "64 word"

text \<open>A byte-addressed memory read and written by aligned 32-bit words.\<close>

type_synonym heap = "u32 \<Rightarrow> u32"

text \<open>A call of \<open>printf\<close>: its format string and its integer arguments.\<close>

datatype log = Log string "u32 list"

subsection \<open>Words and natural numbers\<close>

lemma unat_lt32 [simp]: "unat (x :: u32) < 4294967296"
  using unsigned_less [of x] by simp

lemma unat_add32 [word_nat]:
  "unat x + unat y < 4294967296 \<Longrightarrow> unat (x + y :: u32) = unat x + unat y"
  by (subst unat_add_lem [THEN iffD1]) (simp_all add: unat_add_lem)

lemma unat_sub32 [word_nat]:
  "unat y \<le> unat x \<Longrightarrow> unat (x - y :: u32) = unat x - unat y"
  by (simp add: unat_sub word_le_nat_alt)

lemma unat_mult32 [word_nat]:
  "unat x * unat y < 4294967296 \<Longrightarrow> unat (x * y :: u32) = unat x * unat y"
  by (subst unat_mult_lem [THEN iffD1]) simp_all

lemma unat_add32_mod: "unat (x + y :: u32) = (unat x + unat y) mod 4294967296"
  by (simp add: unat_word_ariths)

lemma unat_of_nat32 [word_nat]: "n < 4294967296 \<Longrightarrow> unat (of_nat n :: u32) = n"
  by (simp add: unat_of_nat)

lemma unat_inc32 [word_nat]: "i < w \<Longrightarrow> unat (i + 1 :: u32) = Suc (unat i)"
  using unat_lt32 [of w] by (subst unat_add32) (simp_all add: word_less_nat_alt del: unat_lt32)

lemma unat_eq_iff32: "(x :: u32) = y \<longleftrightarrow> unat x = unat y"
  by (simp add: word_unat_eq_iff)

text \<open>Clearing the low bits rounds down to a multiple of the power of two.\<close>

lemma and_not_mask_push_drop: "x AND NOT (mask n) = push_bit n (drop_bit n (x :: 'a::len word))"
  by (rule bit_eqI) (auto simp: bit_simps)

lemma unat_and_not_mask:
  "unat (x AND NOT (mask n) :: 'a::len word) = unat x div 2 ^ n * 2 ^ n"
proof -
  have "unat x < 2 ^ LENGTH('a)" by (rule unsigned_less)
  then have "unat x div 2 ^ n * 2 ^ n < 2 ^ LENGTH('a)"
    using div_times_less_eq_dividend [of "unat x" "2 ^ n"] by linarith
  then show ?thesis
    unfolding and_not_mask_push_drop unsigned_push_bit_eq unat_drop_bit_eq
    by (simp add: push_bit_eq_mult drop_bit_eq_div take_bit_nat_eq_self)
qed

lemma low_byte_mask: "(0xFF :: u32) = mask 8"
  by (simp add: mask_eq_exp_minus_1)

lemma ucast_and_FF: "ucast (x AND 0xFF :: u32) = (ucast x :: u8)"
  unfolding low_byte_mask by (rule bit_eqI) (auto simp: bit_simps)

lemma not7_mask: "(NOT 7 :: u32) = NOT (mask 3)"
  by (simp add: mask_eq_exp_minus_1)

lemma not63_mask: "(NOT 63 :: u32) = NOT (mask 6)"
  by (simp add: mask_eq_exp_minus_1)

lemma unat_align_down8 [word_nat]: "unat (x AND NOT 7 :: u32) = unat x div 8 * 8"
  unfolding not7_mask by (simp add: unat_and_not_mask)

lemma unat_align_down64 [word_nat]: "unat (x AND NOT 63 :: u32) = unat x div 64 * 64"
  unfolding not63_mask by (simp add: unat_and_not_mask)

text \<open>The same with the masks as the simplifier writes them.\<close>

lemma unat_and_neg8 [word_nat]: "unat (x AND - 8 :: u32) = unat x div 8 * 8"
  using unat_align_down8 [of x] by simp

lemma unat_and_neg64 [word_nat]: "unat (x AND - 64 :: u32) = unat x div 64 * 64"
  using unat_align_down64 [of x] by simp

text \<open>Row and column of an index.\<close>

lemma row_col: "r < (n :: nat) \<Longrightarrow> (a * n + r) div n = a \<and> (a * n + r) mod n = r"
  by simp

subsection \<open>Loops over index ranges\<close>

text \<open>The values of \<open>i\<close> in \<open>for (i = lo; i < hi; ++i)\<close>.\<close>

definition u32_range :: "u32 \<Rightarrow> u32 \<Rightarrow> u32 list" where
  "u32_range lo hi = map of_nat [unat lo ..< unat hi]"

lemma set_u32_range [simp]: "set (u32_range lo hi) = {x. lo \<le> x \<and> x < hi}"
proof -
  have "x \<in> of_nat ` {unat lo ..< unat hi} \<longleftrightarrow> unat lo \<le> unat x \<and> unat x < unat hi" for x :: u32
  proof
    assume "x \<in> of_nat ` {unat lo ..< unat hi}"
    then obtain i where i: "x = of_nat i" "unat lo \<le> i" "i < unat hi" by auto
    moreover have "unat (of_nat i :: u32) = i" using i(3) unat_lt32 [of hi] by (intro unat_of_nat32) linarith
    ultimately show "unat lo \<le> unat x \<and> unat x < unat hi" by simp
  qed (auto intro: image_eqI [of _ _ "unat x"])
  then show ?thesis by (auto simp: u32_range_def word_le_nat_alt word_less_nat_alt)
qed

lemma distinct_u32_range [simp]: "distinct (u32_range lo hi)"
proof -
  have "inj_on (of_nat :: nat \<Rightarrow> u32) {unat lo ..< unat hi}"
  proof (rule inj_onI)
    fix i j
    assume "i \<in> {unat lo ..< unat hi}" "j \<in> {unat lo ..< unat hi}" and e: "(of_nat i :: u32) = of_nat j"
    then have "i < 4294967296" "j < 4294967296" using unat_lt32 [of hi]
      by (metis atLeastLessThan_iff less_trans)+
    then show "i = j" using e by (metis unat_of_nat32)
  qed
  then show ?thesis by (simp add: u32_range_def distinct_map)
qed

end
