(* ===== verification/Flex_Alloc.thy ===== *)
theory Flex_Alloc
  imports SH_Prelude
begin

text \<open>
  The first-fit free-list allocator of \<open>runtime/include/flex_alloc.h\<close>, word for word: the list of
  free blocks lives in memory (a block at address \<open>p\<close> holds its size at \<open>p\<close> and the pointer to the
  next free block at \<open>p + 4\<close>), pointers are 32-bit words, \<open>NULL\<close> is 0 and all arithmetic wraps.
  The two list walks may not end on a cyclic list, so they are \<open>partial_function (option)\<close>:
  \<open>None\<close> is "does not return".  The proofs about this model are in \<open>Flex_Alloc_Props\<close>.
\<close>

subsection \<open>Types\<close>

text \<open>\<open>alloc_t\<close>: the allocator is the pointer to the first free block.\<close>

record alloc_t =
  first_block :: u32

record canary_and_size_t =
  cs_size :: u32
  cs_canary :: u8

text \<open>The memory an allocator works on and the \<open>printf\<close> calls made so far.\<close>

record mstate =
  mheap :: heap
  mlog :: "log list"

text \<open>The fields of an \<open>alloc_block_t\<close> at address \<open>p\<close>.\<close>

abbreviation (input) blk_size :: "heap \<Rightarrow> u32 \<Rightarrow> u32" where
  "blk_size m p \<equiv> m p"

abbreviation (input) blk_next :: "heap \<Rightarrow> u32 \<Rightarrow> u32" where
  "blk_next m p \<equiv> m (p + 4)"

text \<open>\<open>MIN_BLOCK_SIZE\<close> is \<open>sizeof(alloc_block_t)\<close>: two 32-bit fields.\<close>

definition MIN_BLOCK_SIZE :: u32 where
  "MIN_BLOCK_SIZE = 8"

definition ALIGN_UP :: "u32 \<Rightarrow> u32 \<Rightarrow> u32" where
  "ALIGN_UP addr sz = (addr + sz - 1) AND NOT (sz - 1)"

definition ALIGN_DOWN :: "u32 \<Rightarrow> u32 \<Rightarrow> u32" where
  "ALIGN_DOWN addr sz = addr AND NOT (sz - 1)"

subsection \<open>Canary\<close>

definition canary :: "u32 \<Rightarrow> u8" where
  "canary ptr = ucast (ptr AND 0xFF)"

definition canary_encode :: "u32 \<Rightarrow> u32 \<Rightarrow> u32" where
  "canary_encode ptr sz = push_bit 8 sz OR ucast (canary ptr)"

definition canary_decode :: "u32 \<Rightarrow> canary_and_size_t" where
  "canary_decode v = \<lparr>cs_size = drop_bit 8 v, cs_canary = ucast (v AND 0xFF)\<rparr>"

subsection \<open>Initialisation\<close>

definition flex_cluster_alloc_init :: "u32 \<Rightarrow> u32 \<Rightarrow> mstate \<Rightarrow> alloc_t \<times> mstate" where
  "flex_cluster_alloc_init base sz s =
     (let block_ptr = ALIGN_UP base MIN_BLOCK_SIZE;
          block_size = sz - (block_ptr - base);
          block_size = ALIGN_DOWN block_size MIN_BLOCK_SIZE
      in (\<lparr>first_block = block_ptr\<rparr>,
          s\<lparr>mheap := (mheap s)(block_ptr := block_size, block_ptr + 4 := 0)\<rparr>))"

subsection \<open>Allocation\<close>

text \<open>
  \<open>while (curr && (curr->size < size)) { prev = curr; curr = curr->next; }\<close>; the result is the
  final \<open>(prev, cur)\<close>.
\<close>

partial_function (option) search_fit :: "heap \<Rightarrow> u32 \<Rightarrow> u32 \<Rightarrow> u32 \<Rightarrow> (u32 \<times> u32) option" where
  "search_fit m sz prev cur =
     (if cur \<noteq> 0 \<and> blk_size m cur < sz
      then search_fit m sz cur (blk_next m cur)
      else Some (prev, cur))"

text \<open>One turn of the walk, as conditional rewrites.\<close>

lemma search_fit_stop [simp]:
  "cur = 0 \<or> sz \<le> m cur \<Longrightarrow> search_fit m sz prev cur = Some (prev, cur)"
  by (subst search_fit.simps) auto

lemma search_fit_go [simp]:
  "cur \<noteq> 0 \<Longrightarrow> m cur < sz \<Longrightarrow> search_fit m sz prev cur = search_fit m sz cur (m (cur + 4))"
  by (subst search_fit.simps) simp

text \<open>\<open>allocate_memory\<close> returns the block pointer (0 for \<open>NULL\<close>), the allocator and the memory.\<close>

definition allocate_memory :: "alloc_t \<Rightarrow> heap \<Rightarrow> u32 \<Rightarrow> (u32 \<times> alloc_t \<times> heap) option" where
  "allocate_memory alloc m sz =
     (case search_fit m sz 0 (first_block alloc) of
        None \<Rightarrow> None
      | Some (prev, cur) \<Rightarrow>
          if cur \<noteq> 0 then
            if blk_size m cur = sz then
              (if prev \<noteq> 0 then Some (cur, alloc, m(prev + 4 := blk_next m cur))
               else Some (cur, alloc\<lparr>first_block := blk_next m cur\<rparr>, m))
            else
              (let new_block = cur + sz;
                   m1 = m(new_block := blk_size m cur - sz);
                   m2 = m1(new_block + 4 := blk_next m1 cur)
               in if prev \<noteq> 0 then Some (cur, alloc, m2(prev + 4 := new_block))
                  else Some (cur, alloc\<lparr>first_block := new_block\<rparr>, m2))
          else Some (0, alloc, m))"

definition log_too_big :: log where
  "log_too_big = Log (''Memory allocator: Requested memory exceeds max block size'' @ [CHR 0x0A]) []"

definition log_no_block :: "u32 \<Rightarrow> log" where
  "log_no_block n = Log (''Memory allocator: No large enough block found (%d)'' @ [CHR 0x0A]) [n]"

definition domain_malloc :: "alloc_t \<Rightarrow> u32 \<Rightarrow> mstate \<Rightarrow> (u32 \<times> alloc_t \<times> mstate) option" where
  "domain_malloc alloc sz s =
     (let data_size = sz + 4;
          block_size = ALIGN_UP data_size MIN_BLOCK_SIZE
      in if block_size \<ge> push_bit 24 1 then
           Some (0, alloc, s\<lparr>mlog := mlog s @ [log_too_big]\<rparr>)
         else
           (case allocate_memory alloc (mheap s) block_size of
              None \<Rightarrow> None
            | Some (block_ptr, alloc', m') \<Rightarrow>
                if block_ptr = 0 then
                  Some (0, alloc', s\<lparr>mheap := m', mlog := mlog s @ [log_no_block block_size]\<rparr>)
                else
                  Some (block_ptr + 4, alloc',
                        s\<lparr>mheap := m'(block_ptr := canary_encode block_ptr block_size)\<rparr>)))"

subsection \<open>De-allocation\<close>

text \<open>\<open>while (next && next < block_ptr) { prev = next; next = next->next; }\<close>\<close>

partial_function (option) search_pos :: "heap \<Rightarrow> u32 \<Rightarrow> u32 \<Rightarrow> u32 \<Rightarrow> (u32 \<times> u32) option" where
  "search_pos m block_ptr prev nxt =
     (if nxt \<noteq> 0 \<and> nxt < block_ptr
      then search_pos m block_ptr nxt (blk_next m nxt)
      else Some (prev, nxt))"

lemma search_pos_stop [simp]:
  "nxt = 0 \<or> bp \<le> nxt \<Longrightarrow> search_pos m bp prev nxt = Some (prev, nxt)"
  by (subst search_pos.simps) auto

lemma search_pos_go [simp]:
  "nxt \<noteq> 0 \<Longrightarrow> nxt < bp \<Longrightarrow> search_pos m bp prev nxt = search_pos m bp nxt (m (nxt + 4))"
  by (subst search_pos.simps) simp

definition free_memory :: "alloc_t \<Rightarrow> heap \<Rightarrow> u32 \<Rightarrow> u32 \<Rightarrow> (alloc_t \<times> heap) option" where
  "free_memory alloc m block_ptr sz =
     (case search_pos m block_ptr 0 (first_block alloc) of
        None \<Rightarrow> None
      | Some (prev, nxt) \<Rightarrow>
          (let m' = (if block_ptr + sz = nxt then
                       (let m1 = m(block_ptr := sz + blk_size m nxt)
                        in m1(block_ptr + 4 := blk_next m1 nxt))
                     else m(block_ptr := sz, block_ptr + 4 := nxt))
           in if prev \<noteq> 0 then
                if prev + blk_size m' prev = block_ptr then
                  (let m1 = m'(prev := blk_size m' prev + blk_size m' block_ptr)
                   in Some (alloc, m1(prev + 4 := blk_next m1 block_ptr)))
                else Some (alloc, m'(prev + 4 := block_ptr))
              else Some (alloc\<lparr>first_block := block_ptr\<rparr>, m')))"

definition log_overflow :: "u32 \<Rightarrow> log" where
  "log_overflow p = Log (''Memory Overflow at %p'' @ [CHR 0x0A]) [p]"

definition domain_free :: "alloc_t \<Rightarrow> u32 \<Rightarrow> mstate \<Rightarrow> (alloc_t \<times> mstate) option" where
  "domain_free alloc ptr s =
     (let block_ptr = ptr - 4;
          cas = canary_decode (mheap s block_ptr)
      in if cs_canary cas \<noteq> canary block_ptr then
           Some (alloc, s\<lparr>mlog := mlog s @ [log_overflow block_ptr]\<rparr>)
         else
           (case free_memory alloc (mheap s) block_ptr (cs_size cas) of
              None \<Rightarrow> None
            | Some (alloc', m') \<Rightarrow> Some (alloc', s\<lparr>mheap := m'\<rparr>)))"

subsection \<open>The two global allocators\<close>

record flex_heaps =
  alloc_l1 :: alloc_t
  alloc_hbm :: alloc_t
  hmem :: mstate

definition flex_get_allocator_l1 :: "flex_heaps \<Rightarrow> alloc_t" where
  "flex_get_allocator_l1 g = alloc_l1 g"

definition flex_get_allocator_hbm :: "flex_heaps \<Rightarrow> alloc_t" where
  "flex_get_allocator_hbm g = alloc_hbm g"

definition flex_l1_malloc :: "u32 \<Rightarrow> flex_heaps \<Rightarrow> (u32 \<times> flex_heaps) option" where
  "flex_l1_malloc sz g =
     (case domain_malloc (alloc_l1 g) sz (hmem g) of
        None \<Rightarrow> None
      | Some (addr, a, s) \<Rightarrow> Some (addr, g\<lparr>alloc_l1 := a, hmem := s\<rparr>))"

definition flex_hbm_malloc :: "u32 \<Rightarrow> flex_heaps \<Rightarrow> (u32 \<times> flex_heaps) option" where
  "flex_hbm_malloc sz g =
     (case domain_malloc (alloc_hbm g) sz (hmem g) of
        None \<Rightarrow> None
      | Some (addr, a, s) \<Rightarrow> Some (addr, g\<lparr>alloc_hbm := a, hmem := s\<rparr>))"

definition flex_l1_free :: "u32 \<Rightarrow> flex_heaps \<Rightarrow> flex_heaps option" where
  "flex_l1_free ptr g =
     (case domain_free (alloc_l1 g) ptr (hmem g) of
        None \<Rightarrow> None
      | Some (a, s) \<Rightarrow> Some (g\<lparr>alloc_l1 := a, hmem := s\<rparr>))"

definition flex_hbm_free :: "u32 \<Rightarrow> flex_heaps \<Rightarrow> flex_heaps option" where
  "flex_hbm_free ptr g =
     (case domain_free (alloc_hbm g) ptr (hmem g) of
        None \<Rightarrow> None
      | Some (a, s) \<Rightarrow> Some (g\<lparr>alloc_hbm := a, hmem := s\<rparr>))"

text \<open>The debug dump: one line per free block, \<open>block_id\<close> counting from 0.\<close>

partial_function (option) dump_blocks :: "heap \<Rightarrow> u32 \<Rightarrow> u32 \<Rightarrow> log list \<Rightarrow> log list option" where
  "dump_blocks m cur block_id acc =
     (if cur \<noteq> 0
      then dump_blocks m (blk_next m cur) (block_id + 1)
             (acc @ [Log (''[block_id %d] addr: 0x%08x, size (byte): %x'' @ [CHR 0x0A])
                       [block_id, cur, blk_size m cur]])
      else Some acc)"

definition flex_dump_heap :: "flex_heaps \<Rightarrow> flex_heaps option" where
  "flex_dump_heap g =
     (case dump_blocks (mheap (hmem g)) (first_block (alloc_l1 g)) 0
             [Log (''Memory allocator: Free-memory-block dump'' @ [CHR 0x0A]) []] of
        None \<Rightarrow> None
      | Some ls \<Rightarrow> Some (g\<lparr>hmem := (hmem g)\<lparr>mlog := mlog (hmem g) @ ls @ [Log [CHR 0x0A] []]\<rparr>\<rparr>))"

end
