(* ===== verification/Free_Blocks.thy ===== *)
theory Free_Blocks
  imports SH_Prelude
begin

text \<open>
  The abstract specification shared by the free-list allocators: the free memory is a list of
  blocks (address, size) in ascending address order, no two of them touching, and allocation and
  release are list functions.  \<open>free_set\<close> reads a list as the set of free byte addresses; a
  well-formed list is determined by it (\<open>free_set_canonical\<close>), so a release that restores the
  set of free bytes restores the list.
\<close>

type_synonym blocks = "(nat \<times> nat) list"

definition block_ok :: "nat \<Rightarrow> nat \<Rightarrow> nat \<times> nat \<Rightarrow> bool" where
  "block_ok lo hi b = (lo \<le> fst b \<and> 8 dvd fst b \<and> 8 dvd snd b \<and> 0 < snd b \<and> fst b + snd b \<le> hi)"

definition apart :: "nat \<times> nat \<Rightarrow> nat \<times> nat \<Rightarrow> bool" where
  "apart b c = (fst b + snd b < fst c)"

text \<open>All blocks lie in \<open>[lo, hi)\<close>, are multiples of the header size, ascending and coalesced.\<close>

definition wf_blocks :: "nat \<Rightarrow> nat \<Rightarrow> blocks \<Rightarrow> bool" where
  "wf_blocks lo hi bs = (list_all (block_ok lo hi) bs \<and> sorted_wrt apart bs)"

definition block_bytes :: "nat \<times> nat \<Rightarrow> nat set" where
  "block_bytes b = {fst b ..< fst b + snd b}"

definition free_set :: "blocks \<Rightarrow> nat set" where
  "free_set bs = (\<Union>b\<in>set bs. block_bytes b)"

definition free_bytes :: "blocks \<Rightarrow> nat" where
  "free_bytes bs = sum_list (map snd bs)"

text \<open>First fit: the first block that is large enough gives its front.\<close>

definition fl_alloc :: "nat \<Rightarrow> blocks \<Rightarrow> (nat \<times> blocks) option" where
  "fl_alloc n bs =
     (case dropWhile (\<lambda>b. snd b < n) bs of
        [] \<Rightarrow> None
      | b # post \<Rightarrow>
          Some (fst b, takeWhile (\<lambda>b. snd b < n) bs @
                  (if snd b = n then post else (fst b + n, snd b - n) # post)))"

text \<open>Release: insert by address, joining with the neighbours that touch.\<close>

definition join_next :: "nat \<times> nat \<Rightarrow> blocks \<Rightarrow> blocks" where
  "join_next b post =
     (case post of
        [] \<Rightarrow> [b]
      | c # rest \<Rightarrow> if fst b + snd b = fst c then (fst b, snd b + snd c) # rest else b # post)"

definition join_prev :: "blocks \<Rightarrow> blocks \<Rightarrow> blocks" where
  "join_prev pre post =
     (if pre = [] then post
      else if fst (last pre) + snd (last pre) = fst (hd post)
      then butlast pre @ (fst (last pre), snd (last pre) + snd (hd post)) # tl post
      else pre @ post)"

definition fl_free :: "nat \<Rightarrow> nat \<Rightarrow> blocks \<Rightarrow> blocks" where
  "fl_free p n bs =
     join_prev (takeWhile (\<lambda>b. fst b < p) bs) (join_next (p, n) (dropWhile (\<lambda>b. fst b < p) bs))"

subsection \<open>Well-formedness, by list shape\<close>

lemma wf_blocks_Nil [simp]: "wf_blocks lo hi []"
  by (simp add: wf_blocks_def)

lemma wf_blocks_Cons:
  "wf_blocks lo hi (b # bs) \<longleftrightarrow> block_ok lo hi b \<and> wf_blocks lo hi bs \<and> (\<forall>c\<in>set bs. apart b c)"
  by (auto simp: wf_blocks_def)

lemma wf_blocks_append:
  "wf_blocks lo hi (xs @ ys) \<longleftrightarrow>
     wf_blocks lo hi xs \<and> wf_blocks lo hi ys \<and> (\<forall>b\<in>set xs. \<forall>c\<in>set ys. apart b c)"
  by (auto simp: wf_blocks_def sorted_wrt_append)

lemmas wf_blocks_simps = wf_blocks_Cons wf_blocks_append

lemma wf_blocks_ok: "wf_blocks lo hi bs \<Longrightarrow> b \<in> set bs \<Longrightarrow> block_ok lo hi b"
  by (auto simp: wf_blocks_def list_all_iff)

lemma free_set_Nil [simp]: "free_set [] = {}"
  by (simp add: free_set_def)

lemma free_set_Cons [simp]: "free_set (b # bs) = block_bytes b \<union> free_set bs"
  by (simp add: free_set_def)

lemma free_set_append [simp]: "free_set (xs @ ys) = free_set xs \<union> free_set ys"
  by (auto simp: free_set_def)

lemma free_set_bounds: "wf_blocks lo hi bs \<Longrightarrow> free_set bs \<subseteq> {lo ..< hi}"
  by (fastforce simp: free_set_def block_bytes_def block_ok_def dest: wf_blocks_ok)

lemma apart_disjoint: "apart b c \<Longrightarrow> block_bytes b \<inter> block_bytes c = {}"
  by (auto simp: apart_def block_bytes_def)

lemma apart_after:
  "\<forall>c\<in>set bs. apart b c \<Longrightarrow> x \<in> free_set bs \<Longrightarrow> fst b + snd b < x"
  by (force simp: free_set_def block_bytes_def apart_def)

lemma finite_free_set [simp]: "finite (free_set bs)"
  by (simp add: free_set_def block_bytes_def)

lemma free_bytes_card: "wf_blocks lo hi bs \<Longrightarrow> free_bytes bs = card (free_set bs)"
proof (induction bs)
  case Nil
  then show ?case by (simp add: free_bytes_def)
next
  case (Cons b bs)
  then have "block_bytes b \<inter> free_set bs = {}"
    by (auto simp: wf_blocks_Cons block_bytes_def dest: apart_after)
  then show ?case
    using Cons by (simp add: free_bytes_def wf_blocks_Cons card_Un_disjoint block_bytes_def)
qed

subsection \<open>A well-formed list is determined by its bytes\<close>

lemma wf_Cons_first:
  assumes "wf_blocks lo hi (b # bs)"
  shows "fst b \<in> free_set (b # bs)" and "\<And>x. x \<in> free_set (b # bs) \<Longrightarrow> fst b \<le> x"
    and "fst b + snd b \<notin> free_set (b # bs)"
proof -
  have ok: "0 < snd b" and after: "\<forall>c\<in>set bs. apart b c"
    using assms by (simp_all add: wf_blocks_Cons block_ok_def)
  show "fst b \<in> free_set (b # bs)" using ok by (simp add: block_bytes_def)
  show "\<And>x. x \<in> free_set (b # bs) \<Longrightarrow> fst b \<le> x"
    using apart_after [OF after] by (fastforce simp: block_bytes_def)
  show "fst b + snd b \<notin> free_set (b # bs)"
    using apart_after [OF after] by (fastforce simp: block_bytes_def)
qed

lemma free_set_canonical:
  "wf_blocks lo hi bs \<Longrightarrow> wf_blocks lo' hi' cs \<Longrightarrow> free_set bs = free_set cs \<Longrightarrow> bs = cs"
proof (induction bs arbitrary: cs)
  case Nil
  then show ?case
    using wf_Cons_first(1) by (cases cs) fastforce+
next
  case (Cons b bs)
  then obtain c cs' where cs: "cs = c # cs'"
    using wf_Cons_first(1) [OF Cons.prems(1)] by (cases cs) auto
  note first_b = wf_Cons_first [OF Cons.prems(1)]
  note first_c = wf_Cons_first [OF Cons.prems(2) [unfolded cs]]
  have eq: "free_set (b # bs) = free_set (c # cs')" using Cons.prems(3) cs by simp
  have fst_eq: "fst b = fst c"
    using first_b(1,2) first_c(1,2) eq by (metis order_antisym)
  have "\<not> fst b + snd b < fst c + snd c"
    using first_b(3) eq fst_eq by (auto simp: block_bytes_def)
  moreover have "\<not> fst c + snd c < fst b + snd b"
    using first_c(3) eq fst_eq by (auto simp: block_bytes_def)
  ultimately have "snd b = snd c" using fst_eq by simp
  then have bc: "b = c" using fst_eq by (simp add: prod_eq_iff)
  have "free_set bs = free_set (b # bs) - block_bytes b"
    using Cons.prems(1) by (auto simp: wf_blocks_Cons block_bytes_def dest: apart_after)
  moreover have "free_set cs' = free_set (c # cs') - block_bytes c"
    using Cons.prems(2) cs by (auto simp: wf_blocks_Cons block_bytes_def dest: apart_after)
  ultimately have "free_set bs = free_set cs'" using eq bc by simp
  then show ?case
    using Cons.IH [of cs'] Cons.prems cs bc by (simp add: wf_blocks_Cons)
qed

subsection \<open>Allocation\<close>

lemma fl_alloc_NoneD: "fl_alloc n bs = None \<longleftrightarrow> (\<forall>b\<in>set bs. snd b < n)"
proof
  assume "fl_alloc n bs = None"
  then show "\<forall>b\<in>set bs. snd b < n"
    by (auto simp: fl_alloc_def dropWhile_eq_Nil_conv split: list.splits)
next
  assume "\<forall>b\<in>set bs. snd b < n"
  then have "dropWhile (\<lambda>b. snd b < n) bs = []" by (simp add: dropWhile_eq_Nil_conv)
  then show "fl_alloc n bs = None" unfolding fl_alloc_def by (simp only: list.case)
qed

text \<open>The shape of a successful allocation: the block that is cut and its neighbours.\<close>

lemma fl_alloc_SomeE:
  assumes "fl_alloc n bs = Some (p, cs)"
  obtains pre s post where "bs = pre @ (p, s) # post" and "\<forall>b\<in>set pre. snd b < n" and "n \<le> s"
    and "cs = pre @ (if s = n then post else (p + n, s - n) # post)"
proof -
  let ?P = "\<lambda>b. snd b < n"
  obtain b post where d: "dropWhile ?P bs = b # post"
    using assms by (auto simp: fl_alloc_def split: list.splits)
  have "\<not> ?P b" using hd_dropWhile [of ?P bs] d by simp
  moreover have "bs = takeWhile ?P bs @ b # post"
    using takeWhile_dropWhile_id [of ?P bs] d by simp
  moreover have "\<forall>b\<in>set (takeWhile ?P bs). ?P b" by (auto dest: set_takeWhileD)
  ultimately show thesis
    using assms d by (intro that [of "takeWhile ?P bs" "snd b" post])
      (auto simp: fl_alloc_def)
qed

lemma fl_alloc_wf:
  assumes "wf_blocks lo hi bs" and "fl_alloc n bs = Some (p, cs)" and "8 dvd n" and "0 < n"
  shows "wf_blocks lo hi cs"
proof -
  obtain pre s post where bs: "bs = pre @ (p, s) # post" and "n \<le> s"
    and cs: "cs = pre @ (if s = n then post else (p + n, s - n) # post)"
    using fl_alloc_SomeE [OF assms(2)] by metis
  then show ?thesis
    using assms by (auto simp: wf_blocks_simps block_ok_def apart_def dvd_diff_nat)
qed

lemma fl_alloc_bytes:
  assumes "wf_blocks lo hi bs" and "fl_alloc n bs = Some (p, cs)" and "0 < n"
  shows "{p ..< p + n} \<subseteq> free_set bs" and "free_set cs = free_set bs - {p ..< p + n}"
    and "8 dvd p" and "lo \<le> p" and "p + n \<le> hi"
proof -
  obtain pre s post where bs: "bs = pre @ (p, s) # post" and ns: "n \<le> s"
    and cs: "cs = pre @ (if s = n then post else (p + n, s - n) # post)"
    using fl_alloc_SomeE [OF assms(2)] by metis
  have wf: "wf_blocks lo hi ((p, s) # post)" and "\<forall>b\<in>set pre. apart b (p, s)"
    using assms(1) by (simp_all add: bs wf_blocks_append)
  then have pre: "\<And>x. x \<in> free_set pre \<Longrightarrow> x < p"
    by (force simp: free_set_def block_bytes_def apart_def)
  have post: "\<And>x. x \<in> free_set post \<Longrightarrow> p + s < x"
    using wf apart_after [of post "(p, s)"] by (simp add: wf_blocks_Cons)
  show "{p ..< p + n} \<subseteq> free_set bs" using ns by (auto simp: bs block_bytes_def)
  show "free_set cs = free_set bs - {p ..< p + n}"
    using ns by (auto simp: bs cs block_bytes_def dest: pre post)
  show "8 dvd p" "lo \<le> p" "p + n \<le> hi"
    using wf ns by (simp_all add: wf_blocks_Cons block_ok_def)
qed

subsection \<open>Release\<close>

lemma join_next_bytes:
  "free_set (join_next b post) = block_bytes b \<union> free_set post"
  by (auto simp: join_next_def block_bytes_def split: list.splits)

lemma join_next_wf:
  assumes "wf_blocks lo hi post" and "block_ok lo hi b"
    and "\<forall>c\<in>set post. fst b + snd b \<le> fst c"
  shows "wf_blocks lo hi (join_next b post)"
proof (cases post)
  case Nil
  then show ?thesis using assms by (simp add: join_next_def wf_blocks_Cons)
next
  case (Cons c rest)
  show ?thesis
  proof (cases "fst b + snd b = fst c")
    case True
    then show ?thesis
      using assms Cons by (auto simp: join_next_def wf_blocks_Cons block_ok_def apart_def)
  next
    case False
    then have "fst b + snd b < fst c" using assms(3) Cons by simp
    then have "\<forall>d\<in>set post. apart b d"
      using assms(1) Cons by (auto simp: wf_blocks_Cons apart_def)
    then show ?thesis
      using assms Cons False by (simp add: join_next_def wf_blocks_Cons)
  qed
qed

lemma join_prev_bytes:
  assumes "pre \<noteq> [] \<Longrightarrow> post \<noteq> []"
  shows "free_set (join_prev pre post) = free_set pre \<union> free_set post"
proof (cases "pre = []")
  case False
  obtain ps b where pre: "pre = ps @ [b]" using False by (cases pre rule: rev_cases) auto
  obtain c cs where post: "post = c # cs" using assms False by (cases post) auto
  show ?thesis
    by (auto simp: join_prev_def pre post block_bytes_def)
qed (simp add: join_prev_def)

lemma join_prev_wf:
  assumes "wf_blocks lo hi pre" and "wf_blocks lo hi post" and "post \<noteq> []"
    and "\<forall>b\<in>set pre. fst b + snd b \<le> fst (hd post)"
  shows "wf_blocks lo hi (join_prev pre post)"
proof (cases "pre = []")
  case False
  obtain ps b where pre: "pre = ps @ [b]" using False by (cases pre rule: rev_cases) auto
  obtain c cs where post: "post = c # cs" using assms(3) by (cases post) auto
  show ?thesis
  proof (cases "fst b + snd b = fst c")
    case True
    then show ?thesis
      using assms by (fastforce simp: join_prev_def pre post wf_blocks_simps block_ok_def apart_def)
  next
    case False
    then have "fst b + snd b < fst c" using assms(4) pre post by simp
    then show ?thesis
      using assms False
      by (fastforce simp: join_prev_def pre post wf_blocks_simps block_ok_def apart_def)
  qed
qed (use assms in \<open>simp add: join_prev_def\<close>)

text \<open>A block outside the free bytes splits the free list into what ends before and starts after.\<close>

lemma disjoint_block_before:
  assumes "block_ok lo hi c" and "{p ..< p + n} \<inter> block_bytes c = {}" and "fst c < p" and "0 < n"
  shows "fst c + snd c \<le> p"
proof (rule ccontr)
  assume "\<not> fst c + snd c \<le> p"
  then have "p \<in> {p ..< p + n} \<inter> block_bytes c" using assms(3,4) by (simp add: block_bytes_def)
  then show False using assms(2) by simp
qed

lemma disjoint_block_after:
  assumes "block_ok lo hi c" and "{p ..< p + n} \<inter> block_bytes c = {}" and "\<not> fst c < p"
  shows "p + n \<le> fst c"
proof (rule ccontr)
  assume "\<not> p + n \<le> fst c"
  then have "fst c \<in> {p ..< p + n} \<inter> block_bytes c"
    using assms(1,3) by (simp add: block_bytes_def block_ok_def)
  then show False using assms(2) by simp
qed

lemma fl_free_split:
  assumes "wf_blocks lo hi bs" and "{p ..< p + n} \<inter> free_set bs = {}" and "0 < n"
  defines "pre \<equiv> takeWhile (\<lambda>b. fst b < p) bs" and "post \<equiv> dropWhile (\<lambda>b. fst b < p) bs"
  shows "bs = pre @ post" and "\<forall>b\<in>set pre. fst b + snd b \<le> p" and "\<forall>b\<in>set post. p + n \<le> fst b"
    and "wf_blocks lo hi pre" and "wf_blocks lo hi post"
proof -
  show bs: "bs = pre @ post" by (simp add: pre_def post_def)
  show wpre: "wf_blocks lo hi pre" and wpost: "wf_blocks lo hi post"
    using assms(1) unfolding bs by (simp_all add: wf_blocks_append)
  have disj: "{p ..< p + n} \<inter> block_bytes b = {}" if "b \<in> set bs" for b
    using assms(2) that by (auto simp: free_set_def)
  show "\<forall>b\<in>set pre. fst b + snd b \<le> p"
  proof
    fix b assume b: "b \<in> set pre"
    then have "fst b < p" by (auto simp: pre_def dest: set_takeWhileD)
    then show "fst b + snd b \<le> p"
      using disjoint_block_before [OF wf_blocks_ok [OF wpre b] disj] b bs assms(3) by simp
  qed
  show "\<forall>b\<in>set post. p + n \<le> fst b"
  proof (cases post)
    case (Cons c cs)
    then have "dropWhile (\<lambda>b. fst b < p) bs = c # cs" by (simp add: post_def)
    from this [unfolded dropWhile_eq_Cons_conv] have "\<not> fst c < p" by simp
    then have "p + n \<le> fst c"
      using disjoint_block_after [OF wf_blocks_ok [OF wpost]] disj bs Cons by simp
    moreover have "fst c < fst d" if "d \<in> set cs" for d
      using wpost that Cons by (auto simp: wf_blocks_Cons apart_def)
    ultimately show ?thesis using Cons by fastforce
  qed simp
qed

lemma join_next_not_Nil [simp]: "join_next b post \<noteq> []"
  by (simp add: join_next_def split: list.splits)

lemma fst_hd_join_next [simp]: "fst (hd (join_next b post)) = fst b"
  by (simp add: join_next_def split: list.splits)

lemma fl_free_bytes:
  assumes "wf_blocks lo hi bs" and "{p ..< p + n} \<inter> free_set bs = {}" and "0 < n"
  shows "free_set (fl_free p n bs) = free_set bs \<union> {p ..< p + n}"
proof -
  note split = fl_free_split [OF assms]
  have "free_set bs = free_set (takeWhile (\<lambda>b. fst b < p) bs) \<union>
      free_set (dropWhile (\<lambda>b. fst b < p) bs)"
    using arg_cong [OF split(1), of free_set] by (simp only: free_set_append)
  then show ?thesis
    by (auto simp: fl_free_def join_prev_bytes join_next_bytes block_bytes_def)
qed

lemma fl_free_wf:
  assumes "wf_blocks lo hi bs" and "{p ..< p + n} \<inter> free_set bs = {}"
    and ok: "block_ok lo hi (p, n)"
  shows "wf_blocks lo hi (fl_free p n bs)"
proof -
  have n: "0 < n" using ok by (simp add: block_ok_def)
  note split = fl_free_split [OF assms(1,2) n]
  have "wf_blocks lo hi (join_next (p, n) (dropWhile (\<lambda>b. fst b < p) bs))"
    using join_next_wf [OF split(5) ok] split(3) by simp
  then show ?thesis
    unfolding fl_free_def using split(2) by (intro join_prev_wf [OF split(4)]) simp_all
qed

lemma fl_alloc_block_ok:
  assumes "wf_blocks lo hi bs" and "fl_alloc n bs = Some (p, cs)" and "8 dvd n" and "0 < n"
  shows "block_ok lo hi (p, n)"
  using fl_alloc_bytes [OF assms(1,2,4)] assms(3,4) by (simp add: block_ok_def)

text \<open>Releasing what was just allocated restores the list, splits and joins included.\<close>

lemma fl_alloc_free:
  assumes "wf_blocks lo hi bs" and "fl_alloc n bs = Some (p, cs)" and "8 dvd n" and "0 < n"
  shows "fl_free p n cs = bs"
proof (rule free_set_canonical)
  note bytes = fl_alloc_bytes [OF assms(1,2,4)]
  note wf = fl_alloc_wf [OF assms]
  have disj: "{p ..< p + n} \<inter> free_set cs = {}" using bytes(2) by auto
  show "wf_blocks lo hi (fl_free p n cs)"
    by (rule fl_free_wf [OF wf disj fl_alloc_block_ok [OF assms]])
  show "free_set (fl_free p n cs) = free_set bs"
    using fl_free_bytes [OF wf disj assms(4)] bytes(1,2) by auto
qed (rule assms(1))

text \<open>Releases of disjoint blocks commute: only the set of free bytes matters.\<close>

lemma fl_free_commute:
  assumes "wf_blocks lo hi bs" and "block_ok lo hi (p, n)" and "block_ok lo hi (q, k)"
    and "{p ..< p + n} \<inter> free_set bs = {}" and "{q ..< q + k} \<inter> free_set bs = {}"
    and "{p ..< p + n} \<inter> {q ..< q + k} = {}"
  shows "fl_free p n (fl_free q k bs) = fl_free q k (fl_free p n bs)"
proof (rule free_set_canonical)
  have n: "0 < n" and k: "0 < k" using assms(2,3) by (simp_all add: block_ok_def)
  note wq = fl_free_wf [OF assms(1,5,3)] and bq = fl_free_bytes [OF assms(1,5) k]
  note wp = fl_free_wf [OF assms(1,4,2)] and bp = fl_free_bytes [OF assms(1,4) n]
  have dp: "{p ..< p + n} \<inter> free_set (fl_free q k bs) = {}" using assms(4,6) by (auto simp: bq)
  have dq: "{q ..< q + k} \<inter> free_set (fl_free p n bs) = {}" using assms(5,6) by (auto simp: bp)
  show "wf_blocks lo hi (fl_free p n (fl_free q k bs))" by (rule fl_free_wf [OF wq dp assms(2)])
  show "wf_blocks lo hi (fl_free q k (fl_free p n bs))" by (rule fl_free_wf [OF wp dq assms(3)])
  show "free_set (fl_free p n (fl_free q k bs)) = free_set (fl_free q k (fl_free p n bs))"
    using fl_free_bytes [OF wq dp n] fl_free_bytes [OF wp dq k] bq bp by auto
qed

end
