(* ===== verification/Flex_Alloc_Props.thy ===== *)
theory Flex_Alloc_Props
  imports Flex_Alloc Free_Blocks
begin

text \<open>
  The allocator of \<open>Flex_Alloc\<close> refines the abstract free list of \<open>Free_Blocks\<close>: \<open>fl m p bs\<close>
  relates the linked list that starts at \<open>p\<close> in memory \<open>m\<close> to the block list \<open>bs\<close>, and each
  operation of the code computes the list function of the specification while it changes no
  word outside the bytes it owns.  The invariant \<open>alloc_inv\<close> and its preservation, the absence
  of overlap, first fit, coalescing and the malloc/free round trip follow.
\<close>

subsection \<open>Linked lists in memory\<close>

fun seg :: "heap \<Rightarrow> u32 \<Rightarrow> blocks \<Rightarrow> u32 \<Rightarrow> bool" where
  "seg m p [] q = (p = q)"
| "seg m p (b # bs) q =
     (p \<noteq> 0 \<and> unat p = fst b \<and> unat (blk_size m p) = snd b \<and> seg m (blk_next m p) bs q)"

definition fl :: "heap \<Rightarrow> u32 \<Rightarrow> blocks \<Rightarrow> bool" where
  "fl m p bs = seg m p bs 0"

definition last_addr :: "u32 \<Rightarrow> blocks \<Rightarrow> u32" where
  "last_addr prev bs = (if bs = [] then prev else of_nat (fst (last bs)))"

definition hd_addr :: "blocks \<Rightarrow> u32" where
  "hd_addr bs = (case bs of [] \<Rightarrow> 0 | b # _ \<Rightarrow> of_nat (fst b))"

lemma seg_append: "seg m p (xs @ ys) q \<longleftrightarrow> (\<exists>r. seg m p xs r \<and> seg m r ys q)"
  by (induction xs arbitrary: p) simp_all

lemma of_nat_unat_eq: "unat p = a \<Longrightarrow> of_nat a = (p :: u32)"
  by auto

lemma seg_Cons_ptr: "seg m p (b # bs) q \<Longrightarrow> of_nat (fst b) = p \<and> p \<noteq> 0"
  by (simp add: of_nat_unat_eq)

lemma fl_hd_addr: "fl m p bs \<Longrightarrow> hd_addr bs = p"
  using seg_Cons_ptr [of m p] by (cases bs) (simp_all add: fl_def hd_addr_def del: seg.simps(2))

text \<open>Both list walks end on a list, and with the neighbours of the position they look for.\<close>

lemma search_fit_fl:
  "fl m p bs \<Longrightarrow> search_fit m sz prev p =
     Some (last_addr prev (takeWhile (\<lambda>b. snd b < unat sz) bs),
           hd_addr (dropWhile (\<lambda>b. snd b < unat sz) bs))"
proof (induction bs arbitrary: p prev)
  case Nil
  then show ?case
    by (subst search_fit.simps) (simp add: fl_def last_addr_def hd_addr_def)
next
  case (Cons b bs)
  then show ?case
    by (subst search_fit.simps)
      (auto simp: fl_def last_addr_def hd_addr_def word_less_nat_alt of_nat_unat_eq)
qed

lemma search_pos_fl:
  "fl m p bs \<Longrightarrow> search_pos m bp prev p =
     Some (last_addr prev (takeWhile (\<lambda>b. fst b < unat bp) bs),
           hd_addr (dropWhile (\<lambda>b. fst b < unat bp) bs))"
proof (induction bs arbitrary: p prev)
  case Nil
  then show ?case
    by (subst search_pos.simps) (simp add: fl_def last_addr_def hd_addr_def)
next
  case (Cons b bs)
  then show ?case
    by (subst search_pos.simps)
      (auto simp: fl_def last_addr_def hd_addr_def word_less_nat_alt of_nat_unat_eq)
qed

subsection \<open>Frames\<close>

text \<open>A block header is two words inside the block.\<close>

lemma header_bytes:
  assumes "block_ok lo hi b" and "hi \<le> 4294967296" and "unat (p :: u32) = fst b"
  shows "unat p \<in> block_bytes b" and "unat (p + 4) = fst b + 4" and "unat (p + 4) \<in> block_bytes b"
    and "p + 4 \<noteq> p"
proof -
  have eight: "8 \<le> snd b" using assms(1) by (auto simp: block_ok_def dest: dvd_imp_le)
  then have "fst b + 4 < 4294967296" using assms(1,2) by (simp add: block_ok_def)
  then show p4: "unat (p + 4) = fst b + 4" using assms(3) unat_add32 [of p 4] by simp
  show "unat p \<in> block_bytes b" and "unat (p + 4) \<in> block_bytes b"
    using eight p4 assms(3) by (simp_all add: block_bytes_def)
  show "p + 4 \<noteq> p" using p4 assms(3) by (metis add_eq_self_zero zero_neq_numeral)
qed

lemma seg_frame:
  assumes "wf_blocks lo hi bs" and "hi \<le> 4294967296"
    and "\<And>x. unat x \<in> free_set bs \<Longrightarrow> m' x = m x"
  shows "seg m p bs q \<Longrightarrow> seg m' p bs q"
  using assms(1,3)
proof (induction bs arbitrary: p)
  case Nil
  then show ?case by simp
next
  case (Cons b bs)
  have b: "block_ok lo hi b" using Cons.prems(2) by (simp add: wf_blocks_Cons)
  have p: "unat p = fst b" using Cons.prems(1) by simp
  note h = header_bytes [OF b assms(2) p]
  have "m' p = m p" and "m' (p + 4) = m (p + 4)" using h by (auto intro: Cons.prems(3))
  moreover have "seg m' (m (p + 4)) bs q"
    using Cons.prems by (intro Cons.IH) (auto simp: wf_blocks_Cons)
  ultimately show ?case using Cons.prems(1) by simp
qed

text \<open>Rewriting the last header of a segment gives a segment with the new last block and link.\<close>

lemma seg_snoc:
  assumes "seg m p xs r" and "wf_blocks lo hi xs" and "hi \<le> 4294967296"
    and "\<And>x. unat x \<in> free_set xs \<Longrightarrow> m' x = m x"
    and "r \<noteq> 0" and "unat r = a" and "unat (m' r) = s" and "m' (r + 4) = q"
  shows "seg m' p (xs @ [(a, s)]) q"
  using seg_frame [OF assms(2-4) assms(1)] assms(5-) by (auto simp: seg_append)

lemma seg_last:
  assumes "seg m p pre q" and "wf_blocks lo hi pre" and "hi \<le> 4294967296" and "pre \<noteq> []"
    and "prev = last_addr d pre"
  obtains xs s where "pre = xs @ [(unat prev, s)]" and "seg m p xs prev" and "prev \<noteq> 0"
    and "unat (m prev) = s" and "m (prev + 4) = q" and "unat (prev + 4) = unat prev + 4"
    and "unat prev \<in> free_set pre" and "unat (prev + 4) \<in> free_set pre" and "prev + 4 \<noteq> prev"
    and "unat prev \<notin> free_set xs" and "unat (prev + 4) \<notin> free_set xs"
proof -
  obtain xs b where pre: "pre = xs @ [b]" using assms(4) by (cases pre rule: rev_cases) auto
  obtain r where r: "seg m p xs r" "r \<noteq> 0" "unat r = fst b" "unat (m r) = snd b" "m (r + 4) = q"
    using assms(1) by (auto simp: pre seg_append)
  have prev: "prev = r"
    using assms(5) of_nat_unat_eq [OF r(3)] by (simp add: pre last_addr_def)
  have b: "block_ok lo hi b" and before: "\<forall>c\<in>set xs. apart c b"
    using assms(2) by (simp_all add: pre wf_blocks_simps)
  note h = header_bytes [OF b assms(3) r(3)]
  have out: "x \<notin> free_set xs" if "x \<in> block_bytes b" for x
    using before that by (force simp: free_set_def block_bytes_def apart_def)
  have "pre = xs @ [(unat prev, snd b)]" using pre r(3) prev by (simp add: prod_eq_iff)
  then show thesis
  proof (rule that)
    show "unat prev \<in> free_set pre" and "unat (prev + 4) \<in> free_set pre"
      using h prev by (simp_all add: pre)
    show "unat prev \<notin> free_set xs" and "unat (prev + 4) \<notin> free_set xs"
      using h prev out by simp_all
  qed (use prev r h in simp_all)
qed

lemma seg_relink:
  assumes "seg m p pre q" and "wf_blocks lo hi pre" and "hi \<le> 4294967296" and "pre \<noteq> []"
    and "prev = last_addr d pre" and "\<And>x. unat x \<in> free_set pre \<Longrightarrow> m' x = m x"
  shows "seg (m'(prev + 4 := q')) p pre q'"
proof -
  obtain xs s where pre: "pre = xs @ [(unat prev, s)]" and "seg m p xs prev" and "prev \<noteq> 0"
    and s: "unat (m prev) = s" and fresh: "unat (prev + 4) \<notin> free_set xs" and ne: "prev + 4 \<noteq> prev"
    and mem: "unat prev \<in> free_set pre"
    by (rule seg_last [OF assms(1-5)]) (rule that)
  have "seg (m'(prev + 4 := q')) p (xs @ [(unat prev, s)]) q'"
  proof (rule seg_snoc [OF \<open>seg m p xs prev\<close> _ assms(3)])
    show "wf_blocks lo hi xs" using assms(2) by (simp add: pre wf_blocks_append)
    show "(m'(prev + 4 := q')) x = m x" if "unat x \<in> free_set xs" for x
      using that fresh assms(6) [of x] by (auto simp: pre)
    show "unat ((m'(prev + 4 := q')) prev) = s" using ne s assms(6) [OF mem] by simp
  qed (use \<open>prev \<noteq> 0\<close> in simp_all)
  then show ?thesis using pre by simp
qed

subsection \<open>Allocation refines \<open>fl_alloc\<close>\<close>

lemma allocate_memory_None:
  assumes "fl m (first_block al) bs" and "fl_alloc (unat sz) bs = None"
  shows "allocate_memory al m sz = Some (0, al, m)"
proof -
  have "dropWhile (\<lambda>b. snd b < unat sz) bs = []"
    using assms(2) by (simp add: fl_alloc_NoneD dropWhile_eq_Nil_conv)
  then have "search_fit m sz 0 (first_block al) =
      Some (last_addr 0 (takeWhile (\<lambda>b. snd b < unat sz) bs), 0)"
    using search_fit_fl [OF assms(1)] by (simp only: hd_addr_def list.case)
  then show ?thesis by (simp add: allocate_memory_def)
qed

text \<open>What a block in the middle of a list gives: the walk stops at it, its header is known.\<close>

lemma fl_middle:
  assumes "fl m p (pre @ b # post)"
  obtains c where "seg m p pre c" and "c = of_nat (fst b)" and "c \<noteq> 0" and "unat c = fst b"
    and "unat (m c) = snd b" and "fl m (m (c + 4)) post"
proof -
  obtain c where c: "seg m p pre c" "seg m c (b # post) 0"
    using assms unfolding fl_def seg_append by blast
  show thesis
    using that [OF c(1)] seg_Cons_ptr [OF c(2)] c(2) by (simp add: fl_def)
qed

text \<open>
  Both operations end by hanging a list behind the blocks before the position: through the link
  field of the last of them, or through the allocator when there is none.
\<close>

definition link :: "u32 \<Rightarrow> u32 \<Rightarrow> alloc_t \<Rightarrow> heap \<Rightarrow> alloc_t \<times> heap" where
  "link prev q al m =
     (if prev \<noteq> 0 then (al, m(prev + 4 := q)) else (al\<lparr>first_block := q\<rparr>, m))"

lemma link_fl:
  assumes pre: "seg m (first_block al) pre c" and wf: "wf_blocks lo hi (pre @ rest)"
    and hi: "hi \<le> 4294967296" and agree: "\<And>x. unat x \<in> free_set pre \<Longrightarrow> m' x = m x"
    and rest: "fl m' q rest" and al': "(al', m'') = link (last_addr 0 pre) q al m'"
  shows "fl m'' (first_block al') (pre @ rest)"
    and "\<And>x. unat x \<notin> free_set pre \<Longrightarrow> m'' x = m' x"
proof -
  have wpre: "wf_blocks lo hi pre" and wrest: "wf_blocks lo hi rest"
    and ap: "\<forall>b\<in>set pre. \<forall>d\<in>set rest. apart b d"
    using wf by (simp_all add: wf_blocks_append)
  have "fl m'' (first_block al') (pre @ rest) \<and> (\<forall>x. unat x \<notin> free_set pre \<longrightarrow> m'' x = m' x)"
  proof (cases "pre = []")
    case True
    then show ?thesis using al' rest by (simp add: link_def last_addr_def)
  next
    case False
    let ?prev = "last_addr 0 pre"
    obtain xs t where prev: "?prev \<noteq> 0" "unat (?prev + 4) \<in> free_set pre"
      by (rule seg_last [OF pre wpre hi False refl]) (rule that)
    have m'': "al' = al" "m'' = m'(last_addr 0 pre + 4 := q)"
      using al' prev(1) by (simp_all add: link_def)
    have "seg m'' (first_block al) pre q"
      unfolding m'' by (rule seg_relink [OF pre wpre hi False refl agree])
    moreover have "seg m'' q rest 0"
    proof (rule seg_frame [OF wrest hi _ rest [unfolded fl_def]])
      fix x :: u32 assume "unat x \<in> free_set rest"
      then have "unat x \<notin> free_set pre"
        using ap by (fastforce simp: free_set_def block_bytes_def apart_def)
      then show "m'' x = m' x" using prev(2) by (auto simp: m'')
    qed
    ultimately show ?thesis using prev(2) by (auto simp: fl_def seg_append m'')
  qed
  then show "fl m'' (first_block al') (pre @ rest)"
    and "\<And>x. unat x \<notin> free_set pre \<Longrightarrow> m'' x = m' x" by auto
qed

text \<open>The remainder of a split block is a list of its own.\<close>

lemma fl_split_rest:
  assumes "wf_blocks lo hi ((unat c, s) # post)" and "hi \<le> 4294967296" and "unat (m c) = s"
    and "fl m (m (c + 4)) post" and "8 dvd unat sz" and "0 < unat sz" and "unat sz < s"
  defines "new \<equiv> c + sz"
  shows "unat new = unat c + unat sz" and "new \<noteq> 0" and "new \<noteq> c + 4" and "new + 4 \<noteq> new"
    and "unat (new + 4) = unat c + unat sz + 4" and "unat c + unat sz + 8 \<le> unat c + s"
    and "fl (m(new := m c - sz, new + 4 := m (c + 4))) new ((unat c + unat sz, s - unat sz) # post)"
proof -
  have ok: "block_ok lo hi (unat c, s)" and post: "wf_blocks lo hi post"
    and after: "\<forall>d\<in>set post. apart (unat c, s) d"
    using assms(1) by (simp_all add: wf_blocks_Cons)
  have "8 dvd s - unat sz" using ok assms(5) by (simp add: block_ok_def dvd_diff_nat)
  then have eight: "8 \<le> s - unat sz" using assms(7) by (auto dest: dvd_imp_le)
  have "8 \<le> unat sz" using assms(5,6) by (auto dest: dvd_imp_le)
  have bound: "unat c + s \<le> 4294967296" using ok assms(2) by (simp add: block_ok_def)
  show un: "unat new = unat c + unat sz"
    unfolding new_def using bound assms(7) by (intro unat_add32) simp
  show un4: "unat (new + 4) = unat c + unat sz + 4"
    using un eight bound assms(7) unat_add32 [of new 4] by simp
  have uc4: "unat (c + 4) = unat c + 4"
    using eight bound assms(7) unat_add32 [of c 4] by simp
  show "new \<noteq> 0" using un assms(6) by (metis add_is_0 less_numeral_extra(3) unat_0)
  show "new \<noteq> c + 4" using un uc4 \<open>8 \<le> unat sz\<close> by (auto simp: unat_eq_iff32)
  show ne: "new + 4 \<noteq> new" using un un4 by (auto simp: unat_eq_iff32)
  show "unat c + unat sz + 8 \<le> unat c + s" using eight assms(7) by simp
  let ?m = "m(new := m c - sz, new + 4 := m (c + 4))"
  have "fl ?m (m (c + 4)) post"
    unfolding fl_def
  proof (rule seg_frame [OF post assms(2) _ assms(4) [unfolded fl_def]])
    fix x :: u32 assume "unat x \<in> free_set post"
    then have "unat c + s < unat x" using apart_after [OF after] by simp
    then show "?m x = m x" using un un4 eight assms(7) by (auto simp: unat_eq_iff32)
  qed
  moreover have "unat (m c - sz) = s - unat sz"
    using assms(3,7) by (simp add: unat_sub32)
  ultimately show "fl ?m new ((unat c + unat sz, s - unat sz) # post)"
    using un ne \<open>new \<noteq> 0\<close> by (simp add: fl_def)
qed

lemma allocate_memory_link:
  assumes "search_fit m sz 0 (first_block al) = Some (prev, c)" and "c \<noteq> 0"
  shows "m c = sz \<Longrightarrow> allocate_memory al m sz = Some (c, link prev (m (c + 4)) al m)"
    and "m c \<noteq> sz \<Longrightarrow> c + sz \<noteq> c + 4 \<Longrightarrow> allocate_memory al m sz =
           Some (c, link prev (c + sz) al (m(c + sz := m c - sz, c + sz + 4 := m (c + 4))))"
  using assms by (simp_all add: allocate_memory_def link_def Let_def)

theorem allocate_memory_Some:
  assumes fl: "fl m (first_block al) bs" and wf: "wf_blocks lo hi bs" and hi: "hi \<le> 4294967296"
    and sz: "8 dvd unat sz" "0 < unat sz" and alloc: "fl_alloc (unat sz) bs = Some (p, cs)"
  obtains al' m' where "allocate_memory al m sz = Some (of_nat p, al', m')" and "0 < p"
    and "fl m' (first_block al') cs" and "\<And>x. unat x \<notin> free_set bs \<Longrightarrow> m' x = m x"
proof -
  obtain pre s post where bs: "bs = pre @ (p, s) # post" and small: "\<forall>b\<in>set pre. snd b < unat sz"
    and le: "unat sz \<le> s" and cs: "cs = pre @ (if s = unat sz then post else
      (p + unat sz, s - unat sz) # post)"
    using fl_alloc_SomeE [OF alloc] by metis
  obtain c where pre: "seg m (first_block al) pre c" and c: "c = of_nat p" "c \<noteq> 0" "unat c = p"
    "unat (m c) = s" and post: "fl m (m (c + 4)) post"
    using fl_middle [OF fl [unfolded bs]] by auto
  have search: "search_fit m sz 0 (first_block al) = Some (last_addr 0 pre, c)"
    using search_fit_fl [OF fl, of sz 0] small le c(1)
    by (simp add: bs takeWhile_append2 dropWhile_append2 hd_addr_def)
  have wmid: "wf_blocks lo hi ((unat c, s) # post)" and before: "\<forall>b\<in>set pre. apart b (p, s)"
    using wf c(3) by (simp_all add: bs wf_blocks_append)
  have pre_out: "\<And>x. x \<in> free_set pre \<Longrightarrow> x < p"
    using before by (force simp: free_set_def block_bytes_def apart_def)
  have p0: "0 < p" using c(2,3) by (metis gr0I unat_0_iff)
  note wcs = fl_alloc_wf [OF wf alloc sz, unfolded cs]
  show thesis
  proof (cases "s = unat sz")
    case True
    obtain al' m' where l: "(al', m') = link (last_addr 0 pre) (m (c + 4)) al m" by (metis surj_pair)
    have "allocate_memory al m sz = Some (c, al', m')"
      using allocate_memory_link(1) [OF search c(2)] c(4) True l by (simp add: unat_eq_iff32)
    moreover have "fl m' (first_block al') cs"
      using link_fl(1) [OF pre _ hi _ post l, of lo] wcs True by (simp add: cs)
    moreover have "m' x = m x" if "unat x \<notin> free_set bs" for x
      using link_fl(2) [OF pre _ hi _ post l, of lo x] wcs True that by (simp add: bs)
    ultimately show thesis using that c(1) p0 by simp
  next
    case False
    then have lt: "unat sz < s" using le by simp
    let ?m2 = "m(c + sz := m c - sz, c + sz + 4 := m (c + 4))"
    note rest = fl_split_rest [OF wmid hi c(4) post sz lt]
    obtain al' m' where l: "(al', m') = link (last_addr 0 pre) (c + sz) al ?m2"
      by (metis surj_pair)
    have in_block: "unat (c + sz) \<in> {p ..< p + s}" "unat (c + sz + 4) \<in> {p ..< p + s}"
      using rest(1,5,6) c(3) by simp_all
    have agree: "?m2 x = m x" if "unat x \<notin> {p ..< p + s}" for x using in_block that by auto
    have agree': "?m2 x = m x" if "unat x \<in> free_set pre" for x
      using pre_out [OF that] by (intro agree) simp
    have "m c \<noteq> sz" using c(4) False by auto
    then have "allocate_memory al m sz = Some (c, al', m')"
      using allocate_memory_link(2) [OF search c(2)] rest(3) l by simp
    moreover have "fl m' (first_block al') cs"
      using link_fl(1) [OF pre _ hi agree' rest(7) l, of lo] wcs False c(3) by (simp add: cs)
    moreover have "m' x = m x" if "unat x \<notin> free_set bs" for x
      using link_fl(2) [OF pre _ hi agree' rest(7) l, of lo x] wcs False c(3) that agree [of x]
      by (simp add: bs block_bytes_def)
    ultimately show thesis using that c(1) p0 by simp
  qed
qed

subsection \<open>Release refines \<open>fl_free\<close>\<close>

text \<open>The first half of \<open>free_memory\<close>: the block becomes the head of what follows it.\<close>

definition free_join_next :: "heap \<Rightarrow> u32 \<Rightarrow> u32 \<Rightarrow> u32 \<Rightarrow> heap" where
  "free_join_next m bp sz nxt =
     (if bp + sz = nxt then
        (let m1 = m(bp := sz + m nxt) in m1(bp + 4 := m1 (nxt + 4)))
      else m(bp := sz, bp + 4 := nxt))"

text \<open>The second half: the blocks before it are linked to it or absorb it.\<close>

definition free_join_prev :: "u32 \<Rightarrow> u32 \<Rightarrow> alloc_t \<Rightarrow> heap \<Rightarrow> alloc_t \<times> heap" where
  "free_join_prev prev bp al m =
     (if prev \<noteq> 0 \<and> prev + m prev = bp then
        (let m1 = m(prev := m prev + m bp) in (al, m1(prev + 4 := m1 (bp + 4))))
      else link prev bp al m)"

lemma free_memory_halves:
  assumes "search_pos m bp 0 (first_block al) = Some (prev, nxt)"
  shows "free_memory al m bp sz = Some (free_join_prev prev bp al (free_join_next m bp sz nxt))"
  using assms by (simp add: free_memory_def free_join_prev_def free_join_next_def link_def Let_def)

lemma fl_nonempty:
  assumes "fl m p (b # bs)"
  shows "p = of_nat (fst b)" and "p \<noteq> 0" and "unat p = fst b" and "unat (m p) = snd b"
    and "fl m (m (p + 4)) bs"
  using assms seg_Cons_ptr [of m p b bs 0] by (simp_all add: fl_def)

lemma free_join_next_fl:
  assumes post: "fl m nxt post" and wf: "wf_blocks lo hi post" and hi: "hi < 4294967296"
    and ok: "block_ok lo hi (unat bp, unat sz)" and bp: "bp \<noteq> 0"
    and after: "\<forall>c\<in>set post. unat bp + unat sz \<le> fst c"
  defines "m' \<equiv> free_join_next m bp sz nxt"
  shows "fl m' bp (join_next (unat bp, unat sz) post)"
    and "\<And>x. unat x \<notin> {unat bp ..< unat bp + unat sz} \<Longrightarrow> m' x = m x"
proof -
  note h = header_bytes [OF ok less_imp_le [OF hi], of bp, simplified]
  have agree: "m' x = m x" if "unat x \<notin> {unat bp ..< unat bp + unat sz}" for x
    using that h by (auto simp: m'_def free_join_next_def Let_def block_bytes_def)
  then show "\<And>x. unat x \<notin> {unat bp ..< unat bp + unat sz} \<Longrightarrow> m' x = m x" .
  have end_bp: "unat (bp + sz) = unat bp + unat sz"
    using ok hi by (intro unat_add32) (simp add: block_ok_def)
  have frame: "fl m' q cs" if "fl m q cs" "set cs \<subseteq> set post" "wf_blocks lo hi cs" for q cs
    unfolding fl_def
  proof (rule seg_frame [OF that(3) less_imp_le [OF hi] _ that(1) [unfolded fl_def]])
    fix x :: u32 assume "unat x \<in> free_set cs"
    then have "unat bp + unat sz \<le> unat x"
      using that(2) after by (fastforce simp: free_set_def block_bytes_def)
    then show "m' x = m x" by (intro agree) simp
  qed
  show "fl m' bp (join_next (unat bp, unat sz) post)"
  proof (cases post)
    case Nil
    have "bp + sz \<noteq> 0" using end_bp ok by (metis add_is_0 block_ok_def less_irrefl snd_conv unat_0)
    moreover have "nxt = 0" using post Nil by (simp add: fl_def)
    ultimately show ?thesis
      using Nil h bp by (simp add: m'_def free_join_next_def join_next_def fl_def)
  next
    case (Cons c cs)
    note c = fl_nonempty [OF post [unfolded Cons]]
    have wcs: "wf_blocks lo hi cs" and okc: "block_ok lo hi c"
      using wf Cons by (simp_all add: wf_blocks_Cons)
    note hc = header_bytes [OF okc less_imp_le [OF hi] c(3)]
    show ?thesis
    proof (cases "bp + sz = nxt")
      case True
      have joined: "unat bp + unat sz = fst c" using True end_bp c(3) by simp
      have "unat (sz + m nxt) = unat sz + snd c"
        using c(4) okc hi joined by (subst unat_add32) (simp_all add: block_ok_def)
      moreover have "fl m' (m (nxt + 4)) cs" using frame [OF c(5) _ wcs] Cons by auto
      moreover have "nxt + 4 \<noteq> bp"
        using hc(2) joined ok by (auto simp: unat_eq_iff32 block_ok_def)
      ultimately show ?thesis
        using True joined Cons h bp
        by (simp add: m'_def free_join_next_def Let_def join_next_def fl_def)
    next
      case False
      then have "unat bp + unat sz \<noteq> fst c" using end_bp c(3) by (metis unat_eq_iff32)
      moreover have "fl m' nxt post" by (rule frame [OF post subset_refl wf])
      ultimately show ?thesis
        using False Cons h bp by (simp add: m'_def free_join_next_def join_next_def fl_def)
    qed
  qed
qed

lemma free_join_prev_joined:
  assumes xs: "seg m0 q0 xs pv" "wf_blocks lo hi (xs @ [(unat pv, t)])" "pv \<noteq> 0" "unat (m pv) = t"
    and hi: "hi < 4294967296" and agree: "\<And>x. unat x \<in> free_set xs \<Longrightarrow> m x = m0 x"
    and post: "fl m bp ((p, k) # rest)" and wpost: "wf_blocks lo hi ((p, k) # rest)"
    and tp: "unat pv + t = p"
  defines "m' \<equiv> m(pv := m pv + m bp, pv + 4 := m (bp + 4))"
  shows "free_join_prev pv bp al m = (al, m')"
    and "fl m' q0 ((xs @ [(unat pv, t + k)]) @ rest)"
proof -
  note b = fl_nonempty [OF post]
  have pk: "p + k \<le> hi" and okb: "block_ok lo hi (p, k)" and wrest: "wf_blocks lo hi rest"
    using wpost by (simp_all add: wf_blocks_Cons block_ok_def)
  have okv: "block_ok lo hi (unat pv, t)" and wxs: "wf_blocks lo hi xs"
    and ap: "\<forall>c\<in>set xs. apart c (unat pv, t)"
    using xs(2) by (simp_all add: wf_blocks_simps)
  note hv = header_bytes [OF okv less_imp_le [OF hi], of pv, simplified]
  have sum: "unat (m pv + m bp) = t + k"
    using xs(4) b(4) tp pk hi by (subst unat_add32) simp_all
  have "unat (pv + m pv) = p" using xs(4) tp hi pk by (subst unat_add32) simp_all
  then have "pv + m pv = bp" using b(3) by (simp add: unat_eq_iff32)
  moreover have "unat (bp + 4) = p + 4"
    using header_bytes(2) [OF okb less_imp_le [OF hi], of bp] b(3) by simp
  then have "bp + 4 \<noteq> pv" using tp by (auto simp: unat_eq_iff32)
  ultimately show "free_join_prev pv bp al m = (al, m')"
    using xs(3) by (simp add: free_join_prev_def Let_def m'_def)
  have out: "m' y = m y" if "unat y < unat pv \<or> unat pv + t \<le> unat y" for y
    using that hv by (auto simp: m'_def block_bytes_def)
  have "seg m' q0 (xs @ [(unat pv, t + k)]) (m (bp + 4))"
  proof (rule seg_snoc [OF xs(1) wxs less_imp_le [OF hi] _ xs(3) refl])
    fix y :: u32 assume y: "unat y \<in> free_set xs"
    then have "unat y < unat pv"
      using ap by (force simp: free_set_def block_bytes_def apart_def)
    then show "m' y = m0 y" using agree [OF y] out by simp
  qed (use hv sum in \<open>auto simp: m'_def unat_eq_iff32\<close>)
  moreover have "fl m' (m (bp + 4)) rest"
    unfolding fl_def
  proof (rule seg_frame [OF wrest less_imp_le [OF hi] _ b(5) [unfolded fl_def fst_conv snd_conv]])
    fix y :: u32 assume "unat y \<in> free_set rest"
    then have "p + k < unat y" using wpost apart_after [of rest "(p, k)"] by (simp add: wf_blocks_Cons)
    then show "m' y = m y" using out tp by simp
  qed
  ultimately show "fl m' q0 ((xs @ [(unat pv, t + k)]) @ rest)"
    unfolding fl_def seg_append by blast
qed

lemma free_join_prev_fl:
  assumes pre: "seg m0 (first_block al) pre c" and wpre: "wf_blocks lo hi pre"
    and hi: "hi < 4294967296" and agree: "\<And>x. unat x \<in> free_set pre \<Longrightarrow> m x = m0 x"
    and post: "fl m bp ((p, k) # rest)" and wpost: "wf_blocks lo hi ((p, k) # rest)"
    and before: "\<forall>b\<in>set pre. fst b + snd b \<le> p"
    and al': "(al', m') = free_join_prev (last_addr 0 pre) bp al m"
  shows "fl m' (first_block al') (join_prev pre ((p, k) # rest))"
    and "\<And>x. unat x \<notin> free_set pre \<Longrightarrow> m' x = m x"
proof -
  have wf: "wf_blocks lo hi (join_prev pre ((p, k) # rest))"
    using before by (intro join_prev_wf [OF wpre wpost]) simp_all
  have "fl m' (first_block al') (join_prev pre ((p, k) # rest)) \<and>
      (\<forall>x. unat x \<notin> free_set pre \<longrightarrow> m' x = m x)"
  proof (cases "pre = []")
    case True
    then show ?thesis
      using al' post by (simp add: free_join_prev_def last_addr_def join_prev_def link_def)
  next
    case ne: False
    define pv where "pv = last_addr 0 pre"
    obtain xs t where x: "pre = xs @ [(unat pv, t)]" "seg m0 (first_block al) xs pv" "pv \<noteq> 0"
      "unat (m0 pv) = t" "unat pv \<in> free_set pre" "unat (pv + 4) \<in> free_set pre"
      by (rule seg_last [OF pre wpre less_imp_le [OF hi] ne pv_def]) (rule that)
    have al'': "(al', m') = free_join_prev pv bp al m" using al' by (simp add: pv_def)
    have mp: "unat (m pv) = t" using agree [OF x(5)] x(4) by simp
    have wx: "wf_blocks lo hi (xs @ [(unat pv, t)])" using wpre x(1) by simp
    show ?thesis
    proof (cases "unat pv + t = p")
      case True
      have agree': "\<And>y. unat y \<in> free_set xs \<Longrightarrow> m y = m0 y" using agree x(1) by simp
      note j = free_join_prev_joined [OF x(2) wx x(3) mp hi agree' post wpost True]
      have "join_prev pre ((p, k) # rest) = (xs @ [(unat pv, t + k)]) @ rest"
        using x(1) True by (simp add: join_prev_def)
      moreover have "al' = al" and "m' = m(pv := m pv + m bp, pv + 4 := m (bp + 4))"
        using al'' j(1) [of al] by simp_all
      ultimately show ?thesis using j(2) x(5,6) by auto
    next
      case False
      have "unat pv + t \<le> hi" using wx by (simp add: wf_blocks_simps block_ok_def)
      then have "unat (pv + m pv) = unat pv + t" using mp hi by (subst unat_add32) simp_all
      then have "pv + m pv \<noteq> bp" using fl_nonempty(3) [OF post] False by auto
      then have l: "(al', m') = link (last_addr 0 pre) bp al m"
        using al'' by (simp add: free_join_prev_def pv_def)
      have same: "join_prev pre ((p, k) # rest) = pre @ (p, k) # rest"
        using False x(1) by (simp add: join_prev_def)
      show ?thesis
        using link_fl [OF pre wf [unfolded same] less_imp_le [OF hi] agree post l] same by simp
    qed
  qed
  then show "fl m' (first_block al') (join_prev pre ((p, k) # rest))"
    and "\<And>x. unat x \<notin> free_set pre \<Longrightarrow> m' x = m x" by auto
qed

text \<open>The header words of a released block lie in it; the walk stops where the specification cuts.\<close>

lemma join_next_Cons: "\<exists>k rest. join_next (p, n) post = (p, k) # rest"
  by (simp add: join_next_def split: list.splits)

lemma free_memory_fl:
  assumes fl: "fl m (first_block al) bs" and wf: "wf_blocks lo hi bs" and hi: "hi < 4294967296"
    and ok: "block_ok lo hi (unat bp, unat sz)" and bp: "bp \<noteq> 0"
    and disj: "{unat bp ..< unat bp + unat sz} \<inter> free_set bs = {}"
  obtains al' m' where "free_memory al m bp sz = Some (al', m')"
    and "fl m' (first_block al') (fl_free (unat bp) (unat sz) bs)"
    and "\<And>x. unat x \<notin> free_set bs \<union> {unat bp ..< unat bp + unat sz} \<Longrightarrow> m' x = m x"
proof -
  define pre where "pre = takeWhile (\<lambda>b. fst b < unat bp) bs"
  define post where "post = dropWhile (\<lambda>b. fst b < unat bp) bs"
  have sz: "0 < unat sz" using ok by (simp add: block_ok_def)
  note split = fl_free_split [OF wf disj sz, folded pre_def post_def]
  obtain c where pre: "seg m (first_block al) pre c" and "seg m c post 0"
    using fl split(1) unfolding fl_def by (metis seg_append)
  then have post: "fl m (hd_addr post) post" using fl_hd_addr [of m c post] by (simp add: fl_def)
  let ?m1 = "free_join_next m bp sz (hd_addr post)"
  note j = free_join_next_fl [OF post split(5) hi ok bp split(3)]
  obtain k rest where kr: "join_next (unat bp, unat sz) post = (unat bp, k) # rest"
    using join_next_Cons by metis
  have wj: "wf_blocks lo hi ((unat bp, k) # rest)"
    using join_next_wf [OF split(5) ok] split(3) kr by simp
  have agree: "?m1 x = m x" if "unat x \<in> free_set pre" for x :: u32
  proof (rule j(2))
    have "unat x < unat bp" using split(2) that by (fastforce simp: free_set_def block_bytes_def)
    then show "unat x \<notin> {unat bp ..< unat bp + unat sz}" by simp
  qed
  obtain al' m' where e: "(al', m') = free_join_prev (last_addr 0 pre) bp al ?m1" by (metis surj_pair)
  note f = free_join_prev_fl [OF pre split(4) hi agree j(1) [unfolded kr] wj split(2) e]
  have "free_memory al m bp sz = Some (al', m')"
    using free_memory_halves [OF search_pos_fl [OF fl]] e by (simp add: pre_def post_def)
  moreover have "fl m' (first_block al') (fl_free (unat bp) (unat sz) bs)"
    using f(1) kr by (simp add: fl_free_def pre_def post_def)
  moreover have "m' x = m x" if "unat x \<notin> free_set bs \<union> {unat bp ..< unat bp + unat sz}" for x
  proof -
    have "unat x \<notin> free_set pre" using that split(1) by (metis UnCI free_set_append)
    then show ?thesis using f(2) j(2) [of x] that by simp
  qed
  ultimately show thesis by (rule that)
qed

subsection \<open>The invariant\<close>

text \<open>
  The allocator manages the bytes \<open>[lo, hi)\<close>, its list in memory represents the well-formed block
  list \<open>bs\<close>.  A live block is a block in the region, outside the free bytes, that carries the
  header \<open>domain_malloc\<close> writes.
\<close>

definition alloc_inv :: "nat \<Rightarrow> nat \<Rightarrow> alloc_t \<Rightarrow> mstate \<Rightarrow> blocks \<Rightarrow> bool" where
  "alloc_inv lo hi al s bs =
     (fl (mheap s) (first_block al) bs \<and> wf_blocks lo hi bs \<and> 0 < lo \<and> hi < 4294967296)"

definition live_block :: "nat \<Rightarrow> nat \<Rightarrow> mstate \<Rightarrow> blocks \<Rightarrow> u32 \<Rightarrow> u32 \<Rightarrow> bool" where
  "live_block lo hi s bs bp n =
     (block_ok lo hi (unat bp, unat n) \<and> {unat bp ..< unat bp + unat n} \<inter> free_set bs = {} \<and>
      unat n < 2 ^ 24 \<and> mheap s bp = canary_encode bp n)"

text \<open>The size of the block that serves a request: the header word and the data, rounded up.\<close>

definition block_request :: "u32 \<Rightarrow> nat" where
  "block_request sz = (unat sz + 11) div 8 * 8"

lemma ALIGN_UP_8:
  assumes "unat x + 7 < 4294967296"
  shows "unat (ALIGN_UP x 8) = (unat x + 7) div 8 * 8"
proof -
  have "unat (x + 7) = unat x + 7" using assms unat_add32 [of x 7] by simp
  then show ?thesis by (simp add: ALIGN_UP_def add_diff_eq [symmetric] unat_and_neg8)
qed

lemma ALIGN_DOWN_8: "unat (ALIGN_DOWN x 8) = unat x div 8 * 8"
  by (simp add: ALIGN_DOWN_def unat_and_neg8)

lemma request_size:
  assumes "unat sz < 4294967285"
  shows "unat (ALIGN_UP (sz + 4) MIN_BLOCK_SIZE) = block_request sz"
proof -
  have "unat (sz + 4) = unat sz + 4" using assms unat_add32 [of sz 4] by simp
  then show ?thesis
    using assms ALIGN_UP_8 [of "sz + 4"] by (simp add: MIN_BLOCK_SIZE_def block_request_def)
qed

lemma block_request_bounds: "unat sz + 4 \<le> block_request sz" "block_request sz < unat sz + 12"
  "8 dvd block_request sz" "0 < block_request sz"
  unfolding block_request_def by linarith+ simp_all

text \<open>The header is read back exactly when the size fits in 24 bits.\<close>

lemma canary_decode_encode:
  assumes "unat n < 2 ^ 24"
  shows "canary_decode (canary_encode p n) = \<lparr>cs_size = n, cs_canary = canary p\<rparr>"
proof -
  have "take_bit 24 n = n"
    using assms by (simp add: word_unat_eq_iff unsigned_take_bit_eq take_bit_nat_eq_self)
  then have high: "\<And>i. bit n i \<Longrightarrow> i < 24" by (metis bit_take_bit_iff)
  have "drop_bit 8 (push_bit 8 n OR ucast (canary p)) = n"
    by (rule bit_eqI) (auto simp: bit_simps canary_def dest: high)
  moreover have "ucast ((push_bit 8 n OR ucast (canary p)) AND 0xFF) = canary p"
    by (rule bit_eqI) (auto simp: bit_simps canary_def)
  ultimately show ?thesis by (simp add: canary_decode_def canary_encode_def)
qed

subsection \<open>The allocator's entry points on the invariant\<close>

abbreviation (input) served :: "u32 \<Rightarrow> blocks \<Rightarrow> (nat \<times> blocks) option" where
  "served sz bs \<equiv> (if 2 ^ 24 \<le> block_request sz then None else fl_alloc (block_request sz) bs)"

lemma alloc_invD:
  assumes "alloc_inv lo hi al s bs"
  shows "fl (mheap s) (first_block al) bs" and "wf_blocks lo hi bs" and "0 < lo"
    and "hi < 4294967296"
  using assms by (simp_all add: alloc_inv_def)

lemma too_big_iff:
  assumes "unat sz < 4294967285"
  shows "push_bit 24 1 \<le> ALIGN_UP (sz + 4) MIN_BLOCK_SIZE \<longleftrightarrow> 2 ^ 24 \<le> block_request sz"
proof -
  have "unat (push_bit 24 1 :: u32) = 2 ^ 24" by simp
  then show ?thesis using request_size [OF assms] by (simp add: word_le_nat_alt)
qed

lemma domain_malloc_refused:
  assumes inv: "alloc_inv lo hi al s bs" and sz: "unat sz < 4294967285"
    and none: "served sz bs = None"
  obtains e where "domain_malloc al sz s = Some (0, al, s\<lparr>mlog := mlog s @ [e]\<rparr>)"
proof (cases "2 ^ 24 \<le> block_request sz")
  case True
  then show thesis
    using that too_big_iff [OF sz] by (simp add: domain_malloc_def)
next
  case False
  let ?n = "ALIGN_UP (sz + 4) MIN_BLOCK_SIZE"
  have "fl_alloc (unat ?n) bs = None" using none False request_size [OF sz] by simp
  then have "allocate_memory al (mheap s) ?n = Some (0, al, mheap s)"
    by (rule allocate_memory_None [OF alloc_invD(1) [OF inv]])
  then show thesis
    using that False too_big_iff [OF sz] by (simp add: domain_malloc_def Let_def)
qed

lemma domain_malloc_served:
  assumes inv: "alloc_inv lo hi al s bs" and sz: "unat sz < 4294967285"
    and some: "served sz bs = Some (p, cs)"
  obtains al' s' where "domain_malloc al sz s = Some (of_nat p + 4, al', s')" and "0 < p"
    and "p + block_request sz \<le> hi" and "mlog s' = mlog s"
    and "alloc_inv lo hi al' s' cs"
    and "live_block lo hi s' cs (of_nat p) (ALIGN_UP (sz + 4) MIN_BLOCK_SIZE)"
    and "\<And>x. unat x \<notin> free_set bs \<Longrightarrow> mheap s' x = mheap s x"
proof -
  let ?n = "ALIGN_UP (sz + 4) MIN_BLOCK_SIZE"
  note i = alloc_invD [OF inv]
  have n: "unat ?n = block_request sz" by (rule request_size [OF sz])
  have small: "\<not> 2 ^ 24 \<le> block_request sz" and al: "fl_alloc (unat ?n) bs = Some (p, cs)"
    using some n by (simp_all split: if_splits)
  have n8: "8 dvd unat ?n" "0 < unat ?n" using block_request_bounds [of sz] n by simp_all
  obtain al' m' where a: "allocate_memory al (mheap s) ?n = Some (of_nat p, al', m')" "0 < p"
      "fl m' (first_block al') cs" "\<And>x. unat x \<notin> free_set bs \<Longrightarrow> m' x = mheap s x"
    by (rule allocate_memory_Some [OF i(1,2) less_imp_le [OF i(4)] n8 al]) (rule that)
  note b = fl_alloc_bytes [OF i(2) al n8(2)] and ok = fl_alloc_block_ok [OF i(2) al n8]
  have p: "unat (of_nat p :: u32) = p" using b(5) i(4) by (simp add: unat_of_nat32)
  then have nz: "of_nat p \<noteq> (0 :: u32)" using a(2) by (metis less_numeral_extra(3) unat_0)
  define s' where "s' = s\<lparr>mheap := m'(of_nat p := canary_encode (of_nat p) ?n)\<rparr>"
  have pin: "p \<in> free_set bs" "p \<notin> free_set cs" using b(1,2) n8(2) by auto
  have ret: "domain_malloc al sz s = Some (of_nat p + 4, al', s')"
    using a(1) nz small too_big_iff [OF sz] by (simp add: domain_malloc_def Let_def s'_def)
  have "fl (mheap s') (first_block al') cs"
    unfolding fl_def
  proof (rule seg_frame [OF fl_alloc_wf [OF i(2) al n8] less_imp_le [OF i(4)] _ a(3) [unfolded fl_def]])
    show "mheap s' x = m' x" if "unat x \<in> free_set cs" for x
      using that p pin by (auto simp: s'_def)
  qed
  then have inv': "alloc_inv lo hi al' s' cs"
    using fl_alloc_wf [OF i(2) al n8] i(3,4) by (simp add: alloc_inv_def)
  have live: "live_block lo hi s' cs (of_nat p) ?n"
    using ok p b(2) small n by (simp add: live_block_def s'_def Int_Diff)
  have frame: "mheap s' x = mheap s x" if "unat x \<notin> free_set bs" for x
    using that p pin a(4) by (auto simp: s'_def)
  have "mlog s' = mlog s" by (simp add: s'_def)
  then show thesis by (rule that [OF ret a(2) b(5) [unfolded n] _ inv' live frame])
qed

lemma domain_free_live:
  assumes inv: "alloc_inv lo hi al s bs" and live: "live_block lo hi s bs bp n"
  obtains al' s' where "domain_free al (bp + 4) s = Some (al', s')" and "mlog s' = mlog s"
    and "alloc_inv lo hi al' s' (fl_free (unat bp) (unat n) bs)"
    and "\<And>x. unat x \<notin> free_set bs \<union> {unat bp ..< unat bp + unat n} \<Longrightarrow> mheap s' x = mheap s x"
proof -
  note i = alloc_invD [OF inv]
  have ok: "block_ok lo hi (unat bp, unat n)" and n24: "unat n < 2 ^ 24"
    and disj: "{unat bp ..< unat bp + unat n} \<inter> free_set bs = {}"
    and h: "mheap s bp = canary_encode bp n"
    using live by (simp_all add: live_block_def)
  have "bp \<noteq> 0" using ok i(3) by (auto simp: block_ok_def)
  then obtain al' m' where f: "free_memory al (mheap s) bp n = Some (al', m')"
      "fl m' (first_block al') (fl_free (unat bp) (unat n) bs)"
      "\<And>x. unat x \<notin> free_set bs \<union> {unat bp ..< unat bp + unat n} \<Longrightarrow> m' x = mheap s x"
    using free_memory_fl [OF i(1,2,4) ok _ disj] by metis
  have "canary_decode (canary_encode bp n) = \<lparr>cs_size = n, cs_canary = canary bp\<rparr>"
    by (rule canary_decode_encode [OF n24])
  then have "domain_free al (bp + 4) s = Some (al', s\<lparr>mheap := m'\<rparr>)"
    using h f(1) by (simp add: domain_free_def Let_def)
  then show thesis
    by (rule that) (use f i fl_free_wf [OF i(2) disj ok] in \<open>simp_all add: alloc_inv_def\<close>)
qed

text \<open>A header that does not carry the canary of its address: nothing is released.\<close>

lemma domain_free_corrupt:
  assumes "cs_canary (canary_decode (mheap s (ptr - 4))) \<noteq> canary (ptr - 4)"
  shows "domain_free al ptr s = Some (al, s\<lparr>mlog := mlog s @ [log_overflow (ptr - 4)]\<rparr>)"
  using assms by (simp add: domain_free_def Let_def)

subsection \<open>Initialisation\<close>

lemma flex_cluster_alloc_init_inv:
  assumes "0 < unat base" and "unat base + unat sz < 4294967296" and "15 \<le> unat sz"
  defines "lo \<equiv> (unat base + 7) div 8 * 8" and "n \<equiv> (unat base + unat sz - (unat base + 7) div 8 * 8) div 8 * 8"
  obtains al s' where "flex_cluster_alloc_init base sz s = (al, s')"
    and "alloc_inv lo (unat base + unat sz) al s' [(lo, n)]" and "mlog s' = mlog s"
proof -
  define bp where "bp = ALIGN_UP base 8"
  have bp: "unat bp = lo" using assms(2,3) unfolding bp_def lo_def by (intro ALIGN_UP_8) simp
  have lob: "unat base \<le> lo" "lo \<le> unat base + 7" "8 dvd lo" unfolding lo_def by linarith+ simp
  have "unat (bp - base) = lo - unat base" using bp lob by (subst unat_sub32) simp_all
  then have "unat (sz - (bp - base)) = unat base + unat sz - lo"
    using assms(3) lob by (subst unat_sub32) simp_all
  then have n: "unat (ALIGN_DOWN (sz - (bp - base)) 8) = n" by (simp add: ALIGN_DOWN_8 n_def lo_def)
  have "8 \<le> unat base + unat sz - lo" using assms(3) lob by linarith
  moreover have "8 \<le> k \<Longrightarrow> 8 \<le> k div 8 * 8" for k :: nat by presburger
  ultimately have "8 \<le> n" unfolding n_def lo_def [symmetric] by blast
  then have npos: "0 < n" "n \<le> unat base + unat sz - lo" "8 dvd n"
    by (simp, simp_all add: n_def lo_def)
  have b4: "bp + 4 \<noteq> bp" by simp
  have "bp \<noteq> 0" using bp lob assms(1) by auto
  then have "fl ((mheap s)(bp := ALIGN_DOWN (sz - (bp - base)) 8, bp + 4 := 0)) bp [(lo, n)]"
    using bp n b4 by (simp add: fl_def)
  moreover have "wf_blocks lo (unat base + unat sz) [(lo, n)]"
    using lob npos by (simp add: wf_blocks_Cons block_ok_def)
  ultimately show thesis
    using lob assms(1,2)
    by (intro that [OF surjective_pairing])
      (simp_all add: flex_cluster_alloc_init_def Let_def MIN_BLOCK_SIZE_def bp_def alloc_inv_def)
qed

end
