(* ===== verification/Heap_Interface.thy ===== *)
theory Heap_Interface
  imports SH_Prelude
begin

text \<open>
  The contract between a heap allocator and the programs that use it.  A client is a sequence of
  requests (\<open>heap_op\<close>): allocate, release one of the blocks it holds, store a word into one of
  them.  The locale \<open>heap_alloc\<close> states what the allocator promises about each call; inside it,
  any client run returns and keeps the blocks it holds disjoint, their words untouched and the
  pool of bytes complete.  \<open>Flex_Alloc_Client\<close> interprets it.
\<close>

datatype heap_op = Alloc u32 | Release nat | Store nat nat u32

type_synonym live = "(u32 \<times> u32) list"

text \<open>One request; the client keeps the pointers (and sizes) it holds, newest first.\<close>

fun heap_step :: "(u32 \<Rightarrow> 's \<Rightarrow> (u32 \<times> 's) option) \<Rightarrow> (u32 \<Rightarrow> 's \<Rightarrow> 's option) \<Rightarrow>
    (u32 \<Rightarrow> u32 \<Rightarrow> 's \<Rightarrow> 's) \<Rightarrow> heap_op \<Rightarrow> 's \<times> live \<Rightarrow> ('s \<times> live) option" where
  "heap_step alloc rel put (Alloc n) (s, L) =
     (case alloc n s of None \<Rightarrow> None
      | Some (p, s') \<Rightarrow> Some (s', if p = 0 then L else (p, n) # L))"
| "heap_step alloc rel put (Release i) (s, L) =
     (if i < length L then
        (case rel (fst (L ! i)) s of None \<Rightarrow> None
         | Some s' \<Rightarrow> Some (s', take i L @ drop (Suc i) L))
      else Some (s, L))"
| "heap_step alloc rel put (Store i k v) (s, L) =
     (if i < length L \<and> 4 * k + 4 \<le> unat (snd (L ! i))
      then Some (put (fst (L ! i) + of_nat (4 * k)) v s, L) else Some (s, L))"

fun heap_run :: "(u32 \<Rightarrow> 's \<Rightarrow> (u32 \<times> 's) option) \<Rightarrow> (u32 \<Rightarrow> 's \<Rightarrow> 's option) \<Rightarrow>
    (u32 \<Rightarrow> u32 \<Rightarrow> 's \<Rightarrow> 's) \<Rightarrow> heap_op list \<Rightarrow> 's \<times> live \<Rightarrow> ('s \<times> live) option" where
  "heap_run alloc rel put [] c = Some c"
| "heap_run alloc rel put (x # xs) c =
     (case heap_step alloc rel put x c of None \<Rightarrow> None | Some c' \<Rightarrow> heap_run alloc rel put xs c')"

fun op_accepted :: "(u32 \<Rightarrow> bool) \<Rightarrow> heap_op \<Rightarrow> bool" where
  "op_accepted P (Alloc n) = P n"
| "op_accepted P (Release i) = True"
| "op_accepted P (Store i k v) = True"

locale heap_alloc =
  fixes rep :: "'s \<Rightarrow> nat set \<Rightarrow> bool"
    and word_at :: "'s \<Rightarrow> heap"
    and extent :: "u32 \<Rightarrow> u32 \<Rightarrow> nat set"
    and owned :: "'s \<Rightarrow> u32 \<Rightarrow> u32 \<Rightarrow> bool"
    and accepts :: "u32 \<Rightarrow> bool"
    and alloc :: "u32 \<Rightarrow> 's \<Rightarrow> (u32 \<times> 's) option"
    and rel :: "u32 \<Rightarrow> 's \<Rightarrow> 's option"
    and put :: "u32 \<Rightarrow> u32 \<Rightarrow> 's \<Rightarrow> 's"
  assumes alloc_returns: "rep s A \<Longrightarrow> accepts n \<Longrightarrow> \<exists>p s'. alloc n s = Some (p, s')"
    and alloc_null: "rep s A \<Longrightarrow> accepts n \<Longrightarrow> alloc n s = Some (0, s') \<Longrightarrow>
           rep s' A \<and> word_at s' = word_at s"
    and alloc_block: "rep s A \<Longrightarrow> accepts n \<Longrightarrow> alloc n s = Some (p, s') \<Longrightarrow> p \<noteq> 0 \<Longrightarrow>
           extent p n \<subseteq> A \<and> rep s' (A - extent p n) \<and> owned s' p n"
    and alloc_frame: "rep s A \<Longrightarrow> accepts n \<Longrightarrow> alloc n s = Some (p, s') \<Longrightarrow> unat x \<notin> A \<Longrightarrow>
           word_at s' x = word_at s x"
    and release_block: "rep s A \<Longrightarrow> owned s p n \<Longrightarrow> extent p n \<inter> A = {} \<Longrightarrow>
           \<exists>s'. rel p s = Some s' \<and> rep s' (A \<union> extent p n)"
    and release_frame: "rep s A \<Longrightarrow> owned s p n \<Longrightarrow> extent p n \<inter> A = {} \<Longrightarrow> rel p s = Some s' \<Longrightarrow>
           unat x \<notin> A \<union> extent p n \<Longrightarrow> word_at s' x = word_at s x"
    and owned_frame: "owned s p n \<Longrightarrow> (\<And>x. unat x \<in> extent p n \<Longrightarrow> word_at s' x = word_at s x) \<Longrightarrow>
           owned s' p n"
    and data_block: "owned s p n \<Longrightarrow> unat p \<le> a \<Longrightarrow> a < unat p + unat n \<Longrightarrow>
           a \<in> extent p n \<and> a < 4294967296"
    and put_word: "word_at (put x v s) = (word_at s)(x := v)"
    and put_rep: "rep s A \<Longrightarrow> unat x \<notin> A \<Longrightarrow> rep (put x v s) A"
    and put_owned: "owned s p n \<Longrightarrow> unat x \<notin> extent p n \<or> unat p \<le> unat x \<Longrightarrow> owned (put x v s) p n"
begin

text \<open>
  What a client can rely on between requests: the blocks it holds are its own and pairwise
  disjoint, and with the available bytes \<open>A\<close> they make up the pool \<open>P\<close>.
\<close>

primrec held :: "live \<Rightarrow> nat set" where
  "held [] = {}"
| "held (b # L) = extent (fst b) (snd b) \<union> held L"

primrec separate :: "live \<Rightarrow> bool" where
  "separate [] = True"
| "separate (b # L) = (extent (fst b) (snd b) \<inter> held L = {} \<and> separate L)"

primrec all_owned :: "'s \<Rightarrow> live \<Rightarrow> bool" where
  "all_owned s [] = True"
| "all_owned s (b # L) = (owned s (fst b) (snd b) \<and> all_owned s L)"

definition client_ok :: "nat set \<Rightarrow> 's \<times> live \<Rightarrow> bool" where
  "client_ok P c =
     (all_owned (fst c) (snd c) \<and> separate (snd c) \<and>
      (\<exists>A. rep (fst c) A \<and> A \<inter> held (snd c) = {} \<and> A \<union> held (snd c) = P))"

lemma held_append [simp]: "held (L @ M) = held L \<union> held M"
  by (induction L) auto

lemma all_owned_append [simp]: "all_owned s (L @ M) \<longleftrightarrow> all_owned s L \<and> all_owned s M"
  by (induction L) auto

lemma separate_append [simp]:
  "separate (L @ M) \<longleftrightarrow> separate L \<and> separate M \<and> held L \<inter> held M = {}"
  by (induction L) auto

lemma client_okE:
  assumes "client_ok P (s, L)"
  obtains A where "rep s A" and "A \<inter> held L = {}" and "A \<union> held L = P"
  using assms by (auto simp: client_ok_def)

lemma client_okI:
  "all_owned s L \<Longrightarrow> separate L \<Longrightarrow> rep s A \<Longrightarrow> A \<inter> held L = {} \<Longrightarrow> A \<union> held L = P \<Longrightarrow>
     client_ok P (s, L)"
  by (auto simp: client_ok_def)

text \<open>The order of the blocks does not matter: a released block can be taken for the newest.\<close>

lemma client_ok_move:
  "client_ok P (s, xs @ b # ys) \<longleftrightarrow> client_ok P (s, b # xs @ ys)"
proof -
  have "held (xs @ b # ys) = held (b # xs @ ys)" by auto
  moreover have "separate (xs @ b # ys) \<longleftrightarrow> separate (b # xs @ ys)" by auto
  moreover have "all_owned s (xs @ b # ys) \<longleftrightarrow> all_owned s (b # xs @ ys)" by auto
  ultimately show ?thesis unfolding client_ok_def fst_conv snd_conv by (simp only:)
qed

lemma all_owned_frame:
  "all_owned s L \<Longrightarrow> (\<And>x. unat x \<in> held L \<Longrightarrow> word_at s' x = word_at s x) \<Longrightarrow> all_owned s' L"
  by (induction L) (auto intro: owned_frame)

lemma split_at:
  assumes "i < length L"
  shows "L = take i L @ L ! i # drop (Suc i) L"
  by (rule id_take_nth_drop [OF assms])

lemma step_Alloc:
  assumes c: "client_ok P (s, L)" and n: "accepts n"
  obtains s' L' where "heap_step alloc rel put (Alloc n) (s, L) = Some (s', L')"
    and "client_ok P (s', L')" and "\<And>x. unat x \<in> held L \<Longrightarrow> word_at s' x = word_at s x"
proof -
  obtain A where A: "rep s A" "A \<inter> held L = {}" "A \<union> held L = P" by (rule client_okE [OF c])
  have o: "all_owned s L" "separate L" using c by (simp_all add: client_ok_def)
  obtain p s' where e: "alloc n s = Some (p, s')" using alloc_returns [OF A(1) n] by blast
  have frame: "\<And>x. unat x \<in> held L \<Longrightarrow> word_at s' x = word_at s x"
    using alloc_frame [OF A(1) n e] A(2) by blast
  then have own: "all_owned s' L" by (rule all_owned_frame [OF o(1)])
  show thesis
  proof (cases "p = 0")
    case True
    then have "rep s' A" using alloc_null [OF A(1) n] e by simp
    then have "client_ok P (s', L)" by (rule client_okI [OF own o(2) _ A(2,3)])
    then show thesis using that [of s' L] e True frame by simp
  next
    case False
    note b = alloc_block [OF A(1) n e False]
    have "client_ok P (s', (p, n) # L)"
    proof (rule client_okI)
      show "all_owned s' ((p, n) # L)" using own b by simp
      show "separate ((p, n) # L)" using o(2) b A(2) by auto
      show "rep s' (A - extent p n)" using b by simp
      show "(A - extent p n) \<inter> held ((p, n) # L) = {}" using A(2) by auto
      show "A - extent p n \<union> held ((p, n) # L) = P" using b A(3) by auto
    qed
    then show thesis using that [of s' "(p, n) # L"] e False frame by simp
  qed
qed

lemma release_newest:
  assumes c: "client_ok P (s, b # L)"
  obtains s' where "rel (fst b) s = Some s'" and "client_ok P (s', L)"
    and "\<And>x. unat x \<in> held L \<Longrightarrow> word_at s' x = word_at s x"
proof -
  let ?E = "extent (fst b) (snd b)"
  have o: "owned s (fst b) (snd b)" "all_owned s L" "separate L" and d: "?E \<inter> held L = {}"
    using c by (simp_all add: client_ok_def)
  obtain A where A: "rep s A" "A \<inter> held (b # L) = {}" "A \<union> held (b # L) = P"
    by (rule client_okE [OF c])
  have dA: "?E \<inter> A = {}" using A(2) by auto
  obtain s' where e: "rel (fst b) s = Some s'" and r: "rep s' (A \<union> ?E)"
    using release_block [OF A(1) o(1) dA] by blast
  have frame: "word_at s' x = word_at s x" if "unat x \<in> held L" for x
  proof (rule release_frame [OF A(1) o(1) dA e])
    show "unat x \<notin> A \<union> ?E" using A(2) d that by auto
  qed
  have "client_ok P (s', L)"
  proof (rule client_okI [OF all_owned_frame [OF o(2) frame] o(3) r])
    show "(A \<union> ?E) \<inter> held L = {}" using A(2) d by auto
    show "A \<union> ?E \<union> held L = P" using A(3) by auto
  qed
  then show thesis by (rule that [OF e _ frame])
qed

lemma step_Release:
  assumes c: "client_ok P (s, L)"
  obtains s' L' where "heap_step alloc rel put (Release i) (s, L) = Some (s', L')"
    and "client_ok P (s', L')" and "\<And>x. unat x \<in> held L' \<Longrightarrow> word_at s' x = word_at s x"
proof (cases "i < length L")
  case True
  let ?L = "take i L @ drop (Suc i) L"
  have "client_ok P (s, take i L @ L ! i # drop (Suc i) L)"
    using c split_at [OF True] by simp
  then have "client_ok P (s, L ! i # ?L)" by (simp only: client_ok_move)
  then obtain s' where s': "rel (fst (L ! i)) s = Some s'" "client_ok P (s', ?L)"
      "\<And>x. unat x \<in> held ?L \<Longrightarrow> word_at s' x = word_at s x"
    by (rule release_newest) (rule that)
  then show thesis using that [of s' ?L] True by simp
next
  case False
  then show thesis using that [of s L] c by simp
qed

text \<open>A store into the data of a held block is outside the available bytes and every other block.\<close>

lemma put_newest:
  assumes c: "client_ok P (s, b # L)" and k: "4 * k + 4 \<le> unat (snd b)"
  shows "client_ok P (put (fst b + of_nat (4 * k)) v s, b # L)"
proof -
  let ?x = "fst b + of_nat (4 * k) :: u32" and ?E = "extent (fst b) (snd b)"
  have o: "owned s (fst b) (snd b)" "all_owned s L" "separate (b # L)" and d: "?E \<inter> held L = {}"
    using c by (simp_all add: client_ok_def)
  have a: "unat (fst b) + 4 * k \<in> ?E" "unat (fst b) + 4 * k < 4294967296"
    using data_block [OF o(1), of "unat (fst b) + 4 * k"] k by simp_all
  have x: "unat ?x = unat (fst b) + 4 * k"
    using a(2) unat_of_nat32 [of "4 * k"] by (subst unat_add32) simp_all
  obtain A where A: "rep s A" "A \<inter> held (b # L) = {}" "A \<union> held (b # L) = P"
    by (rule client_okE [OF c])
  have "unat ?x \<notin> A" using A(2) a(1) x by auto
  then have r: "rep (put ?x v s) A" by (rule put_rep [OF A(1)])
  have "word_at (put ?x v s) y = word_at s y" if "unat y \<in> held L" for y
    using that d a(1) x by (auto simp: put_word)
  then have "all_owned (put ?x v s) L" by (rule all_owned_frame [OF o(2)])
  moreover have "owned (put ?x v s) (fst b) (snd b)" by (rule put_owned [OF o(1)]) (simp add: x del: of_nat_mult)
  ultimately show ?thesis using o(3) A r by (intro client_okI [where A = A]) simp_all
qed

lemma step_Store:
  assumes c: "client_ok P (s, L)"
  obtains s' where "heap_step alloc rel put (Store i k v) (s, L) = Some (s', L)"
    and "client_ok P (s', L)"
proof (cases "i < length L \<and> 4 * k + 4 \<le> unat (snd (L ! i))")
  case True
  note L = split_at [OF conjunct1 [OF True]]
  let ?s = "put (fst (L ! i) + of_nat (4 * k)) v s"
  have "client_ok P (s, L ! i # take i L @ drop (Suc i) L)"
    using c L by (metis client_ok_move)
  then have "client_ok P (?s, L ! i # take i L @ drop (Suc i) L)"
    by (rule put_newest) (use True in simp)
  then have "client_ok P (?s, L)" using L by (metis client_ok_move)
  then show thesis using that [of ?s] True by simp
next
  case False
  then have "heap_step alloc rel put (Store i k v) (s, L) = Some (s, L)" by auto
  then show thesis using c by (rule that)
qed

lemma step_ok:
  assumes "client_ok P c" and "op_accepted accepts x"
  shows "\<exists>c'. heap_step alloc rel put x c = Some c' \<and> client_ok P c'"
proof -
  obtain s L where c: "c = (s, L)" by (cases c)
  note ok = assms(1) [unfolded c]
  show ?thesis
  proof (cases x)
    case (Alloc n)
    then have "accepts n" using assms(2) by simp
    then obtain s' L' where "heap_step alloc rel put (Alloc n) (s, L) = Some (s', L')"
        "client_ok P (s', L')"
      by (rule step_Alloc [OF ok]) (rule that)
    then show ?thesis using c Alloc by blast
  next
    case (Release i)
    obtain s' L' where "heap_step alloc rel put (Release i) (s, L) = Some (s', L')"
        "client_ok P (s', L')"
      by (rule step_Release [OF ok]) (rule that)
    then show ?thesis using c Release by blast
  next
    case (Store i k v)
    obtain s' where "heap_step alloc rel put (Store i k v) (s, L) = Some (s', L)"
        "client_ok P (s', L)"
      by (rule step_Store [OF ok]) (rule that)
    then show ?thesis using c Store by blast
  qed
qed

theorem run_ok:
  "client_ok P c \<Longrightarrow> list_all (op_accepted accepts) ops \<Longrightarrow>
     \<exists>c'. heap_run alloc rel put ops c = Some c' \<and> client_ok P c'"
proof (induction ops arbitrary: c)
  case (Cons x xs)
  then obtain c' where "heap_step alloc rel put x c = Some c'" "client_ok P c'"
    using step_ok [of P c x] by auto
  then show ?case using Cons by simp
qed simp

text \<open>Allocating and releasing leave the words of every block the client keeps.\<close>

theorem step_keeps_words:
  assumes "client_ok P (s, L)" and "op_accepted accepts x" and "\<And>i k v. x \<noteq> Store i k v"
    and e: "heap_step alloc rel put x (s, L) = Some (s', L')" and a: "unat a \<in> held L \<inter> held L'"
  shows "word_at s' a = word_at s a"
proof (cases x)
  case (Alloc n)
  then have "accepts n" using assms(2) by simp
  then obtain t M where "heap_step alloc rel put (Alloc n) (s, L) = Some (t, M)"
      "\<And>x. unat x \<in> held L \<Longrightarrow> word_at t x = word_at s x"
    by (rule step_Alloc [OF assms(1)]) (rule that)
  then show ?thesis using e a Alloc by (simp only: option.inject prod.inject) blast
next
  case (Release i)
  obtain t M where "heap_step alloc rel put (Release i) (s, L) = Some (t, M)"
      "\<And>x. unat x \<in> held M \<Longrightarrow> word_at t x = word_at s x"
    by (rule step_Release [OF assms(1), of i]) (rule that)
  then show ?thesis using e a Release by (simp only: option.inject prod.inject) blast
qed (use assms(3) in simp)

lemma held_mem: "(p, n) \<in> set L \<Longrightarrow> extent p n \<subseteq> held L"
  by (induction L) auto

lemma all_owned_mem: "all_owned s L \<Longrightarrow> (p, n) \<in> set L \<Longrightarrow> owned s p n"
  by (induction L) auto

lemma client_ok_owned: "client_ok P (s, L) \<Longrightarrow> (p, n) \<in> set L \<Longrightarrow> owned s p n"
  unfolding client_ok_def snd_conv fst_conv by (blast intro: all_owned_mem)

lemma separate_nth:
  "separate L \<Longrightarrow> i < j \<Longrightarrow> j < length L \<Longrightarrow>
     extent (fst (L ! i)) (snd (L ! i)) \<inter> extent (fst (L ! j)) (snd (L ! j)) = {}"
proof (induction L arbitrary: i j)
  case (Cons b L)
  show ?case
  proof (cases i)
    case 0
    have "L ! (j - 1) \<in> set L" using Cons.prems by (intro nth_mem) simp
    then have "extent (fst (L ! (j - 1))) (snd (L ! (j - 1))) \<subseteq> held L"
      using held_mem by (metis prod.collapse)
    then show ?thesis using Cons.prems 0 by (auto simp: nth_Cons')
  next
    case (Suc k)
    then show ?thesis using Cons.prems Cons.IH [of k "j - 1"] by (auto simp: nth_Cons')
  qed
qed simp

end

end
