(* ===== verification/Flex_Alloc_Client.thy ===== *)
theory Flex_Alloc_Client
  imports Flex_Alloc_Props Heap_Interface
begin

text \<open>
  The allocator of \<open>flex_alloc.h\<close> meets the contract \<open>heap_alloc\<close>: the state of the contract is
  the pair of the allocator and the memory, the available bytes are the bytes of the free list,
  and a held block starts at the header word in front of the pointer.  The facts \<open>da.run_ok\<close>
  and \<open>da.step_keeps_words\<close> of the interpretation hold for any sequence of client requests.
\<close>

type_synonym da_state = "alloc_t \<times> mstate"

definition da_rep :: "nat \<Rightarrow> nat \<Rightarrow> da_state \<Rightarrow> nat set \<Rightarrow> bool" where
  "da_rep lo hi c A = (\<exists>bs. alloc_inv lo hi (fst c) (snd c) bs \<and> A = free_set bs)"

definition da_word :: "da_state \<Rightarrow> heap" where
  "da_word c = mheap (snd c)"

definition da_extent :: "u32 \<Rightarrow> u32 \<Rightarrow> nat set" where
  "da_extent p n = {unat (p - 4) ..< unat (p - 4) + block_request n}"

definition da_owned :: "nat \<Rightarrow> nat \<Rightarrow> da_state \<Rightarrow> u32 \<Rightarrow> u32 \<Rightarrow> bool" where
  "da_owned lo hi c p n =
     (block_ok lo hi (unat (p - 4), block_request n) \<and> hi < 4294967296 \<and>
      unat n < 4294967285 \<and> block_request n < 2 ^ 24 \<and>
      mheap (snd c) (p - 4) = canary_encode (p - 4) (ALIGN_UP (n + 4) MIN_BLOCK_SIZE))"

definition da_accepts :: "u32 \<Rightarrow> bool" where
  "da_accepts n = (unat n < 4294967285)"

definition da_malloc :: "u32 \<Rightarrow> da_state \<Rightarrow> (u32 \<times> da_state) option" where
  "da_malloc n c =
     (case domain_malloc (fst c) n (snd c) of None \<Rightarrow> None | Some (p, al, s) \<Rightarrow> Some (p, (al, s)))"

definition da_free :: "u32 \<Rightarrow> da_state \<Rightarrow> da_state option" where
  "da_free p c = domain_free (fst c) p (snd c)"

definition da_put :: "u32 \<Rightarrow> u32 \<Rightarrow> da_state \<Rightarrow> da_state" where
  "da_put x v c = (fst c, (snd c)\<lparr>mheap := (mheap (snd c))(x := v)\<rparr>)"

subsection \<open>The promises, one by one\<close>

lemma da_malloc_cases:
  assumes r: "da_rep lo hi c A" and n: "da_accepts n"
  obtains (null) s' where "da_malloc n c = Some (0, s')" and "da_rep lo hi s' A"
      and "da_word s' = da_word c"
  | (block) p s' where "da_malloc n c = Some (p, s')" and "p \<noteq> 0" and "da_extent p n \<subseteq> A"
      and "da_rep lo hi s' (A - da_extent p n)" and "da_owned lo hi s' p n"
      and "\<And>x. unat x \<notin> A \<Longrightarrow> da_word s' x = da_word c x"
proof -
  obtain bs where inv: "alloc_inv lo hi (fst c) (snd c) bs" and A: "A = free_set bs"
    using r by (auto simp: da_rep_def)
  have n': "unat n < 4294967285" using n by (simp add: da_accepts_def)
  show thesis
  proof (cases "served n bs")
    case None
    then obtain e where "domain_malloc (fst c) n (snd c) = Some (0, fst c, (snd c)\<lparr>mlog := mlog (snd c) @ [e]\<rparr>)"
      by (rule domain_malloc_refused [OF inv n'])
    then show thesis
      using inv A by (intro null [of "(fst c, (snd c)\<lparr>mlog := mlog (snd c) @ [e]\<rparr>)"])
        (auto simp: da_malloc_def da_rep_def da_word_def alloc_inv_def)
  next
    case (Some pc)
    obtain p cs where pc: "pc = (p, cs)" by (cases pc)
    obtain al' s' where m: "domain_malloc (fst c) n (snd c) = Some (of_nat p + 4, al', s')" "0 < p"
      "p + block_request n \<le> hi" "alloc_inv lo hi al' s' cs"
      "live_block lo hi s' cs (of_nat p) (ALIGN_UP (n + 4) MIN_BLOCK_SIZE)"
      "\<And>x. unat x \<notin> free_set bs \<Longrightarrow> mheap s' x = mheap (snd c) x"
      by (rule domain_malloc_served [OF inv n' Some [unfolded pc]]) (rule that)
    have hi: "hi < 4294967296" by (rule alloc_invD(4) [OF inv])
    have small: "block_request n < 2 ^ 24" and al: "fl_alloc (block_request n) bs = Some (p, cs)"
      using Some pc by (simp_all split: if_splits)
    note b = fl_alloc_bytes [OF alloc_invD(2) [OF inv] al block_request_bounds(4)]
    have p: "unat (of_nat p :: u32) = p"
      using m(3) hi block_request_bounds(4) [of n] by (simp add: unat_of_nat32)
    have "unat (of_nat p + 4 :: u32) = p + 4"
      using p m(3) hi block_request_bounds(1) [of n] by (subst unat_add32) simp_all
    then have nz: "of_nat p + 4 \<noteq> (0 :: u32)" by (metis add_is_0 unat_0 zero_neq_numeral)
    have ext: "da_extent (of_nat p + 4) n = {p ..< p + block_request n}"
      using p by (simp add: da_extent_def)
    have "da_owned lo hi (al', s') (of_nat p + 4) n"
      using m(5) request_size [OF n'] p small n' hi by (simp add: live_block_def da_owned_def)
    moreover have "da_rep lo hi (al', s') (A - da_extent (of_nat p + 4) n)"
      using m(4) b(2) ext A by (auto simp: da_rep_def)
    ultimately show thesis
      using m(1,6) nz b(1) ext A
      by (intro block [of "of_nat p + 4" "(al', s')"]) (simp_all add: da_malloc_def da_word_def)
  qed
qed

lemma da_free_owned:
  assumes r: "da_rep lo hi c A" and o: "da_owned lo hi c p n" and d: "da_extent p n \<inter> A = {}"
  obtains s' where "da_free p c = Some s'" and "da_rep lo hi s' (A \<union> da_extent p n)"
    and "\<And>x. unat x \<notin> A \<union> da_extent p n \<Longrightarrow> da_word s' x = da_word c x"
proof -
  let ?w = "ALIGN_UP (n + 4) MIN_BLOCK_SIZE"
  obtain bs where inv: "alloc_inv lo hi (fst c) (snd c) bs" and A: "A = free_set bs"
    using r by (auto simp: da_rep_def)
  have w: "unat ?w = block_request n" using o by (intro request_size) (simp add: da_owned_def)
  have disj: "{unat (p - 4) ..< unat (p - 4) + block_request n} \<inter> free_set bs = {}"
    using d A by (simp add: da_extent_def)
  have "live_block lo hi (snd c) bs (p - 4) ?w"
    using o disj w by (simp add: da_owned_def live_block_def)
  then obtain al' s' where f: "domain_free (fst c) (p - 4 + 4) (snd c) = Some (al', s')"
      "alloc_inv lo hi al' s' (fl_free (unat (p - 4)) (unat ?w) bs)"
      "\<And>x. unat x \<notin> free_set bs \<union> {unat (p - 4) ..< unat (p - 4) + unat ?w} \<Longrightarrow>
         mheap s' x = mheap (snd c) x"
    by (rule domain_free_live [OF inv]) (rule that)
  have "free_set (fl_free (unat (p - 4)) (unat ?w) bs) = A \<union> da_extent p n"
    using fl_free_bytes [OF alloc_invD(2) [OF inv] disj block_request_bounds(4)] w A
    by (simp add: da_extent_def)
  then have "da_rep lo hi (al', s') (A \<union> da_extent p n)"
    using f(2) unfolding da_rep_def by auto
  then show thesis
    using f(1,3) w A by (intro that [of "(al', s')"])
      (simp_all add: da_free_def da_word_def da_extent_def)
qed

lemma da_owned_ptr:
  assumes o: "da_owned lo hi c p n"
  shows "unat p = unat (p - 4) + 4" and "unat (p - 4) + block_request n \<le> hi" and "hi < 4294967296"
proof -
  show b: "unat (p - 4) + block_request n \<le> hi" "hi < 4294967296"
    using o by (simp_all add: da_owned_def block_ok_def)
  then have "unat (p - 4 + 4) = unat (p - 4) + 4"
    using block_request_bounds(1) [of n] by (subst unat_add32) simp_all
  then show "unat p = unat (p - 4) + 4" by simp
qed

lemma da_owned_data:
  assumes o: "da_owned lo hi c p n" and a: "unat p \<le> a" "a < unat p + unat n"
  shows "a \<in> da_extent p n \<and> a < 4294967296"
proof -
  note p = da_owned_ptr [OF o]
  have "a \<in> da_extent p n"
    using p(1) a block_request_bounds(1) [of n] by (simp add: da_extent_def)
  then show ?thesis using p by (simp add: da_extent_def)
qed

lemma da_put_rep:
  assumes "da_rep lo hi c A" and "unat x \<notin> A"
  shows "da_rep lo hi (da_put x v c) A"
proof -
  obtain bs where inv: "alloc_inv lo hi (fst c) (snd c) bs" and A: "A = free_set bs"
    using assms(1) by (auto simp: da_rep_def)
  have "((mheap (snd c))(x := v)) y = mheap (snd c) y" if "unat y \<in> free_set bs" for y
    using that assms(2) A by auto
  then have "seg ((mheap (snd c))(x := v)) (first_block (fst c)) bs 0"
    using seg_frame [OF alloc_invD(2) [OF inv] less_imp_le [OF alloc_invD(4) [OF inv]] _
        alloc_invD(1) [OF inv, unfolded fl_def]] by blast
  then show ?thesis
    using inv A unfolding da_rep_def da_put_def alloc_inv_def fl_def by auto
qed

lemma da_header_in: "da_owned lo hi c p n \<Longrightarrow> unat (p - 4) \<in> da_extent p n"
  using block_request_bounds(4) [of n] by (simp add: da_extent_def)

interpretation da: heap_alloc "da_rep lo hi" da_word da_extent "da_owned lo hi" da_accepts
  da_malloc da_free da_put for lo hi
proof
  fix s A n p s' and x :: u32
  assume r: "da_rep lo hi s A" and n: "da_accepts n"
  show "\<exists>p s'. da_malloc n s = Some (p, s')" by (rule da_malloc_cases [OF r n]) blast+
  show "da_malloc n s = Some (0, s') \<Longrightarrow> da_rep lo hi s' A \<and> da_word s' = da_word s"
    by (rule da_malloc_cases [OF r n]) auto
  show "da_malloc n s = Some (p, s') \<Longrightarrow> p \<noteq> 0 \<Longrightarrow> da_extent p n \<subseteq> A \<and>
      da_rep lo hi s' (A - da_extent p n) \<and> da_owned lo hi s' p n"
    by (rule da_malloc_cases [OF r n]) auto
  show "da_malloc n s = Some (p, s') \<Longrightarrow> unat x \<notin> A \<Longrightarrow> da_word s' x = da_word s x"
    by (rule da_malloc_cases [OF r n]) auto
next
  fix s A p n s' and x :: u32
  assume r: "da_rep lo hi s A" and o: "da_owned lo hi s p n" and d: "da_extent p n \<inter> A = {}"
  show "\<exists>s'. da_free p s = Some s' \<and> da_rep lo hi s' (A \<union> da_extent p n)"
    by (rule da_free_owned [OF r o d]) blast
  show "da_free p s = Some s' \<Longrightarrow> unat x \<notin> A \<union> da_extent p n \<Longrightarrow> da_word s' x = da_word s x"
    by (rule da_free_owned [OF r o d]) auto
next
  fix s p n s'
  assume o: "da_owned lo hi s p n" and "\<And>x. unat x \<in> da_extent p n \<Longrightarrow> da_word s' x = da_word s x"
  then show "da_owned lo hi s' p n"
    using da_header_in [OF o] by (simp add: da_owned_def da_word_def)
next
  fix s p n a
  assume o: "da_owned lo hi s p n" and a: "unat p \<le> a" "a < unat p + unat n"
  show "a \<in> da_extent p n \<and> a < 4294967296" by (rule da_owned_data [OF o a])
next
  fix x v :: u32 and s
  show "da_word (da_put x v s) = (da_word s)(x := v)" by (simp add: da_word_def da_put_def)
next
  fix s A and x v :: u32
  assume "da_rep lo hi s A" and "unat x \<notin> A"
  then show "da_rep lo hi (da_put x v s) A" by (rule da_put_rep)
next
  fix s p n and x v :: u32
  assume o: "da_owned lo hi s p n" and x: "unat x \<notin> da_extent p n \<or> unat p \<le> unat x"
  have "x \<noteq> p - 4" using x da_header_in [OF o] da_owned_ptr(1) [OF o] by auto
  then show "da_owned lo hi (da_put x v s) p n" using o by (simp add: da_owned_def da_put_def)
qed

subsection \<open>Whole runs, from initialisation\<close>

text \<open>The pool of a heap of \<open>sz\<close> bytes at \<open>base\<close>: its first address and its size.\<close>

definition pool_lo :: "u32 \<Rightarrow> nat" where
  "pool_lo base = (unat base + 7) div 8 * 8"

definition pool_size :: "u32 \<Rightarrow> u32 \<Rightarrow> nat" where
  "pool_size base sz = (unat base + unat sz - pool_lo base) div 8 * 8"

definition heap_fits :: "u32 \<Rightarrow> u32 \<Rightarrow> bool" where
  "heap_fits base sz = (0 < unat base \<and> unat base + unat sz < 4294967296 \<and> 15 \<le> unat sz)"

lemma init_client_ok:
  assumes "heap_fits base sz"
  shows "heap_alloc.client_ok (da_rep (pool_lo base) (unat base + unat sz)) da_extent
      (da_owned (pool_lo base) (unat base + unat sz))
      {pool_lo base ..< pool_lo base + pool_size base sz} (flex_cluster_alloc_init base sz s, [])"
proof -
  obtain al s' where "flex_cluster_alloc_init base sz s = (al, s')"
    "alloc_inv (pool_lo base) (unat base + unat sz) al s' [(pool_lo base, pool_size base sz)]"
    using assms flex_cluster_alloc_init_inv [of base sz s thesis]
    unfolding heap_fits_def pool_lo_def pool_size_def by blast
  then show ?thesis
    by (intro da.client_okI [where A = "free_set [(pool_lo base, pool_size base sz)]"])
      (auto simp: da_rep_def block_bytes_def intro!: exI)
qed

text \<open>A held block takes as many bytes as the request rounded up; the rest is on the list.\<close>

lemma held_card:
  "da.separate L \<Longrightarrow> finite (da.held L) \<and> card (da.held L) = sum_list (map (\<lambda>b. block_request (snd b)) L)"
  by (induction L) (auto simp: card_Un_disjoint da_extent_def)

lemma held_free_bytes:
  assumes "wf_blocks lo hi bs" and "da.separate L" and "free_set bs \<inter> da.held L = {}"
    and "free_set bs \<union> da.held L = {a ..< a + n}"
  shows "free_bytes bs + sum_list (map (\<lambda>b. block_request (snd b)) L) = n"
proof -
  have "card (free_set bs \<union> da.held L) = card (free_set bs) + card (da.held L)"
    using held_card [OF assms(2)] assms(3) by (intro card_Un_disjoint) simp_all
  then show ?thesis using assms(4) held_card [OF assms(2)] free_bytes_card [OF assms(1)] by simp
qed

lemma run_from_init:
  assumes "heap_fits base sz" and "list_all (op_accepted da_accepts) ops"
  obtains al m L bs where
    "heap_run da_malloc da_free da_put ops (flex_cluster_alloc_init base sz s, []) = Some ((al, m), L)"
    and "alloc_inv (pool_lo base) (unat base + unat sz) al m bs"
    and "da.client_ok (pool_lo base) (unat base + unat sz)
           {pool_lo base ..< pool_lo base + pool_size base sz} ((al, m), L)"
    and "da.separate L" and "free_set bs \<inter> da.held L = {}"
    and "free_set bs \<union> da.held L = {pool_lo base ..< pool_lo base + pool_size base sz}"
proof -
  obtain c where run: "heap_run da_malloc da_free da_put ops (flex_cluster_alloc_init base sz s, []) = Some c"
    and ok: "da.client_ok (pool_lo base) (unat base + unat sz)
      {pool_lo base ..< pool_lo base + pool_size base sz} c"
    using da.run_ok [OF init_client_ok [OF assms(1)] assms(2)] by blast
  obtain al m L where c: "c = ((al, m), L)" by (metis surj_pair)
  obtain A where A: "da_rep (pool_lo base) (unat base + unat sz) (al, m) A" "A \<inter> da.held L = {}"
      "A \<union> da.held L = {pool_lo base ..< pool_lo base + pool_size base sz}"
    by (rule da.client_okE [OF ok [unfolded c]]) (rule that)
  obtain bs where bs: "alloc_inv (pool_lo base) (unat base + unat sz) al m bs" "A = free_set bs"
    using A(1) by (auto simp: da_rep_def)
  have "da.separate L" using ok by (simp add: c da.client_ok_def)
  then show thesis
    by (rule that [OF run [unfolded c] bs(1) ok [unfolded c] _ A(2,3) [unfolded bs(2)]])
qed

lemma pool_block_wf:
  assumes "heap_fits base sz"
  shows "wf_blocks (pool_lo base) (unat base + unat sz) [(pool_lo base, pool_size base sz)]"
proof -
  obtain al s' where "alloc_inv (pool_lo base) (unat base + unat sz) al s'
      [(pool_lo base, pool_size base sz)]"
    using assms flex_cluster_alloc_init_inv [of base sz undefined thesis]
    unfolding heap_fits_def pool_lo_def pool_size_def by blast
  then show ?thesis by (rule alloc_invD(2))
qed

subsection \<open>Properties\<close>

text \<open>C2: From \<open>flex_cluster_alloc_init\<close> on, every sequence of allocations, releases of held
  blocks and stores into held blocks returns (no list walk diverges); the blocks held at the end
  are pairwise disjoint and outside the free list, free and held bytes add up to the pool
  exactly, and when nothing is held the free list is the single initial block again.\<close>

theorem flex_alloc_run:
  assumes "heap_fits base sz" and "list_all (op_accepted da_accepts) ops"
  shows "\<exists>al m L bs.
    heap_run da_malloc da_free da_put ops (flex_cluster_alloc_init base sz s, []) = Some ((al, m), L) \<and>
    alloc_inv (pool_lo base) (unat base + unat sz) al m bs \<and>
    (\<forall>i j. i < j \<and> j < length L \<longrightarrow>
       da_extent (fst (L ! i)) (snd (L ! i)) \<inter> da_extent (fst (L ! j)) (snd (L ! j)) = {}) \<and>
    (\<forall>(p, n)\<in>set L. da_extent p n \<inter> free_set bs = {} \<and>
       da_extent p n \<subseteq> {pool_lo base ..< pool_lo base + pool_size base sz}) \<and>
    free_bytes bs + sum_list (map (\<lambda>b. block_request (snd b)) L) = pool_size base sz \<and>
    (L = [] \<longrightarrow> bs = [(pool_lo base, pool_size base sz)])"
proof -
  obtain al m L bs where r:
    "heap_run da_malloc da_free da_put ops (flex_cluster_alloc_init base sz s, []) = Some ((al, m), L)"
    "alloc_inv (pool_lo base) (unat base + unat sz) al m bs"
    "da.separate L" "free_set bs \<inter> da.held L = {}"
    "free_set bs \<union> da.held L = {pool_lo base ..< pool_lo base + pool_size base sz}"
    by (rule run_from_init [OF assms]) (rule that)
  note wf = alloc_invD(2) [OF r(2)]
  have "da_extent p n \<inter> free_set bs = {} \<and>
      da_extent p n \<subseteq> {pool_lo base ..< pool_lo base + pool_size base sz}" if "(p, n) \<in> set L" for p n
    using da.held_mem [OF that] r(4,5) by blast
  moreover have "bs = [(pool_lo base, pool_size base sz)]" if "L = []"
    using free_set_canonical [OF wf pool_block_wf [OF assms(1)]] r(5) that
    by (simp add: block_bytes_def)
  moreover have "free_bytes bs + sum_list (map (\<lambda>b. block_request (snd b)) L) = pool_size base sz"
    by (rule held_free_bytes [OF wf r(3-5)])
  ultimately show ?thesis
    using r(1,2) da.separate_nth [OF r(3)] by (intro exI [of _ al] exI [of _ m] exI [of _ L] exI [of _ bs]) blast
qed

theorem flex_alloc_run_witness:
  "\<exists>al m L bs.
    heap_run da_malloc da_free da_put [Alloc 100, Alloc 20, Store 0 3 7, Release 1, Release 0]
      (flex_cluster_alloc_init 0x100 0xFFF00 \<lparr>mheap = (\<lambda>_. 0), mlog = []\<rparr>, []) = Some ((al, m), L) \<and>
    alloc_inv (pool_lo 0x100) (unat (0x100 :: u32) + unat (0xFFF00 :: u32)) al m bs \<and>
    free_bytes bs + sum_list (map (\<lambda>b. block_request (snd b)) L) = 0xFFF00"
  using flex_alloc_run [of "0x100" "0xFFF00" "[Alloc 100, Alloc 20, Store 0 3 7, Release 1, Release 0]"
      "\<lparr>mheap = (\<lambda>_. 0), mlog = []\<rparr>"]
  by (force simp: heap_fits_def da_accepts_def pool_size_def pool_lo_def)

text \<open>C30: Allocation and release never touch the data of a block the program keeps: after any run
  from initialisation, one more request that is not a store leaves every word of the data of the
  blocks held before and after it.\<close>

theorem flex_alloc_keeps_data:
  assumes "heap_fits base sz" and "list_all (op_accepted da_accepts) (ops @ [x])"
    and "\<And>i k v. x \<noteq> Store i k v"
    and "heap_run da_malloc da_free da_put ops (flex_cluster_alloc_init base sz s, []) = Some (c, L)"
    and "heap_step da_malloc da_free da_put x (c, L) = Some (c', L')"
    and "(p, n) \<in> set L \<inter> set L'" and "unat p \<le> unat a" and "unat a < unat p + unat n"
  shows "mheap (snd c') a = mheap (snd c) a"
proof -
  have ops: "list_all (op_accepted da_accepts) ops" and x: "op_accepted da_accepts x"
    using assms(2) by simp_all
  have ok: "da.client_ok (pool_lo base) (unat base + unat sz)
      {pool_lo base ..< pool_lo base + pool_size base sz} (c, L)"
    using da.run_ok [OF init_client_ok [OF assms(1), of s] ops] assms(4) by auto
  have "da_owned (pool_lo base) (unat base + unat sz) c p n"
    using da.client_ok_owned [OF ok] assms(6) by blast
  then have "unat a \<in> da_extent p n" using da_owned_data assms(7,8) by blast
  then have "unat a \<in> da.held L \<inter> da.held L'" using da.held_mem assms(6) by blast
  then show ?thesis
    using da.step_keeps_words [OF ok x assms(3) assms(5)] by (simp add: da_word_def)
qed

text \<open>A first heap: 0x100 to 0x100000, as the cluster memory is laid out.\<close>

definition heap0 :: mstate where
  "heap0 = \<lparr>mheap = (\<lambda>_. 0), mlog = []\<rparr>"

lemma two_requests:
  "\<exists>c c'. heap_run da_malloc da_free da_put [Alloc 100] (flex_cluster_alloc_init 0x100 0xFFF00 heap0, [])
     = Some (c, [(0x104, 100)]) \<and>
   heap_step da_malloc da_free da_put (Alloc 20) (c, [(0x104, 100)]) = Some (c', [(0x16C, 20), (0x104, 100)])"
  by (simp add: flex_cluster_alloc_init_def ALIGN_UP_def ALIGN_DOWN_def MIN_BLOCK_SIZE_def heap0_def
      da_malloc_def domain_malloc_def allocate_memory_def Let_def)

theorem flex_alloc_keeps_data_witness:
  "\<exists>c c'. heap_run da_malloc da_free da_put [Alloc 100] (flex_cluster_alloc_init 0x100 0xFFF00 heap0, [])
     = Some (c, [(0x104, 100)]) \<and>
   heap_step da_malloc da_free da_put (Alloc 20) (c, [(0x104, 100)]) = Some (c', [(0x16C, 20), (0x104, 100)]) \<and>
   mheap (snd c') 0x120 = mheap (snd c) 0x120"
proof -
  obtain c c' where "heap_run da_malloc da_free da_put [Alloc 100]
      (flex_cluster_alloc_init 0x100 0xFFF00 heap0, []) = Some (c, [(0x104, 100)])"
    "heap_step da_malloc da_free da_put (Alloc 20) (c, [(0x104, 100)]) = Some (c', [(0x16C, 20), (0x104, 100)])"
    using two_requests by blast
  note r = this
  have eq: "mheap (snd c') 0x120 = mheap (snd c) 0x120"
    by (rule flex_alloc_keeps_data [OF _ _ _ r, where p = "0x104" and n = 100])
      (simp_all add: heap_fits_def da_accepts_def)
  show ?thesis by (rule exI [of _ c], rule exI [of _ c'], rule conjI [OF r(1) conjI [OF r(2) eq]])
qed

text \<open>C21: \<open>domain_malloc\<close> is first fit on the abstract free list.  A request that no free block can
  serve, or whose block would need \<open>2^24\<close> bytes or more, returns \<open>NULL\<close>, logs one message and
  changes nothing else; any other returns the word after the header of the first block that is
  large enough, removes exactly the bytes of the rounded-up request from the list and touches
  no word outside the free bytes.\<close>

theorem domain_malloc_first_fit:
  assumes "alloc_inv lo hi al s bs" and "unat sz < 4294967285"
  shows "\<exists>ptr al' s'. domain_malloc al sz s = Some (ptr, al', s') \<and>
    (case if 2 ^ 24 \<le> block_request sz then None else fl_alloc (block_request sz) bs of
       None \<Rightarrow> ptr = 0 \<and> al' = al \<and> mheap s' = mheap s \<and> length (mlog s') = Suc (length (mlog s))
     | Some (p, cs) \<Rightarrow> ptr = of_nat p + 4 \<and> ptr \<noteq> 0 \<and> mlog s' = mlog s \<and>
         alloc_inv lo hi al' s' cs \<and>
         live_block lo hi s' cs (of_nat p) (ALIGN_UP (sz + 4) MIN_BLOCK_SIZE) \<and>
         (\<forall>x. unat x \<notin> free_set bs \<longrightarrow> mheap s' x = mheap s x))"
proof (cases "served sz bs")
  case None
  then obtain e where "domain_malloc al sz s = Some (0, al, s\<lparr>mlog := mlog s @ [e]\<rparr>)"
    by (rule domain_malloc_refused [OF assms])
  then show ?thesis using None by (simp split: if_splits)
next
  case (Some pc)
  obtain p cs where pc: "pc = (p, cs)" by (cases pc)
  obtain al' s' where m: "domain_malloc al sz s = Some (of_nat p + 4, al', s')"
    "p + block_request sz \<le> hi" "mlog s' = mlog s" "alloc_inv lo hi al' s' cs"
    "live_block lo hi s' cs (of_nat p) (ALIGN_UP (sz + 4) MIN_BLOCK_SIZE)"
    "\<And>x. unat x \<notin> free_set bs \<Longrightarrow> mheap s' x = mheap s x"
    by (rule domain_malloc_served [OF assms Some [unfolded pc]]) (rule that)
  have "p + 4 < 4294967296"
    using m(2) alloc_invD(4) [OF assms(1)] block_request_bounds(1) [of sz] by linarith
  then have "unat (of_nat p + 4 :: u32) = p + 4"
    by (subst unat_add32) (simp_all add: unat_of_nat32)
  then have "of_nat p + 4 \<noteq> (0 :: u32)" by (metis add_is_0 unat_0 zero_neq_numeral)
  then show ?thesis using m(1,3-6) Some pc by (simp split: if_splits)
qed

lemma heap0_inv:
  "alloc_inv 0x100 0x100000 (fst (flex_cluster_alloc_init 0x100 0xFFF00 heap0))
     (snd (flex_cluster_alloc_init 0x100 0xFFF00 heap0)) [(0x100, 0xFFF00)]"
  by (simp add: alloc_inv_def flex_cluster_alloc_init_def ALIGN_UP_def ALIGN_DOWN_def
      MIN_BLOCK_SIZE_def heap0_def fl_def wf_blocks_Cons block_ok_def)

theorem domain_malloc_first_fit_witness:
  "\<exists>al' s'. domain_malloc (fst (flex_cluster_alloc_init 0x100 0xFFF00 heap0)) 100
     (snd (flex_cluster_alloc_init 0x100 0xFFF00 heap0)) = Some (0x104, al', s') \<and>
     alloc_inv 0x100 0x100000 al' s' [(0x168, 0xFFE98)]"
  using domain_malloc_first_fit [OF heap0_inv, of 100]
  by (auto simp: block_request_def fl_alloc_def)

text \<open>C22: \<open>domain_free\<close> of a live block inserts its bytes by address, joined with the neighbours
  they touch, so the list stays sorted and coalesced, and no word outside the free bytes and the
  block changes.\<close>

theorem domain_free_coalesces:
  assumes "alloc_inv lo hi al s bs" and "live_block lo hi s bs bp n"
  shows "\<exists>al' s'. domain_free al (bp + 4) s = Some (al', s') \<and> mlog s' = mlog s \<and>
    alloc_inv lo hi al' s' (fl_free (unat bp) (unat n) bs) \<and>
    free_set (fl_free (unat bp) (unat n) bs) = free_set bs \<union> {unat bp ..< unat bp + unat n} \<and>
    (\<forall>x. unat x \<notin> free_set bs \<union> {unat bp ..< unat bp + unat n} \<longrightarrow> mheap s' x = mheap s x)"
proof -
  have "free_set (fl_free (unat bp) (unat n) bs) = free_set bs \<union> {unat bp ..< unat bp + unat n}"
    using assms by (intro fl_free_bytes [OF alloc_invD(2) [OF assms(1)]])
      (auto simp: live_block_def block_ok_def)
  moreover obtain al' s' where "domain_free al (bp + 4) s = Some (al', s')" "mlog s' = mlog s"
      "alloc_inv lo hi al' s' (fl_free (unat bp) (unat n) bs)"
      "\<And>x. unat x \<notin> free_set bs \<union> {unat bp ..< unat bp + unat n} \<Longrightarrow> mheap s' x = mheap s x"
    by (rule domain_free_live [OF assms]) (rule that)
  ultimately show ?thesis by blast
qed

lemma heap0_live:
  "\<exists>al s. domain_malloc (fst (flex_cluster_alloc_init 0x100 0xFFF00 heap0)) 100
     (snd (flex_cluster_alloc_init 0x100 0xFFF00 heap0)) = Some (0x104, al, s) \<and>
     alloc_inv 0x100 0x100000 al s [(0x168, 0xFFE98)] \<and>
     live_block 0x100 0x100000 s [(0x168, 0xFFE98)] 0x100 0x68"
proof -
  let ?i = "flex_cluster_alloc_init 0x100 0xFFF00 heap0"
  obtain al' s' where "domain_malloc (fst ?i) 100 (snd ?i) = Some (of_nat 0x100 + 4, al', s')"
    "alloc_inv 0x100 0x100000 al' s' [(0x168, 0xFFE98)]"
    "live_block 0x100 0x100000 s' [(0x168, 0xFFE98)] (of_nat 0x100) (ALIGN_UP (100 + 4) MIN_BLOCK_SIZE)"
    by (rule domain_malloc_served [OF heap0_inv, where sz = 100 and p = 256 and cs = "[(0x168, 0xFFE98)]"])
      (simp_all add: block_request_def fl_alloc_def)
  then show ?thesis by (simp add: ALIGN_UP_def MIN_BLOCK_SIZE_def)
qed

theorem domain_free_coalesces_witness:
  "\<exists>al s al' s'. domain_free al 0x104 s = Some (al', s') \<and>
     alloc_inv 0x100 0x100000 al' s' [(0x100, 0xFFF00)]"
proof -
  obtain al s where i: "alloc_inv 0x100 0x100000 al s [(0x168, 0xFFE98)]"
    "live_block 0x100 0x100000 s [(0x168, 0xFFE98)] 0x100 0x68"
    using heap0_live by blast
  show ?thesis
    using domain_free_coalesces [OF i] by (auto simp: fl_free_def join_next_def join_prev_def)
qed

text \<open>C39: Round trip.  A successful allocation followed by the release of the pointer restores the
  abstract free list exactly, splits and joins included.\<close>

theorem malloc_free_round_trip:
  assumes inv: "alloc_inv lo hi al s bs" and sz: "unat sz < 4294967285"
    and m: "domain_malloc al sz s = Some (ptr, al1, s1)" and ptr: "ptr \<noteq> 0"
  shows "\<exists>al2 s2. domain_free al1 ptr s1 = Some (al2, s2) \<and> alloc_inv lo hi al2 s2 bs"
proof (cases "served sz bs")
  case None
  then obtain e where "domain_malloc al sz s = Some (0, al, s\<lparr>mlog := mlog s @ [e]\<rparr>)"
    by (rule domain_malloc_refused [OF inv sz])
  then show ?thesis using m ptr by simp
next
  case (Some pc)
  obtain p cs where pc: "pc = (p, cs)" by (cases pc)
  let ?n = "ALIGN_UP (sz + 4) MIN_BLOCK_SIZE"
  have r: "ptr = of_nat p + 4" "p + block_request sz \<le> hi" "alloc_inv lo hi al1 s1 cs"
    "live_block lo hi s1 cs (of_nat p) ?n"
    using domain_malloc_served [OF inv sz Some [unfolded pc]] m by fastforce+
  have "fl_alloc (block_request sz) bs = Some (p, cs)" using Some pc by (simp split: if_splits)
  then have "fl_free p (block_request sz) cs = bs"
    using block_request_bounds(3,4) by (rule fl_alloc_free [OF alloc_invD(2) [OF inv]])
  moreover have "unat (of_nat p :: u32) = p"
    using r(2) alloc_invD(4) [OF inv] block_request_bounds(4) [of sz] by (simp add: unat_of_nat32)
  ultimately show ?thesis
    using domain_free_live [OF r(3,4)] r(1) request_size [OF sz] by metis
qed

theorem malloc_free_round_trip_witness:
  "\<exists>al s al2 s2. domain_free al 0x104 s = Some (al2, s2) \<and>
     alloc_inv 0x100 0x100000 al2 s2 [(0x100, 0xFFF00)]"
proof -
  obtain al s where "domain_malloc (fst (flex_cluster_alloc_init 0x100 0xFFF00 heap0)) 100
     (snd (flex_cluster_alloc_init 0x100 0xFFF00 heap0)) = Some (0x104, al, s)"
    using heap0_live by blast
  then show ?thesis using malloc_free_round_trip [OF heap0_inv, of 100 "0x104" al s] by auto
qed

text \<open>A header whose low byte is not the canary of its address is refused: \<open>domain_free\<close> logs
  the overflow and changes neither the list nor the memory.  In particular a word overwritten
  with any value whose low byte differs from the block address is caught.\<close>

lemma domain_free_rejects_overflow:
  assumes "ucast (mheap s (ptr - 4)) \<noteq> (ucast (ptr - 4) :: u8)"
  shows "domain_free al ptr s = Some (al, s\<lparr>mlog := mlog s @ [log_overflow (ptr - 4)]\<rparr>)"
  using assms by (intro domain_free_corrupt) (simp add: canary_decode_def canary_def ucast_and_FF)

text \<open>Requests of the last eleven sizes: the rounded-up size has wrapped.\<close>

lemma wrapped_size_0:
  assumes "4294967285 \<le> unat sz" and "unat sz \<le> 4294967292"
  shows "ALIGN_UP (sz + 4) MIN_BLOCK_SIZE = 0"
proof -
  have "unat (sz + 11) = unat sz + 11 - 4294967296"
    using assms by (simp add: unat_add32_mod mod_if)
  then have "unat (sz + 11) div 8 * 8 = 0" using assms by simp
  then have "unat (sz + 11 AND - 8) = 0" by (simp only: unat_and_neg8)
  then show ?thesis by (simp add: ALIGN_UP_def MIN_BLOCK_SIZE_def ac_simps unat_eq_iff32)
qed

text \<open>C40: The size computation wraps.  A request of \<open>0xFFFFFFF5\<close> to \<open>0xFFFFFFFC\<close> bytes rounds up
  to a block of 0 bytes, passes the \<open>2^24\<close> check and is served on any non-empty free list: it
  returns a pointer into the first free block, leaves that block on the list and overwrites the
  block's size with its canary byte.\<close>

theorem domain_malloc_size_wraps:
  assumes "first_block al \<noteq> 0" and "mheap s (first_block al) \<noteq> 0"
    and "4294967285 \<le> unat sz" and "unat sz \<le> 4294967292"
  shows "\<exists>s'. domain_malloc al sz s = Some (first_block al + 4, al, s') \<and>
    mheap s' (first_block al) = ucast (canary (first_block al)) \<and>
    (\<forall>x. x \<noteq> first_block al \<longrightarrow> mheap s' x = mheap s x)"
  using assms(1,2) wrapped_size_0 [OF assms(3,4)]
  by (simp add: domain_malloc_def allocate_memory_def Let_def canary_encode_def)

theorem domain_malloc_size_wraps_witness:
  "\<exists>s'. domain_malloc (fst (flex_cluster_alloc_init 0x100 0xFFF00 heap0)) 0xFFFFFFFC
     (snd (flex_cluster_alloc_init 0x100 0xFFF00 heap0)) = Some (0x104,
       fst (flex_cluster_alloc_init 0x100 0xFFF00 heap0), s') \<and> mheap s' 0x100 = 0"
  using domain_malloc_size_wraps [of "fst (flex_cluster_alloc_init 0x100 0xFFF00 heap0)"
      "snd (flex_cluster_alloc_init 0x100 0xFFF00 heap0)" "0xFFFFFFFC"]
  by (auto simp: flex_cluster_alloc_init_def ALIGN_UP_def ALIGN_DOWN_def MIN_BLOCK_SIZE_def
      heap0_def canary_def)

end
