(* ===== verification/Flex_Arch.thy ===== *)
theory Flex_Arch
  imports SH_Prelude
begin

text \<open>
  The address map of \<open>flex_runtime.h\<close>: cluster positions on the mesh, the address macros of
  cluster memories, synchronisation memory and HBM nodes.  The constants come from the header
  \<open>flex_cluster_arch.h\<close>, which the build generates: they are the record \<open>arch\<close>, an argument of
  every definition.  \<open>arch_default\<close> holds the values of
  \<open>soft_hier/flex_cluster/flex_cluster_arch.py\<close>; \<open>arch_ok\<close> states what the macros rely on.
\<close>

record arch =
  ARCH_NUM_CLUSTER_X :: u32
  ARCH_NUM_CLUSTER_Y :: u32
  ARCH_NUM_CORE_PER_CLUSTER :: u32
  ARCH_CLUSTER_TCDM_BASE :: u32
  ARCH_CLUSTER_TCDM_SIZE :: u32
  ARCH_CLUSTER_TCDM_REMOTE :: u32
  ARCH_CLUSTER_ZOMEM_BASE :: u32
  ARCH_CLUSTER_HEAP_END :: u32
  ARCH_CLUSTER_REG_BASE :: u32
  ARCH_REDMULE_REG_BASE :: u32
  ARCH_SYNC_BASE :: u32
  ARCH_SYNC_INTERLEAVE :: u32
  ARCH_SYNC_SPECIAL_MEM :: u32
  ARCH_HBM_START_BASE :: u32
  ARCH_HBM_NODE_ADDR_SPACE :: u32
  ARCH_SOC_REGISTER_EOC :: u32

definition arch_default :: arch where
  "arch_default =
     \<lparr>ARCH_NUM_CLUSTER_X = 4, ARCH_NUM_CLUSTER_Y = 4, ARCH_NUM_CORE_PER_CLUSTER = 3,
      ARCH_CLUSTER_TCDM_BASE = 0, ARCH_CLUSTER_TCDM_SIZE = 0x100000,
      ARCH_CLUSTER_TCDM_REMOTE = 0x30000000, ARCH_CLUSTER_ZOMEM_BASE = 0x18000000,
      ARCH_CLUSTER_HEAP_END = 0x100000, ARCH_CLUSTER_REG_BASE = 0x20000000,
      ARCH_REDMULE_REG_BASE = 0x20020000, ARCH_SYNC_BASE = 0x40000000,
      ARCH_SYNC_INTERLEAVE = 0x80, ARCH_SYNC_SPECIAL_MEM = 0x40,
      ARCH_HBM_START_BASE = 0xc0000000, ARCH_HBM_NODE_ADDR_SPACE = 0x200000,
      ARCH_SOC_REGISTER_EOC = 0x90000000\<rparr>"

lemma arch_default_sel [simp]:
  "ARCH_NUM_CLUSTER_X arch_default = 4" "ARCH_NUM_CLUSTER_Y arch_default = 4"
  "ARCH_NUM_CORE_PER_CLUSTER arch_default = 3" "ARCH_CLUSTER_TCDM_BASE arch_default = 0"
  "ARCH_CLUSTER_TCDM_SIZE arch_default = 0x100000"
  "ARCH_CLUSTER_TCDM_REMOTE arch_default = 0x30000000"
  "ARCH_CLUSTER_ZOMEM_BASE arch_default = 0x18000000"
  "ARCH_CLUSTER_HEAP_END arch_default = 0x100000"
  "ARCH_CLUSTER_REG_BASE arch_default = 0x20000000"
  "ARCH_REDMULE_REG_BASE arch_default = 0x20020000" "ARCH_SYNC_BASE arch_default = 0x40000000"
  "ARCH_SYNC_INTERLEAVE arch_default = 0x80" "ARCH_SYNC_SPECIAL_MEM arch_default = 0x40"
  "ARCH_HBM_START_BASE arch_default = 0xc0000000"
  "ARCH_HBM_NODE_ADDR_SPACE arch_default = 0x200000"
  "ARCH_SOC_REGISTER_EOC arch_default = 0x90000000"
  by (simp_all add: arch_default_def)

subsection \<open>Address macros\<close>

definition ARCH_NUM_CLUSTER :: "arch \<Rightarrow> u32" where
  "ARCH_NUM_CLUSTER A = ARCH_NUM_CLUSTER_X A * ARCH_NUM_CLUSTER_Y A"

definition ARCH_SYNC_SIZE :: "arch \<Rightarrow> u32" where
  "ARCH_SYNC_SIZE A = ARCH_SYNC_INTERLEAVE A + ARCH_SYNC_SPECIAL_MEM A"

definition cluster_index :: "arch \<Rightarrow> u32 \<Rightarrow> u32 \<Rightarrow> u32" where
  "cluster_index A x y = y * ARCH_NUM_CLUSTER_X A + x"

definition local_addr :: "arch \<Rightarrow> u32 \<Rightarrow> u32" where
  "local_addr A offset = ARCH_CLUSTER_TCDM_BASE A + offset"

definition zomem :: "arch \<Rightarrow> u32 \<Rightarrow> u32" where
  "zomem A offset = ARCH_CLUSTER_ZOMEM_BASE A + offset"

definition remote_cid :: "arch \<Rightarrow> u32 \<Rightarrow> u32 \<Rightarrow> u32" where
  "remote_cid A cid offset = ARCH_CLUSTER_TCDM_REMOTE A + cid * ARCH_CLUSTER_TCDM_SIZE A + offset"

definition remote_xy :: "arch \<Rightarrow> u32 \<Rightarrow> u32 \<Rightarrow> u32 \<Rightarrow> u32" where
  "remote_xy A x y offset =
     ARCH_CLUSTER_TCDM_REMOTE A + cluster_index A x y * ARCH_CLUSTER_TCDM_SIZE A + offset"

record FlexPosition =
  pos_x :: u32
  pos_y :: u32

definition remote_pos :: "arch \<Rightarrow> FlexPosition \<Rightarrow> u32 \<Rightarrow> u32" where
  "remote_pos A pos offset =
     ARCH_CLUSTER_TCDM_REMOTE A + cluster_index A (pos_x pos) (pos_y pos) * ARCH_CLUSTER_TCDM_SIZE A + offset"

text \<open>HBM addresses are 64 bits wide; the four edges of the mesh have one node per row or column.\<close>

definition hbm_addr :: "arch \<Rightarrow> u32 \<Rightarrow> u64" where
  "hbm_addr A offset = ucast (ARCH_HBM_START_BASE A) + ucast offset"

definition hbm_west :: "arch \<Rightarrow> u32 \<Rightarrow> u32 \<Rightarrow> u64" where
  "hbm_west A nid offset =
     ucast (ARCH_HBM_START_BASE A) + ucast nid * ucast (ARCH_HBM_NODE_ADDR_SPACE A) + ucast offset"

definition hbm_north :: "arch \<Rightarrow> u32 \<Rightarrow> u32 \<Rightarrow> u64" where
  "hbm_north A nid offset =
     ucast (ARCH_HBM_START_BASE A) + ucast nid * ucast (ARCH_HBM_NODE_ADDR_SPACE A)
       + ucast (ARCH_HBM_NODE_ADDR_SPACE A) * ucast (ARCH_NUM_CLUSTER_Y A) + ucast offset"

definition hbm_east :: "arch \<Rightarrow> u32 \<Rightarrow> u32 \<Rightarrow> u64" where
  "hbm_east A nid offset =
     ucast (ARCH_HBM_START_BASE A) + ucast nid * ucast (ARCH_HBM_NODE_ADDR_SPACE A)
       + ucast (ARCH_HBM_NODE_ADDR_SPACE A) * (ucast (ARCH_NUM_CLUSTER_Y A) + ucast (ARCH_NUM_CLUSTER_X A))
       + ucast offset"

definition hbm_south :: "arch \<Rightarrow> u32 \<Rightarrow> u32 \<Rightarrow> u64" where
  "hbm_south A nid offset =
     ucast (ARCH_HBM_START_BASE A) + ucast nid * ucast (ARCH_HBM_NODE_ADDR_SPACE A)
       + ucast (ARCH_HBM_NODE_ADDR_SPACE A) * 2 * ucast (ARCH_NUM_CLUSTER_Y A)
       + ucast (ARCH_HBM_NODE_ADDR_SPACE A) * ucast (ARCH_NUM_CLUSTER_X A) + ucast offset"

definition is_hbm_region :: "arch \<Rightarrow> u64 \<Rightarrow> bool" where
  "is_hbm_region A addr = (addr \<ge> ucast (ARCH_HBM_START_BASE A))"

definition is_power_of_two :: "u32 \<Rightarrow> bool" where
  "is_power_of_two v = (v AND (v - 1) = 0)"

subsection \<open>Positions on the mesh\<close>

definition get_pos :: "arch \<Rightarrow> u32 \<Rightarrow> FlexPosition" where
  "get_pos A cluster_id =
     \<lparr>pos_x = cluster_id mod ARCH_NUM_CLUSTER_X A, pos_y = cluster_id div ARCH_NUM_CLUSTER_X A\<rparr>"

definition right_pos :: "arch \<Rightarrow> FlexPosition \<Rightarrow> FlexPosition" where
  "right_pos A pos = \<lparr>pos_x = (pos_x pos + 1) mod ARCH_NUM_CLUSTER_X A, pos_y = pos_y pos\<rparr>"

definition left_pos :: "arch \<Rightarrow> FlexPosition \<Rightarrow> FlexPosition" where
  "left_pos A pos =
     \<lparr>pos_x = (pos_x pos + ARCH_NUM_CLUSTER_X A - 1) mod ARCH_NUM_CLUSTER_X A, pos_y = pos_y pos\<rparr>"

definition top_pos :: "arch \<Rightarrow> FlexPosition \<Rightarrow> FlexPosition" where
  "top_pos A pos = \<lparr>pos_x = pos_x pos, pos_y = (pos_y pos + 1) mod ARCH_NUM_CLUSTER_Y A\<rparr>"

definition bottom_pos :: "arch \<Rightarrow> FlexPosition \<Rightarrow> FlexPosition" where
  "bottom_pos A pos =
     \<lparr>pos_x = pos_x pos, pos_y = (pos_y pos + ARCH_NUM_CLUSTER_Y A - 1) mod ARCH_NUM_CLUSTER_Y A\<rparr>"

subsection \<open>What the header relies on\<close>

definition arch_ok :: "arch \<Rightarrow> bool" where
  "arch_ok A =
     (0 < unat (ARCH_NUM_CLUSTER_X A) \<and> 0 < unat (ARCH_NUM_CLUSTER_Y A) \<and>
      0 < unat (ARCH_NUM_CORE_PER_CLUSTER A) \<and>
      unat (ARCH_NUM_CLUSTER_X A) < 65536 \<and> unat (ARCH_NUM_CLUSTER_Y A) < 65536 \<and>
      unat (ARCH_CLUSTER_TCDM_REMOTE A) +
        unat (ARCH_NUM_CLUSTER_X A) * unat (ARCH_NUM_CLUSTER_Y A) * unat (ARCH_CLUSTER_TCDM_SIZE A) \<le> 4294967296)"

definition on_mesh :: "arch \<Rightarrow> FlexPosition \<Rightarrow> bool" where
  "on_mesh A pos = (pos_x pos < ARCH_NUM_CLUSTER_X A \<and> pos_y pos < ARCH_NUM_CLUSTER_Y A)"

lemma arch_default_ok: "arch_ok arch_default"
  by (simp add: arch_ok_def)

text \<open>An index on a mesh of given size: the nat facts behind the word arithmetic.\<close>

lemma mesh_index_less: "x < X \<Longrightarrow> y < Y \<Longrightarrow> y * X + x < X * (Y :: nat)"
proof -
  assume "x < X" "y < Y"
  then have "y * X + x < Suc y * X" by simp
  also have "Suc y * X \<le> Y * X" using \<open>y < Y\<close> by (intro mult_le_mono1) simp
  finally show ?thesis by (simp add: mult.commute)
qed

lemma mesh_index_eq:
  "x < X \<Longrightarrow> x' < X \<Longrightarrow> y * X + x = y' * X + x' \<longleftrightarrow> x = x' \<and> y = (y' :: nat)"
  by (metis div_mult_self3 div_less add_0_right mod_less mod_mult_self3 not_less_zero)

lemma mesh_area:
  assumes "arch_ok A"
  shows "unat (ARCH_NUM_CLUSTER_X A) * unat (ARCH_NUM_CLUSTER_Y A) < 4294967296"
proof -
  have "unat (ARCH_NUM_CLUSTER_X A) * unat (ARCH_NUM_CLUSTER_Y A) \<le> 65535 * 65535"
    using assms by (intro mult_le_mono) (simp_all add: arch_ok_def)
  then show ?thesis by simp
qed

lemma unat_cluster_index:
  assumes "arch_ok A" and "x < ARCH_NUM_CLUSTER_X A" and "y < ARCH_NUM_CLUSTER_Y A"
  shows "unat (cluster_index A x y) = unat y * unat (ARCH_NUM_CLUSTER_X A) + unat x"
    and "unat (cluster_index A x y) < unat (ARCH_NUM_CLUSTER_X A) * unat (ARCH_NUM_CLUSTER_Y A)"
proof -
  have lt: "unat y * unat (ARCH_NUM_CLUSTER_X A) + unat x
      < unat (ARCH_NUM_CLUSTER_X A) * unat (ARCH_NUM_CLUSTER_Y A)"
    using assms(2,3) by (intro mesh_index_less) (simp_all add: word_less_nat_alt)
  then have "unat y * unat (ARCH_NUM_CLUSTER_X A) + unat x < 4294967296"
    using mesh_area [OF assms(1)] by linarith
  then show e: "unat (cluster_index A x y) = unat y * unat (ARCH_NUM_CLUSTER_X A) + unat x"
    unfolding cluster_index_def by (subst unat_add32; subst unat_mult32) simp_all
  show "unat (cluster_index A x y) < unat (ARCH_NUM_CLUSTER_X A) * unat (ARCH_NUM_CLUSTER_Y A)"
    using lt e by simp
qed

lemma get_pos_index:
  assumes "arch_ok A" and "x < ARCH_NUM_CLUSTER_X A" and "y < ARCH_NUM_CLUSTER_Y A"
  shows "get_pos A (cluster_index A x y) = \<lparr>pos_x = x, pos_y = y\<rparr>"
proof -
  note u = unat_cluster_index(1) [OF assms]
  have "unat x < unat (ARCH_NUM_CLUSTER_X A)" using assms(2) by (simp add: word_less_nat_alt)
  then show ?thesis
    by (simp add: get_pos_def unat_eq_iff32 unat_mod_distrib unat_div_distrib u)
qed

lemma get_pos_on_mesh:
  assumes "arch_ok A" and "unat cid < unat (ARCH_NUM_CLUSTER_X A) * unat (ARCH_NUM_CLUSTER_Y A)"
  shows "on_mesh A (get_pos A cid)"
    and "cluster_index A (pos_x (get_pos A cid)) (pos_y (get_pos A cid)) = cid"
proof -
  have X: "0 < unat (ARCH_NUM_CLUSTER_X A)" using assms(1) by (simp add: arch_ok_def)
  have "unat cid div unat (ARCH_NUM_CLUSTER_X A) < unat (ARCH_NUM_CLUSTER_Y A)"
    using assms(2) by (simp add: less_mult_imp_div_less mult.commute)
  then show m: "on_mesh A (get_pos A cid)"
    using X by (simp add: on_mesh_def get_pos_def word_less_nat_alt unat_mod_distrib unat_div_distrib)
  show "cluster_index A (pos_x (get_pos A cid)) (pos_y (get_pos A cid)) = cid"
    using m unat_cluster_index(1) [OF assms(1), of "pos_x (get_pos A cid)" "pos_y (get_pos A cid)"]
    by (simp add: on_mesh_def unat_eq_iff32) (simp add: get_pos_def unat_mod_distrib unat_div_distrib)
qed

text \<open>A step along a ring and back.\<close>

lemma ring_step:
  fixes x n :: u32
  assumes "x < n" and "unat n < 65536"
  shows "unat ((x + 1) mod n) = (unat x + 1) mod unat n"
    and "unat ((x + n - 1) mod n) = (unat x + unat n - 1) mod unat n"
proof -
  have x: "unat x < unat n" using assms(1) by (simp add: word_less_nat_alt)
  then show "unat ((x + 1) mod n) = (unat x + 1) mod unat n"
    using assms(2) unat_add32 [of x 1] by (simp add: unat_mod_distrib)
  have "unat (x + n) = unat x + unat n" using x assms(2) by (intro unat_add32) simp
  moreover from this have "unat (x + n - 1) = unat x + unat n - 1"
    using x unat_sub32 [of 1 "x + n"] by simp
  ultimately show "unat ((x + n - 1) mod n) = (unat x + unat n - 1) mod unat n"
    by (simp add: unat_mod_distrib)
qed

lemma ring_back:
  fixes x n :: u32
  assumes "x < n" and "unat n < 65536"
  shows "(((x + 1) mod n) + n - 1) mod n = x" and "(((x + n - 1) mod n) + 1) mod n = x"
    and "(x + 1) mod n < n" and "(x + n - 1) mod n < n"
proof -
  have x: "unat x < unat n" using assms(1) by (simp add: word_less_nat_alt)
  note s = ring_step [OF assms]
  show a: "(x + 1) mod n < n" and b: "(x + n - 1) mod n < n"
    using x by (simp_all add: word_less_nat_alt s)
  have "((k + 1) mod m + m - 1) mod m = k" if "k < m" for k m :: nat
    using that by (cases "k + 1 = m") simp_all
  then show "(((x + 1) mod n) + n - 1) mod n = x"
    using ring_step(2) [OF a assms(2)] s(1) x by (simp add: unat_eq_iff32)
  have "((k + m - 1) mod m + 1) mod m = k" if "k < m" for k m :: nat
    using that by (cases k) simp_all
  then show "(((x + n - 1) mod n) + 1) mod n = x"
    using ring_step(1) [OF b assms(2)] s(2) x by (simp add: unat_eq_iff32)
qed

subsection \<open>Memory windows\<close>

lemma unat_remote_xy:
  assumes "arch_ok A" and "x < ARCH_NUM_CLUSTER_X A" and "y < ARCH_NUM_CLUSTER_Y A"
    and "off < ARCH_CLUSTER_TCDM_SIZE A"
  shows "unat (remote_xy A x y off) = unat (ARCH_CLUSTER_TCDM_REMOTE A)
      + (unat y * unat (ARCH_NUM_CLUSTER_X A) + unat x) * unat (ARCH_CLUSTER_TCDM_SIZE A) + unat off"
proof -
  let ?S = "unat (ARCH_CLUSTER_TCDM_SIZE A)" and ?i = "unat (cluster_index A x y)"
  let ?N = "unat (ARCH_NUM_CLUSTER_X A) * unat (ARCH_NUM_CLUSTER_Y A)"
  note i = unat_cluster_index [OF assms(1-3)]
  have "Suc ?i * ?S \<le> ?N * ?S" using i(2) by (intro mult_le_mono1) simp
  moreover have "unat off < ?S" using assms(4) by (simp add: word_less_nat_alt)
  ultimately have lt: "unat (ARCH_CLUSTER_TCDM_REMOTE A) + ?i * ?S + unat off < 4294967296"
    using assms(1) by (simp add: arch_ok_def)
  then have "unat (cluster_index A x y * ARCH_CLUSTER_TCDM_SIZE A) = ?i * ?S"
    by (intro unat_mult32) simp
  then have "unat (remote_xy A x y off) = unat (ARCH_CLUSTER_TCDM_REMOTE A) + ?i * ?S + unat off"
    using lt unfolding remote_xy_def by (subst unat_add32; subst unat_add32) simp_all
  then show ?thesis by (simp only: i(1))
qed

text \<open>The nodes of the four edges, counted from the start of the HBM space.\<close>

definition hbm_node :: "arch \<Rightarrow> nat \<Rightarrow> nat \<Rightarrow> nat" where
  "hbm_node A k off = unat (ARCH_HBM_START_BASE A) + k * unat (ARCH_HBM_NODE_ADDR_SPACE A) + off"

lemma unat_ucast64 [simp]: "unat (ucast (x :: u32) :: u64) = unat x"
  by (simp add: unsigned_ucast_eq take_bit_nat_eq_self order_less_trans [OF unat_lt32])

lemma hbm_edge_word:
  fixes a b c d :: u32
  assumes "k < 4294967295"
  shows "unat (ucast a + of_nat k * ucast b + ucast c :: u64) = unat a + k * unat b + unat c"
proof -
  have "k * unat b \<le> 4294967294 * 4294967295"
    using assms unat_lt32 [of b] by (intro mult_le_mono) (simp, linarith)
  moreover have "unat a \<le> 4294967295" "unat c \<le> 4294967295"
    using unat_lt32 [of a] unat_lt32 [of c] by linarith+
  ultimately have lt: "unat a + k * unat b + unat c < 18446744073709551616" by simp
  have "(ucast a + of_nat k * ucast b + ucast c :: u64) = of_nat (unat a + k * unat b + unat c)"
    by simp
  also have "unat \<dots> = unat a + k * unat b + unat c"
    using lt by (subst unat_of_nat) simp
  finally show ?thesis .
qed

lemma ucast64_of_nat: "(ucast (x :: u32) :: u64) = of_nat (unat x)"
  by simp

lemma hbm_nodes:
  assumes "arch_ok A" and "unat nid < 65536"
  shows "unat (hbm_west A nid off) = hbm_node A (unat nid) (unat off)"
    and "unat (hbm_north A nid off) = hbm_node A (unat (ARCH_NUM_CLUSTER_Y A) + unat nid) (unat off)"
    and "unat (hbm_east A nid off) =
      hbm_node A (unat (ARCH_NUM_CLUSTER_Y A) + unat (ARCH_NUM_CLUSTER_X A) + unat nid) (unat off)"
    and "unat (hbm_south A nid off) =
      hbm_node A (2 * unat (ARCH_NUM_CLUSTER_Y A) + unat (ARCH_NUM_CLUSTER_X A) + unat nid) (unat off)"
proof -
  let ?X = "unat (ARCH_NUM_CLUSTER_X A)" and ?Y = "unat (ARCH_NUM_CLUSTER_Y A)"
  have b: "?X < 65536" "?Y < 65536" using assms(1) by (simp_all add: arch_ok_def)
  have w: "hbm_west A nid off = ucast (ARCH_HBM_START_BASE A)
      + of_nat (unat nid) * ucast (ARCH_HBM_NODE_ADDR_SPACE A) + ucast off"
    by (simp add: hbm_west_def)
  have n: "hbm_north A nid off = ucast (ARCH_HBM_START_BASE A)
      + of_nat (?Y + unat nid) * ucast (ARCH_HBM_NODE_ADDR_SPACE A) + ucast off"
    by (simp add: hbm_north_def algebra_simps)
  have e: "hbm_east A nid off = ucast (ARCH_HBM_START_BASE A)
      + of_nat (?Y + ?X + unat nid) * ucast (ARCH_HBM_NODE_ADDR_SPACE A) + ucast off"
    by (simp add: hbm_east_def algebra_simps)
  have s: "hbm_south A nid off = ucast (ARCH_HBM_START_BASE A)
      + of_nat (2 * ?Y + ?X + unat nid) * ucast (ARCH_HBM_NODE_ADDR_SPACE A) + ucast off"
    by (simp add: hbm_south_def algebra_simps)
  show "unat (hbm_west A nid off) = hbm_node A (unat nid) (unat off)"
    unfolding w hbm_node_def by (rule hbm_edge_word) (use assms(2) in simp)
  show "unat (hbm_north A nid off) = hbm_node A (?Y + unat nid) (unat off)"
    unfolding n hbm_node_def by (rule hbm_edge_word) (use assms(2) b in simp)
  show "unat (hbm_east A nid off) = hbm_node A (?Y + ?X + unat nid) (unat off)"
    unfolding e hbm_node_def by (rule hbm_edge_word) (use assms(2) b in simp)
  show "unat (hbm_south A nid off) = hbm_node A (2 * ?Y + ?X + unat nid) (unat off)"
    unfolding s hbm_node_def by (rule hbm_edge_word) (use assms(2) b in simp)
qed

lemma hbm_node_inj:
  assumes "off < unat (ARCH_HBM_NODE_ADDR_SPACE A)" and "off' < unat (ARCH_HBM_NODE_ADDR_SPACE A)"
  shows "hbm_node A k off = hbm_node A k' off' \<longleftrightarrow> k = k' \<and> off = off'"
  using mesh_index_eq [OF assms, of k k'] by (auto simp: hbm_node_def)

lemma get_pos_cluster_index:
  "arch_ok A \<Longrightarrow> on_mesh A pos \<Longrightarrow> get_pos A (cluster_index A (pos_x pos) (pos_y pos)) = pos"
  using get_pos_index by (simp add: on_mesh_def)

lemma neighbours:
  assumes "arch_ok A" and "on_mesh A pos"
  shows "on_mesh A (right_pos A pos)" "on_mesh A (left_pos A pos)"
    "on_mesh A (top_pos A pos)" "on_mesh A (bottom_pos A pos)"
    "left_pos A (right_pos A pos) = pos" "right_pos A (left_pos A pos) = pos"
    "bottom_pos A (top_pos A pos) = pos" "top_pos A (bottom_pos A pos) = pos"
  using assms ring_back
  by (simp_all add: on_mesh_def arch_ok_def right_pos_def left_pos_def top_pos_def bottom_pos_def)

lemma unat_remote_pos:
  assumes "arch_ok A" and "on_mesh A p" and "d < ARCH_CLUSTER_TCDM_SIZE A"
  shows "unat (remote_pos A p d) = unat (ARCH_CLUSTER_TCDM_REMOTE A)
    + ((unat (pos_y p) * unat (ARCH_NUM_CLUSTER_X A) + unat (pos_x p)) * unat (ARCH_CLUSTER_TCDM_SIZE A) + unat d)"
  using assms unat_remote_xy [OF assms(1)] by (simp add: remote_pos_def remote_xy_def on_mesh_def)

lemma remote_pos_eq:
  assumes "arch_ok A" and "on_mesh A p" and "on_mesh A q"
    and "off < ARCH_CLUSTER_TCDM_SIZE A" and "off' < ARCH_CLUSTER_TCDM_SIZE A"
  shows "remote_pos A p off = remote_pos A q off' \<longleftrightarrow> p = q \<and> off = off'"
proof -
  have "unat off < unat (ARCH_CLUSTER_TCDM_SIZE A)" "unat off' < unat (ARCH_CLUSTER_TCDM_SIZE A)"
    "unat (pos_x p) < unat (ARCH_NUM_CLUSTER_X A)" "unat (pos_x q) < unat (ARCH_NUM_CLUSTER_X A)"
    using assms by (simp_all add: on_mesh_def word_less_nat_alt)
  then show ?thesis
    using unat_remote_pos [OF assms(1,2,4)] unat_remote_pos [OF assms(1,3,5)]
    by (auto simp: unat_eq_iff32 mesh_index_eq)
qed

subsection \<open>Properties\<close>

text \<open>The position functions and the index macro are inverse to each other on the mesh, the
  four neighbour functions stay on the mesh, right undoes left and top undoes bottom.\<close>

lemma mesh_positions:
  assumes "arch_ok A"
  shows "(\<forall>pos. on_mesh A pos \<longrightarrow>
      get_pos A (cluster_index A (pos_x pos) (pos_y pos)) = pos \<and>
      on_mesh A (right_pos A pos) \<and> on_mesh A (left_pos A pos) \<and>
      on_mesh A (top_pos A pos) \<and> on_mesh A (bottom_pos A pos) \<and>
      left_pos A (right_pos A pos) = pos \<and> right_pos A (left_pos A pos) = pos \<and>
      bottom_pos A (top_pos A pos) = pos \<and> top_pos A (bottom_pos A pos) = pos) \<and>
    (\<forall>cid. cid < ARCH_NUM_CLUSTER A \<longrightarrow> on_mesh A (get_pos A cid) \<and>
      cluster_index A (pos_x (get_pos A cid)) (pos_y (get_pos A cid)) = cid)"
proof (intro conjI allI impI)
  fix pos assume m: "on_mesh A pos"
  show "get_pos A (cluster_index A (pos_x pos) (pos_y pos)) = pos"
    by (rule get_pos_cluster_index [OF assms m])
  show "on_mesh A (right_pos A pos)" "on_mesh A (left_pos A pos)"
    "on_mesh A (top_pos A pos)" "on_mesh A (bottom_pos A pos)"
    "left_pos A (right_pos A pos) = pos" "right_pos A (left_pos A pos) = pos"
    "bottom_pos A (top_pos A pos) = pos" "top_pos A (bottom_pos A pos) = pos"
    by (rule neighbours [OF assms m])+
next
  fix cid assume "cid < ARCH_NUM_CLUSTER A"
  then have "unat cid < unat (ARCH_NUM_CLUSTER_X A) * unat (ARCH_NUM_CLUSTER_Y A)"
    using mesh_area [OF assms] by (simp add: ARCH_NUM_CLUSTER_def word_less_nat_alt unat_mult32)
  then show "on_mesh A (get_pos A cid)"
    "cluster_index A (pos_x (get_pos A cid)) (pos_y (get_pos A cid)) = cid"
    using get_pos_on_mesh [OF assms] by simp_all
qed

text \<open>The remote windows of the cluster memories do not overlap: an address computed by
  \<open>remote_pos\<close> for an offset inside a cluster's memory determines the cluster and the offset, and
  it is the address \<open>remote_cid\<close> gives for the cluster's index.\<close>

lemma remote_windows_disjoint:
  assumes "arch_ok A" and "on_mesh A p" and "on_mesh A q"
    and "off < ARCH_CLUSTER_TCDM_SIZE A" and "off' < ARCH_CLUSTER_TCDM_SIZE A"
  shows "(remote_pos A p off = remote_pos A q off' \<longleftrightarrow> p = q \<and> off = off') \<and>
    remote_pos A p off = remote_cid A (cluster_index A (pos_x p) (pos_y p)) off \<and>
    ARCH_CLUSTER_TCDM_REMOTE A \<le> remote_pos A p off"
  using remote_pos_eq [OF assms] unat_remote_pos [OF assms(1,2,4)]
  by (simp add: remote_cid_def remote_pos_def word_le_nat_alt)

text \<open>The four HBM edges partition the HBM space: for nodes of their edge and offsets inside a
  node, two addresses of the \<open>hbm_\<close> macros are equal only for the same edge, node and offset, and
  every one of them is in the HBM region.\<close>

lemma hbm_edges_disjoint:
  assumes "arch_ok A"
    and "off < ARCH_HBM_NODE_ADDR_SPACE A" and "off' < ARCH_HBM_NODE_ADDR_SPACE A"
    and "w < ARCH_NUM_CLUSTER_Y A" and "e < ARCH_NUM_CLUSTER_Y A"
    and "n < ARCH_NUM_CLUSTER_X A" and "s < ARCH_NUM_CLUSTER_X A"
    and "w' < ARCH_NUM_CLUSTER_Y A" and "n' < ARCH_NUM_CLUSTER_X A"
  shows "distinct [hbm_west A w off, hbm_north A n off', hbm_east A e off, hbm_south A s off'] \<and>
    distinct [hbm_west A w off', hbm_north A n off, hbm_east A e off', hbm_south A s off] \<and>
    (hbm_west A w off = hbm_west A w' off' \<longleftrightarrow> w = w' \<and> off = off') \<and>
    (hbm_north A n off = hbm_north A n' off' \<longleftrightarrow> n = n' \<and> off = off') \<and>
    is_hbm_region A (hbm_west A w off) \<and> is_hbm_region A (hbm_south A s off)"
proof -
  have b: "unat w < 65536" "unat e < 65536" "unat n < 65536" "unat s < 65536" "unat w' < 65536"
    "unat n' < 65536"
    using assms by (simp_all add: arch_ok_def word_less_nat_alt)
  note h = hbm_nodes [OF assms(1) b(1)] hbm_nodes [OF assms(1) b(2)] hbm_nodes [OF assms(1) b(3)]
    hbm_nodes [OF assms(1) b(4)] hbm_nodes [OF assms(1) b(5)] hbm_nodes [OF assms(1) b(6)]
  have lt: "unat off < unat (ARCH_HBM_NODE_ADDR_SPACE A)" "unat off' < unat (ARCH_HBM_NODE_ADDR_SPACE A)"
    using assms(2,3) by (simp_all add: word_less_nat_alt)
  have m: "unat w < unat (ARCH_NUM_CLUSTER_Y A)" "unat e < unat (ARCH_NUM_CLUSTER_Y A)"
    "unat n < unat (ARCH_NUM_CLUSTER_X A)" "unat s < unat (ARCH_NUM_CLUSTER_X A)"
    using assms by (simp_all add: word_less_nat_alt)
  note inj = hbm_node_inj [OF lt] hbm_node_inj [OF lt(2,1)] hbm_node_inj [OF lt(1,1)] hbm_node_inj [OF lt(2,2)]
  have "is_hbm_region A (hbm_west A w off)" "is_hbm_region A (hbm_south A s off)"
    by (simp_all add: is_hbm_region_def word_le_nat_alt h hbm_node_def)
  moreover have "distinct [hbm_west A w off, hbm_north A n off', hbm_east A e off, hbm_south A s off']"
    "distinct [hbm_west A w off', hbm_north A n off, hbm_east A e off', hbm_south A s off]"
    using m by (simp_all add: word_unat_eq_iff h inj)
  moreover have "hbm_west A w off = hbm_west A w' off' \<longleftrightarrow> w = w' \<and> off = off'"
    "hbm_north A n off = hbm_north A n' off' \<longleftrightarrow> n = n' \<and> off = off'"
    by (simp_all add: word_unat_eq_iff h inj)
  ultimately show ?thesis by blast
qed

end
