(* ===== verification/Flex_Runtime.thy ===== *)
theory Flex_Runtime
  imports Flex_Arch Flex_Alloc
begin

text \<open>
  The functions of \<open>runtime/include/flex_runtime.h\<close> as programs over the volatile accesses they
  make.  A program is a tree \<open>io\<close>: each node is one access of a hart (load, store, atomic
  fetch-and-add, CSR read, busy wait, a custom instruction) and carries the rest of the program
  for every value the access may return, so a C function that returns a value takes the rest
  of its caller as a continuation.  The meaning of the accesses is in \<open>Flex_Hw\<close>.  The operands
  of \<open>==\<close> are evaluated from left to right.
\<close>

datatype io =
    Halt
  | Rd u32 "u32 \<Rightarrow> io"
  | Wr u32 u32 io
  | Amo u32 u32 "u32 \<Rightarrow> io"
  | Spin u32 u32 io
  | Csr_Hartid "u32 \<Rightarrow> io"
  | Csr_Sync io
  | Insn u32 "u32 list" "u32 \<Rightarrow> io"
  | Poll u32 io
  | Heap_Init bool u32 u32 io
  | Malloc bool u32 "u32 \<Rightarrow> io"
  | Free bool u32 io
  | Printf log io
  | Tick io

text \<open>
  \<open>Spin p v\<close> is \<open>while (*p == v);\<close>, \<open>Insn w rs\<close> the instruction word \<open>w\<close> with the values of its
  source registers, \<open>Poll w\<close> repeats an instruction until its result is 0, \<open>Heap_Init hbm base size\<close>,
  \<open>Malloc hbm size\<close> and \<open>Free hbm ptr\<close> are the calls of the allocator on one of the two heaps, and \<open>Tick\<close> a marker the proofs use to count a hart's steps between barriers.
\<close>

subsection \<open>Cluster and core position\<close>

definition flex_get_cluster_id :: "arch \<Rightarrow> (u32 \<Rightarrow> io) \<Rightarrow> io" where
  "flex_get_cluster_id A k = Rd (ARCH_CLUSTER_REG_BASE A) k"

definition flex_get_core_id :: "(u32 \<Rightarrow> io) \<Rightarrow> io" where
  "flex_get_core_id k = Csr_Hartid k"

definition flex_is_dm_core :: "arch \<Rightarrow> (bool \<Rightarrow> io) \<Rightarrow> io" where
  "flex_is_dm_core A k = Csr_Hartid (\<lambda>hartid. k (hartid = ARCH_NUM_CORE_PER_CLUSTER A - 1))"

definition flex_is_first_core :: "(bool \<Rightarrow> io) \<Rightarrow> io" where
  "flex_is_first_core k = Csr_Hartid (\<lambda>hartid. k (hartid = 0))"

subsection \<open>Heap initialisation\<close>

text \<open>\<open>l1_heap\<close> and \<open>hbm_heap\<close> are the linker symbols \<open>__l1_heap_start\<close> and \<open>__hbm_heap_start\<close>,
  \<open>p_l1\<close> and \<open>p_hbm\<close> the addresses of the two allocators; the printed first blocks are what
  \<open>flex_cluster_alloc_init\<close> has just stored.\<close>

definition alloc_log :: "string \<Rightarrow> u32 list \<Rightarrow> log" where
  "alloc_log s vs = Log (''[Alloc] >>> '' @ s @ [CHR 0x0A]) vs"

definition flex_alloc_init :: "arch \<Rightarrow> u32 \<Rightarrow> u32 \<Rightarrow> u32 \<Rightarrow> u32 \<Rightarrow> io \<Rightarrow> io" where
  "flex_alloc_init A l1_heap hbm_heap p_l1 p_hbm k =
     flex_get_cluster_id A (\<lambda>CID.
     let heap_size = ARCH_CLUSTER_HEAP_END A - l1_heap;
         hbm_nodes = 4;
         hbm_heap_end = ARCH_HBM_START_BASE A + ARCH_HBM_NODE_ADDR_SPACE A * hbm_nodes;
         hbm_heap_size = hbm_heap_end - hbm_heap;
         summary = (\<lambda>k.
           Printf (alloc_log ''L1  allocator:    0x%p'' [p_l1])
           (Printf (alloc_log ''L1  first block:  0x%p'' [ALIGN_UP l1_heap MIN_BLOCK_SIZE])
           (Printf (alloc_log (''L1  heap start:   0x%p, size: 0x%x'' @ [CHR 0x0A]) [l1_heap, heap_size])
           (Printf (alloc_log ''HBM allocator:    0x%p'' [p_hbm])
           (Printf (alloc_log ''HBM first block:  0x%p'' [ALIGN_UP hbm_heap MIN_BLOCK_SIZE])
           (Printf (alloc_log (''HBM heap start:   0x%p, size: 0x%x'' @ [CHR 0x0A]) [hbm_heap, hbm_heap_size]) k))))))
     in flex_is_first_core (\<lambda>first.
        (if first then Heap_Init False l1_heap heap_size else id)
        (flex_is_first_core (\<lambda>first.
        (if first then Heap_Init True hbm_heap hbm_heap_size else id)
        (if CID = 0 then flex_is_first_core (\<lambda>first. if first then summary k else k) else k)))))"

subsection \<open>Barrier primitives\<close>

definition flex_get_enable_value :: "arch \<Rightarrow> (u32 \<Rightarrow> io) \<Rightarrow> io" where
  "flex_get_enable_value A k = Rd (ARCH_CLUSTER_REG_BASE A + 4) k"

definition flex_get_disable_value :: "arch \<Rightarrow> (u32 \<Rightarrow> io) \<Rightarrow> io" where
  "flex_get_disable_value A k = Rd (ARCH_CLUSTER_REG_BASE A + 24) k"

definition flex_get_barrier_num_cluster :: "arch \<Rightarrow> (u32 \<Rightarrow> io) \<Rightarrow> io" where
  "flex_get_barrier_num_cluster A k = Rd (ARCH_CLUSTER_REG_BASE A + 8) k"

definition flex_get_barrier_num_cluster_x :: "arch \<Rightarrow> (u32 \<Rightarrow> io) \<Rightarrow> io" where
  "flex_get_barrier_num_cluster_x A k = Rd (ARCH_CLUSTER_REG_BASE A + 12) k"

definition flex_get_barrier_num_cluster_y :: "arch \<Rightarrow> (u32 \<Rightarrow> io) \<Rightarrow> io" where
  "flex_get_barrier_num_cluster_y A k = Rd (ARCH_CLUSTER_REG_BASE A + 16) k"

definition flex_annotate_barrier :: "arch \<Rightarrow> u32 \<Rightarrow> io \<Rightarrow> io" where
  "flex_annotate_barrier A type k = Wr (ARCH_CLUSTER_REG_BASE A + 20) type k"

definition flex_reset_barrier :: "arch \<Rightarrow> u32 \<Rightarrow> io \<Rightarrow> io" where
  "flex_reset_barrier A barrier k = flex_get_disable_value A (\<lambda>v. Wr barrier v k)"

definition flex_amo_fetch_add :: "arch \<Rightarrow> u32 \<Rightarrow> (u32 \<Rightarrow> io) \<Rightarrow> io" where
  "flex_amo_fetch_add A barrier k = flex_get_enable_value A (\<lambda>v. Amo barrier v k)"

definition flex_intra_cluster_sync :: "io \<Rightarrow> io" where
  "flex_intra_cluster_sync k = Csr_Sync k"

definition flex_wakeup_clusters :: "arch \<Rightarrow> u8 \<Rightarrow> u8 \<Rightarrow> io \<Rightarrow> io" where
  "flex_wakeup_clusters A row_mask col_mask k =
     Wr (ARCH_CLUSTER_REG_BASE A + 28) (push_bit 16 (ucast col_mask) OR ucast row_mask) k"

definition flex_wakeup_all_clusters :: "arch \<Rightarrow> io \<Rightarrow> io" where
  "flex_wakeup_all_clusters A k =
     flex_get_disable_value A (\<lambda>v. Wr (ARCH_CLUSTER_REG_BASE A + 28) v k)"

text \<open>\<open>*cluster_reg = flex_get_enable_value();\<close>: wait for the wake-up of the cluster.\<close>

definition cluster_wait :: "arch \<Rightarrow> io \<Rightarrow> io" where
  "cluster_wait A k = flex_get_enable_value A (\<lambda>v. Wr (ARCH_CLUSTER_REG_BASE A) v k)"

subsection \<open>Barriers over all clusters\<close>

definition flex_barrier_init :: "arch \<Rightarrow> io \<Rightarrow> io" where
  "flex_barrier_init A k =
     (let barrier = ARCH_SYNC_BASE A in
      flex_is_dm_core A (\<lambda>dm.
        if dm then
          flex_get_cluster_id A (\<lambda>cid.
            (if cid = 0 then \<lambda>k. flex_reset_barrier A barrier (flex_wakeup_all_clusters A k) else id)
            (cluster_wait A (flex_intra_cluster_sync k)))
        else flex_intra_cluster_sync k))"

definition flex_global_barrier :: "arch \<Rightarrow> io \<Rightarrow> io" where
  "flex_global_barrier A k =
     (let barrier = ARCH_SYNC_BASE A in
      flex_intra_cluster_sync
      (flex_is_dm_core A (\<lambda>dm.
        if dm then
          flex_annotate_barrier A 0
          (flex_get_barrier_num_cluster A (\<lambda>n.
           flex_get_enable_value A (\<lambda>e.
           flex_amo_fetch_add A barrier (\<lambda>old.
             (if n - e = old then \<lambda>k. flex_reset_barrier A barrier (flex_wakeup_all_clusters A k) else id)
             (cluster_wait A (flex_annotate_barrier A 0 (flex_intra_cluster_sync k)))))))
        else flex_intra_cluster_sync k)))"

definition flex_global_barrier_polling :: "arch \<Rightarrow> io \<Rightarrow> io" where
  "flex_global_barrier_polling A k =
     (let barrier = ARCH_SYNC_BASE A; barrier_iter = ARCH_SYNC_BASE A + 4 in
      flex_intra_cluster_sync
      (flex_is_dm_core A (\<lambda>dm.
        if dm then
          flex_annotate_barrier A 0
          (Rd barrier_iter (\<lambda>prev.
           flex_get_barrier_num_cluster A (\<lambda>n.
           flex_get_enable_value A (\<lambda>e.
           flex_amo_fetch_add A barrier (\<lambda>old.
             (if n - e = old
              then \<lambda>k. flex_reset_barrier A barrier (flex_amo_fetch_add A barrier_iter (\<lambda>_. k))
              else Spin barrier_iter prev)
             (flex_annotate_barrier A 0 (flex_intra_cluster_sync k)))))))
        else flex_intra_cluster_sync k)))"

text \<open>The two counters of the two-level barrier: one per row, in the middle column, and one for
  the column of the rows, in the middle cluster.\<close>

definition barrier_x_addr :: "arch \<Rightarrow> u32 \<Rightarrow> u32 \<Rightarrow> u32" where
  "barrier_x_addr A mid y = ARCH_SYNC_BASE A + cluster_index A mid y * ARCH_SYNC_SIZE A + 8"

definition barrier_ix_addr :: "arch \<Rightarrow> u32 \<Rightarrow> u32 \<Rightarrow> u32" where
  "barrier_ix_addr A mid y = ARCH_SYNC_BASE A + cluster_index A mid y * ARCH_SYNC_SIZE A + 12"

definition barrier_y_addr :: "arch \<Rightarrow> u32 \<Rightarrow> u32 \<Rightarrow> u32" where
  "barrier_y_addr A mid_x mid_y = ARCH_SYNC_BASE A + cluster_index A mid_x mid_y * ARCH_SYNC_SIZE A + 16"

definition barrier_iy_addr :: "arch \<Rightarrow> u32 \<Rightarrow> u32 \<Rightarrow> u32" where
  "barrier_iy_addr A mid_x mid_y = ARCH_SYNC_BASE A + cluster_index A mid_x mid_y * ARCH_SYNC_SIZE A + 20"

text \<open>\<open>for (i = 0; i < ARCH_NUM_CLUSTER_Y; ++i)\<close> of the initialisation, from row \<open>y\<close> with \<open>n\<close> rows
  to go.\<close>

fun reset_rows :: "arch \<Rightarrow> u32 \<Rightarrow> nat \<Rightarrow> u32 \<Rightarrow> io \<Rightarrow> io" where
  "reset_rows A mid 0 y k = k"
| "reset_rows A mid (Suc n) y k =
     flex_reset_barrier A (barrier_x_addr A mid y) (reset_rows A mid n (y + 1) k)"

definition flex_barrier_xy_init :: "arch \<Rightarrow> io \<Rightarrow> io" where
  "flex_barrier_xy_init A k =
     flex_get_cluster_id A (\<lambda>_.
     let mid_x = ARCH_NUM_CLUSTER_X A div 2; mid_y = ARCH_NUM_CLUSTER_Y A div 2;
         barrier_y = barrier_y_addr A mid_x mid_y
     in flex_is_dm_core A (\<lambda>dm.
        if dm then
          flex_get_cluster_id A (\<lambda>cid.
            (if cid = 0 then \<lambda>k.
               flex_reset_barrier A barrier_y
               (reset_rows A mid_x (unat (ARCH_NUM_CLUSTER_Y A)) 0 (flex_wakeup_all_clusters A k))
             else id)
            (cluster_wait A (flex_intra_cluster_sync k)))
        else flex_intra_cluster_sync k))"

definition flex_global_barrier_xy :: "arch \<Rightarrow> io \<Rightarrow> io" where
  "flex_global_barrier_xy A k =
     flex_intra_cluster_sync
     (flex_is_dm_core A (\<lambda>dm.
       if dm then
         flex_annotate_barrier A 0
         (flex_get_cluster_id A (\<lambda>cid. let pos = get_pos A cid in
          flex_get_barrier_num_cluster_x A (\<lambda>nx. let mid_x = nx div 2 in
          flex_get_barrier_num_cluster_y A (\<lambda>ny. let mid_y = ny div 2;
            barrier_x = barrier_x_addr A mid_x (pos_y pos); barrier_y = barrier_y_addr A mid_x mid_y;
            leave = cluster_wait A (flex_annotate_barrier A 0 (flex_intra_cluster_sync k)) in
          flex_get_barrier_num_cluster_x A (\<lambda>n.
          flex_get_enable_value A (\<lambda>e.
          flex_amo_fetch_add A barrier_x (\<lambda>old.
            if n - e = old then
              flex_reset_barrier A barrier_x
              (flex_get_barrier_num_cluster_y A (\<lambda>n.
               flex_get_enable_value A (\<lambda>e.
               flex_amo_fetch_add A barrier_y (\<lambda>old.
                 if n - e = old
                 then flex_reset_barrier A barrier_y (flex_wakeup_all_clusters A leave)
                 else leave))))
            else leave)))))))
       else flex_intra_cluster_sync k))"

definition flex_global_barrier_xy_polling :: "arch \<Rightarrow> io \<Rightarrow> io" where
  "flex_global_barrier_xy_polling A k =
     flex_intra_cluster_sync
     (flex_is_dm_core A (\<lambda>dm.
       if dm then
         flex_annotate_barrier A 0
         (flex_get_cluster_id A (\<lambda>cid. let pos = get_pos A cid in
          flex_get_barrier_num_cluster_x A (\<lambda>nx. let mid_x = nx div 2 in
          flex_get_barrier_num_cluster_y A (\<lambda>ny. let mid_y = ny div 2;
            barrier_x = barrier_x_addr A mid_x (pos_y pos); barrier_ix = barrier_ix_addr A mid_x (pos_y pos);
            barrier_y = barrier_y_addr A mid_x mid_y; barrier_iy = barrier_iy_addr A mid_x mid_y;
            leave = flex_annotate_barrier A 0 (flex_intra_cluster_sync k) in
          Rd barrier_ix (\<lambda>prev_x.
          Rd barrier_iy (\<lambda>prev_y.
          flex_get_barrier_num_cluster_x A (\<lambda>n.
          flex_get_enable_value A (\<lambda>e.
          flex_amo_fetch_add A barrier_x (\<lambda>old.
            if n - e = old then
              flex_reset_barrier A barrier_x
              (flex_get_barrier_num_cluster_y A (\<lambda>n.
               flex_get_enable_value A (\<lambda>e.
               flex_amo_fetch_add A barrier_y (\<lambda>old.
                 (if n - e = old
                  then \<lambda>k. flex_reset_barrier A barrier_y (flex_amo_fetch_add A barrier_iy (\<lambda>_. k))
                  else Spin barrier_iy prev_y)
                 (flex_amo_fetch_add A barrier_ix (\<lambda>_. leave))))))
            else Spin barrier_ix prev_x leave)))))))))
       else flex_intra_cluster_sync k))"

subsection \<open>End of computation, timer, logging\<close>

definition flex_eoc :: "arch \<Rightarrow> u32 \<Rightarrow> io \<Rightarrow> io" where
  "flex_eoc A val k = Wr (ARCH_SOC_REGISTER_EOC A) val k"

definition flex_timer_start :: "arch \<Rightarrow> io \<Rightarrow> io" where
  "flex_timer_start A k = flex_get_enable_value A (\<lambda>v. Wr (ARCH_SOC_REGISTER_EOC A + 8) v k)"

definition flex_timer_end :: "arch \<Rightarrow> io \<Rightarrow> io" where
  "flex_timer_end A k = flex_get_enable_value A (\<lambda>v. Wr (ARCH_SOC_REGISTER_EOC A + 12) v k)"

text \<open>\<open>char\<close> is unsigned on the target.\<close>

definition flex_log_char :: "arch \<Rightarrow> u8 \<Rightarrow> io \<Rightarrow> io" where
  "flex_log_char A c k = Wr (ARCH_SOC_REGISTER_EOC A + 16) (ucast c) k"

text \<open>\<open>str\<close> is the memory from the pointer on; the loop stops at the first NUL.\<close>

fun flex_print :: "arch \<Rightarrow> u8 list \<Rightarrow> io \<Rightarrow> io" where
  "flex_print A [] k = k"
| "flex_print A (c # str) k = (if c = 0 then k else flex_log_char A c (flex_print A str k))"

definition flex_print_int :: "arch \<Rightarrow> u32 \<Rightarrow> io \<Rightarrow> io" where
  "flex_print_int A data k = Wr (ARCH_SOC_REGISTER_EOC A + 20) data k"

definition flex_sat :: "arch \<Rightarrow> u32 \<Rightarrow> io \<Rightarrow> io" where
  "flex_sat A val k = Wr (ARCH_SOC_REGISTER_EOC A + 40) val k"

end
