(* ===== verification/Flex_Hw.thy ===== *)
theory Flex_Hw
  imports Flex_Runtime
begin

text \<open>
  The machine the runtime runs on, as far as synchronisation needs it: harts \<open>(cluster, core)\<close>
  that run \<open>io\<close> programs in any interleaving over one shared memory, the cluster registers of
  \<open>soft_hier/flex_cluster/cluster_registers.cpp\<close> and the wake-up broadcast of the router patch
  \<open>soft_hier/gvsoc_pulp.patch\<close>.  A broadcast puts one wake-up message in flight to every cluster
  its masks select; the network delivers messages in any order, one step each.
\<close>

type_synonym hart = "nat \<times> nat"

record hw =
  mem :: heap
  prog :: "hart \<Rightarrow> io"
  at_sync :: "hart \<Rightarrow> bool"
  query :: "nat \<Rightarrow> nat option"
  mutex :: "nat \<Rightarrow> bool"
  flight :: "nat \<Rightarrow> nat"
  ticks :: "hart \<Rightarrow> nat"

text \<open>
  \<open>at_sync\<close> are the bits of \<open>barrier_status\<close>, \<open>query\<close> is \<open>global_barrier_query\<close> (the core whose
  store to register 0 is held back), \<open>mutex\<close> is \<open>global_barrier_mutex\<close>, \<open>flight\<close> counts the wake-up
  messages on their way to a cluster, and \<open>ticks\<close> the \<open>Tick\<close> markers a hart has passed.
\<close>

definition num_x :: "arch \<Rightarrow> nat" where "num_x A = unat (ARCH_NUM_CLUSTER_X A)"
definition num_y :: "arch \<Rightarrow> nat" where "num_y A = unat (ARCH_NUM_CLUSTER_Y A)"
definition num_cores :: "arch \<Rightarrow> nat" where "num_cores A = unat (ARCH_NUM_CORE_PER_CLUSTER A)"

definition is_hart :: "arch \<Rightarrow> hart \<Rightarrow> bool" where
  "is_hart A h = (fst h < num_x A * num_y A \<and> snd h < num_cores A)"

text \<open>The register file occupies the addresses from its base; 64 bytes of it are used here.\<close>

definition reg_offset :: "arch \<Rightarrow> u32 \<Rightarrow> u32" where
  "reg_offset A a = a - ARCH_CLUSTER_REG_BASE A"

definition is_reg :: "arch \<Rightarrow> u32 \<Rightarrow> bool" where
  "is_reg A a = (reg_offset A a < 0x200)"

text \<open>Loads of the register file: \<open>None\<close> where the simulator leaves the data as it was.\<close>

definition reg_read :: "arch \<Rightarrow> nat \<Rightarrow> u32 \<Rightarrow> u32 option" where
  "reg_read A cid off =
     (if off = 0 then Some (of_nat cid)
      else if off = 4 then Some 1
      else if off = 8 then Some (ARCH_NUM_CLUSTER_X A * ARCH_NUM_CLUSTER_Y A)
      else if off = 12 then Some (ARCH_NUM_CLUSTER_X A)
      else if off = 16 then Some (ARCH_NUM_CLUSTER_Y A)
      else if off = 24 then Some 0
      else None)"

text \<open>The clusters a broadcast selects: the masks are cut to 8 bits, \<open>row_mask\<close> compares the x
  coordinates and \<open>col_mask\<close> the y coordinates.\<close>

definition check_target :: "arch \<Rightarrow> nat \<Rightarrow> nat \<Rightarrow> u8 \<Rightarrow> u8 \<Rightarrow> bool" where
  "check_target A cur source row_mask col_mask =
     ((of_nat (source mod num_x A) AND (ucast row_mask :: u32)) =
        (of_nat (cur mod num_x A) AND ucast row_mask) \<and>
      (of_nat (source div num_x A) AND (ucast col_mask :: u32)) =
        (of_nat (cur div num_x A) AND ucast col_mask))"

definition broadcast :: "arch \<Rightarrow> nat \<Rightarrow> u32 \<Rightarrow> (nat \<Rightarrow> nat) \<Rightarrow> nat \<Rightarrow> nat" where
  "broadcast A source value f c =
     (if c < num_x A * num_y A \<and>
         check_target A c source (ucast (value AND 0xFFFF)) (ucast (drop_bit 16 value))
      then Suc (f c) else f c)"

text \<open>
  A store to the register file: offset 0 waits for a wake-up unless one is stored already, or is
  ignored when another store is held back; offset 28 broadcasts; the other offsets only annotate.
\<close>

definition reg_write :: "arch \<Rightarrow> hart \<Rightarrow> u32 \<Rightarrow> u32 \<Rightarrow> io \<Rightarrow> hw \<Rightarrow> hw" where
  "reg_write A h off v k s =
     (let c = fst h; continue = s\<lparr>prog := (prog s)(h := k)\<rparr> in
      if off = 0 \<and> query s c = None then
        (if mutex s c then continue\<lparr>mutex := (mutex s)(c := False)\<rparr>
         else continue\<lparr>query := (query s)(c := Some (snd h))\<rparr>)
      else if off = 28 then continue\<lparr>flight := broadcast A c v (flight s)\<rparr>
      else continue)"

text \<open>A hart whose store to offset 0 is held back does not run: its \<open>prog\<close> is what comes after.\<close>

definition held_back :: "hw \<Rightarrow> hart \<Rightarrow> bool" where
  "held_back s h = (query s (fst h) = Some (snd h))"

definition all_at_sync :: "arch \<Rightarrow> hw \<Rightarrow> nat \<Rightarrow> bool" where
  "all_at_sync A s c = (\<forall>i < num_cores A. at_sync s (c, i))"

fun skip_sync :: "io \<Rightarrow> io" where
  "skip_sync (Csr_Sync k) = k"
| "skip_sync p = p"

text \<open>The last core of a cluster to arrive releases all of them and clears the status.\<close>

definition arrive :: "arch \<Rightarrow> hart \<Rightarrow> hw \<Rightarrow> hw" where
  "arrive A h s =
     (let s' = s\<lparr>at_sync := (at_sync s)(h := True)\<rparr> in
      if all_at_sync A s' (fst h) then
        s'\<lparr>prog := (\<lambda>g. if fst g = fst h \<and> snd g < num_cores A then skip_sync (prog s g) else prog s g),
           at_sync := (\<lambda>g. if fst g = fst h \<and> snd g < num_cores A then False else at_sync s g)\<rparr>
      else s')"

text \<open>Delivery of a wake-up: stored, or the held-back store completes.\<close>

definition deliver :: "nat \<Rightarrow> hw \<Rightarrow> hw" where
  "deliver c s =
     (let s' = s\<lparr>flight := (flight s)(c := flight s c - 1)\<rparr> in
      if query s c = None then s'\<lparr>mutex := (mutex s)(c := True)\<rparr>
      else s'\<lparr>mutex := (mutex s)(c := False), query := (query s)(c := None)\<rparr>)"

text \<open>One step of a hart; instructions other than the synchronisation ones are not run here.\<close>

inductive hart_step :: "arch \<Rightarrow> hart \<Rightarrow> hw \<Rightarrow> hw \<Rightarrow> bool" for A h where
  reg_load: "prog s h = Rd a k \<Longrightarrow> is_reg A a \<Longrightarrow> reg_read A (fst h) (reg_offset A a) = Some v \<Longrightarrow>
    hart_step A h s (s\<lparr>prog := (prog s)(h := k v)\<rparr>)"
| mem_load: "prog s h = Rd a k \<Longrightarrow> \<not> is_reg A a \<Longrightarrow>
    hart_step A h s (s\<lparr>prog := (prog s)(h := k (mem s a))\<rparr>)"
| reg_store: "prog s h = Wr a v k \<Longrightarrow> is_reg A a \<Longrightarrow>
    hart_step A h s (reg_write A h (reg_offset A a) v k s)"
| mem_store: "prog s h = Wr a v k \<Longrightarrow> \<not> is_reg A a \<Longrightarrow>
    hart_step A h s (s\<lparr>mem := (mem s)(a := v), prog := (prog s)(h := k)\<rparr>)"
| amo: "prog s h = Amo a v k \<Longrightarrow>
    hart_step A h s (s\<lparr>mem := (mem s)(a := mem s a + v), prog := (prog s)(h := k (mem s a))\<rparr>)"
| spin: "prog s h = Spin a v k \<Longrightarrow> mem s a \<noteq> v \<Longrightarrow> hart_step A h s (s\<lparr>prog := (prog s)(h := k)\<rparr>)"
| hartid: "prog s h = Csr_Hartid k \<Longrightarrow>
    hart_step A h s (s\<lparr>prog := (prog s)(h := k (of_nat (snd h)))\<rparr>)"
| sync: "prog s h = Csr_Sync k \<Longrightarrow> \<not> at_sync s h \<Longrightarrow> hart_step A h s (arrive A h s)"
| printf: "prog s h = Printf l k \<Longrightarrow> hart_step A h s (s\<lparr>prog := (prog s)(h := k)\<rparr>)"
| tick: "prog s h = Tick k \<Longrightarrow>
    hart_step A h s (s\<lparr>prog := (prog s)(h := k), ticks := (ticks s)(h := Suc (ticks s h))\<rparr>)"

inductive hw_step :: "arch \<Rightarrow> hw \<Rightarrow> hw \<Rightarrow> bool" for A where
  run: "is_hart A h \<Longrightarrow> \<not> held_back s h \<Longrightarrow> hart_step A h s s' \<Longrightarrow> hw_step A s s'"
| wake: "c < num_x A * num_y A \<Longrightarrow> 0 < flight s c \<Longrightarrow> hw_step A s (deliver c s)"

inductive reachable :: "arch \<Rightarrow> hw \<Rightarrow> hw \<Rightarrow> bool" for A s0 where
  start: "reachable A s0 s0"
| step: "reachable A s0 s \<Longrightarrow> hw_step A s s' \<Longrightarrow> reachable A s0 s'"

end
