(* ===== verification/Barrier_Code.thy ===== *)
theory Barrier_Code
  imports Flex_Hw
begin

text \<open>
  The control points of a program that synchronises with \<open>flex_global_barrier_xy\<close>.  \<open>norm\<close> runs a
  program to its next visible access, past the reads of constant registers, the annotations and
  the prints; \<open>code\<close> gives the program left at each control point \<open>bpc\<close> of the barrier, so that a
  hart's program and its control point determine each other.
\<close>

subsection \<open>The next visible access\<close>

primrec norm :: "arch \<Rightarrow> hart \<Rightarrow> io \<Rightarrow> io" where
  "norm A h Halt = Halt"
| "norm A h (Rd a k) =
     (if is_reg A a \<and> reg_read A (fst h) (reg_offset A a) \<noteq> None
      then norm A h (k (the (reg_read A (fst h) (reg_offset A a)))) else Rd a k)"
| "norm A h (Wr a v k) = (if is_reg A a \<and> reg_offset A a = 20 then norm A h k else Wr a v k)"
| "norm A h (Amo a v k) = Amo a v k"
| "norm A h (Spin a v k) = Spin a v k"
| "norm A h (Csr_Hartid k) = norm A h (k (of_nat (snd h)))"
| "norm A h (Csr_Sync k) = Csr_Sync k"
| "norm A h (Insn w rs k) = Insn w rs k"
| "norm A h (Poll w k) = Poll w k"
| "norm A h (Heap_Init b base sz k) = Heap_Init b base sz k"
| "norm A h (Malloc b sz k) = Malloc b sz k"
| "norm A h (Free b p k) = Free b p k"
| "norm A h (Printf l k) = norm A h k"
| "norm A h (Tick k) = Tick k"

lemma reg_offset_simps [simp]:
  "reg_offset A (ARCH_CLUSTER_REG_BASE A) = 0" "reg_offset A (ARCH_CLUSTER_REG_BASE A + n) = n"
  by (simp_all add: reg_offset_def)

lemma is_reg_simps [simp]:
  "is_reg A (ARCH_CLUSTER_REG_BASE A)" "is_reg A (ARCH_CLUSTER_REG_BASE A + n) \<longleftrightarrow> n < 0x200"
  by (simp_all add: is_reg_def)

lemma reg_read_simps [simp]:
  "reg_read A c 0 = Some (of_nat c)" "reg_read A c 4 = Some 1"
  "reg_read A c 8 = Some (ARCH_NUM_CLUSTER_X A * ARCH_NUM_CLUSTER_Y A)"
  "reg_read A c 12 = Some (ARCH_NUM_CLUSTER_X A)" "reg_read A c 16 = Some (ARCH_NUM_CLUSTER_Y A)"
  "reg_read A c 24 = Some 0"
  by (simp_all add: reg_read_def)

lemma norm_runtime [simp]:
  "norm A h (flex_get_cluster_id A k) = norm A h (k (of_nat (fst h)))"
  "norm A h (flex_get_enable_value A k) = norm A h (k 1)"
  "norm A h (flex_get_disable_value A k) = norm A h (k 0)"
  "norm A h (flex_get_barrier_num_cluster_x A k) = norm A h (k (ARCH_NUM_CLUSTER_X A))"
  "norm A h (flex_get_barrier_num_cluster_y A k) = norm A h (k (ARCH_NUM_CLUSTER_Y A))"
  "norm A h (flex_annotate_barrier A v p) = norm A h p"
  "norm A h (flex_reset_barrier A a p) = norm A h (Wr a 0 p)"
  "norm A h (flex_amo_fetch_add A a k) = Amo a 1 k"
  "norm A h (flex_intra_cluster_sync p) = Csr_Sync p"
  "norm A h (flex_wakeup_all_clusters A p) = Wr (ARCH_CLUSTER_REG_BASE A + 28) 0 p"
  "norm A h (cluster_wait A p) = Wr (ARCH_CLUSTER_REG_BASE A) 1 p"
  by (simp_all add: flex_get_cluster_id_def flex_get_enable_value_def flex_get_disable_value_def
      flex_get_barrier_num_cluster_x_def flex_get_barrier_num_cluster_y_def flex_annotate_barrier_def
      flex_reset_barrier_def flex_amo_fetch_add_def flex_intra_cluster_sync_def
      flex_wakeup_all_clusters_def cluster_wait_def)

subsection \<open>Silent and visible steps\<close>

text \<open>A step that only passes to a program with the same next visible access.\<close>

definition silent :: "arch \<Rightarrow> hart \<Rightarrow> hw \<Rightarrow> hw \<Rightarrow> bool" where
  "silent A h s s' = (\<exists>p. s' = s\<lparr>prog := (prog s)(h := p)\<rparr> \<and> norm A h p = norm A h (prog s h) \<and>
     (\<forall>k. prog s h \<noteq> Csr_Sync k))"

lemma step_silent_or_visible:
  assumes "hart_step A h s s'"
  shows "silent A h s s' \<or> norm A h (prog s h) = prog s h"
  using assms
proof (cases rule: hart_step.cases)
  case (reg_load a k v)
  then have "norm A h (prog s h) = norm A h (k v)" by simp
  then show ?thesis using reg_load unfolding silent_def by auto
next
  case (reg_store a v k)
  show ?thesis
  proof (cases "reg_offset A a = 20")
    case True
    then have "norm A h k = norm A h (prog s h)" using reg_store by simp
    then show ?thesis using reg_store True unfolding silent_def by (auto simp: reg_write_def)
  next
    case False
    then show ?thesis using reg_store by simp
  qed
next
  case (hartid k)
  then have "norm A h (prog s h) = norm A h (k (of_nat (snd h)))" by simp
  then show ?thesis using hartid unfolding silent_def by auto
next
  case (printf l k)
  then have "norm A h (prog s h) = norm A h k" by simp
  then show ?thesis using printf unfolding silent_def by auto
qed simp_all

lemma step_Amo: "hart_step A h s s' \<Longrightarrow> prog s h = Amo a v k \<Longrightarrow>
    s' = s\<lparr>mem := (mem s)(a := mem s a + v), prog := (prog s)(h := k (mem s a))\<rparr>"
  by (erule hart_step.cases) simp_all

lemma step_Wr_mem: "hart_step A h s s' \<Longrightarrow> prog s h = Wr a v k \<Longrightarrow> \<not> is_reg A a \<Longrightarrow>
    s' = s\<lparr>mem := (mem s)(a := v), prog := (prog s)(h := k)\<rparr>"
  by (erule hart_step.cases) simp_all

lemma step_Wr_reg: "hart_step A h s s' \<Longrightarrow> prog s h = Wr a v k \<Longrightarrow> is_reg A a \<Longrightarrow>
    s' = reg_write A h (reg_offset A a) v k s"
  by (erule hart_step.cases) simp_all

lemma step_Csr_Sync: "hart_step A h s s' \<Longrightarrow> prog s h = Csr_Sync k \<Longrightarrow>
    \<not> at_sync s h \<and> s' = arrive A h s"
  by (erule hart_step.cases) simp_all

lemma step_Tick: "hart_step A h s s' \<Longrightarrow> prog s h = Tick k \<Longrightarrow>
    s' = s\<lparr>prog := (prog s)(h := k), ticks := (ticks s)(h := Suc (ticks s h))\<rparr>"
  by (erule hart_step.cases) simp_all

lemma step_Halt: "hart_step A h s s' \<Longrightarrow> prog s h \<noteq> Halt"
  by (erule hart_step.cases) simp_all

text \<open>Every program but a finished, waiting or device-bound one can take a step.\<close>

fun runs :: "io \<Rightarrow> bool" where
  "runs Halt = False"
| "runs (Spin a v k) = False"
| "runs (Insn w rs k) = False"
| "runs (Poll w k) = False"
| "runs (Heap_Init b base sz k) = False"
| "runs (Malloc b sz k) = False"
| "runs (Free b p k) = False"
| "runs (Rd a k) = False"
| "runs p = True"

lemma can_step:
  assumes "runs (norm A h (prog s h))" and "\<not> at_sync s h"
  shows "\<exists>s'. hart_step A h s s'"
proof (cases "prog s h")
  case (Rd a k)
  show ?thesis
  proof (cases "is_reg A a \<and> reg_read A (fst h) (reg_offset A a) \<noteq> None")
    case True
    then show ?thesis using Rd reg_load [of s h a k A] by auto
  next
    case False
    then show ?thesis using Rd assms(1) by auto
  qed
next
  case (Wr a v k)
  then show ?thesis using reg_store mem_store by (cases "is_reg A a") blast+
qed (use assms in \<open>auto intro: hart_step.intros\<close>)

text \<open>So can a program whose visible end is \<open>Halt\<close> but that has silent accesses to go.\<close>

lemma halting_step:
  assumes "norm A h (prog s h) = Halt" and "prog s h \<noteq> Halt"
  shows "\<exists>s'. hart_step A h s s'"
proof (cases "prog s h")
  case (Rd a k)
  then show ?thesis using assms reg_load [of s h a k A] by (auto split: if_splits)
next
  case (Wr a v k)
  then show ?thesis using reg_store mem_store by (cases "is_reg A a") blast+
qed (use assms in \<open>auto intro: hart_step.intros\<close>)

subsection \<open>The client program and its control points\<close>

text \<open>Initialise, then \<open>n\<close> times: one phase of work (a \<open>Tick\<close>), then the barrier.\<close>

fun rounds :: "arch \<Rightarrow> nat \<Rightarrow> io" where
  "rounds A 0 = Halt"
| "rounds A (Suc n) = Tick (flex_global_barrier_xy A (rounds A n))"

definition client :: "arch \<Rightarrow> nat \<Rightarrow> io" where
  "client A n = flex_barrier_xy_init A (rounds A n)"

datatype bpc = Zero nat | Work | In | AmoX | ResetX | AmoY | ResetY | Wake | Leave | Held | Out

definition mid_x :: "arch \<Rightarrow> u32" where "mid_x A = ARCH_NUM_CLUSTER_X A div 2"
definition mid_y :: "arch \<Rightarrow> u32" where "mid_y A = ARCH_NUM_CLUSTER_Y A div 2"

abbreviation (input) row_addr :: "arch \<Rightarrow> nat \<Rightarrow> u32" where
  "row_addr A y \<equiv> barrier_x_addr A (mid_x A) (of_nat y)"

abbreviation (input) col_addr :: "arch \<Rightarrow> u32" where
  "col_addr A \<equiv> barrier_y_addr A (mid_x A) (mid_y A)"

text \<open>Round 0 is the initialisation, round \<open>r\<close> the \<open>r\<close>-th barrier; what follows it.\<close>

definition after_barrier :: "arch \<Rightarrow> nat \<Rightarrow> nat \<Rightarrow> io" where
  "after_barrier A n r = rounds A (n - r)"

definition after_wait :: "arch \<Rightarrow> nat \<Rightarrow> nat \<Rightarrow> io" where
  "after_wait A n r =
     (if r = 0 then flex_intra_cluster_sync (after_barrier A n r)
      else flex_annotate_barrier A 0 (flex_intra_cluster_sync (after_barrier A n r)))"

definition leave_prog :: "arch \<Rightarrow> nat \<Rightarrow> nat \<Rightarrow> io" where
  "leave_prog A n r = cluster_wait A (after_wait A n r)"

definition amo_y_prog :: "arch \<Rightarrow> nat \<Rightarrow> nat \<Rightarrow> u32 \<Rightarrow> io" where
  "amo_y_prog A n r old =
     (if ARCH_NUM_CLUSTER_Y A - 1 = old
      then flex_reset_barrier A (col_addr A) (flex_wakeup_all_clusters A (leave_prog A n r))
      else leave_prog A n r)"

definition row_done_prog :: "arch \<Rightarrow> nat \<Rightarrow> nat \<Rightarrow> io" where
  "row_done_prog A n r =
     flex_get_barrier_num_cluster_y A (\<lambda>m. flex_get_enable_value A (\<lambda>e.
     flex_amo_fetch_add A (col_addr A) (\<lambda>old.
       if m - e = old
       then flex_reset_barrier A (col_addr A) (flex_wakeup_all_clusters A (leave_prog A n r))
       else leave_prog A n r)))"

definition amo_x_prog :: "arch \<Rightarrow> nat \<Rightarrow> nat \<Rightarrow> nat \<Rightarrow> u32 \<Rightarrow> io" where
  "amo_x_prog A n r y old =
     (if ARCH_NUM_CLUSTER_X A - 1 = old
      then flex_reset_barrier A (row_addr A y) (row_done_prog A n r) else leave_prog A n r)"

fun code :: "arch \<Rightarrow> nat \<Rightarrow> hart \<Rightarrow> nat \<times> bpc \<Rightarrow> io" where
  "code A n h (r, Zero 0) =
     Wr (col_addr A) 0 (reset_rows A (mid_x A) (num_y A) 0 (flex_wakeup_all_clusters A (leave_prog A n r)))"
| "code A n h (r, Zero (Suc i)) =
     Wr (row_addr A i) 0 (reset_rows A (mid_x A) (num_y A - Suc i) (of_nat (Suc i))
       (flex_wakeup_all_clusters A (leave_prog A n r)))"
| "code A n h (r, Work) = rounds A (Suc n - r)"
| "code A n h (r, In) = flex_global_barrier_xy A (after_barrier A n r)"
| "code A n h (r, AmoX) = Amo (row_addr A (fst h div num_x A)) 1 (amo_x_prog A n r (fst h div num_x A))"
| "code A n h (r, ResetX) = Wr (row_addr A (fst h div num_x A)) 0 (row_done_prog A n r)"
| "code A n h (r, AmoY) = Amo (col_addr A) 1 (amo_y_prog A n r)"
| "code A n h (r, ResetY) = Wr (col_addr A) 0 (flex_wakeup_all_clusters A (leave_prog A n r))"
| "code A n h (r, Wake) = Wr (ARCH_CLUSTER_REG_BASE A + 28) 0 (leave_prog A n r)"
| "code A n h (r, Leave) = Wr (ARCH_CLUSTER_REG_BASE A) 1 (after_wait A n r)"
| "code A n h (r, Held) = Csr_Sync (after_barrier A n r)"
| "code A n h (r, Out) = Csr_Sync (after_barrier A n r)"

text \<open>The programs the control points pass to, up to their next visible access.\<close>

lemma norm_leave [simp]: "norm A h (leave_prog A n r) = code A n h (r, Leave)"
  by (simp add: leave_prog_def)

lemma norm_after_wait [simp]: "norm A h (after_wait A n r) = code A n h (r, Out)"
  by (simp add: after_wait_def)

lemma norm_amo_y:
  "\<not> is_reg A (col_addr A) \<Longrightarrow> norm A h (amo_y_prog A n r old) =
     code A n h (r, if ARCH_NUM_CLUSTER_Y A - 1 = old then ResetY else Leave)"
  by (simp add: amo_y_prog_def)

lemma norm_row_done [simp]: "norm A h (row_done_prog A n r) = code A n h (r, AmoY)"
  by (simp add: row_done_prog_def amo_y_prog_def fun_eq_iff)

lemma norm_amo_x:
  "\<not> is_reg A (row_addr A (fst h div num_x A)) \<Longrightarrow>
     norm A h (amo_x_prog A n r (fst h div num_x A) old) =
     code A n h (r, if ARCH_NUM_CLUSTER_X A - 1 = old then ResetX else Leave)"
  by (simp add: amo_x_prog_def)

lemma norm_xy [simp]: "norm A h (flex_global_barrier_xy A k) = flex_global_barrier_xy A k"
  by (simp add: flex_global_barrier_xy_def flex_intra_cluster_sync_def)

lemma xy_sync: "\<exists>p. flex_global_barrier_xy A k = Csr_Sync p"
  by (simp add: flex_global_barrier_xy_def flex_intra_cluster_sync_def)

lemma norm_rounds [simp]: "norm A h (rounds A n) = rounds A n"
  by (cases n) simp_all

end
