(* ===== verification/Barrier_Count.thy ===== *)
theory Barrier_Count
  imports Barrier_Code
begin

text \<open>
  The counting argument of the two-level barrier, apart from programs and harts: \<open>q c\<close> is the
  control point of the data-mover core of cluster \<open>c\<close> in the current round (\<open>Out\<close> while it has
  not left the round before), and \<open>collect\<close> relates these points to the counters in memory: a row
  counter holds the number of clusters of the row that have arrived, the column counter the
  number of rows that are done, each counter is back at 0 once its last arrival has reset it,
  and at most one core of a row, and one of all, is past a last arrival.
\<close>

subsection \<open>The memory layout\<close>

definition sync_ok :: "arch \<Rightarrow> bool" where
  "sync_ok A =
     (arch_ok A \<and> 24 \<le> unat (ARCH_SYNC_SIZE A) \<and>
      unat (ARCH_SYNC_BASE A) + num_x A * num_y A * unat (ARCH_SYNC_SIZE A) \<le> 4294967296 \<and>
      unat (ARCH_CLUSTER_REG_BASE A) + 512 \<le> 4294967296 \<and>
      (unat (ARCH_CLUSTER_REG_BASE A) + 512 \<le> unat (ARCH_SYNC_BASE A) \<or>
       unat (ARCH_SYNC_BASE A) + num_x A * num_y A * unat (ARCH_SYNC_SIZE A)
         \<le> unat (ARCH_CLUSTER_REG_BASE A)))"

lemma sync_ok_default: "sync_ok arch_default"
  by (simp add: sync_ok_def arch_default_ok ARCH_SYNC_SIZE_def num_x_def num_y_def)

lemma num_pos: "arch_ok A \<Longrightarrow> 0 < num_x A" "arch_ok A \<Longrightarrow> 0 < num_y A" "arch_ok A \<Longrightarrow> 0 < num_cores A"
  by (simp_all add: arch_ok_def num_x_def num_y_def num_cores_def)

lemma num_bound: "arch_ok A \<Longrightarrow> num_x A < 65536" "arch_ok A \<Longrightarrow> num_y A < 65536"
  by (simp_all add: arch_ok_def num_x_def num_y_def)

lemma sync_slot:
  assumes "sync_ok A" and "y < num_y A" and "d < 24"
  shows "unat (ARCH_SYNC_BASE A + cluster_index A (mid_x A) (of_nat y) * ARCH_SYNC_SIZE A + of_nat d)
      = unat (ARCH_SYNC_BASE A) + (y * num_x A + num_x A div 2) * unat (ARCH_SYNC_SIZE A) + d"
    and "unat (ARCH_SYNC_BASE A) + (y * num_x A + num_x A div 2) * unat (ARCH_SYNC_SIZE A) + d
      < unat (ARCH_SYNC_BASE A) + num_x A * num_y A * unat (ARCH_SYNC_SIZE A)"
proof -
  let ?S = "unat (ARCH_SYNC_SIZE A)" and ?i = "y * num_x A + num_x A div 2"
  have ok: "arch_ok A" and S: "24 \<le> ?S" and top: "unat (ARCH_SYNC_BASE A) + num_x A * num_y A * ?S \<le> 4294967296"
    using assms(1) by (simp_all add: sync_ok_def)
  have mid: "mid_x A < ARCH_NUM_CLUSTER_X A"
    using num_pos(1) [OF ok] by (simp add: mid_x_def word_less_nat_alt unat_div_distrib num_x_def)
  have y: "unat (of_nat y :: u32) = y" using assms(2) num_bound(2) [OF ok] by (simp add: unat_of_nat32)
  have yY: "(of_nat y :: u32) < ARCH_NUM_CLUSTER_Y A"
    unfolding word_less_nat_alt y using assms(2) by (simp add: num_y_def)
  have i: "unat (cluster_index A (mid_x A) (of_nat y)) = ?i"
    using unat_cluster_index(1) [OF ok mid yY] y by (simp add: num_x_def mid_x_def unat_div_distrib)
  have "?i < num_x A * num_y A"
    using assms(2) num_pos(1) [OF ok] by (intro mesh_index_less) simp_all
  then have "Suc ?i * ?S \<le> num_x A * num_y A * ?S" by (intro mult_le_mono1) simp
  then show lt: "unat (ARCH_SYNC_BASE A) + ?i * ?S + d < unat (ARCH_SYNC_BASE A) + num_x A * num_y A * ?S"
    using S assms(3) by simp
  have "unat (cluster_index A (mid_x A) (of_nat y) * ARCH_SYNC_SIZE A) = ?i * ?S"
    using lt top i by (subst unat_mult32) simp_all
  moreover have "unat (of_nat d :: u32) = d" using assms(3) by (simp add: unat_of_nat32)
  ultimately show "unat (ARCH_SYNC_BASE A + cluster_index A (mid_x A) (of_nat y) * ARCH_SYNC_SIZE A + of_nat d)
      = unat (ARCH_SYNC_BASE A) + ?i * ?S + d"
    using lt top by (subst unat_add32; subst unat_add32) simp_all
qed

lemma not_reg_of_range:
  assumes "sync_ok A" and "unat (ARCH_SYNC_BASE A) \<le> unat a"
    and "unat a < unat (ARCH_SYNC_BASE A) + num_x A * num_y A * unat (ARCH_SYNC_SIZE A)"
  shows "\<not> is_reg A a"
proof
  assume r: "is_reg A a"
  let ?d = "a - ARCH_CLUSTER_REG_BASE A"
  have d: "unat ?d < 512" using r by (simp add: is_reg_def reg_offset_def word_less_nat_alt)
  have "unat (ARCH_CLUSTER_REG_BASE A + ?d) = unat (ARCH_CLUSTER_REG_BASE A) + unat ?d"
    using d assms(1) by (intro unat_add32) (simp add: sync_ok_def)
  then have "unat a = unat (ARCH_CLUSTER_REG_BASE A) + unat ?d" by simp
  then show False using d assms by (auto simp: sync_ok_def)
qed

lemma unat_row_addr:
  assumes "sync_ok A" and "y < num_y A"
  shows "unat (row_addr A y) = unat (ARCH_SYNC_BASE A)
      + (y * num_x A + num_x A div 2) * unat (ARCH_SYNC_SIZE A) + 8"
  using sync_slot(1) [OF assms, of 8] by (simp add: barrier_x_addr_def)

lemma unat_col_addr:
  assumes "sync_ok A"
  shows "unat (col_addr A) = unat (ARCH_SYNC_BASE A)
      + (num_y A div 2 * num_x A + num_x A div 2) * unat (ARCH_SYNC_SIZE A) + 16"
proof -
  have "num_y A div 2 < 4294967296" using unat_lt32 [of "ARCH_NUM_CLUSTER_Y A"] unfolding num_y_def by linarith
  then have "mid_y A = of_nat (num_y A div 2)"
    unfolding unat_eq_iff32 by (simp only: unat_of_nat32) (simp add: mid_y_def num_y_def unat_div_distrib)
  moreover have "num_y A div 2 < num_y A" using assms num_pos(2) by (simp add: sync_ok_def)
  ultimately show ?thesis
    using sync_slot(1) [OF assms, of "num_y A div 2" 16] by (simp add: barrier_y_addr_def)
qed

lemma row_addr_not_reg [simp]: "sync_ok A \<Longrightarrow> y < num_y A \<Longrightarrow> \<not> is_reg A (row_addr A y)"
  using sync_slot(2) [of A y 8] by (intro not_reg_of_range) (simp_all add: unat_row_addr)

lemma col_addr_not_reg [simp]:
  assumes "sync_ok A"
  shows "\<not> is_reg A (col_addr A)"
proof -
  have "num_y A div 2 < num_y A" using assms num_pos(2) by (simp add: sync_ok_def)
  then show ?thesis
    using sync_slot(2) [OF assms, of "num_y A div 2" 16] assms
    by (intro not_reg_of_range) (simp_all add: unat_col_addr)
qed

lemma row_addr_eq [simp]:
  assumes "sync_ok A" and "y < num_y A" and "z < num_y A"
  shows "row_addr A y = row_addr A z \<longleftrightarrow> y = z"
proof -
  have "0 < unat (ARCH_SYNC_SIZE A)" "0 < num_x A" using assms(1) num_pos by (auto simp: sync_ok_def)
  then show ?thesis using assms by (simp add: unat_eq_iff32 unat_row_addr)
qed

lemma row_col_addr [simp]:
  assumes "sync_ok A" and "y < num_y A"
  shows "row_addr A y \<noteq> col_addr A" and "col_addr A \<noteq> row_addr A y"
proof -
  let ?S = "unat (ARCH_SYNC_SIZE A)"
  have "24 \<le> ?S" using assms(1) by (simp add: sync_ok_def)
  then have "i * ?S + 8 \<noteq> j * ?S + 16" for i j
    using mesh_index_eq [of 8 ?S 16 i j] by simp
  then have "unat (row_addr A y) \<noteq> unat (col_addr A)"
    unfolding unat_row_addr [OF assms] unat_col_addr [OF assms(1)] add.assoc by simp
  then show "row_addr A y \<noteq> col_addr A" "col_addr A \<noteq> row_addr A y" by metis+
qed

subsection \<open>Rows\<close>

definition row :: "arch \<Rightarrow> nat \<Rightarrow> nat set" where
  "row A y = {c. c < num_x A * num_y A \<and> c div num_x A = y}"

lemma row_finite [simp]: "finite (row A y)"
  by (rule finite_subset [of _ "{..< num_x A * num_y A}"]) (auto simp: row_def)

lemma row_card:
  assumes "arch_ok A" and "y < num_y A"
  shows "card (row A y) = num_x A"
proof -
  have X: "0 < num_x A" by (rule num_pos [OF assms(1)])
  have "row A y = (\<lambda>x. y * num_x A + x) ` {..< num_x A}"
  proof (intro set_eqI iffI)
    fix c assume "c \<in> row A y"
    then have "c = y * num_x A + c mod num_x A" "c mod num_x A < num_x A"
      using X by (auto simp: row_def)
    then show "c \<in> (\<lambda>x. y * num_x A + x) ` {..< num_x A}" by blast
  next
    fix c assume "c \<in> (\<lambda>x. y * num_x A + x) ` {..< num_x A}"
    then obtain x where "c = y * num_x A + x" "x < num_x A" by auto
    then show "c \<in> row A y" using mesh_index_less [of x "num_x A" y "num_y A"] assms(2) by (simp add: row_def)
  qed
  then show ?thesis by (simp add: card_image inj_on_def)
qed

lemma own_row: "c < num_x A * num_y A \<Longrightarrow> c \<in> row A (c div num_x A)"
  "c < num_x A * num_y A \<Longrightarrow> c div num_x A < num_y A"
  by (simp_all add: row_def less_mult_imp_div_less mult.commute)

lemma row_disjoint: "c \<in> row A y \<Longrightarrow> c \<in> row A z \<longleftrightarrow> y = z"
  by (auto simp: row_def)

subsection \<open>Arrivals\<close>

fun arrived :: "bpc \<Rightarrow> bool" where
  "arrived Work = False" | "arrived In = False" | "arrived AmoX = False" | "arrived Out = False"
| "arrived (Zero j) = True" | "arrived ResetX = True" | "arrived AmoY = True"
| "arrived ResetY = True" | "arrived Wake = True" | "arrived Leave = True" | "arrived Held = True"

fun row_lead :: "bpc \<Rightarrow> bool" where
  "row_lead ResetX = True" | "row_lead AmoY = True"
| "row_lead Work = False" | "row_lead In = False" | "row_lead AmoX = False" | "row_lead Out = False"
| "row_lead (Zero j) = False" | "row_lead ResetY = False" | "row_lead Wake = False"
| "row_lead Leave = False" | "row_lead Held = False"

fun col_lead :: "bpc \<Rightarrow> bool" where
  "col_lead ResetY = True" | "col_lead Wake = True" | "col_lead (Zero j) = True"
| "col_lead ResetX = False" | "col_lead AmoY = False"
| "col_lead Work = False" | "col_lead In = False" | "col_lead AmoX = False" | "col_lead Out = False"
| "col_lead Leave = False" | "col_lead Held = False"

definition here :: "arch \<Rightarrow> (nat \<Rightarrow> bpc) \<Rightarrow> nat \<Rightarrow> nat set" where
  "here A q y = {c \<in> row A y. arrived (q c)}"

definition row_done :: "arch \<Rightarrow> (nat \<Rightarrow> bpc) \<Rightarrow> nat \<Rightarrow> bool" where
  "row_done A q y = (\<forall>c\<in>row A y. arrived (q c) \<and> \<not> row_lead (q c))"

definition done_rows :: "arch \<Rightarrow> (nat \<Rightarrow> bpc) \<Rightarrow> nat set" where
  "done_rows A q = {y. y < num_y A \<and> row_done A q y}"

text \<open>The value of a counter of \<open>n\<close> participants of which \<open>k\<close> have arrived, while the last one
  is about to reset it or not.\<close>

definition count :: "nat \<Rightarrow> nat \<Rightarrow> bool \<Rightarrow> u32" where
  "count n k rst = of_nat (if rst then n else if k = n then 0 else k)"

definition counters :: "arch \<Rightarrow> (nat \<Rightarrow> bpc) \<Rightarrow> heap \<Rightarrow> bool" where
  "counters A q m =
     ((\<forall>y < num_y A. m (row_addr A y) =
         count (num_x A) (card (here A q y)) (\<exists>c\<in>row A y. q c = ResetX)) \<and>
      m (col_addr A) = count (num_y A) (card (done_rows A q))
         (\<exists>c < num_x A * num_y A. q c = ResetY))"

definition zeroed :: "arch \<Rightarrow> nat \<Rightarrow> heap \<Rightarrow> bool" where
  "zeroed A j m = (j \<le> num_y A \<and> (0 < j \<longrightarrow> m (col_addr A) = 0) \<and> (\<forall>i < j - 1. m (row_addr A i) = 0))"

definition zeroing :: "arch \<Rightarrow> (nat \<Rightarrow> bpc) \<Rightarrow> bool" where
  "zeroing A q = (\<exists>c < num_x A * num_y A. \<exists>j. q c = Zero j)"

definition collect :: "arch \<Rightarrow> (nat \<Rightarrow> bpc) \<Rightarrow> heap \<Rightarrow> bool" where
  "collect A q m =
     ((\<forall>y < num_y A. \<forall>c\<in>row A y. row_lead (q c) \<longrightarrow>
        here A q y = row A y \<and> (\<forall>d\<in>row A y. row_lead (q d) \<longrightarrow> d = c)) \<and>
      (\<forall>c < num_x A * num_y A. col_lead (q c) \<longrightarrow>
        done_rows A q = {..< num_y A} \<and> (\<forall>d < num_x A * num_y A. col_lead (q d) \<longrightarrow> d = c)) \<and>
      (done_rows A q = {..< num_y A} \<longrightarrow> (\<exists>c < num_x A * num_y A. col_lead (q c))) \<and>
      (if zeroing A q
       then \<forall>c < num_x A * num_y A. \<forall>j. q c = Zero j \<longrightarrow> zeroed A j m
       else counters A q m))"

text \<open>Only the clusters of the mesh matter.\<close>

lemma collect_cong:
  assumes "\<And>c. c < num_x A * num_y A \<Longrightarrow> q c = q' c"
  shows "collect A q m \<longleftrightarrow> collect A q' m"
proof -
  have r: "\<And>c y. c \<in> row A y \<Longrightarrow> q c = q' c" using assms by (simp add: row_def)
  have h: "here A q y = here A q' y" for y using r by (auto simp: here_def)
  have d: "done_rows A q = done_rows A q'" using r by (simp add: done_rows_def row_done_def)
  have z: "zeroing A q = zeroing A q'" using assms by (auto simp: zeroing_def)
  have c: "counters A q m = counters A q' m" using r assms by (simp add: counters_def h d cong: conj_cong)
  show ?thesis using r assms by (simp add: collect_def h d z c cong: conj_cong)
qed

subsection \<open>One core moves\<close>

lemma here_upd:
  assumes "c \<in> row A y" and "z < num_y A"
  shows "here A (q(c := p)) z =
    (if z = y then (if arrived p then insert c (here A q y) else here A q y - {c}) else here A q z)"
proof (cases "z = y")
  case True
  then show ?thesis using assms(1) by (auto simp: here_def)
next
  case False
  then have "c \<notin> row A z" using assms(1) row_disjoint by blast
  then show ?thesis using False by (auto simp: here_def)
qed

lemma row_done_upd:
  assumes "c \<in> row A y"
  shows "row_done A (q(c := p)) z =
    (if z = y then arrived p \<and> \<not> row_lead p \<and> (\<forall>d\<in>row A y - {c}. arrived (q d) \<and> \<not> row_lead (q d))
     else row_done A q z)"
proof (cases "z = y")
  case True
  then show ?thesis using assms by (auto simp: row_done_def)
next
  case False
  then have "c \<notin> row A z" using assms row_disjoint by blast
  then show ?thesis using False by (auto simp: row_done_def)
qed

lemma here_full: "here A q y = row A y \<longleftrightarrow> (\<forall>c\<in>row A y. arrived (q c))"
  by (auto simp: here_def)

lemma here_subset: "here A q y \<subseteq> row A y"
  by (auto simp: here_def)

lemma here_card:
  assumes "arch_ok A" and "y < num_y A"
  shows "card (here A q y) \<le> num_x A" and "card (here A q y) = num_x A \<longleftrightarrow> here A q y = row A y"
proof -
  have r: "card (row A y) = num_x A" by (rule row_card [OF assms])
  show "card (here A q y) \<le> num_x A"
    using card_mono [OF row_finite here_subset [of A q y]] r by simp
  show "card (here A q y) = num_x A \<longleftrightarrow> here A q y = row A y"
    using card_subset_eq [OF row_finite here_subset [of A q y]] r by metis
qed

lemma done_rows_card:
  "card (done_rows A q) \<le> num_y A" "card (done_rows A q) = num_y A \<longleftrightarrow> done_rows A q = {..< num_y A}"
proof -
  have s: "done_rows A q \<subseteq> {..< num_y A}" by (auto simp: done_rows_def)
  show "card (done_rows A q) \<le> num_y A" using card_mono [OF _ s] by simp
  show "card (done_rows A q) = num_y A \<longleftrightarrow> done_rows A q = {..< num_y A}"
    using card_subset_eq [OF _ s] by (metis card_lessThan finite_lessThan)
qed

text \<open>Facts that \<open>collect\<close> gives about the row and the column of a core.\<close>

lemma collect_row_lead:
  assumes "collect A q m" and "c \<in> row A y" and "y < num_y A" and "row_lead (q c)"
  shows "here A q y = row A y" and "\<And>d. d \<in> row A y \<Longrightarrow> row_lead (q d) \<Longrightarrow> d = c"
  using assms by (auto simp: collect_def)

lemma collect_col_lead:
  assumes "collect A q m" and "c < num_x A * num_y A" and "col_lead (q c)"
  shows "done_rows A q = {..< num_y A}"
    and "\<And>d. d < num_x A * num_y A \<Longrightarrow> col_lead (q d) \<Longrightarrow> d = c"
  using assms by (auto simp: collect_def)

lemma collect_all_done:
  assumes "collect A q m" and "done_rows A q = {..< num_y A}"
  obtains c where "c < num_x A * num_y A" and "col_lead (q c)"
  using assms by (auto simp: collect_def)

lemma all_done_arrived:
  assumes "done_rows A q = {..< num_y A}" and "c < num_x A * num_y A"
  shows "arrived (q c)" and "\<not> row_lead (q c)"
  using assms own_row [OF assms(2)] by (auto simp: done_rows_def row_done_def)

text \<open>While some row is not done no core is past the column counter, and nothing is being zeroed.\<close>

lemma not_done_no_col_lead:
  assumes "collect A q m" and "\<not> row_done A q y" and "y < num_y A" and "c < num_x A * num_y A"
  shows "\<not> col_lead (q c)"
  using collect_col_lead(1) [OF assms(1,4)] assms(2,3) by (auto simp: done_rows_def)

lemma not_zeroing:
  assumes "\<And>c. c < num_x A * num_y A \<Longrightarrow> \<not> col_lead (q c)"
  shows "\<not> zeroing A q"
  using assms by (force simp: zeroing_def)

lemma collect_counters: "collect A q m \<Longrightarrow> \<not> zeroing A q \<Longrightarrow> counters A q m"
  by (simp add: collect_def)

text \<open>A core that has not arrived moves without arriving: nothing changes.\<close>

lemma collect_before:
  assumes "collect A q m" and "c < num_x A * num_y A"
    and "\<not> arrived (q c)" and "\<not> arrived p"
  shows "collect A (q(c := p)) m"
proof -
  have l: "\<not> row_lead (q c)" "\<not> col_lead (q c)" "q c \<noteq> ResetX" "q c \<noteq> ResetY" "\<And>j. q c \<noteq> Zero j"
    using assms(3) by (cases "q c"; simp)+
  have l': "\<not> row_lead p" "\<not> col_lead p" "p \<noteq> ResetX" "p \<noteq> ResetY" "\<And>j. p \<noteq> Zero j"
    using assms(4) by (cases p; simp)+
  have h: "here A (q(c := p)) y = here A q y" for y
    using assms(3,4) by (auto simp: here_def)
  have "row_done A (q(c := p)) y = row_done A q y" for y
  proof (cases "c \<in> row A y")
    case True
    then have "\<not> row_done A (q(c := p)) y" and "\<not> row_done A q y"
      using assms(3,4) by (auto simp: row_done_def intro!: bexI [of _ c])
    then show ?thesis by simp
  qed (auto simp: row_done_def)
  then have d: "done_rows A (q(c := p)) = done_rows A q" by (simp add: done_rows_def)
  have rl: "row_lead ((q(c := p)) d) = row_lead (q d)" for d using l l' by simp
  have cl: "col_lead ((q(c := p)) d) = col_lead (q d)" for d using l l' by simp
  have rx: "(q(c := p)) d = ResetX \<longleftrightarrow> q d = ResetX" for d using l l' by auto
  have ry: "(q(c := p)) d = ResetY \<longleftrightarrow> q d = ResetY" for d using l l' by auto
  have z: "(q(c := p)) d = Zero j \<longleftrightarrow> q d = Zero j" for d j using l l' by auto
  show ?thesis
    using assms(1) unfolding collect_def counters_def zeroing_def h d rl cl rx ry z .
qed

lemma last_arrival:
  assumes "0 < unat n" and "k \<le> unat n"
  shows "n - 1 = of_nat k \<longleftrightarrow> Suc k = unat (n :: u32)"
proof -
  have "unat (of_nat k :: u32) = k"
    using assms(2) unat_lt32 [of n] by (intro unat_of_nat32) linarith
  moreover have "unat (n - 1) = unat n - 1" using assms(1) by (subst unat_sub32) simp_all
  ultimately show ?thesis using assms(1) by (auto simp: unat_eq_iff32)
qed

lemma count_simps:
  "k < n \<Longrightarrow> count n k False = of_nat k" "count n n False = 0" "count n k True = of_nat n"
  by (simp_all add: count_def)

lemma counters_col:
  "counters A q m \<Longrightarrow> m (col_addr A) =
     count (num_y A) (card (done_rows A q)) (\<exists>c < num_x A * num_y A. q c = ResetY)"
  by (simp add: counters_def)

lemma counters_row:
  "counters A q m \<Longrightarrow> y < num_y A \<Longrightarrow> m (row_addr A y) =
     count (num_x A) (card (here A q y)) (\<exists>c\<in>row A y. q c = ResetX)"
  by (simp add: counters_def)

text \<open>What \<open>counters\<close> says once the row of the core, or the set of done rows, is known.\<close>

lemma countersI:
  assumes "\<And>y. y < num_y A \<Longrightarrow>
      m (row_addr A y) = count (num_x A) (card (here A q y)) (\<exists>c\<in>row A y. q c = ResetX)"
    and "m (col_addr A) = count (num_y A) (card (done_rows A q)) (\<exists>c < num_x A * num_y A. q c = ResetY)"
  shows "counters A q m"
  using assms by (simp add: counters_def)

lemma collectI:
  assumes "\<And>y c. y < num_y A \<Longrightarrow> c \<in> row A y \<Longrightarrow> row_lead (q c) \<Longrightarrow>
      here A q y = row A y \<and> (\<forall>d\<in>row A y. row_lead (q d) \<longrightarrow> d = c)"
    and "\<And>c. c < num_x A * num_y A \<Longrightarrow> col_lead (q c) \<Longrightarrow>
      done_rows A q = {..< num_y A} \<and> (\<forall>d < num_x A * num_y A. col_lead (q d) \<longrightarrow> d = c)"
    and "done_rows A q = {..< num_y A} \<Longrightarrow> \<exists>c < num_x A * num_y A. col_lead (q c)"
    and "\<not> zeroing A q \<Longrightarrow> counters A q m"
    and "zeroing A q \<Longrightarrow> \<forall>c < num_x A * num_y A. \<forall>j. q c = Zero j \<longrightarrow> zeroed A j m"
  shows "collect A q m"
  using assms unfolding collect_def by auto

definition moving :: "arch \<Rightarrow> (nat \<Rightarrow> bpc) \<Rightarrow> heap \<Rightarrow> nat \<Rightarrow> nat \<Rightarrow> bool" where
  "moving A q m c y = (sync_ok A \<and> collect A q m \<and> c < num_x A * num_y A \<and> y = c div num_x A)"

lemma movingD:
  assumes "moving A q m c y"
  shows "sync_ok A" and "arch_ok A" and "collect A q m" and "c < num_x A * num_y A"
    and "c \<in> row A y" and "y < num_y A"
  using assms own_row [of c A] by (simp_all add: moving_def sync_ok_def)

lemma row_other: "c \<in> row A y \<Longrightarrow> z \<noteq> y \<Longrightarrow> d \<in> row A z \<Longrightarrow> d \<noteq> c"
  using row_disjoint by blast

text \<open>\<open>AmoX\<close>: the core adds itself to the counter of its row.\<close>

lemma before_amo_x:
  assumes mv: "moving A q m c y" and "q c = AmoX"
  shows "\<And>d. d \<in> row A y \<Longrightarrow> \<not> row_lead (q d)"
    and "\<And>d. d < num_x A * num_y A \<Longrightarrow> \<not> col_lead (q d)"
    and "m (row_addr A y) = of_nat (card (here A q y))" and "card (here A q y) < num_x A"
    and "c \<notin> here A q y" and "\<not> row_done A q y" and "counters A q m"
proof -
  note ok = movingD(1) [OF mv] and col = movingD(3) [OF mv] and c = movingD(4) [OF mv]
    and own = movingD(5,6,2) [OF mv]
  have "\<not> arrived (q c)" using assms(2) by simp
  then have nf: "here A q y \<noteq> row A y" using own(1) unfolding here_full by blast
  show rl: "\<And>d. d \<in> row A y \<Longrightarrow> \<not> row_lead (q d)"
    using collect_row_lead(1) [OF col _ own(2)] nf by blast
  show nd: "\<not> row_done A q y" using own(1) assms by (auto simp: row_done_def intro!: bexI [of _ c])
  show cl: "\<And>d. d < num_x A * num_y A \<Longrightarrow> \<not> col_lead (q d)"
    by (rule not_done_no_col_lead [OF col nd own(2)])
  show cnt: "counters A q m" by (rule collect_counters [OF col not_zeroing [OF cl]])
  show lt: "card (here A q y) < num_x A"
    using here_card [OF own(3,2), of q] nf by linarith
  have "\<not> (\<exists>d\<in>row A y. q d = ResetX)" using rl by (metis row_lead.simps(1))
  then show "m (row_addr A y) = of_nat (card (here A q y))"
    using cnt own(2) lt by (simp add: counters_def count_def)
  show "c \<notin> here A q y" using assms(2) by (simp add: here_def)
qed

lemma amo_x:
  assumes mv: "moving A q m c y" and q: "q c = AmoX"
  defines "p \<equiv> if ARCH_NUM_CLUSTER_X A - 1 = m (row_addr A y) then ResetX else Leave"
  shows "collect A (q(c := p)) (m(row_addr A y := m (row_addr A y) + 1))"
proof -
  note ok = movingD(1) [OF mv] and col = movingD(3) [OF mv] and c = movingD(4) [OF mv]
    and own = movingD(5,6,2) [OF mv]
  note b = before_amo_x [OF mv q]
  let ?q = "q(c := p)" and ?m = "m(row_addr A y := m (row_addr A y) + 1)"
  have p: "arrived p" "\<not> col_lead p" "\<And>j. p \<noteq> Zero j" "p \<noteq> ResetY" "p = ResetX \<or> p = Leave"
    by (simp_all add: p_def)
  have card: "card (here A ?q y) = Suc (card (here A q y))"
    using p(1) b(5) own here_upd [OF own(1,2)] finite_subset [OF here_subset row_finite] by simp
  have p_iff: "p = ResetX \<longleftrightarrow> card (here A ?q y) = num_x A"
    using last_arrival [of "ARCH_NUM_CLUSTER_X A" "card (here A q y)"] b(3,4) card num_pos(1) [OF own(3)]
    by (simp add: p_def num_x_def)
  have cl: "\<And>d. d < num_x A * num_y A \<Longrightarrow> \<not> col_lead (?q d)" using b(2) p(2) by simp
  have rd: "row_done A ?q z = (if z = y then here A ?q y = row A y \<and> p \<noteq> ResetX else row_done A q z)" for z
    using b(1) p by (auto simp: row_done_upd [OF own(1)] here_full)
  then have nd: "\<not> row_done A ?q y" using p_iff here_card(2) [OF own(3,2), of ?q] by auto
  then have dr: "done_rows A ?q = done_rows A q" using b(6) rd by (auto simp: done_rows_def)
  have rx: "(\<exists>d\<in>row A z. ?q d = ResetX) \<longleftrightarrow> (if z = y then p = ResetX else (\<exists>d\<in>row A z. q d = ResetX))" for z
  proof (cases "z = y")
    case True
    have "\<And>d. d \<in> row A y \<Longrightarrow> q d \<noteq> ResetX" using b(1) by fastforce
    then show ?thesis using True own(1) by auto
  next
    case False
    then have "\<And>d. d \<in> row A z \<Longrightarrow> ?q d = q d" using row_other [OF own(1)] by simp
    then show ?thesis using False by auto
  qed
  show ?thesis
  proof (rule collectI)
    fix z d assume z: "z < num_y A" "d \<in> row A z" "row_lead (?q d)"
    show "here A ?q z = row A z \<and> (\<forall>e\<in>row A z. row_lead (?q e) \<longrightarrow> e = d)"
    proof (cases "z = y")
      case True
      then have "d = c" "p = ResetX" using z b(1) p(5) by (auto split: if_splits)
      then show ?thesis
        using True p_iff here_card(2) [OF own(3,2), of ?q] b(1) by auto
    next
      case False
      have nc: "\<And>d. d \<in> row A z \<Longrightarrow> d \<noteq> c" using False own(1) row_disjoint by blast
      then show ?thesis
        using collect_row_lead [OF col z(2,1)] z nc here_upd [OF own(1) z(1)] False by auto
    qed
  next
    show "done_rows A ?q = {..<num_y A} \<Longrightarrow> \<exists>c<num_x A * num_y A. col_lead (?q c)"
      using dr b(6) own(2) by (auto simp: done_rows_def)
  next
    have "?m (row_addr A z) = count (num_x A) (card (here A ?q z)) (\<exists>d\<in>row A z. ?q d = ResetX)"
      if z: "z < num_y A" for z
    proof (cases "z = y")
      case True
      have "?m (row_addr A y) = of_nat (card (here A ?q y))" using b(3) card by simp
      then show ?thesis unfolding True using rx [of y] p_iff by (auto simp only: count_def simp_thms if_True if_False split: if_splits)
    next
      case False
      then show ?thesis
        using z ok own(2) b(7) rx [of z] here_upd [OF own(1) z] by (simp add: counters_def)
    qed
    moreover have "(\<exists>d < num_x A * num_y A. ?q d = ResetY) \<longleftrightarrow> (\<exists>d < num_x A * num_y A. q d = ResetY)"
      using cl b(2) by (metis col_lead.simps(1))
    then have "?m (col_addr A) = count (num_y A) (card (done_rows A ?q)) (\<exists>d < num_x A * num_y A. ?q d = ResetY)"
      using b(7) ok own(2) dr by (simp add: counters_def)
    ultimately show "counters A ?q ?m" by (rule countersI)
  qed (use cl not_zeroing [of A ?q, OF cl] in blast)+
qed

text \<open>A move that changes neither arrivals nor leads leaves all but the counters.\<close>

lemma same_arrivals:
  assumes "arrived p = arrived (q c)" and "row_lead p = row_lead (q c)"
  shows "here A (q(c := p)) y = here A q y" and "done_rows A (q(c := p)) = done_rows A q"
proof -
  have a: "arrived ((q(c := p)) d) = arrived (q d)" "row_lead ((q(c := p)) d) = row_lead (q d)" for d
    using assms by simp_all
  show "here A (q(c := p)) y = here A q y" by (simp only: here_def a)
  show "done_rows A (q(c := p)) = done_rows A q" by (simp only: done_rows_def row_done_def a)
qed

lemma collect_same:
  assumes "collect A q m" and "arrived p = arrived (q c)" and "row_lead p = row_lead (q c)"
    and "col_lead p = col_lead (q c)"
    and "\<not> zeroing A (q(c := p)) \<Longrightarrow> counters A (q(c := p)) m'"
    and "zeroing A (q(c := p)) \<Longrightarrow> \<forall>d < num_x A * num_y A. \<forall>j. (q(c := p)) d = Zero j \<longrightarrow> zeroed A j m'"
  shows "collect A (q(c := p)) m'"
proof -
  note s = same_arrivals [where p = p and q = q and c = c, OF assms(2,3)]
  have l: "row_lead ((q(c := p)) d) = row_lead (q d)" "col_lead ((q(c := p)) d) = col_lead (q d)" for d
    using assms(3,4) by simp_all
  show ?thesis
    using assms(1,5,6) unfolding collect_def s l by (simp split: if_splits)
qed

text \<open>\<open>ResetX\<close>: the last of its row sets the row counter back.\<close>

lemma reset_x:
  assumes mv: "moving A q m c y" and q: "q c = ResetX"
  shows "collect A (q(c := AmoY)) (m(row_addr A y := 0))"
proof -
  note ok = movingD(1) [OF mv] and col = movingD(3) [OF mv] and c = movingD(4) [OF mv]
    and own = movingD(5,6,2) [OF mv]
  have rl: "row_lead (q c)" using q by simp
  note l = collect_row_lead [OF col own(1,2) rl]
  have "\<not> row_done A q y" using own(1) rl by (auto simp: row_done_def)
  then have cl: "\<And>d. d < num_x A * num_y A \<Longrightarrow> \<not> col_lead (q d)"
    using not_done_no_col_lead [OF col _ own(2)] by blast
  have cnt: "counters A q m" by (rule collect_counters [OF col not_zeroing [OF cl]])
  let ?q = "q(c := AmoY)"
  have s: "here A ?q z = here A q z" "done_rows A ?q = done_rows A q" for z
    using q by (simp_all add: same_arrivals)
  have card: "card (here A q y) = num_x A" using here_card(2) [OF own(3,2)] l(1) by blast
  show ?thesis
  proof (rule collect_same [OF col])
    show "counters A ?q (m(row_addr A y := 0))"
    proof (rule countersI)
      fix z assume z: "z < num_y A"
      show "(m(row_addr A y := 0)) (row_addr A z) =
          count (num_x A) (card (here A ?q z)) (\<exists>d\<in>row A z. ?q d = ResetX)"
      proof (cases "z = y")
        case True
        have "\<not> (\<exists>d\<in>row A y. ?q d = ResetX)"
        proof
          assume "\<exists>d\<in>row A y. ?q d = ResetX"
          then obtain d where d: "d \<in> row A y" "?q d = ResetX" by blast
          from d(2) have "d \<noteq> c" and "row_lead (q d)" by (auto split: if_splits)
          then show False using l(2) d(1) by blast
        qed
        then show ?thesis unfolding True s by (simp add: count_def card)
      next
        case False
        have "\<And>d. d \<in> row A z \<Longrightarrow> ?q d = q d" using row_other [OF own(1) False] by simp
        then show ?thesis using z ok own(2) cnt False s by (simp add: counters_def)
      qed
    next
      have ry: "(?q d = ResetY) \<longleftrightarrow> (q d = ResetY)" for d using q by simp
      have "m (col_addr A) = count (num_y A) (card (done_rows A q)) (\<exists>d<num_x A * num_y A. q d = ResetY)"
        using cnt by (simp add: counters_def)
      then show "(m(row_addr A y := 0)) (col_addr A) =
          count (num_y A) (card (done_rows A ?q)) (\<exists>d<num_x A * num_y A. ?q d = ResetY)"
        unfolding s ry using ok own(2) by simp
    qed
    have "\<And>d. d < num_x A * num_y A \<Longrightarrow> \<not> col_lead (?q d)" using cl by simp
    then show "zeroing A ?q \<Longrightarrow> \<forall>d<num_x A * num_y A. \<forall>j. ?q d = Zero j \<longrightarrow> zeroed A j (m(row_addr A y := 0))"
      using not_zeroing [of A ?q] by blast
  qed (use q in simp_all)
qed

text \<open>\<open>Leave\<close>: waiting for the wake-up changes nothing.\<close>

lemma hold:
  assumes "collect A q m" and "q c = Leave"
  shows "collect A (q(c := Held)) m"
proof -
  let ?q = "q(c := Held)"
  have e: "?q d = ResetX \<longleftrightarrow> q d = ResetX" "?q d = ResetY \<longleftrightarrow> q d = ResetY" "?q d = Zero j \<longleftrightarrow> q d = Zero j" for d j
    using assms(2) by auto
  have s: "here A ?q z = here A q z" "done_rows A ?q = done_rows A q" for z
    using assms(2) by (simp_all add: same_arrivals)
  show ?thesis
  proof (rule collect_same [OF assms(1)])
    show "\<not> zeroing A ?q \<Longrightarrow> counters A ?q m"
      using assms(1) unfolding collect_def zeroing_def counters_def e s by auto
    show "zeroing A ?q \<Longrightarrow> \<forall>d<num_x A * num_y A. \<forall>j. ?q d = Zero j \<longrightarrow> zeroed A j m"
      using assms(1) unfolding collect_def zeroing_def e by auto
  qed (use assms(2) in simp_all)
qed

text \<open>\<open>AmoY\<close>: the last of its row adds the row to the column counter.\<close>

lemma before_amo_y:
  assumes mv: "moving A q m c y" and q: "q c = AmoY"
  shows "here A q y = row A y" and "\<And>d. d \<in> row A y \<Longrightarrow> row_lead (q d) \<Longrightarrow> d = c"
    and "\<And>d. d < num_x A * num_y A \<Longrightarrow> \<not> col_lead (q d)" and "\<not> row_done A q y"
    and "m (col_addr A) = of_nat (card (done_rows A q))" and "card (done_rows A q) < num_y A"
    and "counters A q m"
proof -
  note ok = movingD(1) [OF mv] and col = movingD(3) [OF mv] and c = movingD(4) [OF mv]
    and own = movingD(5,6,2) [OF mv]
  have rl: "row_lead (q c)" using q by simp
  show "here A q y = row A y" "\<And>d. d \<in> row A y \<Longrightarrow> row_lead (q d) \<Longrightarrow> d = c"
    using collect_row_lead [OF col own(1,2) rl] by blast+
  show nd: "\<not> row_done A q y" using own(1) rl by (auto simp: row_done_def)
  show cl: "\<And>d. d < num_x A * num_y A \<Longrightarrow> \<not> col_lead (q d)"
    by (rule not_done_no_col_lead [OF col nd own(2)])
  show cnt: "counters A q m" by (rule collect_counters [OF col not_zeroing [OF cl]])
  have "done_rows A q \<noteq> {..< num_y A}" using nd own(2) by (auto simp: done_rows_def)
  then show lt: "card (done_rows A q) < num_y A" using done_rows_card [of A q] by linarith
  have "\<not> (\<exists>d < num_x A * num_y A. q d = ResetY)" using cl by (metis col_lead.simps(1))
  then show "m (col_addr A) = of_nat (card (done_rows A q))"
    using counters_col [OF cnt] lt by (simp only: count_simps)
qed

lemma done_rows_amo_y:
  assumes mv: "moving A q m c y" and q: "q c = AmoY" and p: "arrived p" "\<not> row_lead p"
  shows "done_rows A (q(c := p)) = insert y (done_rows A q)"
    and "card (done_rows A (q(c := p))) = Suc (card (done_rows A q))"
proof -
  note own = movingD(5,6,2) [OF mv] and b = before_amo_y [OF mv q]
  have "row_done A (q(c := p)) z = (if z = y then True else row_done A q z)" for z
  proof (cases "z = y")
    case True
    have "arrived (q d) \<and> \<not> row_lead (q d)" if "d \<in> row A y - {c}" for d
      using that b(1,2) unfolding here_full by blast
    then show ?thesis using True p by (simp add: row_done_upd [OF own(1)])
  qed (simp add: row_done_upd [OF own(1)])
  then show e: "done_rows A (q(c := p)) = insert y (done_rows A q)"
    using own(2) by (auto simp: done_rows_def)
  have "y \<notin> done_rows A q" using b(4) by (simp add: done_rows_def)
  moreover have "finite (done_rows A q)" by (simp add: done_rows_def)
  ultimately show "card (done_rows A (q(c := p))) = Suc (card (done_rows A q))" by (simp add: e)
qed

lemma amo_y:
  assumes mv: "moving A q m c y" and q: "q c = AmoY"
  defines "p \<equiv> if ARCH_NUM_CLUSTER_Y A - 1 = m (col_addr A) then ResetY else Leave"
  shows "collect A (q(c := p)) (m(col_addr A := m (col_addr A) + 1))"
proof -
  note ok = movingD(1) [OF mv] and col = movingD(3) [OF mv] and c = movingD(4) [OF mv]
    and own = movingD(5,6,2) [OF mv]
  note b = before_amo_y [OF mv q]
  let ?q = "q(c := p)" and ?m = "m(col_addr A := m (col_addr A) + 1)"
  have p: "arrived p" "\<not> row_lead p" "\<And>j. p \<noteq> Zero j" "p \<noteq> ResetX" "col_lead p \<longleftrightarrow> p = ResetY"
    by (simp_all add: p_def)
  note d = done_rows_amo_y [OF mv q p(1,2)]
  have p_iff: "p = ResetY \<longleftrightarrow> done_rows A ?q = {..< num_y A}"
  proof -
    have "ARCH_NUM_CLUSTER_Y A - 1 = m (col_addr A) \<longleftrightarrow> Suc (card (done_rows A q)) = num_y A"
      unfolding b(5) num_y_def
      by (rule last_arrival) (use num_pos(2) [OF own(3)] b(6) in \<open>simp_all only: num_y_def less_imp_le\<close>)
    then show ?thesis unfolding done_rows_card(2) [symmetric] d(2) by (simp add: p_def)
  qed
  have h: "here A ?q z = here A q z" for z
    using p(1) q by (auto simp: here_def)
  have cl: "col_lead (?q e) \<longleftrightarrow> e = c \<and> p = ResetY" if "e < num_x A * num_y A" for e
    using b(3) [OF that] p(5) by simp
  have "?q e \<noteq> Zero j" if "e < num_x A * num_y A" for e j
    using b(3) [OF that] p(3) by (cases "e = c") auto
  then have nz: "\<not> zeroing A ?q" by (simp add: zeroing_def)
  have rx: "(?q e = ResetX) \<longleftrightarrow> (q e = ResetX)" for e using p(4) q by simp
  show ?thesis
  proof (rule collectI)
    fix z e assume z: "z < num_y A" "e \<in> row A z" "row_lead (?q e)"
    then have e: "row_lead (q e)" "e \<noteq> c" using p(2) by (auto split: if_splits)
    show "here A ?q z = row A z \<and> (\<forall>d\<in>row A z. row_lead (?q d) \<longrightarrow> d = e)"
      using collect_row_lead [OF col z(2,1) e(1)] p(2) unfolding h by (auto split: if_splits)
  next
    fix e assume "e < num_x A * num_y A" "col_lead (?q e)"
    then show "done_rows A ?q = {..<num_y A} \<and> (\<forall>d<num_x A * num_y A. col_lead (?q d) \<longrightarrow> d = e)"
      using cl p_iff by blast
  next
    assume "done_rows A ?q = {..<num_y A}"
    then show "\<exists>e<num_x A * num_y A. col_lead (?q e)" using p_iff cl c by blast
  next
    have "?m (row_addr A z) = count (num_x A) (card (here A ?q z)) (\<exists>d\<in>row A z. ?q d = ResetX)"
      if z: "z < num_y A" for z
      unfolding h rx using z ok b(7) by (simp add: counters_def)
    moreover have "(\<exists>e<num_x A * num_y A. ?q e = ResetY) \<longleftrightarrow> p = ResetY"
      using cl c by (metis col_lead.simps(1) fun_upd_same)
    moreover have "?m (col_addr A) = of_nat (card (done_rows A ?q))" using b(5) d(2) by simp
    moreover have "card (done_rows A ?q) = num_y A \<longleftrightarrow> p = ResetY" using p_iff done_rows_card(2) by blast
    ultimately show "counters A ?q ?m"
      by (intro countersI) (auto simp only: count_def simp_thms if_True if_False split: if_splits)
  qed (use nz in blast)
qed

text \<open>Past the column counter every cluster waits, but for the core that came last.\<close>

lemma others_wait:
  assumes "collect A q m" and "c < num_x A * num_y A" and "col_lead (q c)"
    and "d < num_x A * num_y A" and "d \<noteq> c"
  shows "q d = Leave \<or> q d = Held"
proof -
  note l = collect_col_lead [OF assms(1-3)]
  have "arrived (q d)" "\<not> row_lead (q d)" using all_done_arrived [OF l(1) assms(4)] .
  moreover have "\<not> col_lead (q d)" using l(2) [OF assms(4)] assms(5) by blast
  ultimately show ?thesis by (cases "q d") simp_all
qed

text \<open>While one core is past the column counter, all row counters are back at 0.\<close>

lemma counters_past:
  assumes ok: "arch_ok A" and col: "collect A q m" and c: "c < num_x A * num_y A" and cl: "col_lead (q c)"
    and p: "arrived p" "\<not> row_lead p" "p \<noteq> ResetY" "p \<noteq> ResetX"
    and zero: "\<And>z. z < num_y A \<Longrightarrow> m' (row_addr A z) = 0" "m' (col_addr A) = 0"
  shows "counters A (q(c := p)) m'"
proof -
  let ?q = "q(c := p)"
  have w: "?q d \<noteq> ResetX \<and> ?q d \<noteq> ResetY \<and> arrived (?q d) \<and> \<not> row_lead (?q d)"
    if "d < num_x A * num_y A" for d
    using others_wait [OF col c cl that] p by (cases "d = c") auto
  then have r: "d \<in> row A z \<Longrightarrow> ?q d \<noteq> ResetX \<and> arrived (?q d) \<and> \<not> row_lead (?q d)" for d z
    by (auto simp: row_def)
  have "here A ?q z = row A z" for z unfolding here_full using r by blast
  then have "card (here A ?q z) = num_x A" if "z < num_y A" for z
    using row_card [OF ok that] by simp
  moreover have "done_rows A ?q = {..< num_y A}" using r by (auto simp: done_rows_def row_done_def)
  moreover have "\<not> (\<exists>d\<in>row A z. ?q d = ResetX)" for z using r by blast
  moreover have "\<not> (\<exists>d < num_x A * num_y A. ?q d = ResetY)" using w by blast
  ultimately show ?thesis using zero by (intro countersI) (simp_all only: count_simps card_lessThan)
qed

lemma row_counters_zero:
  assumes ok: "arch_ok A" and col: "collect A q m" and c: "c < num_x A * num_y A" and cl: "col_lead (q c)"
    and nz: "\<And>j. q c \<noteq> Zero j" and z: "z < num_y A"
  shows "m (row_addr A z) = 0"
proof -
  have w: "q d \<noteq> ResetX \<and> arrived (q d) \<and> (\<forall>j. q d \<noteq> Zero j)" if "d < num_x A * num_y A" for d
    using others_wait [OF col c cl that] cl nz by (cases "d = c"; cases "q c") auto
  then have "\<not> zeroing A q" by (auto simp: zeroing_def)
  then have cnt: "counters A q m" by (rule collect_counters [OF col])
  have r: "\<And>d. d \<in> row A z \<Longrightarrow> q d \<noteq> ResetX \<and> arrived (q d)" using w by (auto simp: row_def)
  then have "here A q z = row A z" unfolding here_full by blast
  moreover have "\<not> (\<exists>d\<in>row A z. q d = ResetX)" using r by blast
  ultimately show ?thesis using counters_row [OF cnt z] row_card [OF ok z] by (simp only: count_simps)
qed

lemma reset_y:
  assumes mv: "moving A q m c y" and q: "q c = ResetY"
  shows "collect A (q(c := Wake)) (m(col_addr A := 0))"
proof -
  note ok = movingD(1) [OF mv] and col = movingD(3) [OF mv] and c = movingD(4) [OF mv]
    and own = movingD(5,6,2) [OF mv]
  have cl: "col_lead (q c)" using q by simp
  have "q d \<noteq> Zero j" if "d < num_x A * num_y A" for d j
    using others_wait [OF col c cl that] q by (cases "d = c") auto
  then have nz: "\<not> zeroing A (q(c := Wake))" by (auto simp: zeroing_def)
  have "m (row_addr A z) = 0" if "z < num_y A" for z
    by (rule row_counters_zero [OF own(3) col c cl _ that]) (simp add: q)
  then have "counters A (q(c := Wake)) (m(col_addr A := 0))"
    using ok by (intro counters_past [OF own(3) col c cl]) simp_all
  then show ?thesis using nz by (intro collect_same [OF col]) (simp_all add: q)
qed

text \<open>The initialisation: the counters are set to 0 one after the other.\<close>

lemma zero_step:
  assumes mv: "moving A q m c y" and q: "q c = Zero j"
  defines "p \<equiv> if j = num_y A then Wake else Zero (Suc j)"
    and "m' \<equiv> m((case j of 0 \<Rightarrow> col_addr A | Suc i \<Rightarrow> row_addr A i) := 0)"
  shows "j \<le> num_y A" and "collect A (q(c := p)) m'"
proof -
  note ok = movingD(1) [OF mv] and col = movingD(3) [OF mv] and c = movingD(4) [OF mv]
    and own = movingD(5,6,2) [OF mv]
  have cl: "col_lead (q c)" using q by simp
  have "zeroing A q" using q c by (auto simp: zeroing_def)
  then have z: "zeroed A j m" using col q c by (auto simp: collect_def)
  show j: "j \<le> num_y A" using z by (simp add: zeroed_def)
  have col0: "m' (col_addr A) = 0"
    using z j ok by (cases j) (simp_all add: m'_def zeroed_def Suc_le_eq)
  have rows0: "m' (row_addr A i) = 0" if "i < j" for i
    using that z j ok by (cases j) (auto simp: m'_def zeroed_def Suc_le_eq less_Suc_eq)
  show "collect A (q(c := p)) m'"
  proof (rule collect_same [OF col])
    show "arrived p = arrived (q c)" "row_lead p = row_lead (q c)" "col_lead p = col_lead (q c)"
      by (simp_all add: p_def q)
  next
    assume "\<not> zeroing A (q(c := p))"
    then have "j = num_y A" using c by (auto simp: zeroing_def p_def split: if_splits)
    then show "counters A (q(c := p)) m'"
      using rows0 col0 by (intro counters_past [OF own(3) col c cl]) (simp_all add: p_def)
  next
    have "(q(c := p)) d = Zero i \<Longrightarrow> d = c \<and> p = Zero i" if "d < num_x A * num_y A" for d i
      using others_wait [OF col c cl that] by (cases "d = c") auto
    moreover have "p = Zero i \<Longrightarrow> zeroed A i m'" for i
      using j col0 rows0 by (auto simp: p_def zeroed_def split: if_splits)
    ultimately show "\<forall>d<num_x A * num_y A. \<forall>i. (q(c := p)) d = Zero i \<longrightarrow> zeroed A i m'" by blast
  qed
qed

text \<open>\<open>Wake\<close> opens the next round: nobody has arrived, all counters are 0.\<close>

lemma wake_round:
  assumes mv: "moving A q m c y" and q: "q c = Wake"
  shows "collect A (\<lambda>_. Out) m"
proof -
  note ok = movingD(1) [OF mv] and col = movingD(3) [OF mv] and c = movingD(4) [OF mv]
    and own = movingD(5,6,2) [OF mv]
  have cl: "col_lead (q c)" using q by simp
  have w: "q d \<noteq> ResetY \<and> (\<forall>j. q d \<noteq> Zero j)" if "d < num_x A * num_y A" for d
    using others_wait [OF col c cl that] q by (cases "d = c") auto
  then have "\<not> zeroing A q" by (simp add: zeroing_def)
  then have cnt: "counters A q m" by (rule collect_counters [OF col])
  have "\<not> (\<exists>d < num_x A * num_y A. q d = ResetY)" using w by blast
  then have c0: "m (col_addr A) = 0"
    using counters_col [OF cnt] collect_col_lead(1) [OF col c cl]
    by (simp only: count_simps card_lessThan)
  have r0: "m (row_addr A z) = 0" if "z < num_y A" for z
    by (rule row_counters_zero [OF own(3) col c cl _ that]) (simp add: q)
  have ne: "row A z \<noteq> {}" if "z < num_y A" for z
    using row_card [OF own(3) that] num_pos(1) [OF own(3)] by auto
  have d: "done_rows A (\<lambda>_. Out) = {}" using ne by (fastforce simp: done_rows_def row_done_def)
  have h: "here A (\<lambda>_. Out) z = {}" for z by (simp add: here_def)
  have X: "0 < num_x A" "0 < num_y A" by (rule num_pos [OF own(3)])+
  show ?thesis
  proof (rule collectI)
    show "counters A (\<lambda>_. Out) m"
      using c0 r0 X by (intro countersI) (simp_all add: d h count_def)
    show "done_rows A (\<lambda>_. Out) = {..<num_y A} \<Longrightarrow> \<exists>c<num_x A * num_y A. col_lead Out"
      using d X by auto
  qed (simp_all add: zeroing_def)
qed

end
