(* ===== verification/Barrier_XY.thy ===== *)
theory Barrier_XY
  imports Barrier_Count "HOL-Library.Multiset"
begin

text \<open>
  The two-level barrier \<open>flex_global_barrier_xy\<close> on the machine of \<open>Flex_Hw\<close>, for any interleaving
  of the harts and any order of wake-up deliveries: the invariant \<open>bar_inv\<close> ties every hart's
  program to its round and control point, the tokens of every cluster (message in flight or
  stored wake-up) to the position of its data-mover core, and the counters to the arrivals.
\<close>

definition dm :: "arch \<Rightarrow> nat \<Rightarrow> hart" where
  "dm A c = (c, num_cores A - 1)"

type_synonym ghost = "hart \<Rightarrow> nat \<times> bpc"

text \<open>The data-mover cores as the counters of round \<open>R\<close> see them.\<close>

definition seen :: "arch \<Rightarrow> ghost \<Rightarrow> nat \<Rightarrow> nat \<Rightarrow> bpc" where
  "seen A g R c = (if fst (g (dm A c)) = R then snd (g (dm A c)) else Out)"

text \<open>The wake-up of round \<open>R - 1\<close>: in flight or stored for a cluster that has yet to leave.\<close>

definition token_ok :: "nat \<Rightarrow> nat \<times> bpc \<Rightarrow> nat \<Rightarrow> bool \<Rightarrow> bool" where
  "token_ok R rp f mu =
     ((fst rp = R \<and> snd rp \<noteq> Out \<and> f = 0 \<and> \<not> mu) \<or>
      (Suc (fst rp) = R \<and>
        (snd rp = Leave \<and> (f = 1 \<and> \<not> mu \<or> f = 0 \<and> mu) \<or>
         snd rp = Held \<and> f = 1 \<and> \<not> mu \<or>
         snd rp = Out \<and> f = 0 \<and> \<not> mu)))"

definition cores_ok :: "arch \<Rightarrow> ghost \<Rightarrow> hw \<Rightarrow> nat \<Rightarrow> bool" where
  "cores_ok A g s c =
     (\<forall>i < num_cores A.
       (if snd (g (dm A c)) = Work \<or> snd (g (dm A c)) = In
        then fst (g (c, i)) = fst (g (dm A c)) \<and> (snd (g (c, i)) = Work \<or> snd (g (c, i)) = In)
        else (c, i) = dm A c \<or> g (c, i) = (fst (g (dm A c)), Out)) \<and>
       (at_sync s (c, i) \<longrightarrow> (snd (g (c, i)) = In \<or> snd (g (c, i)) = Out) \<and> (\<exists>k. prog s (c, i) = Csr_Sync k)))"

definition cluster_ok :: "arch \<Rightarrow> ghost \<Rightarrow> nat \<Rightarrow> hw \<Rightarrow> nat \<Rightarrow> bool" where
  "cluster_ok A g R s c =
     (token_ok R (g (dm A c)) (flight s c) (mutex s c) \<and>
      query s c = (if snd (g (dm A c)) = Held then Some (num_cores A - 1) else None) \<and>
      cores_ok A g s c \<and> \<not> all_at_sync A s c)"

definition point_ok :: "nat \<Rightarrow> nat \<times> bpc \<Rightarrow> bool" where
  "point_ok n rp =
     (if snd rp = Work then 1 \<le> fst rp \<and> fst rp \<le> Suc n
      else fst rp \<le> n \<and> (snd rp = In \<longrightarrow> 1 \<le> fst rp))"

definition hart_ok :: "arch \<Rightarrow> nat \<Rightarrow> ghost \<Rightarrow> hw \<Rightarrow> hart \<Rightarrow> bool" where
  "hart_ok A n g s h =
     (norm A h (prog s h) = code A n h (g h) \<and> point_ok n (g h) \<and>
      ticks s h = (if snd (g h) = Work then fst (g h) - 1 else fst (g h)))"

definition bar_inv :: "arch \<Rightarrow> nat \<Rightarrow> ghost \<Rightarrow> nat \<Rightarrow> hw \<Rightarrow> bool" where
  "bar_inv A n g R s =
     ((\<forall>h. is_hart A h \<longrightarrow> hart_ok A n g s h) \<and>
      (\<forall>c < num_x A * num_y A. cluster_ok A g R s c) \<and>
      collect A (seen A g R) (mem s))"

lemma invD:
  assumes "bar_inv A n g R s"
  shows "\<And>h. is_hart A h \<Longrightarrow> hart_ok A n g s h"
    and "\<And>c. c < num_x A * num_y A \<Longrightarrow> cluster_ok A g R s c"
    and "collect A (seen A g R) (mem s)"
  using assms by (auto simp: bar_inv_def)

lemma dm_hart: "arch_ok A \<Longrightarrow> c < num_x A * num_y A \<Longrightarrow> is_hart A (dm A c)"
  using num_pos(3) [of A] by (simp add: is_hart_def dm_def)

lemma fst_dm [simp]: "fst (dm A c) = c" "dm A c = (d, i) \<longleftrightarrow> c = d \<and> i = num_cores A - 1"
  "dm A c = dm A d \<longleftrightarrow> c = d"
  by (auto simp: dm_def)

text \<open>A hart is its cluster's data mover or sits in a sync or at work.\<close>

lemma cores_okD:
  assumes "cores_ok A g s c" and "i < num_cores A"
  shows "snd (g (dm A c)) = Work \<or> snd (g (dm A c)) = In \<Longrightarrow>
      fst (g (c, i)) = fst (g (dm A c)) \<and> (snd (g (c, i)) = Work \<or> snd (g (c, i)) = In)"
    and "snd (g (dm A c)) \<noteq> Work \<Longrightarrow> snd (g (dm A c)) \<noteq> In \<Longrightarrow>
      (c, i) = dm A c \<or> g (c, i) = (fst (g (dm A c)), Out)"
    and "at_sync s (c, i) \<Longrightarrow> (snd (g (c, i)) = In \<or> snd (g (c, i)) = Out) \<and> (\<exists>k. prog s (c, i) = Csr_Sync k)"
  using assms by (simp_all add: cores_ok_def)

lemma hart_is_dm:
  assumes "cluster_ok A g R s (fst h)" and "is_hart A h"
    and "snd (g h) \<noteq> Work" and "snd (g h) \<noteq> In" and "snd (g h) \<noteq> Out"
  shows "h = dm A (fst h)"
proof -
  have c: "cores_ok A g s (fst h)" using assms(1) by (simp add: cluster_ok_def)
  have i: "snd h < num_cores A" using assms(2) by (simp add: is_hart_def)
  show ?thesis
    using cores_okD(1,2) [OF c i] assms(3-5) by (metis prod.collapse snd_conv)
qed

text \<open>What a cluster's condition depends on.\<close>

lemma cluster_ok_cong:
  assumes "cluster_ok A g R s c"
    and "\<And>i. g' (c, i) = g (c, i)" and "\<And>i. at_sync s' (c, i) = at_sync s (c, i)"
    and "\<And>i. at_sync s (c, i) \<Longrightarrow> prog s' (c, i) = prog s (c, i)"
    and "query s' c = query s c" and "mutex s' c = mutex s c" and "flight s' c = flight s c"
  shows "cluster_ok A g' R s' c"
proof -
  have "g' (dm A c) = g (dm A c)" using assms(2) by (simp add: dm_def)
  then show ?thesis
    using assms unfolding cluster_ok_def cores_ok_def all_at_sync_def by (simp add: assms(2,3))
qed

lemma hart_ok_cong:
  assumes "hart_ok A n g s h" and "g' h = g h" and "prog s' h = prog s h" and "ticks s' h = ticks s h"
  shows "hart_ok A n g' s' h"
  using assms by (simp add: hart_ok_def)

subsection \<open>Silent steps\<close>

lemma inv_silent:
  assumes inv: "bar_inv A n g R s" and h: "is_hart A h" and "silent A h s s'"
  shows "bar_inv A n g R s'"
proof -
  obtain p where s': "s' = s\<lparr>prog := (prog s)(h := p)\<rparr>" and p: "norm A h p = norm A h (prog s h)"
    and ns: "\<And>k. prog s h \<noteq> Csr_Sync k"
    using assms(3) by (auto simp: silent_def)
  have c: "cluster_ok A g R s (fst h)" using invD(2) [OF inv] h by (simp add: is_hart_def)
  have "\<not> at_sync s h"
    using c ns h cores_okD(3) [of A g s "fst h" "snd h"] by (auto simp: cluster_ok_def is_hart_def)
  then have "cluster_ok A g R s' d" if "d < num_x A * num_y A" for d
    using invD(2) [OF inv that] by (rule_tac cluster_ok_cong) (auto simp: s')
  moreover have "hart_ok A n g s' k" if "is_hart A k" for k
    using invD(1) [OF inv that] p by (auto simp: s' hart_ok_def)
  ultimately show ?thesis using invD(3) [OF inv] by (simp add: bar_inv_def s')
qed

subsection \<open>Moves of a data-mover core inside the barrier\<close>

lemma seen_upd:
  assumes "fst v = R"
  shows "seen A (g(dm A c := v)) R = (seen A g R)(c := snd v)"
  using assms by (auto simp: seen_def)

fun inner :: "bpc \<Rightarrow> bool" where
  "inner Work = False" | "inner In = False" | "inner Out = False" | "inner Held = False"
| "inner (Zero j) = True" | "inner AmoX = True" | "inner ResetX = True" | "inner AmoY = True"
| "inner ResetY = True" | "inner Wake = True" | "inner Leave = True"

lemma inner_round:
  assumes "cluster_ok A g R s (fst h)" and "is_hart A h" and "inner (snd (g h))" and "snd (g h) \<noteq> Leave"
  shows "h = dm A (fst h)" and "fst (g h) = R" and "\<not> mutex s (fst h)" and "flight s (fst h) = 0"
    and "\<not> at_sync s h"
proof -
  have c: "cores_ok A g s (fst h)" using assms(1) by (simp add: cluster_ok_def)
  show d: "h = dm A (fst h)" by (rule hart_is_dm [OF assms(1,2)]) (use assms(3) in auto)
  have "token_ok R (g h) (flight s (fst h)) (mutex s (fst h))"
    using assms(1) d by (metis cluster_ok_def)
  then show "fst (g h) = R" "\<not> mutex s (fst h)" "flight s (fst h) = 0"
    using assms(3,4) by (auto simp: token_ok_def)
  show "\<not> at_sync s h"
    using cores_okD(3) [OF c, of "snd h"] assms(2,3) by (auto simp: is_hart_def)
qed

lemma inv_move:
  assumes ok: "arch_ok A" and inv: "bar_inv A n g R s" and h: "is_hart A h" "h = dm A (fst h)"
    and g: "g h = (R, p)" "inner p" "p \<noteq> Leave" "inner p'"
    and k: "norm A h k = code A n h (R, p')"
    and col: "collect A ((seen A g R)(fst h := p')) m'"
  shows "bar_inv A n (g(h := (R, p'))) R (s\<lparr>mem := m', prog := (prog s)(h := k)\<rparr>)"
    (is "bar_inv A n ?g R ?s")
proof -
  have c: "cluster_ok A g R s (fst h)" using invD(2) [OF inv] h by (simp add: is_hart_def)
  note i = inner_round [OF c h(1)]
  have nm: "\<not> mutex s (fst h)" "flight s (fst h) = 0" "\<not> at_sync s h" using i g by simp_all
  have dm: "dm A (fst h) = h" using h(2) by simp
  have p: "p \<noteq> Work" "p \<noteq> In" "p \<noteq> Out" "p \<noteq> Held" "p' \<noteq> Work" "p' \<noteq> In" "p' \<noteq> Out" "p' \<noteq> Held"
    using g by auto
  have others: "g (fst h, i) = (R, Out)" if "i < num_cores A" "(fst h, i) \<noteq> h" for i
    using cores_okD(2) [of A g s "fst h" i] c that dm g(1) p by (simp add: cluster_ok_def)
  have "cluster_ok A ?g R ?s (fst h)"
    unfolding cluster_ok_def dm
  proof (intro conjI)
    show "token_ok R (?g h) (flight ?s (fst h)) (mutex ?s (fst h))"
      using nm p by (simp add: token_ok_def)
    show "query ?s (fst h) = (if snd (?g h) = Held then Some (num_cores A - 1) else None)"
      using c g(1) p by (simp add: cluster_ok_def dm)
    show "\<not> all_at_sync A ?s (fst h)" using c by (simp add: cluster_ok_def all_at_sync_def)
    have "at_sync s (fst h, i) \<Longrightarrow> (fst h, i) \<noteq> h" for i using nm(3) by auto
    then show "cores_ok A ?g ?s (fst h)"
      using c p others by (auto simp: cores_ok_def cluster_ok_def dm)
  qed
  moreover have "cluster_ok A ?g R ?s d" if "d < num_x A * num_y A" "d \<noteq> fst h" for d
    using invD(2) [OF inv that(1)] by (rule cluster_ok_cong) (use that(2) in auto)
  ultimately have "cluster_ok A ?g R ?s d" if "d < num_x A * num_y A" for d using that by blast
  moreover have "hart_ok A n ?g ?s h'" if "is_hart A h'" for h'
    using invD(1) [OF inv that] k g p by (auto simp: hart_ok_def point_ok_def)
  moreover have "seen A ?g R = (seen A g R)(fst h := p')"
    using seen_upd [of "(R, p')" R A g "fst h"] dm by simp
  ultimately show ?thesis using col by (simp add: bar_inv_def)
qed

text \<open>A visible step of a hart that satisfies the invariant runs the code of its control point.\<close>

lemma visible_code:
  assumes "bar_inv A n g R s" and "is_hart A h" and "norm A h (prog s h) = prog s h"
  shows "prog s h = code A n h (g h)"
  using invD(1) [OF assms(1,2)] assms(3) by (simp add: hart_ok_def)

lemma moving_seen:
  assumes "sync_ok A" and "bar_inv A n g R s" and "is_hart A h"
  shows "moving A (seen A g R) (mem s) (fst h) (fst h div num_x A)"
  using assms invD(3) [OF assms(2)] by (simp add: moving_def is_hart_def)

lemma row_of_hart: "is_hart A h \<Longrightarrow> fst h div num_x A < num_y A"
  by (simp add: is_hart_def less_mult_imp_div_less mult.commute)

text \<open>A hart at a control point inside the barrier, about to run its code.\<close>

definition at_point :: "arch \<Rightarrow> nat \<Rightarrow> ghost \<Rightarrow> nat \<Rightarrow> hw \<Rightarrow> hart \<Rightarrow> nat \<Rightarrow> bpc \<Rightarrow> bool" where
  "at_point A n g R s h r p =
     (sync_ok A \<and> bar_inv A n g R s \<and> is_hart A h \<and> g h = (r, p) \<and> prog s h = code A n h (r, p))"

lemma at_pointD:
  assumes "at_point A n g R s h r p"
  shows "sync_ok A" and "arch_ok A" and "bar_inv A n g R s" and "is_hart A h" and "g h = (r, p)"
    and "prog s h = code A n h (r, p)" and "fst h < num_x A * num_y A"
    and "cluster_ok A g R s (fst h)" and "moving A (seen A g R) (mem s) (fst h) (fst h div num_x A)"
    and "fst h div num_x A < num_y A" and "snd h < num_cores A"
  using assms invD(2) moving_seen row_of_hart
  by (auto simp: at_point_def sync_ok_def is_hart_def)

lemma inner_point:
  assumes "at_point A n g R s h r p" and "inner p" and "p \<noteq> Leave"
  shows "h = dm A (fst h)" and "r = R" and "seen A g R (fst h) = p"
proof -
  note a = at_pointD [OF assms(1)]
  have "inner (snd (g h))" "snd (g h) \<noteq> Leave" using a(5) assms(2,3) by simp_all
  then show d: "h = dm A (fst h)" and r: "r = R" using inner_round [OF a(8,4)] a(5) by simp_all
  have "g (dm A (fst h)) = (r, p)" using a(5) d by metis
  then show "seen A g R (fst h) = p" using r by (simp add: seen_def)
qed

text \<open>The steps that keep the round: the counters and the initialisation.\<close>

lemma step_inner:
  assumes p: "at_point A n g R s h r p" and i: "inner p" "p \<noteq> Leave" "inner p'"
    and s': "s' = s\<lparr>mem := m', prog := (prog s)(h := k)\<rparr>"
    and k: "norm A h k = code A n h (R, p')"
    and col: "collect A ((seen A g R)(fst h := p')) m'"
  shows "\<exists>g' R'. bar_inv A n g' R' s'"
proof -
  note a = at_pointD [OF p] and q = inner_point [OF p i(1,2)]
  have "g h = (R, p)" using a(5) q(2) by simp
  then show ?thesis unfolding s' using inv_move [OF a(2,3,4) q(1) _ i k col] by blast
qed

lemma step_AmoX:
  assumes p: "at_point A n g R s h r AmoX" and st: "hart_step A h s s'"
  shows "\<exists>g' R'. bar_inv A n g' R' s'"
proof -
  note a = at_pointD [OF p] and q = inner_point [OF p, simplified]
  let ?y = "fst h div num_x A"
  let ?p = "if ARCH_NUM_CLUSTER_X A - 1 = mem s (row_addr A ?y) then ResetX else Leave"
  have s': "s' = s\<lparr>mem := (mem s)(row_addr A ?y := mem s (row_addr A ?y) + 1),
      prog := (prog s)(h := amo_x_prog A n r ?y (mem s (row_addr A ?y)))\<rparr>"
    using step_Amo [OF st] a(6) by simp
  have k: "norm A h (amo_x_prog A n r ?y (mem s (row_addr A ?y))) = code A n h (R, ?p)"
    using norm_amo_x [of A h n r] a(1,10) q(2) by simp
  show ?thesis by (rule step_inner [OF p _ _ _ s' k amo_x [OF a(9) q(3)]]) simp_all
qed

lemma step_ResetX:
  assumes p: "at_point A n g R s h r ResetX" and st: "hart_step A h s s'"
  shows "\<exists>g' R'. bar_inv A n g' R' s'"
proof -
  note a = at_pointD [OF p] and q = inner_point [OF p, simplified]
  let ?y = "fst h div num_x A"
  have s': "s' = s\<lparr>mem := (mem s)(row_addr A ?y := 0), prog := (prog s)(h := row_done_prog A n r)\<rparr>"
    using step_Wr_mem [OF st] a(1,6,10) by simp
  show ?thesis
    by (rule step_inner [OF p _ _ _ s' _ reset_x [OF a(9) q(3)]]) (use q(2) in simp_all)
qed

lemma step_AmoY:
  assumes p: "at_point A n g R s h r AmoY" and st: "hart_step A h s s'"
  shows "\<exists>g' R'. bar_inv A n g' R' s'"
proof -
  note a = at_pointD [OF p] and q = inner_point [OF p, simplified]
  let ?p = "if ARCH_NUM_CLUSTER_Y A - 1 = mem s (col_addr A) then ResetY else Leave"
  have s': "s' = s\<lparr>mem := (mem s)(col_addr A := mem s (col_addr A) + 1),
      prog := (prog s)(h := amo_y_prog A n r (mem s (col_addr A)))\<rparr>"
    using step_Amo [OF st] a(6) by simp
  have k: "norm A h (amo_y_prog A n r (mem s (col_addr A))) = code A n h (R, ?p)"
    using norm_amo_y [of A h n r] a(1) q(2) by simp
  show ?thesis by (rule step_inner [OF p _ _ _ s' k amo_y [OF a(9) q(3)]]) simp_all
qed

lemma step_ResetY:
  assumes p: "at_point A n g R s h r ResetY" and st: "hart_step A h s s'"
  shows "\<exists>g' R'. bar_inv A n g' R' s'"
proof -
  note a = at_pointD [OF p] and q = inner_point [OF p, simplified]
  have s': "s' = s\<lparr>mem := (mem s)(col_addr A := 0),
      prog := (prog s)(h := flex_wakeup_all_clusters A (leave_prog A n r))\<rparr>"
    using step_Wr_mem [OF st] a(1,6) by simp
  show ?thesis
    by (rule step_inner [OF p _ _ _ s' _ reset_y [OF a(9) q(3)]]) (use q(2) in simp_all)
qed

lemma norm_reset_rows:
  assumes le: "j \<le> num_y A" and ok: "sync_ok A"
  shows "norm A h (reset_rows A (mid_x A) (num_y A - j) (of_nat j) (flex_wakeup_all_clusters A (leave_prog A n r))) =
     code A n h (r, if j = num_y A then Wake else Zero (Suc j))"
proof (cases "j = num_y A")
  case False
  let ?w = "flex_wakeup_all_clusters A (leave_prog A n r)"
  obtain i where i: "num_y A - j = Suc i" using le False by (cases "num_y A - j") simp_all
  then have j: "num_y A - Suc j = i" "j < num_y A" by linarith+
  have "reset_rows A (mid_x A) (num_y A - j) (of_nat j) ?w =
      flex_reset_barrier A (row_addr A j) (reset_rows A (mid_x A) i (of_nat j + 1) ?w)"
    by (simp only: i reset_rows.simps)
  then have "norm A h (reset_rows A (mid_x A) (num_y A - j) (of_nat j) ?w) =
      Wr (row_addr A j) 0 (reset_rows A (mid_x A) i (of_nat j + 1) ?w)"
    using ok j(2) by simp
  then show ?thesis using False by (simp add: j(1) add.commute [of 1])
qed simp

lemma step_Zero:
  assumes p: "at_point A n g R s h r (Zero j)" and st: "hart_step A h s s'"
  shows "\<exists>g' R'. bar_inv A n g' R' s'"
proof -
  note a = at_pointD [OF p] and q = inner_point [OF p, simplified]
  note z = zero_step [OF a(9) q(3)]
  let ?a = "case j of 0 \<Rightarrow> col_addr A | Suc i \<Rightarrow> row_addr A i"
  let ?k = "reset_rows A (mid_x A) (num_y A - j) (of_nat j) (flex_wakeup_all_clusters A (leave_prog A n r))"
  have c: "code A n h (r, Zero j) = Wr ?a 0 ?k" by (cases j) simp_all
  have "\<not> is_reg A ?a" using z(1) a(1) by (cases j) simp_all
  then have s': "s' = s\<lparr>mem := (mem s)(?a := 0), prog := (prog s)(h := ?k)\<rparr>"
    using step_Wr_mem [OF st] a(6) c by simp
  have k: "norm A h ?k = code A n h (R, if j = num_y A then Wake else Zero (Suc j))"
    using norm_reset_rows [OF z(1) a(1), of h n R] q(2) by simp
  show ?thesis by (rule step_inner [OF p _ _ _ s' k z(2)]) simp_all
qed

subsection \<open>Waking, waiting, delivery\<close>

lemma broadcast_all [simp]:
  "c < num_x A * num_y A \<Longrightarrow> broadcast A d 0 f c = Suc (f c)"
  by (simp add: broadcast_def check_target_def)

text \<open>The wake-up opens the next round: every cluster holds a token and has yet to leave.\<close>

lemma waker_tokens:
  assumes inv: "bar_inv A n g R s" and ok: "arch_ok A" and c: "c < num_x A * num_y A"
    and w: "seen A g R c = Wake" and d: "d < num_x A * num_y A"
  shows "fst (g (dm A d)) = R" and "d \<noteq> c \<Longrightarrow> snd (g (dm A d)) = Leave \<or> snd (g (dm A d)) = Held"
    and "flight s d = 0" and "\<not> mutex s d"
proof -
  have "seen A g R d = Leave \<or> seen A g R d = Held \<or> d = c"
    using others_wait [OF invD(3) [OF inv] c _ d] w by auto
  then have "seen A g R d \<noteq> Out" using w by auto
  then show r: "fst (g (dm A d)) = R" by (metis seen_def)
  have t: "token_ok R (g (dm A d)) (flight s d) (mutex s d)"
    using invD(2) [OF inv d] by (simp add: cluster_ok_def)
  then show "flight s d = 0" "\<not> mutex s d" using r by (auto simp: token_ok_def)
  show "d \<noteq> c \<Longrightarrow> snd (g (dm A d)) = Leave \<or> snd (g (dm A d)) = Held"
    using \<open>seen A g R d = Leave \<or> _\<close> r by (simp add: seen_def)
qed

lemma step_Wake:
  assumes p: "at_point A n g R s h r Wake" and st: "hart_step A h s s'"
  shows "\<exists>g' R'. bar_inv A n g' R' s'"
proof -
  note a = at_pointD [OF p] and q = inner_point [OF p, simplified]
  have s': "s' = s\<lparr>flight := broadcast A (fst h) 0 (flight s), prog := (prog s)(h := leave_prog A n r)\<rparr>"
    using step_Wr_reg [OF st] a(6) by (simp add: reg_write_def Let_def)
  let ?g = "g(h := (R, Leave))"
  have gh: "g h = (R, Wake)" using a(5) q(2) by simp
  have dmh: "dm A (fst h) = h" using q(1) by simp
  note w = waker_tokens [OF a(3,2,7) q(3)]
  have clu: "cluster_ok A ?g (Suc R) s' d" if d: "d < num_x A * num_y A" for d
  proof -
    have c: "cluster_ok A g R s d" by (rule invD(2) [OF a(3) d])
    have pc: "snd (?g (dm A d)) = Leave \<or> snd (?g (dm A d)) = Held" "fst (?g (dm A d)) = R"
      using w(1,2) [OF d] dmh by (cases "d = fst h"; auto)+
    have same: "snd (?g (dm A d)) = Held \<longleftrightarrow> snd (g (dm A d)) = Held"
      using gh dmh by (cases "d = fst h") auto
    have "token_ok (Suc R) (?g (dm A d)) (flight s' d) (mutex s' d)"
      using pc w(3,4) [OF d] d by (auto simp: token_ok_def s')
    moreover have "\<not> at_sync s h"
      using inner_round(5) [OF a(8,4)] gh by simp
    then have "cores_ok A ?g s' d"
      using c pc gh dmh unfolding cluster_ok_def cores_ok_def s' by auto
    ultimately show ?thesis
      using c same unfolding cluster_ok_def by (simp add: s' all_at_sync_def)
  qed
  moreover have "hart_ok A n ?g s' h'" if "is_hart A h'" for h'
    using invD(1) [OF a(3) that] a(5) q(2) by (auto simp: hart_ok_def point_ok_def s')
  moreover have "seen A ?g (Suc R) d = Out" if "d < num_x A * num_y A" for d
    using w(1) [OF that] dmh by (auto simp: seen_def)
  then have "collect A (seen A ?g (Suc R)) (mem s')"
    using wake_round [OF a(9) q(3)] collect_cong [of A "seen A ?g (Suc R)" "\<lambda>_. Out"] by (simp add: s')
  ultimately show ?thesis by (intro exI [of _ ?g] exI [of _ "Suc R"]) (simp add: bar_inv_def)
qed

text \<open>A data-mover core between its arrival and the second sync moves on, with the wake-up
  registers of its own cluster.\<close>

fun waits :: "bpc \<Rightarrow> bool" where
  "waits Leave = True" | "waits Held = True" | "waits Out = True"
| "waits Work = False" | "waits In = False" | "waits AmoX = False" | "waits ResetX = False"
| "waits AmoY = False" | "waits ResetY = False" | "waits Wake = False" | "waits (Zero j) = False"

lemma inv_wait_move:
  assumes inv: "bar_inv A n g R s" and h: "is_hart A h" "h = dm A (fst h)"
    and g: "g h = (r, p)" "waits p" "waits p'" and sync: "\<not> at_sync s h"
    and k: "norm A h (prog s' h) = code A n h (r, p')"
    and same: "mem s' = mem s" "at_sync s' = at_sync s" "ticks s' = ticks s"
      "\<And>h'. h' \<noteq> h \<Longrightarrow> prog s' h' = prog s h'"
      "\<And>d. d \<noteq> fst h \<Longrightarrow> query s' d = query s d \<and> mutex s' d = mutex s d \<and> flight s' d = flight s d"
    and tok: "token_ok R (r, p') (flight s' (fst h)) (mutex s' (fst h))"
    and query: "query s' (fst h) = (if p' = Held then Some (num_cores A - 1) else None)"
    and col: "collect A (seen A (g(h := (r, p'))) R) (mem s)"
  shows "\<exists>g' R'. bar_inv A n g' R' s'"
proof -
  let ?g = "g(h := (r, p'))"
  have dm: "dm A (fst h) = h" using h(2) by simp
  have cl: "fst h < num_x A * num_y A" using h(1) by (simp add: is_hart_def)
  have p: "p \<noteq> Work" "p \<noteq> In" "p' \<noteq> Work" "p' \<noteq> In" using g(2,3) by auto
  have c: "cluster_ok A g R s (fst h)" by (rule invD(2) [OF inv cl])
  have co: "cores_ok A g s (fst h)" using c by (simp add: cluster_ok_def)
  have others: "g (fst h, i) = (r, Out)" if "i < num_cores A" "(fst h, i) \<noteq> h" for i
    using cores_okD(2) [OF co that(1)] that(2) dm g(1) p by simp
  have ns: "at_sync s (fst h, i) \<Longrightarrow> (fst h, i) \<noteq> h" for i using sync by auto
  have "cores_ok A ?g s' (fst h)"
    using co ns p others same(2,4) by (auto simp: cores_ok_def dm)
  then have "cluster_ok A ?g R s' (fst h)"
    using c tok query same(2) by (simp add: cluster_ok_def dm all_at_sync_def)
  moreover have "cluster_ok A ?g R s' d" if "d < num_x A * num_y A" "d \<noteq> fst h" for d
  proof (rule cluster_ok_cong [OF invD(2) [OF inv that(1)]])
    show "prog s' (d, i) = prog s (d, i)" for i using same(4) [of "(d, i)"] that(2) by force
  qed (use that(2) same in auto)
  ultimately have "cluster_ok A ?g R s' d" if "d < num_x A * num_y A" for d using that by blast
  moreover have "hart_ok A n ?g s' h'" if "is_hart A h'" for h'
    using invD(1) [OF inv that] k g p same by (cases "h' = h") (auto simp: hart_ok_def point_ok_def)
  ultimately show ?thesis using col same(1) by (intro exI [of _ ?g] exI [of _ R]) (simp add: bar_inv_def)
qed

text \<open>The move changes what the counters see only in the round they count.\<close>

lemma seen_wait:
  assumes "collect A (seen A g R) m" and "h = dm A (fst h)" and "g h = (r, p)"
    and "r = R \<Longrightarrow> p = Leave \<and> p' = Held"
  shows "collect A (seen A (g(h := (r, p'))) R) m"
proof (cases "r = R")
  case True
  have s: "seen A g R (fst h) = Leave" using assms True by (metis fst_conv seen_def snd_conv)
  have "seen A (g(h := (r, p'))) R = (seen A g R)(fst h := p')"
    using seen_upd [of "(r, p')" R A g "fst h"] True assms(2) by simp
  then show ?thesis using hold [where q = "seen A g R" and c = "fst h", OF assms(1) s] assms(4) True by simp
next
  case False
  have "seen A (g(h := (r, p'))) R d = seen A g R d" for d
    using False assms(2,3) by (auto simp: seen_def)
  then have "seen A (g(h := (r, p'))) R = seen A g R" by (rule ext)
  then show ?thesis using assms(1) by simp
qed

lemma step_Leave:
  assumes p: "at_point A n g R s h r Leave" and st: "hart_step A h s s'"
  shows "\<exists>g' R'. bar_inv A n g' R' s'"
proof -
  note a = at_pointD [OF p]
  have dm: "h = dm A (fst h)" by (rule hart_is_dm [OF a(8,4)]) (simp_all add: a(5))
  then have gdm: "g (dm A (fst h)) = (r, Leave)" using a(5) by metis
  have q: "query s (fst h) = None" using a(8) gdm by (simp add: cluster_ok_def)
  have ns: "\<not> at_sync s h"
    using a(8) cores_okD(3) [OF _ a(11), of g s "fst h"] a(5) by (auto simp: cluster_ok_def)
  have sc: "snd h = num_cores A - 1" using dm by (metis dm_def snd_conv)
  have tok: "token_ok R (r, Leave) (flight s (fst h)) (mutex s (fst h))"
    using a(8) gdm by (simp add: cluster_ok_def)
  have s': "s' = reg_write A h 0 1 (after_wait A n r) s"
    using step_Wr_reg [OF st] a(6) by simp
  show ?thesis
  proof (cases "mutex s (fst h)")
    case True
    then have r: "Suc r = R" "flight s (fst h) = 0" using tok by (auto simp: token_ok_def)
    have e: "s' = s\<lparr>prog := (prog s)(h := after_wait A n r), mutex := (mutex s)(fst h := False)\<rparr>"
      unfolding s' reg_write_def using q True by simp
    show ?thesis
      by (rule inv_wait_move [OF a(3,4) dm a(5) _ _ ns, where p' = Out])
        (use r q seen_wait [OF invD(3) [OF a(3)] dm a(5), of Out] in \<open>auto simp: e token_ok_def\<close>)
  next
    case False
    have e: "s' = s\<lparr>prog := (prog s)(h := after_wait A n r), query := (query s)(fst h := Some (snd h))\<rparr>"
      unfolding s' reg_write_def using q False by simp
    show ?thesis
      by (rule inv_wait_move [OF a(3,4) dm a(5) _ _ ns, where p' = Held])
        (use sc tok False seen_wait [OF invD(3) [OF a(3)] dm a(5), of Held] in \<open>auto simp: e token_ok_def\<close>)
  qed
qed

lemma inv_deliver:
  assumes ok: "arch_ok A" and inv: "bar_inv A n g R s" and c: "c < num_x A * num_y A" and f: "0 < flight s c"
  shows "\<exists>g' R'. bar_inv A n g' R' (deliver c s)"
proof -
  let ?h = "dm A c"
  obtain r p where g: "g ?h = (r, p)" by (cases "g ?h")
  have h: "is_hart A ?h" "?h = dm A (fst ?h)" using dm_hart [OF ok c] by simp_all
  have cl: "cluster_ok A g R s c" by (rule invD(2) [OF inv c])
  have tok: "token_ok R (r, p) (flight s c) (mutex s c)" using cl g by (simp add: cluster_ok_def)
  then have r: "Suc r = R" "flight s c = 1" "\<not> mutex s c" "p = Leave \<or> p = Held"
    using f by (auto simp: token_ok_def)
  have i: "num_cores A - 1 < num_cores A" using num_pos(3) [OF ok] by simp
  have ns: "\<not> at_sync s ?h"
    using cl cores_okD(3) [OF _ i, of g s c] g r(4) by (auto simp: cluster_ok_def dm_def)
  have q: "query s c = (if p = Held then Some (num_cores A - 1) else None)"
    using cl g by (simp add: cluster_ok_def)
  have nrm: "norm A ?h (prog s ?h) = code A n ?h (r, p)" using invD(1) [OF inv h(1)] g by (simp add: hart_ok_def)
  have sw: "p' \<in> {Leave, Out} \<Longrightarrow> collect A (seen A (g(?h := (r, p'))) R) (mem s)" for p'
    using seen_wait [OF invD(3) [OF inv] h(2) g] r(1) by simp
  show ?thesis
  proof (cases "p = Held")
    case True
    have e: "deliver c s = s\<lparr>flight := (flight s)(c := 0), mutex := (mutex s)(c := False), query := (query s)(c := None)\<rparr>"
      using r q True by (simp add: deliver_def)
    show ?thesis
      by (rule inv_wait_move [OF inv h g _ _ ns, where p' = Out])
        (use True nrm r sw in \<open>auto simp: e token_ok_def\<close>)
  next
    case False
    have e: "deliver c s = s\<lparr>flight := (flight s)(c := 0), mutex := (mutex s)(c := True)\<rparr>"
      using r q False by (simp add: deliver_def)
    show ?thesis
      by (rule inv_wait_move [OF inv h g _ _ ns, where p' = Leave])
        (use False nrm r q sw in \<open>auto simp: e token_ok_def\<close>)
  qed
qed

subsection \<open>Work and the syncs inside a cluster\<close>

lemma seen_before:
  assumes "collect A (seen A g R) m" and "c < num_x A * num_y A"
    and "fst (g (dm A c)) = R \<Longrightarrow> \<not> arrived (snd (g (dm A c)))"
    and "fst v = R \<Longrightarrow> \<not> arrived (snd v)" and "g' (dm A c) = v"
    and "\<And>d. d \<noteq> c \<Longrightarrow> g' (dm A d) = g (dm A d)"
  shows "collect A (seen A g' R) m"
proof -
  have "seen A g' R = (seen A g R)(c := if fst v = R then snd v else Out)"
    using assms(5,6) by (auto simp: seen_def fun_eq_iff)
  moreover have "collect A ((seen A g R)(c := if fst v = R then snd v else Out)) m"
    by (rule collect_before [OF assms(1,2)]) (use assms(3,4) in \<open>auto simp: seen_def\<close>)
  ultimately show ?thesis by simp
qed

lemma step_Work:
  assumes p: "at_point A n g R s h r Work" and st: "hart_step A h s s'"
  shows "\<exists>g' R'. bar_inv A n g' R' s'"
proof -
  note a = at_pointD [OF p]
  have ho: "point_ok n (r, Work)" "ticks s h = r - 1"
    using invD(1) [OF a(3,4)] a(5) by (simp_all add: hart_ok_def)
  have "prog s h \<noteq> Halt" by (rule step_Halt [OF st])
  then have "Suc n - r \<noteq> 0" using a(6) by (intro notI) simp
  then have r: "Suc n - r = Suc (n - r)" "1 \<le> r" "r \<le> n" using ho(1) by (simp_all add: point_ok_def)
  let ?k = "flex_global_barrier_xy A (after_barrier A n r)"
  have s': "s' = s\<lparr>prog := (prog s)(h := ?k), ticks := (ticks s)(h := r)\<rparr>"
    using step_Tick [OF st, of ?k] a(6) r ho(2) by (simp add: after_barrier_def)
  let ?g = "g(h := (r, In))"
  have co: "cores_ok A g s (fst h)" using a(8) by (simp add: cluster_ok_def)
  have dmp: "snd (g (dm A (fst h))) = Work \<or> snd (g (dm A (fst h))) = In"
    using cores_okD(2) [OF co a(11)] a(5) by fastforce
  have same_r: "fst (?g (dm A d)) = fst (g (dm A d))" for d using a(5) by auto
  have pc: "snd (?g (dm A d)) = (if dm A d = h then In else snd (g (dm A d)))" for d by simp
  have "\<not> at_sync s h" using cores_okD(3) [OF co a(11)] a(5) by auto
  then have co': "cores_ok A ?g s' (fst h)"
    using co dmp a(5) unfolding cores_ok_def s' by (auto split: if_splits)
  have "token_ok R (?g (dm A (fst h))) (flight s' (fst h)) (mutex s' (fst h))"
    using a(8) dmp a(5) by (auto simp: cluster_ok_def token_ok_def s')
  then have "cluster_ok A ?g R s' (fst h)"
    using a(8) co' dmp by (auto simp: cluster_ok_def s' all_at_sync_def)
  moreover have "cluster_ok A ?g R s' d" if "d < num_x A * num_y A" "d \<noteq> fst h" for d
    by (rule cluster_ok_cong [OF invD(2) [OF a(3) that(1)]]) (use that(2) in \<open>auto simp: s'\<close>)
  ultimately have "cluster_ok A ?g R s' d" if "d < num_x A * num_y A" for d using that by blast
  moreover have "hart_ok A n ?g s' h'" if "is_hart A h'" for h'
    using invD(1) [OF a(3) that] r(2,3)
    by (auto simp: hart_ok_def point_ok_def s')
  moreover have "collect A (seen A ?g R) (mem s)"
  proof (rule seen_before [OF invD(3) [OF a(3)] a(7)])
    show "\<not> arrived (snd (g (dm A (fst h))))" "\<not> arrived (snd (?g (dm A (fst h))))" using dmp by auto
    show "?g (dm A d) = g (dm A d)" if "d \<noteq> fst h" for d using that by auto
  qed simp
  then have "collect A (seen A ?g R) (mem s')" by (simp add: s')
  ultimately show ?thesis by (intro exI [of _ ?g] exI [of _ R]) (simp add: bar_inv_def)
qed

text \<open>Past the first sync the data mover counts itself in, the other cores go to the second.\<close>

definition barrier_body :: "arch \<Rightarrow> io \<Rightarrow> io" where
  "barrier_body A k = skip_sync (flex_global_barrier_xy A k)"

lemma hartid_dm:
  assumes "arch_ok A" and "is_hart A h"
  shows "of_nat (snd h) = ARCH_NUM_CORE_PER_CLUSTER A - 1 \<longleftrightarrow> h = dm A (fst h)"
proof -
  have i: "snd h < num_cores A" using assms(2) by (simp add: is_hart_def)
  have n: "0 < num_cores A" by (rule num_pos [OF assms(1)])
  have "unat (of_nat (snd h) :: u32) = snd h"
    using i unat_lt32 [of "ARCH_NUM_CORE_PER_CLUSTER A"] unfolding num_cores_def by (intro unat_of_nat32) linarith
  moreover have "unat (ARCH_NUM_CORE_PER_CLUSTER A - 1) = num_cores A - 1"
    using n unfolding num_cores_def by (subst unat_sub32) simp_all
  ultimately show ?thesis by (simp add: unat_eq_iff32 prod_eq_iff dm_def)
qed

lemma norm_barrier_body:
  assumes ok: "sync_ok A" and h: "is_hart A h" and r: "1 \<le> r"
  shows "norm A h (barrier_body A (after_barrier A n r)) = code A n h (r, if h = dm A (fst h) then AmoX else Out)"
proof -
  have aok: "arch_ok A" using ok by (simp add: sync_ok_def)
  have c: "fst h < num_x A * num_y A" using h by (simp add: is_hart_def)
  have lt: "fst h < 4294967296" using c mesh_area [OF aok] unfolding num_x_def num_y_def by linarith
  then have "unat (of_nat (fst h) :: u32) = fst h" by (rule unat_of_nat32)
  moreover have "fst h div num_x A < 4294967296" using lt by (rule le_less_trans [OF div_le_dividend])
  then have "unat (of_nat (fst h div num_x A) :: u32) = fst h div num_x A" by (rule unat_of_nat32)
  ultimately have "(of_nat (fst h) :: u32) div ARCH_NUM_CLUSTER_X A = of_nat (fst h div num_x A)"
    by (simp only: unat_eq_iff32 unat_div_distrib num_x_def)
  then have "pos_y (get_pos A (of_nat (fst h))) = of_nat (fst h div num_x A)" by (simp add: get_pos_def)
  then show ?thesis
    using hartid_dm [OF aok h] r
    by (simp add: barrier_body_def flex_global_barrier_xy_def flex_is_dm_core_def Let_def
        flex_intra_cluster_sync_def mid_x_def mid_y_def amo_x_prog_def row_done_prog_def
        leave_prog_def after_wait_def fun_eq_iff cong: if_cong)
qed

text \<open>The last core to arrive releases its cluster: from the first sync into the counting, from
  the second to the next phase of work.\<close>

definition released :: "arch \<Rightarrow> nat \<Rightarrow> ghost \<Rightarrow> ghost" where
  "released A c g h =
     (if fst h = c \<and> snd h < num_cores A then
        (if snd (g h) = In then (fst (g h), if h = dm A c then AmoX else Out)
         else (Suc (fst (g h)), Work))
      else g h)"

lemma released_sync:
  assumes co: "cores_ok A g s c" and all: "all_at_sync A s c" and ok: "arch_ok A"
  obtains (first) r where "\<And>i. i < num_cores A \<Longrightarrow> g (c, i) = (r, In)"
  | (second) r where "\<And>i. i < num_cores A \<Longrightarrow> g (c, i) = (r, Out)"
proof -
  have i: "num_cores A - 1 < num_cores A" using num_pos(3) [OF ok] by simp
  have s: "snd (g (c, i)) = In \<or> snd (g (c, i)) = Out" if "i < num_cores A" for i
    using cores_okD(3) [OF co that] all that by (simp add: all_at_sync_def)
  have d: "snd (g (dm A c)) = In \<or> snd (g (dm A c)) = Out" using s [OF i] by (simp add: dm_def)
  show thesis
  proof (cases "snd (g (dm A c)) = In")
    case True
    show ?thesis
    proof (rule first [of "fst (g (dm A c))"])
      fix j assume j: "j < num_cores A"
      have "fst (g (c, j)) = fst (g (dm A c))" "snd (g (c, j)) = In"
        using cores_okD(1) [OF co j] True s [OF j] by auto
      then show "g (c, j) = (fst (g (dm A c)), In)" by (simp add: prod_eq_iff)
    qed
  next
    case False
    then have o: "snd (g (dm A c)) = Out" using d by simp
    show ?thesis
    proof (rule second [of "fst (g (dm A c))"])
      fix j assume j: "j < num_cores A"
      have "(c, j) = dm A c \<or> g (c, j) = (fst (g (dm A c)), Out)"
        by (rule cores_okD(2) [OF co j]) (simp_all add: o)
      then show "g (c, j) = (fst (g (dm A c)), Out)" using o by (metis prod.collapse)
    qed
  qed
qed

lemma released_hart:
  assumes sok: "sync_ok A" and ho: "hart_ok A n g s h" and h: "is_hart A h"
    and pk: "prog s h = Csr_Sync k" and pc: "snd (g h) = In \<or> snd (g h) = Out"
    and s': "prog s' h = skip_sync (prog s h)" "ticks s' h = ticks s h"
  shows "hart_ok A n (released A (fst h) g) s' h"
proof -
  obtain r p where g: "g h = (r, p)" by (cases "g h")
  have code: "Csr_Sync k = code A n h (r, p)" and pt: "point_ok n (r, p)"
    and tk: "ticks s h = r"
    using ho pk pc g by (auto simp: hart_ok_def)
  have i: "snd h < num_cores A" using h by (simp add: is_hart_def)
  show ?thesis
  proof (cases "p = In")
    case True
    then have r: "1 \<le> r" "r \<le> n" using pt by (simp_all add: point_ok_def)
    have "skip_sync (prog s h) = barrier_body A (after_barrier A n r)"
      using pk code True by (simp add: barrier_body_def)
    then show ?thesis
      using norm_barrier_body [OF sok h r(1), of n] r g True tk s' i
      by (auto simp: hart_ok_def released_def point_ok_def)
  next
    case False
    then have o: "p = Out" using pc g by simp
    then have "skip_sync (prog s h) = rounds A (n - r)"
      using pk code by (simp add: after_barrier_def)
    then show ?thesis
      using g o tk s' i pt by (simp add: hart_ok_def released_def point_ok_def)
  qed
qed

lemma release_inv:
  assumes sok: "sync_ok A" and inv: "bar_inv A n g R s" and c: "c < num_x A * num_y A"
    and h: "fst h = c"
  defines "s1 \<equiv> s\<lparr>at_sync := (at_sync s)(h := True)\<rparr>"
  assumes co: "cores_ok A g s1 c" and all: "all_at_sync A s1 c"
  shows "bar_inv A n (released A c g) R (arrive A h s)"
proof -
  let ?s' = "arrive A h s"
  have s': "?s' = s\<lparr>prog := (\<lambda>g. if fst g = c \<and> snd g < num_cores A then skip_sync (prog s g) else prog s g),
       at_sync := (\<lambda>g. if fst g = c \<and> snd g < num_cores A then False else at_sync s g)\<rparr>"
    using all h by (simp add: arrive_def s1_def Let_def)
  have s1: "prog s1 = prog s" "at_sync s1 = (at_sync s)(h := True)" by (simp_all add: s1_def)
  have ok: "arch_ok A" using sok by (simp add: sync_ok_def)
  let ?g = "released A c g"
  have i: "num_cores A - 1 < num_cores A" using num_pos(3) [OF ok] by simp
  have cl: "cluster_ok A g R s c" by (rule invD(2) [OF inv c])
  have other: "?g h' = g h'" if "fst h' \<noteq> c" for h' using that by (simp add: released_def)
  obtain r where r: "(\<forall>i < num_cores A. g (c, i) = (r, In)) \<or> (\<forall>i < num_cores A. g (c, i) = (r, Out))"
    by (rule released_sync [OF co all ok]) blast+
  have dmg: "?g (dm A c) = (if snd (g (dm A c)) = In then (r, AmoX) else (Suc r, Work))"
    and old: "g (dm A c) = (r, In) \<or> g (dm A c) = (r, Out)"
    using r i by (auto simp: released_def dm_def)
  have core: "?g (c, j) = (if snd (g (dm A c)) = In then (r, if (c, j) = dm A c then AmoX else Out) else (Suc r, Work))"
    if "j < num_cores A" for j
    using r i that by (auto simp: released_def dm_def)
  have "token_ok R (?g (dm A c)) (flight ?s' c) (mutex ?s' c)"
    using cl old dmg by (auto simp: cluster_ok_def token_ok_def s')
  moreover have "cores_ok A ?g ?s' c"
    unfolding cores_ok_def dmg using core by (auto simp: s')
  moreover have "\<not> all_at_sync A ?s' c" using i by (auto simp: all_at_sync_def s')
  ultimately have "cluster_ok A ?g R ?s' c"
    using cl old dmg by (auto simp: cluster_ok_def s')
  moreover have "cluster_ok A ?g R ?s' d" if "d < num_x A * num_y A" "d \<noteq> c" for d
    by (rule cluster_ok_cong [OF invD(2) [OF inv that(1)]]) (use that(2) other s1(2) h in \<open>auto simp: s'\<close>)
  ultimately have "cluster_ok A ?g R ?s' d" if "d < num_x A * num_y A" for d using that by blast
  moreover have "hart_ok A n ?g ?s' h'" if h': "is_hart A h'" for h'
  proof (cases "fst h' = c")
    case True
    then have j: "snd h' < num_cores A" "(c, snd h') = h'" using h' by (auto simp: is_hart_def)
    then have "at_sync s1 h'" using all True by (metis all_at_sync_def)
    then have "(snd (g h') = In \<or> snd (g h') = Out) \<and> (\<exists>k. prog s h' = Csr_Sync k)"
      using cores_okD(3) [OF co j(1)] j(2) s1(1) by simp
    then obtain k where "prog s h' = Csr_Sync k" "snd (g h') = In \<or> snd (g h') = Out" by blast
    then have "hart_ok A n (released A (fst h') g) ?s' h'"
      by (rule released_hart [OF sok invD(1) [OF inv h'] h']) (use True j in \<open>simp_all add: s'\<close>)
    then show ?thesis using True by simp
  next
    case False
    then show ?thesis
      by (intro hart_ok_cong [OF invD(1) [OF inv h']]) (simp_all add: s' other)
  qed
  moreover have "collect A (seen A ?g R) (mem ?s')"
    using seen_before [where g' = ?g and v = "?g (dm A c)" and c = c, OF invD(3) [OF inv] c] old dmg other
    by (auto simp: s' dm_def)
  ultimately show ?thesis by (simp add: bar_inv_def)
qed

lemma step_sync:
  assumes sok: "sync_ok A" and inv: "bar_inv A n g R s" and h: "is_hart A h"
    and pk: "prog s h = Csr_Sync k" and pc: "snd (g h) = In \<or> snd (g h) = Out" and st: "hart_step A h s s'"
  shows "\<exists>g' R'. bar_inv A n g' R' s'"
proof -
  let ?c = "fst h" and ?s1 = "s\<lparr>at_sync := (at_sync s)(h := True)\<rparr>"
  have ok: "arch_ok A" using sok by (simp add: sync_ok_def)
  have c: "?c < num_x A * num_y A" using h by (simp add: is_hart_def)
  have cl: "cluster_ok A g R s ?c" by (rule invD(2) [OF inv c])
  have co: "cores_ok A g s ?c" using cl by (simp add: cluster_ok_def)
  have co1: "cores_ok A g ?s1 ?c"
    using co pk pc by (auto simp: cores_ok_def)
  have s': "s' = arrive A h s" using step_Csr_Sync [OF st pk] by simp
  show ?thesis
  proof (cases "all_at_sync A ?s1 ?c")
    case False
    then have e: "s' = ?s1" by (simp add: s' arrive_def)
    have "cluster_ok A g R ?s1 ?c" using cl co1 False by (simp add: cluster_ok_def)
    moreover have "cluster_ok A g R ?s1 d" if "d < num_x A * num_y A" "d \<noteq> ?c" for d
      by (rule cluster_ok_cong [OF invD(2) [OF inv that(1)]]) (use that(2) in auto)
    ultimately have "cluster_ok A g R ?s1 d" if "d < num_x A * num_y A" for d using that by blast
    moreover have "hart_ok A n g ?s1 h'" if "is_hart A h'" for h'
      using invD(1) [OF inv that] by (simp add: hart_ok_def)
    ultimately have "bar_inv A n g R ?s1" using invD(3) [OF inv] by (simp add: bar_inv_def)
    then show ?thesis using e by blast
  next
    case True
    have "bar_inv A n (released A ?c g) R s'"
      unfolding s' by (rule release_inv [OF sok inv c refl co1 True])
    then show ?thesis by blast
  qed
qed

end
