(* ===== verification/Barrier_Props.thy ===== *)
theory Barrier_Props
  imports Barrier_XY
begin

text \<open>
  What \<open>flex_barrier_xy_init\<close> and \<open>flex_global_barrier_xy\<close> guarantee in every reachable state of
  the machine, from an arbitrary content of the synchronisation memory: phases of different
  harts never overlap by more than one barrier, no reachable state is stuck before all harts have
  finished, and every run ends.
\<close>

subsection \<open>Every step keeps the invariant\<close>

lemma inv_step:
  assumes ok: "sync_ok A" and inv: "bar_inv A n g R s" and st: "hw_step A s s'"
  shows "\<exists>g' R'. bar_inv A n g' R' s'"
  using st
proof (cases rule: hw_step.cases)
  case (run h)
  show ?thesis
  proof (cases "silent A h s s'")
    case True
    then show ?thesis using inv_silent [OF inv run(1)] by blast
  next
    case False
    then have v: "prog s h = code A n h (g h)"
      using step_silent_or_visible [OF run(3)] visible_code [OF inv run(1)] by blast
    obtain r p where g: "g h = (r, p)" by (cases "g h")
    have pt: "at_point A n g R s h r p" using ok inv run(1) g v by (simp add: at_point_def)
    show ?thesis
    proof (cases p)
      case (Zero j)
      then show ?thesis using step_Zero [OF pt [unfolded Zero] run(3)] by simp
    next
      case Work
      then show ?thesis using step_Work [OF pt [unfolded Work] run(3)] by simp
    next
      case In
      obtain k where "prog s h = Csr_Sync k" using v g In xy_sync by (metis code.simps(4))
      then show ?thesis using step_sync [OF ok inv run(1)] run(3) g In by simp
    next
      case Out
      then have "prog s h = Csr_Sync (after_barrier A n r)" using v g by simp
      then show ?thesis using step_sync [OF ok inv run(1)] run(3) g Out by simp
    next
      case Held
      note c = at_pointD(8) [OF pt]
      have d: "h = dm A (fst h)" by (rule hart_is_dm [OF c run(1)]) (simp_all add: g Held)
      then have "query s (fst h) = Some (snd h)"
        using c g Held by (metis cluster_ok_def dm_def snd_conv)
      then have False using run(2) by (simp add: held_back_def)
      then show ?thesis ..
    next
      case AmoX
      then show ?thesis using step_AmoX [OF pt [unfolded AmoX] run(3)] by simp
    next
      case ResetX
      then show ?thesis using step_ResetX [OF pt [unfolded ResetX] run(3)] by simp
    next
      case AmoY
      then show ?thesis using step_AmoY [OF pt [unfolded AmoY] run(3)] by simp
    next
      case ResetY
      then show ?thesis using step_ResetY [OF pt [unfolded ResetY] run(3)] by simp
    next
      case Wake
      then show ?thesis using step_Wake [OF pt [unfolded Wake] run(3)] by simp
    next
      case Leave
      then show ?thesis using step_Leave [OF pt [unfolded Leave] run(3)] by simp
    qed
  qed
next
  case (wake c)
  then show ?thesis using inv_deliver [of A n g R s c] inv ok by (simp add: sync_ok_def)
qed

subsection \<open>The start\<close>

definition start :: "arch \<Rightarrow> nat \<Rightarrow> heap \<Rightarrow> hw" where
  "start A n m =
     \<lparr>mem = m, prog = (\<lambda>_. client A n), at_sync = (\<lambda>_. False), query = (\<lambda>_. None),
      mutex = (\<lambda>_. False), flight = (\<lambda>_. 0), ticks = (\<lambda>_. 0)\<rparr>"

definition start_points :: "arch \<Rightarrow> ghost" where
  "start_points A h =
     (0, if h = dm A 0 then Zero 0 else if h = dm A (fst h) then Leave else Out)"

lemma norm_client:
  assumes ok: "sync_ok A" and h: "is_hart A h"
  shows "norm A h (client A n) = code A n h (start_points A h)"
proof -
  have aok: "arch_ok A" using ok by (simp add: sync_ok_def)
  have lt: "fst h < 4294967296"
    using h mesh_area [OF aok] unfolding is_hart_def num_x_def num_y_def by linarith
  have z: "(of_nat (fst h) :: u32) = 0 \<longleftrightarrow> fst h = 0"
    unfolding unat_eq_iff32 unat_of_nat32 [OF lt] by simp
  have sp: "start_points A h = (0, if h = dm A (fst h) then if fst h = 0 then Zero 0 else Leave else Out)"
  proof -
    have e: "h = dm A 0 \<longleftrightarrow> h = dm A (fst h) \<and> fst h = 0" by (cases h) (auto simp: dm_def)
    have "(if P \<and> Q then a else if P then b else c) = (if P then if Q then a else b else c)"
      for P Q and a b c :: bpc by simp
    then show ?thesis unfolding start_points_def e by (simp only:)
  qed
  define d where "d = (h = dm A (fst h))"
  have dm: "of_nat (snd h) = ARCH_NUM_CORE_PER_CLUSTER A - 1 \<longleftrightarrow> d"
    unfolding d_def by (rule hartid_dm [OF aok h])
  show ?thesis
    unfolding sp d_def [symmetric] using col_addr_not_reg [OF ok, unfolded mid_x_def mid_y_def]
    by (simp add: client_def flex_barrier_xy_init_def flex_is_dm_core_def Let_def z dm
        mid_x_def mid_y_def leave_prog_def after_wait_def after_barrier_def num_y_def)
qed

lemma start_inv:
  assumes ok: "sync_ok A"
  shows "bar_inv A n (start_points A) 0 (start A n m)"
proof -
  have aok: "arch_ok A" using ok by (simp add: sync_ok_def)
  have i: "0 < num_cores A" by (rule num_pos [OF aok])
  have dmp: "start_points A (dm A c) = (0, if c = 0 then Zero 0 else Leave)" for c
    by (simp add: start_points_def)
  have sp: "fst (start_points A h) = 0" "snd (start_points A h) \<noteq> Work" "snd (start_points A h) \<noteq> In" for h
    by (simp_all add: start_points_def)
  have "hart_ok A n (start_points A) (start A n m) h" if "is_hart A h" for h
    using norm_client [OF ok that] sp [of h] by (simp add: hart_ok_def start_def point_ok_def)
  moreover have "cluster_ok A (start_points A) 0 (start A n m) c" for c
    unfolding cluster_ok_def cores_ok_def dmp
    using i by (auto simp: token_ok_def start_def all_at_sync_def start_points_def dm_def)
  moreover have s: "seen A (start_points A) 0 c = (if c = 0 then Zero 0 else Leave)" for c
    by (simp add: seen_def dmp)
  have "collect A (seen A (start_points A) 0) m"
  proof (rule collectI)
    have "row_done A (seen A (start_points A) 0) y" for y by (simp add: row_done_def s)
    then have d: "done_rows A (seen A (start_points A) 0) = {..<num_y A}" by (auto simp: done_rows_def)
    have z: "0 < num_x A * num_y A" using num_pos [OF aok] by simp
    fix c assume "c < num_x A * num_y A" "col_lead (seen A (start_points A) 0 c)"
    then show "done_rows A (seen A (start_points A) 0) = {..<num_y A} \<and>
        (\<forall>d<num_x A * num_y A. col_lead (seen A (start_points A) 0 d) \<longrightarrow> d = c)"
      using d by (auto simp: s split: if_splits)
  next
    show "\<exists>c<num_x A * num_y A. col_lead (seen A (start_points A) 0 c)"
      using num_pos [OF aok] by (intro exI [of _ 0]) (simp add: s)
    have "zeroing A (seen A (start_points A) 0)"
      using num_pos [OF aok] unfolding zeroing_def by (intro exI [of _ 0]) (simp add: s)
    then show "\<not> zeroing A (seen A (start_points A) 0) \<Longrightarrow> counters A (seen A (start_points A) 0) m" by simp
  qed (auto simp: s zeroed_def split: if_splits)
  ultimately show ?thesis by (simp add: bar_inv_def start_def)
qed

theorem reachable_inv:
  assumes "sync_ok A" and "reachable A (start A n m) s"
  shows "\<exists>g R. bar_inv A n g R s"
  using assms(2)
proof (induction rule: reachable.induct)
  case start
  then show ?case using start_inv [OF assms(1)] by blast
next
  case (step s s')
  then show ?case using inv_step [OF assms(1)] by blast
qed

subsection \<open>Consequences of the invariant\<close>

lemma round_of_hart:
  assumes inv: "bar_inv A n g R s" and h: "is_hart A h"
  shows "fst (g h) = R \<and> (R = 0 \<longrightarrow> snd (g h) \<noteq> Work) \<or> Suc (fst (g h)) = R \<and> snd (g h) \<noteq> Work"
proof -
  have c: "cluster_ok A g R s (fst h)" using invD(2) [OF inv] h by (simp add: is_hart_def)
  have i: "snd h < num_cores A" using h by (simp add: is_hart_def)
  have co: "cores_ok A g s (fst h)" and tok: "token_ok R (g (dm A (fst h))) (flight s (fst h)) (mutex s (fst h))"
    using c by (simp_all add: cluster_ok_def)
  have pt: "point_ok n (g h)" using invD(1) [OF inv h] by (simp add: hart_ok_def)
  show ?thesis
  proof (cases "snd (g (dm A (fst h))) = Work \<or> snd (g (dm A (fst h))) = In")
    case True
    then have "fst (g (dm A (fst h))) = R" using tok by (auto simp: token_ok_def)
    then show ?thesis using cores_okD(1) [OF co i True] pt by (auto simp: point_ok_def)
  next
    case False
    then have "h = dm A (fst h) \<or> g h = (fst (g (dm A (fst h))), Out)"
      using cores_okD(2) [OF co i] by simp
    then show ?thesis using tok False by (auto simp: token_ok_def)
  qed
qed

lemma ticks_of_hart:
  assumes "bar_inv A n g R s" and "is_hart A h"
  shows "R - 1 \<le> ticks s h" and "ticks s h \<le> R"
  using round_of_hart [OF assms] invD(1) [OF assms] by (auto simp: hart_ok_def split: if_splits)

subsection \<open>No reachable state is stuck\<close>

text \<open>At the end of a run every core of the machine is at rest.\<close>

definition finished :: "arch \<Rightarrow> hw \<Rightarrow> bool" where
  "finished A s = (\<forall>h. is_hart A h \<longrightarrow> prog s h = Halt)"

lemma runs_code:
  assumes "p \<noteq> Work"
  shows "runs (code A n h (r, p))"
proof (cases p)
  case (Zero j)
  then show ?thesis by (cases j) simp_all
next
  case In
  then show ?thesis using xy_sync [of A "after_barrier A n r"] by auto
qed (use assms in simp_all)

text \<open>A hart that cannot move is finished, held back, or waits in a sync.\<close>

lemma stuck_hart:
  assumes inv: "bar_inv A n g R s" and stuck: "\<And>s'. \<not> hw_step A s s'" and h: "is_hart A h"
  shows "snd (g h) = Work \<and> fst (g h) = Suc n \<or> held_back s h \<or> at_sync s h"
proof (rule ccontr)
  assume n: "\<not> (snd (g h) = Work \<and> fst (g h) = Suc n \<or> held_back s h \<or> at_sync s h)"
  obtain r p where g: "g h = (r, p)" by (cases "g h")
  have ho: "norm A h (prog s h) = code A n h (r, p)" "point_ok n (r, p)"
    using invD(1) [OF inv h] g by (simp_all add: hart_ok_def)
  have "runs (code A n h (r, p))"
  proof (cases "p = Work")
    case True
    then have "Suc n - r = Suc (n - r)" using n g ho(2) by (auto simp: point_ok_def)
    then show ?thesis using True by simp
  qed (rule runs_code)
  then obtain s' where "hart_step A h s s'" using can_step [of A h s] ho(1) n by auto
  then show False using stuck hw_step.run [OF h] n by blast
qed

lemma stuck_no_flight:
  assumes "\<And>s'. \<not> hw_step A s s'" and "c < num_x A * num_y A"
  shows "flight s c = 0"
  using assms hw_step.wake [OF assms(2), of s] by blast

lemma stuck_cluster:
  assumes ok: "arch_ok A" and inv: "bar_inv A n g R s" and stuck: "\<And>s'. \<not> hw_step A s s'"
    and c: "c < num_x A * num_y A"
  shows "g (dm A c) = (R, Held) \<or> (R = Suc n \<and> (\<forall>i < num_cores A. g (c, i) = (R, Work)))"
proof -
  have cl: "cluster_ok A g R s c" by (rule invD(2) [OF inv c])
  have co: "cores_ok A g s c" and nall: "\<not> all_at_sync A s c"
    and tok: "token_ok R (g (dm A c)) (flight s c) (mutex s c)"
    and q: "query s c = (if snd (g (dm A c)) = Held then Some (num_cores A - 1) else None)"
    using cl by (simp_all add: cluster_ok_def)
  have core: "snd (g (c, i)) = Work \<and> fst (g (c, i)) = Suc n \<or> held_back s (c, i) \<or> at_sync s (c, i)"
    if "i < num_cores A" for i
    using stuck_hart [OF inv stuck, of "(c, i)"] c that by (simp add: is_hart_def)
  have i: "num_cores A - 1 < num_cores A" using num_pos(3) [OF ok] by simp
  have f: "flight s c = 0" by (rule stuck_no_flight [OF stuck c])
  show ?thesis
  proof (cases "snd (g (dm A c)) = Held")
    case True
    then show ?thesis using tok f by (auto simp: token_ok_def prod_eq_iff)
  next
    case False
    then have nh: "\<not> held_back s (c, i)" for i using q by (simp add: held_back_def)
    obtain j where j: "j < num_cores A" "\<not> at_sync s (c, j)" using nall by (auto simp: all_at_sync_def)
    then have w: "snd (g (c, j)) = Work" "fst (g (c, j)) = Suc n" using core [OF j(1)] nh by auto
    then have d: "snd (g (dm A c)) = Work \<or> snd (g (dm A c)) = In"
      using cores_okD(2) [OF co j(1)] by fastforce
    have r: "fst (g (dm A c)) = Suc n" using cores_okD(1) [OF co j(1) d] w(2) by simp
    have R: "R = Suc n" using tok d r by (auto simp: token_ok_def)
    have "g (c, k) = (R, Work)" if k: "k < num_cores A" for k
    proof -
      have "point_ok n (g (c, k))"
        using invD(1) [OF inv, of "(c, k)"] c k by (simp add: is_hart_def hart_ok_def)
      then show ?thesis
        using cores_okD(1) [OF co k d] r R by (auto simp: point_ok_def prod_eq_iff)
    qed
    then show ?thesis using R by blast
  qed
qed

lemma not_stuck:
  assumes sok: "sync_ok A" and inv: "bar_inv A n g R s" and stuck: "\<And>s'. \<not> hw_step A s s'"
  shows "finished A s \<and> (\<forall>h. is_hart A h \<longrightarrow> ticks s h = n)"
proof -
  have ok: "arch_ok A" using sok by (simp add: sync_ok_def)
  note cl = stuck_cluster [OF ok inv stuck]
  have i: "num_cores A - 1 < num_cores A" using num_pos(3) [OF ok] by simp
  have "R = Suc n"
  proof (rule ccontr)
    assume "R \<noteq> Suc n"
    then have held: "seen A g R c = Held" if "c < num_x A * num_y A" for c
      using cl [OF that] by (auto simp: seen_def)
    then have "row_done A (seen A g R) y" for y by (auto simp: row_done_def row_def)
    then have "done_rows A (seen A g R) = {..< num_y A}" by (auto simp: done_rows_def)
    then obtain c where "c < num_x A * num_y A" "col_lead (seen A g R c)"
      by (rule collect_all_done [OF invD(3) [OF inv]])
    then show False using held by simp
  qed
  moreover have "point_ok n (g (dm A c))" if "c < num_x A * num_y A" for c
    using invD(1) [OF inv dm_hart [OF ok that]] by (simp add: hart_ok_def)
  ultimately have all: "g (c, j) = (Suc n, Work)" if "c < num_x A * num_y A" "j < num_cores A" for c j
    using cl [OF that(1)] that by (force simp: point_ok_def)
  have g: "g h = (Suc n, Work)" if "is_hart A h" for h
    using all [of "fst h" "snd h"] that by (simp add: is_hart_def)
  have "prog s h = Halt" if h: "is_hart A h" for h
  proof (rule ccontr)
    assume nh: "prog s h \<noteq> Halt"
    have "norm A h (prog s h) = Halt" using invD(1) [OF inv h] g [OF h] by (simp add: hart_ok_def)
    moreover have ns: "\<not> at_sync s h"
      using cores_okD(3) [of A g s "fst h" "snd h"] invD(2) [OF inv] h g [OF h]
      by (auto simp: is_hart_def cluster_ok_def)
    moreover have "query s (fst h) = None"
      using invD(2) [OF inv, of "fst h"] g [OF dm_hart [OF ok]] h by (simp add: cluster_ok_def is_hart_def)
    then have nb: "\<not> held_back s h" by (simp add: held_back_def)
    ultimately obtain s' where "hart_step A h s s'" using halting_step nh by blast
    then show False using stuck hw_step.run [OF h nb] by blast
  qed
  moreover have "ticks s h = n" if "is_hart A h" for h
    using invD(1) [OF inv that] g [OF that] by (simp add: hart_ok_def)
  ultimately show ?thesis by (simp add: finished_def)
qed

subsection \<open>Every run ends\<close>

text \<open>The programs a program can pass to in one access.\<close>

fun next_progs :: "io \<Rightarrow> io set" where
  "next_progs Halt = {}"
| "next_progs (Rd a k) = range k"
| "next_progs (Wr a v k) = {k}"
| "next_progs (Amo a v k) = range k"
| "next_progs (Spin a v k) = {k}"
| "next_progs (Csr_Hartid k) = range k"
| "next_progs (Csr_Sync k) = {k}"
| "next_progs (Insn w rs k) = range k"
| "next_progs (Poll w k) = {k}"
| "next_progs (Heap_Init b base sz k) = {k}"
| "next_progs (Malloc b sz k) = range k"
| "next_progs (Free b p k) = {k}"
| "next_progs (Printf l k) = {k}"
| "next_progs (Tick k) = {k}"

definition shorter :: "(io \<times> io) set" where
  "shorter = {(p, q). p \<in> next_progs q}"

lemma wf_shorter: "wf shorter"
proof (rule wfUNIVI)
  fix P p
  assume step: "\<forall>q. (\<forall>p. (p, q) \<in> shorter \<longrightarrow> P p) \<longrightarrow> P q"
  show "P p"
    by (induction p) (rule step [rule_format], force simp: shorter_def)+
qed

definition harts :: "arch \<Rightarrow> hart set" where
  "harts A = {h. is_hart A h}"

lemma finite_harts [simp]: "finite (harts A)"
  by (rule finite_subset [of _ "{..< num_x A * num_y A} \<times> {..< num_cores A}"])
    (auto simp: harts_def is_hart_def)

definition progs :: "arch \<Rightarrow> hw \<Rightarrow> io multiset" where
  "progs A s = image_mset (prog s) (mset_set (harts A))"

text \<open>When some harts move on to later programs and the others keep theirs, the multiset of
  programs gets smaller.\<close>

lemma progs_less:
  assumes h: "h \<in> harts A" "(prog s' h, prog s h) \<in> shorter"
    and le: "\<And>k. k \<in> harts A \<Longrightarrow> prog s' k = prog s k \<or> (prog s' k, prog s k) \<in> shorter"
  shows "(progs A s', progs A s) \<in> mult shorter"
proof -
  let ?D = "{k \<in> harts A. (prog s' k, prog s k) \<in> shorter}" and ?H = "harts A"
  have split: "mset_set ?H = mset_set (?H - ?D) + mset_set ?D"
    using mset_set_Union [of "?H - ?D" ?D] by (simp add: Un_absorb2 Diff_partition inf_commute)
  have "image_mset (prog s') (mset_set (?H - ?D)) = image_mset (prog s) (mset_set (?H - ?D))"
    using le by (intro image_mset_cong) auto
  then have eq: "progs A s' = image_mset (prog s) (mset_set (?H - ?D)) + image_mset (prog s') (mset_set ?D)"
    "progs A s = image_mset (prog s) (mset_set (?H - ?D)) + image_mset (prog s) (mset_set ?D)"
    by (simp_all add: progs_def split)
  show ?thesis
    unfolding eq
  proof (rule one_step_implies_mult)
    have "?D \<noteq> {}" "finite ?D" using h by blast simp
    then show "image_mset (prog s) (mset_set ?D) \<noteq> {#}"
      by (simp only: image_mset_is_empty_iff mset_set_empty_iff simp_thms)
    show "\<forall>k\<in>#image_mset (prog s') (mset_set ?D). \<exists>j\<in>#image_mset (prog s) (mset_set ?D). (k, j) \<in> shorter"
      by auto
  qed
qed

text \<open>The harts that have not arrived at a sync, and the messages in flight.\<close>

definition coming :: "arch \<Rightarrow> hw \<Rightarrow> nat" where
  "coming A s = card {h \<in> harts A. \<not> at_sync s h}"

definition messages :: "arch \<Rightarrow> hw \<Rightarrow> nat" where
  "messages A s = (\<Sum>c < num_x A * num_y A. flight s c)"

definition run_order :: "arch \<Rightarrow> (hw \<times> hw) set" where
  "run_order A = inv_image (mult shorter <*lex*> less_than <*lex*> less_than)
     (\<lambda>s. (progs A s, coming A s, messages A s))"

lemma wf_run_order: "wf (run_order A)"
  unfolding run_order_def by (intro wf_inv_image wf_lex_prod wf_mult wf_shorter wf_less_than)

lemma hart_step_shorter:
  assumes "hart_step A h s s'"
  shows "(prog s' h, prog s h) \<in> shorter \<and> (\<forall>k. k \<noteq> h \<longrightarrow> prog s' k = prog s k) \<or> s' = arrive A h s \<and> (\<exists>k. prog s h = Csr_Sync k) \<and> \<not> at_sync s h"
  using assms by cases (auto simp: shorter_def reg_write_def Let_def)

lemma arrive_order:
  assumes h: "h \<in> harts A" and p: "prog s h = Csr_Sync k" and n: "\<not> at_sync s h"
  shows "(arrive A h s, s) \<in> run_order A"
proof (cases "all_at_sync A (s\<lparr>at_sync := (at_sync s)(h := True)\<rparr>) (fst h)")
  case True
  have le: "skip_sync q = q \<or> (skip_sync q, q) \<in> shorter" for q
    by (cases q) (simp_all add: shorter_def)
  have s: "prog (arrive A h s) g = (if fst g = fst h \<and> snd g < num_cores A then skip_sync (prog s g) else prog s g)" for g
    using True by (simp add: arrive_def Let_def)
  have "(progs A (arrive A h s), progs A s) \<in> mult shorter"
  proof (rule progs_less [OF h])
    show "(prog (arrive A h s) h, prog s h) \<in> shorter"
      using h p by (simp add: s harts_def is_hart_def shorter_def)
    show "prog (arrive A h s) g = prog s g \<or> (prog (arrive A h s) g, prog s g) \<in> shorter" for g
      using le by (simp add: s)
  qed
  then show ?thesis by (simp add: run_order_def)
next
  case False
  then have e: "arrive A h s = s\<lparr>at_sync := (at_sync s)(h := True)\<rparr>" by (simp add: arrive_def Let_def)
  have "{g \<in> harts A. \<not> at_sync (arrive A h s) g} \<subset> {g \<in> harts A. \<not> at_sync s g}"
    using h n by (auto simp: e)
  then have "coming A (arrive A h s) < coming A s"
    unfolding coming_def by (intro psubset_card_mono) simp_all
  then show ?thesis by (simp add: run_order_def progs_def e)
qed

lemma step_order:
  assumes "hw_step A s s'"
  shows "(s', s) \<in> run_order A"
  using assms
proof (cases rule: hw_step.cases)
  case (run h)
  have h: "h \<in> harts A" using run(1) by (simp add: harts_def)
  show ?thesis
    using hart_step_shorter [OF run(3)]
  proof (elim disjE conjE exE)
    assume "(prog s' h, prog s h) \<in> shorter" "\<forall>k. k \<noteq> h \<longrightarrow> prog s' k = prog s k"
    then have "(progs A s', progs A s) \<in> mult shorter" by (intro progs_less [OF h]) auto
    then show ?thesis by (simp add: run_order_def)
  next
    fix k assume "s' = arrive A h s" "prog s h = Csr_Sync k" "\<not> at_sync s h"
    then show ?thesis using arrive_order [OF h] by simp
  qed
next
  case (wake c)
  have same: "prog s' = prog s" "at_sync s' = at_sync s" "flight s' = (flight s)(c := flight s c - 1)"
    using wake(1) by (simp_all add: deliver_def Let_def)
  have "messages A s' < messages A s"
    unfolding messages_def
  proof (rule sum_strict_mono_ex1)
    show "\<exists>d\<in>{..<num_x A * num_y A}. flight s' d < flight s d"
      using wake(2,3) by (intro bexI [of _ c]) (simp_all add: same)
  qed (simp_all add: same)
  then show ?thesis by (simp add: run_order_def progs_def coming_def same)
qed

subsection \<open>Properties\<close>

text \<open>C1: No phase starts before the barrier in front of it is complete.  In every reachable state
  of a machine that runs \<open>flex_barrier_xy_init\<close> and then alternates a phase of work (\<open>Tick\<close>) and
  \<open>flex_global_barrier_xy\<close> on every hart, no hart is more than one phase ahead of another: the
  phase after a barrier starts only when every hart has done the phase before it.\<close>

theorem barrier_xy_safe:
  assumes "sync_ok A" and "reachable A (start A n m) s" and "is_hart A h" and "is_hart A k"
  shows "ticks s h \<le> Suc (ticks s k)"
proof -
  obtain g R where inv: "bar_inv A n g R s" using reachable_inv [OF assms(1,2)] by blast
  show ?thesis using ticks_of_hart [OF inv assms(3)] ticks_of_hart [OF inv assms(4)] by linarith
qed

theorem barrier_xy_safe_witness:
  "ticks (start arch_default 5 (\<lambda>_. 7)) (3, 1) \<le> Suc (ticks (start arch_default 5 (\<lambda>_. 7)) (0, 2))"
  using barrier_xy_safe [OF sync_ok_default reachable.start,
      where h = "(3, 1)" and k = "(0, 2)" and n = 5 and m = "\<lambda>_. 7"]
  by (simp add: is_hart_def num_x_def num_y_def num_cores_def)

text \<open>C10: The barrier never deadlocks.  A reachable state in which no hart can move and no wake-up
  can be delivered is the end: every hart has finished, after the same number \<open>n\<close> of phases.\<close>

theorem barrier_xy_no_deadlock:
  assumes "sync_ok A" and "reachable A (start A n m) s" and "\<And>s'. \<not> hw_step A s s'"
  shows "finished A s \<and> (\<forall>h. is_hart A h \<longrightarrow> ticks s h = n)"
proof -
  obtain g R where "bar_inv A n g R s" using reachable_inv [OF assms(1,2)] by blast
  then show ?thesis by (rule not_stuck [OF assms(1) _ assms(3)])
qed

lemma run_to_end:
  "\<exists>s'. reachable A s0 s' \<and> (\<forall>s''. \<not> hw_step A s' s'')" if "reachable A s0 s"
  using wf_run_order [of A] that
proof (induction s rule: wf_induct_rule)
  case (less s)
  show ?case
  proof (cases "\<exists>s'. hw_step A s s'")
    case True
    then obtain s' where s': "hw_step A s s'" by blast
    then show ?thesis using less.IH [OF step_order [OF s']] reachable.step [OF less.prems s'] by blast
  next
    case False
    then show ?thesis using less.prems by blast
  qed
qed

theorem barrier_xy_no_deadlock_witness:
  "\<exists>s. reachable arch_default (start arch_default 3 (\<lambda>_. 7)) s \<and> finished arch_default s \<and>
     (\<forall>h. is_hart arch_default h \<longrightarrow> ticks s h = 3)"
proof -
  obtain s where "reachable arch_default (start arch_default 3 (\<lambda>_. 7)) s" "\<And>s'. \<not> hw_step arch_default s s'"
    using run_to_end [OF reachable.start, of arch_default "start arch_default 3 (\<lambda>_. 7)"] by blast
  then show ?thesis using barrier_xy_no_deadlock [OF sync_ok_default] by blast
qed

text \<open>C26: Every run ends.  There is no infinite sequence of steps from the start, whatever the
  interleaving of the harts and the order of the deliveries, and the end is reached: a state in
  which all harts have finished all \<open>n\<close> phases and no step is possible.\<close>

theorem barrier_xy_terminates:
  assumes "sync_ok A"
  shows "(\<nexists>f. f 0 = start A n m \<and> (\<forall>i. hw_step A (f i) (f (Suc i)))) \<and>
    (\<exists>s. reachable A (start A n m) s \<and> (\<forall>s'. \<not> hw_step A s s') \<and> finished A s)"
proof
  show "\<nexists>f. f 0 = start A n m \<and> (\<forall>i. hw_step A (f i) (f (Suc i)))"
    using wf_run_order [of A] step_order unfolding wf_iff_no_infinite_down_chain by blast
  obtain s where s: "reachable A (start A n m) s" "\<And>s'. \<not> hw_step A s s'"
    using run_to_end [OF reachable.start, of A "start A n m"] by blast
  obtain g R where "bar_inv A n g R s" using reachable_inv [OF assms s(1)] by blast
  then have "finished A s" using not_stuck [OF assms _ s(2)] by blast
  then show "\<exists>s. reachable A (start A n m) s \<and> (\<forall>s'. \<not> hw_step A s s') \<and> finished A s"
    using s by blast
qed

theorem barrier_xy_terminates_witness:
  "\<exists>s. reachable arch_default (start arch_default 2 (\<lambda>_. 0)) s \<and> finished arch_default s"
  using barrier_xy_terminates [OF sync_ok_default] by blast

end
