(* ===== verification/Flex_Group_Barrier.thy ===== *)
theory Flex_Group_Barrier
  imports Flex_Hw
begin

text \<open>
  The group barriers of \<open>flex_group_barrier.h\<close>: the mesh is cut into grids of
  \<open>grid_x_dim * grid_y_dim\<close> clusters (smaller at the far edges), every grid has its own two
  counters, and its last cluster wakes the clusters selected by a pair of masks.  The theorems
  show that the masks select exactly the clusters of the grid, that the counts are the numbers
  of clusters, and that the counters of different grids and rows are different words.
\<close>

record GridSyncGroupInfo =
  valid_grid :: u32
  grid_x_dim :: u32
  grid_y_dim :: u32
  grid_x_num :: u32
  grid_y_num :: u32
  this_grid_id :: u32
  this_grid_id_x :: u32
  this_grid_id_y :: u32
  this_grid_left_most :: u32
  this_grid_right_most :: u32
  this_grid_top_most :: u32
  this_grid_bottom_most :: u32
  this_grid_cluster_num :: u32
  this_grid_cluster_num_x :: u32
  this_grid_cluster_num_y :: u32
  wakeup_row_mask :: u8
  wakeup_col_mask :: u8
  sync_x_cluster :: u32
  sync_y_cluster :: u32
  sync_x_point :: u32
  sync_x_piter :: u32
  sync_y_point :: u32
  sync_y_piter :: u32

text \<open>The fields of a valid grid for the cluster at \<open>pos\<close>; assignments in the order of the code.\<close>

definition grid_info :: "arch \<Rightarrow> u32 \<Rightarrow> u32 \<Rightarrow> FlexPosition \<Rightarrow> GridSyncGroupInfo" where
  "grid_info A gx gy pos =
     (let x_num = (ARCH_NUM_CLUSTER_X A + gx - 1) div gx;
          y_num = (ARCH_NUM_CLUSTER_Y A + gy - 1) div gy;
          id_x = pos_x pos div gx;
          id_y = pos_y pos div gy;
          left = id_x * gx;
          right = (id_x + 1) * gx - 1;
          right = (if right \<ge> ARCH_NUM_CLUSTER_X A then ARCH_NUM_CLUSTER_X A - 1 else right);
          bottom = id_y * gy;
          top = (id_y + 1) * gy - 1;
          top = (if top \<ge> ARCH_NUM_CLUSTER_Y A then ARCH_NUM_CLUSTER_Y A - 1 else top);
          num_x = right + 1 - left;
          num_y = top + 1 - bottom;
          sync_x = (left + right) div 2;
          sync_y = (bottom + top) div 2;
          slot = (\<lambda>x y. ARCH_SYNC_BASE A + cluster_index A x y * ARCH_SYNC_SIZE A)
      in \<lparr>valid_grid = 1, grid_x_dim = gx, grid_y_dim = gy, grid_x_num = x_num, grid_y_num = y_num,
          this_grid_id = x_num * id_y + id_x, this_grid_id_x = id_x, this_grid_id_y = id_y,
          this_grid_left_most = left, this_grid_right_most = right,
          this_grid_top_most = top, this_grid_bottom_most = bottom,
          this_grid_cluster_num = num_x * num_y,
          this_grid_cluster_num_x = num_x, this_grid_cluster_num_y = num_y,
          wakeup_row_mask = ucast (NOT (gx - 1)), wakeup_col_mask = ucast (NOT (gy - 1)),
          sync_x_cluster = sync_x, sync_y_cluster = sync_y,
          sync_x_point = slot sync_x (pos_y pos) + 24, sync_x_piter = slot sync_x (pos_y pos) + 28,
          sync_y_point = slot sync_x sync_y + 32, sync_y_piter = slot sync_x sync_y + 36\<rparr>)"

text \<open>\<open>info0\<close> is the uninitialised local variable the function fills in.\<close>

definition grid_sync_group_init ::
    "arch \<Rightarrow> GridSyncGroupInfo \<Rightarrow> u32 \<Rightarrow> u32 \<Rightarrow> (GridSyncGroupInfo \<Rightarrow> io) \<Rightarrow> io" where
  "grid_sync_group_init A info0 gx gy k =
     (let invalid = info0\<lparr>valid_grid := 0, grid_x_dim := gx, grid_y_dim := gy\<rparr> in
      if gx = 0 \<or> gy = 0 then k invalid
      else if \<not> (is_power_of_two gx \<and> is_power_of_two gy) then k invalid
      else
        flex_get_cluster_id A (\<lambda>cid.
        let info = grid_info A gx gy (get_pos A cid) in
        flex_get_core_id (\<lambda>core.
          if core = 0 then
            flex_get_cluster_id A (\<lambda>cid1.
            flex_get_cluster_id A (\<lambda>cid2.
            Wr (ARCH_SYNC_BASE A + cid1 * ARCH_SYNC_SIZE A + 24) 0
            (Wr (ARCH_SYNC_BASE A + cid2 * ARCH_SYNC_SIZE A + 32) 0 (k info))))
          else k info)))"

definition grid_sync_group_barrier_xy :: "arch \<Rightarrow> GridSyncGroupInfo \<Rightarrow> io \<Rightarrow> io" where
  "grid_sync_group_barrier_xy A info k =
     flex_intra_cluster_sync
     (flex_is_dm_core A (\<lambda>dm.
       if dm then
         flex_annotate_barrier A 0
         (let leave = cluster_wait A (flex_annotate_barrier A 0 (flex_intra_cluster_sync k)) in
          flex_get_enable_value A (\<lambda>e.
          flex_amo_fetch_add A (sync_x_point info) (\<lambda>old.
            if this_grid_cluster_num_x info - e = old then
              flex_reset_barrier A (sync_x_point info)
              (flex_get_enable_value A (\<lambda>e.
               flex_amo_fetch_add A (sync_y_point info) (\<lambda>old.
                 if this_grid_cluster_num_y info - e = old
                 then flex_reset_barrier A (sync_y_point info)
                      (flex_wakeup_clusters A (wakeup_row_mask info) (wakeup_col_mask info) leave)
                 else leave)))
            else leave)))
       else flex_intra_cluster_sync k))"

definition grid_sync_group_barrier_xy_polling :: "arch \<Rightarrow> GridSyncGroupInfo \<Rightarrow> io \<Rightarrow> io" where
  "grid_sync_group_barrier_xy_polling A info k =
     flex_intra_cluster_sync
     (flex_is_dm_core A (\<lambda>dm.
       if dm then
         flex_annotate_barrier A 0
         (let leave = flex_annotate_barrier A 0 (flex_intra_cluster_sync k) in
          Rd (sync_x_piter info) (\<lambda>prev_x.
          Rd (sync_y_piter info) (\<lambda>prev_y.
          flex_get_enable_value A (\<lambda>e.
          flex_amo_fetch_add A (sync_x_point info) (\<lambda>old.
            if this_grid_cluster_num_x info - e = old then
              flex_reset_barrier A (sync_x_point info)
              (flex_get_enable_value A (\<lambda>e.
               flex_amo_fetch_add A (sync_y_point info) (\<lambda>old.
                 (if this_grid_cluster_num_y info - e = old
                  then \<lambda>k. flex_reset_barrier A (sync_y_point info)
                        (flex_amo_fetch_add A (sync_y_piter info) (\<lambda>_. k))
                  else Spin (sync_y_piter info) prev_y)
                 (flex_amo_fetch_add A (sync_x_piter info) (\<lambda>_. leave)))))
            else Spin (sync_x_piter info) prev_x leave)))))
       else flex_intra_cluster_sync k))"
subsection \<open>Powers of two\<close>

lemma nat_power_of_two:
  "and v (v - 1) = 0 \<Longrightarrow> v = 0 \<or> (\<exists>e. v = 2 ^ e)" for v :: nat
proof (induction v rule: less_induct)
  case (less v)
  show ?case
  proof (cases "even v")
    case True
    then obtain k where k: "v = 2 * k" by (elim evenE)
    show ?thesis
    proof (cases "k = 0")
      case False
      then have "(v - 1) div 2 = k - 1" "odd (v - 1)" using k by simp_all
      then have "and v (v - 1) = 2 * and k (k - 1)" using and_rec [of v "v - 1"] k by simp
      then have "and k (k - 1) = 0" using less.prems by simp
      then show ?thesis using less.IH [of k] k False by (auto intro: exI [of _ "Suc _"])
    qed (use k in simp)
  next
    case False
    then obtain k where k: "v = 2 * k + 1" by (elim oddE)
    then have "and v (v - 1) = 2 * k" using and_rec [of v "v - 1"] by simp
    then have "v = 2 ^ 0" using less.prems k by simp
    then show ?thesis by blast
  qed
qed

lemma power_of_two_char:
  assumes "is_power_of_two v" and "v \<noteq> 0"
  obtains e where "e < 32" and "unat v = 2 ^ e"
proof -
  have v: "0 < unat v" using assms(2) by (simp add: unat_gt_0)
  have "unat (v AND (v - 1)) = 0" using assms(1) by (simp add: is_power_of_two_def)
  then have "and (unat v) (unat v - 1) = 0"
    using v unat_sub32 [of 1 v] by (simp add: unsigned_and_eq)
  then obtain e where e: "unat v = 2 ^ e" using nat_power_of_two [of "unat v"] v by auto
  have "2 ^ e < (2 :: nat) ^ 32" using e unat_lt32 [of v] by simp
  then have "e < 32" by (metis nat_power_less_imp_less zero_less_numeral)
  then show thesis using e by (rule that)
qed

text \<open>The masks: two coordinates below 256 agree above the low \<open>e\<close> bits when they lie in the same
  grid.\<close>

lemma nat_bit_less_8:
  fixes a :: nat
  assumes "a < 256" and "bit a i"
  shows "i < 8"
proof -
  have "take_bit 8 a = a" using assms(1) by (intro take_bit_nat_eq_self) simp
  then show ?thesis using assms(2) by (metis bit_take_bit_iff)
qed

lemma mask_agree:
  fixes a b :: nat and v :: u32
  assumes "unat v = 2 ^ e" and "a < 256" and "b < 256"
  shows "(of_nat a AND (ucast (ucast (NOT (v - 1)) :: u8) :: u32)) = (of_nat b AND ucast (ucast (NOT (v - 1)) :: u8))
    \<longleftrightarrow> a div 2 ^ e = b div 2 ^ e"
proof -
  have "v = of_nat (2 ^ e)" by (simp only: assms(1) [symmetric]) simp
  then have "v = 2 ^ e" by simp
  then have m: "v - 1 = mask e" by (simp add: mask_eq_exp_minus_1)
  have ba: "\<And>i. bit a i \<Longrightarrow> i < 8" "\<And>i. bit b i \<Longrightarrow> i < 8"
    using nat_bit_less_8 assms(2,3) by blast+
  have "(of_nat a AND (ucast (ucast (NOT (v - 1)) :: u8) :: u32)) = (of_nat b AND ucast (ucast (NOT (v - 1)) :: u8))
      \<longleftrightarrow> (\<forall>i. e \<le> i \<longrightarrow> bit a i = bit b i)"
  proof
    assume eq: "(of_nat a AND (ucast (ucast (NOT (v - 1)) :: u8) :: u32)) = (of_nat b AND ucast (ucast (NOT (v - 1)) :: u8))"
    have "bit a i = bit b i" if "i < 8" "e \<le> i" for i
      using arg_cong [OF eq, of "\<lambda>w. bit w i"] that by (simp add: m bit_simps)
    then show "\<forall>i. e \<le> i \<longrightarrow> bit a i = bit b i" using ba by blast
  qed (auto simp: m bit_eq_iff bit_simps)
  also have "\<dots> \<longleftrightarrow> drop_bit e a = drop_bit e b"
  proof
    assume "\<forall>i. e \<le> i \<longrightarrow> bit a i = bit b i"
    then show "drop_bit e a = drop_bit e b" by (intro bit_eqI) (simp add: bit_drop_bit_eq)
  next
    assume eq: "drop_bit e a = drop_bit e b"
    have "bit a i = bit b i" if "e \<le> i" for i
      using arg_cong [OF eq, of "\<lambda>w. bit w (i - e)"] that by (simp add: bit_drop_bit_eq)
    then show "\<forall>i. e \<le> i \<longrightarrow> bit a i = bit b i" by blast
  qed
  finally show ?thesis by (simp add: drop_bit_eq_div)
qed

subsection \<open>The grid of a cluster\<close>

text \<open>One dimension: the coordinates of the grid of \<open>x\<close> on a side of \<open>n\<close> clusters.\<close>

lemma grid_interval:
  fixes x n g :: nat
  assumes "x < n" and "0 < g"
  shows "{z. z < n \<and> z div g = x div g} = {x div g * g ..< min ((x div g + 1) * g) n}"
    and "x div g * g \<le> x" and "x < min ((x div g + 1) * g) n"
proof -
  show lo: "x div g * g \<le> x" by simp
  have "x < (x div g + 1) * g" using dividend_less_div_times [OF assms(2), of x] by (simp add: algebra_simps)
  then show "x < min ((x div g + 1) * g) n" using assms(1) by simp
  define q where "q = x div g"
  have "z div g = q \<longleftrightarrow> q * g \<le> z \<and> z < (q + 1) * g" for z
  proof
    assume "z div g = q"
    then show "q * g \<le> z \<and> z < (q + 1) * g"
      using dividend_less_div_times [OF assms(2), of z] div_times_less_eq_dividend [of z g]
      by (simp add: algebra_simps)
  next
    assume "q * g \<le> z \<and> z < (q + 1) * g"
    then show "z div g = q" by (intro div_nat_eqI) (simp_all add: algebra_simps)
  qed
  then show "{z. z < n \<and> z div g = x div g} = {x div g * g ..< min ((x div g + 1) * g) n}"
    unfolding q_def [symmetric]
    by (intro set_eqI) (simp only: mem_Collect_eq atLeastLessThan_iff min_less_iff_conj, blast)
qed

lemma grid_words:
  fixes x n g :: u32
  assumes x: "x < n" and n: "unat n < 65536" and g: "0 < unat g" "unat g \<le> 2147483648"
  defines "left \<equiv> x div g * g" and "right0 \<equiv> (x div g + 1) * g - 1"
  defines "right \<equiv> if right0 \<ge> n then n - 1 else right0"
  shows "unat left = unat x div unat g * unat g"
    and "unat right + 1 = min ((unat x div unat g + 1) * unat g) (unat n)"
    and "unat (right + 1 - left) = card {z. z < unat n \<and> z div unat g = unat x div unat g}"
    and "unat ((left + right) div 2) =
      (unat x div unat g * unat g + (min ((unat x div unat g + 1) * unat g) (unat n) - 1)) div 2"
    and "unat left \<le> unat ((left + right) div 2)" and "unat ((left + right) div 2) \<le> unat right"
proof -
  have xn: "unat x < unat n" using x by (simp add: word_less_nat_alt)
  note i = grid_interval [OF xn g(1)]
  have d: "unat (x div g) = unat x div unat g" by (rule unat_div_distrib)
  have up: "(unat x div unat g + 1) * unat g \<le> unat x + unat g"
    using i(2) by simp
  then have b: "(unat x div unat g + 1) * unat g < 4294967296" using xn n g(2) by linarith
  show l: "unat left = unat x div unat g * unat g"
    using b d unfolding left_def by (subst unat_mult32) (simp_all add: algebra_simps)
  have "unat x div unat g < 4294967295" using xn n div_le_dividend [of "unat x" "unat g"] by linarith
  then have "unat (x div g + 1) = unat x div unat g + 1" using d by (subst unat_add32) simp_all
  then have "unat ((x div g + 1) * g) = (unat x div unat g + 1) * unat g"
    using b by (subst unat_mult32) simp_all
  moreover have pos: "0 < (unat x div unat g + 1) * unat g" using g(1) by simp
  ultimately have w: "0 < unat ((x div g + 1) * g)"
    and w1: "unat ((x div g + 1) * g) = (unat x div unat g + 1) * unat g" by linarith+
  have "unat right0 = unat ((x div g + 1) * g) - 1"
    using unat_sub32 [of 1 "(x div g + 1) * g"] w unfolding right0_def unat_1 by linarith
  then have r0: "unat right0 + 1 = (unat x div unat g + 1) * unat g" using w w1 by linarith
  have n1: "unat (n - 1) = unat n - 1" using xn by (subst unat_sub32) simp_all
  show r: "unat right + 1 = min ((unat x div unat g + 1) * unat g) (unat n)"
    using r0 n1 xn by (auto simp: right_def word_le_nat_alt)
  then have lr: "unat left \<le> unat right" "unat right < unat n" using i(2,3) l by linarith+
  have r1: "unat (right + 1) = unat right + 1" using lr(2) n by (subst unat_add32) simp_all
  then have "unat (right + 1 - left) = unat right + 1 - unat left"
    using lr by (subst unat_sub32) simp_all
  then show "unat (right + 1 - left) = card {z. z < unat n \<and> z div unat g = unat x div unat g}"
    using i(1) l r by simp
  have h: "unat ((left + right) div 2) = (unat left + unat right) div 2"
    using lr n by (simp add: unat_div_distrib unat_add32)
  have "unat right = min ((unat x div unat g + 1) * unat g) (unat n) - 1" using r by linarith
  then show "unat ((left + right) div 2) =
      (unat x div unat g * unat g + (min ((unat x div unat g + 1) * unat g) (unat n) - 1)) div 2"
    unfolding h l by (rule arg_cong)
  show "unat left \<le> unat ((left + right) div 2)" "unat ((left + right) div 2) \<le> unat right"
    using lr h by linarith+
qed

text \<open>What a mesh must fulfil for the masks (8 bits per coordinate) and for the counters.\<close>

definition group_ok :: "arch \<Rightarrow> bool" where
  "group_ok A =
     (arch_ok A \<and> num_x A \<le> 256 \<and> num_y A \<le> 256 \<and> 40 \<le> unat (ARCH_SYNC_SIZE A) \<and>
      unat (ARCH_SYNC_BASE A) + num_x A * num_y A * unat (ARCH_SYNC_SIZE A) \<le> 4294967296)"

definition cluster_pos :: "arch \<Rightarrow> nat \<Rightarrow> FlexPosition" where
  "cluster_pos A c = get_pos A (of_nat c)"

definition valid_dim :: "u32 \<Rightarrow> bool" where
  "valid_dim g = (g \<noteq> 0 \<and> is_power_of_two g)"

text \<open>The number of the grid column and row of a cluster.\<close>

definition grid_col :: "arch \<Rightarrow> u32 \<Rightarrow> nat \<Rightarrow> nat" where
  "grid_col A gx c = c mod num_x A div unat gx"

definition grid_row :: "arch \<Rightarrow> u32 \<Rightarrow> nat \<Rightarrow> nat" where
  "grid_row A gy c = c div num_x A div unat gy"

lemma group_ok_default: "group_ok arch_default"
  by (simp add: group_ok_def arch_default_ok num_x_def num_y_def ARCH_SYNC_SIZE_def)

lemma cluster_pos_nat:
  assumes "arch_ok A" and "c < num_x A * num_y A"
  shows "unat (pos_x (cluster_pos A c)) = c mod num_x A" and "unat (pos_y (cluster_pos A c)) = c div num_x A"
    and "pos_x (cluster_pos A c) < ARCH_NUM_CLUSTER_X A" and "pos_y (cluster_pos A c) < ARCH_NUM_CLUSTER_Y A"
proof -
  have "c < 4294967296" using assms(2) mesh_area [OF assms(1)] unfolding num_x_def num_y_def by linarith
  then have c: "unat (of_nat c :: u32) = c" by (rule unat_of_nat32)
  show x: "unat (pos_x (cluster_pos A c)) = c mod num_x A" and y: "unat (pos_y (cluster_pos A c)) = c div num_x A"
    by (simp_all only: cluster_pos_def get_pos_def FlexPosition.select_convs unat_mod_distrib
        unat_div_distrib c num_x_def)
  have "0 < num_x A" using assms(2) by (cases "num_x A") simp_all
  then show "pos_x (cluster_pos A c) < ARCH_NUM_CLUSTER_X A" by (simp add: word_less_nat_alt x num_x_def)
  show "pos_y (cluster_pos A c) < ARCH_NUM_CLUSTER_Y A"
    using assms(2) by (simp add: word_less_nat_alt y num_y_def less_mult_imp_div_less mult.commute)
qed

lemma valid_dimD:
  assumes "valid_dim g"
  obtains e where "e < 32" and "unat g = 2 ^ e" and "0 < unat g" and "unat g \<le> 2147483648"
proof -
  obtain e where e: "e < 32" "unat g = 2 ^ e"
    using assms power_of_two_char [of g] by (auto simp: valid_dim_def)
  have "(2 :: nat) ^ e \<le> 2 ^ 31" using e(1) by (intro power_increasing) simp_all
  then show thesis using that e by simp
qed

subsection \<open>The counters of a grid\<close>

text \<open>The coordinate that owns the counters of grid number \<open>q\<close> on a side of \<open>n\<close> clusters.\<close>

definition grid_mid :: "nat \<Rightarrow> nat \<Rightarrow> nat \<Rightarrow> nat" where
  "grid_mid g n q = (q * g + (min ((q + 1) * g) n - 1)) div 2"

lemma grid_mid_less:
  assumes "x < n" and "0 < g"
  shows "grid_mid g n (x div g) < n" and "grid_mid g n (x div g) div g = x div g"
proof -
  note i = grid_interval [OF assms]
  define q where "q = x div g"
  have "q * g \<le> grid_mid g n q" "grid_mid g n q < min ((q + 1) * g) n"
    using i(2,3) unfolding grid_mid_def q_def [symmetric] by linarith+
  then have "grid_mid g n q \<in> {z. z < n \<and> z div g = x div g}" using i(1) by (simp add: q_def)
  then show "grid_mid g n (x div g) < n" "grid_mid g n (x div g) div g = x div g"
    by (simp_all add: q_def)
qed

lemma grid_mid_eq:
  assumes "x < n" and "x' < n" and "0 < g"
  shows "grid_mid g n (x div g) = grid_mid g n (x' div g) \<longleftrightarrow> x div g = x' div g"
  using grid_mid_less(2) [OF assms(1,3)] grid_mid_less(2) [OF assms(2,3)] by metis

lemma group_sync_slot:
  assumes "group_ok A" and "x < ARCH_NUM_CLUSTER_X A" and "y < ARCH_NUM_CLUSTER_Y A" and "unat off < 40"
  shows "unat (ARCH_SYNC_BASE A + cluster_index A x y * ARCH_SYNC_SIZE A + off) =
    unat (ARCH_SYNC_BASE A) + (unat y * num_x A + unat x) * unat (ARCH_SYNC_SIZE A) + unat off"
proof -
  have ok: "arch_ok A" using assms(1) by (simp add: group_ok_def)
  note u = unat_cluster_index [OF ok assms(2,3)]
  let ?S = "unat (ARCH_SYNC_SIZE A)" and ?i = "unat (cluster_index A x y)"
  have "(?i + 1) * ?S \<le> num_x A * num_y A * ?S"
    using u(2) unfolding num_x_def num_y_def by (intro mult_right_mono) linarith+
  then have b: "unat (ARCH_SYNC_BASE A) + ?i * ?S + ?S \<le> 4294967296" "40 \<le> ?S"
    using assms(1) by (simp_all add: group_ok_def)
  then have m: "unat (cluster_index A x y * ARCH_SYNC_SIZE A) = ?i * ?S"
    using assms(4) by (subst unat_mult32) simp_all
  have a: "unat (ARCH_SYNC_BASE A + cluster_index A x y * ARCH_SYNC_SIZE A) = unat (ARCH_SYNC_BASE A) + ?i * ?S"
    using b assms(4) m by (subst unat_add32) simp_all
  then have "unat (ARCH_SYNC_BASE A + cluster_index A x y * ARCH_SYNC_SIZE A + off) =
      unat (ARCH_SYNC_BASE A) + ?i * ?S + unat off"
    using b assms(4) by (subst unat_add32) linarith+
  then show ?thesis using u(1) by (simp add: num_x_def)
qed

text \<open>Two slot addresses with offsets below the slot size are equal only in the same slot.\<close>

lemma slot_eq:
  fixes i j S a b :: nat
  assumes "a < S" and "b < S"
  shows "i * S + a = j * S + b \<longleftrightarrow> i = j \<and> a = b"
proof
  assume e: "i * S + a = j * S + b"
  have "(i * S + a) div S = i" "(j * S + b) div S = j" using assms by simp_all
  then have "i = j" using e by simp
  then show "i = j \<and> a = b" using e by simp
qed simp

lemma group_slots:
  assumes "group_ok A" and "valid_dim gx" and "valid_dim gy" and "c < num_x A * num_y A"
  defines "info \<equiv> grid_info A gx gy (cluster_pos A c)"
    and "mx \<equiv> grid_mid (unat gx) (num_x A) (grid_col A gx c)"
    and "my \<equiv> grid_mid (unat gy) (num_y A) (grid_row A gy c)"
  shows "unat (sync_x_point info) =
      unat (ARCH_SYNC_BASE A) + (c div num_x A * num_x A + mx) * unat (ARCH_SYNC_SIZE A) + 24"
    and "unat (sync_y_point info) =
      unat (ARCH_SYNC_BASE A) + (my * num_x A + mx) * unat (ARCH_SYNC_SIZE A) + 32"
    and "unat (this_grid_cluster_num_x info) =
      card {z. z < num_x A \<and> z div unat gx = grid_col A gx c}"
    and "unat (this_grid_cluster_num_y info) =
      card {z. z < num_y A \<and> z div unat gy = grid_row A gy c}"
proof -
  have ok: "arch_ok A" using assms(1) by (simp add: group_ok_def)
  note p = cluster_pos_nat [OF ok assms(4)]
  have X: "unat (ARCH_NUM_CLUSTER_X A) < 65536" "unat (ARCH_NUM_CLUSTER_Y A) < 65536"
    using ok by (simp_all add: arch_ok_def)
  obtain g1: "0 < unat gx" "unat gx \<le> 2147483648" by (rule valid_dimD [OF assms(2)])
  obtain g2: "0 < unat gy" "unat gy \<le> 2147483648" by (rule valid_dimD [OF assms(3)])
  note wx = grid_words [OF p(3) X(1) g1] and wy = grid_words [OF p(4) X(2) g2]
  have cm: "c mod num_x A < num_x A" "c div num_x A < num_y A"
    using p by (simp_all add: word_less_nat_alt num_x_def num_y_def)
  have sx: "unat (sync_x_cluster info) = mx" and sy: "unat (sync_y_cluster info) = my"
    using wx(4) wy(4) p(1,2)
    by (simp_all add: info_def grid_info_def Let_def mx_def my_def grid_mid_def grid_col_def grid_row_def
        num_x_def num_y_def)
  have lx: "sync_x_cluster info < ARCH_NUM_CLUSTER_X A" and ly: "sync_y_cluster info < ARCH_NUM_CLUSTER_Y A"
    using sx sy grid_mid_less(1) [OF cm(1) g1(1)] grid_mid_less(1) [OF cm(2) g2(1)]
    by (simp_all add: word_less_nat_alt mx_def my_def grid_col_def grid_row_def num_x_def num_y_def)
  have f: "sync_x_point info = ARCH_SYNC_BASE A
      + cluster_index A (sync_x_cluster info) (pos_y (cluster_pos A c)) * ARCH_SYNC_SIZE A + 24"
    "sync_y_point info = ARCH_SYNC_BASE A
      + cluster_index A (sync_x_cluster info) (sync_y_cluster info) * ARCH_SYNC_SIZE A + 32"
    by (simp_all add: info_def grid_info_def Let_def)
  show "unat (sync_x_point info) =
      unat (ARCH_SYNC_BASE A) + (c div num_x A * num_x A + mx) * unat (ARCH_SYNC_SIZE A) + 24"
    unfolding f using group_sync_slot [OF assms(1) lx p(4), of 24] sx p(2) by simp
  show "unat (sync_y_point info) =
      unat (ARCH_SYNC_BASE A) + (my * num_x A + mx) * unat (ARCH_SYNC_SIZE A) + 32"
    unfolding f using group_sync_slot [OF assms(1) lx ly, of 32] sx sy by simp
  show "unat (this_grid_cluster_num_x info) = card {z. z < num_x A \<and> z div unat gx = grid_col A gx c}"
    "unat (this_grid_cluster_num_y info) = card {z. z < num_y A \<and> z div unat gy = grid_row A gy c}"
    using wx(3) wy(3) p(1,2)
    by (simp_all add: info_def grid_info_def Let_def grid_col_def grid_row_def num_x_def num_y_def)
qed

subsection \<open>Properties\<close>

text \<open>C23: The wake-up masks of \<open>grid_sync_group_init\<close> select exactly the clusters of the group: a
  broadcast with the masks of cluster \<open>c\<close> reaches cluster \<open>d\<close> if and only if both lie in the same
  column and row of grids, on meshes of at most 256 clusters a side.\<close>

theorem group_masks_select_group:
  assumes "group_ok A" and "valid_dim gx" and "valid_dim gy"
    and "c < num_x A * num_y A" and "d < num_x A * num_y A"
  defines "info \<equiv> grid_info A gx gy (cluster_pos A c)"
  shows "check_target A d c (wakeup_row_mask info) (wakeup_col_mask info) \<longleftrightarrow>
    grid_col A gx d = grid_col A gx c \<and> grid_row A gy d = grid_row A gy c"
proof -
  obtain ex where ex: "unat gx = 2 ^ ex" by (rule valid_dimD [OF assms(2)])
  obtain ey where ey: "unat gy = 2 ^ ey" by (rule valid_dimD [OF assms(3)])
  have X: "0 < num_x A" "num_x A \<le> 256" "num_y A \<le> 256"
    using assms(1,4) by (simp_all add: group_ok_def) (cases "num_x A"; simp)
  have "a mod num_x A < 256" for a using X by (meson less_le_trans mod_less_divisor)
  moreover have "a div num_x A < 256" if "a < num_x A * num_y A" for a
    using that X(3) by (metis less_le_trans less_mult_imp_div_less mult.commute)
  ultimately show ?thesis
    using mask_agree [OF ex, of "c mod num_x A" "d mod num_x A"]
      mask_agree [OF ey, of "c div num_x A" "d div num_x A"] assms(4,5)
    by (auto simp: info_def grid_info_def Let_def check_target_def grid_col_def grid_row_def ex ey)
qed

theorem group_masks_select_group_witness:
  "check_target arch_default 5 4 (wakeup_row_mask (grid_info arch_default 2 2 (cluster_pos arch_default 4)))
    (wakeup_col_mask (grid_info arch_default 2 2 (cluster_pos arch_default 4))) \<longleftrightarrow>
    grid_col arch_default 2 5 = grid_col arch_default 2 4 \<and> grid_row arch_default 2 5 = grid_row arch_default 2 4"
  by (rule group_masks_select_group)
    (simp_all add: group_ok_default valid_dim_def is_power_of_two_def num_x_def num_y_def)

text \<open>C25: The counters of \<open>grid_sync_group_init\<close> serve exactly the clusters they are compared
  with: the row counter is shared by the clusters of one mesh row and one grid column, as many
  as \<open>this_grid_cluster_num_x\<close>; the counter of the second level is shared by the clusters of
  one grid, whose rows are \<open>this_grid_cluster_num_y\<close>; and no row counter is a second level
  counter.\<close>

theorem group_counters_separate:
  assumes "group_ok A" and "valid_dim gx" and "valid_dim gy"
    and "c < num_x A * num_y A" and "d < num_x A * num_y A"
  defines "info \<equiv> \<lambda>c. grid_info A gx gy (cluster_pos A c)"
  shows "(sync_x_point (info c) = sync_x_point (info d) \<longleftrightarrow>
        c div num_x A = d div num_x A \<and> grid_col A gx c = grid_col A gx d)
    \<and> (sync_y_point (info c) = sync_y_point (info d) \<longleftrightarrow>
        grid_row A gy c = grid_row A gy d \<and> grid_col A gx c = grid_col A gx d)
    \<and> sync_x_point (info c) \<noteq> sync_y_point (info d)
    \<and> unat (this_grid_cluster_num_x (info c)) = card {z. z < num_x A \<and> z div unat gx = grid_col A gx c}
    \<and> unat (this_grid_cluster_num_y (info c)) = card {z. z < num_y A \<and> z div unat gy = grid_row A gy c}"
proof -
  note c = group_slots [OF assms(1-4)] and d = group_slots [OF assms(1-3,5)]
  obtain g1: "0 < unat gx" by (rule valid_dimD [OF assms(2)])
  obtain g2: "0 < unat gy" by (rule valid_dimD [OF assms(3)])
  have S: "40 \<le> unat (ARCH_SYNC_SIZE A)" using assms(1) by (simp add: group_ok_def)
  have m: "a mod num_x A < num_x A" "a div num_x A < num_y A" if "a < num_x A * num_y A" for a
    using that by (cases "num_x A", simp_all add: less_mult_imp_div_less mult.commute)
  note mc = m [OF assms(4)] and md = m [OF assms(5)]
  define mx my where "mx = (\<lambda>a. grid_mid (unat gx) (num_x A) (grid_col A gx a))"
    and "my = (\<lambda>a. grid_mid (unat gy) (num_y A) (grid_row A gy a))"
  have mx: "mx c = mx d \<longleftrightarrow> grid_col A gx c = grid_col A gx d" "mx c < num_x A" "mx d < num_x A"
    and my: "my c = my d \<longleftrightarrow> grid_row A gy c = grid_row A gy d"
    using grid_mid_eq [OF mc(1) md(1) g1] grid_mid_eq [OF mc(2) md(2) g2]
      grid_mid_less(1) [OF mc(1) g1] grid_mid_less(1) [OF md(1) g1]
    by (simp_all add: mx_def my_def grid_col_def grid_row_def)
  let ?S = "unat (ARCH_SYNC_SIZE A)"
  have "sync_x_point (info c) = sync_x_point (info d) \<longleftrightarrow>
      (c div num_x A * num_x A + mx c) * ?S + 24 = (d div num_x A * num_x A + mx d) * ?S + 24"
    using c(1) d(1) by (simp add: info_def unat_eq_iff32 mx_def)
  also have "\<dots> \<longleftrightarrow> c div num_x A = d div num_x A \<and> grid_col A gx c = grid_col A gx d"
    using S by (subst slot_eq) (auto simp: mesh_index_eq mx)
  finally have 1: "sync_x_point (info c) = sync_x_point (info d) \<longleftrightarrow>
      c div num_x A = d div num_x A \<and> grid_col A gx c = grid_col A gx d" .
  have "sync_y_point (info c) = sync_y_point (info d) \<longleftrightarrow>
      (my c * num_x A + mx c) * ?S + 32 = (my d * num_x A + mx d) * ?S + 32"
    using c(2) d(2) by (simp add: info_def unat_eq_iff32 mx_def my_def)
  also have "\<dots> \<longleftrightarrow> grid_row A gy c = grid_row A gy d \<and> grid_col A gx c = grid_col A gx d"
    using S by (subst slot_eq) (auto simp: mesh_index_eq mx my)
  finally have 2: "sync_y_point (info c) = sync_y_point (info d) \<longleftrightarrow>
      grid_row A gy c = grid_row A gy d \<and> grid_col A gx c = grid_col A gx d" .
  have 3: "sync_x_point (info c) \<noteq> sync_y_point (info d)"
  proof
    assume "sync_x_point (info c) = sync_y_point (info d)"
    then have "(c div num_x A * num_x A + mx c) * ?S + 24 = (my d * num_x A + mx d) * ?S + 32"
      using c(1) d(2) by (simp add: info_def unat_eq_iff32 mx_def my_def)
    then show False using S by (subst (asm) slot_eq) simp_all
  qed
  from 1 2 3 c(3,4) show ?thesis by (simp only: info_def simp_thms)
qed

theorem group_counters_separate_witness:
  "sync_x_point (grid_info arch_default 2 2 (cluster_pos arch_default 4))
    = sync_x_point (grid_info arch_default 2 2 (cluster_pos arch_default 5))"
proof -
  have "(sync_x_point (grid_info arch_default 2 2 (cluster_pos arch_default 4))
      = sync_x_point (grid_info arch_default 2 2 (cluster_pos arch_default 5))) \<longleftrightarrow>
      4 div num_x arch_default = 5 div num_x arch_default
      \<and> grid_col arch_default 2 4 = grid_col arch_default 2 5"
    using group_counters_separate [of arch_default 2 2 4 5]
    by (simp add: group_ok_default valid_dim_def is_power_of_two_def num_x_def num_y_def)
  then show ?thesis by (simp add: num_x_def grid_col_def)
qed

end
