(* ===== verification/Soc_Daml.thy ===== *)
theory Soc_Daml
  imports Flex_Arch Flex_Alloc_Props
begin

text \<open>
  The HBM-resident allocator metadata of \<open>soc_daml.h\<close>: one L1 arena per core, snapshots of the
  free lists, a free bitmap per core with one bit per 1 KiB slot, the union over the cores of a
  cluster, the intersection over the clusters and its compression into byte ranges.  Arrays are
  functions from \<open>u32\<close> indices, the L1 memory of a cluster is its own heap.  The theorems are in
  \<open>Soc_Daml_Props\<close>.
\<close>

subsection \<open>Configuration and state\<close>

text \<open>What the header takes from the build, from the generated header and from the linker.\<close>

record soc_arch = arch +
  ARCH_CLUSTER_HEAP_BASE :: u32
  ARCH_NUM_NODE_PER_CTRL :: u32
  hbm_heap_start :: u32
  hbm_heap_end :: u32

definition SLOT_SIZE :: u32 where
  "SLOT_SIZE = 0x400"

definition MAX_COMMON_BLOCKS :: u32 where
  "MAX_COMMON_BLOCKS = 128"

definition MAX_FREE_BLOCKS_PER_CORE :: u32 where
  "MAX_FREE_BLOCKS_PER_CORE = 128"

definition NUM_CLUSTERS :: "soc_arch \<Rightarrow> u32" where
  "NUM_CLUSTERS A = ARCH_NUM_CLUSTER_X A * ARCH_NUM_CLUSTER_Y A"

definition L1_HEAP_SIZE_BYTES :: "soc_arch \<Rightarrow> u32" where
  "L1_HEAP_SIZE_BYTES A = ARCH_CLUSTER_HEAP_END A - ARCH_CLUSTER_HEAP_BASE A"

definition L1_SLOT_COUNT :: "soc_arch \<Rightarrow> u32" where
  "L1_SLOT_COUNT A = L1_HEAP_SIZE_BYTES A div SLOT_SIZE"

definition L1_BITMAP_WORDS :: "soc_arch \<Rightarrow> u32" where
  "L1_BITMAP_WORDS A = (L1_SLOT_COUNT A + 31) div 32"

record daml_block_t =
  blk_addr :: u32
  blk_bytes :: u32

record soc_daml =
  g_hbm_l1_allocators :: "u32 \<Rightarrow> u32 \<Rightarrow> alloc_t"
  g_hbm_core_free_count :: "u32 \<Rightarrow> u32 \<Rightarrow> u32"
  g_hbm_core_free :: "u32 \<Rightarrow> u32 \<Rightarrow> u32 \<Rightarrow> daml_block_t"
  g_core_free_bitmap :: "u32 \<Rightarrow> u32 \<Rightarrow> u32 \<Rightarrow> u32"
  g_cluster_free_bitmap :: "u32 \<Rightarrow> u32 \<Rightarrow> u32"
  g_system_common_bitmap :: "u32 \<Rightarrow> u32"
  g_hbm_cluster_common_count :: "u32 \<Rightarrow> u32"
  g_hbm_cluster_common :: "u32 \<Rightarrow> u32 \<Rightarrow> daml_block_t"
  g_hbm_system_common_count :: u32
  g_hbm_system_common :: "u32 \<Rightarrow> daml_block_t"
  g_rt_num_clusters :: u32
  g_rt_cores_per_cluster :: u32
  soc_alloc_hbm :: alloc_t
  tcdm :: "u32 \<Rightarrow> heap"
  hbm :: heap
  soc_log :: "log list"

definition soc_printf :: "string \<Rightarrow> u32 list \<Rightarrow> soc_daml \<Rightarrow> soc_daml" where
  "soc_printf fmt args g = g\<lparr>soc_log := soc_log g @ [Log (fmt @ [CHR 0x0A]) args]\<rparr>"

text \<open>Assignment to an element of an array of two dimensions.\<close>

definition upd2 :: "('a \<Rightarrow> 'b \<Rightarrow> 'c) \<Rightarrow> 'a \<Rightarrow> 'b \<Rightarrow> 'c \<Rightarrow> 'a \<Rightarrow> 'b \<Rightarrow> 'c" where
  "upd2 f a b v = f(a := (f a)(b := v))"

lemma upd2_apply [simp]: "upd2 f a b v a' b' = (if a' = a \<and> b' = b then v else f a' b')"
  by (simp add: upd2_def)

lemma upd2_twice [simp]: "upd2 (upd2 f a b v) a b w = upd2 f a b w"
  by (simp add: upd2_def)

definition soc_daml_set_runtime_dims :: "soc_arch \<Rightarrow> u32 \<Rightarrow> u32 \<Rightarrow> soc_daml \<Rightarrow> soc_daml" where
  "soc_daml_set_runtime_dims A num_clusters cores_per_cluster g =
     g\<lparr>g_rt_num_clusters := (if num_clusters \<le> NUM_CLUSTERS A then num_clusters else NUM_CLUSTERS A),
       g_rt_cores_per_cluster := (if cores_per_cluster \<le> ARCH_NUM_CORE_PER_CLUSTER A
         then cores_per_cluster else ARCH_NUM_CORE_PER_CLUSTER A)\<rparr>"

definition daml_zero_u32 :: "(u32 \<Rightarrow> u32) \<Rightarrow> u32 \<Rightarrow> u32 \<Rightarrow> u32" where
  "daml_zero_u32 p n = fold (\<lambda>i p. p(i := 0)) (u32_range 0 n) p"

text \<open>The bytes zeroed by the code are always an array of 8-byte blocks.\<close>

definition daml_zero_bytes :: "(u32 \<Rightarrow> daml_block_t) \<Rightarrow> u32 \<Rightarrow> u32 \<Rightarrow> daml_block_t" where
  "daml_zero_bytes p n = fold (\<lambda>i p. p(i := \<lparr>blk_addr = 0, blk_bytes = 0\<rparr>)) (u32_range 0 (n div 8)) p"

subsection \<open>Arenas\<close>

definition daml_compute_core_arena :: "soc_arch \<Rightarrow> u32 \<Rightarrow> u32 \<Rightarrow> u32 \<times> u32" where
  "daml_compute_core_arena A rt_cores core_id =
     (let heap_base = ARCH_CLUSTER_HEAP_BASE A;
          heap_end = ARCH_CLUSTER_HEAP_END A;
          heap_size = (if heap_end > heap_base then heap_end - heap_base else 0);
          share = (if rt_cores > 0 then heap_size div rt_cores else 0);
          share = (share div 8) * 8;
          base = heap_base + core_id * share;
          size = (if core_id = rt_cores - 1 then heap_end - base else share);
          size = (size div 8) * 8
      in (base, size))"

definition init_core_metadata :: "soc_arch \<Rightarrow> u32 \<Rightarrow> u32 \<Rightarrow> soc_daml \<Rightarrow> soc_daml" where
  "init_core_metadata A cid k g =
     g\<lparr>g_hbm_core_free_count := upd2 (g_hbm_core_free_count g) cid k 0,
       g_hbm_core_free := upd2 (g_hbm_core_free g) cid k
         (daml_zero_bytes (g_hbm_core_free g cid k) (8 * MAX_FREE_BLOCKS_PER_CORE)),
       g_core_free_bitmap := upd2 (g_core_free_bitmap g) cid k
         (daml_zero_u32 (g_core_free_bitmap g cid k) (L1_BITMAP_WORDS A))\<rparr>"

definition init_core_allocator :: "soc_arch \<Rightarrow> u32 \<Rightarrow> u32 \<Rightarrow> soc_daml \<Rightarrow> soc_daml" where
  "init_core_allocator A cid k g =
     (let (base, size) = daml_compute_core_arena A (g_rt_cores_per_cluster g) k;
          (alloc, s) = flex_cluster_alloc_init base size \<lparr>mheap = tcdm g cid, mlog = soc_log g\<rparr>
      in soc_printf ''    [BOOT] C%u/K%u arena: [0x%08x .. 0x%08x) size=0x%08x''
           [cid, k, base, base + size, size]
           (g\<lparr>g_hbm_l1_allocators := upd2 (g_hbm_l1_allocators g) cid k alloc,
              tcdm := (tcdm g)(cid := mheap s), soc_log := mlog s\<rparr>))"

definition clear_cluster_metadata :: "soc_arch \<Rightarrow> u32 \<Rightarrow> soc_daml \<Rightarrow> soc_daml" where
  "clear_cluster_metadata A cid g =
     (let g = g\<lparr>g_hbm_cluster_common_count := (g_hbm_cluster_common_count g)(cid := 0),
                g_hbm_cluster_common := (g_hbm_cluster_common g)(cid :=
                  daml_zero_bytes (g_hbm_cluster_common g cid) (8 * MAX_COMMON_BLOCKS))\<rparr>;
          g = fold (init_core_metadata A cid) (u32_range 0 (g_rt_cores_per_cluster g)) g
      in g\<lparr>g_cluster_free_bitmap := (g_cluster_free_bitmap g)(cid :=
              daml_zero_u32 (g_cluster_free_bitmap g cid) (L1_BITMAP_WORDS A))\<rparr>)"

definition soc_daml_init_allocators_this_cluster :: "soc_arch \<Rightarrow> u32 \<Rightarrow> soc_daml \<Rightarrow> soc_daml" where
  "soc_daml_init_allocators_this_cluster A cid g =
     (let g = clear_cluster_metadata A cid g
      in fold (init_core_allocator A cid) (u32_range 0 (g_rt_cores_per_cluster g)) g)"

subsection \<open>Snapshot of a free list\<close>

lemma unat_inc_less: "s < (n :: u32) \<Longrightarrow> unat (s + 1) = unat s + 1"
  using unat_lt32 [of n] unat_add32 [of s 1] unfolding word_less_nat_alt unat_1 by linarith

text \<open>The walk \<open>while (curr && (count < MAX_FREE_BLOCKS_PER_CORE))\<close>; the result is the final
  \<open>count\<close> and the state.\<close>

function upload_loop ::
    "soc_arch \<Rightarrow> u32 \<Rightarrow> u32 \<Rightarrow> u32 \<Rightarrow> u32 \<Rightarrow> soc_daml \<Rightarrow> u32 \<times> soc_daml" where
  "upload_loop A cid kid cur count g =
     (if cur \<noteq> 0 \<and> count < MAX_FREE_BLOCKS_PER_CORE then
        if cur < ARCH_CLUSTER_HEAP_BASE A \<or> cur + 8 > ARCH_CLUSTER_HEAP_END A \<or> cur AND (8 - 1) \<noteq> 0
        then (count, soc_printf ''[SNAPSHOT][WARN] C%u/K%u bad ptr=0x%08x (lo=0x%08x hi=0x%08x)''
                [cid, kid, cur, ARCH_CLUSTER_HEAP_BASE A, ARCH_CLUSTER_HEAP_END A] g)
        else upload_loop A cid kid (tcdm g cid (cur + 4)) (count + 1)
               (g\<lparr>g_hbm_core_free := upd2 (g_hbm_core_free g) cid kid
                   ((g_hbm_core_free g cid kid)(count := \<lparr>blk_addr = cur, blk_bytes = tcdm g cid cur\<rparr>))\<rparr>)
      else (count, g))"
  by pat_completeness auto

termination
  by (relation "measure (\<lambda>(A, cid, kid, cur, count, g). 128 - unat count)")
    (auto simp: MAX_FREE_BLOCKS_PER_CORE_def word_less_nat_alt
      unat_inc_less [of _ 128, unfolded word_less_nat_alt, simplified])

declare upload_loop.simps [simp del]

definition soc_daml_upload_free_list :: "soc_arch \<Rightarrow> u32 \<Rightarrow> u32 \<Rightarrow> soc_daml \<Rightarrow> soc_daml" where
  "soc_daml_upload_free_list A cid kid g =
     (let g = soc_printf ''[SNAPSHOT] Enter C%u/K%u'' [cid, kid] g;
          g = g\<lparr>g_hbm_core_free_count := upd2 (g_hbm_core_free_count g) cid kid 0\<rparr>;
          (count, g) = upload_loop A cid kid (first_block (g_hbm_l1_allocators g cid kid)) 0 g;
          g = g\<lparr>g_hbm_core_free_count := upd2 (g_hbm_core_free_count g) cid kid count\<rparr>
      in soc_printf ''[SNAPSHOT] Uploaded C%u/K%u blocks=%u'' [cid, kid, count] g)"

subsection \<open>Bitmaps\<close>

text \<open>\<open>bm[s >> 5] |= 1u << (s & 31u)\<close>\<close>

definition set_slot :: "u32 \<Rightarrow> (u32 \<Rightarrow> u32) \<Rightarrow> u32 \<Rightarrow> u32" where
  "set_slot s bm = bm(drop_bit 5 s := bm (drop_bit 5 s) OR push_bit (unat (s AND 31)) 1)"

text \<open>\<open>(bm[s >> 5] >> (s & 31u)) & 1u\<close> is not zero.\<close>

definition test_slot :: "(u32 \<Rightarrow> u32) \<Rightarrow> u32 \<Rightarrow> bool" where
  "test_slot bm s = (drop_bit (unat (s AND 31)) (bm (drop_bit 5 s)) AND 1 \<noteq> 0)"

definition mark_block :: "soc_arch \<Rightarrow> daml_block_t \<Rightarrow> (u32 \<Rightarrow> u32) \<Rightarrow> u32 \<Rightarrow> u32" where
  "mark_block A b bm =
     (let lo = blk_addr b;
          sz = blk_bytes b;
          heap_base = ARCH_CLUSTER_HEAP_BASE A;
          heap_end = ARCH_CLUSTER_HEAP_END A;
          block_lo = (if lo < heap_base then heap_base else lo);
          block_hi = lo + sz;
          block_hi = (if block_hi > heap_end then heap_end else block_hi)
      in if block_hi \<le> block_lo then bm
         else
           (let first_slot = (block_lo - heap_base) div SLOT_SIZE;
                last_slot_excl = (block_hi - heap_base + (SLOT_SIZE - 1)) div SLOT_SIZE;
                last_slot_excl = (if last_slot_excl > L1_SLOT_COUNT A then L1_SLOT_COUNT A else last_slot_excl)
            in fold set_slot (u32_range first_slot last_slot_excl) bm))"

definition soc_daml_build_core_bitmap :: "soc_arch \<Rightarrow> u32 \<Rightarrow> u32 \<Rightarrow> soc_daml \<Rightarrow> soc_daml" where
  "soc_daml_build_core_bitmap A cid kid g =
     (let bm = daml_zero_u32 (g_core_free_bitmap g cid kid) (L1_BITMAP_WORDS A);
          n = g_hbm_core_free_count g cid kid;
          bm = fold (\<lambda>i. mark_block A (g_hbm_core_free g cid kid i)) (u32_range 0 n) bm
      in g\<lparr>g_core_free_bitmap := upd2 (g_core_free_bitmap g) cid kid bm\<rparr>)"

definition soc_daml_build_cluster_free_bitmap :: "soc_arch \<Rightarrow> u32 \<Rightarrow> soc_daml \<Rightarrow> soc_daml" where
  "soc_daml_build_cluster_free_bitmap A cid g =
     (let bm = daml_zero_u32 (g_cluster_free_bitmap g cid) (L1_BITMAP_WORDS A);
          bm = fold (\<lambda>w bm.
                 let acc = fold (\<lambda>k acc. acc OR g_core_free_bitmap g cid k w)
                             (u32_range 0 (g_rt_cores_per_cluster g)) 0
                 in bm(w := acc)) (u32_range 0 (L1_BITMAP_WORDS A)) bm
      in g\<lparr>g_cluster_free_bitmap := (g_cluster_free_bitmap g)(cid := bm)\<rparr>)"

definition soc_daml_build_system_common_bitmap :: "soc_arch \<Rightarrow> soc_daml \<Rightarrow> soc_daml" where
  "soc_daml_build_system_common_bitmap A g =
     (let ws = u32_range 0 (L1_BITMAP_WORDS A);
          bm = fold (\<lambda>w bm. bm(w := g_cluster_free_bitmap g 0 w)) ws (g_system_common_bitmap g);
          bm = fold (\<lambda>c. fold (\<lambda>w bm. bm(w := bm w AND g_cluster_free_bitmap g c w)) ws)
                 (u32_range 1 (g_rt_num_clusters g)) bm
      in g\<lparr>g_system_common_bitmap := bm\<rparr>)"

subsection \<open>Compression into ranges\<close>

text \<open>The two inner loops: the next slot from \<open>s\<close> on that is set (or clear), or the end.\<close>

function next_slot :: "bool \<Rightarrow> (u32 \<Rightarrow> u32) \<Rightarrow> u32 \<Rightarrow> u32 \<Rightarrow> u32" where
  "next_slot v bm n s =
     (if s < n then (if test_slot bm s = v then s else next_slot v bm n (s + 1)) else s)"
  by pat_completeness auto

termination
  by (relation "measure (\<lambda>(v, bm, n, s). unat n - unat s)")
    (auto simp: unat_inc_less, auto simp: word_less_nat_alt)

declare next_slot.simps [simp del]

lemma next_slot_ge: "unat s \<le> unat (next_slot v bm n s)"
proof (induction v bm n s rule: next_slot.induct)
  case (1 v bm n s)
  then show ?case by (subst next_slot.simps) (force simp: unat_inc_less)
qed

function ranges_loop :: "soc_arch \<Rightarrow> u32 \<Rightarrow> soc_daml \<Rightarrow> soc_daml" where
  "ranges_loop A s g =
     (let n = L1_SLOT_COUNT A; bm = g_system_common_bitmap g in
      if s < n \<and> g_hbm_system_common_count g < MAX_COMMON_BLOCKS then
        let run_start = next_slot True bm n s in
        if run_start \<ge> n then g
        else
          (let e = next_slot False bm n (run_start + 1);
               base = ARCH_CLUSTER_HEAP_BASE A + run_start * SLOT_SIZE;
               size = (e - run_start) * SLOT_SIZE
           in ranges_loop A e
                (g\<lparr>g_hbm_system_common := (g_hbm_system_common g)(g_hbm_system_common_count g :=
                     \<lparr>blk_addr = base, blk_bytes = size\<rparr>),
                   g_hbm_system_common_count := g_hbm_system_common_count g + 1\<rparr>))
      else g)"
  by pat_completeness auto

termination
proof (relation "measure (\<lambda>(A, s, g). unat (L1_SLOT_COUNT A) - unat s)")
  fix A :: soc_arch and s :: u32 and g :: soc_daml and x bm r e base size
  assume x: "x = L1_SLOT_COUNT A" "s < x \<and> g_hbm_system_common_count g < MAX_COMMON_BLOCKS"
    and r: "r = next_slot True bm x s" "\<not> x \<le> r" and e: "e = next_slot False bm x (r + 1)"
  have "r < x" using r(2) by simp
  then have "unat s < unat e" using next_slot_ge [of s True bm x] next_slot_ge [of "r + 1" False bm x]
    r e by (simp add: unat_inc_less)
  moreover have "unat s < unat (L1_SLOT_COUNT A)" using x by (simp add: word_less_nat_alt)
  ultimately show "((A, e, g\<lparr>g_hbm_system_common := (g_hbm_system_common g)(g_hbm_system_common_count g :=
      \<lparr>blk_addr = base, blk_bytes = size\<rparr>), g_hbm_system_common_count := g_hbm_system_common_count g + 1\<rparr>),
      (A, s, g)) \<in> measure (\<lambda>(A, s, g). unat (L1_SLOT_COUNT A) - unat s)" by simp
qed simp

declare ranges_loop.simps [simp del]

definition soc_daml_system_common_bitmap_to_ranges :: "soc_arch \<Rightarrow> soc_daml \<Rightarrow> soc_daml" where
  "soc_daml_system_common_bitmap_to_ranges A g =
     ranges_loop A 0 (g\<lparr>g_hbm_system_common_count := 0\<rparr>)"

definition soc_daml_get_system_common_count :: "soc_daml \<Rightarrow> u32" where
  "soc_daml_get_system_common_count g = g_hbm_system_common_count g"

definition soc_daml_get_system_common :: "soc_daml \<Rightarrow> u32 \<Rightarrow> daml_block_t" where
  "soc_daml_get_system_common g = g_hbm_system_common g"

subsection \<open>The HBM allocator\<close>

definition soc_daml_init_hbm_allocator :: "soc_arch \<Rightarrow> soc_daml \<Rightarrow> soc_daml" where
  "soc_daml_init_hbm_allocator A g =
     (let base = ARCH_HBM_START_BASE A;
          end = base + ARCH_HBM_NODE_ADDR_SPACE A * ARCH_NUM_NODE_PER_CTRL A;
          size = end - base;
          lbase = hbm_heap_start A;
          lend = hbm_heap_end A;
          (base, size) = (if lend > lbase \<and> lbase \<noteq> 0 then (lbase, lend - lbase) else (base, size));
          aligned_base = (base + 8 - 1) AND NOT (8 - 1);
          aligned_size = size - (aligned_base - base);
          aligned_size = (aligned_size div 8) * 8
      in if aligned_size < 8 then
           soc_printf ''[HBM][ERR] No usable HBM heap (base=0x%08x size=0x%08x)'' [base, size] g
         else
           (let (alloc, s) = flex_cluster_alloc_init aligned_base aligned_size
                  \<lparr>mheap = hbm g, mlog = soc_log g\<rparr>
            in soc_printf ''[HBM] Heap: [0x%08x .. 0x%08x) size=0x%08x''
                 [aligned_base, aligned_base + aligned_size, aligned_size]
                 (g\<lparr>soc_alloc_hbm := alloc, hbm := mheap s, soc_log := mlog s\<rparr>)))"

definition soc_daml_hbm_malloc :: "u32 \<Rightarrow> soc_daml \<Rightarrow> (u32 \<times> soc_daml) option" where
  "soc_daml_hbm_malloc size_bytes g =
     (case domain_malloc (soc_alloc_hbm g) size_bytes \<lparr>mheap = hbm g, mlog = soc_log g\<rparr> of
        None \<Rightarrow> None
      | Some (p, a, s) \<Rightarrow> Some (p, g\<lparr>soc_alloc_hbm := a, hbm := mheap s, soc_log := mlog s\<rparr>))"

definition soc_daml_hbm_free :: "u32 \<Rightarrow> soc_daml \<Rightarrow> soc_daml option" where
  "soc_daml_hbm_free ptr g =
     (case domain_free (soc_alloc_hbm g) ptr \<lparr>mheap = hbm g, mlog = soc_log g\<rparr> of
        None \<Rightarrow> None
      | Some (a, s) \<Rightarrow> Some (g\<lparr>soc_alloc_hbm := a, hbm := mheap s, soc_log := mlog s\<rparr>))"

end
