(* ===== verification/Soc_Daml_Props.thy ===== *)
theory Soc_Daml_Props
  imports Soc_Daml
begin

text \<open>
  What the operations of \<open>soc_daml.h\<close> compute: the arenas of the cores are disjoint parts of the
  L1 heap, the snapshot is the free list, a bit of a core bitmap is set when a free block of the
  snapshot touches the slot, the system bitmap is the intersection over the clusters of the
  unions over the cores, and the ranges are its maximal runs of set bits.
\<close>

definition heap_ok :: "soc_arch \<Rightarrow> bool" where
  "heap_ok A =
     (ARCH_CLUSTER_HEAP_BASE A < ARCH_CLUSTER_HEAP_END A \<and>
      unat (ARCH_CLUSTER_HEAP_END A) + 1024 \<le> 4294967296)"

definition slots :: "soc_arch \<Rightarrow> nat" where
  "slots A = (unat (ARCH_CLUSTER_HEAP_END A) - unat (ARCH_CLUSTER_HEAP_BASE A)) div 1024"

text \<open>A sample layout for the witnesses: the default mesh, with the heaps of L1 at 0x8000 (\<open>flex_cluster_arch.py\<close> puts
  them at 0x100), of 992 slots.\<close>

definition soc_default :: soc_arch where
  "soc_default = arch.extend arch_default
     \<lparr>ARCH_CLUSTER_HEAP_BASE = 0x8000, ARCH_NUM_NODE_PER_CTRL = 1,
      hbm_heap_start = 0xc0010000, hbm_heap_end = 0xc0020000\<rparr>"

lemma soc_default_sel [simp]:
  "ARCH_CLUSTER_HEAP_BASE soc_default = 0x8000" "ARCH_CLUSTER_HEAP_END soc_default = 0x100000"
  "ARCH_NUM_CLUSTER_X soc_default = 4" "ARCH_NUM_CLUSTER_Y soc_default = 4"
  "ARCH_NUM_CORE_PER_CLUSTER soc_default = 3"
  by (simp_all add: soc_default_def arch.defs arch_default_def)

lemma soc_default_ok: "heap_ok soc_default"
  by (simp add: heap_ok_def)

subsection \<open>Loops over index ranges\<close>

lemma fold_fun_upd:
  "distinct xs \<Longrightarrow> fold (\<lambda>w f. f(w := h w (f w))) xs f v = (if v \<in> set xs then h v (f v) else f v)"
  by (induction xs arbitrary: f) auto

lemma daml_zero_u32_apply [simp]: "daml_zero_u32 p n w = (if w < n then 0 else p w)"
  using fold_fun_upd [of "u32_range 0 n" "\<lambda>_ _. 0" p w] by (simp add: daml_zero_u32_def)

lemma bit_fold_or:
  "bit (fold (\<lambda>k acc. acc OR f k) ks acc) i \<longleftrightarrow> bit acc i \<or> (\<exists>k\<in>set ks. bit (f k :: u32) i)"
  by (induction ks arbitrary: acc) (auto simp: bit_or_iff)

lemma inc_le: "s < (n :: u32) \<Longrightarrow> s + 1 \<le> n"
  by (simp add: unat_inc_less word_le_nat_alt word_less_nat_alt [symmetric])
    (simp add: word_less_nat_alt)

subsection \<open>Slots\<close>

lemma and31: "s AND 31 = take_bit 5 (s :: u32)"
  by (simp add: take_bit_eq_mask mask_eq_exp_minus_1)

lemma slot_bit_less: "unat (s AND 31 :: u32) < 32"
proof -
  have "unat (s AND 31) = take_bit 5 (unat s)" by (simp add: and31 unsigned_take_bit_eq)
  then show ?thesis using take_bit_nat_less_exp [of 5 "unat s"] by simp
qed

lemma test_slot_iff: "test_slot bm s \<longleftrightarrow> bit (bm (drop_bit 5 s)) (unat (s AND 31))"
  by (simp add: test_slot_def and_one_eq bit_iff_odd_drop_bit odd_iff_mod_2_eq_one)

lemma slot_position: "drop_bit 5 s = drop_bit 5 t \<and> unat (s AND 31) = unat (t AND 31) \<longleftrightarrow> s = (t :: u32)"
proof
  assume "drop_bit 5 s = drop_bit 5 t \<and> unat (s AND 31) = unat (t AND 31)"
  then have "drop_bit 5 s = drop_bit 5 t" "take_bit 5 s = take_bit 5 t"
    by (simp_all add: and31 word_unat_eq_iff)
  then show "s = t" by (metis bits_ident)
qed simp

lemma test_set_slot: "test_slot (set_slot t bm) s \<longleftrightarrow> s = t \<or> test_slot bm s"
proof (cases "drop_bit 5 s = drop_bit 5 t")
  case True
  have "bit (push_bit (unat (t AND 31)) 1 :: u32) (unat (s AND 31)) \<longleftrightarrow> unat (s AND 31) = unat (t AND 31)"
    using slot_bit_less [of s] by (auto simp: bit_simps)
  then show ?thesis using True slot_position [of s t]
    by (simp add: test_slot_iff set_slot_def bit_or_iff del: word_unat_eq_iff) blast
next
  case False
  then show ?thesis by (auto simp: test_slot_iff set_slot_def)
qed

lemma test_set_slots: "test_slot (fold set_slot ts bm) s \<longleftrightarrow> s \<in> set ts \<or> test_slot bm s"
  by (induction ts arbitrary: bm) (auto simp: test_set_slot)

lemma slots_word: "unat (L1_SLOT_COUNT A) = slots A" if "heap_ok A"
proof -
  have "unat (ARCH_CLUSTER_HEAP_BASE A) \<le> unat (ARCH_CLUSTER_HEAP_END A)"
    using that by (simp add: heap_ok_def word_less_nat_alt)
  then show ?thesis
    by (simp add: L1_SLOT_COUNT_def L1_HEAP_SIZE_BYTES_def SLOT_SIZE_def slots_def unat_div_distrib unat_sub32)
qed

lemma slot_word_index:
  assumes "heap_ok A" and "s < L1_SLOT_COUNT A"
  shows "drop_bit 5 s < L1_BITMAP_WORDS A"
proof -
  have "slots A < 4194304" by (simp add: slots_def less_mult_imp_div_less) 
    (use unat_lt32 [of "ARCH_CLUSTER_HEAP_END A"] in linarith)
  then have "unat (L1_BITMAP_WORDS A) = (slots A + 31) div 32"
    by (simp add: L1_BITMAP_WORDS_def unat_div_distrib unat_add32 slots_word [OF assms(1)])
  moreover have "unat s < slots A" using assms by (simp add: word_less_nat_alt slots_word)
  moreover have "unat (drop_bit 5 s) = unat s div 32" by (subst unat_drop_bit_eq) (simp add: drop_bit_eq_div)
  ultimately show ?thesis unfolding word_less_nat_alt by simp
qed

lemma test_slot_zero:
  "heap_ok A \<Longrightarrow> s < L1_SLOT_COUNT A \<Longrightarrow> \<not> test_slot (daml_zero_u32 p (L1_BITMAP_WORDS A)) s"
  by (simp add: test_slot_iff slot_word_index)

subsection \<open>Marking the blocks of a core\<close>

text \<open>Block \<open>b\<close> has a byte in slot \<open>s\<close>.\<close>

definition touches :: "soc_arch \<Rightarrow> daml_block_t \<Rightarrow> nat \<Rightarrow> bool" where
  "touches A b s =
     (unat (blk_addr b) < unat (ARCH_CLUSTER_HEAP_BASE A) + (s + 1) * 1024 \<and>
      unat (ARCH_CLUSTER_HEAP_BASE A) + s * 1024 < unat (blk_addr b) + unat (blk_bytes b))"

text \<open>The blocks the allocators of the heap can hold.\<close>

definition block_in_heap :: "soc_arch \<Rightarrow> daml_block_t \<Rightarrow> bool" where
  "block_in_heap A b =
     (unat (ARCH_CLUSTER_HEAP_BASE A) \<le> unat (blk_addr b) \<and> 0 < unat (blk_bytes b) \<and>
      unat (blk_addr b) + unat (blk_bytes b) \<le> unat (ARCH_CLUSTER_HEAP_END A))"

lemma slot_bounds:
  fixes x base s :: nat
  assumes "base \<le> x"
  shows "(x - base) div 1024 \<le> s \<longleftrightarrow> x < base + (s + 1) * 1024"
    and "s < (x - base + 1023) div 1024 \<longleftrightarrow> base + s * 1024 < x"
proof -
  obtain d where d: "x = base + d" using assms by (metis le_Suc_ex)
  show "(x - base) div 1024 \<le> s \<longleftrightarrow> x < base + (s + 1) * 1024"
    using div_less_iff_less_mult [of 1024 d "s + 1"] by (simp add: d less_Suc_eq_le)
  show "s < (x - base + 1023) div 1024 \<longleftrightarrow> base + s * 1024 < x"
    using less_eq_div_iff_mult_less_eq [of 1024 "s + 1" "d + 1023"] by (simp add: d Suc_le_eq)
qed

lemma mark_block_slots:
  assumes "heap_ok A" and "block_in_heap A b" and "s < L1_SLOT_COUNT A"
  shows "test_slot (mark_block A b bm) s \<longleftrightarrow> test_slot bm s \<or> touches A b (unat s)"
proof -
  let ?B = "unat (ARCH_CLUSTER_HEAP_BASE A)" and ?E = "unat (ARCH_CLUSTER_HEAP_END A)"
  define lo hi where "lo = unat (blk_addr b)" and "hi = unat (blk_addr b) + unat (blk_bytes b)"
  have b: "?B \<le> lo" "lo < hi" "hi \<le> ?E" "?E + 1024 \<le> 4294967296"
    using assms(1,2) by (simp_all add: block_in_heap_def heap_ok_def lo_def hi_def)
  have u: "unat (blk_addr b + blk_bytes b) = hi" using b by (simp add: hi_def unat_add32)
  have f: "unat ((blk_addr b - ARCH_CLUSTER_HEAP_BASE A) div SLOT_SIZE) = (lo - ?B) div 1024"
    using b by (simp add: unat_div_distrib SLOT_SIZE_def unat_sub32 lo_def)
  have "unat (blk_addr b + blk_bytes b - ARCH_CLUSTER_HEAP_BASE A) = hi - ?B"
    using b u by (subst unat_sub32) simp_all
  then have "unat (blk_addr b + blk_bytes b - ARCH_CLUSTER_HEAP_BASE A + (SLOT_SIZE - 1)) = hi - ?B + 1023"
    using b by (subst unat_add32) (simp_all add: SLOT_SIZE_def)
  then have l: "unat ((blk_addr b + blk_bytes b - ARCH_CLUSTER_HEAP_BASE A + (SLOT_SIZE - 1)) div SLOT_SIZE)
      = (hi - ?B + 1023) div 1024"
    by (simp add: unat_div_distrib) (simp add: SLOT_SIZE_def)
  have s: "unat s < unat (L1_SLOT_COUNT A)" using assms(3) by (simp add: word_less_nat_alt)
  have "test_slot (mark_block A b bm) s \<longleftrightarrow>
      (lo - ?B) div 1024 \<le> unat s \<and> unat s < (hi - ?B + 1023) div 1024 \<or> test_slot bm s"
    using b u s f l
    by (auto simp: mark_block_def Let_def test_set_slots word_less_nat_alt word_le_nat_alt lo_def [symmetric])
  also have "(lo - ?B) div 1024 \<le> unat s \<longleftrightarrow> lo < ?B + (unat s + 1) * 1024"
    using b by (intro slot_bounds) simp_all
  also have "unat s < (hi - ?B + 1023) div 1024 \<longleftrightarrow> ?B + unat s * 1024 < hi"
    using b by (intro slot_bounds) simp_all
  finally show ?thesis by (auto simp: touches_def lo_def hi_def)
qed

lemma mark_blocks_slots:
  assumes "heap_ok A" and "\<forall>i\<in>set is. block_in_heap A (f i)" and "s < L1_SLOT_COUNT A"
  shows "test_slot (fold (\<lambda>i. mark_block A (f i)) is bm) s \<longleftrightarrow>
    test_slot bm s \<or> (\<exists>i\<in>set is. touches A (f i) (unat s))"
  using assms(2) by (induction "is" arbitrary: bm) (auto simp: mark_block_slots [OF assms(1) _ assms(3)])

subsection \<open>Unions and intersections\<close>

lemma cluster_bitmap_slots:
  assumes "heap_ok A" and "s < L1_SLOT_COUNT A"
  shows "test_slot (g_cluster_free_bitmap (soc_daml_build_cluster_free_bitmap A cid g) cid) s \<longleftrightarrow>
    (\<exists>k<g_rt_cores_per_cluster g. test_slot (g_core_free_bitmap g cid k) s)"
proof -
  let ?f = "\<lambda>w. fold (\<lambda>k acc. acc OR g_core_free_bitmap g cid k w) (u32_range 0 (g_rt_cores_per_cluster g)) 0"
  have "g_cluster_free_bitmap (soc_daml_build_cluster_free_bitmap A cid g) cid (drop_bit 5 s) = ?f (drop_bit 5 s)"
    using fold_fun_upd [of "u32_range 0 (L1_BITMAP_WORDS A)" "\<lambda>w _. ?f w"] slot_word_index [OF assms]
    by (simp add: soc_daml_build_cluster_free_bitmap_def Let_def)
  then show ?thesis by (auto simp: test_slot_iff bit_fold_or)
qed

lemma cluster_bitmap_frame [simp]:
  "g_core_free_bitmap (soc_daml_build_cluster_free_bitmap A cid g) = g_core_free_bitmap g"
  "g_rt_cores_per_cluster (soc_daml_build_cluster_free_bitmap A cid g) = g_rt_cores_per_cluster g"
  "g_rt_num_clusters (soc_daml_build_cluster_free_bitmap A cid g) = g_rt_num_clusters g"
  "c \<noteq> cid \<Longrightarrow> g_cluster_free_bitmap (soc_daml_build_cluster_free_bitmap A cid g) c = g_cluster_free_bitmap g c"
  by (simp_all add: soc_daml_build_cluster_free_bitmap_def Let_def)

lemma cluster_bitmaps_slots:
  assumes "heap_ok A" and "s < L1_SLOT_COUNT A" and "distinct cs"
    and "g' = fold (soc_daml_build_cluster_free_bitmap A) cs g"
  shows "g_rt_num_clusters g' = g_rt_num_clusters g \<and> g_rt_cores_per_cluster g' = g_rt_cores_per_cluster g
    \<and> g_core_free_bitmap g' = g_core_free_bitmap g
    \<and> (\<forall>c. test_slot (g_cluster_free_bitmap g' c) s \<longleftrightarrow>
        (if c \<in> set cs then \<exists>k<g_rt_cores_per_cluster g. test_slot (g_core_free_bitmap g c k) s
         else test_slot (g_cluster_free_bitmap g c) s))"
  using assms(3) unfolding assms(4)
proof (induction cs arbitrary: g)
  case (Cons c cs)
  show ?case
    using Cons.IH [of "soc_daml_build_cluster_free_bitmap A c g"] Cons.prems
      cluster_bitmap_slots [OF assms(1,2), of c g] by auto
qed simp

lemma bit_fold_and:
  "bit (fold (\<lambda>c acc. acc AND f c) cs acc) i \<longleftrightarrow> bit acc i \<and> (\<forall>c\<in>set cs. bit (f c :: u32) i)"
  by (induction cs arbitrary: acc) (auto simp: bit_and_iff)

lemma fold_and_words:
  "distinct ws \<Longrightarrow> w \<in> set ws \<Longrightarrow>
    fold (\<lambda>c. fold (\<lambda>w bm. bm(w := bm w AND f c w)) ws) cs bm w = fold (\<lambda>c acc. acc AND (f c w :: u32)) cs (bm w)"
  by (induction cs arbitrary: bm) (simp_all add: fold_fun_upd [where h = "\<lambda>w x. x AND f _ w"])

lemma system_bitmap_slots:
  assumes "heap_ok A" and "s < L1_SLOT_COUNT A" and "0 < g_rt_num_clusters g"
  shows "test_slot (g_system_common_bitmap (soc_daml_build_system_common_bitmap A g)) s \<longleftrightarrow>
    (\<forall>c<g_rt_num_clusters g. test_slot (g_cluster_free_bitmap g c) s)"
proof -
  let ?ws = "u32_range 0 (L1_BITMAP_WORDS A)" and ?w = "drop_bit 5 s" and ?n = "g_rt_num_clusters g"
  have w: "?w \<in> set ?ws" using slot_word_index [OF assms(1,2)] by simp
  have all: "(\<forall>c<?n. P c) \<longleftrightarrow> P 0 \<and> (\<forall>c\<in>set (u32_range 1 ?n). P c)" for P
  proof -
    have d: "c = 0 \<or> 1 \<le> c" for c :: u32 by (simp add: word_le_nat_alt unat_gt_0 Suc_le_eq)
    have "c < ?n \<longleftrightarrow> c = 0 \<or> c \<in> set (u32_range 1 ?n)" for c
      using assms(3) d [of c] by (simp only: set_u32_range mem_Collect_eq) blast
    then have "(\<forall>c<?n. P c) \<longleftrightarrow> (\<forall>c. c = 0 \<or> c \<in> set (u32_range 1 ?n) \<longrightarrow> P c)" by presburger
    then show ?thesis by (simp only: imp_disjL all_conj_distrib Ball_def simp_thms)
  qed
  have "g_system_common_bitmap (soc_daml_build_system_common_bitmap A g) ?w =
      fold (\<lambda>c acc. acc AND g_cluster_free_bitmap g c ?w) (u32_range 1 ?n) (g_cluster_free_bitmap g 0 ?w)"
    using w fold_fun_upd [of ?ws "\<lambda>w _. g_cluster_free_bitmap g 0 w" _ ?w]
    by (simp add: soc_daml_build_system_common_bitmap_def Let_def fold_and_words)
  then show ?thesis unfolding all test_slot_iff by (simp only: bit_fold_and)
qed

subsection \<open>Arenas\<close>

definition arena_heap_ok :: "soc_arch \<Rightarrow> bool" where
  "arena_heap_ok A = (heap_ok A \<and> 0 < ARCH_CLUSTER_HEAP_BASE A \<and> 8 dvd unat (ARCH_CLUSTER_HEAP_BASE A))"

text \<open>The base of core \<open>k\<close> of \<open>n\<close> and the size of its arena, as natural numbers.\<close>

definition arena_share :: "soc_arch \<Rightarrow> nat \<Rightarrow> nat" where
  "arena_share A n = (unat (ARCH_CLUSTER_HEAP_END A) - unat (ARCH_CLUSTER_HEAP_BASE A)) div n div 8 * 8"

lemma core_arena:
  assumes "arena_heap_ok A" and "k < n"
  defines "base \<equiv> unat (ARCH_CLUSTER_HEAP_BASE A) + unat k * arena_share A (unat n)"
  shows "unat (fst (daml_compute_core_arena A n k)) = base"
    and "unat (snd (daml_compute_core_arena A n k)) =
      (if Suc (unat k) = unat n then (unat (ARCH_CLUSTER_HEAP_END A) - base) div 8 * 8 else arena_share A (unat n))"
    and "base + arena_share A (unat n) \<le> unat (ARCH_CLUSTER_HEAP_END A)" and "8 dvd base"
proof -
  let ?B = "unat (ARCH_CLUSTER_HEAP_BASE A)" and ?E = "unat (ARCH_CLUSTER_HEAP_END A)"
  have A: "?B < ?E" "?E < 4294967296" "8 dvd ?B"
    using assms(1) by (simp_all add: arena_heap_ok_def heap_ok_def word_less_nat_alt)
  have k: "unat k < unat n" using assms(2) by (simp add: word_less_nat_alt)
  let ?s = "arena_share A (unat n)"
  have "arena_share A (unat n) \<le> (?E - ?B) div unat n" by (simp add: arena_share_def)
  then have "unat n * ?s \<le> unat n * ((?E - ?B) div unat n)" by (rule mult_left_mono) simp
  from this times_div_less_eq_dividend have ns: "unat n * ?s \<le> ?E - ?B" by (rule order_trans)
  have "Suc (unat k) * ?s \<le> unat n * ?s" using k by (intro mult_right_mono) simp_all
  then show le: "base + ?s \<le> ?E" using ns A unfolding base_def by simp
  define h where "h = (if ARCH_CLUSTER_HEAP_END A > ARCH_CLUSTER_HEAP_BASE A
      then ARCH_CLUSTER_HEAP_END A - ARCH_CLUSTER_HEAP_BASE A else 0)"
  have h: "unat h = ?E - ?B" using A by (simp add: h_def word_less_nat_alt unat_sub32)
  define sh where "sh = ((if n > 0 then h div n else 0) div 8) * 8"
  have n: "n > 0" using k by (metis word_less_nat_alt unat_0 less_nat_zero_code not_gr_zero)
  then have "unat ((if n > 0 then h div n else 0) div 8) = (?E - ?B) div unat n div 8"
    by (simp add: unat_div_distrib h)
  moreover have "(?E - ?B) div unat n div 8 * 8 < 4294967296"
    using le A(2) unfolding arena_share_def by linarith
  ultimately have sh: "unat sh = ?s" unfolding sh_def arena_share_def by (subst unat_mult32) simp_all
  have lt: "?B + unat k * ?s < 4294967296" using le A(2) unfolding base_def by linarith
  then have "unat k * ?s < 4294967296" by linarith
  then have "unat (k * sh) = unat k * ?s" using unat_mult32 [of k sh] unfolding sh by simp
  then have b: "unat (ARCH_CLUSTER_HEAP_BASE A + k * sh) = base"
    using unat_add32 [of "ARCH_CLUSTER_HEAP_BASE A" "k * sh"] lt unfolding base_def by simp
  then have sz: "unat (ARCH_CLUSTER_HEAP_END A - (ARCH_CLUSTER_HEAP_BASE A + k * sh)) = ?E - base"
    using le by (subst unat_sub32) simp_all
  have last: "k = n - 1 \<longleftrightarrow> Suc (unat k) = unat n"
    using n k by (auto simp: unat_eq_iff32 unat_sub32 word_less_nat_alt)
  show "unat (fst (daml_compute_core_arena A n k)) = base"
    using b unfolding h_def sh_def by (simp add: daml_compute_core_arena_def Let_def)
  have r: "unat (x div 8 * 8) = unat x div 8 * 8" for x :: u32
  proof -
    have "unat x div 8 * 8 < 4294967296"
      using unat_lt32 [of x] div_times_less_eq_dividend [of "unat x" 8] by linarith
    then show ?thesis using unat_mult32 [of "x div 8" 8] by (simp add: unat_div_distrib)
  qed
  show "unat (snd (daml_compute_core_arena A n k)) =
      (if Suc (unat k) = unat n then (?E - base) div 8 * 8 else ?s)"
    using sz sh last unfolding h_def sh_def
    by (auto simp: daml_compute_core_arena_def Let_def r) (simp add: arena_share_def)
  show "8 dvd base" using A(3) by (simp add: base_def arena_share_def)
qed

subsection \<open>Runs of set slots\<close>

text \<open>A maximal run \<open>[a, b)\<close> of a predicate on the slots below \<open>n\<close>.\<close>

definition maximal_run :: "(nat \<Rightarrow> bool) \<Rightarrow> nat \<Rightarrow> nat \<times> nat \<Rightarrow> bool" where
  "maximal_run P n r =
     (fst r < snd r \<and> snd r \<le> n \<and> (\<forall>x. fst r \<le> x \<and> x < snd r \<longrightarrow> P x) \<and>
      (snd r < n \<longrightarrow> \<not> P (snd r)) \<and> (0 < fst r \<longrightarrow> \<not> P (fst r - 1)))"

definition runs_cover :: "(nat \<Rightarrow> bool) \<Rightarrow> nat \<Rightarrow> (nat \<times> nat) list \<Rightarrow> bool" where
  "runs_cover P m rs = (\<forall>x<m. P x \<longleftrightarrow> (\<exists>r\<in>set rs. fst r \<le> x \<and> x < snd r))"

text \<open>Entry \<open>i\<close> of the table is the byte range of run \<open>i\<close>.\<close>

definition range_of :: "soc_arch \<Rightarrow> nat \<times> nat \<Rightarrow> daml_block_t \<Rightarrow> bool" where
  "range_of A r b =
     (unat (blk_addr b) = unat (ARCH_CLUSTER_HEAP_BASE A) + fst r * 1024 \<and>
      unat (blk_bytes b) = (snd r - fst r) * 1024)"

abbreviation slot_set :: "(u32 \<Rightarrow> u32) \<Rightarrow> nat \<Rightarrow> bool" where
  "slot_set bm x \<equiv> test_slot bm (of_nat x)"

lemma next_slot_spec:
  "s \<le> n \<Longrightarrow> unat (next_slot v bm n s) \<le> unat n
    \<and> (\<forall>x. unat s \<le> x \<and> x < unat (next_slot v bm n s) \<longrightarrow> slot_set bm x \<noteq> v)
    \<and> (next_slot v bm n s < n \<longrightarrow> test_slot bm (next_slot v bm n s) = v)"
proof (induction v bm n s rule: next_slot.induct)
  case (1 v bm n s)
  show ?case
  proof (cases "s < n \<and> test_slot bm s \<noteq> v")
    case True
    have e: "next_slot v bm n s = next_slot v bm n (s + 1)" using True by (subst next_slot.simps) simp
    have IH: "unat (next_slot v bm n (s + 1)) \<le> unat n"
      "\<forall>x. unat s + 1 \<le> x \<and> x < unat (next_slot v bm n (s + 1)) \<longrightarrow> slot_set bm x \<noteq> v"
      "next_slot v bm n (s + 1) < n \<longrightarrow> test_slot bm (next_slot v bm n (s + 1)) = v"
      using "1.IH" True inc_le [of s n] unat_inc_less [of s n] by simp_all
    have "slot_set bm x \<noteq> v" if "unat s \<le> x" "x < unat (next_slot v bm n (s + 1))" for x
    proof (cases "x = unat s")
      case False
      then show ?thesis using IH(2) that by simp
    qed (use True in simp)
    then show ?thesis using e IH(1,3) by simp
  next
    case False
    then have "next_slot v bm n s = s" by (subst next_slot.simps) auto
    then show ?thesis using False 1(2) by (auto simp: word_le_nat_alt)
  qed
qed

lemma runs_cover_snoc:
  assumes "runs_cover P m rs" and "m \<le> a" and "\<forall>r\<in>set rs. snd r \<le> m"
    and "\<forall>x. m \<le> x \<and> x < a \<longrightarrow> \<not> P x" and "\<forall>x. a \<le> x \<and> x < b \<longrightarrow> P x"
  shows "runs_cover P b (rs @ [(a, b)])"
  unfolding runs_cover_def
proof (intro allI impI)
  fix x
  assume "x < b"
  consider "x < m" | "m \<le> x" "x < a" | "a \<le> x" by linarith
  then show "P x \<longleftrightarrow> (\<exists>r\<in>set (rs @ [(a, b)]). fst r \<le> x \<and> x < snd r)"
    using assms \<open>x < b\<close> by cases (fastforce simp: runs_cover_def)+
qed

text \<open>The state of the outer loop at slot \<open>s\<close>: the table holds the runs below \<open>s\<close>.\<close>

definition runs_inv :: "soc_arch \<Rightarrow> (u32 \<Rightarrow> u32) \<Rightarrow> u32 \<Rightarrow> (nat \<times> nat) list \<Rightarrow> soc_daml \<Rightarrow> bool" where
  "runs_inv A bm s rs g =
     (g_system_common_bitmap g = bm \<and>
      unat (g_hbm_system_common_count g) = length rs \<and> length rs \<le> 128 \<and>
      (\<forall>i<length rs. range_of A (rs ! i) (g_hbm_system_common g (of_nat i))) \<and>
      list_all (maximal_run (slot_set bm) (slots A)) rs \<and> sorted_wrt (\<lambda>r r'. snd r < fst r') rs \<and>
      runs_cover (slot_set bm) (unat s) rs \<and> (\<forall>r\<in>set rs. snd r \<le> unat s))"

text \<open>Where a run may start: at 0, at the end, or behind a slot that is not set.\<close>

definition run_boundary :: "(u32 \<Rightarrow> u32) \<Rightarrow> nat \<Rightarrow> u32 \<Rightarrow> (nat \<times> nat) list \<Rightarrow> bool" where
  "run_boundary bm n s rs = (s = 0 \<and> rs = [] \<or> unat s = n \<or> \<not> test_slot bm s)"

lemma range_words:
  assumes "heap_ok A" and "a < b" and "b \<le> L1_SLOT_COUNT A"
  shows "range_of A (unat a, unat b)
    \<lparr>blk_addr = ARCH_CLUSTER_HEAP_BASE A + a * SLOT_SIZE, blk_bytes = (b - a) * SLOT_SIZE\<rparr>"
proof -
  let ?B = "unat (ARCH_CLUSTER_HEAP_BASE A)" and ?E = "unat (ARCH_CLUSTER_HEAP_END A)"
  have ab: "unat a < unat b" "unat b \<le> (?E - ?B) div 1024"
    using assms by (simp_all add: word_less_nat_alt word_le_nat_alt slots_word) (simp add: slots_def)
  have "(?E - ?B) div 1024 * 1024 \<le> ?E - ?B" by (rule div_times_less_eq_dividend)
  moreover have "?B < ?E" using assms(1) by (simp add: heap_ok_def word_less_nat_alt)
  ultimately have b: "?B + unat b * 1024 \<le> ?E" using ab by linarith
  have S: "unat SLOT_SIZE = 1024" by (simp add: SLOT_SIZE_def)
  have "unat a * 1024 < 4294967296" "?B + unat a * 1024 < 4294967296" "(unat b - unat a) * 1024 < 4294967296"
    using b ab unat_lt32 [of "ARCH_CLUSTER_HEAP_END A"] by linarith+
  then show ?thesis
    using ab by (simp add: range_of_def unat_add32 unat_mult32 unat_sub32 S)
qed

lemma runs_inv_step:
  assumes A: "heap_ok A" and inv: "runs_inv A bm s rs g" and bd: "run_boundary bm (slots A) s rs"
    and s: "s < L1_SLOT_COUNT A" and cnt: "g_hbm_system_common_count g < MAX_COMMON_BLOCKS"
  defines "a \<equiv> next_slot True bm (L1_SLOT_COUNT A) s"
  defines "b \<equiv> next_slot False bm (L1_SLOT_COUNT A) (a + 1)"
  assumes a: "a < L1_SLOT_COUNT A"
  defines "g' \<equiv> g\<lparr>g_hbm_system_common := (g_hbm_system_common g)(g_hbm_system_common_count g :=
        \<lparr>blk_addr = ARCH_CLUSTER_HEAP_BASE A + a * SLOT_SIZE, blk_bytes = (b - a) * SLOT_SIZE\<rparr>),
      g_hbm_system_common_count := g_hbm_system_common_count g + 1\<rparr>"
  shows "runs_inv A bm b (rs @ [(unat a, unat b)]) g'"
    and "run_boundary bm (slots A) b (rs @ [(unat a, unat b)])" and "b \<le> L1_SLOT_COUNT A"
proof -
  let ?n = "L1_SLOT_COUNT A" and ?P = "slot_set bm"
  have N: "unat ?n = slots A" by (rule slots_word [OF A])
  have 1: "unat s \<le> unat a" using next_slot_ge [of s True bm ?n] by (simp add: a_def)
  have 2: "\<forall>x. unat s \<le> x \<and> x < unat a \<longrightarrow> \<not> ?P x" "test_slot bm a"
    using next_slot_spec [of s ?n True bm] s a by (simp_all add: a_def [symmetric])
  have ua: "unat (a + 1) = unat a + 1" using a by (rule unat_inc_less)
  have ab: "unat a < unat b" using next_slot_ge [of "a + 1" False bm ?n] ua by (simp add: b_def)
  have 3: "unat b \<le> slots A" "\<forall>x. unat a + 1 \<le> x \<and> x < unat b \<longrightarrow> ?P x" "b < ?n \<longrightarrow> \<not> test_slot bm b"
    using next_slot_spec [of "a + 1" ?n False bm] inc_le [OF a] ua N by (simp_all add: b_def [symmetric])
  then show bn: "b \<le> ?n" by (simp add: word_le_nat_alt N)
  have set: "\<forall>x. unat a \<le> x \<and> x < unat b \<longrightarrow> ?P x"
  proof (intro allI impI)
    fix x
    assume "unat a \<le> x \<and> x < unat b"
    then show "?P x" using 3(2) 2(2) by (cases "x = unat a") simp_all
  qed
  have clear: "\<not> ?P (unat a - 1)" if "0 < unat a"
  proof (cases "unat s = unat a")
    case True
    then have "s = a" by (simp add: unat_eq_iff32)
    then show ?thesis using bd 2(2) that a N by (auto simp: run_boundary_def word_less_nat_alt)
  next
    case False
    then show ?thesis using spec [OF 2(1), of "unat a - 1"] 1 that by linarith
  qed
  have end_clear: "unat b < slots A \<longrightarrow> \<not> ?P (unat b)" using 3(3) by (simp add: word_less_nat_alt N)
  have mr: "maximal_run ?P (slots A) (unat a, unat b)"
    using ab 3(1) set end_clear clear by (simp add: maximal_run_def)
  have len: "length rs < 128" "unat (g_hbm_system_common_count g) = length rs"
    using inv cnt by (simp_all add: runs_inv_def MAX_COMMON_BLOCKS_def word_less_nat_alt)
  then have c: "g_hbm_system_common_count g = of_nat (length rs)" by (simp add: unat_eq_iff32 unat_of_nat32)
  have ne: "(of_nat i :: u32) \<noteq> of_nat (length rs)" if "i < length rs" for i
    using that len by (simp add: unat_eq_iff32 unat_of_nat32)
  have tab: "\<forall>i<length (rs @ [(unat a, unat b)]).
      range_of A ((rs @ [(unat a, unat b)]) ! i) (g_hbm_system_common g' (of_nat i))"
    using inv ne range_words [OF A _ bn, of a] ab c
    by (auto simp: runs_inv_def g'_def nth_append less_Suc_eq word_less_nat_alt)
  have cov: "runs_cover ?P (unat b) (rs @ [(unat a, unat b)])"
    using inv 1 2(1) set by (intro runs_cover_snoc [where m = "unat s"]) (auto simp: runs_inv_def)
  have strict: "snd r < unat a" if "r \<in> set rs" for r
  proof -
    have "snd r \<le> unat s" "maximal_run ?P (slots A) r"
      using inv that by (auto simp: runs_inv_def list_all_iff)
    moreover have "\<not> test_slot bm a" if "snd r = unat a"
      using \<open>maximal_run ?P (slots A) r\<close> that 3(1) ab by (auto simp: maximal_run_def)
    ultimately show ?thesis using 1 2(2) by (metis le_neq_implies_less le_trans)
  qed
  have cnt': "unat (g_hbm_system_common_count g + 1) = length rs + 1"
    using len by (subst unat_add32) simp_all
  show "runs_inv A bm b (rs @ [(unat a, unat b)]) g'"
    unfolding runs_inv_def
  proof (intro conjI)
    show "\<forall>r\<in>set (rs @ [(unat a, unat b)]). snd r \<le> unat b" using strict ab by fastforce
    show "sorted_wrt (\<lambda>r r'. snd r < fst r') (rs @ [(unat a, unat b)])"
      using inv strict by (simp add: runs_inv_def sorted_wrt_append)
  qed (use inv cnt' len mr tab cov in \<open>simp_all add: runs_inv_def g'_def\<close>)
  show "run_boundary bm (slots A) b (rs @ [(unat a, unat b)])"
    using 3 N by (auto simp: run_boundary_def word_less_nat_alt)
qed

lemma ranges_loop_inv:
  assumes "heap_ok A" and "runs_inv A bm s rs g" and "run_boundary bm (slots A) s rs" and "s \<le> L1_SLOT_COUNT A"
  shows "\<exists>rs' s'. runs_inv A bm s' rs' (ranges_loop A s g) \<and>
    (length rs' < 128 \<longrightarrow> runs_cover (slot_set bm) (slots A) rs')"
  using assms
proof (induction A s g arbitrary: rs rule: ranges_loop.induct)
  case (1 A s g)
  let ?n = "L1_SLOT_COUNT A"
  note inv = "1.prems"(2)
  have N: "unat ?n = slots A" by (rule slots_word [OF "1.prems"(1)])
  have bm: "g_system_common_bitmap g = bm" using inv by (simp add: runs_inv_def)
  define a where "a = next_slot True bm ?n s"
  show ?case
  proof (cases "s < ?n \<and> g_hbm_system_common_count g < MAX_COMMON_BLOCKS")
    case False
    then have r: "ranges_loop A s g = g" by (subst ranges_loop.simps) (auto simp: Let_def)
    have "runs_cover (slot_set bm) (slots A) rs" if "length rs < 128"
    proof -
      have "g_hbm_system_common_count g < MAX_COMMON_BLOCKS"
        using inv that by (simp add: runs_inv_def MAX_COMMON_BLOCKS_def word_less_nat_alt)
      then have "unat s = slots A" using False "1.prems"(4) N by (simp add: word_less_nat_alt word_le_nat_alt)
      then show ?thesis using inv by (simp add: runs_inv_def)
    qed
    then show ?thesis using r inv by auto
  next
    case True
    show ?thesis
    proof (cases "a < ?n")
      case False
      then have r: "ranges_loop A s g = g"
        using True bm by (subst ranges_loop.simps) (simp add: Let_def a_def [symmetric])
      have "\<forall>x. unat s \<le> x \<and> x < slots A \<longrightarrow> \<not> slot_set bm x"
        using next_slot_spec [of s ?n True bm] "1.prems"(4) False N
        by (simp add: a_def [symmetric] word_less_nat_alt)
      moreover have "runs_cover (slot_set bm) (unat s) rs" "\<forall>r\<in>set rs. snd r \<le> unat s"
        using inv by (simp_all add: runs_inv_def)
      ultimately have "runs_cover (slot_set bm) (slots A) rs"
        unfolding runs_cover_def by (meson less_le_trans not_le)
      then show ?thesis using r inv by auto
    next
      case a: True
      note step = runs_inv_step [OF "1.prems"(1) inv "1.prems"(3), folded a_def, OF conjunct1 [OF True] conjunct2 [OF True] a]
      note IH = "1.IH" [OF refl refl True refl, unfolded bm, folded a_def, OF _ refl refl refl "1.prems"(1) step]
      have na: "\<not> ?n \<le> a" using a by simp
      show ?thesis using IH [OF na] na True bm
        by (subst ranges_loop.simps) (simp add: Let_def a_def [symmetric])
    qed
  qed
qed

subsection \<open>Snapshots\<close>

text \<open>A free list whose blocks pass the pointer test of the snapshot.\<close>

definition snapshot_ok :: "soc_arch \<Rightarrow> blocks \<Rightarrow> bool" where
  "snapshot_ok A bs =
     (\<forall>b\<in>set bs. unat (ARCH_CLUSTER_HEAP_BASE A) \<le> fst b \<and>
        fst b + 8 \<le> unat (ARCH_CLUSTER_HEAP_END A) \<and> 8 dvd fst b)"

lemma and7_zero: "8 dvd unat (p :: u32) \<Longrightarrow> p AND 7 = 0"
proof -
  assume "8 dvd unat p"
  moreover have "p AND 7 = take_bit 3 p" by (simp add: take_bit_eq_mask mask_eq_exp_minus_1)
  moreover have "unat (take_bit 3 p) = unat p mod 8" by (subst unsigned_take_bit_eq) (simp add: take_bit_eq_mod)
  ultimately show "p AND 7 = 0" by (simp only: unat_eq_iff32 dvd_eq_mod_eq_0 unat_0)
qed

definition daml_block :: "nat \<times> nat \<Rightarrow> daml_block_t" where
  "daml_block b = \<lparr>blk_addr = of_nat (fst b), blk_bytes = of_nat (snd b)\<rparr>"

text \<open>The table of a core with the blocks \<open>bs\<close> from entry \<open>c\<close> on, up to entry \<open>n\<close>.\<close>

definition with_blocks :: "(u32 \<Rightarrow> daml_block_t) \<Rightarrow> nat \<Rightarrow> nat \<Rightarrow> blocks \<Rightarrow> u32 \<Rightarrow> daml_block_t" where
  "with_blocks f c n bs j = (if c \<le> unat j \<and> unat j < n then daml_block (bs ! (unat j - c)) else f j)"

lemma with_blocks_Cons:
  assumes "c < n" and "unat count = c"
  shows "with_blocks (f(count := daml_block b)) (c + 1) n bs = with_blocks f c n (b # bs)"
proof
  fix j
  show "with_blocks (f(count := daml_block b)) (c + 1) n bs j = with_blocks f c n (b # bs) j"
  proof (cases "unat j = c")
    case True
    then have "j = count" using assms(2) by (simp add: unat_eq_iff32)
    then show ?thesis using assms by (simp add: with_blocks_def)
  next
    case False
    then have "j \<noteq> count" using assms(2) by auto
    then show ?thesis using False by (auto simp: with_blocks_def Suc_diff_le [symmetric] Suc_le_eq nth_Cons')
  qed
qed

lemma upload_loop_spec:
  assumes "fl (tcdm g cid) cur bs" and "snapshot_ok A bs" and "unat count \<le> 128"
    and "n = min 128 (unat count + length bs)"
  shows "upload_loop A cid kid cur count g =
    (of_nat n, g\<lparr>g_hbm_core_free := upd2 (g_hbm_core_free g) cid kid
        (with_blocks (g_hbm_core_free g cid kid) (unat count) n bs)\<rparr>)"
  using assms
proof (induction A cid kid cur count g arbitrary: bs rule: upload_loop.induct)
  case (1 A cid kid cur count g)
  show ?case
  proof (cases "cur \<noteq> 0 \<and> count < MAX_FREE_BLOCKS_PER_CORE")
    case False
    have "bs = [] \<or> unat count = 128"
    proof (cases bs)
      case (Cons b bs')
      then have "cur \<noteq> 0" using "1.prems"(1) by (simp add: fl_def)
      then show ?thesis using False "1.prems"(3) by (simp add: MAX_FREE_BLOCKS_PER_CORE_def word_less_nat_alt)
    qed simp
    then have n: "n = unat count" using "1.prems"(3,4) by auto
    have "with_blocks f (unat count) (unat count) bs = f" for f by (rule ext) (auto simp: with_blocks_def)
    moreover have "upd2 h cid kid (h cid kid) = h" for h :: "u32 \<Rightarrow> u32 \<Rightarrow> u32 \<Rightarrow> daml_block_t"
      by (simp add: upd2_def)
    ultimately show ?thesis using False n by (subst upload_loop.simps) auto
  next
    case True
    then obtain b bs' where bs: "bs = b # bs'" using "1.prems"(1) by (cases bs) (simp_all add: fl_def)
    have b: "unat cur = fst b" "unat (tcdm g cid cur) = snd b" "fl (tcdm g cid) (tcdm g cid (cur + 4)) bs'"
      using "1.prems"(1) bs by (simp_all add: fl_def)
    have sn: "unat (ARCH_CLUSTER_HEAP_BASE A) \<le> fst b" "fst b + 8 \<le> unat (ARCH_CLUSTER_HEAP_END A)" "8 dvd fst b"
      "snapshot_ok A bs'" using "1.prems"(2) bs by (simp_all add: snapshot_ok_def)
    have "fst b + 8 < 4294967296" using sn(2) unat_lt32 [of "ARCH_CLUSTER_HEAP_END A"] by linarith
    then have "unat (cur + 8) = fst b + 8" using b(1) unat_add32 [of cur 8] by simp
    then have ok: "\<not> (cur < ARCH_CLUSTER_HEAP_BASE A \<or> cur + 8 > ARCH_CLUSTER_HEAP_END A \<or> cur AND (8 - 1) \<noteq> 0)"
      using sn b and7_zero [of cur] by (simp add: word_less_nat_alt)
    have c: "unat count < 128" "unat (count + 1) = unat count + 1"
      using True unat_inc_less [of count 128] by (simp_all add: MAX_FREE_BLOCKS_PER_CORE_def word_less_nat_alt)
    have blk: "\<lparr>blk_addr = cur, blk_bytes = tcdm g cid cur\<rparr> = daml_block b"
      by (simp add: daml_block_def b(1,2) [symmetric])
    have wb: "with_blocks ((g_hbm_core_free g cid kid)(count := daml_block b)) (unat count + 1) n bs' =
        with_blocks (g_hbm_core_free g cid kid) (unat count) n bs"
      unfolding bs using c(1) "1.prems"(4) bs by (intro with_blocks_Cons) auto
    define g1 where "g1 = g\<lparr>g_hbm_core_free := upd2 (g_hbm_core_free g) cid kid
      ((g_hbm_core_free g cid kid)(count := daml_block b))\<rparr>"
    have "upload_loop A cid kid cur count g = upload_loop A cid kid (tcdm g cid (cur + 4)) (count + 1) g1"
      by (subst upload_loop.simps) (use True ok blk in \<open>simp add: g1_def\<close>)
    also have "\<dots> = (of_nat n, g1\<lparr>g_hbm_core_free := upd2 (g_hbm_core_free g1) cid kid
        (with_blocks (g_hbm_core_free g1 cid kid) (unat (count + 1)) n bs')\<rparr>)"
      unfolding g1_def blk [symmetric]
    proof (rule "1.IH" [OF True ok])
      show "n = min 128 (unat (count + 1) + length bs')" using "1.prems"(4) bs c(2) by simp
    qed (use b(3) sn(4) c in simp_all)
    also have "\<dots> = (of_nat n, g\<lparr>g_hbm_core_free := upd2 (g_hbm_core_free g) cid kid
        (with_blocks (g_hbm_core_free g cid kid) (unat count) n bs)\<rparr>)"
      by (simp only: c(2) wb [symmetric]) (simp add: g1_def)
    finally show ?thesis .
  qed
qed

text \<open>A snapshot changes the table and the count of its core, and the log.\<close>

lemma upload_eq:
  fixes g :: soc_daml
  assumes "fl (tcdm g cid) (first_block (g_hbm_l1_allocators g cid kid)) bs" and "snapshot_ok A bs"
    and "n = min 128 (length bs)"
  obtains l where "soc_daml_upload_free_list A cid kid g =
    g\<lparr>g_hbm_core_free := upd2 (g_hbm_core_free g) cid kid (with_blocks (g_hbm_core_free g cid kid) 0 n bs),
      g_hbm_core_free_count := upd2 (g_hbm_core_free_count g) cid kid (of_nat n), soc_log := l\<rparr>"
proof -
  define g1 where "g1 = (soc_printf ''[SNAPSHOT] Enter C%u/K%u'' [cid, kid] g)
    \<lparr>g_hbm_core_free_count := upd2 (g_hbm_core_free_count g) cid kid 0\<rparr>"
  have same: "tcdm g1 = tcdm g" "g_hbm_core_free g1 = g_hbm_core_free g"
    "g_hbm_core_free_count g1 = upd2 (g_hbm_core_free_count g) cid kid 0"
    "g_hbm_l1_allocators g1 = g_hbm_l1_allocators g"
    by (simp_all add: g1_def soc_printf_def)
  have u: "upload_loop A cid kid (first_block (g_hbm_l1_allocators g1 cid kid)) 0 g1 =
      (of_nat n, g1\<lparr>g_hbm_core_free := upd2 (g_hbm_core_free g) cid kid
        (with_blocks (g_hbm_core_free g cid kid) 0 n bs)\<rparr>)"
    using upload_loop_spec [of g1 cid "first_block (g_hbm_l1_allocators g1 cid kid)" bs A 0 n kid] assms
    by (simp add: same)
  then show thesis
    by (intro that) (simp add: soc_daml_upload_free_list_def Let_def g1_def soc_printf_def)
qed

subsection \<open>Initialisation of the arenas\<close>

text \<open>The allocators of the cores in \<open>done\<close> own one free block, their arena.\<close>

definition arenas_ready :: "soc_arch \<Rightarrow> u32 \<Rightarrow> u32 \<Rightarrow> u32 set \<Rightarrow> soc_daml \<Rightarrow> bool" where
  "arenas_ready A cid n ks g =
     (\<forall>k\<in>ks. let (base, size) = daml_compute_core_arena A n k in
        alloc_inv (unat base) (unat base + unat size) (g_hbm_l1_allocators g cid k)
          \<lparr>mheap = tcdm g cid, mlog = soc_log g\<rparr> [(unat base, unat size)])"

text \<open>An arena large enough for an allocator.\<close>

definition arenas_usable :: "soc_arch \<Rightarrow> u32 \<Rightarrow> bool" where
  "arenas_usable A n = (arena_heap_ok A \<and> 16 \<le> arena_share A (unat n))"

lemma core_arena_bounds:
  assumes "arenas_usable A n" and "k < n"
  defines "base \<equiv> unat (fst (daml_compute_core_arena A n k))" and "len \<equiv> unat (snd (daml_compute_core_arena A n k))"
  shows "base = unat (ARCH_CLUSTER_HEAP_BASE A) + unat k * arena_share A (unat n)"
    and "16 \<le> len" and "arena_share A (unat n) \<le> len" and "8 dvd len" and "8 dvd base"
    and "base + len \<le> unat (ARCH_CLUSTER_HEAP_END A)" and "0 < base"
    and "Suc (unat k) < unat n \<Longrightarrow> len = arena_share A (unat n)"
    and "Suc (unat k) = unat n \<Longrightarrow> unat (ARCH_CLUSTER_HEAP_END A) < base + len + 8"
proof -
  let ?E = "unat (ARCH_CLUSTER_HEAP_END A)" and ?s = "arena_share A (unat n)"
  have ok: "arena_heap_ok A" "16 \<le> ?s" using assms(1) by (simp_all add: arenas_usable_def)
  note c = core_arena [OF ok(1) assms(2), folded base_def]
  have s: "len = (if Suc (unat k) = unat n then (?E - base) div 8 * 8 else ?s)"
    using c(1,2) by (simp add: len_def)
  show b: "base = unat (ARCH_CLUSTER_HEAP_BASE A) + unat k * ?s" using c(1) .
  have s8: "8 dvd ?s" by (simp add: arena_share_def)
  have e: "base + ?s \<le> ?E" using c(3) b by simp
  have r: "?s \<le> (?E - base) div 8 * 8"
  proof -
    from s8 obtain t where t: "?s = 8 * t" by (elim dvdE)
    have "t \<le> (?E - base) div 8" using e t by (simp add: less_eq_div_iff_mult_less_eq)
    then show ?thesis using t by simp
  qed
  show "?s \<le> len" using s r by simp
  then show "16 \<le> len" using ok(2) by linarith
  show "8 dvd len" using s s8 by simp
  show "8 dvd base" using c(4) b by simp
  have "(?E - base) div 8 * 8 \<le> ?E - base" by (rule div_times_less_eq_dividend)
  then show "base + len \<le> ?E" using s e by (auto split: if_splits)
  have "0 < unat (ARCH_CLUSTER_HEAP_BASE A)" using ok(1) by (simp add: arena_heap_ok_def word_less_nat_alt)
  then show "0 < base" using b by simp
  show "Suc (unat k) < unat n \<Longrightarrow> len = ?s" using s by simp
  have "?E - base < (?E - base) div 8 * 8 + 8"
    using mod_less_divisor [of 8 "?E - base"] div_mult_mod_eq [of "?E - base" 8] by linarith
  then show "Suc (unat k) = unat n \<Longrightarrow> ?E < base + len + 8" using s by simp
qed

lemma core_arenas_apart:
  assumes "arenas_usable A n" and "j < n" and "k < j"
  shows "unat (fst (daml_compute_core_arena A n k)) + unat (snd (daml_compute_core_arena A n k))
    \<le> unat (fst (daml_compute_core_arena A n j))"
proof -
  have kn: "k < n" using assms(2,3) by (rule less_trans [rotated])
  have kj: "Suc (unat k) \<le> unat j" "unat j < unat n" using assms(2,3) by (simp_all add: word_less_nat_alt)
  note k = core_arena_bounds [OF assms(1) kn] and j = core_arena_bounds [OF assms(1,2)]
  have "Suc (unat k) * arena_share A (unat n) \<le> unat j * arena_share A (unat n)"
    using kj(1) by (rule mult_right_mono) simp
  then show ?thesis using k(1,8) j(1) kj by simp
qed

lemma init_core_allocator_ready:
  assumes "arenas_usable A (g_rt_cores_per_cluster g)" and "k < g_rt_cores_per_cluster g"
    and "\<forall>j\<in>ks. j < g_rt_cores_per_cluster g \<and> j \<noteq> k"
    and "arenas_ready A cid (g_rt_cores_per_cluster g) ks g"
  shows "arenas_ready A cid (g_rt_cores_per_cluster g) (insert k ks) (init_core_allocator A cid k g)"
proof -
  let ?n = "g_rt_cores_per_cluster g"
  obtain base len where bl: "daml_compute_core_arena A ?n k = (base, len)" by (cases "daml_compute_core_arena A ?n k")
  note c = core_arena_bounds [OF assms(1,2), unfolded bl fst_conv snd_conv]
  have E: "unat base + unat len < 4294967296" using c(6) unat_lt32 [of "ARCH_CLUSTER_HEAP_END A"] by linarith
  have up: "(unat base + 7) div 8 * 8 = unat base" using c(5) by (elim dvdE) simp
  have dn: "(unat base + unat len - unat base) div 8 * 8 = unat len" using c(4) by simp
  obtain al s' where i: "flex_cluster_alloc_init base len \<lparr>mheap = tcdm g cid, mlog = soc_log g\<rparr> = (al, s')"
    "alloc_inv (unat base) (unat base + unat len) al s' [(unat base, unat len)]" "mlog s' = soc_log g"
    using flex_cluster_alloc_init_inv [of base len "\<lparr>mheap = tcdm g cid, mlog = soc_log g\<rparr>"] c(2,7) E up dn by auto
  have heap: "mheap s' x = tcdm g cid x" if "x \<noteq> base" "x \<noteq> base + 4" for x
  proof -
    have "ALIGN_UP base MIN_BLOCK_SIZE = base"
      using ALIGN_UP_8 [of base] c(2) E up by (simp add: MIN_BLOCK_SIZE_def unat_eq_iff32)
    then show ?thesis using i(1) that by (auto simp: flex_cluster_alloc_init_def Let_def)
  qed
  let ?g = "init_core_allocator A cid k g"
  have g: "tcdm ?g cid = mheap s'" "g_hbm_l1_allocators ?g cid k = al"
    "j \<noteq> k \<Longrightarrow> g_hbm_l1_allocators ?g cid j = g_hbm_l1_allocators g cid j" for j
    by (simp_all add: init_core_allocator_def bl i(1) soc_printf_def)
  have any_log: "alloc_inv lo hi a \<lparr>mheap = h, mlog = l\<rparr> bs \<Longrightarrow> alloc_inv lo hi a \<lparr>mheap = h, mlog = l'\<rparr> bs"
    for lo hi a h l l' bs by (simp add: alloc_inv_def)
  have "alloc_inv (unat base) (unat base + unat len) al
      \<lparr>mheap = mheap s', mlog = soc_log ?g\<rparr> [(unat base, unat len)]"
    using i(2) by (simp add: alloc_inv_def)
  moreover have "let (b, l) = daml_compute_core_arena A ?n j in
      alloc_inv (unat b) (unat b + unat l) (g_hbm_l1_allocators g cid j)
        \<lparr>mheap = mheap s', mlog = soc_log ?g\<rparr> [(unat b, unat l)]" if j: "j \<in> ks" for j
  proof -
    obtain b l where jbl: "daml_compute_core_arena A ?n j = (b, l)" by (cases "daml_compute_core_arena A ?n j")
    have old: "alloc_inv (unat b) (unat b + unat l) (g_hbm_l1_allocators g cid j)
        \<lparr>mheap = tcdm g cid, mlog = soc_log g\<rparr> [(unat b, unat l)]"
      using assms(4) j jbl by (fastforce simp: arenas_ready_def)
    have jn: "j < ?n" "j < k \<or> k < j" using assms(3) j by auto
    note d = core_arena_bounds [OF assms(1) jn(1), unfolded jbl fst_conv snd_conv]
    have ap: "unat b + unat l \<le> unat base \<or> unat base + unat len \<le> unat b"
      using jn(2) core_arenas_apart [OF assms(1,2), of j] core_arenas_apart [OF assms(1) jn(1), of k] bl jbl by auto
    have lt: "unat b + 4 < 4294967296" "unat base + 4 < 4294967296"
      using d(2,6) c(2) E unat_lt32 [of "ARCH_CLUSTER_HEAP_END A"] by linarith+
    have b4: "unat (b + 4) = unat b + 4" "unat (base + 4) = unat base + 4"
      using lt unat_add32 [of b 4] unat_add32 [of base 4] by simp_all
    have "b \<noteq> base" "b \<noteq> base + 4" "b + 4 \<noteq> base" "b + 4 \<noteq> base + 4"
      using ap c(2) d(2) unfolding unat_eq_iff32 b4 by linarith+
    then have "mheap s' b = tcdm g cid b" "mheap s' (b + 4) = tcdm g cid (b + 4)" by (simp_all add: heap)
    moreover have "first_block (g_hbm_l1_allocators g cid j) = b"
      using old by (simp add: alloc_inv_def fl_def unat_eq_iff32)
    ultimately show ?thesis using old jbl by (simp add: alloc_inv_def fl_def)
  qed
  ultimately show ?thesis using g assms(3) bl by (auto simp: arenas_ready_def)
qed

lemma init_core_allocators_ready:
  assumes "arenas_usable A (g_rt_cores_per_cluster g)" and "distinct ks"
    and "\<forall>k\<in>set ks \<union> js. k < g_rt_cores_per_cluster g" and "set ks \<inter> js = {}"
    and "arenas_ready A cid (g_rt_cores_per_cluster g) js g"
  shows "arenas_ready A cid (g_rt_cores_per_cluster g) (set ks \<union> js) (fold (init_core_allocator A cid) ks g)"
  using assms
proof (induction ks arbitrary: g js)
  case (Cons k ks)
  have n: "g_rt_cores_per_cluster (init_core_allocator A cid k g) = g_rt_cores_per_cluster g"
    by (simp add: init_core_allocator_def soc_printf_def split: prod.splits)
  have "arenas_ready A cid (g_rt_cores_per_cluster g) (insert k js) (init_core_allocator A cid k g)"
    using Cons.prems by (intro init_core_allocator_ready) auto
  then show ?case
    using Cons.IH [of "init_core_allocator A cid k g" "insert k js"] Cons.prems n by auto
qed simp

lemma clear_cluster_frame:
  "g_rt_cores_per_cluster (clear_cluster_metadata A cid g) = g_rt_cores_per_cluster g"
  "g_rt_num_clusters (clear_cluster_metadata A cid g) = g_rt_num_clusters g"
  "tcdm (clear_cluster_metadata A cid g) = tcdm g"
  "g_hbm_l1_allocators (clear_cluster_metadata A cid g) = g_hbm_l1_allocators g"
  "hbm (clear_cluster_metadata A cid g) = hbm g" "soc_alloc_hbm (clear_cluster_metadata A cid g) = soc_alloc_hbm g"
proof -
  have "g_rt_cores_per_cluster (fold (init_core_metadata A cid) ks h) = g_rt_cores_per_cluster h \<and>
      g_rt_num_clusters (fold (init_core_metadata A cid) ks h) = g_rt_num_clusters h \<and>
      tcdm (fold (init_core_metadata A cid) ks h) = tcdm h \<and>
      hbm (fold (init_core_metadata A cid) ks h) = hbm h \<and>
      soc_alloc_hbm (fold (init_core_metadata A cid) ks h) = soc_alloc_hbm h \<and>
      g_hbm_l1_allocators (fold (init_core_metadata A cid) ks h) = g_hbm_l1_allocators h" for ks h
    by (induction ks arbitrary: h) (simp_all add: init_core_metadata_def)
  then show "g_rt_cores_per_cluster (clear_cluster_metadata A cid g) = g_rt_cores_per_cluster g"
    "g_rt_num_clusters (clear_cluster_metadata A cid g) = g_rt_num_clusters g"
    "tcdm (clear_cluster_metadata A cid g) = tcdm g"
    "g_hbm_l1_allocators (clear_cluster_metadata A cid g) = g_hbm_l1_allocators g"
    "hbm (clear_cluster_metadata A cid g) = hbm g" "soc_alloc_hbm (clear_cluster_metadata A cid g) = soc_alloc_hbm g"
    by (simp_all add: clear_cluster_metadata_def Let_def)
qed

lemma init_cluster_ready:
  assumes "arenas_usable A (g_rt_cores_per_cluster g)"
  shows "arenas_ready A cid (g_rt_cores_per_cluster g) {k. 0 \<le> k \<and> k < g_rt_cores_per_cluster g}
    (soc_daml_init_allocators_this_cluster A cid g)"
  using init_core_allocators_ready [of A "clear_cluster_metadata A cid g" "u32_range 0 (g_rt_cores_per_cluster g)" "{}" cid] assms
  by (simp add: arenas_ready_def soc_daml_init_allocators_this_cluster_def Let_def clear_cluster_frame)

lemma init_cluster_frame:
  "g_rt_cores_per_cluster (soc_daml_init_allocators_this_cluster A cid g) = g_rt_cores_per_cluster g"
  "g_rt_num_clusters (soc_daml_init_allocators_this_cluster A cid g) = g_rt_num_clusters g"
  "hbm (soc_daml_init_allocators_this_cluster A cid g) = hbm g"
  "soc_alloc_hbm (soc_daml_init_allocators_this_cluster A cid g) = soc_alloc_hbm g"
  "c \<noteq> cid \<Longrightarrow> tcdm (soc_daml_init_allocators_this_cluster A cid g) c = tcdm g c"
  "c \<noteq> cid \<Longrightarrow> g_hbm_l1_allocators (soc_daml_init_allocators_this_cluster A cid g) c k = g_hbm_l1_allocators g c k"
proof -
  have "g_rt_cores_per_cluster (init_core_allocator A cid k h) = g_rt_cores_per_cluster h"
    "g_rt_num_clusters (init_core_allocator A cid k h) = g_rt_num_clusters h"
    "hbm (init_core_allocator A cid k h) = hbm h" "soc_alloc_hbm (init_core_allocator A cid k h) = soc_alloc_hbm h"
    "c \<noteq> cid \<Longrightarrow> tcdm (init_core_allocator A cid k h) c = tcdm h c"
    "c \<noteq> cid \<Longrightarrow> g_hbm_l1_allocators (init_core_allocator A cid k h) c j = g_hbm_l1_allocators h c j" for k h c j
    by (simp_all add: init_core_allocator_def soc_printf_def split: prod.split)
  then have "g_rt_cores_per_cluster (fold (init_core_allocator A cid) ks h) = g_rt_cores_per_cluster h \<and>
      g_rt_num_clusters (fold (init_core_allocator A cid) ks h) = g_rt_num_clusters h \<and>
      hbm (fold (init_core_allocator A cid) ks h) = hbm h \<and>
      soc_alloc_hbm (fold (init_core_allocator A cid) ks h) = soc_alloc_hbm h \<and>
      (c \<noteq> cid \<longrightarrow> tcdm (fold (init_core_allocator A cid) ks h) c = tcdm h c \<and>
        g_hbm_l1_allocators (fold (init_core_allocator A cid) ks h) c k = g_hbm_l1_allocators h c k)" for ks h c k
    by (induction ks arbitrary: h) simp_all
  then show "g_rt_cores_per_cluster (soc_daml_init_allocators_this_cluster A cid g) = g_rt_cores_per_cluster g"
    "g_rt_num_clusters (soc_daml_init_allocators_this_cluster A cid g) = g_rt_num_clusters g"
    "hbm (soc_daml_init_allocators_this_cluster A cid g) = hbm g"
    "soc_alloc_hbm (soc_daml_init_allocators_this_cluster A cid g) = soc_alloc_hbm g"
    "c \<noteq> cid \<Longrightarrow> tcdm (soc_daml_init_allocators_this_cluster A cid g) c = tcdm g c"
    "c \<noteq> cid \<Longrightarrow> g_hbm_l1_allocators (soc_daml_init_allocators_this_cluster A cid g) c k = g_hbm_l1_allocators g c k"
    by (simp_all add: soc_daml_init_allocators_this_cluster_def Let_def clear_cluster_frame)
qed

subsection \<open>A sample state\<close>

text \<open>Three cores on one cluster; core 0 has one free block of 16 bytes at the start of the heap.\<close>

definition soc_sample :: soc_daml where
  "soc_sample =
     \<lparr>g_hbm_l1_allocators = \<lambda>_ _. \<lparr>first_block = 0x8000\<rparr>,
      g_hbm_core_free_count = \<lambda>_ _. 1, g_hbm_core_free = \<lambda>_ _ _. \<lparr>blk_addr = 0x8000, blk_bytes = 16\<rparr>,
      g_core_free_bitmap = \<lambda>_ _ _. 6, g_cluster_free_bitmap = \<lambda>_ _. 0, g_system_common_bitmap = \<lambda>_. 6,
      g_hbm_cluster_common_count = \<lambda>_. 0, g_hbm_cluster_common = \<lambda>_ _. \<lparr>blk_addr = 0, blk_bytes = 0\<rparr>,
      g_hbm_system_common_count = 0, g_hbm_system_common = \<lambda>_. \<lparr>blk_addr = 0, blk_bytes = 0\<rparr>,
      g_rt_num_clusters = 1, g_rt_cores_per_cluster = 3, soc_alloc_hbm = \<lparr>first_block = 0\<rparr>,
      tcdm = \<lambda>_. (\<lambda>_. 0)(0x8000 := 16), hbm = \<lambda>_. 0, soc_log = []\<rparr>"

lemma soc_sample_usable: "arenas_usable soc_default 3"
  by (simp add: arenas_usable_def arena_heap_ok_def soc_default_ok arena_share_def)

lemma soc_default_slots: "L1_SLOT_COUNT soc_default = 992"
  by (simp add: L1_SLOT_COUNT_def L1_HEAP_SIZE_BYTES_def SLOT_SIZE_def)

subsection \<open>Properties\<close>

text \<open>After \<open>soc_daml_init_allocators_this_cluster\<close> the allocator of every core owns exactly
  one free block, its arena; the arenas of two cores do not overlap, lie in the L1 heap, and the
  bytes behind the last one are fewer than a block header.\<close>

lemma core_allocators_init:
  fixes cid :: u32
  assumes "arenas_usable A (g_rt_cores_per_cluster g)"
  defines "n \<equiv> g_rt_cores_per_cluster g"
    and "g' \<equiv> soc_daml_init_allocators_this_cluster A cid g"
    and "lo \<equiv> \<lambda>k. unat (fst (daml_compute_core_arena A (g_rt_cores_per_cluster g) k))"
    and "hi \<equiv> \<lambda>k. unat (fst (daml_compute_core_arena A (g_rt_cores_per_cluster g) k))
      + unat (snd (daml_compute_core_arena A (g_rt_cores_per_cluster g) k))"
  shows "(\<forall>k<n. alloc_inv (lo k) (hi k) (g_hbm_l1_allocators g' cid k)
        \<lparr>mheap = tcdm g' cid, mlog = soc_log g'\<rparr> [(lo k, hi k - lo k)]
      \<and> unat (ARCH_CLUSTER_HEAP_BASE A) \<le> lo k \<and> hi k \<le> unat (ARCH_CLUSTER_HEAP_END A)
      \<and> (k = n - 1 \<longrightarrow> unat (ARCH_CLUSTER_HEAP_END A) < hi k + 8))
    \<and> (\<forall>j<n. \<forall>k<j. hi k \<le> lo j)"
proof -
  have "arenas_ready A cid n {k. 0 \<le> k \<and> k < n} g'"
    using init_cluster_ready [OF assms(1)] by (simp add: n_def g'_def)
  then have r: "alloc_inv (lo k) (hi k) (g_hbm_l1_allocators g' cid k)
      \<lparr>mheap = tcdm g' cid, mlog = soc_log g'\<rparr> [(lo k, hi k - lo k)]" if "k < n" for k
    using that by (auto simp: arenas_ready_def n_def lo_def hi_def split: prod.splits)
  have b: "unat (ARCH_CLUSTER_HEAP_BASE A) \<le> lo k" "hi k \<le> unat (ARCH_CLUSTER_HEAP_END A)"
    "k = n - 1 \<Longrightarrow> unat (ARCH_CLUSTER_HEAP_END A) < hi k + 8" if k: "k < n" for k
  proof -
    note c = core_arena_bounds [OF assms(1) k [unfolded n_def]]
    show "unat (ARCH_CLUSTER_HEAP_BASE A) \<le> lo k" using c(1) by (simp add: lo_def)
    show "hi k \<le> unat (ARCH_CLUSTER_HEAP_END A)" using c(6) by (simp add: hi_def)
    assume "k = n - 1"
    moreover have "1 \<le> unat n" using k by (simp add: word_less_nat_alt Suc_le_eq)
    ultimately have "Suc (unat k) = unat n" by (simp add: unat_sub32)
    then show "unat (ARCH_CLUSTER_HEAP_END A) < hi k + 8" using c(9) by (simp add: n_def hi_def)
  qed
  have "hi k \<le> lo j" if "j < n" "k < j" for j k
    using core_arenas_apart [OF assms(1) that(1) [unfolded n_def] that(2)] by (simp add: hi_def lo_def)
  then show ?thesis using r b by blast
qed

text \<open>C29: \<open>soc_daml_upload_free_list\<close> copies the free list of the core, its first 128 blocks in order,
  into the HBM table and publishes their number; the tables of other cores do not change.\<close>

theorem snapshot_is_free_list:
  assumes "fl (tcdm g cid) (first_block (g_hbm_l1_allocators g cid kid)) bs" and "snapshot_ok A bs"
  defines "n \<equiv> min 128 (length bs)" and "g' \<equiv> soc_daml_upload_free_list A cid kid g"
  shows "g_hbm_core_free_count g' cid kid = of_nat n
    \<and> (\<forall>i<n. g_hbm_core_free g' cid kid (of_nat i) =
        \<lparr>blk_addr = of_nat (fst (bs ! i)), blk_bytes = of_nat (snd (bs ! i))\<rparr>)
    \<and> (\<forall>c k. (c, k) \<noteq> (cid, kid) \<longrightarrow>
        g_hbm_core_free g' c k = g_hbm_core_free g c k
        \<and> g_hbm_core_free_count g' c k = g_hbm_core_free_count g c k)"
proof -
  obtain l where g': "g' = g\<lparr>g_hbm_core_free := upd2 (g_hbm_core_free g) cid kid (with_blocks (g_hbm_core_free g cid kid) 0 n bs),
      g_hbm_core_free_count := upd2 (g_hbm_core_free_count g) cid kid (of_nat n), soc_log := l\<rparr>"
    using upload_eq [OF assms(1,2), of n] by (auto simp: n_def g'_def)
  have "g_hbm_core_free g' cid kid (of_nat i) = daml_block (bs ! i)" if "i < n" for i
    using that by (simp add: g' with_blocks_def n_def unat_of_nat32)
  moreover have "g_hbm_core_free g' c k = g_hbm_core_free g c k"
    "g_hbm_core_free_count g' c k = g_hbm_core_free_count g c k" if "(c, k) \<noteq> (cid, kid)" for c k
    using that by (auto simp: g')
  ultimately show ?thesis by (auto simp: g' daml_block_def)
qed

text \<open>C28: A slot is set in the bitmap of a core if and only if some block of the core's snapshot has
  at least one byte in the slot.\<close>

theorem core_bitmap_overlap:
  assumes "heap_ok A" and "s < L1_SLOT_COUNT A"
    and "\<forall>i<g_hbm_core_free_count g cid kid. block_in_heap A (g_hbm_core_free g cid kid i)"
  shows "test_slot (g_core_free_bitmap (soc_daml_build_core_bitmap A cid kid g) cid kid) s \<longleftrightarrow>
    (\<exists>i<g_hbm_core_free_count g cid kid. touches A (g_hbm_core_free g cid kid i) (unat s))"
  using assms test_slot_zero [OF assms(1,2)]
  by (simp add: soc_daml_build_core_bitmap_def Let_def mark_blocks_slots)

text \<open>Building the bitmaps of all clusters and then the common bitmap sets a slot if and only if
  every cluster has a core whose bitmap has the slot set.\<close>

lemma system_common_bitmap:
  assumes "heap_ok A" and "s < L1_SLOT_COUNT A" and "0 < g_rt_num_clusters g"
  shows "test_slot (g_system_common_bitmap (soc_daml_build_system_common_bitmap A
      (fold (soc_daml_build_cluster_free_bitmap A) (u32_range 0 (g_rt_num_clusters g)) g))) s \<longleftrightarrow>
    (\<forall>c<g_rt_num_clusters g. \<exists>k<g_rt_cores_per_cluster g. test_slot (g_core_free_bitmap g c k) s)"
  using system_bitmap_slots [OF assms(1,2)]
    cluster_bitmaps_slots [OF assms(1,2) distinct_u32_range refl, of 0 "g_rt_num_clusters g" g] assms(3)
  by (simp cong: all_cong imp_cong)

text \<open>C27: The ranges written by \<open>soc_daml_system_common_bitmap_to_ranges\<close> are maximal runs of set
  slots, in ascending order with a gap between two of them, given by address and size in bytes; they
  are all runs whenever the table of 128 entries is not full.\<close>

theorem system_common_ranges:
  fixes g :: soc_daml
  assumes "heap_ok A"
  defines "g' \<equiv> soc_daml_system_common_bitmap_to_ranges A g"
    and "P \<equiv> \<lambda>x. test_slot (g_system_common_bitmap g) (of_nat x)"
  shows "\<exists>rs. unat (soc_daml_get_system_common_count g') = length rs \<and> length rs \<le> 128
    \<and> (\<forall>i<length rs. range_of A (rs ! i) (soc_daml_get_system_common g' (of_nat i)))
    \<and> list_all (maximal_run P (slots A)) rs \<and> sorted_wrt (\<lambda>r r'. snd r < fst r') rs
    \<and> (length rs < 128 \<longrightarrow> (\<forall>x < slots A. P x \<longleftrightarrow> (\<exists>r\<in>set rs. fst r \<le> x \<and> x < snd r)))"
proof -
  let ?g = "g\<lparr>g_hbm_system_common_count := 0\<rparr>"
  have inv: "runs_inv A (g_system_common_bitmap g) 0 [] ?g" by (simp add: runs_inv_def runs_cover_def)
  have bd: "run_boundary (g_system_common_bitmap g) (slots A) 0 []" by (simp add: run_boundary_def)
  obtain rs s' where rs: "runs_inv A (g_system_common_bitmap g) s' rs g'"
    "length rs < 128 \<longrightarrow> runs_cover P (slots A) rs"
    using ranges_loop_inv [OF assms(1) inv bd]
    unfolding g'_def P_def soc_daml_system_common_bitmap_to_ranges_def by auto
  then show ?thesis
    by (intro exI [of _ rs])
      (simp add: runs_inv_def runs_cover_def P_def soc_daml_get_system_common_count_def soc_daml_get_system_common_def)
qed

theorem snapshot_is_free_list_witness:
  "g_hbm_core_free (soc_daml_upload_free_list soc_default 0 1 soc_sample) 0 1 0 =
    \<lparr>blk_addr = 0x8000, blk_bytes = 16\<rparr>"
  using snapshot_is_free_list [of soc_sample 0 1 "[(32768, 16)]" soc_default]
  by (simp add: soc_sample_def fl_def snapshot_ok_def)

theorem core_bitmap_overlap_witness:
  "test_slot (g_core_free_bitmap (soc_daml_build_core_bitmap soc_default 0 0 soc_sample) 0 0) 0
    \<and> \<not> test_slot (g_core_free_bitmap (soc_daml_build_core_bitmap soc_default 0 0 soc_sample) 0 0) 1"
  using core_bitmap_overlap [of soc_default 0 soc_sample 0 0] core_bitmap_overlap [of soc_default 1 soc_sample 0 0]
  by (auto simp: soc_default_ok soc_default_slots soc_sample_def block_in_heap_def touches_def)

theorem system_common_ranges_witness:
  "\<exists>rs. unat (soc_daml_get_system_common_count (soc_daml_system_common_bitmap_to_ranges soc_default soc_sample)) = length rs
    \<and> list_all (maximal_run (\<lambda>x. test_slot (\<lambda>_. 6) (of_nat x)) 992) rs"
  using system_common_ranges [of soc_default soc_sample] soc_default_ok
  by (auto simp: soc_sample_def slots_def)

end
