(* ===== verification/Flex_DMA.thy ===== *)
theory Flex_DMA
  imports Flex_Runtime
begin

text \<open>
  The DMA interface of \<open>flex_dma_pattern.h\<close>: the instruction words of the iDMA extension, the
  transfers built from them, the traffic patterns, and the dump registers of \<open>flex_dump.h\<close>.
  An instruction is the node \<open>Insn word [rs1, rs2]\<close> of the calling program, the register values
  being those of the fixed \<open>a0 .. a7\<close> the code binds.
\<close>

subsection \<open>Instruction words\<close>

definition OP_CUSTOM1 :: u32 where "OP_CUSTOM1 = 0b0101011"
definition XDMA_FUNCT3 :: u32 where "XDMA_FUNCT3 = 0b000"
definition DMSRC_FUNCT7 :: u32 where "DMSRC_FUNCT7 = 0b0000000"
definition DMDST_FUNCT7 :: u32 where "DMDST_FUNCT7 = 0b0000001"
definition DMCPYI_FUNCT7 :: u32 where "DMCPYI_FUNCT7 = 0b0000010"
definition DMCPYC_FUNCT7 :: u32 where "DMCPYC_FUNCT7 = 0b0000011"
definition DMSTATI_FUNCT7 :: u32 where "DMSTATI_FUNCT7 = 0b0000100"
definition DMMASK_FUNCT7 :: u32 where "DMMASK_FUNCT7 = 0b0000101"
definition DMSTR_FUNCT7 :: u32 where "DMSTR_FUNCT7 = 0b0000110"
definition DMREP_FUNCT7 :: u32 where "DMREP_FUNCT7 = 0b0000111"

datatype collective_compute_format_t =
    COLLECTIVE_REDADD_UINT_16
  | COLLECTIVE_REDADD_INT_16
  | COLLECTIVE_REDADD_FP_16
  | COLLECTIVE_REDMAX_UINT_16
  | COLLECTIVE_REDMAX_INT_16
  | COLLECTIVE_REDMAX_FP_16

definition R_TYPE_ENCODE :: "u32 \<Rightarrow> u32 \<Rightarrow> u32 \<Rightarrow> u32 \<Rightarrow> u32 \<Rightarrow> u32 \<Rightarrow> u32" where
  "R_TYPE_ENCODE funct7 rs2 rs1 funct3 rd opcode =
     push_bit 25 funct7 OR push_bit 20 rs2 OR push_bit 15 rs1 OR push_bit 12 funct3 OR push_bit 7 rd OR opcode"

subsection \<open>Bare transfers\<close>

text \<open>The halves of a 64-bit address, as the code puts them into two registers.\<close>

definition lo32 :: "u64 \<Rightarrow> u32" where
  "lo32 x = ucast x"

definition hi32 :: "u64 \<Rightarrow> u32" where
  "hi32 x = ucast (drop_bit 32 x)"

definition bare_dma_start_1d :: "u64 \<Rightarrow> u64 \<Rightarrow> u32 \<Rightarrow> (u32 \<Rightarrow> io) \<Rightarrow> io" where
  "bare_dma_start_1d dst src sz k =
     Insn (R_TYPE_ENCODE DMSRC_FUNCT7 13 12 XDMA_FUNCT3 0 OP_CUSTOM1) [lo32 src, hi32 src] (\<lambda>_.
     Insn (R_TYPE_ENCODE DMDST_FUNCT7 11 10 XDMA_FUNCT3 0 OP_CUSTOM1) [lo32 dst, hi32 dst] (\<lambda>_.
     Insn (R_TYPE_ENCODE DMCPYI_FUNCT7 0b00000 14 XDMA_FUNCT3 10 OP_CUSTOM1) [sz] k))"

definition bare_dma_start_2d :: "u64 \<Rightarrow> u64 \<Rightarrow> u32 \<Rightarrow> u32 \<Rightarrow> u32 \<Rightarrow> u32 \<Rightarrow> (u32 \<Rightarrow> io) \<Rightarrow> io" where
  "bare_dma_start_2d dst src sz dst_stride src_stride repeat k =
     Insn (R_TYPE_ENCODE DMSRC_FUNCT7 13 12 XDMA_FUNCT3 0 OP_CUSTOM1) [lo32 src, hi32 src] (\<lambda>_.
     Insn (R_TYPE_ENCODE DMDST_FUNCT7 11 10 XDMA_FUNCT3 0 OP_CUSTOM1) [lo32 dst, hi32 dst] (\<lambda>_.
     Insn (R_TYPE_ENCODE DMSTR_FUNCT7 15 16 XDMA_FUNCT3 0 OP_CUSTOM1) [src_stride, dst_stride] (\<lambda>_.
     Insn (R_TYPE_ENCODE DMREP_FUNCT7 0 17 XDMA_FUNCT3 0 OP_CUSTOM1) [repeat] (\<lambda>_.
     Insn (R_TYPE_ENCODE DMCPYI_FUNCT7 0b00010 14 XDMA_FUNCT3 10 OP_CUSTOM1) [sz] k))))"

definition bare_dma_set_mask :: "u16 \<Rightarrow> u16 \<Rightarrow> io \<Rightarrow> io" where
  "bare_dma_set_mask row_mask col_mask k =
     (let mask = ucast col_mask; mask = push_bit 16 mask OR ucast row_mask in
      Insn (R_TYPE_ENCODE DMMASK_FUNCT7 15 15 XDMA_FUNCT3 15 OP_CUSTOM1) [mask, mask] (\<lambda>_. k))"

definition bare_dma_start_1d_broadcast :: "u64 \<Rightarrow> u64 \<Rightarrow> u32 \<Rightarrow> u16 \<Rightarrow> u16 \<Rightarrow> (u32 \<Rightarrow> io) \<Rightarrow> io" where
  "bare_dma_start_1d_broadcast dst src sz row_mask col_mask k =
     bare_dma_set_mask row_mask col_mask (
     Insn (R_TYPE_ENCODE DMSRC_FUNCT7 13 12 XDMA_FUNCT3 0 OP_CUSTOM1) [lo32 src, hi32 src] (\<lambda>_.
     Insn (R_TYPE_ENCODE DMDST_FUNCT7 11 10 XDMA_FUNCT3 0 OP_CUSTOM1) [lo32 dst, hi32 dst] (\<lambda>_.
     Insn (R_TYPE_ENCODE DMCPYC_FUNCT7 0b00001 14 XDMA_FUNCT3 10 OP_CUSTOM1) [sz] k)))"

text \<open>The \<open>rs2\<close> field of the copy instruction selects the reduction.\<close>

definition reduction_code :: "collective_compute_format_t \<Rightarrow> u32" where
  "reduction_code fmt =
     (case fmt of
        COLLECTIVE_REDADD_UINT_16 \<Rightarrow> 0b00010
      | COLLECTIVE_REDADD_INT_16 \<Rightarrow> 0b00011
      | COLLECTIVE_REDADD_FP_16 \<Rightarrow> 0b00100
      | COLLECTIVE_REDMAX_UINT_16 \<Rightarrow> 0b00101
      | COLLECTIVE_REDMAX_INT_16 \<Rightarrow> 0b00110
      | COLLECTIVE_REDMAX_FP_16 \<Rightarrow> 0b00111)"

definition bare_dma_start_1d_reduction ::
    "u64 \<Rightarrow> u64 \<Rightarrow> u32 \<Rightarrow> collective_compute_format_t \<Rightarrow> u16 \<Rightarrow> u16 \<Rightarrow> (u32 \<Rightarrow> io) \<Rightarrow> io" where
  "bare_dma_start_1d_reduction dst src sz fmt row_mask col_mask k =
     bare_dma_set_mask row_mask col_mask (
     Insn (R_TYPE_ENCODE DMSRC_FUNCT7 13 12 XDMA_FUNCT3 0 OP_CUSTOM1) [lo32 src, hi32 src] (\<lambda>_.
     Insn (R_TYPE_ENCODE DMDST_FUNCT7 11 10 XDMA_FUNCT3 0 OP_CUSTOM1) [lo32 dst, hi32 dst] (\<lambda>_.
     Insn (R_TYPE_ENCODE DMCPYC_FUNCT7 (reduction_code fmt) 14 XDMA_FUNCT3 10 OP_CUSTOM1) [sz] k)))"

definition bare_dma_wait_all :: "io \<Rightarrow> io" where
  "bare_dma_wait_all k = Poll (R_TYPE_ENCODE DMSTATI_FUNCT7 0b10 0 XDMA_FUNCT3 5 OP_CUSTOM1) k"

subsection \<open>Asynchronous and synchronous interface\<close>

definition flex_dma_async_1d :: "u64 \<Rightarrow> u64 \<Rightarrow> u32 \<Rightarrow> io \<Rightarrow> io" where
  "flex_dma_async_1d dst_addr src_addr transfer_size k =
     bare_dma_start_1d dst_addr src_addr transfer_size (\<lambda>_. k)"

definition flex_dma_async_2d :: "u64 \<Rightarrow> u64 \<Rightarrow> u32 \<Rightarrow> u32 \<Rightarrow> u32 \<Rightarrow> u32 \<Rightarrow> io \<Rightarrow> io" where
  "flex_dma_async_2d dst_addr src_addr transfer_size dst_stride src_stride repeat k =
     bare_dma_start_2d dst_addr src_addr transfer_size dst_stride src_stride repeat (\<lambda>_. k)"

text \<open>The offsets of the collective transfers are 64 bits wide; the address macros add in 64 bits
  when their operand has 64 bits.\<close>

definition remote_pos64 :: "arch \<Rightarrow> FlexPosition \<Rightarrow> u64 \<Rightarrow> u64" where
  "remote_pos64 A pos offset =
     ucast (ARCH_CLUSTER_TCDM_REMOTE A + cluster_index A (pos_x pos) (pos_y pos) * ARCH_CLUSTER_TCDM_SIZE A) + offset"

definition local64 :: "arch \<Rightarrow> u64 \<Rightarrow> u64" where
  "local64 A offset = ucast (ARCH_CLUSTER_TCDM_BASE A) + offset"

definition flex_dma_async_broadcast :: "arch \<Rightarrow> u64 \<Rightarrow> u64 \<Rightarrow> u32 \<Rightarrow> u16 \<Rightarrow> u16 \<Rightarrow> io \<Rightarrow> io" where
  "flex_dma_async_broadcast A dst_offset src_offset transfer_size row_mask col_mask k =
     flex_get_cluster_id A (\<lambda>cid. let pos = get_pos A cid in
     bare_dma_start_1d_broadcast (remote_pos64 A pos dst_offset) (local64 A src_offset)
       transfer_size row_mask col_mask (\<lambda>_. k))"

definition flex_dma_async_reduction ::
    "arch \<Rightarrow> u64 \<Rightarrow> u64 \<Rightarrow> u32 \<Rightarrow> collective_compute_format_t \<Rightarrow> u16 \<Rightarrow> u16 \<Rightarrow> io \<Rightarrow> io" where
  "flex_dma_async_reduction A dst_offset src_offset transfer_size fmt row_mask col_mask k =
     flex_get_cluster_id A (\<lambda>cid. let pos = get_pos A cid in
     bare_dma_start_1d_reduction (local64 A dst_offset) (remote_pos64 A pos src_offset)
       transfer_size fmt row_mask col_mask (\<lambda>_. k))"

definition flex_dma_async_wait_all :: "io \<Rightarrow> io" where
  "flex_dma_async_wait_all k = bare_dma_wait_all k"

definition flex_dma_sync_2d :: "u64 \<Rightarrow> u64 \<Rightarrow> u32 \<Rightarrow> u32 \<Rightarrow> u32 \<Rightarrow> u32 \<Rightarrow> io \<Rightarrow> io" where
  "flex_dma_sync_2d dst_addr src_addr transfer_size dst_stride src_stride repeat k =
     bare_dma_start_2d dst_addr src_addr transfer_size dst_stride src_stride repeat (\<lambda>_. bare_dma_wait_all k)"

definition flex_dma_async_Load_HBM_1d :: "arch \<Rightarrow> u32 \<Rightarrow> u32 \<Rightarrow> u32 \<Rightarrow> io \<Rightarrow> io" where
  "flex_dma_async_Load_HBM_1d A local_offset hbm_offset transfer_size k =
     bare_dma_start_1d (ucast (local_addr A local_offset)) (hbm_addr A hbm_offset) transfer_size (\<lambda>_. k)"

definition flex_dma_async_Store_HBM_1d :: "arch \<Rightarrow> u32 \<Rightarrow> u32 \<Rightarrow> u32 \<Rightarrow> io \<Rightarrow> io" where
  "flex_dma_async_Store_HBM_1d A local_offset hbm_offset transfer_size k =
     bare_dma_start_1d (hbm_addr A hbm_offset) (ucast (local_addr A local_offset)) transfer_size (\<lambda>_. k)"

subsection \<open>Traffic patterns\<close>

text \<open>Asynchronous interface: start the transfer only.\<close>

definition flex_dma_async_pattern_round_shift_right :: "arch \<Rightarrow> u32 \<Rightarrow> u32 \<Rightarrow> u32 \<Rightarrow> io \<Rightarrow> io" where
  "flex_dma_async_pattern_round_shift_right A local_offset remote_offset transfer_size k =
     flex_get_cluster_id A (\<lambda>cid. let pos = get_pos A cid in
     bare_dma_start_1d (ucast (local_addr A local_offset)) (ucast (remote_pos A (left_pos A pos) remote_offset))
       transfer_size (\<lambda>_. k))"

definition flex_dma_async_pattern_round_shift_left :: "arch \<Rightarrow> u32 \<Rightarrow> u32 \<Rightarrow> u32 \<Rightarrow> io \<Rightarrow> io" where
  "flex_dma_async_pattern_round_shift_left A local_offset remote_offset transfer_size k =
     flex_get_cluster_id A (\<lambda>cid. let pos = get_pos A cid in
     bare_dma_start_1d (ucast (local_addr A local_offset)) (ucast (remote_pos A (right_pos A pos) remote_offset))
       transfer_size (\<lambda>_. k))"

definition flex_dma_async_pattern_round_shift_up :: "arch \<Rightarrow> u32 \<Rightarrow> u32 \<Rightarrow> u32 \<Rightarrow> io \<Rightarrow> io" where
  "flex_dma_async_pattern_round_shift_up A local_offset remote_offset transfer_size k =
     flex_get_cluster_id A (\<lambda>cid. let pos = get_pos A cid in
     bare_dma_start_1d (ucast (local_addr A local_offset)) (ucast (remote_pos A (bottom_pos A pos) remote_offset))
       transfer_size (\<lambda>_. k))"

definition flex_dma_async_pattern_all_to_one :: "arch \<Rightarrow> u32 \<Rightarrow> u32 \<Rightarrow> u32 \<Rightarrow> io \<Rightarrow> io" where
  "flex_dma_async_pattern_all_to_one A local_offset remote_offset transfer_size k =
     flex_get_cluster_id A (\<lambda>cid. let pos = get_pos A cid in
     bare_dma_start_1d (ucast (local_addr A local_offset)) (ucast (remote_xy A 0 0 remote_offset))
       transfer_size (\<lambda>_. k))"

definition flex_dma_async_pattern_dialog_to_dialog :: "arch \<Rightarrow> u32 \<Rightarrow> u32 \<Rightarrow> u32 \<Rightarrow> io \<Rightarrow> io" where
  "flex_dma_async_pattern_dialog_to_dialog A local_offset remote_offset transfer_size k =
     flex_get_cluster_id A (\<lambda>cid. let pos = get_pos A cid in
     bare_dma_start_1d (ucast (local_addr A local_offset)) (ucast (remote_xy A (pos_y pos) (pos_x pos) remote_offset))
       transfer_size (\<lambda>_. k))"

definition flex_dma_async_pattern_access_west_hbm :: "arch \<Rightarrow> u32 \<Rightarrow> u32 \<Rightarrow> u32 \<Rightarrow> io \<Rightarrow> io" where
  "flex_dma_async_pattern_access_west_hbm A local_offset remote_offset transfer_size k =
     flex_get_cluster_id A (\<lambda>cid. let pos = get_pos A cid in
     bare_dma_start_1d (ucast (local_addr A local_offset)) (hbm_west A (pos_y pos) remote_offset)
       transfer_size (\<lambda>_. k))"

definition flex_dma_async_pattern_access_south_hbm :: "arch \<Rightarrow> u32 \<Rightarrow> u32 \<Rightarrow> u32 \<Rightarrow> io \<Rightarrow> io" where
  "flex_dma_async_pattern_access_south_hbm A local_offset remote_offset transfer_size k =
     flex_get_cluster_id A (\<lambda>cid. let pos = get_pos A cid in
     bare_dma_start_1d (ucast (local_addr A local_offset)) (hbm_south A (pos_x pos) remote_offset)
       transfer_size (\<lambda>_. k))"

text \<open>Synchronous interface: start the transfer and wait.\<close>

definition flex_dma_pattern_round_shift_right :: "arch \<Rightarrow> u32 \<Rightarrow> u32 \<Rightarrow> u32 \<Rightarrow> io \<Rightarrow> io" where
  "flex_dma_pattern_round_shift_right A local_offset remote_offset transfer_size k =
     flex_get_cluster_id A (\<lambda>cid. let pos = get_pos A cid in
     bare_dma_start_1d (ucast (local_addr A local_offset)) (ucast (remote_pos A (left_pos A pos) remote_offset))
       transfer_size (\<lambda>_. bare_dma_wait_all k))"

definition flex_dma_pattern_round_shift_left :: "arch \<Rightarrow> u32 \<Rightarrow> u32 \<Rightarrow> u32 \<Rightarrow> io \<Rightarrow> io" where
  "flex_dma_pattern_round_shift_left A local_offset remote_offset transfer_size k =
     flex_get_cluster_id A (\<lambda>cid. let pos = get_pos A cid in
     bare_dma_start_1d (ucast (local_addr A local_offset)) (ucast (remote_pos A (right_pos A pos) remote_offset))
       transfer_size (\<lambda>_. bare_dma_wait_all k))"

definition flex_dma_pattern_round_shift_up :: "arch \<Rightarrow> u32 \<Rightarrow> u32 \<Rightarrow> u32 \<Rightarrow> io \<Rightarrow> io" where
  "flex_dma_pattern_round_shift_up A local_offset remote_offset transfer_size k =
     flex_get_cluster_id A (\<lambda>cid. let pos = get_pos A cid in
     bare_dma_start_1d (ucast (local_addr A local_offset)) (ucast (remote_pos A (bottom_pos A pos) remote_offset))
       transfer_size (\<lambda>_. bare_dma_wait_all k))"

definition flex_dma_pattern_all_to_one :: "arch \<Rightarrow> u32 \<Rightarrow> u32 \<Rightarrow> u32 \<Rightarrow> io \<Rightarrow> io" where
  "flex_dma_pattern_all_to_one A local_offset remote_offset transfer_size k =
     flex_get_cluster_id A (\<lambda>cid. let pos = get_pos A cid in
     bare_dma_start_1d (ucast (local_addr A local_offset)) (ucast (remote_xy A 0 0 remote_offset))
       transfer_size (\<lambda>_. bare_dma_wait_all k))"

definition flex_dma_pattern_dialog_to_dialog :: "arch \<Rightarrow> u32 \<Rightarrow> u32 \<Rightarrow> u32 \<Rightarrow> io \<Rightarrow> io" where
  "flex_dma_pattern_dialog_to_dialog A local_offset remote_offset transfer_size k =
     flex_get_cluster_id A (\<lambda>cid. let pos = get_pos A cid in
     bare_dma_start_1d (ucast (local_addr A local_offset)) (ucast (remote_xy A (pos_y pos) (pos_x pos) remote_offset))
       transfer_size (\<lambda>_. bare_dma_wait_all k))"

definition flex_dma_pattern_access_west_hbm :: "arch \<Rightarrow> u32 \<Rightarrow> u32 \<Rightarrow> u32 \<Rightarrow> io \<Rightarrow> io" where
  "flex_dma_pattern_access_west_hbm A local_offset remote_offset transfer_size k =
     flex_get_cluster_id A (\<lambda>cid. let pos = get_pos A cid in
     bare_dma_start_1d (ucast (local_addr A local_offset)) (hbm_west A (pos_y pos) remote_offset)
       transfer_size (\<lambda>_. bare_dma_wait_all k))"

definition flex_dma_pattern_systolic_shift_west_south :: "arch \<Rightarrow> u32 \<Rightarrow> u32 \<Rightarrow> u32 \<Rightarrow> io \<Rightarrow> io" where
  "flex_dma_pattern_systolic_shift_west_south A local_offset remote_offset transfer_size k =
     flex_get_cluster_id A (\<lambda>cid. let pos = get_pos A cid; dst = ucast (local_addr A local_offset) in
     (if pos_x pos = 0
      then bare_dma_start_1d dst (hbm_west A (pos_y pos) remote_offset) transfer_size
      else bare_dma_start_1d dst (ucast (remote_pos A (left_pos A pos) remote_offset)) transfer_size)
     (\<lambda>_.
     (if pos_y pos = 0
      then bare_dma_start_1d dst (hbm_south A (pos_x pos) remote_offset) transfer_size
      else bare_dma_start_1d dst (ucast (remote_pos A (bottom_pos A pos) remote_offset)) transfer_size)
     (\<lambda>_. bare_dma_wait_all k)))"

subsection \<open>Dump registers\<close>

text \<open>\<open>reg_size\<close> is \<open>ARCH_CLUSTER_REG_SIZE\<close> of the generated header.\<close>

definition flex_dump_open :: "arch \<Rightarrow> u32 \<Rightarrow> io \<Rightarrow> io" where
  "flex_dump_open A reg_size k =
     flex_get_enable_value A (\<lambda>v. Wr (ARCH_CLUSTER_REG_BASE A + reg_size) v k)"

definition flex_dump_stamp :: "arch \<Rightarrow> u32 \<Rightarrow> io \<Rightarrow> io" where
  "flex_dump_stamp A reg_size k =
     flex_get_enable_value A (\<lambda>v. Wr (ARCH_CLUSTER_REG_BASE A + reg_size + 4) v k)"

definition flex_dump_close :: "arch \<Rightarrow> u32 \<Rightarrow> io \<Rightarrow> io" where
  "flex_dump_close A reg_size k =
     flex_get_enable_value A (\<lambda>v. Wr (ARCH_CLUSTER_REG_BASE A + reg_size + 8) v k)"

definition flex_dump_set_lower_base :: "arch \<Rightarrow> u32 \<Rightarrow> u32 \<Rightarrow> io \<Rightarrow> io" where
  "flex_dump_set_lower_base A reg_size val k = Wr (ARCH_CLUSTER_REG_BASE A + reg_size + 12) val k"

definition flex_dump_set_upper_base :: "arch \<Rightarrow> u32 \<Rightarrow> u32 \<Rightarrow> io \<Rightarrow> io" where
  "flex_dump_set_upper_base A reg_size val k = Wr (ARCH_CLUSTER_REG_BASE A + reg_size + 16) val k"

definition flex_dump_set_base :: "arch \<Rightarrow> u32 \<Rightarrow> u64 \<Rightarrow> io \<Rightarrow> io" where
  "flex_dump_set_base A reg_size val k =
     flex_dump_set_lower_base A reg_size (lo32 val)
     (flex_dump_set_upper_base A reg_size (hi32 val) (flex_dump_stamp A reg_size k))"

definition flex_dump_hbm :: "arch \<Rightarrow> u32 \<Rightarrow> u64 \<Rightarrow> u32 \<Rightarrow> io \<Rightarrow> io" where
  "flex_dump_hbm A reg_size hbm_offset sz k =
     flex_dump_set_base A reg_size hbm_offset
     (flex_dma_async_1d (ucast (ARCH_CLUSTER_TCDM_BASE A + ARCH_CLUSTER_TCDM_SIZE A))
       (ucast (ARCH_HBM_START_BASE A) + hbm_offset) sz
     (flex_dma_async_wait_all k))"

end
