(* ===== verification/Flex_Redmule.thy ===== *)
theory Flex_Redmule
  imports Flex_Runtime
begin

text \<open>
  The matrix engine interface of \<open>flex_redmule.h\<close>: a configuration instruction with the three sizes
  packed into two registers, a trigger instruction whose word encodes the data format, and the
  status register.
\<close>

datatype redmule_compute_format_t =
    REDMULE_NONE_16
  | REDMULE_UINT_16
  | REDMULE_INT_16
  | REDMULE_FP_16
  | REDMULE_UINT_8
  | REDMULE_INT_8
  | REDMULE_FP_8

text \<open>\<open>t3\<close> and \<open>t4\<close> hold the two configuration words; \<open>k_size << 16\<close> is computed in 32 bits.\<close>

definition flex_redmule_config :: "u16 \<Rightarrow> u16 \<Rightarrow> u16 \<Rightarrow> io \<Rightarrow> io" where
  "flex_redmule_config m_size n_size k_size k =
     (let cfg_reg0 = push_bit 16 (ucast k_size) OR ucast m_size;
          cfg_reg1 = ucast n_size
      in Insn (push_bit 25 0x0 OR push_bit 20 0b11101 OR push_bit 15 0b11100 OR push_bit 7 0x00 OR 0b0001010)
           [cfg_reg0, cfg_reg1] (\<lambda>_. k))"

text \<open>The words of the trigger instruction differ in the data format field only.\<close>

definition redmule_word :: "u32 \<Rightarrow> u32" where
  "redmule_word data_format =
     push_bit 27 0b00111 OR push_bit 25 0b00 OR push_bit 20 0b00110 OR push_bit 15 0b00101 OR
     push_bit 14 0b0 OR push_bit 13 0b0 OR push_bit 10 0b000 OR push_bit 7 data_format OR 0b0101010"

definition flex_redmule_trigger :: "u32 \<Rightarrow> u32 \<Rightarrow> u32 \<Rightarrow> redmule_compute_format_t \<Rightarrow> io \<Rightarrow> io" where
  "flex_redmule_trigger x_addr w_addr y_addr fmt k =
     (let arith = (\<lambda>data_format. Insn (redmule_word data_format) [x_addr, w_addr, y_addr] (\<lambda>_. k)) in
      case fmt of
        REDMULE_NONE_16 \<Rightarrow> arith 0b000
      | REDMULE_UINT_16 \<Rightarrow> arith 0b001
      | REDMULE_INT_16 \<Rightarrow> arith 0b010
      | REDMULE_FP_16 \<Rightarrow> arith 0b011
      | REDMULE_UINT_8 \<Rightarrow> arith 0b101
      | REDMULE_INT_8 \<Rightarrow> arith 0b110
      | REDMULE_FP_8 \<Rightarrow> arith 0b111)"

definition flex_redmule_wait :: "arch \<Rightarrow> (u32 \<Rightarrow> io) \<Rightarrow> io" where
  "flex_redmule_wait A k = Rd (ARCH_REDMULE_REG_BASE A + 40) k"

end
