(* ===== verification/Flex_DMA_Props.thy ===== *)
theory Flex_DMA_Props
  imports Flex_DMA Flex_Redmule Flex_Hw
begin

text \<open>
  What the instruction sequences of \<open>Flex_DMA\<close> and \<open>Flex_Redmule\<close> ask of the hardware.  \<open>issued\<close>
  is the list of custom instructions a program issues on a cluster, \<open>dma_request\<close> reads such a list
  the way the iDMA instruction set is documented: \<open>dmsrc\<close>, \<open>dmdst\<close>, \<open>dmstr\<close>, \<open>dmrep\<close> and \<open>dmmask\<close>
  set registers, \<open>dmcpyi\<close> and \<open>dmcpyc\<close> start a transfer.
\<close>

subsection \<open>Fields of an instruction word\<close>

definition funct7_of :: "u32 \<Rightarrow> u32" where "funct7_of w = drop_bit 25 w"
definition rs2_of :: "u32 \<Rightarrow> u32" where "rs2_of w = take_bit 5 (drop_bit 20 w)"
definition rs1_of :: "u32 \<Rightarrow> u32" where "rs1_of w = take_bit 5 (drop_bit 15 w)"
definition funct3_of :: "u32 \<Rightarrow> u32" where "funct3_of w = take_bit 3 (drop_bit 12 w)"
definition rd_of :: "u32 \<Rightarrow> u32" where "rd_of w = take_bit 5 (drop_bit 7 w)"
definition opcode_of :: "u32 \<Rightarrow> u32" where "opcode_of w = take_bit 7 w"

lemma bit_take_id: "x = take_bit n (x :: u32) \<Longrightarrow> bit x i \<Longrightarrow> i < n"
  by (metis bit_take_bit_iff)

lemma encode_fields:
  assumes "f7 = take_bit 7 f7" "rs2 = take_bit 5 rs2" "rs1 = take_bit 5 rs1" "f3 = take_bit 3 f3"
    "rd = take_bit 5 rd" "opc = take_bit 7 opc"
  defines "w \<equiv> R_TYPE_ENCODE f7 rs2 rs1 f3 rd opc"
  shows "funct7_of w = f7" and "rs2_of w = rs2" and "rs1_of w = rs1" and "funct3_of w = f3" and "rd_of w = rd"
    and "opcode_of w = opc"
proof -
  note b = assms(1-6) [THEN bit_take_id]
  show "funct7_of w = f7" unfolding w_def R_TYPE_ENCODE_def funct7_of_def
    by (rule bit_eqI) (use b in \<open>fastforce simp: bit_simps\<close>)
  show "rs2_of w = rs2" unfolding w_def R_TYPE_ENCODE_def rs2_of_def
    by (rule bit_eqI) (use b in \<open>fastforce simp: bit_simps\<close>)
  show "rs1_of w = rs1" unfolding w_def R_TYPE_ENCODE_def rs1_of_def
    by (rule bit_eqI) (use b in \<open>fastforce simp: bit_simps\<close>)
  show "funct3_of w = f3" unfolding w_def R_TYPE_ENCODE_def funct3_of_def
    by (rule bit_eqI) (use b in \<open>fastforce simp: bit_simps\<close>)
  show "rd_of w = rd" unfolding w_def R_TYPE_ENCODE_def rd_of_def
    by (rule bit_eqI) (use b in \<open>fastforce simp: bit_simps\<close>)
  show "opcode_of w = opc" unfolding w_def R_TYPE_ENCODE_def opcode_of_def
    by (rule bit_eqI) (use b in \<open>fastforce simp: bit_simps\<close>)
qed

subsection \<open>Requests\<close>

primrec issued :: "arch \<Rightarrow> u32 \<Rightarrow> io \<Rightarrow> (u32 \<times> u32 list) list" where
  "issued A cid Halt = []"
| "issued A cid (Rd a k) = (if a = ARCH_CLUSTER_REG_BASE A then issued A cid (k cid) else [])"
| "issued A cid (Wr a v k) = issued A cid k"
| "issued A cid (Amo a v k) = []"
| "issued A cid (Spin a v k) = []"
| "issued A cid (Csr_Hartid k) = []"
| "issued A cid (Csr_Sync k) = issued A cid k"
| "issued A cid (Insn w rs k) = (w, rs) # issued A cid (k 0)"
| "issued A cid (Poll w k) = (w, []) # issued A cid k"
| "issued A cid (Heap_Init b base sz k) = issued A cid k"
| "issued A cid (Malloc b sz k) = []"
| "issued A cid (Free b p k) = issued A cid k"
| "issued A cid (Printf l k) = issued A cid k"
| "issued A cid (Tick k) = issued A cid k"

record dma_regs =
  r_src :: u64
  r_dst :: u64
  r_src_stride :: u32
  r_dst_stride :: u32
  r_reps :: u32
  r_mask :: u32

datatype transfer =
    Copy_1D u64 u64 u32
  | Copy_2D u64 u64 u32 u32 u32 u32
  | Collective u32 u16 u16 u64 u64 u32
  | Wait_All

definition cat64 :: "u32 \<Rightarrow> u32 \<Rightarrow> u64" where
  "cat64 lo hi = push_bit 32 (ucast hi) OR ucast lo"

fun dma_request :: "dma_regs \<Rightarrow> (u32 \<times> u32 list) list \<Rightarrow> transfer list" where
  "dma_request r [] = []"
| "dma_request r ((w, rs) # insns) =
     (let f = funct7_of w; cfg = rs2_of w in
      if f = DMSRC_FUNCT7 then dma_request (r\<lparr>r_src := cat64 (rs ! 0) (rs ! 1)\<rparr>) insns
      else if f = DMDST_FUNCT7 then dma_request (r\<lparr>r_dst := cat64 (rs ! 0) (rs ! 1)\<rparr>) insns
      else if f = DMSTR_FUNCT7 then dma_request (r\<lparr>r_src_stride := rs ! 0, r_dst_stride := rs ! 1\<rparr>) insns
      else if f = DMREP_FUNCT7 then dma_request (r\<lparr>r_reps := rs ! 0\<rparr>) insns
      else if f = DMMASK_FUNCT7 then dma_request (r\<lparr>r_mask := rs ! 1\<rparr>) insns
      else if f = DMCPYI_FUNCT7 then
        (if cfg = 0 then Copy_1D (r_dst r) (r_src r) (rs ! 0)
         else Copy_2D (r_dst r) (r_src r) (rs ! 0) (r_dst_stride r) (r_src_stride r) (r_reps r))
        # dma_request r insns
      else if f = DMCPYC_FUNCT7 then
        Collective cfg (ucast (r_mask r)) (ucast (drop_bit 16 (r_mask r))) (r_dst r) (r_src r) (rs ! 0)
        # dma_request r insns
      else if f = DMSTATI_FUNCT7 then Wait_All # dma_request r insns
      else dma_request r insns)"

lemma ucast64_eq: "(ucast (x :: u32) :: u64) = ucast y \<longleftrightarrow> x = y"
  by (metis unat_ucast64 unat_eq_iff32)

lemma cat64_halves [simp]: "cat64 (lo32 x) (hi32 x) = x"
  unfolding cat64_def lo32_def hi32_def by (rule bit_eqI) (auto simp: bit_simps)

lemma mask_halves [simp]:
  "ucast (push_bit 16 (ucast (c :: u16)) OR ucast (r :: u16) :: u32) = r"
  "ucast (drop_bit 16 (push_bit 16 (ucast (c :: u16)) OR ucast (r :: u16) :: u32)) = c"
  "ucast (drop_bit 16 (push_bit 16 (ucast (c :: u16))) OR drop_bit 16 (ucast (r :: u16)) :: u32) = c"
proof -
  have r: "bit r i \<Longrightarrow> i < 16" for i using bit_imp_le_length [of r i] by simp
  show "ucast (push_bit 16 (ucast c) OR ucast r :: u32) = r"
    by (rule bit_eqI) (auto simp: bit_simps)
  show "ucast (drop_bit 16 (push_bit 16 (ucast c) OR ucast r :: u32)) = c"
    by (rule bit_eqI) (use r in \<open>fastforce simp: bit_simps\<close>)
  then show "ucast (drop_bit 16 (push_bit 16 (ucast c)) OR drop_bit 16 (ucast r) :: u32) = c" by simp
qed

text \<open>The function codes are fields of their words; the requests of each instruction.\<close>

lemmas dma_consts = OP_CUSTOM1_def XDMA_FUNCT3_def DMSRC_FUNCT7_def DMDST_FUNCT7_def DMCPYI_FUNCT7_def
  DMCPYC_FUNCT7_def DMSTATI_FUNCT7_def DMMASK_FUNCT7_def DMSTR_FUNCT7_def DMREP_FUNCT7_def

lemma take_bit_small:
  assumes "x < (2 :: u32) ^ n" and "n < 32"
  shows "x = take_bit n x"
proof -
  have "(2 :: nat) ^ n < 2 ^ 32" using assms(2) by (intro power_strict_increasing) simp_all
  then have "unat ((2 :: u32) ^ n) = 2 ^ n" using unat_of_nat32 [of "2 ^ n"] by simp
  then have "unat x < 2 ^ n" using assms(1) by (simp add: word_less_nat_alt)
  then show ?thesis by (simp add: unat_eq_iff32 unsigned_take_bit_eq take_bit_nat_eq_self)
qed

lemma dma_word:
  assumes "f7 < 128" and "cfg < 32" and "rs1 < 32" and "rd < 32"
  shows "funct7_of (R_TYPE_ENCODE f7 cfg rs1 0 rd 43) = f7" and "rs2_of (R_TYPE_ENCODE f7 cfg rs1 0 rd 43) = cfg"
  using encode_fields(1,2) [of f7 cfg rs1 0 rd 43] assms
    take_bit_small [of f7 7] take_bit_small [of cfg 5] take_bit_small [of rs1 5] take_bit_small [of rd 5]
  by simp_all

lemma reduction_code_cases: "reduction_code fmt \<in> {2, 3, 4, 5, 6, 7}"
  by (cases fmt) (simp_all add: reduction_code_def)

lemmas dma_step = dma_request.simps(2) dma_word Let_def
lemmas dma_starts = bare_dma_start_1d_def bare_dma_start_2d_def bare_dma_set_mask_def
  bare_dma_start_1d_broadcast_def bare_dma_start_1d_reduction_def bare_dma_wait_all_def

text \<open>The transfers a cluster requests, from any state of the DMA registers.\<close>

definition transfers :: "arch \<Rightarrow> u32 \<Rightarrow> dma_regs \<Rightarrow> io \<Rightarrow> transfer list" where
  "transfers A cid r p = dma_request r (issued A cid p)"

lemma transfers_1d:
  "transfers A cid r (bare_dma_start_1d dst src sz k) =
    Copy_1D dst src sz # transfers A cid (r\<lparr>r_src := src, r_dst := dst\<rparr>) (k 0)"
  by (simp add: transfers_def dma_starts dma_consts dma_step)

lemma transfers_wait: "transfers A cid r (bare_dma_wait_all k) = Wait_All # transfers A cid r k"
  by (simp add: transfers_def dma_starts dma_consts dma_step)

lemma transfers_Halt: "transfers A cid r Halt = []"
  by (simp add: transfers_def)

lemma transfers_cid: "transfers A cid r (flex_get_cluster_id A k) = transfers A cid r (k cid)"
  by (simp add: transfers_def flex_get_cluster_id_def)

lemmas transfers_simps = transfers_1d transfers_wait transfers_Halt transfers_cid

subsection \<open>Properties\<close>

text \<open>C34: Every start function of the DMA header requests exactly the transfer of its arguments: the
  64-bit addresses come together again from the two registers, sizes, strides, repetitions and
  masks arrive in their fields, and the reduction format selects a collective operation of its own.\<close>

theorem dma_requests_exact:
  "transfers A cid r (bare_dma_start_1d dst src sz (\<lambda>_. Halt)) = [Copy_1D dst src sz]
    \<and> transfers A cid r (bare_dma_start_2d dst src sz dstr sstr reps (\<lambda>_. Halt)) =
        [Copy_2D dst src sz dstr sstr reps]
    \<and> transfers A cid r (bare_dma_start_1d_broadcast dst src sz row col (\<lambda>_. Halt)) =
        [Collective 1 row col dst src sz]
    \<and> transfers A cid r (bare_dma_start_1d_reduction dst src sz fmt row col (\<lambda>_. Halt)) =
        [Collective (reduction_code fmt) row col dst src sz]
    \<and> inj reduction_code \<and> 1 \<notin> range reduction_code"
proof -
  have red: "transfers A cid r (bare_dma_start_1d_reduction dst src sz fmt row col (\<lambda>_. Halt)) =
      [Collective (reduction_code fmt) row col dst src sz]"
    using reduction_code_cases [of fmt] by (auto simp: transfers_def dma_starts dma_consts dma_step)
  have inj: "inj reduction_code"
    by (rule injI) (simp add: reduction_code_def split: collective_compute_format_t.splits)
  have "reduction_code f \<noteq> 1" for f using reduction_code_cases [of f] by auto
  then have one: "1 \<notin> range reduction_code" by (metis rangeE)
  have bro: "transfers A cid r (bare_dma_start_1d_broadcast dst src sz row col (\<lambda>_. Halt)) =
      [Collective 1 row col dst src sz]"
    by (simp add: transfers_def dma_starts dma_consts dma_step)
  have two: "transfers A cid r (bare_dma_start_2d dst src sz dstr sstr reps (\<lambda>_. Halt)) =
      [Copy_2D dst src sz dstr sstr reps]"
    by (simp add: transfers_def dma_starts dma_consts dma_step)
  show ?thesis using red inj one bro two by (simp add: transfers_simps)
qed

text \<open>C35: In a synchronous round shift every cluster loads one window and waits, and the loads of all
  clusters form a permutation of the mesh: the window of cluster \<open>p\<close> is read by its right (left,
  upper) neighbour and by no other cluster.\<close>

theorem round_shift_permutes:
  fixes l sz :: u32
  assumes "arch_ok A" and "off < ARCH_CLUSTER_TCDM_SIZE A" and "on_mesh A p" and "on_mesh A q"
  defines "cid \<equiv> cluster_index A (pos_x q) (pos_y q)"
    and "load \<equiv> [Copy_1D (ucast (local_addr A l)) (ucast (remote_pos A p off)) sz, Wait_All]"
  shows "(transfers A cid r (flex_dma_pattern_round_shift_right A l off sz Halt) = load \<longleftrightarrow> q = right_pos A p)
    \<and> (transfers A cid r (flex_dma_pattern_round_shift_left A l off sz Halt) = load \<longleftrightarrow> q = left_pos A p)
    \<and> (transfers A cid r (flex_dma_pattern_round_shift_up A l off sz Halt) = load \<longleftrightarrow> q = top_pos A p)"
proof -
  note np = neighbours [OF assms(1,3)] and nq = neighbours [OF assms(1,4)]
  have q: "get_pos A cid = q" using get_pos_cluster_index [OF assms(1,4)] by (simp add: cid_def)
  have same: "(ucast (remote_pos A a off) :: u64) = ucast (remote_pos A p off) \<longleftrightarrow> a = p" if "on_mesh A a" for a
    using remote_pos_eq [OF assms(1) that assms(3,2,2)] by (simp add: ucast64_eq)
  have inv: "left_pos A q = p \<longleftrightarrow> q = right_pos A p" "right_pos A q = p \<longleftrightarrow> q = left_pos A p"
    "bottom_pos A q = p \<longleftrightarrow> q = top_pos A p"
    using np nq by metis+
  show ?thesis
    by (simp add: flex_dma_pattern_round_shift_right_def flex_dma_pattern_round_shift_left_def
        flex_dma_pattern_round_shift_up_def transfers_simps Let_def q load_def same nq inv)
qed

theorem round_shift_permutes_witness:
  "transfers arch_default 6 \<lparr>r_src = 0, r_dst = 0, r_src_stride = 0, r_dst_stride = 0, r_reps = 0, r_mask = 0\<rparr>
      (flex_dma_pattern_round_shift_right arch_default 0 64 128 Halt) =
    [Copy_1D 0 (ucast (remote_pos arch_default \<lparr>pos_x = 1, pos_y = 1\<rparr> 64)) 128, Wait_All]"
proof -
  have "cluster_index arch_default 2 1 = 6" by (simp add: cluster_index_def)
  then show ?thesis
    using round_shift_permutes [OF arch_default_ok, of 64 "\<lparr>pos_x = 1, pos_y = 1\<rparr>" "\<lparr>pos_x = 2, pos_y = 1\<rparr>"
        "\<lparr>r_src = 0, r_dst = 0, r_src_stride = 0, r_dst_stride = 0, r_reps = 0, r_mask = 0\<rparr>" 0 128]
    by (simp add: on_mesh_def right_pos_def local_addr_def)
qed

text \<open>The configuration instruction of the matrix engine carries the three sizes in separate
  16-bit fields, and the trigger instruction passes the three addresses and a data format that
  differs for any two formats; the source registers and the opcode are the same for all.\<close>

lemma redmule_fields:
  "(\<exists>w c0 c1. issued A cid (flex_redmule_config m n k Halt) = [(w, [c0, c1])]
      \<and> ucast c0 = m \<and> ucast (drop_bit 16 c0) = k \<and> c1 = ucast n)
    \<and> (\<forall>f g. (issued A cid (flex_redmule_trigger x w y f Halt) = issued A cid (flex_redmule_trigger x w y g Halt)) = (f = g))
    \<and> (\<forall>f. \<exists>i. issued A cid (flex_redmule_trigger x w y f Halt) = [(i, [x, w, y])]
        \<and> rs1_of i = 5 \<and> rs2_of i = 6 \<and> opcode_of i = 42)"
proof (intro conjI allI)
  show "\<exists>w c0 c1. issued A cid (flex_redmule_config m n k Halt) = [(w, [c0, c1])]
      \<and> ucast c0 = m \<and> ucast (drop_bit 16 c0) = k \<and> c1 = ucast n"
    by (simp add: flex_redmule_config_def Let_def)
next
  fix f g
  show "(issued A cid (flex_redmule_trigger x w y f Halt) = issued A cid (flex_redmule_trigger x w y g Halt)) = (f = g)"
    by (cases f; cases g) (simp_all add: flex_redmule_trigger_def redmule_word_def)
next
  fix f
  show "\<exists>i. issued A cid (flex_redmule_trigger x w y f Halt) = [(i, [x, w, y])]
        \<and> rs1_of i = 5 \<and> rs2_of i = 6 \<and> opcode_of i = 42"
    by (cases f) (simp_all add: flex_redmule_trigger_def redmule_word_def rs1_of_def rs2_of_def opcode_of_def)
qed

end
