(* ===== verification/Flex_Fp16.thy ===== *)
theory Flex_Fp16
  imports Flex_Runtime
begin

text \<open>
  The half precision routines of \<open>flex_libfp16.h\<close>.  A \<open>float\<close> is its 32 bits and an \<open>fp16\<close> its 16
  bits, so the conversions are exact; the arithmetic of the floating point unit (binary32
  multiplication and addition, the Zfh instructions) is the argument \<open>ops\<close>.
\<close>

subsection \<open>Conversions\<close>

type_synonym fp16 = u16

record FloatBits =
  fb_mantissa :: u32
  fb_exponent :: u32
  fb_sign :: u32

text \<open>The two views of the union \<open>FloatBits\<close>: bit fields of 23, 8 and 1 bits.\<close>

definition float_parts :: "u32 \<Rightarrow> FloatBits" where
  "float_parts f =
     \<lparr>fb_mantissa = take_bit 23 f, fb_exponent = take_bit 8 (drop_bit 23 f), fb_sign = drop_bit 31 f\<rparr>"

definition float_of_parts :: "FloatBits \<Rightarrow> u32" where
  "float_of_parts p =
     push_bit 31 (take_bit 1 (fb_sign p)) OR push_bit 23 (take_bit 8 (fb_exponent p)) OR take_bit 23 (fb_mantissa p)"

definition float_to_fp16 :: "u32 \<Rightarrow> fp16" where
  "float_to_fp16 value =
     (let parts = float_parts value;
          sign = push_bit 15 (ucast (fb_sign parts)) :: u16;
          exponent = uint (fb_exponent parts) - 127 + 15;
          mantissa = drop_bit 13 (fb_mantissa parts)
      in if exponent \<le> 0 then
           if exponent < - 10 then sign
           else (let mantissa = drop_bit (nat (1 - exponent)) (fb_mantissa parts OR 0x800000)
                 in sign OR ucast mantissa)
         else if exponent \<ge> 0x1F then sign OR 0x7C00
         else sign OR push_bit 10 (of_int exponent) OR ucast mantissa)"

definition fp16_to_float :: "fp16 \<Rightarrow> u32" where
  "fp16_to_float value =
     (let exponent = uint (drop_bit 10 value AND 0x1F)
      in float_of_parts
           \<lparr>fb_mantissa = push_bit 13 (ucast (value AND 0x3FF)),
            fb_exponent = (if exponent = 0 then 0 else of_int (exponent + 127 - 15)),
            fb_sign = ucast (drop_bit 15 value AND 0x1)\<rparr>)"

subsection \<open>Arithmetic\<close>

record fp_ops =
  fmul_s :: "u32 \<Rightarrow> u32 \<Rightarrow> u32"
  fadd_s :: "u32 \<Rightarrow> u32 \<Rightarrow> u32"
  fadd_h :: "fp16 \<Rightarrow> fp16 \<Rightarrow> fp16"
  fsub_h :: "fp16 \<Rightarrow> fp16 \<Rightarrow> fp16"
  fmul_h :: "fp16 \<Rightarrow> fp16 \<Rightarrow> fp16"
  fdiv_h :: "fp16 \<Rightarrow> fp16 \<Rightarrow> fp16"

definition fp16_fma :: "fp_ops \<Rightarrow> fp16 \<Rightarrow> fp16 \<Rightarrow> fp16 \<Rightarrow> fp16" where
  "fp16_fma ops a b c =
     (let fa = fp16_to_float a; fb = fp16_to_float b; fc = fp16_to_float c;
          result = fadd_s ops (fmul_s ops fa fb) fc
      in float_to_fp16 result)"

text \<open>Memory by half words: element \<open>i\<close> of an \<open>fp16\<close> array at \<open>p\<close> is at \<open>p + 2 * i\<close>.\<close>

type_synonym heap16 = "u32 \<Rightarrow> u16"

definition elem16 :: "u32 \<Rightarrow> u32 \<Rightarrow> u32" where
  "elem16 p i = p + 2 * i"

text \<open>The index expressions are \<open>int\<close> in the code; they agree with the words here while they are
  below \<open>2 ^ 31\<close>.\<close>

definition matmul_fp16 ::
    "fp_ops \<Rightarrow> u32 \<Rightarrow> u32 \<Rightarrow> u32 \<Rightarrow> u32 \<Rightarrow> u16 \<Rightarrow> u16 \<Rightarrow> u16 \<Rightarrow> heap16 \<Rightarrow> heap16" where
  "matmul_fp16 ops z y x w m_size n_size k_size =
     (let m = ucast m_size; n = ucast n_size; ks = ucast k_size in
      fold (\<lambda>i. fold (\<lambda>j mem.
        let zp = elem16 z (i * ks + j);
            mem = mem(zp := mem (elem16 y (i * ks + j)))
        in fold (\<lambda>k mem. mem(zp := fp16_fma ops (mem (elem16 x (i * n + k))) (mem (elem16 w (k * ks + j))) (mem zp)))
             (u32_range 0 n) mem) (u32_range 0 ks)) (u32_range 0 m))"

subsection \<open>Inline assembly\<close>

definition asm_fp16_div :: "fp_ops \<Rightarrow> u32 \<Rightarrow> u32 \<Rightarrow> u32 \<Rightarrow> heap16 \<Rightarrow> heap16" where
  "asm_fp16_div ops a b c mem = mem(c := fdiv_h ops (mem a) (mem b))"

text \<open>The four-term series on the registers \<open>ft0 .. ft3\<close>.\<close>

definition exp_series :: "fp_ops \<Rightarrow> fp16 \<Rightarrow> fp16" where
  "exp_series ops x =
     (let c1 = 0x3C00; cHalf = 0x3800; cOneSix = 0x3555; cOne24 = 0x2AAA;
          ft0 = x; ft1 = c1;
          ft1 = fadd_h ops ft1 ft0;
          ft2 = fmul_h ops ft0 ft0; ft3 = cHalf; ft2 = fmul_h ops ft2 ft3; ft1 = fadd_h ops ft1 ft2;
          ft2 = fmul_h ops ft2 ft0; ft3 = cOneSix; ft2 = fmul_h ops ft2 ft3; ft1 = fadd_h ops ft1 ft2;
          ft2 = fmul_h ops ft2 ft0; ft3 = cOne24; ft2 = fmul_h ops ft2 ft3; ft1 = fadd_h ops ft1 ft2
      in ft1)"

definition asm_fp16_exp :: "fp_ops \<Rightarrow> u32 \<Rightarrow> u32 \<Rightarrow> heap16 \<Rightarrow> heap16" where
  "asm_fp16_exp ops inp oup mem = mem(oup := exp_series ops (mem inp))"

text \<open>\<open>fsgnjn.h\<close> of a register with itself flips the sign bit.\<close>

definition fneg_h :: "fp16 \<Rightarrow> fp16" where
  "fneg_h x = x XOR 0x8000"

definition asm_fp16_sigmoid :: "fp_ops \<Rightarrow> u32 \<Rightarrow> u32 \<Rightarrow> heap16 \<Rightarrow> heap16" where
  "asm_fp16_sigmoid ops inp out mem =
     (let x = mem inp; negX = fneg_h x; eNegX = exp_series ops negX; sum = fadd_h ops 0x3C00 eNegX
      in mem(out := fdiv_h ops 0x3C00 sum))"

definition asm_fp16_compare :: "fp_ops \<Rightarrow> fp16 \<Rightarrow> fp16 \<Rightarrow> int" where
  "asm_fp16_compare ops av bv =
     (let diff_bits = fsub_h ops av bv in
      if diff_bits = 0 then 0
      else if diff_bits AND 0x8000 \<noteq> 0 then - 1
      else 1)"

definition VFR_TYPE_ENCODE :: "u32 \<Rightarrow> u32 \<Rightarrow> u32 \<Rightarrow> u32 \<Rightarrow> u32 \<Rightarrow> u32 \<Rightarrow> u32 \<Rightarrow> u32" where
  "VFR_TYPE_ENCODE funct6 m vs2 vs1 funct3 vd opcode =
     push_bit 26 funct6 OR push_bit 25 m OR push_bit 20 vs2 OR push_bit 15 vs1 OR push_bit 12 funct3 OR
     push_bit 7 vd OR opcode"

definition asm_rvv_exp :: "u32 \<Rightarrow> u32 \<Rightarrow> io \<Rightarrow> io" where
  "asm_rvv_exp vs1_num vd_num k =
     Insn (VFR_TYPE_ENCODE 0b001100 0b1 0b00000 vs1_num 0b001 vd_num 0b1010111) [] (\<lambda>_. k)"

subsection \<open>Round trip of the conversions\<close>

lemma float_parts_of_parts:
  "float_parts (float_of_parts p) =
    \<lparr>fb_mantissa = take_bit 23 (fb_mantissa p), fb_exponent = take_bit 8 (fb_exponent p),
     fb_sign = take_bit 1 (fb_sign p)\<rparr>"
proof -
  have "take_bit 23 (float_of_parts p) = take_bit 23 (fb_mantissa p)"
    unfolding float_of_parts_def by (rule bit_eqI) (auto simp: bit_simps)
  moreover have "take_bit 8 (drop_bit 23 (float_of_parts p)) = take_bit 8 (fb_exponent p)"
    unfolding float_of_parts_def by (rule bit_eqI) (auto simp: bit_simps)
  moreover have "drop_bit 31 (float_of_parts p) = take_bit 1 (fb_sign p)"
    unfolding float_of_parts_def by (rule bit_eqI) (auto simp: bit_simps)
  ultimately show ?thesis by (simp add: float_parts_def)
qed

lemma fp16_masks: "(0x3FF :: fp16) = mask 10" "(0x1F :: fp16) = mask 5"
  "(0x1 :: fp16) = mask 1"
  by (simp_all add: mask_eq_exp_minus_1)

lemma fp16_imp_less: "bit (v :: fp16) i \<Longrightarrow> i < 16"
  using bit_imp_le_length [of v i] by simp

lemma bit_8000: "bit (0x8000 :: fp16) i \<longleftrightarrow> i = 15"
  using bit_exp_iff [of 15 i, where 'a = "16 word"] by (auto simp: possible_bit_def)

lemma fp16_sign: "push_bit 15 (ucast (take_bit 1 (ucast (drop_bit 15 v AND 0x1) :: u32))) = (v AND 0x8000 :: fp16)"
proof (rule bit_eqI)
  fix i :: nat
  assume "possible_bit TYPE(16 word) i"
  then have "i = 15 \<or> i < 15" by (auto simp: possible_bit_def)
  then show "bit (push_bit 15 (ucast (take_bit 1 (ucast (drop_bit 15 v AND 0x1) :: u32))) :: fp16) i = bit (v AND 0x8000) i"
    by (simp only: bit_push_bit_iff bit_unsigned_iff bit_take_bit_iff bit_and_iff bit_drop_bit_eq bit_8000 bit_1_iff
        possible_bit_def) (auto simp: bit_drop_bit_eq)
qed

lemma fp16_mantissa:
  "ucast (drop_bit 13 (take_bit 23 (push_bit 13 (ucast (v AND 0x3FF :: fp16) :: u32)))) = v AND 0x3FF"
  unfolding fp16_masks by (rule bit_eqI) (auto simp: bit_simps)

lemma fp16_split: "(v AND 0x8000) OR (push_bit 10 (drop_bit 10 v AND 0x1F) OR (v AND 0x3FF)) = (v :: fp16)"
proof (rule bit_eqI)
  fix i :: nat
  assume "possible_bit TYPE(16 word) i"
  then have "i < 10 \<or> 10 \<le> i \<and> i < 15 \<or> i = 15" by (auto simp: possible_bit_def)
  then show "bit ((v AND 0x8000) OR (push_bit 10 (drop_bit 10 v AND 0x1F) OR (v AND 0x3FF))) i = bit v i"
    unfolding fp16_masks by (auto simp: bit_simps bit_8000)
qed

lemma fp16_exponent_range: "0 \<le> uint (drop_bit 10 (v :: fp16) AND 0x1F)" "uint (drop_bit 10 (v :: fp16) AND 0x1F) < 32"
proof -
  have "drop_bit 10 v AND 0x1F = take_bit 5 (drop_bit 10 v)" by (simp add: take_bit_eq_mask mask_eq_exp_minus_1)
  then have "uint (drop_bit 10 v AND 0x1F) = take_bit 5 (uint (drop_bit 10 v))" by (simp add: unsigned_take_bit_eq)
  then show "uint (drop_bit 10 v AND 0x1F) < 32" using take_bit_int_less_exp [of 5 "uint (drop_bit 10 v)"] by simp
qed simp

text \<open>The exponent field of the float made from an \<open>fp16\<close>.\<close>

lemma uint_byte: "0 \<le> x \<Longrightarrow> x < 256 \<Longrightarrow> uint (take_bit 8 (of_int x :: u32)) = x"
  by (simp add: unsigned_take_bit_eq uint_word_of_int take_bit_int_eq_self)

lemma rebias:
  assumes "0 < e" and "e < 32"
  shows "uint (take_bit 8 (of_int (e + 127 - 15) :: u32)) = e + 112"
  using uint_byte [of "e + 127 - 15"] assms by linarith

text \<open>What the conversion makes of a subnormal number and of infinity: the smallest \<open>fp16\<close> becomes a
  float below \<open>2 ^ -126\<close> and infinity becomes 65536.\<close>

lemma fp16_to_float_special: "fp16_to_float 0x0001 = 0x2000" "fp16_to_float 0x7C00 = 0x47800000"
  by (simp_all add: fp16_to_float_def float_of_parts_def)

subsection \<open>Writes to distinct elements\<close>

lemma fold_writes:
  assumes "distinct ps" and "inj_on at (set ps)"
    and "\<And>p m m'. p \<in> set ps \<Longrightarrow> (\<forall>a. a \<notin> at ` (set ps - {p}) \<longrightarrow> m a = m' a) \<Longrightarrow> v p m = v p m'"
  shows "fold (\<lambda>p m. m(at p := v p m)) ps mem a =
    (if a \<in> at ` set ps then v (the_inv_into (set ps) at a) mem else mem a)"
  using assms
proof (induction ps arbitrary: a rule: rev_induct)
  case (snoc q ps)
  define r where "r = fold (\<lambda>p m. m(at p := v p m)) ps mem"
  have step: "fold (\<lambda>p m. m(at p := v p m)) (ps @ [q]) mem = r(at q := v q r)" by (simp only: fold_append r_def) simp
  have q: "q \<notin> set ps" "at q \<notin> at ` set ps" using snoc.prems(1,2) by (auto simp: inj_on_def)
  have inj: "inj_on at (set ps)" using snoc.prems(2) by (simp add: inj_on_def)
  have v: "v p m = v p m'" if "p \<in> set ps" "\<forall>a. a \<notin> at ` (set ps - {p}) \<longrightarrow> m a = m' a" for p m m'
    using that by (intro snoc.prems(3)) auto
  note IH = snoc.IH [OF _ inj v]
  have r: "r b = (if b \<in> at ` set ps then v (the_inv_into (set ps) at b) mem else mem b)" for b
    unfolding r_def by (rule IH) (use snoc.prems(1) in simp)
  have "v q r = v q mem"
  proof (rule snoc.prems(3))
    have "set (ps @ [q]) - {q} = set ps" using q(1) by auto
    then show "\<forall>a. a \<notin> at ` (set (ps @ [q]) - {q}) \<longrightarrow> r a = mem a" by (simp add: r)
  qed simp
  moreover have "the_inv_into (set (ps @ [q])) at (at p) = p" if "p \<in> set (ps @ [q])" for p
    using the_inv_into_f_f [OF snoc.prems(2) that] .
  moreover have "the_inv_into (set ps) at (at p) = p" if "p \<in> set ps" for p
    using the_inv_into_f_f [OF inj that] .
  ultimately show ?case unfolding step using r q by auto
qed simp

lemma fold_product: "fold (\<lambda>i. fold (f i) js) is s = fold (\<lambda>(i, j). f i j) (List.product is js) s"
  by (induction "is" arbitrary: s) (simp_all add: fold_map comp_def)

text \<open>The accumulation loop of one element writes that element only.\<close>

lemma accumulate:
  "\<forall>k\<in>set ks. xa k \<noteq> zp \<and> wa k \<noteq> zp \<Longrightarrow>
    fold (\<lambda>k mem. mem(zp := f (mem (xa k)) (mem (wa k)) (mem zp))) ks mem =
    mem(zp := fold (\<lambda>k acc. f (mem (xa k)) (mem (wa k)) acc) ks (mem zp))"
  by (induction ks arbitrary: mem) (simp_all cong: fold_cong)

lemma elem_index:
  assumes "i < (m :: u32)" and "j < k" and "unat m * unat k < 4294967296"
  shows "unat (i * k + j) = unat i * unat k + unat j" and "unat i * unat k + unat j < unat m * unat k"
proof -
  have ij: "unat i < unat m" "unat j < unat k" using assms(1,2) by (simp_all add: word_less_nat_alt)
  have "unat i * unat k + unat j < (unat i + 1) * unat k" using ij(2) by simp
  also have "\<dots> \<le> unat m * unat k" using ij(1) by (intro mult_le_mono1) simp
  finally show lt: "unat i * unat k + unat j < unat m * unat k" .
  have "unat i * unat k < 4294967296" using lt assms(3) by linarith
  then have "unat (i * k) = unat i * unat k" by (rule unat_mult32)
  moreover have "unat i * unat k + unat j < 4294967296" using lt assms(3) by linarith
  ultimately show "unat (i * k + j) = unat i * unat k + unat j" by (simp add: unat_add32)
qed

lemma elem16_inj:
  assumes "unat z + 2 * (unat m * unat k) \<le> 4294967296"
  shows "inj_on (\<lambda>(i, j). elem16 z (i * k + j)) ({i. i < m} \<times> {j. j < k})"
proof (rule inj_onI, clarsimp)
  fix i j i' j'
  assume b: "i < m" "j < k" "i' < m" "j' < k" and e: "elem16 z (i * k + j) = elem16 z (i' * k + j')"
  have mk: "unat m * unat k < 4294967296" using assms by linarith
  have addr: "unat (elem16 z (a * k + c)) = unat z + 2 * (unat a * unat k + unat c)" if "a < m" "c < k" for a c
  proof -
    note x = elem_index [OF that mk]
    have room: "p < q \<Longrightarrow> b + 2 * q \<le> 4294967296 \<Longrightarrow> 2 * p < 4294967296 \<and> b + 2 * p < 4294967296"
      for p q b :: nat by linarith
    have "2 * (unat a * unat k + unat c) < 4294967296" "unat z + 2 * (unat a * unat k + unat c) < 4294967296"
      using room [OF x(2) assms] by simp_all
    then show ?thesis using x(1) unat_mult32 [of 2 "a * k + c"] unat_add32 [of z "2 * (a * k + c)"]
      by (simp add: elem16_def)
  qed
  have "unat i * unat k + unat j = unat i' * unat k + unat j'"
    using e addr [OF b(1,2)] addr [OF b(3,4)] by simp
  then show "i = i' \<and> j = j'"
    using b mesh_index_eq [of "unat j" "unat k" "unat j'" "unat i" "unat i'"]
    by (simp add: unat_eq_iff32 word_less_nat_alt)
qed

subsection \<open>Properties\<close>

text \<open>C37: Converting an \<open>fp16\<close> to \<open>float\<close> and back gives the same bits for every normal number;
  zeros and subnormal numbers give the zero of their sign, infinities and NaNs the infinity of
  their sign.\<close>

theorem fp16_round_trip:
  "float_to_fp16 (fp16_to_float v) =
    (let e = drop_bit 10 v AND 0x1F in
     if e = 0 then v AND 0x8000 else if e = 0x1F then (v AND 0x8000) OR 0x7C00 else v)"
proof -
  define e where "e = uint (drop_bit 10 v AND 0x1F)"
  have e: "0 \<le> e" "e < 32" using fp16_exponent_range by (simp_all add: e_def)
  have ev: "of_int e = drop_bit 10 v AND 0x1F" by (simp add: e_def)
  define p where "p = \<lparr>fb_mantissa = push_bit 13 (ucast (v AND 0x3FF)) :: u32,
      fb_exponent = (if e = 0 then 0 else of_int (e + 127 - 15)), fb_sign = ucast (drop_bit 15 v AND 0x1)\<rparr>"
  have f: "fp16_to_float v = float_of_parts p" by (simp add: fp16_to_float_def p_def e_def Let_def)
  have x: "uint (take_bit 8 (fb_exponent p)) = (if e = 0 then 0 else e + 112)"
    using e rebias [of e] by (auto simp: p_def)
  have s: "push_bit 15 (ucast (take_bit 1 (fb_sign p))) = v AND 0x8000"
    unfolding p_def FloatBits.select_convs by (rule fp16_sign)
  have m: "ucast (drop_bit 13 (take_bit 23 (fb_mantissa p))) = v AND 0x3FF"
    unfolding p_def FloatBits.select_convs by (rule fp16_mantissa)
  have zero: "drop_bit 10 v AND 0x1F = 0 \<longleftrightarrow> e = 0" by (simp add: e_def uint_0_iff)
  have top: "drop_bit 10 v AND 0x1F = 0x1F \<longleftrightarrow> e = 31"
    by (simp add: e_def word_uint_eq_iff)
  show ?thesis
    unfolding f float_to_fp16_def Let_def float_parts_of_parts FloatBits.select_convs x s m zero top
    using e fp16_split [of v] ev by (auto simp: or.assoc)
qed

text \<open>C36: \<open>matmul_fp16\<close> computes \<open>z = y + x * w\<close> element by element: every element of \<open>z\<close> is the
  chain of fused multiply-adds over the row of \<open>x\<close> and the column of \<open>w\<close>, started from the element of
  \<open>y\<close>, all read from the memory before the call, and nothing else is written.  \<open>z\<close> may be \<open>y\<close>, but
  must not overlap \<open>x\<close> and \<open>w\<close>.\<close>

theorem matmul_fp16_computes:
  fixes ops :: fp_ops and m n k :: u16 and z y x w :: u32
  defines "mw \<equiv> ucast m :: u32" and "nw \<equiv> ucast n :: u32" and "kw \<equiv> ucast k :: u32"
  defines "zs \<equiv> (\<lambda>(i, j). elem16 z (i * (ucast k :: u32) + j)) ` ({i. i < (ucast m :: u32)} \<times> {j. j < (ucast k :: u32)})"
  assumes "unat z + 2 * (unat mw * unat kw) \<le> 4294967296"
    and "\<forall>i l. i < mw \<and> l < nw \<longrightarrow> elem16 x (i * nw + l) \<notin> zs"
    and "\<forall>l j. l < nw \<and> j < kw \<longrightarrow> elem16 w (l * kw + j) \<notin> zs"
    and "y = z \<or> (\<forall>i j. i < mw \<and> j < kw \<longrightarrow> elem16 y (i * kw + j) \<notin> zs)"
  shows "(\<forall>i j. i < mw \<and> j < kw \<longrightarrow> matmul_fp16 ops z y x w m n k mem (elem16 z (i * kw + j)) =
        fold (\<lambda>l acc. fp16_fma ops (mem (elem16 x (i * nw + l))) (mem (elem16 w (l * kw + j))) acc)
          (u32_range 0 nw) (mem (elem16 y (i * kw + j))))
    \<and> (\<forall>a. a \<notin> zs \<longrightarrow> matmul_fp16 ops z y x w m n k mem a = mem a)"
proof -
  let ?at = "\<lambda>(i, j). elem16 z (i * kw + j)"
  let ?ps = "List.product (u32_range 0 mw) (u32_range 0 kw)"
  define v where "v = (\<lambda>(i, j) mem. fold (\<lambda>l acc. fp16_fma ops (mem (elem16 x (i * nw + l)))
      (mem (elem16 w (l * kw + j))) acc) (u32_range 0 nw) (mem (elem16 y (i * kw + j))))"
  have ps: "set ?ps = {i. i < mw} \<times> {j. j < kw}" by auto
  have zs: "zs = ?at ` set ?ps" by (simp add: zs_def ps mw_def kw_def)
  have inj: "inj_on ?at (set ?ps)" unfolding ps by (rule elem16_inj [OF assms(5)])
  have in_zs: "elem16 z (i * kw + j) \<in> zs" if "i < mw" "j < kw" for i j using that by (force simp: zs ps)
  have step: "fold (\<lambda>k mem. mem(?at (i, j) := fp16_fma ops (mem (elem16 x (i * nw + k))) (mem (elem16 w (k * kw + j)))
        (mem (?at (i, j))))) (u32_range 0 nw) (h(?at (i, j) := h (elem16 y (i * kw + j))))
      = h(?at (i, j) := v (i, j) h)" if ij: "i < mw" "j < kw" for i j h
  proof -
    have ne: "\<forall>l\<in>set (u32_range 0 nw). elem16 x (i * nw + l) \<noteq> ?at (i, j) \<and> elem16 w (l * kw + j) \<noteq> ?at (i, j)"
      using assms(6,7) in_zs [OF ij] ij by fastforce
    have "fold (\<lambda>l acc. fp16_fma ops ((h(?at (i, j) := c)) (elem16 x (i * nw + l)))
          ((h(?at (i, j) := c)) (elem16 w (l * kw + j))) acc) (u32_range 0 nw) c =
        fold (\<lambda>l acc. fp16_fma ops (h (elem16 x (i * nw + l))) (h (elem16 w (l * kw + j))) acc) (u32_range 0 nw) c"
      for c by (rule fold_cong) (use ne in auto)
    then show ?thesis by (subst accumulate [OF ne]) (simp add: v_def)
  qed
  have mm: "matmul_fp16 ops z y x w m n k mem = fold (\<lambda>p h. h(?at p := v p h)) ?ps mem"
    unfolding matmul_fp16_def Let_def fold_product mw_def [symmetric] nw_def [symmetric] kw_def [symmetric]
    using step by (intro fold_cong refl) (auto simp: fun_upd_def)
  have local: "v p h = v p h'" if p: "p \<in> set ?ps" and eq: "\<forall>a. a \<notin> ?at ` (set ?ps - {p}) \<longrightarrow> h a = h' a" for p h h'
  proof -
    obtain i j where ij: "p = (i, j)" "i < mw" "j < kw" using p by (auto simp: ps)
    have out: "a \<notin> zs \<Longrightarrow> h a = h' a" for a using eq by (auto simp: zs)
    have "?at p \<notin> ?at ` (set ?ps - {p})" using inj p by (auto simp: inj_on_def)
    then have "h (elem16 y (i * kw + j)) = h' (elem16 y (i * kw + j))"
      using assms(8) out eq ij by auto
    moreover have "h (elem16 x (i * nw + l)) = h' (elem16 x (i * nw + l))"
      "h (elem16 w (l * kw + j)) = h' (elem16 w (l * kw + j))" if "l \<in> set (u32_range 0 nw)" for l
      using that assms(6,7) out ij by simp_all
    ultimately show ?thesis unfolding v_def ij(1) prod.case by (intro fold_cong) simp_all
  qed
  have r: "matmul_fp16 ops z y x w m n k mem a =
      (if a \<in> zs then v (the_inv_into (set ?ps) ?at a) mem else mem a)" for a
    unfolding mm zs by (rule fold_writes [OF _ inj local]) (simp_all add: distinct_product)
  have "matmul_fp16 ops z y x w m n k mem (elem16 z (i * kw + j)) = v (i, j) mem" if "i < mw" "j < kw" for i j
  proof -
    have "the_inv_into (set ?ps) ?at (?at (i, j)) = (i, j)"
      using that by (intro the_inv_into_f_f [OF inj]) (simp add: ps)
    then show ?thesis using r in_zs [OF that] by simp
  qed
  then show ?thesis using r by (simp add: v_def)
qed

definition sample_ops :: fp_ops where
  "sample_ops = \<lparr>fmul_s = \<lambda>a b. a AND b, fadd_s = \<lambda>a b. a OR b, fadd_h = \<lambda>a b. a, fsub_h = \<lambda>a b. a - b,
     fmul_h = \<lambda>a b. a, fdiv_h = \<lambda>a b. a\<rparr>"

theorem matmul_fp16_computes_witness:
  "matmul_fp16 sample_ops 0x100 0x200 0x300 0x400 1 1 1 (\<lambda>a. if a = 0x200 then 0x3C00 else 0) 0x100 =
    fp16_fma sample_ops 0 0 0x3C00"
proof -
  have one: "{i. i < (1 :: u32)} = {0}" by (auto simp: word_less_nat_alt unat_eq_iff32)
  have lt: "i < (1 :: u32) \<longleftrightarrow> i = 0" for i by (auto simp: word_less_nat_alt unat_eq_iff32)
  show ?thesis
    using matmul_fp16_computes [where z = "0x100" and y = "0x200" and x = "0x300" and w = "0x400" and m = 1
        and n = 1 and k = 1 and ops = sample_ops and mem = "\<lambda>a. if a = 0x200 then 0x3C00 else 0"]
    by (simp add: one lt elem16_def u32_range_def)
qed

text \<open>By the rules of the floating point unit the difference of two infinities of one sign is the
  canonical NaN; the comparison then orders an infinity above itself.\<close>

lemma compare_equal_infinities:
  "fsub_h ops 0x7C00 0x7C00 = 0x7E00 \<Longrightarrow> asm_fp16_compare ops 0x7C00 0x7C00 = 1"
  by (simp add: asm_fp16_compare_def)

end
