(* ===== verification/Fixed_Proj.thy ===== *)
theory Fixed_Proj
  imports Flex_Fp16
begin

text \<open>
  The problem sizes and small helpers of \<open>fixed_proj.h\<close>: the layout of the matrices A, B and C in HBM,
  broadcast masks, alignment and the word loops.  The sizes are the defaults of the header.
\<close>

subsection \<open>Sizes and offsets\<close>

definition MAT_N :: u32 where "MAT_N = 256"
definition TILE :: u32 where "TILE = 64"
definition ELEM_BYTES :: u32 where "ELEM_BYTES = 4"
definition BYTES_A_STRIP :: u32 where "BYTES_A_STRIP = TILE * MAT_N * ELEM_BYTES"
definition BYTES_B_STRIP :: u32 where "BYTES_B_STRIP = MAT_N * TILE * ELEM_BYTES"
definition BYTES_C_TILE :: u32 where "BYTES_C_TILE = TILE * TILE * ELEM_BYTES"
definition HBM_A_BASE_OFFSET :: u32 where "HBM_A_BASE_OFFSET = 0x00000400"
definition HBM_B_BASE_OFFSET :: u32 where "HBM_B_BASE_OFFSET = HBM_A_BASE_OFFSET + (MAT_N * MAT_N * ELEM_BYTES)"
definition HBM_C_BASE_OFFSET :: u32 where "HBM_C_BASE_OFFSET = HBM_B_BASE_OFFSET + (MAT_N * MAT_N * ELEM_BYTES)"

definition hbm_off_A_strip :: "u32 \<Rightarrow> u32" where
  "hbm_off_A_strip r =
     (let rows_before = r * TILE; elems_before = rows_before * MAT_N
      in HBM_A_BASE_OFFSET + elems_before * ELEM_BYTES)"

definition hbm_off_B_strip_base :: "u32 \<Rightarrow> u32" where
  "hbm_off_B_strip_base c = (let cols_before = c * TILE in HBM_B_BASE_OFFSET + cols_before * ELEM_BYTES)"

definition hbm_off_C_tile :: "u32 \<Rightarrow> u32 \<Rightarrow> u32" where
  "hbm_off_C_tile r c =
     (let row0 = r * TILE; col0 = c * TILE; elem_index = row0 * MAT_N + col0
      in HBM_C_BASE_OFFSET + elem_index * ELEM_BYTES)"

subsection \<open>Masks and small helpers\<close>

definition mask_row :: "u32 \<Rightarrow> u16" where "mask_row row_idx = ucast (push_bit (unat (row_idx AND 0xF)) 1 :: u32)"
definition mask_col :: "u32 \<Rightarrow> u16" where "mask_col col_idx = ucast (push_bit (unat (col_idx AND 0xF)) 1 :: u32)"
definition mask_all4 :: u16 where "mask_all4 = 0x000F"
definition mask_all_rows :: u16 where "mask_all_rows = ucast (push_bit 4 1 - 1 :: u32)"
definition mask_all_cols :: u16 where "mask_all_cols = ucast (push_bit 4 1 - 1 :: u32)"

definition tcdm_offset_from_ptr :: "u32 \<Rightarrow> u32 \<Rightarrow> u32" where
  "tcdm_offset_from_ptr tcdm_base ptr = ptr - tcdm_base"

definition align_up_u32 :: "u32 \<Rightarrow> u32 \<Rightarrow> u32" where
  "align_up_u32 v a = (v + (a - 1)) AND NOT (a - 1)"

definition align_up_ptr :: "u32 \<Rightarrow> u32 \<Rightarrow> u32" where
  "align_up_ptr p a = align_up_u32 p a"

definition zero_f32 :: "u32 \<Rightarrow> u32 \<Rightarrow> heap \<Rightarrow> heap" where
  "zero_f32 dst n_bytes = fold (\<lambda>i m. m(dst + 4 * i := 0)) (u32_range 0 (drop_bit 2 n_bytes))"

definition checksum_u32 :: "u32 \<Rightarrow> u32 \<Rightarrow> heap \<Rightarrow> u32" where
  "checksum_u32 ptr n_bytes m = fold (\<lambda>i s. s XOR m (ptr + 4 * i)) (u32_range 0 (drop_bit 2 n_bytes)) 0"

lemmas layout_defs = MAT_N_def TILE_def ELEM_BYTES_def HBM_A_BASE_OFFSET_def HBM_B_BASE_OFFSET_def
  HBM_C_BASE_OFFSET_def hbm_off_A_strip_def hbm_off_B_strip_base_def hbm_off_C_tile_def Let_def

text \<open>The zeroing loop leaves zeros in the words it covers and nothing else changes.\<close>

lemma zero_f32_apply:
  assumes "unat dst + unat n_bytes \<le> 4294967296"
  shows "zero_f32 dst n_bytes m a = (if \<exists>i<drop_bit 2 n_bytes. a = dst + 4 * i then 0 else m a)"
proof -
  have "fold (\<lambda>i m. m(dst + 4 * i := (0 :: u32))) is m a = (if a \<in> (\<lambda>i. dst + 4 * i) ` set is then 0 else m a)" for "is"
    by (induction "is" arbitrary: m) auto
  then show ?thesis unfolding zero_f32_def by (auto simp: image_iff)
qed

text \<open>Rounding up to a power of two that does not wrap.\<close>

lemma align_up_u32_nat:
  assumes "unat a = 2 ^ e" and "unat v + unat a \<le> 4294967296"
  shows "unat (align_up_u32 v a) = (unat v + (2 ^ e - 1)) div 2 ^ e * 2 ^ e"
proof -
  have "a = of_nat (2 ^ e)" by (simp only: assms(1) [symmetric]) simp
  then have m: "a - 1 = mask e" by (simp add: mask_eq_exp_minus_1)
  have "1 \<le> unat a" using assms(1) by simp
  then have "unat (a - 1) = 2 ^ e - 1" using unat_sub32 [of 1 a] assms(1) by simp
  moreover have "unat v + (2 ^ e - 1) < 4294967296" using assms(1,2) \<open>1 \<le> unat a\<close> by linarith
  ultimately have "unat (v + (a - 1)) = unat v + (2 ^ e - 1)" by (simp add: unat_add32)
  then show ?thesis unfolding align_up_u32_def m by (simp add: unat_and_not_mask)
qed

lemma round_up:
  fixes x q :: nat
  assumes "0 < q"
  shows "x \<le> (x + (q - 1)) div q * q" and "(x + (q - 1)) div q * q < x + q"
proof -
  have "(x + (q - 1)) mod q \<le> q - 1" using assms by (simp add: less_Suc_eq_le [symmetric])
  then show "x \<le> (x + (q - 1)) div q * q" "(x + (q - 1)) div q * q < x + q"
    using div_mult_mod_eq [of "x + (q - 1)" q] assms by linarith+
qed

lemma below_4: "r < (4 :: u32) \<Longrightarrow> r \<in> {0, 1, 2, 3}"
proof -
  assume "r < 4"
  then have "unat r \<in> {0, 1, 2, 3}" by (auto simp: word_less_nat_alt)
  then show ?thesis by (auto simp: unat_eq_iff32)
qed

text \<open>The HBM layout is sound for the 4 by 4 tiles: element \<open>(i, j)\<close> of tile \<open>(r, c)\<close> of C lies at
  the row-major position \<open>(64 r + i, 64 c + j)\<close> of C; a row of a B strip lies inside B at its row-major
  position; the A strips are consecutive; and the matrices A, B and C do not overlap.\<close>

lemma hbm_layout:
  assumes "r < 4" and "c < 4" and "i < (64 :: nat)" and "j < (64 :: nat)" and "k < (256 :: nat)"
  shows "unat (hbm_off_C_tile r c) + (i * 256 + j) * 4
        = unat HBM_C_BASE_OFFSET + ((unat r * 64 + i) * 256 + (unat c * 64 + j)) * 4
    \<and> unat (hbm_off_B_strip_base c) + (k * 256 + j) * 4
        = unat HBM_B_BASE_OFFSET + (k * 256 + (unat c * 64 + j)) * 4
    \<and> unat (hbm_off_A_strip r) = unat HBM_A_BASE_OFFSET + unat r * unat BYTES_A_STRIP
    \<and> unat (hbm_off_A_strip r) + unat BYTES_A_STRIP \<le> unat HBM_B_BASE_OFFSET
    \<and> unat (hbm_off_B_strip_base c) + (k * 256 + j) * 4 < unat HBM_C_BASE_OFFSET"
proof -
  have "r \<in> {0, 1, 2, 3}" "c \<in> {0, 1, 2, 3}" using assms(1,2) by (simp_all only: below_4)
  moreover have "i * 256 \<le> 63 * 256" "k * 256 \<le> 255 * 256" using assms(3,5) by simp_all
  ultimately show ?thesis using assms(4) by (auto simp: layout_defs BYTES_A_STRIP_def)
qed

subsection \<open>Properties\<close>

text \<open>\<open>align_up_u32\<close> rounds up to the least multiple of a power of two that is not below its
  argument, when that does not exceed the address space.\<close>

lemma align_up_least:
  assumes "unat a = 2 ^ e" and "unat v + unat a \<le> 4294967296"
  shows "2 ^ e dvd unat (align_up_u32 v a) \<and> unat v \<le> unat (align_up_u32 v a)
    \<and> unat (align_up_u32 v a) < unat v + 2 ^ e"
  using align_up_u32_nat [OF assms] round_up [of "2 ^ e" "unat v"] by simp

end
