(* ===== verification/Flex_Fp8.thy ===== *)
theory Flex_Fp8
  imports SH_Prelude Complex_Main
begin

text \<open>
  The decoders of \<open>flex_libfp8.h\<close> and the vector checks built on them.  \<open>float\<close> is a type \<open>'f\<close> with
  the operations of the record \<open>flt_ops\<close>; \<open>float_exact\<close> states what IEEE arithmetic guarantees for
  them: an operation whose exact result is a binary32 number gives that number.
\<close>

record 'f flt_ops =
  flit :: "rat \<Rightarrow> 'f"
  fl_add :: "'f \<Rightarrow> 'f \<Rightarrow> 'f"
  fl_sub :: "'f \<Rightarrow> 'f \<Rightarrow> 'f"
  fl_mul :: "'f \<Rightarrow> 'f \<Rightarrow> 'f"
  fl_div :: "'f \<Rightarrow> 'f \<Rightarrow> 'f"
  fl_neg :: "'f \<Rightarrow> 'f"
  fl_less :: "'f \<Rightarrow> 'f \<Rightarrow> bool"

subsection \<open>Decoders\<close>

text \<open>\<open>flit\<close> gives literals and converted integers.  The loop computes \<open>2 ^ exp_val\<close>.\<close>

definition pow2_scale :: "'f flt_ops \<Rightarrow> int \<Rightarrow> 'f" where
  "pow2_scale ops exp_val =
     (if exp_val \<ge> 0 then ((\<lambda>scale. fl_mul ops scale (flit ops 2)) ^^ nat exp_val) (flit ops 1)
      else ((\<lambda>scale. fl_mul ops scale (flit ops (1 / 2))) ^^ nat (- exp_val)) (flit ops 1))"

definition fp8_e5m2_to_f32 :: "'f flt_ops \<Rightarrow> u8 \<Rightarrow> 'f" where
  "fp8_e5m2_to_f32 ops val =
     (if val = 0 then flit ops 0
      else
        (let sgn = drop_bit 7 val AND 0x1;
             ex = drop_bit 2 val AND 0x1F;
             frac = val AND 0x03;
             exp_val = uint ex - 15;
             mant = fl_add ops (flit ops 1) (fl_mul ops (flit ops (of_int (uint frac))) (flit ops (1 / 4)));
             scale = pow2_scale ops exp_val;
             result = fl_mul ops mant scale
         in if sgn \<noteq> 0 then fl_neg ops result else result))"

definition fp16_to_f32 :: "'f flt_ops \<Rightarrow> u16 \<Rightarrow> 'f" where
  "fp16_to_f32 ops val =
     (if val = 0 then flit ops 0
      else
        (let sgn = drop_bit 15 val AND 0x1;
             ex = drop_bit 10 val AND 0x1F;
             frac = val AND 0x3FF
         in if ex = 0x1F then
              (let inf_val = flit ops 65504 in if sgn \<noteq> 0 then fl_neg ops inf_val else inf_val)
            else
              (let exp_val = (if ex = 0 then 1 - 15 else uint ex - 15);
                   quot = fl_div ops (flit ops (of_int (uint frac))) (flit ops 1024);
                   mant = (if ex = 0 then quot else fl_add ops (flit ops 1) quot);
                   scale = pow2_scale ops exp_val;
                   result = fl_mul ops mant scale
               in if sgn \<noteq> 0 then fl_neg ops result else result)))"

subsection \<open>Vector checks\<close>

text \<open>A \<open>printf\<close> with floating point arguments.\<close>

datatype 'f parg = PInt u32 | PFlt 'f

type_synonym 'f flog = "(string \<times> 'f parg list) list"

definition verify_loop ::
    "'f flt_ops \<Rightarrow> ('w::len word \<Rightarrow> 'f) \<Rightarrow> string \<Rightarrow> 'w word list \<Rightarrow> 'w word list \<Rightarrow> 'f \<Rightarrow> u32 \<Rightarrow> u32 \<times> 'f flog" where
  "verify_loop ops dec fmt act_vec exp_vec tol avl =
     fold (\<lambda>i (tot_err, out).
       let ex = exp_vec ! i; ac = act_vec ! i; exp_f32 = dec ex; act_f32 = dec ac; err = fl_sub ops exp_f32 act_f32 in
       if fl_less ops tol err \<or> fl_less ops err (fl_neg ops tol)
       then (tot_err + 1, out @ [(fmt, [PInt (of_nat i), PInt (ucast ex), PFlt exp_f32, PInt (ucast ac), PFlt act_f32, PFlt err])])
       else (tot_err, out)) [0 ..< unat avl] (0, [])"

definition verify_summary :: "'f \<Rightarrow> u32 \<Rightarrow> u32 \<Rightarrow> string \<times> 'f parg list" where
  "verify_summary tol tot_err avl =
     (''Errors above threshold (E5M2: %.3ff): %d out of %d'' @ [CHR 0x0A], [PFlt tol, PInt tot_err, PInt avl])"

definition spatz_verify :: "'f flt_ops \<Rightarrow> u32 \<Rightarrow> u8 list \<Rightarrow> u8 list \<Rightarrow> 'f \<Rightarrow> 'f flog" where
  "spatz_verify ops avl act_vec exp_vec tol =
     (let (tot_err, out) = verify_loop ops (fp8_e5m2_to_f32 ops)
            (''%3d | exp: 0x%02x (%.5f), act: 0x%02x (%.5f), err: %.5f'' @ [CHR 0x0A]) act_vec exp_vec tol avl
      in out @ [verify_summary tol tot_err avl])"

definition spatz_verify_16 :: "'f flt_ops \<Rightarrow> u32 \<Rightarrow> u16 list \<Rightarrow> u16 list \<Rightarrow> 'f \<Rightarrow> 'f flog" where
  "spatz_verify_16 ops avl act_vec exp_vec tol =
     (let (tot_err, out) = verify_loop ops (fp16_to_f32 ops)
            (''%3d | exp: 0x%04x (%.5f), act: 0x%04x (%.5f), err: %.5f'' @ [CHR 0x0A]) act_vec exp_vec tol avl
      in out @ [verify_summary tol tot_err avl])"

subsection \<open>Exact results\<close>

text \<open>The values of finite binary32 numbers.\<close>

definition binary32 :: "rat \<Rightarrow> bool" where
  "binary32 q = (\<exists>n a b. q = of_int n * 2 ^ a / 2 ^ b \<and> \<bar>n\<bar> < 2 ^ 24 \<and> a \<le> 104 \<and> b \<le> 149)"

definition float_exact :: "'f flt_ops \<Rightarrow> ('f \<Rightarrow> rat) \<Rightarrow> bool" where
  "float_exact ops v =
     ((\<forall>q. binary32 q \<longrightarrow> v (flit ops q) = q) \<and>
      (\<forall>x y. binary32 (v x + v y) \<longrightarrow> v (fl_add ops x y) = v x + v y) \<and>
      (\<forall>x y. binary32 (v x * v y) \<longrightarrow> v (fl_mul ops x y) = v x * v y) \<and>
      (\<forall>x y. v y \<noteq> 0 \<and> binary32 (v x / v y) \<longrightarrow> v (fl_div ops x y) = v x / v y) \<and>
      (\<forall>x. v (fl_neg ops x) = - v x))"

lemma float_exactD:
  assumes "float_exact ops v"
  shows "binary32 q \<Longrightarrow> v (flit ops q) = q"
    and "binary32 (v x + v y) \<Longrightarrow> v (fl_add ops x y) = v x + v y"
    and "binary32 (v x * v y) \<Longrightarrow> v (fl_mul ops x y) = v x * v y"
    and "v y \<noteq> 0 \<Longrightarrow> binary32 (v x / v y) \<Longrightarrow> v (fl_div ops x y) = v x / v y"
    and "v (fl_neg ops x) = - v x"
  using assms unfolding float_exact_def by blast+

lemma binary32I: "q = of_int n * 2 ^ a / 2 ^ b \<Longrightarrow> \<bar>n\<bar> < 2 ^ 24 \<Longrightarrow> a \<le> 104 \<Longrightarrow> b \<le> 149 \<Longrightarrow> binary32 q"
  unfolding binary32_def by blast

text \<open>\<open>2 ^ e\<close> for a small integer \<open>e\<close>, as a rational.\<close>

definition pow2 :: "int \<Rightarrow> rat" where
  "pow2 e = 2 ^ nat e / 2 ^ nat (- e)"

lemma scale_up:
  assumes "float_exact ops v" and "n \<le> 20"
  shows "v (((\<lambda>scale. fl_mul ops scale (flit ops 2)) ^^ n) (flit ops 1)) = 2 ^ n"
  using assms(2)
proof (induction n)
  case 0
  then show ?case using float_exactD(1) [OF assms(1), of 1] binary32I [of 1 1 0 0] by simp
next
  case (Suc n)
  have two: "v (flit ops 2) = 2" using float_exactD(1) [OF assms(1), of 2] binary32I [of 2 1 1 0] by simp
  have "binary32 (2 ^ n * 2)" using Suc.prems by (intro binary32I [of _ 1 "Suc n" 0]) simp_all
  then show ?case using Suc two float_exactD(3) [OF assms(1)] by simp
qed

lemma scale_down:
  assumes "float_exact ops v" and "n \<le> 20"
  shows "v (((\<lambda>scale. fl_mul ops scale (flit ops (1 / 2))) ^^ n) (flit ops 1)) = 1 / 2 ^ n"
  using assms(2)
proof (induction n)
  case 0
  then show ?case using float_exactD(1) [OF assms(1), of 1] binary32I [of 1 1 0 0] by simp
next
  case (Suc n)
  have half: "v (flit ops (1 / 2)) = 1 / 2" using float_exactD(1) [OF assms(1), of "1 / 2"] binary32I [of "1 / 2" 1 0 1] by simp
  have "binary32 (1 / 2 ^ n * (1 / 2))" using Suc.prems by (intro binary32I [of _ 1 0 "Suc n"]) simp_all
  moreover define s where "s = ((\<lambda>scale. fl_mul ops scale (flit ops (1 / 2))) ^^ n) (flit ops 1)"
  moreover have "v s = 1 / 2 ^ n" using Suc by (simp add: s_def)
  ultimately have "v (fl_mul ops s (flit ops (1 / 2))) = 1 / 2 ^ n * (1 / 2)"
    using float_exactD(3) [OF assms(1), of s "flit ops (1 / 2)"] unfolding half by simp
  then show ?case by (simp add: s_def)
qed

lemma pow2_scale_exact:
  assumes "float_exact ops v" and "- 20 \<le> e" and "e \<le> 20"
  shows "v (pow2_scale ops e) = pow2 e"
  using scale_up [OF assms(1), of "nat e"] scale_down [OF assms(1), of "nat (- e)"] assms(2,3)
  by (simp add: pow2_scale_def pow2_def)

lemma binary32_scaled:
  assumes "\<bar>n\<bar> < 2 ^ 24" and "- 20 \<le> e" and "e \<le> 20" and "b \<le> 100"
  shows "binary32 (of_int n / 2 ^ b * pow2 e)"
  using assms by (intro binary32I [of _ n "nat e" "b + nat (- e)"]) (auto simp: pow2_def power_add)

lemma uint_and_mask: "uint (x AND mask n) < 2 ^ n"
  using take_bit_int_less_exp [of n "uint x"] by (simp add: take_bit_eq_mask [symmetric] unsigned_take_bit_eq)

lemma field_bounds:
  "uint (drop_bit 2 (val :: u8) AND 0x1F) < 32" "uint ((val :: u8) AND 0x03) < 4"
  "uint (drop_bit 10 (w :: u16) AND 0x1F) < 32" "uint ((w :: u16) AND 0x3FF) < 1024"
  using uint_and_mask [of "drop_bit 2 val" 5] uint_and_mask [of val 2]
    uint_and_mask [of "drop_bit 10 w" 5] uint_and_mask [of w 10]
  by (simp_all add: mask_eq_exp_minus_1)

subsection \<open>Properties\<close>

text \<open>With exact arithmetic \<open>fp8_e5m2_to_f32\<close> gives every byte but 0 the value of a normal E5M2
  number, sign, one plus a quarter of the fraction, two to the exponent minus 15, and no operation
  rounds.  (So it gives the zero \<open>0x80\<close>, the subnormal bytes and the bytes with exponent 31 the value
  of a normal number too.)\<close>

lemma fp8_decode_value:
  assumes "float_exact ops v"
  shows "v (fp8_e5m2_to_f32 ops val) =
    (if val = 0 then 0
     else (if drop_bit 7 val AND 0x1 \<noteq> 0 then - 1 else 1) * (1 + of_int (uint (val AND 0x03)) / 4)
       * pow2 (uint (drop_bit 2 val AND 0x1F) - 15))"
proof (cases "val = 0")
  case True
  then show ?thesis using float_exactD(1) [OF assms, of 0] binary32I [of 0 0 0 0] by (simp add: fp8_e5m2_to_f32_def)
next
  case False
  note x = float_exactD [OF assms]
  define f where "f = uint (val AND 0x03)"
  define e where "e = uint (drop_bit 2 val AND 0x1F) - 15"
  have f: "0 \<le> f" "f < 4" and e: "- 20 \<le> e" "e \<le> 20" using field_bounds(1,2) [of val] by (simp_all add: f_def e_def)
  define fr where "fr = fl_mul ops (flit ops (of_int f)) (flit ops (1 / 4))"
  define mant where "mant = fl_add ops (flit ops 1) fr"
  have one: "v (flit ops 1) = 1" using x(1) [of 1] binary32I [of 1 1 0 0] by simp
  have lf: "v (flit ops (of_int f)) = of_int f" using f by (intro x(1) binary32I [of _ f 0 0]) simp_all
  have quarter: "v (flit ops (1 / 4)) = 1 / 4" by (intro x(1) binary32I [of _ 1 0 2]) simp_all
  have "binary32 (of_int f * (1 / 4))" using f by (intro binary32I [of _ f 0 2]) simp_all
  then have "v fr = of_int f * (1 / 4)"
    unfolding fr_def by (rule x(3) [of "flit ops (of_int f)" "flit ops (1 / 4)", unfolded lf quarter])
  then have q: "v fr = of_int f / 4" by simp
  have "binary32 (1 + of_int f / 4)" using f by (intro binary32I [of _ "4 + f" 0 2]) (simp_all add: field_simps)
  then have m: "v mant = 1 + of_int f / 4"
    unfolding mant_def by (rule x(2) [of "flit ops 1" fr, unfolded one q])
  have s: "v (pow2_scale ops e) = pow2 e" by (rule pow2_scale_exact [OF assms e])
  have "binary32 (of_int (4 + f) / 2 ^ 2 * pow2 e)" using f e by (intro binary32_scaled) simp_all
  then have "v (fl_mul ops mant (pow2_scale ops e)) = (1 + of_int f / 4) * pow2 e"
    using x(3) [of mant "pow2_scale ops e"] by (simp add: m s field_simps)
  moreover have "unsigned (val AND 0x03) = rat_of_int f" by (simp add: f_def)
  ultimately show ?thesis
    using False x(5) by (simp add: fp8_e5m2_to_f32_def Let_def e_def [symmetric] mant_def fr_def) (simp add: algebra_simps)
qed

text \<open>With exact arithmetic \<open>fp16_to_f32\<close> gives every finite \<open>fp16\<close> its value, subnormal numbers
  included, and every infinity or NaN the largest finite number of its sign.\<close>

lemma fp16_decode_value:
  assumes "float_exact ops v"
  shows "v (fp16_to_f32 ops val) =
    (let s = (if drop_bit 15 val AND 0x1 \<noteq> 0 then - 1 else 1); e = uint (drop_bit 10 val AND 0x1F);
         f = of_int (uint (val AND 0x3FF)) / 1024
     in if val = 0 then 0 else if e = 31 then s * 65504
        else if e = 0 then s * f * pow2 (- 14) else s * (1 + f) * pow2 (e - 15))"
proof (cases "val = 0")
  case True
  then show ?thesis using float_exactD(1) [OF assms, of 0] binary32I [of 0 0 0 0] by (simp add: fp16_to_f32_def)
next
  case False
  note x = float_exactD [OF assms]
  define f where "f = uint (val AND 0x3FF)"
  define e where "e = uint (drop_bit 10 val AND 0x1F)"
  have f: "0 \<le> f" "f < 1024" and e: "0 \<le> e" "e < 32" using field_bounds(3,4) [of val] by (simp_all add: f_def e_def)
  have ee: "drop_bit 10 val AND 0x1F = 0x1F \<longleftrightarrow> e = 31" "drop_bit 10 val AND 0x1F = 0 \<longleftrightarrow> e = 0"
    by (simp_all add: e_def word_uint_eq_iff)
  define fr where "fr = fl_div ops (flit ops (of_int f)) (flit ops 1024)"
  have one: "v (flit ops 1) = 1" using x(1) [of 1] binary32I [of 1 1 0 0] by simp
  have "v (flit ops (of_int f)) = of_int f" using f by (intro x(1) binary32I [of _ f 0 0]) simp_all
  moreover have "v (flit ops 1024) = 1024" by (intro x(1) binary32I [of _ 1024 0 0]) simp_all
  moreover have b: "binary32 (of_int f / 1024)" using f by (intro binary32I [of _ f 0 10]) simp_all
  ultimately have q: "v fr = of_int f / 1024" using x(4) [of "flit ops 1024" "flit ops (of_int f)"] by (simp add: fr_def)
  have "binary32 (1 + of_int f / 1024)" using f by (intro binary32I [of _ "1024 + f" 0 10]) (simp_all add: field_simps)
  then have m: "v (fl_add ops (flit ops 1) fr) = 1 + of_int f / 1024" using x(2) [of "flit ops 1" fr] one q by simp
  have big: "v (flit ops 65504) = 65504" by (intro x(1) binary32I [of _ 65504 0 0]) simp_all
  have sub: "v (fl_mul ops fr (pow2_scale ops (- 14))) = of_int f / 1024 * pow2 (- 14)"
    using binary32_scaled [of f "- 14" 10] f x(3) [of fr "pow2_scale ops (- 14)"] pow2_scale_exact [OF assms, of "- 14"] q
    by simp
  have s: "v (pow2_scale ops (e - 15)) = pow2 (e - 15)" using e by (intro pow2_scale_exact [OF assms]) simp_all
  have "binary32 ((1 + of_int f / 1024) * pow2 (e - 15))"
    using binary32_scaled [of "1024 + f" "e - 15" 10] f e by (simp add: add_divide_distrib)
  then have norm: "v (fl_mul ops (fl_add ops (flit ops 1) fr) (pow2_scale ops (e - 15))) = (1 + of_int f / 1024) * pow2 (e - 15)"
    by (rule x(3) [of "fl_add ops (flit ops 1) fr" "pow2_scale ops (e - 15)", unfolded m s])
  show ?thesis
    using False sub norm x(5) big
    by (simp add: fp16_to_f32_def Let_def ee f_def [symmetric] e_def [symmetric] fr_def [symmetric])
      (simp add: algebra_simps)
qed

text \<open>Rational arithmetic is exact.\<close>

definition rat_ops :: "rat flt_ops" where
  "rat_ops = \<lparr>flit = \<lambda>q. q, fl_add = \<lambda>x y. x + y, fl_sub = \<lambda>x y. x - y, fl_mul = \<lambda>x y. x * y,
     fl_div = \<lambda>x y. x / y, fl_neg = \<lambda>x. - x, fl_less = \<lambda>x y. x < y\<rparr>"

lemma rat_ops_exact: "float_exact rat_ops (\<lambda>x. x)"
  by (simp add: float_exact_def rat_ops_def)

end
