(* ===== verification/Flex_Printf.thy ===== *)
theory Flex_Printf
  imports Flex_Runtime "HOL-Library.Monad_Syntax" "HOL-Library.Signed_Division" Complex_Main
begin

text \<open>
  The formatted output of \<open>runtime/include/flex_printf.h\<close>.  A format is the bytes in memory from
  the pointer on, its terminating NUL included; reading past the end of such a list, or past the
  variable arguments, is undefined in C and gives \<open>None\<close>.  \<open>size_t\<close>, \<open>int\<close>, \<open>long\<close> and pointers have
  32 bits, \<open>long long\<close> has 64, and \<open>char\<close> is unsigned.  Negating the least integer wraps.

  A sink \<open>out_fct_type\<close> gets the character, the index and \<open>maxlen\<close> and changes a state of its own;
  the \<open>buffer\<close> argument is part of that state.  The local buffers \<open>buf[32]\<close> are the list of their
  first \<open>len\<close> bytes.  Arithmetic on \<open>double\<close> is the record \<open>dbl_ops\<close>.
\<close>

definition FLAGS_ZEROPAD :: u32 where "FLAGS_ZEROPAD = push_bit 0 1"
definition FLAGS_LEFT :: u32 where "FLAGS_LEFT = push_bit 1 1"
definition FLAGS_PLUS :: u32 where "FLAGS_PLUS = push_bit 2 1"
definition FLAGS_SPACE :: u32 where "FLAGS_SPACE = push_bit 3 1"
definition FLAGS_HASH :: u32 where "FLAGS_HASH = push_bit 4 1"
definition FLAGS_UPPERCASE :: u32 where "FLAGS_UPPERCASE = push_bit 5 1"
definition FLAGS_CHAR :: u32 where "FLAGS_CHAR = push_bit 6 1"
definition FLAGS_SHORT :: u32 where "FLAGS_SHORT = push_bit 7 1"
definition FLAGS_LONG :: u32 where "FLAGS_LONG = push_bit 8 1"
definition FLAGS_LONG_LONG :: u32 where "FLAGS_LONG_LONG = push_bit 9 1"
definition FLAGS_PRECISION :: u32 where "FLAGS_PRECISION = push_bit 10 1"

lemmas flag_defs = FLAGS_ZEROPAD_def FLAGS_LEFT_def FLAGS_PLUS_def FLAGS_SPACE_def FLAGS_HASH_def
  FLAGS_UPPERCASE_def FLAGS_CHAR_def FLAGS_SHORT_def FLAGS_LONG_def FLAGS_LONG_LONG_def
  FLAGS_PRECISION_def

definition PRINTF_NTOA_BUFFER_SIZE :: nat where "PRINTF_NTOA_BUFFER_SIZE = 32"
definition PRINTF_FTOA_BUFFER_SIZE :: nat where "PRINTF_FTOA_BUFFER_SIZE = 32"

text \<open>\<open>flags & f\<close> as a condition.\<close>

definition has :: "u32 \<Rightarrow> u32 \<Rightarrow> bool" where
  "has flags f = (flags AND f \<noteq> 0)"

subsection \<open>Sinks\<close>

type_synonym 's sink = "u8 \<Rightarrow> u32 \<Rightarrow> u32 \<Rightarrow> 's \<Rightarrow> 's"

text \<open>\<open>buffer\<close> is an address in the byte memory \<open>m\<close>.\<close>

definition out_buffer :: "u32 \<Rightarrow> (u32 \<Rightarrow> u8) sink" where
  "out_buffer buffer character idx maxlen m =
     (if idx < maxlen then m(buffer + idx := character) else m)"

definition out_null :: "'s sink" where
  "out_null character idx maxlen s = s"

definition putchar :: "arch \<Rightarrow> u8 \<Rightarrow> io \<Rightarrow> io" where
  "putchar A character k = Wr (ARCH_SOC_REGISTER_EOC A + 16) (ucast character) k"

text \<open>The state of the console sink is the program that has been run so far.\<close>

definition out_char :: "arch \<Rightarrow> (io \<Rightarrow> io) sink" where
  "out_char A character idx maxlen s = (if character \<noteq> 0 then \<lambda>k. s (putchar A character k) else s)"

text \<open>\<open>out_fct_wrap_type\<close> is the function with its argument.\<close>

definition out_fct :: "(u8 \<Rightarrow> 's \<Rightarrow> 's) \<Rightarrow> 's sink" where
  "out_fct fct character idx maxlen s = (if character \<noteq> 0 then fct character s else s)"

text \<open>\<open>out(c, buffer, idx++, maxlen)\<close> on the index and the state.\<close>

definition put :: "'s sink \<Rightarrow> u32 \<Rightarrow> u8 \<Rightarrow> u32 \<times> 's \<Rightarrow> u32 \<times> 's" where
  "put out maxlen c = (\<lambda>(idx, s). (idx + 1, out c idx maxlen s))"

text \<open>The loops that pad with spaces: one space for each value of \<open>i\<close> from its start below \<open>width\<close>.\<close>

function pad_spaces :: "'s sink \<Rightarrow> u32 \<Rightarrow> u32 \<Rightarrow> u32 \<Rightarrow> u32 \<times> 's \<Rightarrow> u32 \<times> 's" where
  "pad_spaces out maxlen i width cur =
     (if i < width then pad_spaces out maxlen (i + 1) width (put out maxlen 0x20 cur) else cur)"
  by auto
termination
  by (relation "measure (\<lambda>(_, _, i, width, _). unat width - unat i)")
    (auto simp: unat_inc32 word_less_nat_alt)

declare pad_spaces.simps [simp del]

subsection \<open>Strings and numbers\<close>

fun strnlen_s :: "u8 list \<Rightarrow> u32 \<Rightarrow> u32 option" where
  "strnlen_s [] maxsize = None"
| "strnlen_s (c # s) maxsize =
     (if c \<noteq> 0 \<and> maxsize \<noteq> 0 then map_option ((+) 1) (strnlen_s s (maxsize - 1)) else Some 0)"

definition is_digit :: "u8 \<Rightarrow> bool" where
  "is_digit ch = (ch \<ge> 0x30 \<and> ch \<le> 0x39)"

text \<open>\<open>_atoi\<close> from the value \<open>i\<close> on; it returns the number and the rest of the string.\<close>

fun atoi :: "u32 \<Rightarrow> u8 list \<Rightarrow> u32 \<times> u8 list" where
  "atoi i [] = (i, [])"
| "atoi i (c # str) = (if is_digit c then atoi (i * 10 + (ucast c - 0x30)) str else (i, c # str))"

subsection \<open>Integers\<close>

text \<open>\<open>buf[len++] = c\<close> where the buffer has room, and the loops that store zeros up to a length.\<close>

definition push :: "u8 \<Rightarrow> u8 list \<Rightarrow> u8 list" where
  "push c buf = (if length buf < PRINTF_NTOA_BUFFER_SIZE then buf @ [c] else buf)"

function push_zeros :: "u32 \<Rightarrow> u8 list \<Rightarrow> u8 list" where
  "push_zeros n buf =
     (if length buf < unat n \<and> length buf < PRINTF_NTOA_BUFFER_SIZE then push_zeros n (buf @ [0x30]) else buf)"
  by auto
termination by (relation "measure (\<lambda>(n, buf). unat n - length buf)") auto

declare push_zeros.simps [simp del]

text \<open>The reversed digits of \<open>value\<close>, a \<open>do\<close> loop; \<open>'a\<close> is the width of \<open>long\<close> or \<open>long long\<close>.\<close>

definition digit_char :: "u32 \<Rightarrow> u8 \<Rightarrow> u8" where
  "digit_char flags digit =
     (if digit < 10 then 0x30 + digit else (if has flags FLAGS_UPPERCASE then 0x41 else 0x61) + digit - 10)"

function push_digits :: "u32 \<Rightarrow> 'a::len word \<Rightarrow> 'a word \<Rightarrow> u8 list \<Rightarrow> u8 list" where
  "push_digits flags base value buf =
     (let digit = ucast (value mod base);
          buf' = buf @ [digit_char flags digit];
          value' = value div base
      in if value' \<noteq> 0 \<and> length buf' < PRINTF_NTOA_BUFFER_SIZE then push_digits flags base value' buf' else buf')"
  by auto
termination by (relation "measure (\<lambda>(_, _, _, buf). PRINTF_NTOA_BUFFER_SIZE - length buf)") auto

declare push_digits.simps [simp del]

text \<open>The parts of \<open>_ntoa_format\<close>: leading zeros (with the reduced width), prefix, sign, and the
  output of the field.\<close>

definition sign_width :: "bool \<Rightarrow> u32 \<Rightarrow> u32 \<Rightarrow> u32" where
  "sign_width negative width flags =
     (if width \<noteq> 0 \<and> (negative \<or> has flags (FLAGS_PLUS OR FLAGS_SPACE)) then width - 1 else width)"

definition ntoa_zeros :: "u8 list \<Rightarrow> bool \<Rightarrow> u32 \<Rightarrow> u32 \<Rightarrow> u32 \<Rightarrow> u8 list \<times> u32" where
  "ntoa_zeros buf negative prec width flags =
     (if \<not> has flags FLAGS_LEFT then
        (let width = (if has flags FLAGS_ZEROPAD then sign_width negative width flags else width);
             buf = push_zeros prec buf;
             buf = (if has flags FLAGS_ZEROPAD then push_zeros width buf else buf)
         in (buf, width))
      else (buf, width))"

definition ntoa_hash :: "u8 list \<Rightarrow> u32 \<Rightarrow> u32 \<Rightarrow> u32 \<Rightarrow> u32 \<Rightarrow> u8 list" where
  "ntoa_hash buf base prec width flags =
     (if has flags FLAGS_HASH then
        (let buf = (if \<not> has flags FLAGS_PRECISION \<and> buf \<noteq> [] \<and> (length buf = unat prec \<or> length buf = unat width)
                    then (let buf = butlast buf in if buf \<noteq> [] \<and> base = 16 then butlast buf else buf)
                    else buf);
             buf = (if base = 16 \<and> \<not> has flags FLAGS_UPPERCASE \<and> length buf < PRINTF_NTOA_BUFFER_SIZE then buf @ [0x78]
                    else if base = 16 \<and> has flags FLAGS_UPPERCASE \<and> length buf < PRINTF_NTOA_BUFFER_SIZE then buf @ [0x58]
                    else if base = 2 \<and> length buf < PRINTF_NTOA_BUFFER_SIZE then buf @ [0x62]
                    else buf)
         in push 0x30 buf)
      else buf)"

definition push_sign :: "u8 list \<Rightarrow> bool \<Rightarrow> u32 \<Rightarrow> u8 list" where
  "push_sign buf negative flags =
     (if length buf < PRINTF_NTOA_BUFFER_SIZE then
        (if negative then buf @ [0x2D]
         else if has flags FLAGS_PLUS then buf @ [0x2B]
         else if has flags FLAGS_SPACE then buf @ [0x20]
         else buf)
      else buf)"

definition out_field :: "'s sink \<Rightarrow> u32 \<Rightarrow> u8 list \<Rightarrow> u32 \<Rightarrow> u32 \<Rightarrow> u32 \<times> 's \<Rightarrow> u32 \<times> 's" where
  "out_field out maxlen buf width flags cur =
     (let start_idx = fst cur;
          cur = (if \<not> has flags FLAGS_LEFT \<and> \<not> has flags FLAGS_ZEROPAD
                 then pad_spaces out maxlen (of_nat (length buf)) width cur else cur);
          cur = fold (put out maxlen) (rev buf) cur
      in if has flags FLAGS_LEFT then pad_spaces out maxlen (fst cur - start_idx) width cur else cur)"

definition ntoa_format ::
    "'s sink \<Rightarrow> u32 \<Rightarrow> u8 list \<Rightarrow> bool \<Rightarrow> u32 \<Rightarrow> u32 \<Rightarrow> u32 \<Rightarrow> u32 \<Rightarrow> u32 \<times> 's \<Rightarrow> u32 \<times> 's" where
  "ntoa_format out maxlen buf negative base prec width flags cur =
     (let (buf, width) = ntoa_zeros buf negative prec width flags;
          buf = ntoa_hash buf base prec width flags;
          buf = push_sign buf negative flags
      in out_field out maxlen buf width flags cur)"

definition ntoa_long ::
    "'s sink \<Rightarrow> u32 \<Rightarrow> u32 \<Rightarrow> bool \<Rightarrow> u32 \<Rightarrow> u32 \<Rightarrow> u32 \<Rightarrow> u32 \<Rightarrow> u32 \<times> 's \<Rightarrow> u32 \<times> 's" where
  "ntoa_long out maxlen value negative base prec width flags cur =
     (let flags = (if value = 0 then flags AND NOT FLAGS_HASH else flags);
          buf = (if \<not> has flags FLAGS_PRECISION \<or> value \<noteq> 0 then push_digits flags base value [] else [])
      in ntoa_format out maxlen buf negative base prec width flags cur)"

definition ntoa_long_long ::
    "'s sink \<Rightarrow> u32 \<Rightarrow> u64 \<Rightarrow> bool \<Rightarrow> u64 \<Rightarrow> u32 \<Rightarrow> u32 \<Rightarrow> u32 \<Rightarrow> u32 \<times> 's \<Rightarrow> u32 \<times> 's" where
  "ntoa_long_long out maxlen value negative base prec width flags cur =
     (let flags = (if value = 0 then flags AND NOT FLAGS_HASH else flags);
          buf = (if \<not> has flags FLAGS_PRECISION \<or> value \<noteq> 0 then push_digits flags base value [] else [])
      in ntoa_format out maxlen buf negative (ucast base) prec width flags cur)"

subsection \<open>Floating point numbers\<close>

text \<open>\<open>dlit\<close> gives the literals; \<open>d_of_int\<close> reads its word as signed.\<close>

record 'd dbl_ops =
  dlit :: "rat \<Rightarrow> 'd"
  d_neq :: "'d \<Rightarrow> 'd \<Rightarrow> bool"
  d_less :: "'d \<Rightarrow> 'd \<Rightarrow> bool"
  d_le :: "'d \<Rightarrow> 'd \<Rightarrow> bool"
  d_sub :: "'d \<Rightarrow> 'd \<Rightarrow> 'd"
  d_mul :: "'d \<Rightarrow> 'd \<Rightarrow> 'd"
  d_of_int :: "u32 \<Rightarrow> 'd"
  d_of_uint :: "u32 \<Rightarrow> 'd"
  d_to_int :: "'d \<Rightarrow> u32"
  d_to_uint :: "'d \<Rightarrow> u32"

text \<open>The table has ten entries.\<close>

definition pow10 :: "'d dbl_ops \<Rightarrow> u32 \<Rightarrow> 'd option" where
  "pow10 ops prec = (if prec \<le> 9 then Some (dlit ops (10 ^ unat prec)) else None)"

text \<open>The loops of \<open>_ftoa\<close>: zeros for a precision above 9, the fraction digits (a loop left by
  \<open>break\<close>), the zeros after them, the digits of the whole part.\<close>

function ftoa_limit :: "u8 list \<Rightarrow> u32 \<Rightarrow> u8 list \<times> u32" where
  "ftoa_limit buf prec =
     (if length buf < PRINTF_FTOA_BUFFER_SIZE \<and> prec > 9 then ftoa_limit (buf @ [0x30]) (prec - 1) else (buf, prec))"
  by auto
termination by (relation "measure (\<lambda>(buf, _). PRINTF_FTOA_BUFFER_SIZE - length buf)") auto

function ftoa_frac :: "u8 list \<Rightarrow> u32 \<Rightarrow> u32 \<Rightarrow> u8 list \<times> u32" where
  "ftoa_frac buf count fraction =
     (if length buf < PRINTF_FTOA_BUFFER_SIZE then
        (let count = count - 1;
             buf = buf @ [ucast (48 + fraction mod 10)];
             fraction = fraction div 10
         in if fraction = 0 then (buf, count) else ftoa_frac buf count fraction)
      else (buf, count))"
  by auto
termination by (relation "measure (\<lambda>(buf, _, _). PRINTF_FTOA_BUFFER_SIZE - length buf)") auto

function ftoa_extra :: "u8 list \<Rightarrow> u32 \<Rightarrow> u8 list" where
  "ftoa_extra buf count =
     (if length buf < PRINTF_FTOA_BUFFER_SIZE \<and> count > 0 then ftoa_extra (buf @ [0x30]) (count - 1) else buf)"
  by auto
termination by (relation "measure (\<lambda>(buf, _). PRINTF_FTOA_BUFFER_SIZE - length buf)") auto

function ftoa_whole :: "u8 list \<Rightarrow> u32 \<Rightarrow> u8 list" where
  "ftoa_whole buf whole =
     (if length buf < PRINTF_FTOA_BUFFER_SIZE then
        (let buf = buf @ [of_int (48 + sint whole smod 10)];
             whole = of_int (sint whole sdiv 10) :: u32
         in if whole = 0 then buf else ftoa_whole buf whole)
      else buf)"
  by auto
termination by (relation "measure (\<lambda>(buf, _). PRINTF_FTOA_BUFFER_SIZE - length buf)") auto

declare ftoa_limit.simps [simp del] ftoa_frac.simps [simp del] ftoa_extra.simps [simp del]
  ftoa_whole.simps [simp del]

text \<open>The rounded whole part and fraction.\<close>

definition ftoa_round :: "'d dbl_ops \<Rightarrow> 'd \<Rightarrow> 'd \<Rightarrow> u32 \<times> u32" where
  "ftoa_round ops value p10 =
     (let whole = d_to_int ops value;
          tmp = d_mul ops (d_sub ops value (d_of_int ops whole)) p10;
          fraction = d_to_uint ops tmp;
          diff = d_sub ops tmp (d_of_uint ops fraction)
      in if d_less ops (dlit ops (1 / 2)) diff then
           (let fraction = fraction + 1 in
            if d_le ops p10 (d_of_uint ops fraction) then (whole + 1, 0) else (whole, fraction))
         else if d_less ops diff (dlit ops (1 / 2)) then (whole, fraction)
         else if fraction = 0 \<or> fraction AND 1 \<noteq> 0 then (whole, fraction + 1)
         else (whole, fraction))"

definition ftoa_digits :: "'d dbl_ops \<Rightarrow> 'd \<Rightarrow> u32 \<Rightarrow> u8 list \<Rightarrow> u32 \<times> u32 \<Rightarrow> u8 list" where
  "ftoa_digits ops value prec buf = (\<lambda>(whole, fraction).
     if prec = 0 then
       (let diff = d_sub ops value (d_of_int ops whole);
            whole = (if (\<not> d_less ops diff (dlit ops (1 / 2)) \<or> d_less ops (dlit ops (1 / 2)) diff) \<and> whole AND 1 \<noteq> 0
                     then whole + 1 else whole)
        in ftoa_whole buf whole)
     else
       (let (buf, count) = ftoa_frac buf prec fraction;
            buf = ftoa_extra buf count;
            buf = push 0x2E buf
        in ftoa_whole buf whole))"

definition ftoa ::
    "'d dbl_ops \<Rightarrow> 's sink \<Rightarrow> u32 \<Rightarrow> 'd \<Rightarrow> u32 \<Rightarrow> u32 \<Rightarrow> u32 \<Rightarrow> u32 \<times> 's \<Rightarrow> (u32 \<times> 's) option" where
  "ftoa ops out maxlen value prec width flags cur =
     (if d_neq ops value value then
        Some (put out maxlen 0x6E (put out maxlen 0x61 (put out maxlen 0x6E cur)))
      else do {
        let negative = d_less ops value (dlit ops 0);
        let value = (if negative then d_sub ops (dlit ops 0) value else value);
        let prec = (if \<not> has flags FLAGS_PRECISION then 6 else prec);
        let (buf, prec) = ftoa_limit [] prec;
        p10 \<leftarrow> pow10 ops prec;
        let parts = ftoa_round ops value p10;
        if d_less ops (dlit ops 0x7FFFFFFF) value then Some (0, snd cur)
        else do {
          let buf = ftoa_digits ops value prec buf parts;
          let width = (if \<not> has flags FLAGS_LEFT \<and> has flags FLAGS_ZEROPAD then sign_width negative width flags
                       else width);
          let buf = (if \<not> has flags FLAGS_LEFT \<and> has flags FLAGS_ZEROPAD then push_zeros width buf else buf);
          let buf = push_sign buf negative flags;
          Some (out_field out maxlen buf width flags cur)
        }
      })"

subsection \<open>Variable arguments\<close>

datatype 'd arg = AInt u32 | ALong u64 | ADbl 'd | AStr "u8 list"

text \<open>\<open>va_arg\<close> at the types the code uses; pointers other than strings are 32-bit numbers.\<close>

fun va_int :: "'d arg list \<Rightarrow> (u32 \<times> 'd arg list) option" where
  "va_int (AInt v # va) = Some (v, va)"
| "va_int _ = None"

fun va_long :: "'d arg list \<Rightarrow> (u64 \<times> 'd arg list) option" where
  "va_long (ALong v # va) = Some (v, va)"
| "va_long _ = None"

fun va_double :: "'d arg list \<Rightarrow> ('d \<times> 'd arg list) option" where
  "va_double (ADbl v # va) = Some (v, va)"
| "va_double _ = None"

fun va_string :: "'d arg list \<Rightarrow> (u8 list \<times> 'd arg list) option" where
  "va_string (AStr v # va) = Some (v, va)"
| "va_string _ = None"

subsection \<open>Conversion specifications\<close>

fun parse_flags :: "u32 \<Rightarrow> u8 list \<Rightarrow> u32 \<times> u8 list" where
  "parse_flags flags [] = (flags, [])"
| "parse_flags flags (c # fmt) =
     (if c = 0x30 then parse_flags (flags OR FLAGS_ZEROPAD) fmt
      else if c = 0x2D then parse_flags (flags OR FLAGS_LEFT) fmt
      else if c = 0x2B then parse_flags (flags OR FLAGS_PLUS) fmt
      else if c = 0x20 then parse_flags (flags OR FLAGS_SPACE) fmt
      else if c = 0x23 then parse_flags (flags OR FLAGS_HASH) fmt
      else (flags, c # fmt))"

text \<open>Width: the flags, the width, the rest of the format and of the arguments.\<close>

fun parse_width :: "u32 \<Rightarrow> u8 list \<Rightarrow> 'd arg list \<Rightarrow> (u32 \<times> u32 \<times> u8 list \<times> 'd arg list) option" where
  "parse_width flags [] va = None"
| "parse_width flags (c # fmt) va =
     (if is_digit c then (let (width, fmt') = atoi 0 (c # fmt) in Some (flags, width, fmt', va))
      else if c = 0x2A then do {
        (w, va) \<leftarrow> va_int va;
        if w <s 0 then Some (flags OR FLAGS_LEFT, - w, fmt, va) else Some (flags, w, fmt, va)
      }
      else Some (flags, 0, c # fmt, va))"

text \<open>The digits or \<open>*\<close> after the point of a precision, then the whole field.\<close>

fun precision_value :: "u8 list \<Rightarrow> 'd arg list \<Rightarrow> (u32 \<times> u8 list \<times> 'd arg list) option" where
  "precision_value [] va = None"
| "precision_value (c # fmt) va =
     (if is_digit c then (let (prec, fmt') = atoi 0 (c # fmt) in Some (prec, fmt', va))
      else if c = 0x2A then do {
        (prec, va) \<leftarrow> va_int va;
        Some (if 0 <s prec then prec else 0, fmt, va)
      }
      else Some (0, c # fmt, va))"

fun parse_precision :: "u32 \<Rightarrow> u8 list \<Rightarrow> 'd arg list \<Rightarrow> (u32 \<times> u32 \<times> u8 list \<times> 'd arg list) option" where
  "parse_precision flags [] va = None"
| "parse_precision flags (c # fmt) va =
     (if c = 0x2E then do {
        (prec, fmt, va) \<leftarrow> precision_value fmt va;
        Some (flags OR FLAGS_PRECISION, prec, fmt, va)
      }
      else Some (flags, 0, c # fmt, va))"

text \<open>A second \<open>l\<close> or \<open>h\<close>; \<open>ptrdiff_t\<close> and \<open>size_t\<close> are as large as \<open>long\<close>, \<open>intmax_t\<close> is not.\<close>

fun parse_twice :: "u8 \<Rightarrow> u32 \<Rightarrow> u32 \<Rightarrow> u8 list \<Rightarrow> u32 \<times> u8 list" where
  "parse_twice ch flag flags [] = (flags, [])"
| "parse_twice ch flag flags (c # fmt) = (if c = ch then (flags OR flag, fmt) else (flags, c # fmt))"

fun parse_length :: "u32 \<Rightarrow> u8 list \<Rightarrow> u32 \<times> u8 list" where
  "parse_length flags [] = (flags, [])"
| "parse_length flags (c # fmt) =
     (if c = 0x6C then parse_twice 0x6C FLAGS_LONG_LONG (flags OR FLAGS_LONG) fmt
      else if c = 0x68 then parse_twice 0x68 FLAGS_CHAR (flags OR FLAGS_SHORT) fmt
      else if c = 0x74 then (flags OR FLAGS_LONG, fmt)
      else if c = 0x6A then (flags OR FLAGS_LONG_LONG, fmt)
      else if c = 0x7A then (flags OR FLAGS_LONG, fmt)
      else (flags, c # fmt))"

subsection \<open>Conversions\<close>

text \<open>The integer conversions: base and flags of the specifier \<open>c\<close>, then the number.\<close>

definition int_base :: "u8 \<Rightarrow> u32" where
  "int_base c = (if c = 0x78 \<or> c = 0x58 then 16 else if c = 0x6F then 8 else if c = 0x62 then 2 else 10)"

definition int_flags :: "u8 \<Rightarrow> u32 \<Rightarrow> u32" where
  "int_flags c flags =
     (let flags = (if c \<in> {0x78, 0x58, 0x6F, 0x62} then flags else flags AND NOT FLAGS_HASH);
          flags = (if c = 0x58 then flags OR FLAGS_UPPERCASE else flags);
          flags = (if c \<noteq> 0x69 \<and> c \<noteq> 0x64 then flags AND NOT (FLAGS_PLUS OR FLAGS_SPACE) else flags)
      in if has flags FLAGS_PRECISION then flags AND NOT FLAGS_ZEROPAD else flags)"

text \<open>The value of an \<open>int\<close> argument under \<open>hh\<close> and \<open>h\<close>: \<open>char\<close> is unsigned, \<open>short\<close> is signed.\<close>

definition narrow_signed :: "u32 \<Rightarrow> u32 \<Rightarrow> u32" where
  "narrow_signed flags v =
     (if has flags FLAGS_CHAR then ucast (ucast v :: u8) else if has flags FLAGS_SHORT then scast (ucast v :: u16) else v)"

definition narrow_unsigned :: "u32 \<Rightarrow> u32 \<Rightarrow> u32" where
  "narrow_unsigned flags v =
     (if has flags FLAGS_CHAR then ucast (ucast v :: u8) else if has flags FLAGS_SHORT then ucast (ucast v :: u16) else v)"

definition conv_signed ::
    "'s sink \<Rightarrow> u32 \<Rightarrow> u32 \<Rightarrow> u32 \<Rightarrow> u32 \<Rightarrow> u32 \<Rightarrow> u32 \<times> 's \<Rightarrow> 'd arg list \<Rightarrow> ((u32 \<times> 's) \<times> 'd arg list) option" where
  "conv_signed out maxlen base flags width precision cur va =
     (if has flags FLAGS_LONG_LONG then do {
        (value, va) \<leftarrow> va_long va;
        Some (ntoa_long_long out maxlen (if 0 <s value then value else 0 - value) (value <s 0) (ucast base)
                precision width flags cur, va)
      }
      else do {
        (v, va) \<leftarrow> va_int va;
        let value = (if has flags FLAGS_LONG then v else narrow_signed flags v);
        Some (ntoa_long out maxlen (if 0 <s value then value else 0 - value) (value <s 0) base
                precision width flags cur, va)
      })"

definition conv_unsigned ::
    "'s sink \<Rightarrow> u32 \<Rightarrow> u32 \<Rightarrow> u32 \<Rightarrow> u32 \<Rightarrow> u32 \<Rightarrow> u32 \<times> 's \<Rightarrow> 'd arg list \<Rightarrow> ((u32 \<times> 's) \<times> 'd arg list) option" where
  "conv_unsigned out maxlen base flags width precision cur va =
     (if has flags FLAGS_LONG_LONG then do {
        (value, va) \<leftarrow> va_long va;
        Some (ntoa_long_long out maxlen value False (ucast base) precision width flags cur, va)
      }
      else do {
        (v, va) \<leftarrow> va_int va;
        let value = (if has flags FLAGS_LONG then v else narrow_unsigned flags v);
        Some (ntoa_long out maxlen value False base precision width flags cur, va)
      })"

text \<open>\<open>%c\<close> and \<open>%s\<close>.  The padding counts \<open>l++ < width\<close> from the length of the output.\<close>

definition conv_char ::
    "'s sink \<Rightarrow> u32 \<Rightarrow> u32 \<Rightarrow> u32 \<Rightarrow> u32 \<times> 's \<Rightarrow> 'd arg list \<Rightarrow> ((u32 \<times> 's) \<times> 'd arg list) option" where
  "conv_char out maxlen flags width cur va = do {
     let cur = (if \<not> has flags FLAGS_LEFT then pad_spaces out maxlen 1 width cur else cur);
     (v, va) \<leftarrow> va_int va;
     let cur = put out maxlen (ucast v) cur;
     let cur = (if has flags FLAGS_LEFT then pad_spaces out maxlen 1 width cur else cur);
     Some (cur, va)
   }"

fun out_string :: "'s sink \<Rightarrow> u32 \<Rightarrow> u32 \<Rightarrow> u8 list \<Rightarrow> u32 \<Rightarrow> u32 \<times> 's \<Rightarrow> (u32 \<times> 's) option" where
  "out_string out maxlen flags [] precision cur = None"
| "out_string out maxlen flags (c # p) precision cur =
     (if c \<noteq> 0 \<and> (\<not> has flags FLAGS_PRECISION \<or> precision \<noteq> 0)
      then out_string out maxlen flags p (precision - 1) (put out maxlen c cur)
      else Some cur)"

definition conv_string ::
    "'s sink \<Rightarrow> u32 \<Rightarrow> u32 \<Rightarrow> u32 \<Rightarrow> u32 \<Rightarrow> u32 \<times> 's \<Rightarrow> 'd arg list \<Rightarrow> ((u32 \<times> 's) \<times> 'd arg list) option" where
  "conv_string out maxlen flags width precision cur va = do {
     (p, va) \<leftarrow> va_string va;
     l \<leftarrow> strnlen_s p (if precision \<noteq> 0 then precision else - 1);
     let l = (if has flags FLAGS_PRECISION then (if l < precision then l else precision) else l);
     let cur = (if \<not> has flags FLAGS_LEFT then pad_spaces out maxlen l width cur else cur);
     cur \<leftarrow> out_string out maxlen flags p precision cur;
     let cur = (if has flags FLAGS_LEFT then pad_spaces out maxlen l width cur else cur);
     Some (cur, va)
   }"

definition conv_pointer ::
    "'s sink \<Rightarrow> u32 \<Rightarrow> u32 \<Rightarrow> u32 \<Rightarrow> u32 \<times> 's \<Rightarrow> 'd arg list \<Rightarrow> ((u32 \<times> 's) \<times> 'd arg list) option" where
  "conv_pointer out maxlen flags precision cur va = do {
     let width = 4 * 2;
     let flags = flags OR (FLAGS_ZEROPAD OR FLAGS_UPPERCASE);
     (v, va) \<leftarrow> va_int va;
     Some (ntoa_long out maxlen v False 16 precision width flags cur, va)
   }"

text \<open>The specifier \<open>c\<close>; any other character, also the NUL, is printed as it is.\<close>

definition specifier ::
    "'d dbl_ops \<Rightarrow> 's sink \<Rightarrow> u32 \<Rightarrow> u8 \<Rightarrow> u32 \<Rightarrow> u32 \<Rightarrow> u32 \<Rightarrow> u32 \<times> 's \<Rightarrow> 'd arg list \<Rightarrow>
     ((u32 \<times> 's) \<times> 'd arg list) option" where
  "specifier ops out maxlen c flags width precision cur va =
     (if c \<in> {0x64, 0x69} then
        conv_signed out maxlen (int_base c) (int_flags c flags) width precision cur va
      else if c \<in> {0x75, 0x78, 0x58, 0x6F, 0x62} then
        conv_unsigned out maxlen (int_base c) (int_flags c flags) width precision cur va
      else if c \<in> {0x66, 0x46} then do {
        (v, va) \<leftarrow> va_double va;
        cur \<leftarrow> ftoa ops out maxlen v precision width flags cur;
        Some (cur, va)
      }
      else if c = 0x63 then conv_char out maxlen flags width cur va
      else if c = 0x73 then conv_string out maxlen flags width precision cur va
      else if c = 0x70 then conv_pointer out maxlen flags precision cur va
      else Some (put out maxlen c cur, va))"

text \<open>A conversion after its \<open>%\<close>.\<close>

definition conversion ::
    "'d dbl_ops \<Rightarrow> 's sink \<Rightarrow> u32 \<Rightarrow> u8 list \<Rightarrow> u32 \<times> 's \<Rightarrow> 'd arg list \<Rightarrow>
     (u8 list \<times> (u32 \<times> 's) \<times> 'd arg list) option" where
  "conversion ops out maxlen fmt cur va = do {
     let (flags, fmt) = parse_flags 0 fmt;
     (flags, width, fmt, va) \<leftarrow> parse_width flags fmt va;
     (flags, precision, fmt, va) \<leftarrow> parse_precision flags fmt va;
     let (flags, fmt) = parse_length flags fmt;
     case fmt of [] \<Rightarrow> None
     | c # fmt \<Rightarrow> do {
         (cur, va) \<leftarrow> specifier ops out maxlen c flags width precision cur va;
         Some (fmt, cur, va)
       }
   }"

text \<open>Every conversion consumes format, which makes the main loop end.\<close>

lemma parse_flags_length: "parse_flags flags fmt = (f, fmt') \<Longrightarrow> length fmt' \<le> length fmt"
  by (induction flags fmt arbitrary: f rule: parse_flags.induct) (auto split: if_splits intro: le_SucI)

lemma atoi_length: "atoi i str = (n, str') \<Longrightarrow> length str' \<le> length str"
  by (induction i str arbitrary: n rule: atoi.induct) (auto split: if_splits intro: le_SucI)

lemma parse_width_length: "parse_width flags fmt va = Some (f, w, fmt', va') \<Longrightarrow> length fmt' \<le> length fmt"
  by (cases fmt) (auto split: if_splits prod.splits bind_splits dest: atoi_length simp del: atoi.simps)

lemma precision_value_length: "precision_value fmt va = Some (p, fmt', va') \<Longrightarrow> length fmt' \<le> length fmt"
  by (cases fmt) (auto split: if_splits prod.splits bind_splits dest: atoi_length simp del: atoi.simps)

lemma parse_precision_length:
  "parse_precision flags fmt va = Some (f, p, fmt', va') \<Longrightarrow> length fmt' \<le> length fmt"
  by (cases fmt) (auto split: if_splits bind_splits dest: precision_value_length simp del: precision_value.simps)

lemma parse_twice_length: "parse_twice ch flag flags fmt = (f, fmt') \<Longrightarrow> length fmt' \<le> length fmt"
  by (cases fmt) (auto split: if_splits)

lemma parse_length_length: "parse_length flags fmt = (f, fmt') \<Longrightarrow> length fmt' \<le> length fmt"
  by (cases fmt) (auto split: if_splits dest: parse_twice_length simp del: parse_twice.simps)

lemma conversion_length:
  assumes "conversion ops out maxlen fmt cur va = Some (fmt', cur', va')"
  shows "length fmt' < length fmt"
  using assms
  by (auto simp: conversion_def split: prod.splits bind_splits list.splits
      dest!: parse_flags_length parse_width_length parse_precision_length parse_length_length)

function vsnprintf_loop ::
    "'d dbl_ops \<Rightarrow> 's sink \<Rightarrow> u32 \<Rightarrow> u8 list \<Rightarrow> u32 \<times> 's \<Rightarrow> 'd arg list \<Rightarrow> (u32 \<times> 's) option" where
  "vsnprintf_loop ops out maxlen [] cur va = None"
| "vsnprintf_loop ops out maxlen (c # fmt) cur va =
     (if c = 0 then Some cur
      else if c \<noteq> 0x25 then vsnprintf_loop ops out maxlen fmt (put out maxlen c cur) va
      else do {
        (fmt', cur, va) \<leftarrow> conversion ops out maxlen fmt cur va;
        vsnprintf_loop ops out maxlen fmt' cur va
      })"
  by pat_completeness auto
termination
  by (relation "measure (\<lambda>(_, _, _, fmt, _). length fmt)") (auto dest: conversion_length)

text \<open>\<open>null\<close> tells whether \<open>buffer\<close> is NULL; the result is the state and the returned \<open>int\<close>.\<close>

definition vsnprintf_core ::
    "'d dbl_ops \<Rightarrow> 's sink \<Rightarrow> bool \<Rightarrow> u32 \<Rightarrow> u8 list \<Rightarrow> 'd arg list \<Rightarrow> 's \<Rightarrow> ('s \<times> u32) option" where
  "vsnprintf_core ops out null maxlen format va s = do {
     let out = (if null then out_null else out);
     (idx, s) \<leftarrow> vsnprintf_loop ops out maxlen format (0, s) va;
     Some (out 0 (if idx < maxlen then idx else maxlen - 1) maxlen s, idx)
   }"

text \<open>The interface; \<open>m\<close> is the byte memory and NULL is address 0.\<close>

definition printf :: "'d dbl_ops \<Rightarrow> arch \<Rightarrow> u8 list \<Rightarrow> 'd arg list \<Rightarrow> ((io \<Rightarrow> io) \<times> u32) option" where
  "printf ops A format va = vsnprintf_core ops (out_char A) False (- 1) format va id"

definition sprintf ::
    "'d dbl_ops \<Rightarrow> u32 \<Rightarrow> u8 list \<Rightarrow> 'd arg list \<Rightarrow> (u32 \<Rightarrow> u8) \<Rightarrow> ((u32 \<Rightarrow> u8) \<times> u32) option" where
  "sprintf ops buffer format va m = vsnprintf_core ops (out_buffer buffer) (buffer = 0) (- 1) format va m"

definition snprintf ::
    "'d dbl_ops \<Rightarrow> u32 \<Rightarrow> u32 \<Rightarrow> u8 list \<Rightarrow> 'd arg list \<Rightarrow> (u32 \<Rightarrow> u8) \<Rightarrow> ((u32 \<Rightarrow> u8) \<times> u32) option" where
  "snprintf ops buffer count format va m = vsnprintf_core ops (out_buffer buffer) (buffer = 0) count format va m"

definition vsnprintf ::
    "'d dbl_ops \<Rightarrow> u32 \<Rightarrow> u32 \<Rightarrow> u8 list \<Rightarrow> 'd arg list \<Rightarrow> (u32 \<Rightarrow> u8) \<Rightarrow> ((u32 \<Rightarrow> u8) \<times> u32) option" where
  "vsnprintf ops buffer count format va m = vsnprintf_core ops (out_buffer buffer) (buffer = 0) count format va m"

definition fctprintf ::
    "'d dbl_ops \<Rightarrow> (u8 \<Rightarrow> 's \<Rightarrow> 's) \<Rightarrow> u8 list \<Rightarrow> 'd arg list \<Rightarrow> 's \<Rightarrow> ('s \<times> u32) option" where
  "fctprintf ops out format va s = vsnprintf_core ops (out_fct out) False (- 1) format va s"

subsection \<open>Exact arithmetic\<close>

text \<open>The operations of \<open>double\<close> without rounding; the conversions to integers truncate.\<close>

definition trunc :: "rat \<Rightarrow> int" where
  "trunc x = (if 0 \<le> x then \<lfloor>x\<rfloor> else \<lceil>x\<rceil>)"

definition rat_dbl :: "rat dbl_ops" where
  "rat_dbl = \<lparr>dlit = \<lambda>q. q, d_neq = (\<noteq>), d_less = (<), d_le = (\<le>), d_sub = (-), d_mul = (*),
     d_of_int = \<lambda>w. of_int (sint w), d_of_uint = \<lambda>w. of_int (uint w),
     d_to_int = \<lambda>x. of_int (trunc x), d_to_uint = \<lambda>x. of_int (trunc x)\<rparr>"

lemma rat_dbl_simps:
  "dlit rat_dbl q = q" "d_neq rat_dbl x y = (x \<noteq> y)" "d_less rat_dbl x y = (x < y)" "d_le rat_dbl x y = (x \<le> y)"
  "d_sub rat_dbl x y = x - y" "d_mul rat_dbl x y = x * y" "d_of_int rat_dbl w = of_int (sint w)"
  "d_of_uint rat_dbl w = of_int (uint w)" "d_to_int rat_dbl x = of_int (trunc x)"
  "d_to_uint rat_dbl x = of_int (trunc x)"
  by (simp_all add: rat_dbl_def)

end
