(* ===== verification/Flex_Printf_Typing.thy ===== *)
theory Flex_Printf_Typing
  imports Flex_Printf
begin

text \<open>
  Which calls of the formatted output are defined: a format has a signature, the kinds of arguments
  it takes, or none when it is malformed; a call with arguments of these kinds returns.  A format
  that ends inside a conversion has no signature, and the code reads past its terminating NUL.
\<close>

subsection \<open>Flags as bits\<close>

named_theorems flag_bits

lemma bit_one_hot: "bit (push_bit n 1 :: u32) m = (m = n \<and> n < 32)"
  by (auto simp: bit_exp_iff possible_bit_word)

lemma has_bit: "has f (push_bit n 1) = bit f n" if "n < 32" for f :: u32
proof -
  have "f AND push_bit n 1 = (if bit f n then push_bit n 1 else 0)"
    by (rule bit_eqI) (auto simp: bit_and_iff bit_exp_iff)
  moreover have "(push_bit n 1 :: u32) \<noteq> 0" using that bit_one_hot [of n n] by (metis bit_0_eq bot_apply bot_bool_def)
  ultimately show ?thesis by (simp add: has_def)
qed

lemma has_flags [flag_bits]:
  "has f FLAGS_ZEROPAD = bit f 0" "has f FLAGS_LEFT = bit f 1" "has f FLAGS_PLUS = bit f 2"
  "has f FLAGS_SPACE = bit f 3" "has f FLAGS_HASH = bit f 4" "has f FLAGS_UPPERCASE = bit f 5"
  "has f FLAGS_CHAR = bit f 6" "has f FLAGS_SHORT = bit f 7" "has f FLAGS_LONG = bit f 8"
  "has f FLAGS_LONG_LONG = bit f 9" "has f FLAGS_PRECISION = bit f 10"
  unfolding flag_defs by (rule has_bit, simp)+

lemma bit_flags [flag_bits]:
  "bit FLAGS_ZEROPAD n = (n = 0)" "bit FLAGS_LEFT n = (n = 1)" "bit FLAGS_PLUS n = (n = 2)"
  "bit FLAGS_SPACE n = (n = 3)" "bit FLAGS_HASH n = (n = 4)" "bit FLAGS_UPPERCASE n = (n = 5)"
  "bit FLAGS_CHAR n = (n = 6)" "bit FLAGS_SHORT n = (n = 7)" "bit FLAGS_LONG n = (n = 8)"
  "bit FLAGS_LONG_LONG n = (n = 9)" "bit FLAGS_PRECISION n = (n = 10)"
  unfolding flag_defs bit_one_hot by auto

subsection \<open>Signatures\<close>

datatype kind = KInt | KLong | KDouble | KString

fun fits :: "kind \<Rightarrow> 'd arg \<Rightarrow> bool" where
  "fits KInt (AInt _) = True"
| "fits KLong (ALong _) = True"
| "fits KDouble (ADbl _) = True"
| "fits KString (AStr s) = (0 \<in> set s)"
| "fits _ _ = False"

definition is_flag :: "u8 \<Rightarrow> bool" where
  "is_flag c = (c \<in> {0x30, 0x2D, 0x2B, 0x20, 0x23})"

fun star_or_digits :: "u8 list \<Rightarrow> kind list \<times> u8 list" where
  "star_or_digits [] = ([], [])"
| "star_or_digits (c # fmt) = (if c = 0x2A then ([KInt], fmt) else ([], dropWhile is_digit (c # fmt)))"

text \<open>The precision field, and whether a \<open>%f\<close> may have it: the number must be written in the
  format and be at most 41, since the code looks up the power of ten of the rest over 32.\<close>

fun precision_sig :: "u8 list \<Rightarrow> kind list \<times> bool \<times> u8 list" where
  "precision_sig (c # fmt) =
     (if c = 0x2E then (let (k, rest) = star_or_digits fmt in (k, k = [] \<and> fst (atoi 0 fmt) \<le> 41, rest))
      else ([], True, c # fmt))"
| "precision_sig [] = ([], True, [])"

fun length_sig :: "u8 list \<Rightarrow> bool \<times> u8 list" where
  "length_sig (c # fmt) =
     (if c = 0x6C then (if fmt \<noteq> [] \<and> hd fmt = 0x6C then (True, tl fmt) else (False, fmt))
      else if c = 0x68 then (False, if fmt \<noteq> [] \<and> hd fmt = 0x68 then tl fmt else fmt)
      else if c = 0x6A then (True, fmt)
      else if c \<in> {0x74, 0x7A} then (False, fmt)
      else (False, c # fmt))"
| "length_sig [] = (False, [])"

definition specifier_sig :: "bool \<Rightarrow> u8 \<Rightarrow> kind list" where
  "specifier_sig ll c =
     (if c \<in> {0x64, 0x69, 0x75, 0x78, 0x58, 0x6F, 0x62} then [if ll then KLong else KInt]
      else if c \<in> {0x66, 0x46} then [KDouble]
      else if c \<in> {0x63, 0x70} then [KInt]
      else if c = 0x73 then [KString]
      else [])"

definition conversion_sig :: "u8 list \<Rightarrow> (kind list \<times> u8 list) option" where
  "conversion_sig fmt =
     (let (k1, fmt) = star_or_digits (dropWhile is_flag fmt);
          (k2, fl, fmt) = precision_sig fmt;
          (ll, fmt) = length_sig fmt
      in case fmt of [] \<Rightarrow> None
         | c # fmt \<Rightarrow> if c = 0 \<or> (c \<in> {0x66, 0x46} \<and> \<not> fl) then None
                     else Some (k1 @ k2 @ specifier_sig ll c, fmt))"

lemma star_or_digits_length: "star_or_digits fmt = (k, fmt') \<Longrightarrow> length fmt' \<le> length fmt"
  by (cases fmt) (auto split: if_splits simp: le_SucI length_dropWhile_le)

lemma precision_sig_length: "precision_sig fmt = (k, fl, fmt') \<Longrightarrow> length fmt' \<le> length fmt"
  by (cases fmt) (auto split: if_splits prod.splits dest: star_or_digits_length)

lemma length_sig_length: "length_sig fmt = (ll, fmt') \<Longrightarrow> length fmt' \<le> length fmt"
  by (cases fmt) (auto split: if_splits)

lemma conversion_sig_length: "conversion_sig fmt = Some (k, fmt') \<Longrightarrow> length fmt' < length fmt"
  using length_dropWhile_le [of is_flag fmt]
  by (auto simp: conversion_sig_def split: prod.splits list.splits if_splits
      dest!: star_or_digits_length precision_sig_length length_sig_length)

function signature :: "u8 list \<Rightarrow> kind list option" where
  "signature [] = None"
| "signature (c # fmt) =
     (if c = 0 then Some []
      else if c \<noteq> 0x25 then signature fmt
      else do { (k, fmt') \<leftarrow> conversion_sig fmt; map_option ((@) k) (signature fmt') })"
  by pat_completeness auto
termination by (relation "measure length") (auto dest: conversion_sig_length)

subsection \<open>A conversion follows its signature\<close>

text \<open>\<open>supplies ks va rest\<close>: the arguments \<open>va\<close> begin with arguments of the kinds \<open>ks\<close>.\<close>

definition supplies :: "kind list \<Rightarrow> 'd arg list \<Rightarrow> 'd arg list \<Rightarrow> bool" where
  "supplies ks va rest = (\<exists>va1. va = va1 @ rest \<and> list_all2 fits ks va1)"

lemma supplies_Nil [simp]: "supplies [] va rest = (rest = va)"
  by (auto simp: supplies_def)

lemma supplies_append: "supplies (ks @ ks') va rest \<Longrightarrow> \<exists>mid. supplies ks va mid \<and> supplies ks' mid rest"
  unfolding supplies_def list_all2_append1 by (metis append.assoc)

lemma supplies_single:
  "supplies [k] va rest \<Longrightarrow> \<exists>a. va = a # rest \<and> fits k a"
  by (auto simp: supplies_def list_all2_Cons1)

lemma fits_cases:
  "fits KInt a \<Longrightarrow> \<exists>v. a = AInt v" "fits KLong a \<Longrightarrow> \<exists>v. a = ALong v"
  "fits KDouble a \<Longrightarrow> \<exists>v. a = ADbl v" "fits KString a \<Longrightarrow> \<exists>s. a = AStr s \<and> 0 \<in> set s"
  by (cases a; simp)+

lemma parse_flags_sig:
  "\<exists>f. parse_flags flags fmt = (f, dropWhile is_flag fmt) \<and> (\<forall>n \<ge> 5. bit f n = bit flags n)"
proof (induction flags fmt rule: parse_flags.induct)
  case (2 flags c fmt)
  show ?case
  proof (cases "is_flag c")
    case True
    then have "c \<in> {0x30, 0x2D, 0x2B, 0x20, 0x23}" by (simp only: is_flag_def)
    then show ?thesis using 2 by (elim insertE emptyE) (auto simp: is_flag_def bit_or_iff flag_bits)
  qed (auto simp: is_flag_def)
qed simp

lemma atoi_rest: "snd (atoi i fmt) = dropWhile is_digit fmt"
  by (induction i fmt rule: atoi.induct) auto

lemma parse_width_sig:
  assumes "star_or_digits fmt = (k, fmt')" "fmt' \<noteq> []" "supplies k va rest"
  shows "\<exists>f w. parse_width flags fmt va = Some (f, w, fmt', rest) \<and> (\<forall>n \<ge> 5. bit f n = bit flags n)"
proof (cases fmt)
  case (Cons c r)
  show ?thesis
  proof (cases "c = 0x2A")
    case True
    with assms Cons obtain v where "va = AInt v # rest" "fmt' = r"
      by (auto dest!: supplies_single fits_cases(1))
    with Cons True show ?thesis by (auto simp: is_digit_def bit_or_iff flag_bits)
  next
    case False
    with assms Cons show ?thesis
      using atoi_rest [of 0 fmt] by (auto split: prod.split simp del: atoi.simps)
  qed
qed (use assms in simp)

lemma precision_value_sig:
  assumes "star_or_digits fmt = (k, fmt')" "fmt' \<noteq> []" "supplies k va rest"
  shows "\<exists>p. precision_value fmt va = Some (p, fmt', rest) \<and> (k = [] \<longrightarrow> fst (atoi 0 fmt) \<le> 41 \<longrightarrow> p \<le> 41)"
proof (cases fmt)
  case (Cons c r)
  show ?thesis
  proof (cases "c = 0x2A")
    case True
    with assms Cons obtain v where "va = AInt v # rest" "fmt' = r" "k = [KInt]"
      by (auto dest!: supplies_single fits_cases(1))
    with Cons True show ?thesis by (auto simp: is_digit_def)
  next
    case False
    with assms Cons show ?thesis
      using atoi_rest [of 0 fmt] by (auto split: prod.split simp del: atoi.simps)
  qed
qed (use assms in simp)

lemma parse_precision_sig:
  assumes "precision_sig fmt = (k, fl, fmt')" "fmt' \<noteq> []" "supplies k va rest" "\<not> bit flags 10"
  shows "\<exists>f p. parse_precision flags fmt va = Some (f, p, fmt', rest) \<and> bit f 9 = bit flags 9 \<and>
    (fl \<longrightarrow> bit f 10 \<longrightarrow> p \<le> 41)"
proof (cases fmt)
  case (Cons c r)
  show ?thesis
  proof (cases "c = 0x2E")
    case True
    with assms(1) Cons have "star_or_digits r = (k, fmt')" "fl = (k = [] \<and> fst (atoi 0 r) \<le> 41)"
      by (auto split: prod.splits simp del: star_or_digits.simps)
    with precision_value_sig [OF this(1) assms(2,3)] show ?thesis
      using True Cons by (auto simp: bit_or_iff flag_bits)
  qed (use assms Cons in auto)
qed (use assms in simp)

lemma parse_length_sig:
  assumes "length_sig fmt = (ll, fmt')" "\<not> bit flags 9"
  shows "\<exists>f. parse_length flags fmt = (f, fmt') \<and> bit f 9 = ll \<and> bit f 10 = bit flags 10"
proof (cases fmt)
  case (Cons c r)
  then show ?thesis using assms
    by (cases r) (auto simp: bit_or_iff flag_bits split: if_splits)
qed (use assms in simp)

lemma ftoa_limit_le: "unat prec \<le> 9 + (32 - length buf) \<Longrightarrow> snd (ftoa_limit buf prec) \<le> 9"
proof (induction buf prec rule: ftoa_limit.induct)
  case (1 buf prec)
  show ?case
  proof (cases "length buf < PRINTF_FTOA_BUFFER_SIZE \<and> prec > 9")
    case True
    then have "unat (prec - 1) = unat prec - 1" by (subst unat_sub32) (simp_all add: word_less_nat_alt)
    with 1 True show ?thesis by (subst ftoa_limit.simps) (simp add: PRINTF_FTOA_BUFFER_SIZE_def)
  next
    case False
    then show ?thesis using "1.prems"
      by (subst ftoa_limit.simps) (auto simp: PRINTF_FTOA_BUFFER_SIZE_def word_le_nat_alt not_less word_less_nat_alt)
  qed
qed

lemma ftoa_defined:
  assumes "has flags FLAGS_PRECISION \<longrightarrow> prec \<le> 41"
  shows "ftoa ops out maxlen v prec width flags cur \<noteq> None"
proof -
  let ?p = "if \<not> has flags FLAGS_PRECISION then 6 else prec"
  have "unat ?p \<le> 9 + (32 - length ([] :: u8 list))" using assms by (auto simp: word_le_nat_alt)
  then have "snd (ftoa_limit [] ?p) \<le> 9" by (rule ftoa_limit_le)
  then obtain b p q where l: "ftoa_limit [] ?p = (b, p)" "pow10 ops p = Some q"
    by (cases "ftoa_limit [] ?p") (simp add: pow10_def)
  show ?thesis
    unfolding ftoa_def Let_def l(1) prod.case l(2) by simp
qed

lemma strnlen_defined: "0 \<in> set p \<Longrightarrow> \<exists>l. strnlen_s p n = Some l"
  by (induction p arbitrary: n) auto

lemma out_string_defined: "0 \<in> set p \<Longrightarrow> \<exists>y. out_string out maxlen flags p prec cur = Some y"
proof (induction p arbitrary: prec cur)
  case (Cons a p)
  then show ?case by (cases "a = 0") (simp_all del: split_paired_Ex)
qed simp

lemma int_flags_long: "bit (int_flags c flags) 9 = bit flags 9"
  by (auto simp: int_flags_def Let_def bit_or_iff bit_and_iff bit_not_iff flag_bits)

lemma specifier_sig_ok:
  assumes "supplies (specifier_sig ll c) va rest" "bit flags 9 = ll" "c \<in> {0x66, 0x46} \<longrightarrow> bit flags 10 \<longrightarrow> prec \<le> 41"
  shows "\<exists>cur'. specifier ops out maxlen c flags width prec cur va = Some (cur', rest)"
proof -
  have long: "has (int_flags c flags) FLAGS_LONG_LONG = ll" using assms(2) by (simp add: flag_bits int_flags_long)
  consider "c \<in> {0x64, 0x69, 0x75, 0x78, 0x58, 0x6F, 0x62}" | "c \<in> {0x66, 0x46}" | "c = 0x63" | "c = 0x70" | "c = 0x73"
    | "c \<notin> {0x64, 0x69, 0x75, 0x78, 0x58, 0x6F, 0x62, 0x66, 0x46, 0x63, 0x70, 0x73}" by blast
  then show ?thesis
  proof cases
    case 1
    then have s: "specifier_sig ll c = [if ll then KLong else KInt]" by (simp only: specifier_sig_def if_True)
    show ?thesis
    proof (cases ll)
      case True
      with s assms(1) obtain v where "va = ALong v # rest" by (auto dest!: supplies_single fits_cases)
      with 1 True long show ?thesis
        by (elim insertE emptyE) (simp_all add: specifier_def conv_signed_def conv_unsigned_def)
    next
      case False
      with s assms(1) obtain v where "va = AInt v # rest" by (auto dest!: supplies_single fits_cases)
      with 1 False long show ?thesis
        by (elim insertE emptyE) (simp_all add: specifier_def conv_signed_def conv_unsigned_def Let_def)
    qed
  next
    case 2
    with assms(1) obtain v where "va = ADbl v # rest" by (auto simp: specifier_sig_def dest!: supplies_single fits_cases)
    moreover have "ftoa ops out maxlen v prec width flags cur \<noteq> None"
      using 2 assms(3) by (intro ftoa_defined) (simp add: flag_bits)
    ultimately show ?thesis using 2 by (elim insertE emptyE) (auto simp: specifier_def)
  next
    case 5
    with assms(1) obtain p where "va = AStr p # rest" "0 \<in> set p"
      by (auto simp: specifier_sig_def dest!: supplies_single fits_cases)
    moreover obtain l where "strnlen_s p (if prec \<noteq> 0 then prec else - 1) = Some l"
      using strnlen_defined \<open>0 \<in> set p\<close> by blast
    moreover obtain f where "\<And>c. out_string out maxlen flags p prec c = Some (f c)"
      using out_string_defined [OF \<open>0 \<in> set p\<close>, of out maxlen flags prec] by metis
    ultimately show ?thesis using 5 by (simp add: specifier_def conv_string_def Let_def)
  next
    case 6
    then show ?thesis using assms(1) by (simp add: specifier_sig_def specifier_def)
  qed (use assms(1) in \<open>auto simp: specifier_sig_def specifier_def conv_char_def conv_pointer_def
        dest!: supplies_single fits_cases\<close>)
qed

lemma conversion_sig_ok:
  assumes "conversion_sig fmt = Some (k, fmt')" "supplies k va rest"
  shows "\<exists>cur'. conversion ops out maxlen fmt cur va = Some (fmt', cur', rest)"
proof -
  obtain k1 fmt1 where s1: "star_or_digits (dropWhile is_flag fmt) = (k1, fmt1)" by force
  obtain k2 fl fmt2 where s2: "precision_sig fmt1 = (k2, fl, fmt2)" by (metis prod_cases3)
  obtain ll fmt3 where s3: "length_sig fmt2 = (ll, fmt3)" by force
  from assms(1) s1 s2 s3 obtain c where c: "fmt3 = c # fmt'" "\<not> (c \<in> {0x66, 0x46} \<and> \<not> fl)"
      "k = k1 @ k2 @ specifier_sig ll c"
    by (auto simp: conversion_sig_def split: list.splits if_splits)
  have ne: "fmt2 \<noteq> []" "fmt1 \<noteq> []" using s2 s3 c(1) by auto
  obtain va1 va2 where va: "supplies k1 va va1" "supplies k2 va1 va2" "supplies (specifier_sig ll c) va2 rest"
    using assms(2) c(3) by (metis supplies_append)
  obtain f0 where f0: "parse_flags 0 fmt = (f0, dropWhile is_flag fmt)" "\<forall>n \<ge> 5. bit f0 n = bit (0 :: u32) n"
    using parse_flags_sig by blast
  obtain f1 w where f1: "parse_width f0 (dropWhile is_flag fmt) va = Some (f1, w, fmt1, va1)" "\<forall>n \<ge> 5. bit f1 n = bit f0 n"
    using parse_width_sig [OF s1 ne(2) va(1)] by blast
  have b: "\<not> bit f1 9" "\<not> bit f1 10" using f0(2) f1(2) by simp_all
  obtain f2 p where f2: "parse_precision f1 fmt1 va1 = Some (f2, p, fmt2, va2)" "bit f2 9 = bit f1 9"
      "fl \<longrightarrow> bit f2 10 \<longrightarrow> p \<le> 41"
    using parse_precision_sig [OF s2 ne(1) va(2) b(2)] by blast
  obtain f3 where f3: "parse_length f2 fmt2 = (f3, c # fmt')" "bit f3 9 = ll" "bit f3 10 = bit f2 10"
    using parse_length_sig [OF s3, of f2] f2(2) b(1) c(1) by blast
  have "c \<in> {0x66, 0x46} \<longrightarrow> bit f3 10 \<longrightarrow> p \<le> 41" using f3(3) f2(3) c(2) by blast
  then obtain cur' where "specifier ops out maxlen c f3 w p cur va2 = Some (cur', rest)"
    using specifier_sig_ok [OF va(3) f3(2)] by blast
  then show ?thesis
    using f0(1) f1(1) f2(1) f3(1) by (simp add: conversion_def del: split_paired_Ex)
qed

lemma loop_typed:
  "signature fmt = Some ks \<Longrightarrow> supplies ks va rest \<Longrightarrow> \<exists>cur'. vsnprintf_loop ops out maxlen fmt cur va = Some cur'"
proof (induction fmt arbitrary: ks va cur rule: signature.induct)
  case (2 c fmt)
  consider "c = 0" | "c \<noteq> 0" "c \<noteq> 0x25" | "c = 0x25" by blast
  then show ?case
  proof cases
    case 3
    with "2.prems"(1) obtain k fmt' ks' where k: "conversion_sig fmt = Some (k, fmt')" "signature fmt' = Some ks'" "ks = k @ ks'"
      by (auto split: bind_splits)
    obtain mid where mid: "supplies k va mid" "supplies ks' mid rest"
      using "2.prems"(2) k(3) supplies_append by blast
    have c: "c \<noteq> 0" "\<not> c \<noteq> 0x25" using 3 by simp_all
    obtain cur1 where "conversion ops out maxlen fmt cur va = Some (fmt', cur1, mid)"
      using conversion_sig_ok [OF k(1) mid(1)] by blast
    moreover obtain cur' where "vsnprintf_loop ops out maxlen fmt' cur1 mid = Some cur'"
      using "2.IH"(2) [OF c k(1) refl k(2) mid(2)] by blast
    ultimately show ?thesis using 3 by (simp del: split_paired_Ex)
  next
    case 2
    then show ?thesis using "2.IH"(1) "2.prems" by (simp del: split_paired_Ex)
  qed simp
qed simp

text \<open>C32: A well-typed call is defined: when the format has a signature and the arguments begin with
  arguments of these kinds (strings with a NUL), the output function reads no memory outside the
  format and its strings, takes no argument that is not there, and returns.\<close>

theorem printf_well_typed:
  assumes "signature fmt = Some ks" "supplies ks va rest"
  shows "vsnprintf_core ops out null maxlen fmt va s \<noteq> None"
proof -
  obtain i t where "vsnprintf_loop ops (if null then out_null else out) maxlen fmt (0, s) va = Some (i, t)"
    using loop_typed [OF assms] by fast
  then show ?thesis by (simp add: vsnprintf_core_def Let_def)
qed

theorem printf_well_typed_witness:
  "vsnprintf_core rat_dbl (out_buffer 0x100) False 64 [0x25, 0x2D, 0x35, 0x73, 0x25, 0x2A, 0x6C, 0x6C, 0x78, 0]
     [AStr [0x61, 0], AInt 4, ALong 255] (\<lambda>_. 0) \<noteq> None"
  by (rule printf_well_typed [where ks = "[KString, KInt, KLong]" and rest = "[]"])
    (simp_all add: supplies_def conversion_sig_def is_flag_def is_digit_def specifier_sig_def)

subsection \<open>Formats that end inside a conversion\<close>

lemma loop_literals:
  "list_all (\<lambda>c. c \<noteq> 0 \<and> c \<noteq> 0x25) lits \<Longrightarrow>
   vsnprintf_loop ops out maxlen (lits @ fmt) cur va = vsnprintf_loop ops out maxlen fmt (fold (put out maxlen) lits cur) va"
  by (induction lits arbitrary: cur) simp_all

text \<open>A format that ends with a per cent sign, or with one and only flags after it, makes the
  code print the NUL and read on behind the end of the string.\<close>

lemma printf_open_conversion:
  assumes "list_all (\<lambda>c. c \<noteq> 0 \<and> c \<noteq> 0x25) lits" "list_all is_flag flags"
  shows "vsnprintf_core ops out null maxlen (lits @ 0x25 # flags @ [0]) va s = None"
proof -
  have "dropWhile is_flag (flags @ [0]) = [0]"
    using assms(2) by (induction flags) (simp_all add: is_flag_def)
  then obtain f where "parse_flags 0 (flags @ [0]) = (f, [0])" using parse_flags_sig [of 0 "flags @ [0]"] by auto
  then show ?thesis
    using assms(1)
    by (simp add: vsnprintf_core_def loop_literals conversion_def specifier_def is_digit_def Let_def)
qed

end
