(* ===== verification/Flex_Printf_Props.thy ===== *)
theory Flex_Printf_Props
  imports Flex_Printf
begin

text \<open>
  Properties of the formatted output: the calls of the sink do not depend on the sink, so the
  other properties are proved on the list of calls (\<open>trace\<close>) or the text (\<open>collect\<close>); \<open>snprintf\<close>
  stays in its buffer and stores the text, a typed call is defined, numbers read back.
\<close>

named_theorems sinks

subsection \<open>The calls of a sink\<close>

definition trace :: "(u8 \<times> u32) list sink" where
  "trace c idx maxlen tr = tr @ [(c, idx)]"

definition replay :: "'s sink \<Rightarrow> u32 \<Rightarrow> 's \<Rightarrow> (u8 \<times> u32) list \<Rightarrow> 's" where
  "replay out maxlen s tr = fold (\<lambda>(c, idx). out c idx maxlen) tr s"

text \<open>The cursor of a sink after the calls of a trace; \<open>trace\<close> itself ignores its \<open>maxlen\<close>.\<close>

definition follow :: "'s sink \<Rightarrow> u32 \<Rightarrow> 's \<Rightarrow> u32 \<times> (u8 \<times> u32) list \<Rightarrow> u32 \<times> 's" where
  "follow out maxlen s = (\<lambda>(idx, tr). (idx, replay out maxlen s tr))"

lemma fst_follow [simp]: "fst (follow out maxlen s cur) = fst cur"
  by (simp add: follow_def split: prod.split)

lemma reset_follow [sinks]: "(i, snd (follow out maxlen s cur)) = follow out maxlen s (i, snd cur)"
  by (simp add: follow_def split: prod.split)

lemma put_follow [sinks]: "put out maxlen c (follow out maxlen s cur) = follow out maxlen s (put trace 0 c cur)"
  by (simp add: put_def follow_def trace_def replay_def split: prod.split)

lemma pad_follow [sinks]:
  "pad_spaces out maxlen i width (follow out maxlen s cur) = follow out maxlen s (pad_spaces trace 0 i width cur)"
proof (induction trace "0 :: u32" i width cur rule: pad_spaces.induct)
  case (1 i width cur)
  then show ?case by (subst (1 2) pad_spaces.simps) (simp add: sinks)
qed

lemma fold_put_follow [sinks]:
  "fold (put out maxlen) cs (follow out maxlen s cur) = follow out maxlen s (fold (put trace 0) cs cur)"
  by (induction cs arbitrary: cur) (simp_all add: sinks)

lemma out_field_follow [sinks]:
  "out_field out maxlen buf width flags (follow out maxlen s cur) =
   follow out maxlen s (out_field trace 0 buf width flags cur)"
  by (simp add: out_field_def Let_def sinks)

lemma ntoa_follow [sinks]:
  "ntoa_long out maxlen v neg base prec width flags (follow out maxlen s cur) =
   follow out maxlen s (ntoa_long trace 0 v neg base prec width flags cur)"
  "ntoa_long_long out maxlen v' neg base' prec width flags (follow out maxlen s cur) =
   follow out maxlen s (ntoa_long_long trace 0 v' neg base' prec width flags cur)"
  by (simp_all add: ntoa_long_def ntoa_long_long_def ntoa_format_def Let_def sinks split: prod.split)

lemma ftoa_follow [sinks]:
  "ftoa ops out maxlen v prec width flags (follow out maxlen s cur) =
   map_option (follow out maxlen s) (ftoa ops trace 0 v prec width flags cur)"
  unfolding ftoa_def Let_def by (simp add: sinks option.case_distrib split: prod.split bind_split option.split)

lemma out_string_follow [sinks]:
  "out_string out maxlen flags p precision (follow out maxlen s cur) =
   map_option (follow out maxlen s) (out_string trace 0 flags p precision cur)"
  by (induction p arbitrary: precision cur) (simp_all add: sinks)

text \<open>The conversions return a cursor and the remaining arguments.\<close>

abbreviation follow_fst where
  "follow_fst out maxlen s \<equiv> map_option (\<lambda>(cur, va). (follow out maxlen s cur, va))"

lemma specifier_follow [sinks]:
  "specifier ops out maxlen c flags width precision (follow out maxlen s cur) va =
   follow_fst out maxlen s (specifier ops trace 0 c flags width precision cur va)"
proof -
  have int: "conv_signed out maxlen base flags width precision (follow out maxlen s cur) va =
      follow_fst out maxlen s (conv_signed trace 0 base flags width precision cur va)"
    "conv_unsigned out maxlen base flags width precision (follow out maxlen s cur) va =
      follow_fst out maxlen s (conv_unsigned trace 0 base flags width precision cur va)" for base flags
    by (auto simp: conv_signed_def conv_unsigned_def sinks Let_def split: bind_split)
  have chr: "conv_char out maxlen flags width (follow out maxlen s cur) va =
      follow_fst out maxlen s (conv_char trace 0 flags width cur va)"
    by (auto simp: conv_char_def sinks Let_def split: bind_split)
  have ptr: "conv_pointer out maxlen flags precision (follow out maxlen s cur) va =
      follow_fst out maxlen s (conv_pointer trace 0 flags precision cur va)"
    by (auto simp: conv_pointer_def sinks Let_def split: bind_split)
  have str: "conv_string out maxlen flags width precision (follow out maxlen s cur) va =
      follow_fst out maxlen s (conv_string trace 0 flags width precision cur va)"
    by (auto simp: conv_string_def sinks Let_def bind_map_option comp_def split: bind_split prod.split)
  show ?thesis
    unfolding specifier_def
    by (auto simp: int chr ptr str sinks split: bind_split)
qed

lemma conversion_follow [sinks]:
  "conversion ops out maxlen fmt (follow out maxlen s cur) va =
   map_option (\<lambda>(fmt, cur, va). (fmt, follow out maxlen s cur, va)) (conversion ops trace 0 fmt cur va)"
  unfolding conversion_def
  by (auto simp: sinks bind_map_option comp_def split: bind_split prod.split list.split)

lemma loop_follow [sinks]:
  "vsnprintf_loop ops out maxlen fmt (follow out maxlen s cur) va =
   map_option (follow out maxlen s) (vsnprintf_loop ops trace 0 fmt cur va)"
proof (induction ops trace "0 :: u32" fmt cur va rule: vsnprintf_loop.induct)
  case (2 ops c fmt cur va)
  then show ?case
    by (cases "conversion ops trace 0 fmt cur va") (auto simp: sinks)
qed simp

lemma core_replay:
  "vsnprintf_core ops out False maxlen fmt va s =
   map_option (\<lambda>(idx, tr). (out 0 (if idx < maxlen then idx else maxlen - 1) maxlen (replay out maxlen s tr), idx))
     (vsnprintf_loop ops trace 0 fmt (0, []) va)"
proof -
  have "follow out maxlen s (0, []) = (0, s)" by (simp add: follow_def replay_def)
  then have "vsnprintf_loop ops out maxlen fmt (0, s) va =
      map_option (follow out maxlen s) (vsnprintf_loop ops trace 0 fmt (0, []) va)"
    using loop_follow [of ops out maxlen fmt s "(0, [])" va] by simp
  then show ?thesis
    by (simp add: vsnprintf_core_def bind_map_option comp_def follow_def split: bind_split prod.split)
qed

text \<open>The characters two of the sinks do not drop.\<close>

definition chars :: "(u8 \<times> u32) list \<Rightarrow> u8 list" where
  "chars tr = filter (\<lambda>c. c \<noteq> 0) (map fst tr)"

lemma replay_char: "replay (out_char A) maxlen s tr = (\<lambda>k. s (foldr (putchar A) (chars tr) k))"
  by (induction tr arbitrary: s) (auto simp: replay_def chars_def out_char_def)

lemma replay_fct: "replay (out_fct fct) maxlen s tr = fold fct (chars tr) s"
  by (induction tr arbitrary: s) (auto simp: replay_def chars_def out_fct_def)

text \<open>C38: \<open>printf\<close> and \<open>fctprintf\<close> agree: the console gets exactly the characters the user function
  gets, in the same order, and both return the same number; NUL characters reach neither.\<close>

theorem printf_sinks_agree:
  "let calls = vsnprintf_loop ops trace 0 fmt (0, []) va in
     printf ops A fmt va = map_option (\<lambda>(n, tr). (\<lambda>k. foldr (putchar A) (chars tr) k, n)) calls \<and>
     fctprintf ops fct fmt va s = map_option (\<lambda>(n, tr). (fold fct (chars tr) s, n)) calls"
  by (simp add: printf_def fctprintf_def core_replay replay_char replay_fct Let_def out_char_def out_fct_def)

subsection \<open>What the calls preserve\<close>

text \<open>A property of the cursor that every call of the sink keeps is kept by every conversion except
  the one of a floating point number above 0x7FFFFFFF in absolute value, which sets the index back to 0.\<close>

fun small_arg :: "'d dbl_ops \<Rightarrow> 'd arg \<Rightarrow> bool" where
  "small_arg ops (ADbl v) = (d_neq ops v v \<or>
     \<not> d_less ops (dlit ops 0x7FFFFFFF) (if d_less ops v (dlit ops 0) then d_sub ops (dlit ops 0) v else v))"
| "small_arg ops _ = True"

lemma va_inv:
  "va_int va = Some (v, va') \<Longrightarrow> list_all (small_arg ops) va \<Longrightarrow> list_all (small_arg ops) va'"
  "va_long va = Some (v2, va') \<Longrightarrow> list_all (small_arg ops) va \<Longrightarrow> list_all (small_arg ops) va'"
  "va_string va = Some (v3, va') \<Longrightarrow> list_all (small_arg ops) va \<Longrightarrow> list_all (small_arg ops) va'"
  "va_double va = Some (v4, va') \<Longrightarrow> list_all (small_arg ops) va \<Longrightarrow> small_arg ops (ADbl v4) \<and> list_all (small_arg ops) va'"
  by (cases va rule: va_int.cases; auto; fail)+

lemma parse_inv:
  "parse_width flags fmt va = Some (f, w, fmt', va') \<Longrightarrow> list_all (small_arg ops) va \<Longrightarrow> list_all (small_arg ops) va'"
  "parse_precision flags fmt va = Some (f, w, fmt', va') \<Longrightarrow> list_all (small_arg ops) va \<Longrightarrow> list_all (small_arg ops) va'"
  "precision_value fmt va = Some (w, fmt', va') \<Longrightarrow> list_all (small_arg ops) va \<Longrightarrow> list_all (small_arg ops) va'"
proof -
  show prec: "precision_value fmt va = Some (w, fmt', va') \<Longrightarrow> list_all (small_arg ops) va \<Longrightarrow> list_all (small_arg ops) va'"
    for fmt fmt' w
    by (cases fmt) (auto split: if_splits prod.splits bind_splits dest: va_inv simp del: atoi.simps)
  show "parse_width flags fmt va = Some (f, w, fmt', va') \<Longrightarrow> list_all (small_arg ops) va \<Longrightarrow> list_all (small_arg ops) va'"
    by (cases fmt) (auto split: if_splits prod.splits bind_splits dest: va_inv simp del: atoi.simps)
  show "parse_precision flags fmt va = Some (f, w, fmt', va') \<Longrightarrow> list_all (small_arg ops) va \<Longrightarrow> list_all (small_arg ops) va'"
    by (cases fmt) (auto split: if_splits bind_splits dest: prec simp del: precision_value.simps)
qed

lemma pad_spaces_power: "pad_spaces out maxlen i width cur = (put out maxlen 0x20 ^^ (unat width - unat i)) cur"
proof (induction out maxlen i width cur rule: pad_spaces.induct)
  case (1 out maxlen i width cur)
  show ?case
  proof (cases "i < width")
    case True
    then have "unat width - unat i = Suc (unat width - unat (i + 1))"
      by (simp add: unat_inc32 word_less_nat_alt)
    with 1 True show ?thesis by (subst pad_spaces.simps) (simp add: funpow_swap1)
  qed (subst pad_spaces.simps, simp add: word_less_nat_alt not_less)
qed

locale put_invariant =
  fixes P :: "u32 \<times> 's \<Rightarrow> bool" and out :: "'s sink" and maxlen :: u32
  assumes put_inv [simp]: "P cur \<Longrightarrow> P (put out maxlen c cur)"
begin

lemma power_inv [simp]: "P cur \<Longrightarrow> P ((put out maxlen c ^^ n) cur)"
  by (induction n) simp_all

lemma pad_inv [simp]: "P cur \<Longrightarrow> P (pad_spaces out maxlen i width cur)"
  by (simp add: pad_spaces_power)

lemma fold_inv [simp]: "P cur \<Longrightarrow> P (fold (put out maxlen) cs cur)"
  by (induction cs arbitrary: cur) simp_all

lemma field_inv [simp]: "P cur \<Longrightarrow> P (out_field out maxlen buf width flags cur)"
  by (simp add: out_field_def Let_def)

lemma ntoa_inv [simp]:
  "P cur \<Longrightarrow> P (ntoa_long out maxlen v neg base prec width flags cur)"
  "P cur \<Longrightarrow> P (ntoa_long_long out maxlen v' neg base' prec width flags cur)"
  by (simp_all add: ntoa_long_def ntoa_long_long_def ntoa_format_def Let_def split: prod.split)

lemma out_string_inv: "out_string out maxlen flags p precision cur = Some cur' \<Longrightarrow> P cur \<Longrightarrow> P cur'"
  by (induction p arbitrary: precision cur) (auto split: if_splits)

lemma ftoa_inv: "ftoa ops out maxlen v prec width flags cur = Some cur' \<Longrightarrow> small_arg ops (ADbl v) \<Longrightarrow> P cur \<Longrightarrow> P cur'"
  by (auto simp: ftoa_def Let_def split: if_splits bind_splits prod.splits)

lemma specifier_inv:
  assumes "specifier ops out maxlen c flags width precision cur va = Some (cur', va')" "list_all (small_arg ops) va" "P cur"
  shows "P cur' \<and> list_all (small_arg ops) va'"
  using assms
  by (auto simp: specifier_def conv_signed_def conv_unsigned_def conv_char_def conv_string_def conv_pointer_def Let_def
      split: if_splits bind_splits prod.splits dest: va_inv out_string_inv ftoa_inv)

lemma conversion_inv:
  assumes "conversion ops out maxlen fmt cur va = Some (fmt', cur', va')" "list_all (small_arg ops) va" "P cur"
  shows "P cur' \<and> list_all (small_arg ops) va'"
  using assms
  by (auto simp: conversion_def split: prod.splits bind_splits list.splits dest!: parse_inv(1,2) specifier_inv)

lemma loop_inv:
  assumes "vsnprintf_loop ops out maxlen fmt cur va = Some cur'" "list_all (small_arg ops) va" "P cur"
  shows "P cur'"
  using assms
proof (induction "length fmt" arbitrary: fmt cur va rule: less_induct)
  case less
  show ?case
  proof (cases fmt)
    case (Cons c fmt1)
    consider "c = 0" | "c \<noteq> 0" "c \<noteq> 0x25" | "c = 0x25" by blast
    then show ?thesis
    proof cases
      case 3
      then obtain fmt' cur1 va' where cv: "conversion ops out maxlen fmt1 cur va = Some (fmt', cur1, va')"
          and run: "vsnprintf_loop ops out maxlen fmt' cur1 va' = Some cur'"
        using less.prems Cons by (auto split: bind_splits)
      have "P cur1 \<and> list_all (small_arg ops) va'" using conversion_inv [OF cv] less.prems by blast
      then show ?thesis using less.hyps [OF _ run] conversion_length [OF cv] Cons by simp
    next
      case 2
      then show ?thesis using less.hyps [of fmt1 "put out maxlen c cur" va] less.prems Cons by simp
    qed (use less.prems Cons in simp)
  qed (use less.prems in simp)
qed

end

subsection \<open>The text and the memory\<close>

text \<open>Without a number that large the indices of the calls are 0, 1, 2 and so on.\<close>

definition dense :: "u32 \<times> (u8 \<times> u32) list \<Rightarrow> bool" where
  "dense = (\<lambda>(idx, tr). idx = of_nat (length tr) \<and> map snd tr = map of_nat [0 ..< length tr])"

interpretation dense: put_invariant dense trace 0
  by unfold_locales (auto simp: dense_def put_def trace_def)

text \<open>The formatted text.\<close>

definition text_of :: "'d dbl_ops \<Rightarrow> u8 list \<Rightarrow> 'd arg list \<Rightarrow> u8 list option" where
  "text_of ops fmt va = map_option snd (vsnprintf_loop ops (\<lambda>c _ _ t. t @ [c]) 0 fmt (0, []) va)"

lemma text_of_trace: "text_of ops fmt va = map_option (map fst \<circ> snd) (vsnprintf_loop ops trace 0 fmt (0, []) va)"
proof -
  have fst: "replay (\<lambda>c _ _ t. t @ [c]) 0 t tr = t @ map fst tr" for t tr
    by (induction tr arbitrary: t) (auto simp: replay_def)
  have "follow (\<lambda>c _ _ t. t @ [c]) 0 [] (0, []) = (0, [])" by (simp add: follow_def replay_def)
  then show ?thesis
    using loop_follow [of ops "\<lambda>c _ _ t. t @ [c]" 0 fmt "[]" "(0, [])" va]
    by (simp add: text_of_def follow_def comp_def option.map_comp fst [of "[]", simplified] split_beta)
qed

text \<open>The memory with a list of bytes at an address.\<close>

definition store_bytes :: "u32 \<Rightarrow> u8 list \<Rightarrow> (u32 \<Rightarrow> u8) \<Rightarrow> u32 \<Rightarrow> u8" where
  "store_bytes p bs m = (\<lambda>a. if unat (a - p) < length bs then bs ! unat (a - p) else m a)"

lemma offset_iff: "n < 4294967296 \<Longrightarrow> unat (a - p :: u32) = n \<longleftrightarrow> a = p + of_nat n"
proof -
  assume n: "n < 4294967296"
  have "a = p + of_nat (unat (a - p))" by simp
  then show "unat (a - p) = n \<longleftrightarrow> a = p + of_nat n" using n by (auto simp: unat_of_nat32)
qed

lemma store_bytes_snoc:
  assumes "length bs < 4294967296"
  shows "(store_bytes p bs m)(p + of_nat (length bs) := c) = store_bytes p (bs @ [c]) m"
proof (rule ext)
  fix a
  have "unat (a - p) = length bs \<longleftrightarrow> a = p + of_nat (length bs)"
    by (rule offset_iff [OF assms])
  then show "((store_bytes p bs m)(p + of_nat (length bs) := c)) a = store_bytes p (bs @ [c]) m a"
    by (auto simp: store_bytes_def nth_append)
qed

lemma replay_buffer:
  assumes "length t < 4294967296"
  shows "replay (out_buffer p) maxlen m (zip t (map of_nat [0 ..< length t])) = store_bytes p (take (unat maxlen) t) m"
  using assms
proof (induction t rule: rev_induct)
  case (snoc c t)
  let ?n = "of_nat (length t) :: u32"
  have n: "unat ?n = length t" using snoc.prems by (intro unat_of_nat32) simp
  have "replay (out_buffer p) maxlen m (zip (t @ [c]) (map of_nat [0 ..< length (t @ [c])])) =
      out_buffer p c ?n maxlen (store_bytes p (take (unat maxlen) t) m)"
    using snoc by (simp add: replay_def)
  also have "\<dots> = store_bytes p (take (unat maxlen) (t @ [c])) m"
    using n store_bytes_snoc [of t p m c] snoc.prems
    by (cases "length t < unat maxlen") (simp_all add: out_buffer_def word_less_nat_alt)
  finally show ?case .
qed (simp add: replay_def store_bytes_def)

lemma dense_run:
  assumes "vsnprintf_loop ops trace 0 fmt (0, []) va = Some (n, tr)" "list_all (small_arg ops) va"
  shows "n = of_nat (length tr) \<and> tr = zip (map fst tr) (map of_nat [0 ..< length (map fst tr)])"
proof -
  have "dense (n, tr)" using dense.loop_inv [OF assms] by (simp add: dense_def)
  then show ?thesis by (auto simp: dense_def) (metis length_map zip_map_fst_snd)
qed

lemma store_bytes_truncate:
  assumes "length bs \<le> 4294967296" "0 < k" "k \<le> length bs"
  shows "(store_bytes p bs m)(p + of_nat (k - 1) := c) = store_bytes p (bs[k - 1 := c]) m"
proof (rule ext)
  fix a
  have "unat (a - p) = k - 1 \<longleftrightarrow> a = p + of_nat (k - 1)"
    using assms by (intro offset_iff) linarith
  then show "((store_bytes p bs m)(p + of_nat (k - 1) := c)) a = store_bytes p (bs[k - 1 := c]) m a"
    using assms by (auto simp: store_bytes_def)
qed

lemma core_text:
  assumes "list_all (small_arg ops) va" "count \<noteq> 0"
    and short: "\<And>t. text_of ops fmt va = Some t \<Longrightarrow> length t < 4294967296"
  shows "vsnprintf_core ops (out_buffer p) False count fmt va m =
    map_option (\<lambda>t. (store_bytes p (take (unat count - 1) t @ [0]) m, of_nat (length t))) (text_of ops fmt va)"
proof (cases "vsnprintf_loop ops trace 0 fmt (0, []) va")
  case None
  then show ?thesis by (simp add: core_replay text_of_trace)
next
  case (Some r)
  obtain n tr where r: "r = (n, tr)" by (cases r)
  let ?t = "map fst tr"
  have d: "n = of_nat (length tr)" "tr = zip ?t (map of_nat [0 ..< length ?t])"
    using dense_run [of ops fmt va n tr] assms(1) Some r by auto
  have t: "text_of ops fmt va = Some ?t" using Some r by (simp add: text_of_trace)
  have len: "length tr < 4294967296" using short [OF t] by simp
  have n: "unat n = length tr" using d(1) len by (simp add: unat_of_nat32)
  have rep: "replay (out_buffer p) count m tr = store_bytes p (take (unat count) ?t) m"
    using replay_buffer [of ?t p count m] len d(2) by simp
  have "out_buffer p 0 (if n < count then n else count - 1) count (store_bytes p (take (unat count) ?t) m) =
      store_bytes p (take (unat count - 1) ?t @ [0]) m"
  proof (cases "n < count")
    case True
    then have "length tr \<le> unat count - 1" using n by (simp add: word_less_nat_alt)
    then show ?thesis
      using True store_bytes_snoc [of ?t p m 0] len d(1) by (simp add: out_buffer_def)
  next
    case False
    then have le: "unat count \<le> length tr" using n by (simp add: word_less_nat_alt)
    have c: "0 < unat count" using assms(2) by (simp add: unat_gt_0)
    have "count - 1 = of_nat (unat count - 1)" using c by (simp add: of_nat_diff)
    moreover have "(take (unat count) ?t)[unat count - 1 := 0] = take (unat count - 1) ?t @ [0]"
      using le c by (cases "unat count") (simp_all add: take_Suc_conv_app_nth list_update_append)
    moreover have "count - 1 < count" using assms(2) using c by (simp add: word_less_nat_alt unat_sub32)
    ultimately show ?thesis
      using store_bytes_truncate [of "take (unat count) ?t" "unat count" p m 0] le c False len
      by (simp add: out_buffer_def min_absorb2)
  qed
  note mem = this
  show ?thesis
    unfolding core_replay Some r t using rep mem [unfolded d(1)] d(1) by (simp del: One_nat_def split del: if_split)
qed


text \<open>\<open>text_of\<close> of a call that prints \<open>x=%u;\<close>.\<close>

definition demo_format :: "u8 list" where
  "demo_format = [0x78, 0x3D, 0x25, 0x75, 0x3B, 0]"

lemma demo_text: "text_of ops demo_format [AInt 405] = Some [0x78, 0x3D, 0x34, 0x30, 0x35, 0x3B]"
  by (simp add: text_of_def demo_format_def conversion_def is_digit_def specifier_def conv_unsigned_def
      int_base_def int_flags_def narrow_unsigned_def ntoa_long_def ntoa_format_def ntoa_zeros_def
      ntoa_hash_def push_sign_def out_field_def put_def push_digits.simps push_zeros.simps pad_spaces.simps
      digit_char_def has_def flag_defs PRINTF_NTOA_BUFFER_SIZE_def)




text \<open>The excluded case: \<open>ab%f\<close> with 3 * 10^9 prints two characters, and the conversion returns index 0, not the
  index it was called with; the terminator overwrites the text and the call returns 0.\<close>

lemma huge_double_restarts:
  "ftoa rat_dbl out maxlen 3000000000 prec width 0 cur = Some (0, snd cur)"
  "snprintf rat_dbl 0x1000 8 [0x61, 0x62, 0x25, 0x66, 0] [ADbl 3000000000] m = Some (m(0x1000 := 0, 0x1001 := 0x62), 0)"
proof -
  show f: "ftoa rat_dbl out maxlen 3000000000 prec width 0 cur = Some (0, snd cur)" for out :: "'x sink" and maxlen prec width cur
    by (simp add: ftoa_def has_def ftoa_limit.simps pow10_def rat_dbl_simps Let_def)
  show "snprintf rat_dbl 0x1000 8 [0x61, 0x62, 0x25, 0x66, 0] [ADbl 3000000000] m = Some (m(0x1000 := 0, 0x1001 := 0x62), 0)"
    by (simp add: snprintf_def vsnprintf_core_def conversion_def is_digit_def specifier_def f put_def out_buffer_def fun_eq_iff)
qed

text \<open>Bounds, for all arguments.\<close>

lemma replay_outside: "count \<le> a - p \<Longrightarrow> replay (out_buffer p) count m tr a = m a"
  by (induction tr arbitrary: m) (auto simp: replay_def out_buffer_def)

lemma replay_null: "replay out_null maxlen s tr = s"
  by (induction tr) (auto simp: replay_def out_null_def)

text \<open>C33: \<open>snprintf\<close> writes no byte outside \<open>buffer .. buffer + count - 1\<close>, whatever the format, the
  arguments and the count (0 included).\<close>

theorem snprintf_in_bounds:
  assumes "snprintf ops buffer count fmt va m = Some (m', n)" "count \<le> a - buffer"
  shows "m' a = m a"
proof (cases "buffer = 0")
  case True
  have "vsnprintf_core ops (out_buffer 0) True count fmt va m = vsnprintf_core ops out_null False count fmt va m"
    by (simp add: vsnprintf_core_def)
  then show ?thesis
    using assms True by (auto simp: snprintf_def core_replay replay_null out_null_def)
next
  case False
  then show ?thesis
    using assms by (auto simp: snprintf_def core_replay out_buffer_def replay_outside)
qed

theorem snprintf_in_bounds_witness: "store_bytes 0x1000 [0x78, 0x3D, 0x34, 0x30, 0] (\<lambda>_. 0xFF) 0x1005 = 0xFF"
proof (rule snprintf_in_bounds [where buffer = "0x1000" and count = 5 and fmt = demo_format and va = "[AInt 405]"
      and n = 6 and ops = rat_dbl])
  have "snprintf rat_dbl 0x1000 5 demo_format [AInt 405] (\<lambda>_. 0xFF) =
      Some (store_bytes 0x1000 (take 4 [0x78, 0x3D, 0x34, 0x30, 0x35, 0x3B] @ [0]) (\<lambda>_. 0xFF), 6)"
    using core_text [of rat_dbl "[AInt 405]" 5 demo_format "0x1000" "\<lambda>_. 0xFF"]
    by (simp add: demo_text snprintf_def)
  then show "snprintf rat_dbl 0x1000 5 demo_format [AInt 405] (\<lambda>_. 0xFF) =
      Some (store_bytes 0x1000 [0x78, 0x3D, 0x34, 0x30, 0] (\<lambda>_. 0xFF), 6)" by simp
qed simp

subsection \<open>Digits\<close>

text \<open>The number a reversed digit string stands for.\<close>

definition digit_value :: "u8 \<Rightarrow> nat" where
  "digit_value c = (if c < 0x3A then unat c - 0x30 else unat (c OR 0x20) - 0x57)"

definition digits_value :: "nat \<Rightarrow> u8 list \<Rightarrow> nat" where
  "digits_value b ds = foldr (\<lambda>c n. digit_value c + b * n) ds 0"

lemma digit_value_char: "d < 16 \<Longrightarrow> digit_value (digit_char flags (of_nat d)) = d"
proof -
  assume "d < 16"
  then have "d \<in> set [0 ..< 16]" by simp
  then show ?thesis
    by (auto simp: upt_conv_Cons digit_value_def digit_char_def)
qed

lemma push_digits_extends:
  "length buf < 32 \<Longrightarrow> 2 \<le> unat base \<Longrightarrow> unat base \<le> 16 \<Longrightarrow>
   \<exists>ds. push_digits flags base v buf = buf @ ds \<and> digits_value (unat base) ds = unat v mod unat base ^ (32 - length buf)"
proof (induction flags base v buf rule: push_digits.induct)
  case (1 flags base v buf)
  let ?d = "digit_char flags (ucast (v mod base))" and ?b = "unat base"
  let ?k = "32 - length (buf @ [?d])"
  have b: "v mod base < base" "unat (v mod base) = unat v mod ?b" "unat (v div base) = unat v div ?b"
    using 1(3) by (simp_all add: unat_mod unat_div word_less_nat_alt)
  have "(ucast (v mod base) :: u8) = of_nat (unat v mod ?b)" unfolding b(2) [symmetric] by simp
  moreover have "unat v mod ?b < 16" using 1(3,4) mod_less_divisor [of ?b "unat v"] by linarith
  ultimately have d: "digit_value ?d = unat v mod ?b" by (simp add: digit_value_char)
  have k: "32 - length buf = Suc ?k" using 1(2) by simp
  have split: "unat v mod ?b ^ Suc ?k = unat v mod ?b + ?b * (unat v div ?b mod ?b ^ ?k)"
    by (simp add: mod_mult2_eq)
  show ?case
  proof (cases "v div base \<noteq> 0 \<and> length (buf @ [?d]) < 32")
    case True
    then obtain ds where ds: "push_digits flags base (v div base) (buf @ [?d]) = (buf @ [?d]) @ ds"
        "digits_value ?b ds = unat (v div base) mod ?b ^ ?k"
      using "1.IH" [OF refl refl refl] 1(3,4) by (auto simp: PRINTF_NTOA_BUFFER_SIZE_def)
    have "push_digits flags base v buf = buf @ ?d # ds"
      using True ds(1) by (subst push_digits.simps) (simp add: PRINTF_NTOA_BUFFER_SIZE_def Let_def)
    moreover have "digits_value ?b (?d # ds) = unat v mod ?b ^ (32 - length buf)"
      using ds(2) b(3) d unfolding k split by (simp add: digits_value_def)
    ultimately show ?thesis by blast
  next
    case False
    then have "push_digits flags base v buf = buf @ [?d]"
      by (subst push_digits.simps) (auto simp: PRINTF_NTOA_BUFFER_SIZE_def Let_def)
    moreover have "unat v div ?b = 0 \<or> ?k = 0" using False b(3) by (auto simp: unat_eq_zero)
    then have "unat v div ?b mod ?b ^ ?k = 0" by auto
    then have "digits_value ?b [?d] = unat v mod ?b ^ (32 - length buf)"
      using d unfolding k split by (simp add: digits_value_def)
    ultimately show ?thesis by blast
  qed
qed

text \<open>The digits \<open>_ntoa_long\<close> and \<open>_ntoa_long_long\<close> store stand for the value modulo
  \<open>base\<close> to the 32nd power: the buffer of 32 digits is enough for every 32-bit number in every base,
  and keeps only the low 32 digits of a 64-bit number in base 2.\<close>

lemma digits_read_back:
  assumes "2 \<le> unat base" "unat base \<le> 16"
  shows "digits_value (unat base) (push_digits flags base v []) = unat v mod unat base ^ 32"
  using push_digits_extends [of "[]" base flags v] assms by auto

text \<open>A number has as many digits as its size needs.\<close>

lemma push_digits_length:
  "2 \<le> unat base \<Longrightarrow> unat v < unat base ^ Suc k \<Longrightarrow> length (push_digits flags base v buf) \<le> length buf + Suc k"
proof (induction flags base v buf arbitrary: k rule: push_digits.induct)
  case (1 flags base v buf)
  show ?case
  proof (cases "v div base \<noteq> 0 \<and> Suc (length buf) < PRINTF_NTOA_BUFFER_SIZE")
    case True
    have "unat (v div base) \<noteq> 0" using True by (simp add: unat_eq_zero)
    then have "unat base \<le> unat v" by (simp add: unat_div div_greater_zero_iff)
    then obtain j where j: "k = Suc j" using "1.prems" by (cases k) auto
    have "unat v < unat base ^ Suc j * unat base" using "1.prems"(2) by (simp add: j ac_simps)
    then have "unat (v div base) < unat base ^ Suc j"
      unfolding unat_div by (rule less_mult_imp_div_less)
    then have "length (push_digits flags base (v div base) (buf @ [digit_char flags (ucast (v mod base))]))
        \<le> length (buf @ [digit_char flags (ucast (v mod base))]) + Suc j"
      using "1.IH" [OF refl refl refl _ "1.prems"(1)] True by simp
    then show ?thesis using True j by (subst push_digits.simps) (simp add: Let_def)
  next
    case False
    then show ?thesis by (subst push_digits.simps) (auto simp: Let_def)
  qed
qed

lemma atoi_digit: "d < 10 \<Longrightarrow> atoi i (digit_char flags (of_nat d) # s) = atoi (i * 10 + of_nat d) s"
proof -
  assume "d < 10"
  then have "d \<in> set [0 ..< 10]" by simp
  then show ?thesis
    by (auto simp: upt_conv_Cons is_digit_def digit_char_def)
qed

lemma atoi_push_digits:
  "length buf + Suc k \<le> 32 \<Longrightarrow> unat v < 10 ^ Suc k \<Longrightarrow>
   atoi 0 (rev (push_digits flags 10 v buf) @ s) = atoi v (rev buf @ s)"
proof (induction flags "10 :: u32" v buf arbitrary: k rule: push_digits.induct)
  case (1 flags v buf)
  let ?d = "digit_char flags (ucast (v mod 10))"
  have m: "unat v mod 10 = unat (v mod 10)" by (simp add: unat_mod)
  have dc: "?d = digit_char flags (of_nat (unat v mod 10))" unfolding m by simp
  have "unat v mod 10 < 10" by simp
  then have step: "atoi (v div 10) (?d # s') = atoi v s'" for s'
    unfolding dc by (subst atoi_digit) (simp_all add: m div_mult_mod_eq)
  show ?case
  proof (cases "v div 10 = 0")
    case True
    then have "atoi 0 (?d # s') = atoi v s'" for s' using step by metis
    then show ?thesis using True by (subst push_digits.simps) (simp add: Let_def)
  next
    case False
    then have "unat (v div 10) \<noteq> 0" by (simp add: unat_eq_zero)
    then have "10 \<le> unat v" by (simp add: unat_div div_greater_zero_iff)
    then obtain j where j: "k = Suc j" using "1.prems" by (cases k) auto
    have "unat (v div 10) < 10 ^ Suc j" using "1.prems"(2) by (simp add: unat_div j)
    then have "atoi 0 (rev (push_digits flags 10 (v div 10) (buf @ [?d])) @ s) = atoi (v div 10) (rev (buf @ [?d]) @ s)"
      using "1.hyps" [OF refl refl refl, of j] "1.prems"(1) False by (simp add: PRINTF_NTOA_BUFFER_SIZE_def j)
    moreover have "push_digits flags 10 v buf = push_digits flags 10 (v div 10) (buf @ [?d])"
      using False "1.prems"(1) by (subst push_digits.simps) (simp add: Let_def PRINTF_NTOA_BUFFER_SIZE_def j)
    ultimately show ?thesis using step by simp
  qed
qed

lemma decimal_length: "length (push_digits flags 10 (v :: u32) []) < 32"
proof -
  have "unat v < 10 ^ Suc 9" using unat_lt32 [of v] by (simp del: unat_lt32)
  then show ?thesis using push_digits_length [of "10 :: u32" v 9 flags "[]"] by simp
qed

lemma fold_collect:
  "fold (put (\<lambda>c _ _ t. t @ [c]) maxlen) cs cur = (fst cur + of_nat (length cs), snd cur @ cs)"
  by (induction cs arbitrary: cur) (simp_all add: put_def split_beta)

lemma out_field_plain:
  "\<not> has flags FLAGS_LEFT \<Longrightarrow>
   out_field (\<lambda>c _ _ t. t @ [c]) maxlen buf 0 flags cur = (fst cur + of_nat (length buf), snd cur @ rev buf)"
  by (simp add: out_field_def pad_spaces.simps fold_collect)

lemma has_0 [simp]: "has 0 f = False"
  by (simp add: has_def)

lemma ntoa_plain:
  "snd (ntoa_long (\<lambda>c _ _ t. t @ [c]) maxlen v neg 10 0 0 0 cur) =
     snd cur @ (if neg then [0x2D] else []) @ rev (push_digits 0 10 v [])"
proof -
  define buf where "buf = push_digits 0 10 v []"
  have "length buf < 32" unfolding buf_def by (rule decimal_length)
  then show ?thesis
    using buf_def
    by (cases "v = 0") (simp_all add: ntoa_long_def ntoa_format_def ntoa_zeros_def ntoa_hash_def push_sign_def
        push_zeros.simps out_field_plain PRINTF_NTOA_BUFFER_SIZE_def Let_def)
qed

lemma decimal_text:
  "text_of ops [0x25, 0x64, 0] [AInt v] =
     Some ((if v <s 0 then [0x2D] else []) @ rev (push_digits 0 10 (if 0 <s v then v else - v) []))"
  using ntoa_plain [of 0 "if 0 <s v then v else - v" "v <s 0" "(0, [])"]
  by (simp add: text_of_def conversion_def is_digit_def specifier_def conv_signed_def
      int_base_def int_flags_def narrow_signed_def Let_def cong: if_cong split del: if_split)

text \<open>What \<open>%d\<close> prints, \<open>_atoi\<close> reads back: the digits after the optional minus sign give the
  absolute value, the least integer included, and nothing else is left of the text.\<close>

lemma decimal_round_trip:
  "\<exists>t. text_of ops [0x25, 0x64, 0] [AInt v] = Some ((if v <s 0 then [0x2D] else []) @ t) \<and>
     atoi 0 (t @ [0]) = (if v <s 0 then - v else v, [0])"
proof -
  let ?v = "if 0 <s v then v else - v"
  have "unat ?v < 10 ^ Suc 9" using unat_lt32 [of ?v] by (simp del: unat_lt32)
  then have "atoi 0 (rev (push_digits 0 10 ?v []) @ [0]) = atoi ?v (rev [] @ [0])"
    by (intro atoi_push_digits [of "[]" 9]) simp_all
  moreover have "atoi ?v (rev [] @ [0]) = (?v, [0])" by (simp add: is_digit_def)
  moreover have "?v = (if v <s 0 then - v else v)"
  proof -
    have "v = 0" if "\<not> v <s 0" "\<not> 0 <s v"
      using that by (intro signed_word_eqI) (simp add: word_sless_alt)
    then show ?thesis by (auto simp: word_sless_alt)
  qed
  ultimately show ?thesis by (auto simp: decimal_text)
qed

end
