(* ===== verification/Flex_Printf_Float.thy ===== *)
theory Flex_Printf_Float
  imports Flex_Printf_Props
begin

text \<open>
  The floating point conversion under exact arithmetic (\<open>rat_dbl\<close>): rounding, and the case in which
  the digits overrun.
\<close>

lemma sint_of_int32: "0 \<le> i \<Longrightarrow> i < 2147483648 \<Longrightarrow> sint (of_int i :: u32) = i"
  by (simp add: signed_of_int signed_take_bit_int_eq_self)

lemma uint_of_int32: "0 \<le> i \<Longrightarrow> i < 4294967296 \<Longrightarrow> uint (of_int i :: u32) = i"
  by (simp add: unsigned_of_int take_bit_int_eq_self)

text \<open>With exact arithmetic the whole part and the fraction \<open>_ftoa\<close> computes for a precision
  \<open>p\<close> are the value rounded to \<open>p\<close> decimals: the error is at most half a unit of the last place.
  The fraction may be \<open>10 ^ p\<close>, which is one digit too many.\<close>

lemma ftoa_round_nearest:
  assumes "0 \<le> x" "x < 2147483647" "p \<le> 9" "ftoa_round rat_dbl x (10 ^ p) = (whole, fraction)"
  shows "\<bar>of_int (uint whole * 10 ^ p + uint fraction) - x * 10 ^ p\<bar> \<le> 1 / 2 \<and> uint fraction \<le> 10 ^ p"
proof -
  define w where "w = \<lfloor>x\<rfloor>"
  define y where "y = (x - of_int w) * 10 ^ p"
  define f where "f = \<lfloor>y\<rfloor>"
  define d where "d = y - of_int f"
  have w: "0 \<le> w" "w < 2147483647" using assms(1,2) by (simp_all add: w_def floor_less_iff)
  have frac: "0 \<le> x - of_int w" "x - of_int w < 1" unfolding w_def by linarith+
  have p10: "(10 :: int) ^ p \<le> 10 ^ 9" using assms(3) by (intro power_increasing) simp_all
  have y: "0 \<le> y" "y < of_int (10 ^ p)"
    using frac by (simp_all add: y_def)
  have f: "0 \<le> f" "f < 10 ^ p" using y by (simp_all add: f_def floor_less_iff)
  have d: "0 \<le> d" "d < 1" unfolding d_def f_def by linarith+
  have u: "uint (of_int w :: u32) = w" "sint (of_int w :: u32) = w" "uint (of_int f :: u32) = f"
      "uint (of_int w + 1 :: u32) = w + 1" "uint (of_int f + 1 :: u32) = f + 1"
    using w f p10 uint_of_int32 [of "w + 1"] uint_of_int32 [of "f + 1"]
    by (simp_all add: sint_of_int32 uint_of_int32)
  have tr: "trunc x = w" "trunc y = f" using assms(1) y(1) by (simp_all add: trunc_def w_def f_def)
  have r: "ftoa_round rat_dbl x (10 ^ p) =
     (if 1 / 2 < d then if 10 ^ p \<le> (of_int (f + 1) :: rat) then (of_int w + 1, 0) else (of_int w, of_int f + 1)
      else if d < 1 / 2 then (of_int w, of_int f)
      else if (of_int f :: u32) = 0 \<or> (of_int f :: u32) AND 1 \<noteq> 0 then (of_int w, of_int f + 1) else (of_int w, of_int f))"
    by (simp only: ftoa_round_def rat_dbl_simps Let_def tr u y_def [symmetric] d_def [symmetric])
  have sum: "x * 10 ^ p = of_int (w * 10 ^ p + f) + d" by (simp add: d_def y_def algebra_simps)
  have next_whole: "f + 1 = 10 ^ p" if "10 ^ p \<le> (of_int f + 1 :: rat)"
  proof -
    have "(of_int (10 ^ p) :: rat) \<le> of_int (f + 1)" using that by simp
    then have "10 ^ p \<le> f + 1" by (simp only: of_int_le_iff)
    then show ?thesis using f(2) by simp
  qed
  consider (roll) "1 / 2 < d" "f + 1 = 10 ^ p" "whole = of_int w + 1" "fraction = 0"
    | (up) "1 / 2 \<le> d" "whole = of_int w" "fraction = of_int f + 1"
    | (down) "d \<le> 1 / 2" "whole = of_int w" "fraction = of_int f"
    using assms(4) unfolding r by (auto split: if_splits) (use next_whole in blast)
  then show ?thesis
  proof cases
    case roll
    have "uint whole * 10 ^ p + uint fraction = w * 10 ^ p + f + 1"
      using roll(2) unfolding roll(3,4) u by (simp add: algebra_simps)
    then show ?thesis using d roll(1,4) unfolding sum by (simp add: abs_le_iff)
  next
    case up
    have "uint whole * 10 ^ p + uint fraction = w * 10 ^ p + f + 1" unfolding up u by simp
    then show ?thesis using d up f unfolding sum by (simp add: abs_le_iff u)
  next
    case down
    then show ?thesis using d f unfolding sum down u by (simp add: abs_le_iff)
  qed
qed

lemma ftoa_extra_zeros:
  "ftoa_extra buf count = buf @ replicate (min (unat count) (PRINTF_FTOA_BUFFER_SIZE - length buf)) 0x30"
proof (induction buf count rule: ftoa_extra.induct)
  case (1 buf count)
  show ?case
  proof (cases "length buf < PRINTF_FTOA_BUFFER_SIZE \<and> count > 0")
    case True
    then have "unat (count - 1) = unat count - 1" "0 < unat count"
      by (simp_all add: unat_sub32 word_less_nat_alt)
    then have "min (unat count) (PRINTF_FTOA_BUFFER_SIZE - length buf) =
        Suc (min (unat (count - 1)) (PRINTF_FTOA_BUFFER_SIZE - length (buf @ [0x30 :: u8])))"
      using True by (auto simp: min_def)
    with 1 True show ?thesis by (subst ftoa_extra.simps) simp
  next
    case False
    then show ?thesis by (subst ftoa_extra.simps) (auto simp: word_gt_0)
  qed
qed

text \<open>The fraction that is one digit too long breaks the digit loop: \<open>count\<close> wraps below zero and
  the loop that appends zeros fills the buffer, so that \<open>%.1f\<close> of 0.95 prints 32 characters
  without a point: thirty zeros and 10.\<close>

lemma ftoa_overrun:
  "text_of rat_dbl [0x25, 0x2E, 0x31, 0x66, 0] [ADbl (95 / 100)] = Some (replicate 30 0x30 @ [0x31, 0x30])"
proof -
  have "\<lfloor>19 / 20 :: rat\<rfloor> = 0" "\<lfloor>19 / 2 :: rat\<rfloor> = 9" by (simp_all add: floor_eq_iff)
  then have parts: "ftoa_round rat_dbl (19 / 20) 10 = (0, 10)"
    by (simp add: ftoa_round_def rat_dbl_simps trunc_def Let_def)
  have limit: "ftoa_limit [] 1 = ([], 1)" by (simp add: ftoa_limit.simps)
  have fraction: "ftoa_frac [] 1 10 = ([0x30, 0x31], - 1)"
    by (simp add: ftoa_frac.simps PRINTF_FTOA_BUFFER_SIZE_def)
  have extra: "ftoa_extra [0x30, 0x31] (- 1) = [0x30, 0x31] @ replicate 30 0x30"
    by (simp add: ftoa_extra_zeros PRINTF_FTOA_BUFFER_SIZE_def unsigned_minus_1_eq_mask mask_eq_exp_minus_1)
  have full: "push_sign (ftoa_whole (push 0x2E (0x30 # 0x31 # replicate 30 0x30)) 0) False 1024
      = 0x30 # 0x31 # replicate 30 0x30"
    by (simp add: push_def ftoa_whole.simps push_sign_def PRINTF_FTOA_BUFFER_SIZE_def PRINTF_NTOA_BUFFER_SIZE_def)
  have field: "snd (out_field (\<lambda>c _ _ t. t @ [c]) 0 buf 0 1024 (0, [])) = rev buf" for buf
    by (simp add: out_field_plain has_def flag_defs)
  show ?thesis
    by (simp add: text_of_def conversion_def is_digit_def specifier_def ftoa_def limit rat_dbl_simps pow10_def parts
        has_def flag_defs ftoa_digits_def fraction extra full field)
qed

end
