(* ===== verification/App_Kernels.thy ===== *)
theory App_Kernels
  imports Flex_DMA Fixed_Proj Flex_Fp8
begin

text \<open>
  What the benchmark programs of \<open>flex_cluster_sdk/app_example\<close> share: loops over memory accesses,
  the helpers every benchmark repeats, the test patterns and the matrix product.  A program is an
  \<open>io\<close> tree as in \<open>Flex_Runtime\<close>, one node per access of the core, so array code reads and writes
  its words one by one.  A \<open>float\<close> in memory is its 32 bits; arithmetic on it is the record \<open>flt_ops\<close>,
  whose \<open>flit\<close> gives literals and converted integers.
\<close>

subsection \<open>Loops\<close>

text \<open>A loop whose body takes the rest of the program, and one with an accumulator.\<close>

primrec for_loop :: "'a list \<Rightarrow> ('a \<Rightarrow> io \<Rightarrow> io) \<Rightarrow> io \<Rightarrow> io" where
  "for_loop [] body k = k"
| "for_loop (x # xs) body k = body x (for_loop xs body k)"

primrec acc_loop :: "'a list \<Rightarrow> ('a \<Rightarrow> 's \<Rightarrow> ('s \<Rightarrow> io) \<Rightarrow> io) \<Rightarrow> 's \<Rightarrow> ('s \<Rightarrow> io) \<Rightarrow> io" where
  "acc_loop [] body s k = k s"
| "acc_loop (x # xs) body s k = body x s (\<lambda>s. acc_loop xs body s k)"

lemma u32_range_0_4: "u32_range 0 4 = [0, 1, 2, 3]"
  by (simp add: u32_range_def upt_rec)

subsection \<open>The environment of a program\<close>

text \<open>The linker symbols \<open>__l1_heap_start\<close>, \<open>__hbm_heap_start\<close> and the addresses of the allocators.\<close>

record app =
  app_arch :: arch
  app_flt :: "u32 flt_ops"
  app_l1_heap :: u32
  app_hbm_heap :: u32
  app_l1_alloc :: u32
  app_hbm_alloc :: u32

definition say :: "string \<Rightarrow> u32 list \<Rightarrow> io \<Rightarrow> io" where
  "say fmt vs k = Printf (Log (fmt @ [CHR 0x0A]) vs) k"

text \<open>The start of every benchmark.\<close>

definition bring_up :: "app \<Rightarrow> io \<Rightarrow> io" where
  "bring_up E k =
     (let A = app_arch E in
      flex_barrier_xy_init A (flex_global_barrier_xy A
      (flex_alloc_init A (app_l1_heap E) (app_hbm_heap E) (app_l1_alloc E) (app_hbm_alloc E)
      (flex_global_barrier_xy A k))))"

definition who_am_i :: "app \<Rightarrow> (u32 \<Rightarrow> u32 \<Rightarrow> FlexPosition \<Rightarrow> bool \<Rightarrow> io) \<Rightarrow> io" where
  "who_am_i E k =
     flex_get_cluster_id (app_arch E) (\<lambda>cid. flex_get_core_id (\<lambda>core.
     flex_is_dm_core (app_arch E) (\<lambda>dm. k cid core (get_pos (app_arch E) cid) dm)))"

text \<open>\<open>if (c) f\<close> and a body between two timer stamps of the timer master.\<close>

definition on :: "bool \<Rightarrow> (io \<Rightarrow> io) \<Rightarrow> io \<Rightarrow> io" where
  "on c f k = (if c then f k else k)"

definition timed :: "app \<Rightarrow> bool \<Rightarrow> (io \<Rightarrow> io) \<Rightarrow> io \<Rightarrow> io" where
  "timed E master body k = on master (flex_timer_start (app_arch E)) (body (on master (flex_timer_end (app_arch E)) k))"

definition barrier :: "app \<Rightarrow> io \<Rightarrow> io" where
  "barrier E k = flex_global_barrier_xy (app_arch E) k"

text \<open>Three L1 buffers; the pointers go to \<open>err\<close> when one of them is NULL.\<close>

definition l1_malloc3 :: "u32 \<Rightarrow> u32 \<Rightarrow> u32 \<Rightarrow> (u32 \<Rightarrow> u32 \<Rightarrow> u32 \<Rightarrow> io) \<Rightarrow> (u32 \<Rightarrow> u32 \<Rightarrow> u32 \<Rightarrow> io) \<Rightarrow> io" where
  "l1_malloc3 sa sb sc err k =
     Malloc False sa (\<lambda>a. Malloc False sb (\<lambda>b. Malloc False sc (\<lambda>c.
     if a = 0 \<or> b = 0 \<or> c = 0 then err a b c else k a b c)))"

definition align64 :: "u32 \<Rightarrow> u32" where
  "align64 p = (p + 63) AND NOT 63"

text \<open>The offset of an aligned pointer from the start of the local memory.\<close>

definition l1_offset :: "app \<Rightarrow> u32 \<Rightarrow> u32" where
  "l1_offset E ptr = tcdm_offset_from_ptr (ARCH_CLUSTER_TCDM_BASE (app_arch E)) ptr"

subsection \<open>Helpers\<close>

definition zero32 :: "u32 \<Rightarrow> u32 \<Rightarrow> io \<Rightarrow> io" where
  "zero32 dst nbytes = for_loop (u32_range 0 (drop_bit 2 nbytes)) (\<lambda>i. Wr (dst + 4 * i) 0)"

definition addsum_u32 :: "u32 \<Rightarrow> u32 \<Rightarrow> (u64 \<Rightarrow> io) \<Rightarrow> io" where
  "addsum_u32 ptr n_bytes =
     acc_loop (u32_range 0 (drop_bit 2 n_bytes)) (\<lambda>i s k. Rd (ptr + 4 * i) (\<lambda>v. k (s + ucast v))) 0"

definition dma_write_1d_to_hbm :: "app \<Rightarrow> u32 \<Rightarrow> u32 \<Rightarrow> u32 \<Rightarrow> io \<Rightarrow> io" where
  "dma_write_1d_to_hbm E hbm_off l1_off bytes k =
     bare_dma_start_1d (hbm_addr (app_arch E) hbm_off) (ucast (local_addr (app_arch E) l1_off)) bytes
       (\<lambda>_. bare_dma_wait_all k)"

definition dma_read_1d_from_hbm :: "app \<Rightarrow> u32 \<Rightarrow> u32 \<Rightarrow> u32 \<Rightarrow> io \<Rightarrow> io" where
  "dma_read_1d_from_hbm E l1_off hbm_off bytes k =
     bare_dma_start_1d (ucast (local_addr (app_arch E) l1_off)) (hbm_addr (app_arch E) hbm_off) bytes
       (\<lambda>_. bare_dma_wait_all k)"

definition dma_write_row :: "app \<Rightarrow> u32 \<Rightarrow> u32 \<Rightarrow> u32 \<Rightarrow> io \<Rightarrow> io" where
  "dma_write_row E hbm_off_row row_off_l1 row_bytes k =
     bare_dma_start_1d (hbm_addr (app_arch E) hbm_off_row) (ucast (local_addr (app_arch E) row_off_l1)) row_bytes
       (\<lambda>_. bare_dma_wait_all k)"

text \<open>A gather of rows from HBM and a scatter of rows to HBM, with the wait that follows.\<close>

definition gather_2d :: "app \<Rightarrow> u32 \<Rightarrow> u32 \<Rightarrow> u32 \<Rightarrow> u32 \<Rightarrow> u32 \<Rightarrow> io \<Rightarrow> io" where
  "gather_2d E l1_off hbm_off row_size src_stride rows k =
     bare_dma_start_2d (ucast (local_addr (app_arch E) l1_off)) (hbm_addr (app_arch E) hbm_off)
       row_size row_size src_stride rows (\<lambda>_. bare_dma_wait_all k)"

definition scatter_2d :: "app \<Rightarrow> u32 \<Rightarrow> u32 \<Rightarrow> u32 \<Rightarrow> u32 \<Rightarrow> u32 \<Rightarrow> io \<Rightarrow> io" where
  "scatter_2d E hbm_off l1_off row_size dst_stride rows k =
     bare_dma_start_2d (hbm_addr (app_arch E) hbm_off) (ucast (local_addr (app_arch E) l1_off))
       row_size dst_stride row_size rows (\<lambda>_. bare_dma_wait_all k)"

subsection \<open>Patterns and the matrix product\<close>

definition f_int :: "app \<Rightarrow> u32 \<Rightarrow> u32" where
  "f_int E i = flit (app_flt E) (of_nat (unat i))"

text \<open>\<open>1.0f + 0.001f * i + 0.0001f * k\<close> and \<open>0.5f + 0.002f * k + 0.01f * j\<close>.\<close>

definition a_pattern :: "app \<Rightarrow> u32 \<Rightarrow> u32 \<Rightarrow> u32" where
  "a_pattern E i k =
     (let F = app_flt E in
      fl_add F (fl_add F (flit F 1) (fl_mul F (flit F (1 / 1000)) (f_int E i)))
        (fl_mul F (flit F (1 / 10000)) (f_int E k)))"

definition b_pattern :: "app \<Rightarrow> u32 \<Rightarrow> u32 \<Rightarrow> u32" where
  "b_pattern E k j =
     (let F = app_flt E in
      fl_add F (fl_add F (flit F (1 / 2)) (fl_mul F (flit F (2 / 1000)) (f_int E k)))
        (fl_mul F (flit F (1 / 100)) (f_int E j)))"

definition fill_A_pattern :: "app \<Rightarrow> u32 \<Rightarrow> u32 \<Rightarrow> u32 \<Rightarrow> io \<Rightarrow> io" where
  "fill_A_pattern E M_DIM K_DIM A =
     for_loop (u32_range 0 M_DIM) (\<lambda>i. for_loop (u32_range 0 K_DIM) (\<lambda>k.
       Wr (A + 4 * (i * K_DIM + k)) (a_pattern E i k)))"

definition fill_B_pattern :: "app \<Rightarrow> u32 \<Rightarrow> u32 \<Rightarrow> u32 \<Rightarrow> io \<Rightarrow> io" where
  "fill_B_pattern E K_DIM N_DIM B =
     for_loop (u32_range 0 K_DIM) (\<lambda>k. for_loop (u32_range 0 N_DIM) (\<lambda>j.
       Wr (B + 4 * (k * N_DIM + j)) (b_pattern E k j)))"

text \<open>The matrix product of the benchmarks, row-major, \<open>M\<close> by \<open>K\<close> times \<open>K\<close> by \<open>N\<close>.\<close>

definition gemm_dot :: "app \<Rightarrow> u32 \<Rightarrow> u32 \<Rightarrow> u32 \<Rightarrow> u32 \<Rightarrow> u32 \<Rightarrow> (u32 \<Rightarrow> io) \<Rightarrow> io" where
  "gemm_dot E K_DIM N_DIM a_row B j =
     acc_loop (u32_range 0 K_DIM) (\<lambda>k acc cont.
       Rd (a_row + 4 * k) (\<lambda>x. Rd (B + 4 * (k * N_DIM + j)) (\<lambda>y.
       cont (fl_add (app_flt E) acc (fl_mul (app_flt E) x y))))) (flit (app_flt E) 0)"

definition gemm :: "app \<Rightarrow> u32 \<Rightarrow> u32 \<Rightarrow> u32 \<Rightarrow> u32 \<Rightarrow> u32 \<Rightarrow> u32 \<Rightarrow> io \<Rightarrow> io" where
  "gemm E M_DIM K_DIM N_DIM A B C =
     for_loop (u32_range 0 M_DIM) (\<lambda>i.
       let c_row = C + 4 * (i * N_DIM); a_row = A + 4 * (i * K_DIM) in
       for_loop (u32_range 0 N_DIM) (\<lambda>j rest.
         gemm_dot E K_DIM N_DIM a_row B j (\<lambda>acc. Wr (c_row + 4 * j) acc rest)))"

definition compute_2d_gemm :: "app \<Rightarrow> u32 \<Rightarrow> u32 \<Rightarrow> u32 \<Rightarrow> io \<Rightarrow> io" where
  "compute_2d_gemm E A B C = gemm E 64 256 64 A B C"

definition compute_gemm_tile :: "app \<Rightarrow> u32 \<Rightarrow> u32 \<Rightarrow> u32 \<Rightarrow> io \<Rightarrow> io" where
  "compute_gemm_tile E A Btile Ctile = gemm E 64 256 64 A Btile Ctile"

definition matmul_64x256_256x64 :: "app \<Rightarrow> u32 \<Rightarrow> u32 \<Rightarrow> u32 \<Rightarrow> io \<Rightarrow> io" where
  "matmul_64x256_256x64 E A B C = gemm E TILE MAT_N TILE A B C"

end
