(* ===== verification/App_Solo.thy ===== *)
theory App_Solo
  imports App_Kernels Flex_DMA_Props
begin

text \<open>
  One core run on its own: \<open>run\<close> executes an \<open>io\<close> program over a memory of words indexed by their
  physical byte address, with the transfers of the DMA engine performed where they are started.
  The waits of a barrier return at once, so a run describes what a core does when the others keep
  step; what the other cores store is not part of it.  The allocation calls return the pointers of
  the list \<open>s_ptrs\<close>, one after the other.
\<close>

subsection \<open>The interpreter\<close>

lemma unat_hbm_addr: "unat (hbm_addr arch_default off) = 0xC0000000 + unat off"
  using unat_lt32 [of off] by (simp add: hbm_addr_def unat_word_ariths del: unat_lt32)

lemma local_default [simp]: "local_addr arch_default off = off"
  by (simp add: local_addr_def)

record solo =
  s_mem :: "nat \<Rightarrow> u32"
  s_dma :: dma_regs
  s_log :: "log list"
  s_ptrs :: "u32 list"

definition copy_bytes :: "nat \<Rightarrow> nat \<Rightarrow> nat \<Rightarrow> (nat \<Rightarrow> u32) \<Rightarrow> nat \<Rightarrow> u32" where
  "copy_bytes dst src n m = (\<lambda>a. if dst \<le> a \<and> a < dst + n then m (src + (a - dst)) else m a)"

definition copy_rows :: "nat \<Rightarrow> nat \<Rightarrow> nat \<Rightarrow> nat \<Rightarrow> nat \<Rightarrow> nat \<Rightarrow> (nat \<Rightarrow> u32) \<Rightarrow> nat \<Rightarrow> u32" where
  "copy_rows dst src n dstr sstr reps = fold (\<lambda>r. copy_bytes (dst + r * dstr) (src + r * sstr) n) [0 ..< reps]"

text \<open>A transfer request; a collective transfer leaves no trace in the memory of this core's program.\<close>

fun perform :: "transfer \<Rightarrow> (nat \<Rightarrow> u32) \<Rightarrow> nat \<Rightarrow> u32" where
  "perform (Copy_1D dst src n) m = copy_bytes (unat dst) (unat src) (unat n) m"
| "perform (Copy_2D dst src n dstr sstr reps) m =
     copy_rows (unat dst) (unat src) (unat n) (unat dstr) (unat sstr) (unat reps) m"
| "perform (Collective c r l dst src n) m = m"
| "perform Wait_All m = m"

definition set_regs :: "dma_regs \<Rightarrow> u32 \<Rightarrow> u32 list \<Rightarrow> dma_regs" where
  "set_regs r w rs =
     (let f = funct7_of w in
      if f = DMSRC_FUNCT7 then r\<lparr>r_src := cat64 (rs ! 0) (rs ! 1)\<rparr>
      else if f = DMDST_FUNCT7 then r\<lparr>r_dst := cat64 (rs ! 0) (rs ! 1)\<rparr>
      else if f = DMSTR_FUNCT7 then r\<lparr>r_src_stride := rs ! 0, r_dst_stride := rs ! 1\<rparr>
      else if f = DMREP_FUNCT7 then r\<lparr>r_reps := rs ! 0\<rparr>
      else if f = DMMASK_FUNCT7 then r\<lparr>r_mask := rs ! 1\<rparr>
      else r)"

definition exec_insn :: "u32 \<Rightarrow> u32 list \<Rightarrow> solo \<Rightarrow> solo" where
  "exec_insn w rs s =
     s\<lparr>s_dma := set_regs (s_dma s) w rs, s_mem := fold perform (dma_request (s_dma s) [(w, rs)]) (s_mem s)\<rparr>"

primrec run :: "arch \<Rightarrow> nat \<Rightarrow> u32 \<Rightarrow> io \<Rightarrow> solo \<Rightarrow> solo option" where
  "run A cid core Halt = Some"
| "run A cid core (Rd a k) = (\<lambda>s.
     if is_reg A a then (case reg_read A cid (reg_offset A a) of None \<Rightarrow> None | Some v \<Rightarrow> run A cid core (k v) s)
     else run A cid core (k (s_mem s (unat a))) s)"
| "run A cid core (Wr a v k) = (\<lambda>s.
     run A cid core k (if is_reg A a then s else s\<lparr>s_mem := (s_mem s)(unat a := v)\<rparr>))"
| "run A cid core (Amo a v k) = (\<lambda>s.
     run A cid core (k (s_mem s (unat a))) (s\<lparr>s_mem := (s_mem s)(unat a := s_mem s (unat a) + v)\<rparr>))"
| "run A cid core (Spin a v k) = (\<lambda>s. if s_mem s (unat a) \<noteq> v then run A cid core k s else None)"
| "run A cid core (Csr_Hartid k) = run A cid core (k core)"
| "run A cid core (Csr_Sync k) = run A cid core k"
| "run A cid core (Insn w rs k) = (\<lambda>s. run A cid core (k 0) (exec_insn w rs s))"
| "run A cid core (Poll w k) = run A cid core k"
| "run A cid core (Heap_Init b base sz k) = run A cid core k"
| "run A cid core (Malloc b sz k) = (\<lambda>s.
     case s_ptrs s of [] \<Rightarrow> None | p # ps \<Rightarrow> run A cid core (k p) (s\<lparr>s_ptrs := ps\<rparr>))"
| "run A cid core (Free b p k) = run A cid core k"
| "run A cid core (Printf l k) = (\<lambda>s. run A cid core k (s\<lparr>s_log := s_log s @ [l]\<rparr>))"
| "run A cid core (Tick k) = run A cid core k"

subsection \<open>What a piece of a program does to the memory\<close>

text \<open>
  The counters of the barriers and the registers of the SoC are not part of what the programs
  compute: \<open>vis\<close> hides them.  \<open>acts\<close> is the effect of a program piece on the rest of the memory, whatever
  comes after it, and \<open>yields\<close> the same for a piece that returns a value.
\<close>

definition sys_word :: "nat \<Rightarrow> bool" where
  "sys_word a = (0x40000000 \<le> a \<and> a < 0x40001000 \<or> 0x90000000 \<le> a \<and> a < 0x90000100)"

definition vis :: "(nat \<Rightarrow> u32) \<Rightarrow> nat \<Rightarrow> u32" where
  "vis m = (\<lambda>a. if sys_word a then 0 else m a)"

definition goes_on :: "nat \<Rightarrow> u32 \<Rightarrow> io \<Rightarrow> solo \<Rightarrow> io \<Rightarrow> (nat \<Rightarrow> u32) \<Rightarrow> bool" where
  "goes_on cid core p s k m =
     (\<exists>s'. run arch_default cid core p s = run arch_default cid core k s' \<and> vis (s_mem s') = m \<and> s_ptrs s' = s_ptrs s)"

definition acts :: "nat \<Rightarrow> u32 \<Rightarrow> (io \<Rightarrow> io) \<Rightarrow> ((nat \<Rightarrow> u32) \<Rightarrow> nat \<Rightarrow> u32) \<Rightarrow> bool" where
  "acts cid core f g = (\<forall>k s. goes_on cid core (f k) s k (g (vis (s_mem s))))"

definition yields :: "nat \<Rightarrow> u32 \<Rightarrow> (('a \<Rightarrow> io) \<Rightarrow> io) \<Rightarrow> ((nat \<Rightarrow> u32) \<Rightarrow> 'a) \<Rightarrow> bool" where
  "yields cid core f v = (\<forall>k s. goes_on cid core (f k) s (k (v (vis (s_mem s)))) (vis (s_mem s)))"

lemma goes_onI:
  "run arch_default cid core p s = run arch_default cid core k s' \<Longrightarrow> vis (s_mem s') = m \<Longrightarrow> s_ptrs s' = s_ptrs s \<Longrightarrow>
    goes_on cid core p s k m"
  unfolding goes_on_def by blast

lemma goes_on_trans:
  assumes "goes_on cid core p s q m" and "\<And>s'. vis (s_mem s') = m \<Longrightarrow> goes_on cid core q s' k m'"
  shows "goes_on cid core p s k m'"
  using assms unfolding goes_on_def by metis

lemma vis_sys [simp]: "sys_word a \<Longrightarrow> vis (m(a := v)) = vis m"
  by (auto simp: vis_def)

lemma vis_upd: "\<not> sys_word a \<Longrightarrow> vis (m(a := v)) = (vis m)(a := v)"
  by (auto simp: vis_def)

lemma vis_apply [simp]: "\<not> sys_word a \<Longrightarrow> vis m a = m a"
  by (simp add: vis_def)

lemma acts_id: "acts cid core (\<lambda>k. k) (\<lambda>m. m)"
  unfolding acts_def by (blast intro: goes_onI)

lemma acts_comp:
  assumes "acts cid core f \<phi>" and "acts cid core g \<psi>"
  shows "acts cid core (\<lambda>k. f (g k)) (\<lambda>m. \<psi> (\<phi> m))"
  using assms unfolding acts_def by (metis goes_on_trans)

lemma acts_yields:
  assumes "yields cid core f v"
  shows "acts cid core (\<lambda>k. f (\<lambda>_. k)) (\<lambda>m. m)"
  using assms unfolding acts_def yields_def by metis

lemma acts_on: "(c \<Longrightarrow> acts cid core f \<phi>) \<Longrightarrow> acts cid core (on c f) (if c then \<phi> else (\<lambda>m. m))"
  by (cases c) (auto simp: on_def acts_def intro: goes_onI)

lemma acts_for_loop:
  assumes "\<And>x. x \<in> set xs \<Longrightarrow> acts cid core (body x) (\<phi> x)"
  shows "acts cid core (for_loop xs body) (fold \<phi> xs)"
  using assms
proof (induction xs)
  case Nil
  then show ?case by (auto simp: acts_def intro: goes_onI)
next
  case (Cons x xs)
  then show ?case using acts_comp [of cid core "body x" "\<phi> x" "for_loop xs body" "fold \<phi> xs"] by (simp add: comp_def)
qed

lemma acts_say: "acts cid core (say fmt vs) (\<lambda>m. m)"
  by (auto simp: acts_def say_def intro: goes_onI)

text \<open>Loads and stores outside the register file.\<close>

definition plain :: "u32 \<Rightarrow> bool" where
  "plain a = (\<not> is_reg arch_default a \<and> \<not> sys_word (unat a))"

lemma acts_Wr: "plain a \<Longrightarrow> acts cid core (Wr a v) (\<lambda>m. m(unat a := v))"
  by (auto simp: acts_def plain_def vis_upd intro: goes_onI)

lemma acts_Wr_hidden: "is_reg arch_default a \<or> sys_word (unat a) \<Longrightarrow> acts cid core (Wr a v) (\<lambda>m. m)"
  by (auto simp: acts_def intro: goes_onI)

lemma yields_Rd: "plain a \<Longrightarrow> yields cid core (Rd a) (\<lambda>m. m (unat a))"
  by (auto simp: yields_def plain_def intro: goes_onI)

lemma yields_acc_loop:
  assumes "\<And>x c. x \<in> set xs \<Longrightarrow> yields cid core (body x c) (\<lambda>m. g m x c)"
  shows "yields cid core (acc_loop xs body c) (\<lambda>m. fold (g m) xs c)"
  using assms
proof (induction xs arbitrary: c)
  case Nil
  then show ?case by (auto simp: yields_def intro: goes_onI)
next
  case (Cons x xs)
  have "yields cid core (acc_loop xs body d) (\<lambda>m. fold (g m) xs d)" for d using Cons by simp
  moreover have "yields cid core (body x c) (\<lambda>m. g m x c)" using Cons.prems by simp
  ultimately show ?case unfolding yields_def acc_loop.simps fold_Cons comp_apply by (metis goes_on_trans)
qed

subsection \<open>Barriers and timers leave the memory as it is\<close>

lemma is_reg_default: "is_reg arch_default a = (a - 0x20000000 < 0x200)"
  by (simp add: is_reg_def reg_offset_def)

lemma run_reg:
  "run arch_default cid core (Rd 0x20000000 k) = run arch_default cid core (k (of_nat cid))"
  "run arch_default cid core (Rd 0x20000004 k) = run arch_default cid core (k 1)"
  "run arch_default cid core (Rd 0x2000000C k) = run arch_default cid core (k 4)"
  "run arch_default cid core (Rd 0x20000010 k) = run arch_default cid core (k 4)"
  "run arch_default cid core (Rd 0x20000018 k) = run arch_default cid core (k 0)"
  by (simp_all add: fun_eq_iff is_reg_default reg_offset_def reg_read_def)

lemma acts_timer: "acts cid core (flex_timer_start arch_default) (\<lambda>m. m)" "acts cid core (flex_timer_end arch_default) (\<lambda>m. m)"
  by (auto simp: acts_def flex_timer_start_def flex_timer_end_def flex_get_enable_value_def run_reg is_reg_default
      sys_word_def simp del: run.simps(2) intro!: goes_onI)

lemma acts_timed:
  assumes "app_arch E = arch_default" and "acts cid core f \<phi>"
  shows "acts cid core (timed E master f) \<phi>"
proof -
  have "acts cid core (on master (flex_timer_start arch_default)) (\<lambda>m. m)" "acts cid core (on master (flex_timer_end arch_default)) (\<lambda>m. m)"
    using acts_on [OF acts_timer(1)] acts_on [OF acts_timer(2)] by (metis (full_types))+
  from acts_comp [OF this(1) acts_comp [OF assms(2) this(2)]] show ?thesis
    by (simp add: timed_def [abs_def] assms(1))
qed

lemma mesh_row: "cid < 16 \<Longrightarrow> pos_y (get_pos arch_default (of_nat cid)) = of_nat (cid div 4)"
  by (simp add: get_pos_def unat_eq_iff32 unat_div unat_of_nat32)

lemma barrier_words:
  assumes "y < 4"
  shows "sys_word (unat (barrier_x_addr arch_default 2 (of_nat y)))" "sys_word (unat (barrier_y_addr arch_default 2 2))"
proof -
  have "y \<in> {0, 1, 2, 3}" using assms by auto
  then show "sys_word (unat (barrier_x_addr arch_default 2 (of_nat y)))"
    by (auto simp: barrier_x_addr_def cluster_index_def ARCH_SYNC_SIZE_def sys_word_def)
  show "sys_word (unat (barrier_y_addr arch_default 2 2))"
    by (simp add: barrier_y_addr_def cluster_index_def ARCH_SYNC_SIZE_def sys_word_def)
qed

lemmas sync_defs = flex_intra_cluster_sync_def flex_is_dm_core_def flex_is_first_core_def flex_annotate_barrier_def
  flex_get_cluster_id_def flex_get_barrier_num_cluster_x_def flex_get_barrier_num_cluster_y_def
  flex_get_enable_value_def flex_get_disable_value_def flex_amo_fetch_add_def flex_reset_barrier_def
  flex_wakeup_all_clusters_def cluster_wait_def

lemma reg_word: "\<not> is_reg arch_default a" if "sys_word (unat a)"
proof -
  have "0x20000000 \<le> unat a" "0x20000200 \<le> unat a" using that by (auto simp: sys_word_def)
  then show ?thesis by (simp add: is_reg_default word_less_nat_alt unat_sub32)
qed

text \<open>\<open>passes p k\<close>: the program \<open>p\<close> reaches \<open>k\<close> with the visible memory unchanged, whatever the
  counters hold.\<close>

definition passes :: "nat \<Rightarrow> u32 \<Rightarrow> io \<Rightarrow> io \<Rightarrow> bool" where
  "passes cid core p k = (\<forall>s. goes_on cid core p s k (vis (s_mem s)))"

lemma passes_refl: "passes cid core k k"
  by (auto simp: passes_def intro: goes_onI)

lemma passes_sync: "passes cid core p k \<Longrightarrow> passes cid core (Csr_Sync p) k"
  by (simp add: passes_def goes_on_def)

lemma passes_hartid: "passes cid core (p core) k \<Longrightarrow> passes cid core (Csr_Hartid p) k"
  by (simp add: passes_def goes_on_def)

lemma passes_reg:
  fixes p :: "u32 \<Rightarrow> io"
  defines "R \<equiv> ARCH_CLUSTER_REG_BASE arch_default"
  shows "passes cid core (p (of_nat cid)) k \<Longrightarrow> passes cid core (Rd R p) k"
    and "passes cid core (p 1) k \<Longrightarrow> passes cid core (Rd (R + 4) p) k"
    and "passes cid core (p 4) k \<Longrightarrow> passes cid core (Rd (R + 12) p) k"
    and "passes cid core (p 4) k \<Longrightarrow> passes cid core (Rd (R + 16) p) k"
    and "passes cid core (p 0) k \<Longrightarrow> passes cid core (Rd (R + 24) p) k"
  using run_reg [of cid core p] by (simp_all add: passes_def goes_on_def R_def del: run.simps(2))

lemma passes_Wr: "is_reg arch_default a \<or> sys_word (unat a) \<Longrightarrow> passes cid core p k \<Longrightarrow> passes cid core (Wr a v p) k"
  using acts_Wr_hidden [of a cid core v] unfolding acts_def passes_def by (metis goes_on_trans)

lemma passes_Amo:
  assumes "sys_word (unat a)" and "\<And>x. passes cid core (p x) k"
  shows "passes cid core (Amo a v p) k"
  unfolding passes_def
proof
  fix s :: solo
  let ?s = "s\<lparr>s_mem := (s_mem s)(unat a := s_mem s (unat a) + v)\<rparr>"
  have "goes_on cid core (p (s_mem s (unat a))) ?s k (vis (s_mem ?s))"
    using assms(2) [of "s_mem s (unat a)"] unfolding passes_def by (rule spec)
  then show "goes_on cid core (Amo a v p) s k (vis (s_mem s))" using assms(1) by (simp add: goes_on_def)
qed

lemma passes_if: "passes cid core p k \<Longrightarrow> passes cid core q k \<Longrightarrow> passes cid core (if c then p else q) k"
  by simp

lemma acts_passes: "(\<And>k. passes cid core (f k) k) \<Longrightarrow> acts cid core f (\<lambda>m. m)"
  by (simp add: acts_def passes_def)

lemmas passes_rules = passes_refl passes_sync passes_hartid passes_reg passes_Wr passes_Amo passes_if

lemma passes_reset_rows: "passes cid core p k \<Longrightarrow> y + n \<le> 4 \<Longrightarrow>
    passes cid core (reset_rows arch_default 2 n (of_nat y) p) k"
proof (induction n arbitrary: y)
  case (Suc n)
  have "passes cid core (reset_rows arch_default 2 n (of_nat y + 1) p) k"
    using Suc.IH [of "Suc y"] Suc.prems by (simp add: add.commute)
  moreover have "sys_word (unat (barrier_x_addr arch_default 2 (of_nat y)))"
    using barrier_words(1) [of y] Suc.prems by simp
  ultimately show ?case unfolding reset_rows.simps sync_defs by (intro passes_rules) simp_all
qed simp

lemma acts_barrier:
  assumes "cid < 16" and "app_arch E = arch_default"
  shows "acts cid core (barrier E) (\<lambda>m. m)"
proof (rule acts_passes)
  have "cid div 4 < 4" using assms(1) by simp
  note w = barrier_words [OF this]
  show "passes cid core (barrier E k) k" for k
    unfolding barrier_def assms(2) flex_global_barrier_xy_def sync_defs Let_def
    by (intro passes_rules; simp add: w mesh_row [OF assms(1)] is_reg_default)
qed

lemma mesh_id: "0 < cid \<Longrightarrow> cid < 16 \<Longrightarrow> (of_nat cid :: u32) \<noteq> 0"
  by (simp add: unat_eq_iff32 unat_of_nat32)

lemma acts_bring_up:
  assumes "0 < cid" and "cid < 16" and "app_arch E = arch_default"
  shows "acts cid core (bring_up E) (\<lambda>m. m)"
proof -
  note nz = mesh_id [OF assms(1,2)]
  have xy: "acts cid core (flex_barrier_xy_init arch_default) (\<lambda>m. m)"
    unfolding flex_barrier_xy_init_def sync_defs Let_def
    by (intro acts_passes passes_rules; simp only: nz if_False id_apply; intro passes_rules; simp add: is_reg_default)
  have heap: "acts cid core (flex_alloc_init arch_default l h pl ph) (\<lambda>m. m)" for l h pl ph
    using nz by (auto simp: acts_def flex_alloc_init_def sync_defs run_reg Let_def simp del: run.simps(2) intro!: goes_onI)
  note bar = acts_barrier [OF assms(2,3), unfolded barrier_def [abs_def] assms(3)]
  show ?thesis using acts_comp [OF xy acts_comp [OF bar acts_comp [OF heap bar]]]
    by (simp add: bring_up_def [abs_def] assms(3) Let_def)
qed

lemma run_who_am_i:
  assumes "app_arch E = arch_default"
  shows "run arch_default cid core (who_am_i E k) s =
    run arch_default cid core (k (of_nat cid) core (get_pos arch_default (of_nat cid)) (core = 2)) s"
  by (simp add: who_am_i_def sync_defs flex_get_core_id_def run_reg assms del: run.simps(2))

subsection \<open>Transfers\<close>

definition free_of_sys :: "nat \<Rightarrow> nat \<Rightarrow> bool" where
  "free_of_sys lo n = (\<forall>a. lo \<le> a \<and> a < lo + n \<longrightarrow> \<not> sys_word a)"

lemma free_of_sys_ranges [intro]:
  "lo + n \<le> 0x40000000 \<Longrightarrow> free_of_sys lo n" "0xC0000000 \<le> lo \<Longrightarrow> free_of_sys lo n"
  by (auto simp: free_of_sys_def sys_word_def)

lemma free_of_sys_sub: "free_of_sys lo n \<Longrightarrow> lo \<le> lo' \<Longrightarrow> lo' + n' \<le> lo + n \<Longrightarrow> free_of_sys lo' n'"
  by (simp add: free_of_sys_def)

lemma vis_copy_bytes:
  assumes "free_of_sys dst n" and "free_of_sys src n"
  shows "vis (copy_bytes dst src n m) = copy_bytes dst src n (vis m)"
proof
  fix a
  have "\<not> sys_word (src + (a - dst)) \<and> \<not> sys_word a" if "dst \<le> a" "a < dst + n"
  proof -
    have "src \<le> src + (a - dst)" "src + (a - dst) < src + n" using that by simp_all
    then show ?thesis using assms that unfolding free_of_sys_def by blast
  qed
  then show "vis (copy_bytes dst src n m) a = copy_bytes dst src n (vis m) a" by (simp add: copy_bytes_def vis_def)
qed

lemma copy_rows_Suc:
  "copy_rows dst src n dstr sstr (Suc reps) m =
    copy_bytes (dst + reps * dstr) (src + reps * sstr) n (copy_rows dst src n dstr sstr reps m)"
  by (simp add: copy_rows_def)

lemma vis_copy_rows:
  assumes "\<And>r. r < reps \<Longrightarrow> free_of_sys (dst + r * dstr) n \<and> free_of_sys (src + r * sstr) n"
  shows "vis (copy_rows dst src n dstr sstr reps m) = copy_rows dst src n dstr sstr reps (vis m)"
  using assms
proof (induction reps)
  case 0
  then show ?case by (simp add: copy_rows_def)
next
  case (Suc reps)
  then show ?case by (simp add: copy_rows_Suc vis_copy_bytes)
qed

lemma acts_1d:
  assumes "free_of_sys (unat dst) (unat n)" and "free_of_sys (unat src) (unat n)"
  shows "acts cid core (\<lambda>k. bare_dma_start_1d dst src n (\<lambda>_. bare_dma_wait_all k))
    (copy_bytes (unat dst) (unat src) (unat n))"
  using vis_copy_bytes [OF assms]
  by (auto simp: acts_def bare_dma_start_1d_def bare_dma_wait_all_def exec_insn_def set_regs_def dma_consts dma_step
      intro!: goes_onI)

lemma acts_2d:
  assumes "\<And>r. r < unat reps \<Longrightarrow> free_of_sys (unat dst + r * unat dstr) (unat n) \<and> free_of_sys (unat src + r * unat sstr) (unat n)"
  shows "acts cid core (\<lambda>k. bare_dma_start_2d dst src n dstr sstr reps (\<lambda>_. bare_dma_wait_all k))
    (copy_rows (unat dst) (unat src) (unat n) (unat dstr) (unat sstr) (unat reps))"
  using vis_copy_rows [OF assms]
  by (auto simp: acts_def bare_dma_start_2d_def bare_dma_wait_all_def exec_insn_def set_regs_def dma_consts dma_step
      intro!: goes_onI)

text \<open>Rows that do not meet the rows they are copied from, nor each other.\<close>

lemma copy_rows_out:
  "(\<And>r. r < reps \<Longrightarrow> a < dst + r * dstr \<or> dst + r * dstr + n \<le> a) \<Longrightarrow> copy_rows dst src n dstr sstr reps m a = m a"
proof (induction reps)
  case (Suc reps)
  have "\<not> (dst + reps * dstr \<le> a \<and> a < dst + reps * dstr + n)" using Suc.prems [OF lessI] by auto
  then have "copy_rows dst src n dstr sstr (Suc reps) m a = copy_rows dst src n dstr sstr reps m a"
    unfolding copy_rows_Suc copy_bytes_def by (rule if_not_P)
  then show ?case using Suc by simp
qed (simp add: copy_rows_def)

lemma copy_rows_in:
  assumes "r < reps" and "c < n" and "n \<le> dstr"
    and "\<And>q. q < reps \<Longrightarrow> src + r * sstr + c < dst + q * dstr \<or> dst + q * dstr + n \<le> src + r * sstr + c"
  shows "copy_rows dst src n dstr sstr reps m (dst + r * dstr + c) = m (src + r * sstr + c)"
  using assms
proof (induction reps)
  case (Suc reps)
  show ?case
  proof (cases "r = reps")
    case True
    then show ?thesis using Suc.prems
      by (simp add: copy_rows_Suc copy_bytes_def copy_rows_out)
  next
    case False
    then have "r + 1 \<le> reps" using Suc.prems(1) by simp
    then have "(r + 1) * dstr \<le> reps * dstr" by (rule mult_le_mono1)
    then show ?thesis using Suc False by (simp add: copy_rows_Suc copy_bytes_def)
  qed
qed simp

end
