(* ===== verification/App_Grid.thy ===== *)
theory App_Grid
  imports App_Kernels
begin

text \<open>
  The programs on the 4 by 4 grid: \<open>benchmark_4.c\<close> (every cluster loads its strips in turn),
  \<open>benchmark_5.c\<close> (leaders load, DMA broadcasts along rows and columns), \<open>main_load.c\<close> (the same
  loads and broadcasts without the product) and \<open>main_load_nonextend.c\<close> (all clusters load at once).
\<close>

subsection \<open>HBM initialisation\<close>

text \<open>\<open>(float)(idx + 1) * (1.0f / 65536.0f)\<close> in A; ones on the diagonal of B, twos where the column is
  a multiple of the tile size.\<close>

definition ramp :: "app \<Rightarrow> u32 \<Rightarrow> u32" where
  "ramp E idx = (let F = app_flt E in fl_mul F (f_int E (idx + 1)) (fl_div F (flit F 1) (flit F 65536)))"

definition ROW_BYTES :: u32 where "ROW_BYTES = MAT_N * ELEM_BYTES"

definition init_A_rows :: "app \<Rightarrow> u32 \<Rightarrow> io \<Rightarrow> io" where
  "init_A_rows E row_off =
     for_loop (u32_range 0 MAT_N) (\<lambda>r k.
       for_loop (u32_range 0 MAT_N) (\<lambda>c. Wr (local_addr (app_arch E) row_off + 4 * c) (ramp E (r * MAT_N + c)))
       (dma_write_row E (HBM_A_BASE_OFFSET + r * ROW_BYTES) row_off ROW_BYTES k))"

definition init_B_rows :: "app \<Rightarrow> u32 \<Rightarrow> io \<Rightarrow> io" where
  "init_B_rows E row_off =
     for_loop (u32_range 0 MAT_N) (\<lambda>r k.
       for_loop (u32_range 0 MAT_N) (\<lambda>c. Wr (local_addr (app_arch E) row_off + 4 * c) (flit (app_flt E) 0))
       (on (r < MAT_N) (Wr (local_addr (app_arch E) row_off + 4 * r) (flit (app_flt E) (if r mod TILE = 0 then 2 else 1)))
       (dma_write_row E (HBM_B_BASE_OFFSET + r * ROW_BYTES) row_off ROW_BYTES k)))"

text \<open>\<open>fail\<close> and \<open>ready\<close> are the messages of \<open>benchmark_4\<close>; the other programs print nothing.  A
  failed allocation ends the function, and the caller goes on.\<close>

definition init_hbm_AB_fair_via_dma :: "app \<Rightarrow> (io \<Rightarrow> io) \<Rightarrow> (io \<Rightarrow> io) \<Rightarrow> io \<Rightarrow> io" where
  "init_hbm_AB_fair_via_dma E failed ready k =
     flex_is_dm_core (app_arch E) (\<lambda>dm. flex_get_cluster_id (app_arch E) (\<lambda>cid.
     let P = get_pos (app_arch E) cid in
     if \<not> (dm \<and> pos_x P = 0 \<and> pos_y P = 0) then k
     else Malloc False (ROW_BYTES + 64) (\<lambda>row_raw.
       if row_raw = 0 then failed (flex_eoc (app_arch E) 1 k)
       else (let row_off = l1_offset E (align_up_ptr row_raw 64) in
             init_A_rows E row_off (init_B_rows E row_off (ready k))))))"

subsection \<open>Allocation\<close>

definition grid_alloc :: "app \<Rightarrow> bool \<Rightarrow> (u32 \<Rightarrow> u32 \<Rightarrow> u32 \<Rightarrow> io) \<Rightarrow> (u32 \<Rightarrow> u32 \<Rightarrow> u32 \<Rightarrow> io) \<Rightarrow> io" where
  "grid_alloc E dm err k =
     (if dm then
        l1_malloc3 (BYTES_A_STRIP + 64) (BYTES_B_STRIP + 64) (BYTES_C_TILE + 64) err
          (\<lambda>a b c.
            let addr_c = align_up_ptr c 64; a_off = l1_offset E (align_up_ptr a 64);
                b_off = l1_offset E (align_up_ptr b 64); c_off = l1_offset E addr_c in
            zero32 addr_c BYTES_C_TILE (k a_off b_off c_off))
      else k 0 0 0)"

definition alloc_failed :: "app \<Rightarrow> u32 \<Rightarrow> u32 \<Rightarrow> u32 \<Rightarrow> io" where
  "alloc_failed E a b c = flex_eoc (app_arch E) 1 Halt"

subsection \<open>Loads, broadcasts, stores\<close>

definition load_A_strip :: "app \<Rightarrow> u32 \<Rightarrow> u32 \<Rightarrow> io \<Rightarrow> io" where
  "load_A_strip E a_off r k =
     bare_dma_start_1d (ucast (local_addr (app_arch E) a_off)) (hbm_addr (app_arch E) (hbm_off_A_strip r)) BYTES_A_STRIP
       (\<lambda>_. bare_dma_wait_all k)"

definition load_B_strip :: "app \<Rightarrow> u32 \<Rightarrow> u32 \<Rightarrow> io \<Rightarrow> io" where
  "load_B_strip E b_off c =
     (let size_per_row = TILE * ELEM_BYTES; src_stride = MAT_N * ELEM_BYTES; repeat = MAT_N in
      gather_2d E b_off (hbm_off_B_strip_base c) size_per_row src_stride repeat)"

definition store_C_tile :: "app \<Rightarrow> u32 \<Rightarrow> u32 \<Rightarrow> io \<Rightarrow> io" where
  "store_C_tile E c_off offC =
     (let size_row = TILE * ELEM_BYTES; dst_str = MAT_N * ELEM_BYTES; reps = TILE in
      scatter_2d E offC c_off size_row dst_str reps)"

text \<open>Row leaders load A, column leaders load B, one after the other.\<close>

definition leaders_load :: "app \<Rightarrow> bool \<Rightarrow> FlexPosition \<Rightarrow> u32 \<Rightarrow> u32 \<Rightarrow> (u32 \<Rightarrow> io \<Rightarrow> io) \<Rightarrow> (u32 \<Rightarrow> io \<Rightarrow> io) \<Rightarrow> io \<Rightarrow> io" where
  "leaders_load E dm P a_off b_off after_A after_B k =
     for_loop (u32_range 0 4) (\<lambda>ry k. barrier E
       (on (dm \<and> pos_x P = 0 \<and> pos_y P = ry) (\<lambda>k. load_A_strip E a_off ry (after_A a_off k)) k))
     (barrier E
     (for_loop (u32_range 0 4) (\<lambda>rx k. barrier E
       (on (dm \<and> pos_y P = 0 \<and> pos_x P = rx) (\<lambda>k. load_B_strip E b_off rx (after_B b_off k)) k)) k))"

definition leaders_broadcast :: "app \<Rightarrow> bool \<Rightarrow> FlexPosition \<Rightarrow> u32 \<Rightarrow> u32 \<Rightarrow> io \<Rightarrow> io" where
  "leaders_broadcast E dm P a_off b_off k =
     for_loop (u32_range 0 4) (\<lambda>ry k. barrier E
       (on (dm \<and> pos_x P = 0 \<and> pos_y P = ry)
         (\<lambda>k. flex_dma_async_broadcast (app_arch E) (ucast a_off) (ucast a_off) BYTES_A_STRIP (mask_row ry) mask_all4
            (flex_dma_async_wait_all k)) k))
     (barrier E
     (for_loop (u32_range 0 4) (\<lambda>rx k. barrier E
       (on (dm \<and> pos_y P = 0 \<and> pos_x P = rx)
         (\<lambda>k. flex_dma_async_broadcast (app_arch E) (ucast b_off) (ucast b_off) BYTES_B_STRIP mask_all4 (mask_col rx)
            (flex_dma_async_wait_all k)) k)) k))"

text \<open>The product of a cluster; its checksum is computed and not used.\<close>

definition grid_compute :: "app \<Rightarrow> bool \<Rightarrow> FlexPosition \<Rightarrow> u32 \<Rightarrow> u32 \<Rightarrow> u32 \<Rightarrow> (u32 \<Rightarrow> io) \<Rightarrow> io" where
  "grid_compute E dm P a_off b_off c_off k =
     (if dm then
        (let C = local_addr (app_arch E) c_off in
         matmul_64x256_256x64 E (local_addr (app_arch E) a_off) (local_addr (app_arch E) b_off) C
         (addsum_u32 C BYTES_C_TILE (\<lambda>_. k (hbm_off_C_tile (pos_y P) (pos_x P)))))
      else k 0)"

definition grid_done :: "app \<Rightarrow> string \<Rightarrow> u32 \<Rightarrow> u32 \<Rightarrow> io" where
  "grid_done E msg cid core =
     on (cid = 0 \<and> core = 0) (say msg [HBM_C_BASE_OFFSET]) (flex_eoc (app_arch E) 0 Halt)"

subsection \<open>benchmark\_4\<close>

text \<open>A sweep over the clusters in row-major order, one cluster at a time.\<close>

definition sweep :: "app \<Rightarrow> bool \<Rightarrow> FlexPosition \<Rightarrow> (u32 \<Rightarrow> u32 \<Rightarrow> io \<Rightarrow> io) \<Rightarrow> io \<Rightarrow> io" where
  "sweep E dm P body =
     for_loop (u32_range 0 4) (\<lambda>ry. for_loop (u32_range 0 4) (\<lambda>rx k.
       barrier E (on (dm \<and> pos_y P = ry \<and> pos_x P = rx) (body ry rx) (barrier E k))))"

definition bench4_main :: "app \<Rightarrow> io" where
  "bench4_main E =
     bring_up E (who_am_i E (\<lambda>cid core P dm.
     let master = dm \<and> pos_x P = 0 \<and> pos_y P = 0; sync = timed E master (barrier E) in
     on master (flex_timer_start (app_arch E))
     (grid_alloc E dm
       (\<lambda>a b c. say ''[ERR] L1 malloc failed: A=%p B=%p C=%p'' [a, b, c] (flex_eoc (app_arch E) 1 Halt))
       (\<lambda>a_off b_off c_off.
      on master (flex_timer_end (app_arch E)) (sync
     (init_hbm_AB_fair_via_dma E (say ''[InitHBM] ERROR: L1 row alloc failed'' [])
       (say ''[InitHBM] A: ramp; B: identity (2.0 on columns {0,64,128,192})'' []) (barrier E
     (timed E master (sweep E dm P (\<lambda>ry rx k. load_A_strip E a_off ry (load_B_strip E b_off rx k))) (sync
     (on master (flex_timer_start (app_arch E))
     (grid_compute E dm P a_off b_off c_off (\<lambda>offC.
      on master (flex_timer_end (app_arch E)) (sync
     (timed E master (sweep E dm P (\<lambda>ry rx. store_C_tile E c_off (hbm_off_C_tile (pos_y P) (pos_x P)))) (sync
     (grid_done E ''[Done][NONEXT] All tiles stored at base 0x%08x'' cid core))))))))))))))))"

subsection \<open>benchmark\_5\<close>

definition bench5_main :: "app \<Rightarrow> io" where
  "bench5_main E =
     bring_up E (who_am_i E (\<lambda>cid core P dm.
     let master = dm \<and> pos_x P = 0 \<and> pos_y P = 0; sync = timed E master (barrier E) in
     barrier E
     (on master (flex_timer_start (app_arch E))
     (grid_alloc E dm (alloc_failed E) (\<lambda>a_off b_off c_off.
      on master (flex_timer_end (app_arch E)) (sync
     (init_hbm_AB_fair_via_dma E id id (barrier E
     (timed E master (leaders_load E dm P a_off b_off (\<lambda>_. id) (\<lambda>_. id)) (sync
     (timed E master (leaders_broadcast E dm P a_off b_off) (sync
     (on master (flex_timer_start (app_arch E))
     (grid_compute E dm P a_off b_off c_off (\<lambda>offC.
      on master (flex_timer_end (app_arch E)) (sync
     (timed E master (on dm (store_C_tile E c_off offC)) (sync
     (grid_done E ''[Done] All 16 tiles of C written to HBM at base 0x%08x'' cid core)))))))))))))))))))"

subsection \<open>main\_load and main\_load\_nonextend\<close>

text \<open>The timer master is every core of the first cluster; the checksums are not used.\<close>

definition sum_strip :: "app \<Rightarrow> u32 \<Rightarrow> u32 \<Rightarrow> io \<Rightarrow> io" where
  "sum_strip E n_bytes off k = addsum_u32 (local_addr (app_arch E) off) n_bytes (\<lambda>_. k)"

definition load_main :: "app \<Rightarrow> io" where
  "load_main E =
     bring_up E (who_am_i E (\<lambda>cid core P dm.
     let master = pos_x P = 0 \<and> pos_y P = 0 in
     on master (flex_timer_start (app_arch E))
     (grid_alloc E dm (alloc_failed E) (\<lambda>a_off b_off c_off.
      on master (flex_timer_end (app_arch E)) (barrier E
     (init_hbm_AB_fair_via_dma E id id (barrier E
     (timed E master (leaders_load E dm P a_off b_off (sum_strip E BYTES_A_STRIP) (sum_strip E BYTES_B_STRIP)) (barrier E
     (timed E master (leaders_broadcast E dm P a_off b_off) (barrier E
     (flex_eoc (app_arch E) 0 Halt))))))))))))"

definition load_nonextend_main :: "app \<Rightarrow> io" where
  "load_nonextend_main E =
     bring_up E (who_am_i E (\<lambda>cid core P dm.
     let master = pos_x P = 0 \<and> pos_y P = 0 in
     on master (flex_timer_start (app_arch E))
     (grid_alloc E dm (alloc_failed E) (\<lambda>a_off b_off c_off.
      on master (flex_timer_end (app_arch E)) (barrier E
     (init_hbm_AB_fair_via_dma E id id (barrier E
     (timed E master
       (on dm (\<lambda>k. load_A_strip E a_off (pos_y P) (sum_strip E BYTES_A_STRIP a_off
          (load_B_strip E b_off (pos_x P) (sum_strip E BYTES_B_STRIP b_off k))))) (barrier E
     (flex_eoc (app_arch E) 0 Halt))))))))))"

end
