(* ===== verification/App_Bench.thy ===== *)
theory App_Bench
  imports App_Kernels
begin

text \<open>
  The programs \<open>benchmark_1.c\<close> (one cluster), \<open>benchmark_2.c\<close> (a row of four clusters, no broadcast)
  and \<open>benchmark_3.c\<close> (the row with a broadcast of A).  Every core runs \<open>main\<close>; the phases are
  definitions of their own, in the order of the code, and the buffers' offsets are passed on.
  Element sizes are 4 bytes; the byte counts are those of the header comments.
\<close>

subsection \<open>benchmark\_1\<close>

definition A_BYTES1 :: u32 where "A_BYTES1 = 64 * 256 * 4"
definition B_BYTES1 :: u32 where "B_BYTES1 = 256 * 64 * 4"
definition C_BYTES1 :: u32 where "C_BYTES1 = 64 * 64 * 4"

definition bench1_info :: "u32 \<Rightarrow> u32 \<Rightarrow> io \<Rightarrow> io" where
  "bench1_info cid core =
     on (cid = 0 \<and> core = 0) (\<lambda>k.
       say ''[Info][2D] Single-cluster (0,0) GEMM test; others idle but synchronized'' []
       (say ''       A=%ux%u  (%u bytes)'' [64, 256, A_BYTES1]
       (say ''       B=%ux%u  (%u bytes)'' [256, 64, B_BYTES1]
       (say ''       C=%ux%u  (%u bytes)'' [64, 64, C_BYTES1] k))))"

text \<open>The allocation phase hands on the three offsets, 0 where the core does no work.\<close>

definition bench1_alloc :: "app \<Rightarrow> bool \<Rightarrow> (u32 \<Rightarrow> u32 \<Rightarrow> u32 \<Rightarrow> io) \<Rightarrow> io" where
  "bench1_alloc E work k =
     (if work then
        flex_timer_start (app_arch E)
        (l1_malloc3 (A_BYTES1 + 64) (B_BYTES1 + 64) (C_BYTES1 + 64)
          (\<lambda>a b c. say ''[ERR] L1 malloc failed: A=%p B=%p C=%p'' [a, b, c] (flex_eoc (app_arch E) 1 Halt))
          (\<lambda>a b c.
            let off_a = l1_offset E (align64 a); off_b = l1_offset E (align64 b); off_c = l1_offset E (align64 c) in
            flex_timer_end (app_arch E)
            (say ''[L1] Offsets (C00 DM): A=%u B=%u C=%u'' [off_a, off_b, off_c] (k off_a off_b off_c))))
      else k 0 0 0)"

definition bench1_init :: "app \<Rightarrow> u32 \<Rightarrow> u32 \<Rightarrow> io \<Rightarrow> io" where
  "bench1_init E off_a off_b k =
     (let A = local_addr (app_arch E) off_a; B = local_addr (app_arch E) off_b in
      fill_A_pattern E 64 256 A (fill_B_pattern E 256 64 B
      (say ''[HBM][Write] A -> 0x%08x (%u bytes)'' [HBM_A_BASE_OFFSET, A_BYTES1]
      (dma_write_1d_to_hbm E HBM_A_BASE_OFFSET off_a A_BYTES1
      (say ''[HBM][Write] B -> 0x%08x (%u bytes)'' [HBM_B_BASE_OFFSET, B_BYTES1]
      (dma_write_1d_to_hbm E HBM_B_BASE_OFFSET off_b B_BYTES1 k))))))"

definition bench1_read_back :: "app \<Rightarrow> u32 \<Rightarrow> u32 \<Rightarrow> io \<Rightarrow> io" where
  "bench1_read_back E off_a off_b k =
     zero32 (local_addr (app_arch E) off_a) A_BYTES1 (zero32 (local_addr (app_arch E) off_b) B_BYTES1
     (flex_timer_start (app_arch E)
     (dma_read_1d_from_hbm E off_a HBM_A_BASE_OFFSET A_BYTES1
     (dma_read_1d_from_hbm E off_b HBM_B_BASE_OFFSET B_BYTES1
     (flex_timer_end (app_arch E) k)))))"

definition bench1_compute :: "app \<Rightarrow> u32 \<Rightarrow> u32 \<Rightarrow> u32 \<Rightarrow> io \<Rightarrow> io" where
  "bench1_compute E off_a off_b off_c k =
     (let A = local_addr (app_arch E) off_a; B = local_addr (app_arch E) off_b; C = local_addr (app_arch E) off_c in
      flex_timer_start (app_arch E) (zero32 C C_BYTES1 (compute_2d_gemm E A B C
      (addsum_u32 C C_BYTES1 (\<lambda>sc. flex_timer_end (app_arch E)
      (say ''[CHK] addsum(C)=0x%08x%08x'' [hi32 sc, lo32 sc] k))))))"

definition bench1_store :: "app \<Rightarrow> u32 \<Rightarrow> io \<Rightarrow> io" where
  "bench1_store E off_c k =
     flex_timer_start (app_arch E) (dma_write_1d_to_hbm E HBM_C_BASE_OFFSET off_c C_BYTES1
     (flex_timer_end (app_arch E) k))"

definition bench1_main :: "app \<Rightarrow> io" where
  "bench1_main E =
     bring_up E (who_am_i E (\<lambda>cid core P dm.
     let work = dm \<and> pos_x P = 0 \<and> pos_y P = 0; sync = timed E work (barrier E) in
     bench1_info cid core (barrier E
     (bench1_alloc E work (\<lambda>off_a off_b off_c. sync
     (on work (bench1_init E off_a off_b) (sync
     (on work (bench1_read_back E off_a off_b) (sync
     (on work (bench1_compute E off_a off_b off_c) (sync
     (on work (bench1_store E off_c) (sync
     (flex_eoc (app_arch E) 0 Halt))))))))))))))"

subsection \<open>benchmark\_2\<close>

definition A_BYTES2 :: u32 where "A_BYTES2 = 64 * 256 * 4"
definition B_BYTES2 :: u32 where "B_BYTES2 = 256 * 256 * 4"
definition C_BYTES2 :: u32 where "C_BYTES2 = 64 * 256 * 4"
definition B_TILE_BYTES :: u32 where "B_TILE_BYTES = 256 * 64 * 4"
definition C_TILE_BYTES :: u32 where "C_TILE_BYTES = 64 * 64 * 4"

definition tile_info :: "string \<Rightarrow> u32 \<Rightarrow> u32 \<Rightarrow> io \<Rightarrow> io" where
  "tile_info title cid core =
     on (cid = 0 \<and> core = 0) (\<lambda>k.
       say title []
       (say ''       A=%ux%u bytes=%u'' [64, 256, A_BYTES2]
       (say ''       B_full=%ux%u bytes=%u, tiles along N: 4 x (%u cols)'' [256, 256, B_BYTES2, 64]
       (say ''       C_full=%ux%u bytes=%u, per tile bytes=%u'' [64, 256, C_BYTES2, C_TILE_BYTES] k))))"

text \<open>Phase 1: the first cluster writes A and the whole of B to HBM.\<close>

definition tile_preload :: "app \<Rightarrow> io \<Rightarrow> io" where
  "tile_preload E k =
     Malloc False (A_BYTES2 + 64) (\<lambda>raw_a. Malloc False (B_BYTES2 + 64) (\<lambda>raw_b.
     if raw_a = 0 \<or> raw_b = 0 then
       say ''[ERR] L1 alloc failed for preload: A=%p B=%p'' [raw_a, raw_b] (flex_eoc (app_arch E) 1 Halt)
     else
       (let off_a = l1_offset E (align64 raw_a); off_b = l1_offset E (align64 raw_b) in
        fill_A_pattern E 64 256 (local_addr (app_arch E) off_a)
        (fill_B_pattern E 256 256 (local_addr (app_arch E) off_b)
        (say ''[HBM][Write] A -> 0x%08x (%u B)'' [HBM_A_BASE_OFFSET, A_BYTES2]
        (dma_write_1d_to_hbm E HBM_A_BASE_OFFSET off_a A_BYTES2
        (say ''[HBM][Write] B_full -> 0x%08x (%u B)'' [HBM_B_BASE_OFFSET, B_BYTES2]
        (dma_write_1d_to_hbm E HBM_B_BASE_OFFSET off_b B_BYTES2 k))))))))"

text \<open>Phase 2: the buffers of the workers, C cleared.\<close>

definition tile_alloc :: "app \<Rightarrow> bool \<Rightarrow> u32 \<Rightarrow> (u32 \<Rightarrow> u32 \<Rightarrow> u32 \<Rightarrow> io) \<Rightarrow> io" where
  "tile_alloc E work x k =
     (if work then
        l1_malloc3 (A_BYTES2 + 64) (B_TILE_BYTES + 64) (C_TILE_BYTES + 64)
          (\<lambda>a b c. say ''[ERR][C(0,%u) DM] L1 alloc failed: A=%p Btile=%p Ctile=%p'' [x, a, b, c]
             (flex_eoc (app_arch E) 1 Halt))
          (\<lambda>a b c.
            let off_a = l1_offset E (align64 a); off_b = l1_offset E (align64 b); off_c = l1_offset E (align64 c) in
            zero32 (local_addr (app_arch E) off_c) C_TILE_BYTES (k off_a off_b off_c))
      else k 0 0 0)"

text \<open>Phase 2b of \<open>benchmark_2\<close>: one worker after the other reads A and its columns of B.\<close>

definition tile_read_B :: "app \<Rightarrow> u32 \<Rightarrow> u32 \<Rightarrow> io \<Rightarrow> io" where
  "tile_read_B E off_b rx =
     (let src_base = HBM_B_BASE_OFFSET + (rx * 64) * 4; rowSize = 64 * 4; srcStr = 256 * 4; rows = 256 in
      gather_2d E off_b src_base rowSize srcStr rows)"

definition bench2_data_in :: "app \<Rightarrow> bool \<Rightarrow> u32 \<Rightarrow> u32 \<Rightarrow> u32 \<Rightarrow> io \<Rightarrow> io" where
  "bench2_data_in E work x off_a off_b =
     for_loop (u32_range 0 4) (\<lambda>rx k. barrier E
       (on (work \<and> x = rx) (\<lambda>k. dma_read_1d_from_hbm E off_a HBM_A_BASE_OFFSET A_BYTES2 (tile_read_B E off_b rx k))
       (barrier E k)))"

text \<open>Phase 3: the product and its checksum, printed in order.\<close>

definition tile_compute :: "app \<Rightarrow> bool \<Rightarrow> u32 \<Rightarrow> u32 \<Rightarrow> u32 \<Rightarrow> (u64 \<Rightarrow> io) \<Rightarrow> io" where
  "tile_compute E work off_a off_b off_c k =
     (if work then
        compute_gemm_tile E (local_addr (app_arch E) off_a) (local_addr (app_arch E) off_b) (local_addr (app_arch E) off_c)
        (addsum_u32 (local_addr (app_arch E) off_c) C_TILE_BYTES k)
      else k 0)"

definition tile_checksums :: "app \<Rightarrow> bool \<Rightarrow> u32 \<Rightarrow> u64 \<Rightarrow> io \<Rightarrow> io" where
  "tile_checksums E work x sc k =
     for_loop (u32_range 0 4) (\<lambda>rx k. barrier E
       (on (work \<and> x = rx) (say ''[CHK][C(0,%u)] add(Ctile)=0x%08x%08x'' [rx, hi32 sc, lo32 sc]) k))
     (barrier E k)"

text \<open>Phase 4: one worker after the other stores its columns of C.\<close>

definition tile_data_out :: "app \<Rightarrow> bool \<Rightarrow> u32 \<Rightarrow> u32 \<Rightarrow> io \<Rightarrow> io" where
  "tile_data_out E work x off_c =
     for_loop (u32_range 0 4) (\<lambda>rx k. barrier E
       (on (work \<and> x = rx)
          (let dst_base = HBM_C_BASE_OFFSET + (rx * 64) * 4; rowSize = 64 * 4; dstStr = 256 * 4; rows = 64 in
           scatter_2d E dst_base off_c rowSize dstStr rows)
       (barrier E k)))"

definition tile_done :: "app \<Rightarrow> string \<Rightarrow> u32 \<Rightarrow> u32 \<Rightarrow> io" where
  "tile_done E msg cid core =
     on (cid = 0 \<and> core = 0) (say msg [HBM_C_BASE_OFFSET]) (flex_eoc (app_arch E) 0 Halt)"

definition bench2_main :: "app \<Rightarrow> io" where
  "bench2_main E =
     bring_up E (who_am_i E (\<lambda>cid core P dm.
     let work = dm \<and> pos_y P = 0 \<and> pos_x P < 4; x = pos_x P; master = dm \<and> pos_x P = 0 \<and> pos_y P = 0;
         sync = timed E master (barrier E) in
     tile_info ''[Info][Bmk2-2D] 1x4 (row 0), no broadcast; each pulls A + its B N-tile'' cid core (barrier E
     (on master (tile_preload E) (barrier E
     (on master (flex_timer_start (app_arch E))
     (tile_alloc E work x (\<lambda>off_a off_b off_c.
      on master (flex_timer_end (app_arch E)) (barrier E
     (timed E master (bench2_data_in E work x off_a off_b) (sync
     (on master (flex_timer_start (app_arch E))
     (tile_compute E work off_a off_b off_c (\<lambda>sc.
      on master (flex_timer_end (app_arch E))
     (tile_checksums E work x sc (sync
     (timed E master (tile_data_out E work x off_c) (sync
     (tile_done E ''[Done][Bmk2-2D] All four C tiles stored to HBM base 0x%08x'' cid core)))))))))))))))))))"

subsection \<open>benchmark\_3\<close>

text \<open>A is read by the first cluster and broadcast to row 0; the offsets are passed as the
  addresses of the collective transfer.\<close>

definition bench3_load_A :: "app \<Rightarrow> u32 \<Rightarrow> io \<Rightarrow> io" where
  "bench3_load_A E off_a k =
     dma_read_1d_from_hbm E off_a HBM_A_BASE_OFFSET A_BYTES2
     (bare_dma_start_1d_broadcast (ucast off_a) (ucast off_a) A_BYTES2 (mask_row 0) mask_all4
       (\<lambda>_. bare_dma_wait_all k))"

definition bench3_data_in :: "app \<Rightarrow> bool \<Rightarrow> bool \<Rightarrow> u32 \<Rightarrow> u32 \<Rightarrow> u32 \<Rightarrow> io \<Rightarrow> io" where
  "bench3_data_in E first work x off_a off_b k =
     on first (bench3_load_A E off_a) (barrier E
     (for_loop (u32_range 0 4) (\<lambda>rx k. barrier E
       (on (work \<and> x = rx) (tile_read_B E off_b rx) (barrier E k))) k))"

definition bench3_main :: "app \<Rightarrow> io" where
  "bench3_main E =
     bring_up E (who_am_i E (\<lambda>cid core P dm.
     let work = dm \<and> pos_y P = 0 \<and> pos_x P < 4; x = pos_x P; master = dm \<and> pos_x P = 0 \<and> pos_y P = 0;
         sync = timed E master (barrier E) in
     tile_info ''[Info][Bmk3-2D] 1x4 (row 0), A via broadcast, B via direct per-cluster HBM loads'' cid core (barrier E
     (on master (tile_preload E) (barrier E
     (on master (flex_timer_start (app_arch E))
     (tile_alloc E work x (\<lambda>off_a off_b off_c.
      on master (flex_timer_end (app_arch E)) (sync
     (timed E master (bench3_data_in E master work x off_a off_b) (sync
     (on master (flex_timer_start (app_arch E))
     (tile_compute E work off_a off_b off_c (\<lambda>sc.
      on master (flex_timer_end (app_arch E))
     (tile_checksums E work x sc (sync
     (timed E master (tile_data_out E work x off_c) (sync
     (tile_done E ''[Done][Bmk3-2D] All four C tiles stored to HBM base 0x%08x'' cid core)))))))))))))))))))"

end
