(* ===== verification/App_Product.thy ===== *)
theory App_Product
  imports App_Solo App_Grid App_Bench
begin

text \<open>
  What the loops of the benchmark programs leave in memory: the matrix product of a core, the zeroed
  buffer, the sums.  Effects are functions on memories indexed by natural numbers; the words of the
  programs are translated once, in the rules for counting loops and element addresses.
\<close>

subsection \<open>Counting loops\<close>

lemma acts_count:
  assumes "\<And>i. i < unat n \<Longrightarrow> acts cid core (body (of_nat i)) (\<phi> i)"
  shows "acts cid core (for_loop (u32_range 0 n) body) (fold \<phi> [0 ..< unat n])"
proof -
  have "for_loop (map f xs) body = for_loop xs (\<lambda>i. body (f i))" for f :: "nat \<Rightarrow> u32" and xs
    by (induction xs) (simp_all add: fun_eq_iff)
  then have "for_loop (u32_range 0 n) body = for_loop [0 ..< unat n] (\<lambda>i. body (of_nat i))"
    by (simp add: u32_range_def)
  moreover have "acts cid core (for_loop [0 ..< unat n] (\<lambda>i. body (of_nat i))) (fold \<phi> [0 ..< unat n])"
    by (rule acts_for_loop) (simp add: assms)
  ultimately show ?thesis by simp
qed

lemma yields_count:
  assumes "\<And>i c. i < unat n \<Longrightarrow> yields cid core (body (of_nat i) c) (\<lambda>m. g m i c)"
  shows "yields cid core (acc_loop (u32_range 0 n) body c) (\<lambda>m. fold (g m) [0 ..< unat n] c)"
proof -
  have "acc_loop (map f xs) body c = acc_loop xs (\<lambda>i. body (f i)) c" for f :: "nat \<Rightarrow> u32" and xs c
    by (induction xs arbitrary: c) (simp_all add: fun_eq_iff)
  then have "acc_loop (u32_range 0 n) body c = acc_loop [0 ..< unat n] (\<lambda>i. body (of_nat i)) c"
    by (simp add: u32_range_def)
  moreover have "yields cid core (acc_loop [0 ..< unat n] (\<lambda>i. body (of_nat i)) c) (\<lambda>m. fold (g m) [0 ..< unat n] c)"
    by (rule yields_acc_loop) (simp add: assms)
  ultimately show ?thesis by simp
qed

lemma yields_bind:
  assumes "yields cid core f v" and "\<And>x. yields cid core (g x) (w x)"
  shows "yields cid core (\<lambda>k. f (\<lambda>x. g x k)) (\<lambda>m. w (v m) m)"
  using assms unfolding yields_def by (metis goes_on_trans)

lemma yields_return: "yields cid core (\<lambda>k. k x) (\<lambda>m. x)"
  by (auto simp: yields_def intro: goes_onI)

lemma acts_store:
  assumes "yields cid core f v" and "plain a"
  shows "acts cid core (\<lambda>k. f (\<lambda>x. Wr a x k)) (\<lambda>m. m(unat a := v m))"
  using assms(1) acts_Wr [OF assms(2)] unfolding yields_def acts_def by (metis goes_on_trans)

lemma plain_low: "unat a < 0x20000000 \<Longrightarrow> plain a"
  by (simp add: plain_def is_reg_default sys_word_def word_less_nat_alt unat_sub_if_size word_size)

lemma unat_elem:
  fixes p i n j :: u32
  assumes "unat p + 4 * (unat i * unat n + unat j) < 4294967296"
  shows "unat (p + 4 * (i * n + j)) = unat p + 4 * (unat i * unat n + unat j)"
  using assms by (simp add: unat_word_ariths)

lemma unat_word: "unat (p :: u32) + 4 * unat i < 4294967296 \<Longrightarrow> unat (p + 4 * i) = unat p + 4 * unat i"
  by (simp add: unat_word_ariths)

subsection \<open>The product\<close>

text \<open>The dot product in the order of the code.\<close>

definition dot :: "'f flt_ops \<Rightarrow> nat \<Rightarrow> (nat \<Rightarrow> 'f) \<Rightarrow> (nat \<Rightarrow> 'f) \<Rightarrow> 'f" where
  "dot F n x y = fold (\<lambda>k acc. fl_add F acc (fl_mul F (x k) (y k))) [0 ..< n] (flit F 0)"

definition gemm_mem :: "u32 flt_ops \<Rightarrow> nat \<Rightarrow> nat \<Rightarrow> nat \<Rightarrow> nat \<Rightarrow> nat \<Rightarrow> nat \<Rightarrow> (nat \<Rightarrow> u32) \<Rightarrow> nat \<Rightarrow> u32" where
  "gemm_mem F M K N a b c =
     fold (\<lambda>i. fold (\<lambda>j m. m(c + 4 * (i * N + j) := dot F K (\<lambda>k. m (a + 4 * (i * K + k))) (\<lambda>k. m (b + 4 * (k * N + j)))))
       [0 ..< N]) [0 ..< M]"

lemma dot_cong: "(\<And>k. k < n \<Longrightarrow> x k = x' k \<and> y k = y' k) \<Longrightarrow> dot F n x y = dot F n x' y'"
  unfolding dot_def by (rule fold_cong) simp_all

lemma index_bound: "i < M \<Longrightarrow> j < N \<Longrightarrow> i * N + j < M * (N :: nat)"
  using mesh_index_less [of j N i M] by (simp add: mult.commute)

lemma yields_gemm_dot:
  assumes "unat a + 4 * unat K \<le> 0x20000000" and "unat B + 4 * (unat K * unat N) \<le> 0x20000000" and "j < unat N"
  shows "yields cid core (gemm_dot E K N a B (of_nat j))
    (\<lambda>m. dot (app_flt E) (unat K) (\<lambda>k. m (unat a + 4 * k)) (\<lambda>k. m (unat B + 4 * (k * unat N + j))))"
  unfolding gemm_dot_def dot_def
proof (rule yields_count)
  fix k c
  assume k: "k < unat K"
  have jw: "unat (of_nat j :: u32) = j" using assms(3) unat_lt32 [of N] by (intro unat_of_nat32) linarith
  have kw: "unat (of_nat k :: u32) = k" using k unat_lt32 [of K] by (intro unat_of_nat32) linarith
  note b = index_bound [OF k assms(3)]
  have x: "unat (a + 4 * of_nat k) = unat a + 4 * k"
    using unat_word [of a "of_nat k"] assms(1) k by (simp add: kw)
  have y: "unat (B + 4 * (of_nat k * N + of_nat j)) = unat B + 4 * (k * unat N + j)"
    using unat_elem [of B "of_nat k" N "of_nat j"] assms(2) b by (simp add: kw jw)
  have p: "plain (a + 4 * of_nat k)" "plain (B + 4 * (of_nat k * N + of_nat j))"
    using assms(1,2) k b plain_low [of "a + 4 * of_nat k", unfolded x]
      plain_low [of "B + 4 * (of_nat k * N + of_nat j)", unfolded y] by simp_all
  show "yields cid core
      (\<lambda>cont. Rd (a + 4 * of_nat k) (\<lambda>x. Rd (B + 4 * (of_nat k * N + of_nat j)) (\<lambda>y.
        cont (fl_add (app_flt E) c (fl_mul (app_flt E) x y)))))
      (\<lambda>m. fl_add (app_flt E) c (fl_mul (app_flt E) (m (unat a + 4 * k)) (m (unat B + 4 * (k * unat N + j)))))"
    by (rule yields_bind [OF yields_Rd [OF p(1)] yields_bind [OF yields_Rd [OF p(2)] yields_return], unfolded x y])
qed

lemma acts_gemm:
  assumes "unat A + 4 * (unat M * unat K) \<le> 0x20000000" and "unat B + 4 * (unat K * unat N) \<le> 0x20000000"
    and "unat C + 4 * (unat M * unat N) \<le> 0x20000000"
  shows "acts cid core (gemm E M K N A B C) (gemm_mem (app_flt E) (unat M) (unat K) (unat N) (unat A) (unat B) (unat C))"
  unfolding gemm_def gemm_mem_def Let_def
proof (intro acts_count)
  fix i j
  assume i: "i < unat M" and j: "j < unat N"
  have jw: "unat (of_nat j :: u32) = j" using j unat_lt32 [of N] by (intro unat_of_nat32) linarith
  have iw: "unat (of_nat i :: u32) = i" using i unat_lt32 [of M] by (intro unat_of_nat32) linarith
  have "i * unat K + unat K \<le> unat M * unat K" using mult_le_mono1 [of "Suc i" "unat M" "unat K"] i by simp
  then have a: "unat (A + 4 * (of_nat i * K)) = unat A + 4 * (i * unat K)"
    and fits: "unat A + 4 * (i * unat K + unat K) \<le> 0x20000000"
    using unat_elem [of A "of_nat i" K 0] assms(1) by (simp_all add: iw)
  note b = index_bound [OF i j]
  have cw: "C + 4 * (of_nat i * N) + 4 * of_nat j = C + 4 * (of_nat i * N + of_nat j)" by (simp add: algebra_simps)
  have c: "unat (C + 4 * (of_nat i * N) + 4 * of_nat j) = unat C + 4 * (i * unat N + j)"
    using unat_elem [of C "of_nat i" N "of_nat j"] assms(3) b by (simp add: iw jw cw)
  then have p: "plain (C + 4 * (of_nat i * N) + 4 * of_nat j)" using assms(3) b by (intro plain_low) simp
  have row: "unat A + 4 * (i * unat K) + 4 * k = unat A + 4 * (i * unat K + k)" for k by simp
  have "yields cid core (gemm_dot E K N (A + 4 * (of_nat i * K)) B (of_nat j))
      (\<lambda>m. dot (app_flt E) (unat K) (\<lambda>k. m (unat A + 4 * (i * unat K + k))) (\<lambda>k. m (unat B + 4 * (k * unat N + j))))"
    using yields_gemm_dot [of "A + 4 * (of_nat i * K)" K B N j cid core E, unfolded a row] fits assms(2) j by blast
  from acts_store [OF this p] show "acts cid core
      (\<lambda>rest. gemm_dot E K N (A + 4 * (of_nat i * K)) B (of_nat j) (\<lambda>acc. Wr (C + 4 * (of_nat i * N) + 4 * of_nat j) acc rest))
      (\<lambda>m. m(unat C + 4 * (i * unat N + j) := dot (app_flt E) (unat K) (\<lambda>k. m (unat A + 4 * (i * unat K + k)))
         (\<lambda>k. m (unat B + 4 * (k * unat N + j)))))"
    unfolding c .
qed

lemma gemm_mem_apply:
  assumes "c + 4 * (M * N) \<le> a \<or> a + 4 * (M * K) \<le> c" and "c + 4 * (M * N) \<le> b \<or> b + 4 * (K * N) \<le> c"
  shows "i < M \<Longrightarrow> j < N \<Longrightarrow> gemm_mem F M K N a b c m (c + 4 * (i * N + j)) =
      dot F K (\<lambda>k. m (a + 4 * (i * K + k))) (\<lambda>k. m (b + 4 * (k * N + j)))"
    and "p < c \<or> c + 4 * (M * N) \<le> p \<Longrightarrow> gemm_mem F M K N a b c m p = m p"
proof -
  let ?at = "\<lambda>(i, j). c + 4 * (i * N + j)" and ?ps = "List.product [0 ..< M] [0 ..< N]"
  let ?v = "\<lambda>(i, j) m. dot F K (\<lambda>k. m (a + 4 * (i * K + k))) (\<lambda>k. m (b + 4 * (k * N + j)))"
  have inj: "inj_on ?at (set ?ps)" by (auto simp: inj_on_def mesh_index_eq simp del: distrib_left_numeral)
  have rng: "c \<le> x \<and> x < c + 4 * (M * N)" if "x \<in> ?at ` set ?ps" for x
    using that index_bound by (auto simp del: distrib_left_numeral)
  have local: "?v q m = ?v q m'" if "q \<in> set ?ps" "\<forall>x. x \<notin> ?at ` (set ?ps - {q}) \<longrightarrow> m x = m' x" for q and m m' :: "nat \<Rightarrow> u32"
  proof -
    obtain i j where ij: "q = (i, j)" by (cases q)
    then have q: "q = (i, j)" "i < M" "j < N" using that(1) by simp_all
    note agree = that(2)
    have out: "m x = m' x" if "x < c \<or> c + 4 * (M * N) \<le> x" for x
    proof -
      have "x \<notin> ?at ` set ?ps" using rng [of x] that by linarith
      then have "x \<notin> ?at ` (set ?ps - {q})" by (blast dest: imageI)
      then show ?thesis using agree by simp
    qed
    have "a + 4 * (i * K + k) < c \<or> c + 4 * (M * N) \<le> a + 4 * (i * K + k)" if "k < K" for k
      using assms(1) index_bound [OF q(2) that] by auto
    moreover have "b + 4 * (k * N + j) < c \<or> c + 4 * (M * N) \<le> b + 4 * (k * N + j)" if "k < K" for k
      using assms(2) index_bound [OF that q(3)] by auto
    ultimately show ?thesis unfolding q(1) prod.case by (intro dot_cong) (simp add: out)
  qed
  have eq: "gemm_mem F M K N a b c m = fold (\<lambda>p m. m(?at p := ?v p m)) ?ps m"
    unfolding gemm_mem_def fold_product by (rule fold_cong) auto
  note fw = fold_writes [OF _ inj local, where mem = m]
  show "gemm_mem F M K N a b c m (c + 4 * (i * N + j)) = dot F K (\<lambda>k. m (a + 4 * (i * K + k))) (\<lambda>k. m (b + 4 * (k * N + j)))"
    if "i < M" "j < N"
  proof -
    have "(i, j) \<in> set ?ps" using that by simp
    then have "?at (i, j) \<in> ?at ` set ?ps" "the_inv_into (set ?ps) ?at (?at (i, j)) = (i, j)"
      by (rule imageI) (rule the_inv_into_f_f [OF inj \<open>(i, j) \<in> set ?ps\<close>])
    then show ?thesis using fw [where a = "?at (i, j)"] unfolding eq by (simp add: distinct_product)
  qed
  show "gemm_mem F M K N a b c m p = m p" if "p < c \<or> c + 4 * (M * N) \<le> p"
  proof -
    have "p \<notin> ?at ` set ?ps" using that rng [of p] by linarith
    then show ?thesis using fw [where a = p] unfolding eq by (simp add: distinct_product)
  qed
qed

subsection \<open>Zeroed buffers and sums\<close>

definition zero_mem :: "nat \<Rightarrow> nat \<Rightarrow> (nat \<Rightarrow> u32) \<Rightarrow> nat \<Rightarrow> u32" where
  "zero_mem dst n = fold (\<lambda>i m. m(dst + 4 * i := 0)) [0 ..< n]"

lemma zero_mem_out: "p < dst \<or> dst + 4 * n \<le> p \<Longrightarrow> zero_mem dst n m p = m p"
proof (induction n)
  case (Suc n)
  then have "p < dst \<or> dst + 4 * n \<le> p" "p \<noteq> dst + 4 * n" by auto
  then show ?case using Suc.IH by (simp add: zero_mem_def)
qed (simp add: zero_mem_def)

lemma unat_quarter: "4 * unat (drop_bit 2 n :: u32) \<le> unat n"
  by (simp add: unat_drop_bit_eq) (simp add: drop_bit_eq_div)

lemma acts_zero32:
  assumes "unat dst + unat nbytes \<le> 0x20000000"
  shows "acts cid core (zero32 dst nbytes) (zero_mem (unat dst) (unat (drop_bit 2 nbytes)))"
  unfolding zero32_def zero_mem_def
proof (rule acts_count)
  fix i
  assume i: "i < unat (drop_bit 2 nbytes)"
  then have iw: "unat (of_nat i :: u32) = i" using unat_lt32 [of "drop_bit 2 nbytes"] by (intro unat_of_nat32) linarith
  have "unat dst + 4 * i < 0x20000000" using i unat_quarter [of nbytes] assms by linarith
  then have "unat (dst + 4 * of_nat i) = unat dst + 4 * i" "plain (dst + 4 * of_nat i)"
    using unat_word [of dst "of_nat i"] plain_low [of "dst + 4 * of_nat i"] by (simp_all add: iw)
  then show "acts cid core (Wr (dst + 4 * of_nat i) 0) (\<lambda>m. m(unat dst + 4 * i := 0))"
    using acts_Wr [of "dst + 4 * of_nat i"] by simp
qed

lemma acts_addsum:
  assumes "unat p + unat n \<le> 0x20000000"
  shows "acts cid core (\<lambda>k. addsum_u32 p n (\<lambda>_. k)) (\<lambda>m. m)"
proof -
  have "yields cid core (addsum_u32 p n) (\<lambda>m. fold (\<lambda>i s. s + ucast (m (unat (p + 4 * of_nat i)))) [0 ..< unat (drop_bit 2 n)] 0)"
    unfolding addsum_u32_def
  proof (rule yields_count)
    fix i and c :: u64
    assume i: "i < unat (drop_bit 2 n)"
    then have iw: "unat (of_nat i :: u32) = i" using unat_lt32 [of "drop_bit 2 n"] by (intro unat_of_nat32) linarith
    have "unat p + 4 * i < 0x20000000" using i unat_quarter [of n] assms by linarith
    then have "plain (p + 4 * of_nat i)"
      using unat_word [of p "of_nat i"] plain_low [of "p + 4 * of_nat i"] by (simp add: iw)
    then show "yields cid core (\<lambda>k. Rd (p + 4 * of_nat i) (\<lambda>v. k (c + ucast v))) (\<lambda>m. c + ucast (m (unat (p + 4 * of_nat i))))"
      by (rule yields_bind [OF yields_Rd yields_return])
  qed
  then show ?thesis by (rule acts_yields)
qed

end
