(* ===== verification/App_Tile.thy ===== *)
theory App_Tile
  imports App_Product
begin

text \<open>
  The work of one cluster in the tiled programs \<open>benchmark_2\<close> and \<open>benchmark_4\<close>: load a strip of A
  and of B, multiply, store the tile of C.  The whole \<open>main\<close> of a cluster other than the first is run
  here, from the bring-up to the end of computation, on the default configuration.
\<close>

subsection \<open>The effect on the memory\<close>

text \<open>\<open>a\<close>, \<open>b\<close>, \<open>c\<close> are the buffers in L1; \<open>ha\<close>, \<open>hb\<close>, \<open>hc\<close> the first elements of the strips and of the
  tile in HBM, in matrices with rows of 256 elements.\<close>

definition tile_effect :: "u32 flt_ops \<Rightarrow> nat \<Rightarrow> nat \<Rightarrow> nat \<Rightarrow> nat \<Rightarrow> nat \<Rightarrow> nat \<Rightarrow> (nat \<Rightarrow> u32) \<Rightarrow> nat \<Rightarrow> u32" where
  "tile_effect F a b c ha hb hc m =
     copy_rows hc c 256 1024 256 64 (gemm_mem F 64 256 64 a b c
       (copy_rows b hb 256 256 1024 256 (copy_bytes a ha 65536 m)))"

definition apart :: "nat \<Rightarrow> nat \<Rightarrow> nat \<Rightarrow> nat \<Rightarrow> bool" where
  "apart p n q l = (p + n \<le> q \<or> q + l \<le> p)"

text \<open>Three buffers in the local memory that do not meet.\<close>

definition l1_ok :: "nat \<Rightarrow> nat \<Rightarrow> nat \<Rightarrow> nat \<Rightarrow> bool" where
  "l1_ok room a b c =
     (a + 65536 + room \<le> 0x100000 \<and> b + 65536 + room \<le> 0x100000 \<and> c + 16384 + room \<le> 0x100000 \<and>
      apart a (65536 + room) b (65536 + room) \<and> apart a (65536 + room) c (16384 + room) \<and>
      apart b (65536 + room) c (16384 + room))"

lemma tile_effect_at:
  assumes "l1_ok 0 a b c" and "0xC0000000 \<le> ha" and "0xC0000000 \<le> hb" and "0xC0000000 \<le> hc" and "i < 64" and "j < 64"
  shows "tile_effect F a b c ha hb hc m (hc + i * 1024 + 4 * j) =
    dot F 256 (\<lambda>k. m (ha + 4 * (i * 256 + k))) (\<lambda>k. m (hb + k * 1024 + 4 * j))"
proof -
  let ?l = "copy_rows b hb 256 256 1024 256 (copy_bytes a ha 65536 m)"
  let ?g = "gemm_mem F 64 256 64 a b c ?l"
  have ok: "a + 65536 \<le> 0x100000" "b + 65536 \<le> 0x100000" "c + 16384 \<le> 0x100000"
    "c + 4 * (64 * 64) \<le> a \<or> a + 4 * (64 * 256) \<le> c" "c + 4 * (64 * 64) \<le> b \<or> b + 4 * (256 * 64) \<le> c"
    "a + 65536 \<le> b \<or> b + 65536 \<le> a"
    using assms(1) by (auto simp: l1_ok_def apart_def)
  have "tile_effect F a b c ha hb hc m (hc + i * 1024 + 4 * j) = ?g (c + i * 256 + 4 * j)"
    unfolding tile_effect_def using assms ok by (intro copy_rows_in) auto
  also have "\<dots> = ?g (c + 4 * (i * 64 + j))" by (simp add: algebra_simps)
  also have "\<dots> = dot F 256 (\<lambda>k. ?l (a + 4 * (i * 256 + k))) (\<lambda>k. ?l (b + 4 * (k * 64 + j)))"
    by (rule gemm_mem_apply(1) [OF ok(4,5) assms(5,6)])
  also have "\<dots> = dot F 256 (\<lambda>k. m (ha + 4 * (i * 256 + k))) (\<lambda>k. m (hb + k * 1024 + 4 * j))"
  proof (rule dot_cong)
    fix k :: nat
    assume k: "k < 256"
    have "?l (a + 4 * (i * 256 + k)) = copy_bytes a ha 65536 m (a + 4 * (i * 256 + k))"
      using ok(6) assms(5) k by (intro copy_rows_out) auto
    moreover have "?l (b + k * 256 + 4 * j) = copy_bytes a ha 65536 m (hb + k * 1024 + 4 * j)"
      using assms(3,6) k ok(2) by (intro copy_rows_in) auto
    moreover have "b + 4 * (k * 64 + j) = b + k * 256 + 4 * j" by simp
    ultimately show "?l (a + 4 * (i * 256 + k)) = m (ha + 4 * (i * 256 + k)) \<and>
        ?l (b + 4 * (k * 64 + j)) = m (hb + k * 1024 + 4 * j)"
      using assms(3,5) k ok(1) by (simp only: copy_bytes_def) auto
  qed
  finally show ?thesis .
qed

lemma tile_effect_out:
  assumes "l1_ok 0 a b c" and "0xC0000000 \<le> p" and "\<And>i. i < 64 \<Longrightarrow> p < hc + i * 1024 \<or> hc + i * 1024 + 256 \<le> p"
  shows "tile_effect F a b c ha hb hc m p = m p"
proof -
  have ok: "a + 65536 \<le> 0x100000" "b + 65536 \<le> 0x100000" "c + 16384 \<le> 0x100000"
    "c + 4 * (64 * 64) \<le> a \<or> a + 4 * (64 * 256) \<le> c" "c + 4 * (64 * 64) \<le> b \<or> b + 4 * (256 * 64) \<le> c"
    using assms(1) by (auto simp: l1_ok_def apart_def)
  let ?c = "copy_bytes a ha 65536 m"
  let ?l = "copy_rows b hb 256 256 1024 256 ?c"
  have "tile_effect F a b c ha hb hc m p = gemm_mem F 64 256 64 a b c ?l p"
    unfolding tile_effect_def using assms(3) by (rule copy_rows_out)
  also have "\<dots> = ?l p" using ok(3) assms(2) by (intro gemm_mem_apply(2) [OF ok(4,5)]) simp
  also have "\<dots> = ?c p" using ok(2) assms(2) by (intro copy_rows_out) auto
  also have "\<dots> = m p" using ok(1) assms(2) by (simp add: copy_bytes_def)
  finally show ?thesis .
qed

subsection \<open>Addresses\<close>

text \<open>The buffers the programs cut out of what the allocator returns.\<close>

definition l1_cut :: "app \<Rightarrow> u32 \<Rightarrow> u32" where
  "l1_cut E p = l1_offset E (align_up_ptr p 64)"

lemma align64_eq: "align64 p = align_up_ptr p 64"
  by (simp add: align64_def align_up_ptr_def align_up_u32_def)

lemma cut_range:
  assumes "app_arch E = arch_default" and "unat p + 64 \<le> 0x100000"
  shows "unat p \<le> unat (l1_cut E p)" and "unat (l1_cut E p) < unat p + 64"
  using assms align_up_u32_nat [of 64 6 p] round_up [of 64 "unat p"]
  by (simp_all add: l1_cut_def l1_offset_def tcdm_offset_from_ptr_def align_up_ptr_def)

lemma cut_ok:
  assumes "app_arch E = arch_default" and "l1_ok 64 (unat p) (unat q) (unat r)"
  shows "l1_ok 0 (unat (l1_cut E p)) (unat (l1_cut E q)) (unat (l1_cut E r))"
proof -
  have "unat p + 64 \<le> 0x100000" "unat q + 64 \<le> 0x100000" "unat r + 64 \<le> 0x100000"
    using assms(2) by (simp_all add: l1_ok_def)
  note c = this [THEN cut_range(1) [OF assms(1)]] this [THEN cut_range(2) [OF assms(1)]]
  show ?thesis using assms(2) c unfolding l1_ok_def apart_def by linarith
qed

lemma mesh_column: "cid < 16 \<Longrightarrow> pos_x (get_pos arch_default (of_nat cid)) = of_nat (cid mod 4)"
  by (simp add: get_pos_def unat_eq_iff32 unat_mod unat_of_nat32)

lemma not_first: "0 < cid \<Longrightarrow> cid < 16 \<Longrightarrow>
    \<not> (pos_x (get_pos arch_default (of_nat cid)) = 0 \<and> pos_y (get_pos arch_default (of_nat cid)) = 0)"
  by (auto simp: mesh_row mesh_column unat_eq_iff32 unat_of_nat32)

subsection \<open>The phases\<close>

text \<open>Windows of the local memory and of HBM hold no counter.\<close>

lemma free_l1: "a + n \<le> 0x100000 \<Longrightarrow> free_of_sys a n"
  by (rule free_of_sys_ranges(1)) simp

lemma free_hbm: "free_of_sys (0xC0000000 + x) n" "free_of_sys (0xC0000000 + x + y) n"
  by (auto intro: free_of_sys_ranges(2))

lemma acts_load_A:
  assumes "app_arch E = arch_default" and "unat a + 65536 \<le> 0x100000"
  shows "acts cid core (load_A_strip E a r) (copy_bytes (unat a) (0xC0000000 + unat (hbm_off_A_strip r)) 65536)"
proof -
  have n: "unat BYTES_A_STRIP = 65536" by (simp add: BYTES_A_STRIP_def layout_defs)
  show ?thesis
    using acts_1d [of "ucast a" BYTES_A_STRIP "hbm_addr arch_default (hbm_off_A_strip r)"] free_l1 [OF assms(2)]
    by (simp add: load_A_strip_def [abs_def] unat_hbm_addr n assms(1) free_hbm)
qed

lemma acts_gather:
  assumes "app_arch E = arch_default" and "unat b + 65536 \<le> 0x100000"
  shows "acts cid core (gather_2d E b off 256 1024 256) (copy_rows (unat b) (0xC0000000 + unat off) 256 256 1024 256)"
proof -
  have "free_of_sys (unat b + r * 256) 256" if "r < 256" for r
    using that assms(2) by (intro free_l1) simp
  then show ?thesis
    using acts_2d [of 256 "ucast b" 256 256 "hbm_addr arch_default off" 1024]
    by (simp add: gather_2d_def [abs_def] unat_hbm_addr assms(1) free_hbm)
qed

lemma acts_scatter:
  assumes "app_arch E = arch_default" and "unat c + 16384 \<le> 0x100000"
  shows "acts cid core (scatter_2d E off c 256 1024 64) (copy_rows (0xC0000000 + unat off) (unat c) 256 1024 256 64)"
proof -
  have "free_of_sys (unat c + r * 256) 256" if "r < 64" for r
    using that assms(2) by (intro free_l1) simp
  then show ?thesis
    using acts_2d [of 64 "hbm_addr arch_default off" 1024 256 "ucast c" 256]
    by (simp add: scatter_2d_def [abs_def] unat_hbm_addr assms(1) free_hbm)
qed

lemma acts_product:
  assumes "unat a + 65536 \<le> 0x100000" and "unat b + 65536 \<le> 0x100000" and "unat c + 16384 \<le> 0x100000"
  shows "acts cid core (gemm E 64 256 64 a b c) (gemm_mem (app_flt E) 64 256 64 (unat a) (unat b) (unat c))"
  using acts_gemm [of a 64 256 b 64 c cid core E] assms by simp

text \<open>One cluster after the other: a cluster acts in its own round only.\<close>

lemma acts_sweep:
  assumes "app_arch E = arch_default" and "cid < 16"
    and "acts cid core (body (pos_y P) (pos_x P)) \<phi>" and "pos_x P < 4" and "pos_y P < 4"
  shows "acts cid core (sweep E True P body) \<phi>"
proof -
  note bar = acts_barrier [OF assms(2,1)]
  have one: "acts cid core (\<lambda>k. barrier E (on (True \<and> pos_y P = ry \<and> pos_x P = rx) (body ry rx) (barrier E k)))
      (if pos_y P = ry \<and> pos_x P = rx then \<phi> else (\<lambda>m. m))" for ry rx
  proof -
    have "acts cid core (on (True \<and> pos_y P = ry \<and> pos_x P = rx) (body ry rx))
        (if True \<and> pos_y P = ry \<and> pos_x P = rx then \<phi> else (\<lambda>m. m))"
      using assms(3) by (intro acts_on) auto
    from acts_comp [OF bar acts_comp [OF this bar]] show ?thesis by simp
  qed
  have "acts cid core (sweep E True P body)
      (fold (\<lambda>ry. fold (\<lambda>rx. if pos_y P = ry \<and> pos_x P = rx then \<phi> else (\<lambda>m. m)) (u32_range 0 4)) (u32_range 0 4))"
    unfolding sweep_def by (intro acts_for_loop one)
  moreover have "pos_x P \<in> {0, 1, 2, 3}" "pos_y P \<in> {0, 1, 2, 3}" using assms(4,5) by (simp_all only: below_4)
  then have "fold (\<lambda>ry. fold (\<lambda>rx. if pos_y P = ry \<and> pos_x P = rx then \<phi> else (\<lambda>m. m)) (u32_range 0 4)) (u32_range 0 4) = \<phi>"
    unfolding u32_range_0_4 by (auto simp: fun_eq_iff)
  ultimately show ?thesis by simp
qed

subsection \<open>benchmark\_4\<close>

lemma skipped [simp]: "on False f k = k" "timed E False f k = f k"
  by (simp_all add: on_def timed_def)

lemma acts_init_others:
  assumes "app_arch E = arch_default" and "0 < cid" and "cid < 16"
  shows "acts cid core (init_hbm_AB_fair_via_dma E failed ready) (\<lambda>m. m)"
  using not_first [OF assms(2,3)]
  by (auto simp: acts_def init_hbm_AB_fair_via_dma_def sync_defs assms(1) run_reg Let_def simp del: run.simps(2) intro!: goes_onI)

lemma acts_grid_compute:
  assumes "app_arch E = arch_default" and "l1_ok 0 (unat a) (unat b) (unat c)"
  shows "acts cid core (\<lambda>k. grid_compute E True P a b c (\<lambda>_. k)) (gemm_mem (app_flt E) 64 256 64 (unat a) (unat b) (unat c))"
proof -
  have n: "unat BYTES_C_TILE = 16384" by (simp add: BYTES_C_TILE_def layout_defs)
  have "acts cid core (gemm E 64 256 64 a b c) (gemm_mem (app_flt E) 64 256 64 (unat a) (unat b) (unat c))"
    using assms(2) by (intro acts_product) (simp_all add: l1_ok_def)
  moreover have "acts cid core (\<lambda>k. addsum_u32 c BYTES_C_TILE (\<lambda>_. k)) (\<lambda>m. m)"
    using assms(2) by (intro acts_addsum) (simp add: l1_ok_def n)
  ultimately have "acts cid core (\<lambda>k. gemm E 64 256 64 a b c (addsum_u32 c BYTES_C_TILE (\<lambda>_. k)))
      (gemm_mem (app_flt E) 64 256 64 (unat a) (unat b) (unat c))"
    by (rule acts_comp)
  then show ?thesis
    by (simp add: grid_compute_def Let_def assms(1) matmul_64x256_256x64_def TILE_def MAT_N_def)
qed

lemma run_grid_alloc:
  assumes "app_arch E = arch_default" and "s_ptrs s = [p, q, r]" and "p \<noteq> 0" and "q \<noteq> 0" and "r \<noteq> 0"
  shows "run arch_default cid core (grid_alloc E True err k) s =
    run arch_default cid core (zero32 (l1_cut E r) BYTES_C_TILE (k (l1_cut E p) (l1_cut E q) (l1_cut E r))) (s\<lparr>s_ptrs := []\<rparr>)"
proof -
  have "align_up_ptr r 64 = l1_cut E r" by (simp add: l1_cut_def l1_offset_def tcdm_offset_from_ptr_def assms(1))
  then show ?thesis using assms by (simp add: grid_alloc_def l1_malloc3_def Let_def l1_cut_def [symmetric])
qed

lemma run_grid_done:
  assumes "app_arch E = arch_default"
  shows "\<exists>s'. run arch_default cid core (grid_done E msg w c) s = Some s' \<and> vis (s_mem s') = vis (s_mem s)"
proof -
  have say: "acts cid core (on d (say msg vs)) (\<lambda>m. m)" for d vs
    using acts_on [where c = d, OF acts_say] by (cases d) simp_all
  have eoc: "acts cid core (flex_eoc arch_default 0) (\<lambda>m. m)"
    using acts_Wr_hidden [where a = "0x90000000"] by (simp add: flex_eoc_def [abs_def] sys_word_def)
  have "goes_on cid core (grid_done E msg w c) s Halt (vis (s_mem s))"
    using acts_comp [OF say eoc] unfolding grid_done_def assms acts_def by blast
  then show ?thesis by (auto simp: goes_on_def)
qed

text \<open>What the cluster does between its allocations and the last message.\<close>

lemma acts_bench4:
  fixes E cid a b c
  defines "P \<equiv> get_pos arch_default (of_nat cid)"
  defines "y \<equiv> pos_y P" and "x \<equiv> pos_x P"
  assumes "app_arch E = arch_default" and "0 < cid" and "cid < 16" and "l1_ok 0 (unat a) (unat b) (unat c)"
  shows "acts cid 2 (\<lambda>k.
      zero32 c BYTES_C_TILE (barrier E (init_hbm_AB_fair_via_dma E failed ready (barrier E
      (sweep E True P (\<lambda>ry rx k. load_A_strip E a ry (load_B_strip E b rx k)) (barrier E
      (grid_compute E True P a b c (\<lambda>_. barrier E
      (sweep E True P (\<lambda>ry rx. store_C_tile E c (hbm_off_C_tile (pos_y P) (pos_x P))) (barrier E k))))))))))
    (\<lambda>m. tile_effect (app_flt E) (unat a) (unat b) (unat c) (0xC0000000 + unat (hbm_off_A_strip y))
       (0xC0000000 + unat (hbm_off_B_strip_base x)) (0xC0000000 + unat (hbm_off_C_tile y x))
       (zero_mem (unat c) (unat (drop_bit 2 BYTES_C_TILE)) m))"
proof -
  note E = assms(4)
  have ok: "unat a + 65536 \<le> 0x100000" "unat b + 65536 \<le> 0x100000" "unat c + 16384 \<le> 0x100000"
    using assms(7) by (simp_all add: l1_ok_def)
  have small: "x < 4" "y < 4"
    using assms(5,6) unfolding x_def y_def P_def
    by (simp_all add: mesh_row mesh_column word_less_nat_alt unat_of_nat32)
  have n: "unat BYTES_C_TILE = 16384" by (simp add: BYTES_C_TILE_def layout_defs)
  note zero = acts_zero32 [of c BYTES_C_TILE cid 2] and bar = acts_barrier [OF assms(6) E, of 2]
  have load: "acts cid 2 (\<lambda>k. load_A_strip E a y (load_B_strip E b x k))
      (\<lambda>m. copy_rows (unat b) (0xC0000000 + unat (hbm_off_B_strip_base x)) 256 256 1024 256
        (copy_bytes (unat a) (0xC0000000 + unat (hbm_off_A_strip y)) 65536 m))"
    using acts_comp [OF acts_load_A [OF E ok(1)] acts_gather [OF E ok(2)]]
    by (simp add: load_B_strip_def [abs_def] Let_def TILE_def MAT_N_def ELEM_BYTES_def)
  have store: "acts cid 2 (store_C_tile E c (hbm_off_C_tile y x))
      (copy_rows (0xC0000000 + unat (hbm_off_C_tile y x)) (unat c) 256 1024 256 64)"
    using acts_scatter [OF E ok(3)] by (simp add: store_C_tile_def [abs_def] Let_def TILE_def MAT_N_def ELEM_BYTES_def)
  note sweeps = acts_sweep [OF E assms(6) _ small [unfolded x_def y_def]]
  note loads = sweeps [of 2 "\<lambda>ry rx k. load_A_strip E a ry (load_B_strip E b rx k)", OF load [unfolded x_def y_def]]
  note stores = sweeps [of 2 "\<lambda>ry rx. store_C_tile E c (hbm_off_C_tile (pos_y P) (pos_x P))", OF store [unfolded x_def y_def]]
  note rest = acts_comp [OF acts_grid_compute [OF E assms(7)] acts_comp [OF bar acts_comp [OF stores bar]]]
  from acts_comp [OF zero acts_comp [OF bar acts_comp [OF acts_init_others [OF E assms(5,6)]
      acts_comp [OF bar acts_comp [OF loads acts_comp [OF bar rest]]]]]] ok(3) n
  show ?thesis unfolding tile_effect_def x_def y_def by simp
qed

lemma run_acts:
  assumes "acts cid core f \<phi>"
    and "\<And>s'. vis (s_mem s') = \<phi> (vis (s_mem s)) \<Longrightarrow> s_ptrs s' = s_ptrs s \<Longrightarrow>
      \<exists>t. run arch_default cid core k s' = Some t \<and> Q t"
  shows "\<exists>t. run arch_default cid core (f k) s = Some t \<and> Q t"
proof -
  obtain s' where "run arch_default cid core (f k) s = run arch_default cid core k s'"
    and "vis (s_mem s') = \<phi> (vis (s_mem s))" and "s_ptrs s' = s_ptrs s"
    using assms(1) unfolding acts_def goes_on_def by metis
  then show ?thesis using assms(2) by simp
qed

lemma bench4_others:
  assumes "app_arch E = arch_default" and "0 < cid" and "cid < 16"
    and "s_ptrs s = [p, q, r]" and "p \<noteq> 0" and "q \<noteq> 0" and "r \<noteq> 0" and "l1_ok 64 (unat p) (unat q) (unat r)"
  shows "\<exists>s'. run arch_default cid 2 (bench4_main E) s = Some s' \<and> vis (s_mem s') =
    tile_effect (app_flt E) (unat (l1_cut E p)) (unat (l1_cut E q)) (unat (l1_cut E r))
      (0xC0000000 + unat (hbm_off_A_strip (of_nat (cid div 4))))
      (0xC0000000 + unat (hbm_off_B_strip_base (of_nat (cid mod 4))))
      (0xC0000000 + unat (hbm_off_C_tile (of_nat (cid div 4)) (of_nat (cid mod 4))))
      (zero_mem (unat (l1_cut E r)) (unat (drop_bit 2 BYTES_C_TILE)) (vis (s_mem s)))"
  unfolding bench4_main_def
  apply (rule run_acts [OF acts_bring_up [OF assms(2,3,1)]])
  apply (simp only: run_who_am_i [OF assms(1)] Let_def refl simp_thms not_first [OF assms(2,3)] skipped)
  apply (subst run_grid_alloc [OF assms(1) _ assms(5,6,7)])
   apply (simp only: assms(4))
  apply (rule run_acts [OF acts_bench4 [OF assms(1-3) cut_ok [OF assms(1,8)]]])
  apply (rule exE [OF run_grid_done [OF assms(1)]])
  apply (rule exI, erule conjE, rule conjI, assumption)
  apply (simp add: mesh_row mesh_column assms(3))
  done

subsection \<open>Properties\<close>

text \<open>The address of element \<open>(i, j)\<close> of a 256 by 256 matrix in HBM.\<close>

definition hbm_elem :: "u32 \<Rightarrow> nat \<Rightarrow> nat \<Rightarrow> nat" where
  "hbm_elem base i j = 0xC0000000 + unat base + 4 * (i * 256 + j)"

lemma tile_addresses:
  assumes "y < 4" and "x < 4"
  shows "0xC0000000 + unat (hbm_off_A_strip (of_nat y)) + 4 * (i * 256 + k) = hbm_elem HBM_A_BASE_OFFSET (64 * y + i) k"
    and "0xC0000000 + unat (hbm_off_B_strip_base (of_nat x)) + k * 1024 + 4 * j = hbm_elem HBM_B_BASE_OFFSET k (64 * x + j)"
    and "0xC0000000 + unat (hbm_off_C_tile (of_nat y) (of_nat x)) + i * 1024 + 4 * j = hbm_elem HBM_C_BASE_OFFSET (64 * y + i) (64 * x + j)"
proof -
  have "y \<in> {0, 1, 2, 3}" "x \<in> {0, 1, 2, 3}" using assms by auto
  then show "0xC0000000 + unat (hbm_off_A_strip (of_nat y)) + 4 * (i * 256 + k) = hbm_elem HBM_A_BASE_OFFSET (64 * y + i) k"
    and "0xC0000000 + unat (hbm_off_B_strip_base (of_nat x)) + k * 1024 + 4 * j = hbm_elem HBM_B_BASE_OFFSET k (64 * x + j)"
    and "0xC0000000 + unat (hbm_off_C_tile (of_nat y) (of_nat x)) + i * 1024 + 4 * j = hbm_elem HBM_C_BASE_OFFSET (64 * y + i) (64 * x + j)"
    by (auto simp: hbm_elem_def layout_defs)
qed

lemma high_visible: "0xC0000000 \<le> a \<Longrightarrow> \<not> sys_word a"
  by (simp add: sys_word_def)

text \<open>C4: \<open>benchmark_4\<close> as the DM core of cluster \<open>(x, y)\<close> runs it, other than the first cluster, on the
  default configuration and with three L1 buffers that do not overlap: \<open>main\<close> ends, and tile \<open>(y, x)\<close>
  of C in HBM holds the product of the row strip of A and the column strip of B found in HBM, each
  element the dot product in the order of the code; nothing else in HBM has changed.\<close>

theorem benchmark_4_tile:
  assumes "app_arch E = arch_default" and "0 < cid" and "cid < 16"
    and "s_ptrs s = [p, q, r]" and "p \<noteq> 0" and "q \<noteq> 0" and "r \<noteq> 0" and "l1_ok 64 (unat p) (unat q) (unat r)"
  shows "\<exists>s'. run arch_default cid 2 (bench4_main E) s = Some s'
    \<and> (\<forall>i<64. \<forall>j<64.
         s_mem s' (hbm_elem HBM_C_BASE_OFFSET (64 * (cid div 4) + i) (64 * (cid mod 4) + j)) =
           dot (app_flt E) 256 (\<lambda>k. s_mem s (hbm_elem HBM_A_BASE_OFFSET (64 * (cid div 4) + i) k))
             (\<lambda>k. s_mem s (hbm_elem HBM_B_BASE_OFFSET k (64 * (cid mod 4) + j))))
    \<and> (\<forall>a\<ge>0xC0000000.
         (\<forall>i<64. a < hbm_elem HBM_C_BASE_OFFSET (64 * (cid div 4) + i) (64 * (cid mod 4)) \<or>
            hbm_elem HBM_C_BASE_OFFSET (64 * (cid div 4) + i) (64 * (cid mod 4)) + 256 \<le> a) \<longrightarrow>
         s_mem s' a = s_mem s a)"
proof -
  let ?y = "cid div 4" and ?x = "cid mod 4"
  have yx: "?y < 4" "?x < 4" using assms(3) by simp_all
  note adr = tile_addresses [OF yx]
  obtain s' where run: "run arch_default cid 2 (bench4_main E) s = Some s'"
    and mem: "vis (s_mem s') =
      tile_effect (app_flt E) (unat (l1_cut E p)) (unat (l1_cut E q)) (unat (l1_cut E r))
        (0xC0000000 + unat (hbm_off_A_strip (of_nat ?y))) (0xC0000000 + unat (hbm_off_B_strip_base (of_nat ?x)))
        (0xC0000000 + unat (hbm_off_C_tile (of_nat ?y) (of_nat ?x)))
        (zero_mem (unat (l1_cut E r)) (unat (drop_bit 2 BYTES_C_TILE)) (vis (s_mem s)))"
    using bench4_others [OF assms] by blast
  note ok = cut_ok [OF assms(1,8)]
  have before: "zero_mem (unat (l1_cut E r)) (unat (drop_bit 2 BYTES_C_TILE)) (vis (s_mem s)) a = s_mem s a"
    if "0xC0000000 \<le> a" for a
  proof -
    have "unat (l1_cut E r) + 4 * unat (drop_bit 2 BYTES_C_TILE) \<le> a"
      using ok unat_quarter [of BYTES_C_TILE] that by (simp add: l1_ok_def BYTES_C_TILE_def layout_defs)
    then show ?thesis by (simp add: zero_mem_out high_visible [OF that])
  qed
  have after: "s_mem s' a = vis (s_mem s') a" if "0xC0000000 \<le> a" for a
    by (simp add: high_visible [OF that])
  have hbm: "0xC0000000 \<le> hbm_elem b i j" for b i j by (simp add: hbm_elem_def)
  have elem: "s_mem s' (hbm_elem HBM_C_BASE_OFFSET (64 * ?y + i) (64 * ?x + j)) =
      dot (app_flt E) 256 (\<lambda>k. s_mem s (hbm_elem HBM_A_BASE_OFFSET (64 * ?y + i) k))
        (\<lambda>k. s_mem s (hbm_elem HBM_B_BASE_OFFSET k (64 * ?x + j)))" if "i < 64" "j < 64" for i j
    unfolding after [OF hbm] mem
    unfolding adr(3) [symmetric] tile_effect_at [OF ok le_add1 le_add1 le_add1 that]
    unfolding adr(1,2) before [OF hbm] ..
  have rest: "s_mem s' a = s_mem s a" if "0xC0000000 \<le> a"
    and "\<forall>i<64. a < hbm_elem HBM_C_BASE_OFFSET (64 * ?y + i) (64 * ?x) \<or>
      hbm_elem HBM_C_BASE_OFFSET (64 * ?y + i) (64 * ?x) + 256 \<le> a" for a
    using tile_effect_out [OF ok that(1)] that(2) adr(3) [where j = 0] after [OF that(1)] before [OF that(1)] mem
    by simp
  show ?thesis using run elem rest by blast
qed

definition ones :: solo where
  "ones = \<lparr>s_mem = (\<lambda>_. 1), s_dma = \<lparr>r_src = 0, r_dst = 0, r_src_stride = 0, r_dst_stride = 0, r_reps = 0, r_mask = 0\<rparr>,
     s_log = [], s_ptrs = [0x1000, 0x20000, 0x40000]\<rparr>"

definition word_app :: app where
  "word_app =
     \<lparr>app_arch = arch_default,
      app_flt = \<lparr>flit = (\<lambda>_. 0), fl_add = (+), fl_sub = (-), fl_mul = (*), fl_div = (div), fl_neg = uminus, fl_less = (<)\<rparr>,
      app_l1_heap = 0x1000, app_hbm_heap = 0xC0200000, app_l1_alloc = 0, app_hbm_alloc = 0\<rparr>"

text \<open>Ones in all of memory and arithmetic of words: every element of the tile is 256.\<close>

theorem benchmark_4_tile_witness:
  "\<exists>s'. run arch_default 6 2 (bench4_main word_app) ones = Some s' \<and>
    s_mem s' (hbm_elem HBM_C_BASE_OFFSET 67 133) = 256"
proof -
  have "dot (app_flt word_app) 256 (\<lambda>_. 1) (\<lambda>_. 1) = 256"
    by (simp add: dot_def word_app_def upt_rec)
  moreover obtain s' where "run arch_default 6 2 (bench4_main word_app) ones = Some s'"
    and "\<forall>i<64. \<forall>j<64. s_mem s' (hbm_elem HBM_C_BASE_OFFSET (64 * (6 div 4) + i) (64 * (6 mod 4) + j)) =
      dot (app_flt word_app) 256 (\<lambda>k. s_mem ones (hbm_elem HBM_A_BASE_OFFSET (64 * (6 div 4) + i) k))
        (\<lambda>k. s_mem ones (hbm_elem HBM_B_BASE_OFFSET k (64 * (6 mod 4) + j)))"
    using benchmark_4_tile [of word_app 6 ones "0x1000" "0x20000" "0x40000"]
    by (auto simp: word_app_def ones_def l1_ok_def apart_def)
  from this(1) this(2) [THEN spec [of _ 3], THEN mp, THEN spec [of _ 5]] calculation show ?thesis
    by (intro exI [of _ s']) (simp add: ones_def)
qed

end
