(* ===== verification/App_Sync.thy ===== *)
theory App_Sync
  imports App_Bench App_Grid
begin

text \<open>
  How often a program takes part in a synchronisation.  The barriers of the runtime end only when all
  cores of all clusters arrive, so the benchmark programs must pass the same number of them on every
  core, whatever it computes: a core with one barrier less leaves the others waiting for ever.
\<close>

subsection \<open>Counting\<close>

text \<open>\<open>syncs p n\<close>: every path of \<open>p\<close> passes \<open>n\<close> core synchronisations, whatever loads, registers and the
  hart number return and as long as no allocation fails.\<close>

primrec syncs :: "io \<Rightarrow> nat \<Rightarrow> bool" where
  "syncs Halt = (\<lambda>n. n = 0)"
| "syncs (Rd a k) = (\<lambda>n. \<forall>v. syncs (k v) n)"
| "syncs (Wr a v k) = syncs k"
| "syncs (Amo a v k) = (\<lambda>n. \<forall>v. syncs (k v) n)"
| "syncs (Spin a v k) = syncs k"
| "syncs (Csr_Hartid k) = (\<lambda>n. \<forall>h. syncs (k h) n)"
| "syncs (Csr_Sync k) = (\<lambda>n. 0 < n \<and> syncs k (n - 1))"
| "syncs (Insn w rs k) = (\<lambda>n. \<forall>v. syncs (k v) n)"
| "syncs (Poll w k) = syncs k"
| "syncs (Heap_Init b base sz k) = syncs k"
| "syncs (Malloc b sz k) = (\<lambda>n. \<forall>p. p \<noteq> 0 \<longrightarrow> syncs (k p) n)"
| "syncs (Free b p k) = syncs k"
| "syncs (Printf l k) = syncs k"
| "syncs (Tick k) = syncs k"

text \<open>A piece of a program that adds \<open>c\<close> synchronisations to what comes after it.\<close>

definition adds :: "nat \<Rightarrow> (io \<Rightarrow> io) \<Rightarrow> bool" where
  "adds c f = (\<forall>k n. syncs k n \<longrightarrow> syncs (f k) (c + n))"

lemma addsI: "(\<And>k n. syncs k n \<Longrightarrow> syncs (f k) (c + n)) \<Longrightarrow> adds c f"
  by (simp add: adds_def)

lemma addsD: "adds c f \<Longrightarrow> syncs k n \<Longrightarrow> syncs (f k) (c + n)"
  by (simp add: adds_def)

lemma adds_step: "adds c f \<Longrightarrow> c \<le> n \<Longrightarrow> syncs k (n - c) \<Longrightarrow> syncs (f k) n"
  using addsD [of c f k "n - c"] by simp

lemma adds_id: "adds 0 (\<lambda>k. k)" "adds 0 id"
  by (simp_all add: adds_def)

lemma adds_comp: "adds c f \<Longrightarrow> adds d g \<Longrightarrow> adds (c + d) (\<lambda>k. f (g k))"
  by (simp add: adds_def add.assoc)

lemma adds_on: "adds 0 f \<Longrightarrow> adds 0 (on b f)"
  by (simp add: adds_def on_def)

lemma adds_for_loop: "(\<And>x. adds c (body x)) \<Longrightarrow> adds (c * length xs) (for_loop xs body)"
proof (induction xs)
  case (Cons x xs)
  then show ?case using adds_comp [of c "body x" "c * length xs" "for_loop xs body"] by simp
qed (simp add: adds_def)

lemma adds_loop0: "(\<And>x. adds 0 (body x)) \<Longrightarrow> adds 0 (for_loop xs body)"
  using adds_for_loop [of 0 body xs] by simp

lemma syncs_acc_loop:
  assumes "\<And>x s k n. (\<And>s. syncs (k s) n) \<Longrightarrow> syncs (body x s k) n" and "\<And>s. syncs (k s) n"
  shows "syncs (acc_loop xs body s k) n"
proof (induction xs arbitrary: s)
  case (Cons x xs)
  have "syncs (body x s (\<lambda>s. acc_loop xs body s k)) n" by (rule assms(1)) (rule Cons.IH)
  then show ?case by simp
qed (simp add: assms(2))

subsection \<open>The runtime\<close>

lemmas access_defs = flex_intra_cluster_sync_def flex_is_dm_core_def flex_is_first_core_def flex_annotate_barrier_def
  flex_get_cluster_id_def flex_get_barrier_num_cluster_x_def flex_get_barrier_num_cluster_y_def
  flex_get_enable_value_def flex_get_disable_value_def flex_amo_fetch_add_def flex_reset_barrier_def
  flex_wakeup_all_clusters_def cluster_wait_def flex_timer_start_def flex_timer_end_def flex_eoc_def
  flex_get_core_id_def

lemma adds_barrier: "adds 2 (barrier E)"
  by (rule addsI) (simp add: barrier_def flex_global_barrier_xy_def access_defs Let_def)

lemma syncs_reset_rows: "syncs (reset_rows A mid m y k) = syncs k"
  by (induction m arbitrary: y) (simp_all add: access_defs)

lemma adds_bring_up: "adds 5 (bring_up E)"
proof -
  have xy: "adds 1 (flex_barrier_xy_init A)" for A
    by (rule addsI) (simp add: flex_barrier_xy_init_def access_defs Let_def syncs_reset_rows)
  have heap: "adds 0 (flex_alloc_init A l h pl ph)" for A l h pl ph
    by (rule addsI) (simp add: flex_alloc_init_def access_defs Let_def)
  note bar = adds_barrier [unfolded barrier_def [abs_def]]
  show ?thesis using adds_comp [OF xy adds_comp [OF bar adds_comp [OF heap bar]]]
    by (simp add: bring_up_def [abs_def] Let_def)
qed

lemma syncs_who_am_i: "(\<And>cid core P dm. syncs (k cid core P dm) n) \<Longrightarrow> syncs (who_am_i E k) n"
  by (simp add: who_am_i_def access_defs)

lemma adds_timer: "adds 0 (flex_timer_start A)" "adds 0 (flex_timer_end A)" "adds 0 (flex_eoc A v)" "adds 0 (say f vs)"
  by (simp_all add: adds_def access_defs say_def)

lemma adds_timed: "adds c f \<Longrightarrow> adds c (timed E b f)"
  unfolding adds_def timed_def on_def access_defs by simp

lemma adds_Wr: "adds 0 (Wr a v)"
  by (simp add: adds_def)

lemma adds_dma:
  "adds 0 (\<lambda>k. bare_dma_start_1d d s n (\<lambda>_. bare_dma_wait_all k))"
  "adds 0 (\<lambda>k. bare_dma_start_2d d s n ds ss r (\<lambda>_. bare_dma_wait_all k))"
  "adds 0 (\<lambda>k. bare_dma_start_1d_broadcast d s n rm cm (\<lambda>_. bare_dma_wait_all k))"
  "adds 0 (\<lambda>k. flex_dma_async_broadcast A d s n rm cm (flex_dma_async_wait_all k))"
  by (simp_all add: adds_def bare_dma_start_1d_def bare_dma_start_2d_def bare_dma_start_1d_broadcast_def bare_dma_set_mask_def
      bare_dma_wait_all_def flex_dma_async_broadcast_def flex_dma_async_wait_all_def access_defs Let_def)

subsection \<open>Helpers and phases\<close>

lemmas adds_loops = adds_loop0 adds_Wr adds_id

lemma adds_helpers:
  "adds 0 (zero32 d n)" "adds 0 (dma_write_1d_to_hbm E h l b)" "adds 0 (dma_read_1d_from_hbm E l h b)"
  "adds 0 (dma_write_row E h l b)" "adds 0 (gather_2d E l h sz st r)" "adds 0 (scatter_2d E h l sz st r)"
  "adds 0 (fill_A_pattern E m n p)" "adds 0 (fill_B_pattern E m n p)"
  using adds_dma
  by (auto simp: zero32_def dma_write_1d_to_hbm_def [abs_def] dma_read_1d_from_hbm_def [abs_def] dma_write_row_def [abs_def]
      gather_2d_def [abs_def] scatter_2d_def [abs_def] fill_A_pattern_def fill_B_pattern_def intro!: adds_loops)

lemma syncs_addsum: "(\<And>v. syncs (k v) n) \<Longrightarrow> syncs (addsum_u32 p b k) n"
  unfolding addsum_u32_def by (rule syncs_acc_loop) simp_all

lemma adds_gemm: "adds 0 (gemm E m k n a b c)"
  unfolding gemm_def Let_def
proof (intro adds_loop0 addsI)
  fix i j rest n'
  assume "syncs rest n'"
  then show "syncs (gemm_dot E k n (a + 4 * (i * k)) b j (\<lambda>acc. Wr (c + 4 * (i * n) + 4 * j) acc rest)) (0 + n')"
    unfolding gemm_dot_def by (intro syncs_acc_loop) simp_all
qed

lemma syncs_malloc3: "(\<And>a b c. syncs (k a b c) n) \<Longrightarrow> syncs (l1_malloc3 sa sb sc err k) n"
  by (simp add: l1_malloc3_def)

lemmas syncs_pieces = adds_timer [THEN adds_step] adds_helpers [THEN adds_step] adds_gemm [THEN adds_step]
  syncs_addsum syncs_malloc3

lemma syncs_bench1_alloc: "(\<And>a b c. syncs (k a b c) n) \<Longrightarrow> syncs (bench1_alloc E w k) n"
  by (simp add: bench1_alloc_def Let_def) (intro impI syncs_pieces; simp)

lemma adds_bench1:
  "adds 0 (bench1_info i c)" "adds 0 (bench1_init E a b)" "adds 0 (bench1_read_back E a b)"
  "adds 0 (bench1_compute E a b c)" "adds 0 (bench1_store E c)"
proof -
  show "adds 0 (bench1_info i c)" unfolding bench1_info_def
    by (intro adds_on addsI) (simp add: say_def)
  show "adds 0 (bench1_init E a b)" "adds 0 (bench1_read_back E a b)" "adds 0 (bench1_compute E a b c)"
    "adds 0 (bench1_store E c)"
    unfolding bench1_init_def bench1_read_back_def bench1_compute_def bench1_store_def compute_2d_gemm_def Let_def
    by (rule addsI; intro syncs_pieces; simp)+
qed

lemma syncs_tile_alloc: "(\<And>a b c. syncs (k a b c) n) \<Longrightarrow> syncs (tile_alloc E w x k) n"
  by (simp add: tile_alloc_def Let_def) (intro impI syncs_pieces; simp)

lemma syncs_tile_compute: "(\<And>v. syncs (k v) n) \<Longrightarrow> syncs (tile_compute E w a b c k) n"
  by (simp add: tile_compute_def compute_gemm_tile_def) (intro impI syncs_pieces; simp)

lemma adds_tile:
  "adds 0 (tile_info title i c)" "adds 0 (tile_preload E)" "adds 0 (tile_read_B E b rx)" "adds 0 (bench3_load_A E a)"
proof -
  show "adds 0 (tile_info title i c)" unfolding tile_info_def
    by (intro adds_on addsI) (simp add: say_def)
  show "adds 0 (tile_preload E)" unfolding tile_preload_def Let_def
    by (rule addsI, simp) (intro allI impI syncs_pieces; simp)
  show "adds 0 (tile_read_B E b rx)" unfolding tile_read_B_def Let_def by (rule adds_helpers)
  show "adds 0 (bench3_load_A E a)" unfolding bench3_load_A_def [abs_def]
    using adds_comp [OF adds_helpers(3) adds_dma(3)] by simp
qed

text \<open>Rounds of a barrier, one cluster's turn, and perhaps a second barrier.\<close>

lemma adds_round:
  assumes "\<And>x. adds 0 (body x)"
  shows "adds (2 * length xs) (for_loop xs (\<lambda>x k. barrier E (on (c x) (body x) k)))"
    and "adds (4 * length xs) (for_loop xs (\<lambda>x k. barrier E (on (c x) (body x) (barrier E k))))"
proof -
  show "adds (2 * length xs) (for_loop xs (\<lambda>x k. barrier E (on (c x) (body x) k)))"
    using adds_comp [OF adds_barrier adds_on [OF assms]] by (intro adds_for_loop) simp
  have "adds 4 (\<lambda>k. barrier E (on (c x) (body x) (barrier E k)))" for x
    using adds_comp [OF adds_barrier adds_comp [OF adds_on [OF assms] adds_barrier]] by (simp add: numeral_eq_Suc)
  then show "adds (4 * length xs) (for_loop xs (\<lambda>x k. barrier E (on (c x) (body x) (barrier E k))))"
    by (rule adds_for_loop)
qed

lemma adds_phases:
  "adds 16 (bench2_data_in E w x a b)" "adds 10 (tile_checksums E w x sc)" "adds 16 (tile_data_out E w x c)"
  "adds 18 (bench3_data_in E f w x a b)"
proof -
  note tile = adds_round [where xs = "u32_range 0 4", unfolded u32_range_0_4, simplified, folded u32_range_0_4]
  have "adds 0 (\<lambda>k. dma_read_1d_from_hbm E a h n (tile_read_B E b rx k))" for h n rx
    using adds_comp [OF adds_helpers(3) adds_tile(3)] by simp
  then show "adds 16 (bench2_data_in E w x a b)" unfolding bench2_data_in_def by (rule tile(2))
  show "adds 16 (tile_data_out E w x c)" unfolding tile_data_out_def Let_def by (rule tile(2)) (rule adds_helpers)
  show "adds 10 (tile_checksums E w x sc)" unfolding tile_checksums_def [abs_def]
    using adds_comp [OF tile(1) adds_barrier] adds_timer(4) by (simp add: numeral_eq_Suc)
  show "adds 18 (bench3_data_in E f w x a b)" unfolding bench3_data_in_def [abs_def]
    using adds_comp [OF adds_on [OF adds_tile(4)] adds_comp [OF adds_barrier tile(2)]] adds_tile(3) by simp
qed

lemma syncs_tile_done: "syncs (tile_done E msg i c) 0"
  unfolding tile_done_def by (rule adds_step [OF adds_on [OF adds_timer(4)]]) (simp_all add: access_defs)

text \<open>The grid programs.\<close>

lemma syncs_grid_alloc: "(\<And>a b c. syncs (k a b c) n) \<Longrightarrow> syncs (grid_alloc E dm err k) n"
  by (simp add: grid_alloc_def Let_def) (intro impI syncs_pieces; simp)

lemma adds_init_rows: "adds 0 (init_A_rows E r)" "adds 0 (init_B_rows E r)"
proof -
  show "adds 0 (init_A_rows E r)" unfolding init_A_rows_def
    using adds_comp [OF adds_loop0 [OF adds_Wr] adds_helpers(4)] by (intro adds_loop0) simp
  show "adds 0 (init_B_rows E r)" unfolding init_B_rows_def
    by (rule adds_loop0) (rule adds_comp [OF adds_loop0 [OF adds_Wr] adds_comp [OF adds_on [OF adds_Wr] adds_helpers(4)],
      unfolded add_0])
qed

lemma adds_init_hbm:
  assumes "adds 0 failed" and "adds 0 ready"
  shows "adds 0 (init_hbm_AB_fair_via_dma E failed ready)"
  using assms(1) adds_comp [OF adds_init_rows(1) adds_comp [OF adds_init_rows(2) assms(2)]]
  by (simp add: adds_def init_hbm_AB_fair_via_dma_def access_defs Let_def)

lemma adds_strips: "adds 0 (load_A_strip E a r)" "adds 0 (load_B_strip E b c)" "adds 0 (store_C_tile E c off)"
  "adds 0 (sum_strip E n off)"
proof -
  show "adds 0 (load_A_strip E a r)" "adds 0 (load_B_strip E b c)" "adds 0 (store_C_tile E c off)"
    unfolding load_A_strip_def [abs_def] load_B_strip_def store_C_tile_def Let_def
    by (rule adds_dma adds_helpers)+
  show "adds 0 (sum_strip E n off)" unfolding sum_strip_def by (rule addsI) (rule syncs_addsum, simp)
qed

lemma adds_both_strips:
  "adds 0 (\<lambda>k. load_A_strip E a y (sum_strip E m a (load_B_strip E b x (sum_strip E n b k))))"
  using adds_strips by (simp add: adds_def)

lemma syncs_grid_compute: "(\<And>v. syncs (k v) n) \<Longrightarrow> syncs (grid_compute E dm P a b c k) n"
  by (simp add: grid_compute_def matmul_64x256_256x64_def Let_def) (intro impI syncs_pieces; simp)

lemma adds_sweep:
  assumes "\<And>y x. adds 0 (body y x)"
  shows "adds 64 (sweep E dm P body)"
proof -
  have "adds 16 (for_loop (u32_range 0 4) (\<lambda>rx k. barrier E (on (dm \<and> pos_y P = ry \<and> pos_x P = rx) (body ry rx) (barrier E k))))" for ry
    using adds_round(2) [OF assms, of "u32_range 0 4"] by (simp add: u32_range_0_4)
  from adds_for_loop [OF this, of "u32_range 0 4"] show ?thesis by (simp add: sweep_def u32_range_0_4)
qed

lemma adds_leaders:
  "(\<And>o'. adds 0 (fa o')) \<Longrightarrow> (\<And>o'. adds 0 (fb o')) \<Longrightarrow> adds 18 (leaders_load E dm P a b fa fb)"
  "adds 18 (leaders_broadcast E dm P a b)"
proof -
  note four = adds_round(1) [where xs = "u32_range 0 4", unfolded u32_range_0_4, simplified, folded u32_range_0_4]
  show "adds 18 (leaders_load E dm P a b fa fb)" if "\<And>o'. adds 0 (fa o')" "\<And>o'. adds 0 (fb o')"
    unfolding leaders_load_def [abs_def]
    using adds_comp [OF four adds_comp [OF adds_barrier four]] adds_comp [OF adds_strips(1) that(1)]
      adds_comp [OF adds_strips(2) that(2)]
    by simp
  show "adds 18 (leaders_broadcast E dm P a b)" unfolding leaders_broadcast_def [abs_def]
    using adds_comp [OF four adds_comp [OF adds_barrier four]] adds_dma(4) by simp
qed

lemma syncs_grid_done: "syncs (grid_done E msg i c) 0"
  unfolding grid_done_def by (rule adds_step [OF adds_on [OF adds_timer(4)]]) (simp_all add: access_defs)

subsection \<open>The programs\<close>

lemmas sync_points = adds_barrier adds_timed [OF adds_barrier] adds_on [OF adds_timer(1)] adds_on [OF adds_timer(2)]
lemmas phases1 = adds_bench1(1) adds_bench1(2-5) [THEN adds_on]
lemmas phases2 = adds_tile(1) adds_tile(2) [THEN adds_on] adds_phases(2) adds_phases(1,3,4) [THEN adds_timed]
lemmas phases4 = adds_init_hbm [OF adds_timer(4) adds_timer(4)] adds_init_hbm [OF adds_id(2) adds_id(2)]
  adds_timed [OF adds_leaders(2)] adds_timed [OF adds_leaders(1) [OF adds_id(2) adds_id(2)]]
  adds_timed [OF adds_leaders(1) [OF adds_strips(4) adds_strips(4)]]
  adds_timed [OF adds_sweep [OF adds_comp [OF adds_strips(1,2), unfolded add_0]]]
  adds_timed [OF adds_sweep [OF adds_strips(3)]] adds_timed [OF adds_on [OF adds_strips(3)]]
  adds_timed [OF adds_on [OF adds_both_strips]]

lemmas main_steps = sync_points [THEN adds_step] phases1 [THEN adds_step] phases2 [THEN adds_step] phases4 [THEN adds_step]
  adds_bring_up [THEN adds_step] adds_timer [THEN adds_step] syncs_who_am_i syncs_bench1_alloc syncs_tile_alloc
  syncs_tile_compute syncs_grid_alloc syncs_grid_compute

text \<open>C13: In each benchmark program every core of every cluster passes the same number of core
  synchronisations (one for the initialisation of the barrier and two for each global barrier), on
  every path on which no allocation fails.\<close>

theorem programs_synchronise:
  "syncs (bench1_main E) (1 + 2 * 8) \<and> syncs (bench2_main E) (1 + 2 * 29) \<and> syncs (bench3_main E) (1 + 2 * 30)
    \<and> syncs (bench4_main E) (1 + 2 * 71) \<and> syncs (bench5_main E) (1 + 2 * 27)
    \<and> syncs (load_main E) (1 + 2 * 24) \<and> syncs (load_nonextend_main E) (1 + 2 * 5)"
proof (intro conjI)
  show "syncs (bench1_main E) (1 + 2 * 8)"
    unfolding bench1_main_def Let_def by (intro main_steps; simp)
  show "syncs (bench2_main E) (1 + 2 * 29)"
    unfolding bench2_main_def Let_def by (intro main_steps; simp add: syncs_tile_done)
  show "syncs (bench3_main E) (1 + 2 * 30)"
    unfolding bench3_main_def Let_def by (intro main_steps; simp add: syncs_tile_done)
  show "syncs (bench4_main E) (1 + 2 * 71)"
    unfolding bench4_main_def Let_def by (intro main_steps; simp add: syncs_grid_done)
  show "syncs (bench5_main E) (1 + 2 * 27)"
    unfolding bench5_main_def Let_def by (intro main_steps; simp add: syncs_grid_done)
  show "syncs (load_main E) (1 + 2 * 24)"
    unfolding load_main_def Let_def by (intro main_steps; simp)
  show "syncs (load_nonextend_main E) (1 + 2 * 5)"
    unfolding load_nonextend_main_def Let_def by (intro main_steps; simp)
qed

end
