(* ===== verification/App_Broadcast.thy ===== *)
theory App_Broadcast
  imports App_Grid Flex_DMA_Props
begin

text \<open>
  Which clusters the broadcasts of \<open>benchmark_5\<close> and \<open>main_load\<close> reach.  A collective transfer carries
  its two masks to the routers, which deliver it where \<open>check_target\<close> holds: the row mask selects the
  bits of the x coordinate that must agree with the sender, the column mask those of y.
\<close>

definition delivered :: "arch \<Rightarrow> nat \<Rightarrow> transfer \<Rightarrow> nat \<Rightarrow> bool" where
  "delivered A source t c =
     (case t of Collective op row col dst src n \<Rightarrow> op = 1 \<and> check_target A c source (ucast row) (ucast col) | _ \<Rightarrow> False)"

lemma transfers_broadcast:
  "transfers A cid r (flex_dma_async_broadcast A dst src n row col (flex_dma_async_wait_all Halt)) =
     [Collective 1 row col (remote_pos64 A (get_pos A cid) dst) (local64 A src) n, Wait_All]"
  by (simp add: transfers_def flex_dma_async_broadcast_def flex_dma_async_wait_all_def flex_get_cluster_id_def dma_starts
      dma_consts dma_step)

lemma one_hot: "r < 4 \<Longrightarrow> (ucast (ucast (mask_row (of_nat r)) :: u8) :: u32) = 2 ^ r"
  "r < 4 \<Longrightarrow> (ucast (ucast (mask_col (of_nat r)) :: u8) :: u32) = 2 ^ r"
  "(ucast (ucast mask_all4 :: u8) :: u32) = 15"
proof -
  show "(ucast (ucast (mask_row (of_nat r)) :: u8) :: u32) = 2 ^ r" if "r < 4"
  proof -
    have "r \<in> {0, 1, 2, 3}" using that by auto
    then show ?thesis by (auto simp: mask_row_def)
  qed
  then show "r < 4 \<Longrightarrow> (ucast (ucast (mask_col (of_nat r)) :: u8) :: u32) = 2 ^ r"
    by (simp add: mask_row_def mask_col_def)
  show "(ucast (ucast mask_all4 :: u8) :: u32) = 15" by (simp add: mask_all4_def)
qed

text \<open>C24: The masks of \<open>mask_row\<close> and \<open>mask_col\<close> do not select a row or a column.  The broadcast of A by
  the leader of row \<open>r\<close> reaches the cluster \<open>(x, y)\<close> exactly when \<open>y = r\<close> and bit \<open>r\<close> of \<open>x\<close> is 0, and the
  broadcast of B by the leader of column \<open>r\<close> reaches it exactly when \<open>x = r\<close> and bit \<open>r\<close> of \<open>y\<close> is 0: so
  clusters 1 and 3 of row 0 and clusters 2 and 3 of row 1 never receive A.\<close>

theorem broadcast_reach:
  assumes "r < 4" and "x < 4" and "y < 4"
  shows "(\<exists>t. transfers arch_default (of_nat (4 * r)) regs
          (flex_dma_async_broadcast arch_default off off BYTES_A_STRIP (mask_row (of_nat r)) mask_all4
             (flex_dma_async_wait_all Halt)) = [t, Wait_All]
        \<and> (delivered arch_default (4 * r) t (4 * y + x) \<longleftrightarrow> y = r \<and> even (x div 2 ^ r)))
    \<and> (\<exists>t. transfers arch_default (of_nat r) regs
          (flex_dma_async_broadcast arch_default off off BYTES_B_STRIP mask_all4 (mask_col (of_nat r))
             (flex_dma_async_wait_all Halt)) = [t, Wait_All]
        \<and> (delivered arch_default r t (4 * y + x) \<longleftrightarrow> x = r \<and> even (y div 2 ^ r)))"
proof -
  have "r \<in> {0, 1, 2, 3}" "x \<in> {0, 1, 2, 3}" "y \<in> {0, 1, 2, 3}" using assms by auto
  then have "check_target arch_default (4 * y + x) (4 * r) (ucast (mask_row (of_nat r))) (ucast mask_all4) \<longleftrightarrow>
      y = r \<and> even (x div 2 ^ r)"
    "check_target arch_default (4 * y + x) r (ucast mask_all4) (ucast (mask_col (of_nat r))) \<longleftrightarrow>
      x = r \<and> even (y div 2 ^ r)"
    unfolding check_target_def one_hot(1,2) [OF assms(1)] one_hot(3) by (auto simp: num_x_def)
  then show ?thesis by (simp add: transfers_broadcast delivered_def)
qed

theorem broadcast_reach_witness:
  "\<exists>t. transfers arch_default 0 \<lparr>r_src = 0, r_dst = 0, r_src_stride = 0, r_dst_stride = 0, r_reps = 0, r_mask = 0\<rparr>
      (flex_dma_async_broadcast arch_default 64 64 BYTES_A_STRIP (mask_row 0) mask_all4 (flex_dma_async_wait_all Halt)) =
        [t, Wait_All] \<and> \<not> delivered arch_default 0 t 1"
  using broadcast_reach [of 0 1 0 "\<lparr>r_src = 0, r_dst = 0, r_src_stride = 0, r_dst_stride = 0, r_reps = 0, r_mask = 0\<rparr>" 64]
  by auto

end
