(* ===== verification/App_Redmule.thy ===== *)
theory App_Redmule
  imports App_Solo Flex_Redmule
begin

text \<open>
  \<open>example_one_cluster_gemm.h\<close> and the \<open>main.c\<close> that runs it: a matrix product of 1024 by 1024 half
  precision elements by one cluster, tile by tile.  The DM core loads the next tiles of X and W while
  the first core has the matrix engine work on the current ones (double buffering); the cores meet at
  the synchronisation of the cluster.
\<close>

subsection \<open>The program\<close>

definition ELEM_SIZE :: u32 where "ELEM_SIZE = 2"
definition GEMM_DIMENSION :: u32 where "GEMM_DIMENSION = 1024"
definition GEMM_SIZE_BYTE :: u32 where "GEMM_SIZE_BYTE = GEMM_DIMENSION * GEMM_DIMENSION * ELEM_SIZE"
definition TILE_DIMENSION :: u32 where "TILE_DIMENSION = 256"
definition TILE_SIZE_BYTE :: u32 where "TILE_SIZE_BYTE = TILE_DIMENSION * TILE_DIMENSION * ELEM_SIZE"
definition TILES_PER_DIM :: u32 where "TILES_PER_DIM = GEMM_DIMENSION div TILE_DIMENSION"
definition X_HBM_OFFSET :: u32 where "X_HBM_OFFSET = 0"
definition W_HBM_OFFSET :: u32 where "W_HBM_OFFSET = X_HBM_OFFSET + GEMM_SIZE_BYTE"
definition Y_HBM_OFFSET :: u32 where "Y_HBM_OFFSET = W_HBM_OFFSET + GEMM_SIZE_BYTE"
definition Z_HBM_OFFSET :: u32 where "Z_HBM_OFFSET = Y_HBM_OFFSET + GEMM_SIZE_BYTE"
definition X_L1_OFFSET1 :: u32 where "X_L1_OFFSET1 = 0"
definition W_L1_OFFSET1 :: u32 where "W_L1_OFFSET1 = X_L1_OFFSET1 + TILE_SIZE_BYTE"
definition X_L1_OFFSET2 :: u32 where "X_L1_OFFSET2 = W_L1_OFFSET1 + TILE_SIZE_BYTE"
definition W_L1_OFFSET2 :: u32 where "W_L1_OFFSET2 = X_L1_OFFSET2 + TILE_SIZE_BYTE"
definition YZ_L1_OFFSET :: u32 where "YZ_L1_OFFSET = W_L1_OFFSET2 + TILE_SIZE_BYTE"

definition load_tile :: "arch \<Rightarrow> u32 \<Rightarrow> u32 \<Rightarrow> io \<Rightarrow> io" where
  "load_tile A l1 hbm k = flex_dma_async_1d (ucast (local_addr A l1)) (hbm_addr A hbm) TILE_SIZE_BYTE k"

definition engine_run :: "arch \<Rightarrow> u32 \<Rightarrow> u32 \<Rightarrow> io \<Rightarrow> io" where
  "engine_run A x w k = flex_redmule_trigger x w YZ_L1_OFFSET REDMULE_FP_16 (flex_redmule_wait A (\<lambda>_. k))"

text \<open>The three operands of a tile of Z.\<close>

definition preload_tiles :: "arch \<Rightarrow> u32 \<Rightarrow> u32 \<Rightarrow> u32 \<Rightarrow> io \<Rightarrow> io" where
  "preload_tiles A X Y W k =
     flex_is_dm_core A (\<lambda>dm.
       (if dm then \<lambda>k. load_tile A YZ_L1_OFFSET Y (load_tile A X_L1_OFFSET1 X (load_tile A W_L1_OFFSET1 W
          (flex_dma_async_wait_all k))) else id)
       (flex_intra_cluster_sync k))"

text \<open>One step of the ping-pong: \<open>x\<close>, \<open>w\<close> are the buffers to compute on, \<open>x'\<close>, \<open>w'\<close> those to fill.\<close>

definition ping_pong :: "arch \<Rightarrow> u32 \<Rightarrow> u32 \<Rightarrow> u32 \<Rightarrow> u32 \<Rightarrow> u32 \<Rightarrow> u32 \<Rightarrow> io \<Rightarrow> io" where
  "ping_pong A x w x' w' X W k =
     flex_is_dm_core A (\<lambda>dm.
       (if dm then \<lambda>k. load_tile A x' X (load_tile A w' W (flex_dma_async_wait_all k)) else id)
       (flex_is_first_core (\<lambda>first. (if first then engine_run A x w else id) k)))"

definition gemm_steps :: "arch \<Rightarrow> u32 \<Rightarrow> u32 \<Rightarrow> io \<Rightarrow> io" where
  "gemm_steps A X W k =
     acc_loop (u32_range 0 (TILES_PER_DIM - 1)) (\<lambda>i (X, W) k.
       let X = X + TILE_SIZE_BYTE; W = W + TILES_PER_DIM * TILE_SIZE_BYTE in
       (if i mod 2 = 0 then ping_pong A X_L1_OFFSET1 W_L1_OFFSET1 X_L1_OFFSET2 W_L1_OFFSET2 X W
        else ping_pong A X_L1_OFFSET2 W_L1_OFFSET2 X_L1_OFFSET1 W_L1_OFFSET1 X W)
       (flex_intra_cluster_sync (k (X, W)))) (X, W) (\<lambda>_. k)"

definition gemm_tile :: "arch \<Rightarrow> u32 \<Rightarrow> u32 \<Rightarrow> io \<Rightarrow> io" where
  "gemm_tile A row col k =
     (let X_hbm_addr = X_HBM_OFFSET + row * TILES_PER_DIM * TILE_SIZE_BYTE;
          W_hbm_addr = W_HBM_OFFSET + col * TILE_SIZE_BYTE;
          Y_hbm_addr = Y_HBM_OFFSET + row * TILES_PER_DIM * TILE_SIZE_BYTE + col * TILE_SIZE_BYTE;
          Z_hbm_addr = Z_HBM_OFFSET + row * TILES_PER_DIM * TILE_SIZE_BYTE + col * TILE_SIZE_BYTE in
      preload_tiles A X_hbm_addr Y_hbm_addr W_hbm_addr
      (gemm_steps A X_hbm_addr W_hbm_addr
      (flex_is_first_core (\<lambda>first.
        (if first then engine_run A X_L1_OFFSET2 W_L1_OFFSET2 else id)
        (flex_intra_cluster_sync
        (flex_is_dm_core A (\<lambda>dm.
          (if dm then \<lambda>k. flex_dma_async_1d (hbm_addr A Z_hbm_addr) (ucast (local_addr A YZ_L1_OFFSET)) TILE_SIZE_BYTE
             (flex_dma_async_wait_all k) else id)
          (flex_intra_cluster_sync k))))))))"

definition gemm_tiles :: "arch \<Rightarrow> io \<Rightarrow> io" where
  "gemm_tiles A =
     for_loop (u32_range 0 TILES_PER_DIM) (\<lambda>row. for_loop (u32_range 0 TILES_PER_DIM) (\<lambda>col. gemm_tile A row col))"

definition example_one_cluster_gemm :: "arch \<Rightarrow> io \<Rightarrow> io" where
  "example_one_cluster_gemm A k =
     flex_global_barrier_xy A (flex_get_cluster_id A (\<lambda>CID. flex_is_first_core (\<lambda>first.
     (if first \<and> CID = 0 then flex_redmule_config (ucast TILE_DIMENSION) (ucast TILE_DIMENSION) (ucast TILE_DIMENSION) else id)
     (flex_global_barrier_xy A
     ((if CID = 0 then gemm_tiles A else id)
     (flex_global_barrier_xy A k))))))"

text \<open>\<open>main.c\<close>: the timer is started and stopped by the first core of the first cluster.\<close>

definition first_of_all :: "arch \<Rightarrow> (io \<Rightarrow> io) \<Rightarrow> io \<Rightarrow> io" where
  "first_of_all A f k =
     flex_get_core_id (\<lambda>core. if core = 0 then flex_get_cluster_id A (\<lambda>cid. if cid = 0 then f k else k) else k)"

definition gemm_main :: "arch \<Rightarrow> io" where
  "gemm_main A =
     flex_barrier_xy_init A (flex_global_barrier_xy A (first_of_all A (flex_timer_start A)
     (example_one_cluster_gemm A
     (flex_global_barrier_xy A (first_of_all A (flex_timer_end A) (flex_global_barrier_xy A
     (flex_eoc A 0 Halt)))))))"

text \<open>\<open>main_timer.c\<close>; the busy loop works on a local variable only.\<close>

definition main_timer :: "arch \<Rightarrow> io" where
  "main_timer A =
     flex_barrier_xy_init A (flex_global_barrier_xy A
     (flex_get_cluster_id A (\<lambda>cid. flex_get_core_id (\<lambda>core.
      let P = get_pos A cid; master = pos_x P = 0 \<and> pos_y P = 0 \<and> core = 0 in
      (if master then flex_timer_start A else id) ((if master then flex_timer_end A else id)
      (flex_global_barrier_xy A (flex_eoc A 0 Halt)))))))"

end
