(* ===== verification/App_Redmule_Props.thy ===== *)
theory App_Redmule_Props
  imports App_Redmule "HOL-Library.Multiset"
begin

text \<open>
  The double buffering of \<open>example_one_cluster_gemm\<close> is free of races and computes the product.  The
  synchronisations of the cluster cut the work of each core into phases; within a phase the transfers
  and the engine may proceed in any order.  The memory is looked at tile by tile, and what the engine
  does to a tile is the parameter \<open>mac\<close>.
\<close>

subsection \<open>Phases of a core\<close>

datatype act = Move u64 u64 u32 | Engine u32 u32 u32

definition insn_acts :: "dma_regs \<Rightarrow> u32 \<Rightarrow> u32 list \<Rightarrow> act list" where
  "insn_acts r w rs =
     (if opcode_of w = 0x2A then [Engine (rs ! 0) (rs ! 1) (rs ! 2)]
      else concat (map (\<lambda>t. case t of Copy_1D d s n \<Rightarrow> [Move d s n] | _ \<Rightarrow> []) (dma_request r [(w, rs)])))"

fun add_first :: "'a list \<Rightarrow> 'a list list \<Rightarrow> 'a list list" where
  "add_first as [] = [as]"
| "add_first as (p # ps) = (as @ p) # ps"

text \<open>What a core starts between two synchronisations; the result of the status register is not used
  by the program, and loads return 0 here.\<close>

primrec phases :: "u32 \<Rightarrow> io \<Rightarrow> dma_regs \<Rightarrow> act list list" where
  "phases core Halt = (\<lambda>r. [[]])"
| "phases core (Rd a k) = phases core (k 0)"
| "phases core (Wr a v k) = phases core k"
| "phases core (Amo a v k) = phases core (k 0)"
| "phases core (Spin a v k) = phases core k"
| "phases core (Csr_Hartid k) = phases core (k core)"
| "phases core (Csr_Sync k) = (\<lambda>r. [] # phases core k r)"
| "phases core (Insn w rs k) = (\<lambda>r. add_first (insn_acts r w rs) (phases core (k 0) (set_regs r w rs)))"
| "phases core (Poll w k) = phases core k"
| "phases core (Heap_Init b base sz k) = phases core k"
| "phases core (Malloc b sz k) = phases core (k 0)"
| "phases core (Free b p k) = phases core k"
| "phases core (Printf l k) = phases core k"
| "phases core (Tick k) = phases core k"

lemma add_first_Nil [simp]: "ps \<noteq> [] \<Longrightarrow> add_first [] ps = ps"
  by (cases ps) auto

lemma add_first_twice [simp]: "add_first as (add_first bs ps) = add_first (as @ bs) ps"
  by (cases ps) auto

lemma phases_not_Nil [simp]: "phases core p r \<noteq> []"
proof (induction p arbitrary: r)
  case (Insn w rs k)
  then show ?case by (cases "phases core (k 0) (set_regs r w rs)") auto
qed auto

lemma dma_opcode:
  assumes "f7 < 128" and "cfg < 32" and "rs1 < 32" and "rd < 32"
  shows "opcode_of (R_TYPE_ENCODE f7 cfg rs1 0 rd 43) = 43"
  using encode_fields(6) [of f7 cfg rs1 0 rd 43] assms
    take_bit_small [of f7 7] take_bit_small [of cfg 5] take_bit_small [of rs1 5] take_bit_small [of rd 5]
  by simp

lemma phases_move:
  "phases core (flex_dma_async_1d d s n k) r = add_first [Move d s n] (phases core k (r\<lparr>r_src := s, r_dst := d\<rparr>))"
  by (simp add: flex_dma_async_1d_def bare_dma_start_1d_def insn_acts_def set_regs_def dma_consts dma_step dma_opcode)

lemma phases_engine:
  "\<exists>r'. phases core (engine_run A x w k) r = add_first [Engine x w YZ_L1_OFFSET] (phases core k r')"
  by (simp add: engine_run_def flex_redmule_trigger_def flex_redmule_wait_def insn_acts_def redmule_word_def opcode_of_def)
    blast

lemma phases_wait: "phases core (flex_dma_async_wait_all k) r = phases core k r"
  by (simp add: flex_dma_async_wait_all_def bare_dma_wait_all_def)

subsection \<open>The phases of a tile\<close>

definition dm_acts :: "u32 \<Rightarrow> act list \<Rightarrow> act list" where "dm_acts core as = (if core = 2 then as else [])"
definition first_acts :: "u32 \<Rightarrow> act list \<Rightarrow> act list" where "first_acts core as = (if core = 0 then as else [])"

definition move_in :: "u32 \<Rightarrow> u32 \<Rightarrow> act" where
  "move_in l1 hbm = Move (ucast (local_addr arch_default l1)) (hbm_addr arch_default hbm) TILE_SIZE_BYTE"

definition move_out :: "u32 \<Rightarrow> u32 \<Rightarrow> act" where
  "move_out hbm l1 = Move (hbm_addr arch_default hbm) (ucast (local_addr arch_default l1)) TILE_SIZE_BYTE"

definition step_acts :: "u32 \<Rightarrow> u32 \<Rightarrow> u32 \<Rightarrow> u32 \<Rightarrow> u32 \<Rightarrow> u32 \<Rightarrow> u32 \<Rightarrow> act list" where
  "step_acts core x w x' w' X W = dm_acts core [move_in x' X, move_in w' W] @ first_acts core [Engine x w YZ_L1_OFFSET]"

definition tile_phases :: "u32 \<Rightarrow> u32 \<Rightarrow> u32 \<Rightarrow> act list list" where
  "tile_phases core row col =
     (let X = X_HBM_OFFSET + row * TILES_PER_DIM * TILE_SIZE_BYTE; W = W_HBM_OFFSET + col * TILE_SIZE_BYTE;
          Y = Y_HBM_OFFSET + row * TILES_PER_DIM * TILE_SIZE_BYTE + col * TILE_SIZE_BYTE;
          Z = Z_HBM_OFFSET + row * TILES_PER_DIM * TILE_SIZE_BYTE + col * TILE_SIZE_BYTE;
          dX = TILE_SIZE_BYTE; dW = TILES_PER_DIM * TILE_SIZE_BYTE in
      [dm_acts core [move_in YZ_L1_OFFSET Y, move_in X_L1_OFFSET1 X, move_in W_L1_OFFSET1 W],
       step_acts core X_L1_OFFSET1 W_L1_OFFSET1 X_L1_OFFSET2 W_L1_OFFSET2 (X + dX) (W + dW),
       step_acts core X_L1_OFFSET2 W_L1_OFFSET2 X_L1_OFFSET1 W_L1_OFFSET1 (X + dX + dX) (W + dW + dW),
       step_acts core X_L1_OFFSET1 W_L1_OFFSET1 X_L1_OFFSET2 W_L1_OFFSET2 (X + dX + dX + dX) (W + dW + dW + dW),
       first_acts core [Engine X_L1_OFFSET2 W_L1_OFFSET2 YZ_L1_OFFSET],
       dm_acts core [move_out Z YZ_L1_OFFSET]])"

text \<open>A piece of a program whose phases are known: they come before those of the rest.\<close>

definition emits :: "u32 \<Rightarrow> (io \<Rightarrow> io) \<Rightarrow> act list list \<Rightarrow> bool" where
  "emits core f ps = (\<forall>k r. \<exists>r'. phases core (f k) r = ps @ phases core k r')"

definition starts :: "u32 \<Rightarrow> (io \<Rightarrow> io) \<Rightarrow> act list \<Rightarrow> bool" where
  "starts core f as = (\<forall>k r. \<exists>r'. phases core (f k) r = add_first as (phases core k r'))"

lemma starts_id: "starts core (\<lambda>k. k) []" "starts core id []"
  unfolding starts_def by (metis add_first_Nil phases_not_Nil id_apply)+

lemma starts_comp: "starts core f as \<Longrightarrow> starts core g bs \<Longrightarrow> starts core (\<lambda>k. f (g k)) (as @ bs)"
  unfolding starts_def by (metis add_first_twice)

lemma emits_comp: "emits core f ps \<Longrightarrow> emits core g qs \<Longrightarrow> emits core (\<lambda>k. f (g k)) (ps @ qs)"
  unfolding emits_def by (metis append_assoc)

lemma emits_sync:
  assumes "starts core f as"
  shows "emits core (\<lambda>k. f (Csr_Sync k)) [as]"
  unfolding emits_def
proof (intro allI)
  fix k r
  obtain r' where "phases core (f (Csr_Sync k)) r = add_first as (phases core (Csr_Sync k) r')"
    using assms unfolding starts_def by blast
  then show "\<exists>r'. phases core (f (Csr_Sync k)) r = [as] @ phases core k r'" by auto
qed

lemma starts_load: "starts core (load_tile arch_default l1 hbm) [move_in l1 hbm]"
  unfolding starts_def load_tile_def move_in_def phases_move by blast

lemma starts_wait: "starts core flex_dma_async_wait_all []"
  unfolding starts_def phases_wait by (metis add_first_Nil phases_not_Nil)

lemma starts_engine: "starts core (engine_run arch_default x w) [Engine x w YZ_L1_OFFSET]"
  unfolding starts_def by (blast intro: phases_engine)

lemma starts_dm:
  assumes "starts core f as" and "starts core g bs"
  shows "starts core (\<lambda>k. flex_is_dm_core arch_default (\<lambda>dm. (if dm then f else id) (g k))) (dm_acts core as @ bs)"
  using starts_comp [OF assms] assms(2) by (auto simp: starts_def flex_is_dm_core_def dm_acts_def)

lemma starts_first:
  assumes "starts core f as" and "starts core g bs"
  shows "starts core (\<lambda>k. flex_is_first_core (\<lambda>first. (if first then f else id) (g k))) (first_acts core as @ bs)"
  using starts_comp [OF assms] assms(2) by (auto simp: starts_def flex_is_first_core_def first_acts_def)

lemma starts_ping_pong: "starts core (ping_pong arch_default x w x' w' X W) (step_acts core x w x' w' X W)"
proof -
  note first = starts_first [OF starts_engine starts_id(1)]
  note loads = starts_comp [OF starts_load starts_comp [OF starts_load starts_wait]]
  show ?thesis using starts_dm [OF loads first]
    by (simp add: ping_pong_def [abs_def] step_acts_def)
qed

lemma emits_gemm_steps:
  fixes X W :: u32
  defines "dX \<equiv> TILE_SIZE_BYTE" and "dW \<equiv> TILES_PER_DIM * TILE_SIZE_BYTE"
  shows "emits core (gemm_steps arch_default X W)
    [step_acts core X_L1_OFFSET1 W_L1_OFFSET1 X_L1_OFFSET2 W_L1_OFFSET2 (X + dX) (W + dW),
     step_acts core X_L1_OFFSET2 W_L1_OFFSET2 X_L1_OFFSET1 W_L1_OFFSET1 (X + dX + dX) (W + dW + dW),
     step_acts core X_L1_OFFSET1 W_L1_OFFSET1 X_L1_OFFSET2 W_L1_OFFSET2 (X + dX + dX + dX) (W + dW + dW + dW)]"
proof -
  have three: "u32_range 0 (TILES_PER_DIM - 1) = [0, 1, 2]"
    by (simp add: TILES_PER_DIM_def GEMM_DIMENSION_def TILE_DIMENSION_def u32_range_def upt_rec)
  note step = emits_sync [OF starts_ping_pong, folded flex_intra_cluster_sync_def]
  show ?thesis using emits_comp [OF step emits_comp [OF step step]]
    by (simp add: gemm_steps_def [abs_def] three Let_def dX_def dW_def)
qed

lemma emits_gemm_tile: "emits core (gemm_tile arch_default row col) (tile_phases core row col)"
proof -
  note loads = starts_comp [OF starts_load starts_comp [OF starts_load starts_comp [OF starts_load starts_wait]]]
  note pre = emits_sync [OF starts_dm [OF loads starts_id(1)], folded flex_intra_cluster_sync_def]
  have out: "starts core (\<lambda>k. flex_dma_async_1d (hbm_addr arch_default Z) (ucast (local_addr arch_default YZ_L1_OFFSET)) TILE_SIZE_BYTE
      (flex_dma_async_wait_all k)) [move_out Z YZ_L1_OFFSET]" for Z
    unfolding starts_def move_out_def phases_move phases_wait by blast
  note post = emits_sync [OF starts_dm [OF out starts_id(1)], folded flex_intra_cluster_sync_def]
  note last = emits_sync [OF starts_first [OF starts_engine starts_id(1)], folded flex_intra_cluster_sync_def]
  show ?thesis
    using emits_comp [OF pre emits_comp [OF emits_gemm_steps emits_comp [OF last post]]]
    by (simp add: gemm_tile_def [abs_def] tile_phases_def preload_tiles_def Let_def)
qed

subsection \<open>Waiting\<close>

text \<open>\<open>waits core p d e\<close>: \<open>p\<close> reaches no synchronisation while a transfer (\<open>d\<close>) or a computation of the
  engine (\<open>e\<close>) it has started is still outstanding.  The load of the status register returns when the
  engine is done.\<close>

primrec waits :: "u32 \<Rightarrow> io \<Rightarrow> bool \<Rightarrow> bool \<Rightarrow> bool" where
  "waits core Halt = (\<lambda>d e. \<not> d \<and> \<not> e)"
| "waits core (Rd a k) = (\<lambda>d e. waits core (k 0) d (e \<and> a \<noteq> ARCH_REDMULE_REG_BASE arch_default + 40))"
| "waits core (Wr a v k) = waits core k"
| "waits core (Amo a v k) = waits core (k 0)"
| "waits core (Spin a v k) = waits core k"
| "waits core (Csr_Hartid k) = waits core (k core)"
| "waits core (Csr_Sync k) = (\<lambda>d e. \<not> d \<and> \<not> e \<and> waits core k d e)"
| "waits core (Insn w rs k) = (\<lambda>d e. waits core (k 0)
     (d \<or> opcode_of w = OP_CUSTOM1 \<and> funct7_of w \<in> {DMCPYI_FUNCT7, DMCPYC_FUNCT7}) (e \<or> opcode_of w = 0x2A))"
| "waits core (Poll w k) = (\<lambda>d e. waits core k (d \<and> funct7_of w \<noteq> DMSTATI_FUNCT7) e)"
| "waits core (Heap_Init b base sz k) = waits core k"
| "waits core (Malloc b sz k) = waits core (k 0)"
| "waits core (Free b p k) = waits core k"
| "waits core (Printf l k) = waits core k"
| "waits core (Tick k) = waits core k"

definition settles :: "u32 \<Rightarrow> (io \<Rightarrow> io) \<Rightarrow> bool" where
  "settles core f = (\<forall>k. waits core k False False \<longrightarrow> waits core (f k) False False)"

lemma settles_move:
  "waits core (flex_dma_async_1d d s n k) dd False = waits core k True False"
  "waits core (flex_dma_async_wait_all k) dd e = waits core k False e"
  "waits core (load_tile A l h k) dd False = waits core k True False"
  by (simp_all add: load_tile_def flex_dma_async_1d_def flex_dma_async_wait_all_def bare_dma_start_1d_def bare_dma_wait_all_def
      dma_consts dma_word dma_opcode)

lemma settles_engine: "waits core (engine_run arch_default x w k) False False = waits core k False False"
  by (simp add: engine_run_def flex_redmule_trigger_def flex_redmule_wait_def redmule_word_def opcode_of_def OP_CUSTOM1_def)

lemma settles_comp: "settles core f \<Longrightarrow> settles core g \<Longrightarrow> settles core (\<lambda>k. f (g k))"
  by (simp add: settles_def)

lemma settles_ping_pong: "settles core (\<lambda>k. ping_pong arch_default x w x' w' X W (flex_intra_cluster_sync k))"
  by (simp add: settles_def ping_pong_def flex_is_dm_core_def flex_is_first_core_def flex_intra_cluster_sync_def
      settles_move settles_engine)

lemma settles_gemm_tile: "settles core (gemm_tile arch_default row col)"
proof -
  have pre: "settles core (preload_tiles arch_default X Y W)" for X Y W
    by (simp add: settles_def preload_tiles_def flex_is_dm_core_def flex_intra_cluster_sync_def settles_move)
  have "u32_range 0 (TILES_PER_DIM - 1) = [0, 1, 2]"
    by (simp add: TILES_PER_DIM_def GEMM_DIMENSION_def TILE_DIMENSION_def u32_range_def upt_rec)
  then have steps: "settles core (gemm_steps arch_default X W)" for X W
    using settles_ping_pong by (simp add: gemm_steps_def settles_def Let_def)
  have "settles core (\<lambda>k. flex_is_first_core (\<lambda>first. (if first then engine_run arch_default x w else id)
      (flex_intra_cluster_sync (flex_is_dm_core arch_default (\<lambda>dm.
        (if dm then \<lambda>k. flex_dma_async_1d d s n (flex_dma_async_wait_all k) else id) (flex_intra_cluster_sync k))))))"
    for x w d s n
    by (simp add: settles_def flex_is_dm_core_def flex_is_first_core_def flex_intra_cluster_sync_def settles_move settles_engine)
  from settles_comp [OF pre settles_comp [OF steps this]] show ?thesis
    by (simp add: gemm_tile_def [abs_def] Let_def)
qed

lemma settles_for_loop: "(\<And>x. settles core (body x)) \<Longrightarrow> settles core (for_loop xs body)"
  by (induction xs) (simp_all add: settles_def)

subsection \<open>Tiles\<close>

definition tile_ix :: "nat \<Rightarrow> nat" where "tile_ix a = a div 131072"

fun act_step :: "('t \<Rightarrow> 't \<Rightarrow> 't \<Rightarrow> 't) \<Rightarrow> act \<Rightarrow> (nat \<Rightarrow> 't) \<Rightarrow> nat \<Rightarrow> 't" where
  "act_step mac (Move d s n) m = m(tile_ix (unat d) := m (tile_ix (unat s)))"
| "act_step mac (Engine x w y) m = m(tile_ix (unat y) := mac (m (tile_ix (unat x))) (m (tile_ix (unat w))) (m (tile_ix (unat y))))"

text \<open>Whole tiles at multiples of the tile size.\<close>

fun act_ok :: "act \<Rightarrow> bool" where
  "act_ok (Move d s n) = (n = TILE_SIZE_BYTE \<and> 131072 dvd unat d \<and> 131072 dvd unat s)"
| "act_ok (Engine x w y) = (131072 dvd unat x \<and> 131072 dvd unat w \<and> 131072 dvd unat y)"

fun act_writes :: "act \<Rightarrow> nat" where
  "act_writes (Move d s n) = tile_ix (unat d)"
| "act_writes (Engine x w y) = tile_ix (unat y)"

fun act_reads :: "act \<Rightarrow> nat set" where
  "act_reads (Move d s n) = {tile_ix (unat s)}"
| "act_reads (Engine x w y) = {tile_ix (unat x), tile_ix (unat w), tile_ix (unat y)}"

definition race_free :: "act list \<Rightarrow> bool" where
  "race_free as = (\<forall>a\<in>set as. \<forall>b\<in>set as. a = b \<or> act_writes a \<noteq> act_writes b \<and> act_writes a \<notin> act_reads b \<and> act_writes b \<notin> act_reads a)"

lemma act_step_commute:
  "act_writes a \<noteq> act_writes b \<Longrightarrow> act_writes a \<notin> act_reads b \<Longrightarrow> act_writes b \<notin> act_reads a \<Longrightarrow>
    act_step mac a \<circ> act_step mac b = act_step mac b \<circ> act_step mac a"
  by (cases a; cases b) (auto simp: fun_eq_iff)

lemma any_order:
  assumes "race_free as" and "mset zs = mset as"
  shows "fold (act_step mac) zs = fold (act_step mac) as"
proof (rule sym, rule fold_multiset_equiv)
  show "act_step mac a \<circ> act_step mac b = act_step mac b \<circ> act_step mac a" if "a \<in> set as" "b \<in> set as" for a b
    using assms(1) that act_step_commute [of a b mac] unfolding race_free_def by (cases "a = b") auto
qed (simp add: assms(2))

subsection \<open>The product of one tile\<close>

text \<open>The tiles of the matrices in HBM, counted in tiles from address 0.\<close>

definition x_ix :: "nat \<Rightarrow> nat \<Rightarrow> nat" where "x_ix row i = 24576 + row * 4 + i"
definition w_ix :: "nat \<Rightarrow> nat \<Rightarrow> nat" where "w_ix i col = 24592 + i * 4 + col"
definition y_ix :: "nat \<Rightarrow> nat \<Rightarrow> nat" where "y_ix row col = 24608 + row * 4 + col"
definition z_ix :: "nat \<Rightarrow> nat \<Rightarrow> nat" where "z_ix row col = 24624 + row * 4 + col"

definition in_parallel :: "act list list \<Rightarrow> act list list \<Rightarrow> act list list" where
  "in_parallel ps qs = map2 (@) ps qs"

definition tile_work :: "u32 \<Rightarrow> u32 \<Rightarrow> act list list" where
  "tile_work row col = in_parallel (tile_phases 0 row col) (in_parallel (tile_phases 1 row col) (tile_phases 2 row col))"

lemmas size_defs = ELEM_SIZE_def GEMM_DIMENSION_def GEMM_SIZE_BYTE_def TILE_DIMENSION_def TILE_SIZE_BYTE_def TILES_PER_DIM_def
  X_HBM_OFFSET_def W_HBM_OFFSET_def Y_HBM_OFFSET_def Z_HBM_OFFSET_def X_L1_OFFSET1_def W_L1_OFFSET1_def X_L1_OFFSET2_def
  W_L1_OFFSET2_def YZ_L1_OFFSET_def

lemma move_simps [simp]:
  "act_step mac (move_in l h) m = m(tile_ix (unat l) := m (tile_ix (0xC0000000 + unat h)))"
  "act_step mac (move_out h l) m = m(tile_ix (0xC0000000 + unat h) := m (tile_ix (unat l)))"
  "act_writes (move_in l h) = tile_ix (unat l)" "act_reads (move_in l h) = {tile_ix (0xC0000000 + unat h)}"
  "act_writes (move_out h l) = tile_ix (0xC0000000 + unat h)" "act_reads (move_out h l) = {tile_ix (unat l)}"
  "act_ok (move_in l h) = (131072 dvd unat l \<and> 131072 dvd 0xC0000000 + unat h)"
  "act_ok (move_out h l) = (131072 dvd unat l \<and> 131072 dvd 0xC0000000 + unat h)"
  by (auto simp: move_in_def move_out_def unat_hbm_addr)

lemma row_cases: "row < 4 \<Longrightarrow> row \<in> {0, 1, 2, 3 :: nat}"
  by auto

lemma tile_work_ok:
  assumes "row < 4" and "col < 4"
  shows "list_all race_free (tile_work (of_nat row) (of_nat col))"
    and "list_all (list_all act_ok) (tile_work (of_nat row) (of_nat col))"
  using row_cases [OF assms(1)] row_cases [OF assms(2)]
  by (auto simp: tile_work_def in_parallel_def tile_phases_def step_acts_def dm_acts_def first_acts_def race_free_def
      tile_ix_def size_defs)

lemma tile_work_result:
  assumes "row < 4" and "col < 4"
  shows "fold (fold (act_step mac)) (tile_work (of_nat row) (of_nat col)) m (z_ix row col) =
      fold (\<lambda>i. mac (m (x_ix row i)) (m (w_ix i col))) [0 ..< 4] (m (y_ix row col))"
    and "24576 \<le> t \<Longrightarrow> t \<noteq> z_ix row col \<Longrightarrow> fold (fold (act_step mac)) (tile_work (of_nat row) (of_nat col)) m t = m t"
proof -
  have four: "[0 ..< 4] = [0, 1, 2, 3 :: nat]" by (simp add: upt_rec)
  show "fold (fold (act_step mac)) (tile_work (of_nat row) (of_nat col)) m (z_ix row col) =
      fold (\<lambda>i. mac (m (x_ix row i)) (m (w_ix i col))) [0 ..< 4] (m (y_ix row col))"
    using row_cases [OF assms(1)] row_cases [OF assms(2)]
    by (auto simp: tile_work_def in_parallel_def tile_phases_def step_acts_def dm_acts_def first_acts_def four
        tile_ix_def size_defs x_ix_def w_ix_def y_ix_def z_ix_def)
  show "fold (fold (act_step mac)) (tile_work (of_nat row) (of_nat col)) m t = m t" if "24576 \<le> t" "t \<noteq> z_ix row col"
    using row_cases [OF assms(1)] row_cases [OF assms(2)] that
    by (auto simp: tile_work_def in_parallel_def tile_phases_def step_acts_def dm_acts_def first_acts_def
        tile_ix_def size_defs z_ix_def)
qed

subsection \<open>All tiles\<close>

lemma emits_nil: "emits core (\<lambda>k. k) []"
  by (auto simp: emits_def)

lemma emits_for_loop: "(\<And>x. emits core (body x) (ps x)) \<Longrightarrow> emits core (for_loop xs body) (concat (map ps xs))"
proof (induction xs)
  case Nil
  then show ?case using emits_nil by (simp add: emits_def)
next
  case (Cons x xs)
  then show ?case using emits_comp [of core "body x" "ps x" "for_loop xs body" "concat (map ps xs)"] by (simp add: emits_def)
qed

lemma emits_phases: "emits core f ps \<Longrightarrow> phases core (f Halt) r = ps @ [[]]"
  unfolding emits_def by (metis phases.simps(1))

lemma TILES_PER_DIM_range: "u32_range 0 TILES_PER_DIM = map of_nat [0 ..< 4]"
  by (simp add: TILES_PER_DIM_def GEMM_DIMENSION_def TILE_DIMENSION_def u32_range_def upt_rec)

definition all_tiles :: "(nat \<times> nat) list" where
  "all_tiles = List.product [0 ..< 4] [0 ..< 4]"

lemma phases_gemm_tiles:
  "phases core (gemm_tiles arch_default Halt) r =
    concat (map (\<lambda>(row, col). tile_phases core (of_nat row) (of_nat col)) all_tiles) @ [[]]"
proof -
  let ?R = "u32_range 0 TILES_PER_DIM"
  have "emits core (gemm_tiles arch_default) (concat (map (\<lambda>row. concat (map (tile_phases core row) ?R)) ?R))"
    unfolding gemm_tiles_def by (intro emits_for_loop emits_gemm_tile)
  note tiles = emits_phases [OF this, of r]
  have "concat (map (\<lambda>row. concat (map (tile_phases core row) (map of_nat cols))) (map of_nat rows)) =
      concat (map (\<lambda>(row, col). tile_phases core (of_nat row) (of_nat col)) (List.product rows cols))" for rows cols
    by (induction rows) (simp_all add: comp_def)
  then show ?thesis unfolding tiles all_tiles_def TILES_PER_DIM_range by simp
qed

lemma in_parallel_concat:
  "(\<And>x. x \<in> set xs \<Longrightarrow> length (f x) = length (g x)) \<Longrightarrow>
    in_parallel (concat (map f xs) @ ps) (concat (map g xs) @ qs) =
      concat (map (\<lambda>x. in_parallel (f x) (g x)) xs) @ in_parallel ps qs"
  by (induction xs) (simp_all add: in_parallel_def)

lemma length_tile_phases [simp]: "length (tile_phases core row col) = 6"
  by (simp add: tile_phases_def Let_def)

lemma length_in_parallel [simp]: "length (in_parallel ps qs) = min (length ps) (length qs)"
  by (simp add: in_parallel_def)

text \<open>What the cores of the cluster do between two synchronisations, together.\<close>

definition cluster_phases :: "io \<Rightarrow> dma_regs \<Rightarrow> act list list" where
  "cluster_phases p r = in_parallel (phases 0 p r) (in_parallel (phases 1 p r) (phases 2 p r))"

lemma cluster_phases_gemm:
  "cluster_phases (gemm_tiles arch_default Halt) r =
    concat (map (\<lambda>(row, col). tile_work (of_nat row) (of_nat col)) all_tiles) @ [[]]"
  by (simp add: cluster_phases_def phases_gemm_tiles in_parallel_concat case_prod_beta' tile_work_def)
    (simp add: in_parallel_def)

subsection \<open>Every schedule\<close>

text \<open>A schedule gives, phase by phase, the order in which the transfers and computations take effect.\<close>

definition schedule :: "act list list \<Rightarrow> act list list \<Rightarrow> bool" where
  "schedule ps zss = list_all2 (\<lambda>as zs. mset zs = mset as) ps zss"

lemma any_schedule:
  "schedule ps zss \<Longrightarrow> list_all race_free ps \<Longrightarrow> fold (fold (act_step mac)) zss m = fold (fold (act_step mac)) ps m"
  unfolding schedule_def
proof (induction ps zss arbitrary: m rule: list_all2_induct)
  case (Cons as ps zs zss)
  then show ?case by (simp add: any_order [of as zs])
qed simp

lemma tile_works_ok:
  assumes "set ts \<subseteq> {..<4} \<times> {..<4}"
  shows "list_all race_free (concat (map (\<lambda>(row, col). tile_work (of_nat row) (of_nat col)) ts))"
    and "list_all (list_all act_ok) (concat (map (\<lambda>(row, col). tile_work (of_nat row) (of_nat col)) ts))"
  using assms tile_work_ok by (induction ts) auto

lemma z_ix_inject: "col < 4 \<Longrightarrow> col' < 4 \<Longrightarrow> z_ix row col = z_ix row' col' \<longleftrightarrow> row = row' \<and> col = col'"
  unfolding z_ix_def by presburger

lemma input_not_z:
  "row < 4 \<Longrightarrow> i < 4 \<Longrightarrow> x_ix row i \<noteq> z_ix row' col'" "i < 4 \<Longrightarrow> col < 4 \<Longrightarrow> w_ix i col \<noteq> z_ix row' col'"
  "row < 4 \<Longrightarrow> col < 4 \<Longrightarrow> y_ix row col \<noteq> z_ix row' col'"
  by (auto simp: x_ix_def w_ix_def y_ix_def z_ix_def)

definition gemm_value :: "('t \<Rightarrow> 't \<Rightarrow> 't \<Rightarrow> 't) \<Rightarrow> (nat \<Rightarrow> 't) \<Rightarrow> nat \<Rightarrow> nat \<Rightarrow> 't" where
  "gemm_value mac m row col = fold (\<lambda>i. mac (m (x_ix row i)) (m (w_ix i col))) [0 ..< 4] (m (y_ix row col))"

lemma tile_works_frame:
  assumes "set ts \<subseteq> {..<4} \<times> {..<4}" and "24576 \<le> t" and "\<forall>(row, col)\<in>set ts. t \<noteq> z_ix row col"
  shows "fold (fold (act_step mac)) (concat (map (\<lambda>(row, col). tile_work (of_nat row) (of_nat col)) ts)) m t = m t"
  using assms by (induction ts arbitrary: m) (auto simp: tile_work_result(2))

lemma tile_works_result:
  assumes "set ts \<subseteq> {..<4} \<times> {..<4}" and "distinct ts" and "(row, col) \<in> set ts"
  shows "fold (fold (act_step mac)) (concat (map (\<lambda>(row, col). tile_work (of_nat row) (of_nat col)) ts)) m (z_ix row col) =
    gemm_value mac m row col"
  using assms
proof (induction ts arbitrary: m)
  case (Cons p ts)
  obtain row' col' where p: "p = (row', col')" and rc: "row' < 4" "col' < 4" using Cons.prems by (cases p) auto
  have in4: "row < 4" "col < 4" using Cons.prems by auto
  let ?m = "fold (fold (act_step mac)) (tile_work (of_nat row') (of_nat col')) m"
  have inputs: "?m (x_ix row i) = m (x_ix row i)" "?m (w_ix i col) = m (w_ix i col)" "?m (y_ix row col) = m (y_ix row col)"
    if "i < 4" for i
    using that in4 rc input_not_z by (auto simp: tile_work_result(2) x_ix_def w_ix_def y_ix_def z_ix_def)
  show ?case
  proof (cases "(row, col) = p")
    case True
    then have "\<forall>(r, c)\<in>set ts. z_ix row col \<noteq> z_ix r c" using Cons.prems in4 p by (auto simp: z_ix_inject)
    then show ?thesis using True Cons.prems p rc
      by (simp add: tile_works_frame z_ix_def [of row'] tile_work_result(1) [unfolded z_ix_def] gemm_value_def)
  next
    case False
    moreover have "gemm_value mac ?m row col = gemm_value mac m row col"
      unfolding gemm_value_def by (intro fold_cong) (use inputs [of 0] inputs in auto)
    moreover have "(row, col) \<in> set ts" using False Cons.prems by auto
    ultimately show ?thesis using Cons p by simp
  qed
qed simp

subsection \<open>The product\<close>

lemma settles_gemm_tiles: "waits core (gemm_tiles arch_default Halt) False False"
proof -
  have "settles core (gemm_tiles arch_default)"
    unfolding gemm_tiles_def by (intro settles_for_loop settles_gemm_tile)
  then show ?thesis by (simp add: settles_def)
qed

lemma schedule_ok: "schedule ps zss \<Longrightarrow> list_all (list_all act_ok) ps \<Longrightarrow> list_all (list_all act_ok) zss"
  unfolding schedule_def list_all_iff
  by (induction ps zss rule: list_all2_induct) (auto dest: mset_eq_setD)

lemma all_tiles_simps: "set all_tiles = {..<4} \<times> {..<4}" "distinct all_tiles" "length all_tiles = 16"
  by (auto simp: all_tiles_def distinct_product)

text \<open>C5: in the matrix product by one cluster (\<open>example_one_cluster_gemm\<close>), no core reaches a
  synchronisation before its transfers and computations are done, and every core passes the same number
  of synchronisations; and in whatever order the transfers and the engine proceed between two
  synchronisations, each of the sixteen tiles of Z ends with the chain of the four tile products over the
  tiles of Y, X and W that were in HBM at the start, and nothing else in HBM changes.\<close>

theorem one_cluster_gemm_product:
  assumes "schedule (cluster_phases (gemm_tiles arch_default Halt) r) zss"
  shows "(\<forall>core. waits core (gemm_tiles arch_default Halt) False False \<and> length (phases core (gemm_tiles arch_default Halt) r) = 97) \<and>
    list_all (list_all act_ok) zss \<and>
    (\<forall>row<4. \<forall>col<4. fold (fold (act_step mac)) zss m (z_ix row col) =
       fold (\<lambda>i. mac (m (x_ix row i)) (m (w_ix i col))) [0 ..< 4] (m (y_ix row col))) \<and>
    (\<forall>t. 24576 \<le> t \<and> (\<forall>row<4. \<forall>col<4. t \<noteq> z_ix row col) \<longrightarrow> fold (fold (act_step mac)) zss m t = m t)"
proof -
  let ?ps = "cluster_phases (gemm_tiles arch_default Halt) r"
  have sub: "set all_tiles \<subseteq> {..<4} \<times> {..<4}" by (simp add: all_tiles_simps)
  have "race_free []" by (simp add: race_free_def)
  then have free: "list_all race_free ?ps" and ok: "list_all (list_all act_ok) ?ps"
    using tile_works_ok [OF sub] by (simp_all add: cluster_phases_gemm)
  note run = any_schedule [OF assms free, of mac m]
  have "fold (fold (act_step mac)) zss m (z_ix row col) = gemm_value mac m row col" if "row < 4" "col < 4" for row col
    unfolding run cluster_phases_gemm using tile_works_result [OF sub all_tiles_simps(2), of row col mac m] that by (simp add: all_tiles_simps)
  moreover have "fold (fold (act_step mac)) zss m t = m t" if "24576 \<le> t" "\<forall>row<4. \<forall>col<4. t \<noteq> z_ix row col" for t
    unfolding run cluster_phases_gemm using tile_works_frame [OF sub, of t mac m] that by (simp add: all_tiles_simps)
  moreover have "length (phases core (gemm_tiles arch_default Halt) r) = 97" for core
    by (simp add: phases_gemm_tiles length_concat comp_def case_prod_beta' map_replicate_const all_tiles_simps sum_list_replicate)
  ultimately show ?thesis using schedule_ok [OF assms ok] settles_gemm_tiles unfolding gemm_value_def by simp
qed

text \<open>With numbers for tiles and the multiplication of numbers for that of tiles: all of X and W is 2 and
  all of Y is 1.\<close>

lemma one_cluster_gemm_product_witness:
  "fold (fold (act_step (\<lambda>x w y. x * w + y))) (cluster_phases (gemm_tiles arch_default Halt) \<lparr>r_src = 0, r_dst = 0, r_src_stride = 0, r_dst_stride = 0, r_reps = 0, r_mask = 0\<rparr>)
     (\<lambda>t. if t < 24608 then 2 else 1 :: nat) (z_ix 1 3) = 17"
proof -
  have "schedule ps ps" for ps by (simp add: schedule_def list_all2_refl)
  from one_cluster_gemm_product [OF this, THEN conjunct2, THEN conjunct2, THEN conjunct1, rule_format, of 1 3
      "\<lambda>x w y. x * w + y" _ "\<lambda>t. if t < 24608 then 2 else 1 :: nat"]
  show ?thesis by (simp add: x_ix_def w_ix_def y_ix_def upt_rec)
qed

end
