(* ===== verification/Sim_Redmule.thy ===== *)
theory Sim_Redmule
  imports Flex_Fp16 "HOL-Library.Monad_Syntax"
begin

text \<open>
  The simulation model of the matrix engine, \<open>flex_cluster/light_redmule.cpp\<close>: its registers, its
  state machine, the requests it sends to the L1 memory (TCDM) and the arithmetic on its tile buffers.
  A \<open>uint32_t\<close> member is a word, a byte array a function from byte offsets; the memory behind the TCDM
  port is part of the state.  The port answers a request at once and reports a latency: both come from
  \<open>tcdm_env\<close>, by the number of the request.  \<open>None\<close> stands for \<open>trace.fatal\<close>, which ends the simulation.
  The handler returns the delay of the event it enqueues, if any.
\<close>

subsection \<open>State\<close>

datatype redmule_state = IDLE | PRELOAD | ROUTINE | STORING | FINISHED | ACKNOWLEDGE

datatype iter_instruction =
  INSTR_LOAD_Y | INSTR_LOAD_W | INSTR_LOAD_W_COMPUTE | INSTR_LOAD_X | INSTR_STOR_Z | INSTR_FORWARD_YZ

datatype io_status = IO_REQ_OK | IO_REQ_PENDING

type_synonym bytes = "nat \<Rightarrow> u8"

text \<open>The members the constructor reads from the configuration (\<open>elem_size\<close> changes and is below).\<close>

record rm_conf =
  ce_height :: u32
  ce_width :: u32
  ce_pipe :: u32
  queue_depth :: u32
  bandwidth :: u32
  fold_tiles_mapping :: u32

record redmule =
  fsm_state :: redmule_state
  tcdm_block_total :: u32
  fsm_counter :: u32
  fsm_timestamp :: u32
  pending_req_queue :: "u32 list"
  elem_size :: u32
  compute_able :: u32
  m_size :: u32
  n_size :: u32
  k_size :: u32
  x_addr :: u32
  w_addr :: u32
  y_addr :: u32
  z_addr :: u32
  x_row_tiles :: u32
  x_row_lefts :: u32
  x_col_tiles :: u32
  x_col_lefts :: u32
  w_row_tiles :: u32
  w_row_lefts :: u32
  w_col_tiles :: u32
  w_col_lefts :: u32
  z_row_tiles :: u32
  z_row_lefts :: u32
  z_col_tiles :: u32
  z_col_lefts :: u32
  iter_i :: u32
  iter_j :: u32
  iter_k :: u32
  iter_x_addr :: u32
  iter_w_addr :: u32
  iter_y_addr :: u32
  iter_z_addr :: u32
  x_acc_block :: u32
  w_acc_block :: u32
  y_acc_block :: u32
  z_acc_block :: u32
  z_store_width :: u32
  z_store_height :: u32
  iter_instr :: iter_instruction
  iter_x_row_ptr :: u32
  iter_w_row_ptr :: u32
  iter_y_row_ptr :: u32
  iter_z_row_ptr :: u32
  ideal_macs :: u32
  access_buffer :: bytes
  y_buffer_preload :: bytes
  w_buffer :: bytes
  x_buffer :: bytes
  z_buffer_compute :: bytes
  z_buffer_previos :: bytes
  req_is_write :: bool
  req_size :: u32
  redmule_query :: bool
  replies :: nat
  tcdm :: "u32 \<Rightarrow> u8"
  tcdm_count :: nat

record tcdm_env =
  tcdm_ok :: "nat \<Rightarrow> bool"
  tcdm_latency :: "nat \<Rightarrow> u32"

text \<open>The tile sizes every function computes afresh.\<close>

definition buffer_w :: "rm_conf \<Rightarrow> u32" where
  "buffer_w c = ce_width c * (ce_pipe c + 1)"

definition buffer_n :: "rm_conf \<Rightarrow> redmule \<Rightarrow> u32" where
  "buffer_n c s = bandwidth c div elem_size s"

subsection \<open>Bytes\<close>

definition memcpy :: "bytes \<Rightarrow> nat \<Rightarrow> bytes \<Rightarrow> nat \<Rightarrow> nat \<Rightarrow> bytes" where
  "memcpy dst d src p n = (\<lambda>q. if d \<le> q \<and> q < d + n then src (p + (q - d)) else dst q)"

definition memset :: "bytes \<Rightarrow> u8 \<Rightarrow> nat \<Rightarrow> bytes" where
  "memset dst v n = (\<lambda>q. if q < n then v else dst q)"

text \<open>Arrays of elements over a byte array, little endian.\<close>

definition get8 :: "bytes \<Rightarrow> nat \<Rightarrow> u8" where "get8 b i = b i"
definition put8 :: "bytes \<Rightarrow> nat \<Rightarrow> u8 \<Rightarrow> bytes" where "put8 b i v = b(i := v)"

definition get16 :: "bytes \<Rightarrow> nat \<Rightarrow> u16" where
  "get16 b i = word_cat (b (2 * i + 1)) (b (2 * i))"

definition put16 :: "bytes \<Rightarrow> nat \<Rightarrow> u16 \<Rightarrow> bytes" where
  "put16 b i v = b(2 * i := ucast v, 2 * i + 1 := ucast (drop_bit 8 v))"

definition get32 :: "bytes \<Rightarrow> nat \<Rightarrow> u32" where
  "get32 b i = word_cat (get16 b (2 * i + 1)) (get16 b (2 * i))"

subsection \<open>Tile arithmetic\<close>

text \<open>
  The loops of the six \<open>matmul\<close> functions, which differ in the element type and in the step of the inner
  loop.  The engine passes the same array for \<open>z\<close> and \<open>y\<close>, so \<open>z[..] = y[..]\<close> leaves it unchanged.
\<close>

definition matmul_loops ::
    "(bytes \<Rightarrow> nat \<Rightarrow> 'v) \<Rightarrow> (bytes \<Rightarrow> nat \<Rightarrow> 'v \<Rightarrow> bytes) \<Rightarrow> ('v \<Rightarrow> 'v \<Rightarrow> 'v \<Rightarrow> 'v) \<Rightarrow>
     u16 \<Rightarrow> u16 \<Rightarrow> u16 \<Rightarrow> bytes \<Rightarrow> bytes \<Rightarrow> bytes \<Rightarrow> bytes" where
  "matmul_loops get put mac m n k x w z =
     fold (\<lambda>i. fold (\<lambda>j z.
         let z = put z (i * unat k + j) (get z (i * unat k + j))
         in fold (\<lambda>l z. put z (i * unat k + j)
              (mac (get x (i * unat n + l)) (get w (l * unat k + j)) (get z (i * unat k + j))))
            [0 ..< unat n] z) [0 ..< unat k]) [0 ..< unat m] z"

text \<open>\<open>z += x * w\<close> in \<open>int\<close>, stored back in the element type.\<close>

definition mac_u :: "'a::len word \<Rightarrow> 'a word \<Rightarrow> 'a word \<Rightarrow> 'a word" where
  "mac_u x w z = word_of_int (uint z + uint x * uint w)"

definition mac_s :: "'a::len word \<Rightarrow> 'a word \<Rightarrow> 'a word \<Rightarrow> 'a word" where
  "mac_s x w z = word_of_int (sint z + sint x * sint w)"

definition matmul_uint16 :: "u16 \<Rightarrow> u16 \<Rightarrow> u16 \<Rightarrow> bytes \<Rightarrow> bytes \<Rightarrow> bytes \<Rightarrow> bytes" where
  "matmul_uint16 = matmul_loops get16 put16 mac_u"

definition matmul_int16 :: "u16 \<Rightarrow> u16 \<Rightarrow> u16 \<Rightarrow> bytes \<Rightarrow> bytes \<Rightarrow> bytes \<Rightarrow> bytes" where
  "matmul_int16 = matmul_loops get16 put16 mac_s"

text \<open>The conversions and \<open>fp16_fma\<close> of the file are those of \<open>flex_libfp16.h\<close>, word for word.\<close>

definition tile_matmul_fp16 :: "fp_ops \<Rightarrow> u16 \<Rightarrow> u16 \<Rightarrow> u16 \<Rightarrow> bytes \<Rightarrow> bytes \<Rightarrow> bytes \<Rightarrow> bytes" where
  "tile_matmul_fp16 ops = matmul_loops get16 put16 (fp16_fma ops)"

definition matmul_uint8 :: "u16 \<Rightarrow> u16 \<Rightarrow> u16 \<Rightarrow> bytes \<Rightarrow> bytes \<Rightarrow> bytes \<Rightarrow> bytes" where
  "matmul_uint8 = matmul_loops get8 put8 mac_u"

definition matmul_int8 :: "u16 \<Rightarrow> u16 \<Rightarrow> u16 \<Rightarrow> bytes \<Rightarrow> bytes \<Rightarrow> bytes \<Rightarrow> bytes" where
  "matmul_int8 = matmul_loops get8 put8 mac_s"

text \<open>The arithmetic the model leaves open: binary32, and the fused step on fp8 values.\<close>

record rm_arith =
  fp16_ops :: fp_ops
  fp8e4m3_fma :: "u8 \<Rightarrow> u8 \<Rightarrow> u8 \<Rightarrow> u8"

definition matmul_fp8e4m3 :: "rm_arith \<Rightarrow> u16 \<Rightarrow> u16 \<Rightarrow> u16 \<Rightarrow> bytes \<Rightarrow> bytes \<Rightarrow> bytes \<Rightarrow> bytes" where
  "matmul_fp8e4m3 a = matmul_loops get8 put8 (fp8e4m3_fma a)"

definition compute_tile :: "rm_arith \<Rightarrow> u32 \<Rightarrow> u16 \<Rightarrow> u16 \<Rightarrow> u16 \<Rightarrow> bytes \<Rightarrow> bytes \<Rightarrow> bytes \<Rightarrow> bytes" where
  "compute_tile a fmt bh bn bw x w z =
     (if fmt = 1 then matmul_uint16 bh bn bw x w z
      else if fmt = 2 then matmul_int16 bh bn bw x w z
      else if fmt = 3 then tile_matmul_fp16 (fp16_ops a) bh bn bw x w z
      else if fmt = 5 then matmul_uint8 bh bn bw x w z
      else if fmt = 6 then matmul_int8 bh bn bw x w z
      else if fmt = 7 then matmul_fp8e4m3 a bh bn bw x w z
      else z)"

definition process_compute :: "rm_conf \<Rightarrow> rm_arith \<Rightarrow> redmule \<Rightarrow> redmule" where
  "process_compute c a s =
     s\<lparr>z_buffer_compute :=
         compute_tile a (compute_able s) (ucast (ce_height c)) (ucast (buffer_n c s)) (ucast (buffer_w c))
           (x_buffer s) (w_buffer s) (z_buffer_compute s)\<rparr>"

subsection \<open>Tiles and addresses\<close>

definition tiles :: "u32 \<Rightarrow> u32 \<Rightarrow> u32" where
  "tiles sz buf = sz div buf + (if sz mod buf > 0 then 1 else 0)"

definition init_redmule_meta_data :: "rm_conf \<Rightarrow> redmule \<Rightarrow> redmule" where
  "init_redmule_meta_data c s =
     (let bh = ce_height c; bw = buffer_w c; bn = buffer_n c s;
          xrl = n_size s mod bn; xrt = tiles (n_size s) bn;
          xcl = m_size s mod bh; xct = tiles (m_size s) bh;
          wrl = k_size s mod bw; wrt = tiles (k_size s) bw
      in s\<lparr>x_row_lefts := xrl, x_row_tiles := xrt, x_col_lefts := xcl, x_col_tiles := xct,
           w_row_lefts := wrl, w_row_tiles := wrt, w_col_lefts := xrl, w_col_tiles := xrt,
           z_row_lefts := wrl, z_row_tiles := wrt, z_col_lefts := xcl, z_col_tiles := xct,
           iter_i := 0, iter_j := 0, iter_k := 0,
           iter_x_addr := x_addr s, iter_w_addr := w_addr s, iter_y_addr := y_addr s, iter_z_addr := z_addr s,
           x_acc_block := 0, w_acc_block := 0, y_acc_block := 0, z_acc_block := 0,
           iter_x_row_ptr := 0, iter_w_row_ptr := 0, iter_y_row_ptr := 0, iter_z_row_ptr := 0,
           ideal_macs := m_size s * n_size s * k_size s\<rparr>)"

text \<open>The flag is the returned value.\<close>

definition next_iteration :: "redmule \<Rightarrow> bool \<times> redmule" where
  "next_iteration s =
     (let k = iter_k s + 1 in
      if k = x_row_tiles s then
        (let j = iter_j s + 1 in
         if j = z_row_tiles s then
           (let i = iter_i s + 1 in (i = z_col_tiles s, s\<lparr>iter_k := 0, iter_j := 0, iter_i := i\<rparr>))
         else (False, s\<lparr>iter_k := 0, iter_j := j\<rparr>))
      else (False, s\<lparr>iter_k := k\<rparr>))"

definition calculate_tile_base_address :: "rm_conf \<Rightarrow> redmule \<Rightarrow> u32 \<Rightarrow> u32 \<Rightarrow> u32 \<Rightarrow> u32 \<Rightarrow> u32 \<Rightarrow> u32 \<Rightarrow> u32" where
  "calculate_tile_base_address c s base stride tile_col tile_row i j =
     (if fold_tiles_mapping c \<noteq> 0 then
        (let tiles_per_row = (stride + tile_row - 1) div tile_row
         in base + (i * tiles_per_row + j) * tile_row * tile_col * elem_size s)
      else base + (i * tile_col * stride + j * tile_row) * elem_size s)"

definition inc_addr :: "rm_conf \<Rightarrow> redmule \<Rightarrow> u32 \<Rightarrow> u32 \<Rightarrow> u32 \<Rightarrow> u32" where
  "inc_addr c s addr stride tile_row =
     (if fold_tiles_mapping c \<noteq> 0 then addr + tile_row * elem_size s else addr + stride * elem_size s)"

text \<open>The address of the next request, in the order Y, W, X, Z, and what is left of its block.\<close>

definition next_addr :: "rm_conf \<Rightarrow> redmule \<Rightarrow> (u32 \<times> redmule) option" where
  "next_addr c s =
     (if y_acc_block s > 0 then
        Some (iter_y_addr s,
          s\<lparr>iter_y_addr := inc_addr c s (iter_y_addr s) (k_size s) (buffer_w c), y_acc_block := y_acc_block s - 1,
            req_is_write := False, req_size := buffer_w c * elem_size s, iter_instr := INSTR_LOAD_Y\<rparr>)
      else if w_acc_block s > 0 then
        Some (iter_w_addr s,
          s\<lparr>iter_w_addr := inc_addr c s (iter_w_addr s) (k_size s) (buffer_w c), w_acc_block := w_acc_block s - 1,
            req_is_write := False, req_size := buffer_w c * elem_size s,
            iter_instr := (if w_acc_block s - 1 = 0 then INSTR_LOAD_W_COMPUTE else INSTR_LOAD_W)\<rparr>)
      else if x_acc_block s > 0 then
        Some (iter_x_addr s,
          s\<lparr>iter_x_addr := inc_addr c s (iter_x_addr s) (n_size s) (buffer_n c s), x_acc_block := x_acc_block s - 1,
            req_is_write := False, req_size := bandwidth c, iter_instr := INSTR_LOAD_X\<rparr>)
      else if z_acc_block s > 0 then
        Some (iter_z_addr s,
          s\<lparr>iter_z_addr := inc_addr c s (iter_z_addr s) (k_size s) (buffer_w c), z_acc_block := z_acc_block s - 1,
            req_is_write := True, req_size := z_store_width s * elem_size s, iter_instr := INSTR_STOR_Z\<rparr>)
      else None)"

text \<open>The smaller of what is left of a row (or column) of the matrix after \<open>t\<close> tiles and one tile, in bytes.\<close>

definition cutoff :: "u32 \<Rightarrow> u32 \<Rightarrow> u32 \<Rightarrow> u32" where
  "cutoff whole t buf = (let leftover = whole - t * buf in if leftover < buf then leftover else buf)"

definition process_iter_instruction :: "rm_conf \<Rightarrow> rm_arith \<Rightarrow> redmule \<Rightarrow> redmule" where
  "process_iter_instruction c a s =
     (let buffer_h_byte = ce_height c * elem_size s;
          buffer_n_byte = bandwidth c;
          buffer_w_byte = buffer_w c * elem_size s;
          k' = iter_k s + 1;
          k' = (if k' = x_row_tiles s \<or> fsm_state s = PRELOAD then 0 else k');
          x_cutoff = cutoff (n_size s * elem_size s) k' buffer_n_byte;
          w_cutoff = cutoff (k_size s * elem_size s) (iter_j s) buffer_w_byte;
          j' = iter_j s + 1;
          j' = (if j' = z_row_tiles s \<or> fsm_state s = PRELOAD then 0 else j');
          y_cutoff = cutoff (k_size s * elem_size s) j' buffer_w_byte;
          z_width_cutoff = cutoff (k_size s * elem_size s) (iter_j s) buffer_w_byte;
          z_height_cutoff = cutoff (m_size s * elem_size s) (iter_i s) buffer_h_byte;
          buffer_yz_byte = ce_height c * ce_width c * (ce_pipe c + 1) * elem_size s
      in case iter_instr s of
           INSTR_LOAD_Y \<Rightarrow>
             s\<lparr>y_buffer_preload := memcpy (y_buffer_preload s) (unat (iter_y_row_ptr s)) (access_buffer s) 0 (unat y_cutoff),
               iter_y_row_ptr := (if y_acc_block s = 0 then 0 else iter_y_row_ptr s + buffer_w_byte)\<rparr>
         | INSTR_LOAD_W \<Rightarrow>
             s\<lparr>w_buffer := memcpy (w_buffer s) (unat (iter_w_row_ptr s)) (access_buffer s) 0 (unat w_cutoff),
               iter_w_row_ptr := iter_w_row_ptr s + buffer_w_byte\<rparr>
         | INSTR_LOAD_W_COMPUTE \<Rightarrow>
             (let s1 = process_compute c a
                    (s\<lparr>w_buffer := memcpy (w_buffer s) (unat (iter_w_row_ptr s)) (access_buffer s) 0 (unat w_cutoff)\<rparr>)
              in s1\<lparr>iter_w_row_ptr := 0,
                   x_buffer := memset (x_buffer s1) 0 (unat (ce_height c * bandwidth c)),
                   w_buffer := memset (w_buffer s1) 0 (unat (ce_width c * (ce_pipe c + 1) * bandwidth c))\<rparr>)
         | INSTR_LOAD_X \<Rightarrow>
             s\<lparr>x_buffer := memcpy (x_buffer s) (unat (iter_x_row_ptr s)) (access_buffer s) 0 (unat x_cutoff),
               iter_x_row_ptr := (if x_acc_block s = 0 then 0 else iter_x_row_ptr s + buffer_n_byte)\<rparr>
         | INSTR_STOR_Z \<Rightarrow>
             s\<lparr>access_buffer := memcpy (access_buffer s) 0 (z_buffer_previos s) (unat (iter_z_row_ptr s)) (unat buffer_w_byte),
               iter_z_row_ptr := (if z_acc_block s = 0 then 0 else iter_z_row_ptr s + buffer_w_byte)\<rparr>
         | INSTR_FORWARD_YZ \<Rightarrow>
             (let s1 = s\<lparr>z_buffer_previos := memcpy (z_buffer_previos s) 0 (z_buffer_compute s) 0 (unat buffer_yz_byte)\<rparr>;
                  s2 = s1\<lparr>z_buffer_compute := memcpy (z_buffer_compute s1) 0 (y_buffer_preload s1) 0 (unat buffer_yz_byte)\<rparr>
              in s2\<lparr>y_buffer_preload := memset (y_buffer_preload s2) 0 (unat buffer_yz_byte),
                    z_store_width := z_width_cutoff div elem_size s,
                    z_store_height := z_height_cutoff div elem_size s\<rparr>))"

subsection \<open>The blocks of a phase\<close>

definition is_last_iteration :: "redmule \<Rightarrow> bool" where
  "is_last_iteration s =
     (iter_i s = z_col_tiles s - 1 \<and> iter_j s = z_row_tiles s - 1 \<and> iter_k s = x_row_tiles s - 1)"

text \<open>\<open>(m_size - i * ce_height) < ce_height ? (m_size - i * ce_height) : ce_height\<close>\<close>

definition rows_left :: "rm_conf \<Rightarrow> redmule \<Rightarrow> u32 \<Rightarrow> u32" where
  "rows_left c s i = cutoff (m_size s) i (ce_height c)"

text \<open>The tile after \<open>(i, j, k)\<close> and the one after the Z tile \<open>(i, j)\<close>.\<close>

definition next_tile :: "redmule \<Rightarrow> u32 \<times> u32 \<times> u32" where
  "next_tile s =
     (let k = iter_k s + 1 in
      if k = x_row_tiles s then
        (let j = iter_j s + 1 in if j = z_row_tiles s then (iter_i s + 1, 0, 0) else (iter_i s, j, 0))
      else (iter_i s, iter_j s, k))"

definition next_z_tile :: "redmule \<Rightarrow> u32 \<times> u32" where
  "next_z_tile s =
     (let j = iter_j s + 1 in if j = z_row_tiles s then (iter_i s + 1, 0) else (iter_i s, j))"

definition prev_z_tile :: "redmule \<Rightarrow> u32 \<times> u32" where
  "prev_z_tile s =
     (if iter_j s = 0 then (iter_i s - 1, z_row_tiles s - 1) else (iter_i s, iter_j s - 1))"

definition get_routine_access_block_number :: "rm_conf \<Rightarrow> redmule \<Rightarrow> u32 \<times> redmule" where
  "get_routine_access_block_number c s =
     (let bh = ce_height c; bw = buffer_w c; bn = buffer_n c s;
          last = is_last_iteration s;
          first = (iter_i s = 0 \<and> iter_j s = 0 \<and> iter_k s = 0);
          s0 = s\<lparr>x_acc_block := 0, w_acc_block := 0, y_acc_block := 0, z_acc_block := 0\<rparr>;
          wb = (if iter_k s = x_row_tiles s - 1 \<and> x_row_lefts s > 0 then x_row_lefts s else bn);
          s1 = s0\<lparr>w_acc_block := wb,
                  iter_w_addr := calculate_tile_base_address c s (w_addr s) (k_size s) bn bw (iter_k s) (iter_j s)\<rparr>;
          total_blocks = wb;
          (total_blocks, s2) =
            (if \<not> last then
               (let (i, j, k) = next_tile s; xb = rows_left c s i
                in (total_blocks + xb,
                    s1\<lparr>iter_x_addr := calculate_tile_base_address c s (x_addr s) (n_size s) bh bn i k, x_acc_block := xb\<rparr>))
             else (total_blocks, s1));
          (total_blocks, s3) =
            (if iter_k s = x_row_tiles s - 1 \<and> \<not> last then
               (let (i, j) = next_z_tile s; yb = rows_left c s i
                in (total_blocks + yb,
                    s2\<lparr>iter_y_addr := calculate_tile_base_address c s (y_addr s) (k_size s) bh bw i j, y_acc_block := yb\<rparr>))
             else (total_blocks, s2));
          (total_blocks, s4) =
            (if iter_k s = 0 \<and> \<not> first then
               (let (i, j) = prev_z_tile s
                in (total_blocks + z_store_height s,
                    s3\<lparr>z_acc_block := z_store_height s,
                       iter_z_addr := calculate_tile_base_address c s (z_addr s) (k_size s) bh bw i j\<rparr>))
             else (total_blocks, s3))
      in (total_blocks, s4))"

definition get_preload_access_block_number :: "rm_conf \<Rightarrow> redmule \<Rightarrow> u32 \<times> redmule" where
  "get_preload_access_block_number c s =
     (let b = (if m_size s < ce_height c then m_size s else ce_height c)
      in (b + b, s\<lparr>x_acc_block := b, w_acc_block := 0, y_acc_block := b, z_acc_block := 0\<rparr>))"

definition get_storing_access_block_number :: "rm_conf \<Rightarrow> redmule \<Rightarrow> u32 \<times> redmule" where
  "get_storing_access_block_number c s =
     (z_store_height s,
      s\<lparr>x_acc_block := 0, w_acc_block := 0, y_acc_block := 0, z_acc_block := z_store_height s,
        iter_z_addr := calculate_tile_base_address c s (z_addr s) (k_size s) (ce_height c) (buffer_w c)
          (z_col_tiles s - 1) (z_row_tiles s - 1)\<rparr>)"

definition get_routine_to_storing_latency :: "rm_conf \<Rightarrow> u32" where
  "get_routine_to_storing_latency c = ce_width c * (ce_pipe c + 1)"

definition get_redmule_array_runtime :: "rm_conf \<Rightarrow> redmule \<Rightarrow> u32" where
  "get_redmule_array_runtime c s =
     (let runtime_unit = ce_width c * (ce_pipe c + 1);
          runtime = (if iter_k s = x_row_tiles s - 1 \<and> x_row_lefts s > 0
                     then x_row_lefts s * (ce_pipe c + 1) else buffer_n c s * (ce_pipe c + 1))
      in (runtime + runtime_unit - 1) div runtime_unit * runtime_unit)"

subsection \<open>Requests to the L1 memory\<close>

definition tcdm_write :: "(u32 \<Rightarrow> u8) \<Rightarrow> u32 \<Rightarrow> bytes \<Rightarrow> nat \<Rightarrow> u32 \<Rightarrow> u8" where
  "tcdm_write mem addr src n = (\<lambda>p. if unat (p - addr) < n then src (unat (p - addr)) else mem p)"

definition tcdm_read :: "(u32 \<Rightarrow> u8) \<Rightarrow> u32 \<Rightarrow> bytes \<Rightarrow> nat \<Rightarrow> bytes" where
  "tcdm_read mem addr dst n = (\<lambda>q. if q < n then mem (addr + of_nat q) else dst q)"

definition send_tcdm_req :: "u32 \<Rightarrow> redmule \<Rightarrow> redmule" where
  "send_tcdm_req addr s =
     (if req_is_write s
      then s\<lparr>tcdm := tcdm_write (tcdm s) addr (access_buffer s) (unat (req_size s)), tcdm_count := tcdm_count s + 1\<rparr>
      else s\<lparr>access_buffer := tcdm_read (tcdm s) addr (access_buffer s) (unat (req_size s)),
             tcdm_count := tcdm_count s + 1\<rparr>)"

text \<open>Form the request, send it and process the data: after the access in \<open>PRELOAD\<close>, before a store and after
  a load in \<open>ROUTINE\<close>, before the store in \<open>STORING\<close>.\<close>

definition request :: "rm_conf \<Rightarrow> rm_arith \<Rightarrow> tcdm_env \<Rightarrow> redmule \<Rightarrow> redmule option" where
  "request c a E s =
     do {
       (addr, s1) \<leftarrow> next_addr c s;
       let s2 = (if compute_able s1 \<noteq> 0 \<and> fsm_state s1 \<noteq> PRELOAD \<and> iter_instr s1 = INSTR_STOR_Z
                 then process_iter_instruction c a s1 else s1);
       let s3 = send_tcdm_req addr s2;
       if \<not> tcdm_ok E (tcdm_count s) then None
       else Some (if compute_able s3 \<noteq> 0 \<and>
                    (fsm_state s3 = PRELOAD \<or> (fsm_state s3 = ROUTINE \<and> iter_instr s3 \<noteq> INSTR_STOR_Z))
                  then process_iter_instruction c a s3 else s3)
     }"

text \<open>The send part of a phase, the pending queue included, and the receive part.\<close>

definition send :: "rm_conf \<Rightarrow> rm_arith \<Rightarrow> tcdm_env \<Rightarrow> redmule \<Rightarrow> redmule option" where
  "send c a E s =
     (if fsm_counter s < tcdm_block_total s \<and> length (pending_req_queue s) \<le> unat (queue_depth c) then
        do {
          s' \<leftarrow> request c a E s;
          Some (s'\<lparr>pending_req_queue := pending_req_queue s' @ [tcdm_latency E (tcdm_count s) + fsm_timestamp s'],
                  fsm_counter := fsm_counter s' + 1\<rparr>)
        }
      else Some s)"

definition receive :: "redmule \<Rightarrow> redmule" where
  "receive s = s\<lparr>pending_req_queue := dropWhile (\<lambda>t. t \<le> fsm_timestamp s) (pending_req_queue s)\<rparr>"

definition phase_over :: "redmule \<Rightarrow> bool" where
  "phase_over s = (fsm_counter s \<ge> tcdm_block_total s \<and> pending_req_queue s = [])"

subsection \<open>The state machine\<close>

definition forward_yz :: "rm_conf \<Rightarrow> rm_arith \<Rightarrow> redmule \<Rightarrow> redmule" where
  "forward_yz c a s = process_iter_instruction c a (s\<lparr>iter_instr := INSTR_FORWARD_YZ\<rparr>)"

definition preload_jump :: "rm_conf \<Rightarrow> rm_arith \<Rightarrow> redmule \<Rightarrow> redmule \<times> int" where
  "preload_jump c a s =
     (let (n, s1) = get_routine_access_block_number c s;
          s2 = s1\<lparr>tcdm_block_total := n, fsm_counter := 0, fsm_timestamp := 0, fsm_state := ROUTINE\<rparr>
      in (if compute_able s2 \<noteq> 0 then forward_yz c a s2 else s2, 1))"

definition routine_jump :: "rm_conf \<Rightarrow> rm_arith \<Rightarrow> redmule \<Rightarrow> redmule \<times> int" where
  "routine_jump c a s =
     (let modeled_runtime = get_redmule_array_runtime c s;
          latency = (if fsm_timestamp s \<ge> modeled_runtime then 1
                     else uint (modeled_runtime - fsm_timestamp s + 1));
          s1 = s\<lparr>fsm_counter := 0, fsm_timestamp := 0\<rparr>;
          s2 = (if compute_able s1 \<noteq> 0 \<and> iter_k s1 + 1 = x_row_tiles s1 then forward_yz c a s1 else s1);
          (done, s3) = next_iteration s2
      in if \<not> done then
           (let (n, s4) = get_routine_access_block_number c s3
            in (s4\<lparr>tcdm_block_total := n, fsm_state := ROUTINE\<rparr>, latency))
         else
           (let (n, s4) = get_storing_access_block_number c s3
            in (s4\<lparr>tcdm_block_total := n, fsm_state := STORING\<rparr>, latency + uint (get_routine_to_storing_latency c))))"

definition storing_jump :: "redmule \<Rightarrow> redmule \<times> int" where
  "storing_jump s =
     (s\<lparr>tcdm_block_total := 0, fsm_counter := 0, fsm_timestamp := 0, fsm_state := FINISHED\<rparr>, 1)"

definition phase_step :: "rm_conf \<Rightarrow> rm_arith \<Rightarrow> tcdm_env \<Rightarrow> (redmule \<Rightarrow> redmule \<times> int) \<Rightarrow> redmule \<Rightarrow>
    (redmule \<times> int option) option" where
  "phase_step c a E jump s =
     do {
       s1 \<leftarrow> send c a E s;
       let s2 = receive s1;
       Some (if phase_over s2 then map_prod id Some (jump s2) else (s2, Some 1))
     }"

definition fsm_handler :: "rm_conf \<Rightarrow> rm_arith \<Rightarrow> tcdm_env \<Rightarrow> redmule \<Rightarrow> (redmule \<times> int option) option" where
  "fsm_handler c a E s0 =
     (let s = s0\<lparr>fsm_timestamp := fsm_timestamp s0 + 1\<rparr> in
      case fsm_state s of
        IDLE \<Rightarrow> Some (s, None)
      | PRELOAD \<Rightarrow> phase_step c a E (preload_jump c a) s
      | ROUTINE \<Rightarrow> phase_step c a E (routine_jump c a) s
      | STORING \<Rightarrow> phase_step c a E storing_jump s
      | FINISHED \<Rightarrow> Some (if redmule_query s then s\<lparr>fsm_state := ACKNOWLEDGE\<rparr> else s, Some 1)
      | ACKNOWLEDGE \<Rightarrow> Some (s\<lparr>replies := replies s + 1, redmule_query := False, fsm_state := IDLE\<rparr>, None))"

subsection \<open>Requests from the cores\<close>

text \<open>What every trigger does once the sizes have been checked.\<close>

definition trigger_fsm :: "rm_conf \<Rightarrow> redmule \<Rightarrow> redmule option" where
  "trigger_fsm c s =
     (if m_size s = 0 \<or> n_size s = 0 \<or> k_size s = 0 then None
      else (let s1 = (init_redmule_meta_data c s)\<lparr>fsm_state := PRELOAD\<rparr>;
                (n, s2) = get_preload_access_block_number c s1
            in Some (s2\<lparr>tcdm_block_total := n, fsm_counter := 0, fsm_timestamp := 0\<rparr>)))"

text \<open>The accelerator port of a core (the custom instructions): offset and data of the request.\<close>

definition core_acc_req :: "rm_conf \<Rightarrow> u64 \<Rightarrow> bytes \<Rightarrow> redmule \<Rightarrow> (io_status \<times> redmule \<times> int option) option" where
  "core_acc_req c offset data s =
     (if offset = 0 then
        Some (IO_REQ_OK,
          if fsm_state s = IDLE
          then s\<lparr>m_size := ucast (get16 data 0), n_size := ucast (get16 data 1), k_size := ucast (get16 data 2)\<rparr>
          else s, None)
      else if offset = 4 \<and> fsm_state s = IDLE then
        (let s1 = s\<lparr>x_addr := get32 data 0, w_addr := get32 data 1, y_addr := get32 data 2, z_addr := get32 data 2,
                   compute_able := get32 data 3, elem_size := (if get32 data 3 < 4 then 2 else 1)\<rparr>
         in case trigger_fsm c s1 of None \<Rightarrow> None | Some s2 \<Rightarrow> Some (IO_REQ_OK, s2, Some 1))
      else Some (IO_REQ_OK, s, None))"

text \<open>The register port.  The last branch does not look at the direction of the access.\<close>

definition reg_req :: "rm_conf \<Rightarrow> u64 \<Rightarrow> bytes \<Rightarrow> bool \<Rightarrow> redmule \<Rightarrow> (io_status \<times> redmule \<times> int option) option" where
  "reg_req c offset data is_write s =
     (if \<not> is_write \<and> offset = 32 \<and> \<not> redmule_query s \<and> fsm_state s = IDLE then
        (case trigger_fsm c s of None \<Rightarrow> None
         | Some s1 \<Rightarrow> Some (IO_REQ_PENDING, s1\<lparr>compute_able := 0, redmule_query := True\<rparr>, Some 1))
      else if \<not> is_write \<and> offset = 36 \<and> fsm_state s = IDLE then
        (case trigger_fsm c s of None \<Rightarrow> None
         | Some s1 \<Rightarrow> Some (IO_REQ_OK, s1\<lparr>compute_able := 0\<rparr>, Some 1))
      else if \<not> is_write \<and> offset = 40 \<and> \<not> redmule_query s \<and> fsm_state s \<noteq> IDLE then
        Some (IO_REQ_PENDING, s\<lparr>redmule_query := True\<rparr>, None)
      else
        (let v = get32 data 0 in
         Some (IO_REQ_OK,
           if offset = 0 then s\<lparr>m_size := v\<rparr>
           else if offset = 4 then s\<lparr>n_size := v\<rparr>
           else if offset = 8 then s\<lparr>k_size := v\<rparr>
           else if offset = 12 then s\<lparr>x_addr := v\<rparr>
           else if offset = 16 then s\<lparr>y_addr := v\<rparr>
           else if offset = 20 then s\<lparr>z_addr := v\<rparr>
           else if offset = 24 then s\<lparr>w_addr := v\<rparr>
           else s, None)))"

subsection \<open>The constructor\<close>

text \<open>The state after the constructor.  The buffers come from \<open>new uint8_t[]\<close> and hold whatever the
  allocator left there; \<open>e\<close> is the configured element size, \<open>mem\<close> the memory behind the port.\<close>

definition redmule_init ::
    "u32 \<Rightarrow> bytes \<Rightarrow> bytes \<Rightarrow> bytes \<Rightarrow> bytes \<Rightarrow> bytes \<Rightarrow> bytes \<Rightarrow> (u32 \<Rightarrow> u8) \<Rightarrow> redmule" where
  "redmule_init e ab y w x zc zp mem =
     \<lparr>fsm_state = IDLE, tcdm_block_total = 0, fsm_counter = 0, fsm_timestamp = 0, pending_req_queue = [],
      elem_size = e, compute_able = 0, m_size = 4, n_size = 4, k_size = 4, x_addr = 0, w_addr = 0, y_addr = 0, z_addr = 0,
      x_row_tiles = 0, x_row_lefts = 0, x_col_tiles = 0, x_col_lefts = 0,
      w_row_tiles = 0, w_row_lefts = 0, w_col_tiles = 0, w_col_lefts = 0,
      z_row_tiles = 0, z_row_lefts = 0, z_col_tiles = 0, z_col_lefts = 0,
      iter_i = 0, iter_j = 0, iter_k = 0, iter_x_addr = 0, iter_w_addr = 0, iter_y_addr = 0, iter_z_addr = 0,
      x_acc_block = 0, w_acc_block = 0, y_acc_block = 0, z_acc_block = 0, z_store_width = 0, z_store_height = 0,
      iter_instr = INSTR_LOAD_Y, iter_x_row_ptr = 0, iter_w_row_ptr = 0, iter_y_row_ptr = 0, iter_z_row_ptr = 0,
      ideal_macs = 0, access_buffer = ab, y_buffer_preload = y, w_buffer = w, x_buffer = x,
      z_buffer_compute = zc, z_buffer_previos = zp, req_is_write = False, req_size = 0, redmule_query = False,
      replies = 0, tcdm = mem, tcdm_count = 0\<rparr>"

end
