(* ===== verification/Sim_Redmule_Time.thy ===== *)
theory Sim_Redmule_Time
  imports Sim_Redmule
begin

text \<open>
  Time in the engine of \<open>Sim_Redmule\<close>.  The clock calls the handler only at the cycle of the event the last call
  has enqueued; a call that enqueues none is the last one until a request enqueues an event again.  The data a phase
  moves does not depend on when its requests are answered: a phase of \<open>T\<close> requests ends, after at most
  \<open>T * (L + 1)\<close> calls of the handler in consecutive cycles when no latency exceeds \<open>L\<close>, in the state that \<open>T\<close>
  requests in a row give (\<open>phase_runs\<close>).
\<close>

subsection \<open>Timing fields\<close>

definition timed :: "u32 \<Rightarrow> u32 \<Rightarrow> u32 list \<Rightarrow> redmule \<Rightarrow> redmule" where
  "timed t k q s = s\<lparr>fsm_timestamp := t, fsm_counter := k, pending_req_queue := q\<rparr>"

lemma timed_timed [simp]: "timed t k q (timed t' k' q' s) = timed t k q s"
  by (simp add: timed_def)

lemma timed_sel [simp]:
  "fsm_timestamp (timed t k q s) = t" "fsm_counter (timed t k q s) = k" "pending_req_queue (timed t k q s) = q"
  "fsm_state (timed t k q s) = fsm_state s" "tcdm_block_total (timed t k q s) = tcdm_block_total s"
  "tcdm_count (timed t k q s) = tcdm_count s" "compute_able (timed t k q s) = compute_able s"
  "iter_instr (timed t k q s) = iter_instr s"
  by (simp_all add: timed_def)

lemma next_addr_timed:
  "next_addr c (timed t k q s) = map_option (map_prod id (timed t k q)) (next_addr c s)"
  by (simp add: next_addr_def timed_def inc_addr_def buffer_n_def)

lemma process_timed:
  "process_iter_instruction c a (timed t k q s) = timed t k q (process_iter_instruction c a s)"
  by (cases "iter_instr s")
    (simp_all add: process_iter_instruction_def process_compute_def timed_def buffer_n_def Let_def cong: if_cong)

lemma send_tcdm_timed: "send_tcdm_req addr (timed t k q s) = timed t k q (send_tcdm_req addr s)"
  by (simp add: send_tcdm_req_def timed_def)

lemma request_timed: "request c a E (timed t k q s) = map_option (timed t k q) (request c a E s)"
  by (cases "next_addr c s")
    (auto simp: request_def next_addr_timed process_timed send_tcdm_timed Let_def split: prod.splits)

text \<open>What a request never changes.\<close>

lemma next_addr_frame:
  "next_addr c s = Some (x, s') \<Longrightarrow>
     fsm_state s' = fsm_state s \<and> tcdm_block_total s' = tcdm_block_total s \<and> tcdm_count s' = tcdm_count s"
  by (auto simp: next_addr_def split: if_splits)

lemma process_frame:
  "fsm_state (process_iter_instruction c a s) = fsm_state s"
  "tcdm_block_total (process_iter_instruction c a s) = tcdm_block_total s"
  "tcdm_count (process_iter_instruction c a s) = tcdm_count s"
  by (cases "iter_instr s"; simp add: process_iter_instruction_def process_compute_def Let_def)+

lemma request_frame:
  "request c a E s = Some s' \<Longrightarrow>
     fsm_state s' = fsm_state s \<and> tcdm_block_total s' = tcdm_block_total s"
  by (auto simp: request_def send_tcdm_req_def process_frame Let_def
      split: Option.bind_splits prod.splits if_splits dest!: next_addr_frame)

subsection \<open>Requests in a row, and runs of the handler\<close>

primrec requests :: "rm_conf \<Rightarrow> rm_arith \<Rightarrow> tcdm_env \<Rightarrow> nat \<Rightarrow> redmule \<Rightarrow> redmule option" where
  "requests c a E 0 s = Some s"
| "requests c a E (Suc n) s = do { s' \<leftarrow> request c a E s; requests c a E n s' }"

lemma requests_add:
  "requests c a E (m + n) s = do { s' \<leftarrow> requests c a E m s; requests c a E n s' }"
  by (induction m arbitrary: s) (simp_all cong: Option.bind_cong)

primrec run_fsm :: "rm_conf \<Rightarrow> rm_arith \<Rightarrow> tcdm_env \<Rightarrow> nat \<Rightarrow> redmule \<Rightarrow> redmule option" where
  "run_fsm c a E 0 s = Some s"
| "run_fsm c a E (Suc n) s = do { (s', _) \<leftarrow> fsm_handler c a E s; run_fsm c a E n s' }"

lemma run_fsm_add:
  "run_fsm c a E (m + n) s = do { s' \<leftarrow> run_fsm c a E m s; run_fsm c a E n s' }"
proof (induction m arbitrary: s)
  case (Suc m)
  show ?case by (cases "fsm_handler c a E s") (auto simp: Suc split: prod.splits)
qed simp

text \<open>The engine on its clock: the cycles until its event, if one is enqueued, and its state.\<close>

type_synonym clocked = "int option \<times> redmule"

fun clock_cycle :: "rm_conf \<Rightarrow> rm_arith \<Rightarrow> tcdm_env \<Rightarrow> clocked \<Rightarrow> clocked option" where
  "clock_cycle c a E (None, s) = Some (None, s)"
| "clock_cycle c a E (Some d, s) =
     (if d \<le> 1 then map_option (\<lambda>(s', event). (event, s')) (fsm_handler c a E s) else Some (Some (d - 1), s))"

primrec run_clock :: "rm_conf \<Rightarrow> rm_arith \<Rightarrow> tcdm_env \<Rightarrow> nat \<Rightarrow> clocked \<Rightarrow> clocked option" where
  "run_clock c a E 0 x = Some x"
| "run_clock c a E (Suc n) x = do { x' \<leftarrow> clock_cycle c a E x; run_clock c a E n x' }"

lemma run_clock_add:
  "run_clock c a E (m + n) x = do { x' \<leftarrow> run_clock c a E m x; run_clock c a E n x' }"
  by (induction m arbitrary: x) (simp_all cong: Option.bind_cong)

lemma clock_waits: "1 \<le> d \<Longrightarrow> run_clock c a E (nat (d - 1)) (Some d, s) = Some (Some 1, s)"
proof (induction "nat (d - 1)" arbitrary: d)
  case (Suc n)
  then have "1 < d" "nat (d - 1) = Suc (nat (d - 1 - 1))" "n = nat (d - 1 - 1)" by simp_all
  then show ?case using Suc.hyps(1) [of "d - 1"] by simp
qed simp

lemma clock_stopped: "run_clock c a E n (None, s) = Some (None, s)"
  by (induction n) simp_all

text \<open>\<open>n\<close> calls of the handler in consecutive cycles, the last of which enqueues an event in \<open>d\<close> cycles; a run
  of \<open>n\<close> calls in \<open>m\<close> cycles, up to the next one.\<close>

definition engine_calls :: "rm_conf \<Rightarrow> rm_arith \<Rightarrow> tcdm_env \<Rightarrow> nat \<Rightarrow> redmule \<Rightarrow> int \<Rightarrow> redmule \<Rightarrow> bool" where
  "engine_calls c a E n s d s' = (run_fsm c a E n s = Some s' \<and> run_clock c a E n (Some 1, s) = Some (Some d, s'))"

definition engine_reaches :: "rm_conf \<Rightarrow> rm_arith \<Rightarrow> tcdm_env \<Rightarrow> nat \<Rightarrow> nat \<Rightarrow> redmule \<Rightarrow> redmule \<Rightarrow> bool" where
  "engine_reaches c a E n m s s' = (run_fsm c a E n s = Some s' \<and> run_clock c a E m (Some 1, s) = Some (Some 1, s'))"

lemma calls_one: "fsm_handler c a E s = Some (s', Some d) \<Longrightarrow> engine_calls c a E 1 s d s'"
  by (simp add: engine_calls_def)

lemma calls_Suc: "fsm_handler c a E s = Some (s1, Some 1) \<Longrightarrow> engine_calls c a E n s1 d s' \<Longrightarrow> engine_calls c a E (Suc n) s d s'"
  by (simp add: engine_calls_def)

lemma calls_reaches: "engine_calls c a E n s d s' \<Longrightarrow> 1 \<le> d \<Longrightarrow> engine_reaches c a E n (n + nat (d - 1)) s s'"
  by (simp add: engine_calls_def engine_reaches_def run_clock_add clock_waits)

lemma reaches_trans: "engine_reaches c a E n m s s1 \<Longrightarrow> engine_reaches c a E n' m' s1 s' \<Longrightarrow> engine_reaches c a E (n + n') (m + m') s s'"
  by (simp add: engine_reaches_def run_clock_add run_fsm_add)

definition jump_of :: "rm_conf \<Rightarrow> rm_arith \<Rightarrow> redmule_state \<Rightarrow> redmule \<Rightarrow> redmule \<times> int" where
  "jump_of c a st =
     (if st = PRELOAD then preload_jump c a else if st = ROUTINE then routine_jump c a else storing_jump)"

abbreviation in_phase :: "redmule_state \<Rightarrow> bool" where
  "in_phase st \<equiv> st = PRELOAD \<or> st = ROUTINE \<or> st = STORING"

lemma handler_in_phase:
  "in_phase (fsm_state s) \<Longrightarrow> fsm_handler c a E s =
     phase_step c a E (jump_of c a (fsm_state s)) (s\<lparr>fsm_timestamp := fsm_timestamp s + 1\<rparr>)"
  by (auto simp: fsm_handler_def jump_of_def)

lemma timed_tick:
  "(timed t k q s)\<lparr>fsm_timestamp := t'\<rparr> = timed t' k q s"
  by (simp add: timed_def)

lemma timed_push:
  "(timed t k q s)\<lparr>pending_req_queue := q', fsm_counter := k'\<rparr> = timed t k' q' s"
  by (simp add: timed_def)

lemma receive_timed: "receive (timed t k q s) = timed t k (dropWhile (\<lambda>x. x \<le> t) q) s"
  by (simp add: receive_def timed_def)

lemma send_timed:
  "send c a E (timed t k q s) =
     (if k < tcdm_block_total s \<and> length q \<le> unat (queue_depth c)
      then map_option (timed t (k + 1) (q @ [tcdm_latency E (tcdm_count s) + t])) (request c a E s)
      else Some (timed t k q s))"
  by (cases "request c a E s") (simp_all add: send_def request_timed timed_push)

text \<open>One call of the handler in a phase: the next request if the queue has room, then the answers.\<close>

lemma handler_timed:
  assumes "in_phase (fsm_state s)"
  shows "fsm_handler c a E (timed t k q s) =
    do {
      (k', q', s') \<leftarrow>
        (if k < tcdm_block_total s \<and> length q \<le> unat (queue_depth c)
         then map_option (\<lambda>s'. (k + 1, q @ [tcdm_latency E (tcdm_count s) + (t + 1)], s')) (request c a E s)
         else Some (k, q, s));
      let q'' = dropWhile (\<lambda>x. x \<le> t + 1) q';
      let s'' = timed (t + 1) k' q'' s';
      Some (if tcdm_block_total s' \<le> k' \<and> q'' = [] then map_prod id Some (jump_of c a (fsm_state s) s'') else (s'', Some 1))
    }"
proof (cases "k < tcdm_block_total s \<and> length q \<le> unat (queue_depth c)")
  case True
  then show ?thesis
    by (cases "request c a E s")
      (simp_all add: handler_in_phase assms timed_tick phase_step_def send_timed receive_timed phase_over_def Let_def)
next
  case False
  then show ?thesis
    by (simp add: handler_in_phase assms timed_tick phase_step_def send_timed receive_timed phase_over_def Let_def if_not_P)
qed

subsection \<open>A phase ends\<close>

text \<open>
  \<open>b\<close> bounds the stamps in the queue: \<open>b + r * (L + 1)\<close>, with \<open>r\<close> the requests still to come, never
  grows, and minus the time it shrinks with every call.
\<close>

lemma hd_dropWhile_le: "dropWhile (\<lambda>x. x \<le> t) q \<noteq> [] \<Longrightarrow> (t :: u32) < hd (dropWhile (\<lambda>x. x \<le> t) q)"
  using hd_dropWhile [of "\<lambda>x. x \<le> t" q] by simp

lemma phase_runs:
  assumes lat: "\<forall>i. unat (tcdm_latency E i) \<le> L" and st: "in_phase (fsm_state s)"
    and req: "requests c a E r s = Some s'" and tot: "unat (tcdm_block_total s) = T" "r \<le> T"
    and q: "\<forall>x\<in>set q. unat x \<le> b" "q \<noteq> [] \<Longrightarrow> t < hd q" "0 < r \<or> q \<noteq> []"
    and tb: "unat t \<le> b" and bound: "b + r * (L + 1) \<le> T * (L + 1)" "T * (L + 1) < 4294967296"
  shows "\<exists>n t'. n \<le> r * (L + 1) + (b - unat t) \<and> 0 < unat t' \<and>
      engine_calls c a E n (timed t (of_nat (T - r)) q s) (snd (jump_of c a (fsm_state s) (timed t' (of_nat T) [] s')))
        (fst (jump_of c a (fsm_state s) (timed t' (of_nat T) [] s')))"
  using req st tot q tb bound(1)
proof (induction "r * (L + 1) + (b - unat t)" arbitrary: r s q t b rule: less_induct)
  case less
  have T: "T < 4294967296" using bound(2) by (cases T) simp_all
  let ?k = "of_nat (T - r) :: u32"
  have k: "unat ?k = T - r" using T by (intro unat_of_nat32) simp
  have k_lt: "?k < tcdm_block_total s \<longleftrightarrow> 0 < r"
    unfolding word_less_nat_alt k using less.prems(3,4) by linarith
  have advance: ?case
    if h: "fsm_handler c a E (timed t ?k q s) =
        Some (let q'' = dropWhile (\<lambda>x. x \<le> t + 1) q'; s'' = timed (t + 1) (of_nat (T - r')) q'' s1
          in if tcdm_block_total s1 \<le> of_nat (T - r') \<and> q'' = []
             then map_prod id Some (jump_of c a (fsm_state s) s'') else (s'', Some 1))"
      and s1: "requests c a E r' s1 = Some s'" "fsm_state s1 = fsm_state s" "tcdm_block_total s1 = tcdm_block_total s"
      and r': "r' \<le> r" and q': "\<forall>x\<in>set q'. unat x \<le> b'" and tb': "unat t + 1 \<le> b'"
      and b': "b' + r' * (L + 1) \<le> T * (L + 1)" and less': "r' * (L + 1) + (b' - (unat t + 1)) < r * (L + 1) + (b - unat t)"
    for r' q' b' s1
  proof -
    let ?q = "dropWhile (\<lambda>x. x \<le> t + 1) q'" and ?s = "timed (t + 1) (of_nat (T - r')) (dropWhile (\<lambda>x. x \<le> t + 1) q') s1"
    have "unat t + 1 < 4294967296" using tb' b' bound(2) by linarith
    then have t1: "unat (t + 1) = unat t + 1" by (subst unat_add32) simp_all
    have k': "unat (of_nat (T - r') :: u32) = T - r'" using T by (intro unat_of_nat32) simp
    have over: "tcdm_block_total s1 \<le> of_nat (T - r') \<longleftrightarrow> r' = 0"
      unfolding word_le_nat_alt k' s1(3) less.prems(3) using less.prems(4) r' by linarith
    show ?thesis
    proof (cases "r' = 0 \<and> ?q = []")
      case True
      then have "tcdm_block_total s1 \<le> of_nat (T - r') \<and> ?q = []" using over by blast
      moreover have "s1 = s'" using True s1(1) by simp
      ultimately have "fsm_handler c a E (timed t ?k q s) =
          Some (map_prod id Some (jump_of c a (fsm_state s) (timed (t + 1) (of_nat T) [] s')))"
        using True unfolding h by (simp only: Let_def if_True diff_zero simp_thms)
      then have "engine_calls c a E 1 (timed t ?k q s) (snd (jump_of c a (fsm_state s) (timed (t + 1) (of_nat T) [] s')))
          (fst (jump_of c a (fsm_state s) (timed (t + 1) (of_nat T) [] s')))"
        by (intro calls_one) (simp only: map_prod_def case_prod_beta' id_apply)
      moreover have "1 \<le> r * (L + 1) + (b - unat t)" "0 < unat (t + 1)" using less' t1 by simp_all
      ultimately show ?thesis by blast
    next
      case False
      have step: "fsm_handler c a E (timed t ?k q s) = Some (?s, Some 1)"
        unfolding h Let_def if_not_P [OF False [folded over]] by (rule refl)
      have "\<exists>n t'. n \<le> r' * (L + 1) + (b' - unat (t + 1)) \<and> 0 < unat t' \<and>
          engine_calls c a E n ?s (snd (jump_of c a (fsm_state s1) (timed t' (of_nat T) [] s')))
            (fst (jump_of c a (fsm_state s1) (timed t' (of_nat T) [] s')))"
      proof (rule less.hyps [OF _ s1(1)])
        show "r' * (L + 1) + (b' - unat (t + 1)) < r * (L + 1) + (b - unat t)" using less' t1 by simp
        show "in_phase (fsm_state s1)" using less.prems(2) s1(2) by simp
        show "unat (tcdm_block_total s1) = T" "r' \<le> T" using less.prems(3,4) s1(3) r' by simp_all
        show "\<forall>x\<in>set ?q. unat x \<le> b'" using q' by (auto dest: set_dropWhileD)
        show "?q \<noteq> [] \<Longrightarrow> t + 1 < hd ?q" by (rule hd_dropWhile_le)
        show "0 < r' \<or> ?q \<noteq> []" using False by (simp add: neq0_conv [symmetric] del: neq0_conv)
        show "unat (t + 1) \<le> b'" using t1 tb' by simp
        show "b' + r' * (L + 1) \<le> T * (L + 1)" by (rule b')
      qed
      then obtain n t' where n: "n \<le> r' * (L + 1) + (b' - unat (t + 1))" "0 < unat t'"
        "engine_calls c a E n ?s (snd (jump_of c a (fsm_state s) (timed t' (of_nat T) [] s')))
          (fst (jump_of c a (fsm_state s) (timed t' (of_nat T) [] s')))"
        unfolding s1(2) by blast
      have "Suc n \<le> r * (L + 1) + (b - unat t)" using n(1) less' t1 by simp
      then show ?thesis using n(2) calls_Suc [OF step n(3)] by blast
    qed
  qed
  show ?case
  proof (cases "0 < r \<and> length q \<le> unat (queue_depth c)")
    case True
    then obtain r' where r: "r = Suc r'" by (cases r) auto
    obtain s1 where s1: "request c a E s = Some s1" "requests c a E r' s1 = Some s'"
      using less.prems(1) by (auto simp: r split: Option.bind_splits)
    note fr = request_frame [OF s1(1)]
    let ?x = "tcdm_latency E (tcdm_count s) + (t + 1)"
    let ?b = "max b (unat t + 1 + L)"
    have lt: "unat (tcdm_latency E (tcdm_count s)) \<le> L" using lat by simp
    have small: "unat t + 1 + L < 4294967296" using less.prems(8,9) bound(2) r by simp
    then have "unat (t + 1) = unat t + 1" by (subst unat_add32) simp_all
    then have x: "unat ?x \<le> unat t + 1 + L" using lt small by (subst unat_add32) simp_all
    have k1: "?k + 1 = of_nat (T - r')" using less.prems(4) r by (simp add: Suc_diff_Suc)
    show ?thesis
    proof (rule advance [where r' = r' and ?s1.0 = s1 and b' = ?b and q' = "q @ [?x]"])
      show "fsm_handler c a E (timed t ?k q s) =
        Some (let q'' = dropWhile (\<lambda>x. x \<le> t + 1) (q @ [?x]); s'' = timed (t + 1) (of_nat (T - r')) q'' s1
          in if tcdm_block_total s1 \<le> of_nat (T - r') \<and> q'' = []
             then map_prod id Some (jump_of c a (fsm_state s) s'') else (s'', Some 1))"
        unfolding handler_timed [OF less.prems(2)] using True k_lt s1(1) k1 by (simp add: Let_def add.commute)
      show "\<forall>x\<in>set (q @ [?x]). unat x \<le> ?b" using less.prems(5) x by auto
    qed (use s1 fr r less.prems(8,9) in auto)
  next
    case False
    then have q: "q \<noteq> []" using less.prems(7) by (cases q) auto
    have "unat t < unat (hd q)" "unat (hd q) \<le> b"
      using less.prems(5,6) q by (simp_all add: word_less_nat_alt)
    then have tb: "unat t < b" by simp
    show ?thesis
    proof (rule advance [where r' = r and ?s1.0 = s and b' = b and q' = q])
      show "fsm_handler c a E (timed t ?k q s) =
        Some (let q'' = dropWhile (\<lambda>x. x \<le> t + 1) q; s'' = timed (t + 1) (of_nat (T - r)) q'' s
          in if tcdm_block_total s \<le> of_nat (T - r) \<and> q'' = []
             then map_prod id Some (jump_of c a (fsm_state s) s'') else (s'', Some 1))"
        unfolding handler_timed [OF less.prems(2)] using False k_lt by (auto simp: Let_def)
    qed (use less.prems tb in auto)
  qed
qed

text \<open>A whole phase, from the point where the previous one handed over.\<close>

lemma phase_whole:
  assumes "\<forall>i. unat (tcdm_latency E i) \<le> L" and "in_phase (fsm_state s)" and "0 < T"
    and "requests c a E T s = Some s'" and "unat (tcdm_block_total s) = T" and "T * (L + 1) < 4294967296"
  shows "\<exists>n t. n \<le> T * (L + 1) \<and> 0 < unat t \<and> engine_calls c a E n (timed 0 0 [] s)
      (snd (jump_of c a (fsm_state s) (timed t (of_nat T) [] s'))) (fst (jump_of c a (fsm_state s) (timed t (of_nat T) [] s')))"
  using phase_runs [OF assms(1,2,4,5), of "[]" 0 0] assms(3,6) by simp

end
