(* ===== verification/Sim_Redmule_Data.thy ===== *)
theory Sim_Redmule_Data
  imports Sim_Redmule_Time
begin

text \<open>
  What the requests of a phase do to the buffers and the memory, block by block: Y rows, W rows with the
  tile product at the end, X rows, Z rows.  \<open>scr\<close> hides the fields that only carry one request.
\<close>

subsection \<open>One request\<close>

definition scr :: "bytes \<times> nat \<times> iter_instruction \<times> bool \<times> u32 \<Rightarrow> redmule \<Rightarrow> redmule" where
  "scr \<sigma> s = (case \<sigma> of (ab, n, ins, wr, sz) \<Rightarrow>
     s\<lparr>iter_instr := ins, access_buffer := ab, req_is_write := wr, req_size := sz, tcdm_count := n\<rparr>)"

lemma scr_sel [simp]:
  "fsm_state (scr \<sigma> s) = fsm_state s" "tcdm_block_total (scr \<sigma> s) = tcdm_block_total s" "fsm_counter (scr \<sigma> s) = fsm_counter s"
  "fsm_timestamp (scr \<sigma> s) = fsm_timestamp s" "pending_req_queue (scr \<sigma> s) = pending_req_queue s" "elem_size (scr \<sigma> s) = elem_size s"
  "compute_able (scr \<sigma> s) = compute_able s" "m_size (scr \<sigma> s) = m_size s" "n_size (scr \<sigma> s) = n_size s"
  "k_size (scr \<sigma> s) = k_size s" "x_addr (scr \<sigma> s) = x_addr s" "w_addr (scr \<sigma> s) = w_addr s"
  "y_addr (scr \<sigma> s) = y_addr s" "z_addr (scr \<sigma> s) = z_addr s" "x_row_tiles (scr \<sigma> s) = x_row_tiles s"
  "x_row_lefts (scr \<sigma> s) = x_row_lefts s" "x_col_tiles (scr \<sigma> s) = x_col_tiles s" "z_row_tiles (scr \<sigma> s) = z_row_tiles s"
  "z_col_tiles (scr \<sigma> s) = z_col_tiles s" "iter_i (scr \<sigma> s) = iter_i s" "iter_j (scr \<sigma> s) = iter_j s"
  "iter_k (scr \<sigma> s) = iter_k s" "iter_x_addr (scr \<sigma> s) = iter_x_addr s" "iter_w_addr (scr \<sigma> s) = iter_w_addr s"
  "iter_y_addr (scr \<sigma> s) = iter_y_addr s" "iter_z_addr (scr \<sigma> s) = iter_z_addr s" "x_acc_block (scr \<sigma> s) = x_acc_block s"
  "w_acc_block (scr \<sigma> s) = w_acc_block s" "y_acc_block (scr \<sigma> s) = y_acc_block s" "z_acc_block (scr \<sigma> s) = z_acc_block s"
  "z_store_width (scr \<sigma> s) = z_store_width s" "z_store_height (scr \<sigma> s) = z_store_height s" "iter_x_row_ptr (scr \<sigma> s) = iter_x_row_ptr s"
  "iter_w_row_ptr (scr \<sigma> s) = iter_w_row_ptr s" "iter_y_row_ptr (scr \<sigma> s) = iter_y_row_ptr s" "iter_z_row_ptr (scr \<sigma> s) = iter_z_row_ptr s"
  "y_buffer_preload (scr \<sigma> s) = y_buffer_preload s" "w_buffer (scr \<sigma> s) = w_buffer s" "x_buffer (scr \<sigma> s) = x_buffer s"
  "z_buffer_compute (scr \<sigma> s) = z_buffer_compute s" "z_buffer_previos (scr \<sigma> s) = z_buffer_previos s" "redmule_query (scr \<sigma> s) = redmule_query s"
  "replies (scr \<sigma> s) = replies s" "tcdm (scr \<sigma> s) = tcdm s"
  by (simp_all add: scr_def split: prod.split)

lemma scr_upd [simp]:
  "(scr \<sigma> s)\<lparr>y_buffer_preload := b\<rparr> = scr \<sigma> (s\<lparr>y_buffer_preload := b\<rparr>)"
  "(scr \<sigma> s)\<lparr>x_buffer := b\<rparr> = scr \<sigma> (s\<lparr>x_buffer := b\<rparr>)"
  "(scr \<sigma> s)\<lparr>w_buffer := b\<rparr> = scr \<sigma> (s\<lparr>w_buffer := b\<rparr>)"
  "(scr \<sigma> s)\<lparr>z_buffer_compute := b\<rparr> = scr \<sigma> (s\<lparr>z_buffer_compute := b\<rparr>)"
  "(scr \<sigma> s)\<lparr>z_buffer_previos := b\<rparr> = scr \<sigma> (s\<lparr>z_buffer_previos := b\<rparr>)"
  "(scr \<sigma> s)\<lparr>tcdm := m\<rparr> = scr \<sigma> (s\<lparr>tcdm := m\<rparr>)"
  "(scr \<sigma> s)\<lparr>iter_y_row_ptr := v\<rparr> = scr \<sigma> (s\<lparr>iter_y_row_ptr := v\<rparr>)"
  "(scr \<sigma> s)\<lparr>iter_x_row_ptr := v\<rparr> = scr \<sigma> (s\<lparr>iter_x_row_ptr := v\<rparr>)"
  "(scr \<sigma> s)\<lparr>iter_w_row_ptr := v\<rparr> = scr \<sigma> (s\<lparr>iter_w_row_ptr := v\<rparr>)"
  "(scr \<sigma> s)\<lparr>iter_z_row_ptr := v\<rparr> = scr \<sigma> (s\<lparr>iter_z_row_ptr := v\<rparr>)"
  "(scr \<sigma> s)\<lparr>iter_y_addr := v\<rparr> = scr \<sigma> (s\<lparr>iter_y_addr := v\<rparr>)"
  "(scr \<sigma> s)\<lparr>iter_x_addr := v\<rparr> = scr \<sigma> (s\<lparr>iter_x_addr := v\<rparr>)"
  "(scr \<sigma> s)\<lparr>iter_w_addr := v\<rparr> = scr \<sigma> (s\<lparr>iter_w_addr := v\<rparr>)"
  "(scr \<sigma> s)\<lparr>iter_z_addr := v\<rparr> = scr \<sigma> (s\<lparr>iter_z_addr := v\<rparr>)"
  "(scr \<sigma> s)\<lparr>y_acc_block := v\<rparr> = scr \<sigma> (s\<lparr>y_acc_block := v\<rparr>)"
  "(scr \<sigma> s)\<lparr>x_acc_block := v\<rparr> = scr \<sigma> (s\<lparr>x_acc_block := v\<rparr>)"
  "(scr \<sigma> s)\<lparr>w_acc_block := v\<rparr> = scr \<sigma> (s\<lparr>w_acc_block := v\<rparr>)"
  "(scr \<sigma> s)\<lparr>z_acc_block := v\<rparr> = scr \<sigma> (s\<lparr>z_acc_block := v\<rparr>)"
  by (simp_all add: scr_def split: prod.split)

lemma scr_scr [simp]: "scr \<sigma> (scr \<tau> s) = scr \<sigma> s"
  by (simp add: scr_def split: prod.split)

definition load_row :: "bytes \<Rightarrow> nat \<Rightarrow> (u32 \<Rightarrow> u8) \<Rightarrow> u32 \<Rightarrow> nat \<Rightarrow> bytes" where
  "load_row buf d mem addr n = (\<lambda>q. if d \<le> q \<and> q < d + n then mem (addr + of_nat (q - d)) else buf q)"

lemma memcpy_read:
  "n \<le> sz \<Longrightarrow> memcpy buf d (tcdm_read mem addr acc sz) 0 n = load_row buf d mem addr n"
proof
  fix q
  assume "n \<le> sz"
  then show "memcpy buf d (tcdm_read mem addr acc sz) 0 n q = load_row buf d mem addr n q"
    by (cases "d \<le> q \<and> q < d + n") (auto simp: memcpy_def tcdm_read_def load_row_def simp del: of_nat_diff)
qed

lemma cutoff_le: "cutoff w t b \<le> b"
  by (auto simp: cutoff_def Let_def)

lemma unat_cutoff_le [simp]: "unat (cutoff w t b) \<le> unat b"
  using cutoff_le [of w t b] by (simp add: word_le_nat_alt)

definition row_bytes :: "rm_conf \<Rightarrow> redmule \<Rightarrow> u32" where
  "row_bytes c s = buffer_w c * elem_size s"

definition w_cut :: "rm_conf \<Rightarrow> redmule \<Rightarrow> u32" where
  "w_cut c s = cutoff (k_size s * elem_size s) (iter_j s) (row_bytes c s)"

definition x_cut :: "rm_conf \<Rightarrow> redmule \<Rightarrow> u32" where
  "x_cut c s = cutoff (n_size s * elem_size s)
     (if iter_k s + 1 = x_row_tiles s \<or> fsm_state s = PRELOAD then 0 else iter_k s + 1) (bandwidth c)"

definition y_cut :: "rm_conf \<Rightarrow> redmule \<Rightarrow> u32" where
  "y_cut c s = cutoff (k_size s * elem_size s)
     (if iter_j s + 1 = z_row_tiles s \<or> fsm_state s = PRELOAD then 0 else iter_j s + 1) (row_bytes c s)"

lemma cut_le:
  "unat (w_cut c s) \<le> unat (row_bytes c s)" "unat (y_cut c s) \<le> unat (row_bytes c s)"
  "unat (x_cut c s) \<le> unat (bandwidth c)"
  by (simp_all add: w_cut_def x_cut_def y_cut_def)

lemma process_load_y:
  "iter_instr s = INSTR_LOAD_Y \<Longrightarrow> process_iter_instruction c a s =
     s\<lparr>y_buffer_preload := memcpy (y_buffer_preload s) (unat (iter_y_row_ptr s)) (access_buffer s) 0 (unat (y_cut c s)),
       iter_y_row_ptr := (if y_acc_block s = 0 then 0 else iter_y_row_ptr s + row_bytes c s)\<rparr>"
  by (simp add: process_iter_instruction_def row_bytes_def y_cut_def Let_def)

lemma process_load_x:
  "iter_instr s = INSTR_LOAD_X \<Longrightarrow> process_iter_instruction c a s =
     s\<lparr>x_buffer := memcpy (x_buffer s) (unat (iter_x_row_ptr s)) (access_buffer s) 0 (unat (x_cut c s)),
       iter_x_row_ptr := (if x_acc_block s = 0 then 0 else iter_x_row_ptr s + bandwidth c)\<rparr>"
  by (simp add: process_iter_instruction_def x_cut_def Let_def)

lemma process_load_w:
  "iter_instr s = INSTR_LOAD_W \<Longrightarrow> process_iter_instruction c a s =
     s\<lparr>w_buffer := memcpy (w_buffer s) (unat (iter_w_row_ptr s)) (access_buffer s) 0 (unat (w_cut c s)),
       iter_w_row_ptr := iter_w_row_ptr s + row_bytes c s\<rparr>"
  by (simp add: process_iter_instruction_def row_bytes_def w_cut_def Let_def)

text \<open>The tile product with the sizes as the engine passes them.\<close>

definition product_of :: "rm_conf \<Rightarrow> rm_arith \<Rightarrow> redmule \<Rightarrow> bytes \<Rightarrow> bytes \<Rightarrow> bytes \<Rightarrow> bytes" where
  "product_of c a s = compute_tile a (compute_able s) (ucast (ce_height c)) (ucast (buffer_n c s)) (ucast (buffer_w c))"

lemma process_load_w_compute:
  "iter_instr s = INSTR_LOAD_W_COMPUTE \<Longrightarrow> process_iter_instruction c a s =
     (let w = memcpy (w_buffer s) (unat (iter_w_row_ptr s)) (access_buffer s) 0 (unat (w_cut c s))
      in s\<lparr>z_buffer_compute := product_of c a s (x_buffer s) w (z_buffer_compute s), iter_w_row_ptr := 0,
           x_buffer := memset (x_buffer s) 0 (unat (ce_height c * bandwidth c)),
           w_buffer := memset w 0 (unat (ce_width c * (ce_pipe c + 1) * bandwidth c))\<rparr>)"
  by (simp add: process_iter_instruction_def process_compute_def product_of_def row_bytes_def w_cut_def
      buffer_n_def Let_def)

lemma process_stor_z:
  "iter_instr s = INSTR_STOR_Z \<Longrightarrow> process_iter_instruction c a s =
     s\<lparr>access_buffer := memcpy (access_buffer s) 0 (z_buffer_previos s) (unat (iter_z_row_ptr s)) (unat (row_bytes c s)),
       iter_z_row_ptr := (if z_acc_block s = 0 then 0 else iter_z_row_ptr s + row_bytes c s)\<rparr>"
  by (simp add: process_iter_instruction_def row_bytes_def Let_def)

lemmas request_simps = request_def next_addr_def send_tcdm_req_def process_load_y process_load_x process_load_w
  process_load_w_compute process_stor_z

lemma request_y:
  assumes "y_acc_block s > 0" and "compute_able s \<noteq> 0" and "fsm_state s = PRELOAD \<or> fsm_state s = ROUTINE"
    and "tcdm_ok E (tcdm_count s)"
  shows "\<exists>\<sigma>. request c a E s = Some (scr \<sigma> (s\<lparr>
      y_buffer_preload := load_row (y_buffer_preload s) (unat (iter_y_row_ptr s)) (tcdm s) (iter_y_addr s) (unat (y_cut c s)),
      iter_y_row_ptr := (if y_acc_block s - 1 = 0 then 0 else iter_y_row_ptr s + row_bytes c s),
      iter_y_addr := inc_addr c s (iter_y_addr s) (k_size s) (buffer_w c), y_acc_block := y_acc_block s - 1\<rparr>))"
proof (intro exI)
  let ?ab = "tcdm_read (tcdm s) (iter_y_addr s) (access_buffer s) (unat (row_bytes c s))"
  show "request c a E s = Some (scr (?ab, tcdm_count s + 1, INSTR_LOAD_Y, False, row_bytes c s) (s\<lparr>
      y_buffer_preload := load_row (y_buffer_preload s) (unat (iter_y_row_ptr s)) (tcdm s) (iter_y_addr s) (unat (y_cut c s)),
      iter_y_row_ptr := (if y_acc_block s - 1 = 0 then 0 else iter_y_row_ptr s + row_bytes c s),
      iter_y_addr := inc_addr c s (iter_y_addr s) (k_size s) (buffer_w c), y_acc_block := y_acc_block s - 1\<rparr>))"
    using assms cut_le(2) [of c s]
    by (auto simp: request_simps scr_def memcpy_read row_bytes_def y_cut_def Let_def)
qed

lemma request_w:
  assumes "y_acc_block s = 0" and "w_acc_block s > 0" and "w_acc_block s \<noteq> 1" and "compute_able s \<noteq> 0"
    and "fsm_state s = ROUTINE" and "tcdm_ok E (tcdm_count s)"
  shows "\<exists>\<sigma>. request c a E s = Some (scr \<sigma> (s\<lparr>
      w_buffer := load_row (w_buffer s) (unat (iter_w_row_ptr s)) (tcdm s) (iter_w_addr s) (unat (w_cut c s)),
      iter_w_row_ptr := iter_w_row_ptr s + row_bytes c s,
      iter_w_addr := inc_addr c s (iter_w_addr s) (k_size s) (buffer_w c), w_acc_block := w_acc_block s - 1\<rparr>))"
proof (intro exI)
  let ?ab = "tcdm_read (tcdm s) (iter_w_addr s) (access_buffer s) (unat (row_bytes c s))"
  show "request c a E s = Some (scr (?ab, tcdm_count s + 1, INSTR_LOAD_W, False, row_bytes c s) (s\<lparr>
      w_buffer := load_row (w_buffer s) (unat (iter_w_row_ptr s)) (tcdm s) (iter_w_addr s) (unat (w_cut c s)),
      iter_w_row_ptr := iter_w_row_ptr s + row_bytes c s,
      iter_w_addr := inc_addr c s (iter_w_addr s) (k_size s) (buffer_w c), w_acc_block := w_acc_block s - 1\<rparr>))"
    using assms cut_le(1) [of c s]
    by (auto simp: request_simps scr_def memcpy_read row_bytes_def w_cut_def Let_def)
qed

lemma request_w_compute:
  assumes "y_acc_block s = 0" and "w_acc_block s = 1" and "compute_able s \<noteq> 0"
    and "fsm_state s = ROUTINE" and "tcdm_ok E (tcdm_count s)"
  shows "\<exists>\<sigma>. request c a E s = Some (scr \<sigma>
     (let w = load_row (w_buffer s) (unat (iter_w_row_ptr s)) (tcdm s) (iter_w_addr s) (unat (w_cut c s))
      in s\<lparr>z_buffer_compute := product_of c a s (x_buffer s) w (z_buffer_compute s), iter_w_row_ptr := 0,
      x_buffer := memset (x_buffer s) 0 (unat (ce_height c * bandwidth c)),
      w_buffer := memset w 0 (unat (ce_width c * (ce_pipe c + 1) * bandwidth c)),
      iter_w_addr := inc_addr c s (iter_w_addr s) (k_size s) (buffer_w c), w_acc_block := 0\<rparr>))"
proof (intro exI)
  let ?ab = "tcdm_read (tcdm s) (iter_w_addr s) (access_buffer s) (unat (row_bytes c s))"
  show "request c a E s = Some (scr (?ab, tcdm_count s + 1, INSTR_LOAD_W_COMPUTE, False, row_bytes c s)
     (let w = load_row (w_buffer s) (unat (iter_w_row_ptr s)) (tcdm s) (iter_w_addr s) (unat (w_cut c s))
      in s\<lparr>z_buffer_compute := product_of c a s (x_buffer s) w (z_buffer_compute s), iter_w_row_ptr := 0,
      x_buffer := memset (x_buffer s) 0 (unat (ce_height c * bandwidth c)),
      w_buffer := memset w 0 (unat (ce_width c * (ce_pipe c + 1) * bandwidth c)),
      iter_w_addr := inc_addr c s (iter_w_addr s) (k_size s) (buffer_w c), w_acc_block := 0\<rparr>))"
    using assms cut_le(1) [of c s]
    by (auto simp: request_simps scr_def memcpy_read row_bytes_def w_cut_def product_of_def buffer_n_def Let_def)
qed

lemma request_x:
  assumes "y_acc_block s = 0" and "w_acc_block s = 0" and "x_acc_block s > 0" and "compute_able s \<noteq> 0"
    and "fsm_state s = PRELOAD \<or> fsm_state s = ROUTINE" and "tcdm_ok E (tcdm_count s)"
  shows "\<exists>\<sigma>. request c a E s = Some (scr \<sigma> (s\<lparr>
      x_buffer := load_row (x_buffer s) (unat (iter_x_row_ptr s)) (tcdm s) (iter_x_addr s) (unat (x_cut c s)),
      iter_x_row_ptr := (if x_acc_block s - 1 = 0 then 0 else iter_x_row_ptr s + bandwidth c),
      iter_x_addr := inc_addr c s (iter_x_addr s) (n_size s) (buffer_n c s), x_acc_block := x_acc_block s - 1\<rparr>))"
proof (intro exI)
  let ?ab = "tcdm_read (tcdm s) (iter_x_addr s) (access_buffer s) (unat (bandwidth c))"
  show "request c a E s = Some (scr (?ab, tcdm_count s + 1, INSTR_LOAD_X, False, bandwidth c) (s\<lparr>
      x_buffer := load_row (x_buffer s) (unat (iter_x_row_ptr s)) (tcdm s) (iter_x_addr s) (unat (x_cut c s)),
      iter_x_row_ptr := (if x_acc_block s - 1 = 0 then 0 else iter_x_row_ptr s + bandwidth c),
      iter_x_addr := inc_addr c s (iter_x_addr s) (n_size s) (buffer_n c s), x_acc_block := x_acc_block s - 1\<rparr>))"
    using assms cut_le(3) [of c s]
    by (auto simp: request_simps scr_def memcpy_read x_cut_def Let_def)
qed

lemma write_copied:
  "n \<le> m \<Longrightarrow> tcdm_write mem addr (memcpy ab 0 z p m) n = tcdm_write mem addr (\<lambda>q. z (p + q)) n"
  by (rule ext) (simp add: tcdm_write_def memcpy_def)

lemma request_z:
  assumes "y_acc_block s = 0" and "w_acc_block s = 0" and "x_acc_block s = 0" and "z_acc_block s > 0"
    and "compute_able s \<noteq> 0" and "fsm_state s = STORING \<or> fsm_state s = ROUTINE" and "tcdm_ok E (tcdm_count s)"
    and "z_store_width s * elem_size s \<le> row_bytes c s"
  shows "\<exists>\<sigma>. request c a E s = Some (scr \<sigma> (s\<lparr>
      tcdm := tcdm_write (tcdm s) (iter_z_addr s) (\<lambda>q. z_buffer_previos s (unat (iter_z_row_ptr s) + q))
        (unat (z_store_width s * elem_size s)),
      iter_z_row_ptr := (if z_acc_block s - 1 = 0 then 0 else iter_z_row_ptr s + row_bytes c s),
      iter_z_addr := inc_addr c s (iter_z_addr s) (k_size s) (buffer_w c), z_acc_block := z_acc_block s - 1\<rparr>))"
proof (intro exI)
  have le: "unat (z_store_width s * elem_size s) \<le> unat (row_bytes c s)"
    using assms(8) by (simp add: word_le_nat_alt)
  let ?ab = "memcpy (access_buffer s) 0 (z_buffer_previos s) (unat (iter_z_row_ptr s)) (unat (row_bytes c s))"
  show "request c a E s = Some (scr (?ab, tcdm_count s + 1, INSTR_STOR_Z, True, z_store_width s * elem_size s) (s\<lparr>
      tcdm := tcdm_write (tcdm s) (iter_z_addr s) (\<lambda>q. z_buffer_previos s (unat (iter_z_row_ptr s) + q))
        (unat (z_store_width s * elem_size s)),
      iter_z_row_ptr := (if z_acc_block s - 1 = 0 then 0 else iter_z_row_ptr s + row_bytes c s),
      iter_z_addr := inc_addr c s (iter_z_addr s) (k_size s) (buffer_w c), z_acc_block := z_acc_block s - 1\<rparr>))"
  proof -
    define s1 where "s1 = s\<lparr>iter_z_addr := inc_addr c s (iter_z_addr s) (k_size s) (buffer_w c),
      z_acc_block := z_acc_block s - 1, req_is_write := True, req_size := z_store_width s * elem_size s,
      iter_instr := INSTR_STOR_Z\<rparr>"
    have n: "next_addr c s = Some (iter_z_addr s, s1)" using assms(1-4) by (simp add: next_addr_def s1_def)
    have p: "process_iter_instruction c a s1 = s1\<lparr>access_buffer := ?ab,
        iter_z_row_ptr := (if z_acc_block s - 1 = 0 then 0 else iter_z_row_ptr s + row_bytes c s)\<rparr>"
      by (subst process_stor_z) (simp_all add: s1_def row_bytes_def)
    have st: "compute_able s1 \<noteq> 0" "fsm_state s1 \<noteq> PRELOAD" "iter_instr s1 = INSTR_STOR_Z"
        "fsm_state s1 = ROUTINE \<or> fsm_state s1 = STORING"
      using assms(5,6) by (auto simp: s1_def)
    have "request c a E s = Some (send_tcdm_req (iter_z_addr s) (process_iter_instruction c a s1))"
      unfolding request_def n bind.bind_lunit prod.case Let_def
      using st assms(7) by (auto simp: p send_tcdm_req_def)
    then show ?thesis
      unfolding p by (simp add: send_tcdm_req_def s1_def scr_def write_copied [OF le])
  qed
qed

subsection \<open>Blocks\<close>

text \<open>A block is described by the states \<open>F i\<close> after its first \<open>i\<close> requests.\<close>

lemma requests_snoc: "requests c a E (Suc n) s = do { s' \<leftarrow> requests c a E n s; request c a E s' }"
  using requests_add [of c a E n 1 s] by simp

lemma requests_block:
  assumes "\<And>i \<sigma>. i < b \<Longrightarrow> \<exists>\<tau>. request c a E (scr \<sigma> (F i)) = Some (scr \<tau> (F (Suc i)))"
  shows "\<exists>\<tau>. requests c a E b (scr \<sigma> (F 0)) = Some (scr \<tau> (F b))"
  using assms
proof (induction b)
  case (Suc b)
  then obtain \<tau> where "requests c a E b (scr \<sigma> (F 0)) = Some (scr \<tau> (F b))" by auto
  then show ?case using Suc.prems [of b \<tau>] by (simp only: requests_snoc bind.bind_lunit)
next
  case 0
  show ?case by (rule exI [of _ \<sigma>]) simp
qed

text \<open>The first \<open>b\<close> rows of \<open>W\<close> bytes hold \<open>n\<close> bytes of the source each.\<close>

definition rows_upto :: "nat \<Rightarrow> nat \<Rightarrow> nat \<Rightarrow> (nat \<Rightarrow> nat \<Rightarrow> u8) \<Rightarrow> bytes \<Rightarrow> bytes" where
  "rows_upto b W n src old = (\<lambda>q. if q div W < b \<and> q mod W < n then src (q div W) (q mod W) else old q)"

lemma rows_upto_0 [simp]: "rows_upto 0 W n src old = old"
  by (simp add: rows_upto_def)

lemma in_row:
  fixes r W q n :: nat
  assumes "n \<le> W"
  shows "r * W \<le> q \<and> q < r * W + n \<longleftrightarrow> q div W = r \<and> q mod W < n"
proof
  assume q: "r * W \<le> q \<and> q < r * W + n"
  then obtain d where d: "q = r * W + d" using le_Suc_ex [of "r * W" q] by blast
  have "d < n" using q d by simp
  then have "d < W" using assms by simp
  then show "q div W = r \<and> q mod W < n" using \<open>d < n\<close> by (simp add: d)
next
  assume "q div W = r \<and> q mod W < n"
  moreover from this have "q = r * W + q mod W" by (metis div_mult_mod_eq)
  ultimately show "r * W \<le> q \<and> q < r * W + n" by linarith
qed

lemma load_row_rows:
  assumes "n \<le> W" and "addr = base + of_nat i * stride"
  shows "load_row (rows_upto i W n (\<lambda>r q. mem (base + of_nat r * stride + of_nat q)) old) (i * W) mem addr n =
    rows_upto (Suc i) W n (\<lambda>r q. mem (base + of_nat r * stride + of_nat q)) old"
proof
  fix q
  show "load_row (rows_upto i W n (\<lambda>r q. mem (base + of_nat r * stride + of_nat q)) old) (i * W) mem addr n q =
    rows_upto (Suc i) W n (\<lambda>r q. mem (base + of_nat r * stride + of_nat q)) old q"
  proof (cases "q div W = i \<and> q mod W < n")
    case True
    then have "q - i * W = q mod W" by (metis minus_div_mult_eq_mod)
    then show ?thesis
      using True unfolding load_row_def in_row [OF assms(1)] rows_upto_def by (simp add: assms(2) del: of_nat_mult)
  next
    case False
    then show ?thesis
      unfolding load_row_def in_row [OF assms(1)] rows_upto_def by (auto simp: less_Suc_eq)
  qed
qed

lemma scr_y:
  "scr \<tau> ((scr \<sigma> (s\<lparr>y_buffer_preload := b, iter_y_row_ptr := p, iter_y_addr := d, y_acc_block := n\<rparr>))
     \<lparr>y_buffer_preload := b', iter_y_row_ptr := p', iter_y_addr := d', y_acc_block := n'\<rparr>) =
   scr \<tau> (s\<lparr>y_buffer_preload := b', iter_y_row_ptr := p', iter_y_addr := d', y_acc_block := n'\<rparr>)"
  by (simp add: scr_def split: prod.split)

lemma scr_x:
  "scr \<tau> ((scr \<sigma> (s\<lparr>x_buffer := b, iter_x_row_ptr := p, iter_x_addr := d, x_acc_block := n\<rparr>))
     \<lparr>x_buffer := b', iter_x_row_ptr := p', iter_x_addr := d', x_acc_block := n'\<rparr>) =
   scr \<tau> (s\<lparr>x_buffer := b', iter_x_row_ptr := p', iter_x_addr := d', x_acc_block := n'\<rparr>)"
  by (simp add: scr_def split: prod.split)

lemma scr_w:
  "scr \<tau> ((scr \<sigma> (s\<lparr>w_buffer := b, iter_w_row_ptr := p, iter_w_addr := d, w_acc_block := n\<rparr>))
     \<lparr>w_buffer := b', iter_w_row_ptr := p', iter_w_addr := d', w_acc_block := n'\<rparr>) =
   scr \<tau> (s\<lparr>w_buffer := b', iter_w_row_ptr := p', iter_w_addr := d', w_acc_block := n'\<rparr>)"
  by (simp add: scr_def split: prod.split)

lemma scr_z:
  "scr \<tau> ((scr \<sigma> (s\<lparr>tcdm := b, iter_z_row_ptr := p, iter_z_addr := d, z_acc_block := n\<rparr>))
     \<lparr>tcdm := b', iter_z_row_ptr := p', iter_z_addr := d', z_acc_block := n'\<rparr>) =
   scr \<tau> (s\<lparr>tcdm := b', iter_z_row_ptr := p', iter_z_addr := d', z_acc_block := n'\<rparr>)"
  by (simp add: scr_def split: prod.split)

text \<open>Counting down in words.\<close>

lemma of_nat_dec: "i < b \<Longrightarrow> of_nat (b - i) - 1 = (of_nat (b - Suc i) :: u32)"
  by (simp add: Suc_diff_Suc [symmetric] del: of_nat_diff)

lemma of_nat_eq_0_32: "n < 4294967296 \<Longrightarrow> (of_nat n :: u32) = 0 \<longleftrightarrow> n = 0"
  using unat_of_nat32 [of n] by auto

lemma of_nat_gt_0_32: "n < 4294967296 \<Longrightarrow> 0 < (of_nat n :: u32) \<longleftrightarrow> 0 < n"
  using of_nat_eq_0_32 [of n] by (simp add: word_gt_0)

lemma block_small: "0 < W \<Longrightarrow> b * W < 4294967296 \<Longrightarrow> b < (4294967296 :: nat)"
  by (metis le_less_trans mult.right_neutral mult_le_mono2 Suc_leI One_nat_def)

lemma block_y:
  fixes c s b
  defines "W \<equiv> unat (row_bytes c s)"
  defines "src \<equiv> \<lambda>r q. tcdm s (iter_y_addr s + of_nat r * (k_size s * elem_size s) + of_nat q)"
  assumes ok: "\<forall>i. tcdm_ok E i" and fold: "fold_tiles_mapping c = 0" and cmp: "compute_able s \<noteq> 0"
    and st: "fsm_state s = PRELOAD \<or> fsm_state s = ROUTINE"
    and b: "y_acc_block s = of_nat b" and p: "iter_y_row_ptr s = 0" and W: "0 < W" "b * W < 4294967296"
  shows "\<exists>\<sigma>. requests c a E b s = Some (scr \<sigma> (s\<lparr>
      y_buffer_preload := rows_upto b W (unat (y_cut c s)) src (y_buffer_preload s), iter_y_row_ptr := 0,
      iter_y_addr := iter_y_addr s + of_nat b * (k_size s * elem_size s), y_acc_block := 0\<rparr>))"
proof -
  let ?F = "\<lambda>i. s\<lparr>y_buffer_preload := rows_upto i W (unat (y_cut c s)) src (y_buffer_preload s),
      iter_y_row_ptr := (if i = b then 0 else of_nat (i * W)),
      iter_y_addr := iter_y_addr s + of_nat i * (k_size s * elem_size s), y_acc_block := of_nat (b - i)\<rparr>"
  note small = block_small [OF W]
  have "\<exists>\<tau>. requests c a E b (scr (access_buffer s, tcdm_count s, iter_instr s, req_is_write s, req_size s) (?F 0)) =
      Some (scr \<tau> (?F b))"
  proof (rule requests_block)
    fix i \<sigma>
    assume i: "i < b"
    let ?s = "scr \<sigma> (?F i)"
    have cut: "y_cut c ?s = y_cut c s" "row_bytes c ?s = row_bytes c s"
      by (simp_all add: y_cut_def row_bytes_def)
    have iW: "i * W < 4294967296" using i W(2) by (meson le_less_trans less_imp_le mult_le_mono1)
    have acc: "y_acc_block ?s > 0"
      using of_nat_gt_0_32 [of "b - i"] small i by (simp del: of_nat_diff)
    have last: "y_acc_block ?s - 1 = 0 \<longleftrightarrow> Suc i = b"
      using of_nat_eq_0_32 [of "b - Suc i"] small i by (simp add: of_nat_dec del: of_nat_diff) linarith
    obtain \<tau> where r: "request c a E ?s = Some (scr \<tau> (?s\<lparr>
      y_buffer_preload := load_row (y_buffer_preload ?s) (unat (iter_y_row_ptr ?s)) (tcdm ?s) (iter_y_addr ?s) (unat (y_cut c s)),
      iter_y_row_ptr := (if y_acc_block ?s - 1 = 0 then 0 else iter_y_row_ptr ?s + row_bytes c s),
      iter_y_addr := inc_addr c ?s (iter_y_addr ?s) (k_size ?s) (buffer_w c), y_acc_block := y_acc_block ?s - 1\<rparr>))"
      using request_y [OF acc, of E c a] cmp st ok unfolding cut by auto
    have e: "scr \<tau> (?s\<lparr>
      y_buffer_preload := load_row (y_buffer_preload ?s) (unat (iter_y_row_ptr ?s)) (tcdm ?s) (iter_y_addr ?s) (unat (y_cut c s)),
      iter_y_row_ptr := (if y_acc_block ?s - 1 = 0 then 0 else iter_y_row_ptr ?s + row_bytes c s),
      iter_y_addr := inc_addr c ?s (iter_y_addr ?s) (k_size ?s) (buffer_w c), y_acc_block := y_acc_block ?s - 1\<rparr>) =
      scr \<tau> (?F (Suc i))"
    proof -
      have "unat (of_nat (i * W) :: u32) = i * W" by (rule unat_of_nat32 [OF iW])
      then have buf: "load_row (y_buffer_preload ?s) (unat (iter_y_row_ptr ?s)) (tcdm ?s) (iter_y_addr ?s) (unat (y_cut c s)) =
          rows_upto (Suc i) W (unat (y_cut c s)) src (y_buffer_preload s)"
        using i cut_le(2) [of c s] unfolding src_def W_def by (simp add: load_row_rows del: of_nat_mult)
      have ptr: "(if y_acc_block ?s - 1 = 0 then 0 else iter_y_row_ptr ?s + row_bytes c s) =
          (if Suc i = b then 0 else of_nat (Suc i * W))"
        unfolding last using i by (simp add: W_def)
      have adr: "inc_addr c ?s (iter_y_addr ?s) (k_size ?s) (buffer_w c) = iter_y_addr s + of_nat (Suc i) * (k_size s * elem_size s)"
        using fold by (simp add: inc_addr_def algebra_simps)
      have blk: "y_acc_block ?s - 1 = of_nat (b - Suc i)" using of_nat_dec [OF i] by simp
      show ?thesis unfolding buf ptr adr unfolding blk by (rule scr_y)
    qed
    show "\<exists>\<tau>. request c a E ?s = Some (scr \<tau> (?F (Suc i)))" unfolding r e by (intro exI) (rule refl)
  qed
  moreover have "scr (access_buffer s, tcdm_count s, iter_instr s, req_is_write s, req_size s) (?F 0) = s"
    using b p by (simp add: scr_def src_def)
  ultimately show ?thesis by simp
qed

lemma block_x:
  fixes c s b
  defines "W \<equiv> unat (bandwidth c)"
  defines "src \<equiv> \<lambda>r q. tcdm s (iter_x_addr s + of_nat r * (n_size s * elem_size s) + of_nat q)"
  assumes ok: "\<forall>i. tcdm_ok E i" and fold: "fold_tiles_mapping c = 0" and cmp: "compute_able s \<noteq> 0"
    and st: "fsm_state s = PRELOAD \<or> fsm_state s = ROUTINE"
    and yw: "y_acc_block s = 0" "w_acc_block s = 0"
    and b: "x_acc_block s = of_nat b" and p: "iter_x_row_ptr s = 0" and W: "0 < W" "b * W < 4294967296"
  shows "\<exists>\<sigma>. requests c a E b s = Some (scr \<sigma> (s\<lparr>
      x_buffer := rows_upto b W (unat (x_cut c s)) src (x_buffer s), iter_x_row_ptr := 0,
      iter_x_addr := iter_x_addr s + of_nat b * (n_size s * elem_size s), x_acc_block := 0\<rparr>))"
proof -
  let ?F = "\<lambda>i. s\<lparr>x_buffer := rows_upto i W (unat (x_cut c s)) src (x_buffer s),
      iter_x_row_ptr := (if i = b then 0 else of_nat (i * W)),
      iter_x_addr := iter_x_addr s + of_nat i * (n_size s * elem_size s), x_acc_block := of_nat (b - i)\<rparr>"
  note small = block_small [OF W]
  have "\<exists>\<tau>. requests c a E b (scr (access_buffer s, tcdm_count s, iter_instr s, req_is_write s, req_size s) (?F 0)) =
      Some (scr \<tau> (?F b))"
  proof (rule requests_block)
    fix i \<sigma>
    assume i: "i < b"
    let ?s = "scr \<sigma> (?F i)"
    have cut: "x_cut c ?s = x_cut c s"
      by (simp add: x_cut_def)
    have iW: "i * W < 4294967296" using i W(2) by (meson le_less_trans less_imp_le mult_le_mono1)
    have acc: "x_acc_block ?s > 0"
      using of_nat_gt_0_32 [of "b - i"] small i by (simp del: of_nat_diff)
    have last: "x_acc_block ?s - 1 = 0 \<longleftrightarrow> Suc i = b"
      using of_nat_eq_0_32 [of "b - Suc i"] small i by (simp add: of_nat_dec del: of_nat_diff) linarith
    obtain \<tau> where r: "request c a E ?s = Some (scr \<tau> (?s\<lparr>
      x_buffer := load_row (x_buffer ?s) (unat (iter_x_row_ptr ?s)) (tcdm ?s) (iter_x_addr ?s) (unat (x_cut c s)),
      iter_x_row_ptr := (if x_acc_block ?s - 1 = 0 then 0 else iter_x_row_ptr ?s + bandwidth c),
      iter_x_addr := inc_addr c ?s (iter_x_addr ?s) (n_size ?s) (buffer_n c ?s), x_acc_block := x_acc_block ?s - 1\<rparr>))"
      using request_x [OF _ _ acc, of E c a] cmp st ok yw unfolding cut by auto
    have e: "scr \<tau> (?s\<lparr>
      x_buffer := load_row (x_buffer ?s) (unat (iter_x_row_ptr ?s)) (tcdm ?s) (iter_x_addr ?s) (unat (x_cut c s)),
      iter_x_row_ptr := (if x_acc_block ?s - 1 = 0 then 0 else iter_x_row_ptr ?s + bandwidth c),
      iter_x_addr := inc_addr c ?s (iter_x_addr ?s) (n_size ?s) (buffer_n c ?s), x_acc_block := x_acc_block ?s - 1\<rparr>) =
      scr \<tau> (?F (Suc i))"
    proof -
      have "unat (of_nat (i * W) :: u32) = i * W" by (rule unat_of_nat32 [OF iW])
      then have buf: "load_row (x_buffer ?s) (unat (iter_x_row_ptr ?s)) (tcdm ?s) (iter_x_addr ?s) (unat (x_cut c s)) =
          rows_upto (Suc i) W (unat (x_cut c s)) src (x_buffer s)"
        using i cut_le(3) [of c s] unfolding src_def W_def by (simp add: load_row_rows del: of_nat_mult)
      have ptr: "(if x_acc_block ?s - 1 = 0 then 0 else iter_x_row_ptr ?s + bandwidth c) =
          (if Suc i = b then 0 else of_nat (Suc i * W))"
        unfolding last using i by (simp add: W_def)
      have adr: "inc_addr c ?s (iter_x_addr ?s) (n_size ?s) (buffer_n c ?s) = iter_x_addr s + of_nat (Suc i) * (n_size s * elem_size s)"
        using fold by (simp add: inc_addr_def algebra_simps)
      have blk: "x_acc_block ?s - 1 = of_nat (b - Suc i)" using of_nat_dec [OF i] by simp
      show ?thesis unfolding buf ptr adr unfolding blk by (rule scr_x)
    qed
    show "\<exists>\<tau>. request c a E ?s = Some (scr \<tau> (?F (Suc i)))" unfolding r e by (intro exI) (rule refl)
  qed
  moreover have "scr (access_buffer s, tcdm_count s, iter_instr s, req_is_write s, req_size s) (?F 0) = s"
    using b p by (simp add: scr_def src_def)
  ultimately show ?thesis by simp
qed

text \<open>The rows of W but the last, then the last row with the tile product.\<close>

lemma loads_w:
  fixes c s b
  defines "W \<equiv> unat (row_bytes c s)"
  defines "src \<equiv> \<lambda>r q. tcdm s (iter_w_addr s + of_nat r * (k_size s * elem_size s) + of_nat q)"
  assumes ok: "\<forall>i. tcdm_ok E i" and fold: "fold_tiles_mapping c = 0" and cmp: "compute_able s \<noteq> 0"
    and st: "fsm_state s = ROUTINE" and y0: "y_acc_block s = 0"
    and b: "w_acc_block s = of_nat (Suc b)" and p: "iter_w_row_ptr s = 0" and W: "0 < W" "Suc b * W < 4294967296"
  shows "\<exists>\<sigma>. requests c a E b s = Some (scr \<sigma> (s\<lparr>
      w_buffer := rows_upto b W (unat (w_cut c s)) src (w_buffer s), iter_w_row_ptr := of_nat (b * W),
      iter_w_addr := iter_w_addr s + of_nat b * (k_size s * elem_size s), w_acc_block := 1\<rparr>))"
proof -
  let ?F = "\<lambda>i. s\<lparr>w_buffer := rows_upto i W (unat (w_cut c s)) src (w_buffer s),
      iter_w_row_ptr := of_nat (i * W),
      iter_w_addr := iter_w_addr s + of_nat i * (k_size s * elem_size s), w_acc_block := of_nat (Suc b - i)\<rparr>"
  note small = block_small [OF W]
  have "\<exists>\<tau>. requests c a E b (scr (access_buffer s, tcdm_count s, iter_instr s, req_is_write s, req_size s) (?F 0)) =
      Some (scr \<tau> (?F b))"
  proof (rule requests_block)
    fix i \<sigma>
    assume i: "i < b"
    let ?s = "scr \<sigma> (?F i)"
    have cut: "w_cut c ?s = w_cut c s" "row_bytes c ?s = row_bytes c s"
      by (simp_all add: w_cut_def row_bytes_def)
    have iW: "i * W < 4294967296" using i W(2) by (meson le_less_trans less_imp_le less_SucI mult_le_mono1)
    have acc: "w_acc_block ?s > 0"
      using of_nat_gt_0_32 [of "Suc b - i"] small i by (simp del: of_nat_diff)
    have dec: "w_acc_block ?s - 1 = of_nat (Suc b - Suc i)" using of_nat_dec [of i "Suc b"] i by simp
    have one: "w_acc_block ?s \<noteq> 1"
    proof
      assume "w_acc_block ?s = 1"
      then have "(of_nat (Suc b - Suc i) :: u32) = 0" unfolding dec [symmetric] by simp
      moreover have "Suc b - Suc i < 4294967296" using small by linarith
      ultimately have "Suc b - Suc i = 0" using of_nat_eq_0_32 by blast
      then show False using i by simp
    qed
    obtain \<tau> where r: "request c a E ?s = Some (scr \<tau> (?s\<lparr>
      w_buffer := load_row (w_buffer ?s) (unat (iter_w_row_ptr ?s)) (tcdm ?s) (iter_w_addr ?s) (unat (w_cut c s)),
      iter_w_row_ptr := iter_w_row_ptr ?s + row_bytes c s,
      iter_w_addr := inc_addr c ?s (iter_w_addr ?s) (k_size ?s) (buffer_w c), w_acc_block := w_acc_block ?s - 1\<rparr>))"
      using request_w [OF _ acc one, of E c a] cmp st ok y0 unfolding cut by auto
    have e: "scr \<tau> (?s\<lparr>
      w_buffer := load_row (w_buffer ?s) (unat (iter_w_row_ptr ?s)) (tcdm ?s) (iter_w_addr ?s) (unat (w_cut c s)),
      iter_w_row_ptr := iter_w_row_ptr ?s + row_bytes c s,
      iter_w_addr := inc_addr c ?s (iter_w_addr ?s) (k_size ?s) (buffer_w c), w_acc_block := w_acc_block ?s - 1\<rparr>) =
      scr \<tau> (?F (Suc i))"
    proof -
      have "unat (of_nat (i * W) :: u32) = i * W" by (rule unat_of_nat32 [OF iW])
      then have buf: "load_row (w_buffer ?s) (unat (iter_w_row_ptr ?s)) (tcdm ?s) (iter_w_addr ?s) (unat (w_cut c s)) =
          rows_upto (Suc i) W (unat (w_cut c s)) src (w_buffer s)"
        using cut_le(1) [of c s] unfolding src_def W_def by (simp add: load_row_rows del: of_nat_mult)
      have ptr: "iter_w_row_ptr ?s + row_bytes c s = of_nat (Suc i * W)" by (simp add: W_def)
      have adr: "inc_addr c ?s (iter_w_addr ?s) (k_size ?s) (buffer_w c) = iter_w_addr s + of_nat (Suc i) * (k_size s * elem_size s)"
        using fold by (simp add: inc_addr_def algebra_simps)
      show ?thesis unfolding buf ptr adr unfolding dec by (rule scr_w)
    qed
    show "\<exists>\<tau>. request c a E ?s = Some (scr \<tau> (?F (Suc i)))" unfolding r e by (intro exI) (rule refl)
  qed
  moreover have "scr (access_buffer s, tcdm_count s, iter_instr s, req_is_write s, req_size s) (?F 0) = s"
    using b p by (simp add: scr_def src_def)
  ultimately show ?thesis by simp
qed

lemma block_w:
  fixes c s b
  defines "W \<equiv> unat (row_bytes c s)"
  defines "w \<equiv> rows_upto b W (unat (w_cut c s))
    (\<lambda>r q. tcdm s (iter_w_addr s + of_nat r * (k_size s * elem_size s) + of_nat q)) (w_buffer s)"
  assumes ok: "\<forall>i. tcdm_ok E i" and fold: "fold_tiles_mapping c = 0" and cmp: "compute_able s \<noteq> 0"
    and st: "fsm_state s = ROUTINE" and y0: "y_acc_block s = 0"
    and b: "w_acc_block s = of_nat b" "0 < b" and p: "iter_w_row_ptr s = 0" and W: "0 < W" "b * W < 4294967296"
  shows "\<exists>\<sigma>. requests c a E b s = Some (scr \<sigma> (s\<lparr>
      z_buffer_compute := product_of c a s (x_buffer s) w (z_buffer_compute s), iter_w_row_ptr := 0,
      x_buffer := memset (x_buffer s) 0 (unat (ce_height c * bandwidth c)),
      w_buffer := memset w 0 (unat (ce_width c * (ce_pipe c + 1) * bandwidth c)),
      iter_w_addr := iter_w_addr s + of_nat b * (k_size s * elem_size s), w_acc_block := 0\<rparr>))"
proof -
  obtain d where d: "b = Suc d" using b(2) by (cases b) auto
  let ?s1 = "s\<lparr>w_buffer := rows_upto d W (unat (w_cut c s))
      (\<lambda>r q. tcdm s (iter_w_addr s + of_nat r * (k_size s * elem_size s) + of_nat q)) (w_buffer s),
      iter_w_row_ptr := of_nat (d * W),
      iter_w_addr := iter_w_addr s + of_nat d * (k_size s * elem_size s), w_acc_block := 1\<rparr>"
  obtain \<sigma> where 1: "requests c a E d s = Some (scr \<sigma> ?s1)"
    using loads_w [OF ok fold cmp st y0, of d a] b(1) p W unfolding d W_def by blast
  let ?s = "scr \<sigma> ?s1"
  have dW: "unat (of_nat (d * W) :: u32) = d * W" using W(2) d by (intro unat_of_nat32) simp
  have cut: "w_cut c ?s = w_cut c s" "product_of c a ?s = product_of c a s"
    by (simp_all add: w_cut_def row_bytes_def product_of_def buffer_n_def)
  have buf: "load_row (w_buffer ?s) (unat (iter_w_row_ptr ?s)) (tcdm ?s) (iter_w_addr ?s) (unat (w_cut c ?s)) = w"
    using cut_le(1) [of c s] dW unfolding cut unfolding w_def W_def d by (simp add: load_row_rows del: of_nat_mult)
  have adr: "inc_addr c ?s (iter_w_addr ?s) (k_size ?s) (buffer_w c) = iter_w_addr s + of_nat b * (k_size s * elem_size s)"
    using fold by (simp add: inc_addr_def d algebra_simps)
  have "\<exists>\<tau>. request c a E ?s = Some (scr \<tau>
     (let w = load_row (w_buffer ?s) (unat (iter_w_row_ptr ?s)) (tcdm ?s) (iter_w_addr ?s) (unat (w_cut c ?s))
      in ?s\<lparr>z_buffer_compute := product_of c a ?s (x_buffer ?s) w (z_buffer_compute ?s), iter_w_row_ptr := 0,
      x_buffer := memset (x_buffer ?s) 0 (unat (ce_height c * bandwidth c)),
      w_buffer := memset w 0 (unat (ce_width c * (ce_pipe c + 1) * bandwidth c)),
      iter_w_addr := inc_addr c ?s (iter_w_addr ?s) (k_size ?s) (buffer_w c), w_acc_block := 0\<rparr>))"
    by (rule request_w_compute) (use y0 cmp st ok in simp_all)
  then obtain \<tau> where "request c a E ?s = Some (scr \<tau> (?s\<lparr>
      z_buffer_compute := product_of c a s (x_buffer ?s) w (z_buffer_compute ?s), iter_w_row_ptr := 0,
      x_buffer := memset (x_buffer ?s) 0 (unat (ce_height c * bandwidth c)),
      w_buffer := memset w 0 (unat (ce_width c * (ce_pipe c + 1) * bandwidth c)),
      iter_w_addr := iter_w_addr s + of_nat b * (k_size s * elem_size s), w_acc_block := 0\<rparr>))"
    unfolding Let_def buf adr unfolding cut by (rule exE)
  then have "requests c a E b s = Some (scr \<tau> (?s\<lparr>
      z_buffer_compute := product_of c a s (x_buffer ?s) w (z_buffer_compute ?s), iter_w_row_ptr := 0,
      x_buffer := memset (x_buffer ?s) 0 (unat (ce_height c * bandwidth c)),
      w_buffer := memset w 0 (unat (ce_width c * (ce_pipe c + 1) * bandwidth c)),
      iter_w_addr := iter_w_addr s + of_nat b * (k_size s * elem_size s), w_acc_block := 0\<rparr>))"
    unfolding d requests_snoc 1 bind.bind_lunit .
  then show ?thesis by (intro exI [of _ \<tau>]) (simp add: scr_def split: prod.splits)
qed

text \<open>Z rows go to memory one by one.\<close>

definition store_rows :: "nat \<Rightarrow> nat \<Rightarrow> nat \<Rightarrow> u32 \<Rightarrow> u32 \<Rightarrow> bytes \<Rightarrow> (u32 \<Rightarrow> u8) \<Rightarrow> u32 \<Rightarrow> u8" where
  "store_rows b W n base stride z mem =
     fold (\<lambda>r mem. tcdm_write mem (base + of_nat r * stride) (\<lambda>q. z (r * W + q)) n) [0 ..< b] mem"

lemma store_rows_Suc:
  "tcdm_write (store_rows i W n base stride z mem) (base + of_nat i * stride) (\<lambda>q. z (i * W + q)) n =
   store_rows (Suc i) W n base stride z mem"
  by (simp add: store_rows_def)

lemma block_z:
  fixes c s b
  defines "W \<equiv> unat (row_bytes c s)"
  defines "stride \<equiv> k_size s * elem_size s"
  assumes ok: "\<forall>i. tcdm_ok E i" and fold: "fold_tiles_mapping c = 0" and cmp: "compute_able s \<noteq> 0"
    and st: "fsm_state s = STORING \<or> fsm_state s = ROUTINE"
    and none: "y_acc_block s = 0" "w_acc_block s = 0" "x_acc_block s = 0"
    and b: "z_acc_block s = of_nat b" and p: "iter_z_row_ptr s = 0" and W: "0 < W" "b * W < 4294967296"
    and width: "z_store_width s * elem_size s \<le> row_bytes c s"
  shows "\<exists>\<sigma>. requests c a E b s = Some (scr \<sigma> (s\<lparr>
      tcdm := store_rows b W (unat (z_store_width s * elem_size s)) (iter_z_addr s) stride (z_buffer_previos s) (tcdm s),
      iter_z_row_ptr := 0, iter_z_addr := iter_z_addr s + of_nat b * stride, z_acc_block := 0\<rparr>))"
proof -
  let ?n = "unat (z_store_width s * elem_size s)"
  let ?F = "\<lambda>i. s\<lparr>tcdm := store_rows i W ?n (iter_z_addr s) stride (z_buffer_previos s) (tcdm s),
      iter_z_row_ptr := (if i = b then 0 else of_nat (i * W)),
      iter_z_addr := iter_z_addr s + of_nat i * stride, z_acc_block := of_nat (b - i)\<rparr>"
  note small = block_small [OF W]
  have "\<exists>\<tau>. requests c a E b (scr (access_buffer s, tcdm_count s, iter_instr s, req_is_write s, req_size s) (?F 0)) =
      Some (scr \<tau> (?F b))"
  proof (rule requests_block)
    fix i \<sigma>
    assume i: "i < b"
    let ?s = "scr \<sigma> (?F i)"
    have rb: "row_bytes c ?s = row_bytes c s" by (simp add: row_bytes_def)
    have iW: "i * W < 4294967296" using i W(2) by (meson le_less_trans less_imp_le mult_le_mono1)
    have acc: "z_acc_block ?s > 0"
      using of_nat_gt_0_32 [of "b - i"] small i by (simp del: of_nat_diff)
    have last: "z_acc_block ?s - 1 = 0 \<longleftrightarrow> Suc i = b"
      using of_nat_eq_0_32 [of "b - Suc i"] small i by (simp add: of_nat_dec del: of_nat_diff) linarith
    obtain \<tau> where r: "request c a E ?s = Some (scr \<tau> (?s\<lparr>
      tcdm := tcdm_write (tcdm ?s) (iter_z_addr ?s) (\<lambda>q. z_buffer_previos ?s (unat (iter_z_row_ptr ?s) + q)) ?n,
      iter_z_row_ptr := (if z_acc_block ?s - 1 = 0 then 0 else iter_z_row_ptr ?s + row_bytes c s),
      iter_z_addr := inc_addr c ?s (iter_z_addr ?s) (k_size ?s) (buffer_w c), z_acc_block := z_acc_block ?s - 1\<rparr>))"
      using request_z [OF _ _ _ acc, of E c a] cmp st ok none width unfolding rb by auto
    have e: "scr \<tau> (?s\<lparr>
      tcdm := tcdm_write (tcdm ?s) (iter_z_addr ?s) (\<lambda>q. z_buffer_previos ?s (unat (iter_z_row_ptr ?s) + q)) ?n,
      iter_z_row_ptr := (if z_acc_block ?s - 1 = 0 then 0 else iter_z_row_ptr ?s + row_bytes c s),
      iter_z_addr := inc_addr c ?s (iter_z_addr ?s) (k_size ?s) (buffer_w c), z_acc_block := z_acc_block ?s - 1\<rparr>) =
      scr \<tau> (?F (Suc i))"
    proof -
      have "unat (of_nat (i * W) :: u32) = i * W" by (rule unat_of_nat32 [OF iW])
      then have mem: "tcdm_write (tcdm ?s) (iter_z_addr ?s) (\<lambda>q. z_buffer_previos ?s (unat (iter_z_row_ptr ?s) + q)) ?n =
          store_rows (Suc i) W ?n (iter_z_addr s) stride (z_buffer_previos s) (tcdm s)"
        using i by (simp add: store_rows_Suc del: of_nat_mult)
      have ptr: "(if z_acc_block ?s - 1 = 0 then 0 else iter_z_row_ptr ?s + row_bytes c s) =
          (if Suc i = b then 0 else of_nat (Suc i * W))"
        unfolding last using i by (simp add: W_def)
      have adr: "inc_addr c ?s (iter_z_addr ?s) (k_size ?s) (buffer_w c) = iter_z_addr s + of_nat (Suc i) * stride"
        using fold by (simp add: inc_addr_def stride_def algebra_simps)
      have blk: "z_acc_block ?s - 1 = of_nat (b - Suc i)" using of_nat_dec [OF i] by simp
      show ?thesis unfolding mem ptr adr unfolding blk by (rule scr_z)
    qed
    show "\<exists>\<tau>. request c a E ?s = Some (scr \<tau> (?F (Suc i)))" unfolding r e by (intro exI) (rule refl)
  qed
  moreover have "scr (access_buffer s, tcdm_count s, iter_instr s, req_is_write s, req_size s) (?F 0) = s"
    using b p by (simp add: scr_def store_rows_def)
  ultimately show ?thesis by simp
qed

subsection \<open>The requests of one phase\<close>

definition statics :: "redmule \<Rightarrow> u32 \<times> u32 \<times> u32 \<times> u32 \<times> u32 \<times> u32 \<times> u32 \<times> u32 \<times> u32 \<times> u32 \<times> u32 \<times> u32 \<times> u32" where
  "statics s = (elem_size s, compute_able s, m_size s, n_size s, k_size s, x_addr s, w_addr s, y_addr s, z_addr s,
     x_row_tiles s, x_row_lefts s, z_row_tiles s, z_col_tiles s)"

definition position :: "redmule \<Rightarrow> redmule_state \<times> u32 \<times> u32 \<times> u32" where
  "position s = (fsm_state s, iter_i s, iter_j s, iter_k s)"

text \<open>The bytes \<open>q\<close> of the rows \<open>r\<close> at an address, \<open>stride\<close> apart.\<close>

definition rows_at :: "(u32 \<Rightarrow> u8) \<Rightarrow> u32 \<Rightarrow> u32 \<Rightarrow> nat \<Rightarrow> nat \<Rightarrow> u8" where
  "rows_at mem base stride r q = mem (base + of_nat r * stride + of_nat q)"

definition pointers_reset :: "redmule \<Rightarrow> bool" where
  "pointers_reset s = (iter_x_row_ptr s = 0 \<and> iter_w_row_ptr s = 0 \<and> iter_y_row_ptr s = 0 \<and> iter_z_row_ptr s = 0)"

lemma routine_requests:
  fixes c s nw
  defines "W \<equiv> unat (row_bytes c s)" and "B \<equiv> unat (bandwidth c)" and "stride \<equiv> k_size s * elem_size s"
  defines "w \<equiv> rows_upto nw W (unat (w_cut c s)) (rows_at (tcdm s) (iter_w_addr s) stride) (w_buffer s)"
  assumes ok: "\<forall>i. tcdm_ok E i" and fold: "fold_tiles_mapping c = 0" and cmp: "compute_able s \<noteq> 0"
    and st: "fsm_state s = ROUTINE" and ptr: "pointers_reset s"
    and blocks: "y_acc_block s = of_nat ny" "w_acc_block s = of_nat nw" "x_acc_block s = of_nat nx" "z_acc_block s = of_nat nz"
    and nw: "0 < nw" and W: "0 < W" "ny * W < 4294967296" "nw * W < 4294967296" "nz * W < 4294967296"
    and B: "0 < B" "nx * B < 4294967296" and width: "z_store_width s * elem_size s \<le> row_bytes c s"
    and e: "n_size s * elem_size s = sx"
  obtains s' where "requests c a E (ny + nw + nx + nz) s = Some s'"
    and "statics s' = statics s" and "position s' = position s" and "pointers_reset s'"
    and "z_buffer_previos s' = z_buffer_previos s" and "z_store_width s' = z_store_width s"
    and "z_store_height s' = z_store_height s" and "redmule_query s' = redmule_query s" and "replies s' = replies s"
    and "y_buffer_preload s' = rows_upto ny W (unat (y_cut c s)) (rows_at (tcdm s) (iter_y_addr s) stride) (y_buffer_preload s)"
    and "z_buffer_compute s' = product_of c a s (x_buffer s) w (z_buffer_compute s)"
    and "w_buffer s' = memset w 0 (unat (buffer_w c * bandwidth c))"
    and "x_buffer s' = rows_upto nx B (unat (x_cut c s)) (rows_at (tcdm s) (iter_x_addr s) sx)
           (memset (x_buffer s) 0 (unat (ce_height c * bandwidth c)))"
    and "tcdm s' = store_rows nz W (unat (z_store_width s * elem_size s)) (iter_z_addr s) stride (z_buffer_previos s) (tcdm s)"
proof -
  obtain s1 \<sigma>1 where r1: "requests c a E ny s = Some s1" and s1: "s1 = scr \<sigma>1 (s\<lparr>
      y_buffer_preload := rows_upto ny W (unat (y_cut c s)) (rows_at (tcdm s) (iter_y_addr s) stride) (y_buffer_preload s), iter_y_row_ptr := 0,
      iter_y_addr := iter_y_addr s + of_nat ny * (k_size s * elem_size s), y_acc_block := 0\<rparr>)"
    using block_y [OF ok fold cmp disjI2 [OF st] blocks(1), of a] ptr W
    unfolding W_def stride_def pointers_reset_def rows_at_def by blast
  have f1: "row_bytes c s1 = row_bytes c s" "w_cut c s1 = w_cut c s" "x_cut c s1 = x_cut c s"
      "product_of c a s1 = product_of c a s"
    by (simp_all add: s1 row_bytes_def w_cut_def x_cut_def product_of_def buffer_n_def)
  have "fsm_state s1 = ROUTINE" "compute_able s1 \<noteq> 0" "y_acc_block s1 = 0" "w_acc_block s1 = of_nat nw" "iter_w_row_ptr s1 = 0"
    using st cmp blocks ptr by (simp_all add: s1 pointers_reset_def)
  note block_w [OF ok fold this(2,1,3,4) nw this(5), of a]
  then obtain s2 \<sigma>2 where r2: "requests c a E nw s1 = Some s2" and s2: "s2 = scr \<sigma>2 (s1\<lparr>
      z_buffer_compute := product_of c a s (x_buffer s1) w (z_buffer_compute s1), iter_w_row_ptr := 0,
      x_buffer := memset (x_buffer s1) 0 (unat (ce_height c * bandwidth c)),
      w_buffer := memset w 0 (unat (buffer_w c * bandwidth c)),
      iter_w_addr := iter_w_addr s1 + of_nat nw * (k_size s1 * elem_size s1), w_acc_block := 0\<rparr>)"
    using W unfolding f1 w_def W_def stride_def rows_at_def buffer_w_def by (auto simp: s1)
  have f2: "x_cut c s2 = x_cut c s1" "row_bytes c s2 = row_bytes c s1" by (simp_all add: s2 row_bytes_def x_cut_def)
  have st2: "fsm_state s2 = ROUTINE" "compute_able s2 \<noteq> 0" "y_acc_block s2 = 0" "w_acc_block s2 = 0"
      "x_acc_block s2 = of_nat nx" "iter_x_row_ptr s2 = 0" "tcdm s2 = tcdm s" "iter_x_addr s2 = iter_x_addr s"
    using st cmp blocks ptr by (simp_all add: s2 s1 pointers_reset_def)
  from block_x [OF ok fold st2(2) disjI2 [OF st2(1)] st2(3,4,5,6), of a]
  obtain s3 \<sigma>3 where r3: "requests c a E nx s2 = Some s3" and s3: "s3 = scr \<sigma>3 (s2\<lparr>
      x_buffer := rows_upto nx B (unat (x_cut c s)) (rows_at (tcdm s) (iter_x_addr s) sx) (x_buffer s2), iter_x_row_ptr := 0,
      iter_x_addr := iter_x_addr s2 + of_nat nx * (n_size s2 * elem_size s2), x_acc_block := 0\<rparr>)"
    using B e st2(7,8) unfolding f2 f1 B_def rows_at_def by (auto simp: s2 s1)
  have f3: "row_bytes c s3 = row_bytes c s" using f2 f1 by (simp add: s3 row_bytes_def)
  have st3: "fsm_state s3 = ROUTINE" "compute_able s3 \<noteq> 0" "y_acc_block s3 = 0" "w_acc_block s3 = 0" "x_acc_block s3 = 0"
      "z_acc_block s3 = of_nat nz" "iter_z_row_ptr s3 = 0" "z_store_width s3 * elem_size s3 \<le> row_bytes c s3"
    using st2 blocks ptr width unfolding f3 by (simp_all add: s3 s2 s1 pointers_reset_def)
  from block_z [OF ok fold st3(2) disjI2 [OF st3(1)] st3(3,4,5,6,7) _ _ st3(8), of a]
  obtain s4 \<sigma>4 where r4: "requests c a E nz s3 = Some s4" and s4: "s4 = scr \<sigma>4 (s3\<lparr>
      tcdm := store_rows nz W (unat (z_store_width s * elem_size s)) (iter_z_addr s) stride (z_buffer_previos s) (tcdm s),
      iter_z_row_ptr := 0, iter_z_addr := iter_z_addr s3 + of_nat nz * (k_size s3 * elem_size s3), z_acc_block := 0\<rparr>)"
    using W unfolding f3 W_def stride_def by (auto simp: s3 s2 s1)
  show thesis
  proof (rule that [of s4])
    show "requests c a E (ny + nw + nx + nz) s = Some s4"
      unfolding requests_add r1 bind.bind_lunit r2 r3 r4 by (rule refl)
    show "pointers_reset s4" using ptr by (simp add: pointers_reset_def s4 s3 s2 s1)
  qed (simp_all add: s4 s3 s2 s1 statics_def position_def)
qed

lemma preload_requests:
  fixes c s
  defines "W \<equiv> unat (row_bytes c s)" and "B \<equiv> unat (bandwidth c)" and "stride \<equiv> k_size s * elem_size s"
  assumes ok: "\<forall>i. tcdm_ok E i" and fold: "fold_tiles_mapping c = 0" and cmp: "compute_able s \<noteq> 0"
    and st: "fsm_state s = PRELOAD" and ptr: "pointers_reset s"
    and blocks: "y_acc_block s = of_nat ny" "w_acc_block s = 0" "x_acc_block s = of_nat nx"
    and W: "0 < W" "ny * W < 4294967296" and B: "0 < B" "nx * B < 4294967296" and e: "n_size s * elem_size s = sx"
  obtains s' where "requests c a E (ny + nx) s = Some s'"
    and "statics s' = statics s" and "position s' = position s" and "pointers_reset s'"
    and "z_buffer_previos s' = z_buffer_previos s" and "redmule_query s' = redmule_query s" and "replies s' = replies s"
    and "y_buffer_preload s' = rows_upto ny W (unat (y_cut c s)) (rows_at (tcdm s) (iter_y_addr s) stride) (y_buffer_preload s)"
    and "z_buffer_compute s' = z_buffer_compute s" and "w_buffer s' = w_buffer s"
    and "x_buffer s' = rows_upto nx B (unat (x_cut c s)) (rows_at (tcdm s) (iter_x_addr s) sx) (x_buffer s)"
    and "tcdm s' = tcdm s"
proof -
  obtain s1 \<sigma>1 where r1: "requests c a E ny s = Some s1" and s1: "s1 = scr \<sigma>1 (s\<lparr>
      y_buffer_preload := rows_upto ny W (unat (y_cut c s)) (rows_at (tcdm s) (iter_y_addr s) stride) (y_buffer_preload s), iter_y_row_ptr := 0,
      iter_y_addr := iter_y_addr s + of_nat ny * (k_size s * elem_size s), y_acc_block := 0\<rparr>)"
    using block_y [OF ok fold cmp disjI1 [OF st] blocks(1), of a] ptr W
    unfolding W_def stride_def pointers_reset_def rows_at_def by blast
  have f1: "x_cut c s1 = x_cut c s" by (simp add: s1 x_cut_def)
  have st1: "fsm_state s1 = PRELOAD" "compute_able s1 \<noteq> 0" "y_acc_block s1 = 0" "w_acc_block s1 = 0"
      "x_acc_block s1 = of_nat nx" "iter_x_row_ptr s1 = 0" "tcdm s1 = tcdm s" "iter_x_addr s1 = iter_x_addr s"
    using st cmp blocks ptr by (simp_all add: s1 pointers_reset_def)
  from block_x [OF ok fold st1(2) disjI1 [OF st1(1)] st1(3,4,5,6), of a]
  obtain s2 \<sigma>2 where r2: "requests c a E nx s1 = Some s2" and s2: "s2 = scr \<sigma>2 (s1\<lparr>
      x_buffer := rows_upto nx B (unat (x_cut c s)) (rows_at (tcdm s) (iter_x_addr s) sx) (x_buffer s1), iter_x_row_ptr := 0,
      iter_x_addr := iter_x_addr s1 + of_nat nx * (n_size s1 * elem_size s1), x_acc_block := 0\<rparr>)"
    using B e st1(7,8) unfolding f1 B_def rows_at_def by (auto simp: s1)
  show thesis
  proof (rule that [of s2])
    show "requests c a E (ny + nx) s = Some s2"
      unfolding requests_add r1 bind.bind_lunit r2 by (rule refl)
    show "pointers_reset s2" using ptr by (simp add: pointers_reset_def s2 s1)
  qed (simp_all add: s2 s1 statics_def position_def)
qed

end
