(* ===== verification/Sim_Redmule_Tiles.thy ===== *)
theory Sim_Redmule_Tiles
  imports Sim_Redmule_Data
begin

text \<open>
  The matrix product of the engine in terms of tiles, over natural numbers: how many tiles there are, which
  bytes of the operands a tile buffer holds, and what memory looks like when the first \<open>p\<close> tiles of Z have
  been stored.
\<close>

subsection \<open>A product and its tiles\<close>

text \<open>A product \<open>Y := Y + X * W\<close> with X of \<open>m\<close> by \<open>n\<close> and W of \<open>n\<close> by \<open>k\<close> elements, as the registers describe
  it, and the memory before it.\<close>

record gemm_job =
  g_m :: nat
  g_n :: nat
  g_k :: nat
  g_x :: u32
  g_w :: u32
  g_y :: u32
  g_fmt :: u32
  g_mem :: "u32 \<Rightarrow> u8"

definition g_elem :: "gemm_job \<Rightarrow> nat" where
  "g_elem J = (if g_fmt J < 4 then 2 else 1)"

definition ceil_div :: "nat \<Rightarrow> nat \<Rightarrow> nat" where
  "ceil_div a b = a div b + (if 0 < a mod b then 1 else 0)"

definition t_rows :: "rm_conf \<Rightarrow> nat" where "t_rows c = unat (ce_height c)"
definition t_cols :: "rm_conf \<Rightarrow> nat" where "t_cols c = unat (buffer_w c)"
definition t_bytes :: "rm_conf \<Rightarrow> nat" where "t_bytes c = unat (bandwidth c)"
definition t_inner :: "rm_conf \<Rightarrow> gemm_job \<Rightarrow> nat" where "t_inner c J = t_bytes c div g_elem J"
definition t_width :: "rm_conf \<Rightarrow> gemm_job \<Rightarrow> nat" where "t_width c J = t_cols c * g_elem J"

definition n_rows :: "rm_conf \<Rightarrow> gemm_job \<Rightarrow> nat" where "n_rows c J = ceil_div (g_m J) (t_rows c)"
definition n_cols :: "rm_conf \<Rightarrow> gemm_job \<Rightarrow> nat" where "n_cols c J = ceil_div (g_k J) (t_cols c)"
definition n_inner :: "rm_conf \<Rightarrow> gemm_job \<Rightarrow> nat" where "n_inner c J = ceil_div (g_n J) (t_inner c J)"

text \<open>Rows and bytes of a tile inside the matrix.\<close>

definition rows_in :: "rm_conf \<Rightarrow> gemm_job \<Rightarrow> nat \<Rightarrow> nat" where
  "rows_in c J i = min (t_rows c) (g_m J - i * t_rows c)"

definition inner_in :: "rm_conf \<Rightarrow> gemm_job \<Rightarrow> nat \<Rightarrow> nat" where
  "inner_in c J t = min (t_inner c J) (g_n J - t * t_inner c J)"

definition x_bytes :: "rm_conf \<Rightarrow> gemm_job \<Rightarrow> nat \<Rightarrow> nat" where
  "x_bytes c J t = min (t_bytes c) (g_n J * g_elem J - t * t_bytes c)"

definition w_bytes :: "rm_conf \<Rightarrow> gemm_job \<Rightarrow> nat \<Rightarrow> nat" where
  "w_bytes c J j = min (t_width c J) (g_k J * g_elem J - j * t_width c J)"

text \<open>The tile buffers: zero outside the matrix.\<close>

definition x_tile :: "rm_conf \<Rightarrow> gemm_job \<Rightarrow> nat \<Rightarrow> nat \<Rightarrow> bytes" where
  "x_tile c J i t = rows_upto (rows_in c J i) (t_bytes c) (x_bytes c J t)
     (\<lambda>r q. g_mem J (g_x J + of_nat ((i * t_rows c + r) * (g_n J * g_elem J) + t * t_bytes c + q))) (\<lambda>_. 0)"

definition w_tile :: "rm_conf \<Rightarrow> gemm_job \<Rightarrow> nat \<Rightarrow> nat \<Rightarrow> bytes" where
  "w_tile c J t j = rows_upto (inner_in c J t) (t_width c J) (w_bytes c J j)
     (\<lambda>r q. g_mem J (g_w J + of_nat ((t * t_inner c J + r) * (g_k J * g_elem J) + j * t_width c J + q))) (\<lambda>_. 0)"

definition y_tile :: "rm_conf \<Rightarrow> gemm_job \<Rightarrow> nat \<Rightarrow> nat \<Rightarrow> bytes" where
  "y_tile c J i j = rows_upto (rows_in c J i) (t_width c J) (w_bytes c J j)
     (\<lambda>r q. g_mem J (g_y J + of_nat ((i * t_rows c + r) * (g_k J * g_elem J) + j * t_width c J + q))) (\<lambda>_. 0)"

definition tile_product :: "rm_conf \<Rightarrow> rm_arith \<Rightarrow> gemm_job \<Rightarrow> bytes \<Rightarrow> bytes \<Rightarrow> bytes \<Rightarrow> bytes" where
  "tile_product c a J =
     compute_tile a (g_fmt J) (of_nat (t_rows c)) (of_nat (t_inner c J)) (of_nat (t_cols c))"

text \<open>The tile of Z after \<open>n\<close> tile products.\<close>

definition z_tile :: "rm_conf \<Rightarrow> rm_arith \<Rightarrow> gemm_job \<Rightarrow> nat \<Rightarrow> nat \<Rightarrow> nat \<Rightarrow> bytes" where
  "z_tile c a J i j n = fold (\<lambda>t. tile_product c a J (x_tile c J i t) (w_tile c J t j)) [0 ..< n] (y_tile c J i j)"

text \<open>Byte \<open>q\<close> of row \<open>r\<close> of the result, and the memory when the first \<open>p\<close> tiles have been stored.\<close>

definition z_byte :: "rm_conf \<Rightarrow> rm_arith \<Rightarrow> gemm_job \<Rightarrow> nat \<Rightarrow> nat \<Rightarrow> u8" where
  "z_byte c a J r q =
     z_tile c a J (r div t_rows c) (q div t_width c J) (n_inner c J) (r mod t_rows c * t_width c J + q mod t_width c J)"

definition tile_at :: "rm_conf \<Rightarrow> gemm_job \<Rightarrow> nat \<Rightarrow> nat \<Rightarrow> nat" where
  "tile_at c J r q = r div t_rows c * n_cols c J + q div t_width c J"

definition mem_after :: "rm_conf \<Rightarrow> rm_arith \<Rightarrow> gemm_job \<Rightarrow> nat \<Rightarrow> u32 \<Rightarrow> u8" where
  "mem_after c a J p = (\<lambda>d.
     let o' = unat (d - g_y J); L = g_k J * g_elem J in
     if o' < g_m J * L \<and> tile_at c J (o' div L) (o' mod L) < p then z_byte c a J (o' div L) (o' mod L)
     else g_mem J d)"

text \<open>What the engine relies on: sizes of 16 bits, buffers and matrices within 32 bits, tiles stored row by
  row, and a result that does not overlap the factors.\<close>

definition job_ok :: "rm_conf \<Rightarrow> gemm_job \<Rightarrow> bool" where
  "job_ok c J =
     (0 < g_m J \<and> g_m J < 65536 \<and> 0 < g_n J \<and> g_n J < 65536 \<and> 0 < g_k J \<and> g_k J < 65536 \<and> g_fmt J \<noteq> 0 \<and>
      fold_tiles_mapping c = 0 \<and> 0 < t_rows c \<and> 0 < t_cols c \<and> 0 < t_bytes c \<and> even (t_bytes c) \<and>
      t_rows c * t_cols c < 2147483648 \<and> t_rows c * t_bytes c < 4294967296 \<and> t_cols c * t_bytes c < 4294967296 \<and>
      g_m J * (g_k J * g_elem J) < 4294967296 \<and>
      (\<forall>d < g_m J * (g_n J * g_elem J). \<not> unat (g_x J + of_nat d - g_y J) < g_m J * (g_k J * g_elem J)) \<and>
      (\<forall>d < g_n J * (g_k J * g_elem J). \<not> unat (g_w J + of_nat d - g_y J) < g_m J * (g_k J * g_elem J)))"

subsection \<open>Arithmetic of tiles\<close>

lemma ceil_div_less: "0 < b \<Longrightarrow> i < ceil_div a b \<longleftrightarrow> i * b < a"
proof -
  assume b: "0 < b"
  have "a = a div b * b + a mod b" by simp
  show ?thesis
  proof (cases "a mod b = 0")
    case True
    then have "a = a div b * b" by (metis add.right_neutral div_mult_mod_eq)
    then have "i * b < a \<longleftrightarrow> i < a div b" using b by (metis mult_less_cancel2)
    then show ?thesis using True by (simp add: ceil_div_def)
  next
    case False
    have "i * b < a \<longleftrightarrow> i \<le> a div b"
    proof
      assume "i * b < a"
      then show "i \<le> a div b" using b by (simp add: less_eq_div_iff_mult_less_eq)
    next
      assume "i \<le> a div b"
      then have "i * b \<le> a div b * b" by simp
      also have "\<dots> < a" using False by (metis div_mult_mod_eq less_add_same_cancel1 neq0_conv)
      finally show "i * b < a" .
    qed
    then show ?thesis using False by (simp add: ceil_div_def less_Suc_eq_le)
  qed
qed

lemma ceil_div_pos: "0 < a \<Longrightarrow> 0 < b \<Longrightarrow> 0 < ceil_div a b"
  by (simp add: ceil_div_less)

lemma ceil_div_le: "0 < b \<Longrightarrow> ceil_div a b \<le> a"
  by (metis ceil_div_less less_irrefl mult.right_neutral mult_le_mono2 not_le not_less_eq_eq less_le_trans One_nat_def Suc_leI)

lemma tiles_nat:
  assumes "a < 4294967296" and "b < 4294967296"
  shows "tiles (of_nat a) (of_nat b) = (of_nat (ceil_div a b) :: u32)"
proof -
  have "(of_nat a :: u32) mod of_nat b = of_nat (a mod b)" "(of_nat a :: u32) div of_nat b = of_nat (a div b)"
    using assms by (simp_all add: word_arith_nat_mod word_arith_nat_div unat_of_nat32)
  moreover have "a mod b < 4294967296" using assms(1) by (meson le_less_trans mod_less_eq_dividend)
  ultimately show ?thesis
    using of_nat_gt_0_32 [of "a mod b"] by (simp add: tiles_def ceil_div_def)
qed

lemma cutoff_nat:
  assumes "a < 4294967296" and "b < 4294967296" and "t * b \<le> a"
  shows "cutoff (of_nat a) (of_nat t) (of_nat b) = (of_nat (min b (a - t * b)) :: u32)"
proof -
  have "of_nat a - of_nat t * of_nat b = (of_nat (a - t * b) :: u32)" using assms(3) by simp
  moreover have "(of_nat (a - t * b) :: u32) < of_nat b \<longleftrightarrow> a - t * b < b"
    using assms by (simp add: word_less_nat_alt unat_of_nat32 del: of_nat_diff)
  ultimately show ?thesis by (simp add: cutoff_def Let_def min_def)
qed

lemma job_okD:
  assumes "job_ok c J"
  shows "0 < t_rows c" "0 < t_cols c" "0 < t_bytes c" "0 < t_width c J" "0 < t_inner c J"
    and "0 < g_m J" "0 < g_n J" "0 < g_k J" "0 < g_k J * g_elem J" "g_m J < 65536" "g_n J < 65536" "g_k J < 65536"
    and "g_m J * (g_k J * g_elem J) < 4294967296" and "t_inner c J * g_elem J = t_bytes c"
    and "0 < g_elem J" "g_elem J \<le> 2" "fold_tiles_mapping c = 0" "g_fmt J \<noteq> 0"
    and "t_rows c * t_width c J < 4294967296" "t_rows c * t_bytes c < 4294967296" "t_cols c * t_bytes c < 4294967296"
proof -
  have e: "g_elem J = 1 \<or> g_elem J = 2" by (simp add: g_elem_def)
  have b: "0 < t_bytes c" "even (t_bytes c)" using assms by (auto simp: job_ok_def)
  then have "2 \<le> t_bytes c" by (metis One_nat_def Suc_leI dvd_imp_le numeral_2_eq_2)
  then show "0 < t_inner c J" using e by (auto simp: t_inner_def)
  show "t_inner c J * g_elem J = t_bytes c" using e b by (auto simp: t_inner_def)
  have "t_rows c * t_width c J = t_rows c * t_cols c * g_elem J" by (simp add: t_width_def)
  also have "\<dots> \<le> t_rows c * t_cols c * 2" using e by auto
  also have "\<dots> < 4294967296" using assms unfolding job_ok_def by linarith
  finally show "t_rows c * t_width c J < 4294967296" .
qed (use assms in \<open>auto simp: job_ok_def t_width_def g_elem_def\<close>)

lemma job_ok_apart:
  assumes "job_ok c J"
  shows "d < g_m J * (g_n J * g_elem J) \<Longrightarrow> \<not> unat (g_x J + of_nat d - g_y J) < g_m J * (g_k J * g_elem J)"
    and "d < g_n J * (g_k J * g_elem J) \<Longrightarrow> \<not> unat (g_w J + of_nat d - g_y J) < g_m J * (g_k J * g_elem J)"
  using assms unfolding job_ok_def by blast+

lemma in_grid:
  assumes "job_ok c J"
  shows "i < n_rows c J \<longleftrightarrow> i * t_rows c < g_m J" and "j < n_cols c J \<longleftrightarrow> j * t_cols c < g_k J"
    and "t < n_inner c J \<longleftrightarrow> t * t_inner c J < g_n J"
    and "j < n_cols c J \<longleftrightarrow> j * t_width c J < g_k J * g_elem J"
    and "t < n_inner c J \<longleftrightarrow> t * t_bytes c < g_n J * g_elem J"
proof -
  note d = job_okD [OF assms]
  show "i < n_rows c J \<longleftrightarrow> i * t_rows c < g_m J" and j: "j < n_cols c J \<longleftrightarrow> j * t_cols c < g_k J"
    and t: "t < n_inner c J \<longleftrightarrow> t * t_inner c J < g_n J"
    using d by (simp_all add: n_rows_def n_cols_def n_inner_def ceil_div_less)
  show "j < n_cols c J \<longleftrightarrow> j * t_width c J < g_k J * g_elem J"
    unfolding j t_width_def using d(15) by (simp flip: mult.assoc)
  show "t < n_inner c J \<longleftrightarrow> t * t_bytes c < g_n J * g_elem J"
    unfolding t d(14) [symmetric] using d(15) by (simp flip: mult.assoc)
qed

lemma rows_inD: "r < rows_in c J i \<Longrightarrow> r < t_rows c \<and> i * t_rows c + r < g_m J"
  by (auto simp: rows_in_def)

lemma w_bytesD: "q < w_bytes c J j \<Longrightarrow> q < t_width c J \<and> j * t_width c J + q < g_k J * g_elem J"
  by (auto simp: w_bytes_def)

lemma x_bytesD: "q < x_bytes c J t \<Longrightarrow> q < t_bytes c \<and> t * t_bytes c + q < g_n J * g_elem J"
  by (auto simp: x_bytes_def)

lemma inner_inD: "r < inner_in c J t \<Longrightarrow> r < t_inner c J \<and> t * t_inner c J + r < g_n J"
  by (auto simp: inner_in_def)

lemma cell_less: "r < m \<Longrightarrow> q < L \<Longrightarrow> r * L + q < m * (L :: nat)"
  by (metis add.commute mult.commute nat_mult_less_cancel_disj add_less_cancel_left less_le_trans
      mult_Suc mult_le_mono2 Suc_leI)

lemma cell_div: "q < L \<Longrightarrow> (r * L + q) div L = r" "q < L \<Longrightarrow> (r * L + q) mod L = (q :: nat)"
  by simp_all

subsection \<open>Memory while the tiles of Z are stored\<close>

lemma unat_diff_offset:
  assumes "a + n \<le> 4294967296"
  shows "unat (d - (y + of_nat a) :: u32) < n \<longleftrightarrow> a \<le> unat (d - y) \<and> unat (d - y) < a + n"
    and "a \<le> unat (d - y) \<Longrightarrow> unat (d - y) < a + n \<Longrightarrow> unat (d - (y + of_nat a) :: u32) = unat (d - y) - a"
proof -
  have e: "d - (y + of_nat a) = d - y - of_nat a" by (simp add: algebra_simps)
  show eq: "unat (d - (y + of_nat a)) = unat (d - y) - a" if "a \<le> unat (d - y)" "unat (d - y) < a + n"
  proof -
    have "a < 4294967296" using that unat_lt32 [of "d - y"] by linarith
    then show ?thesis unfolding e using that by (simp add: unat_sub32 unat_of_nat32)
  qed
  show "unat (d - (y + of_nat a)) < n \<longleftrightarrow> a \<le> unat (d - y) \<and> unat (d - y) < a + n"
  proof
    assume less: "unat (d - (y + of_nat a)) < n"
    let ?u = "unat (d - (y + of_nat a))"
    have "d - y = of_nat (?u + a)" by (simp add: algebra_simps)
    moreover have "?u + a < 4294967296" using less assms by linarith
    ultimately have "unat (d - y) = ?u + a" using unat_of_nat32 by metis
    then show "a \<le> unat (d - y) \<and> unat (d - y) < a + n" using less by linarith
  next
    assume in_range: "a \<le> unat (d - y) \<and> unat (d - y) < a + n"
    then have "unat (d - (y + of_nat a)) = unat (d - y) - a" using eq by blast
    then show "unat (d - (y + of_nat a)) < n" using in_range by linarith
  qed
qed

lemma store_rows_at:
  assumes "\<And>r. r < b \<Longrightarrow> a + r * L + n \<le> 4294967296" and "n \<le> L"
  shows "store_rows b W n (y + of_nat a) (of_nat L) z mem d =
    (if \<exists>r<b. a + r * L \<le> unat (d - y) \<and> unat (d - y) < a + r * L + n
     then z ((unat (d - y) - a) div L * W + (unat (d - y) - a) mod L) else mem d)"
  using assms
proof (induction b)
  case 0
  then show ?case by (simp add: store_rows_def)
next
  case (Suc b)
  let ?o = "unat (d - y)"
  have base: "y + of_nat a + of_nat b * of_nat L = y + of_nat (a + b * L)" by simp
  have fits: "a + b * L + n \<le> 4294967296" using Suc.prems(1) [of b] by simp
  note off = unat_diff_offset [OF fits, of d y]
  show ?case
  proof (cases "a + b * L \<le> ?o \<and> ?o < a + b * L + n")
    case True
    then obtain q where q: "?o = a + b * L + q" "q < n" by (metis add_less_cancel_left le_Suc_ex)
    have "q < L" using q(2) Suc.prems(2) by simp
    then have "(?o - a) div L = b" "(?o - a) mod L = q" using q(1) by simp_all
    moreover have "unat (d - (y + of_nat (a + b * L))) = q" using off(2) True q(1) by simp
    ultimately have "store_rows (Suc b) W n (y + of_nat a) (of_nat L) z mem d = z (b * W + q)"
      using q(2) unfolding store_rows_Suc [symmetric] base tcdm_write_def by simp
    moreover have "\<exists>r<Suc b. a + r * L \<le> ?o \<and> ?o < a + r * L + n" using True by blast
    ultimately show ?thesis using \<open>(?o - a) div L = b\<close> \<open>(?o - a) mod L = q\<close> by simp
  next
    case False
    have "store_rows (Suc b) W n (y + of_nat a) (of_nat L) z mem d = store_rows b W n (y + of_nat a) (of_nat L) z mem d"
      unfolding store_rows_Suc [symmetric] base tcdm_write_def off(1) by (simp only: if_not_P [OF False])
    moreover have "(\<exists>r<Suc b. a + r * L \<le> ?o \<and> ?o < a + r * L + n) \<longleftrightarrow> (\<exists>r<b. a + r * L \<le> ?o \<and> ?o < a + r * L + n)"
      using False by (auto simp: less_Suc_eq)
    moreover have "store_rows b W n (y + of_nat a) (of_nat L) z mem d =
      (if \<exists>r<b. a + r * L \<le> ?o \<and> ?o < a + r * L + n then z ((?o - a) div L * W + (?o - a) mod L) else mem d)"
      by (rule Suc.IH) (use Suc.prems in auto)
    ultimately show ?thesis by presburger
  qed
qed

text \<open>The byte \<open>q\<close> of row \<open>r\<close> of tile \<open>(i, j)\<close> in the result, and back.\<close>

lemma tile_coords:
  assumes "job_ok c J" and r: "r < rows_in c J i" and q: "q < w_bytes c J j"
  defines "R \<equiv> i * t_rows c + r" and "Q \<equiv> j * t_width c J + q" and "L \<equiv> g_k J * g_elem J"
  shows "(R * L + Q) div L = R" "(R * L + Q) mod L = Q" "R div t_rows c = i" "R mod t_rows c = r"
    "Q div t_width c J = j" "Q mod t_width c J = q" "R * L + Q < g_m J * L" "Q < L" "R < g_m J"
    "r * t_width c J + q < t_rows c * t_width c J"
proof -
  have r': "r < t_rows c" "R < g_m J" using rows_inD [OF r] by (simp_all add: R_def)
  have q': "q < t_width c J" "Q < L" using w_bytesD [OF q] by (simp_all add: Q_def L_def)
  show "(R * L + Q) div L = R" "(R * L + Q) mod L = Q" using q' by simp_all
  show "R div t_rows c = i" "R mod t_rows c = r" using r' by (simp_all add: R_def)
  show "Q div t_width c J = j" "Q mod t_width c J = q" using q' by (simp_all add: Q_def)
  show "R * L + Q < g_m J * L" by (rule cell_less [OF r'(2) q'(2)])
  show "r * t_width c J + q < t_rows c * t_width c J" by (rule cell_less [OF r'(1) q'(1)])
qed (use rows_inD [OF r] w_bytesD [OF q] in \<open>simp_all add: R_def Q_def L_def\<close>)

lemma tile_at_inject:
  assumes "Q div W < n" and "j < n" and "(a :: nat) * n + Q div W = i * n + j"
  shows "a = i \<and> Q div W = j"
proof -
  have "(a * n + Q div W) div n = a" "(i * n + j) div n = i" using assms(1,2) by simp_all
  then have "a = i" using assms(3) by simp
  then show ?thesis using assms(3) by simp
qed

lemma coords_of:
  assumes ok: "job_ok c J" and j: "j < n_cols c J" and o': "o' < g_m J * (g_k J * g_elem J)"
    and t: "tile_at c J (o' div (g_k J * g_elem J)) (o' mod (g_k J * g_elem J)) = i * n_cols c J + j"
  obtains r q where "r < rows_in c J i" and "q < w_bytes c J j"
    and "o' = (i * t_rows c + r) * (g_k J * g_elem J) + (j * t_width c J + q)"
proof -
  let ?L = "g_k J * g_elem J" and ?R = "o' div (g_k J * g_elem J)" and ?Q = "o' mod (g_k J * g_elem J)"
  note d = job_okD [OF ok]
  have R: "?R < g_m J" using o' d(9) by (simp add: div_less_iff_less_mult)
  have Q: "?Q < ?L" using d(9) by simp
  have "?Q div t_width c J < n_cols c J"
    unfolding in_grid(4) [OF ok] using Q by (meson div_times_less_eq_dividend le_less_trans)
  then have ij: "?R div t_rows c = i" "?Q div t_width c J = j"
    using tile_at_inject [of ?Q "t_width c J" "n_cols c J" j "?R div t_rows c" i] t j unfolding tile_at_def by simp_all
  have R': "?R = i * t_rows c + ?R mod t_rows c" using ij(1) by (metis div_mult_mod_eq)
  have Q': "?Q = j * t_width c J + ?Q mod t_width c J" using ij(2) by (metis div_mult_mod_eq)
  show thesis
  proof (rule that [of "?R mod t_rows c" "?Q mod t_width c J"])
    show "?R mod t_rows c < rows_in c J i" using R R' d(1) unfolding rows_in_def by simp
    show "?Q mod t_width c J < w_bytes c J j" using Q Q' d(4) unfolding w_bytes_def by simp
    show "o' = (i * t_rows c + ?R mod t_rows c) * ?L + (j * t_width c J + ?Q mod t_width c J)"
      unfolding R' [symmetric] Q' [symmetric] by (rule div_mult_mod_eq [symmetric])
  qed
qed

lemma mem_after_store:
  assumes ok: "job_ok c J" and j: "j < n_cols c J"
    and z: "\<forall>q < t_rows c * t_width c J. z q = z_tile c a J i j (n_inner c J) q"
  shows "store_rows (rows_in c J i) (t_width c J) (w_bytes c J j)
      (g_y J + of_nat (i * t_rows c * (g_k J * g_elem J) + j * t_width c J)) (of_nat (g_k J * g_elem J)) z
      (mem_after c a J (i * n_cols c J + j)) = mem_after c a J (Suc (i * n_cols c J + j))"
proof
  fix d
  let ?L = "g_k J * g_elem J" and ?o = "unat (d - g_y J)" and ?p = "i * n_cols c J + j"
  let ?a = "i * t_rows c * ?L + j * t_width c J" and ?n = "w_bytes c J j"
  note D = job_okD [OF ok]
  have a: "?a + r * ?L + q = (i * t_rows c + r) * ?L + (j * t_width c J + q)" for r q by (simp add: algebra_simps)
  have fits: "?a + r * ?L + ?n \<le> 4294967296" if "r < rows_in c J i" for r
  proof (cases "?n = 0")
    case True
    have "i * t_rows c + r < g_m J" using rows_inD [OF that] by simp
    moreover have "j * t_width c J < ?L" using j in_grid(4) [OF ok] by simp
    ultimately show ?thesis using cell_less [of "i * t_rows c + r" "g_m J" "j * t_width c J" ?L] D(13)
      by (simp add: True algebra_simps)
  next
    case False
    then have "?a + r * ?L + (?n - 1) < g_m J * ?L"
      unfolding a using tile_coords(7) [OF ok that, of "?n - 1" j] by simp
    then show ?thesis using D(13) by linarith
  qed
  have n: "?n \<le> ?L" by (simp add: w_bytes_def)
  have hit: "(\<exists>r<rows_in c J i. ?a + r * ?L \<le> ?o \<and> ?o < ?a + r * ?L + ?n) \<longleftrightarrow>
      ?o < g_m J * ?L \<and> tile_at c J (?o div ?L) (?o mod ?L) = ?p"
  proof
    assume "\<exists>r<rows_in c J i. ?a + r * ?L \<le> ?o \<and> ?o < ?a + r * ?L + ?n"
    then obtain r q where r: "r < rows_in c J i" and q: "q < ?n" and o': "?o = ?a + r * ?L + q"
      by (metis add_less_cancel_left le_Suc_ex)
    note t = tile_coords [OF ok r q]
    show "?o < g_m J * ?L \<and> tile_at c J (?o div ?L) (?o mod ?L) = ?p"
      unfolding o' a t(1,2) tile_at_def t(3,5) using t(7) by simp
  next
    assume h: "?o < g_m J * ?L \<and> tile_at c J (?o div ?L) (?o mod ?L) = ?p"
    obtain r q where "r < rows_in c J i" and "q < ?n" and "?o = (i * t_rows c + r) * ?L + (j * t_width c J + q)"
      by (rule coords_of [OF ok j conjunct1 [OF h] conjunct2 [OF h]])
    then show "\<exists>r<rows_in c J i. ?a + r * ?L \<le> ?o \<and> ?o < ?a + r * ?L + ?n"
      unfolding a [symmetric] by (intro exI [of _ r]) simp
  qed
  have store: "store_rows (rows_in c J i) (t_width c J) ?n (g_y J + of_nat ?a) (of_nat ?L) z (mem_after c a J ?p) d =
      (if ?o < g_m J * ?L \<and> tile_at c J (?o div ?L) (?o mod ?L) = ?p
       then z ((?o - ?a) div ?L * t_width c J + (?o - ?a) mod ?L) else mem_after c a J ?p d)"
    unfolding hit [symmetric] by (rule store_rows_at [OF fits n])
  show "store_rows (rows_in c J i) (t_width c J) ?n (g_y J + of_nat ?a) (of_nat ?L) z (mem_after c a J ?p) d =
      mem_after c a J (Suc ?p) d"
  proof (cases "?o < g_m J * ?L \<and> tile_at c J (?o div ?L) (?o mod ?L) = ?p")
    case True
    obtain r q where r: "r < rows_in c J i" and q: "q < ?n" and o': "?o = (i * t_rows c + r) * ?L + (j * t_width c J + q)"
      by (rule coords_of [OF ok j conjunct1 [OF True] conjunct2 [OF True]])
    note t = tile_coords [OF ok r q]
    have q': "q < ?L" using q n by simp
    have "?o - ?a = r * ?L + q" unfolding o' a [symmetric] by simp
    then have "(?o - ?a) div ?L = r" "(?o - ?a) mod ?L = q" using cell_div [OF q', of r] by (simp_all only:)
    moreover have "z_byte c a J (?o div ?L) (?o mod ?L) = z (r * t_width c J + q)"
      unfolding o' t(1,2) z_byte_def t(3-6) using z t(10) by simp
    ultimately show ?thesis
      unfolding store unfolding mem_after_def Let_def using True by simp
  next
    case False
    then show ?thesis unfolding store if_not_P [OF False] by (auto simp: mem_after_def Let_def less_Suc_eq)
  qed
qed

subsection \<open>Loads read the memory before the product\<close>

lemma mem_after_tile:
  assumes "job_ok c J" and "r < rows_in c J i" and "q < w_bytes c J j" and "p \<le> i * n_cols c J + j"
  shows "mem_after c a J p (g_y J + of_nat ((i * t_rows c + r) * (g_k J * g_elem J) + j * t_width c J + q)) =
    g_mem J (g_y J + of_nat ((i * t_rows c + r) * (g_k J * g_elem J) + j * t_width c J + q))"
proof -
  let ?a = "(i * t_rows c + r) * (g_k J * g_elem J) + (j * t_width c J + q)"
  note t = tile_coords [OF assms(1-3)]
  have "?a < 4294967296" using t(7) job_okD(13) [OF assms(1)] by linarith
  then have "unat (of_nat ?a :: u32) = ?a" by (rule unat_of_nat32)
  then show ?thesis using t(1-3,5) assms(4) by (simp add: mem_after_def tile_at_def Let_def add.assoc)
qed

lemma mem_after_outside: "\<not> unat (d - g_y J) < g_m J * (g_k J * g_elem J) \<Longrightarrow> mem_after c a J p d = g_mem J d"
  by (simp add: mem_after_def Let_def)

lemma rows_upto_cong:
  assumes "\<And>r q. r < b \<Longrightarrow> q < n \<Longrightarrow> src r q = src' r q"
  shows "rows_upto b W n src old = rows_upto b W n src' old"
  using assms by (auto simp: rows_upto_def)

lemma x_tile_load:
  assumes ok: "job_ok c J"
  shows "rows_upto (rows_in c J i) (t_bytes c) (x_bytes c J t)
      (rows_at (mem_after c a J p) (g_x J + of_nat (i * t_rows c * (g_n J * g_elem J) + t * t_bytes c)) (of_nat (g_n J * g_elem J)))
      (\<lambda>_. 0) = x_tile c J i t"
  unfolding x_tile_def
proof (rule rows_upto_cong)
  fix r q
  assume r: "r < rows_in c J i" and q: "q < x_bytes c J t"
  let ?a = "(i * t_rows c + r) * (g_n J * g_elem J) + t * t_bytes c + q"
  have "?a < g_m J * (g_n J * g_elem J)"
    using rows_inD [OF r] x_bytesD [OF q] unfolding add.assoc by (intro cell_less) simp_all
  then have "\<not> unat (g_x J + of_nat ?a - g_y J) < g_m J * (g_k J * g_elem J)" by (rule job_ok_apart(1) [OF ok])
  then have "mem_after c a J p (g_x J + of_nat ?a) = g_mem J (g_x J + of_nat ?a)" by (rule mem_after_outside)
  moreover have "g_x J + of_nat (i * t_rows c * (g_n J * g_elem J) + t * t_bytes c) + of_nat r * of_nat (g_n J * g_elem J) + of_nat q =
      g_x J + of_nat ?a" by (simp add: algebra_simps)
  ultimately show "rows_at (mem_after c a J p) (g_x J + of_nat (i * t_rows c * (g_n J * g_elem J) + t * t_bytes c)) (of_nat (g_n J * g_elem J)) r q =
      g_mem J (g_x J + of_nat ?a)" by (simp only: rows_at_def)
qed

lemma w_tile_load:
  assumes ok: "job_ok c J"
  shows "rows_upto (inner_in c J t) (t_width c J) (w_bytes c J j)
      (rows_at (mem_after c a J p) (g_w J + of_nat (t * t_inner c J * (g_k J * g_elem J) + j * t_width c J)) (of_nat (g_k J * g_elem J)))
      (\<lambda>_. 0) = w_tile c J t j"
  unfolding w_tile_def
proof (rule rows_upto_cong)
  fix r q
  assume r: "r < inner_in c J t" and q: "q < w_bytes c J j"
  let ?a = "(t * t_inner c J + r) * (g_k J * g_elem J) + j * t_width c J + q"
  have "?a < g_n J * (g_k J * g_elem J)"
    using inner_inD [OF r] w_bytesD [OF q] unfolding add.assoc by (intro cell_less) simp_all
  then have "\<not> unat (g_w J + of_nat ?a - g_y J) < g_m J * (g_k J * g_elem J)" by (rule job_ok_apart(2) [OF ok])
  then have "mem_after c a J p (g_w J + of_nat ?a) = g_mem J (g_w J + of_nat ?a)" by (rule mem_after_outside)
  moreover have "g_w J + of_nat (t * t_inner c J * (g_k J * g_elem J) + j * t_width c J) + of_nat r * of_nat (g_k J * g_elem J) + of_nat q =
      g_w J + of_nat ?a" by (simp add: algebra_simps)
  ultimately show "rows_at (mem_after c a J p) (g_w J + of_nat (t * t_inner c J * (g_k J * g_elem J) + j * t_width c J)) (of_nat (g_k J * g_elem J)) r q =
      g_mem J (g_w J + of_nat ?a)" by (simp only: rows_at_def)
qed

lemma y_tile_load:
  assumes ok: "job_ok c J" and p: "p \<le> i * n_cols c J + j"
  shows "rows_upto (rows_in c J i) (t_width c J) (w_bytes c J j)
      (rows_at (mem_after c a J p) (g_y J + of_nat (i * t_rows c * (g_k J * g_elem J) + j * t_width c J)) (of_nat (g_k J * g_elem J)))
      (\<lambda>_. 0) = y_tile c J i j"
  unfolding y_tile_def
proof (rule rows_upto_cong)
  fix r q
  assume r: "r < rows_in c J i" and q: "q < w_bytes c J j"
  let ?a = "(i * t_rows c + r) * (g_k J * g_elem J) + j * t_width c J + q"
  have "mem_after c a J p (g_y J + of_nat ?a) = g_mem J (g_y J + of_nat ?a)" by (rule mem_after_tile [OF ok r q p])
  moreover have "g_y J + of_nat (i * t_rows c * (g_k J * g_elem J) + j * t_width c J) + of_nat r * of_nat (g_k J * g_elem J) + of_nat q =
      g_y J + of_nat ?a" by (simp add: algebra_simps)
  ultimately show "rows_at (mem_after c a J p) (g_y J + of_nat (i * t_rows c * (g_k J * g_elem J) + j * t_width c J)) (of_nat (g_k J * g_elem J)) r q =
      g_mem J (g_y J + of_nat ?a)" by (simp only: rows_at_def)
qed

end
