(* ===== verification/Sim_Redmule_Arith.thy ===== *)
theory Sim_Redmule_Arith
  imports Sim_Redmule_Tiles
begin

text \<open>
  The loops of the tile arithmetic, for any element type over a byte array (\<open>element_array\<close>): every
  element of the result is the chain of steps over its row and column, and no byte outside the tile matters.
\<close>

locale element_array =
  fixes sz :: nat
    and get :: "bytes \<Rightarrow> nat \<Rightarrow> 'v"
    and put :: "bytes \<Rightarrow> nat \<Rightarrow> 'v \<Rightarrow> bytes"
    and zero :: 'v
  assumes get_put: "get (put b i v) j = (if i = j then v else get b j)"
    and get_bytes: "(\<And>q. q < sz \<Longrightarrow> b (sz * i + q) = b' (sz * i' + q)) \<Longrightarrow> get b i = get b' i'"
    and put_inside: "sz * i \<le> q \<Longrightarrow> q < sz * i + sz \<Longrightarrow> put b i v q = put b' i v q"
    and put_outside: "q < sz * i \<or> sz * i + sz \<le> q \<Longrightarrow> put b i v q = b q"
    and get_zero: "get (\<lambda>_. 0) i = zero"
begin

text \<open>One element: its inner loop only changes the element.\<close>

lemma inner_loop:
  "get (fold (\<lambda>l z. put z p (mac (x l) (w l) (get z p))) ls z) q =
    (if q = p then fold (\<lambda>l. mac (x l) (w l)) ls (get z p) else get z q)"
  by (induction ls arbitrary: z) (auto simp: get_put)

lemma element_done:
  "get (let z = put z p (get z p) in fold (\<lambda>l z. put z p (mac (x l) (w l) (get z p))) ls z) q =
    (if q = p then fold (\<lambda>l. mac (x l) (w l)) ls (get z p) else get z q)"
  using inner_loop [of p mac x w ls "put z p (get z p)" q] by (simp add: get_put Let_def)

text \<open>A loop over distinct elements, each computed from its own old value.\<close>

lemma element_loop_out:
  assumes "\<And>p z q. p \<in> set ps \<Longrightarrow> get (f p z) q = (if q = at p then g p (get z (at p)) else get z q)"
  shows "q \<notin> at ` set ps \<Longrightarrow> get (fold f ps z) q = get z q"
  using assms by (induction ps arbitrary: z) simp_all

lemma element_loop:
  assumes "\<And>p z q. p \<in> set ps \<Longrightarrow> get (f p z) q = (if q = at p then g p (get z (at p)) else get z q)"
    and "distinct (map at ps)" and "p \<in> set ps"
  shows "get (fold f ps z) (at p) = g p (get z (at p))"
  using assms
proof (induction ps arbitrary: z)
  case (Cons p' ps)
  show ?case
  proof (cases "p = p'")
    case True
    then have "at p \<notin> at ` set ps" using Cons.prems(2) by simp
    then have "get (fold f ps (f p' z)) (at p) = get (f p' z) (at p)"
      using Cons.prems(1) by (intro element_loop_out [where f = f and g = g]) simp_all
    then show ?thesis using Cons.prems(1) True by simp
  next
    case False
    then have p: "p \<in> set ps" using Cons.prems(3) by simp
    then have "at p \<in> at ` set ps" by (rule imageI)
    then have "at p \<noteq> at p'" using Cons.prems(2) by auto
    then show ?thesis using p Cons.IH Cons.prems(1,2) by simp
  qed
qed simp

lemma loop_product: "fold (\<lambda>i. fold (f i) js) is = fold (\<lambda>(i, j). f i j) (List.product is js)"
  by (induction "is") (auto simp: fold_map comp_def fun_eq_iff)

lemma cell_inj: "distinct (map (\<lambda>(i, j). i * k + j) (List.product [0 ..< m] [0 ..< k :: nat]))"
proof -
  have "inj_on (\<lambda>(i, j). i * k + j) (set (List.product [0 ..< m] [0 ..< k]))"
  proof (rule inj_onI, clarsimp)
    fix i j i' j'
    assume "j < k" "j' < k" and e: "i * k + j = i' * k + j'"
    then have "i = i'" by (metis cell_div(1))
    then show "i = i' \<and> j = j'" using e by simp
  qed
  then show ?thesis by (simp add: distinct_map distinct_product)
qed

lemma matmul_loops_product:
  "matmul_loops get put mac m n k x w z = fold (\<lambda>(i, j) z.
     let z = put z (i * unat k + j) (get z (i * unat k + j))
     in fold (\<lambda>l z. put z (i * unat k + j)
          (mac (get x (i * unat n + l)) (get w (l * unat k + j)) (get z (i * unat k + j)))) [0 ..< unat n] z)
     (List.product [0 ..< unat m] [0 ..< unat k]) z"
  unfolding matmul_loops_def loop_product ..

theorem matmul_element:
  assumes "i < unat m" and "j < unat k"
  shows "get (matmul_loops get put mac m n k x w z) (i * unat k + j) =
    fold (\<lambda>l. mac (get x (i * unat n + l)) (get w (l * unat k + j))) [0 ..< unat n] (get z (i * unat k + j))"
proof -
  have "get (fold (\<lambda>(i, j) z.
     let z = put z (i * unat k + j) (get z (i * unat k + j))
     in fold (\<lambda>l z. put z (i * unat k + j)
          (mac (get x (i * unat n + l)) (get w (l * unat k + j)) (get z (i * unat k + j)))) [0 ..< unat n] z)
     (List.product [0 ..< unat m] [0 ..< unat k]) z) ((\<lambda>(i, j). i * unat k + j) (i, j)) =
    (\<lambda>(i, j). fold (\<lambda>l. mac (get x (i * unat n + l)) (get w (l * unat k + j))) [0 ..< unat n]) (i, j)
      (get z ((\<lambda>(i, j). i * unat k + j) (i, j)))"
  proof (rule element_loop)
    fix p :: "nat \<times> nat" and z :: bytes and q
    obtain a b where p: "p = (a, b)" by (cases p)
    show "get ((case p of (i, j) \<Rightarrow> \<lambda>z.
        let z = put z (i * unat k + j) (get z (i * unat k + j))
        in fold (\<lambda>l z. put z (i * unat k + j)
             (mac (get x (i * unat n + l)) (get w (l * unat k + j)) (get z (i * unat k + j)))) [0 ..< unat n] z) z) q =
      (if q = (case p of (i, j) \<Rightarrow> i * unat k + j)
       then (case p of (i, j) \<Rightarrow> fold (\<lambda>l. mac (get x (i * unat n + l)) (get w (l * unat k + j))) [0 ..< unat n])
         (get z (case p of (i, j) \<Rightarrow> i * unat k + j)) else get z q)"
      unfolding p prod.case by (rule element_done)
  qed (use assms cell_inj in auto)
  then show ?thesis unfolding matmul_loops_product by simp
qed

subsection \<open>Only the bytes of the tile matter\<close>

definition agree :: "nat \<Rightarrow> bytes \<Rightarrow> bytes \<Rightarrow> bool" where
  "agree n b b' = (\<forall>q<n. b q = b' q)"

lemma agree_get: "agree n b b' \<Longrightarrow> sz * i + sz \<le> n \<Longrightarrow> get b i = get b' i"
  by (rule get_bytes) (simp add: agree_def)

lemma agree_put: "agree n b b' \<Longrightarrow> agree n (put b i v) (put b' i v)"
  unfolding agree_def by (metis not_le put_inside put_outside)

lemma fold_agree:
  assumes "\<And>x b b'. x \<in> set xs \<Longrightarrow> agree n b b' \<Longrightarrow> agree n (f x b) (f x b')"
  shows "agree n b b' \<Longrightarrow> agree n (fold f xs b) (fold f xs b')"
  using assms by (induction xs arbitrary: b b') simp_all

lemma element_fits:
  assumes "i < m" and "j < k" and "sz * (m * k) \<le> n"
  shows "sz * (i * k + j) + sz \<le> n"
proof -
  have "Suc (i * k + j) \<le> m * k" using cell_less [OF assms(1,2)] by simp
  then have "sz * Suc (i * k + j) \<le> sz * (m * k)" by (rule mult_le_mono2)
  then show ?thesis using assms(3) by simp
qed

theorem matmul_agree:
  assumes "agree b z z'" and "sz * (unat m * unat k) \<le> b"
  shows "agree b (matmul_loops get put mac m n k x w z) (matmul_loops get put mac m n k x w z')"
  unfolding matmul_loops_product
proof (rule fold_agree [OF _ assms(1)], clarify)
  fix i j z z'
  assume ij: "(i, j) \<in> set (List.product [0 ..< unat m] [0 ..< unat k])" and a: "agree b z z'"
  let ?p = "i * unat k + j"
  have fits: "sz * ?p + sz \<le> b" using ij assms(2) by (intro element_fits) auto
  have "agree b (put z ?p (get z ?p)) (put z' ?p (get z' ?p))"
    using agree_put [OF a] agree_get [OF a fits] by simp
  then show "agree b
     (let z = put z ?p (get z ?p) in fold (\<lambda>l z. put z ?p (mac (get x (i * unat n + l)) (get w (l * unat k + j)) (get z ?p))) [0 ..< unat n] z)
     (let z = put z' ?p (get z' ?p) in fold (\<lambda>l z. put z ?p (mac (get x (i * unat n + l)) (get w (l * unat k + j)) (get z ?p))) [0 ..< unat n] z)"
    unfolding Let_def
  proof (rule fold_agree [rotated])
    fix l y y'
    assume y: "agree b y y'"
    show "agree b (put y ?p (mac (get x (i * unat n + l)) (get w (l * unat k + j)) (get y ?p)))
        (put y' ?p (mac (get x (i * unat n + l)) (get w (l * unat k + j)) (get y' ?p)))"
      unfolding agree_get [OF y fits] by (rule agree_put [OF y])
  qed
qed

end

subsection \<open>Bytes and half words\<close>

lemma cat16: "word_cat (ucast (drop_bit 8 v) :: u8) (ucast v :: u8) = (v :: u16)"
  by (rule bit_word_eqI) (auto simp: bit_simps)

lemma get16_put16: "get16 (put16 b i v) j = (if i = j then v else get16 b j)"
proof -
  have "2 * j + 1 \<noteq> 2 * i" "2 * j \<noteq> 2 * i + 1" for i j :: nat by presburger+
  then show ?thesis by (auto simp: get16_def put16_def cat16)
qed

interpretation bytes8: element_array 1 get8 put8 0
  by unfold_locales (auto simp: get8_def put8_def)

interpretation bytes16: element_array 2 get16 put16 0
proof
  fix b b' :: bytes and i i'
  assume e: "\<And>q. q < 2 \<Longrightarrow> b (2 * i + q) = b' (2 * i' + q)"
  show "get16 b i = get16 b' i'" using e [of 0] e [of 1] by (simp add: get16_def)
next
  show "2 * i \<le> q \<Longrightarrow> q < 2 * i + 2 \<Longrightarrow> put16 b i v q = put16 b' i v q" for b b' i v q
    by (cases "q = 2 * i") (auto simp: put16_def)
next
  show "get16 (put16 b i v) j = (if i = j then v else get16 b j)" for b i v j by (rule get16_put16)
qed (auto simp: put16_def get16_def)

text \<open>The tile products agree below the size of the tile when they start from tiles that do.\<close>

lemma compute_tile_agree:
  assumes "\<forall>q<b. z q = z' q" and "(if fmt < 4 then 2 else 1) * (unat bh * unat bw) \<le> b"
  shows "\<forall>q<b. compute_tile a fmt bh bn bw x w z q = compute_tile a fmt bh bn bw x w z' q"
proof -
  have small: "fmt < 4 \<longleftrightarrow> fmt = 0 \<or> fmt = 1 \<or> fmt = 2 \<or> fmt = 3" for fmt :: u32
    by (simp add: word_less_nat_alt unat_eq_iff32) arith
  show ?thesis
    using bytes8.matmul_agree [unfolded bytes8.agree_def, OF assms(1), of bh bw]
      bytes16.matmul_agree [unfolded bytes16.agree_def, OF assms(1), of bh bw] assms
    by (auto simp: compute_tile_def matmul_uint16_def matmul_int16_def tile_matmul_fp16_def matmul_uint8_def
        matmul_int8_def matmul_fp8e4m3_def small)
qed

end
