(* ===== verification/Sim_Redmule_Run.thy ===== *)
theory Sim_Redmule_Run
  imports Sim_Redmule_Arith
begin

text \<open>
  A whole run of the engine: the state between two phases (\<open>at_tile\<close>) in terms of the tiles, what the
  requests of the phase that follows do to it, and the induction over the tiles.
\<close>

subsection \<open>Between the phases\<close>

lemma conf_nat [simp]:
  "of_nat (t_rows c) = ce_height c" "of_nat (t_cols c) = buffer_w c" "of_nat (t_bytes c) = bandwidth c"
  by (simp_all add: t_rows_def t_cols_def t_bytes_def)

definition job_regs :: "rm_conf \<Rightarrow> gemm_job \<Rightarrow> redmule \<Rightarrow> bool" where
  "job_regs c J s =
     (statics s = (of_nat (g_elem J), g_fmt J, of_nat (g_m J), of_nat (g_n J), of_nat (g_k J), g_x J, g_w J, g_y J, g_y J,
        of_nat (n_inner c J), of_nat (g_n J mod t_inner c J), of_nat (n_cols c J), of_nat (n_rows c J)))"

lemma job_regsD:
  assumes "job_regs c J s"
  shows "elem_size s = of_nat (g_elem J)" "compute_able s = g_fmt J" "m_size s = of_nat (g_m J)" "n_size s = of_nat (g_n J)"
    "k_size s = of_nat (g_k J)" "x_addr s = g_x J" "w_addr s = g_w J" "y_addr s = g_y J" "z_addr s = g_y J"
    "x_row_tiles s = of_nat (n_inner c J)" "x_row_lefts s = of_nat (g_n J mod t_inner c J)"
    "z_row_tiles s = of_nat (n_cols c J)" "z_col_tiles s = of_nat (n_rows c J)"
  using assms by (simp_all add: job_regs_def statics_def)

text \<open>The finished tile number \<open>p\<close>, waiting to be stored.\<close>

definition waiting_tile :: "rm_conf \<Rightarrow> rm_arith \<Rightarrow> gemm_job \<Rightarrow> nat \<Rightarrow> redmule \<Rightarrow> bool" where
  "waiting_tile c a J p s =
     ((\<forall>q < t_rows c * t_width c J. z_buffer_previos s q =
          z_tile c a J (p div n_cols c J) (p mod n_cols c J) (n_inner c J) q) \<and>
      z_store_width s = of_nat (w_bytes c J (p mod n_cols c J) div g_elem J) \<and>
      z_store_height s = of_nat (rows_in c J (p div n_cols c J)))"

definition at_tile :: "rm_conf \<Rightarrow> rm_arith \<Rightarrow> gemm_job \<Rightarrow> nat \<Rightarrow> nat \<Rightarrow> nat \<Rightarrow> redmule \<Rightarrow> bool" where
  "at_tile c a J i j t s =
     (job_regs c J s \<and> position s = (ROUTINE, of_nat i, of_nat j, of_nat t) \<and> pointers_reset s \<and>
      x_buffer s = x_tile c J i t \<and> w_buffer s = (\<lambda>_. 0) \<and> y_buffer_preload s = (\<lambda>_. 0) \<and>
      (\<forall>q < t_rows c * t_width c J. z_buffer_compute s q = z_tile c a J i j t q) \<and>
      z_store_width s * of_nat (g_elem J) \<le> of_nat (t_width c J) \<and>
      tcdm s = mem_after c a J (if t = 0 then i * n_cols c J + j - 1 else i * n_cols c J + j) \<and>
      (t = 0 \<and> 0 < i * n_cols c J + j \<longrightarrow> waiting_tile c a J (i * n_cols c J + j - 1) s))"

definition host :: "redmule \<Rightarrow> bool \<times> nat" where
  "host s = (redmule_query s, replies s)"

definition routine_entry :: "rm_conf \<Rightarrow> redmule \<Rightarrow> redmule" where
  "routine_entry c s = (case get_routine_access_block_number c s of (n, s1) \<Rightarrow> timed 0 0 [] (s1\<lparr>tcdm_block_total := n\<rparr>))"

definition storing_entry :: "rm_conf \<Rightarrow> redmule \<Rightarrow> redmule" where
  "storing_entry c s = (case get_storing_access_block_number c s of (n, s1) \<Rightarrow>
     timed 0 0 [] (s1\<lparr>tcdm_block_total := n, fsm_state := STORING\<rparr>))"

lemma timed_statics [simp]:
  "statics (timed t k q s) = statics s" "position (timed t k q s) = position s"
  "pointers_reset (timed t k q s) = pointers_reset s" "host (timed t k q s) = host s"
  "x_buffer (timed t k q s) = x_buffer s" "w_buffer (timed t k q s) = w_buffer s"
  "y_buffer_preload (timed t k q s) = y_buffer_preload s" "z_buffer_compute (timed t k q s) = z_buffer_compute s"
  "z_buffer_previos (timed t k q s) = z_buffer_previos s" "tcdm (timed t k q s) = tcdm s"
  "z_store_width (timed t k q s) = z_store_width s" "z_store_height (timed t k q s) = z_store_height s"
  by (simp_all add: timed_def statics_def position_def pointers_reset_def host_def)

lemma at_tile_timed [simp]: "at_tile c a J i j n (timed t k q s) = at_tile c a J i j n s"
  by (simp add: at_tile_def job_regs_def waiting_tile_def)

subsection \<open>Counts as words\<close>

lemma n_inner_bounds:
  assumes "job_ok c J"
  shows "0 < n_inner c J" "n_inner c J < 65536" "0 < n_cols c J" "n_cols c J < 65536" "0 < n_rows c J" "n_rows c J < 65536"
proof -
  note d = job_okD [OF assms]
  have "ceil_div a b \<le> a" if "0 < b" for a b :: nat using that by (rule ceil_div_le)
  then show "n_inner c J < 65536" "n_cols c J < 65536" "n_rows c J < 65536"
    using d unfolding n_inner_def n_cols_def n_rows_def by (meson le_less_trans)+
  show "0 < n_inner c J" "0 < n_cols c J" "0 < n_rows c J"
    using d by (simp_all add: n_inner_def n_cols_def n_rows_def ceil_div_pos)
qed

lemma of_nat_inj32: "a < 4294967296 \<Longrightarrow> b < 4294967296 \<Longrightarrow> (of_nat a :: u32) = of_nat b \<longleftrightarrow> a = b"
  by (metis unat_of_nat32)

lemma of_nat_minus1: "0 < a \<Longrightarrow> of_nat a - 1 = (of_nat (a - 1) :: u32)"
  by (cases a) simp_all

lemma of_nat_plus1: "of_nat a + 1 = (of_nat (Suc a) :: u32)"
  by (simp add: add.commute)

lemma buffer_n_nat:
  assumes "job_ok c J" and "job_regs c J s"
  shows "buffer_n c s = of_nat (t_inner c J)"
proof -
  have "g_elem J < 4294967296" using job_okD(16) [OF assms(1)] by simp
  then have "bandwidth c div of_nat (g_elem J) = of_nat (t_bytes c div g_elem J)"
    unfolding t_bytes_def by (simp add: word_arith_nat_div unat_of_nat32)
  then show ?thesis using job_regsD [OF assms(2)] by (simp add: buffer_n_def t_inner_def)
qed

lemma row_bytes_nat:
  assumes "job_ok c J" and "job_regs c J s"
  shows "row_bytes c s = of_nat (t_width c J)" "unat (row_bytes c s) = t_width c J"
proof -
  show e: "row_bytes c s = of_nat (t_width c J)"
    using job_regsD [OF assms(2)] by (simp add: row_bytes_def t_width_def)
  have "t_width c J \<le> t_rows c * t_width c J" using job_okD(1) [OF assms(1)] by simp
  then have "t_width c J < 4294967296" using job_okD(19) [OF assms(1)] by linarith
  then show "unat (row_bytes c s) = t_width c J" unfolding e by (rule unat_of_nat32)
qed

lemma width_small: "job_ok c J \<Longrightarrow> t_width c J < 4294967296"
  using job_okD(1,19) [of c J] by (metis le_less_trans mult.commute mult_le_mono1 nat_mult_1 Suc_leI One_nat_def)

lemma bytes_small: "t_bytes c < 4294967296"
  by (simp add: t_bytes_def)

lemma sizes_small:
  assumes "job_ok c J"
  shows "g_n J * g_elem J < 4294967296" "g_k J * g_elem J < 4294967296" "g_m J * g_elem J < 4294967296"
proof -
  have "a * g_elem J < 4294967296" if "a < 65536" for a
  proof -
    have "a * g_elem J \<le> a * 2" using job_okD(16) [OF assms] by simp
    then show ?thesis using that by linarith
  qed
  then show "g_n J * g_elem J < 4294967296" "g_k J * g_elem J < 4294967296" "g_m J * g_elem J < 4294967296"
    using job_okD(10-12) [OF assms] by simp_all
qed

text \<open>The cutoffs of the code are those of the tiles.\<close>

lemma w_cutoff_nat:
  assumes "job_ok c J" and "job_regs c J s" and "j < n_cols c J"
  shows "cutoff (k_size s * elem_size s) (of_nat j) (row_bytes c s) = of_nat (w_bytes c J j)"
proof -
  have "j * t_width c J \<le> g_k J * g_elem J" using assms(3) in_grid(4) [OF assms(1)] by simp
  then show ?thesis
    using cutoff_nat [OF sizes_small(2) [OF assms(1)] width_small [OF assms(1)]] job_regsD [OF assms(2)]
      row_bytes_nat(1) [OF assms(1,2)]
    by (simp add: w_bytes_def)
qed

lemma x_cutoff_nat:
  assumes "job_ok c J" and "job_regs c J s" and "t < n_inner c J"
  shows "cutoff (n_size s * elem_size s) (of_nat t) (bandwidth c) = of_nat (x_bytes c J t)"
proof -
  have "t * t_bytes c \<le> g_n J * g_elem J" using assms(3) in_grid(5) [OF assms(1)] by simp
  then show ?thesis
    using cutoff_nat [OF sizes_small(1) [OF assms(1)] bytes_small] job_regsD [OF assms(2)]
    by (simp add: x_bytes_def)
qed

lemma rows_left_nat:
  assumes "job_ok c J" and "job_regs c J s" and "i < n_rows c J"
  shows "rows_left c s (of_nat i) = of_nat (rows_in c J i)"
proof -
  have "i * t_rows c \<le> g_m J" using assms(3) in_grid(1) [OF assms(1)] by simp
  moreover have "g_m J < 4294967296" "t_rows c < 4294967296"
    using job_okD(10) [OF assms(1)] by (simp_all add: t_rows_def)
  ultimately show ?thesis
    using cutoff_nat [of "g_m J" "t_rows c" i] job_regsD [OF assms(2)] by (simp add: rows_left_def rows_in_def)
qed

lemma height_cutoff_nat:
  assumes "job_ok c J" and "job_regs c J s" and "i < n_rows c J"
  shows "cutoff (m_size s * elem_size s) (of_nat i) (ce_height c * elem_size s) = of_nat (rows_in c J i * g_elem J)"
proof -
  have "i * t_rows c \<le> g_m J" using assms(3) in_grid(1) [OF assms(1)] by simp
  then have "i * (t_rows c * g_elem J) \<le> g_m J * g_elem J" by (simp flip: mult.assoc)
  moreover have "t_rows c * g_elem J \<le> t_rows c * t_width c J"
    using job_okD(2) [OF assms(1)] by (simp add: t_width_def)
  then have "t_rows c * g_elem J < 4294967296" using job_okD(19) [OF assms(1)] by linarith
  moreover have "min (t_rows c * g_elem J) (g_m J * g_elem J - i * (t_rows c * g_elem J)) = rows_in c J i * g_elem J"
    unfolding rows_in_def mult.assoc [symmetric] diff_mult_distrib [symmetric] nat_mult_min_left [symmetric] by (rule refl)
  ultimately show ?thesis
    using cutoff_nat [OF sizes_small(3) [OF assms(1)], of "t_rows c * g_elem J" i] job_regsD [OF assms(2)] by simp
qed

lemma div_elem_nat:
  assumes "job_ok c J" and "a < 4294967296"
  shows "(of_nat a :: u32) div of_nat (g_elem J) = of_nat (a div g_elem J)"
  using assms(2) job_okD(16) [OF assms(1)] by (simp add: word_arith_nat_div unat_of_nat32)

subsection \<open>The blocks of an iteration\<close>

definition last_tile :: "rm_conf \<Rightarrow> gemm_job \<Rightarrow> nat \<Rightarrow> nat \<Rightarrow> nat \<Rightarrow> bool" where
  "last_tile c J i j t = (Suc i = n_rows c J \<and> Suc j = n_cols c J \<and> Suc t = n_inner c J)"

fun after :: "rm_conf \<Rightarrow> gemm_job \<Rightarrow> nat \<times> nat \<times> nat \<Rightarrow> nat \<times> nat \<times> nat" where
  "after c J (i, j, t) =
     (if Suc t = n_inner c J then (if Suc j = n_cols c J then (Suc i, 0, 0) else (i, Suc j, 0)) else (i, j, Suc t))"

definition y_rows :: "rm_conf \<Rightarrow> gemm_job \<Rightarrow> nat \<Rightarrow> nat \<Rightarrow> nat \<Rightarrow> nat" where
  "y_rows c J i j t =
     (if Suc t = n_inner c J \<and> \<not> last_tile c J i j t then rows_in c J (fst (after c J (i, j, t))) else 0)"

definition x_rows :: "rm_conf \<Rightarrow> gemm_job \<Rightarrow> nat \<Rightarrow> nat \<Rightarrow> nat \<Rightarrow> nat" where
  "x_rows c J i j t = (if \<not> last_tile c J i j t then rows_in c J (fst (after c J (i, j, t))) else 0)"

definition z_rows :: "rm_conf \<Rightarrow> gemm_job \<Rightarrow> nat \<Rightarrow> nat \<Rightarrow> nat \<Rightarrow> nat" where
  "z_rows c J i j t =
     (if t = 0 \<and> 0 < i * n_cols c J + j then rows_in c J ((i * n_cols c J + j - 1) div n_cols c J) else 0)"

definition in_range :: "rm_conf \<Rightarrow> gemm_job \<Rightarrow> nat \<Rightarrow> nat \<Rightarrow> nat \<Rightarrow> bool" where
  "in_range c J i j t = (i < n_rows c J \<and> j < n_cols c J \<and> t < n_inner c J)"

lemma after_in_range:
  assumes "in_range c J i j t" and "\<not> last_tile c J i j t" and "after c J (i, j, t) = (i', j', t')"
  shows "in_range c J i' j' t'"
  using assms by (auto simp: in_range_def last_tile_def split: if_splits)

lemma conds_nat:
  assumes ok: "job_ok c J" and r: "job_regs c J s" and p: "position s = (ROUTINE, of_nat i, of_nat j, of_nat t)"
    and ijt: "in_range c J i j t"
  shows "iter_k s + 1 = x_row_tiles s \<longleftrightarrow> Suc t = n_inner c J" "iter_j s + 1 = z_row_tiles s \<longleftrightarrow> Suc j = n_cols c J"
    and "iter_i s + 1 = z_col_tiles s \<longleftrightarrow> Suc i = n_rows c J"
    and "iter_k s = x_row_tiles s - 1 \<longleftrightarrow> Suc t = n_inner c J" "is_last_iteration s \<longleftrightarrow> last_tile c J i j t"
    and "iter_i s = 0 \<longleftrightarrow> i = 0" "iter_j s = 0 \<longleftrightarrow> j = 0" "iter_k s = 0 \<longleftrightarrow> t = 0"
    and "0 < x_row_lefts s \<longleftrightarrow> 0 < g_n J mod t_inner c J"
proof -
  note b = n_inner_bounds [OF ok]
  note f = job_regsD [OF r]
  have k: "iter_i s = of_nat i" "iter_j s = of_nat j" "iter_k s = of_nat t" using p by (simp_all add: position_def)
  have small: "i < 65536" "j < 65536" "t < 65536" using ijt b by (simp_all add: in_range_def)
  have inc: "a + 1 = (of_nat n :: u32) \<longleftrightarrow> Suc m = n" if "a = of_nat m" "m < 65536" "n < 65536" for a m n
    using that of_nat_inj32 [of "Suc m" n] by (simp only: of_nat_plus1)
  have dec: "a = (of_nat n :: u32) - 1 \<longleftrightarrow> Suc m = n" if "a = of_nat m" "m < 65536" "n < 65536" for a m n
    unfolding inc [OF that, symmetric] by (auto simp: algebra_simps)
  show "iter_k s + 1 = x_row_tiles s \<longleftrightarrow> Suc t = n_inner c J" unfolding f by (rule inc [OF k(3) small(3) b(2)])
  show "iter_j s + 1 = z_row_tiles s \<longleftrightarrow> Suc j = n_cols c J" unfolding f by (rule inc [OF k(2) small(2) b(4)])
  show "iter_i s + 1 = z_col_tiles s \<longleftrightarrow> Suc i = n_rows c J" unfolding f by (rule inc [OF k(1) small(1) b(6)])
  show *: "iter_k s = x_row_tiles s - 1 \<longleftrightarrow> Suc t = n_inner c J"
    unfolding f by (rule dec [OF k(3) small(3) b(2)])
  have "iter_i s = z_col_tiles s - 1 \<longleftrightarrow> Suc i = n_rows c J" "iter_j s = z_row_tiles s - 1 \<longleftrightarrow> Suc j = n_cols c J"
    unfolding f using dec [OF k(1) small(1) b(6)] dec [OF k(2) small(2) b(4)] by blast+
  then show "is_last_iteration s \<longleftrightarrow> last_tile c J i j t" using * by (simp add: is_last_iteration_def last_tile_def)
  show "iter_i s = 0 \<longleftrightarrow> i = 0" "iter_j s = 0 \<longleftrightarrow> j = 0" "iter_k s = 0 \<longleftrightarrow> t = 0"
    unfolding k using small by (simp_all add: of_nat_eq_0_32)
  have "g_n J mod t_inner c J \<le> g_n J" by (rule mod_less_eq_dividend)
  then have "g_n J mod t_inner c J < 4294967296" using job_okD(11) [OF ok] by linarith
  then show "0 < x_row_lefts s \<longleftrightarrow> 0 < g_n J mod t_inner c J" unfolding f by (rule of_nat_gt_0_32)
qed

lemma next_tile_nat:
  assumes "job_ok c J" and "job_regs c J s" and "position s = (ROUTINE, of_nat i, of_nat j, of_nat t)"
    and "in_range c J i j t" and "after c J (i, j, t) = (i', j', t')"
  shows "next_tile s = (of_nat i', of_nat j', of_nat t')"
    and "Suc t = n_inner c J \<Longrightarrow> next_z_tile s = (of_nat i', of_nat j')"
    and "next_iteration s = (last_tile c J i j t, s\<lparr>iter_k := of_nat t', iter_j := of_nat j', iter_i := of_nat i'\<rparr>)"
proof -
  note n = conds_nat [OF assms(1-4)]
  have k: "iter_i s = of_nat i" "iter_j s = of_nat j" "iter_k s = of_nat t" using assms(3) by (simp_all add: position_def)
  show "next_tile s = (of_nat i', of_nat j', of_nat t')"
    using assms(5) unfolding next_tile_def Let_def n by (auto simp: k of_nat_plus1 split: if_splits)
  show "next_z_tile s = (of_nat i', of_nat j')" if "Suc t = n_inner c J"
    using assms(5) that unfolding next_z_tile_def Let_def n by (auto simp: k of_nat_plus1 split: if_splits)
  show "next_iteration s = (last_tile c J i j t, s\<lparr>iter_k := of_nat t', iter_j := of_nat j', iter_i := of_nat i'\<rparr>)"
  proof (cases "Suc t = n_inner c J")
    case True
    show ?thesis
    proof (cases "Suc j = n_cols c J")
      case j: True
      then have "i' = Suc i" "j' = 0" "t' = 0" using assms(5) True by simp_all
      then show ?thesis
        unfolding next_iteration_def Let_def n using True j by (simp add: k of_nat_plus1 last_tile_def del: of_nat_Suc)
    next
      case j: False
      then have e: "i' = i" "j' = Suc j" "t' = 0" using assms(5) True by simp_all
      show ?thesis
        unfolding next_iteration_def Let_def n e k(1) [symmetric] using True j by (simp add: k(2) of_nat_plus1 last_tile_def del: of_nat_Suc)
    qed
  next
    case False
    then have e: "i' = i" "j' = j" "t' = Suc t" using assms(5) by simp_all
    show ?thesis
      unfolding next_iteration_def Let_def n e k(1,2) [symmetric] using False by (simp add: k(3) of_nat_plus1 last_tile_def del: of_nat_Suc)
  qed
qed

lemma inner_in_nat:
  assumes ok: "job_ok c J" and t: "t < n_inner c J"
  shows "inner_in c J t = (if Suc t = n_inner c J \<and> 0 < g_n J mod t_inner c J then g_n J mod t_inner c J else t_inner c J)"
proof -
  let ?N = "t_inner c J" and ?n = "g_n J"
  have split: "?n = ?n div ?N * ?N + ?n mod ?N" by (rule div_mult_mod_eq [symmetric])
  show ?thesis
  proof (cases "Suc t = n_inner c J \<and> 0 < ?n mod ?N")
    case True
    then have "n_inner c J = Suc (?n div ?N)" by (simp add: n_inner_def ceil_div_def)
    then have "t = ?n div ?N" using True by simp
    then have "?n - t * ?N = ?n mod ?N" by (simp add: minus_div_mult_eq_mod)
    moreover have "?n mod ?N < ?N" using job_okD(5) [OF ok] by simp
    ultimately show ?thesis using True by (simp add: inner_in_def)
  next
    case False
    then have "Suc t \<le> ?n div ?N" using t by (auto simp: n_inner_def ceil_div_def split: if_splits)
    then have "Suc t * ?N \<le> ?n div ?N * ?N" by (rule mult_le_mono1)
    then have "Suc t * ?N \<le> ?n" using split by linarith
    then have "?N \<le> ?n - t * ?N" by simp
    then show ?thesis using False by (auto simp: inner_in_def)
  qed
qed

text \<open>The block counts as one update, absent blocks being empty.\<close>

lemma flat_update:
  "(case (if \<not> P then (nw + xb, s\<lparr>x_acc_block := 0, w_acc_block := 0, y_acc_block := 0, z_acc_block := 0,
         w_acc_block := nw, iter_w_addr := wa, iter_x_addr := xa, x_acc_block := xb\<rparr>)
       else (nw, s\<lparr>x_acc_block := 0, w_acc_block := 0, y_acc_block := 0, z_acc_block := 0,
         w_acc_block := nw, iter_w_addr := wa\<rparr>)) of
     (n2, s2) \<Rightarrow>
       (case (if Q \<and> \<not> P then (n2 + yb, s2\<lparr>iter_y_addr := ya, y_acc_block := yb\<rparr>) else (n2, s2)) of
         (n3, s3) \<Rightarrow>
           (case (if R then (n3 + zb, s3\<lparr>z_acc_block := zb, iter_z_addr := za\<rparr>) else (n3, s3)) of (n4, s4) \<Rightarrow> (n4, s4)))) =
   (nw + (if P then 0 else xb) + (if Q \<and> \<not> P then yb else 0) + (if R then zb else 0),
    s\<lparr>x_acc_block := (if P then 0 else xb), w_acc_block := nw, y_acc_block := (if Q \<and> \<not> P then yb else 0),
      z_acc_block := (if R then zb else 0), iter_w_addr := wa, iter_x_addr := (if P then iter_x_addr s else xa),
      iter_y_addr := (if Q \<and> \<not> P then ya else iter_y_addr s), iter_z_addr := (if R then za else iter_z_addr s)\<rparr>)"
  by (cases P; cases Q; cases R) simp_all

lemma get_routine_flat:
  "get_routine_access_block_number c s =
    (let bh = ce_height c; bw = buffer_w c; bn = buffer_n c s; last = is_last_iteration s;
         first = (iter_i s = 0 \<and> iter_j s = 0 \<and> iter_k s = 0);
         k_last = (iter_k s = x_row_tiles s - 1);
         nw = (if k_last \<and> x_row_lefts s > 0 then x_row_lefts s else bn);
         nx = (if last then 0 else rows_left c s (fst (next_tile s)));
         ny = (if k_last \<and> \<not> last then rows_left c s (fst (next_z_tile s)) else 0);
         nz = (if iter_k s = 0 \<and> \<not> first then z_store_height s else 0)
     in (nw + nx + ny + nz, s\<lparr>x_acc_block := nx, w_acc_block := nw, y_acc_block := ny, z_acc_block := nz,
          iter_w_addr := calculate_tile_base_address c s (w_addr s) (k_size s) bn bw (iter_k s) (iter_j s),
          iter_x_addr := (if last then iter_x_addr s else
            calculate_tile_base_address c s (x_addr s) (n_size s) bh bn (fst (next_tile s)) (snd (snd (next_tile s)))),
          iter_y_addr := (if k_last \<and> \<not> last then
            calculate_tile_base_address c s (y_addr s) (k_size s) bh bw (fst (next_z_tile s)) (snd (next_z_tile s)) else iter_y_addr s),
          iter_z_addr := (if iter_k s = 0 \<and> \<not> first then
            calculate_tile_base_address c s (z_addr s) (k_size s) bh bw (fst (prev_z_tile s)) (snd (prev_z_tile s)) else iter_z_addr s)\<rparr>))"
proof -
  obtain i j k where n: "next_tile s = (i, j, k)" by (cases "next_tile s")
  obtain i' j' where nz: "next_z_tile s = (i', j')" by (cases "next_z_tile s")
  obtain i'' j'' where pz: "prev_z_tile s = (i'', j'')" by (cases "prev_z_tile s")
  show ?thesis
    unfolding get_routine_access_block_number_def Let_def n nz pz prod.case fst_conv snd_conv
    by (rule flat_update)
qed

lemma base_address_nat:
  assumes "fold_tiles_mapping c = 0" and "job_regs c J s"
  shows "calculate_tile_base_address c s b (of_nat stride) (of_nat col) (of_nat row) (of_nat i) (of_nat j) =
    b + of_nat (i * col * (stride * g_elem J) + j * (row * g_elem J))"
  using assms job_regsD(1) [OF assms(2)] by (simp add: calculate_tile_base_address_def algebra_simps)

lemma block_update_frame:
  fixes s0 x1 x2 x3 x4 y1 y2 y3 y4 n
  defines "s \<equiv> timed 0 0 [] (s0\<lparr>x_acc_block := x1, w_acc_block := x2, y_acc_block := x3, z_acc_block := x4,
      iter_w_addr := y1, iter_x_addr := y2, iter_y_addr := y3, iter_z_addr := y4, tcdm_block_total := n\<rparr>)"
  shows "statics s = statics s0" "position s = position s0" "pointers_reset s = pointers_reset s0" "tcdm s = tcdm s0"
      "host s = host s0" "z_store_width s = z_store_width s0" "z_buffer_previos s = z_buffer_previos s0"
      "at_tile c a J i j t s = at_tile c a J i j t s0"
  by (simp_all add: s_def at_tile_def job_regs_def waiting_tile_def statics_def position_def pointers_reset_def
      host_def timed_def)

lemma prev_z_nat:
  assumes ok: "job_ok c J" and r: "job_regs c J s" and p: "position s = (ROUTINE, of_nat i, of_nat j, of_nat t)"
    and ijt: "in_range c J i j t" and pos: "0 < i * n_cols c J + j"
  shows "prev_z_tile s = (of_nat ((i * n_cols c J + j - 1) div n_cols c J), of_nat ((i * n_cols c J + j - 1) mod n_cols c J))"
proof -
  let ?n = "n_cols c J"
  note n = conds_nat [OF ok r p ijt]
  have k: "iter_i s = of_nat i" "iter_j s = of_nat j" "z_row_tiles s = of_nat ?n"
    using p job_regsD [OF r] by (simp_all add: position_def)
  have n0: "0 < ?n" "j < ?n" using ijt by (auto simp: in_range_def)
  show ?thesis
  proof (cases "j = 0")
    case True
    then have i: "0 < i" using pos by simp
    then have "i * ?n + j - 1 = (i - 1) * ?n + (?n - 1)" using True n0 by (cases i) simp_all
    moreover have "?n - 1 < ?n" using n0 by simp
    ultimately have "(i * ?n + j - 1) div ?n = i - 1" "(i * ?n + j - 1) mod ?n = ?n - 1" by (simp_all only: cell_div)
    then show ?thesis using True i n0 unfolding prev_z_tile_def n if_P [OF True] by (simp only: k of_nat_minus1)
  next
    case False
    then have "i * ?n + j - 1 = i * ?n + (j - 1)" "j - 1 < ?n" using n0 by simp_all
    then have "(i * ?n + j - 1) div ?n = i" "(i * ?n + j - 1) mod ?n = j - 1" by (simp_all only: cell_div)
    then show ?thesis using False unfolding prev_z_tile_def n if_not_P [OF False] by (simp only: k of_nat_minus1 neq0_conv)
  qed
qed

lemma routine_entry_blocks:
  assumes ok: "job_ok c J" and at: "at_tile c a J i j t s0" and ijt: "in_range c J i j t"
    and nxt: "after c J (i, j, t) = (i', j', t')"
  defines "s \<equiv> routine_entry c s0" and "p \<equiv> i * n_cols c J + j" and "L \<equiv> g_k J * g_elem J"
  shows "y_acc_block s = of_nat (y_rows c J i j t)" "w_acc_block s = of_nat (inner_in c J t)"
      "x_acc_block s = of_nat (x_rows c J i j t)" "z_acc_block s = of_nat (z_rows c J i j t)"
    and "tcdm_block_total s = of_nat (y_rows c J i j t + inner_in c J t + x_rows c J i j t + z_rows c J i j t)"
    and "iter_w_addr s = g_w J + of_nat (t * t_inner c J * L + j * t_width c J)"
    and "\<not> last_tile c J i j t \<Longrightarrow> iter_x_addr s = g_x J + of_nat (i' * t_rows c * (g_n J * g_elem J) + t' * t_bytes c)"
    and "\<not> last_tile c J i j t \<Longrightarrow> Suc t = n_inner c J \<Longrightarrow> iter_y_addr s = g_y J + of_nat (i' * t_rows c * L + j' * t_width c J)"
    and "t = 0 \<Longrightarrow> 0 < p \<Longrightarrow> iter_z_addr s =
           g_y J + of_nat ((p - 1) div n_cols c J * t_rows c * L + (p - 1) mod n_cols c J * t_width c J)"
    and "at_tile c a J i j t s" "host s = host s0"
    and "statics s = statics s0" "position s = position s0" "pointers_reset s" "tcdm s = tcdm s0"
    and "z_store_width s = z_store_width s0" "z_buffer_previos s = z_buffer_previos s0"
proof -
  have r: "job_regs c J s0" and p: "position s0 = (ROUTINE, of_nat i, of_nat j, of_nat t)" using at by (simp_all add: at_tile_def)
  note n = conds_nat [OF ok r p ijt] and f = job_regsD [OF r]
  have k: "iter_i s0 = of_nat i" "iter_j s0 = of_nat j" "iter_k s0 = of_nat t" using p by (simp_all add: position_def)
  note nt = next_tile_nat [OF ok r p ijt nxt]
  have fold: "fold_tiles_mapping c = 0" by (rule job_okD(17) [OF ok])
  note bn = buffer_n_nat [OF ok r]
  have wb: "(if Suc t = n_inner c J \<and> 0 < g_n J mod t_inner c J then x_row_lefts s0 else buffer_n c s0) = of_nat (inner_in c J t)"
    using inner_in_nat [OF ok] ijt by (simp add: f bn in_range_def)
  have xb: "(if last_tile c J i j t then 0 else rows_left c s0 (fst (next_tile s0))) = of_nat (x_rows c J i j t)"
    using rows_left_nat [OF ok r] after_in_range [OF ijt _ nxt] nxt by (auto simp: x_rows_def nt(1) in_range_def)
  have yb: "(if Suc t = n_inner c J \<and> \<not> last_tile c J i j t then rows_left c s0 (fst (next_z_tile s0)) else 0) =
      of_nat (y_rows c J i j t)"
    using rows_left_nat [OF ok r] after_in_range [OF ijt _ nxt] nxt by (auto simp: y_rows_def nt(2) in_range_def)
  have first: "\<not> (i = 0 \<and> j = 0 \<and> t = 0) \<longleftrightarrow> 0 < t \<or> 0 < i * n_cols c J + j" 
    using n_inner_bounds(3) [OF ok] by auto
  have zb: "(if t = 0 \<and> \<not> (i = 0 \<and> j = 0 \<and> t = 0) then z_store_height s0 else 0) = of_nat (z_rows c J i j t)"
    using at unfolding first by (auto simp: z_rows_def at_tile_def waiting_tile_def)
  have e: "s = timed 0 0 [] (s0\<lparr>x_acc_block := of_nat (x_rows c J i j t), w_acc_block := of_nat (inner_in c J t),
      y_acc_block := of_nat (y_rows c J i j t), z_acc_block := of_nat (z_rows c J i j t),
      iter_w_addr := calculate_tile_base_address c s0 (w_addr s0) (k_size s0) (buffer_n c s0) (buffer_w c) (iter_k s0) (iter_j s0),
      iter_x_addr := (if last_tile c J i j t then iter_x_addr s0 else
        calculate_tile_base_address c s0 (x_addr s0) (n_size s0) (ce_height c) (buffer_n c s0) (fst (next_tile s0)) (snd (snd (next_tile s0)))),
      iter_y_addr := (if Suc t = n_inner c J \<and> \<not> last_tile c J i j t then
        calculate_tile_base_address c s0 (y_addr s0) (k_size s0) (ce_height c) (buffer_w c) (fst (next_z_tile s0)) (snd (next_z_tile s0)) else iter_y_addr s0),
      iter_z_addr := (if t = 0 \<and> \<not> (i = 0 \<and> j = 0 \<and> t = 0) then
        calculate_tile_base_address c s0 (z_addr s0) (k_size s0) (ce_height c) (buffer_w c) (fst (prev_z_tile s0)) (snd (prev_z_tile s0)) else iter_z_addr s0),
      tcdm_block_total := of_nat (inner_in c J t) + of_nat (x_rows c J i j t) + of_nat (y_rows c J i j t) + of_nat (z_rows c J i j t)\<rparr>)"
    unfolding s_def routine_entry_def get_routine_flat Let_def n wb xb yb zb prod.case by simp
  show "y_acc_block s = of_nat (y_rows c J i j t)" "w_acc_block s = of_nat (inner_in c J t)"
      "x_acc_block s = of_nat (x_rows c J i j t)" "z_acc_block s = of_nat (z_rows c J i j t)"
      "tcdm_block_total s = of_nat (y_rows c J i j t + inner_in c J t + x_rows c J i j t + z_rows c J i j t)"
    unfolding e by (simp_all add: timed_def)
  show "iter_w_addr s = g_w J + of_nat (t * t_inner c J * L + j * t_width c J)"
    using base_address_nat [OF fold r, of "g_w J" "g_k J" "t_inner c J" "t_cols c" t j] unfolding e L_def t_width_def
    by (simp add: timed_def f k bn del: of_nat_mult of_nat_add)
  show "iter_x_addr s = g_x J + of_nat (i' * t_rows c * (g_n J * g_elem J) + t' * t_bytes c)" if "\<not> last_tile c J i j t"
    using base_address_nat [OF fold r, of "g_x J" "g_n J" "t_rows c" "t_inner c J" i' t'] that job_okD(14) [OF ok] unfolding e
    by (simp add: timed_def f k bn nt(1) del: of_nat_mult of_nat_add)
  show "iter_y_addr s = g_y J + of_nat (i' * t_rows c * L + j' * t_width c J)" if "\<not> last_tile c J i j t" "Suc t = n_inner c J"
    using base_address_nat [OF fold r, of "g_y J" "g_k J" "t_rows c" "t_cols c" i' j'] that unfolding e L_def t_width_def
    by (simp add: timed_def f k nt(2) del: of_nat_mult of_nat_add)
  show "iter_z_addr s = g_y J + of_nat ((p - 1) div n_cols c J * t_rows c * L + (p - 1) mod n_cols c J * t_width c J)"
    if "t = 0" "0 < p"
    using base_address_nat [OF fold r, of "g_y J" "g_k J" "t_rows c" "t_cols c" "(p - 1) div n_cols c J" "(p - 1) mod n_cols c J"] that
      prev_z_nat [OF ok r p ijt] first unfolding e L_def t_width_def p_def
    by (simp add: timed_def f k del: of_nat_mult of_nat_add)
  show "statics s = statics s0" "position s = position s0" "pointers_reset s" "tcdm s = tcdm s0" "host s = host s0"
      "z_store_width s = z_store_width s0" "z_buffer_previos s = z_buffer_previos s0"
    using at [unfolded at_tile_def] unfolding e block_update_frame by simp_all
  show "at_tile c a J i j t s" using at unfolding e block_update_frame .
qed

end
