(* ===== verification/Sim_Redmule_Gemm.thy ===== *)
theory Sim_Redmule_Gemm
  imports Sim_Redmule_Run
begin

text \<open>
  The product the engine computes: what the requests of one phase do to the tiles, the jump to the next
  phase, the run from the trigger to the end, and the properties of the engine.
\<close>

subsection \<open>The requests of one iteration\<close>

lemma rows_in_le: "rows_in c J i \<le> t_rows c"
  by (simp add: rows_in_def)

lemma block_rows_le: "y_rows c J i j t \<le> t_rows c" "x_rows c J i j t \<le> t_rows c" "z_rows c J i j t \<le> t_rows c"
  by (simp_all add: y_rows_def x_rows_def z_rows_def rows_in_le)

lemma inner_in_bounds:
  assumes "job_ok c J" and "t < n_inner c J"
  shows "inner_in c J t \<le> t_inner c J" "0 < inner_in c J t"
  using assms(2) in_grid(3) [OF assms(1)] job_okD(5) [OF assms(1)] by (simp_all add: inner_in_def)

lemma tile_rows_fit:
  assumes "job_ok c J" and "r \<le> t_rows c"
  shows "r * t_width c J < 4294967296" "r * t_bytes c < 4294967296"
  using mult_le_mono1 [OF assms(2), of "t_width c J"] mult_le_mono1 [OF assms(2), of "t_bytes c"]
    job_okD(19,20) [OF assms(1)] by linarith+

lemma w_rows_fit:
  assumes "job_ok c J" and "r \<le> t_inner c J"
  shows "r * t_width c J \<le> t_cols c * t_bytes c"
proof -
  have "r * t_width c J \<le> t_inner c J * t_width c J" by (rule mult_le_mono1 [OF assms(2)])
  also have "\<dots> = t_cols c * (t_inner c J * g_elem J)" by (simp add: t_width_def)
  finally show ?thesis by (simp only: job_okD(14) [OF assms(1)])
qed

lemma rows_upto_beyond: "0 < W \<Longrightarrow> b * W \<le> q \<Longrightarrow> rows_upto b W n src old q = old q"
  by (auto simp: rows_upto_def div_less_iff_less_mult)

lemma memset_rows: "0 < W \<Longrightarrow> b * W \<le> n \<Longrightarrow> memset (rows_upto b W k src (\<lambda>_. 0)) 0 n = (\<lambda>_. 0)"
  by (auto simp: memset_def rows_upto_beyond)

lemma unat_of_nat_times: "a * b < 4294967296 \<Longrightarrow> unat (of_nat a * of_nat b :: u32) = a * b"
  using unat_of_nat32 [of "a * b"] by simp

lemma product_of_nat:
  assumes ok: "job_ok c J" and r: "job_regs c J s"
  shows "product_of c a s = tile_product c a J"
proof -
  have "(ucast (of_nat n :: u32) :: u16) = of_nat n" for n by (rule bit_word_eqI) (simp add: bit_simps unsigned_of_nat)
  then show ?thesis
    using job_regsD(2) [OF r] unfolding product_of_def tile_product_def buffer_n_nat [OF ok r] conf_nat [symmetric] by (simp del: conf_nat)
qed

lemma tile_product_agree:
  assumes "\<forall>q < t_rows c * t_width c J. z q = z' q"
  shows "\<forall>q < t_rows c * t_width c J. tile_product c a J x w z q = tile_product c a J x w z' q"
  unfolding tile_product_def
proof (rule compute_tile_agree [OF assms])
  have "unat (of_nat n :: u16) \<le> n" for n by (simp add: unat_of_nat)
  then have "unat (of_nat (t_rows c) :: u16) * unat (of_nat (t_cols c) :: u16) \<le> t_rows c * t_cols c"
    by (intro mult_le_mono)
  then have "g_elem J * (unat (of_nat (t_rows c) :: u16) * unat (of_nat (t_cols c) :: u16)) \<le> g_elem J * (t_rows c * t_cols c)"
    by (rule mult_le_mono2)
  then show "(if g_fmt J < 4 then 2 else 1) * (unat (of_nat (t_rows c) :: u16) * unat (of_nat (t_cols c) :: u16)) \<le> t_rows c * t_width c J"
    unfolding t_width_def by (simp only: g_elem_def mult_ac)
qed

lemma z_tile_Suc: "z_tile c a J i j (Suc t) = tile_product c a J (x_tile c J i t) (w_tile c J t j) (z_tile c a J i j t)"
  by (simp add: z_tile_def)

text \<open>From a tile to the point where its phase jumps: the product is done, the next factors are loaded,
  and the finished tile before has been stored.\<close>

definition tile_done :: "rm_conf \<Rightarrow> rm_arith \<Rightarrow> gemm_job \<Rightarrow> nat \<Rightarrow> nat \<Rightarrow> nat \<Rightarrow> redmule \<Rightarrow> bool" where
  "tile_done c a J i j t s =
     (case after c J (i, j, t) of (i', j', t') \<Rightarrow>
        job_regs c J s \<and> position s = (ROUTINE, of_nat i, of_nat j, of_nat t) \<and> pointers_reset s \<and>
        x_buffer s = (if last_tile c J i j t then (\<lambda>_. 0) else x_tile c J i' t') \<and> w_buffer s = (\<lambda>_. 0) \<and>
        y_buffer_preload s = (if Suc t = n_inner c J \<and> \<not> last_tile c J i j t then y_tile c J i' j' else (\<lambda>_. 0)) \<and>
        (\<forall>q < t_rows c * t_width c J. z_buffer_compute s q = z_tile c a J i j (Suc t) q) \<and>
        z_store_width s * of_nat (g_elem J) \<le> of_nat (t_width c J) \<and>
        tcdm s = mem_after c a J (i * n_cols c J + j))"

definition tile_requests :: "rm_conf \<Rightarrow> gemm_job \<Rightarrow> nat \<Rightarrow> nat \<Rightarrow> nat \<Rightarrow> nat" where
  "tile_requests c J i j t = y_rows c J i j t + inner_in c J t + x_rows c J i j t + z_rows c J i j t"

lemma w_bytes_elem: "job_ok c J \<Longrightarrow> w_bytes c J j div g_elem J * g_elem J = w_bytes c J j"
proof -
  have "w_bytes c J j = min (t_cols c) (g_k J - j * t_cols c) * g_elem J"
    unfolding w_bytes_def t_width_def mult.assoc [symmetric] diff_mult_distrib [symmetric] nat_mult_min_left [symmetric] ..
  then show ?thesis by simp
qed

lemma bytes_le: "w_bytes c J j \<le> t_width c J" "x_bytes c J t \<le> t_bytes c"
  by (simp_all add: w_bytes_def x_bytes_def)

lemma cuts_nat:
  assumes ok: "job_ok c J" and r: "job_regs c J s" and p: "position s = (ROUTINE, of_nat i, of_nat j, of_nat t)"
    and ijt: "in_range c J i j t" and nxt: "after c J (i, j, t) = (i', j', t')"
  shows "unat (w_cut c s) = w_bytes c J j"
    and "\<not> last_tile c J i j t \<Longrightarrow> unat (x_cut c s) = x_bytes c J t'"
    and "\<not> last_tile c J i j t \<Longrightarrow> Suc t = n_inner c J \<Longrightarrow> unat (y_cut c s) = w_bytes c J j'"
proof -
  note n = conds_nat [OF ok r p ijt]
  have k: "iter_j s = of_nat j" "iter_k s = of_nat t" "fsm_state s = ROUTINE" using p by (simp_all add: position_def)
  have w: "unat (of_nat (w_bytes c J j) :: u32) = w_bytes c J j" for j
    using bytes_le(1) [of c J j] width_small [OF ok] by (intro unat_of_nat32) linarith
  have x: "unat (of_nat (x_bytes c J t) :: u32) = x_bytes c J t" for t
    using bytes_le(2) [of c J t] bytes_small [of c] by (intro unat_of_nat32) linarith
  show "unat (w_cut c s) = w_bytes c J j"
    using w_cutoff_nat [OF ok r, of j] ijt w by (simp add: w_cut_def k in_range_def)
  have i': "in_range c J i' j' t'" if "\<not> last_tile c J i j t" by (rule after_in_range [OF ijt that nxt])
  show "unat (x_cut c s) = x_bytes c J t'" if "\<not> last_tile c J i j t"
  proof -
    have "(if iter_k s + 1 = x_row_tiles s \<or> fsm_state s = PRELOAD then 0 else iter_k s + 1) = of_nat t'"
      unfolding n using nxt by (auto simp: k of_nat_plus1 split: if_splits)
    then show ?thesis using x_cutoff_nat [OF ok r, of t'] i' [OF that] x by (simp add: x_cut_def in_range_def)
  qed
  show "unat (y_cut c s) = w_bytes c J j'" if "\<not> last_tile c J i j t" "Suc t = n_inner c J"
  proof -
    have "(if iter_j s + 1 = z_row_tiles s \<or> fsm_state s = PRELOAD then 0 else iter_j s + 1) = of_nat j'"
      unfolding n using nxt that by (auto simp: k of_nat_plus1 split: if_splits)
    then show ?thesis using w_cutoff_nat [OF ok r, of j'] i' [OF that(1)] w by (simp add: y_cut_def in_range_def)
  qed
qed

text \<open>Storing the tile before: nothing to do except at the first step of a tile.\<close>

lemma store_waiting:
  assumes ok: "job_ok c J" and w: "waiting_tile c a J p s" and r: "job_regs c J s"
  shows "store_rows (rows_in c J (p div n_cols c J)) (t_width c J) (unat (z_store_width s * elem_size s))
      (g_y J + of_nat (p div n_cols c J * t_rows c * (g_k J * g_elem J) + p mod n_cols c J * t_width c J))
      (of_nat (g_k J * g_elem J)) (z_buffer_previos s) (mem_after c a J p) = mem_after c a J (Suc p)"
proof -
  let ?j = "p mod n_cols c J"
  have small: "w_bytes c J ?j < 4294967296" using bytes_le(1) [of c J ?j] width_small [OF ok] by linarith
  have "z_store_width s * elem_size s = of_nat (w_bytes c J ?j div g_elem J * g_elem J)"
    using w job_regsD [OF r] by (simp add: waiting_tile_def)
  then have u: "unat (z_store_width s * elem_size s) = w_bytes c J ?j"
    unfolding w_bytes_elem [OF ok] by (simp only: unat_of_nat32 [OF small])
  have j: "?j < n_cols c J" using n_inner_bounds(3) [OF ok] by simp
  have z: "\<forall>q < t_rows c * t_width c J. z_buffer_previos s q = z_tile c a J (p div n_cols c J) ?j (n_inner c J) q"
    using w by (simp add: waiting_tile_def)
  show ?thesis unfolding u using mem_after_store [OF ok j z] unfolding div_mult_mod_eq .
qed

lemma store_before:
  assumes ok: "job_ok c J" and at: "at_tile c a J i j t s"
    and adr: "t = 0 \<Longrightarrow> 0 < i * n_cols c J + j \<Longrightarrow> iter_z_addr s = g_y J +
      of_nat ((i * n_cols c J + j - 1) div n_cols c J * t_rows c * (g_k J * g_elem J) + (i * n_cols c J + j - 1) mod n_cols c J * t_width c J)"
  shows "store_rows (z_rows c J i j t) (t_width c J) (unat (z_store_width s * elem_size s)) (iter_z_addr s)
      (of_nat (g_k J * g_elem J)) (z_buffer_previos s) (tcdm s) = mem_after c a J (i * n_cols c J + j)"
proof (cases "t = 0 \<and> 0 < i * n_cols c J + j")
  case True
  let ?p = "i * n_cols c J + j - 1"
  have w: "waiting_tile c a J ?p s" and r: "job_regs c J s" and m: "tcdm s = mem_after c a J ?p"
    using at True unfolding at_tile_def by presburger+
  have "z_rows c J i j t = rows_in c J (?p div n_cols c J)" using True by (simp add: z_rows_def)
  moreover have "Suc ?p = i * n_cols c J + j" using True by simp
  ultimately show ?thesis
    using store_waiting [OF ok w r] adr True unfolding m by (simp only: simp_thms)
next
  case False
  then have "z_rows c J i j t = 0" by (auto simp: z_rows_def)
  then show ?thesis using at False by (auto simp: store_rows_def at_tile_def)
qed

lemma tile_phase:
  assumes ok: "job_ok c J" and env: "\<forall>i. tcdm_ok E i" and at: "at_tile c a J i j t s0" and ijt: "in_range c J i j t"
  obtains s' where "requests c a E (tile_requests c J i j t) (routine_entry c s0) = Some s'"
    and "tile_done c a J i j t s'" and "host s' = host s0"
proof -
  obtain i' j' t' where nxt: "after c J (i, j, t) = (i', j', t')" by (cases "after c J (i, j, t)")
  let ?s = "routine_entry c s0" and ?W = "t_width c J" and ?B = "t_bytes c"
  note b = routine_entry_blocks [OF ok at ijt nxt]
  note at' = b(10) [unfolded at_tile_def]
  have r: "job_regs c J ?s" and pos: "position ?s = (ROUTINE, of_nat i, of_nat j, of_nat t)" using at' by blast+
  note f = job_regsD [OF r] and n = conds_nat [OF ok r pos ijt] and rb = row_bytes_nat [OF ok r] and d = job_okD [OF ok]
  have k: "iter_k ?s = of_nat t" "fsm_state ?s = ROUTINE" using pos by (simp_all add: position_def)
  have stride: "k_size ?s * elem_size ?s = of_nat (g_k J * g_elem J)" "n_size ?s * elem_size ?s = of_nat (g_n J * g_elem J)"
    by (simp_all add: f)
  have bw: "unat (bandwidth c) = ?B" by (simp add: t_bytes_def)
  have in_t: "t < n_inner c J" using ijt by (simp add: in_range_def)
  note cut = cuts_nat [OF ok r pos ijt nxt]
  have len: "inner_in c J t * ?W \<le> t_cols c * ?B" "inner_in c J t * ?W < 4294967296"
    using w_rows_fit [OF ok inner_in_bounds(1) [OF ok in_t]] d(21) by linarith+
  have width: "z_store_width ?s * elem_size ?s \<le> row_bytes c ?s" using at' unfolding f rb(1) by blast
  obtain s' where s': "requests c a E (y_rows c J i j t + inner_in c J t + x_rows c J i j t + z_rows c J i j t) ?s = Some s'"
    "statics s' = statics ?s" "position s' = position ?s" "pointers_reset s'"
    "z_store_width s' = z_store_width ?s" "redmule_query s' = redmule_query ?s" "replies s' = replies ?s"
    "y_buffer_preload s' = rows_upto (y_rows c J i j t) ?W (unat (y_cut c ?s))
       (rows_at (tcdm ?s) (iter_y_addr ?s) (of_nat (g_k J * g_elem J))) (y_buffer_preload ?s)"
    "z_buffer_compute s' = product_of c a ?s (x_buffer ?s)
       (rows_upto (inner_in c J t) ?W (unat (w_cut c ?s)) (rows_at (tcdm ?s) (iter_w_addr ?s) (of_nat (g_k J * g_elem J))) (w_buffer ?s))
       (z_buffer_compute ?s)"
    "w_buffer s' = memset (rows_upto (inner_in c J t) ?W (unat (w_cut c ?s))
       (rows_at (tcdm ?s) (iter_w_addr ?s) (of_nat (g_k J * g_elem J))) (w_buffer ?s)) 0 (unat (buffer_w c * bandwidth c))"
    "x_buffer s' = rows_upto (x_rows c J i j t) ?B (unat (x_cut c ?s))
       (rows_at (tcdm ?s) (iter_x_addr ?s) (of_nat (g_n J * g_elem J)))
       (memset (x_buffer ?s) 0 (unat (ce_height c * bandwidth c)))"
    "tcdm s' = store_rows (z_rows c J i j t) ?W (unat (z_store_width ?s * elem_size ?s)) (iter_z_addr ?s)
       (of_nat (g_k J * g_elem J)) (z_buffer_previos ?s) (tcdm ?s)"
  proof (rule routine_requests [of E c ?s "y_rows c J i j t" "inner_in c J t" "x_rows c J i j t" "z_rows c J i j t"
        "of_nat (g_n J * g_elem J)" a, unfolded rb(2) bw stride])
    show "compute_able ?s \<noteq> 0" using d(18) by (simp add: f)
  qed (use env d(3,4,17) k b(1-4,14) width len(2) inner_in_bounds(2) [OF ok in_t] block_rows_le tile_rows_fit [OF ok]
      in simp_all)
  have zero: "w_buffer ?s = (\<lambda>_. 0)" "y_buffer_preload ?s = (\<lambda>_. 0)" "x_buffer ?s = x_tile c J i t" using at' by blast+
  have y: "y_buffer_preload s' = (if Suc t = n_inner c J \<and> \<not> last_tile c J i j t then y_tile c J i' j' else (\<lambda>_. 0))"
  proof (cases "Suc t = n_inner c J \<and> \<not> last_tile c J i j t")
    case True
    have "i * n_cols c J + j \<le> i' * n_cols c J + j'" using nxt True by (auto split: if_splits)
    then have p: "(if t = 0 then i * n_cols c J + j - 1 else i * n_cols c J + j) \<le> i' * n_cols c J + j'"
      by (rule le_trans [rotated]) simp
    have "tcdm ?s = mem_after c a J (if t = 0 then i * n_cols c J + j - 1 else i * n_cols c J + j)" using at' by blast
    then show ?thesis
      using y_tile_load [OF ok p, of a] True nxt
      unfolding s'(8) cut(3) [OF conjunct2 [OF True] conjunct1 [OF True]] b(8) [OF conjunct2 [OF True] conjunct1 [OF True]] zero
      by (simp add: y_rows_def)
  next
    case False
    then show ?thesis unfolding s'(8) zero by (auto simp: y_rows_def)
  qed
  have w: "rows_upto (inner_in c J t) ?W (unat (w_cut c ?s)) (rows_at (tcdm ?s) (iter_w_addr ?s) (of_nat (g_k J * g_elem J))) (w_buffer ?s) =
      w_tile c J t j"
    using at' w_tile_load [OF ok] unfolding cut(1) b(6) zero by simp
  have x: "x_buffer s' = (if last_tile c J i j t then (\<lambda>_. 0) else x_tile c J i' t')"
  proof -
    have "unat (ce_height c * bandwidth c) = t_rows c * ?B" using unat_of_nat_times [of "t_rows c" ?B] d(20) by simp
    then have m: "memset (x_buffer ?s) 0 (unat (ce_height c * bandwidth c)) = (\<lambda>_. 0)"
      unfolding zero x_tile_def using memset_rows [OF d(3) mult_le_mono1 [OF rows_in_le]] by simp
    show ?thesis
    proof (cases "last_tile c J i j t")
      case True
      then show ?thesis unfolding s'(11) m by (simp add: x_rows_def)
    next
      case False
      have "x_rows c J i j t = rows_in c J i'" using False nxt by (simp add: x_rows_def)
      then show ?thesis
        unfolding s'(11) m cut(2) [OF False] b(7) [OF False] using False at' x_tile_load [OF ok] by simp
    qed
  qed
  have z: "\<forall>q < t_rows c * ?W. z_buffer_compute s' q = z_tile c a J i j (Suc t) q"
    unfolding s'(9) w zero(3) product_of_nat [OF ok r] z_tile_Suc by (rule tile_product_agree) (use at' in blast)
  have wb: "w_buffer s' = (\<lambda>_. 0)"
  proof -
    have "unat (buffer_w c * bandwidth c) = t_cols c * ?B" using unat_of_nat_times [of "t_cols c" ?B] d(21) by simp
    then show ?thesis unfolding s'(10) w unfolding w_tile_def using memset_rows [OF d(4) len(1)] by simp
  qed
  have mem: "tcdm s' = mem_after c a J (i * n_cols c J + j)"
    unfolding s'(12) by (rule store_before [OF ok b(10) b(9)])
  show thesis
  proof (rule that)
    show "requests c a E (tile_requests c J i j t) ?s = Some s'" unfolding tile_requests_def by (rule s'(1))
    show "host s' = host s0" using b(11) s'(6,7) by (simp add: host_def)
    show "tile_done c a J i j t s'"
      unfolding tile_done_def nxt prod.case
      using r pos s'(2-5) at' x y z wb mem by (simp add: job_regs_def)
  qed
qed

subsection \<open>Forwarding a tile\<close>

text \<open>The bytes of a Z tile.\<close>

definition z_size :: "rm_conf \<Rightarrow> gemm_job \<Rightarrow> nat" where
  "z_size c J = t_rows c * t_width c J"

lemma forward_yz_nat:
  assumes ok: "job_ok c J" and r: "job_regs c J s" and p: "position s = (st, of_nat i, of_nat j, k)"
    and "i < n_rows c J" and "j < n_cols c J"
  shows "forward_yz c a s = s\<lparr>iter_instr := INSTR_FORWARD_YZ,
      z_buffer_previos := memcpy (z_buffer_previos s) 0 (z_buffer_compute s) 0 (z_size c J),
      z_buffer_compute := memcpy (z_buffer_compute s) 0 (y_buffer_preload s) 0 (z_size c J),
      y_buffer_preload := memset (y_buffer_preload s) 0 (z_size c J),
      z_store_width := of_nat (w_bytes c J j div g_elem J), z_store_height := of_nat (rows_in c J i)\<rparr>"
proof -
  note f = job_regsD [OF r] and d = job_okD [OF ok]
  have k: "iter_i s = of_nat i" "iter_j s = of_nat j" using p by (simp_all add: position_def)
  have "ce_height c * ce_width c * (ce_pipe c + 1) * elem_size s = of_nat (t_rows c) * of_nat (t_width c J)"
    by (simp add: f t_width_def) (simp add: buffer_w_def mult.assoc)
  then have n: "unat (ce_height c * ce_width c * (ce_pipe c + 1) * elem_size s) = z_size c J"
    using unat_of_nat_times [OF d(19)] by (simp only: z_size_def)
  have "w_bytes c J j < 4294967296" using bytes_le(1) [of c J j] width_small [OF ok] by linarith
  then have w: "cutoff (k_size s * elem_size s) (iter_j s) (buffer_w c * elem_size s) div elem_size s = of_nat (w_bytes c J j div g_elem J)"
    using w_cutoff_nat [OF ok r assms(5)] div_elem_nat [OF ok] by (simp add: k f row_bytes_def)
  have "rows_in c J i * g_elem J \<le> t_rows c * t_width c J"
    unfolding t_width_def using d(2) rows_in_le [of c J i] by (simp add: mult_le_mono)
  then have "rows_in c J i * g_elem J < 4294967296" using d(19) by linarith
  then have h: "cutoff (m_size s * elem_size s) (iter_i s) (ce_height c * elem_size s) div elem_size s = of_nat (rows_in c J i)"
    using height_cutoff_nat [OF ok r assms(4)] div_elem_nat [OF ok, of "rows_in c J i * g_elem J"] d(15) by (simp add: k f)
  show ?thesis
    unfolding forward_yz_def process_iter_instruction_def Let_def using n w h by simp
qed

lemma memcpy_whole: "\<forall>q<n. memcpy b 0 b' 0 n q = b' q"
  by (simp add: memcpy_def)

lemma y_tile_clear: "job_ok c J \<Longrightarrow> memset (y_tile c J i j) 0 (z_size c J) = (\<lambda>_. 0)"
  unfolding y_tile_def z_size_def by (rule memset_rows [OF job_okD(4) mult_le_mono1 [OF rows_in_le]])

lemma width_ok:
  assumes "job_ok c J"
  shows "(of_nat (w_bytes c J j div g_elem J) :: u32) * of_nat (g_elem J) \<le> of_nat (t_width c J)"
proof -
  have "(of_nat (w_bytes c J j div g_elem J) :: u32) * of_nat (g_elem J) = of_nat (w_bytes c J j)"
    unfolding of_nat_mult [symmetric] w_bytes_elem [OF assms] by (rule refl)
  moreover have "w_bytes c J j < 4294967296" using bytes_le(1) [of c J j] width_small [OF assms] by linarith
  ultimately show ?thesis
    using bytes_le(1) [of c J j] width_small [OF assms] by (simp add: word_le_nat_alt unat_of_nat32)
qed

subsection \<open>The jump from one iteration to the next\<close>

definition timing :: "redmule \<Rightarrow> u32 \<times> u32 \<times> u32 list" where
  "timing s = (fsm_timestamp s, fsm_counter s, pending_req_queue s)"

lemma timing_timed: "timing (timed t k q s) = (t, k, q)"
  by (simp add: timing_def)

lemma timed_same: "timing s = (t, k, q) \<Longrightarrow> timed t k q s = s"
  by (cases s) (simp add: timing_def timed_def)

lemma routine_entry_here:
  assumes "timing s = (0, 0, [])" and "fsm_state s = ROUTINE"
  shows "(case get_routine_access_block_number c s of (n, s1) \<Rightarrow> s1\<lparr>tcdm_block_total := n, fsm_state := ROUTINE\<rparr>) = routine_entry c s"
proof -
  obtain n x1 x2 x3 x4 y1 y2 y3 y4 where g: "get_routine_access_block_number c s = (n, s\<lparr>x_acc_block := x1, w_acc_block := x2,
      y_acc_block := x3, z_acc_block := x4, iter_w_addr := y1, iter_x_addr := y2, iter_y_addr := y3, iter_z_addr := y4\<rparr>)"
    unfolding get_routine_flat Let_def by blast
  show ?thesis
    unfolding routine_entry_def g prod.case using assms by (cases s) (simp add: timed_def timing_def)
qed

lemma routine_jump_tile:
  assumes ok: "job_ok c J" and dn: "tile_done c a J i j t s" and ijt: "in_range c J i j t"
    and nxt: "after c J (i, j, t) = (i', j', t')" and more: "\<not> last_tile c J i j t"
  shows "\<exists>s1. fst (routine_jump c a (timed \<tau> k [] s)) = routine_entry c s1 \<and> at_tile c a J i' j' t' s1 \<and> host s1 = host s"
proof -
  note dn' = dn [unfolded tile_done_def nxt prod.case]
  have r: "job_regs c J s" and pos: "position s = (ROUTINE, of_nat i, of_nat j, of_nat t)" using dn' by blast+
  define s1 where "s1 = timed 0 0 [] s"
  have r1: "job_regs c J s1" and pos1: "position s1 = (ROUTINE, of_nat i, of_nat j, of_nat t)" and t1: "timing s1 = (0, 0, [])"
    using r pos by (simp_all add: s1_def job_regs_def timing_timed)
  define s2 where "s2 = (if Suc t = n_inner c J then forward_yz c a s1 else s1)"
  have in_t: "i < n_rows c J" "j < n_cols c J" using ijt by (simp_all add: in_range_def)
  note fwd = forward_yz_nat [OF ok r1 pos1 in_t]
  have r2: "job_regs c J s2" and pos2: "position s2 = (ROUTINE, of_nat i, of_nat j, of_nat t)" and t2: "timing s2 = (0, 0, [])"
    using r1 pos1 t1 unfolding s2_def fwd by (simp_all add: job_regs_def statics_def position_def timing_def)
  define s3 where "s3 = s2\<lparr>iter_k := of_nat t', iter_j := of_nat j', iter_i := of_nat i'\<rparr>"
  have n2: "next_iteration s2 = (False, s3)" using next_tile_nat(3) [OF ok r2 pos2 ijt nxt] more by (simp add: s3_def)
  have fmt: "compute_able s1 \<noteq> 0" using job_regsD(2) [OF r1] job_okD(18) [OF ok] by simp
  have cond: "compute_able s1 \<noteq> 0 \<and> iter_k s1 + 1 = x_row_tiles s1 \<longleftrightarrow> Suc t = n_inner c J"
    using conds_nat(1) [OF ok r1 pos1 ijt] fmt by simp
  have e1: "(timed \<tau> k [] s)\<lparr>fsm_counter := 0, fsm_timestamp := 0\<rparr> = s1" by (simp add: s1_def timed_def)
  have st3: "fsm_state s3 = ROUTINE" "timing s3 = (0, 0, [])" using pos2 t2 by (simp_all add: s3_def position_def timing_def)
  have "fst (routine_jump c a (timed \<tau> k [] s)) = routine_entry c s3"
    unfolding routine_jump_def Let_def e1 cond s2_def [symmetric] n2 prod.case routine_entry_here [OF st3(2,1), symmetric]
    by (simp add: case_prod_beta)
  moreover have "at_tile c a J i' j' t' s3"
  proof (cases "Suc t = n_inner c J")
    case True
    have t': "t' = 0" and p: "i' * n_cols c J + j' = Suc (i * n_cols c J + j)" using nxt True by (auto split: if_splits)
    have "(i * n_cols c J + j) div n_cols c J = i" "(i * n_cols c J + j) mod n_cols c J = j"
      using cell_div [OF in_t(2), of i] by simp_all
    then have "waiting_tile c a J (i * n_cols c J + j) s3"
      using dn' True unfolding waiting_tile_def s3_def s2_def fwd by (simp add: z_size_def memcpy_def s1_def)
    moreover have "y_buffer_preload s = y_tile c J i' j'" using dn' True more by simp
    ultimately show ?thesis
      using dn' True more width_ok [OF ok] y_tile_clear [OF ok] unfolding at_tile_def t' p s3_def s2_def fwd
      by (simp add: s1_def timed_def z_size_def memcpy_def z_tile_def job_regs_def statics_def position_def pointers_reset_def)
  next
    case False
    have e: "i' = i" "j' = j" "t' = Suc t" using nxt False by simp_all
    show ?thesis
      using dn' False more unfolding at_tile_def e s3_def s2_def
      by (simp add: s1_def timed_def job_regs_def statics_def position_def pointers_reset_def)
  qed
  moreover have "host s3 = host s" unfolding s3_def s2_def fwd by (simp add: host_def s1_def timed_def)
  ultimately show ?thesis by blast
qed

subsection \<open>The last tile\<close>

definition n_tiles :: "rm_conf \<Rightarrow> gemm_job \<Rightarrow> nat" where
  "n_tiles c J = n_rows c J * n_cols c J"

text \<open>The factors and the accumulator are cleared: the state a run starts from and ends in.\<close>

definition buffers_clear :: "redmule \<Rightarrow> bool" where
  "buffers_clear s = (x_buffer s = (\<lambda>_. 0) \<and> w_buffer s = (\<lambda>_. 0) \<and> y_buffer_preload s = (\<lambda>_. 0))"

definition before_last_store :: "rm_conf \<Rightarrow> rm_arith \<Rightarrow> gemm_job \<Rightarrow> redmule \<Rightarrow> bool" where
  "before_last_store c a J s =
     (job_regs c J s \<and> pointers_reset s \<and> buffers_clear s \<and> waiting_tile c a J (n_tiles c J - 1) s \<and>
      tcdm s = mem_after c a J (n_tiles c J - 1))"

definition gemm_done :: "rm_conf \<Rightarrow> rm_arith \<Rightarrow> gemm_job \<Rightarrow> redmule \<Rightarrow> bool" where
  "gemm_done c a J s =
     (job_regs c J s \<and> fsm_state s = FINISHED \<and> pending_req_queue s = [] \<and> pointers_reset s \<and> buffers_clear s \<and>
      tcdm s = mem_after c a J (n_tiles c J))"

lemma last_tile_number:
  assumes "last_tile c J i j t" and "in_range c J i j t"
  shows "n_tiles c J - 1 = i * n_cols c J + j" "(n_tiles c J - 1) div n_cols c J = i" "(n_tiles c J - 1) mod n_cols c J = j"
proof -
  have ij: "n_rows c J = Suc i" "n_cols c J = Suc j" using assms(1) by (simp_all add: last_tile_def)
  then show e: "n_tiles c J - 1 = i * n_cols c J + j" by (simp add: n_tiles_def)
  have "j < n_cols c J" using assms(2) by (simp add: in_range_def)
  then show "(n_tiles c J - 1) div n_cols c J = i" "(n_tiles c J - 1) mod n_cols c J = j"
    unfolding e by (simp_all only: cell_div)
qed

lemma routine_jump_last:
  assumes ok: "job_ok c J" and dn: "tile_done c a J i j t s" and ijt: "in_range c J i j t" and last: "last_tile c J i j t"
  shows "\<exists>s1. fst (routine_jump c a (timed \<tau> k [] s)) = storing_entry c s1 \<and> before_last_store c a J s1 \<and> host s1 = host s"
proof -
  obtain i' j' t' where nxt: "after c J (i, j, t) = (i', j', t')" by (cases "after c J (i, j, t)")
  note dn' = dn [unfolded tile_done_def nxt prod.case]
  have r: "job_regs c J s" and pos: "position s = (ROUTINE, of_nat i, of_nat j, of_nat t)" using dn' by blast+
  define s1 where "s1 = timed 0 0 [] s"
  have r1: "job_regs c J s1" and pos1: "position s1 = (ROUTINE, of_nat i, of_nat j, of_nat t)" and t1: "timing s1 = (0, 0, [])"
    using r pos by (simp_all add: s1_def job_regs_def timing_timed)
  have in_t: "i < n_rows c J" "j < n_cols c J" and t: "Suc t = n_inner c J"
    using ijt last by (simp_all add: in_range_def last_tile_def)
  note fwd = forward_yz_nat [OF ok r1 pos1 in_t]
  let ?s2 = "forward_yz c a s1"
  have r2: "job_regs c J ?s2" and pos2: "position ?s2 = (ROUTINE, of_nat i, of_nat j, of_nat t)" and t2: "timing ?s2 = (0, 0, [])"
    using r1 pos1 t1 unfolding fwd by (simp_all add: job_regs_def statics_def position_def timing_def)
  define s3 where "s3 = ?s2\<lparr>iter_k := of_nat t', iter_j := of_nat j', iter_i := of_nat i'\<rparr>"
  have n2: "next_iteration ?s2 = (True, s3)" using next_tile_nat(3) [OF ok r2 pos2 ijt nxt] last by (simp add: s3_def)
  have fmt: "compute_able s1 \<noteq> 0" using job_regsD(2) [OF r1] job_okD(18) [OF ok] by simp
  have cond: "compute_able s1 \<noteq> 0 \<and> iter_k s1 + 1 = x_row_tiles s1 \<longleftrightarrow> True"
    using conds_nat(1) [OF ok r1 pos1 ijt] fmt t by simp
  have e1: "(timed \<tau> k [] s)\<lparr>fsm_counter := 0, fsm_timestamp := 0\<rparr> = s1" by (simp add: s1_def timed_def)
  have "timing s3 = (0, 0, [])" using t2 by (simp add: s3_def timing_def)
  then have "fst (routine_jump c a (timed \<tau> k [] s)) = storing_entry c s3"
    unfolding routine_jump_def Let_def e1 cond if_True n2 prod.case storing_entry_def get_storing_access_block_number_def
    by (cases s3) (simp add: timed_def timing_def)
  moreover have "before_last_store c a J s3"
  proof -
    note p = last_tile_number [OF last ijt]
    have "waiting_tile c a J (n_tiles c J - 1) s3"
      using dn' t unfolding waiting_tile_def p(2,3) s3_def fwd by (simp add: z_size_def memcpy_def s1_def)
    then show ?thesis
      using dn' last p(1) unfolding before_last_store_def buffers_clear_def p(1) s3_def fwd
      by (simp add: s1_def timed_def job_regs_def statics_def pointers_reset_def memset_def)
  qed
  moreover have "host s3 = host s" unfolding s3_def fwd by (simp add: host_def s1_def timed_def)
  ultimately show ?thesis by blast
qed

lemma storing_phase:
  assumes ok: "job_ok c J" and env: "\<forall>i. tcdm_ok E i" and b: "before_last_store c a J s0"
  defines "b \<equiv> rows_in c J (n_rows c J - 1)"
  shows "0 < b" and "fsm_state (storing_entry c s0) = STORING" and "tcdm_block_total (storing_entry c s0) = of_nat b"
    and "timing (storing_entry c s0) = (0, 0, [])"
    and "\<exists>s'. requests c a E b (storing_entry c s0) = Some s' \<and> gemm_done c a J (fst (storing_jump (timed \<tau> k [] s'))) \<and>
      host (fst (storing_jump (timed \<tau> k [] s'))) = host s0"
proof -
  let ?s = "storing_entry c s0" and ?p = "n_tiles c J - 1"
  note d = job_okD [OF ok] and nb = n_inner_bounds [OF ok]
  obtain i j t where last: "last_tile c J i j t" and ijt: "in_range c J i j t"
    using nb(1,3,5) unfolding last_tile_def in_range_def by (metis Suc_pred lessI)
  note p = last_tile_number [OF last ijt]
  have i: "n_rows c J - 1 = i" "n_cols c J - 1 = j" using last by (auto simp: last_tile_def)
  have r0: "job_regs c J s0" and w0: "waiting_tile c a J ?p s0" using b by (simp_all add: before_last_store_def)
  have base: "calculate_tile_base_address c s0 (z_addr s0) (k_size s0) (ce_height c) (buffer_w c)
      (z_col_tiles s0 - 1) (z_row_tiles s0 - 1) = g_y J + of_nat (i * t_rows c * (g_k J * g_elem J) + j * t_width c J)"
    using base_address_nat [OF d(17) r0, of "g_y J" "g_k J" "t_rows c" "t_cols c" i j]
    unfolding job_regsD [OF r0] of_nat_minus1 [OF nb(3)] of_nat_minus1 [OF nb(5)] i t_width_def by simp
  have h: "z_store_height s0 = of_nat b" using w0 unfolding waiting_tile_def p(2,3) b_def i by blast
  have e: "?s = timed 0 0 [] (s0\<lparr>x_acc_block := 0, w_acc_block := 0, y_acc_block := 0, z_acc_block := of_nat b,
      iter_z_addr := g_y J + of_nat (i * t_rows c * (g_k J * g_elem J) + j * t_width c J), tcdm_block_total := of_nat b, fsm_state := STORING\<rparr>)"
    unfolding storing_entry_def get_storing_access_block_number_def base h by simp
  show "0 < b" using ijt in_grid(1) [OF ok] d(1) unfolding b_def i rows_in_def by (simp add: in_range_def)
  show "fsm_state ?s = STORING" "tcdm_block_total ?s = of_nat b" "timing ?s = (0, 0, [])" by (simp_all add: e timing_timed)
  have r: "job_regs c J ?s" and w: "waiting_tile c a J ?p ?s"
    using r0 w0 by (simp_all add: e job_regs_def statics_def waiting_tile_def timed_def)
  have rb: "unat (row_bytes c ?s) = t_width c J" "row_bytes c ?s = of_nat (t_width c J)" using row_bytes_nat [OF ok r] by simp_all
  have stride: "k_size ?s * elem_size ?s = of_nat (g_k J * g_elem J)" using job_regsD [OF r] by simp
  have width: "z_store_width ?s * elem_size ?s \<le> row_bytes c ?s"
    using w width_ok [OF ok] job_regsD(1) [OF r] unfolding rb(2) waiting_tile_def by simp
  have "\<exists>\<sigma>. requests c a E b ?s = Some (scr \<sigma> (?s\<lparr>
      tcdm := store_rows b (t_width c J) (unat (z_store_width ?s * elem_size ?s)) (iter_z_addr ?s) (of_nat (g_k J * g_elem J))
        (z_buffer_previos ?s) (tcdm ?s),
      iter_z_row_ptr := 0, iter_z_addr := iter_z_addr ?s + of_nat b * of_nat (g_k J * g_elem J), z_acc_block := 0\<rparr>))"
  proof (rule block_z [of E c ?s b a, unfolded rb(1) stride])
    show "compute_able ?s \<noteq> 0" using job_regsD(2) [OF r] d(18) by simp
    show "b * t_width c J < 4294967296" unfolding b_def by (rule tile_rows_fit(1) [OF ok rows_in_le])
    show "iter_z_row_ptr ?s = 0" using assms(3) by (simp add: e before_last_store_def pointers_reset_def timed_def)
  qed (use env d(4,17) width in \<open>simp_all add: e timed_def\<close>)
  then obtain \<sigma> where req: "requests c a E b ?s = Some (scr \<sigma> (?s\<lparr>
      tcdm := store_rows b (t_width c J) (unat (z_store_width ?s * elem_size ?s)) (iter_z_addr ?s) (of_nat (g_k J * g_elem J))
        (z_buffer_previos ?s) (tcdm ?s),
      iter_z_row_ptr := 0, iter_z_addr := iter_z_addr ?s + of_nat b * of_nat (g_k J * g_elem J), z_acc_block := 0\<rparr>))" by blast
  have adr: "iter_z_addr ?s = g_y J + of_nat (?p div n_cols c J * t_rows c * (g_k J * g_elem J) + ?p mod n_cols c J * t_width c J)"
    unfolding p(2,3) by (simp add: e timed_def)
  have m: "tcdm ?s = mem_after c a J ?p" using assms(3) by (simp add: e before_last_store_def)
  have "Suc ?p = n_tiles c J" using nb by (simp add: n_tiles_def)
  then have mem: "store_rows b (t_width c J) (unat (z_store_width ?s * elem_size ?s)) (iter_z_addr ?s) (of_nat (g_k J * g_elem J))
        (z_buffer_previos ?s) (tcdm ?s) = mem_after c a J (n_tiles c J)"
    using store_waiting [OF ok w r] unfolding m adr unfolding p(2) b_def i by simp
  show "\<exists>s'. requests c a E b ?s = Some s' \<and> gemm_done c a J (fst (storing_jump (timed \<tau> k [] s'))) \<and>
      host (fst (storing_jump (timed \<tau> k [] s'))) = host s0"
    unfolding req mem using assms(3)
    by (simp add: e gemm_done_def before_last_store_def storing_jump_def timed_def scr_def job_regs_def statics_def
        pointers_reset_def buffers_clear_def host_def split: prod.split)
qed

subsection \<open>From the first tile to the end\<close>

text \<open>The memory answers every request, after at most \<open>L\<close> cycles, and no phase overflows the timer.\<close>

definition port_ok :: "rm_conf \<Rightarrow> gemm_job \<Rightarrow> nat \<Rightarrow> tcdm_env \<Rightarrow> bool" where
  "port_ok c J L E = ((\<forall>i. tcdm_ok E i \<and> unat (tcdm_latency E i) \<le> L) \<and> (3 * t_rows c + t_inner c J) * (L + 1) < 4294967296)"

definition phase_bound :: "rm_conf \<Rightarrow> gemm_job \<Rightarrow> nat \<Rightarrow> nat" where
  "phase_bound c J L = (3 * t_rows c + t_inner c J) * (L + 1)"

lemma phase_fits:
  assumes "port_ok c J L E" and "T \<le> 3 * t_rows c + t_inner c J"
  shows "T * (L + 1) \<le> phase_bound c J L" "T * (L + 1) < 4294967296" "T < 4294967296"
proof -
  show le: "T * (L + 1) \<le> phase_bound c J L" unfolding phase_bound_def by (rule mult_le_mono1 [OF assms(2)])
  then show less: "T * (L + 1) < 4294967296" using assms(1) unfolding port_ok_def phase_bound_def by linarith
  have "T \<le> T * (L + 1)" by simp
  then show "T < 4294967296" using less by linarith
qed

text \<open>The largest delay of a jump: the modelled time of a tile and, before the last store, the time to store.\<close>

definition jump_delay :: "rm_conf \<Rightarrow> gemm_job \<Rightarrow> nat" where
  "jump_delay c J =
     (let u = ce_width c * (ce_pipe c + 1); time = (\<lambda>n :: u32. unat ((n * (ce_pipe c + 1) + u - 1) div u * u))
      in max (time (of_nat (g_n J mod t_inner c J))) (time (of_nat (t_inner c J))) + unat u)"

lemma routine_delay:
  assumes ok: "job_ok c J" and r: "job_regs c J s" and t: "0 < unat \<tau>"
  shows "1 \<le> snd (routine_jump c a (timed \<tau> k [] s))" "snd (routine_jump c a (timed \<tau> k [] s)) \<le> 1 + int (jump_delay c J)"
proof -
  let ?s = "timed \<tau> k [] s" and ?u = "get_routine_to_storing_latency c"
  let ?rt = "get_redmule_array_runtime c (timed \<tau> k [] s)"
  define l where "l = (if ?rt \<le> \<tau> then 1 else uint (?rt - \<tau> + 1))"
  have r': "job_regs c J ?s" using r by (simp add: job_regs_def)
  have rt: "unat ?rt + unat ?u \<le> jump_delay c J"
    using job_regsD(11) [OF r'] buffer_n_nat [OF ok r']
    by (simp add: get_redmule_array_runtime_def jump_delay_def get_routine_to_storing_latency_def Let_def)
  have l: "1 \<le> l \<and> l \<le> 1 + int (unat ?rt)"
  proof (cases "?rt \<le> \<tau>")
    case False
    then have lt: "unat \<tau> < unat ?rt" by (simp add: word_le_nat_alt)
    then have "unat (?rt - \<tau>) = unat ?rt - unat \<tau>" by (intro unat_sub32) simp
    moreover have "unat ?rt - unat \<tau> + 1 \<le> unat ?rt" using t lt by linarith
    then have "unat ?rt - unat \<tau> + 1 < 4294967296" using unat_lt32 by (rule le_less_trans)
    ultimately have "unat (?rt - \<tau> + 1) = unat ?rt - unat \<tau> + 1" by (subst unat_add32) simp_all
    then have "uint (?rt - \<tau> + 1) = int (unat ?rt - unat \<tau> + 1)" by (metis uint_nat)
    then have "l = int (unat ?rt - unat \<tau> + 1)" unfolding l_def if_not_P [OF False] .
    moreover have "1 \<le> unat ?rt - unat \<tau> + 1" "unat ?rt - unat \<tau> + 1 \<le> 1 + unat ?rt" by linarith+
    ultimately show ?thesis by linarith
  qed (simp add: l_def)
  have "snd (routine_jump c a ?s) = l \<or> snd (routine_jump c a ?s) = l + uint ?u"
    by (auto simp: routine_jump_def l_def Let_def split: prod.split)
  moreover have "0 \<le> uint ?u" "uint ?u = int (unat ?u)" by simp_all
  ultimately show "1 \<le> snd (routine_jump c a ?s)" "snd (routine_jump c a ?s) \<le> 1 + int (jump_delay c J)"
    using l rt by linarith+
qed

text \<open>One phase, from its entry to its jump.\<close>

lemma run_phase:
  assumes delay: "\<And>\<tau> k. 0 < unat \<tau> \<Longrightarrow> 1 \<le> snd (jump_of c a (fsm_state s) (timed \<tau> k [] s')) \<and>
      snd (jump_of c a (fsm_state s) (timed \<tau> k [] s')) \<le> 1 + int (jump_delay c J)"
    and port: "port_ok c J L E" and st: "in_phase (fsm_state s)" and time: "timing s = (0, 0, [])"
    and T: "0 < T" "T \<le> 3 * t_rows c + t_inner c J" and total: "tcdm_block_total s = of_nat T"
    and req: "requests c a E T s = Some s'"
  obtains n m \<tau> k where "n \<le> phase_bound c J L" and "m \<le> phase_bound c J L + jump_delay c J"
    and "engine_reaches c a E n m s (fst (jump_of c a (fsm_state s) (timed \<tau> k [] s')))"
proof -
  note fit = phase_fits [OF port T(2)]
  have "\<forall>i. unat (tcdm_latency E i) \<le> L" using port by (simp add: port_ok_def)
  moreover have "unat (tcdm_block_total s) = T" unfolding total by (rule unat_of_nat32 [OF fit(3)])
  ultimately obtain n t where n: "n \<le> T * (L + 1)" "0 < unat t" and
    run: "engine_calls c a E n s (snd (jump_of c a (fsm_state s) (timed t (of_nat T) [] s')))
      (fst (jump_of c a (fsm_state s) (timed t (of_nat T) [] s')))"
    using phase_whole [OF _ st T(1) req _ fit(2)] unfolding timed_same [OF time] by blast
  note d = delay [OF n(2), of "of_nat T"]
  let ?d = "snd (jump_of c a (fsm_state s) (timed t (of_nat T) [] s'))"
  have "n \<le> phase_bound c J L" using n(1) fit(1) by (rule le_trans)
  moreover from this have "n + nat (?d - 1) \<le> phase_bound c J L + jump_delay c J" using d by (intro add_mono) linarith+
  ultimately show thesis using that calls_reaches [OF run] d by blast
qed

definition tile_number :: "rm_conf \<Rightarrow> gemm_job \<Rightarrow> nat \<Rightarrow> nat \<Rightarrow> nat \<Rightarrow> nat" where
  "tile_number c J i j t = (i * n_cols c J + j) * n_inner c J + t"

lemma tile_number_less:
  assumes "in_range c J i j t"
  shows "tile_number c J i j t < n_tiles c J * n_inner c J"
  unfolding tile_number_def n_tiles_def using assms by (intro cell_less) (simp_all add: in_range_def)

lemma tile_number_after:
  assumes "after c J (i, j, t) = (i', j', t')"
  shows "tile_number c J i' j' t' = Suc (tile_number c J i j t)"
proof (cases "Suc t = n_inner c J")
  case True
  then have "t' = 0" and p: "i' * n_cols c J + j' = Suc (i * n_cols c J + j)" using assms by (auto split: if_splits)
  then show ?thesis unfolding tile_number_def p using True by simp
next
  case False
  then show ?thesis using assms by (simp add: tile_number_def)
qed

lemma tile_requests_bounds:
  assumes "job_ok c J" and "in_range c J i j t"
  shows "0 < tile_requests c J i j t" "tile_requests c J i j t \<le> 3 * t_rows c + t_inner c J"
proof -
  have t: "t < n_inner c J" using assms(2) by (simp add: in_range_def)
  show "0 < tile_requests c J i j t" using inner_in_bounds(2) [OF assms(1) t] by (simp add: tile_requests_def)
  show "tile_requests c J i j t \<le> 3 * t_rows c + t_inner c J"
    using block_rows_le [of c J i j t] inner_in_bounds(1) [OF assms(1) t] by (simp add: tile_requests_def)
qed

lemma routine_entry_phase:
  assumes ok: "job_ok c J" and at: "at_tile c a J i j t s" and ijt: "in_range c J i j t"
  shows "timing (routine_entry c s) = (0, 0, [])" "fsm_state (routine_entry c s) = ROUTINE"
    "tcdm_block_total (routine_entry c s) = of_nat (tile_requests c J i j t)"
proof -
  obtain i' j' t' where nxt: "after c J (i, j, t) = (i', j', t')" by (cases "after c J (i, j, t)")
  note b = routine_entry_blocks [OF ok at ijt nxt]
  show "timing (routine_entry c s) = (0, 0, [])"
    unfolding routine_entry_def by (simp add: timing_timed split: prod.split)
  show "fsm_state (routine_entry c s) = ROUTINE" using b(10) by (simp add: at_tile_def position_def)
  show "tcdm_block_total (routine_entry c s) = of_nat (tile_requests c J i j t)"
    using b(5) by (simp add: tile_requests_def)
qed

lemma run_storing:
  assumes ok: "job_ok c J" and port: "port_ok c J L E" and b: "before_last_store c a J s"
  obtains n m s' where "n \<le> phase_bound c J L" and "m \<le> phase_bound c J L + jump_delay c J"
    and "engine_reaches c a E n m (storing_entry c s) s'"
    and "gemm_done c a J s'" and "host s' = host s"
proof -
  have env: "\<forall>i. tcdm_ok E i" using port by (simp add: port_ok_def)
  note st = storing_phase [OF ok env b]
  let ?b = "rows_in c J (n_rows c J - 1)"
  obtain s1 where req: "requests c a E ?b (storing_entry c s) = Some s1" using st(5) by blast
  have b: "?b \<le> 3 * t_rows c + t_inner c J" using rows_in_le [of c J "n_rows c J - 1"] by simp
  obtain n m \<tau> k where n: "n \<le> phase_bound c J L" "m \<le> phase_bound c J L + jump_delay c J"
      "engine_reaches c a E n m (storing_entry c s) (fst (jump_of c a STORING (timed \<tau> k [] s1)))"
    by (rule run_phase [OF _ port _ st(4,1) b st(3) req, unfolded st(2)])
      (simp_all add: jump_of_def storing_jump_def)
  obtain s2 where "requests c a E ?b (storing_entry c s) = Some s2"
      "gemm_done c a J (fst (storing_jump (timed \<tau> k [] s2)))" "host (fst (storing_jump (timed \<tau> k [] s2))) = host s"
    using st(5) [of \<tau> k] by blast
  then show thesis using that n req by (simp add: jump_of_def)
qed

lemma run_tiles:
  assumes ok: "job_ok c J" and port: "port_ok c J L E" and "at_tile c a J i j t s" and "in_range c J i j t"
  shows "\<exists>n m s'. n \<le> (n_tiles c J * n_inner c J - tile_number c J i j t + 1) * phase_bound c J L \<and>
    m \<le> (n_tiles c J * n_inner c J - tile_number c J i j t + 1) * (phase_bound c J L + jump_delay c J) \<and>
    engine_reaches c a E n m (routine_entry c s) s' \<and> gemm_done c a J s' \<and> host s' = host s"
  using assms(3,4)
proof (induction "n_tiles c J * n_inner c J - tile_number c J i j t" arbitrary: i j t s rule: less_induct)
  case less
  let ?N = "n_tiles c J * n_inner c J" and ?p = "tile_number c J i j t" and ?B = "phase_bound c J L"
  let ?D = "phase_bound c J L + jump_delay c J"
  have env: "\<forall>i. tcdm_ok E i" using port by (simp add: port_ok_def)
  obtain i' j' t' where nxt: "after c J (i, j, t) = (i', j', t')" by (cases "after c J (i, j, t)")
  obtain s1 where s1: "requests c a E (tile_requests c J i j t) (routine_entry c s) = Some s1"
      "tile_done c a J i j t s1" "host s1 = host s"
    by (rule tile_phase [OF ok env less.prems])
  note re = routine_entry_phase [OF ok less.prems]
  have jump: "jump_of c a (fsm_state (routine_entry c s)) = routine_jump c a" unfolding re(2) by (simp add: jump_of_def)
  have regs: "job_regs c J s1" using s1(2) nxt by (simp add: tile_done_def)
  obtain n n2 \<tau> k where n: "n \<le> ?B" "n2 \<le> ?D"
      "engine_reaches c a E n n2 (routine_entry c s) (fst (jump_of c a (fsm_state (routine_entry c s)) (timed \<tau> k [] s1)))"
    by (rule run_phase [OF _ port _ re(1) tile_requests_bounds [OF ok less.prems(2)] re(3) s1(1)])
      (simp_all add: re(2) routine_delay [OF ok regs] jump [unfolded re(2)])
  have less_N: "?p < ?N" by (rule tile_number_less [OF less.prems(2)])
  show ?case
  proof (cases "last_tile c J i j t")
    case True
    obtain s2 where s2: "fst (routine_jump c a (timed \<tau> k [] s1)) = storing_entry c s2" "before_last_store c a J s2" "host s2 = host s1"
      using routine_jump_last [OF ok s1(2) less.prems(2) True] by blast
    obtain m m2 s' where m: "m \<le> ?B" "m2 \<le> ?D" "engine_reaches c a E m m2 (storing_entry c s2) s'" "gemm_done c a J s'" "host s' = host s2"
      by (rule run_storing [OF ok port s2(2)])
    have run: "engine_reaches c a E (n + m) (n2 + m2) (routine_entry c s) s'"
      using reaches_trans [OF n(3) [unfolded jump s2(1)] m(3)] .
    have "1 \<le> ?N - ?p" using less_N by linarith
    then have "1 * B \<le> (?N - ?p) * B" for B by (rule mult_le_mono1)
    then have "m' \<le> (?N - ?p) * B" if "m' \<le> B" for m' B using that unfolding nat_mult_1 by (rule le_trans [rotated])
    from add_mono [OF n(1) this [OF m(1)]] add_mono [OF n(2) this [OF m(2)]]
    have "n + m \<le> (?N - ?p + 1) * ?B" "n2 + m2 \<le> (?N - ?p + 1) * ?D" unfolding Suc_eq_plus1 [symmetric] mult_Suc .
    then show ?thesis using run m(4,5) s2(3) s1(3) by metis
  next
    case False
    obtain s2 where s2: "fst (routine_jump c a (timed \<tau> k [] s1)) = routine_entry c s2" "at_tile c a J i' j' t' s2" "host s2 = host s1"
      using routine_jump_tile [OF ok s1(2) less.prems(2) nxt False] by blast
    have in': "in_range c J i' j' t'" by (rule after_in_range [OF less.prems(2) False nxt])
    have num: "tile_number c J i' j' t' = Suc ?p" by (rule tile_number_after [OF nxt])
    have "?N - tile_number c J i' j' t' < ?N - ?p" unfolding num using less_N by linarith
    from less.hyps [OF this s2(2) in'] obtain m m2 s' where m: "m \<le> (?N - tile_number c J i' j' t' + 1) * ?B"
        "m2 \<le> (?N - tile_number c J i' j' t' + 1) * ?D"
        "engine_reaches c a E m m2 (routine_entry c s2) s'" "gemm_done c a J s'" "host s' = host s2" by blast
    have run: "engine_reaches c a E (n + m) (n2 + m2) (routine_entry c s) s'"
      using reaches_trans [OF n(3) [unfolded jump s2(1)] m(3)] .
    have e: "?N - tile_number c J i' j' t' + 1 = ?N - ?p" unfolding num using less_N by linarith
    have "n + m \<le> (?N - ?p + 1) * ?B" using n(1) m(1) [unfolded e] unfolding add_mult_distrib by simp
    moreover have "n2 + m2 \<le> ?D + (?N - ?p) * ?D" by (rule add_mono [OF n(2) m(2) [unfolded e]])
    then have "n2 + m2 \<le> (?N - ?p + 1) * ?D" unfolding Suc_eq_plus1 [symmetric] mult_Suc .
    ultimately show ?thesis using run m(4,5) s2(3) s1(3) by metis
  qed
qed

subsection \<open>The trigger and the first loads\<close>

text \<open>The product that the registers and the data of a trigger describe.\<close>

definition job_of :: "redmule \<Rightarrow> bytes \<Rightarrow> gemm_job" where
  "job_of s data = \<lparr>g_m = unat (m_size s), g_n = unat (n_size s), g_k = unat (k_size s),
     g_x = get32 data 0, g_w = get32 data 1, g_y = get32 data 2, g_fmt = get32 data 3, g_mem = tcdm s\<rparr>"

lemma job_of_sel [simp]:
  "g_m (job_of s data) = unat (m_size s)" "g_n (job_of s data) = unat (n_size s)" "g_k (job_of s data) = unat (k_size s)"
  "g_x (job_of s data) = get32 data 0" "g_w (job_of s data) = get32 data 1" "g_y (job_of s data) = get32 data 2"
  "g_fmt (job_of s data) = get32 data 3" "g_mem (job_of s data) = tcdm s"
  by (simp_all add: job_of_def)

definition preload_entry :: "rm_conf \<Rightarrow> gemm_job \<Rightarrow> redmule \<Rightarrow> bool" where
  "preload_entry c J s =
     (job_regs c J s \<and> position s = (PRELOAD, 0, 0, 0) \<and> pointers_reset s \<and>
      y_acc_block s = of_nat (rows_in c J 0) \<and> w_acc_block s = 0 \<and> x_acc_block s = of_nat (rows_in c J 0) \<and>
      tcdm_block_total s = of_nat (rows_in c J 0 + rows_in c J 0) \<and> iter_x_addr s = g_x J \<and> iter_y_addr s = g_y J \<and>
      fsm_timestamp s = 0 \<and> fsm_counter s = 0)"

lemma tiles_word: "tiles a b = (of_nat (ceil_div (unat a) (unat b)) :: u32)"
  using tiles_nat [of "unat a" "unat b"] by (simp add: unat_lt32)

lemma trigger_ready:
  assumes ok: "job_ok c (job_of s data)" and st: "fsm_state s = IDLE"
  obtains s1 where "core_acc_req c 4 data s = Some (IO_REQ_OK, s1, Some 1)" and "preload_entry c (job_of s data) s1"
    and "tcdm s1 = tcdm s" and "host s1 = host s" and "pending_req_queue s1 = pending_req_queue s"
    and "buffers_clear s1 = buffers_clear s"
proof -
  let ?J = "job_of s data"
  define s0 where "s0 = s\<lparr>x_addr := get32 data 0, w_addr := get32 data 1, y_addr := get32 data 2, z_addr := get32 data 2,
      compute_able := get32 data 3, elem_size := (if get32 data 3 < 4 then 2 else 1)\<rparr>"
  note d = job_okD [OF ok]
  have el: "elem_size s0 = of_nat (g_elem ?J)" by (simp add: s0_def g_elem_def)
  have "g_elem ?J < 4294967296" using d(16) by simp
  then have bn1: "buffer_n c s0 = of_nat (t_inner c ?J)"
    unfolding buffer_n_def el t_inner_def t_bytes_def by (simp add: word_arith_nat_div unat_of_nat32)
  have "t_inner c ?J \<le> unat (bandwidth c)" unfolding t_inner_def t_bytes_def by (rule div_le_dividend)
  then have "t_inner c ?J < 4294967296" using unat_lt32 [of "bandwidth c"] by linarith
  then have bn: "unat (buffer_n c s0) = t_inner c ?J" unfolding bn1 by (rule unat_of_nat32)
  have nz: "\<not> (m_size s0 = 0 \<or> n_size s0 = 0 \<or> k_size s0 = 0)" using d(6-8) by (auto simp: s0_def)
  have left: "n_size s0 mod buffer_n c s0 = of_nat (g_n ?J mod t_inner c ?J)"
    unfolding bn [symmetric] by (simp add: s0_def word_arith_nat_mod)
  define b where "b = (if m_size s0 < ce_height c then m_size s0 else ce_height c)"
  have b: "b = of_nat (rows_in c ?J 0)"
    by (simp add: b_def s0_def rows_in_def min_def word_less_nat_alt t_rows_def)
  define s1 where "s1 = (init_redmule_meta_data c s0)\<lparr>fsm_state := PRELOAD, x_acc_block := b, w_acc_block := 0, y_acc_block := b,
      z_acc_block := 0, tcdm_block_total := b + b, fsm_counter := 0, fsm_timestamp := 0\<rparr>"
  have "trigger_fsm c s0 = Some s1"
    unfolding trigger_fsm_def if_not_P [OF nz] get_preload_access_block_number_def s1_def b_def
    by (simp add: Let_def init_redmule_meta_data_def)
  then have acc: "core_acc_req c 4 data s = Some (IO_REQ_OK, s1, Some 1)"
    using st unfolding s0_def by (cases "get32 data 3 < 4") (simp_all add: core_acc_req_def Let_def)
  have "statics s1 = (of_nat (g_elem ?J), g_fmt ?J, of_nat (g_m ?J), of_nat (g_n ?J), of_nat (g_k ?J), g_x ?J, g_w ?J, g_y ?J, g_y ?J,
        of_nat (n_inner c ?J), of_nat (g_n ?J mod t_inner c ?J), of_nat (n_cols c ?J), of_nat (n_rows c ?J))"
    unfolding statics_def s1_def init_redmule_meta_data_def Let_def tiles_word bn left
    by (simp add: el) (simp add: s0_def n_inner_def n_rows_def n_cols_def t_rows_def t_cols_def)
  then have "job_regs c ?J s1" by (simp add: job_regs_def)
  then have "preload_entry c ?J s1"
    by (simp add: preload_entry_def s1_def init_redmule_meta_data_def Let_def position_def pointers_reset_def b)
      (simp add: s0_def)
  moreover have "tcdm s1 = tcdm s" "host s1 = host s" "pending_req_queue s1 = pending_req_queue s" "buffers_clear s1 = buffers_clear s"
    by (simp_all add: s1_def init_redmule_meta_data_def Let_def s0_def host_def buffers_clear_def)
  ultimately show thesis using that acc by blast
qed

lemma preload_phase:
  assumes ok: "job_ok c J" and env: "\<forall>i. tcdm_ok E i" and pre: "preload_entry c J s" and clear: "buffers_clear s"
    and mem: "tcdm s = g_mem J"
  obtains s' where "requests c a E (rows_in c J 0 + rows_in c J 0) s = Some s'"
    and "job_regs c J s'" and "position s' = (PRELOAD, 0, 0, 0)" and "pointers_reset s'" and "host s' = host s"
    and "y_buffer_preload s' = y_tile c J 0 0" and "x_buffer s' = x_tile c J 0 0" and "w_buffer s' = (\<lambda>_. 0)"
    and "tcdm s' = g_mem J"
proof -
  let ?W = "t_width c J" and ?B = "t_bytes c" and ?b = "rows_in c J 0"
  have r: "job_regs c J s" and pos: "position s = (PRELOAD, 0, 0, 0)" and ptr: "pointers_reset s" using pre by (simp_all add: preload_entry_def)
  note f = job_regsD [OF r] and rb = row_bytes_nat [OF ok r] and d = job_okD [OF ok] and nb = n_inner_bounds [OF ok]
  have k: "fsm_state s = PRELOAD" using pos by (simp add: position_def)
  have stride: "k_size s * elem_size s = of_nat (g_k J * g_elem J)" "n_size s * elem_size s = of_nat (g_n J * g_elem J)"
    by (simp_all add: f)
  have bw: "unat (bandwidth c) = ?B" by (simp add: t_bytes_def)
  have cmp: "compute_able s \<noteq> 0" using d(18) by (simp add: f)
  have y: "unat (y_cut c s) = w_bytes c J 0"
  proof -
    have "w_bytes c J 0 < 4294967296" using bytes_le(1) [of c J 0] width_small [OF ok] by linarith
    then show ?thesis using w_cutoff_nat [OF ok r nb(3)] by (simp add: y_cut_def k unat_of_nat32)
  qed
  have x: "unat (x_cut c s) = x_bytes c J 0"
  proof -
    have "x_bytes c J 0 < 4294967296" using bytes_le(2) [of c J 0] bytes_small [of c] by linarith
    then show ?thesis using x_cutoff_nat [OF ok r nb(1)] by (simp add: x_cut_def k unat_of_nat32)
  qed
  obtain s' where s': "requests c a E (?b + ?b) s = Some s'" "statics s' = statics s" "position s' = position s" "pointers_reset s'"
    "redmule_query s' = redmule_query s" "replies s' = replies s"
    "y_buffer_preload s' = rows_upto ?b ?W (unat (y_cut c s)) (rows_at (tcdm s) (iter_y_addr s) (of_nat (g_k J * g_elem J))) (y_buffer_preload s)"
    "w_buffer s' = w_buffer s"
    "x_buffer s' = rows_upto ?b ?B (unat (x_cut c s)) (rows_at (tcdm s) (iter_x_addr s) (of_nat (g_n J * g_elem J))) (x_buffer s)"
    "tcdm s' = tcdm s"
    by (rule preload_requests [of E c s ?b ?b "of_nat (g_n J * g_elem J)" a, unfolded rb(2) bw stride])
      (use env d(3,4,17) cmp k ptr pre tile_rows_fit [OF ok rows_in_le] in \<open>simp_all add: preload_entry_def\<close>)
  have m: "tcdm s = mem_after c a J 0" using mem by (simp add: mem_after_def Let_def)
  have adr: "iter_y_addr s = g_y J + of_nat (0 * t_rows c * (g_k J * g_elem J) + 0 * ?W)"
    "iter_x_addr s = g_x J + of_nat (0 * t_rows c * (g_n J * g_elem J) + 0 * ?B)" using pre by (simp_all add: preload_entry_def)
  have zero: "y_buffer_preload s = (\<lambda>_. 0)" "x_buffer s = (\<lambda>_. 0)" "w_buffer s = (\<lambda>_. 0)" using clear by (simp_all add: buffers_clear_def)
  show thesis
  proof (rule that [OF s'(1)])
    show "y_buffer_preload s' = y_tile c J 0 0"
      unfolding s'(7) y adr zero m by (rule y_tile_load [OF ok]) simp
    show "x_buffer s' = x_tile c J 0 0"
      unfolding s'(9) x adr zero m by (rule x_tile_load [OF ok])
    show "job_regs c J s'" using r s'(2) by (simp add: job_regs_def)
    show "tcdm s' = g_mem J" using s'(10) mem by simp
  qed (use s' pos zero in \<open>simp_all add: host_def\<close>)
qed

text \<open>The blocks of the first iteration do not depend on what the forwarding changes.\<close>

definition routine_blocks :: "rm_conf \<Rightarrow> redmule \<Rightarrow> (u32 \<times> u32 \<times> u32 \<times> u32) \<times> u32 \<times> u32 \<times> u32 \<times> u32" where
  "routine_blocks c s =
    (let bh = ce_height c; bw = buffer_w c; bn = buffer_n c s; last = is_last_iteration s;
         first = (iter_i s = 0 \<and> iter_j s = 0 \<and> iter_k s = 0);
         k_last = (iter_k s = x_row_tiles s - 1)
     in ((if k_last \<and> x_row_lefts s > 0 then x_row_lefts s else bn,
          if last then 0 else rows_left c s (fst (next_tile s)),
          if k_last \<and> \<not> last then rows_left c s (fst (next_z_tile s)) else 0,
          if iter_k s = 0 \<and> \<not> first then z_store_height s else 0),
         calculate_tile_base_address c s (w_addr s) (k_size s) bn bw (iter_k s) (iter_j s),
         (if last then iter_x_addr s else
            calculate_tile_base_address c s (x_addr s) (n_size s) bh bn (fst (next_tile s)) (snd (snd (next_tile s)))),
         (if k_last \<and> \<not> last then
            calculate_tile_base_address c s (y_addr s) (k_size s) bh bw (fst (next_z_tile s)) (snd (next_z_tile s)) else iter_y_addr s),
         (if iter_k s = 0 \<and> \<not> first then
            calculate_tile_base_address c s (z_addr s) (k_size s) bh bw (fst (prev_z_tile s)) (snd (prev_z_tile s)) else iter_z_addr s)))"

lemma get_routine_blocks:
  "get_routine_access_block_number c s =
    (case routine_blocks c s of ((nw, nx, ny, nz), wa, xa, ya, za) \<Rightarrow> (nw + nx + ny + nz,
       s\<lparr>x_acc_block := nx, w_acc_block := nw, y_acc_block := ny, z_acc_block := nz,
         iter_w_addr := wa, iter_x_addr := xa, iter_y_addr := ya, iter_z_addr := za\<rparr>))"
  unfolding get_routine_flat routine_blocks_def Let_def prod.case by (rule refl)

lemma first_blocks:
  assumes "iter_i s = 0" and "iter_j s = 0" and "iter_k s = 0"
  shows "routine_blocks c (s\<lparr>fsm_timestamp := t, fsm_counter := k, pending_req_queue := q,
        fsm_state := st, iter_instr := ins, z_buffer_previos := zp, z_buffer_compute := zc, y_buffer_preload := y,
        z_store_width := wd, z_store_height := ht\<rparr>) = routine_blocks c s"
  unfolding routine_blocks_def Let_def
  by (simp add: assms rows_left_def cutoff_def Let_def next_tile_def next_z_tile_def prev_z_tile_def is_last_iteration_def
        calculate_tile_base_address_def buffer_n_def)

lemma preload_jump_tile:
  assumes ok: "job_ok c J" and r: "job_regs c J s" and pos: "position s = (PRELOAD, 0, 0, 0)" and ptr: "pointers_reset s"
    and y: "y_buffer_preload s = y_tile c J 0 0" and x: "x_buffer s = x_tile c J 0 0" and w: "w_buffer s = (\<lambda>_. 0)"
    and mem: "tcdm s = g_mem J"
  shows "\<exists>s1. fst (preload_jump c a (timed \<tau> k [] s)) = routine_entry c s1 \<and> at_tile c a J 0 0 0 s1 \<and> host s1 = host s"
proof -
  let ?p = "memcpy (z_buffer_previos s) 0 (z_buffer_compute s) 0 (z_size c J)"
  let ?z = "memcpy (z_buffer_compute s) 0 (y_buffer_preload s) 0 (z_size c J)"
  let ?wd = "of_nat (w_bytes c J 0 div g_elem J)" and ?ht = "of_nat (rows_in c J 0)"
  define s1 where "s1 = s\<lparr>fsm_timestamp := 0, fsm_counter := 0, pending_req_queue := [], fsm_state := ROUTINE,
      iter_instr := INSTR_FORWARD_YZ, z_buffer_previos := ?p, z_buffer_compute := ?z, y_buffer_preload := (\<lambda>_. 0),
      z_store_width := ?wd, z_store_height := ?ht\<rparr>"
  have k: "iter_i s = 0" "iter_j s = 0" "iter_k s = 0" using pos by (simp_all add: position_def)
  note nb = n_inner_bounds [OF ok]
  obtain nw nx ny nz wa xa ya za where b: "routine_blocks c s = ((nw, nx, ny, nz), wa, xa, ya, za)" by (metis surj_pair)
  let ?n = "nw + nx + ny + nz"
  have t: "timed \<tau> k [] s = s\<lparr>fsm_timestamp := \<tau>, fsm_counter := k, pending_req_queue := [], fsm_state := fsm_state s,
      iter_instr := iter_instr s, z_buffer_previos := z_buffer_previos s, z_buffer_compute := z_buffer_compute s,
      y_buffer_preload := y_buffer_preload s, z_store_width := z_store_width s, z_store_height := z_store_height s\<rparr>"
    by (cases s) (simp add: timed_def)
  have "routine_blocks c (timed \<tau> k [] s) = ((nw, nx, ny, nz), wa, xa, ya, za)" unfolding t first_blocks [OF k] b ..
  then have g: "get_routine_access_block_number c (timed \<tau> k [] s) = (?n, (timed \<tau> k [] s)\<lparr>x_acc_block := nx, w_acc_block := nw,
      y_acc_block := ny, z_acc_block := nz, iter_w_addr := wa, iter_x_addr := xa, iter_y_addr := ya, iter_z_addr := za\<rparr>)"
    by (simp add: get_routine_blocks)
  have "routine_blocks c s1 = ((nw, nx, ny, nz), wa, xa, ya, za)" unfolding s1_def first_blocks [OF k] b ..
  then have g1: "routine_entry c s1 = timed 0 0 [] (s1\<lparr>x_acc_block := nx, w_acc_block := nw,
      y_acc_block := ny, z_acc_block := nz, iter_w_addr := wa, iter_x_addr := xa, iter_y_addr := ya, iter_z_addr := za, tcdm_block_total := ?n\<rparr>)"
    by (simp add: routine_entry_def get_routine_blocks)
  define s2 where "s2 = (timed \<tau> k [] s)\<lparr>x_acc_block := nx, w_acc_block := nw, y_acc_block := ny, z_acc_block := nz,
      iter_w_addr := wa, iter_x_addr := xa, iter_y_addr := ya, iter_z_addr := za, tcdm_block_total := ?n, fsm_counter := 0,
      fsm_timestamp := 0, fsm_state := ROUTINE\<rparr>"
  have r2: "job_regs c J s2" and pos2: "position s2 = (ROUTINE, of_nat 0, of_nat 0, 0)"
    using r pos by (simp_all add: s2_def timed_def job_regs_def statics_def position_def)
  have cmp: "compute_able s2 \<noteq> 0" using job_regsD(2) [OF r2] job_okD(18) [OF ok] by simp
  have clear: "memset (y_buffer_preload s) 0 (z_size c J) = (\<lambda>_. 0)" unfolding y by (rule y_tile_clear [OF ok])
  have "fst (preload_jump c a (timed \<tau> k [] s)) = forward_yz c a s2"
    using cmp by (simp add: preload_jump_def g s2_def)
  also have "\<dots> = routine_entry c s1"
    unfolding forward_yz_nat [OF ok r2 pos2 nb(5,3)] g1 unfolding s1_def s2_def using clear by (cases s) (simp add: timed_def)
  finally have e: "fst (preload_jump c a (timed \<tau> k [] s)) = routine_entry c s1" .
  have "tcdm s = mem_after c a J 0" using mem by (simp add: mem_after_def Let_def)
  then have "at_tile c a J 0 0 0 s1"
    using r pos ptr x w y width_ok [OF ok]
    by (simp add: at_tile_def s1_def job_regs_def statics_def position_def pointers_reset_def z_size_def memcpy_def z_tile_def)
  moreover have "host s1 = host s" by (simp add: s1_def host_def)
  ultimately show ?thesis using e by blast
qed

text \<open>From the trigger to the end.\<close>

definition idle :: "redmule \<Rightarrow> bool" where
  "idle s = (fsm_state s = IDLE \<and> pending_req_queue s = [] \<and> buffers_clear s)"

definition run_cycles :: "rm_conf \<Rightarrow> gemm_job \<Rightarrow> nat \<Rightarrow> nat" where
  "run_cycles c J L = (n_tiles c J * n_inner c J + 2) * (phase_bound c J L + jump_delay c J)"

lemma run_gemm:
  assumes ok: "job_ok c (job_of s data)" and port: "port_ok c (job_of s data) L E" and idle: "idle s"
  shows "\<exists>s1 n m s'. core_acc_req c 4 data s = Some (IO_REQ_OK, s1, Some 1) \<and>
    n \<le> (n_tiles c (job_of s data) * n_inner c (job_of s data) + 2) * phase_bound c (job_of s data) L \<and>
    m \<le> run_cycles c (job_of s data) L \<and>
    engine_reaches c a E n m s1 s' \<and> gemm_done c a (job_of s data) s' \<and> host s' = host s"
proof -
  let ?J = "job_of s data" and ?B = "phase_bound c (job_of s data) L"
  let ?D = "phase_bound c (job_of s data) L + jump_delay c (job_of s data)"
  let ?b = "rows_in c ?J 0"
  have env: "\<forall>i. tcdm_ok E i" using port by (simp add: port_ok_def)
  have st: "fsm_state s = IDLE" using idle by (simp add: idle_def)
  obtain s1 where acc: "core_acc_req c 4 data s = Some (IO_REQ_OK, s1, Some 1)" and pre: "preload_entry c ?J s1"
    and s1: "tcdm s1 = tcdm s" "host s1 = host s" "pending_req_queue s1 = pending_req_queue s" "buffers_clear s1 = buffers_clear s"
    by (rule trigger_ready [OF ok st])
  have clear: "buffers_clear s1" "tcdm s1 = g_mem ?J" using idle s1 by (simp_all add: idle_def)
  obtain s2 where req: "requests c a E (?b + ?b) s1 = Some s2"
    and s2: "job_regs c ?J s2" "position s2 = (PRELOAD, 0, 0, 0)" "pointers_reset s2" "host s2 = host s1"
      "y_buffer_preload s2 = y_tile c ?J 0 0" "x_buffer s2 = x_tile c ?J 0 0" "w_buffer s2 = (\<lambda>_. 0)" "tcdm s2 = g_mem ?J"
    by (rule preload_phase [OF ok env pre clear])
  have time: "timing s1 = (0, 0, [])" using pre idle s1(3) by (simp add: timing_def preload_entry_def idle_def)
  have ph: "fsm_state s1 = PRELOAD" "tcdm_block_total s1 = of_nat (?b + ?b)"
    using pre by (simp_all add: preload_entry_def position_def)
  have b: "0 < ?b + ?b" "?b + ?b \<le> 3 * t_rows c + t_inner c ?J"
    using job_okD(1,6) [OF ok] rows_in_le [of c ?J 0] by (simp_all add: rows_in_def)
  obtain n n2 \<tau> k where n: "n \<le> ?B" "n2 \<le> ?D"
      "engine_reaches c a E n n2 s1 (fst (jump_of c a (fsm_state s1) (timed \<tau> k [] s2)))"
    by (rule run_phase [OF _ port _ time b ph(2) req]) (simp_all add: ph(1) jump_of_def preload_jump_def case_prod_beta Let_def)
  obtain s3 where s3: "fst (preload_jump c a (timed \<tau> k [] s2)) = routine_entry c s3" "at_tile c a ?J 0 0 0 s3" "host s3 = host s2"
    using preload_jump_tile [OF ok s2(1-3,5-8)] by blast
  have "in_range c ?J 0 0 0" using n_inner_bounds [OF ok] by (simp add: in_range_def)
  from run_tiles [OF ok port s3(2) this] obtain m m2 s' where m: "m \<le> (n_tiles c ?J * n_inner c ?J + 1) * ?B"
      "m2 \<le> (n_tiles c ?J * n_inner c ?J + 1) * ?D"
      "engine_reaches c a E m m2 (routine_entry c s3) s'" "gemm_done c a ?J s'" "host s' = host s3"
    unfolding tile_number_def by auto
  have "jump_of c a (fsm_state s1) = preload_jump c a" unfolding ph(1) by (simp add: jump_of_def)
  then have run: "engine_reaches c a E (n + m) (n2 + m2) s1 s'"
    using reaches_trans [OF n(3) [unfolded \<open>jump_of c a (fsm_state s1) = preload_jump c a\<close> s3(1)] m(3)] by simp
  have "n + m \<le> (n_tiles c ?J * n_inner c ?J + 2) * ?B" using n(1) m(1) by (simp add: add_mult_distrib)
  moreover have "n2 + m2 \<le> ?D + (n_tiles c ?J * n_inner c ?J + 1) * ?D" by (rule add_mono [OF n(2) m(2)])
  then have "n2 + m2 \<le> Suc (n_tiles c ?J * n_inner c ?J + 1) * ?D" unfolding mult_Suc .
  then have "n2 + m2 \<le> run_cycles c ?J L" unfolding run_cycles_def by simp
  ultimately show ?thesis using run acc m(4,5) s3(3) s2(4) s1(2) by metis
qed

end
