(* ===== verification/Sim_Redmule_Wait.thy ===== *)
theory Sim_Redmule_Wait
  imports Sim_Redmule_Gemm
begin

text \<open>
  The end of a run: a core that reads the wait register of the running engine gets its answer once the
  product is stored, whenever the read arrives, and leaves the engine ready for the next product.
\<close>

subsection \<open>A waiting core does not change the computation\<close>

definition asked :: "redmule \<Rightarrow> redmule" where
  "asked s = s\<lparr>redmule_query := True\<rparr>"

lemma asked_sel [simp]:
  "fsm_state (asked s) = fsm_state s" "pending_req_queue (asked s) = pending_req_queue s" "fsm_counter (asked s) = fsm_counter s"
  "fsm_timestamp (asked s) = fsm_timestamp s" "tcdm_block_total (asked s) = tcdm_block_total s" "replies (asked s) = replies s"
  "tcdm_count (asked s) = tcdm_count s" "compute_able (asked s) = compute_able s" "iter_instr (asked s) = iter_instr s"
  "redmule_query (asked s)"
  by (simp_all add: asked_def)

lemma asked_more:
  "iter_i (asked s) = iter_i s" "iter_j (asked s) = iter_j s" "iter_k (asked s) = iter_k s" "z_store_height (asked s) = z_store_height s"
  "x_row_tiles (asked s) = x_row_tiles s" "x_row_lefts (asked s) = x_row_lefts s"
  "n_size (asked s) = n_size s" "k_size (asked s) = k_size s" "x_addr (asked s) = x_addr s" "w_addr (asked s) = w_addr s"
  "y_addr (asked s) = y_addr s" "z_addr (asked s) = z_addr s" "iter_x_addr (asked s) = iter_x_addr s"
  "iter_y_addr (asked s) = iter_y_addr s" "iter_z_addr (asked s) = iter_z_addr s"
  by (simp_all add: asked_def)

lemma asked_upd:
  "(asked s)\<lparr>pending_req_queue := q\<rparr> = asked (s\<lparr>pending_req_queue := q\<rparr>)"
  "(asked s)\<lparr>fsm_timestamp := t\<rparr> = asked (s\<lparr>fsm_timestamp := t\<rparr>)"
  "(asked s)\<lparr>fsm_counter := k\<rparr> = asked (s\<lparr>fsm_counter := k\<rparr>)"
  "(asked s)\<lparr>iter_instr := i\<rparr> = asked (s\<lparr>iter_instr := i\<rparr>)"
  "(asked s)\<lparr>tcdm_block_total := n\<rparr> = asked (s\<lparr>tcdm_block_total := n\<rparr>)"
  "(asked s)\<lparr>fsm_state := st\<rparr> = asked (s\<lparr>fsm_state := st\<rparr>)"
  by (simp_all add: asked_def)

lemma process_asked: "process_iter_instruction c a (asked s) = asked (process_iter_instruction c a s)"
  by (cases "iter_instr s")
    (simp_all add: process_iter_instruction_def process_compute_def asked_def buffer_n_def Let_def cong: if_cong)

lemma request_asked: "request c a E (asked s) = map_option asked (request c a E s)"
proof -
  have n: "next_addr c (asked s) = map_option (map_prod id asked) (next_addr c s)"
    by (simp add: next_addr_def asked_def inc_addr_def buffer_n_def)
  have t: "send_tcdm_req addr (asked s) = asked (send_tcdm_req addr s)" for addr s
    by (simp add: send_tcdm_req_def asked_def)
  show ?thesis
    by (cases "next_addr c s") (auto simp: request_def n process_asked t Let_def split: prod.splits)
qed

lemma send_asked: "send c a E (asked s) = map_option asked (send c a E s)"
  by (cases "request c a E s") (simp_all add: send_def request_asked asked_upd)

lemma blocks_asked:
  "get_routine_access_block_number c (asked s) = map_prod id asked (get_routine_access_block_number c s)"
  "get_storing_access_block_number c (asked s) = map_prod id asked (get_storing_access_block_number c s)"
proof -
  obtain nw nx ny nz wa xa ya za where b: "routine_blocks c s = ((nw, nx, ny, nz), wa, xa, ya, za)" by (metis surj_pair)
  have parts: "next_tile (asked s) = next_tile s" "next_z_tile (asked s) = next_z_tile s" "prev_z_tile (asked s) = prev_z_tile s"
    "is_last_iteration (asked s) = is_last_iteration s" "buffer_n c (asked s) = buffer_n c s"
    "rows_left c (asked s) = rows_left c s" "calculate_tile_base_address c (asked s) = calculate_tile_base_address c s"
    by (simp_all add: asked_def fun_eq_iff rows_left_def next_tile_def next_z_tile_def prev_z_tile_def is_last_iteration_def
        calculate_tile_base_address_def buffer_n_def Let_def)
  have "routine_blocks c (asked s) = ((nw, nx, ny, nz), wa, xa, ya, za)"
    unfolding b [symmetric] routine_blocks_def Let_def parts asked_sel asked_more by (rule refl)
  then show "get_routine_access_block_number c (asked s) = map_prod id asked (get_routine_access_block_number c s)"
    unfolding get_routine_blocks b by (simp add: asked_def)
  show "get_storing_access_block_number c (asked s) = map_prod id asked (get_storing_access_block_number c s)"
    by (simp add: get_storing_access_block_number_def calculate_tile_base_address_def asked_def)
qed

lemma forward_asked: "forward_yz c a (asked s) = asked (forward_yz c a s)"
  by (simp add: forward_yz_def asked_upd process_asked)

lemma next_iteration_asked: "next_iteration (asked s) = map_prod id asked (next_iteration s)"
  by (simp add: next_iteration_def asked_def Let_def)

lemma jump_asked: "jump_of c a st (asked s) = map_prod asked id (jump_of c a st s)"
proof -
  have "preload_jump c a (asked s) = map_prod asked id (preload_jump c a s)"
    by (cases "get_routine_access_block_number c s") (simp add: preload_jump_def blocks_asked asked_upd forward_asked Let_def)
  moreover have "routine_jump c a (asked s) = map_prod asked id (routine_jump c a s)"
  proof -
    define s1 where "s1 = s\<lparr>fsm_counter := 0, fsm_timestamp := 0\<rparr>"
    define s2 where "s2 = (if compute_able s1 \<noteq> 0 \<and> iter_k s1 + 1 = x_row_tiles s1 then forward_yz c a s1 else s1)"
    have r: "get_redmule_array_runtime c (asked s) = get_redmule_array_runtime c s"
      by (simp add: get_redmule_array_runtime_def asked_def buffer_n_def)
    have k: "iter_k (asked s1) = iter_k s1" "x_row_tiles (asked s1) = x_row_tiles s1" by (simp_all add: asked_def)
    have "(if compute_able s1 \<noteq> 0 \<and> iter_k s1 + 1 = x_row_tiles s1 then forward_yz c a (asked s1) else asked s1) = asked s2"
      by (simp add: s2_def forward_asked)
    moreover obtain d s3 where n: "next_iteration s2 = (d, s3)" by (cases "next_iteration s2")
    moreover obtain nr s4 where "get_routine_access_block_number c s3 = (nr, s4)"
      by (cases "get_routine_access_block_number c s3")
    moreover obtain ns s5 where "get_storing_access_block_number c s3 = (ns, s5)"
      by (cases "get_storing_access_block_number c s3")
    moreover have "next_iteration (asked s2) = (d, asked s3)" by (simp add: next_iteration_asked n)
    ultimately show ?thesis
      unfolding routine_jump_def Let_def r asked_upd s1_def [symmetric] asked_sel k s2_def [symmetric]
      by (simp add: blocks_asked asked_upd)
  qed
  moreover have "storing_jump (asked s) = map_prod asked id (storing_jump s)"
    by (simp add: storing_jump_def asked_upd)
  ultimately show ?thesis by (simp add: jump_of_def)
qed

lemma handler_asked:
  assumes "in_phase (fsm_state s)"
  shows "fsm_handler c a E (asked s) = map_option (map_prod asked id) (fsm_handler c a E s)"
proof -
  have r: "receive (asked s) = asked (receive s)" "phase_over (asked s) = phase_over s" for s
    by (simp_all add: receive_def phase_over_def asked_upd)
  have e: "fsm_handler c a E (asked s) = phase_step c a E (jump_of c a (fsm_state s)) (asked (s\<lparr>fsm_timestamp := fsm_timestamp s + 1\<rparr>))"
    using handler_in_phase [of "asked s"] assms by (simp add: asked_upd)
  show ?thesis
    unfolding e handler_in_phase [OF assms] phase_step_def send_asked
    by (cases "send c a E (s\<lparr>fsm_timestamp := fsm_timestamp s + 1\<rparr>)")
      (simp_all add: Let_def r jump_asked prod.map_comp comp_def map_prod_def case_prod_beta)
qed

subsection \<open>While the engine runs\<close>

definition busy :: "redmule \<Rightarrow> bool" where
  "busy s = (in_phase (fsm_state s) \<or> fsm_state s = FINISHED)"

lemma process_host: "host (process_iter_instruction c a s) = host s"
  by (cases "iter_instr s") (simp_all add: process_iter_instruction_def process_compute_def host_def Let_def)

lemma request_host: "request c a E s = Some s' \<Longrightarrow> host s' = host s"
proof -
  have n: "host s2 = host s" if "next_addr c s = Some (x, s2)" for x s2
    using that by (auto simp: next_addr_def host_def split: if_splits)
  have t: "host (send_tcdm_req addr s) = host s" for addr s by (simp add: send_tcdm_req_def host_def)
  show "request c a E s = Some s' \<Longrightarrow> host s' = host s"
    by (auto simp: request_def process_host t Let_def split: Option.bind_splits prod.splits if_splits dest!: n)
qed

lemma jump_host:
  assumes "in_phase st"
  shows "host (fst (jump_of c a st s)) = host s" "busy (fst (jump_of c a st s))"
proof -
  have f: "host (forward_yz c a s) = host s" "fsm_state (forward_yz c a s) = fsm_state s" for s
    by (simp_all add: forward_yz_def process_host process_frame) (simp add: host_def)
  have b: "host (snd (get_routine_access_block_number c s)) = host s" "host (snd (get_storing_access_block_number c s)) = host s" for s
    by (simp_all add: get_routine_blocks get_storing_access_block_number_def host_def split: prod.split)
  have n: "host (snd (next_iteration s)) = host s" for s by (simp add: next_iteration_def host_def Let_def)
  have "host (fst (preload_jump c a s)) = host s \<and> busy (fst (preload_jump c a s))"
  proof (cases "get_routine_access_block_number c s")
    case (Pair k s1)
    then have "host s1 = host s" using b(1) [of s] by simp
    then show ?thesis by (simp add: preload_jump_def Pair Let_def f busy_def) (simp add: host_def)
  qed
  moreover have "host (fst (routine_jump c a s)) = host s \<and> busy (fst (routine_jump c a s))"
  proof -
    define s1 where "s1 = s\<lparr>fsm_counter := 0, fsm_timestamp := 0\<rparr>"
    define s2 where "s2 = (if compute_able s1 \<noteq> 0 \<and> iter_k s1 + 1 = x_row_tiles s1 then forward_yz c a s1 else s1)"
    obtain d s3 where i: "next_iteration s2 = (d, s3)" by (cases "next_iteration s2")
    obtain nr s4 where r: "get_routine_access_block_number c s3 = (nr, s4)" by (cases "get_routine_access_block_number c s3")
    obtain ns s5 where st: "get_storing_access_block_number c s3 = (ns, s5)" by (cases "get_storing_access_block_number c s3")
    have "host s1 = host s" by (simp add: s1_def host_def)
    then have "host s2 = host s" by (simp add: s2_def f)
    then have "host s3 = host s" using n [of s2] by (simp add: i)
    then have "host s4 = host s" "host s5 = host s" using b [of s3] by (simp_all add: r st)
    then show ?thesis
      unfolding routine_jump_def Let_def s1_def [symmetric] s2_def [symmetric] i prod.case r st
      by (simp add: busy_def) (simp add: host_def)
  qed
  moreover have "host (fst (storing_jump s)) = host s \<and> busy (fst (storing_jump s))"
    by (simp add: storing_jump_def host_def busy_def)
  ultimately show "host (fst (jump_of c a st s)) = host s" "busy (fst (jump_of c a st s))"
    using assms by (auto simp: jump_of_def)
qed

lemma handler_busy:
  assumes busy: "busy s" and q: "\<not> redmule_query s" and h: "fsm_handler c a E s = Some (s', d)"
  shows "busy s' \<and> host s' = host s"
proof (cases "fsm_state s = FINISHED")
  case True
  then have "s' = s\<lparr>fsm_timestamp := fsm_timestamp s + 1\<rparr>" using q h by (simp add: fsm_handler_def Let_def)
  then show ?thesis using busy by (simp add: busy_def host_def)
next
  case False
  then have ph: "in_phase (fsm_state s)" using busy by (simp add: busy_def)
  let ?s = "s\<lparr>fsm_timestamp := fsm_timestamp s + 1\<rparr>"
  obtain s1 where s1: "send c a E ?s = Some s1"
    using h unfolding handler_in_phase [OF ph] phase_step_def by (cases "send c a E ?s") simp_all
  have "host s1 = host s \<and> fsm_state s1 = fsm_state s"
  proof (cases "fsm_counter ?s < tcdm_block_total ?s \<and> length (pending_req_queue ?s) \<le> unat (queue_depth c)")
    case True
    then obtain s2 where r: "request c a E ?s = Some s2" using s1 by (cases "request c a E ?s") (simp_all add: send_def)
    have "host s2 = host s" "fsm_state s2 = fsm_state s"
      using request_host [OF r] request_frame [OF r] by (simp_all add: host_def)
    then show ?thesis using s1 True r by (auto simp: send_def host_def)
  next
    case False
    then have "s1 = ?s" using s1 unfolding send_def if_not_P [OF False] by simp
    then show ?thesis by (simp add: host_def)
  qed
  then have s2: "host (receive s1) = host s" "fsm_state (receive s1) = fsm_state s" by (simp_all add: receive_def host_def)
  have "s' = (if phase_over (receive s1) then fst (jump_of c a (fsm_state s) (receive s1)) else receive s1)"
    using h unfolding handler_in_phase [OF ph] phase_step_def s1
    by (cases "jump_of c a (fsm_state s) (receive s1)") (simp add: Let_def split: if_splits)
  then show ?thesis using s2 jump_host [OF ph] ph by (auto simp: busy_def)
qed

text \<open>A busy engine always has an event enqueued, in the next cycle when it has finished.\<close>

definition ticking :: "clocked \<Rightarrow> bool" where
  "ticking x = (\<exists>d. fst x = Some d \<and> (fsm_state (snd x) = FINISHED \<longrightarrow> d = 1))"

lemma jump_ticking:
  assumes "in_phase st"
  shows "ticking (Some (snd (jump_of c a st s)), fst (jump_of c a st s))"
proof -
  have "fsm_state (fst (routine_jump c a s)) \<noteq> FINISHED"
    by (simp add: routine_jump_def Let_def split: prod.split)
  moreover have "snd (preload_jump c a s) = 1" "snd (storing_jump s) = 1"
    by (simp_all add: preload_jump_def storing_jump_def Let_def split: prod.split)
  ultimately show ?thesis using assms by (auto simp: jump_of_def ticking_def)
qed

lemma handler_ticking:
  assumes busy: "busy s" and q: "\<not> redmule_query s" and h: "fsm_handler c a E s = Some (s', e)"
  shows "ticking (e, s')"
proof (cases "fsm_state s = FINISHED")
  case True
  then show ?thesis using q h by (auto simp: fsm_handler_def Let_def ticking_def)
next
  case False
  then have ph: "in_phase (fsm_state s)" using busy by (simp add: busy_def)
  obtain s1 where s1: "send c a E (s\<lparr>fsm_timestamp := fsm_timestamp s + 1\<rparr>) = Some s1"
    using h unfolding handler_in_phase [OF ph] phase_step_def by (auto split: Option.bind_splits)
  define s2 where "s2 = receive s1"
  have "(s', e) = (if phase_over s2 then map_prod id Some (jump_of c a (fsm_state s) s2) else (s2, Some 1))"
    using h unfolding handler_in_phase [OF ph] phase_step_def s1 s2_def by (simp add: Let_def)
  then show ?thesis using jump_ticking [OF ph, of c a s2]
    by (auto simp: ticking_def map_prod_def case_prod_beta split: if_splits)
qed

lemma cycle_busy:
  assumes b: "busy s" "\<not> redmule_query s" "ticking (e, s)" and run: "clock_cycle c a E (e, s) = Some (e', s')"
  shows "busy s'" "host s' = host s" "\<not> redmule_query s'" "ticking (e', s')"
proof -
  obtain d where d: "e = Some d" "fsm_state s = FINISHED \<longrightarrow> d = 1" using b(3) by (auto simp: ticking_def)
  have "busy s' \<and> host s' = host s \<and> ticking (e', s')"
  proof (cases "d \<le> 1")
    case True
    then have "fsm_handler c a E s = Some (s', e')" using run d(1) by auto
    then show ?thesis using handler_busy [OF b(1,2)] handler_ticking [OF b(1,2)] by blast
  qed (use run d b in \<open>auto simp: ticking_def\<close>)
  then show "busy s'" "host s' = host s" "\<not> redmule_query s'" "ticking (e', s')"
    using b(2) by (simp_all add: host_def)
qed

lemma clock_busy:
  assumes "busy s" and "\<not> redmule_query s" and "ticking (e, s)" and "run_clock c a E n (e, s) = Some (e', s')"
  shows "busy s' \<and> host s' = host s \<and> ticking (e', s')"
  using assms
proof (induction n arbitrary: e s)
  case (Suc n)
  obtain e1 s1 where h: "clock_cycle c a E (e, s) = Some (e1, s1)" and run: "run_clock c a E n (e1, s1) = Some (e', s')"
    using Suc.prems(4) by (auto split: Option.bind_splits)
  note b = cycle_busy [OF Suc.prems(1-3) h]
  from Suc.IH [OF b(1,3,4) run] show ?case using b(2) by simp
qed simp

subsection \<open>The answer\<close>

lemma finished_waits:
  assumes "fsm_state s = FINISHED" and "\<not> redmule_query s"
  shows "run_clock c a E n (Some 1, s) = Some (Some 1, s\<lparr>fsm_timestamp := fsm_timestamp s + of_nat n\<rparr>)"
  using assms
proof (induction n arbitrary: s)
  case (Suc n)
  then show ?case by (simp add: fsm_handler_def Let_def algebra_simps)
qed simp

lemma gemm_done_asked: "gemm_done c a J (asked s) = gemm_done c a J s"
  by (simp add: gemm_done_def asked_def job_regs_def statics_def pointers_reset_def buffers_clear_def)

lemma gemm_done_later: "gemm_done c a J (s\<lparr>fsm_timestamp := t\<rparr>) = gemm_done c a J s"
  by (simp add: gemm_done_def job_regs_def statics_def pointers_reset_def buffers_clear_def)

text \<open>The read of the wait register enqueues nothing; the engine goes on as without it up to its end.\<close>

lemma clock_asked:
  assumes "busy s" and "\<not> redmule_query s" and "ticking (e, s)" and "run_clock c a E n (e, s) = Some (e', s')" and "gemm_done c a J s'"
  shows "\<exists>m s''. m \<le> n \<and> run_clock c a E m (e, asked s) = Some (Some 1, s'') \<and> gemm_done c a J s'' \<and> redmule_query s'' \<and>
    replies s'' = replies s"
  using assms
proof (induction n arbitrary: e s)
  case 0
  then have s: "s' = s" "e' = e" by simp_all
  then have "fsm_state s = FINISHED" using 0 by (simp add: gemm_done_def)
  then have "e = Some 1" using 0 by (auto simp: ticking_def)
  then show ?case using 0 s by (intro exI [of _ 0] exI [of _ "asked s"]) (simp add: gemm_done_asked)
next
  case (Suc n)
  obtain d where d: "e = Some d" "fsm_state s = FINISHED \<longrightarrow> d = 1" using Suc.prems(3) by (auto simp: ticking_def)
  show ?case
  proof (cases "fsm_state s = FINISHED")
    case True
    then have "s' = s\<lparr>fsm_timestamp := fsm_timestamp s + of_nat (Suc n)\<rparr>"
      using finished_waits [of s c a E "Suc n"] Suc.prems(2,4) d by simp
    then have "gemm_done c a J s" using Suc.prems(5) by (simp only: gemm_done_later)
    then show ?thesis using d True by (intro exI [of _ 0] exI [of _ "asked s"]) (simp add: gemm_done_asked)
  next
    case False
    then have ph: "in_phase (fsm_state s)" using Suc.prems(1) by (simp add: busy_def)
    obtain e1 s1 where h: "clock_cycle c a E (e, s) = Some (e1, s1)" and run: "run_clock c a E n (e1, s1) = Some (e', s')"
      using Suc.prems(4) by (auto split: Option.bind_splits)
    note b = cycle_busy [OF Suc.prems(1-3) h]
    from Suc.IH [OF b(1,3,4) run Suc.prems(5)] obtain m s'' where m: "m \<le> n" "run_clock c a E m (e1, asked s1) = Some (Some 1, s'')"
      "gemm_done c a J s''" "redmule_query s''" "replies s'' = replies s1" by blast
    have "clock_cycle c a E (e, asked s) = Some (e1, asked s1)"
      using h d(1) by (cases "d \<le> 1") (auto simp: handler_asked [OF ph])
    then have "run_clock c a E (Suc m) (e, asked s) = Some (Some 1, s'')" using m(2) by simp
    then show ?thesis using m b(2) by (intro exI [of _ "Suc m"] exI [of _ s'']) (simp add: host_def)
  qed
qed

lemma answer:
  assumes "gemm_done c a J s" and "redmule_query s"
  shows "\<exists>s'. run_clock c a E 2 (Some 1, s) = Some (None, s') \<and> idle s' \<and> \<not> redmule_query s' \<and> replies s' = replies s + 1 \<and> tcdm s' = tcdm s"
  using assms
  by (simp add: numeral_2_eq_2 fsm_handler_def Let_def gemm_done_def idle_def buffers_clear_def)

text \<open>A trigger, any number of cycles, the read of the wait register, and the rest.\<close>

lemma wait_served:
  assumes ok: "job_ok c (job_of s data)" and port: "port_ok c (job_of s data) L E" and idle: "idle s" and q: "\<not> redmule_query s"
    and acc: "core_acc_req c 4 data s = Some (IO_REQ_OK, s1, e1)" and run: "run_clock c a E k (e1, s1) = Some (e2, s2)"
  shows "reg_req c 40 d False s2 = Some (IO_REQ_PENDING, asked s2, None)"
    and "\<exists>n s'. n \<le> run_cycles c (job_of s data) L + 2 \<and>
      run_clock c a E n (e2, asked s2) = Some (None, s') \<and> idle s' \<and> \<not> redmule_query s' \<and> replies s' = replies s + 1 \<and>
      tcdm s' = mem_after c a (job_of s data) (n_tiles c (job_of s data))"
proof -
  let ?J = "job_of s data"
  let ?N = "run_cycles c ?J L"
  obtain s1' n s' where g: "core_acc_req c 4 data s = Some (IO_REQ_OK, s1', Some 1)" "n \<le> ?N"
      "run_clock c a E n (Some 1, s1') = Some (Some 1, s')" "gemm_done c a ?J s'" "host s' = host s"
    using run_gemm [OF ok port idle, of a] unfolding engine_reaches_def by blast
  have e: "s1' = s1" "e1 = Some 1" using g(1) acc by simp_all
  obtain s0 where s0: "core_acc_req c 4 data s = Some (IO_REQ_OK, s0, Some 1)" "preload_entry c ?J s0" "host s0 = host s"
    using trigger_ready [OF ok] idle by (auto simp: idle_def)
  then have s1: "busy s1" "\<not> redmule_query s1" "host s1 = host s" "ticking (e1, s1)"
    using acc q by (auto simp: preload_entry_def position_def busy_def host_def ticking_def)
  have b2: "busy s2" "host s2 = host s" "ticking (e2, s2)" using clock_busy [OF s1(1,2,4) run] s1(3) by simp_all
  then have q2: "\<not> redmule_query s2" using q by (simp add: host_def)
  then show "reg_req c 40 d False s2 = Some (IO_REQ_PENDING, asked s2, None)"
    using b2(1) by (auto simp: reg_req_def busy_def asked_def)
  have "\<exists>m e3 s3. m \<le> ?N \<and> run_clock c a E m (e2, s2) = Some (e3, s3) \<and> gemm_done c a ?J s3"
  proof (cases "k \<le> n")
    case True
    then have "run_clock c a E (k + (n - k)) (e1, s1) = Some (Some 1, s')" using g(3) e by simp
    then have "run_clock c a E (n - k) (e2, s2) = Some (Some 1, s')" unfolding run_clock_add run by simp
    moreover have "n - k \<le> ?N" using g(2) by simp
    ultimately show ?thesis using g(4) by blast
  next
    case False
    then have "run_clock c a E (n + (k - n)) (e1, s1) = Some (e2, s2)" using run by simp
    then have "run_clock c a E (k - n) (Some 1, s') = Some (e2, s2)" unfolding run_clock_add e(2) g(3) [unfolded e] by simp
    moreover have "fsm_state s' = FINISHED" "\<not> redmule_query s'" using g(4,5) q by (simp_all add: gemm_done_def host_def)
    ultimately have "gemm_done c a ?J s2" using finished_waits [of s' c a E "k - n"] g(4) gemm_done_later by auto
    moreover have "run_clock c a E 0 (e2, s2) = Some (e2, s2)" by simp
    ultimately show ?thesis by blast
  qed
  then obtain m e3 s3 where m: "m \<le> ?N" "run_clock c a E m (e2, s2) = Some (e3, s3)" "gemm_done c a ?J s3" by blast
  obtain m' s4 where m': "m' \<le> m" "run_clock c a E m' (e2, asked s2) = Some (Some 1, s4)" "gemm_done c a ?J s4" "redmule_query s4"
      "replies s4 = replies s2"
    using clock_asked [OF b2(1) q2 b2(3) m(2,3)] by blast
  obtain s5 where s5: "run_clock c a E 2 (Some 1, s4) = Some (None, s5)" "idle s5" "\<not> redmule_query s5" "replies s5 = replies s4 + 1"
      "tcdm s5 = tcdm s4"
    using answer [OF m'(3,4), of E] by blast
  have "run_clock c a E (m' + 2) (e2, asked s2) = Some (None, s5)" unfolding run_clock_add m'(2) using s5(1) by simp
  then show "\<exists>n s'. n \<le> ?N + 2 \<and> run_clock c a E n (e2, asked s2) = Some (None, s') \<and> idle s' \<and> \<not> redmule_query s' \<and>
      replies s' = replies s + 1 \<and> tcdm s' = mem_after c a ?J (n_tiles c ?J)"
    using s5 m' m(1) b2(2) by (intro exI [of _ "m' + 2"] exI [of _ s5]) (simp add: host_def gemm_done_def)
qed

end
