(* ===== verification/Sim_Redmule_Product.thy ===== *)
theory Sim_Redmule_Product
  imports Sim_Redmule_Wait
begin

text \<open>
  The elements of the result: every element of Z is the chain of steps over a row of X and a column of W,
  padded with zeros to whole tiles, which for the integer formats is the sum of products in the arithmetic
  of words.  The properties of the engine are at the end.
\<close>

subsection \<open>Matrices in memory\<close>

definition bytes_at :: "(u32 \<Rightarrow> u8) \<Rightarrow> u32 \<Rightarrow> bytes" where
  "bytes_at mem base = (\<lambda>q. mem (base + of_nat q))"

lemma bytes_split:
  assumes "job_ok c J"
  shows "x_bytes c J t = g_elem J * inner_in c J t" "w_bytes c J j = g_elem J * min (t_cols c) (g_k J - j * t_cols c)"
    "t_width c J = g_elem J * t_cols c" "t_bytes c = g_elem J * t_inner c J"
proof -
  note d = job_okD [OF assms]
  show b: "t_bytes c = g_elem J * t_inner c J" using d(14) by (simp add: mult.commute)
  show w: "t_width c J = g_elem J * t_cols c" by (simp add: t_width_def)
  have e: "min (g_elem J * a) (g_elem J * n - t * (g_elem J * a)) = g_elem J * min a (n - t * a)" for a n t
    unfolding mult.left_commute [of t] diff_mult_distrib2 [symmetric] nat_mult_min_right [symmetric] ..
  show "x_bytes c J t = g_elem J * inner_in c J t"
    unfolding x_bytes_def inner_in_def b mult.commute [of "g_n J"] by (rule e)
  show "w_bytes c J j = g_elem J * min (t_cols c) (g_k J - j * t_cols c)"
    unfolding w_bytes_def w mult.commute [of "g_k J"] by (rule e)
qed

text \<open>A chain of blocks is a chain.\<close>

lemma fold_blocks: "fold (\<lambda>t. fold (\<lambda>l. f (t * N + l)) [0 ..< N]) [0 ..< T] = fold f [0 ..< T * N]"
proof (induction T)
  case (Suc T)
  have "[0 ..< T * N + N] = [0 ..< T * N] @ [T * N ..< T * N + N]" by (rule upt_add_eq_append) simp
  moreover have "[T * N ..< T * N + N] = map (\<lambda>l. T * N + l) [0 ..< N]" by (rule nth_equalityI) simp_all
  moreover have "Suc T * N = T * N + N" by simp
  ultimately show ?case by (simp only: upt_Suc_append fold_append fold_map comp_def Suc fold_simps le0)
qed simp

text \<open>The factors as the tile loops see them: zero beyond the inner size.\<close>

definition x_elem :: "(bytes \<Rightarrow> nat \<Rightarrow> 'v) \<Rightarrow> 'v \<Rightarrow> gemm_job \<Rightarrow> nat \<Rightarrow> nat \<Rightarrow> 'v" where
  "x_elem get zero J r l = (if l < g_n J then get (bytes_at (g_mem J) (g_x J)) (r * g_n J + l) else zero)"

definition w_elem :: "(bytes \<Rightarrow> nat \<Rightarrow> 'v) \<Rightarrow> 'v \<Rightarrow> gemm_job \<Rightarrow> nat \<Rightarrow> nat \<Rightarrow> 'v" where
  "w_elem get zero J l q = (if l < g_n J then get (bytes_at (g_mem J) (g_w J)) (l * g_k J + q) else zero)"

text \<open>The tile loops take their sizes as \<open>uint16_t\<close>.\<close>

definition tile_sizes_ok :: "rm_conf \<Rightarrow> gemm_job \<Rightarrow> bool" where
  "tile_sizes_ok c J = (t_rows c < 65536 \<and> t_inner c J < 65536 \<and> t_cols c < 65536)"

context element_array
begin

lemma get_tile:
  assumes "l < w'"
  shows "get (rows_upto b (sz * w') (sz * n') src (\<lambda>_. 0)) (r * w' + l) = (if r < b \<and> l < n' then get (src r) l else zero)"
proof -
  have at: "(sz * (r * w' + l) + q) div (sz * w') = r" "(sz * (r * w' + l) + q) mod (sz * w') = sz * l + q"
    "sz * l + q < sz * n' \<longleftrightarrow> l < n'" if "q < sz" for q
  proof -
    have e: "sz * (r * w' + l) + q = r * (sz * w') + (l * sz + q)" by (simp add: algebra_simps)
    have less: "l * sz + q < m * sz \<longleftrightarrow> l < m" for m
    proof
      assume "l < m"
      then show "l * sz + q < m * sz" using that cell_less by blast
    next
      assume "l * sz + q < m * sz"
      then have "l * sz < m * sz" by linarith
      then show "l < m" unfolding mult_less_cancel2 by (rule conjunct2)
    qed
    have "l * sz + q < sz * w'" using less [of w'] assms by (simp add: mult.commute)
    from cell_div [OF this, of r]
    show "(sz * (r * w' + l) + q) div (sz * w') = r" "(sz * (r * w' + l) + q) mod (sz * w') = sz * l + q"
      unfolding e by (simp_all only: mult.commute)
    show "sz * l + q < sz * n' \<longleftrightarrow> l < n'" using less [of n'] by (simp only: mult.commute)
  qed
  show ?thesis
  proof (cases "r < b \<and> l < n'")
    case True
    have "get (rows_upto b (sz * w') (sz * n') src (\<lambda>_. 0)) (r * w' + l) = get (src r) l"
      by (rule get_bytes) (use True at in \<open>simp add: rows_upto_def\<close>)
    then show ?thesis using True by simp
  next
    case False
    have "get (rows_upto b (sz * w') (sz * n') src (\<lambda>_. 0)) (r * w' + l) = get (\<lambda>_. 0) 0"
      by (rule get_bytes) (use False at in \<open>auto simp: rows_upto_def\<close>)
    then show ?thesis unfolding if_not_P [OF False] get_zero .
  qed
qed

lemma get_moved:
  assumes "\<And>q. src q = mem (base + of_nat (sz * p + q))"
  shows "get src l = get (bytes_at mem base) (p + l)"
  by (rule get_bytes) (simp add: assms bytes_at_def algebra_simps)

text \<open>The elements of the tiles.\<close>

lemma x_tile_get:
  assumes ok: "job_ok c J" and sz: "g_elem J = sz" and r: "r < t_rows c" "i * t_rows c + r < g_m J" and l: "l < t_inner c J"
  shows "get (x_tile c J i t) (r * t_inner c J + l) = x_elem get zero J (i * t_rows c + r) (t * t_inner c J + l)"
proof -
  note b = bytes_split [OF ok, unfolded sz]
  have "r < rows_in c J i" "l < inner_in c J t \<longleftrightarrow> t * t_inner c J + l < g_n J"
    using r l by (auto simp: rows_in_def inner_in_def)
  moreover have "get (\<lambda>q. g_mem J (g_x J + of_nat ((i * t_rows c + r) * (g_n J * sz) + t * (sz * t_inner c J) + q))) l =
      get (bytes_at (g_mem J) (g_x J)) ((i * t_rows c + r) * g_n J + t * t_inner c J + l)"
    by (rule get_moved) (simp add: algebra_simps)
  ultimately show ?thesis
    unfolding x_tile_def b sz get_tile [OF l] by (simp add: x_elem_def add.assoc)
qed

lemma w_tile_get:
  assumes ok: "job_ok c J" and sz: "g_elem J = sz" and q: "q < t_cols c" "j * t_cols c + q < g_k J" and l: "l < t_inner c J"
  shows "get (w_tile c J t j) (l * t_cols c + q) = w_elem get zero J (t * t_inner c J + l) (j * t_cols c + q)"
proof -
  note b = bytes_split [OF ok, unfolded sz]
  have "q < min (t_cols c) (g_k J - j * t_cols c)" "l < inner_in c J t \<longleftrightarrow> t * t_inner c J + l < g_n J"
    using q l by (auto simp: inner_in_def)
  moreover have "get (\<lambda>q. g_mem J (g_w J + of_nat ((t * t_inner c J + l) * (g_k J * sz) + j * (sz * t_cols c) + q))) q =
      get (bytes_at (g_mem J) (g_w J)) ((t * t_inner c J + l) * g_k J + j * t_cols c + q)"
    by (rule get_moved) (simp add: algebra_simps)
  ultimately show ?thesis
    unfolding w_tile_def b sz get_tile [OF q(1)] by (simp add: w_elem_def add.assoc)
qed

lemma y_tile_get:
  assumes ok: "job_ok c J" and sz: "g_elem J = sz" and r: "r < t_rows c" "i * t_rows c + r < g_m J"
    and q: "q < t_cols c" "j * t_cols c + q < g_k J"
  shows "get (y_tile c J i j) (r * t_cols c + q) =
    get (bytes_at (g_mem J) (g_y J)) ((i * t_rows c + r) * g_k J + (j * t_cols c + q))"
proof -
  note b = bytes_split [OF ok, unfolded sz]
  have "r < rows_in c J i" "q < min (t_cols c) (g_k J - j * t_cols c)" using r q by (auto simp: rows_in_def)
  moreover have "get (\<lambda>q. g_mem J (g_y J + of_nat ((i * t_rows c + r) * (g_k J * sz) + j * (sz * t_cols c) + q))) q =
      get (bytes_at (g_mem J) (g_y J)) ((i * t_rows c + r) * g_k J + j * t_cols c + q)"
    by (rule get_moved) (simp add: algebra_simps)
  ultimately show ?thesis
    unfolding y_tile_def b sz get_tile [OF q(1)] by (simp add: add.assoc)
qed

lemma z_tile_get:
  assumes ok: "job_ok c J" and sz: "g_elem J = sz" and small: "tile_sizes_ok c J"
    and prod: "tile_product c a J = matmul_loops get put mac (of_nat (t_rows c)) (of_nat (t_inner c J)) (of_nat (t_cols c))"
    and r: "r < t_rows c" "i * t_rows c + r < g_m J" and q: "q < t_cols c" "j * t_cols c + q < g_k J"
  shows "get (z_tile c a J i j n) (r * t_cols c + q) =
    fold (\<lambda>l. mac (x_elem get zero J (i * t_rows c + r) l) (w_elem get zero J l (j * t_cols c + q))) [0 ..< n * t_inner c J]
      (get (bytes_at (g_mem J) (g_y J)) ((i * t_rows c + r) * g_k J + (j * t_cols c + q)))"
proof -
  have u: "unat (of_nat (t_rows c) :: u16) = t_rows c" "unat (of_nat (t_inner c J) :: u16) = t_inner c J"
    "unat (of_nat (t_cols c) :: u16) = t_cols c"
    using small by (simp_all add: tile_sizes_ok_def unat_of_nat take_bit_nat_eq_self)
  have "get (z_tile c a J i j n) (r * t_cols c + q) =
    fold (\<lambda>t. fold (\<lambda>l. mac (x_elem get zero J (i * t_rows c + r) (t * t_inner c J + l))
        (w_elem get zero J (t * t_inner c J + l) (j * t_cols c + q))) [0 ..< t_inner c J]) [0 ..< n]
      (get (bytes_at (g_mem J) (g_y J)) ((i * t_rows c + r) * g_k J + (j * t_cols c + q)))"
  proof (induction n)
    case 0
    show ?case by (simp add: z_tile_def y_tile_get [OF ok sz r q])
  next
    case (Suc n)
    have "fold (\<lambda>l. mac (get (x_tile c J i n) (r * t_inner c J + l)) (get (w_tile c J n j) (l * t_cols c + q))) [0 ..< t_inner c J] z =
      fold (\<lambda>l. mac (x_elem get zero J (i * t_rows c + r) (n * t_inner c J + l))
        (w_elem get zero J (n * t_inner c J + l) (j * t_cols c + q))) [0 ..< t_inner c J] z" for z
      by (rule fold_cong) (simp_all add: x_tile_get [OF ok sz r] w_tile_get [OF ok sz q])
    then show ?case
      unfolding z_tile_Suc prod using matmul_element [of r "of_nat (t_rows c)" q "of_nat (t_cols c)" mac "of_nat (t_inner c J)",
          unfolded u, OF r(1) q(1)]
      by (simp add: Suc)
  qed
  then show ?thesis
    unfolding fold_blocks [of "\<lambda>l. mac (x_elem get zero J (i * t_rows c + r) l) (w_elem get zero J l (j * t_cols c + q))"] .
qed

text \<open>The elements of the result in memory.\<close>

theorem result_element:
  assumes ok: "job_ok c J" and sz: "g_elem J = sz" and small: "tile_sizes_ok c J"
    and prod: "tile_product c a J = matmul_loops get put mac (of_nat (t_rows c)) (of_nat (t_inner c J)) (of_nat (t_cols c))"
    and R: "R < g_m J" and C: "C < g_k J"
  shows "get (bytes_at (mem_after c a J (n_tiles c J)) (g_y J)) (R * g_k J + C) =
    fold (\<lambda>l. mac (x_elem get zero J R l) (w_elem get zero J l C)) [0 ..< n_inner c J * t_inner c J]
      (get (bytes_at (g_mem J) (g_y J)) (R * g_k J + C))"
proof -
  let ?i = "R div t_rows c" and ?r = "R mod t_rows c" and ?j = "C div t_cols c" and ?q = "C mod t_cols c"
  note d = job_okD [OF ok] and b = bytes_split [OF ok, unfolded sz]
  have e: "?i * t_rows c + ?r = R" "?j * t_cols c + ?q = C" by (rule div_mult_mod_eq)+
  have lt: "?r < t_rows c" "?q < t_cols c" using d(1,2) by simp_all
  have ij: "?i < n_rows c J" "?j < n_cols c J"
    using R C e in_grid(1,2) [OF ok] by (metis le_add1 le_less_trans)+
  have "get (bytes_at (mem_after c a J (n_tiles c J)) (g_y J)) (R * g_k J + C) =
      get (z_tile c a J ?i ?j (n_inner c J)) (?r * t_cols c + ?q)"
  proof (rule get_bytes)
    fix q
    assume q: "q < sz"
    let ?Q = "C * sz + q" and ?L = "g_k J * sz"
    have Q: "?Q < ?L" by (rule cell_less [OF C q])
    have o': "sz * (R * g_k J + C) + q = R * ?L + ?Q" by (simp add: algebra_simps)
    have bound: "R * ?L + ?Q < g_m J * ?L" by (rule cell_less [OF R Q])
    then have "R * ?L + ?Q < 4294967296" using d(13) unfolding sz by linarith
    then have u: "unat (of_nat (R * ?L + ?Q) :: u32) = R * ?L + ?Q" by (rule unat_of_nat32)
    have "?Q = ?j * (sz * t_cols c) + (?q * sz + q)" using e(2) by (metis add.assoc add_mult_distrib mult.assoc mult.commute)
    moreover have "?q * sz + q < t_cols c * sz" by (rule cell_less [OF lt(2) q])
    ultimately have Qd: "?Q div (sz * t_cols c) = ?j" "?Q mod (sz * t_cols c) = ?q * sz + q"
      by (simp_all only: cell_div mult.commute [of sz])
    have "tile_at c J R ?Q < n_tiles c J"
      unfolding tile_at_def b Qd n_tiles_def by (rule cell_less [OF ij])
    then have "bytes_at (mem_after c a J (n_tiles c J)) (g_y J) (R * ?L + ?Q) = z_byte c a J R ?Q"
      using bound u cell_div [OF Q, of R] unfolding bytes_at_def mem_after_def Let_def sz by simp
    also have "\<dots> = z_tile c a J ?i ?j (n_inner c J) (?r * (sz * t_cols c) + (?q * sz + q))"
      unfolding z_byte_def b Qd ..
    also have "?r * (sz * t_cols c) + (?q * sz + q) = sz * (?r * t_cols c + ?q) + q" by (simp add: algebra_simps)
    finally show "bytes_at (mem_after c a J (n_tiles c J)) (g_y J) (sz * (R * g_k J + C) + q) =
        z_tile c a J ?i ?j (n_inner c J) (sz * (?r * t_cols c + ?q) + q)" unfolding o' .
  qed
  then show ?thesis
    using z_tile_get [OF ok sz small prod lt(1) _ lt(2), of ?i ?j "n_inner c J"] R C unfolding e by simp
qed

end

subsection \<open>Formats\<close>

lemma mac_word: "mac_u x w z = z + x * w" "mac_s x w z = z + x * w"
  by (simp_all add: mac_u_def mac_s_def)

lemma fold_sum: "fold (\<lambda>l z. z + f l) [0 ..< n] (y :: 'a::len word) = y + (\<Sum>l<n. f l)"
  by (induction n) (simp_all add: add.assoc)

text \<open>The sum of products over a row of X and a column of W, added to Y, in the arithmetic of words.\<close>

definition word_gemm :: "(bytes \<Rightarrow> nat \<Rightarrow> 'a::len word) \<Rightarrow> gemm_job \<Rightarrow> (u32 \<Rightarrow> u8) \<Rightarrow> bool" where
  "word_gemm get J mem = (\<forall>r<g_m J. \<forall>q<g_k J.
     get (bytes_at mem (g_y J)) (r * g_k J + q) = get (bytes_at (g_mem J) (g_y J)) (r * g_k J + q) +
       (\<Sum>l<g_n J. get (bytes_at (g_mem J) (g_x J)) (r * g_n J + l) * get (bytes_at (g_mem J) (g_w J)) (l * g_k J + q)))"

text \<open>The chain of fused steps over a row and a column padded with zeros to \<open>N\<close>.\<close>

definition chain_gemm ::
    "(bytes \<Rightarrow> nat \<Rightarrow> 'v) \<Rightarrow> 'v \<Rightarrow> ('v \<Rightarrow> 'v \<Rightarrow> 'v \<Rightarrow> 'v) \<Rightarrow> nat \<Rightarrow> gemm_job \<Rightarrow> (u32 \<Rightarrow> u8) \<Rightarrow> bool" where
  "chain_gemm get zero mac N J mem = (\<forall>r<g_m J. \<forall>q<g_k J.
     get (bytes_at mem (g_y J)) (r * g_k J + q) =
       fold (\<lambda>l. mac (x_elem get zero J r l) (w_elem get zero J l q)) [0 ..< N] (get (bytes_at (g_mem J) (g_y J)) (r * g_k J + q)))"

lemma chain_word:
  assumes "g_n J \<le> N" and "\<And>x w z. mac x w z = z + x * w" and chain: "chain_gemm get 0 mac N J mem"
  shows "word_gemm get J mem"
proof -
  have "(\<Sum>l<N. x_elem get 0 J r l * w_elem get 0 J l q) =
      (\<Sum>l<g_n J. get (bytes_at (g_mem J) (g_x J)) (r * g_n J + l) * get (bytes_at (g_mem J) (g_w J)) (l * g_k J + q))" for r q
    by (rule sum.mono_neutral_cong_right) (use assms(1) in \<open>auto simp: x_elem_def w_elem_def\<close>)
  then show ?thesis using chain unfolding word_gemm_def chain_gemm_def assms(2) fold_sum by simp
qed

lemma inner_covers: "job_ok c J \<Longrightarrow> g_n J \<le> n_inner c J * t_inner c J"
  using in_grid(3) [of c J "n_inner c J"] by simp

text \<open>What the engine leaves in memory, by the format of the elements; and nothing else changes.\<close>

definition gemm_result :: "rm_conf \<Rightarrow> rm_arith \<Rightarrow> gemm_job \<Rightarrow> (u32 \<Rightarrow> u8) \<Rightarrow> bool" where
  "gemm_result c a J mem =
     ((g_fmt J = 1 \<or> g_fmt J = 2 \<longrightarrow> word_gemm get16 J mem) \<and>
      (g_fmt J = 5 \<or> g_fmt J = 6 \<longrightarrow> word_gemm get8 J mem) \<and>
      (g_fmt J = 3 \<longrightarrow> chain_gemm get16 0 (fp16_fma (fp16_ops a)) (n_inner c J * t_inner c J) J mem) \<and>
      (g_fmt J = 7 \<longrightarrow> chain_gemm get8 0 (fp8e4m3_fma a) (n_inner c J * t_inner c J) J mem) \<and>
      (\<forall>d. \<not> unat (d - g_y J) < g_m J * (g_k J * g_elem J) \<longrightarrow> mem d = g_mem J d))"

lemma chain16:
  assumes ok: "job_ok c J" and small: "tile_sizes_ok c J" and e: "g_elem J = 2"
    and prod: "tile_product c a J = matmul_loops get16 put16 mac (of_nat (t_rows c)) (of_nat (t_inner c J)) (of_nat (t_cols c))"
  shows "chain_gemm get16 0 mac (n_inner c J * t_inner c J) J (mem_after c a J (n_tiles c J))"
  unfolding chain_gemm_def using bytes16.result_element [OF ok e small prod] by blast

lemma chain8:
  assumes ok: "job_ok c J" and small: "tile_sizes_ok c J" and e: "g_elem J = 1"
    and prod: "tile_product c a J = matmul_loops get8 put8 mac (of_nat (t_rows c)) (of_nat (t_inner c J)) (of_nat (t_cols c))"
  shows "chain_gemm get8 0 mac (n_inner c J * t_inner c J) J (mem_after c a J (n_tiles c J))"
  unfolding chain_gemm_def using bytes8.result_element [OF ok e small prod] by blast

lemmas format_products = tile_product_def compute_tile_def matmul_uint16_def matmul_int16_def tile_matmul_fp16_def
  matmul_uint8_def matmul_int8_def matmul_fp8e4m3_def

lemma gemm_result_after:
  assumes ok: "job_ok c J" and small: "tile_sizes_ok c J"
  shows "gemm_result c a J (mem_after c a J (n_tiles c J))"
proof -
  note word16 = chain_word [OF inner_covers [OF ok] _ chain16 [OF ok small]]
  note word8 = chain_word [OF inner_covers [OF ok] _ chain8 [OF ok small]]
  have "word_gemm get16 J (mem_after c a J (n_tiles c J))" if "g_fmt J = 1"
    by (rule word16 [where mac = mac_u]) (use that in \<open>simp_all add: mac_word g_elem_def fun_eq_iff format_products\<close>)
  moreover have "word_gemm get16 J (mem_after c a J (n_tiles c J))" if "g_fmt J = 2"
    by (rule word16 [where mac = mac_s]) (use that in \<open>simp_all add: mac_word g_elem_def fun_eq_iff format_products\<close>)
  moreover have "word_gemm get8 J (mem_after c a J (n_tiles c J))" if "g_fmt J = 5"
    by (rule word8 [where mac = mac_u]) (use that in \<open>simp_all add: mac_word g_elem_def fun_eq_iff format_products\<close>)
  moreover have "word_gemm get8 J (mem_after c a J (n_tiles c J))" if "g_fmt J = 6"
    by (rule word8 [where mac = mac_s]) (use that in \<open>simp_all add: mac_word g_elem_def fun_eq_iff format_products\<close>)
  moreover have "chain_gemm get16 0 (fp16_fma (fp16_ops a)) (n_inner c J * t_inner c J) J (mem_after c a J (n_tiles c J))" if "g_fmt J = 3"
    by (rule chain16 [OF ok small]) (use that in \<open>simp_all add: g_elem_def fun_eq_iff format_products\<close>)
  moreover have "chain_gemm get8 0 (fp8e4m3_fma a) (n_inner c J * t_inner c J) J (mem_after c a J (n_tiles c J))" if "g_fmt J = 7"
    by (rule chain8 [OF ok small]) (use that in \<open>simp_all add: g_elem_def fun_eq_iff format_products\<close>)
  ultimately show ?thesis unfolding gemm_result_def using mem_after_outside by blast
qed

subsection \<open>The product\<close>

text \<open>C3: a trigger of the idle engine with a product it can take (a computing format, folded tiles off, sizes up
  to 65535, operands that do not overlap the result) starts the state machine, which reaches its end within a
  bounded number of calls of its handler and a bounded number of clock cycles, whatever the latencies of the
  memory up to \<open>L\<close>, the clock calling the handler only at the events it enqueues; then \<open>Z\<close> holds \<open>Y + X * W\<close>
  in the arithmetic of words for the integer formats, the chain of fused steps over zero-padded rows and
  columns for the floating-point ones, and no other byte of the memory has changed.\<close>

theorem engine_gemm:
  assumes "job_ok c (job_of s data)" and "tile_sizes_ok c (job_of s data)" and "port_ok c (job_of s data) L E" and "idle s"
  shows "\<exists>s1 e n m s'. core_acc_req c 4 data s = Some (IO_REQ_OK, s1, e) \<and> e = Some 1 \<and>
    n \<le> (n_tiles c (job_of s data) * n_inner c (job_of s data) + 2) * phase_bound c (job_of s data) L \<and>
    run_fsm c a E n s1 = Some s' \<and>
    m \<le> run_cycles c (job_of s data) L \<and> run_clock c a E m (e, s1) = Some (Some 1, s') \<and>
    fsm_state s' = FINISHED \<and> gemm_result c a (job_of s data) (tcdm s')"
proof -
  obtain s1 n m s' where "core_acc_req c 4 data s = Some (IO_REQ_OK, s1, Some 1)"
    "n \<le> (n_tiles c (job_of s data) * n_inner c (job_of s data) + 2) * phase_bound c (job_of s data) L"
    "m \<le> run_cycles c (job_of s data) L" "engine_reaches c a E n m s1 s'" "gemm_done c a (job_of s data) s'"
    using run_gemm [OF assms(1,3,4), of a] by blast
  then show ?thesis
    using gemm_result_after [OF assms(1,2), of a]
    by (intro exI [of _ s1] exI [of _ "Some 1"] exI [of _ n] exI [of _ m] exI [of _ s']) (simp add: gemm_done_def engine_reaches_def)
qed

text \<open>A product of 2 by 3 and 3 by 1 unsigned bytes on an engine of one by one element: all bytes are 3.\<close>

definition small_conf :: rm_conf where
  "small_conf = \<lparr>ce_height = 1, ce_width = 1, ce_pipe = 0, queue_depth = 1, bandwidth = 2, fold_tiles_mapping = 0\<rparr>"

definition small_data :: bytes where
  "small_data = (\<lambda>q. if q = 0 then 16 else if q = 4 then 32 else if q = 12 then 5 else 0)"

definition small_engine :: redmule where
  "small_engine = (redmule_init 2 (\<lambda>_. 0) (\<lambda>_. 0) (\<lambda>_. 0) (\<lambda>_. 0) (\<lambda>_. 0) (\<lambda>_. 0) (\<lambda>_. 3))
     \<lparr>m_size := 2, n_size := 3, k_size := 1\<rparr>"

definition small_port :: tcdm_env where
  "small_port = \<lparr>tcdm_ok = (\<lambda>_. True), tcdm_latency = (\<lambda>_. 7)\<rparr>"

lemma small_words: "get32 small_data 0 = 16" "get32 small_data 1 = 32" "get32 small_data 2 = 0" "get32 small_data 3 = 5"
  by code_simp+

lemma small_job:
  "g_m (job_of small_engine small_data) = 2" "g_n (job_of small_engine small_data) = 3" "g_k (job_of small_engine small_data) = 1"
  "g_x (job_of small_engine small_data) = 16" "g_w (job_of small_engine small_data) = 32" "g_y (job_of small_engine small_data) = 0"
  "g_fmt (job_of small_engine small_data) = 5" "g_mem (job_of small_engine small_data) = (\<lambda>_. 3)"
  "g_elem (job_of small_engine small_data) = 1" "t_rows small_conf = 1" "t_cols small_conf = 1" "t_bytes small_conf = 2"
  "t_inner small_conf (job_of small_engine small_data) = 2"
  by (simp_all add: small_words [unfolded One_nat_def] small_engine_def redmule_init_def small_conf_def g_elem_def t_rows_def t_cols_def buffer_w_def
      t_bytes_def t_inner_def)

lemma small_ok:
  "job_ok small_conf (job_of small_engine small_data)" "tile_sizes_ok small_conf (job_of small_engine small_data)"
  "port_ok small_conf (job_of small_engine small_data) 7 small_port" "idle small_engine"
proof -
  have "unat (of_nat n + of_nat d :: u32) = n + d" if "n + d < 4294967296" for n d
    using unat_of_nat32 [OF that] by simp
  from this [of 16] this [of 32] have "\<forall>d<6. \<not> unat (16 + of_nat d :: u32) < 2" "\<forall>d<3. \<not> unat (32 + of_nat d :: u32) < 2"
    by auto
  then show "job_ok small_conf (job_of small_engine small_data)"
    unfolding job_ok_def small_job by (simp add: small_conf_def)
  show "tile_sizes_ok small_conf (job_of small_engine small_data)" by (simp add: tile_sizes_ok_def small_job)
  show "port_ok small_conf (job_of small_engine small_data) 7 small_port"
    unfolding port_ok_def small_job by (simp add: small_port_def)
  show "idle small_engine" by (simp add: idle_def small_engine_def redmule_init_def buffers_clear_def)
qed

lemma engine_gemm_witness:
  "\<forall>a. \<exists>s1 m s'. core_acc_req small_conf 4 small_data small_engine = Some (IO_REQ_OK, s1, Some 1) \<and>
    run_clock small_conf a small_port m (Some 1, s1) = Some (Some 1, s') \<and> fsm_state s' = FINISHED \<and>
    tcdm s' 0 = 30 \<and> tcdm s' 1 = 30 \<and> tcdm s' 2 = 3"
proof
  fix a
  obtain s1 m s' where r: "core_acc_req small_conf 4 small_data small_engine = Some (IO_REQ_OK, s1, Some 1)"
    "run_clock small_conf a small_port m (Some 1, s1) = Some (Some 1, s')" "fsm_state s' = FINISHED"
    "gemm_result small_conf a (job_of small_engine small_data) (tcdm s')"
    using engine_gemm [OF small_ok, of a] by blast
  have "word_gemm get8 (job_of small_engine small_data) (tcdm s')" "tcdm s' 2 = 3"
    using r(4) unfolding gemm_result_def small_job by simp_all
  moreover from this(1) have "tcdm s' 0 = 30" "tcdm s' 1 = 30"
    unfolding word_gemm_def small_job by (simp_all add: get8_def bytes_at_def eval_nat_numeral All_less_Suc)
  ultimately show "\<exists>s1 m s'. core_acc_req small_conf 4 small_data small_engine = Some (IO_REQ_OK, s1, Some 1) \<and>
    run_clock small_conf a small_port m (Some 1, s1) = Some (Some 1, s') \<and> fsm_state s' = FINISHED \<and>
    tcdm s' 0 = 30 \<and> tcdm s' 1 = 30 \<and> tcdm s' 2 = 3" using r by blast
qed

subsection \<open>The answer to a waiting core\<close>

text \<open>C7: the clock calls the handler only at the event its last call has enqueued, and stops at a call that
  enqueues none.  A core that reads the wait register at any cycle after the trigger, while the engine computes
  or after it has finished, is left pending and gets exactly one answer within a bounded number of clock
  cycles; at that point the product is complete in memory, no event is left, and the engine is idle with
  clear buffers, as the next product needs it.\<close>

theorem engine_answers_wait:
  assumes "job_ok c (job_of s data)" and "tile_sizes_ok c (job_of s data)" and "port_ok c (job_of s data) L E"
    and "idle s" and "\<not> redmule_query s"
    and "core_acc_req c 4 data s = Some (IO_REQ_OK, s1, e1)" and "run_clock c a E k (e1, s1) = Some (e2, s2)"
  shows "\<exists>s3 n s'. reg_req c 40 d False s2 = Some (IO_REQ_PENDING, s3, None) \<and>
    n \<le> run_cycles c (job_of s data) L + 2 \<and>
    run_clock c a E n (e2, s3) = Some (None, s') \<and> replies s' = replies s + 1 \<and> \<not> redmule_query s' \<and> idle s' \<and>
    gemm_result c a (job_of s data) (tcdm s')"
  using wait_served [OF assms(1,3,4,5,6,7)] gemm_result_after [OF assms(1,2), of a] by metis

lemma engine_answers_wait_witness:
  "\<forall>a d. \<exists>s1 s3 n s'. core_acc_req small_conf 4 small_data small_engine = Some (IO_REQ_OK, s1, Some 1) \<and>
    reg_req small_conf 40 d False s1 = Some (IO_REQ_PENDING, s3, None) \<and>
    run_clock small_conf a small_port n (Some 1, s3) = Some (None, s') \<and> replies s' = 1 \<and> idle s'"
proof (intro allI)
  fix a d
  obtain s1 where acc: "core_acc_req small_conf 4 small_data small_engine = Some (IO_REQ_OK, s1, Some 1)"
    using trigger_ready [OF small_ok(1)] small_ok(4) by (auto simp: idle_def)
  have "\<not> redmule_query small_engine" "replies small_engine = 0" by (simp_all add: small_engine_def redmule_init_def)
  then show "\<exists>s1 s3 n s'. core_acc_req small_conf 4 small_data small_engine = Some (IO_REQ_OK, s1, Some 1) \<and>
    reg_req small_conf 40 d False s1 = Some (IO_REQ_PENDING, s3, None) \<and>
    run_clock small_conf a small_port n (Some 1, s3) = Some (None, s') \<and> replies s' = 1 \<and> idle s'"
    using engine_answers_wait [OF small_ok(1-4) _ acc, of a 0 "Some 1" s1 d] acc by auto
qed

subsection \<open>Corner cases\<close>

text \<open>A trigger that does not find the engine idle is dropped without a trace; since a finished engine stays
  busy until its end has been asked for, a program has to wait after every product.\<close>

lemma trigger_dropped: "fsm_state s \<noteq> IDLE \<Longrightarrow> core_acc_req c 4 data s = Some (IO_REQ_OK, s, None)"
  by (simp add: core_acc_req_def)

lemma second_trigger_dropped:
  assumes "job_ok c (job_of s data)" and "port_ok c (job_of s data) L E" and "idle s" and "\<not> redmule_query s"
    and "core_acc_req c 4 data s = Some (IO_REQ_OK, s1, e1)" and "run_clock c a E k (e1, s1) = Some (e2, s2)"
  shows "core_acc_req c 4 data' s2 = Some (IO_REQ_OK, s2, None)"
proof -
  obtain s0 where s0: "core_acc_req c 4 data s = Some (IO_REQ_OK, s0, Some 1)" "preload_entry c (job_of s data) s0" "host s0 = host s"
    using trigger_ready [OF assms(1)] assms(3) by (auto simp: idle_def)
  then have "busy s1" "\<not> redmule_query s1" "ticking (e1, s1)"
    using assms(4,5) by (auto simp: preload_entry_def position_def busy_def host_def ticking_def)
  then have "busy s2" using clock_busy [OF _ _ _ assms(6)] by blast
  then show ?thesis by (intro trigger_dropped) (auto simp: busy_def)
qed

text \<open>Reading a configuration register stores the word of the reply buffer into it.\<close>

lemma register_read_writes:
  "reg_req c 0 data False s = Some (IO_REQ_OK, s\<lparr>m_size := get32 data 0\<rparr>, None)"
  by (simp add: reg_req_def Let_def)

text \<open>The number of operations is a 32-bit product, 0 for three sizes of 2048.\<close>

lemma ideal_macs_wraps:
  "ideal_macs (init_redmule_meta_data c (s\<lparr>m_size := 2048, n_size := 2048, k_size := 2048\<rparr>)) = 0"
  by (simp add: init_redmule_meta_data_def Let_def)

text \<open>A run that does not compute (format 0, or a trigger over the register port) still stores the rows the
  last computing run left in \<open>z_store_height\<close>, and what it stores is the buffer of the last access.\<close>

lemma stale_store:
  assumes "compute_able s = 0" and "y_acc_block s = 0" and "w_acc_block s = 0" and "x_acc_block s = 0" and "0 < z_acc_block s"
    and "tcdm_ok E (tcdm_count s)"
  shows "\<exists>s'. request c a E s = Some s' \<and>
    tcdm s' = tcdm_write (tcdm s) (iter_z_addr s) (access_buffer s) (unat (z_store_width s * elem_size s))"
  using assms by (simp add: request_def next_addr_def send_tcdm_req_def)

end
