(* ===== verification/App_Redmule_Engine.thy ===== *)
theory App_Redmule_Engine
  imports App_Redmule_Props Sim_Redmule_Product
begin

text \<open>
  The engine behind the matrix product of \<open>App_Redmule_Props\<close>: on half precision tiles of 256 by 256
  elements in the L1 memory, a run of the simulator of the engine is the abstract step \<open>Engine x w y\<close>
  of that product, with the chain of fused steps for what it does to a tile.
\<close>

subsection \<open>Tiles of the L1 memory\<close>

definition tile_bytes :: "(u32 \<Rightarrow> u8) \<Rightarrow> nat \<Rightarrow> bytes" where
  "tile_bytes M t = (\<lambda>q. if q < 131072 then M (of_nat (t * 131072 + q)) else 0)"

text \<open>The tile of Z by the chain of its 256 steps per element.\<close>

definition tile_mac :: "fp_ops \<Rightarrow> bytes \<Rightarrow> bytes \<Rightarrow> bytes \<Rightarrow> bytes" where
  "tile_mac ops X W Y = (\<lambda>p.
     if p < 131072 then
       (let i = p div 2;
            v = fold (\<lambda>l. fp16_fma ops (get16 X (i div 256 * 256 + l)) (get16 W (l * 256 + i mod 256))) [0 ..< 256] (get16 Y i)
        in if even p then ucast v else ucast (drop_bit 8 v))
     else 0)"

text \<open>The configurations that cut such a tile into whole columns of the engine.\<close>

definition conf_256 :: "rm_conf \<Rightarrow> bool" where
  "conf_256 c =
     (fold_tiles_mapping c = 0 \<and> 0 < t_rows c \<and> t_rows c < 65536 \<and> 0 < t_cols c \<and> t_cols c < 65536 \<and> 0 < t_bytes c \<and>
      t_bytes c dvd 512 \<and> even (t_bytes c) \<and> t_rows c * t_cols c < 2147483648)"

lemma tile_address:
  assumes "b < 32768" and "a < 32768" and "q < 131072"
  shows "unat (of_nat (a * 131072 + q) - of_nat (b * 131072) :: u32) < 131072 \<longleftrightarrow> a = b"
    and "unat (of_nat (a * 131072 + q) - of_nat (a * 131072) :: u32) = q"
proof -
  have small: "a * 131072 + q < 4294967296" "b * 131072 + 131072 \<le> 4294967296" using assms by linarith+
  have u: "unat (of_nat (a * 131072 + q) :: u32) = a * 131072 + q" by (rule unat_of_nat32 [OF small(1)])
  show "unat (of_nat (a * 131072 + q) - of_nat (b * 131072) :: u32) < 131072 \<longleftrightarrow> a = b"
    using unat_diff_offset(1) [OF small(2), of "of_nat (a * 131072 + q)" 0] u assms(3) by simp linarith
  have "q < 4294967296" using assms(3) by linarith
  then show "unat (of_nat (a * 131072 + q) - of_nat (a * 131072) :: u32) = q"
    using unat_of_nat32 [of q] by simp
qed

lemma bytes_at_tile: "q < 131072 \<Longrightarrow> bytes_at M (of_nat (t * 131072)) q = tile_bytes M t q"
  by (simp add: bytes_at_def tile_bytes_def)

lemma get16_tile:
  assumes "i < 65536"
  shows "get16 (bytes_at M (of_nat (t * 131072))) i = get16 (tile_bytes M t) i"
proof (rule bytes16.get_bytes)
  fix q :: nat
  assume "q < 2"
  then have "2 * i + q < 131072" using assms by linarith
  then show "bytes_at M (of_nat (t * 131072)) (2 * i + q) = tile_bytes M t (2 * i + q)" by (rule bytes_at_tile)
qed

lemma bytes_of_get16: "b (2 * i) = ucast (get16 b i)" "b (2 * i + 1) = ucast (drop_bit 8 (get16 b i))"
  unfolding get16_def by (rule bit_word_eqI; auto simp: bit_simps)+

subsection \<open>One run of the engine\<close>

lemma conf_256_job:
  assumes c: "conf_256 c" and J: "g_m J = 256" "g_n J = 256" "g_k J = 256" "g_fmt J = 3"
    and adr: "g_x J = of_nat (tx * 131072)" "g_w J = of_nat (tw * 131072)" "g_y J = of_nat (ty * 131072)"
    and t: "tx < 32768" "tw < 32768" "ty < 32768" "tx \<noteq> ty" "tw \<noteq> ty"
  shows "job_ok c J" and "tile_sizes_ok c J" and "n_inner c J * t_inner c J = 256"
proof -
  have e: "g_elem J = 2" by (simp add: g_elem_def J)
  have apart: "\<not> unat (of_nat (tx * 131072) + of_nat d - of_nat (ty * 131072) :: u32) < 131072"
    "\<not> unat (of_nat (tw * 131072) + of_nat d - of_nat (ty * 131072) :: u32) < 131072" if "d < 131072" for d
    using tile_address(1) [OF t(3,1) that] tile_address(1) [OF t(3,2) that] t(4,5) by simp_all
  have b: "t_bytes c \<le> 512" "0 < t_bytes c" using c by (auto simp: conf_256_def intro: dvd_imp_le)
  have rows: "t_rows c * t_bytes c < 4294967296" "t_cols c * t_bytes c < 4294967296"
    using mult_le_mono [of "t_rows c" 65535 "t_bytes c" 512] mult_le_mono [of "t_cols c" 65535 "t_bytes c" 512] b c
    by (auto simp: conf_256_def)
  show "job_ok c J" unfolding job_ok_def J e adr using c apart rows by (simp add: conf_256_def)
  obtain h where h: "t_bytes c = 2 * h" using c by (auto simp: conf_256_def elim: evenE)
  then have ti: "t_inner c J = h" by (simp add: t_inner_def e)
  show "tile_sizes_ok c J" using c b(1) h by (simp add: tile_sizes_ok_def ti conf_256_def)
  have "2 * h dvd 2 * 256" using c unfolding conf_256_def h by simp
  then have "h dvd 256" by simp
  then show "n_inner c J * t_inner c J = 256" unfolding n_inner_def ceil_div_def J ti by simp
qed

lemma tile_mac_eq:
  assumes "\<And>i. i < 65536 \<Longrightarrow> get16 (tile_bytes M t) i =
      fold (\<lambda>l. fp16_fma ops (get16 X (i div 256 * 256 + l)) (get16 W (l * 256 + i mod 256))) [0 ..< 256] (get16 Y i)"
  shows "tile_bytes M t = tile_mac ops X W Y"
proof
  fix p
  show "tile_bytes M t p = tile_mac ops X W Y p"
  proof (cases "p < 131072")
    case True
    then have i: "p div 2 < 65536" by simp
    show ?thesis
    proof (cases "even p")
      case True
      then have "tile_bytes M t p = ucast (get16 (tile_bytes M t) (p div 2))"
        using bytes_of_get16(1) [of "tile_bytes M t" "p div 2"] by simp
      then show ?thesis using True \<open>p < 131072\<close> assms [OF i] by (simp add: tile_mac_def Let_def)
    next
      case False
      then have "tile_bytes M t p = ucast (drop_bit 8 (get16 (tile_bytes M t) (p div 2)))"
        using bytes_of_get16(2) [of "tile_bytes M t" "p div 2"] by simp
      then show ?thesis using False \<open>p < 131072\<close> assms [OF i] by (simp add: tile_mac_def Let_def)
    qed
  qed (simp add: tile_bytes_def tile_mac_def)
qed

lemma result_tile:
  assumes J: "g_m J = 256" "g_n J = 256" "g_k J = 256" "g_fmt J = 3"
    and adr: "g_x J = of_nat (tx * 131072)" "g_w J = of_nat (tw * 131072)" "g_y J = of_nat (ty * 131072)"
    and inner: "n_inner c J * t_inner c J = 256" and res: "gemm_result c a J M"
  shows "tile_bytes M ty = tile_mac (fp16_ops a) (tile_bytes (g_mem J) tx) (tile_bytes (g_mem J) tw) (tile_bytes (g_mem J) ty)"
proof (rule tile_mac_eq)
  fix i :: nat
  assume i: "i < 65536"
  let ?r = "i div 256" and ?q = "i mod 256"
  have rq: "?r < 256" "?q < 256" "?r * 256 + ?q = i" using i by simp_all
  have "\<forall>r<256. \<forall>q<256. get16 (bytes_at M (g_y J)) (r * 256 + q) =
      fold (\<lambda>l. fp16_fma (fp16_ops a) (x_elem get16 0 J r l) (w_elem get16 0 J l q)) [0 ..< 256]
        (get16 (bytes_at (g_mem J) (g_y J)) (r * 256 + q))"
    using res unfolding gemm_result_def chain_gemm_def J inner by simp
  then have chain: "get16 (bytes_at M (g_y J)) (?r * 256 + ?q) =
      fold (\<lambda>l. fp16_fma (fp16_ops a) (x_elem get16 0 J ?r l) (w_elem get16 0 J l ?q)) [0 ..< 256]
        (get16 (bytes_at (g_mem J) (g_y J)) (?r * 256 + ?q))"
    using rq(1,2) by blast
  have x: "x_elem get16 0 J ?r l = get16 (tile_bytes (g_mem J) tx) (?r * 256 + l)"
    and w: "w_elem get16 0 J l ?q = get16 (tile_bytes (g_mem J) tw) (l * 256 + ?q)" if "l < 256" for l
  proof -
    have "?r * 256 + l < 65536" "l * 256 + ?q < 65536" using rq(1,2) that by linarith+
    then show "x_elem get16 0 J ?r l = get16 (tile_bytes (g_mem J) tx) (?r * 256 + l)"
      "w_elem get16 0 J l ?q = get16 (tile_bytes (g_mem J) tw) (l * 256 + ?q)"
      using that by (simp_all add: x_elem_def w_elem_def J adr get16_tile del: of_nat_mult)
  qed
  have steps: "fold (\<lambda>l. fp16_fma (fp16_ops a) (x_elem get16 0 J ?r l) (w_elem get16 0 J l ?q)) [0 ..< 256] z =
      fold (\<lambda>l. fp16_fma (fp16_ops a) (get16 (tile_bytes (g_mem J) tx) (?r * 256 + l)) (get16 (tile_bytes (g_mem J) tw) (l * 256 + ?q)))
        [0 ..< 256] z" for z
    by (rule fold_cong) (simp_all add: x w)
  show "get16 (tile_bytes M ty) i =
      fold (\<lambda>l. fp16_fma (fp16_ops a) (get16 (tile_bytes (g_mem J) tx) (?r * 256 + l)) (get16 (tile_bytes (g_mem J) tw) (l * 256 + ?q)))
        [0 ..< 256] (get16 (tile_bytes (g_mem J) ty) i)"
    using chain steps unfolding rq(3) adr(3) get16_tile [OF i] by simp
qed

text \<open>C6: the engine refines the abstract step of the double-buffered product: triggered on half precision
  tiles of 256 by 256 elements at multiples of the tile size in L1, the simulated engine reaches its end,
  and the tiles of L1 are then exactly those that the step \<open>Engine x w y\<close> gives, with the fused chain over
  the 256 products of an element for what it does to a tile.\<close>

theorem engine_refines_step:
  assumes "conf_256 c" and "port_ok c (job_of s data) L E" and "idle s"
    and "m_size s = 256" and "n_size s = 256" and "k_size s = 256" and "get32 data 3 = 3"
    and "get32 data 0 = of_nat (tx * 131072)" and "get32 data 1 = of_nat (tw * 131072)" and "get32 data 2 = of_nat (ty * 131072)"
    and "tx < 32768" and "tw < 32768" and "ty < 32768" and "tx \<noteq> ty" and "tw \<noteq> ty"
  shows "\<exists>s1 n m s'. core_acc_req c 4 data s = Some (IO_REQ_OK, s1, Some 1) \<and> run_fsm c a E n s1 = Some s' \<and>
    run_clock c a E m (Some 1, s1) = Some (Some 1, s') \<and> fsm_state s' = FINISHED \<and>
    (\<forall>t<32768. tile_bytes (tcdm s') t =
       act_step (tile_mac (fp16_ops a)) (Engine (get32 data 0) (get32 data 1) (get32 data 2)) (tile_bytes (tcdm s)) t)"
proof -
  let ?J = "job_of s data"
  have J: "g_m ?J = 256" "g_n ?J = 256" "g_k ?J = 256" "g_fmt ?J = 3" and adr: "g_x ?J = of_nat (tx * 131072)"
    "g_w ?J = of_nat (tw * 131072)" "g_y ?J = of_nat (ty * 131072)" using assms by simp_all
  note ok = conf_256_job [OF assms(1) J adr assms(11-15)]
  obtain s1 n m s' where r: "core_acc_req c 4 data s = Some (IO_REQ_OK, s1, Some 1)" "run_fsm c a E n s1 = Some s'"
    "run_clock c a E m (Some 1, s1) = Some (Some 1, s')" "fsm_state s' = FINISHED" and res: "gemm_result c a ?J (tcdm s')"
    using run_gemm [OF ok(1) assms(2,3), of a] gemm_result_after [OF ok(1,2), of a]
    by (auto simp: gemm_done_def engine_reaches_def)
  have ix: "tile_ix (unat (of_nat (t * 131072) :: u32)) = t" if "t < 32768" for t
  proof -
    have "t * 131072 < 4294967296" using that by simp
    then show ?thesis unfolding tile_ix_def using unat_of_nat32 [of "t * 131072"] by simp
  qed
  have "tile_bytes (tcdm s') t = tile_bytes (tcdm s) t" if "t < 32768" "t \<noteq> ty" for t
  proof
    fix q
    show "tile_bytes (tcdm s') t q = tile_bytes (tcdm s) t q"
    proof (cases "q < 131072")
      case True
      have "g_elem ?J = 2" unfolding g_elem_def J by simp
      then have "\<forall>d. \<not> unat (d - g_y ?J) < 131072 \<longrightarrow> tcdm s' d = tcdm s d" using res unfolding gemm_result_def J by simp
      then show ?thesis
        using tile_address(1) [OF assms(13) that(1) True] that(2) True unfolding adr by (simp add: tile_bytes_def)
    qed (simp add: tile_bytes_def)
  qed
  moreover have "tile_bytes (tcdm s') ty = tile_mac (fp16_ops a) (tile_bytes (tcdm s) tx) (tile_bytes (tcdm s) tw) (tile_bytes (tcdm s) ty)"
    using result_tile [OF J adr ok(3) res] by simp
  ultimately have "\<forall>t<32768. tile_bytes (tcdm s') t =
       act_step (tile_mac (fp16_ops a)) (Engine (get32 data 0) (get32 data 1) (get32 data 2)) (tile_bytes (tcdm s)) t"
    unfolding assms(8-10) act_step.simps ix [OF assms(11)] ix [OF assms(12)] ix [OF assms(13)] by simp
  then show ?thesis using r by blast
qed

text \<open>The default engine (128 by 32 elements of depth 4, 512 bytes per access) on the first buffers of the
  product: X in tile 0, W in tile 1 and Z in tile 4.\<close>

definition default_conf :: rm_conf where
  "default_conf = \<lparr>ce_height = 128, ce_width = 32, ce_pipe = 3, queue_depth = 1, bandwidth = 512, fold_tiles_mapping = 0\<rparr>"

definition tile_data :: bytes where
  "tile_data = (\<lambda>q. if q = 6 then 2 else if q = 10 then 8 else if q = 12 then 3 else 0)"

definition tile_engine :: redmule where
  "tile_engine = (redmule_init 2 (\<lambda>_. 0) (\<lambda>_. 0) (\<lambda>_. 0) (\<lambda>_. 0) (\<lambda>_. 0) (\<lambda>_. 0) (\<lambda>d. ucast d))
     \<lparr>m_size := 256, n_size := 256, k_size := 256\<rparr>"

lemma tile_words: "get32 tile_data 0 = 0" "get32 tile_data 1 = 131072" "get32 tile_data 2 = 524288" "get32 tile_data 3 = 3"
  by code_simp+

lemma engine_refines_step_witness:
  "\<forall>a. \<exists>s1 n s'. core_acc_req default_conf 4 tile_data tile_engine = Some (IO_REQ_OK, s1, Some 1) \<and>
    run_clock default_conf a small_port n (Some 1, s1) = Some (Some 1, s') \<and> fsm_state s' = FINISHED \<and>
    tile_bytes (tcdm s') 4 = tile_mac (fp16_ops a) (tile_bytes (tcdm tile_engine) 0) (tile_bytes (tcdm tile_engine) 1) (tile_bytes (tcdm tile_engine) 4)"
proof
  fix a
  have c: "conf_256 default_conf"
    by (simp add: conf_256_def default_conf_def t_rows_def t_cols_def t_bytes_def buffer_w_def)
  have "t_inner default_conf (job_of tile_engine tile_data) \<le> 512"
    by (simp add: t_inner_def t_bytes_def default_conf_def g_elem_def)
  then have p: "port_ok default_conf (job_of tile_engine tile_data) 7 small_port"
    by (simp add: port_ok_def small_port_def) (simp add: default_conf_def t_rows_def)
  have i: "idle tile_engine" by (simp add: idle_def tile_engine_def redmule_init_def buffers_clear_def)
  have s: "m_size tile_engine = 256" "n_size tile_engine = 256" "k_size tile_engine = 256" by (simp_all add: tile_engine_def)
  obtain s1 n s' where r: "core_acc_req default_conf 4 tile_data tile_engine = Some (IO_REQ_OK, s1, Some 1)"
    "run_clock default_conf a small_port n (Some 1, s1) = Some (Some 1, s')" "fsm_state s' = FINISHED"
    "\<forall>t<32768. tile_bytes (tcdm s') t = act_step (tile_mac (fp16_ops a))
       (Engine (get32 tile_data 0) (get32 tile_data 1) (get32 tile_data 2)) (tile_bytes (tcdm tile_engine)) t"
    using engine_refines_step [OF c p i s, of 0 1 4 a] by (auto simp: tile_words [unfolded One_nat_def])
  have "tile_bytes (tcdm s') 4 = tile_mac (fp16_ops a) (tile_bytes (tcdm tile_engine) 0) (tile_bytes (tcdm tile_engine) 1) (tile_bytes (tcdm tile_engine) 4)"
    using r(4) [rule_format, of 4] by (simp add: tile_words [unfolded One_nat_def] tile_ix_def)
  then show "\<exists>s1 n s'. core_acc_req default_conf 4 tile_data tile_engine = Some (IO_REQ_OK, s1, Some 1) \<and>
    run_clock default_conf a small_port n (Some 1, s1) = Some (Some 1, s') \<and> fsm_state s' = FINISHED \<and>
    tile_bytes (tcdm s') 4 = tile_mac (fp16_ops a) (tile_bytes (tcdm tile_engine) 0) (tile_bytes (tcdm tile_engine) 1) (tile_bytes (tcdm tile_engine) 4)"
    using r(1-3) by blast
qed

end
