(* ===== verification/Sim_Redmule_Insn.thy ===== *)
theory Sim_Redmule_Insn
  imports Sim_Redmule_Product Flex_Redmule
begin

text \<open>
  From the functions of \<open>flex_redmule.h\<close> to the engine: the two custom instructions as the patched instruction set
  simulator decodes (\<open>gvsoc_pulp.patch\<close>) and executes them (\<open>gvsoc_core.patch\<close>), and a product started by the
  runtime, \<open>runtime_gemm\<close>.
\<close>

definition put32 :: "bytes \<Rightarrow> nat \<Rightarrow> u32 \<Rightarrow> bytes" where
  "put32 b i v = put16 (put16 b (2 * i) (ucast v)) (2 * i + 1) (ucast (drop_bit 16 v))"

text \<open>What an instruction sends to the engine: the offset and the bytes of the array of the core it fills.\<close>

definition mcnfig_exec :: "u32 list \<Rightarrow> bytes \<Rightarrow> u64 \<times> bytes" where
  "mcnfig_exec rs redmule_mnk_reg =
     (let m_size = ucast (rs ! 0); n_size = ucast (rs ! 1); k_size = ucast (drop_bit 16 (rs ! 0)) in
      (0, put16 (put16 (put16 redmule_mnk_reg 0 m_size) 1 n_size) 2 k_size))"

definition marith_exec :: "u32 \<Rightarrow> u32 list \<Rightarrow> bytes \<Rightarrow> u64 \<times> bytes" where
  "marith_exec uim rs redmule_xwy_reg =
     (let x_addr = rs ! 0; w_addr = rs ! 1; y_addr = rs ! 2; config = uim in
      (4, put32 (put32 (put32 (put32 redmule_xwy_reg 0 x_addr) 1 w_addr) 2 y_addr) 3 config))"

text \<open>The fixed bits of the two instructions and the immediate, bits 7 to 14.\<close>

definition Rv32redmule :: "u32 \<Rightarrow> u32 list \<Rightarrow> bytes \<Rightarrow> bytes \<Rightarrow> (u64 \<times> bytes) option" where
  "Rv32redmule insn rs redmule_mnk_reg redmule_xwy_reg =
     (if insn AND 0xFE007FFF = 0x0000000A then Some (mcnfig_exec rs redmule_mnk_reg)
      else if insn AND 0x0600007F = 0x0000002A then Some (marith_exec (drop_bit 7 insn AND 0xFF) rs redmule_xwy_reg)
      else None)"

text \<open>The status of the request is ignored; the last event the engine has enqueued is kept.\<close>

definition issue :: "rm_conf \<Rightarrow> bytes \<Rightarrow> bytes \<Rightarrow> u32 \<Rightarrow> u32 list \<Rightarrow> redmule \<Rightarrow> clocked option" where
  "issue c mnk xwy insn rs s = do {
     (offset, data) \<leftarrow> Rv32redmule insn rs mnk xwy;
     (_, s, event) \<leftarrow> core_acc_req c offset data s;
     Some (event, s)
   }"

text \<open>The custom instructions of a program that does nothing else, on an engine that is not called in between.\<close>

primrec issues :: "rm_conf \<Rightarrow> bytes \<Rightarrow> bytes \<Rightarrow> io \<Rightarrow> clocked \<Rightarrow> clocked option" where
  "issues c mnk xwy Halt = (\<lambda>x. Some x)"
| "issues c mnk xwy (Insn w rs k) = (\<lambda>(_, s). do { x \<leftarrow> issue c mnk xwy w rs s; issues c mnk xwy (k 0) x })"
| "issues c mnk xwy (Rd a k) = (\<lambda>_. None)"
| "issues c mnk xwy (Wr a v k) = (\<lambda>_. None)"
| "issues c mnk xwy (Amo a v k) = (\<lambda>_. None)"
| "issues c mnk xwy (Spin a v k) = (\<lambda>_. None)"
| "issues c mnk xwy (Csr_Hartid k) = (\<lambda>_. None)"
| "issues c mnk xwy (Csr_Sync k) = (\<lambda>_. None)"

lemma get32_put32: "get32 (put32 b i v) j = (if i = j then v else get32 b j)"
proof -
  have "word_cat (ucast (drop_bit 16 v) :: u16) (ucast v :: u16) = v"
    by (rule bit_word_eqI) (auto simp: bit_word_cat_iff bit_ucast_iff bit_drop_bit_eq)
  moreover have "2 * i \<noteq> Suc (2 * j)" "Suc (2 * i) \<noteq> 2 * j" by presburger+
  ultimately show ?thesis by (simp add: get32_def put32_def get16_put16)
qed

lemma config_bytes:
  "mcnfig_exec [push_bit 16 (ucast k) OR ucast m, ucast n] b = (0, put16 (put16 (put16 b 0 m) 1 n) 2 k)"
proof -
  have "ucast (push_bit 16 (ucast k) OR ucast m :: u32) = m"
    by (rule bit_word_eqI) (auto simp: bit_simps)
  moreover have "ucast (drop_bit 16 (push_bit 16 (ucast k) OR ucast m :: u32)) = k"
    by (rule bit_word_eqI) (auto simp: bit_simps dest: bit_imp_le_length)
  moreover have "ucast (ucast n :: u32) = n"
    by (rule bit_word_eqI) (auto simp: bit_simps)
  ultimately show ?thesis by (simp only: mcnfig_exec_def Let_def nth_Cons_0 nth_Cons_Suc One_nat_def)
qed

primrec format_code :: "redmule_compute_format_t \<Rightarrow> u32" where
  "format_code REDMULE_NONE_16 = 0"
| "format_code REDMULE_UINT_16 = 1"
| "format_code REDMULE_INT_16 = 2"
| "format_code REDMULE_FP_16 = 3"
| "format_code REDMULE_UINT_8 = 5"
| "format_code REDMULE_INT_8 = 6"
| "format_code REDMULE_FP_8 = 7"

text \<open>The trigger bytes are those of \<open>core_acc_req\<close>; the configuration sets the three sizes of an idle engine.\<close>

lemma config_issued:
  assumes "fsm_state s = IDLE"
  shows "issues c mnk xwy (flex_redmule_config m n k p) (e, s) =
    issues c mnk xwy p (None, s\<lparr>m_size := ucast m, n_size := ucast n, k_size := ucast k\<rparr>)"
  using assms
  by (simp add: flex_redmule_config_def issue_def Rv32redmule_def config_bytes core_acc_req_def get16_put16 Let_def)

lemma trigger_issued:
  assumes "core_acc_req c 4 data s = Some (IO_REQ_OK, s1, e1)"
    and "data = snd (marith_exec (format_code fmt) [x, w, y] xwy)"
  shows "issues c mnk xwy (flex_redmule_trigger x w y fmt p) (e, s) = issues c mnk xwy p (e1, s1)"
proof -
  have "fst (marith_exec i rs b) = 4" for i rs b by (simp add: marith_exec_def Let_def)
  then have m: "marith_exec (format_code fmt) [x, w, y] xwy = (4, data)" using assms(2) by (simp add: prod_eq_iff)
  have "\<exists>k. flex_redmule_trigger x w y fmt p = Insn k [x, w, y] (\<lambda>_. p) \<and>
      Rv32redmule k [x, w, y] mnk xwy = Some (marith_exec (format_code fmt) [x, w, y] xwy)"
    by (cases fmt) (simp_all add: flex_redmule_trigger_def redmule_word_def Rv32redmule_def)
  then show ?thesis using m assms(1) by (auto simp: issue_def)
qed

text \<open>A product as a program starts it: the sizes and addresses arrive at the engine, which computes the product.\<close>

definition runtime_job :: "redmule \<Rightarrow> u16 \<Rightarrow> u16 \<Rightarrow> u16 \<Rightarrow> u32 \<Rightarrow> u32 \<Rightarrow> u32 \<Rightarrow> redmule_compute_format_t \<Rightarrow> gemm_job" where
  "runtime_job s m n k x w y fmt = \<lparr>g_m = unat m, g_n = unat n, g_k = unat k, g_x = x, g_w = w, g_y = y,
     g_fmt = format_code fmt, g_mem = tcdm s\<rparr>"

lemma runtime_gemm:
  assumes "job_ok c (runtime_job s m n k x w y fmt)" and "tile_sizes_ok c (runtime_job s m n k x w y fmt)"
    and "port_ok c (runtime_job s m n k x w y fmt) L E" and "idle s"
  shows "\<exists>e s1 i s'. issues c mnk xwy (flex_redmule_config m n k (flex_redmule_trigger x w y fmt Halt)) (None, s) = Some (e, s1) \<and>
    i \<le> run_cycles c (runtime_job s m n k x w y fmt) L \<and> run_clock c a E i (e, s1) = Some (Some 1, s') \<and>
    fsm_state s' = FINISHED \<and> gemm_result c a (runtime_job s m n k x w y fmt) (tcdm s')"
proof -
  let ?s = "s\<lparr>m_size := ucast m, n_size := ucast n, k_size := ucast k\<rparr>"
  define data where "data = snd (marith_exec (format_code fmt) [x, w, y] xwy)"
  have "get32 data 0 = x" "get32 data 1 = w" "get32 data 2 = y" "get32 data 3 = format_code fmt"
    by (simp_all add: data_def marith_exec_def get32_put32 Let_def)
  moreover have "unat (ucast h :: u32) = unat h" for h :: u16
    unfolding unsigned_ucast_eq by (rule take_bit_nat_eq_self) (use unsigned_less [of h, where ?'a = nat] in simp)
  ultimately have job: "job_of ?s data = runtime_job s m n k x w y fmt"
    by (simp add: job_of_def runtime_job_def)
  have st: "fsm_state s = IDLE" "idle ?s" using assms(4) by (simp_all add: idle_def buffers_clear_def)
  obtain s1 j i s' where r: "core_acc_req c 4 data ?s = Some (IO_REQ_OK, s1, Some 1)"
      "i \<le> run_cycles c (job_of ?s data) L" "engine_reaches c a E j i s1 s'" "gemm_done c a (job_of ?s data) s'"
    using run_gemm [of c ?s data L E a] assms(1,3) st(2) unfolding job by blast
  have "issues c mnk xwy (flex_redmule_config m n k (flex_redmule_trigger x w y fmt Halt)) (None, s) = Some (Some 1, s1)"
    unfolding config_issued [OF st(1)] trigger_issued [OF r(1) data_def] by simp
  then show ?thesis
    using r(2-4) gemm_result_after [OF assms(1,2), of a] unfolding job engine_reaches_def gemm_done_def by metis
qed

end
