(* ===== verification/App_Systolic.thy ===== *)
theory App_Systolic
  imports Flex_DMA Flex_Redmule "HOL-Library.Monad_Syntax"
begin

text \<open>
  The systolic matrix product of the example \<open>gemm_systolic\<close> (\<open>gemm_systolic_wise.h\<close> and its \<open>main.c\<close>): the
  clusters at the west and south edges load tiles of X and W from HBM, the others copy them from their left and
  bottom neighbours one iteration later, and the matrix engines run one iteration behind the transfers.
\<close>

record GemmSystolicInfo =
  matrix_M :: u32
  matrix_N :: u32
  matrix_K :: u32
  tile_dimension_M :: u32
  tile_dimension_N :: u32
  tile_dimension_K :: u32
  elem_size :: u32
  tile_size_byte_X :: u32
  tile_size_byte_W :: u32
  tile_size_byte_Y :: u32
  X_offset_1 :: u32
  W_offset_1 :: u32
  X_offset_2 :: u32
  W_offset_2 :: u32
  Y_offset :: u32
  XW_tile_length :: u32
  Z_tile_on_row :: u32
  Z_tile_on_col :: u32
  Z_tile_all :: u32
  systolic_delay :: u32
  total_iter :: u32
  dma_runing :: u32
  redmule_runing :: u32
  use_dma1 :: bool
  dma1_src :: u32
  dma1_dst :: u32
  dma1_size :: u32
  use_dma2 :: bool
  dma2_src :: u32
  dma2_dst :: u32
  dma2_size :: u32
  use_sync_dma :: bool
  use_redmule :: bool
  redmule_x :: u32
  redmule_w :: u32
  redmule_y :: u32

subsection \<open>Analysis\<close>

text \<open>\<open>while (z * step + pos < n) z++\<close>\<close>

partial_function (option) count_tiles :: "u32 \<Rightarrow> u32 \<Rightarrow> u32 \<Rightarrow> u32 \<Rightarrow> u32 option" where
  "count_tiles step pos n z = (if z * step + pos < n then count_tiles step pos n (z + 1) else Some z)"

text \<open>The recorded actions are not set here; the functions below set each one before its core reads it.\<close>

definition gemm_systolic_wise_analysis ::
    "arch \<Rightarrow> u32 \<Rightarrow> u32 \<Rightarrow> u32 \<Rightarrow> u32 \<Rightarrow> u32 \<Rightarrow> u32 \<Rightarrow> u32 \<Rightarrow> u32 \<Rightarrow> GemmSystolicInfo option" where
  "gemm_systolic_wise_analysis A cid M_size N_size K_size esize tM tN tK =
     (let size_X = tM * tN * esize; size_W = tN * tK * esize; size_Y = tM * tK * esize;
          M_tile = (M_size + tM - 1) div tM; N_tile = (N_size + tN - 1) div tN; K_tile = (K_size + tK - 1) div tK;
          pos = get_pos A cid
      in do {
        on_row \<leftarrow> count_tiles (ARCH_NUM_CLUSTER_X A) (pos_x pos) K_tile 0;
        on_col \<leftarrow> count_tiles (ARCH_NUM_CLUSTER_Y A) (pos_y pos) M_tile 0;
        Some \<lparr>matrix_M = M_size, matrix_N = N_size, matrix_K = K_size,
          tile_dimension_M = tM, tile_dimension_N = tN, tile_dimension_K = tK, elem_size = esize,
          tile_size_byte_X = size_X, tile_size_byte_W = size_W, tile_size_byte_Y = size_Y,
          X_offset_1 = 0, W_offset_1 = 1 * size_X, X_offset_2 = 2 * size_W, W_offset_2 = 3 * size_X,
          Y_offset = 4 * size_W, XW_tile_length = N_tile, Z_tile_on_row = on_row, Z_tile_on_col = on_col,
          Z_tile_all = on_row * on_col, systolic_delay = pos_x pos + pos_y pos,
          total_iter = (K_tile + ARCH_NUM_CLUSTER_X A - 1) div ARCH_NUM_CLUSTER_X A *
            ((M_tile + ARCH_NUM_CLUSTER_Y A - 1) div ARCH_NUM_CLUSTER_Y A) * (N_tile + 1) +
            ARCH_NUM_CLUSTER_X A + ARCH_NUM_CLUSTER_Y A,
          dma_runing = 0, redmule_runing = 0,
          use_dma1 = False, dma1_src = 0, dma1_dst = 0, dma1_size = 0,
          use_dma2 = False, dma2_src = 0, dma2_dst = 0, dma2_size = 0,
          use_sync_dma = False, use_redmule = False, redmule_x = 0, redmule_w = 0, redmule_y = 0\<rparr>
      })"

subsection \<open>Actions of an iteration\<close>

definition eff_xw :: "GemmSystolicInfo \<Rightarrow> u32 \<Rightarrow> u32 \<times> u32 \<times> u32" where
  "eff_xw info eff_iter =
     (let sub_iter = eff_iter mod (XW_tile_length info + 1); st_count = eff_iter div (XW_tile_length info + 1)
      in (sub_iter, st_count,
          if sub_iter < 1 then st_count * XW_tile_length info else st_count * XW_tile_length info + sub_iter - 1))"

definition local_x :: "GemmSystolicInfo \<Rightarrow> u32 \<Rightarrow> u32" where
  "local_x info xw_count = (if xw_count mod 2 = 0 then X_offset_1 info else X_offset_2 info)"

definition local_w :: "GemmSystolicInfo \<Rightarrow> u32 \<Rightarrow> u32" where
  "local_w info xw_count = (if xw_count mod 2 = 0 then W_offset_1 info else W_offset_2 info)"

text \<open>The address in HBM of a tile of Z, cut to 32 bits by the field it is stored in.\<close>

definition store_addr :: "arch \<Rightarrow> FlexPosition \<Rightarrow> GemmSystolicInfo \<Rightarrow> u32 \<Rightarrow> u32" where
  "store_addr A pos info st_count =
     ucast (hbm_south A (pos_x pos) 0
       + ucast (matrix_N info * matrix_K info * elem_size info div ARCH_NUM_CLUSTER_X A)
       + ucast ((st_count - 1) * ARCH_NUM_CLUSTER_Y A * tile_size_byte_Y info)
       + ucast (pos_y pos * tile_size_byte_Y info) :: u64)"

definition clear_dma :: "GemmSystolicInfo \<Rightarrow> GemmSystolicInfo" where
  "clear_dma info = info\<lparr>use_dma1 := False, use_dma2 := False, use_sync_dma := False\<rparr>"

definition in_stream :: "GemmSystolicInfo \<Rightarrow> u32 \<Rightarrow> bool" where
  "in_stream info iter =
     (systolic_delay info \<le> iter \<and> iter < Z_tile_all info * (XW_tile_length info + 1) + systolic_delay info)"

definition at_final_store :: "GemmSystolicInfo \<Rightarrow> u32 \<Rightarrow> bool" where
  "at_final_store info iter = (iter = Z_tile_all info * (XW_tile_length info + 1) + systolic_delay info + 1)"

definition stream_actions :: "arch \<Rightarrow> FlexPosition \<Rightarrow> GemmSystolicInfo \<Rightarrow> u32 \<Rightarrow> GemmSystolicInfo" where
  "stream_actions A pos info iter =
     (let (sub_iter, st_count, xw_count) = eff_xw info (iter - systolic_delay info) in
      if sub_iter = 1 then
        (if st_count \<noteq> 0 then
           info\<lparr>use_sync_dma := True, use_dma1 := True, dma1_dst := store_addr A pos info st_count,
             dma1_src := local_addr A (Y_offset info), dma1_size := tile_size_byte_Y info,
             use_dma2 := True, dma2_dst := local_addr A (Y_offset info), dma2_src := zomem A 0,
             dma2_size := tile_size_byte_Y info\<rparr>
         else info)
      else
        info\<lparr>use_dma1 := True, use_dma2 := True, dma1_size := tile_size_byte_X info, dma2_size := tile_size_byte_W info,
          dma1_dst := local_addr A (local_x info xw_count),
          dma1_src := (if pos_x pos = 0 then ucast (hbm_west A (pos_y pos) 0 + ucast (xw_count * tile_size_byte_X info))
             else remote_pos A (left_pos A pos) (local_x info xw_count)),
          dma2_dst := local_addr A (local_w info xw_count),
          dma2_src := (if pos_y pos = 0 then ucast (hbm_south A (pos_x pos) 0 + ucast (xw_count * tile_size_byte_W info))
             else remote_pos A (bottom_pos A pos) (local_w info xw_count))\<rparr>)"

definition final_actions :: "arch \<Rightarrow> FlexPosition \<Rightarrow> GemmSystolicInfo \<Rightarrow> u32 \<Rightarrow> GemmSystolicInfo" where
  "final_actions A pos info iter =
     (let st_count = (iter - systolic_delay info) div (XW_tile_length info + 1) in
      info\<lparr>use_dma1 := True, dma1_dst := store_addr A pos info st_count,
        dma1_src := local_addr A (Y_offset info), dma1_size := tile_size_byte_Y info\<rparr>)"

definition gemm_systolic_wise_compute_dma_access ::
    "arch \<Rightarrow> u32 \<Rightarrow> GemmSystolicInfo \<Rightarrow> u32 \<Rightarrow> GemmSystolicInfo" where
  "gemm_systolic_wise_compute_dma_access A cid info iter =
     (let info = clear_dma info;
          info = (if in_stream info iter then stream_actions A (get_pos A cid) info iter else info)
      in if at_final_store info iter then final_actions A (get_pos A cid) info iter else info)"

definition gemm_systolic_wise_compute_redmule_action :: "GemmSystolicInfo \<Rightarrow> u32 \<Rightarrow> GemmSystolicInfo" where
  "gemm_systolic_wise_compute_redmule_action info iter =
     (let info = info\<lparr>use_redmule := False\<rparr> in
      if systolic_delay info + 1 \<le> iter \<and>
         iter < Z_tile_all info * (XW_tile_length info + 1) + systolic_delay info + 1 then
        (let (sub_iter, st_count, xw_count) = eff_xw info (iter - systolic_delay info - 1) in
         if sub_iter \<noteq> 1 then
           info\<lparr>use_redmule := True, redmule_x := local_x info xw_count, redmule_w := local_w info xw_count,
             redmule_y := Y_offset info\<rparr>
         else info)
      else info)"

subsection \<open>The program\<close>

text \<open>The cluster id is read again wherever the code asks for the position.\<close>

definition dma_access :: "arch \<Rightarrow> GemmSystolicInfo \<Rightarrow> u32 \<Rightarrow> (GemmSystolicInfo \<Rightarrow> io) \<Rightarrow> io" where
  "dma_access A info iter k =
     (let ask = (\<lambda>c k. if c then flex_get_cluster_id A k else k 0) in
      ask (in_stream info iter) (\<lambda>c1. ask (at_final_store info iter) (\<lambda>c2.
        k (gemm_systolic_wise_compute_dma_access A (if in_stream info iter then c1 else c2) info iter))))"

definition dma_1 :: "GemmSystolicInfo \<Rightarrow> io \<Rightarrow> io" where
  "dma_1 info k = (if use_dma1 info
     then flex_dma_async_1d (ucast (dma1_dst info)) (ucast (dma1_src info)) (dma1_size info) k else k)"

definition dma_2 :: "GemmSystolicInfo \<Rightarrow> io \<Rightarrow> io" where
  "dma_2 info k = (if use_dma2 info
     then flex_dma_async_1d (ucast (dma2_dst info)) (ucast (dma2_src info)) (dma2_size info) k else k)"

definition wait_if :: "bool \<Rightarrow> io \<Rightarrow> io" where
  "wait_if b k = (if b then flex_dma_async_wait_all k else k)"

definition engine_part :: "arch \<Rightarrow> u32 \<Rightarrow> GemmSystolicInfo \<Rightarrow> (GemmSystolicInfo \<Rightarrow> io) \<Rightarrow> io" where
  "engine_part A i info k =
     (let rest = (let running = use_redmule info;
                      info = (gemm_systolic_wise_compute_redmule_action (info\<lparr>redmule_runing := of_bool running\<rparr>) (i + 1))
                  in if running then flex_redmule_wait A (\<lambda>_. k info) else k info)
      in if use_redmule info
         then flex_redmule_trigger (redmule_x info) (redmule_w info) (redmule_y info) REDMULE_NONE_16 rest
         else rest)"

definition dma_part :: "arch \<Rightarrow> u32 \<Rightarrow> GemmSystolicInfo \<Rightarrow> (GemmSystolicInfo \<Rightarrow> io) \<Rightarrow> io" where
  "dma_part A i info k =
     (if use_sync_dma info then
        dma_1 info (wait_if (use_dma1 info) (dma_2 info (wait_if (use_dma2 info) (dma_access A info (i + 1) k))))
      else dma_1 info (dma_2 info
        (let running = use_dma1 info \<or> use_dma2 info
         in dma_access A (info\<lparr>dma_runing := of_bool running\<rparr>) (i + 1) (\<lambda>info. wait_if running (k info)))))"

text \<open>The loop, with \<open>n\<close> iterations left.\<close>

primrec systolic_loop :: "arch \<Rightarrow> nat \<Rightarrow> u32 \<Rightarrow> GemmSystolicInfo \<Rightarrow> io \<Rightarrow> io" where
  "systolic_loop A 0 i info k = k"
| "systolic_loop A (Suc n) i info k =
     flex_is_first_core (\<lambda>first.
     (if first then engine_part A i info else (\<lambda>k. k info)) (\<lambda>info.
     flex_is_dm_core A (\<lambda>dm.
     (if dm then dma_part A i info else (\<lambda>k. k info)) (\<lambda>info.
     flex_global_barrier_xy A (systolic_loop A n (i + 1) info k)))))"

definition timer_mark :: "arch \<Rightarrow> (io \<Rightarrow> io) \<Rightarrow> io \<Rightarrow> io" where
  "timer_mark A act k =
     flex_get_core_id (\<lambda>core. if core = 0 then flex_get_cluster_id A (\<lambda>cid. if cid = 0 then act k else k) else k)"

text \<open>A loop of the analysis that does not end leaves the core where it is.\<close>

definition gemm_systolic_wise :: "arch \<Rightarrow> u32 \<Rightarrow> u32 \<Rightarrow> u32 \<Rightarrow> u32 \<Rightarrow> u32 \<Rightarrow> u32 \<Rightarrow> u32 \<Rightarrow> io \<Rightarrow> io" where
  "gemm_systolic_wise A M_size N_size K_size esize tM tN tK k =
     flex_global_barrier_xy A
     (flex_get_cluster_id A (\<lambda>CID.
      flex_get_cluster_id A (\<lambda>cid.
      case gemm_systolic_wise_analysis A cid M_size N_size K_size esize tM tN tK of
        None \<Rightarrow> Halt
      | Some info \<Rightarrow>
          flex_is_first_core (\<lambda>first.
          (if first then (\<lambda>k. flex_redmule_config (ucast tM) (ucast tN) (ucast tK)
              (k (gemm_systolic_wise_compute_redmule_action info 0)))
           else (\<lambda>k. k info)) (\<lambda>info.
          flex_is_dm_core A (\<lambda>dm.
          (if dm then dma_access A info 0 else (\<lambda>k. k info)) (\<lambda>info.
          timer_mark A (flex_timer_start A)
          (flex_global_barrier_xy A
          (systolic_loop A (unat (total_iter info)) 0 info
          (timer_mark A (flex_timer_end A) k)))))))))) "

definition gemm_systolic_main :: "arch \<Rightarrow> io" where
  "gemm_systolic_main A =
     flex_barrier_xy_init A
     (flex_global_barrier_xy A
     (gemm_systolic_wise A 4096 4096 4096 2 256 256 256
     (flex_global_barrier_xy A
     (flex_eoc A 0 Halt))))"

end
