(* ===== verification/App_Systolic_Props.thy ===== *)
theory App_Systolic_Props
  imports App_Systolic
begin

text \<open>
  The systolic product: whenever the engine of a cluster is triggered, its buffers hold the next tile of X of its
  row and of W of its column, as the edge clusters have loaded them, and no transfer of these tiles disturbs
  another one or an engine of the same iteration.
\<close>

subsection \<open>The order of the tiles\<close>

text \<open>The iteration, counted from the first one of a cluster, that transfers tile \<open>n\<close>, with rounds of \<open>L\<close> tiles
  and a gap after the first tile of each.\<close>

definition sched :: "nat \<Rightarrow> nat \<Rightarrow> nat" where
  "sched L n = n div L * (L + 1) + (if n mod L = 0 then 0 else n mod L + 1)"

definition tile_at :: "nat \<Rightarrow> nat \<Rightarrow> nat option" where
  "tile_at L e = (let s = e mod (L + 1); st = e div (L + 1) in
     if s = 1 then None else Some (if s < 1 then st * L else st * L + s - 1))"

lemma sched_Suc:
  assumes "0 < L"
  shows "sched L n < sched L (Suc n)"
proof (cases "Suc (n mod L) = L")
  case True
  then have "Suc n = Suc (n div L) * L" using div_mult_mod_eq [of n L] unfolding mult_Suc by linarith
  then have "Suc n div L = Suc (n div L)" "Suc n mod L = 0" using assms by simp_all
  then show ?thesis using True by (simp add: sched_def)
next
  case False
  have "n mod L < L" using assms by simp
  then have lt: "Suc (n mod L) < L" using False by linarith
  have "Suc n = n div L * L + Suc (n mod L)" using div_mult_mod_eq [of n L] by simp
  then have "Suc n div L = n div L" "Suc n mod L = Suc (n mod L)" using row_col [OF lt, of "n div L"] by simp_all
  moreover have "q * (L + 1) + (if r = 0 then 0 else r + 1) < q * (L + 1) + (if Suc r = 0 then 0 else Suc r + 1)" for q r
    by simp
  ultimately show ?thesis unfolding sched_def by metis
qed

lemma sched_mono: "0 < L \<Longrightarrow> m < n \<Longrightarrow> sched L m < sched L n"
  by (rule lift_Suc_mono_less [of "sched L"]) (rule sched_Suc)

lemma sched_inject: "0 < L \<Longrightarrow> sched L m < sched L n \<longleftrightarrow> m < n"
  by (metis sched_mono less_asym' linorder_neqE_nat less_irrefl)

lemma sched_parts:
  fixes n :: nat
  assumes "0 < L"
  defines "s \<equiv> if n mod L = 0 then 0 else n mod L + 1"
  shows "sched L n div (L + 1) = n div L" "sched L n mod (L + 1) = s" "s \<noteq> 1" "s < L + 1"
proof -
  have "n mod L < L" using assms(1) by simp
  then show s: "s < L + 1" and "s \<noteq> 1" by (auto simp: s_def)
  show "sched L n div (L + 1) = n div L" "sched L n mod (L + 1) = s"
    using row_col [OF s, of "n div L"] unfolding sched_def s_def by blast+
qed

lemma tile_at_sched:
  assumes "0 < L"
  shows "tile_at L (sched L n) = Some n"
proof -
  note p = sched_parts [OF assms, of n]
  show ?thesis
  proof (cases "n mod L = 0")
    case True
    then have "n div L * L = n" using div_mult_mod_eq [of n L] by linarith
    then show ?thesis using p True by (simp add: tile_at_def)
  next
    case False
    have "n div L * L + (n mod L + 1) - 1 = n" using div_mult_mod_eq [of n L] by linarith
    then show ?thesis using p False by (simp add: tile_at_def)
  qed
qed

lemma tile_at_eq:
  assumes "0 < L"
  shows "tile_at L e = Some n \<longleftrightarrow> e = sched L n"
proof
  assume t: "tile_at L e = Some n"
  define st s where "st = e div (L + 1)" and "s = e mod (L + 1)"
  define r where "r = (if s < 1 then 0 else s - 1)"
  have s: "s \<noteq> 1" "n = st * L + r" "s < L + 1"
    using t unfolding tile_at_def Let_def st_def s_def r_def by (auto split: if_splits)
  have r: "r < L" "s = (if r = 0 then 0 else r + 1)" using s(1,3) assms by (auto simp: r_def)
  have "n div L = st" "n mod L = r" using row_col [OF r(1), of st] unfolding s(2) by blast+
  then have "sched L n = st * (L + 1) + s" unfolding sched_def r(2) by (simp only:)
  then show "e = sched L n" using div_mult_mod_eq [of e "L + 1"] unfolding st_def s_def by linarith
qed (simp add: tile_at_sched assms)

lemma sched_bound:
  assumes "0 < L"
  shows "n < Z * L \<longleftrightarrow> sched L n < Z * (L + 1)"
proof -
  have "n < Z * L \<longleftrightarrow> n div L < Z" using assms by (simp add: div_less_iff_less_mult)
  also have "\<dots> \<longleftrightarrow> sched L n div (L + 1) < Z" unfolding sched_parts(1) [OF assms] ..
  also have "\<dots> \<longleftrightarrow> sched L n < Z * (L + 1)" by (rule div_less_iff_less_mult) simp
  finally show ?thesis .
qed

subsection \<open>What a cluster asks for in an iteration\<close>

text \<open>The requests to the DMA engine and the operands of the matrix engine.\<close>

definition requests :: "arch \<Rightarrow> (nat \<Rightarrow> GemmSystolicInfo) \<Rightarrow> nat \<Rightarrow> nat \<Rightarrow> (nat \<times> nat \<times> nat) list" where
  "requests A info c i =
     (let j = gemm_systolic_wise_compute_dma_access A (of_nat c) (info c) (of_nat i) in
      (if use_dma1 j then [(unat (dma1_dst j), unat (dma1_src j), unat (dma1_size j))] else []) @
      (if use_dma2 j then [(unat (dma2_dst j), unat (dma2_src j), unat (dma2_size j))] else []))"

definition engine :: "(nat \<Rightarrow> GemmSystolicInfo) \<Rightarrow> nat \<Rightarrow> nat \<Rightarrow> (nat \<times> nat \<times> nat) option" where
  "engine info c i =
     (let j = gemm_systolic_wise_compute_redmule_action (info c) (of_nat i) in
      if use_redmule j then Some (unat (redmule_x j), unat (redmule_w j), unat (redmule_y j)) else None)"

text \<open>The configuration: tiles of X and W of the same size \<open>t\<close>, rounds of \<open>L\<close> tiles, \<open>Z c\<close> rounds on cluster
  \<open>c\<close>, not more than on the clusters it copies from; everything within 32 bits and the address map.\<close>

definition mesh_x :: "arch \<Rightarrow> nat \<Rightarrow> nat" where "mesh_x A c = c mod unat (ARCH_NUM_CLUSTER_X A)"
definition mesh_y :: "arch \<Rightarrow> nat \<Rightarrow> nat" where "mesh_y A c = c div unat (ARCH_NUM_CLUSTER_X A)"
definition clusters :: "arch \<Rightarrow> nat" where
  "clusters A = unat (ARCH_NUM_CLUSTER_X A) * unat (ARCH_NUM_CLUSTER_Y A)"

abbreviation lag :: "arch \<Rightarrow> nat \<Rightarrow> nat" where "lag A c \<equiv> mesh_x A c + mesh_y A c"

definition west :: "arch \<Rightarrow> nat \<Rightarrow> nat" where "west A y = hbm_node A y 0"
definition south :: "arch \<Rightarrow> nat \<Rightarrow> nat" where
  "south A x = hbm_node A (2 * unat (ARCH_NUM_CLUSTER_Y A) + unat (ARCH_NUM_CLUSTER_X A) + x) 0"

text \<open>Where the tiles of Z of cluster \<open>c\<close> go.\<close>

definition out_base :: "arch \<Rightarrow> GemmSystolicInfo \<Rightarrow> nat \<Rightarrow> nat" where
  "out_base A j c = south A (mesh_x A c) + unat (matrix_N j * matrix_K j * elem_size j div ARCH_NUM_CLUSTER_X A)"

definition in_output :: "arch \<Rightarrow> GemmSystolicInfo \<Rightarrow> nat \<Rightarrow> nat \<Rightarrow> nat \<Rightarrow> nat \<Rightarrow> bool" where
  "in_output A j c z d k =
     (out_base A j c \<le> d \<and> d + k \<le> out_base A j c + z * unat (ARCH_NUM_CLUSTER_Y A) * unat (tile_size_byte_Y j))"

definition map_ok :: "arch \<Rightarrow> bool" where
  "map_ok A = (arch_ok A \<and>
     unat (ARCH_CLUSTER_TCDM_BASE A) + unat (ARCH_CLUSTER_TCDM_SIZE A) \<le> unat (ARCH_CLUSTER_TCDM_REMOTE A) \<and>
     unat (ARCH_CLUSTER_TCDM_REMOTE A) + clusters A * unat (ARCH_CLUSTER_TCDM_SIZE A) \<le> unat (ARCH_HBM_START_BASE A))"

definition cluster_info_ok :: "arch \<Rightarrow> GemmSystolicInfo \<Rightarrow> nat \<Rightarrow> nat \<Rightarrow> nat \<Rightarrow> nat \<Rightarrow> bool" where
  "cluster_info_ok A j c L z t =
     (unat (tile_size_byte_X j) = t \<and> unat (tile_size_byte_W j) = t \<and> unat (X_offset_1 j) = 0 \<and>
      unat (W_offset_1 j) = t \<and> unat (X_offset_2 j) = 2 * t \<and> unat (W_offset_2 j) = 3 * t \<and> unat (Y_offset j) = 4 * t \<and>
      unat (XW_tile_length j) = L \<and> unat (Z_tile_all j) = z \<and> unat (systolic_delay j) = lag A c \<and>
      0 < z \<and> z * (L + 1) + lag A c + 2 < 4294967296 \<and>
      south A (unat (ARCH_NUM_CLUSTER_X A)) + z * L * t < 4294967296 \<and>
      (\<forall>st. 0 < st \<and> st \<le> z \<longrightarrow>
         in_output A j c z (unat (store_addr A (get_pos A (of_nat c)) j (of_nat st))) (unat (tile_size_byte_Y j))))"

definition flow_ok :: "arch \<Rightarrow> (nat \<Rightarrow> GemmSystolicInfo) \<Rightarrow> nat \<Rightarrow> (nat \<Rightarrow> nat) \<Rightarrow> nat \<Rightarrow> bool" where
  "flow_ok A info L Z t =
     (map_ok A \<and> 0 < L \<and> 0 < t \<and> 4 * t < unat (ARCH_CLUSTER_TCDM_SIZE A) \<and>
      (\<forall>c<clusters A. cluster_info_ok A (info c) c L (Z c) t \<and>
         (0 < mesh_x A c \<longrightarrow> Z c \<le> Z (c - 1)) \<and>
         (0 < mesh_y A c \<longrightarrow> Z c \<le> Z (c - unat (ARCH_NUM_CLUSTER_X A)))))"

text \<open>Where tile \<open>n\<close> of X and of W goes in L1.\<close>

definition xo :: "nat \<Rightarrow> nat \<Rightarrow> nat" where "xo t n = (if even n then 0 else 2 * t)"
definition wo :: "nat \<Rightarrow> nat \<Rightarrow> nat" where "wo t n = (if even n then t else 3 * t)"

lemma eff_xw_nat:
  assumes "unat (XW_tile_length j) = L" and "L + 1 < 4294967296" and "e < 4294967296"
  shows "\<exists>s st n. eff_xw j (of_nat e) = (s, st, n) \<and> unat s = e mod (L + 1) \<and> unat st = e div (L + 1) \<and>
    (s \<noteq> 1 \<longrightarrow> tile_at L e = Some (unat n))"
proof -
  let ?l = "XW_tile_length j" and ?e = "of_nat e :: u32"
  let ?s = "?e mod (?l + 1)" and ?st = "?e div (?l + 1)"
  have e: "unat ?e = e" using assms(3) by (rule unat_of_nat32)
  have l: "unat (?l + 1) = L + 1" using assms(1,2) by (subst unat_add32) simp_all
  have s: "unat ?s = e mod (L + 1)" "unat ?st = e div (L + 1)" by (simp_all add: unat_mod unat_div e l)
  have sum: "e div (L + 1) * (L + 1) + e mod (L + 1) = e" by (rule div_mult_mod_eq)
  then have "e div (L + 1) * L + e mod (L + 1) \<le> e" unfolding distrib_left by linarith
  then have b: "e div (L + 1) * L < 4294967296" "e div (L + 1) * L + e mod (L + 1) < 4294967296" using assms(3) by linarith+
  have m: "unat (?st * ?l) = e div (L + 1) * L" using b(1) assms(1) s(2) by (subst unat_mult32) simp_all
  have a: "unat (?st * ?l + ?s) = e div (L + 1) * L + e mod (L + 1)" using b(2) m s(1) by (subst unat_add32) simp_all
  have c: "?s < 1 \<longleftrightarrow> e mod (L + 1) = 0" "?s = 1 \<longleftrightarrow> e mod (L + 1) = 1"
    using s(1) by (simp_all add: word_less_nat_alt unat_eq_iff32)
  have "tile_at L e = Some (unat (if ?s < 1 then ?st * ?l else ?st * ?l + ?s - 1))" if "?s \<noteq> 1"
  proof (cases "e mod (L + 1) = 0")
    case True
    then show ?thesis using c m by (simp add: tile_at_def)
  next
    case False
    then have "unat (?st * ?l + ?s - 1) = e div (L + 1) * L + e mod (L + 1) - 1" using a by (subst unat_sub32) simp_all
    then show ?thesis using False c that by (simp add: tile_at_def)
  qed
  then show ?thesis using s unfolding eff_xw_def Let_def by blast
qed

lemma flowD:
  assumes "flow_ok A info L Z t" and "c < clusters A"
  shows "map_ok A" "arch_ok A" "0 < L" "0 < t" "4 * t < unat (ARCH_CLUSTER_TCDM_SIZE A)" "cluster_info_ok A (info c) c L (Z c) t"
    "0 < mesh_x A c \<Longrightarrow> Z c \<le> Z (c - 1)" "0 < mesh_y A c \<Longrightarrow> Z c \<le> Z (c - unat (ARCH_NUM_CLUSTER_X A))"
  using assms by (simp_all add: flow_ok_def map_ok_def)

lemma clusters_less: "arch_ok A \<Longrightarrow> clusters A < 4294967296"
  unfolding clusters_def by (rule mesh_area)

lemma pos_nat:
  assumes "arch_ok A" and "c < clusters A"
  shows "unat (pos_x (get_pos A (of_nat c))) = mesh_x A c" "unat (pos_y (get_pos A (of_nat c))) = mesh_y A c"
    "mesh_x A c < unat (ARCH_NUM_CLUSTER_X A)" "mesh_y A c < unat (ARCH_NUM_CLUSTER_Y A)"
    "mesh_y A c * unat (ARCH_NUM_CLUSTER_X A) + mesh_x A c = c" "on_mesh A (get_pos A (of_nat c))"
proof -
  have c: "unat (of_nat c :: u32) = c" using clusters_less [OF assms(1)] assms(2) by (intro unat_of_nat32) linarith
  show "unat (pos_x (get_pos A (of_nat c))) = mesh_x A c" "unat (pos_y (get_pos A (of_nat c))) = mesh_y A c"
    by (simp_all add: get_pos_def mesh_x_def mesh_y_def unat_mod unat_div c)
  show m: "on_mesh A (get_pos A (of_nat c))" using get_pos_on_mesh(1) [OF assms(1)] assms(2) c by (simp add: clusters_def)
  show "mesh_x A c < unat (ARCH_NUM_CLUSTER_X A)" "mesh_y A c < unat (ARCH_NUM_CLUSTER_Y A)"
    using assms by (simp_all add: mesh_x_def mesh_y_def arch_ok_def clusters_def less_mult_imp_div_less mult.commute)
  show "mesh_y A c * unat (ARCH_NUM_CLUSTER_X A) + mesh_x A c = c" unfolding mesh_x_def mesh_y_def by (rule div_mult_mod_eq)
qed

text \<open>The neighbours a cluster copies from.\<close>

lemma pos_eqI: "unat (pos_x p) = unat (pos_x q) \<Longrightarrow> unat (pos_y p) = unat (pos_y q) \<Longrightarrow> p = (q :: FlexPosition)"
  by (rule FlexPosition.equality) (simp_all add: unat_eq_iff32)

lemma ring_left: "0 < k \<Longrightarrow> k < m \<Longrightarrow> (k + m - 1) mod m = k - (1 :: nat)"
  by (cases k) simp_all

lemma left_nat:
  assumes "arch_ok A" and "c < clusters A" and x: "0 < mesh_x A c"
  shows "mesh_x A (c - 1) = mesh_x A c - 1" "mesh_y A (c - 1) = mesh_y A c" "c - 1 < clusters A" "0 < c"
    "left_pos A (get_pos A (of_nat c)) = get_pos A (of_nat (c - 1))"
proof -
  let ?X = "unat (ARCH_NUM_CLUSTER_X A)"
  note p = pos_nat [OF assms(1,2)]
  have "c - 1 = mesh_y A c * ?X + (mesh_x A c - 1)" using p(5) x by linarith
  moreover have "mesh_x A c - 1 < ?X" using p(3) by linarith
  ultimately show m: "mesh_x A (c - 1) = mesh_x A c - 1" "mesh_y A (c - 1) = mesh_y A c"
    using row_col unfolding mesh_x_def [of A "c - 1"] mesh_y_def [of A "c - 1"] by metis+
  show c: "c - 1 < clusters A" and "0 < c" using assms(2) x by (cases "c = 0", simp_all add: mesh_x_def)+
  have X: "?X < 65536" using assms(1) by (simp add: arch_ok_def)
  have lt: "pos_x (get_pos A (of_nat c)) < ARCH_NUM_CLUSTER_X A" using p(6) by (simp add: on_mesh_def)
  show "left_pos A (get_pos A (of_nat c)) = get_pos A (of_nat (c - 1))"
    using ring_step(2) [OF lt X] ring_left [OF x p(3)] pos_nat [OF assms(1) c] m p
    by (intro pos_eqI) (simp_all add: left_pos_def)
qed

lemma bottom_nat:
  assumes "arch_ok A" and "c < clusters A" and y: "0 < mesh_y A c"
  shows "mesh_x A (c - unat (ARCH_NUM_CLUSTER_X A)) = mesh_x A c" "mesh_y A (c - unat (ARCH_NUM_CLUSTER_X A)) = mesh_y A c - 1"
    "c - unat (ARCH_NUM_CLUSTER_X A) < clusters A" "unat (ARCH_NUM_CLUSTER_X A) \<le> c"
    "bottom_pos A (get_pos A (of_nat c)) = get_pos A (of_nat (c - unat (ARCH_NUM_CLUSTER_X A)))"
proof -
  let ?X = "unat (ARCH_NUM_CLUSTER_X A)"
  note p = pos_nat [OF assms(1,2)]
  obtain k where k: "mesh_y A c = Suc k" using y by (cases "mesh_y A c") simp_all
  have e: "c - ?X = k * ?X + mesh_x A c" and le: "?X \<le> c" using p(5) unfolding k by simp_all
  show m: "mesh_x A (c - ?X) = mesh_x A c" "mesh_y A (c - ?X) = mesh_y A c - 1"
    using row_col [OF p(3), of k] e k unfolding mesh_x_def [of A "c - ?X"] mesh_y_def [of A "c - ?X"] by simp_all
  show c: "c - ?X < clusters A" and "?X \<le> c" using assms(2) le by simp_all
  have Y: "unat (ARCH_NUM_CLUSTER_Y A) < 65536" using assms(1) by (simp add: arch_ok_def)
  have lt: "pos_y (get_pos A (of_nat c)) < ARCH_NUM_CLUSTER_Y A" using p(6) by (simp add: on_mesh_def)
  show "bottom_pos A (get_pos A (of_nat c)) = get_pos A (of_nat (c - ?X))"
    using ring_step(2) [OF lt Y] ring_left [OF y p(4)] pos_nat [OF assms(1) c] m p
    by (intro pos_eqI) (simp_all add: bottom_pos_def)
qed

lemma remote_nat:
  assumes "arch_ok A" and "c < clusters A" and "unat off < unat (ARCH_CLUSTER_TCDM_SIZE A)"
  shows "unat (remote_pos A (get_pos A (of_nat c)) off) =
    unat (ARCH_CLUSTER_TCDM_REMOTE A) + (c * unat (ARCH_CLUSTER_TCDM_SIZE A) + unat off)"
  using unat_remote_pos [OF assms(1) pos_nat(6) [OF assms(1,2)], of off] assms(3) pos_nat [OF assms(1,2)]
  by (simp add: word_less_nat_alt)

text \<open>Addresses.\<close>

lemma local_nat:
  assumes "map_ok A" and "unat off < unat (ARCH_CLUSTER_TCDM_SIZE A)"
  shows "unat (local_addr A off) = unat (ARCH_CLUSTER_TCDM_BASE A) + unat off"
proof -
  have "unat (ARCH_CLUSTER_TCDM_BASE A) + unat (ARCH_CLUSTER_TCDM_SIZE A) < 4294967296"
    using assms(1) unat_lt32 [of "ARCH_CLUSTER_TCDM_REMOTE A"] unfolding map_ok_def by linarith
  then show ?thesis using assms(2) unfolding local_addr_def by (intro unat_add32) linarith
qed

lemma buffer_nat:
  assumes "cluster_info_ok A j c L z t" and "unat n' = n"
  shows "unat (local_x j n') = xo t n" "unat (local_w j n') = wo t n"
proof -
  have "n' mod 2 = 0 \<longleftrightarrow> even n" using assms(2) by (auto simp: unat_eq_iff32 unat_mod even_iff_mod_2_eq_zero)
  then show "unat (local_x j n') = xo t n" "unat (local_w j n') = wo t n"
    using assms(1) by (simp_all add: local_x_def local_w_def xo_def wo_def cluster_info_ok_def)
qed

lemma buffer_bound: "0 < t \<Longrightarrow> 4 * t < s \<Longrightarrow> xo t n + t \<le> s \<and> wo t n + t \<le> s \<and> xo t n < s \<and> wo t n < s"
  by (auto simp: xo_def wo_def)

lemma hbm_stream:
  assumes "unat (h :: u64) + unat (m :: u32) < 4294967296"
  shows "unat (ucast (h + ucast m) :: u32) = unat h + unat m"
proof -
  have "unat (h + ucast m) = unat h + unat m" using assms by (subst unat_add_lem [THEN iffD1]) simp_all
  then show ?thesis using assms by (simp add: unsigned_ucast_eq take_bit_nat_eq_self)
qed

lemma stream_nat:
  assumes "arch_ok A" and "x < unat (ARCH_NUM_CLUSTER_X A)" and "y < unat (ARCH_NUM_CLUSTER_Y A)"
  shows "west A y \<le> south A (unat (ARCH_NUM_CLUSTER_X A))" "south A x \<le> south A (unat (ARCH_NUM_CLUSTER_X A))"
  using assms(2,3) by (simp_all add: west_def south_def hbm_node_def mult_le_mono1)

lemma edge_nat:
  assumes "arch_ok A" and "c < clusters A"
  shows "unat (hbm_west A (pos_y (get_pos A (of_nat c))) 0) = west A (mesh_y A c)"
    "unat (hbm_south A (pos_x (get_pos A (of_nat c))) 0) = south A (mesh_x A c)"
proof -
  have "unat (ARCH_NUM_CLUSTER_X A) < 65536" "unat (ARCH_NUM_CLUSTER_Y A) < 65536" using assms(1) by (simp_all add: arch_ok_def)
  then show "unat (hbm_west A (pos_y (get_pos A (of_nat c))) 0) = west A (mesh_y A c)"
    "unat (hbm_south A (pos_x (get_pos A (of_nat c))) 0) = south A (mesh_x A c)"
    using pos_nat [OF assms] hbm_nodes(1,4) [OF assms(1)] by (simp_all add: west_def south_def)
qed

lemma clear_dma_sel [simp]:
  "in_stream (clear_dma j) i = in_stream j i" "at_final_store (clear_dma j) i = at_final_store j i"
  "eff_xw (clear_dma j) e = eff_xw j e" "systolic_delay (clear_dma j) = systolic_delay j"
  "local_x (clear_dma j) n = local_x j n" "local_w (clear_dma j) n = local_w j n"
  "XW_tile_length (clear_dma j) = XW_tile_length j" "Y_offset (clear_dma j) = Y_offset j"
  "tile_size_byte_X (clear_dma j) = tile_size_byte_X j" "tile_size_byte_W (clear_dma j) = tile_size_byte_W j"
  "tile_size_byte_Y (clear_dma j) = tile_size_byte_Y j" "store_addr A p (clear_dma j) st = store_addr A p j st"
  "\<not> use_dma1 (clear_dma j)" "\<not> use_dma2 (clear_dma j)"
  by (simp_all add: clear_dma_def in_stream_def at_final_store_def eff_xw_def local_x_def local_w_def store_addr_def Let_def)

lemma stream_actions_final [simp]: "at_final_store (stream_actions A p j i') i = at_final_store j i"
  by (simp add: stream_actions_def at_final_store_def Let_def split: prod.split)

lemma access_stream:
  "in_stream j i \<Longrightarrow> \<not> at_final_store j i \<Longrightarrow>
    gemm_systolic_wise_compute_dma_access A cid j i = stream_actions A (get_pos A cid) (clear_dma j) i"
  by (simp add: gemm_systolic_wise_compute_dma_access_def)

text \<open>The bounds of the two phases as natural numbers.\<close>

lemma phase_nat:
  assumes ok: "cluster_info_ok A j c L z t" and "i < 4294967296"
  shows "in_stream j (of_nat i) \<longleftrightarrow> lag A c \<le> i \<and> i < z * (L + 1) + lag A c"
    "at_final_store j (of_nat i) \<longleftrightarrow> i = z * (L + 1) + lag A c + 1"
    "lag A c \<le> i \<Longrightarrow> of_nat i - systolic_delay j = of_nat (i - lag A c)"
    "systolic_delay j + 1 \<le> of_nat i \<and> of_nat i < Z_tile_all j * (XW_tile_length j + 1) + systolic_delay j + 1 \<longleftrightarrow>
       lag A c + 1 \<le> i \<and> i < z * (L + 1) + lag A c + 1"
    "lag A c + 1 \<le> i \<Longrightarrow> of_nat i - systolic_delay j - 1 = of_nat (i - (lag A c + 1))"
proof -
  have b: "z * (L + 1) + lag A c + 2 < 4294967296" using ok by (simp add: cluster_info_ok_def)
  have f: "unat (XW_tile_length j) = L" "unat (Z_tile_all j) = z" "unat (systolic_delay j) = lag A c"
    using ok by (simp_all add: cluster_info_ok_def)
  have i: "unat (of_nat i :: u32) = i" using assms(2) by (rule unat_of_nat32)
  have "L < 4294967295 \<or> z = 0" using b by (cases z) auto
  have m: "unat (Z_tile_all j * (XW_tile_length j + 1)) = z * (L + 1)"
  proof (cases "z = 0")
    case True
    then have "Z_tile_all j = 0" using f by (simp add: unat_eq_iff32)
    then show ?thesis using True by simp
  next
    case False
    then have "L + 1 \<le> z * (L + 1)" by (cases z) simp_all
    then have "unat (XW_tile_length j + 1) = L + 1" using b f by (subst unat_add32) simp_all
    then show ?thesis using b f by (subst unat_mult32) simp_all
  qed
  have e: "unat (Z_tile_all j * (XW_tile_length j + 1) + systolic_delay j) = z * (L + 1) + lag A c"
    using b f m by (subst unat_add32) simp_all
  have e1: "unat (Z_tile_all j * (XW_tile_length j + 1) + systolic_delay j + 1) = z * (L + 1) + lag A c + 1"
    using b e by (subst unat_add32) simp_all
  have d1: "unat (systolic_delay j + 1) = lag A c + 1" using b f by (subst unat_add32) simp_all
  show "in_stream j (of_nat i) \<longleftrightarrow> lag A c \<le> i \<and> i < z * (L + 1) + lag A c"
    unfolding in_stream_def word_le_nat_alt word_less_nat_alt e i f ..
  show "at_final_store j (of_nat i) \<longleftrightarrow> i = z * (L + 1) + lag A c + 1"
    unfolding at_final_store_def unat_eq_iff32 e1 i ..
  show "systolic_delay j + 1 \<le> of_nat i \<and> of_nat i < Z_tile_all j * (XW_tile_length j + 1) + systolic_delay j + 1 \<longleftrightarrow>
      lag A c + 1 \<le> i \<and> i < z * (L + 1) + lag A c + 1"
    unfolding word_le_nat_alt word_less_nat_alt e1 d1 i ..
  show "of_nat i - systolic_delay j = of_nat (i - lag A c)" if "lag A c \<le> i"
  proof -
    have "unat (of_nat i - systolic_delay j) = i - lag A c" using that f i by (subst unat_sub32) simp_all
    moreover have "unat (of_nat (i - lag A c) :: u32) = i - lag A c" using assms(2) by (intro unat_of_nat32) linarith
    ultimately show ?thesis unfolding unat_eq_iff32 by (simp only:)
  qed
  show "of_nat i - systolic_delay j - 1 = of_nat (i - (lag A c + 1))" if "lag A c + 1 \<le> i"
  proof -
    have "unat (of_nat i - (systolic_delay j + 1)) = i - (lag A c + 1)" using that d1 i by (subst unat_sub32) simp_all
    moreover have "unat (of_nat (i - (lag A c + 1)) :: u32) = i - (lag A c + 1)" using assms(2) by (intro unat_of_nat32) linarith
    ultimately show ?thesis unfolding unat_eq_iff32 diff_diff_eq by (simp only:)
  qed
qed

text \<open>The transfers of tile \<open>n\<close>.\<close>

definition x_source :: "arch \<Rightarrow> nat \<Rightarrow> nat \<Rightarrow> nat \<Rightarrow> nat" where
  "x_source A t c n = (if mesh_x A c = 0 then west A (mesh_y A c) + n * t
     else unat (ARCH_CLUSTER_TCDM_REMOTE A) + ((c - 1) * unat (ARCH_CLUSTER_TCDM_SIZE A) + xo t n))"

definition w_source :: "arch \<Rightarrow> nat \<Rightarrow> nat \<Rightarrow> nat \<Rightarrow> nat" where
  "w_source A t c n = (if mesh_y A c = 0 then south A (mesh_x A c) + n * t
     else unat (ARCH_CLUSTER_TCDM_REMOTE A) +
       ((c - unat (ARCH_NUM_CLUSTER_X A)) * unat (ARCH_CLUSTER_TCDM_SIZE A) + wo t n))"

lemma tile_offset:
  assumes "cluster_info_ok A j c L z t" and "0 < t" and "n < z * L" and "unat n' = n"
  shows "n * t < z * L * t" "unat (n' * tile_size_byte_X j) = n * t" "unat (n' * tile_size_byte_W j) = n * t"
proof -
  show lt: "n * t < z * L * t" using assms(2,3) by simp
  have "z * L * t < 4294967296" "unat (tile_size_byte_X j) = t" "unat (tile_size_byte_W j) = t"
    using assms(1) by (simp_all add: cluster_info_ok_def)
  moreover have "n * t < 4294967296" using lt calculation(1) by linarith
  ultimately show "unat (n' * tile_size_byte_X j) = n * t" "unat (n' * tile_size_byte_W j) = n * t"
    using assms(4) by (subst unat_mult32; simp)+
qed

lemma load_requests:
  assumes ok: "flow_ok A info L Z t" and c: "c < clusters A" and n: "n < Z c * L"
  shows "requests A info c (lag A c + sched L n) =
    [(unat (ARCH_CLUSTER_TCDM_BASE A) + xo t n, x_source A t c n, t),
     (unat (ARCH_CLUSTER_TCDM_BASE A) + wo t n, w_source A t c n, t)]"
proof -
  note f = flowD [OF ok c]
  let ?j = "info c" and ?e = "sched L n" and ?i = "lag A c + sched L n" and ?p = "get_pos A (of_nat c)"
  have e: "?e < Z c * (L + 1)" using n sched_bound [OF f(3)] by blast
  have b: "Z c * (L + 1) + lag A c + 2 < 4294967296" "unat (XW_tile_length ?j) = L"
    "unat (tile_size_byte_X ?j) = t" "unat (tile_size_byte_W ?j) = t"
    "south A (unat (ARCH_NUM_CLUSTER_X A)) + Z c * L * t < 4294967296" using f(6) by (simp_all add: cluster_info_ok_def)
  have i: "?i < 4294967296" using b e by linarith
  have L: "L + 1 < 4294967296"
  proof -
    have "0 < Z c" using n by (cases "Z c") simp_all
    then have "L + 1 \<le> Z c * (L + 1)" by (cases "Z c") simp_all
    then show ?thesis using b(1) by linarith
  qed
  note ph = phase_nat [OF f(6) i]
  have ph': "in_stream ?j (of_nat ?i)" "\<not> at_final_store ?j (of_nat ?i)" "of_nat ?i - systolic_delay ?j = of_nat ?e"
    using ph(1-3) e by (simp_all del: of_nat_add)
  have "?e < 4294967296" using e b(1) by linarith
  from eff_xw_nat [OF b(2) L this] obtain s st n' where
    x: "eff_xw ?j (of_nat ?e) = (s, st, n')" "unat s = ?e mod (L + 1)" "s \<noteq> 1 \<longrightarrow> tile_at L ?e = Some (unat n')" by blast
  have s: "s \<noteq> 1" using sched_parts(2,3) [OF f(3), of n] x(2) by (auto simp: unat_eq_iff32)
  then have n': "unat n' = n" using x(3) tile_at_sched [OF f(3), of n] by simp
  note o' = buffer_nat [OF f(6) n'] and t = tile_offset [OF f(6) f(4) n n']
  note bb = buffer_bound [OF f(4,5), of n]
  have l: "unat (local_addr A (local_x ?j n')) = unat (ARCH_CLUSTER_TCDM_BASE A) + xo t n"
    "unat (local_addr A (local_w ?j n')) = unat (ARCH_CLUSTER_TCDM_BASE A) + wo t n"
    using local_nat [OF f(1), of "local_x ?j n'"] local_nat [OF f(1), of "local_w ?j n'"] o' bb by simp_all
  note p = pos_nat [OF f(2) c] and ed = edge_nat [OF f(2) c]
  have st: "west A (mesh_y A c) + n * t < 4294967296" "south A (mesh_x A c) + n * t < 4294967296"
    using stream_nat [OF f(2) p(3,4)] t(1) b(5) by linarith+
  define xsrc where "xsrc = (if pos_x ?p = 0 then ucast (hbm_west A (pos_y ?p) 0 + ucast (n' * tile_size_byte_X ?j))
      else remote_pos A (left_pos A ?p) (local_x ?j n'))"
  define wsrc where "wsrc = (if pos_y ?p = 0 then ucast (hbm_south A (pos_x ?p) 0 + ucast (n' * tile_size_byte_W ?j))
      else remote_pos A (bottom_pos A ?p) (local_w ?j n'))"
  have xs: "unat xsrc = x_source A t c n"
  proof (cases "mesh_x A c = 0")
    case True
    then show ?thesis using p(1) hbm_stream [of "hbm_west A (pos_y ?p) 0" "n' * tile_size_byte_X ?j"] ed t st
      by (simp add: x_source_def unat_eq_iff32 xsrc_def)
  next
    case False
    then show ?thesis using p(1) left_nat [OF f(2) c] remote_nat [OF f(2) left_nat(3) [OF f(2) c], of "local_x ?j n'"] o' bb
      by (simp add: x_source_def unat_eq_iff32 xsrc_def)
  qed
  have ws: "unat wsrc = w_source A t c n"
  proof (cases "mesh_y A c = 0")
    case True
    then show ?thesis using p(2) hbm_stream [of "hbm_south A (pos_x ?p) 0" "n' * tile_size_byte_W ?j"] ed t st
      by (simp add: w_source_def unat_eq_iff32 wsrc_def)
  next
    case False
    then show ?thesis using p(2) bottom_nat [OF f(2) c] remote_nat [OF f(2) bottom_nat(3) [OF f(2) c], of "local_w ?j n'"] o' bb
      by (simp add: w_source_def unat_eq_iff32 wsrc_def)
  qed
  have "stream_actions A ?p (clear_dma ?j) (of_nat ?i) = (clear_dma ?j)
      \<lparr>use_dma1 := True, use_dma2 := True, dma1_size := tile_size_byte_X ?j, dma2_size := tile_size_byte_W ?j,
       dma1_dst := local_addr A (local_x ?j n'), dma1_src := xsrc,
       dma2_dst := local_addr A (local_w ?j n'), dma2_src := wsrc\<rparr>"
    unfolding stream_actions_def clear_dma_sel ph'(3) x(1) Let_def prod.case if_not_P [OF s] xsrc_def wsrc_def ..
  then show ?thesis
    unfolding requests_def access_stream [OF ph'(1,2)] Let_def by (simp add: l xs ws b)
qed

text \<open>The other transfers do not reach the buffers of X and W.\<close>

lemma other_requests:
  assumes ok: "flow_ok A info L Z t" and c: "c < clusters A" and i: "i < 4294967296"
    and n: "\<forall>n < Z c * L. i \<noteq> lag A c + sched L n" and r: "(d, s, k) \<in> set (requests A info c i)"
  shows "in_output A (info c) c (Z c) d k \<or> d = unat (ARCH_CLUSTER_TCDM_BASE A) + 4 * t"
proof -
  note f = flowD [OF ok c]
  let ?j = "info c" and ?p = "get_pos A (of_nat c)"
  have b: "Z c * (L + 1) + lag A c + 2 < 4294967296" "unat (XW_tile_length ?j) = L" "unat (Y_offset ?j) = 4 * t" "0 < Z c"
    using f(6) by (simp_all add: cluster_info_ok_def)
  have st: "in_output A ?j c (Z c) (unat (store_addr A ?p ?j st)) (unat (tile_size_byte_Y ?j))" if "0 < unat st" "unat st \<le> Z c" for st
    using f(6) that by (auto simp: cluster_info_ok_def dest: spec [of _ "unat st"])
  have y: "unat (local_addr A (Y_offset ?j)) = unat (ARCH_CLUSTER_TCDM_BASE A) + 4 * t"
    using local_nat [OF f(1), of "Y_offset ?j"] b(3) f(5) by simp
  note ph = phase_nat [OF f(6) i]
  have L: "L + 1 < 4294967296"
  proof -
    have "L + 1 \<le> Z c * (L + 1)" using b(4) by (cases "Z c") simp_all
    then show ?thesis using b(1) by linarith
  qed
  consider (stream) "in_stream ?j (of_nat i)" "\<not> at_final_store ?j (of_nat i)" | (final) "\<not> in_stream ?j (of_nat i)" "at_final_store ?j (of_nat i)"
    | (none) "\<not> in_stream ?j (of_nat i)" "\<not> at_final_store ?j (of_nat i)"
    using ph(1,2) by linarith
  then show ?thesis
  proof cases
    case none
    then show ?thesis using r unfolding requests_def gemm_systolic_wise_compute_dma_access_def Let_def clear_dma_sel by simp
  next
    case final
    then have e: "i = Z c * (L + 1) + lag A c + 1" using ph(2) by blast
    then have d: "of_nat i - systolic_delay ?j = of_nat (Z c * (L + 1) + 1)" using ph(3) by simp
    have "unat (of_nat (Z c * (L + 1) + 1) div (XW_tile_length ?j + 1)) = (Z c * (L + 1) + 1) div (L + 1)"
      using b L by (simp add: unat_div unat_of_nat32 unat_add32 del: of_nat_add of_nat_mult)
    moreover have "(Z c * (L + 1) + 1) div (L + 1) = Z c" using row_col [of 1 "L + 1" "Z c"] f(3) by simp
    ultimately show ?thesis
      using r final st [of "of_nat (Z c * (L + 1) + 1) div (XW_tile_length ?j + 1)"] b(4)
      unfolding requests_def gemm_systolic_wise_compute_dma_access_def Let_def clear_dma_sel
      by (simp add: final_actions_def d del: of_nat_add of_nat_mult of_nat_Suc)
  next
    case stream
    define e where "e = i - lag A c"
    have e: "i = lag A c + e" "e < Z c * (L + 1)" using stream(1) ph(1) unfolding e_def by linarith+
    have "e < 4294967296" using e(2) b(1) by linarith
    from eff_xw_nat [OF b(2) L this] obtain s' st' n' where
      x: "eff_xw ?j (of_nat e) = (s', st', n')" "unat st' = e div (L + 1)" "s' \<noteq> 1 \<longrightarrow> tile_at L e = Some (unat n')" by blast
    have s': "s' = 1"
    proof (rule ccontr)
      assume "s' \<noteq> 1"
      then have "e = sched L (unat n')" using x(3) tile_at_eq [OF f(3)] by blast
      then show False using n e sched_bound [OF f(3)] by blast
    qed
    have le: "unat st' \<le> Z c" using e(2) unfolding x(2) by (simp add: less_mult_imp_div_less less_imp_le)
    have d: "of_nat i - systolic_delay ?j = of_nat e" using ph(1,3) stream(1) unfolding e_def by blast
    have acts: "stream_actions A ?p (clear_dma ?j) (of_nat i) = (if st' \<noteq> 0 then (clear_dma ?j)
        \<lparr>use_sync_dma := True, use_dma1 := True, dma1_dst := store_addr A ?p ?j st',
         dma1_src := local_addr A (Y_offset ?j), dma1_size := tile_size_byte_Y ?j,
         use_dma2 := True, dma2_dst := local_addr A (Y_offset ?j), dma2_src := zomem A 0,
         dma2_size := tile_size_byte_Y ?j\<rparr> else clear_dma ?j)"
      unfolding stream_actions_def clear_dma_sel d x(1) s' Let_def prod.case if_P [OF refl] ..
    have r': "(d, s, k) \<in> set (let j = stream_actions A ?p (clear_dma ?j) (of_nat i) in
      (if use_dma1 j then [(unat (dma1_dst j), unat (dma1_src j), unat (dma1_size j))] else []) @
      (if use_dma2 j then [(unat (dma2_dst j), unat (dma2_src j), unat (dma2_size j))] else []))"
      using r unfolding requests_def access_stream [OF stream] .
    show ?thesis
    proof (cases "st' = 0")
      case True
      then show ?thesis using r' unfolding acts by simp
    next
      case False
      then have "0 < unat st'" by (simp add: unat_gt_0)
      then show ?thesis using r' st [OF _ le] y False unfolding acts by (auto simp: Let_def)
    qed
  qed
qed

text \<open>The engine runs one iteration behind.\<close>

lemma engine_nat:
  assumes ok: "flow_ok A info L Z t" and c: "c < clusters A" and i: "i < 4294967296"
  shows "engine info c i =
    (if lag A c + 1 \<le> i \<and> i < Z c * (L + 1) + lag A c + 1 then
       (case tile_at L (i - (lag A c + 1)) of None \<Rightarrow> None | Some n \<Rightarrow> Some (xo t n, wo t n, 4 * t)) else None)"
proof -
  note f = flowD [OF ok c]
  let ?j = "info c"
  have b: "Z c * (L + 1) + lag A c + 2 < 4294967296" "unat (XW_tile_length ?j) = L" "unat (Y_offset ?j) = 4 * t" "0 < Z c"
    using f(6) by (simp_all add: cluster_info_ok_def)
  have L: "L + 1 < 4294967296"
  proof -
    have "L + 1 \<le> Z c * (L + 1)" using b(4) by (cases "Z c") simp_all
    then show ?thesis using b(1) by linarith
  qed
  note ph = phase_nat [OF f(6) i]
  let ?k = "?j\<lparr>use_redmule := False\<rparr>"
  have k: "systolic_delay ?k = systolic_delay ?j" "Z_tile_all ?k = Z_tile_all ?j" "XW_tile_length ?k = XW_tile_length ?j"
    "eff_xw ?k e = eff_xw ?j e" "local_x ?k n = local_x ?j n" "local_w ?k n = local_w ?j n" "Y_offset ?k = Y_offset ?j" for e n
    by (simp_all add: eff_xw_def local_x_def local_w_def Let_def)
  show ?thesis
  proof (cases "lag A c + 1 \<le> i \<and> i < Z c * (L + 1) + lag A c + 1")
    case False
    show ?thesis
      unfolding engine_def gemm_systolic_wise_compute_redmule_action_def Let_def k ph(4) if_not_P [OF False] by simp
  next
    case True
    let ?e = "i - (lag A c + 1)"
    have "?e < 4294967296" using i by linarith
    from eff_xw_nat [OF b(2) L this] obtain s st n' where
      x: "eff_xw ?j (of_nat ?e) = (s, st, n')" "unat s = ?e mod (L + 1)" "s \<noteq> 1 \<longrightarrow> tile_at L ?e = Some (unat n')" by blast
    have d: "of_nat i - systolic_delay ?j - 1 = of_nat ?e" using ph(5) True by blast
    have s: "s = 1 \<longleftrightarrow> tile_at L ?e = None" using x(2) by (simp add: tile_at_def Let_def unat_eq_iff32)
    show ?thesis
      using True x(1,3) s buffer_nat [OF f(6) refl, of n'] b(3)
      unfolding engine_def gemm_systolic_wise_compute_redmule_action_def Let_def k ph(4) d x(1) prod.case
      by (cases "s = 1") simp_all
  qed
qed

lemma engine_operands:
  assumes ok: "flow_ok A info L Z t" and c: "c < clusters A" and i: "i < 4294967296"
    and e: "engine info c i = Some (x, w, y)"
  shows "\<exists>n < Z c * L. i = lag A c + 1 + sched L n \<and> x = xo t n \<and> w = wo t n \<and> y = 4 * t"
proof -
  note L = flowD(3) [OF ok c]
  have r: "lag A c + 1 \<le> i" "i < Z c * (L + 1) + lag A c + 1"
    and "(case tile_at L (i - (lag A c + 1)) of None \<Rightarrow> None | Some n \<Rightarrow> Some (xo t n, wo t n, 4 * t)) = Some (x, w, y)"
    using e unfolding engine_nat [OF ok c i] by (simp_all split: if_splits)
  then obtain n where n: "tile_at L (i - (lag A c + 1)) = Some n" "x = xo t n" "w = wo t n" "y = 4 * t"
    by (auto split: option.splits)
  then have s: "i - (lag A c + 1) = sched L n" using tile_at_eq [OF L] by blast
  then have "sched L n < Z c * (L + 1)" using r by linarith
  then have "n < Z c * L" using sched_bound [OF L] by blast
  moreover have "i = lag A c + 1 + sched L n" using s r(1) by linarith
  ultimately show ?thesis using n by blast
qed

lemma iteration_bound:
  assumes "flow_ok A info L Z t" and "c < clusters A" and "n < Z c * L"
  shows "lag A c + sched L n + 2 < 4294967296"
proof -
  note f = flowD [OF assms(1,2)]
  have "sched L n < Z c * (L + 1)" using assms(3) sched_bound [OF f(3)] by blast
  then show ?thesis using f(6) unfolding cluster_info_ok_def by linarith
qed

lemma engine_runs:
  assumes ok: "flow_ok A info L Z t" and c: "c < clusters A" and n: "n < Z c * L"
  shows "engine info c (lag A c + 1 + sched L n) = Some (xo t n, wo t n, 4 * t)"
proof -
  note L = flowD(3) [OF ok c]
  have "lag A c + 1 + sched L n < 4294967296" using iteration_bound [OF assms] by linarith
  note e = engine_nat [OF ok c this]
  have "sched L n < Z c * (L + 1)" using n sched_bound [OF L] by blast
  then show ?thesis unfolding e by (simp add: tile_at_sched [OF L])
qed

end
