(* ===== verification/App_Systolic_Flow.thy ===== *)
theory App_Systolic_Flow
  imports App_Systolic_Props
begin

text \<open>
  The tiles on their way through the mesh: the memories of the clusters and HBM as bytes, one iteration between
  two barriers as all its transfers at once, reading what was there before it.
\<close>

subsection \<open>Memory\<close>

text \<open>L1 of every cluster, by offset, and HBM, by address; a cluster sees its own L1, those of the others, HBM, and
  zeros.\<close>

type_synonym chip = "(nat \<Rightarrow> nat \<Rightarrow> u8) \<times> (nat \<Rightarrow> u8)"

definition fetch :: "arch \<Rightarrow> nat \<Rightarrow> chip \<Rightarrow> nat \<Rightarrow> u8" where
  "fetch A c m a =
     (let b = unat (ARCH_CLUSTER_TCDM_BASE A); z = unat (ARCH_CLUSTER_TCDM_SIZE A); r = unat (ARCH_CLUSTER_TCDM_REMOTE A) in
      if b \<le> a \<and> a < b + z then fst m c (a - b)
      else if r \<le> a \<and> a < r + clusters A * z then fst m ((a - r) div z) ((a - r) mod z)
      else if unat (ARCH_HBM_START_BASE A) \<le> a then snd m a else 0)"

text \<open>Does a transfer write this offset of the L1 of its cluster?\<close>

definition hits :: "arch \<Rightarrow> nat \<times> nat \<times> nat \<Rightarrow> nat \<Rightarrow> bool" where
  "hits A q o' = (case q of (d, s, k) \<Rightarrow>
     d \<le> unat (ARCH_CLUSTER_TCDM_BASE A) + o' \<and> unat (ARCH_CLUSTER_TCDM_BASE A) + o' < d + k)"

definition l1_after :: "arch \<Rightarrow> chip \<Rightarrow> nat \<Rightarrow> (nat \<times> nat \<times> nat) list \<Rightarrow> nat \<Rightarrow> u8" where
  "l1_after A m c qs o' = fold (\<lambda>(d, s, k) v.
     if hits A (d, s, k) o' then fetch A c m (s + (unat (ARCH_CLUSTER_TCDM_BASE A) + o' - d)) else v) qs (fst m c o')"

definition hbm_after :: "arch \<Rightarrow> chip \<Rightarrow> (nat \<Rightarrow> (nat \<times> nat \<times> nat) list) \<Rightarrow> nat \<Rightarrow> u8" where
  "hbm_after A m qs a = fold (\<lambda>c. fold (\<lambda>(d, s, k) v.
     if unat (ARCH_HBM_START_BASE A) \<le> d \<and> d \<le> a \<and> a < d + k then fetch A c m (s + (a - d)) else v) (qs c))
     [0 ..< clusters A] (snd m a)"

definition iteration :: "arch \<Rightarrow> (nat \<Rightarrow> GemmSystolicInfo) \<Rightarrow> nat \<Rightarrow> chip \<Rightarrow> chip" where
  "iteration A info i m =
     (\<lambda>c. if c < clusters A then (\<lambda>o'. if o' < unat (ARCH_CLUSTER_TCDM_SIZE A)
        then l1_after A m c (requests A info c i) o' else fst m c o') else fst m c,
      hbm_after A m (\<lambda>c. requests A info c i))"

primrec chip_run :: "arch \<Rightarrow> (nat \<Rightarrow> GemmSystolicInfo) \<Rightarrow> chip \<Rightarrow> nat \<Rightarrow> chip" where
  "chip_run A info m 0 = m"
| "chip_run A info m (Suc i) = iteration A info i (chip_run A info m i)"

subsection \<open>One iteration\<close>

lemma fetch_remote:
  assumes "map_ok A" and "c' < clusters A" and "o' < unat (ARCH_CLUSTER_TCDM_SIZE A)"
  shows "fetch A c m (unat (ARCH_CLUSTER_TCDM_REMOTE A) + (c' * unat (ARCH_CLUSTER_TCDM_SIZE A) + o')) = fst m c' o'"
proof -
  let ?b = "unat (ARCH_CLUSTER_TCDM_BASE A)" and ?z = "unat (ARCH_CLUSTER_TCDM_SIZE A)" and ?r = "unat (ARCH_CLUSTER_TCDM_REMOTE A)"
  have "?b + ?z \<le> ?r" using assms(1) by (simp add: map_ok_def)
  moreover have "c' * ?z + o' < clusters A * ?z" using mesh_index_less [OF assms(3,2)] by (simp add: mult.commute)
  ultimately show ?thesis using row_col [OF assms(3), of c'] by (simp add: fetch_def Let_def)
qed

lemma fetch_hbm:
  assumes "map_ok A" and "unat (ARCH_HBM_START_BASE A) \<le> a"
  shows "fetch A c m a = snd m a"
  using assms by (auto simp: fetch_def Let_def map_ok_def)

lemma hits_buffer:
  "hits A (unat (ARCH_CLUSTER_TCDM_BASE A) + p, s, k) o' \<longleftrightarrow> p \<le> o' \<and> o' < p + k"
  by (simp add: hits_def)

lemma l1_miss: "(\<And>d s k. (d, s, k) \<in> set qs \<Longrightarrow> \<not> hits A (d, s, k) o') \<Longrightarrow> l1_after A m c qs o' = fst m c o'"
  unfolding l1_after_def by (rule fold_invariant [where Q = "\<lambda>q. \<forall>d s k. q = (d, s, k) \<longrightarrow> \<not> hits A (d, s, k) o'"]) auto

text \<open>The buffers of tiles of different parity, and of X and W, do not meet.\<close>

lemma buffers_apart:
  assumes "0 < t" and "k < t"
  shows "xo t n \<le> xo t m + k \<and> xo t m + k < xo t n + t \<longleftrightarrow> even n = even m"
    "wo t n \<le> wo t m + k \<and> wo t m + k < wo t n + t \<longleftrightarrow> even n = even m"
    "\<not> (wo t n \<le> xo t m + k \<and> xo t m + k < wo t n + t)" "\<not> (xo t n \<le> wo t m + k \<and> wo t m + k < xo t n + t)"
  using assms by (auto simp: xo_def wo_def)

lemma buffers_below: "k < t \<Longrightarrow> \<not> 4 * t \<le> xo t m + k" "k < t \<Longrightarrow> \<not> 4 * t \<le> wo t m + k"
  by (auto simp: xo_def wo_def)

lemma buffer_in: "0 < t \<Longrightarrow> 4 * t < z \<Longrightarrow> k < t \<Longrightarrow> xo t m + k < z \<and> wo t m + k < z"
  by (auto simp: xo_def wo_def)

text \<open>An iteration that loads tile \<open>n\<close>.\<close>

lemma iteration_load:
  assumes ok: "flow_ok A info L Z t" and c: "c < clusters A" and n: "n < Z c * L" and k: "k < t"
  shows "fst (iteration A info (lag A c + sched L n) m) c (xo t n + k) = fetch A c m (x_source A t c n + k)"
    "fst (iteration A info (lag A c + sched L n) m) c (wo t n + k) = fetch A c m (w_source A t c n + k)"
proof -
  note f = flowD [OF ok c]
  note b = buffer_in [OF f(4,5) k, of n]
  show "fst (iteration A info (lag A c + sched L n) m) c (xo t n + k) = fetch A c m (x_source A t c n + k)"
    "fst (iteration A info (lag A c + sched L n) m) c (wo t n + k) = fetch A c m (w_source A t c n + k)"
    using b c buffers_apart [OF f(4) k, of n n] k
    by (auto simp: iteration_def load_requests [OF ok c n] l1_after_def hits_buffer)
qed

lemma hbm_below: "unat (ARCH_HBM_START_BASE A) \<le> west A y" "unat (ARCH_HBM_START_BASE A) \<le> south A x"
  by (simp_all add: west_def south_def hbm_node_def)

lemma output_hbm: "in_output A j c z d k \<Longrightarrow> unat (ARCH_HBM_START_BASE A) \<le> d"
  using hbm_below(2) [of A "mesh_x A c"] by (simp add: in_output_def out_base_def)

text \<open>An iteration that does not load into a buffer leaves it.\<close>

lemma iteration_keep:
  assumes ok: "flow_ok A info L Z t" and c: "c < clusters A" and k: "k < t" and i: "i < 4294967296"
    and n: "\<forall>n < Z c * L. i = lag A c + sched L n \<longrightarrow> even n \<noteq> even m"
  shows "fst (iteration A info i mem) c (xo t m + k) = fst mem c (xo t m + k)"
    "fst (iteration A info i mem) c (wo t m + k) = fst mem c (wo t m + k)"
proof -
  note f = flowD [OF ok c]
  note b = buffer_in [OF f(4,5) k, of m]
  have hb: "unat (ARCH_CLUSTER_TCDM_BASE A) + unat (ARCH_CLUSTER_TCDM_SIZE A) \<le> unat (ARCH_HBM_START_BASE A)"
    using f(1) by (simp add: map_ok_def) 
  have "\<not> hits A (d, s, l) (xo t m + k) \<and> \<not> hits A (d, s, l) (wo t m + k)" if q: "(d, s, l) \<in> set (requests A info c i)" for d s l
  proof (cases "\<exists>n < Z c * L. i = lag A c + sched L n")
    case True
    then obtain n' where n': "n' < Z c * L" "i = lag A c + sched L n'" by blast
    then have "even n' \<noteq> even m" using n by blast
    then show ?thesis
      using q buffers_apart [OF f(4) k, of n' m] unfolding n'(2) load_requests [OF ok c n'(1)] by (auto simp: hits_buffer)
  next
    case False
    then have "unat (ARCH_HBM_START_BASE A) \<le> d \<or> d = unat (ARCH_CLUSTER_TCDM_BASE A) + 4 * t"
      using other_requests [OF ok c i _ q] output_hbm by blast
    then show ?thesis using b hb buffers_below [OF k, of m] by (auto simp: hits_def)
  qed
  then have "l1_after A mem c (requests A info c i) o' = fst mem c o'" if "o' = xo t m + k \<or> o' = wo t m + k" for o'
    using that by (intro l1_miss) blast
  then show "fst (iteration A info i mem) c (xo t m + k) = fst mem c (xo t m + k)"
    "fst (iteration A info i mem) c (wo t m + k) = fst mem c (wo t m + k)"
    by (simp_all add: iteration_def)
qed

text \<open>HBM is written in the areas of Z only.\<close>

definition untouched :: "arch \<Rightarrow> (nat \<Rightarrow> GemmSystolicInfo) \<Rightarrow> (nat \<Rightarrow> nat) \<Rightarrow> nat \<Rightarrow> bool" where
  "untouched A info Z a = (\<forall>c<clusters A. \<not> in_output A (info c) c (Z c) a 1)"

lemma hbm_miss:
  assumes "\<forall>c<clusters A. \<forall>d s k. (d, s, k) \<in> set (qs c) \<longrightarrow> \<not> (unat (ARCH_HBM_START_BASE A) \<le> d \<and> d \<le> a \<and> a < d + k)"
  shows "hbm_after A m qs a = snd m a"
proof -
  have inner: "fold (\<lambda>(d, s, k) v. if unat (ARCH_HBM_START_BASE A) \<le> d \<and> d \<le> a \<and> a < d + k then fetch A c m (s + (a - d)) else v)
      (qs c) v = v" if "c < clusters A" for c v
    by (rule fold_invariant [where Q = "\<lambda>(d, s, k). \<not> (unat (ARCH_HBM_START_BASE A) \<le> d \<and> d \<le> a \<and> a < d + k)"])
      (use assms that in \<open>auto split: prod.splits\<close>)
  show ?thesis
    unfolding hbm_after_def
    by (rule fold_invariant [where Q = "\<lambda>c. c < clusters A"]) (auto simp: inner)
qed

lemma iteration_hbm:
  assumes ok: "flow_ok A info L Z t" and i: "i < 4294967296" and a: "untouched A info Z a" "unat (ARCH_HBM_START_BASE A) \<le> a"
  shows "snd (iteration A info i m) a = snd m a"
proof -
  have "\<not> (unat (ARCH_HBM_START_BASE A) \<le> d \<and> d \<le> a \<and> a < d + k)"
    if c: "c < clusters A" and q: "(d, s, k) \<in> set (requests A info c i)" for c d s k
  proof (cases "\<exists>n < Z c * L. i = lag A c + sched L n")
    case True
    note f = flowD [OF ok c]
    obtain n where n: "n < Z c * L" "i = lag A c + sched L n" using True by blast
    then have "d = unat (ARCH_CLUSTER_TCDM_BASE A) + xo t n \<or> d = unat (ARCH_CLUSTER_TCDM_BASE A) + wo t n"
      using q unfolding n(2) load_requests [OF ok c n(1)] by auto
    then have "d < unat (ARCH_CLUSTER_TCDM_BASE A) + unat (ARCH_CLUSTER_TCDM_SIZE A)" using buffer_bound [OF f(4,5)] by auto
    then show ?thesis using f(1) unfolding map_ok_def by linarith
  next
    case False
    note f = flowD [OF ok c]
    have "\<not> in_output A (info c) c (Z c) a 1" using a(1) c by (simp add: untouched_def)
    moreover have "in_output A (info c) c (Z c) d k \<or> d = unat (ARCH_CLUSTER_TCDM_BASE A) + 4 * t"
      using other_requests [OF ok c i _ q] False by blast
    moreover have "unat (ARCH_CLUSTER_TCDM_BASE A) + 4 * t < unat (ARCH_HBM_START_BASE A)"
      using f(1,5) unfolding map_ok_def by linarith
    ultimately show ?thesis by (auto simp: in_output_def)
  qed
  then show ?thesis by (auto simp: iteration_def intro!: hbm_miss)
qed

lemma run_hbm:
  assumes "flow_ok A info L Z t" and "untouched A info Z a" and "unat (ARCH_HBM_START_BASE A) \<le> a"
  shows "i \<le> 4294967296 \<Longrightarrow> snd (chip_run A info m i) a = snd m a"
  by (induction i) (simp_all add: iteration_hbm [OF assms(1) _ assms(2,3)])

subsection \<open>The tiles on their way\<close>

lemma x_tiles_arrive:
  assumes ok: "flow_ok A info L Z t" and k: "k < t"
  shows "c < clusters A \<Longrightarrow> n < Z c * L \<Longrightarrow>
    fst (chip_run A info m (lag A c + sched L n + 1)) c (xo t n + k) =
      snd (chip_run A info m (mesh_y A c + sched L n)) (west A (mesh_y A c) + n * t + k)"
proof (induction "mesh_x A c" arbitrary: c)
  case 0
  note f = flowD [OF ok 0(2)]
  show ?case
    using iteration_load(1) [OF ok 0(2,3) k, of "chip_run A info m (lag A c + sched L n)"] hbm_below(1) [of A "mesh_y A c"] 0(1)
    by (simp add: x_source_def fetch_hbm [OF f(1)])
next
  case (Suc x)
  note f = flowD [OF ok Suc(3)]
  have x: "0 < mesh_x A c" using Suc(2) by simp
  note l = left_nat [OF f(2) Suc(3) x]
  have "n < Z (c - 1) * L" using Suc(4) f(7) [OF x] by (meson mult_le_mono1 order_less_le_trans)
  moreover have "x = mesh_x A (c - 1)" using Suc(2) l(1) by linarith
  moreover have "lag A (c - 1) + sched L n + 1 = lag A c + sched L n" using l x by linarith
  ultimately have ih: "fst (chip_run A info m (lag A c + sched L n)) (c - 1) (xo t n + k) =
      snd (chip_run A info m (mesh_y A c + sched L n)) (west A (mesh_y A c) + n * t + k)"
    using Suc(1) [of "c - 1"] l(2,3) by (simp only:)
  have "xo t n + k < unat (ARCH_CLUSTER_TCDM_SIZE A)" using buffer_in [OF f(4,5) k] by blast
  then have "fetch A c (chip_run A info m (lag A c + sched L n)) (x_source A t c n + k) =
      fst (chip_run A info m (lag A c + sched L n)) (c - 1) (xo t n + k)"
    using fetch_remote [OF f(1) l(3), of "xo t n + k"] x by (simp add: x_source_def add.assoc)
  then show ?case
    using iteration_load(1) [OF ok Suc(3,4) k, of "chip_run A info m (lag A c + sched L n)"] ih by simp
qed

lemma w_tiles_arrive:
  assumes ok: "flow_ok A info L Z t" and k: "k < t"
  shows "c < clusters A \<Longrightarrow> n < Z c * L \<Longrightarrow>
    fst (chip_run A info m (lag A c + sched L n + 1)) c (wo t n + k) =
      snd (chip_run A info m (mesh_x A c + sched L n)) (south A (mesh_x A c) + n * t + k)"
proof (induction "mesh_y A c" arbitrary: c)
  case 0
  note f = flowD [OF ok 0(2)]
  show ?case
    using iteration_load(2) [OF ok 0(2,3) k, of "chip_run A info m (lag A c + sched L n)"] hbm_below(2) [of A "mesh_x A c"] 0(1)
    by (simp add: w_source_def fetch_hbm [OF f(1)])
next
  case (Suc y)
  let ?d = "c - unat (ARCH_NUM_CLUSTER_X A)"
  note f = flowD [OF ok Suc(3)]
  have y: "0 < mesh_y A c" using Suc(2) by simp
  note b = bottom_nat [OF f(2) Suc(3) y]
  have "n < Z ?d * L" using Suc(4) f(8) [OF y] by (meson mult_le_mono1 order_less_le_trans)
  moreover have "y = mesh_y A ?d" using Suc(2) b(2) by linarith
  moreover have "lag A ?d + sched L n + 1 = lag A c + sched L n" using b y by linarith
  ultimately have ih: "fst (chip_run A info m (lag A c + sched L n)) ?d (wo t n + k) =
      snd (chip_run A info m (mesh_x A c + sched L n)) (south A (mesh_x A c) + n * t + k)"
    using Suc(1) [of ?d] b(1,3) by (simp only:)
  have "wo t n + k < unat (ARCH_CLUSTER_TCDM_SIZE A)" using buffer_in [OF f(4,5) k] by blast
  then have "fetch A c (chip_run A info m (lag A c + sched L n)) (w_source A t c n + k) =
      fst (chip_run A info m (lag A c + sched L n)) ?d (wo t n + k)"
    using fetch_remote [OF f(1) b(3), of "wo t n + k"] y by (simp add: w_source_def add.assoc)
  then show ?case
    using iteration_load(2) [OF ok Suc(3,4) k, of "chip_run A info m (lag A c + sched L n)"] ih by simp
qed

text \<open>The neighbour's buffer that a load reads is not written in the same iteration, so that it does not matter in
  which order the transfers of the clusters in an iteration are done.\<close>

lemma neighbour_kept:
  assumes ok: "flow_ok A info L Z t" and c: "c < clusters A" and n: "n < Z c * L" and k: "k < t" and d: "d < clusters A"
    and lag: "lag A c = lag A d + 1"
  shows "fst (iteration A info (lag A c + sched L n) m) d (xo t n + k) = fst m d (xo t n + k)"
    "fst (iteration A info (lag A c + sched L n) m) d (wo t n + k) = fst m d (wo t n + k)"
proof -
  note f = flowD [OF ok c]
  have "sched L n < Z c * (L + 1)" using n sched_bound [OF f(3)] by blast
  then have i: "lag A c + sched L n < 4294967296" using f(6) unfolding cluster_info_ok_def by linarith
  have "even n' \<noteq> even n" if "lag A c + sched L n = lag A d + sched L n'" for n'
  proof -
    have e: "sched L n' = sched L n + 1" using that lag by linarith
    then have "n < n'" using sched_inject [OF f(3), of n n'] by linarith
    moreover have "n' < Suc (Suc n)"
      using e sched_Suc [OF f(3), of n] sched_Suc [OF f(3), of "Suc n"] sched_inject [OF f(3), of n' "Suc (Suc n)"] by linarith
    ultimately have "n' = Suc n" by linarith
    then show ?thesis by simp
  qed
  then show "fst (iteration A info (lag A c + sched L n) m) d (xo t n + k) = fst m d (xo t n + k)"
    "fst (iteration A info (lag A c + sched L n) m) d (wo t n + k) = fst m d (wo t n + k)"
    using iteration_keep [OF ok d k i] by blast+
qed

text \<open>When the engine is triggered its operands have just arrived, and the transfers of the iteration leave them.\<close>

lemma operands_arrived:
  assumes ok: "flow_ok A info L Z t" and c: "c < clusters A" and i: "i < 4294967295" and e: "engine info c i = Some (x, w, y)"
  shows "\<exists>n < Z c * L. i = lag A c + 1 + sched L n \<and> y = 4 * t \<and> (\<forall>k<t. \<forall>j\<in>{i, Suc i}.
    fst (chip_run A info m j) c (x + k) = snd (chip_run A info m (mesh_y A c + sched L n)) (west A (mesh_y A c) + n * t + k) \<and>
    fst (chip_run A info m j) c (w + k) = snd (chip_run A info m (mesh_x A c + sched L n)) (south A (mesh_x A c) + n * t + k))"
proof -
  note L = flowD(3) [OF ok c]
  have "i < 4294967296" using i by simp
  from engine_operands [OF ok c this e] obtain n where
    n: "n < Z c * L" "i = lag A c + 1 + sched L n" "x = xo t n" "w = wo t n" "y = 4 * t" by blast
  have "even n' \<noteq> even n" if "i = lag A c + sched L n'" for n'
  proof -
    have s: "sched L n' = sched L n + 1" using that n(2) by linarith
    have "sched L n < sched L (n + 1)" "sched L (n + 1) < sched L (n + 2)" using sched_mono [OF L] by simp_all
    then have "sched L n < sched L n'" "sched L n' < sched L (n + 2)" using s by linarith+
    then have "n < n'" "n' < n + 2" using sched_inject [OF L] by blast+
    then show ?thesis by (cases "n' = n + 1") simp_all
  qed
  then have other: "\<forall>n' < Z c * L. i = lag A c + sched L n' \<longrightarrow> even n' \<noteq> even n" by blast
  have i': "i = lag A c + sched L n + 1" using n(2) by simp
  have "fst (chip_run A info m j) c (x + k) = snd (chip_run A info m (mesh_y A c + sched L n)) (west A (mesh_y A c) + n * t + k) \<and>
    fst (chip_run A info m j) c (w + k) = snd (chip_run A info m (mesh_x A c + sched L n)) (south A (mesh_x A c) + n * t + k)"
    if k: "k < t" and j: "j \<in> {i, Suc i}" for k j
  proof -
    have "fst (chip_run A info m i) c (x + k) = snd (chip_run A info m (mesh_y A c + sched L n)) (west A (mesh_y A c) + n * t + k)"
      "fst (chip_run A info m i) c (w + k) = snd (chip_run A info m (mesh_x A c + sched L n)) (south A (mesh_x A c) + n * t + k)"
      unfolding i' n(3,4) by (rule x_tiles_arrive [OF ok k c n(1)]) (rule w_tiles_arrive [OF ok k c n(1)])
    moreover have "fst (chip_run A info m (Suc i)) c (x + k) = fst (chip_run A info m i) c (x + k)"
      "fst (chip_run A info m (Suc i)) c (w + k) = fst (chip_run A info m i) c (w + k)"
      unfolding chip_run.simps(2) n(3,4) using iteration_keep [OF ok c k _ other] i by simp_all
    ultimately show ?thesis using j by auto
  qed
  then show ?thesis using n by blast
qed

subsection \<open>The analysis\<close>

text \<open>How many tiles out of \<open>n\<close>, dealt to \<open>step\<close> clusters in turn, the one at \<open>pos\<close> gets.\<close>

definition share :: "nat \<Rightarrow> nat \<Rightarrow> nat \<Rightarrow> nat" where
  "share step pos n = (n + step - 1 - pos) div step"

lemma share_less:
  assumes "pos < step"
  shows "z < share step pos n \<longleftrightarrow> z * step + pos < n"
proof -
  have "z < share step pos n \<longleftrightarrow> Suc z \<le> share step pos n" by (rule Suc_le_eq [symmetric])
  also have "\<dots> \<longleftrightarrow> Suc z * step \<le> n + step - 1 - pos"
    unfolding share_def using assms by (intro less_eq_div_iff_mult_less_eq) simp
  also have "\<dots> \<longleftrightarrow> z * step + pos < n" using assms by auto
  finally show ?thesis .
qed

lemma share_step: "pos < step \<Longrightarrow> share step pos n * step + pos < n + step"
  unfolding share_def using div_times_less_eq_dividend [of "n + step - 1 - pos" step] by linarith

lemma share_antimono: "pos' \<le> pos \<Longrightarrow> share step pos n \<le> share step pos' n"
  unfolding share_def by (rule div_le_mono) simp

lemma unat_mult_add32:
  assumes "unat a * unat b + unat c < 4294967296"
  shows "unat (a * b + c :: u32) = unat a * unat b + unat c"
proof -
  have "unat (a * b) = unat a * unat b" using assms by (intro unat_mult32) linarith
  then show ?thesis using assms by (subst unat_add32) simp_all
qed

lemma count_tiles_share:
  assumes pos: "unat pos < unat step" and n: "unat n + unat step < 4294967296"
    and "unat z \<le> share (unat step) (unat pos) (unat n)"
  shows "\<exists>r. count_tiles step pos n z = Some r \<and> unat r = share (unat step) (unat pos) (unat n)"
  using assms(3)
proof (induction "share (unat step) (unat pos) (unat n) - unat z" arbitrary: z)
  case d: (0)
  then have z: "unat z = share (unat step) (unat pos) (unat n)" by linarith
  have "unat z * unat step + unat pos < unat n + unat step" unfolding z by (rule share_step [OF pos])
  then have "unat z * unat step + unat pos < 4294967296" using n by (rule order_less_trans)
  note e = unat_mult_add32 [OF this]
  have "\<not> unat z * unat step + unat pos < unat n" unfolding share_less [OF pos, symmetric] z by (rule less_irrefl)
  then have "\<not> z * step + pos < n" unfolding word_less_nat_alt e .
  then have "count_tiles step pos n z = Some z" by (subst count_tiles.simps) (rule if_not_P)
  then show ?case using z by blast
next
  case (Suc d)
  have lt: "unat z < share (unat step) (unat pos) (unat n)" using Suc(2) by linarith
  then have z: "unat z * unat step + unat pos < unat n" by (rule share_less [OF pos, THEN iffD1])
  then have "unat z * unat step + unat pos < 4294967296" using n by linarith
  note e = unat_mult_add32 [OF this]
  have "z * step + pos < n" using z unfolding word_less_nat_alt e .
  then have step: "count_tiles step pos n z = count_tiles step pos n (z + 1)" by (subst count_tiles.simps) (rule if_P)
  have "unat z * 1 \<le> unat z * unat step" using pos by (intro mult_le_mono2) linarith
  then have "unat z + 1 < 4294967296" using z n pos by linarith
  then have "unat (z + 1) = Suc (unat z)" by (subst unat_add32) simp_all
  then show ?case unfolding step using Suc(1) [of "z + 1"] Suc(2) lt by simp
qed

text \<open>The sizes for which the analysis gives a flow: tiles of X and W of the same size, four of them and a tile of Z
  in L1, at least one tile of Z for each cluster, everything within 32 bits.\<close>

definition tiles :: "u32 \<Rightarrow> u32 \<Rightarrow> nat" where
  "tiles n d = (unat n + unat d - 1) div unat d"

definition systolic_ok :: "arch \<Rightarrow> u32 \<Rightarrow> u32 \<Rightarrow> u32 \<Rightarrow> u32 \<Rightarrow> u32 \<Rightarrow> u32 \<Rightarrow> u32 \<Rightarrow> bool" where
  "systolic_ok A M N K e tM tN tK =
     (let X = unat (ARCH_NUM_CLUSTER_X A); Y = unat (ARCH_NUM_CLUSTER_Y A); L = tiles N tN;
          t = unat tM * unat tN * unat e; ty = unat tM * unat tK * unat e;
          z = (tiles K tK + X) div X * ((tiles M tM + Y) div Y)
      in map_ok A \<and> 0 < unat tM \<and> 0 < unat tN \<and> 0 < unat tK \<and> 0 < unat e \<and> unat tN * unat tK * unat e = t \<and>
         4 * t + ty < unat (ARCH_CLUSTER_TCDM_SIZE A) \<and>
         unat M + unat tM \<le> 4294967296 \<and> unat N + unat tN \<le> 4294967296 \<and> unat K + unat tK \<le> 4294967296 \<and>
         0 < L \<and> X \<le> tiles K tK \<and> Y \<le> tiles M tM \<and> tiles K tK + X < 4294967296 \<and> tiles M tM + Y < 4294967296 \<and>
         z * (L + 1) + X + Y + 2 < 4294967296 \<and>
         south A X + z * L * t < 4294967296 \<and>
         south A X + unat (N * K * e div ARCH_NUM_CLUSTER_X A) + (z + 1) * Y * ty < 4294967296)"

definition systolic_info :: "arch \<Rightarrow> u32 \<Rightarrow> u32 \<Rightarrow> u32 \<Rightarrow> u32 \<Rightarrow> u32 \<Rightarrow> u32 \<Rightarrow> u32 \<Rightarrow> nat \<Rightarrow> GemmSystolicInfo" where
  "systolic_info A M N K e tM tN tK c = the (gemm_systolic_wise_analysis A (of_nat c) M N K e tM tN tK)"

definition rounds :: "arch \<Rightarrow> u32 \<Rightarrow> u32 \<Rightarrow> u32 \<Rightarrow> u32 \<Rightarrow> nat \<Rightarrow> nat" where
  "rounds A M K tM tK c = share (unat (ARCH_NUM_CLUSTER_X A)) (mesh_x A c) (tiles K tK) *
     share (unat (ARCH_NUM_CLUSTER_Y A)) (mesh_y A c) (tiles M tM)"

lemma tile_count_nat:
  assumes "0 < unat d" and "unat n + unat d \<le> 4294967296"
  shows "unat ((n + d - 1) div d) = tiles n d"
proof -
  have "unat (d - 1) = unat d - 1" using assms(1) by (subst unat_sub32) simp_all
  then have "unat (n + (d - 1)) = unat n + (unat d - 1)" using assms by (subst unat_add32) simp_all
  then have "unat (n + d - 1) = unat n + unat d - 1" using assms(1) by (simp add: add_diff_eq)
  then show ?thesis by (simp add: tiles_def unat_div)
qed

lemma unat_mult3:
  assumes "unat a * unat b * unat d < 4294967296" and "0 < unat d"
  shows "unat (a * b * d :: u32) = unat a * unat b * unat d"
proof -
  have "unat a * unat b * 1 \<le> unat a * unat b * unat d" using assms(2) by (intro mult_le_mono2) linarith
  then have "unat (a * b) = unat a * unat b" using assms(1) by (intro unat_mult32) linarith
  then show ?thesis using assms(1) by (subst unat_mult32) simp_all
qed

lemma unat_scale: "unat (x :: u32) = t \<Longrightarrow> unat k * t < 4294967296 \<Longrightarrow> unat (k * x) = unat k * t"
  using unat_mult32 [of k x] by blast

lemma sum64:
  assumes "unat (h :: u64) + unat a + unat b + unat d < 4294967296"
  shows "unat (ucast (h + ucast (a :: u32) + ucast (b :: u32) + ucast (d :: u32)) :: u32) = unat h + unat a + unat b + unat d"
proof -
  have "unat (h + ucast a) = unat h + unat a" using assms by (subst unat_add_lem [THEN iffD1]) simp_all
  moreover from this have "unat (h + ucast a + ucast b) = unat h + unat a + unat b"
    using assms by (subst unat_add_lem [THEN iffD1]) simp_all
  moreover from this have "unat (h + ucast a + ucast b + ucast d) = unat h + unat a + unat b + unat d"
    using assms by (subst unat_add_lem [THEN iffD1]) simp_all
  ultimately show ?thesis using assms by (simp add: unsigned_ucast_eq take_bit_nat_eq_self)
qed

text \<open>The address of a tile of Z.\<close>

lemma store_addr_nat:
  assumes arch: "arch_ok A" and c: "c < clusters A" and ty: "unat (tile_size_byte_Y j) = ty" and st: "0 < st" "st \<le> z"
    and room: "south A (unat (ARCH_NUM_CLUSTER_X A)) + unat (matrix_N j * matrix_K j * elem_size j div ARCH_NUM_CLUSTER_X A) +
      (z + 1) * unat (ARCH_NUM_CLUSTER_Y A) * ty < 4294967296" and z: "z < 4294967296"
  shows "unat (store_addr A (get_pos A (of_nat c)) j (of_nat st)) = south A (mesh_x A c) +
    unat (matrix_N j * matrix_K j * elem_size j div ARCH_NUM_CLUSTER_X A) +
    ((st - 1) * unat (ARCH_NUM_CLUSTER_Y A) + mesh_y A c) * ty"
proof -
  let ?Y = "unat (ARCH_NUM_CLUSTER_Y A)" and ?p = "get_pos A (of_nat c)"
  let ?q = "matrix_N j * matrix_K j * elem_size j div ARCH_NUM_CLUSTER_X A"
  note p = pos_nat [OF arch c]
  have "unat (of_nat st :: u32) = st" using st z by (intro unat_of_nat32) linarith
  then have s: "unat (of_nat st - 1 :: u32) = st - 1" using st(1) by (subst unat_sub32) simp_all
  have "(st - 1) * ?Y + mesh_y A c \<le> z * ?Y"
  proof -
    have "(st - 1) * ?Y + mesh_y A c \<le> (st - 1) * ?Y + ?Y" using p(4) by simp
    also have "\<dots> = st * ?Y" using st(1) by (cases st) simp_all
    also have "\<dots> \<le> z * ?Y" using st(2) by (rule mult_le_mono1)
    finally show ?thesis .
  qed
  then have "((st - 1) * ?Y + mesh_y A c) * ty \<le> (z * ?Y) * ty" by (rule mult_le_mono1)
  also have "\<dots> \<le> (z + 1) * ?Y * ty" by simp
  finally have b: "((st - 1) * ?Y + mesh_y A c) * ty \<le> (z + 1) * ?Y * ty" .
  have south: "south A (mesh_x A c) \<le> south A (unat (ARCH_NUM_CLUSTER_X A))" by (rule stream_nat(2) [OF arch p(3,4)])
  have split: "((st - 1) * ?Y + mesh_y A c) * ty = (st - 1) * ?Y * ty + mesh_y A c * ty" by (rule distrib_right)
  have small: "south A (mesh_x A c) + unat ?q + (st - 1) * ?Y * ty + mesh_y A c * ty < 4294967296"
    using room b south unfolding split by linarith
  have y1: "unat ((of_nat st - 1) * ARCH_NUM_CLUSTER_Y A * tile_size_byte_Y j) = (st - 1) * ?Y * ty"
  proof (cases "ty = 0")
    case True
    then have "tile_size_byte_Y j = 0" using ty by (simp add: unat_eq_iff32)
    then show ?thesis using True by simp
  next
    case False
    then show ?thesis using unat_mult3 [of "of_nat st - 1" "ARCH_NUM_CLUSTER_Y A" "tile_size_byte_Y j"] small s ty by simp
  qed
  have y2: "unat (pos_y ?p * tile_size_byte_Y j) = mesh_y A c * ty"
    using small ty p(2) by (subst unat_mult32) simp_all
  show ?thesis
    unfolding store_addr_def split using sum64 [of "hbm_south A (pos_x ?p) 0" ?q] small y1 y2 edge_nat(2) [OF arch c]
    by (simp add: add.assoc)
qed

lemma rounds_le:
  "rounds A M K tM tK c \<le> (tiles K tK + unat (ARCH_NUM_CLUSTER_X A)) div unat (ARCH_NUM_CLUSTER_X A) *
    ((tiles M tM + unat (ARCH_NUM_CLUSTER_Y A)) div unat (ARCH_NUM_CLUSTER_Y A))"
  unfolding rounds_def share_def by (intro mult_le_mono div_le_mono) simp_all

lemma systolicD:
  assumes "systolic_ok A M N K e tM tN tK"
  defines "X \<equiv> unat (ARCH_NUM_CLUSTER_X A)" and "Y \<equiv> unat (ARCH_NUM_CLUSTER_Y A)" and "L \<equiv> tiles N tN"
    and "t \<equiv> unat tM * unat tN * unat e" and "ty \<equiv> unat tM * unat tK * unat e"
  defines "z \<equiv> (tiles K tK + X) div X * ((tiles M tM + Y) div Y)"
  shows "map_ok A" "arch_ok A" "0 < unat tM" "0 < unat tN" "0 < unat tK" "0 < unat e" "unat tN * unat tK * unat e = t"
    "4 * t + ty < unat (ARCH_CLUSTER_TCDM_SIZE A)" "0 < t"
    "unat M + unat tM \<le> 4294967296" "unat N + unat tN \<le> 4294967296" "unat K + unat tK \<le> 4294967296"
    "0 < L" "X \<le> tiles K tK" "Y \<le> tiles M tM" "tiles K tK + X < 4294967296" "tiles M tM + Y < 4294967296"
    "z * (L + 1) + X + Y + 2 < 4294967296" "south A X + z * L * t < 4294967296"
    "south A X + unat (N * K * e div ARCH_NUM_CLUSTER_X A) + (z + 1) * Y * ty < 4294967296"
  using assms(1) unfolding systolic_ok_def Let_def map_ok_def assms(2-) by (elim conjE; simp)+

text \<open>The record the analysis returns on cluster \<open>c\<close>.\<close>

lemma analysis_cluster:
  assumes ok: "systolic_ok A M N K e tM tN tK" and c: "c < clusters A"
  shows "\<exists>j. gemm_systolic_wise_analysis A (of_nat c) M N K e tM tN tK = Some j \<and>
    cluster_info_ok A j c (tiles N tN) (rounds A M K tM tK c) (unat tM * unat tN * unat e)"
proof -
  note s = systolicD [OF ok]
  note p = pos_nat [OF s(2) c]
  let ?t = "unat tM * unat tN * unat e" and ?ty = "unat tM * unat tK * unat e" and ?L = "tiles N tN"
  let ?X = "unat (ARCH_NUM_CLUSTER_X A)" and ?Y = "unat (ARCH_NUM_CLUSTER_Y A)"
  let ?z = "(tiles K tK + ?X) div ?X * ((tiles M tM + ?Y) div ?Y)" and ?r = "rounds A M K tM tK c"
  have K: "unat ((K + tK - 1) div tK) = tiles K tK" and N: "unat ((N + tN - 1) div tN) = ?L"
    and M: "unat ((M + tM - 1) div tM) = tiles M tM"
    by (rule tile_count_nat [OF s(5,12)], rule tile_count_nat [OF s(4,11)], rule tile_count_nat [OF s(3,10)])
  obtain on_row where row: "count_tiles (ARCH_NUM_CLUSTER_X A) (pos_x (get_pos A (of_nat c))) ((K + tK - 1) div tK) 0 = Some on_row"
    "unat on_row = share ?X (mesh_x A c) (tiles K tK)"
    using count_tiles_share [of "pos_x (get_pos A (of_nat c))" "ARCH_NUM_CLUSTER_X A" "(K + tK - 1) div tK" 0] p(1,3) s(16)
    unfolding K by auto
  obtain on_col where col: "count_tiles (ARCH_NUM_CLUSTER_Y A) (pos_y (get_pos A (of_nat c))) ((M + tM - 1) div tM) 0 = Some on_col"
    "unat on_col = share ?Y (mesh_y A c) (tiles M tM)"
    using count_tiles_share [of "pos_y (get_pos A (of_nat c))" "ARCH_NUM_CLUSTER_Y A" "(M + tM - 1) div tM" 0] p(2,4) s(17)
    unfolding M by auto
  have small: "4 * ?t + ?ty < 4294967296" using s(8) unat_lt32 by (rule order_less_trans)
  then have X: "unat (tM * tN * e) = ?t" and Yt: "unat (tM * tK * e) = ?ty"
    using s(6) by (intro unat_mult3; linarith)+
  have "unat tN * unat tK * unat e < 4294967296" using small s(7) by linarith
  from trans [OF unat_mult3 [OF this s(6)] s(7)] have W: "unat (tN * tK * e) = ?t" .
  have t4: "2 * ?t < 4294967296" "3 * ?t < 4294967296" "4 * ?t < 4294967296" using small by linarith+
  have off: "unat (2 * (tN * tK * e)) = 2 * ?t" "unat (3 * (tM * tN * e)) = 3 * ?t" "unat (4 * (tN * tK * e)) = 4 * ?t"
    using unat_scale [OF W, of 2] unat_scale [OF X, of 3] unat_scale [OF W, of 4] t4 by simp_all
  have rz: "?r \<le> ?z" by (rule rounds_le)
  have "?r * (?L + 1) \<le> ?z * (?L + 1)" "?r * ?L * ?t \<le> ?z * ?L * ?t" by (intro mult_le_mono1 rz)+
  then have b: "?r * (?L + 1) + lag A c + 2 < 4294967296" "south A ?X + ?r * ?L * ?t < 4294967296"
    using s(18,19) p(3,4) by linarith+
  have "?r * 1 \<le> ?r * (?L + 1)" by (rule mult_le_mono2) simp
  then have r32: "?r < 4294967296" using b(1) by linarith
  have Z: "unat (on_row * on_col) = ?r"
    using r32 row(2) col(2) unfolding rounds_def by (subst unat_mult32) simp_all
  have D: "unat (pos_x (get_pos A (of_nat c)) + pos_y (get_pos A (of_nat c))) = lag A c"
    using b(1) p(1,2) by (subst unat_add32) simp_all
  have "0 * ?X + mesh_x A c < tiles K tK" "0 * ?Y + mesh_y A c < tiles M tM" using p(3,4) s(14,15) by linarith+
  then have pos: "0 < ?r" unfolding rounds_def share_less [OF p(3), symmetric] share_less [OF p(4), symmetric] by (rule mult_pos_pos)
  obtain j where j: "gemm_systolic_wise_analysis A (of_nat c) M N K e tM tN tK = Some j"
    "tile_size_byte_X j = tM * tN * e" "tile_size_byte_W j = tN * tK * e" "tile_size_byte_Y j = tM * tK * e"
    "X_offset_1 j = 0" "W_offset_1 j = tM * tN * e" "X_offset_2 j = 2 * (tN * tK * e)" "W_offset_2 j = 3 * (tM * tN * e)"
    "Y_offset j = 4 * (tN * tK * e)" "XW_tile_length j = (N + tN - 1) div tN" "Z_tile_all j = on_row * on_col"
    "systolic_delay j = pos_x (get_pos A (of_nat c)) + pos_y (get_pos A (of_nat c))"
    "matrix_N j = N" "matrix_K j = K" "elem_size j = e"
    unfolding gemm_systolic_wise_analysis_def Let_def row(1) col(1) by simp
  have "(?r + 1) * (?Y * ?ty) \<le> (?z + 1) * (?Y * ?ty)" using rz by (intro mult_le_mono1) linarith
  then have room: "south A ?X + unat (matrix_N j * matrix_K j * elem_size j div ARCH_NUM_CLUSTER_X A) + (?r + 1) * ?Y * ?ty < 4294967296"
    using s(20) unfolding j(13-15) mult.assoc by linarith
  have ty: "unat (tile_size_byte_Y j) = ?ty" unfolding j(4) by (rule Yt)
  have "in_output A j c ?r (unat (store_addr A (get_pos A (of_nat c)) j (of_nat st))) ?ty" if st: "0 < st" "st \<le> ?r" for st
  proof -
    have "(st - 1) * ?Y + mesh_y A c + 1 \<le> st * ?Y" using p(4) st(1) by (cases st) simp_all
    also have "\<dots> \<le> ?r * ?Y" using st(2) by (rule mult_le_mono1)
    finally have "((st - 1) * ?Y + mesh_y A c + 1) * ?ty \<le> ?r * ?Y * ?ty" by (rule mult_le_mono1)
    then show ?thesis
      unfolding in_output_def out_base_def store_addr_nat [OF s(2) c ty st room r32] ty by simp
  qed
  then have "cluster_info_ok A j c ?L ?r ?t"
    unfolding cluster_info_ok_def j(2,3,5-12) X W off N Z D ty using pos b by simp
  then show ?thesis using j(1) by blast
qed

lemma analysis_flow:
  assumes ok: "systolic_ok A M N K e tM tN tK"
  shows "c < clusters A \<Longrightarrow> gemm_systolic_wise_analysis A (of_nat c) M N K e tM tN tK = Some (systolic_info A M N K e tM tN tK c)"
    "flow_ok A (systolic_info A M N K e tM tN tK) (tiles N tN) (rounds A M K tM tK) (unat tM * unat tN * unat e)"
proof -
  note s = systolicD [OF ok]
  have info: "gemm_systolic_wise_analysis A (of_nat c) M N K e tM tN tK = Some (systolic_info A M N K e tM tN tK c)"
    "cluster_info_ok A (systolic_info A M N K e tM tN tK c) c (tiles N tN) (rounds A M K tM tK c) (unat tM * unat tN * unat e)"
    if "c < clusters A" for c
    using analysis_cluster [OF ok that] unfolding systolic_info_def by auto
  show "c < clusters A \<Longrightarrow> gemm_systolic_wise_analysis A (of_nat c) M N K e tM tN tK = Some (systolic_info A M N K e tM tN tK c)"
    by (rule info(1))
  have left: "rounds A M K tM tK c \<le> rounds A M K tM tK (c - 1)" if "c < clusters A" "0 < mesh_x A c" for c
    unfolding rounds_def left_nat(1,2) [OF s(2) that] by (intro mult_le_mono share_antimono) simp_all
  have below: "rounds A M K tM tK c \<le> rounds A M K tM tK (c - unat (ARCH_NUM_CLUSTER_X A))"
    if "c < clusters A" "0 < mesh_y A c" for c
    unfolding rounds_def bottom_nat(1,2) [OF s(2) that] by (intro mult_le_mono share_antimono) simp_all
  have "4 * (unat tM * unat tN * unat e) < unat (ARCH_CLUSTER_TCDM_SIZE A)" using s(8) by linarith
  then show "flow_ok A (systolic_info A M N K e tM tN tK) (tiles N tN) (rounds A M K tM tK) (unat tM * unat tN * unat e)"
    unfolding flow_ok_def using s(1,9,13) info(2) left below by blast
qed

end
