(* ===== verification/App_Systolic_Code.thy ===== *)
theory App_Systolic_Code
  imports App_Systolic_Flow App_Redmule_Props
begin

text \<open>
  What the cores of a cluster start in each iteration of \<open>gemm_systolic_wise\<close>: the data mover the transfers of
  \<open>gemm_systolic_wise_compute_dma_access\<close> for this iteration, the first core the engine as
  \<open>gemm_systolic_wise_compute_redmule_action\<close> asks for, although each is computed from the record of the iteration
  before.
\<close>

subsection \<open>Phases of a core of a cluster\<close>

text \<open>As for a single cluster, with the identity of the cluster read from its register.\<close>

primrec core_acts :: "arch \<Rightarrow> u32 \<Rightarrow> u32 \<Rightarrow> io \<Rightarrow> dma_regs \<Rightarrow> act list list" where
  "core_acts A cid core Halt = (\<lambda>r. [[]])"
| "core_acts A cid core (Rd a k) = core_acts A cid core (k (if a = ARCH_CLUSTER_REG_BASE A then cid else 0))"
| "core_acts A cid core (Wr a v k) = core_acts A cid core k"
| "core_acts A cid core (Amo a v k) = core_acts A cid core (k 0)"
| "core_acts A cid core (Spin a v k) = core_acts A cid core k"
| "core_acts A cid core (Csr_Hartid k) = core_acts A cid core (k core)"
| "core_acts A cid core (Csr_Sync k) = (\<lambda>r. [] # core_acts A cid core k r)"
| "core_acts A cid core (Insn w rs k) = (\<lambda>r. add_first (insn_acts r w rs) (core_acts A cid core (k 0) (set_regs r w rs)))"
| "core_acts A cid core (Poll w k) = core_acts A cid core k"
| "core_acts A cid core (Heap_Init b base sz k) = core_acts A cid core k"
| "core_acts A cid core (Malloc b sz k) = core_acts A cid core (k 0)"
| "core_acts A cid core (Free b p k) = core_acts A cid core k"
| "core_acts A cid core (Printf l k) = core_acts A cid core k"
| "core_acts A cid core (Tick k) = core_acts A cid core k"

lemma core_acts_not_Nil [simp]: "core_acts A cid core p r \<noteq> []"
proof (induction p arbitrary: r)
  case (Insn w rs k)
  then show ?case by (cases "core_acts A cid core (k 0) (set_regs r w rs)") auto
qed auto

lemma core_acts_core [simp]:
  "core_acts A cid core (flex_is_first_core f) = core_acts A cid core (f (core = 0))"
  "core_acts A cid core (flex_is_dm_core A f) = core_acts A cid core (f (core = ARCH_NUM_CORE_PER_CLUSTER A - 1))"
  "core_acts A cid core (flex_get_cluster_id A g) = core_acts A cid core (g cid)"
  "core_acts A cid core (flex_get_core_id g) = core_acts A cid core (g core)"
  by (simp_all add: flex_is_first_core_def flex_is_dm_core_def flex_get_cluster_id_def flex_get_core_id_def)

lemma core_acts_barrier [simp]: "core_acts A cid core (flex_global_barrier_xy A k) r = [] # [] # core_acts A cid core k r"
  by (simp add: flex_global_barrier_xy_def flex_intra_cluster_sync_def flex_annotate_barrier_def
      flex_get_barrier_num_cluster_x_def flex_get_barrier_num_cluster_y_def flex_get_enable_value_def
      flex_get_disable_value_def flex_amo_fetch_add_def flex_reset_barrier_def flex_wakeup_all_clusters_def
      flex_wakeup_clusters_def cluster_wait_def Let_def)

lemma core_acts_move:
  "core_acts A cid core (flex_dma_async_1d d s n k) r = add_first [Move d s n] (core_acts A cid core k (r\<lparr>r_src := s, r_dst := d\<rparr>))"
  by (simp add: flex_dma_async_1d_def bare_dma_start_1d_def insn_acts_def set_regs_def dma_consts dma_step dma_opcode)

lemma core_acts_wait [simp]: "core_acts A cid core (flex_dma_async_wait_all k) = core_acts A cid core k"
  by (simp add: flex_dma_async_wait_all_def bare_dma_wait_all_def)

lemma core_acts_engine:
  "\<exists>r'. core_acts A cid core (flex_redmule_trigger x w y REDMULE_NONE_16 k) r = add_first [Engine x w y] (core_acts A cid core k r')"
  by (simp add: flex_redmule_trigger_def insn_acts_def redmule_word_def opcode_of_def) blast

lemma core_acts_run:
  "\<exists>r'. core_acts A cid core (flex_redmule_trigger x w y REDMULE_NONE_16 (flex_redmule_wait A (\<lambda>_. k))) r =
    add_first [Engine x w y] (core_acts A cid core k r')"
proof -
  have "core_acts A cid core (flex_redmule_wait A (\<lambda>_. k)) = core_acts A cid core k" by (simp add: flex_redmule_wait_def)
  then show ?thesis using core_acts_engine [of A cid core x w y "flex_redmule_wait A (\<lambda>_. k)" r] by (simp only:)
qed

subsection \<open>The recorded actions\<close>

definition dma_acts :: "GemmSystolicInfo \<Rightarrow> act list" where
  "dma_acts j =
     (if use_dma1 j then [Move (ucast (dma1_dst j)) (ucast (dma1_src j)) (dma1_size j)] else []) @
     (if use_dma2 j then [Move (ucast (dma2_dst j)) (ucast (dma2_src j)) (dma2_size j)] else [])"

definition engine_acts :: "GemmSystolicInfo \<Rightarrow> act list" where
  "engine_acts j = (if use_redmule j then [Engine (redmule_x j) (redmule_w j) (redmule_y j)] else [])"

text \<open>The record without the actions: what the analysis has found.\<close>

definition plan :: "GemmSystolicInfo \<Rightarrow> GemmSystolicInfo" where
  "plan j = j\<lparr>dma_runing := 0, redmule_runing := 0, use_dma1 := False, dma1_src := 0, dma1_dst := 0, dma1_size := 0,
     use_dma2 := False, dma2_src := 0, dma2_dst := 0, dma2_size := 0, use_sync_dma := False,
     use_redmule := False, redmule_x := 0, redmule_w := 0, redmule_y := 0\<rparr>"

lemma plan_sel [simp]:
  "in_stream (plan j) i = in_stream j i" "at_final_store (plan j) i = at_final_store j i"
  "eff_xw (plan j) e = eff_xw j e" "systolic_delay (plan j) = systolic_delay j"
  "local_x (plan j) n = local_x j n" "local_w (plan j) n = local_w j n" "Z_tile_all (plan j) = Z_tile_all j"
  "XW_tile_length (plan j) = XW_tile_length j" "Y_offset (plan j) = Y_offset j"
  "tile_size_byte_X (plan j) = tile_size_byte_X j" "tile_size_byte_W (plan j) = tile_size_byte_W j"
  "tile_size_byte_Y (plan j) = tile_size_byte_Y j" "store_addr A p (plan j) st = store_addr A p j st"
  by (simp_all add: plan_def in_stream_def at_final_store_def eff_xw_def local_x_def local_w_def store_addr_def Let_def)

lemma plan_keeps [simp]:
  "plan (j\<lparr>dma_runing := v\<rparr>) = plan j" "plan (j\<lparr>redmule_runing := v\<rparr>) = plan j"
  "plan (gemm_systolic_wise_compute_dma_access A cid j i) = plan j"
  "plan (gemm_systolic_wise_compute_redmule_action j i) = plan j"
  by (simp_all add: plan_def gemm_systolic_wise_compute_dma_access_def gemm_systolic_wise_compute_redmule_action_def
      clear_dma_def stream_actions_def final_actions_def Let_def split: prod.split)

lemma plan_stream: "plan (stream_actions A p j i) = plan j"
  by (simp add: plan_def stream_actions_def Let_def split: prod.split)

lemma planD:
  assumes "plan j = plan j'"
  shows "systolic_delay j = systolic_delay j'" "XW_tile_length j = XW_tile_length j'" "Y_offset j = Y_offset j'"
    "tile_size_byte_Y j = tile_size_byte_Y j'" "store_addr A p j st = store_addr A p j' st"
  using assms by (metis plan_sel)+

definition second_acts :: "GemmSystolicInfo \<Rightarrow> act list" where
  "second_acts j = (if use_dma2 j then [Move (ucast (dma2_dst j)) (ucast (dma2_src j)) (dma2_size j)] else [])"

text \<open>The actions of an iteration depend on the plan only.\<close>

lemma dma_acts_plan:
  "dma_acts (gemm_systolic_wise_compute_dma_access A cid j i) = dma_acts (gemm_systolic_wise_compute_dma_access A cid (plan j) i)"
proof -
  let ?p = "get_pos A cid"
  note sel = planD [OF plan_stream [of A ?p "clear_dma j" i]] planD [OF plan_stream [of A ?p "clear_dma (plan j)" i]]
  have s: "second_acts (stream_actions A ?p (clear_dma j) i) = second_acts (stream_actions A ?p (clear_dma (plan j)) i)"
    "dma_acts (stream_actions A ?p (clear_dma j) i) = dma_acts (stream_actions A ?p (clear_dma (plan j)) i)"
    by (simp_all add: second_acts_def dma_acts_def stream_actions_def Let_def split: prod.split)
  have f: "dma_acts (final_actions A ?p k i) = Move (ucast (store_addr A ?p k ((i - systolic_delay k) div (XW_tile_length k + 1))))
      (ucast (local_addr A (Y_offset k))) (tile_size_byte_Y k) # second_acts k" for k
    by (simp add: dma_acts_def second_acts_def final_actions_def Let_def)
  have "second_acts (clear_dma k) = []" "dma_acts (clear_dma k) = []" for k by (simp_all add: second_acts_def dma_acts_def)
  then show ?thesis
    by (cases "in_stream j i"; cases "at_final_store j i")
      (simp_all add: gemm_systolic_wise_compute_dma_access_def Let_def f s sel del: plan_stream)
qed

lemma engine_acts_plan:
  "engine_acts (gemm_systolic_wise_compute_redmule_action j i) = engine_acts (gemm_systolic_wise_compute_redmule_action (plan j) i)"
proof -
  have k: "systolic_delay (k\<lparr>use_redmule := False\<rparr>) = systolic_delay k" "Z_tile_all (k\<lparr>use_redmule := False\<rparr>) = Z_tile_all k"
    "XW_tile_length (k\<lparr>use_redmule := False\<rparr>) = XW_tile_length k" "eff_xw (k\<lparr>use_redmule := False\<rparr>) e = eff_xw k e"
    "local_x (k\<lparr>use_redmule := False\<rparr>) n = local_x k n" "local_w (k\<lparr>use_redmule := False\<rparr>) n = local_w k n"
    "Y_offset (k\<lparr>use_redmule := False\<rparr>) = Y_offset k" for k :: GemmSystolicInfo and e n
    by (simp_all add: eff_xw_def local_x_def local_w_def Let_def)
  show ?thesis
    by (simp add: engine_acts_def gemm_systolic_wise_compute_redmule_action_def k Let_def split: prod.split)
qed

subsection \<open>The loop\<close>

lemma acts_frame [simp]:
  "engine_acts (gemm_systolic_wise_compute_dma_access A cid j i) = engine_acts j"
  "dma_acts (gemm_systolic_wise_compute_redmule_action j i) = dma_acts j"
  "engine_acts (j\<lparr>dma_runing := v\<rparr>) = engine_acts j" "dma_acts (j\<lparr>redmule_runing := v\<rparr>) = dma_acts j"
  by (simp_all add: engine_acts_def dma_acts_def gemm_systolic_wise_compute_dma_access_def
      gemm_systolic_wise_compute_redmule_action_def clear_dma_def stream_actions_def final_actions_def Let_def
      split: prod.split)

lemma core_acts_access [simp]:
  "core_acts A cid core (dma_access A j i k) = core_acts A cid core (k (gemm_systolic_wise_compute_dma_access A cid j i))"
  by (cases "in_stream j i"; cases "at_final_store j i")
    (simp_all add: dma_access_def Let_def gemm_systolic_wise_compute_dma_access_def)

lemma core_acts_dma:
  "\<exists>r'. core_acts A cid core (dma_1 j k) r =
    add_first (if use_dma1 j then [Move (ucast (dma1_dst j)) (ucast (dma1_src j)) (dma1_size j)] else []) (core_acts A cid core k r')"
  "\<exists>r'. core_acts A cid core (dma_2 j k) r =
    add_first (if use_dma2 j then [Move (ucast (dma2_dst j)) (ucast (dma2_src j)) (dma2_size j)] else []) (core_acts A cid core k r')"
  by (cases "use_dma1 j"; cases "use_dma2 j"; force simp: dma_1_def dma_2_def core_acts_move)+

lemma core_acts_wait_if [simp]: "core_acts A cid core (wait_if b k) = core_acts A cid core k"
  by (simp add: wait_if_def)

lemma both_dma:
  "\<exists>r'. core_acts A cid core (dma_1 j (wait_if b (dma_2 j k))) r = add_first (dma_acts j) (core_acts A cid core k r')"
  "\<exists>r'. core_acts A cid core (dma_1 j (dma_2 j k)) r = add_first (dma_acts j) (core_acts A cid core k r')"
  unfolding dma_acts_def by (metis core_acts_dma core_acts_wait_if add_first_twice)+

text \<open>What a core does between two barriers, and what it prepares for the next iteration.\<close>

lemma dma_part_acts:
  "\<exists>j r'. core_acts A cid core (dma_part A i info k) r = add_first (dma_acts info) (core_acts A cid core (k j) r') \<and>
    plan j = plan info \<and> dma_acts j = dma_acts (gemm_systolic_wise_compute_dma_access A cid (plan info) (i + 1)) \<and>
    engine_acts j = engine_acts info"
proof (cases "use_sync_dma info")
  case True
  let ?j = "gemm_systolic_wise_compute_dma_access A cid info (i + 1)"
  have "\<exists>r'. core_acts A cid core (dma_part A i info k) r = add_first (dma_acts info) (core_acts A cid core (k ?j) r')"
    using both_dma(1) True unfolding dma_part_def if_P [OF True] by (metis core_acts_wait_if core_acts_access)
  then show ?thesis using dma_acts_plan [of A cid info] by force
next
  case False
  let ?i = "info\<lparr>dma_runing := of_bool (use_dma1 info \<or> use_dma2 info)\<rparr>"
  let ?j = "gemm_systolic_wise_compute_dma_access A cid ?i (i + 1)"
  have "\<exists>r'. core_acts A cid core (dma_part A i info k) r = add_first (dma_acts info) (core_acts A cid core (k ?j) r')"
    using both_dma(2) unfolding dma_part_def if_not_P [OF False] Let_def by (metis core_acts_wait_if core_acts_access)
  then show ?thesis using dma_acts_plan [of A cid ?i] by force
qed

lemma engine_part_acts:
  "\<exists>j r'. core_acts A cid core (engine_part A i info k) r = add_first (engine_acts info) (core_acts A cid core (k j) r') \<and>
    plan j = plan info \<and> engine_acts j = engine_acts (gemm_systolic_wise_compute_redmule_action (plan info) (i + 1)) \<and>
    dma_acts j = dma_acts info"
proof -
  let ?i = "info\<lparr>redmule_runing := of_bool (use_redmule info)\<rparr>"
  let ?j = "gemm_systolic_wise_compute_redmule_action ?i (i + 1)"
  have "\<exists>r'. core_acts A cid core (engine_part A i info k) r = add_first (engine_acts info) (core_acts A cid core (k ?j) r')"
  proof (cases "use_redmule info")
    case True
    then show ?thesis using core_acts_run [of A cid core _ _ _ "k ?j" r] by (simp add: engine_part_def Let_def engine_acts_def)
  qed (auto simp: engine_part_def engine_acts_def Let_def)
  then show ?thesis using engine_acts_plan [of ?i] by force
qed

definition iteration_acts :: "arch \<Rightarrow> u32 \<Rightarrow> u32 \<Rightarrow> GemmSystolicInfo \<Rightarrow> u32 \<Rightarrow> act list" where
  "iteration_acts A cid core j i =
     (if core = 0 then engine_acts (gemm_systolic_wise_compute_redmule_action j i) else []) @
     (if core = ARCH_NUM_CORE_PER_CLUSTER A - 1 then dma_acts (gemm_systolic_wise_compute_dma_access A cid j i) else [])"

text \<open>The record has the actions of iteration \<open>i\<close> for the core.\<close>

definition prepared :: "arch \<Rightarrow> u32 \<Rightarrow> u32 \<Rightarrow> GemmSystolicInfo \<Rightarrow> u32 \<Rightarrow> GemmSystolicInfo \<Rightarrow> bool" where
  "prepared A cid core j i info =
     (plan info = plan j \<and>
      (core = 0 \<longrightarrow> engine_acts info = engine_acts (gemm_systolic_wise_compute_redmule_action j i)) \<and>
      (core = ARCH_NUM_CORE_PER_CLUSTER A - 1 \<longrightarrow> dma_acts info = dma_acts (gemm_systolic_wise_compute_dma_access A cid j i)))"

lemma loop_acts:
  "prepared A cid core x i info \<Longrightarrow>
    \<exists>r'. core_acts A cid core (systolic_loop A n i info k) r =
      concat (map (\<lambda>m. [iteration_acts A cid core x (i + of_nat m), []]) [0 ..< n]) @ core_acts A cid core k r'"
proof (induction n arbitrary: i info r)
  case 0
  then show ?case by simp blast
next
  case (Suc n)
  let ?dm = "core = ARCH_NUM_CORE_PER_CLUSTER A - 1" and ?c = "core_acts A cid core"
  let ?next = "\<lambda>info. flex_global_barrier_xy A (systolic_loop A n (i + 1) info k)"
  let ?mid = "\<lambda>info. flex_is_dm_core A (\<lambda>dm. (if dm then dma_part A i info else (\<lambda>k. k info)) ?next)"
  note p = Suc.prems [unfolded prepared_def]
  obtain j r1 where j: "?c (systolic_loop A (Suc n) i info k) r = add_first (if core = 0 then engine_acts info else []) (?c (?mid j) r1)"
    "plan j = plan info" "dma_acts j = dma_acts info"
    "core = 0 \<Longrightarrow> engine_acts j = engine_acts (gemm_systolic_wise_compute_redmule_action (plan info) (i + 1))"
    using engine_part_acts [of A cid core i info ?mid r] by (cases "core = 0") auto
  obtain j' r2 where j': "?c (?mid j) r1 = add_first (if ?dm then dma_acts j else []) (?c (?next j') r2)"
    "plan j' = plan j" "engine_acts j' = engine_acts j"
    "?dm \<Longrightarrow> dma_acts j' = dma_acts (gemm_systolic_wise_compute_dma_access A cid (plan j) (i + 1))"
    using dma_part_acts [of A cid core i j ?next r1] by (cases ?dm) auto
  have head: "(if core = 0 then engine_acts info else []) @ (if ?dm then dma_acts j else []) = iteration_acts A cid core x i"
    using p j(3) by (simp add: iteration_acts_def)
  have "prepared A cid core x (i + 1) j'"
    unfolding prepared_def
    using p j(2,4) j'(2,3,4) dma_acts_plan [of A cid x "i + 1"] engine_acts_plan [of x "i + 1"] by simp
  then obtain r3 where "?c (systolic_loop A n (i + 1) j' k) r2 =
      concat (map (\<lambda>m. [iteration_acts A cid core x (i + 1 + of_nat m), []]) [0 ..< n]) @ ?c k r3"
    using Suc.IH by blast
  then have "?c (systolic_loop A (Suc n) i info k) r = iteration_acts A cid core x i # [] #
      concat (map (\<lambda>m. [iteration_acts A cid core x (i + 1 + of_nat m), []]) [0 ..< n]) @ ?c k r3"
    unfolding j(1) j'(1) add_first_twice head by simp
  moreover have "[0 ..< Suc n] = 0 # map Suc [0 ..< n]" by (simp add: upt_conv_Cons map_Suc_upt del: upt_Suc)
  ultimately show ?case by (auto simp: comp_def add.assoc simp del: upt_Suc)
qed

subsection \<open>The program\<close>

lemma systolic_acts:
  assumes "gemm_systolic_wise_analysis A cid M N K e tM tN tK = Some info"
  shows "\<exists>r'. core_acts A cid core (gemm_systolic_wise A M N K e tM tN tK k) r = [[], [], [], []] @
    concat (map (\<lambda>i. [iteration_acts A cid core info (of_nat i), []]) [0 ..< unat (total_iter info)]) @ core_acts A cid core k r'"
proof -
  let ?c = "core_acts A cid core"
  have total: "total_iter j = total_iter info" if "plan j = plan info" for j
    using arg_cong [OF that, of total_iter] by (simp add: plan_def)
  have mark [simp]: "?c (timer_mark A (flex_timer_start A) k) = ?c k" "?c (timer_mark A (flex_timer_end A) k) = ?c k" for k
    by (simp_all add: timer_mark_def flex_timer_start_def flex_timer_end_def flex_get_enable_value_def)
  have mark': "core_acts A cid h (timer_mark A (flex_timer_start A) k) = core_acts A cid h k" for h k
    by (simp add: timer_mark_def flex_timer_start_def flex_timer_end_def flex_get_enable_value_def)
  have config: "\<exists>r'. ?c (flex_redmule_config m n l k) r = ?c k r'" for m n l k r
    by (simp add: flex_redmule_config_def Let_def insn_acts_def dma_step dma_consts opcode_of_def funct7_of_def rs2_of_def) blast
  let ?rest = "\<lambda>j. timer_mark A (flex_timer_start A) (flex_global_barrier_xy A
    (systolic_loop A (unat (total_iter j)) 0 j (timer_mark A (flex_timer_end A) k)))"
  let ?dm = "\<lambda>j. flex_is_dm_core A (\<lambda>dm. (if dm then dma_access A j 0 else (\<lambda>k. k j)) ?rest)"
  obtain j r1 where j: "?c (gemm_systolic_wise A M N K e tM tN tK k) r = [] # [] # ?c (?dm j) r1" "plan j = plan info"
    "core = 0 \<longrightarrow> engine_acts j = engine_acts (gemm_systolic_wise_compute_redmule_action info 0)"
  proof -
    let ?dmk = "\<lambda>first. (if first then (\<lambda>k. flex_redmule_config (ucast tM) (ucast tN) (ucast tK)
      (k (gemm_systolic_wise_compute_redmule_action info 0))) else (\<lambda>k. k info)) ?dm"
    let ?j = "if core = 0 then gemm_systolic_wise_compute_redmule_action info 0 else info"
    have "\<exists>r1. ?c (?dmk (core = 0)) r = ?c (?dm ?j) r1"
    proof (cases "core = 0")
      case True
      show ?thesis unfolding if_P [OF True] eqTrueI [OF True] if_True by (rule config)
    next
      case False
      show ?thesis unfolding if_not_P [OF False] by (rule exI [of _ r]) (rule refl)
    qed
    then obtain r1 where r1: "?c (?dmk (core = 0)) r = ?c (?dm ?j) r1" by blast
    have "?c (gemm_systolic_wise A M N K e tM tN tK k) r = [] # [] # ?c (?dmk (core = 0)) r"
      by (simp add: gemm_systolic_wise_def assms)
    then show thesis unfolding r1 by (rule that) simp_all
  qed
  obtain j' where j': "?c (?dm j) r1 = [] # [] # ?c (systolic_loop A (unat (total_iter j')) 0 j' (timer_mark A (flex_timer_end A) k)) r1"
    "prepared A cid core info 0 j'"
  proof (cases "core = ARCH_NUM_CORE_PER_CLUSTER A - 1")
    case True
    then show thesis using j(2,3) dma_acts_plan [of A cid j 0] dma_acts_plan [of A cid info 0]
      by (intro that [of "gemm_systolic_wise_compute_dma_access A cid j 0"]) (simp_all add: prepared_def mark')
  next
    case False
    then show thesis using j(2,3) by (intro that [of j]) (simp_all add: prepared_def)
  qed
  then have "plan j' = plan info" by (simp add: prepared_def)
  note n = total [OF this]
  show ?thesis using loop_acts [OF j'(2), of "unat (total_iter j')" "timer_mark A (flex_timer_end A) k" r1]
    unfolding j(1) j'(1) n mark add_0 by auto
qed

lemma requests_acts:
  "dma_acts (gemm_systolic_wise_compute_dma_access A (of_nat c) (info c) (of_nat i)) =
    map (\<lambda>(d, s, k). Move (of_nat d) (of_nat s) (of_nat k)) (requests A info c i)"
  "engine_acts (gemm_systolic_wise_compute_redmule_action (info c) (of_nat i)) =
    (case engine info c i of None \<Rightarrow> [] | Some (x, w, y) \<Rightarrow> [Engine (of_nat x) (of_nat w) (of_nat y)])"
  by (simp_all add: dma_acts_def engine_acts_def requests_def engine_def Let_def)

text \<open>The loop is long enough for the last store.\<close>

lemma total_enough:
  assumes ok: "systolic_ok A M N K e tM tN tK" and c: "c < clusters A"
  shows "rounds A M K tM tK c * (tiles N tN + 1) + lag A c + 1 < unat (total_iter (systolic_info A M N K e tM tN tK c))"
    "unat (total_iter (systolic_info A M N K e tM tN tK c)) < 4294967295"
proof -
  note s = systolicD [OF ok]
  note p = pos_nat [OF s(2) c]
  let ?X = "unat (ARCH_NUM_CLUSTER_X A)" and ?Y = "unat (ARCH_NUM_CLUSTER_Y A)" and ?L = "tiles N tN"
  let ?z = "(tiles K tK + ?X) div ?X * ((tiles M tM + ?Y) div ?Y)" and ?r = "rounds A M K tM tK c"
  let ?a = "(tiles K tK + ?X - 1) div ?X" and ?b = "(tiles M tM + ?Y - 1) div ?Y"
  define a where "a = ((K + tK - 1) div tK + ARCH_NUM_CLUSTER_X A - 1) div ARCH_NUM_CLUSTER_X A"
  define b where "b = ((M + tM - 1) div tM + ARCH_NUM_CLUSTER_Y A - 1) div ARCH_NUM_CLUSTER_Y A"
  define l where "l = (N + tN - 1) div tN"
  have "total_iter (systolic_info A M N K e tM tN tK c) =
    ((K + tK - 1) div tK + ARCH_NUM_CLUSTER_X A - 1) div ARCH_NUM_CLUSTER_X A *
     (((M + tM - 1) div tM + ARCH_NUM_CLUSTER_Y A - 1) div ARCH_NUM_CLUSTER_Y A) * ((N + tN - 1) div tN + 1) +
     ARCH_NUM_CLUSTER_X A + ARCH_NUM_CLUSTER_Y A"
    using analysis_flow(1) [OF ok c] unfolding gemm_systolic_wise_analysis_def Let_def by (auto simp: bind_eq_Some_conv dest!: arg_cong [of _ _ total_iter])
  then have e: "total_iter (systolic_info A M N K e tM tN tK c) = a * b * (l + 1) + ARCH_NUM_CLUSTER_X A + ARCH_NUM_CLUSTER_Y A"
    unfolding a_def b_def l_def .
  have a: "unat a = ?a" and b: "unat b = ?b" and l: "unat l = ?L"
    using tile_count_nat [of "ARCH_NUM_CLUSTER_X A" "(K + tK - 1) div tK"] tile_count_nat [of "ARCH_NUM_CLUSTER_Y A" "(M + tM - 1) div tM"]
      tile_count_nat [OF s(5,12)] tile_count_nat [OF s(4,11)] tile_count_nat [OF s(3,10)] s(16,17) p(3,4)
    unfolding a_def b_def l_def by (simp_all add: tiles_def)
  have "?a * ?b \<le> ?z" by (intro mult_le_mono div_le_mono) simp_all
  then have ab: "?a * ?b * (?L + 1) \<le> ?z * (?L + 1)" by (rule mult_le_mono1)
  define w where "w = ?a * ?b * (?L + 1)"
  define q where "q = ?r * (?L + 1)"
  have small: "w + ?X + ?Y + 2 < 4294967296" using s(18) ab unfolding w_def by linarith
  have w: "w < 4294967296" by (rule le_less_trans [OF _ small]) simp
  have "?r \<le> ?a * ?b" unfolding rounds_def share_def by (intro mult_le_mono div_le_mono) simp_all
  then have rab: "q \<le> w" unfolding q_def w_def by (rule mult_le_mono1)
  have "0 * ?X + mesh_x A c < tiles K tK" "0 * ?Y + mesh_y A c < tiles M tM" using p(3,4) s(14,15) by linarith+
  then have "0 < ?r" unfolding rounds_def share_less [OF p(3), symmetric] share_less [OF p(4), symmetric] by (rule mult_pos_pos)
  then have "1 * (?L + 1) \<le> q" unfolding q_def by (intro mult_le_mono1) simp
  then have "?L + 1 \<le> w" unfolding mult_1 using rab by (rule order_trans)
  then have L: "?L + 1 < 4294967296" using w by (rule le_less_trans)
  have l1: "unat (l + 1) = ?L + 1" using L l by (subst unat_add32) simp_all
  have "unat (a * b * (l + 1)) = w"
    using unat_mult3 [of a b "l + 1"] w unfolding a b l1 w_def by simp
  then have "unat (a * b * (l + 1) + ARCH_NUM_CLUSTER_X A) = w + ?X" using small by (subst unat_add32) simp_all
  then have t: "unat (total_iter (systolic_info A M N K e tM tN tK c)) = w + ?X + ?Y"
    using small unfolding e by (subst unat_add32) simp_all
  show "?r * (?L + 1) + lag A c + 1 < unat (total_iter (systolic_info A M N K e tM tN tK c))"
    "unat (total_iter (systolic_info A M N K e tM tN tK c)) < 4294967295"
    unfolding t q_def [symmetric] using rab small p(3,4) by linarith+
qed

text \<open>\<open>main.c\<close> on the mesh of the repository.\<close>

lemma systolic_main_ok: "systolic_ok arch_default 4096 4096 4096 2 256 256 256"
  by (simp add: systolic_ok_def Let_def tiles_def map_ok_def arch_ok_def clusters_def south_def hbm_node_def)

subsection \<open>Results\<close>

text \<open>C12: In every iteration of the loop the data mover of a cluster starts the transfers, and
  the first core the engine, that the record of the analysis determines for this iteration, whatever the actions
  recorded before; between two iterations every core passes one barrier over all clusters.\<close>

theorem systolic_starts:
  assumes "systolic_ok A M N K e tM tN tK" and "c < clusters A"
  shows "\<exists>r'. core_acts A (of_nat c) core (gemm_systolic_wise A M N K e tM tN tK k) r = [[], [], [], []] @
    concat (map (\<lambda>i. [iteration_acts A (of_nat c) core (systolic_info A M N K e tM tN tK c) (of_nat i), []])
      [0 ..< unat (total_iter (systolic_info A M N K e tM tN tK c))]) @ core_acts A (of_nat c) core k r'"
  by (rule systolic_acts [OF analysis_flow(1) [OF assms]])

theorem systolic_starts_witness:
  "\<exists>r'. core_acts arch_default (of_nat 5) 2 (gemm_systolic_wise arch_default 4096 4096 4096 2 256 256 256 Halt)
      \<lparr>r_src = 0, r_dst = 0, r_src_stride = 0, r_dst_stride = 0, r_reps = 0, r_mask = 0\<rparr> = [[], [], [], []] @
    concat (map (\<lambda>i. [iteration_acts arch_default (of_nat 5) 2 (systolic_info arch_default 4096 4096 4096 2 256 256 256 5) (of_nat i), []])
      [0 ..< unat (total_iter (systolic_info arch_default 4096 4096 4096 2 256 256 256 5))]) @ core_acts arch_default (of_nat 5) 2 Halt r'"
  by (rule systolic_starts [OF systolic_main_ok]) (simp add: clusters_def)

text \<open>C11: on every cluster the engine is triggered exactly once for each tile of its streams, within the iterations
  of the loop, and never otherwise.  Its operands, from the trigger to the end of that iteration, are the next
  tile of X as HBM held it when the west edge of the row loaded it and the next tile of W as HBM held it when the
  south edge of the column loaded it: no transfer of another cluster, of another tile or of the same iteration
  comes between.  A byte of HBM outside the areas of Z is at that time still the one of the initial matrix;
  inside them it need not be (\<open>main_output\<close>: the tiles of W from number 64 on, with the sizes of main.c).\<close>

theorem systolic_operands:
  assumes ok: "systolic_ok A M N K e tM tN tK" and c: "c < clusters A"
  shows "let info = systolic_info A M N K e tM tN tK; L = tiles N tN; Z = rounds A M K tM tK; t = unat tM * unat tN * unat e;
      total = unat (total_iter (info c)) in
    (\<forall>n < Z c * L. let i = lag A c + 1 + sched L n in i < total \<and>
      (\<exists>x w. engine info c i = Some (x, w, 4 * t) \<and> (\<forall>k<t. \<forall>j\<in>{i, Suc i}.
        fst (chip_run A info m j) c (x + k) = snd (chip_run A info m (mesh_y A c + sched L n)) (west A (mesh_y A c) + n * t + k) \<and>
        fst (chip_run A info m j) c (w + k) = snd (chip_run A info m (mesh_x A c + sched L n)) (south A (mesh_x A c) + n * t + k) \<and>
        (untouched A info Z (west A (mesh_y A c) + n * t + k) \<longrightarrow>
          fst (chip_run A info m j) c (x + k) = snd m (west A (mesh_y A c) + n * t + k)) \<and>
        (untouched A info Z (south A (mesh_x A c) + n * t + k) \<longrightarrow>
          fst (chip_run A info m j) c (w + k) = snd m (south A (mesh_x A c) + n * t + k))))) \<and>
    (\<forall>i<total. engine info c i \<noteq> None \<longrightarrow> (\<exists>n < Z c * L. i = lag A c + 1 + sched L n))"
proof -
  let ?info = "systolic_info A M N K e tM tN tK" and ?L = "tiles N tN" and ?Z = "rounds A M K tM tK"
  let ?t = "unat tM * unat tN * unat e" and ?total = "unat (total_iter (systolic_info A M N K e tM tN tK c))"
  note flow = analysis_flow(2) [OF ok]
  note L = flowD(3) [OF flow c] and total = total_enough [OF ok c]
  have run: "let i = lag A c + 1 + sched ?L n in i < ?total \<and>
      (\<exists>x w. engine ?info c i = Some (x, w, 4 * ?t) \<and> (\<forall>k<?t. \<forall>j\<in>{i, Suc i}.
        fst (chip_run A ?info m j) c (x + k) = snd (chip_run A ?info m (mesh_y A c + sched ?L n)) (west A (mesh_y A c) + n * ?t + k) \<and>
        fst (chip_run A ?info m j) c (w + k) = snd (chip_run A ?info m (mesh_x A c + sched ?L n)) (south A (mesh_x A c) + n * ?t + k) \<and>
        (untouched A ?info ?Z (west A (mesh_y A c) + n * ?t + k) \<longrightarrow>
          fst (chip_run A ?info m j) c (x + k) = snd m (west A (mesh_y A c) + n * ?t + k)) \<and>
        (untouched A ?info ?Z (south A (mesh_x A c) + n * ?t + k) \<longrightarrow>
          fst (chip_run A ?info m j) c (w + k) = snd m (south A (mesh_x A c) + n * ?t + k))))"
    if n: "n < ?Z c * ?L" for n
  proof -
    have s: "sched ?L n < ?Z c * (?L + 1)" using n sched_bound [OF L] by blast
    then have i: "lag A c + 1 + sched ?L n < ?total" using total(1) by linarith
    then have "lag A c + 1 + sched ?L n < 4294967295" using total(2) by linarith
    from operands_arrived [OF flow c this engine_runs [OF flow c n], of m] obtain n' where
      n': "lag A c + 1 + sched ?L n = lag A c + 1 + sched ?L n'"
      and v: "\<forall>k<?t. \<forall>j\<in>{lag A c + 1 + sched ?L n, Suc (lag A c + 1 + sched ?L n)}.
        fst (chip_run A ?info m j) c (xo ?t n + k) =
          snd (chip_run A ?info m (mesh_y A c + sched ?L n')) (west A (mesh_y A c) + n' * ?t + k) \<and>
        fst (chip_run A ?info m j) c (wo ?t n + k) =
          snd (chip_run A ?info m (mesh_x A c + sched ?L n')) (south A (mesh_x A c) + n' * ?t + k)"
      by blast
    have "sched ?L n = sched ?L n'" using n' by linarith
    then have eq: "n' = n" using sched_inject [OF L, of n n'] sched_inject [OF L, of n' n] by linarith
    have b: "mesh_y A c + sched ?L n \<le> 4294967296" "mesh_x A c + sched ?L n \<le> 4294967296"
      using iteration_bound [OF flow c n] by linarith+
    have h: "unat (ARCH_HBM_START_BASE A) \<le> west A y + a + k" "unat (ARCH_HBM_START_BASE A) \<le> south A y + a + k" for y a k
      using hbm_below(1) [of A y] hbm_below(2) [of A y] by linarith+
    show ?thesis
      unfolding Let_def using i engine_runs [OF flow c n] v run_hbm [OF flow _ h(1) b(1)] run_hbm [OF flow _ h(2) b(2)]
      unfolding eq by auto
  qed
  have only: "\<exists>n < ?Z c * ?L. i = lag A c + 1 + sched ?L n" if i: "i < ?total" and e: "engine ?info c i \<noteq> None" for i
  proof -
    obtain x w y where "engine ?info c i = Some (x, w, y)" using e by (cases "engine ?info c i") auto
    moreover have "i < 4294967296" using i total(2) by linarith
    ultimately show ?thesis using engine_operands [OF flow c] by blast
  qed
  show ?thesis unfolding Let_def using run only unfolding Let_def by blast
qed

theorem systolic_operands_witness:
  "let A = arch_default; info = systolic_info A 128 128 128 2 16 16 16; L = tiles 128 16; Z = rounds A 128 128 16 16;
      t = unat (16 :: u32) * unat (16 :: u32) * unat (2 :: u32); total = unat (total_iter (info 5)); m = (\<lambda>_ _. 0, \<lambda>_. 0) in
    (\<forall>n < Z 5 * L. let i = lag A 5 + 1 + sched L n in i < total \<and>
      (\<exists>x w. engine info 5 i = Some (x, w, 4 * t) \<and> (\<forall>k<t. \<forall>j\<in>{i, Suc i}.
        fst (chip_run A info m j) 5 (x + k) = snd (chip_run A info m (mesh_y A 5 + sched L n)) (west A (mesh_y A 5) + n * t + k) \<and>
        fst (chip_run A info m j) 5 (w + k) = snd (chip_run A info m (mesh_x A 5 + sched L n)) (south A (mesh_x A 5) + n * t + k) \<and>
        (untouched A info Z (west A (mesh_y A 5) + n * t + k) \<longrightarrow>
          fst (chip_run A info m j) 5 (x + k) = snd m (west A (mesh_y A 5) + n * t + k)) \<and>
        (untouched A info Z (south A (mesh_x A 5) + n * t + k) \<longrightarrow>
          fst (chip_run A info m j) 5 (w + k) = snd m (south A (mesh_x A 5) + n * t + k))))) \<and>
    (\<forall>i<total. engine info 5 i \<noteq> None \<longrightarrow> (\<exists>n < Z 5 * L. i = lag A 5 + 1 + sched L n))"
proof -
  have "systolic_ok arch_default 128 128 128 2 16 16 16"
    by (simp add: systolic_ok_def Let_def tiles_def map_ok_def arch_ok_def clusters_def south_def hbm_node_def)
  moreover have "5 < clusters arch_default" by (simp add: clusters_def)
  ultimately show ?thesis unfolding Let_def [of arch_default] Let_def [of "(\<lambda>_ _. 0, \<lambda>_. 0)"] by (rule systolic_operands)
qed

text \<open>The streams of X lie below the areas of Z.\<close>

lemma west_untouched: "a < south A 0 \<Longrightarrow> untouched A info Z a"
  by (auto simp: untouched_def in_output_def out_base_def south_def hbm_node_def algebra_simps)

subsection \<open>What the schedule gets wrong\<close>

text \<open>At the first tile of every later round the engine accumulates into Y in the very iteration in which the
  data mover stores and clears Y.\<close>

lemma store_meets_engine:
  assumes ok: "flow_ok A info L Z t" and c: "c < clusters A" and st: "0 < st" "st < Z c"
  shows "engine info c (lag A c + st * (L + 1) + 1) = Some (xo t (st * L), wo t (st * L), 4 * t) \<and>
    (\<exists>d z. requests A info c (lag A c + st * (L + 1) + 1) =
      [(d, unat (ARCH_CLUSTER_TCDM_BASE A) + 4 * t, unat (tile_size_byte_Y (info c))),
       (unat (ARCH_CLUSTER_TCDM_BASE A) + 4 * t, z, unat (tile_size_byte_Y (info c)))])"
proof -
  note f = flowD [OF ok c]
  let ?j = "info c" and ?p = "get_pos A (of_nat c)" and ?e = "st * (L + 1) + 1"
  have b: "Z c * (L + 1) + lag A c + 2 < 4294967296" "unat (XW_tile_length ?j) = L" "unat (Y_offset ?j) = 4 * t"
    using f(6) by (simp_all add: cluster_info_ok_def)
  have n: "st * L < Z c * L" "sched L (st * L) = st * (L + 1)" using st f(3) by (simp_all add: sched_def)
  have "Suc st * (L + 1) \<le> Z c * (L + 1)" using st(2) by (intro mult_le_mono1) simp
  then have e: "?e < Z c * (L + 1)" using f(3) unfolding mult_Suc by linarith
  then have i: "lag A c + ?e < 4294967296" "?e < 4294967296" using b(1) by linarith+
  have "1 * (L + 1) \<le> Z c * (L + 1)" using st by (intro mult_le_mono1) simp
  then have L: "L + 1 < 4294967296" using b(1) unfolding mult_1 by linarith
  note ph = phase_nat [OF f(6) i(1)]
  have s: "?e mod (L + 1) = 1" "?e div (L + 1) = st" using row_col [of 1 "L + 1" st] f(3) by simp_all
  from eff_xw_nat [OF b(2) L i(2)] obtain s' st' n' where
    x: "eff_xw ?j (of_nat ?e) = (s', st', n')" "unat s' = 1" "unat st' = st" unfolding s by blast
  have s': "s' = 1" "st' \<noteq> 0" using x(2,3) st(1) by (auto simp: unat_eq_iff32)
  have stream: "in_stream ?j (of_nat (lag A c + ?e))" "\<not> at_final_store ?j (of_nat (lag A c + ?e))"
    "of_nat (lag A c + ?e) - systolic_delay ?j = of_nat ?e"
    using ph(1-3) e by (simp_all del: of_nat_add of_nat_mult of_nat_Suc)
  have y: "unat (local_addr A (Y_offset ?j)) = unat (ARCH_CLUSTER_TCDM_BASE A) + 4 * t"
    using local_nat [OF f(1), of "Y_offset ?j"] b(3) f(5) by simp
  have "requests A info c (lag A c + ?e) =
      [(unat (store_addr A ?p ?j st'), unat (ARCH_CLUSTER_TCDM_BASE A) + 4 * t, unat (tile_size_byte_Y ?j)),
       (unat (ARCH_CLUSTER_TCDM_BASE A) + 4 * t, unat (zomem A 0), unat (tile_size_byte_Y ?j))]"
    unfolding requests_def access_stream [OF stream(1,2)] stream_actions_def clear_dma_sel stream(3) x(1) Let_def prod.case
    using s' y by simp
  moreover have "engine info c (lag A c + ?e) = Some (xo t (st * L), wo t (st * L), 4 * t)"
    using engine_runs [OF ok c n(1)] unfolding n(2) by (simp add: ac_simps)
  ultimately show ?thesis by (auto simp: add.assoc)
qed

text \<open>A cluster without a tile of Z stores its Y buffer all the same.\<close>

lemma idle_cluster_stores:
  assumes "Z_tile_all j = 0"
  shows "use_dma1 (gemm_systolic_wise_compute_dma_access A cid j (systolic_delay j + 1))"
    "dma1_src (gemm_systolic_wise_compute_dma_access A cid j (systolic_delay j + 1)) = local_addr A (Y_offset j)"
proof -
  have "\<not> in_stream j (systolic_delay j + 1)" using assms by (auto simp: in_stream_def dest: leD)
  moreover have "at_final_store j (systolic_delay j + 1)" using assms by (simp add: at_final_store_def)
  ultimately show "use_dma1 (gemm_systolic_wise_compute_dma_access A cid j (systolic_delay j + 1))"
    "dma1_src (gemm_systolic_wise_compute_dma_access A cid j (systolic_delay j + 1)) = local_addr A (Y_offset j)"
    by (simp_all add: gemm_systolic_wise_compute_dma_access_def final_actions_def Let_def)
qed

text \<open>The second buffer of X begins within the first one when the tiles of W are smaller than half of those of X.\<close>

lemma x_buffers_overlap:
  assumes "gemm_systolic_wise_analysis A cid M N K e tM tN tK = Some j"
    and "2 * unat (tile_size_byte_W j) < unat (tile_size_byte_X j)"
  shows "X_offset_1 j \<le> X_offset_2 j" "unat (X_offset_2 j) < unat (X_offset_1 j) + unat (tile_size_byte_X j)"
proof -
  have j: "X_offset_1 j = 0" "X_offset_2 j = 2 * tile_size_byte_W j"
    using assms(1) unfolding gemm_systolic_wise_analysis_def Let_def by (auto simp: bind_eq_Some_conv)
  have "2 * unat (tile_size_byte_W j) < 4294967296" using assms(2) unat_lt32 by (rule order_less_trans)
  then have "unat (2 * tile_size_byte_W j) = 2 * unat (tile_size_byte_W j)" using unat_scale [of "tile_size_byte_W j" _ 2] by simp
  then show "X_offset_1 j \<le> X_offset_2 j" "unat (X_offset_2 j) < unat (X_offset_1 j) + unat (tile_size_byte_X j)"
    using assms(2) j by simp_all
qed

text \<open>With the sizes of \<open>main.c\<close> the areas of Z begin where the south edge loads tile 64 of its W stream, which has
  256 tiles, and behind the last node of HBM.\<close>

lemma main_output:
  assumes c: "c < clusters arch_default"
  shows "out_base arch_default (systolic_info arch_default 4096 4096 4096 2 256 256 256 c) c =
      south arch_default (mesh_x arch_default c) + 64 * (256 * 256 * 2)"
    "64 < rounds arch_default 4096 4096 256 256 c * tiles 4096 256"
    "south arch_default 4 \<le> out_base arch_default (systolic_info arch_default 4096 4096 4096 2 256 256 256 c) c"
proof -
  let ?j = "systolic_info arch_default 4096 4096 4096 2 256 256 256 c"
  have "matrix_N ?j = 4096" "matrix_K ?j = 4096" "elem_size ?j = 2"
    using analysis_flow(1) [OF systolic_main_ok c] unfolding gemm_systolic_wise_analysis_def Let_def
    by (auto simp: bind_eq_Some_conv dest: arg_cong [of _ _ matrix_N] arg_cong [of _ _ matrix_K] arg_cong [of _ _ elem_size])
  then show o: "out_base arch_default ?j c = south arch_default (mesh_x arch_default c) + 64 * (256 * 256 * 2)"
    by (simp add: out_base_def)
  show "south arch_default 4 \<le> out_base arch_default ?j c" unfolding o by (simp add: south_def hbm_node_def)
  have "mesh_x arch_default c < 4" "mesh_y arch_default c < 4"
    using c by (simp_all add: mesh_x_def mesh_y_def clusters_def)
  then have "(19 - mesh_x arch_default c) div 4 = 4" "(19 - mesh_y arch_default c) div 4 = 4" by presburger+
  then show "64 < rounds arch_default 4096 4096 256 256 c * tiles 4096 256"
    by (simp add: rounds_def share_def tiles_def)
qed

end
