(* ===== verification/Sim_Banks.thy ===== *)
theory Sim_Banks
  imports SH_Prelude "HOL-Library.Log_Nat" "HOL-Library.Monad_Syntax"
begin

text \<open>
  The address maps of two hardware models: the HBM controller \<open>flex_cluster/hbm_ctrl.cpp\<close>, which spreads the
  requests of its nodes over the channels, and \<open>flex_cluster/hwpe_interleaver.cpp\<close>, through which the matrix
  engine and the DMA engine see the banks of the L1 memory as one memory.
\<close>

subsection \<open>HBM controller\<close>

record hbm_ctrl =
  nb_slaves :: nat
  stage_bits :: nat
  interleaving_bits :: nat
  node_addr_offset :: u64
  hbm_node_aliase :: u64
  xor_scrambling :: u64
  red_scrambling :: u64

text \<open>\<open>log2(n)\<close> as an \<open>int\<close>; \<open>log2(m) + log2(n)\<close> as an \<open>int\<close> is that of the product.\<close>

definition ilog2 :: "nat \<Rightarrow> nat" where
  "ilog2 n = floorlog 2 n - 1"

definition hbm_ctrl_new :: "nat \<Rightarrow> nat \<Rightarrow> nat \<Rightarrow> u64 \<Rightarrow> u64 \<Rightarrow> u64 \<Rightarrow> u64 \<Rightarrow> hbm_ctrl" where
  "hbm_ctrl_new slaves stage ib node aliase xs rs =
     \<lparr>nb_slaves = slaves, stage_bits = (if stage = 0 then ilog2 slaves else stage), interleaving_bits = ib,
      node_addr_offset = node, hbm_node_aliase = aliase, xor_scrambling = xs, red_scrambling = rs\<rparr>"

definition bank_mask :: "hbm_ctrl \<Rightarrow> u64" where
  "bank_mask c = push_bit (stage_bits c) 1 - 1"

text \<open>The bank and the address in it of the plain interleaving.\<close>

definition plain_bank :: "hbm_ctrl \<Rightarrow> u64 \<Rightarrow> u32" where
  "plain_bank c offset = ucast (drop_bit (interleaving_bits c) offset AND bank_mask c)"

definition plain_offset :: "hbm_ctrl \<Rightarrow> u64 \<Rightarrow> u64" where
  "plain_offset c offset =
     push_bit (interleaving_bits c) (drop_bit (stage_bits c + interleaving_bits c) offset) +
     (offset AND (push_bit (interleaving_bits c) 1 - 1))"

definition hbm_req :: "hbm_ctrl \<Rightarrow> u64 \<Rightarrow> u32 \<times> u64" where
  "hbm_req c offset = (plain_bank c offset, plain_offset c offset)"

text \<open>The loop of the bank scrambling: \<open>bank_id\<close> is an \<open>int\<close>, \<open>tmp\<close> a \<open>uint64_t\<close>.\<close>

definition num_xor :: "hbm_ctrl \<Rightarrow> nat" where
  "num_xor c = (32 - interleaving_bits c - 1) div stage_bits c"

definition xor_step :: "hbm_ctrl \<Rightarrow> u32 \<times> u64 \<Rightarrow> u32 \<times> u64" where
  "xor_step c s = (case s of (bank, tmp) \<Rightarrow> (bank XOR ucast tmp, drop_bit (stage_bits c) tmp))"

definition scramble :: "hbm_ctrl \<Rightarrow> u64 \<Rightarrow> u32 \<Rightarrow> u32" where
  "scramble c offset bank =
     fst ((xor_step c ^^ num_xor c) (bank, drop_bit (stage_bits c + interleaving_bits c) offset)) AND ucast (bank_mask c)"

text \<open>The request of node \<open>mux_id\<close>; \<open>None\<close> is the division by zero with a single channel.\<close>

definition node_address :: "hbm_ctrl \<Rightarrow> nat \<Rightarrow> u64 \<Rightarrow> u64" where
  "node_address c mux_id offset =
     (if hbm_node_aliase c > 1
      then offset + (of_nat mux_id div hbm_node_aliase c) * (node_addr_offset c * hbm_node_aliase c)
      else offset + of_nat mux_id * node_addr_offset c)"

definition hbm_req_muxed :: "hbm_ctrl \<Rightarrow> nat \<Rightarrow> u64 \<Rightarrow> (u32 \<times> u64) option" where
  "hbm_req_muxed c mux_id offset0 =
     (let offset = node_address c mux_id offset0;
          bank = plain_bank c offset;
          bank = (if xor_scrambling c \<noteq> 0 \<and> stage_bits c > 0 then scramble c offset bank else bank);
          line = drop_bit (interleaving_bits c) offset;
          n = of_nat (nb_slaves c - 1)
      in if red_scrambling c = 0 then Some (bank, plain_offset c offset)
         else if nb_slaves c = 1 then None
         else Some (ucast (line mod n),
           push_bit (interleaving_bits c) (line div n) + (offset AND (push_bit (interleaving_bits c) 1 - 1))))"

text \<open>Test and set: the accesses it sends, with the direction; \<open>ok\<close> tells how the read was answered.\<close>

definition ts_offset :: "hbm_ctrl \<Rightarrow> u64 \<Rightarrow> u64" where
  "ts_offset c offset =
     (push_bit 2 (drop_bit (stage_bits c + 2) offset) + (offset AND 3)) AND NOT (push_bit (20 - stage_bits c) 1)"

definition hbm_req_ts :: "hbm_ctrl \<Rightarrow> u64 \<Rightarrow> bool \<Rightarrow> bool \<Rightarrow> (u32 \<times> u64 \<times> bool) list" where
  "hbm_req_ts c offset is_write ok =
     (let b = plain_bank c offset; d = ts_offset c offset in
      if is_write then [(b, d, True)] else if ok then [(b, d, False), (b, d, True)] else [(b, d, False)])"

subsection \<open>Interleaver of the L1 banks\<close>

record hwpe =
  bank_width :: nat
  id_shift :: nat
  id_mask :: u64
  offset_right_shift :: nat
  offset_left_shift :: nat

definition hwpe_new :: "nat \<Rightarrow> nat \<Rightarrow> hwpe" where
  "hwpe_new nb_banks width =
     \<lparr>bank_width = width, id_shift = ilog2 width, id_mask = push_bit (ilog2 nb_banks) 1 - 1,
      offset_right_shift = ilog2 (width * nb_banks), offset_left_shift = ilog2 width\<rparr>"

definition hwpe_bank :: "hwpe \<Rightarrow> u64 \<Rightarrow> nat" where
  "hwpe_bank c offset = unat (drop_bit (id_shift c) offset AND id_mask c)"

definition hwpe_offset :: "hwpe \<Rightarrow> u64 \<Rightarrow> u64" where
  "hwpe_offset c offset =
     push_bit (offset_left_shift c) (drop_bit (offset_right_shift c) offset) +
     (offset AND (push_bit (offset_left_shift c) 1 - 1))"

definition bank_size :: "hwpe \<Rightarrow> u64 \<Rightarrow> u64 \<Rightarrow> u64" where
  "bank_size c offset n = min (of_nat (bank_width c) - (offset AND (of_nat (bank_width c) - 1))) n"

text \<open>One request to a bank: \<open>len\<close> bytes of \<open>data\<close> from \<open>d\<close> on, at \<open>b\<close> in the bank.\<close>

type_synonym banks = "nat \<Rightarrow> u64 \<Rightarrow> u8"

definition bank_access :: "bool \<Rightarrow> nat \<Rightarrow> u64 \<Rightarrow> nat \<Rightarrow> nat \<Rightarrow> banks \<times> (nat \<Rightarrow> u8) \<Rightarrow> banks \<times> (nat \<Rightarrow> u8)" where
  "bank_access is_write bank b len d s = (case s of (m, data) \<Rightarrow>
     if is_write then (m(bank := (\<lambda>p. if unat (p - b) < len then data (d + unat (p - b)) else m bank p)), data)
     else (m, \<lambda>q. if d \<le> q \<and> q < d + len then m bank (b + of_nat (q - d)) else data q))"

text \<open>The loop of \<open>req\<close>: \<open>latency\<close> is what a bank reports for a request, \<open>d\<close> how far \<open>data\<close> has moved.  It
  does not end for a bank width of 0.\<close>

partial_function (option) hwpe_loop ::
    "hwpe \<Rightarrow> (nat \<Rightarrow> u64 \<Rightarrow> int) \<Rightarrow> bool \<Rightarrow> u64 \<Rightarrow> u64 \<Rightarrow> nat \<Rightarrow> int \<Rightarrow> banks \<times> (nat \<Rightarrow> u8) \<Rightarrow>
     (int \<times> banks \<times> (nat \<Rightarrow> u8)) option" where
  "hwpe_loop c latency is_write offset n d max_latency s =
     (if n = 0 then Some (max_latency, s)
      else
        (let len = bank_size c offset n; bank = hwpe_bank c offset; b = hwpe_offset c offset;
             s' = bank_access is_write bank b (unat len) d s; l = latency bank b
         in hwpe_loop c latency is_write (offset + len) (n - len) (d + unat len) (if l > max_latency then l else max_latency) s'))"

definition hwpe_req ::
    "hwpe \<Rightarrow> (nat \<Rightarrow> u64 \<Rightarrow> int) \<Rightarrow> bool \<Rightarrow> u64 \<Rightarrow> u64 \<Rightarrow> banks \<times> (nat \<Rightarrow> u8) \<Rightarrow> (int \<times> banks \<times> (nat \<Rightarrow> u8)) option" where
  "hwpe_req c latency is_write offset n s = hwpe_loop c latency is_write offset n 0 0 s"

end
