(* ===== verification/Sim_Banks_Props.thy ===== *)
theory Sim_Banks_Props
  imports Sim_Banks
begin

text \<open>
  The address maps of \<open>Sim_Banks\<close>: no two addresses share a place, with or without scrambling of the
  channels, and the banks of L1 behind the interleaver are one flat memory.
\<close>

subsection \<open>Interleaving over natural numbers\<close>

definition place :: "nat \<Rightarrow> nat \<Rightarrow> nat \<Rightarrow> nat \<times> nat" where
  "place b k p = (p div 2 ^ k mod 2 ^ b, p div 2 ^ (b + k) * 2 ^ k + p mod 2 ^ k)"

definition address :: "nat \<Rightarrow> nat \<Rightarrow> nat \<times> nat \<Rightarrow> nat" where
  "address b k bo = (snd bo div 2 ^ k * 2 ^ b + fst bo) * 2 ^ k + snd bo mod 2 ^ k"

lemma place_line: "snd (place b k p) div 2 ^ k = p div 2 ^ (b + k)" "snd (place b k p) mod 2 ^ k = p mod 2 ^ k"
  by (simp_all add: place_def)

lemma address_place: "address b k (place b k p) = p"
proof -
  have "p div 2 ^ (b + k) = p div 2 ^ k div 2 ^ b" unfolding add.commute [of b k] power_add div_mult2_eq ..
  then have e: "p div 2 ^ (b + k) * 2 ^ b + p div 2 ^ k mod 2 ^ b = p div 2 ^ k" by (simp only: div_mult_mod_eq)
  show ?thesis unfolding address_def place_line unfolding place_def fst_conv e by (rule div_mult_mod_eq)
qed

lemma place_inject: "place b k p = place b k q \<longleftrightarrow> p = q"
  by (metis address_place)

text \<open>Within a line of \<open>2 ^ k\<close> bytes the bank stays and the address in it moves along.\<close>

lemma place_add:
  assumes "p mod 2 ^ k + i < 2 ^ k"
  shows "place b k (p + i) = (fst (place b k p), snd (place b k p) + i)"
proof -
  have e: "p + i = p div 2 ^ k * 2 ^ k + (p mod 2 ^ k + i)"
    using div_mult_mod_eq [of p "2 ^ k"] by linarith
  have d: "(p + i) div 2 ^ k = p div 2 ^ k" "(p + i) mod 2 ^ k = p mod 2 ^ k + i"
    using assms by (subst e, simp)+
  have "(p + i) div 2 ^ (b + k) = p div 2 ^ (b + k)"
    unfolding add.commute [of b k] power_add div_mult2_eq d(1) ..
  then show ?thesis by (simp add: place_def d)
qed

subsection \<open>Words\<close>

lemma unat_of_nat64: "n < 18446744073709551616 \<Longrightarrow> unat (of_nat n :: u64) = n"
  by (simp add: unat_of_nat)

lemma unat_low: "unat (x AND (push_bit k 1 - 1) :: 'a::len word) = unat x mod 2 ^ k"
proof -
  have e: "x AND (push_bit k 1 - 1) = take_bit k x" by (simp only: take_bit_eq_mask mask_eq_exp_minus_1 push_bit_of_1)
  show ?thesis unfolding e unsigned_take_bit_eq by (rule take_bit_eq_mod)
qed

lemma unat_drop: "unat (drop_bit k x :: 'a::len word) = unat x div 2 ^ k"
  unfolding unat_drop_bit_eq by (rule drop_bit_eq_div)

lemma unat_line_offset:
  "unat (push_bit k (drop_bit (b + k) x) + (x AND (push_bit k 1 - 1)) :: 'a::len word) = snd (place b k (unat x))"
proof -
  let ?h = "unat x div 2 ^ (b + k)" and ?l = "unat x mod 2 ^ k"
  have "?h * 2 ^ k \<le> unat x div 2 ^ k * 2 ^ k"
    unfolding add.commute [of b k] power_add div_mult2_eq by (rule mult_le_mono1) (rule div_le_dividend)
  moreover have "unat x div 2 ^ k * 2 ^ k + ?l = unat x" by (rule div_mult_mod_eq)
  moreover have "unat x < 2 ^ LENGTH('a)" by (rule unsigned_less)
  ultimately have small: "?h * 2 ^ k + ?l < 2 ^ LENGTH('a)" by linarith
  then have u: "unat (push_bit k (drop_bit (b + k) x)) = ?h * 2 ^ k"
    unfolding unsigned_push_bit_eq unat_drop by (subst take_bit_nat_eq_self) (simp_all add: push_bit_eq_mult)
  show ?thesis
    using unat_add_lem [of "push_bit k (drop_bit (b + k) x)" "x AND (push_bit k 1 - 1)", unfolded u unat_low] small
    unfolding place_def snd_conv by blast
qed

subsection \<open>The channels of the HBM controller\<close>

text \<open>What the constructor is given: shifts within 32 bits, at least two channels, nodes with an address space.\<close>

definition hbm_ok :: "hbm_ctrl \<Rightarrow> bool" where
  "hbm_ok c = (interleaving_bits c + stage_bits c < 31 \<and> 1 < nb_slaves c \<and> nb_slaves c < 2147483648)"

lemma plain_nat:
  assumes "hbm_ok c"
  shows "unat (plain_bank c x) = fst (place (stage_bits c) (interleaving_bits c) (unat x))"
    and "unat (plain_offset c x) = snd (place (stage_bits c) (interleaving_bits c) (unat x))"
proof -
  let ?m = "drop_bit (interleaving_bits c) x AND bank_mask c"
  have m: "unat ?m = unat x div 2 ^ interleaving_bits c mod 2 ^ stage_bits c"
    unfolding bank_mask_def unat_low unat_drop ..
  have "unat ?m < 2 ^ stage_bits c" unfolding m by simp
  also have "(2 :: nat) ^ stage_bits c \<le> 2 ^ 32" using assms by (intro power_increasing) (simp_all add: hbm_ok_def)
  finally have "unat ?m < 4294967296" by simp
  then have "unat (ucast ?m :: u32) = unat ?m" unfolding unsigned_ucast_eq by (subst take_bit_nat_eq_self) simp_all
  then show "unat (plain_bank c x) = fst (place (stage_bits c) (interleaving_bits c) (unat x))"
    unfolding plain_bank_def m place_def by simp
  show "unat (plain_offset c x) = snd (place (stage_bits c) (interleaving_bits c) (unat x))"
    unfolding plain_offset_def by (rule unat_line_offset)
qed

text \<open>The scrambling adds the bits of the row to those of the bank.\<close>

definition row_bits :: "hbm_ctrl \<Rightarrow> u64 \<Rightarrow> u32" where
  "row_bits c tmp = fst ((xor_step c ^^ num_xor c) (0, tmp))"

lemma xor_steps:
  "(xor_step c ^^ n) (bank, tmp) = (bank XOR fst ((xor_step c ^^ n) (0, tmp)), snd ((xor_step c ^^ n) (0, tmp)))"
proof (induction n)
  case (Suc n)
  obtain b t where "(xor_step c ^^ n) (0, tmp) = (b, t)" by (cases "(xor_step c ^^ n) (0, tmp)")
  moreover have "xor_step c (b, t) = (b XOR ucast t, drop_bit (stage_bits c) t)" for b t by (simp add: xor_step_def)
  ultimately show ?case using Suc by (simp add: xor.assoc)
qed simp

lemma scramble_row:
  "scramble c x bank = (bank XOR row_bits c (drop_bit (stage_bits c + interleaving_bits c) x)) AND ucast (bank_mask c)"
  unfolding scramble_def row_bits_def by (subst xor_steps) simp

lemma scramble_inverse:
  "(scramble c x (plain_bank c x) XOR row_bits c (drop_bit (stage_bits c + interleaving_bits c) x)) AND ucast (bank_mask c) =
    plain_bank c x"
  unfolding scramble_row plain_bank_def by (rule bit_word_eqI) (auto simp: bit_simps)

lemma row_of_offset:
  assumes "hbm_ok c" and "plain_offset c x = plain_offset c y"
  shows "drop_bit (stage_bits c + interleaving_bits c) x = drop_bit (stage_bits c + interleaving_bits c) y"
proof -
  have "snd (place (stage_bits c) (interleaving_bits c) (unat x)) = snd (place (stage_bits c) (interleaving_bits c) (unat y))"
    using assms(2) plain_nat(2) [OF assms(1)] by metis
  then show ?thesis unfolding word_unat_eq_iff unat_drop by (metis place_line(1))
qed

lemma plain_inject:
  assumes "hbm_ok c" and "plain_bank c x = plain_bank c y" and "plain_offset c x = plain_offset c y"
  shows "x = y"
proof -
  have "place (stage_bits c) (interleaving_bits c) (unat x) = place (stage_bits c) (interleaving_bits c) (unat y)"
    using assms plain_nat [OF assms(1)] by (metis prod.collapse)
  then show ?thesis unfolding place_inject word_unat_eq_iff .
qed

text \<open>One channel less: line and byte from channel and address.\<close>

lemma reduced_inject:
  fixes x y n :: u64
  assumes n: "0 < n" "unat n < 4294967296" and "(ucast (drop_bit k x mod n) :: u32) = ucast (drop_bit k y mod n)"
    and "push_bit k (drop_bit k x div n) + (x AND (push_bit k 1 - 1)) = push_bit k (drop_bit k y div n) + (y AND (push_bit k 1 - 1))"
  shows "x = y"
proof -
  have n': "0 < unat n" using n(1) by (simp add: word_less_nat_alt)
  have bank: "unat (ucast (drop_bit k z mod n) :: u32) = unat z div 2 ^ k mod unat n" for z :: u64
  proof -
    have "unat z div 2 ^ k mod unat n < 4294967296" using n' n(2) by (meson less_trans mod_less_divisor)
    then show ?thesis unfolding unsigned_ucast_eq unat_mod unat_drop by (subst take_bit_nat_eq_self) simp_all
  qed
  have off: "unat (push_bit k (drop_bit k z div n) + (z AND (push_bit k 1 - 1))) =
      unat z div 2 ^ k div unat n * 2 ^ k + unat z mod 2 ^ k" for z :: u64
  proof -
    let ?h = "unat z div 2 ^ k div unat n" and ?l = "unat z mod 2 ^ k"
    have "?h * 2 ^ k \<le> unat z div 2 ^ k * 2 ^ k" by (rule mult_le_mono1) (rule div_le_dividend)
    moreover have "unat z div 2 ^ k * 2 ^ k + ?l = unat z" by (rule div_mult_mod_eq)
    moreover have "unat z < 2 ^ LENGTH(64)" by (rule unsigned_less)
    ultimately have small: "?h * 2 ^ k + ?l < 2 ^ LENGTH(64)" by linarith
    then have u: "unat (push_bit k (drop_bit k z div n)) = ?h * 2 ^ k"
      unfolding unsigned_push_bit_eq unat_div unat_drop by (subst take_bit_nat_eq_self) (simp_all add: push_bit_eq_mult)
    show ?thesis
      using unat_add_lem [of "push_bit k (drop_bit k z div n)" "z AND (push_bit k 1 - 1)", unfolded u unat_low] small by blast
  qed
  have b: "unat x div 2 ^ k mod unat n = unat y div 2 ^ k mod unat n" using assms(3) bank by metis
  have o': "unat x div 2 ^ k div unat n * 2 ^ k + unat x mod 2 ^ k = unat y div 2 ^ k div unat n * 2 ^ k + unat y mod 2 ^ k"
    using assms(4) off by metis
  have q: "unat x div 2 ^ k div unat n = unat y div 2 ^ k div unat n" "unat x mod 2 ^ k = unat y mod 2 ^ k"
    using arg_cong [OF o', of "\<lambda>a. a div 2 ^ k"] arg_cong [OF o', of "\<lambda>a. a mod 2 ^ k"] by simp_all
  have "unat x div 2 ^ k = unat y div 2 ^ k" using b q(1) by (metis div_mult_mod_eq)
  then have "unat x = unat y" using q(2) by (metis div_mult_mod_eq)
  then show ?thesis unfolding word_unat_eq_iff .
qed

lemma translate_inject:
  assumes ok: "hbm_ok c" and e: "hbm_req_muxed c i p = hbm_req_muxed c j q"
  shows "node_address c i p = node_address c j q"
proof -
  let ?x = "node_address c i p" and ?y = "node_address c j q"
  let ?n = "of_nat (nb_slaves c - 1) :: u64"
  have "nb_slaves c - 1 < 2147483648" using ok unfolding hbm_ok_def by linarith
  then have n: "unat ?n = nb_slaves c - 1" by (intro unat_of_nat64) simp
  show ?thesis
  proof (cases "red_scrambling c = 0")
    case True
    let ?B = "\<lambda>x. if xor_scrambling c \<noteq> 0 \<and> 0 < stage_bits c then scramble c x (plain_bank c x) else plain_bank c x"
    have b: "?B ?x = ?B ?y" and o': "plain_offset c ?x = plain_offset c ?y"
      using e True unfolding hbm_req_muxed_def Let_def by simp_all
    have "plain_bank c ?x = plain_bank c ?y"
    proof (cases "xor_scrambling c \<noteq> 0 \<and> 0 < stage_bits c")
      case True
      then show ?thesis
        using b row_of_offset [OF ok o'] scramble_inverse [of c ?x] scramble_inverse [of c ?y] by simp
    next
      case False
      then show ?thesis using b by (simp only: if_False)
    qed
    then show ?thesis using plain_inject [OF ok _ o'] by blast
  next
    case False
    have "1 < nb_slaves c" "nb_slaves c < 2147483648" using ok unfolding hbm_ok_def by blast+
    then have nb: "nb_slaves c \<noteq> 1" "0 < ?n" "unat ?n < 4294967296"
      unfolding word_less_nat_alt n unat_0 by linarith+
    show ?thesis
      using reduced_inject [OF nb(2,3), of "interleaving_bits c" ?x ?y] e False nb(1)
      unfolding hbm_req_muxed_def Let_def by simp
  qed
qed

text \<open>The address spaces of the nodes lie one behind the other; aliased nodes share one.\<close>

definition group_size :: "hbm_ctrl \<Rightarrow> nat" where
  "group_size c = (if hbm_node_aliase c > 1 then unat (hbm_node_aliase c) else 1)"

lemma node_address_nat:
  assumes "(i div group_size c + 1) * (unat (node_addr_offset c) * group_size c) \<le> 18446744073709551616"
    and "unat p < unat (node_addr_offset c) * group_size c" and "i < 18446744073709551616"
  shows "unat (node_address c i p) = i div group_size c * (unat (node_addr_offset c) * group_size c) + unat p"
proof -
  let ?N = "unat (node_addr_offset c)" and ?q = "i div group_size c"
  have i: "unat (of_nat i :: u64) = i" by (rule unat_of_nat64 [OF assms(3)])
  have "node_address c i p = of_nat (unat p) + of_nat ?q * (of_nat ?N * of_nat (group_size c))"
  proof (cases "hbm_node_aliase c > 1")
    case True
    then show ?thesis unfolding node_address_def group_size_def by (simp add: word_arith_nat_div [of "of_nat i"] i)
  next
    case False
    then show ?thesis by (simp add: node_address_def group_size_def)
  qed
  then have e: "node_address c i p = of_nat (unat p + ?q * (?N * group_size c))" by simp
  have "unat p + ?q * (?N * group_size c) < 18446744073709551616" using assms(1,2) by simp
  then have "unat (node_address c i p) = unat p + ?q * (?N * group_size c)"
    unfolding e by (rule unat_of_nat64)
  then show ?thesis by simp
qed

text \<open>C15: the HBM controller maps the address spaces of its nodes onto the channels without overlap: two
  requests, of the same or different nodes, reach the same byte of the same channel exactly when their nodes
  share an address space (the same group of aliased nodes) and their addresses are equal; with the plain
  interleaving, with the scrambling of the banks and with one channel less.\<close>

theorem hbm_requests_separate:
  assumes "hbm_ok c"
    and "unat p < unat (node_addr_offset c) * group_size c" and "unat q < unat (node_addr_offset c) * group_size c"
    and "(i div group_size c + 1) * (unat (node_addr_offset c) * group_size c) \<le> 18446744073709551616"
    and "(j div group_size c + 1) * (unat (node_addr_offset c) * group_size c) \<le> 18446744073709551616"
    and "i < 18446744073709551616" and "j < 18446744073709551616"
  shows "hbm_req_muxed c i p = hbm_req_muxed c j q \<longleftrightarrow> i div group_size c = j div group_size c \<and> p = q"
proof -
  let ?S = "unat (node_addr_offset c) * group_size c"
  have n: "unat (node_address c i p) = i div group_size c * ?S + unat p"
    "unat (node_address c j q) = j div group_size c * ?S + unat q"
    using node_address_nat assms(2-7) by blast+
  have eq: "node_address c i p = node_address c j q \<longleftrightarrow> i div group_size c = j div group_size c \<and> p = q"
  proof
    assume "node_address c i p = node_address c j q"
    then have e: "i div group_size c * ?S + unat p = j div group_size c * ?S + unat q" using n by metis
    show "i div group_size c = j div group_size c \<and> p = q"
      using row_col [OF assms(2), of "i div group_size c"] row_col [OF assms(3), of "j div group_size c"]
      unfolding e word_unat_eq_iff by simp
  next
    assume "i div group_size c = j div group_size c \<and> p = q"
    then show "node_address c i p = node_address c j q" unfolding word_unat_eq_iff n by simp
  qed
  have "hbm_req_muxed c i p = hbm_req_muxed c j q" if "node_address c i p = node_address c j q"
    unfolding hbm_req_muxed_def that ..
  then show ?thesis using translate_inject [OF assms(1)] eq by blast
qed

text \<open>Four channels, lines of 64 bytes and nodes of 1 MiB in pairs: nodes 0 and 1 share addresses, node 2 does
  not.\<close>

lemma hbm_requests_separate_witness:
  "let c = hbm_ctrl_new 4 0 6 0x100000 2 1 0 in
     hbm_req_muxed c 0 0x1234 = hbm_req_muxed c 1 0x1234 \<and> hbm_req_muxed c 0 0x1234 \<noteq> hbm_req_muxed c 2 0x1234"
proof -
  let ?c = "hbm_ctrl_new 4 0 6 0x100000 2 1 0"
  have "ilog2 4 = 2" by (simp add: ilog2_def floorlog_def log_def ln_realpow [of 2 2, simplified]) 
  then have ok: "hbm_ok ?c" by (simp add: hbm_ok_def hbm_ctrl_new_def)
  have g: "group_size ?c = 2" "unat (node_addr_offset ?c) = 1048576" by (simp_all add: group_size_def hbm_ctrl_new_def)
  show ?thesis
    unfolding Let_def
    using hbm_requests_separate [OF ok, of "0x1234" "0x1234" 0 1] hbm_requests_separate [OF ok, of "0x1234" "0x1234" 0 2]
    by (simp add: g)
qed

text \<open>Test and set computes the address in the channel as for lines of four bytes: with lines of 64 bytes it
  reaches another word of the same channel than the plain request for the same address.\<close>

lemma ts_other_address:
  "let c = hbm_ctrl_new 4 2 6 0x100000 0 0 0 in
     hbm_req c 0x40 = (1, 0) \<and> hbm_req_ts c 0x40 False True = [(1, 0x10, False), (1, 0x10, True)]"
  by (simp add: hbm_ctrl_new_def hbm_req_def hbm_req_ts_def plain_bank_def plain_offset_def ts_offset_def bank_mask_def
      push_bit_of_1)

text \<open>With lines of four bytes and below \<open>2 ^ 20\<close> the two agree.\<close>

lemma ts_same_address:
  assumes "interleaving_bits c = 2" and "stage_bits c \<le> 18" and "unat x < 2 ^ 20"
  shows "hbm_req_ts c x False True = [(plain_bank c x, plain_offset c x, False), (plain_bank c x, plain_offset c x, True)]"
proof -
  let ?y = "plain_offset c x" and ?n = "20 - stage_bits c" and ?h = "unat x div 2 ^ (stage_bits c + 2)"
  have y: "unat ?y = ?h * 4 + unat x mod 4"
    using unat_line_offset [of 2 "stage_bits c" x] by (simp add: plain_offset_def assms(1) place_def)
  have n: "?n + stage_bits c = 20" "18 - stage_bits c + (stage_bits c + 2) = 20" "?n = Suc (Suc (18 - stage_bits c))"
    using assms(2) by simp_all
  have "unat x < 2 ^ (18 - stage_bits c) * 2 ^ (stage_bits c + 2)" using assms(3) unfolding n(2) power_add [symmetric] .
  then have "?h < 2 ^ (18 - stage_bits c)" by (simp add: less_mult_imp_div_less)
  moreover have "unat x mod 4 < 4" by simp
  ultimately have "unat ?y < 2 ^ (18 - stage_bits c) * 4" unfolding y by linarith
  then have "unat ?y < 2 ^ ?n" unfolding n(3) by simp
  then have "\<not> bit (unat ?y) ?n" by (simp add: bit_iff_odd)
  then have high: "\<not> bit ?y ?n" by (simp add: bit_unsigned_iff)
  have "?y AND NOT (push_bit ?n 1) = ?y"
    using high by (intro bit_word_eqI) (auto simp: bit_simps)
  moreover have "ts_offset c x = plain_offset c x AND NOT (push_bit (20 - stage_bits c) 1)"
    by (simp add: ts_offset_def plain_offset_def assms(1))
  ultimately show ?thesis by (simp add: hbm_req_ts_def Let_def)
qed

subsection \<open>The banks of L1 as one memory\<close>

lemma ilog2_power: "ilog2 (2 ^ k) = k"
proof -
  have "log 2 (2 ^ k) = real k" by simp
  then show ?thesis by (simp add: ilog2_def floorlog_def)
qed

lemma hwpe_new_sel:
  "bank_width (hwpe_new (2 ^ b) (2 ^ k)) = 2 ^ k" "id_shift (hwpe_new (2 ^ b) (2 ^ k)) = k"
  "id_mask (hwpe_new (2 ^ b) (2 ^ k)) = push_bit b 1 - 1" "offset_right_shift (hwpe_new (2 ^ b) (2 ^ k)) = b + k"
  "offset_left_shift (hwpe_new (2 ^ b) (2 ^ k)) = k"
  by (simp_all add: hwpe_new_def ilog2_power flip: power_add)

lemma hwpe_nat:
  "hwpe_bank (hwpe_new (2 ^ b) (2 ^ k)) x = fst (place b k (unat x))"
  "unat (hwpe_offset (hwpe_new (2 ^ b) (2 ^ k)) x) = snd (place b k (unat x))"
  unfolding hwpe_bank_def hwpe_offset_def hwpe_new_sel unat_line_offset unat_low unat_drop by (simp_all add: place_def)

lemma hwpe_inject:
  assumes "hwpe_bank (hwpe_new (2 ^ b) (2 ^ k)) x = hwpe_bank (hwpe_new (2 ^ b) (2 ^ k)) y"
    and "hwpe_offset (hwpe_new (2 ^ b) (2 ^ k)) x = hwpe_offset (hwpe_new (2 ^ b) (2 ^ k)) y"
  shows "x = y"
proof -
  have "place b k (unat x) = place b k (unat y)" using assms hwpe_nat by (metis prod.collapse)
  then show ?thesis unfolding place_inject word_unat_eq_iff .
qed

text \<open>A line ends within the address space.\<close>

lemma line_end:
  assumes "k < 31" and "unat x mod 2 ^ k + i < 2 ^ k"
  shows "unat (x + of_nat i :: u64) = unat x + i"
proof -
  let ?h = "unat x div 2 ^ k"
  have split: "unat x = ?h * 2 ^ k + unat x mod 2 ^ k" by (rule div_mult_mod_eq [symmetric])
  have top: "(18446744073709551616 :: nat) = 2 ^ (64 - k) * 2 ^ k" using assms(1) by (simp flip: power_add)
  have "unat x < 18446744073709551616" using unsigned_less [of x] by simp
  then have "?h * 2 ^ k < 2 ^ (64 - k) * 2 ^ k" using split unfolding top by linarith
  then have "Suc ?h \<le> 2 ^ (64 - k)" unfolding mult_less_cancel2 by simp
  then have "Suc ?h * 2 ^ k \<le> 2 ^ (64 - k) * 2 ^ k" by (rule mult_le_mono1)
  moreover have "unat x + i < Suc ?h * 2 ^ k" using split assms(2) by simp
  ultimately have small: "unat x + i < 18446744073709551616" unfolding top by linarith
  have "x + of_nat i = of_nat (unat x + i)" by simp
  then show ?thesis using unat_of_nat64 [OF small] by simp
qed

lemma hwpe_along:
  fixes b
  assumes "k < 31" and "unat x mod 2 ^ k + i < 2 ^ k"
  defines "c \<equiv> hwpe_new (2 ^ b) (2 ^ k)"
  shows "hwpe_bank c (x + of_nat i) = hwpe_bank c x" "hwpe_offset c (x + of_nat i) = hwpe_offset c x + of_nat i"
proof -
  note e = line_end [OF assms(1,2)] and p = place_add [OF assms(2), of b]
  show "hwpe_bank c (x + of_nat i) = hwpe_bank c x" unfolding c_def hwpe_nat e p by simp
  have "unat (hwpe_offset c (x + of_nat i)) = unat (hwpe_offset c x) + i" unfolding c_def hwpe_nat e p by simp
  from arg_cong [OF this, of "of_nat :: nat \<Rightarrow> u64"]
  show "hwpe_offset c (x + of_nat i) = hwpe_offset c x + of_nat i" by simp
qed

definition hwpe_flat :: "hwpe \<Rightarrow> banks \<Rightarrow> u64 \<Rightarrow> u8" where
  "hwpe_flat c m p = m (hwpe_bank c p) (hwpe_offset c p)"

text \<open>One chunk.\<close>

lemma chunk_write:
  fixes b
  assumes k: "k < 31" and len: "unat x mod 2 ^ k + len \<le> 2 ^ k"
  defines "c \<equiv> hwpe_new (2 ^ b) (2 ^ k)"
  shows "hwpe_flat c (fst (bank_access True (hwpe_bank c x) (hwpe_offset c x) len d (m, data))) p =
    (if unat (p - x) < len then data (d + unat (p - x)) else hwpe_flat c m p)"
proof (cases "unat (p - x) < len")
  case True
  let ?i = "unat (p - x)"
  have p: "p = x + of_nat ?i" by simp
  have "unat x mod 2 ^ k + ?i < 2 ^ k" using True len by linarith
  note a = hwpe_along [OF k this, of b, folded c_def p]
  show ?thesis using True by (simp add: hwpe_flat_def bank_access_def a)
next
  case False
  have "\<not> (hwpe_bank c p = hwpe_bank c x \<and> unat (hwpe_offset c p - hwpe_offset c x) < len)"
  proof
    let ?i = "unat (hwpe_offset c p - hwpe_offset c x)"
    assume h: "hwpe_bank c p = hwpe_bank c x \<and> ?i < len"
    then have "unat x mod 2 ^ k + ?i < 2 ^ k" using len by linarith
    note a = hwpe_along [OF k this, of b, folded c_def]
    have "hwpe_bank c p = hwpe_bank c (x + of_nat ?i)" "hwpe_offset c p = hwpe_offset c (x + of_nat ?i)"
      using h unfolding a by simp_all
    then have "p = x + of_nat ?i" unfolding c_def by (rule hwpe_inject)
    then have "p - x = of_nat ?i" by (metis add_diff_cancel_left')
    then have "unat (p - x) = ?i" by simp
    then show False using False h by linarith
  qed
  then show ?thesis using False by (auto simp: hwpe_flat_def bank_access_def)
qed

lemma chunk_read:
  fixes b
  assumes k: "k < 31" and len: "unat x mod 2 ^ k + len \<le> 2 ^ k"
  defines "c \<equiv> hwpe_new (2 ^ b) (2 ^ k)"
  shows "snd (bank_access False (hwpe_bank c x) (hwpe_offset c x) len d (m, data)) q =
    (if d \<le> q \<and> q < d + len then hwpe_flat c m (x + of_nat (q - d)) else data q)"
proof (cases "d \<le> q \<and> q < d + len")
  case True
  then have "unat x mod 2 ^ k + (q - d) < 2 ^ k" using len by linarith
  note a = hwpe_along [OF k this, of b, folded c_def]
  show ?thesis using True by (simp only: bank_access_def hwpe_flat_def a prod.case if_False snd_conv if_True simp_thms)
qed (auto simp: bank_access_def)

lemma bank_size_nat:
  fixes b x n
  assumes "k < 31"
  defines "l \<equiv> bank_size (hwpe_new (2 ^ b) (2 ^ k)) x n"
  shows "unat l = min (2 ^ k - unat x mod 2 ^ k) (unat n)"
proof -
  have w: "(of_nat (2 ^ k) :: u64) = push_bit k 1" by (simp add: push_bit_of_1)
  have "(2 :: nat) ^ k \<le> 2 ^ 31" using assms(1) by (intro power_increasing) simp_all
  then have "(2 :: nat) ^ k < 18446744073709551616" by simp
  then have w': "unat (push_bit k 1 :: u64) = 2 ^ k" unfolding w [symmetric] by (rule unat_of_nat64)
  have "unat x mod 2 ^ k < 2 ^ k" by simp
  then have "unat (push_bit k 1 - (x AND (push_bit k 1 - 1)) :: u64) = 2 ^ k - unat x mod 2 ^ k"
    using w' by (subst unat_sub) (simp_all only: word_le_nat_alt unat_low less_imp_le)
  then show ?thesis
    unfolding l_def bank_size_def hwpe_new_sel w by (simp only: min_def word_le_nat_alt if_distrib [of unat])
qed

text \<open>The loop: it ends, and its chunks together are one access to the flat memory.\<close>

lemma hwpe_loop_flat:
  fixes b
  assumes k: "k < 31" and lat: "\<And>i p. latency i p \<le> L"
  defines "c \<equiv> hwpe_new (2 ^ b) (2 ^ k)"
  shows "unat x + unat n \<le> 18446744073709551616 \<Longrightarrow> l \<le> L \<Longrightarrow>
    \<exists>l' m' data'. hwpe_loop c latency w x n d l (m, data) = Some (l', m', data') \<and> l \<le> l' \<and> l' \<le> L \<and>
      (if w then data' = data \<and> (\<forall>p. hwpe_flat c m' p = (if unat (p - x) < unat n then data (d + unat (p - x)) else hwpe_flat c m p))
       else m' = m \<and> (\<forall>q. data' q = (if d \<le> q \<and> q < d + unat n then hwpe_flat c m (x + of_nat (q - d)) else data q)))"
proof (induction "unat n" arbitrary: x n d l m data rule: less_induct)
  case less
  show ?case
  proof (cases "n = 0")
    case True
    then show ?thesis using less.prems by (subst hwpe_loop.simps) auto
  next
    case False
    let ?len = "bank_size c x n"
    define s where "s = bank_access w (hwpe_bank c x) (hwpe_offset c x) (unat ?len) d (m, data)"
    define l1 where "l1 = (if latency (hwpe_bank c x) (hwpe_offset c x) > l then latency (hwpe_bank c x) (hwpe_offset c x) else l)"
    have len: "unat ?len = min (2 ^ k - unat x mod 2 ^ k) (unat n)" unfolding c_def by (rule bank_size_nat [OF k])
    have "unat x mod 2 ^ k < 2 ^ k" "0 < unat n" using False by (simp_all add: unat_gt_0)
    then have line: "unat x mod 2 ^ k + unat ?len \<le> 2 ^ k" and pos: "0 < unat ?len" and le: "unat ?len \<le> unat n"
      unfolding len by linarith+
    have n': "unat (n - ?len) = unat n - unat ?len" using le by (simp add: unat_sub word_le_nat_alt)
    have "unat (x + ?len) \<le> unat x + unat ?len" by (simp add: unat_word_ariths)
    then have fits: "unat (x + ?len) + unat (n - ?len) \<le> 18446744073709551616" using less.prems(1) le n' by linarith
    have l1: "l \<le> l1" "l1 \<le> L" using lat less.prems(2) by (simp_all add: l1_def)
    have "unat (n - ?len) < unat n" using n' pos le by linarith
    from less.hyps [OF this fits l1(2), of "d + unat ?len" "fst s" "snd s"]
    obtain l' m' data' where r: "hwpe_loop c latency w (x + ?len) (n - ?len) (d + unat ?len) l1 s = Some (l', m', data')" "l1 \<le> l'" "l' \<le> L"
      and res: "if w then data' = snd s \<and> (\<forall>p. hwpe_flat c m' p =
            (if unat (p - (x + ?len)) < unat (n - ?len) then snd s (d + unat ?len + unat (p - (x + ?len))) else hwpe_flat c (fst s) p))
        else m' = fst s \<and> (\<forall>q. data' q = (if d + unat ?len \<le> q \<and> q < d + unat ?len + unat (n - ?len)
            then hwpe_flat c (fst s) (x + ?len + of_nat (q - (d + unat ?len))) else snd s q))" by auto
    have step: "hwpe_loop c latency w x n d l (m, data) = Some (l', m', data')"
      using r(1) False by (subst hwpe_loop.simps) (simp add: Let_def s_def l1_def)
    have "if w then data' = data \<and> (\<forall>p. hwpe_flat c m' p = (if unat (p - x) < unat n then data (d + unat (p - x)) else hwpe_flat c m p))
        else m' = m \<and> (\<forall>q. data' q = (if d \<le> q \<and> q < d + unat n then hwpe_flat c m (x + of_nat (q - d)) else data q))"
    proof (cases w)
      case True
      have s: "snd s = data" using True by (simp add: s_def bank_access_def)
      have "hwpe_flat c m' p = (if unat (p - x) < unat n then data (d + unat (p - x)) else hwpe_flat c m p)" for p
      proof -
        have chunk: "hwpe_flat c (fst s) p = (if unat (p - x) < unat ?len then data (d + unat (p - x)) else hwpe_flat c m p)"
          unfolding s_def c_def using True chunk_write [OF k line [unfolded c_def], of b d m data p] by simp
        let ?v = "p - (x + ?len)"
        have v: "p - x = ?v + ?len" by simp
        show ?thesis
        proof (cases "unat ?v < unat n - unat ?len")
          case True
          then have in_n: "unat ?v + unat ?len < unat n" by linarith
          also have "\<dots> < 2 ^ LENGTH(64)" by (rule unsigned_less)
          finally have "unat (p - x) = unat ?v + unat ?len" unfolding v by (rule unat_add_lem [THEN iffD1])
          then show ?thesis using res \<open>w\<close> True n' s in_n by (simp add: add.assoc add.commute [of "unat ?len"])
        next
          case False
          have "unat (p - x) < unat ?len \<or> \<not> unat (p - x) < unat n"
          proof (rule ccontr)
            assume h: "\<not> (unat (p - x) < unat ?len \<or> \<not> unat (p - x) < unat n)"
            have "?v = (p - x) - ?len" by simp
            then have "unat ?v = unat (p - x) - unat ?len" using h by (simp only: unat_sub word_le_nat_alt not_less simp_thms de_Morgan_disj)
            then show False using h False by linarith
          qed
          then show ?thesis using res \<open>w\<close> False n' chunk le by auto
        qed
      qed
      then show ?thesis using True res s by simp
    next
      case False
      have s: "fst s = m" using False by (simp add: s_def bank_access_def)
      have "data' q = (if d \<le> q \<and> q < d + unat n then hwpe_flat c m (x + of_nat (q - d)) else data q)" for q
      proof -
        have chunk: "snd s q = (if d \<le> q \<and> q < d + unat ?len then hwpe_flat c m (x + of_nat (q - d)) else data q)"
          unfolding s_def c_def using False chunk_read [OF k line [unfolded c_def], of b d m data q] by simp
        show ?thesis
        proof (cases "d + unat ?len \<le> q \<and> q < d + unat n")
          case True
          then have "q - d = unat ?len + (q - (d + unat ?len))" by linarith
          then have "x + of_nat (q - d) = x + ?len + of_nat (q - (d + unat ?len))"
            by simp
          then show ?thesis using res \<open>\<not> w\<close> True n' s le by auto
        next
          case False
          then show ?thesis using res \<open>\<not> w\<close> n' s chunk le by auto
        qed
      qed
      then show ?thesis using False res s by simp
    qed
    then show ?thesis using step r(2,3) l1(1) by (intro exI [of _ l'] exI [of _ m'] exI [of _ data']) simp
  qed
qed

text \<open>C14: behind the interleaver the banks of L1 are one flat memory: a request of any size at any address, over
  as many lines and banks as it touches, ends, reports the largest latency of its banks (at most the bound of all
  of them), and writes exactly the bytes of its range of the flat memory or reads exactly these into the buffer;
  everything else stays.\<close>

theorem hwpe_flat_memory:
  assumes "k < 31" and "b < 31" and "\<forall>i p. latency i p \<le> L" and "0 \<le> L"
    and "unat x + unat n \<le> 18446744073709551616"
  shows "\<exists>l' m' data'. hwpe_req (hwpe_new (2 ^ b) (2 ^ k)) latency w x n (m, data) = Some (l', m', data') \<and>
    0 \<le> l' \<and> l' \<le> L \<and>
    (if w then data' = data \<and> (\<forall>p. hwpe_flat (hwpe_new (2 ^ b) (2 ^ k)) m' p =
        (if unat (p - x) < unat n then data (unat (p - x)) else hwpe_flat (hwpe_new (2 ^ b) (2 ^ k)) m p))
     else m' = m \<and> (\<forall>q. data' q =
        (if q < unat n then hwpe_flat (hwpe_new (2 ^ b) (2 ^ k)) m (x + of_nat q) else data q)))"
  using hwpe_loop_flat [OF assms(1) _ assms(5) assms(4), of latency b w 0 m data] assms(3)
  unfolding hwpe_req_def by (simp only: add_0 diff_zero le0 simp_thms)

text \<open>Four banks of four bytes: six bytes at 0x1003 cross two lines.\<close>

lemma hwpe_flat_memory_witness:
  "(\<exists>l m' data. hwpe_req (hwpe_new 4 4) (\<lambda>i p. 1) True 0x1003 6 (\<lambda>i p. 0, \<lambda>i. of_nat i) = Some (l, m', data) \<and> l \<le> 1 \<and>
      hwpe_flat (hwpe_new 4 4) m' 0x1008 = 5 \<and> hwpe_flat (hwpe_new 4 4) m' 0x1009 = 0) \<and>
   (\<exists>l m data. hwpe_req (hwpe_new 4 4) (\<lambda>i p. 1) False 0x1003 6 (\<lambda>i p. of_nat i, \<lambda>i. 9) = Some (l, m, data) \<and> l \<le> 1 \<and>
      data 0 = 0 \<and> data 1 = 1 \<and> data 6 = 9)"
proof -
  have new: "hwpe_new (2 ^ 2) (2 ^ 2) = hwpe_new 4 4" by simp
  have lat: "\<forall>i p. (\<lambda>i p. 1 :: int) (i :: nat) (p :: u64) \<le> 1" by simp
  have size: "unat (0x1003 :: u64) + unat (6 :: u64) \<le> 18446744073709551616" by simp
  have c: "hwpe_new 4 4 = \<lparr>bank_width = 4, id_shift = 2, id_mask = 3, offset_right_shift = 4, offset_left_shift = 2\<rparr>"
    using ilog2_power [of 2] ilog2_power [of 4] by (simp add: hwpe_new_def push_bit_of_1)
  have at: "hwpe_flat (hwpe_new 4 4) (\<lambda>i p. of_nat i) 0x1003 = 0" "hwpe_flat (hwpe_new 4 4) (\<lambda>i p. of_nat i) 0x1004 = 1"
    "hwpe_flat (hwpe_new 4 4) (\<lambda>i p. 0) p = 0" for p
    by (simp_all add: hwpe_flat_def hwpe_bank_def c)
  note flat = hwpe_flat_memory [of 2 2, OF _ _ lat _ size, unfolded new]
  show ?thesis
    using flat [of True "\<lambda>i p. 0" "\<lambda>i. of_nat i"] flat [of False "\<lambda>i p. of_nat i" "\<lambda>i. 9"] 
    by (fastforce simp: at)
qed

end
