(* ===== verification/Sim_Ctrl.thy ===== *)
theory Sim_Ctrl
  imports Flex_Hw "HOL-Library.Signed_Division"
begin

text \<open>
  The control registers of the system, \<open>flex_cluster/ctrl_registers.cpp\<close>: end of simulation, timer, console
  and the delayed wake-up of all clusters or of a registered group.  The handlers return what they do to the
  outside as a list of actions; \<open>ctrl_step\<close> is the component on the clock engine.
\<close>

subsection \<open>State\<close>

record wakeup =
  is_global :: bool
  group_id :: u16
  timestamp :: u64

record ctrl =
  num_cluster_x :: u32
  num_cluster_y :: u32
  num_cluster_all :: u32
  hbm_preload_done :: bool
  timer_start :: "64 word"
  wakeup_queue :: "wakeup list"
  sync_group_mapper :: "u16 \<Rightarrow> u16 set option"

definition ctrl_new :: "u32 \<Rightarrow> u32 \<Rightarrow> bool \<Rightarrow> ctrl" where
  "ctrl_new x y has_preload_binary =
     \<lparr>num_cluster_x = x, num_cluster_y = y, num_cluster_all = x * y, hbm_preload_done = (\<not> has_preload_binary),
      timer_start = 0, wakeup_queue = [], sync_group_mapper = (\<lambda>_. None)\<rparr>"

text \<open>A wake-up of a cluster, an event in so many cycles, the end of the simulation, lines on the console.\<close>

datatype action =
    Barrier_Ack nat
  | Wakeup_Event int
  | Debug_Stop_Event int
  | Quit nat
  | Print_Period int
  | Print_Char u8
  | Print_Int u32
  | Print_Reset
  | Print_Added u16 u16
  | Print_Exists u16 u16
  | Print_Groups "u16 \<Rightarrow> u16 set option"

datatype ctrl_error =
    Not_Registered u16
  | No_Port nat

subsection \<open>Handlers\<close>

text \<open>The ports of a list of clusters, in order; a number beyond the last port is outside the array.\<close>

fun ack_all :: "u32 \<Rightarrow> nat list \<Rightarrow> ctrl_error + action list" where
  "ack_all n [] = Inr []"
| "ack_all n (c # cs) =
     (if c < unat n then (case ack_all n cs of Inl e \<Rightarrow> Inl e | Inr as \<Rightarrow> Inr (Barrier_Ack c # as)) else Inl (No_Port c))"

text \<open>The delay in cycles is an \<open>int64_t\<close>.\<close>

definition delay :: "u64 \<Rightarrow> u64 \<Rightarrow> int" where
  "delay t now = sint (t - now)"

definition wake_targets :: "ctrl \<Rightarrow> wakeup \<Rightarrow> ctrl_error + action list" where
  "wake_targets c w =
     (if is_global w then ack_all (num_cluster_all c) [0 ..< unat (num_cluster_all c)]
      else (case sync_group_mapper c (group_id w) of
              None \<Rightarrow> Inl (Not_Registered (group_id w))
            | Some g \<Rightarrow> ack_all (num_cluster_all c) (map unat (sorted_list_of_set g))))"

definition wakeup_event_handler :: "u64 \<Rightarrow> ctrl \<Rightarrow> ctrl_error + ctrl \<times> action list" where
  "wakeup_event_handler now c =
     (if hbm_preload_done c then
        (case wakeup_queue c of
           [] \<Rightarrow> Inr (c, [])
         | w # ws \<Rightarrow>
             if timestamp w \<le> now then
               (case wake_targets c w of
                  Inl e \<Rightarrow> Inl e
                | Inr as \<Rightarrow> Inr (c\<lparr>wakeup_queue := ws\<rparr>,
                    as @ (case ws of [] \<Rightarrow> [] | w' # _ \<Rightarrow> [Wakeup_Event (delay (timestamp w') now)])))
             else Inr (c, [Wakeup_Event (delay (timestamp w) now)]))
      else Inr (c, [Wakeup_Event 300]))"

definition hbm_preload_done_handler :: "ctrl \<Rightarrow> ctrl" where
  "hbm_preload_done_handler c = c\<lparr>hbm_preload_done := True\<rparr>"

definition debug_stop_event_handler :: "ctrl \<Rightarrow> ctrl \<times> action list" where
  "debug_stop_event_handler c = (c, [Quit 1])"

definition push_wakeup :: "u64 \<Rightarrow> bool \<Rightarrow> u16 \<Rightarrow> ctrl \<Rightarrow> ctrl \<times> action list" where
  "push_wakeup now global g c =
     (c\<lparr>wakeup_queue := wakeup_queue c @
          [\<lparr>is_global = global, group_id = g,
            timestamp = now + ucast (num_cluster_x c) + ucast (num_cluster_y c)\<rparr>]\<rparr>,
      [Wakeup_Event 1])"

text \<open>A request; \<open>time\<close> is the time in picoseconds, \<open>value\<close> the word in the buffer.  The group of a global
  wake-up is not read.\<close>

definition ctrl_req :: "u64 \<Rightarrow> 64 word \<Rightarrow> u64 \<Rightarrow> bool \<Rightarrow> u64 \<Rightarrow> u32 \<Rightarrow> ctrl \<Rightarrow> ctrl \<times> action list" where
  "ctrl_req now time offset is_write n value c =
     (if \<not> (is_write \<and> n = 4) then (c, [])
      else if offset = 0 then (c, [Quit 0])
      else if offset = 4 then push_wakeup now True 0 c
      else if offset = 8 then (c\<lparr>timer_start := time\<rparr>, [])
      else if offset = 12 then (c\<lparr>timer_start := time\<rparr>, [Print_Period (sint (time - timer_start c) sdiv 1000)])
      else if offset = 16 then (c, [Print_Char (ucast value)])
      else if offset = 20 then (c, [Print_Int value])
      else if offset = 24 then (c\<lparr>sync_group_mapper := (\<lambda>_. None)\<rparr>, [Print_Reset])
      else if offset = 28 then
        (let g = ucast (value AND 0xFFFF); cluster = ucast (drop_bit 16 value);
             grp = (case sync_group_mapper c g of None \<Rightarrow> {} | Some s \<Rightarrow> s)
         in (c\<lparr>sync_group_mapper := (sync_group_mapper c)(g \<mapsto> insert cluster grp)\<rparr>,
             [if cluster \<in> grp then Print_Exists cluster g else Print_Added cluster g]))
      else if offset = 32 then (c, [Print_Groups (sync_group_mapper c)])
      else if offset = 36 then push_wakeup now False (ucast (value AND 0xFFFF)) c
      else if offset = 40 then (c, [Debug_Stop_Event (uint value)])
      else (c, []))"

end
