(* ===== verification/Sim_Ctrl_Props.thy ===== *)
theory Sim_Ctrl_Props
  imports Sim_Ctrl
begin

text \<open>
  The control registers on the clock engine: wake-ups are delivered in the order they were asked for, none is
  lost or delivered before its time.  The engine runs an event at its cycle or later; an event that is already
  pending when it is enqueued may keep its cycle or take the new one.
\<close>

subsection \<open>The component on the clock engine\<close>

text \<open>\<open>asked\<close> are the wake-ups asked for (all clusters or a group) with their cycles, \<open>woken\<close> the clusters the
  handler has woken, with the cycle and the registers at that time.\<close>

record sys =
  regs :: ctrl
  cycle :: nat
  event :: "int option"
  asked :: "(nat \<times> u16 option) list"
  woken :: "(nat \<times> ctrl \<times> nat list) list"

inductive enqueue :: "nat \<Rightarrow> action list \<Rightarrow> int option \<Rightarrow> int option \<Rightarrow> bool" for now as where
  no_event: "\<forall>d. Wakeup_Event d \<notin> set as \<Longrightarrow> enqueue now as e e"
| new_event: "Wakeup_Event d \<in> set as \<Longrightarrow> enqueue now as e (Some (int now + d))"
| keep_event: "Wakeup_Event d \<in> set as \<Longrightarrow> enqueue now as (Some t) (Some t)"

text \<open>What an access asks for.\<close>

definition asks :: "u64 \<Rightarrow> bool \<Rightarrow> u64 \<Rightarrow> u32 \<Rightarrow> u16 option list" where
  "asks offset is_write n value =
     (if is_write \<and> n = 4 \<and> offset = 4 then [None]
      else if is_write \<and> n = 4 \<and> offset = 36 then [Some (ucast value)] else [])"

definition acks :: "action list \<Rightarrow> nat list" where
  "acks as = concat (map (\<lambda>a. case a of Barrier_Ack c \<Rightarrow> [c] | _ \<Rightarrow> []) as)"

definition note_acks :: "sys \<Rightarrow> action list \<Rightarrow> (nat \<times> ctrl \<times> nat list) list" where
  "note_acks s as = (if acks as = [] then woken s else woken s @ [(cycle s, regs s, acks as)])"

inductive ctrl_step :: "sys \<Rightarrow> sys \<Rightarrow> bool" where
  req_step: "ctrl_req (of_nat (cycle s)) time offset is_write n value (regs s) = (c, as) \<Longrightarrow>
    enqueue (cycle s) as (event s) e \<Longrightarrow>
    ctrl_step s (s\<lparr>regs := c, event := e, asked := asked s @ map (Pair (cycle s)) (asks offset is_write n value)\<rparr>)"
| event_step: "event s = Some t \<Longrightarrow> t \<le> int (cycle s) \<Longrightarrow>
    wakeup_event_handler (of_nat (cycle s)) (regs s) = Inr (c, as) \<Longrightarrow>
    enqueue (cycle s) as None e \<Longrightarrow>
    ctrl_step s (s\<lparr>regs := c, event := e, woken := note_acks s as\<rparr>)"
| preload_step: "ctrl_step s (s\<lparr>regs := hbm_preload_done_handler (regs s)\<rparr>)"
| clock_step: "Suc (cycle s) < 2 ^ 63 \<Longrightarrow> ctrl_step s (s\<lparr>cycle := Suc (cycle s)\<rparr>)"

inductive ctrl_run :: "sys \<Rightarrow> sys \<Rightarrow> bool" for s0 where
  ctrl_start: "ctrl_run s0 s0"
| ctrl_next: "ctrl_run s0 s \<Longrightarrow> ctrl_step s s' \<Longrightarrow> ctrl_run s0 s'"

definition sys_start :: "u32 \<Rightarrow> u32 \<Rightarrow> bool \<Rightarrow> sys" where
  "sys_start x y p = \<lparr>regs = ctrl_new x y p, cycle = 0, event = None, asked = [], woken = []\<rparr>"

subsection \<open>Invariant\<close>

definition travel :: "u32 \<Rightarrow> u32 \<Rightarrow> nat" where
  "travel x y = unat x + unat y"

lemma travel_less: "travel x y < 2 ^ 33"
  using unat_lt32 [of x] unat_lt32 [of y] unfolding travel_def by (simp del: unat_lt32)

text \<open>A pending wake-up in the queue, and one that has been delivered.\<close>

definition queued :: "u32 \<Rightarrow> u32 \<Rightarrow> nat \<times> u16 option \<Rightarrow> wakeup \<Rightarrow> bool" where
  "queued x y a w = (unat (timestamp w) = fst a + travel x y \<and> is_global w = (snd a = None) \<and>
     (case snd a of None \<Rightarrow> True | Some g \<Rightarrow> group_id w = g))"

definition delivered :: "u32 \<Rightarrow> u32 \<Rightarrow> nat \<times> u16 option \<Rightarrow> nat \<times> ctrl \<times> nat list \<Rightarrow> bool" where
  "delivered x y a d = (case d of (t, c, cs) \<Rightarrow> fst a + travel x y \<le> t \<and>
     (case snd a of None \<Rightarrow> cs = [0 ..< unat (x * y)]
      | Some g \<Rightarrow> (\<exists>S. sync_group_mapper c g = Some S \<and> cs = map unat (sorted_list_of_set S))))"

definition ctrl_inv :: "u32 \<Rightarrow> u32 \<Rightarrow> sys \<Rightarrow> bool" where
  "ctrl_inv x y s =
     (num_cluster_x (regs s) = x \<and> num_cluster_y (regs s) = y \<and> num_cluster_all (regs s) = x * y \<and> cycle s < 2 ^ 63 \<and>
      (\<forall>g. sync_group_mapper (regs s) g \<noteq> Some {}) \<and>
      (\<forall>a\<in>set (asked s). fst a \<le> cycle s) \<and>
      (\<exists>A1 A2. asked s = A1 @ A2 \<and> list_all2 (delivered x y) A1 (woken s) \<and> list_all2 (queued x y) A2 (wakeup_queue (regs s))) \<and>
      (wakeup_queue (regs s) \<noteq> [] \<longrightarrow> event s \<noteq> None) \<and>
      (\<forall>t. event s = Some t \<longrightarrow> t \<le> int (cycle s) + int (max 300 (travel x y))))"

lemma ack_all_targets: "ack_all n cs = Inr as \<Longrightarrow> as = map Barrier_Ack cs"
  by (induction cs arbitrary: as) (auto split: if_splits sum.splits)

lemma acks_append: "acks (as @ bs) = acks as @ acks bs" "acks (map Barrier_Ack cs) = cs" "acks [Wakeup_Event d] = []" "acks [] = []"
  by (simp_all add: acks_def comp_def)

text \<open>The delay to a wake-up that is not further away than the travel time.\<close>

lemma delay_eq:
  assumes "unat t \<le> now + d" and "now < 2 ^ 63" and "d < 2 ^ 33"
  shows "delay t (of_nat now) = int (unat t) - int now"
proof -
  let ?z = "int (unat t) - int now"
  have d: "d < 8589934592" and n: "now < 9223372036854775808" using assms(2,3) by simp_all
  have z: "- 9223372036854775808 \<le> ?z" "?z < 9223372036854775808" using assms(1) d n by linarith+
  have "t - of_nat now = of_int ?z" by simp
  moreover have "sint (of_int ?z :: u64) = ?z"
    unfolding sint_sbintrunc' using z by (intro signed_take_bit_int_eq_self) simp_all
  ultimately show ?thesis unfolding delay_def by (simp only:)
qed

lemma delay_bound:
  assumes "unat t \<le> now + d" and "now < 2 ^ 63" and "d < 2 ^ 33"
  shows "delay t (of_nat now) \<le> int d"
  unfolding delay_eq [OF assms] using assms(1) by linarith

lemma timestamp_nat:
  assumes "now < 2 ^ 63"
  shows "unat (of_nat now + ucast x + ucast y :: u64) = now + travel x y"
proof -
  have e: "(of_nat now + ucast x + ucast y :: u64) = of_nat (now + travel x y)"
    by (simp add: travel_def add.assoc)
  have "now + travel x y < 2 ^ LENGTH(64)" using assms travel_less [of x y] by simp
  then show ?thesis unfolding e unat_of_nat by (rule mod_less)
qed

lemma now_nat:
  assumes "now < 2 ^ 63"
  shows "t \<le> of_nat now \<longleftrightarrow> unat (t :: u64) \<le> now"
  using assms by (simp add: word_le_nat_alt unat_of_nat)

subsection \<open>The invariant is kept\<close>

lemma ctrl_inv_start: "ctrl_inv x y (sys_start x y p)"
  by (simp add: ctrl_inv_def sys_start_def ctrl_new_def)

text \<open>Enqueueing keeps the event within reach.\<close>

lemma enqueue_event:
  assumes "enqueue now as e e'" and "\<And>d. Wakeup_Event d \<in> set as \<Longrightarrow> d \<le> B" and "\<And>t. e = Some t \<Longrightarrow> t \<le> int now + B"
  shows "(\<forall>t. e' = Some t \<longrightarrow> t \<le> int now + B) \<and> (e \<noteq> None \<or> (\<exists>d. Wakeup_Event d \<in> set as) \<longrightarrow> e' \<noteq> None)"
  using assms by (cases rule: enqueue.cases) fastforce+

text \<open>An access adds at most one wake-up, and leaves the configuration alone.\<close>

lemma low16: "(ucast (value AND 0xFFFF) :: u16) = ucast (value :: u32)"
proof -
  have m: "(0xFFFF :: u32) = mask 16" by (simp add: mask_eq_exp_minus_1)
  show ?thesis unfolding m by (rule bit_word_eqI) (auto simp: bit_simps)
qed

lemma ctrl_req_queue:
  assumes "ctrl_req (of_nat now) time offset wr n value c = (c', as)" and "now < 2 ^ 63"
    and "num_cluster_x c = x" and "num_cluster_y c = y"
  shows "\<exists>new. wakeup_queue c' = wakeup_queue c @ new \<and>
      list_all2 (queued x y) (map (Pair now) (asks offset wr n value)) new \<and>
      (new \<noteq> [] \<longrightarrow> Wakeup_Event 1 \<in> set as) \<and> (\<forall>d. Wakeup_Event d \<in> set as \<longrightarrow> d = 1)"
  using assms timestamp_nat [OF assms(2), of x y]
  by (auto simp: ctrl_req_def push_wakeup_def asks_def queued_def Let_def low16 split: if_splits)

lemma ctrl_req_config:
  assumes "ctrl_req now time offset wr n value c = (c', as)"
  shows "num_cluster_x c' = num_cluster_x c \<and> num_cluster_y c' = num_cluster_y c \<and>
    num_cluster_all c' = num_cluster_all c"
    "\<forall>g. sync_group_mapper c g \<noteq> Some {} \<Longrightarrow> \<forall>g. sync_group_mapper c' g \<noteq> Some {}"
  using assms by (auto simp: ctrl_req_def push_wakeup_def Let_def split: if_splits)

lemma list_all2_ex: "list_all2 P xs ys \<Longrightarrow> y \<in> set ys \<Longrightarrow> \<exists>x\<in>set xs. P x y"
  by (induction rule: list_all2_induct) auto

lemma wake_targets_delivered:
  assumes "wake_targets c w = Inr bs" and "queued x y a w" and "unat (timestamp w) \<le> now"
    and "0 < unat (x * y)" and "num_cluster_all c = x * y" and "\<forall>g. sync_group_mapper c g \<noteq> Some {}"
  shows "\<exists>cs. bs = map Barrier_Ack cs \<and> cs \<noteq> [] \<and> delivered x y a (now, c, cs)"
proof (cases "snd a")
  case None
  then have "bs = map Barrier_Ack [0 ..< unat (x * y)]"
    using assms(1,2,5) by (auto simp: wake_targets_def queued_def dest: ack_all_targets)
  then show ?thesis using None assms(2-4) by (intro exI [of _ "[0 ..< unat (x * y)]"]) (simp add: delivered_def queued_def)
next
  case (Some g)
  then obtain S where S: "sync_group_mapper c g = Some S" "bs = map Barrier_Ack (map unat (sorted_list_of_set S))"
    using assms(1,2) by (auto simp: wake_targets_def queued_def dest: ack_all_targets split: option.splits)
  moreover have "sorted_list_of_set S \<noteq> []" using S(1) assms(6) by auto
  ultimately show ?thesis using Some assms(2,3)
    by (intro exI [of _ "map unat (sorted_list_of_set S)"]) (simp add: delivered_def queued_def)
qed

lemma handler_queue:
  assumes "wakeup_event_handler (of_nat now) c = Inr (c', as)" and "now < 2 ^ 63"
    and n: "0 < unat (x * y)" "num_cluster_all c = x * y" and g: "\<forall>g. sync_group_mapper c g \<noteq> Some {}"
    and q: "list_all2 (queued x y) A (wakeup_queue c)" "\<forall>a\<in>set A. fst a \<le> now"
  shows "c' = c\<lparr>wakeup_queue := wakeup_queue c'\<rparr> \<and> (\<forall>d. Wakeup_Event d \<in> set as \<longrightarrow> d \<le> int (max 300 (travel x y))) \<and>
    (wakeup_queue c' \<noteq> [] \<longrightarrow> (\<exists>d. Wakeup_Event d \<in> set as)) \<and>
    (if acks as = [] then wakeup_queue c' = wakeup_queue c
     else \<exists>a A'. A = a # A' \<and> wakeup_queue c' = tl (wakeup_queue c) \<and> delivered x y a (now, c, acks as))"
proof -
  have far: "delay (timestamp w) (of_nat now) \<le> int (max 300 (travel x y))" if w: "w \<in> set (wakeup_queue c)" for w
  proof -
    obtain a where a: "a \<in> set A" "queued x y a w" using list_all2_ex [OF q(1) w] by blast
    then have "unat (timestamp w) \<le> now + travel x y" using q(2) by (auto simp: queued_def)
    from delay_bound [OF this assms(2) travel_less] show ?thesis by simp
  qed
  show ?thesis
  proof (cases "wakeup_queue c")
    case Nil
    then show ?thesis using assms(1) by (auto simp: wakeup_event_handler_def acks_append split: if_splits)
  next
    case (Cons w ws)
    then obtain a A' where A: "A = a # A'" "queued x y a w" using q(1) by (auto simp: list_all2_Cons2)
    show ?thesis
    proof (cases "hbm_preload_done c \<and> timestamp w \<le> of_nat now")
      case False
      then show ?thesis using assms(1) Cons far by (auto simp: wakeup_event_handler_def acks_append split: if_splits)
    next
      case True
      then obtain bs where bs: "wake_targets c w = Inr bs" "c' = c\<lparr>wakeup_queue := ws\<rparr>"
        "as = bs @ (case ws of [] \<Rightarrow> [] | w' # _ \<Rightarrow> [Wakeup_Event (delay (timestamp w') (of_nat now))])"
        using assms(1) Cons by (auto simp: wakeup_event_handler_def split: sum.splits)
      have "unat (timestamp w) \<le> now" using True now_nat [OF assms(2)] by blast
      from wake_targets_delivered [OF bs(1) A(2) this n g]
      obtain cs where cs: "bs = map Barrier_Ack cs" "cs \<noteq> []" "delivered x y a (now, c, cs)" by blast
      then have "acks as = cs" unfolding bs(3) by (cases ws) (simp_all add: acks_append)
      then show ?thesis
        using bs cs Cons A far by (auto split: list.splits)
    qed
  qed
qed

lemma ctrl_inv_req:
  assumes i: "ctrl_inv x y s" and r: "ctrl_req (of_nat (cycle s)) time offset wr n value (regs s) = (c, as)"
    and e: "enqueue (cycle s) as (event s) e"
  shows "ctrl_inv x y (s\<lparr>regs := c, event := e, asked := asked s @ map (Pair (cycle s)) (asks offset wr n value)\<rparr>)"
proof -
  let ?B = "int (max 300 (travel x y))" and ?new = "map (Pair (cycle s)) (asks offset wr n value)"
  have conf: "num_cluster_x (regs s) = x" "num_cluster_y (regs s) = y" "num_cluster_all (regs s) = x * y"
      "cycle s < 2 ^ 63" "\<forall>g. sync_group_mapper (regs s) g \<noteq> Some {}" "\<forall>a\<in>set (asked s). fst a \<le> cycle s"
    and ev: "wakeup_queue (regs s) \<noteq> [] \<Longrightarrow> event s \<noteq> None" "\<And>t. event s = Some t \<Longrightarrow> t \<le> int (cycle s) + ?B"
    using i by (simp_all add: ctrl_inv_def)
  obtain A1 A2 where A: "asked s = A1 @ A2" "list_all2 (delivered x y) A1 (woken s)" "list_all2 (queued x y) A2 (wakeup_queue (regs s))"
    using i by (auto simp: ctrl_inv_def)
  obtain q where q: "wakeup_queue c = wakeup_queue (regs s) @ q" "list_all2 (queued x y) ?new q"
      "q \<noteq> [] \<longrightarrow> Wakeup_Event 1 \<in> set as" "\<forall>d. Wakeup_Event d \<in> set as \<longrightarrow> d = 1"
    using ctrl_req_queue [OF r conf(4,1,2)] by blast
  have "asked s @ ?new = A1 @ (A2 @ ?new)" "list_all2 (queued x y) (A2 @ ?new) (wakeup_queue c)"
    using A(1) list_all2_appendI [OF A(3) q(2)] unfolding q(1) by simp_all
  then have hist: "\<exists>A1 A2. asked s @ ?new = A1 @ A2 \<and> list_all2 (delivered x y) A1 (woken s) \<and> list_all2 (queued x y) A2 (wakeup_queue c)"
    using A(2) by blast
  have "d \<le> ?B" if "Wakeup_Event d \<in> set as" for d using q(4) that by fastforce
  note ev' = enqueue_event [OF e this ev(2)]
  have "wakeup_queue c \<noteq> [] \<longrightarrow> e \<noteq> None" using q(1,3) ev(1) ev' by auto
  then show ?thesis
    using ctrl_req_config(1) [OF r] ctrl_req_config(2) [OF r conf(5)] conf hist ev' by (simp add: ctrl_inv_def ball_Un)
qed

lemma ctrl_inv_event:
  assumes i: "ctrl_inv x y s" and n: "0 < unat (x * y)" and r: "wakeup_event_handler (of_nat (cycle s)) (regs s) = Inr (c, as)"
    and e: "enqueue (cycle s) as None e"
  shows "ctrl_inv x y (s\<lparr>regs := c, event := e, woken := note_acks s as\<rparr>)"
proof -
  let ?B = "int (max 300 (travel x y))"
  have conf: "num_cluster_x (regs s) = x" "num_cluster_y (regs s) = y" "num_cluster_all (regs s) = x * y"
      "cycle s < 2 ^ 63" "\<forall>g. sync_group_mapper (regs s) g \<noteq> Some {}" "\<forall>a\<in>set (asked s). fst a \<le> cycle s"
    using i by (simp_all add: ctrl_inv_def)
  obtain A1 A2 where A: "asked s = A1 @ A2" "list_all2 (delivered x y) A1 (woken s)" "list_all2 (queued x y) A2 (wakeup_queue (regs s))"
    using i by (auto simp: ctrl_inv_def)
  have "\<forall>a\<in>set A2. fst a \<le> cycle s" using conf(6) A(1) by simp
  note h = handler_queue [OF r conf(4) n conf(3,5) A(3) this]
  have hist: "\<exists>A1 A2. asked s = A1 @ A2 \<and> list_all2 (delivered x y) A1 (note_acks s as) \<and> list_all2 (queued x y) A2 (wakeup_queue c)"
  proof (cases "acks as = []")
    case True
    then show ?thesis using h A by (auto simp: note_acks_def)
  next
    case False
    then obtain a A' where a: "A2 = a # A'" "wakeup_queue c = tl (wakeup_queue (regs s))" "delivered x y a (cycle s, regs s, acks as)"
      using h by auto
    have "asked s = (A1 @ [a]) @ A'" "list_all2 (delivered x y) (A1 @ [a]) (note_acks s as)" "list_all2 (queued x y) A' (wakeup_queue c)"
      using A a False by (auto simp: note_acks_def list_all2_Cons1 intro!: list_all2_appendI)
    then show ?thesis by blast
  qed
  have "d \<le> ?B" if "Wakeup_Event d \<in> set as" for d using h that by blast
  from enqueue_event [OF e this]
  have ev: "\<forall>t. e = Some t \<longrightarrow> t \<le> int (cycle s) + ?B" "wakeup_queue c \<noteq> [] \<longrightarrow> e \<noteq> None" using h by auto
  have "c = (regs s)\<lparr>wakeup_queue := wakeup_queue c\<rparr>" using h by blast
  then have "num_cluster_x c = x \<and> num_cluster_y c = y \<and> num_cluster_all c = x * y \<and> (\<forall>g. sync_group_mapper c g \<noteq> Some {})"
    using conf by (metis ctrl.select_convs(1,2,3,7) ctrl.surjective ctrl.update_convs(6))
  then show ?thesis using hist ev conf(4,6) by (simp add: ctrl_inv_def)
qed

lemma ctrl_inv_step:
  assumes "ctrl_step s s'" and "ctrl_inv x y s" and "0 < unat (x * y)"
  shows "ctrl_inv x y s'"
  using assms(1)
proof cases
  case req_step
  then show ?thesis using ctrl_inv_req [OF assms(2)] by blast
next
  case event_step
  then show ?thesis using ctrl_inv_event [OF assms(2,3)] by blast
next
  case preload_step
  then show ?thesis using assms(2) by (simp add: ctrl_inv_def hbm_preload_done_handler_def)
next
  case clock_step
  have "t \<le> int (Suc (cycle s)) + int (max 300 (travel x y))" if "event s = Some t" for t
    using assms(2) that by (fastforce simp: ctrl_inv_def)
  then show ?thesis using assms(2) clock_step by (auto simp: ctrl_inv_def le_Suc_eq)
qed

lemma ctrl_inv_run: "ctrl_run (sys_start x y p) s \<Longrightarrow> 0 < unat (x * y) \<Longrightarrow> ctrl_inv x y s"
  by (induction rule: ctrl_run.induct) (auto intro: ctrl_inv_start ctrl_inv_step)

text \<open>C16: no wake-up is lost, doubled, reordered or early: in every reachable state of the control registers on the
  clock engine (which may run an event late and resolve a second enqueueing either way) the wake-ups delivered are
  the first of those asked for, in their order, each at least as many cycles after its request as the mesh has
  columns and rows, to all clusters or to the members its group has then; the others are in the queue, and an
  event is pending at most 300 cycles or one crossing of the mesh away.\<close>

theorem wakeups_delivered:
  assumes "ctrl_run (sys_start x y p) s" and "0 < unat (x * y)"
  shows "\<exists>A1 A2. asked s = A1 @ A2 \<and> list_all2 (delivered x y) A1 (woken s) \<and>
    list_all2 (queued x y) A2 (wakeup_queue (regs s)) \<and>
    (A2 \<noteq> [] \<longrightarrow> (\<exists>t. event s = Some t \<and> t \<le> int (cycle s) + int (max 300 (travel x y))))"
proof -
  have i: "ctrl_inv x y s" using ctrl_inv_run assms by blast
  then obtain A1 A2 where A: "asked s = A1 @ A2" "list_all2 (delivered x y) A1 (woken s)"
      "list_all2 (queued x y) A2 (wakeup_queue (regs s))" by (auto simp: ctrl_inv_def)
  have "\<exists>t. event s = Some t \<and> t \<le> int (cycle s) + int (max 300 (travel x y))" if "A2 \<noteq> []"
    using i A(3) that by (auto simp: ctrl_inv_def simp del: max_nat.neutr_eq_iff)
  then show ?thesis using A by blast
qed

text \<open>A mesh of two by two: a wake-up asked for in cycle 0 is delivered to the four clusters in cycle 4.\<close>

definition sys_delivered :: sys where
  "sys_delivered = (sys_start 2 2 False)\<lparr>cycle := 4, asked := [(0, None)],
     woken := [(4, (ctrl_new 2 2 False)\<lparr>wakeup_queue := [\<lparr>is_global = True, group_id = 0, timestamp = 4\<rparr>]\<rparr>, [0, 1, 2, 3])]\<rparr>"

lemma sys_delivered_run: "ctrl_run (sys_start 2 2 False) sys_delivered"
proof -
  let ?r = "(ctrl_new 2 2 False)\<lparr>wakeup_queue := [\<lparr>is_global = True, group_id = 0, timestamp = 4\<rparr>]\<rparr>"
  let ?s = "\<lambda>t. (sys_start 2 2 False)\<lparr>regs := ?r, cycle := t, event := Some 1, asked := [(0, None)]\<rparr>"
  have "ctrl_step (sys_start 2 2 False) (?s 0)"
    using req_step [of "sys_start 2 2 False" 0 4 True 4 0 ?r "[Wakeup_Event 1]" "Some 1"]
    by (simp add: sys_start_def ctrl_new_def ctrl_req_def push_wakeup_def asks_def enqueue.simps)
  then have r0: "ctrl_run (sys_start 2 2 False) (?s 0)" by (rule ctrl_next [OF ctrl_start])
  have r: "ctrl_run (sys_start 2 2 False) (?s t) \<Longrightarrow> t < 4 \<Longrightarrow> ctrl_run (sys_start 2 2 False) (?s (Suc t))" for t
    using ctrl_next [of "sys_start 2 2 False" "?s t"] clock_step [of "?s t"] by (simp add: sys_start_def)
  have r4: "ctrl_run (sys_start 2 2 False) (?s 4)" using r [OF r [OF r [OF r [OF r0]]]] by (simp add: eval_nat_numeral)
  have "ctrl_step (?s 4) sys_delivered"
    using event_step [of "?s 4" 1 "ctrl_new 2 2 False" "map Barrier_Ack [0, 1, 2, 3]" None]
    by (simp add: sys_delivered_def sys_start_def ctrl_new_def wakeup_event_handler_def wake_targets_def upt_rec note_acks_def
        acks_def enqueue.simps)
  then show ?thesis by (rule ctrl_next [OF r4])
qed

lemma wakeups_delivered_witness:
  "(\<exists>A1 A2. asked sys_delivered = A1 @ A2 \<and> list_all2 (delivered 2 2) A1 (woken sys_delivered) \<and>
      list_all2 (queued 2 2) A2 (wakeup_queue (regs sys_delivered)) \<and>
      (A2 \<noteq> [] \<longrightarrow> (\<exists>t. event sys_delivered = Some t \<and> t \<le> int (cycle sys_delivered) + int (max 300 (travel 2 2))))) \<and>
   map (\<lambda>(t, c, cs). (t, cs)) (woken sys_delivered) = [(4, [0, 1, 2, 3])]"
  using wakeups_delivered [OF sys_delivered_run] by (simp add: sys_delivered_def)

text \<open>When the preload has delayed the handler and two wake-ups are due, the second one is enqueued with a negative
  number of cycles.\<close>

lemma late_wakeup_delay:
  "wakeup_event_handler 300 ((ctrl_new 1 1 False)\<lparr>wakeup_queue :=
      [\<lparr>is_global = True, group_id = 0, timestamp = 2\<rparr>, \<lparr>is_global = True, group_id = 0, timestamp = 12\<rparr>]\<rparr>) =
    Inr ((ctrl_new 1 1 False)\<lparr>wakeup_queue := [\<lparr>is_global = True, group_id = 0, timestamp = 12\<rparr>]\<rparr>,
      [Barrier_Ack 0, Wakeup_Event (-288)])"
  by (simp add: wakeup_event_handler_def wake_targets_def ctrl_new_def delay_def)

text \<open>A cluster number beyond the mesh can be put into a group; its wake-up leaves the array of ports.\<close>

lemma wakeup_no_port:
  "let c = fst (ctrl_req 0 0 28 True 4 0x00090001 (ctrl_new 2 2 False)) in
     wake_targets c \<lparr>is_global = False, group_id = 1, timestamp = 0\<rparr> = Inl (No_Port 9)"
  by (simp add: ctrl_req_def ctrl_new_def wake_targets_def Let_def)

end
