(* ===== verification/Sim_Dump.thy ===== *)
theory Sim_Dump
  imports SH_Prelude
begin

text \<open>
  The dump device of a cluster, \<open>flex_cluster/util_dumpper.cpp\<close>: control registers that open, stamp and close
  the dump file, and an input that prints what is written to it as half words.
\<close>

text \<open>\<open>dump_file\<close> is whether the file is open, \<open>contents\<close> its content.\<close>

record dumpper =
  dump_file :: bool
  contents :: string
  base_lower :: u64
  base_upper :: u64

text \<open>\<open>%0nx\<close> for a value of at most \<open>n\<close> digits.\<close>

definition hex_char :: "nat \<Rightarrow> char" where
  "hex_char d = ''0123456789abcdef'' ! d"

fun hex_fixed :: "nat \<Rightarrow> nat \<Rightarrow> string" where
  "hex_fixed 0 v = []"
| "hex_fixed (Suc n) v = hex_fixed n (v div 16) @ [hex_char (v mod 16)]"

definition newline :: string where "newline = [CHR 0x0A]"

definition stamp_text :: "u64 \<Rightarrow> string" where
  "stamp_text base_addr = newline @ ''HBM offset == .0x'' @ hex_fixed 16 (unat base_addr) @ '':'' @ newline"

definition half_text :: "u16 \<Rightarrow> string" where
  "half_text h = ''  0x'' @ hex_fixed 4 (unat h) @ newline"

text \<open>Writes to the control registers; \<open>fopen_ok\<close> is whether the file can be opened, \<open>None\<close> the fatal error.\<close>

definition dump_ctrl_req :: "bool \<Rightarrow> u64 \<Rightarrow> bool \<Rightarrow> u32 \<Rightarrow> dumpper \<Rightarrow> dumpper option" where
  "dump_ctrl_req fopen_ok offset is_write value d =
     (if offset = 0 \<and> is_write then
        (if dump_file d then Some d
         else if fopen_ok then Some (d\<lparr>dump_file := True, contents := []\<rparr>) else None)
      else if offset = 4 \<and> is_write then
        Some (if dump_file d
              then d\<lparr>contents := contents d @ stamp_text (push_bit 32 (base_upper d) OR base_lower d)\<rparr> else d)
      else if offset = 8 \<and> is_write then Some (d\<lparr>dump_file := False\<rparr>)
      else if offset = 12 \<and> is_write then Some (d\<lparr>base_lower := ucast value\<rparr>)
      else if offset = 16 \<and> is_write then Some (d\<lparr>base_upper := ucast value\<rparr>)
      else Some d)"

text \<open>The half words of a buffer, little endian; a last odd byte is not printed.\<close>

fun halves :: "u8 list \<Rightarrow> u16 list" where
  "halves (a # b # bs) = (ucast a OR push_bit 8 (ucast b)) # halves bs"
| "halves bs = []"

definition dump_input_req :: "bool \<Rightarrow> u8 list \<Rightarrow> dumpper \<Rightarrow> dumpper" where
  "dump_input_req is_write data d =
     (if is_write \<and> length data > 1 \<and> dump_file d
      then d\<lparr>contents := contents d @ concat (map half_text (halves data))\<rparr> else d)"

end
