(* ===== verification/Sim_Dump_Props.thy ===== *)
theory Sim_Dump_Props
  imports Sim_Dump App_Solo
begin

text \<open>
  The dump functions of the runtime (\<open>flex_dump.h\<close> in \<open>Flex_DMA\<close>) on the dump device: what the file holds
  after an application has dumped parts of HBM, and that it can be read back.
\<close>

subsection \<open>Text\<close>

definition hex_value :: "string \<Rightarrow> nat" where
  "hex_value = foldl (\<lambda>v c. 16 * v + (if (97 :: nat) \<le> of_char c then of_char c - 87 else of_char c - 48)) 0"

lemma hex_char_value: "d < 16 \<Longrightarrow> (if (97 :: nat) \<le> of_char (hex_char d) then of_char (hex_char d) - 87 else of_char (hex_char d) - 48) = d"
proof -
  have "\<forall>d<(16 :: nat). (if (97 :: nat) \<le> of_char (hex_char d) then of_char (hex_char d) - 87 else of_char (hex_char d) - 48) = d" by code_simp
  then show "d < 16 \<Longrightarrow> ?thesis" by blast
qed

lemma hex_value_fixed: "v < 16 ^ n \<Longrightarrow> hex_value (hex_fixed n v) = v"
proof (induction n arbitrary: v)
  case (Suc n)
  have "v div 16 < 16 ^ n" using Suc.prems by (simp add: less_mult_imp_div_less mult.commute)
  then have "hex_value (hex_fixed n (v div 16)) = v div 16" by (rule Suc.IH)
  then show ?case using hex_char_value [of "v mod 16"] by (simp add: hex_value_def)
qed (simp add: hex_value_def)

lemma length_hex_fixed: "length (hex_fixed n v) = n"
  by (induction n arbitrary: v) simp_all

lemma halves_append: "even (length as) \<Longrightarrow> halves (as @ bs) = halves as @ halves bs"
  by (induction as rule: halves.induct) simp_all

lemma halves_concat: "\<forall>c\<in>set cs. even (length c) \<Longrightarrow> halves (concat cs) = concat (map halves cs)"
  by (induction cs) (simp_all add: halves_append)

subsection \<open>Programs on the device\<close>

definition hbm_bytes :: "(u64 \<Rightarrow> u8) \<Rightarrow> u64 \<Rightarrow> u32 \<Rightarrow> u8 list" where
  "hbm_bytes m src n = map (\<lambda>i. m (src + of_nat i)) [0 ..< unat n]"

text \<open>A transfer into the window above L1 reaches the input of the device, in pieces (\<open>split\<close>).\<close>

fun dump_transfer :: "arch \<Rightarrow> (u8 list \<Rightarrow> u8 list list) \<Rightarrow> (u64 \<Rightarrow> u8) \<Rightarrow> transfer \<Rightarrow> dumpper \<Rightarrow> dumpper" where
  "dump_transfer A split m (Copy_1D dst src n) d =
     (if dst = ucast (ARCH_CLUSTER_TCDM_BASE A + ARCH_CLUSTER_TCDM_SIZE A)
      then fold (dump_input_req True) (split (hbm_bytes m src n)) d else d)"
| "dump_transfer A split m t d = d"

primrec dump_run :: "arch \<Rightarrow> u32 \<Rightarrow> (u8 list \<Rightarrow> u8 list list) \<Rightarrow> (u64 \<Rightarrow> u8) \<Rightarrow> io \<Rightarrow> dma_regs \<times> dumpper \<Rightarrow> dumpper option" where
  "dump_run A rs split m Halt = (\<lambda>(r, d). Some d)"
| "dump_run A rs split m (Rd a k) = (\<lambda>s.
     case reg_read A 0 (reg_offset A a) of None \<Rightarrow> None | Some v \<Rightarrow> dump_run A rs split m (k v) s)"
| "dump_run A rs split m (Wr a v k) = (\<lambda>(r, d).
     case dump_ctrl_req True (ucast (a - (ARCH_CLUSTER_REG_BASE A + rs))) True v d of
       None \<Rightarrow> None | Some d' \<Rightarrow> dump_run A rs split m k (r, d'))"
| "dump_run A rs split m (Insn w vs k) = (\<lambda>(r, d).
     dump_run A rs split m (k 0) (set_regs r w vs, fold (dump_transfer A split m) (dma_request r [(w, vs)]) d))"
| "dump_run A rs split m (Poll w k) = dump_run A rs split m k"
| "dump_run A rs split m (Amo a v k) = (\<lambda>s. None)"
| "dump_run A rs split m (Spin a v k) = (\<lambda>s. None)"
| "dump_run A rs split m (Csr_Hartid k) = (\<lambda>s. None)"
| "dump_run A rs split m (Csr_Sync k) = (\<lambda>s. None)"
| "dump_run A rs split m (Heap_Init b x y k) = (\<lambda>s. None)"
| "dump_run A rs split m (Malloc b x k) = (\<lambda>s. None)"
| "dump_run A rs split m (Free b x k) = (\<lambda>s. None)"
| "dump_run A rs split m (Printf l k) = (\<lambda>s. None)"
| "dump_run A rs split m (Tick k) = (\<lambda>s. None)"

text \<open>An application that dumps a list of parts of HBM.\<close>

fun dump_parts :: "arch \<Rightarrow> u32 \<Rightarrow> (u64 \<times> u32) list \<Rightarrow> io \<Rightarrow> io" where
  "dump_parts A rs [] k = k"
| "dump_parts A rs ((off, sz) # ps) k = flex_dump_hbm A rs off sz (dump_parts A rs ps k)"

definition part_text :: "arch \<Rightarrow> (u64 \<Rightarrow> u8) \<Rightarrow> u64 \<times> u32 \<Rightarrow> string" where
  "part_text A m p = stamp_text (fst p) @
     concat (map half_text (halves (hbm_bytes m (ucast (ARCH_HBM_START_BASE A) + fst p) (snd p))))"

text \<open>The pieces are those of the transferred bytes, none of an odd length.\<close>

definition pieces :: "(u8 list \<Rightarrow> u8 list list) \<Rightarrow> bool" where
  "pieces split = (\<forall>bs. even (length bs) \<longrightarrow> concat (split bs) = bs \<and> (\<forall>c\<in>set (split bs). even (length c)))"

lemma dump_input_file:
  assumes "even (length bs)" and "dump_file d"
  shows "dump_input_req True bs d = d\<lparr>contents := contents d @ concat (map half_text (halves bs))\<rparr>"
  using assms by (cases bs rule: halves.cases) (simp_all add: dump_input_req_def)

lemma fold_pieces:
  assumes "\<forall>c\<in>set cs. even (length c)" and "dump_file d"
  shows "fold (dump_input_req True) cs d = d\<lparr>contents := contents d @ concat (map half_text (concat (map halves cs)))\<rparr>"
  using assms by (induction cs arbitrary: d) (simp_all add: dump_input_file)

lemmas dump_program = flex_dump_open_def flex_dump_close_def flex_dump_hbm_def flex_dump_set_base_def
  flex_dump_set_lower_base_def flex_dump_set_upper_base_def flex_dump_stamp_def flex_get_enable_value_def
  dump_ctrl_req_def reg_read_def reg_offset_def flex_dma_async_1d_def flex_dma_async_wait_all_def
  bare_dma_start_1d_def bare_dma_wait_all_def set_regs_def dma_consts dma_step

lemma flex_dump_hbm_run:
  assumes "pieces split" and "even (unat sz)" and "dump_file d"
  shows "\<exists>r' d'. dump_run A rs split m (flex_dump_hbm A rs off sz k) (r, d) = dump_run A rs split m k (r', d') \<and>
    dump_file d' \<and> contents d' = contents d @ part_text A m (off, sz)"
proof -
  let ?bs = "hbm_bytes m (ucast (ARCH_HBM_START_BASE A) + off) sz"
  have "length ?bs = unat sz" by (simp add: hbm_bytes_def)
  then have p: "concat (split ?bs) = ?bs" "\<forall>c\<in>set (split ?bs). even (length c)"
    using assms(1,2) unfolding pieces_def by metis+
  have all: "concat (map halves (split ?bs)) = halves ?bs" using halves_concat [OF p(2)] p(1) by simp
  have base: "push_bit 32 (ucast (hi32 off)) OR ucast (lo32 off) = off" using cat64_halves [of off] by (simp add: cat64_def)
  let ?d = "d\<lparr>base_lower := ucast (lo32 off), base_upper := ucast (hi32 off), contents := contents d @ stamp_text off\<rparr>"
  have "fold (dump_input_req True) (split ?bs) ?d = ?d\<lparr>contents := contents ?d @ concat (map half_text (halves ?bs))\<rparr>"
    using fold_pieces [OF p(2), of ?d] assms(3) by (simp add: all)
  then show ?thesis using assms(3)
    by (simp add: dump_program base part_text_def) (intro exI conjI, rule refl, simp_all)
qed

lemma dump_parts_run:
  assumes "pieces split" and "\<forall>p\<in>set ps. even (unat (snd p))" and "dump_file d"
  shows "\<exists>r' d'. dump_run A rs split m (dump_parts A rs ps k) (r, d) = dump_run A rs split m k (r', d') \<and>
    dump_file d' \<and> contents d' = contents d @ concat (map (part_text A m) ps)"
  using assms(2,3)
proof (induction ps arbitrary: r d)
  case (Cons p ps)
  obtain off sz where p: "p = (off, sz)" by (cases p)
  then obtain r1 d1 where "dump_run A rs split m (dump_parts A rs (p # ps) k) (r, d) = dump_run A rs split m (dump_parts A rs ps k) (r1, d1)"
      "dump_file d1" "contents d1 = contents d @ part_text A m p"
    using flex_dump_hbm_run [OF assms(1), of sz d A rs m off "dump_parts A rs ps k" r] Cons.prems by auto
  then show ?case using Cons.IH [of d1 r1] Cons.prems by fastforce
qed auto

text \<open>C17: an application that opens the dump file, dumps any parts of HBM of even sizes with \<open>flex_dump_hbm\<close> and
  closes it leaves a closed file with exactly these parts in their order, each its offset and then its half words,
  in whatever pieces of half words the transfers reach the device.\<close>

theorem dump_file_contents:
  assumes "pieces split" and "\<forall>p\<in>set ps. even (unat (snd p))" and "\<not> dump_file d"
  shows "\<exists>d'. dump_run A rs split m (flex_dump_open A rs (dump_parts A rs ps (flex_dump_close A rs Halt))) (r, d) = Some d' \<and>
    \<not> dump_file d' \<and> contents d' = concat (map (part_text A m) ps)"
proof -
  let ?d = "d\<lparr>dump_file := True, contents := []\<rparr>"
  obtain r' d' where d': "dump_run A rs split m (dump_parts A rs ps (flex_dump_close A rs Halt)) (r, ?d) =
        dump_run A rs split m (flex_dump_close A rs Halt) (r', d')"
      "contents d' = concat (map (part_text A m) ps)"
    using dump_parts_run [OF assms(1,2), of ?d A rs m "flex_dump_close A rs Halt" r] by auto
  then show ?thesis using assms(3) by (simp add: dump_program)
qed

text \<open>Two half words from the start of HBM.\<close>

lemma dump_file_contents_witness:
  "\<exists>d'. dump_run arch_default 0x200 (\<lambda>bs. [bs]) (\<lambda>a. ucast a + 0xA0)
      (flex_dump_open arch_default 0x200 (dump_parts arch_default 0x200 [(0, 4)] (flex_dump_close arch_default 0x200 Halt)))
      (\<lparr>r_src = 0, r_dst = 0, r_src_stride = 0, r_dst_stride = 0, r_reps = 0, r_mask = 0\<rparr>,
       \<lparr>dump_file = False, contents = [], base_lower = 0, base_upper = 0\<rparr>) = Some d' \<and>
    contents d' = newline @ ''HBM offset == .0x0000000000000000:'' @ newline @ ''  0xa1a0'' @ newline @ ''  0xa3a2'' @ newline"
proof -
  have four: "[0 ..< 4] = [0, 1, 2, 3 :: nat]" by (simp add: upt_rec)
  have bs: "hbm_bytes (\<lambda>a. ucast a + 0xA0) 0xC0000000 4 = [0xA0, 0xA1, 0xA2, 0xA3]"
    by (simp add: hbm_bytes_def four)
  have n: "16 = Suc (Suc (Suc (Suc (Suc (Suc (Suc (Suc (Suc (Suc (Suc (Suc (Suc (Suc (Suc (Suc 0)))))))))))))))"
    "4 = Suc (Suc (Suc (Suc 0)))" by simp_all
  have hex: "hex_fixed 16 0 = ''0000000000000000''" "hex_fixed 4 0xA1A0 = ''a1a0''" "hex_fixed 4 0xA3A2 = ''a3a2''"
    unfolding n by (simp_all add: hex_char_def)
  have base: "ARCH_HBM_START_BASE arch_default = 0xC0000000" by (simp add: arch_default_def)
  have t: "concat (map (part_text arch_default (\<lambda>a. ucast a + 0xA0)) [(0, 4)]) =
      newline @ ''HBM offset == .0x0000000000000000:'' @ newline @ ''  0xa1a0'' @ newline @ ''  0xa3a2'' @ newline"
    using hex base by (simp add: part_text_def bs stamp_text_def half_text_def)
  show ?thesis
    using dump_file_contents [of "\<lambda>bs. [bs]" "[(0, 4)]" "\<lparr>dump_file = False, contents = [], base_lower = 0, base_upper = 0\<rparr>"
      arch_default "0x200" "\<lambda>a. ucast a + 0xA0" "\<lparr>r_src = 0, r_dst = 0, r_src_stride = 0, r_dst_stride = 0, r_reps = 0, r_mask = 0\<rparr>"]
    unfolding t by (auto simp: pieces_def)
qed

subsection \<open>Reading a dump back\<close>

lemma length_half_text: "length (half_text h) = 9"
  by (simp add: half_text_def newline_def length_hex_fixed)

function read_halves :: "string \<Rightarrow> nat list" where
  "read_halves s = (if length s < 9 then [] else hex_value (take 4 (drop 4 s)) # read_halves (drop 9 s))"
  by pat_completeness auto
termination by (relation "measure length") simp_all

declare read_halves.simps [simp del]

lemma read_half_texts: "read_halves (concat (map half_text hs)) = map unat hs"
proof (induction hs)
  case (Cons h hs)
  have "unat h < 16 ^ 4" using unsigned_less [of h] by simp
  then have "hex_value (take 4 (drop 4 (half_text h @ s))) = unat h" for s
    by (simp add: half_text_def length_hex_fixed hex_value_fixed)
  then show ?case using Cons by (subst read_halves.simps) (simp add: length_half_text)
qed (simp add: read_halves.simps)

text \<open>A dumped part reads back: after the 36 characters of its header, which hold the offset in the 16 digits
  from the eighteenth on, every nine characters give one half word of HBM.\<close>

lemma dump_reads_back:
  "hex_value (take 16 (drop 18 (part_text A m (off, sz)))) = unat off \<and>
   read_halves (drop 36 (part_text A m (off, sz))) =
     map unat (halves (hbm_bytes m (ucast (ARCH_HBM_START_BASE A) + off) sz))"
proof -
  have "unat off < 16 ^ 16" using unsigned_less [of off] by simp
  then show ?thesis
    by (simp add: part_text_def stamp_text_def newline_def length_hex_fixed hex_value_fixed read_half_texts)
qed

end
