(* ===== verification/Sim_Registers.thy ===== *)
theory Sim_Registers
  imports Flex_Hw
begin

text \<open>
  The cluster registers as a component of the simulator, \<open>flex_cluster/cluster_registers.cpp\<close>, handler by handler
  with its fields at their widths.  \<open>Flex_Hw\<close> is the machine of all clusters at the level of the runtime;
  \<open>Sim_Registers_Props\<close> relates the two.
\<close>

text \<open>\<open>'r\<close> are the requests of the bus, one of which is held back in \<open>global_barrier_query\<close>; \<open>clint_set\<close>
  and \<open>clint_clear\<close> are the registers of that name of the generated register map.\<close>

record 'r cluster_registers =
  nb_cores :: nat
  cluster_id :: u32
  cluster_x :: u32
  cluster_y :: u32
  barrier_status :: u32
  global_barrier_query :: "'r option"
  global_barrier_mutex :: bool
  global_sync_enable :: bool
  global_sync_timestamp :: u64
  cl_clint_set :: u32
  cl_clint_clear :: u32

definition cluster_registers_new :: "nat \<Rightarrow> u32 \<Rightarrow> u32 \<Rightarrow> u32 \<Rightarrow> 'r cluster_registers" where
  "cluster_registers_new n cid x y =
     \<lparr>nb_cores = n, cluster_id = cid, cluster_x = x, cluster_y = y, barrier_status = 0, global_barrier_query = None,
      global_barrier_mutex = False, global_sync_enable = False, global_sync_timestamp = 0, cl_clint_set = 0,
      cl_clint_clear = 0\<rparr>"

text \<open>What a handler does to the outside: a broadcast of wake-ups with its masks, the answer to a held back
  request, the release of the cores of the cluster, an interrupt line, the trace of a synchronisation.\<close>

datatype 'r reg_action =
    Wakeup u8 u8
  | Respond 'r
  | Ack
  | Irq nat bool
  | Cluster_Sync u64 u64 u64 u32

datatype req_status = Req_Ok | Req_Pending

text \<open>A request \<open>r\<close>; \<open>data\<close> is the first word of its buffer, which the loads overwrite, \<open>time\<close> the time in
  nanoseconds.\<close>

definition reg_data :: "u64 \<Rightarrow> bool \<Rightarrow> u32 \<Rightarrow> 'r cluster_registers \<Rightarrow> u32" where
  "reg_data offset is_write data c =
     (if \<not> is_write \<and> offset = 0 then cluster_id c
      else if offset = 4 then 1
      else if offset = 8 then cluster_x c * cluster_y c
      else if offset = 12 then cluster_x c
      else if offset = 16 then cluster_y c
      else if offset = 24 then 0
      else data)"

definition sync_trace :: "u64 \<Rightarrow> u32 \<Rightarrow> 'r cluster_registers \<Rightarrow> 'r cluster_registers \<times> 'r reg_action list" where
  "sync_trace time type c =
     (if \<not> global_sync_enable c then (c\<lparr>global_sync_enable := True, global_sync_timestamp := time\<rparr>, [])
      else (c\<lparr>global_sync_enable := False\<rparr>,
        [Cluster_Sync (global_sync_timestamp c) time (time - global_sync_timestamp c) type]))"

definition registers_req ::
    "u64 \<Rightarrow> 'r \<Rightarrow> u64 \<Rightarrow> bool \<Rightarrow> u32 \<Rightarrow> 'r cluster_registers \<Rightarrow>
     'r cluster_registers \<times> req_status \<times> u32 \<times> 'r reg_action list" where
  "registers_req time r offset is_write data c =
     (if is_write \<and> offset = 0 \<and> global_barrier_query c = None then
        (if global_barrier_mutex c then (c\<lparr>global_barrier_mutex := False\<rparr>, Req_Ok, data, [])
         else (c\<lparr>global_barrier_query := Some r\<rparr>, Req_Pending, data, []))
      else if is_write \<and> offset = 20 then
        (case sync_trace time data c of (c', as) \<Rightarrow> (c', Req_Ok, data, as))
      else if is_write \<and> offset = 28 then
        (c, Req_Ok, data, [Wakeup (ucast (data AND 0xFFFF)) (ucast (drop_bit 16 data))])
      else (c, Req_Ok, reg_data offset is_write data c, []))"

definition global_barrier_sync :: "'r cluster_registers \<Rightarrow> 'r cluster_registers \<times> 'r reg_action list" where
  "global_barrier_sync c = (case global_barrier_query c of
     None \<Rightarrow> (c\<lparr>global_barrier_mutex := True\<rparr>, [])
   | Some r \<Rightarrow> (c\<lparr>global_barrier_mutex := False, global_barrier_query := None\<rparr>, [Respond r]))"

text \<open>The line \<open>i\<close> of the barrier in the cluster.\<close>

definition barrier_sync :: "bool \<Rightarrow> nat \<Rightarrow> 'r cluster_registers \<Rightarrow> 'r cluster_registers \<times> 'r reg_action list" where
  "barrier_sync value i c =
     (let st = barrier_status c OR push_bit i (of_bool value) in
      if (ucast st :: u64) = push_bit (nb_cores c) 1 - 1 then (c\<lparr>barrier_status := 0\<rparr>, [Ack])
      else (c\<lparr>barrier_status := st\<rparr>, []))"

definition registers_reset :: "'r cluster_registers \<Rightarrow> 'r cluster_registers" where
  "registers_reset c = c\<lparr>barrier_status := 0\<rparr>"

text \<open>Interrupts; \<open>update\<close> is the access of the generated register map to its register.\<close>

definition irq_lines :: "nat \<Rightarrow> u32 \<Rightarrow> bool \<Rightarrow> 'r reg_action list" where
  "irq_lines n v level = map (\<lambda>i. Irq i level) (filter (bit v) [0 ..< n])"

definition cl_clint_set_req :: "(u32 \<Rightarrow> u32) \<Rightarrow> 'r cluster_registers \<Rightarrow> 'r cluster_registers \<times> 'r reg_action list" where
  "cl_clint_set_req update c =
     (let v = update (cl_clint_set c) in (c\<lparr>cl_clint_set := v\<rparr>, irq_lines (nb_cores c) v True))"

definition cl_clint_clear_req :: "(u32 \<Rightarrow> u32) \<Rightarrow> 'r cluster_registers \<Rightarrow> 'r cluster_registers \<times> 'r reg_action list" where
  "cl_clint_clear_req update c =
     (let v = update (cl_clint_clear c) in (c\<lparr>cl_clint_clear := v\<rparr>, irq_lines (nb_cores c) v False))"

end
