(* ===== verification/Sim_Registers_Props.thy ===== *)
theory Sim_Registers_Props
  imports Sim_Registers
begin

text \<open>
  The machine built from the cluster register components: cores stall on a store that is held back until its
  request is answered, and at the barrier of their cluster until it is released.  It has the same steps as
  the machine of \<open>Flex_Hw\<close>.
\<close>

subsection \<open>The machine\<close>

record chw =
  c_mem :: heap
  c_prog :: "hart \<Rightarrow> io"
  c_regs :: "nat \<Rightarrow> nat cluster_registers"
  c_flight :: "nat \<Rightarrow> nat"
  c_ticks :: "hart \<Rightarrow> nat"
  c_waiting :: "hart \<Rightarrow> bool"
  c_at_sync :: "hart \<Rightarrow> bool"

definition spread :: "arch \<Rightarrow> nat \<Rightarrow> u8 \<Rightarrow> u8 \<Rightarrow> (nat \<Rightarrow> nat) \<Rightarrow> nat \<Rightarrow> nat" where
  "spread A source row_mask col_mask f c =
     (if c < num_x A * num_y A \<and> check_target A c source row_mask col_mask then Suc (f c) else f c)"

fun act :: "arch \<Rightarrow> nat \<Rightarrow> nat reg_action \<Rightarrow> chw \<Rightarrow> chw" where
  "act A c (Wakeup rm cm) t = t\<lparr>c_flight := spread A c rm cm (c_flight t)\<rparr>"
| "act A c (Respond i) t = t\<lparr>c_waiting := (c_waiting t)((c, i) := False)\<rparr>"
| "act A c Ack t =
     t\<lparr>c_prog := (\<lambda>g. if fst g = c \<and> snd g < num_cores A then skip_sync (c_prog t g) else c_prog t g),
       c_at_sync := (\<lambda>g. if fst g = c \<and> snd g < num_cores A then False else c_at_sync t g)\<rparr>"
| "act A c (Irq i b) t = t"
| "act A c (Cluster_Sync a b d e) t = t"

definition reg_access :: "arch \<Rightarrow> u64 \<Rightarrow> hart \<Rightarrow> u32 \<Rightarrow> bool \<Rightarrow> u32 \<Rightarrow> (u32 \<Rightarrow> io) \<Rightarrow> chw \<Rightarrow> chw" where
  "reg_access A time h off wr data k t =
     (case registers_req time (snd h) (ucast off) wr data (c_regs t (fst h)) of (c', st, v, as) \<Rightarrow>
        fold (act A (fst h)) as
          (t\<lparr>c_regs := (c_regs t)(fst h := c'), c_prog := (c_prog t)(h := k v),
             c_waiting := (c_waiting t)(h := (st = Req_Pending))\<rparr>))"

definition sync_line :: "arch \<Rightarrow> hart \<Rightarrow> chw \<Rightarrow> chw" where
  "sync_line A h t =
     (case barrier_sync True (snd h) (c_regs t (fst h)) of (c', as) \<Rightarrow>
        fold (act A (fst h)) as (t\<lparr>c_regs := (c_regs t)(fst h := c'), c_at_sync := (c_at_sync t)(h := True)\<rparr>))"

definition wake_up :: "arch \<Rightarrow> nat \<Rightarrow> chw \<Rightarrow> chw" where
  "wake_up A c t =
     (case global_barrier_sync (c_regs t c) of (c', as) \<Rightarrow>
        fold (act A c) as (t\<lparr>c_regs := (c_regs t)(c := c'), c_flight := (c_flight t)(c := c_flight t c - 1)\<rparr>))"

text \<open>The state of \<open>Flex_Hw\<close> it stands for.\<close>

definition view :: "chw \<Rightarrow> hw" where
  "view t = \<lparr>mem = c_mem t, prog = c_prog t, at_sync = c_at_sync t, query = (\<lambda>c. global_barrier_query (c_regs t c)),
     mutex = (\<lambda>c. global_barrier_mutex (c_regs t c)), flight = c_flight t, ticks = c_ticks t\<rparr>"

text \<open>Steps of a core that reach neither the registers nor the barrier are those of \<open>Flex_Hw\<close>.\<close>

fun own_step :: "arch \<Rightarrow> io \<Rightarrow> bool" where
  "own_step A (Rd a k) = (\<not> is_reg A a)"
| "own_step A (Wr a v k) = (\<not> is_reg A a)"
| "own_step A (Csr_Sync k) = False"
| "own_step A p = True"

definition defined_load :: "u32 \<Rightarrow> bool" where
  "defined_load off = (off \<in> {0, 4, 8, 12, 16, 24})"

inductive chw_step :: "arch \<Rightarrow> chw \<Rightarrow> chw \<Rightarrow> bool" for A where
  c_load: "is_hart A h \<Longrightarrow> \<not> c_waiting t h \<Longrightarrow> c_prog t h = Rd a k \<Longrightarrow> is_reg A a \<Longrightarrow> defined_load (reg_offset A a) \<Longrightarrow>
    chw_step A t (reg_access A time h (reg_offset A a) False data k t)"
| c_store: "is_hart A h \<Longrightarrow> \<not> c_waiting t h \<Longrightarrow> c_prog t h = Wr a v k \<Longrightarrow> is_reg A a \<Longrightarrow>
    chw_step A t (reg_access A time h (reg_offset A a) True v (\<lambda>_. k) t)"
| c_sync: "is_hart A h \<Longrightarrow> \<not> c_waiting t h \<Longrightarrow> c_prog t h = Csr_Sync k \<Longrightarrow> \<not> c_at_sync t h \<Longrightarrow>
    chw_step A t (sync_line A h t)"
| c_own: "is_hart A h \<Longrightarrow> \<not> c_waiting t h \<Longrightarrow> own_step A (c_prog t h) \<Longrightarrow> hart_step A h (view t) s \<Longrightarrow>
    chw_step A t (t\<lparr>c_mem := mem s, c_prog := prog s, c_ticks := ticks s\<rparr>)"
| c_wake: "c < num_x A * num_y A \<Longrightarrow> 0 < c_flight t c \<Longrightarrow> chw_step A t (wake_up A c t)"

inductive chw_run :: "arch \<Rightarrow> chw \<Rightarrow> chw \<Rightarrow> bool" for A t0 where
  c_start: "chw_run A t0 t0"
| c_next: "chw_run A t0 t \<Longrightarrow> chw_step A t t' \<Longrightarrow> chw_run A t0 t'"

subsection \<open>The components and the machine\<close>

text \<open>The configuration, and what the cores' stalls have to do with the registers.\<close>

definition regs_ok :: "arch \<Rightarrow> chw \<Rightarrow> nat \<Rightarrow> bool" where
  "regs_ok A t c = (nb_cores (c_regs t c) = num_cores A \<and> cluster_id (c_regs t c) = of_nat c \<and>
     cluster_x (c_regs t c) = ARCH_NUM_CLUSTER_X A \<and> cluster_y (c_regs t c) = ARCH_NUM_CLUSTER_Y A \<and>
     (\<forall>i. bit (barrier_status (c_regs t c)) i \<longleftrightarrow> c_at_sync t (c, i)) \<and>
     (\<forall>i. c_at_sync t (c, i) \<longrightarrow> i < num_cores A) \<and>
     (\<forall>i. c_waiting t (c, i) \<longleftrightarrow> global_barrier_query (c_regs t c) = Some i))"

definition chw_ok :: "arch \<Rightarrow> chw \<Rightarrow> bool" where
  "chw_ok A t = (\<forall>c. regs_ok A t c)"

lemma off64:
  assumes "n < 4294967296"
  shows "(ucast (off :: u32) :: u64) = of_nat n \<longleftrightarrow> off = of_nat n"
proof -
  have "unat (of_nat n :: u64) = n" "unat (of_nat n :: u32) = n" using assms by (simp_all add: unat_of_nat)
  then show ?thesis unfolding word_unat_eq_iff by (simp add: unsigned_ucast_eq take_bit_nat_eq_self)
qed

lemmas offsets = off64 [of 0, simplified] off64 [of 4, simplified] off64 [of 8, simplified] off64 [of 12, simplified]
  off64 [of 16, simplified] off64 [of 20, simplified] off64 [of 24, simplified] off64 [of 28, simplified]

lemma reg_access_load:
  assumes "chw_ok A t" and "defined_load off" and "\<not> c_waiting t h"
  shows "\<exists>v. reg_read A (fst h) off = Some v \<and>
    reg_access A time h off False data k t = t\<lparr>c_prog := (c_prog t)(h := k v)\<rparr>"
proof -
  have conf: "cluster_id (c_regs t (fst h)) = of_nat (fst h)" "cluster_x (c_regs t (fst h)) = ARCH_NUM_CLUSTER_X A"
      "cluster_y (c_regs t (fst h)) = ARCH_NUM_CLUSTER_Y A"
    using assms(1) by (simp_all add: chw_ok_def regs_ok_def)
  obtain v where v: "reg_read A (fst h) off = Some v" "reg_data (ucast off) False data (c_regs t (fst h)) = v"
    using assms(2) by (auto simp: defined_load_def reg_read_def reg_data_def conf)
  have "registers_req time (snd h) (ucast off) False data (c_regs t (fst h)) = (c_regs t (fst h), Req_Ok, v, [])"
    by (simp add: registers_req_def v(2))
  then show ?thesis using v(1) assms(3) by (simp add: reg_access_def fun_upd_idem)
qed

lemma reg_access_store:
  assumes "chw_ok A t" and "\<not> c_waiting t h"
  shows "view (reg_access A time h off True v (\<lambda>_. k) t) = reg_write A h off v k (view t) \<and>
    chw_ok A (reg_access A time h off True v (\<lambda>_. k) t)"
proof -
  obtain c i where h: "h = (c, i)" by (cases h)
  have ok: "regs_ok A t d" for d using assms(1) by (simp add: chw_ok_def)
  have w: "c_waiting t (d, j) \<longleftrightarrow> global_barrier_query (c_regs t d) = Some j" for d j using ok by (simp add: regs_ok_def)
  note defs = reg_access_def registers_req_def reg_write_def view_def Let_def h chw_ok_def regs_ok_def sync_trace_def offsets
    spread_def broadcast_def
  show ?thesis
    using ok w assms(2) by (auto simp: defs fun_eq_iff split: prod.splits)
qed

lemma wake_up_deliver:
  assumes "chw_ok A t"
  shows "view (wake_up A c t) = deliver c (view t) \<and> chw_ok A (wake_up A c t)"
proof -
  have ok: "regs_ok A t d" for d using assms by (simp add: chw_ok_def)
  have w: "c_waiting t (d, j) \<longleftrightarrow> global_barrier_query (c_regs t d) = Some j" for d j using ok by (simp add: regs_ok_def)
  show ?thesis
    using ok w by (auto simp: wake_up_def global_barrier_sync_def deliver_def view_def Let_def chw_ok_def regs_ok_def fun_eq_iff
        split: option.splits)
qed

text \<open>The status is full when all lines of the cores have come.\<close>

lemma full_status:
  assumes "n \<le> 32" and "\<forall>i. bit (st :: u32) i \<longrightarrow> i < n"
  shows "(ucast st :: u64) = push_bit n 1 - 1 \<longleftrightarrow> (\<forall>i<n. bit st i)"
proof -
  have m: "(push_bit n 1 - 1 :: u64) = mask n" by (simp add: mask_eq_exp_minus_1 push_bit_of_1)
  show ?thesis unfolding m using assms by (auto simp: bit_eq_iff bit_simps)
qed

lemma sync_line_arrive:
  assumes "chw_ok A t" and n: "num_cores A \<le> 32" and "is_hart A h"
  shows "view (sync_line A h t) = arrive A h (view t) \<and> chw_ok A (sync_line A h t)"
proof -
  obtain c i where h: "h = (c, i)" by (cases h)
  have i: "i < num_cores A" using assms(3) by (simp add: h is_hart_def)
  have ok: "regs_ok A t d" for d using assms(1) by (simp add: chw_ok_def)
  let ?st = "barrier_status (c_regs t c) OR push_bit i 1"
  have cores: "nb_cores (c_regs t c) = num_cores A" using ok [of c] by (simp add: regs_ok_def)
  have st: "bit ?st j \<longleftrightarrow> c_at_sync t (c, j) \<or> j = i" for j
    using ok [of c] i n by (auto simp: regs_ok_def bit_simps)
  have lim: "bit ?st j \<longrightarrow> j < num_cores A" for j using ok [of c] i unfolding st by (auto simp: regs_ok_def)
  have full: "(ucast ?st :: u64) = push_bit (nb_cores (c_regs t c)) 1 - 1 \<longleftrightarrow> (\<forall>j<num_cores A. c_at_sync t (c, j) \<or> j = i)"
    unfolding cores using full_status [OF n, of ?st] lim st by blast
  let ?t = "t\<lparr>c_at_sync := (c_at_sync t)(h := True)\<rparr>"
  have all: "all_at_sync A ((view t)\<lparr>at_sync := (c_at_sync t)(h := True)\<rparr>) c \<longleftrightarrow> (\<forall>j<num_cores A. c_at_sync t (c, j) \<or> j = i)"
    by (auto simp: all_at_sync_def h)
  show ?thesis
  proof (cases "\<forall>j<num_cores A. c_at_sync t (c, j) \<or> j = i")
    case True
    have b: "barrier_sync True i (c_regs t c) = ((c_regs t c)\<lparr>barrier_status := 0\<rparr>, [Ack])"
      using True full by (simp add: barrier_sync_def)
    have a: "arrive A h (view t) = (view t)
        \<lparr>prog := (\<lambda>g. if fst g = c \<and> snd g < num_cores A then skip_sync (c_prog t g) else c_prog t g),
         at_sync := (\<lambda>g. if fst g = c \<and> snd g < num_cores A then False else c_at_sync t g)\<rparr>"
      using True all by (auto simp: arrive_def h view_def)
    show ?thesis unfolding a using ok i
      by (auto simp: sync_line_def h b view_def chw_ok_def regs_ok_def fun_eq_iff)
  next
    case False
    have b: "barrier_sync True i (c_regs t c) = ((c_regs t c)\<lparr>barrier_status := ?st\<rparr>, [])"
      using False full by (simp add: barrier_sync_def)
    have "\<not> all_at_sync A ((view t)\<lparr>at_sync := (c_at_sync t)(h := True)\<rparr>) c" using False unfolding all .
    then have a: "arrive A h (view t) = (view t)\<lparr>at_sync := (c_at_sync t)(h := True)\<rparr>"
      by (simp add: arrive_def h view_def Let_def)
    show ?thesis unfolding a using ok i st
      by (auto simp: sync_line_def h b view_def chw_ok_def regs_ok_def fun_eq_iff)
  qed
qed

subsection \<open>Simulation in both directions\<close>

lemma hart_step_own:
  assumes "hart_step A h s s'" and "own_step A (prog s h)"
  shows "at_sync s' = at_sync s \<and> query s' = query s \<and> mutex s' = mutex s \<and> flight s' = flight s"
  using assms by (cases rule: hart_step.cases) auto

lemma waiting_held:
  assumes "chw_ok A t"
  shows "held_back (view t) h \<longleftrightarrow> c_waiting t h"
  using assms by (cases h) (auto simp: held_back_def view_def chw_ok_def regs_ok_def)

lemma view_update: "view (t\<lparr>c_mem := mem s, c_prog := prog s, c_ticks := ticks s\<rparr>) =
    (view t)\<lparr>mem := mem s, prog := prog s, ticks := ticks s\<rparr>"
  by (simp add: view_def)

theorem chw_step_view:
  assumes "chw_step A t t'" and ok: "chw_ok A t" and n: "num_cores A \<le> 32"
  shows "hw_step A (view t) (view t') \<and> chw_ok A t'"
proof -
  have runs: "hw_step A (view t) s" if "is_hart A h" "\<not> c_waiting t h" "hart_step A h (view t) s" for h s
    using run [OF that(1) _ that(3)] that(2) waiting_held [OF ok] by blast
  show ?thesis using assms(1)
  proof cases
    case (c_load h a k time data)
    obtain v where v: "reg_read A (fst h) (reg_offset A a) = Some v"
        "t' = t\<lparr>c_prog := (c_prog t)(h := k v)\<rparr>"
      using reg_access_load [OF ok, of "reg_offset A a" h time data k] c_load by auto
    have "hart_step A h (view t) ((view t)\<lparr>prog := (prog (view t))(h := k v)\<rparr>)"
      using c_load v by (intro reg_load) (simp_all add: view_def)
    moreover have "view t' = (view t)\<lparr>prog := (prog (view t))(h := k v)\<rparr>" by (simp add: v view_def)
    ultimately have "hw_step A (view t) (view t')" using runs c_load(2,3) by metis
    then show ?thesis using ok unfolding v(2) by (simp add: chw_ok_def regs_ok_def)
  next
    case (c_store h a v k time)
    note w = reg_access_store [OF ok c_store(3), where off = "reg_offset A a" and v = v and k = k and time = time]
    have "hart_step A h (view t) (view t')"
      using c_store w reg_store [of "view t" h a v k A] by (simp add: view_def)
    then show ?thesis using c_store w runs by blast
  next
    case (c_sync h k)
    have "hart_step A h (view t) (view t')"
      using c_sync sync_line_arrive [OF ok n, of h] sync [of "view t" h k A] by (simp add: view_def)
    then show ?thesis using c_sync sync_line_arrive [OF ok n] runs by blast
  next
    case (c_own h s)
    have "s = (view t)\<lparr>mem := mem s, prog := prog s, ticks := ticks s\<rparr>"
      using hart_step_own [OF c_own(5)] c_own(4) by (simp add: view_def)
    then have "view t' = s" using c_own(1) view_update by metis
    then have "hw_step A (view t) (view t')" using runs c_own by metis
    then show ?thesis using ok unfolding c_own(1) by (simp add: chw_ok_def regs_ok_def)
  next
    case (c_wake c)
    then show ?thesis using wake_up_deliver [OF ok, of c] wake [of c A "view t"] by (simp add: view_def)
  qed
qed

text \<open>Whenever the machine of \<open>Flex_Hw\<close> can move, the components can.\<close>

theorem view_step_chw:
  assumes "hw_step A (view t) s" and ok: "chw_ok A t"
  shows "\<exists>t'. chw_step A t t'"
  using assms(1)
proof cases
  case (run h)
  have w: "\<not> c_waiting t h" using run(2) waiting_held [OF ok] by blast
  show ?thesis
  proof (cases "own_step A (c_prog t h)")
    case True
    then show ?thesis using chw_step.c_own [OF run(1) w _ run(3)] by blast
  next
    case False
    from run(3) show ?thesis
    proof cases
      case (reg_load a k v)
      then have "defined_load (reg_offset A a)" by (auto simp: reg_read_def defined_load_def split: if_splits)
      then show ?thesis using chw_step.c_load [OF run(1) w] reg_load by (simp add: view_def) blast
    next
      case (reg_store a v k)
      then show ?thesis using chw_step.c_store [OF run(1) w] by (simp add: view_def) blast
    next
      case (sync k)
      then show ?thesis using chw_step.c_sync [OF run(1) w] by (simp add: view_def) blast
    qed (use False in \<open>simp_all add: view_def\<close>)
  qed
next
  case (wake c)
  then show ?thesis using chw_step.c_wake [of c A t] by (auto simp: view_def)
qed

text \<open>Corner cases: the masks of a broadcast are cut to 8 bits, and a store to the wake-up register while another
  one is held back is answered at once, without a wake-up.\<close>

lemma wakeup_masks_cut:
  "registers_req t r 28 True 0x01FF0100 c = (c, Req_Ok, 0x01FF0100, [Wakeup 0 0xFF])"
  by (simp add: registers_req_def)

lemma second_wait_passes:
  "global_barrier_query c = Some q \<Longrightarrow> registers_req t r 0 True v c = (c, Req_Ok, v, [])"
  by (simp add: registers_req_def reg_data_def)

end
