(* ===== verification/Sim_Registers_Barrier.thy ===== *)
theory Sim_Registers_Barrier
  imports Sim_Registers_Props Barrier_Props
begin

text \<open>
  The two-level barrier of the runtime on the cluster register components: the results of \<open>Barrier_Props\<close> carried
  over by the simulation of \<open>Sim_Registers_Props\<close>.
\<close>

text \<open>All cores at the start of a program that meets at the barrier \<open>n\<close> times, fresh registers.\<close>

definition chw_start :: "arch \<Rightarrow> nat \<Rightarrow> heap \<Rightarrow> chw" where
  "chw_start A n m =
     \<lparr>c_mem = m, c_prog = (\<lambda>_. client A n),
      c_regs = (\<lambda>c. cluster_registers_new (num_cores A) (of_nat c) (ARCH_NUM_CLUSTER_X A) (ARCH_NUM_CLUSTER_Y A)),
      c_flight = (\<lambda>_. 0), c_ticks = (\<lambda>_. 0), c_waiting = (\<lambda>_. False), c_at_sync = (\<lambda>_. False)\<rparr>"

lemma chw_start_ok: "chw_ok A (chw_start A n m)" "view (chw_start A n m) = start A n m"
  by (simp_all add: chw_ok_def regs_ok_def chw_start_def cluster_registers_new_def view_def start_def)

lemma chw_run_view:
  assumes "chw_run A (chw_start A n m) t" and "num_cores A \<le> 32"
  shows "reachable A (start A n m) (view t) \<and> chw_ok A t"
  using assms(1)
proof induction
  case c_start
  show ?case using chw_start_ok [of A n m] by (simp add: reachable.start)
next
  case (c_next t t')
  then show ?case using chw_step_view [OF c_next.hyps(2) _ assms(2)] by (blast intro: reachable.step)
qed

text \<open>C9: the cluster registers, handler by handler, implement the machine of the runtime: every run of the
  components from reset is a run of \<open>Flex_Hw\<close> on their view, and they are never stuck where it is not; a core
  stalls exactly while its request is the one held back.\<close>

theorem registers_refine_machine:
  assumes "chw_run A (chw_start A n m) t" and "num_cores A \<le> 32"
  shows "reachable A (start A n m) (view t) \<and>
    (\<forall>t'. chw_step A t t' \<longrightarrow> hw_step A (view t) (view t')) \<and>
    ((\<exists>t'. chw_step A t t') \<longleftrightarrow> (\<exists>s. hw_step A (view t) s)) \<and>
    (\<forall>h. c_waiting t h \<longleftrightarrow> global_barrier_query (c_regs t (fst h)) = Some (snd h))"
proof -
  have r: "reachable A (start A n m) (view t)" "chw_ok A t" using chw_run_view [OF assms] by blast+
  have "\<forall>h. c_waiting t h \<longleftrightarrow> global_barrier_query (c_regs t (fst h)) = Some (snd h)"
    using r(2) by (simp add: chw_ok_def regs_ok_def)
  then show ?thesis using r chw_step_view [OF _ r(2) assms(2)] view_step_chw [OF _ r(2)] by blast
qed

lemma cores_default: "num_cores arch_default \<le> 32"
  by (simp add: num_cores_def)

text \<open>The first step of a core of the reset machine, and its run to the end.\<close>

lemma registers_refine_machine_witness:
  "reachable arch_default (start arch_default 1 (\<lambda>_. 0)) (view (chw_start arch_default 1 (\<lambda>_. 0))) \<and>
   \<not> c_waiting (chw_start arch_default 1 (\<lambda>_. 0)) (0, 0)"
  using registers_refine_machine [OF chw_run.c_start cores_default, of 1 "\<lambda>_. 0"] by (simp add: chw_start_def)

lemma chw_run_to_end:
  assumes "chw_run A (chw_start A n m) t" and "num_cores A \<le> 32"
  shows "\<exists>t'. chw_run A (chw_start A n m) t' \<and> (\<nexists>t''. chw_step A t' t'')"
  using wf_inv_image [OF wf_run_order [of A], of view] assms(1)
proof (induction t rule: wf_induct_rule)
  case (less t)
  show ?case
  proof (cases "\<exists>t'. chw_step A t t'")
    case True
    then obtain t' where t': "chw_step A t t'" by blast
    then have "hw_step A (view t) (view t')" using chw_step_view chw_run_view [OF less.prems assms(2)] assms(2) by blast
    then have "(t', t) \<in> inv_image (run_order A) view" using step_order by simp
    then show ?thesis using less.IH chw_run.c_next [OF less.prems t'] by blast
  next
    case False
    then show ?thesis using less.prems by blast
  qed
qed

text \<open>C8: the barrier on the components: with \<open>flex_barrier_xy_init\<close> and then \<open>n\<close> phases of work, each ended
  by \<open>flex_global_barrier_xy\<close>, on every core, no core of a machine built from the cluster registers is ever more
  than one phase ahead of another, and when no component can move every core has finished its \<open>n\<close> phases.\<close>

theorem barrier_on_registers:
  assumes "sync_ok A" and "num_cores A \<le> 32" and "chw_run A (chw_start A n m) t"
  shows "(\<forall>h k. is_hart A h \<and> is_hart A k \<longrightarrow> c_ticks t h \<le> Suc (c_ticks t k)) \<and>
    ((\<nexists>t'. chw_step A t t') \<longrightarrow> (\<forall>h. is_hart A h \<longrightarrow> c_prog t h = Halt \<and> c_ticks t h = n))"
proof -
  have r: "reachable A (start A n m) (view t)" "chw_ok A t" using chw_run_view [OF assms(3,2)] by blast+
  obtain g R where inv: "bar_inv A n g R (view t)" using reachable_inv [OF assms(1) r(1)] by blast
  have t: "ticks (view t) = c_ticks t" "prog (view t) = c_prog t" by (simp_all add: view_def)
  have "c_ticks t h \<le> Suc (c_ticks t k)" if "is_hart A h" "is_hart A k" for h k
    using ticks_of_hart [OF inv that(1)] ticks_of_hart [OF inv that(2)] unfolding t by linarith
  moreover have "c_prog t h = Halt \<and> c_ticks t h = n" if "\<nexists>t'. chw_step A t t'" "is_hart A h" for h
    using not_stuck [OF assms(1) inv] view_step_chw [OF _ r(2)] that unfolding finished_def t by blast
  ultimately show ?thesis by blast
qed

lemma barrier_on_registers_witness:
  "\<exists>t. chw_run arch_default (chw_start arch_default 3 (\<lambda>_. 7)) t \<and>
     (\<forall>h. is_hart arch_default h \<longrightarrow> c_prog t h = Halt \<and> c_ticks t h = 3)"
proof -
  obtain t where "chw_run arch_default (chw_start arch_default 3 (\<lambda>_. 7)) t" "\<nexists>t'. chw_step arch_default t t'"
    using chw_run_to_end [OF chw_run.c_start cores_default] by blast
  then show ?thesis using barrier_on_registers [OF sync_ok_default cores_default] by blast
qed

end
