(* ===== verification/Soc_Boot.thy ===== *)
theory Soc_Boot
  imports Soc_Daml
begin

text \<open>
  \<open>main_soc_daml_test.c\<close>, the program that brings the allocator metadata up and tests it: allocators for
  every core, a preload that fragments the arenas, snapshots of the free lists, the bitmaps, the common
  ranges, and a copy of one HBM buffer to the same L1 address of every cluster.  The barriers of the
  program put its phases in one order and in each phase either one core works or the first core of every
  cluster on the memory of its own cluster, so a phase is a function on the shared state.  The
  timer stamps and the exit code are left out; \<open>Soc_Boot_Props\<close> has the theorems.
\<close>

subsection \<open>Configuration and state\<close>

definition BROADCAST_BYTES :: u32 where "BROADCAST_BYTES = 2048"
definition PRELOAD_MIN_SLOTS :: u32 where "PRELOAD_MIN_SLOTS = 2"
definition PRELOAD_MAX_SLOTS :: u32 where "PRELOAD_MAX_SLOTS = 10"

record soc_test =
  soc :: soc_daml
  g_cluster_verify_status :: "u32 \<Rightarrow> u32"
  g_hbm_src :: u32

definition clusters :: "soc_arch \<Rightarrow> u32 list" where
  "clusters A = u32_range 0 (NUM_CLUSTERS A)"

definition cores :: "soc_arch \<Rightarrow> u32 list" where
  "cores A = u32_range 0 (ARCH_NUM_CORE_PER_CLUSTER A)"

text \<open>A loop whose body may not return.\<close>

primrec fold_opt :: "('a \<Rightarrow> 's \<Rightarrow> 's option) \<Rightarrow> 'a list \<Rightarrow> 's \<Rightarrow> 's option" where
  "fold_opt f [] s = Some s"
| "fold_opt f (x # xs) s = (case f x s of None \<Rightarrow> None | Some s' \<Rightarrow> fold_opt f xs s')"

definition on_soc :: "(soc_daml \<Rightarrow> soc_daml) \<Rightarrow> soc_test \<Rightarrow> soc_test" where
  "on_soc f t = t\<lparr>soc := f (soc t)\<rparr>"

subsection \<open>Helpers\<close>

definition min_u32 :: "u32 \<Rightarrow> u32 \<Rightarrow> u32" where
  "min_u32 a b = (if a < b then a else b)"

definition pattern_u32 :: "u32 \<Rightarrow> u32 \<Rightarrow> u32" where
  "pattern_u32 seed i = seed XOR (0x9E3779B9 * i)"

definition fill_pattern_u32 :: "u32 \<Rightarrow> u32 \<Rightarrow> u32 \<Rightarrow> heap \<Rightarrow> heap" where
  "fill_pattern_u32 dst n_words seed m = fold (\<lambda>i m. m(dst + 4 * i := pattern_u32 seed i)) (u32_range 0 n_words) m"

definition verify_pattern_u32 :: "u32 \<Rightarrow> u32 \<Rightarrow> u32 \<Rightarrow> heap \<Rightarrow> u32" where
  "verify_pattern_u32 ptr n_words seed m =
     (case find (\<lambda>i. m (ptr + 4 * i) \<noteq> pattern_u32 seed i) (u32_range 0 n_words) of Some i \<Rightarrow> i | None \<Rightarrow> -1)"

text \<open>\<open>src\<close> is an address of the HBM memory \<open>h\<close>, \<open>dst\<close> one of the L1 memory of the running core.\<close>

definition local_copy_from_hbm :: "u32 \<Rightarrow> u32 \<Rightarrow> u32 \<Rightarrow> heap \<Rightarrow> heap \<Rightarrow> heap" where
  "local_copy_from_hbm dst src n_bytes h m =
     fold (\<lambda>i m. m(dst + 4 * i := h (src + 4 * i))) (u32_range 0 (drop_bit 2 n_bytes)) m"

definition print_in_cluster_core_order :: "soc_arch \<Rightarrow> string \<Rightarrow> soc_daml \<Rightarrow> soc_daml" where
  "print_in_cluster_core_order A tag g =
     fold (\<lambda>cid. fold (\<lambda>kid. soc_printf (''    ['' @ tag @ ''] C%u/K%u says hi'') [cid, kid]) (cores A)) (clusters A)
       (soc_printf tag [] g)"

definition get_core_arena :: "soc_arch \<Rightarrow> u32 \<Rightarrow> u32 \<times> u32" where
  "get_core_arena A core_id =
     (let heap_base = ARCH_CLUSTER_HEAP_BASE A;
          heap_end = ARCH_CLUSTER_HEAP_END A;
          heap_size = (if heap_end > heap_base then heap_end - heap_base else 0);
          share = (if ARCH_NUM_CORE_PER_CLUSTER A > 0 then heap_size div ARCH_NUM_CORE_PER_CLUSTER A else 0);
          share = (share div 8) * 8;
          base = heap_base + core_id * share;
          size = (if core_id = ARCH_NUM_CORE_PER_CLUSTER A - 1 then heap_end - base else share);
          size = (size div 8) * 8
      in (base, size))"

definition choose_slots :: "u32 \<Rightarrow> u32 \<Rightarrow> u32 \<Rightarrow> u32" where
  "choose_slots cid kid part_idx =
     (let base = PRELOAD_MIN_SLOTS + (cid + 3 * part_idx) mod (PRELOAD_MAX_SLOTS - PRELOAD_MIN_SLOTS + 1);
          off = (kid * 2 + part_idx) mod 3;
          want = base + off;
          want = (if want < PRELOAD_MIN_SLOTS then PRELOAD_MIN_SLOTS else want)
      in if want > PRELOAD_MAX_SLOTS then PRELOAD_MAX_SLOTS else want)"

subsection \<open>The preload\<close>

definition core_malloc :: "u32 \<Rightarrow> u32 \<Rightarrow> u32 \<Rightarrow> soc_daml \<Rightarrow> (u32 \<times> soc_daml) option" where
  "core_malloc cid kid n g =
     (case domain_malloc (g_hbm_l1_allocators g cid kid) n \<lparr>mheap = tcdm g cid, mlog = soc_log g\<rparr> of
        None \<Rightarrow> None
      | Some (p, a, s) \<Rightarrow> Some (p, g\<lparr>g_hbm_l1_allocators := upd2 (g_hbm_l1_allocators g) cid kid a,
                                    tcdm := (tcdm g)(cid := mheap s), soc_log := mlog s\<rparr>))"

definition core_free :: "u32 \<Rightarrow> u32 \<Rightarrow> u32 \<Rightarrow> soc_daml \<Rightarrow> soc_daml option" where
  "core_free cid kid p g =
     (case domain_free (g_hbm_l1_allocators g cid kid) p \<lparr>mheap = tcdm g cid, mlog = soc_log g\<rparr> of
        None \<Rightarrow> None
      | Some (a, s) \<Rightarrow> Some (g\<lparr>g_hbm_l1_allocators := upd2 (g_hbm_l1_allocators g) cid kid a,
                              tcdm := (tcdm g)(cid := mheap s), soc_log := mlog s\<rparr>))"

text \<open>\<open>if (want) p = domain_malloc(A, want)\<close> with \<open>p = 0\<close> before.\<close>

definition preload_malloc :: "u32 \<Rightarrow> u32 \<Rightarrow> u32 \<Rightarrow> soc_daml \<Rightarrow> (u32 \<times> soc_daml) option" where
  "preload_malloc cid kid want g = (if want \<noteq> 0 then core_malloc cid kid want g else Some (0, g))"

text \<open>The bytes of a fragment: no more than its share of the arena, and none if less than a header.\<close>

definition preload_bytes :: "u32 \<Rightarrow> u32 \<Rightarrow> u32 \<Rightarrow> u32" where
  "preload_bytes nslots budget parts =
     (let want = min_u32 (nslots * SLOT_SIZE) (budget div parts) in if want < 8 then 0 else want)"

definition preload_core :: "soc_arch \<Rightarrow> u32 \<Rightarrow> u32 \<Rightarrow> soc_daml \<Rightarrow> soc_daml option" where
  "preload_core A cid kid g =
     (let (arena_base, arena_size) = get_core_arena A kid;
          slots_head = choose_slots cid kid 0;
          slots_mid = choose_slots cid kid 1;
          slots_tail = choose_slots cid kid 2;
          budget_max = (if arena_size > SLOT_SIZE then arena_size - SLOT_SIZE else 0);
          want_head = preload_bytes slots_head budget_max 2;
          want_mid = preload_bytes slots_mid budget_max 3;
          want_tail = preload_bytes slots_tail budget_max 2
      in case preload_malloc cid kid want_head g of None \<Rightarrow> None | Some (p_head, g) \<Rightarrow>
         case preload_malloc cid kid want_mid g of None \<Rightarrow> None | Some (p_mid, g) \<Rightarrow>
         case preload_malloc cid kid want_tail g of None \<Rightarrow> None | Some (p_tail, g) \<Rightarrow>
           (let g = (if p_head \<noteq> 0 then
                       soc_printf ''[PRELOAD] C%u/K%u HEAD  %4u slots (%8u B) @ 0x%08x  arena[0x%08x..0x%08x)''
                         [cid, kid, slots_head, want_head, p_head, arena_base, arena_base + arena_size] g else g);
                g = (if p_mid \<noteq> 0 then
                       soc_printf ''[PRELOAD] C%u/K%u MID   %4u slots (%8u B) @ 0x%08x''
                         [cid, kid, slots_mid, want_mid, p_mid] g else g);
                g = (if p_tail \<noteq> 0 then
                       soc_printf ''[PRELOAD] C%u/K%u TAIL  %4u slots (%8u B) @ 0x%08x''
                         [cid, kid, slots_tail, want_tail, p_tail] g else g)
            in if cid mod 3 = 1 \<and> p_mid \<noteq> 0 then
                 (case core_free cid kid p_mid g of None \<Rightarrow> None
                  | Some g \<Rightarrow> Some (soc_printf ''[PRELOAD] C%u/K%u freed MID to punch a hole'' [cid, kid] g))
               else Some g))"

definition preload_l1_this_cluster :: "soc_arch \<Rightarrow> u32 \<Rightarrow> soc_daml \<Rightarrow> soc_daml option" where
  "preload_l1_this_cluster A cid = fold_opt (preload_core A cid) (cores A)"

subsection \<open>Bring-up\<close>

definition test_init :: "soc_arch \<Rightarrow> soc_test \<Rightarrow> soc_test" where
  "test_init A t =
     (let g = soc_printf ''[SystemInfo]: num_cluster_x = %d, num_cluster_y = %d''
                [ARCH_NUM_CLUSTER_X A, ARCH_NUM_CLUSTER_Y A] (soc t);
          g = soc_printf ''[BOOT] Using %dx%d clusters, %d cores/cluster''
                [ARCH_NUM_CLUSTER_X A, ARCH_NUM_CLUSTER_Y A, ARCH_NUM_CORE_PER_CLUSTER A] g;
          g = g\<lparr>g_hbm_system_common_count := 0,
                g_hbm_system_common := daml_zero_bytes (g_hbm_system_common g) (8 * MAX_COMMON_BLOCKS)\<rparr>
      in t\<lparr>soc := soc_daml_init_hbm_allocator A g,
           g_cluster_verify_status := fold (\<lambda>i st. st(i := 0)) (clusters A) (g_cluster_verify_status t)\<rparr>)"

definition boot_allocators :: "soc_arch \<Rightarrow> soc_daml \<Rightarrow> soc_daml" where
  "boot_allocators A =
     fold (\<lambda>cid g. soc_printf ''[BOOT] Done (cluster %u)'' [cid] (soc_daml_init_allocators_this_cluster A cid
       (soc_printf ''[BOOT] Init allocators (cluster %u)'' [cid] g))) (clusters A)"

definition boot_preload :: "soc_arch \<Rightarrow> soc_daml \<Rightarrow> soc_daml option" where
  "boot_preload A = fold_opt (preload_l1_this_cluster A) (clusters A)"

definition boot_snapshots :: "soc_arch \<Rightarrow> soc_daml \<Rightarrow> soc_daml" where
  "boot_snapshots A g =
     fold (\<lambda>cid. fold (\<lambda>kid g. soc_printf ''[BOOT] Snapshot end   C%u/K%u'' [cid, kid] (soc_daml_upload_free_list A cid kid
       (soc_printf ''[BOOT] Snapshot begin C%u/K%u'' [cid, kid] g))) (cores A)) (clusters A)
       (soc_printf ''[BOOT] Uploading per-core free lists...'' [] g)"

definition boot_bitmaps :: "soc_arch \<Rightarrow> soc_daml \<Rightarrow> soc_daml" where
  "boot_bitmaps A g =
     fold (soc_daml_build_cluster_free_bitmap A) (clusters A)
       (soc_printf ''[BOOT] Building CLUSTER-FREE bitmaps (OR across cores)...'' []
       (fold (\<lambda>cid. fold (soc_daml_build_core_bitmap A cid) (cores A)) (clusters A)
       (soc_printf ''[BOOT] Building per-core FREE bitmaps (S=0x%08x)...'' [SLOT_SIZE] g)))"

definition print_common :: "soc_daml \<Rightarrow> soc_daml" where
  "print_common g =
     (let n = soc_daml_get_system_common_count g;
          lst = soc_daml_get_system_common g;
          to_show = (if n > 8 then 8 else n)
      in fold (\<lambda>i. let lo = blk_addr (lst i); hi = lo + blk_bytes (lst i) in
           soc_printf ''    [COMMON %u] [0x%08x .. 0x%08x) size=0x%08x'' [i, lo, hi, blk_bytes (lst i)])
           (u32_range 0 to_show) (soc_printf ''[BOOT] System common ranges = %u'' [n] g))"

definition boot_common :: "soc_arch \<Rightarrow> soc_daml \<Rightarrow> soc_daml" where
  "boot_common A g =
     print_common (soc_daml_system_common_bitmap_to_ranges A (soc_daml_build_system_common_bitmap A
       (soc_printf ''[BOOT] Building SYSTEM-COMMON (AND across clusters)...'' [] g)))"

text \<open>From the second barrier of \<open>main\<close> to the common ranges.\<close>

definition boot :: "soc_arch \<Rightarrow> soc_daml \<Rightarrow> soc_daml option" where
  "boot A g =
     (case boot_preload A (boot_allocators A
        (soc_daml_set_runtime_dims A (NUM_CLUSTERS A) (ARCH_NUM_CORE_PER_CLUSTER A) g)) of
        None \<Rightarrow> None
      | Some g \<Rightarrow> Some (boot_common A (boot_bitmaps A (boot_snapshots A g))))"

subsection \<open>The copy test\<close>

definition TEST_SEED :: u32 where "TEST_SEED = 0xA5A5A5A5"

definition test_len :: "soc_daml \<Rightarrow> u32" where
  "test_len g =
     (let common_size = blk_bytes (soc_daml_get_system_common g 0);
          len = (if BROADCAST_BYTES > common_size then common_size else BROADCAST_BYTES)
      in len AND NOT 3)"

definition test_source :: "u32 \<Rightarrow> soc_test \<Rightarrow> soc_test option" where
  "test_source len t =
     (case soc_daml_hbm_malloc len (soc t) of
        None \<Rightarrow> None
      | Some (p, g) \<Rightarrow> Some (t\<lparr>g_hbm_src := p,
          soc := (if p = 0 then soc_printf ''[TEST][ERR] HBM malloc failed for len=0x%08x'' [len] g
                  else soc_printf ''[TEST] HBM src @ %p filled with pattern'' [p]
                    (g\<lparr>hbm := fill_pattern_u32 p (drop_bit 2 len) TEST_SEED (hbm g)\<rparr>))\<rparr>))"

text \<open>The first core of a cluster copies, and after the barrier verifies and records the result.\<close>

definition test_copy :: "u32 \<Rightarrow> u32 \<Rightarrow> u32 \<Rightarrow> soc_test \<Rightarrow> soc_test" where
  "test_copy common_base len cid t =
     on_soc (\<lambda>g. g\<lparr>tcdm := (tcdm g)(cid :=
       local_copy_from_hbm common_base (g_hbm_src t) len (hbm g) (tcdm g cid))\<rparr>) t"

definition test_verify :: "u32 \<Rightarrow> u32 \<Rightarrow> u32 \<Rightarrow> soc_test \<Rightarrow> soc_test" where
  "test_verify common_base len cid t =
     (let bad_idx = verify_pattern_u32 common_base (drop_bit 2 len) TEST_SEED (tcdm (soc t) cid)
      in t\<lparr>g_cluster_verify_status := (g_cluster_verify_status t)(cid := if bad_idx = -1 then 1 else - (bad_idx + 1))\<rparr>)"

definition report_status :: "u32 \<Rightarrow> u32 \<Rightarrow> u32 \<Rightarrow> soc_test \<Rightarrow> soc_test" where
  "report_status common_base len cid t =
     (let st = g_cluster_verify_status t cid in
      if st = 1 then on_soc (soc_printf ''[TEST][OK ] Cluster %u verified %u bytes at 0x%08x'' [cid, len, common_base]) t
      else if st = 0 then on_soc (soc_printf ''[TEST][ERR] Cluster %u status unset'' [cid]) t
      else (let bad = - st - 1; err_addr = common_base + push_bit 2 bad in
        on_soc (soc_printf ''[TEST][ERR] Cluster %u mismatch at word %u (addr=0x%08x)'' [cid, bad, err_addr]) t))"

definition test_release :: "soc_test \<Rightarrow> soc_test option" where
  "test_release t =
     (if g_hbm_src t \<noteq> 0 then
        (case soc_daml_hbm_free (g_hbm_src t) (soc t) of None \<Rightarrow> None
         | Some g \<Rightarrow> Some (t\<lparr>soc := g, g_hbm_src := 0\<rparr>))
      else Some t)"

definition broadcast_test :: "soc_arch \<Rightarrow> soc_test \<Rightarrow> soc_test option" where
  "broadcast_test A t =
     (if soc_daml_get_system_common_count (soc t) = 0 then
        Some (on_soc (soc_printf ''[TEST] No system-common range; broadcast test skipped.'' []) t)
      else
        (let common = soc_daml_get_system_common (soc t) 0;
             common_base = blk_addr common;
             len = test_len (soc t);
             t = on_soc (soc_printf ''[TEST] DMA broadcast demo:'' []) t;
             t = on_soc (soc_printf ''       common L1 dst = 0x%08x, size available = 0x%08x, copy len = 0x%08x''
                   [common_base, blk_bytes common, len]) t
         in case test_source len t of None \<Rightarrow> None
            | Some t \<Rightarrow>
                if g_hbm_src t = 0 then
                  Some (on_soc (soc_printf ''[TEST][ABORT] No HBM source; skipping broadcast test'' []) t)
                else
                  test_release (fold (report_status common_base len) (clusters A)
                    (fold (test_verify common_base len) (clusters A)
                    (fold (test_copy common_base len) (clusters A) t)))))"

definition soc_daml_test_main :: "soc_arch \<Rightarrow> soc_test \<Rightarrow> soc_test option" where
  "soc_daml_test_main A t =
     (let t = test_init A t in
      case boot A (soc t) of None \<Rightarrow> None
      | Some g \<Rightarrow>
        (case broadcast_test A (t\<lparr>soc := g\<rparr>) of None \<Rightarrow> None
         | Some t \<Rightarrow> Some (on_soc (print_in_cluster_core_order A ''HELLO-ORDERED'') t)))"

end
