(* ===== verification/Soc_Boot_Props.thy ===== *)
theory Soc_Boot_Props
  imports Soc_Boot Soc_Daml_Props
begin

text \<open>
  The bring-up of \<open>main_soc_daml_test.c\<close> from any initial state: it returns, every allocator keeps its
  invariant, and the common bitmap has exactly the slots in which every cluster has a free byte.  The
  copy test verifies on every cluster, and what it does to the free lists on the way.
\<close>

subsection \<open>Loops over independent items\<close>

lemma fold_opt_each:
  assumes step: "\<And>x s. x \<in> X \<Longrightarrow> I s \<Longrightarrow> P x s \<Longrightarrow> \<exists>s'. f x s = Some s' \<and> I s' \<and> Q x s' \<and>
      (\<forall>y\<in>X. y \<noteq> x \<longrightarrow> (P y s \<longrightarrow> P y s') \<and> (Q y s \<longrightarrow> Q y s'))"
    and "distinct xs" and "set xs \<subseteq> X" and "I s" and "\<forall>x\<in>set xs. P x s"
  shows "\<exists>s'. fold_opt f xs s = Some s' \<and> I s' \<and> (\<forall>x\<in>set xs. Q x s') \<and> (\<forall>y\<in>X - set xs. Q y s \<longrightarrow> Q y s')"
  using assms(2-5)
proof (induction xs arbitrary: s)
  case (Cons x xs)
  obtain s1 where s1: "f x s = Some s1" "I s1" "Q x s1"
    "\<forall>y\<in>X. y \<noteq> x \<longrightarrow> (P y s \<longrightarrow> P y s1) \<and> (Q y s \<longrightarrow> Q y s1)"
    using step [of x s] Cons.prems by auto
  have "\<forall>y\<in>set xs. P y s1" using s1(4) Cons.prems by (metis distinct.simps(2) insert_iff list.simps(15) subsetD)
  then obtain s2 where s2: "fold_opt f xs s1 = Some s2" "I s2" "\<forall>y\<in>set xs. Q y s2"
    "\<forall>y\<in>X - set xs. Q y s1 \<longrightarrow> Q y s2"
    using Cons.IH [of s1] Cons.prems s1(2) by auto
  then show ?case using s1 Cons.prems by auto
qed simp

lemma fold_opt_Some: "fold_opt (\<lambda>x s. Some (f x s)) xs s = Some (fold f xs s)"
  by (induction xs arbitrary: s) simp_all

lemma fold_each:
  assumes step: "\<And>x s. x \<in> X \<Longrightarrow> I s \<Longrightarrow> P x s \<Longrightarrow> I (f x s) \<and> Q x (f x s) \<and>
      (\<forall>y\<in>X. y \<noteq> x \<longrightarrow> (P y s \<longrightarrow> P y (f x s)) \<and> (Q y s \<longrightarrow> Q y (f x s)))"
    and "distinct xs" and "set xs \<subseteq> X" and "I s" and "\<forall>x\<in>set xs. P x s"
  shows "I (fold f xs s) \<and> (\<forall>x\<in>set xs. Q x (fold f xs s))"
proof -
  have "\<exists>s'. fold_opt (\<lambda>x s. Some (f x s)) xs s = Some s' \<and> I s' \<and> (\<forall>x\<in>set xs. Q x s') \<and>
      (\<forall>y\<in>X - set xs. Q y s \<longrightarrow> Q y s')"
    using assms(2-5) by (intro fold_opt_each [where P = P and X = X]) (simp_all add: step)
  then show ?thesis by (simp add: fold_opt_Some)
qed

lemma fold_pairs: "fold (\<lambda>c. fold (f c) ks) cs = fold (\<lambda>(c, k). f c k) (List.product cs ks)"
proof -
  have "fold (f c) ks = fold (\<lambda>(c, k). f c k) (map (Pair c) ks)" for c
    by (simp add: fold_map comp_def)
  then show ?thesis by (induction cs) simp_all
qed

lemma fold_opt_append:
  "fold_opt f (xs @ ys) s = (case fold_opt f xs s of None \<Rightarrow> None | Some s' \<Rightarrow> fold_opt f ys s')"
  by (induction xs arbitrary: s) (simp_all split: option.split)

lemma fold_opt_pairs:
  "fold_opt (\<lambda>c. fold_opt (f c) ks) cs s = fold_opt (\<lambda>(c, k). f c k) (List.product cs ks) s"
proof -
  have "fold_opt (\<lambda>(c, k). f c k) (map (Pair c) ks) s = fold_opt (f c) ks s" for c s
    by (induction ks arbitrary: s) (simp_all split: option.split)
  then show ?thesis by (induction cs arbitrary: s) (simp_all add: fold_opt_append split: option.split)
qed

subsection \<open>The allocator of one core\<close>

abbreviation arena_lo :: "soc_arch \<Rightarrow> u32 \<Rightarrow> nat" where
  "arena_lo A k \<equiv> unat (fst (daml_compute_core_arena A (ARCH_NUM_CORE_PER_CLUSTER A) k))"

abbreviation arena_hi :: "soc_arch \<Rightarrow> u32 \<Rightarrow> nat" where
  "arena_hi A k \<equiv> arena_lo A k + unat (snd (daml_compute_core_arena A (ARCH_NUM_CORE_PER_CLUSTER A) k))"

definition core_inv :: "soc_arch \<Rightarrow> u32 \<Rightarrow> u32 \<Rightarrow> soc_daml \<Rightarrow> blocks \<Rightarrow> bool" where
  "core_inv A c k g bs =
     alloc_inv (arena_lo A k) (arena_hi A k) (g_hbm_l1_allocators g c k) \<lparr>mheap = tcdm g c, mlog = []\<rparr> bs"

definition core_live :: "soc_arch \<Rightarrow> u32 \<Rightarrow> u32 \<Rightarrow> soc_daml \<Rightarrow> blocks \<Rightarrow> u32 \<Rightarrow> bool" where
  "core_live A c k g bs p =
     (\<exists>n. live_block (arena_lo A k) (arena_hi A k) \<lparr>mheap = tcdm g c, mlog = []\<rparr> bs (p - 4) n)"

text \<open>Only the allocator of core \<open>k\<close> of cluster \<open>c\<close>, its arena and the log have changed.\<close>

definition core_only :: "soc_arch \<Rightarrow> u32 \<Rightarrow> u32 \<Rightarrow> soc_daml \<Rightarrow> soc_daml \<Rightarrow> bool" where
  "core_only A c k g g' =
     (\<exists>a m l. g' = g\<lparr>g_hbm_l1_allocators := upd2 (g_hbm_l1_allocators g) c k a, tcdm := (tcdm g)(c := m), soc_log := l\<rparr> \<and>
        (\<forall>x. unat x \<notin> {arena_lo A k ..< arena_hi A k} \<longrightarrow> m x = tcdm g c x))"

lemma core_inv_log:
  "core_inv A c k g bs \<longleftrightarrow>
    alloc_inv (arena_lo A k) (arena_hi A k) (g_hbm_l1_allocators g c k) \<lparr>mheap = tcdm g c, mlog = l\<rparr> bs"
  by (simp add: core_inv_def alloc_inv_def)

lemma live_block_log: "live_block lo hi \<lparr>mheap = h, mlog = []\<rparr> bs p n \<longleftrightarrow> live_block lo hi \<lparr>mheap = h, mlog = l\<rparr> bs p n"
  by (simp add: live_block_def)

lemma any_state: "alloc_inv lo hi a s bs \<longleftrightarrow> alloc_inv lo hi a \<lparr>mheap = mheap s, mlog = []\<rparr> bs"
  "live_block lo hi s bs p n \<longleftrightarrow> live_block lo hi \<lparr>mheap = mheap s, mlog = []\<rparr> bs p n"
  by (simp_all add: alloc_inv_def live_block_def)

lemma core_only_printf [simp]: "core_only A c k g (soc_printf f as g)"
  unfolding core_only_def soc_printf_def
  by (intro exI [of _ "g_hbm_l1_allocators g c k"] exI [of _ "tcdm g c"] exI) (auto simp: upd2_def)

lemma core_only_refl [simp]: "core_only A c k g g"
  unfolding core_only_def
  by (intro exI [of _ "g_hbm_l1_allocators g c k"] exI [of _ "tcdm g c"] exI [of _ "soc_log g"]) (auto simp: upd2_def)

lemma core_only_trans:
  assumes "core_only A c k g g1" and "core_only A c k g1 g2"
  shows "core_only A c k g g2"
proof -
  obtain a m l where 1: "g1 = g\<lparr>g_hbm_l1_allocators := upd2 (g_hbm_l1_allocators g) c k a, tcdm := (tcdm g)(c := m), soc_log := l\<rparr>"
    "\<And>x. unat x \<notin> {arena_lo A k ..< arena_hi A k} \<Longrightarrow> m x = tcdm g c x"
    using assms(1) unfolding core_only_def by blast
  obtain a' m' l' where 2: "g2 = g1\<lparr>g_hbm_l1_allocators := upd2 (g_hbm_l1_allocators g1) c k a', tcdm := (tcdm g1)(c := m'), soc_log := l'\<rparr>"
    "\<And>x. unat x \<notin> {arena_lo A k ..< arena_hi A k} \<Longrightarrow> m' x = tcdm g1 c x"
    using assms(2) unfolding core_only_def by blast
  show ?thesis unfolding core_only_def
    by (intro exI [of _ a'] exI [of _ m'] exI [of _ l']) (use 1 2 in auto)
qed

lemma core_only_more: "core_only A c k g h \<Longrightarrow> core_only A c k g (soc_printf f as h)"
  by (rule core_only_trans [OF _ core_only_printf])

lemma core_inv_printf [simp]: "core_inv A c k (soc_printf f as g) = core_inv A c k g"
  "core_live A c k (soc_printf f as g) = core_live A c k g"
  by (simp_all add: fun_eq_iff core_inv_def core_live_def soc_printf_def)

lemma fl_alloc_length: "fl_alloc n bs = Some (p, cs) \<Longrightarrow> length cs \<le> length bs"
  by (erule fl_alloc_SomeE) simp

lemma fl_free_length: "length (fl_free p n bs) \<le> Suc (length bs)"
proof -
  have next_len: "length (join_next b post) \<le> Suc (length post)" for b post
    by (simp add: join_next_def split: list.split)
  have prev_len: "length (join_prev pre post) \<le> length pre + length post" if "post \<noteq> []" for pre post
    using that by (cases post) (simp_all add: join_prev_def length_butlast)
  have "length (takeWhile (\<lambda>b. fst b < p) bs) + length (dropWhile (\<lambda>b. fst b < p) bs) = length bs"
    by (metis length_append takeWhile_dropWhile_id)
  then show ?thesis
    using prev_len [OF join_next_not_Nil, of "takeWhile (\<lambda>b. fst b < p) bs" "(p, n)" "dropWhile (\<lambda>b. fst b < p) bs"]
      next_len [of "(p, n)" "dropWhile (\<lambda>b. fst b < p) bs"] unfolding fl_free_def by linarith
qed

lemma live_block_frame:
  assumes "live_block lo hi s bs q n" and "free_set cs \<subseteq> free_set bs"
    and "\<And>x. unat x \<notin> free_set bs \<Longrightarrow> mheap s' x = mheap s x"
  shows "live_block lo hi s' cs q n"
proof -
  have "0 < unat n" using assms(1) by (simp add: live_block_def block_ok_def)
  then have "unat q \<in> {unat q ..< unat q + unat n}" by simp
  then have "unat q \<notin> free_set bs" using assms(1) unfolding live_block_def by blast
  then show ?thesis using assms unfolding live_block_def by auto
qed

lemma arena_bytes: "core_inv A c k g bs \<Longrightarrow> free_set bs \<subseteq> {arena_lo A k ..< arena_hi A k}"
  unfolding core_inv_def by (intro free_set_bounds alloc_invD(2))

text \<open>A state that takes over the allocator and the memory of a call.\<close>

lemma core_onlyI:
  assumes "\<And>x. unat x \<notin> {arena_lo A k ..< arena_hi A k} \<Longrightarrow> m x = tcdm g c x"
  shows "core_only A c k g (g\<lparr>g_hbm_l1_allocators := upd2 (g_hbm_l1_allocators g) c k a, tcdm := (tcdm g)(c := m), soc_log := l\<rparr>)"
  using assms unfolding core_only_def by blast

lemma core_malloc_inv:
  assumes inv: "core_inv A c k g bs" and n: "unat n < 4294967285"
  obtains p g' bs' where "core_malloc c k n g = Some (p, g')" and "core_inv A c k g' bs'"
    and "length bs' \<le> length bs" and "core_only A c k g g'" and "p \<noteq> 0 \<Longrightarrow> core_live A c k g' bs' p"
    and "\<And>q. core_live A c k g bs q \<Longrightarrow> core_live A c k g' bs' q"
proof -
  let ?s = "\<lparr>mheap = tcdm g c, mlog = soc_log g\<rparr>" and ?al = "g_hbm_l1_allocators g c k"
  have i: "alloc_inv (arena_lo A k) (arena_hi A k) ?al ?s bs" using inv core_inv_log by blast
  show thesis
  proof (cases "served n bs")
    case None
    then obtain e where "domain_malloc ?al n ?s = Some (0, ?al, ?s\<lparr>mlog := mlog ?s @ [e]\<rparr>)"
      by (rule domain_malloc_refused [OF i n])
    then have m: "core_malloc c k n g = Some (0, g\<lparr>g_hbm_l1_allocators := upd2 (g_hbm_l1_allocators g) c k ?al,
        tcdm := (tcdm g)(c := tcdm g c), soc_log := soc_log g @ [e]\<rparr>)"
      by (simp add: core_malloc_def)
    have only: "core_only A c k g (g\<lparr>g_hbm_l1_allocators := upd2 (g_hbm_l1_allocators g) c k ?al,
        tcdm := (tcdm g)(c := tcdm g c), soc_log := soc_log g @ [e]\<rparr>)"
      by (rule core_onlyI) simp
    show thesis by (rule that [OF m _ _ only]) (use inv in \<open>simp_all add: core_inv_def core_live_def\<close>)
  next
    case (Some pc)
    obtain p cs where pc: "pc = (p, cs)" by (cases pc)
    obtain al' s' where m: "domain_malloc ?al n ?s = Some (of_nat p + 4, al', s')"
      "alloc_inv (arena_lo A k) (arena_hi A k) al' s' cs"
      "live_block (arena_lo A k) (arena_hi A k) s' cs (of_nat p) (ALIGN_UP (n + 4) MIN_BLOCK_SIZE)"
      "\<And>x. unat x \<notin> free_set bs \<Longrightarrow> mheap s' x = tcdm g c x"
      by (rule domain_malloc_served [OF i n Some [unfolded pc]]) (rule that, simp_all)
    have a: "fl_alloc (block_request n) bs = Some (p, cs)" using Some pc by (simp split: if_splits)
    have sub: "free_set cs \<subseteq> free_set bs"
      using fl_alloc_bytes(2) [OF alloc_invD(2) [OF i] a block_request_bounds(4)] by blast
    let ?g = "g\<lparr>g_hbm_l1_allocators := upd2 (g_hbm_l1_allocators g) c k al', tcdm := (tcdm g)(c := mheap s'), soc_log := mlog s'\<rparr>"
    show thesis
    proof (rule that [of "of_nat p + 4" ?g cs])
      show "core_inv A c k ?g cs" using m(2) any_state(1) by (simp add: core_inv_def)
      show "core_live A c k ?g cs (of_nat p + 4)" using m(3) any_state(2) by (auto simp: core_live_def)
      show "core_only A c k g ?g" using m(4) arena_bytes [OF inv] by (intro core_onlyI) blast
      show "core_live A c k ?g cs q" if "core_live A c k g bs q" for q
        using that live_block_frame [OF _ sub, where s = "\<lparr>mheap = tcdm g c, mlog = []\<rparr>" and s' = "\<lparr>mheap = mheap s', mlog = []\<rparr>"] m(4)
        by (fastforce simp: core_live_def)
    qed (simp_all add: core_malloc_def m(1) fl_alloc_length [OF a])
  qed
qed

lemma core_free_inv:
  assumes inv: "core_inv A c k g bs" and live: "core_live A c k g bs p"
  obtains g' bs' where "core_free c k p g = Some g'" and "core_inv A c k g' bs'"
    and "length bs' \<le> Suc (length bs)" and "core_only A c k g g'"
proof -
  let ?s = "\<lparr>mheap = tcdm g c, mlog = soc_log g\<rparr>" and ?al = "g_hbm_l1_allocators g c k"
  have i: "alloc_inv (arena_lo A k) (arena_hi A k) ?al ?s bs" using inv core_inv_log by blast
  obtain n where l: "live_block (arena_lo A k) (arena_hi A k) ?s bs (p - 4) n"
    using live live_block_log unfolding core_live_def by blast
  obtain al' s' where f: "domain_free ?al (p - 4 + 4) ?s = Some (al', s')"
    "alloc_inv (arena_lo A k) (arena_hi A k) al' s' (fl_free (unat (p - 4)) (unat n) bs)"
    "\<And>x. unat x \<notin> free_set bs \<union> {unat (p - 4) ..< unat (p - 4) + unat n} \<Longrightarrow> mheap s' x = tcdm g c x"
    by (rule domain_free_live [OF i l]) (rule that, simp_all)
  have "{unat (p - 4) ..< unat (p - 4) + unat n} \<subseteq> {arena_lo A k ..< arena_hi A k}"
    using l by (auto simp: live_block_def block_ok_def)
  then have frame: "mheap s' x = tcdm g c x" if "unat x \<notin> {arena_lo A k ..< arena_hi A k}" for x
    using f(3) [of x] arena_bytes [OF inv] that by blast
  show thesis
    by (rule that [of _ "fl_free (unat (p - 4)) (unat n) bs"])
      (use f any_state(1) frame fl_free_length in \<open>auto simp: core_free_def core_inv_def intro!: core_onlyI\<close>)
qed

text \<open>The arenas of the cores do not overlap, so a core does not disturb another one.\<close>

lemma core_inv_other:
  assumes "arenas_usable A (ARCH_NUM_CORE_PER_CLUSTER A)" and "core_only A c k g g'"
    and "k < ARCH_NUM_CORE_PER_CLUSTER A" and "j < ARCH_NUM_CORE_PER_CLUSTER A" and "(c', j) \<noteq> (c, k)"
    and inv: "core_inv A c' j g bs"
  shows "core_inv A c' j g' bs"
proof -
  obtain a m l where g': "g' = g\<lparr>g_hbm_l1_allocators := upd2 (g_hbm_l1_allocators g) c k a, tcdm := (tcdm g)(c := m), soc_log := l\<rparr>"
    "\<And>x. unat x \<notin> {arena_lo A k ..< arena_hi A k} \<Longrightarrow> m x = tcdm g c x"
    using assms(2) unfolding core_only_def by blast
  have same: "tcdm g' c' x = tcdm g c' x" if x: "unat x \<in> free_set bs" for x
  proof (cases "c' = c")
    case True
    then have "j < k \<or> k < j" using assms(5) by auto
    then have "arena_hi A j \<le> arena_lo A k \<or> arena_hi A k \<le> arena_lo A j"
      using core_arenas_apart [OF assms(1,3), of j] core_arenas_apart [OF assms(1,4), of k] by blast
    then have "unat x \<notin> {arena_lo A k ..< arena_hi A k}" using arena_bytes [OF inv] x by force
    then show ?thesis using g' True by simp
  qed (simp add: g')
  note i = alloc_invD [OF inv [unfolded core_inv_def]]
  have "fl (tcdm g' c') (first_block (g_hbm_l1_allocators g c' j)) bs"
    using seg_frame [OF i(2) less_imp_le [OF i(4)] same] i(1) by (simp add: fl_def)
  moreover have "g_hbm_l1_allocators g' c' j = g_hbm_l1_allocators g c' j" using g' assms(5) by auto
  ultimately show ?thesis using i by (simp add: core_inv_def alloc_inv_def)
qed

subsection \<open>The preload\<close>

definition core_ok :: "soc_arch \<Rightarrow> nat \<Rightarrow> u32 \<times> u32 \<Rightarrow> soc_daml \<Rightarrow> bool" where
  "core_ok A N ck g = (\<exists>bs. core_inv A (fst ck) (snd ck) g bs \<and> length bs \<le> N)"

lemma preload_bytes_small:
  assumes "2 \<le> parts"
  shows "unat (preload_bytes ns budget parts) < 4294967285"
proof -
  have "unat budget div unat parts \<le> unat budget div 2"
    using assms by (intro div_le_mono2) (simp_all add: word_le_nat_alt)
  moreover have "unat budget div 2 < 2147483648" using unat_lt32 [of budget] by linarith
  ultimately have "unat (budget div parts) < 2147483648" by (simp add: unat_div_distrib)
  then show ?thesis by (auto simp: preload_bytes_def min_u32_def Let_def word_less_nat_alt)
qed

lemma preload_malloc_inv:
  assumes "core_inv A c k g bs" and "unat n < 4294967285"
  obtains p g' bs' where "preload_malloc c k n g = Some (p, g')" and "core_inv A c k g' bs'"
    and "length bs' \<le> length bs" and "core_only A c k g g'" and "p \<noteq> 0 \<Longrightarrow> core_live A c k g' bs' p"
    and "\<And>q. core_live A c k g bs q \<Longrightarrow> core_live A c k g' bs' q"
proof (cases "n = 0")
  case True
  then show thesis using assms(1) by (intro that [of 0 g bs]) (simp_all add: preload_malloc_def)
next
  case False
  then have eq: "preload_malloc c k n g = core_malloc c k n g" by (simp add: preload_malloc_def)
  show thesis by (rule core_malloc_inv [OF assms], rule that, unfold eq)
qed

lemma preload_core_ok:
  assumes "core_ok A 1 (c, k) g"
  shows "\<exists>g'. preload_core A c k g = Some g' \<and> core_ok A 2 (c, k) g' \<and> core_only A c k g g'"
proof -
  obtain bs where bs: "core_inv A c k g bs" "length bs \<le> 1" using assms by (auto simp: core_ok_def)
  obtain base sz where ar: "get_core_arena A k = (base, sz)" by (cases "get_core_arena A k")
  define budget where "budget = (if sz > SLOT_SIZE then sz - SLOT_SIZE else 0)"
  have small: "unat (preload_bytes ns budget 2) < 4294967285" "unat (preload_bytes ns budget 3) < 4294967285" for ns
    by (simp_all add: preload_bytes_small word_le_nat_alt)
  obtain p1 g1 bs1 where m1: "preload_malloc c k (preload_bytes (choose_slots c k 0) budget 2) g = Some (p1, g1)"
    "core_inv A c k g1 bs1" "length bs1 \<le> length bs" "core_only A c k g g1"
    by (rule preload_malloc_inv [OF bs(1) small(1) [of "choose_slots c k 0"]]) blast
  obtain p2 g2 bs2 where m2: "preload_malloc c k (preload_bytes (choose_slots c k 1) budget 3) g1 = Some (p2, g2)"
    "core_inv A c k g2 bs2" "length bs2 \<le> length bs1" "core_only A c k g1 g2" "p2 \<noteq> 0 \<Longrightarrow> core_live A c k g2 bs2 p2"
    by (rule preload_malloc_inv [OF m1(2) small(2) [of "choose_slots c k 1"]]) blast
  obtain p3 g3 bs3 where m3: "preload_malloc c k (preload_bytes (choose_slots c k 2) budget 2) g2 = Some (p3, g3)"
    "core_inv A c k g3 bs3" "length bs3 \<le> length bs2" "core_only A c k g2 g3"
    "core_live A c k g2 bs2 p2 \<Longrightarrow> core_live A c k g3 bs3 p2"
    by (rule preload_malloc_inv [OF m2(2) small(1) [of "choose_slots c k 2"]]) blast
  define h where "h = (let g = (if p1 \<noteq> 0 then
        soc_printf ''[PRELOAD] C%u/K%u HEAD  %4u slots (%8u B) @ 0x%08x  arena[0x%08x..0x%08x)''
          [c, k, choose_slots c k 0, preload_bytes (choose_slots c k 0) budget 2, p1, base, base + sz] g3 else g3);
      g = (if p2 \<noteq> 0 then soc_printf ''[PRELOAD] C%u/K%u MID   %4u slots (%8u B) @ 0x%08x''
          [c, k, choose_slots c k 1, preload_bytes (choose_slots c k 1) budget 3, p2] g else g)
      in if p3 \<noteq> 0 then soc_printf ''[PRELOAD] C%u/K%u TAIL  %4u slots (%8u B) @ 0x%08x''
          [c, k, choose_slots c k 2, preload_bytes (choose_slots c k 2) budget 2, p3] g else g)"
  have "core_only A c k g3 h"
    unfolding h_def Let_def by (auto intro!: core_only_more)
  with m1(4) m2(4) m3(4) have only: "core_only A c k g h" by (blast intro: core_only_trans)
  have inv: "core_inv A c k h bs3" "core_live A c k h bs3 q = core_live A c k g3 bs3 q" for q
    using m3(2) by (simp_all add: h_def Let_def)
  have len: "length bs3 \<le> 1" using m1(3) m2(3) m3(3) bs(2) by linarith
  have run: "preload_core A c k g = (if c mod 3 = 1 \<and> p2 \<noteq> 0 then
      (case core_free c k p2 h of None \<Rightarrow> None
       | Some g \<Rightarrow> Some (soc_printf ''[PRELOAD] C%u/K%u freed MID to punch a hole'' [c, k] g)) else Some h)"
    by (simp add: preload_core_def ar Let_def m1(1) [unfolded budget_def] m2(1) [unfolded budget_def]
        m3(1) [unfolded budget_def]) (simp add: h_def budget_def Let_def)
  show ?thesis
  proof (cases "c mod 3 = 1 \<and> p2 \<noteq> 0")
    case True
    then have "core_live A c k h bs3 p2" using m2(5) m3(5) inv(2) by simp
    then obtain g' bs' where f: "core_free c k p2 h = Some g'" "core_inv A c k g' bs'" "length bs' \<le> Suc (length bs3)"
      "core_only A c k h g'"
      by (rule core_free_inv [OF inv(1)])
    then show ?thesis using run True len only core_only_trans [OF core_only_trans [OF only f(4)] core_only_printf]
      by (auto simp: core_ok_def intro!: exI [of _ bs'])
  next
    case False
    then have r: "preload_core A c k g = Some h" unfolding run by (rule if_not_P)
    show ?thesis by (rule exI [of _ h], use r inv(1) len only in \<open>auto simp: core_ok_def intro!: exI [of _ bs3]\<close>)
  qed
qed

subsection \<open>From the allocators to the snapshots\<close>

lemma dims_set:
  "g_rt_num_clusters (soc_daml_set_runtime_dims A (NUM_CLUSTERS A) (ARCH_NUM_CORE_PER_CLUSTER A) g) = NUM_CLUSTERS A"
  "g_rt_cores_per_cluster (soc_daml_set_runtime_dims A (NUM_CLUSTERS A) (ARCH_NUM_CORE_PER_CLUSTER A) g) = ARCH_NUM_CORE_PER_CLUSTER A"
  by (simp_all add: soc_daml_set_runtime_dims_def)

text \<open>The dimensions at run time are those of the build; the HBM allocator is that of \<open>g0\<close>.\<close>

definition dims_ok :: "soc_arch \<Rightarrow> soc_daml \<Rightarrow> soc_daml \<Rightarrow> bool" where
  "dims_ok A g0 g = (g_rt_num_clusters g = NUM_CLUSTERS A \<and> g_rt_cores_per_cluster g = ARCH_NUM_CORE_PER_CLUSTER A \<and>
     hbm g = hbm g0 \<and> soc_alloc_hbm g = soc_alloc_hbm g0)"

lemma core_inv_same:
  "tcdm g' c = tcdm g c \<Longrightarrow> g_hbm_l1_allocators g' c k = g_hbm_l1_allocators g c k \<Longrightarrow> core_inv A c k g' = core_inv A c k g"
  by (rule ext) (simp only: core_inv_def)

lemma dims_ok_printf [simp]: "dims_ok A g0 (soc_printf f as g) = dims_ok A g0 g"
  by (simp add: dims_ok_def soc_printf_def)

lemma core_only_dims: "core_only A c k g g' \<Longrightarrow> dims_ok A g0 g' = dims_ok A g0 g"
  by (auto simp: core_only_def dims_ok_def)

definition all_cores :: "soc_arch \<Rightarrow> (u32 \<times> u32) set" where
  "all_cores A = {..<NUM_CLUSTERS A} \<times> {..<ARCH_NUM_CORE_PER_CLUSTER A}"

lemma product_cores: "set (List.product (clusters A) (cores A)) = all_cores A" "distinct (List.product (clusters A) (cores A))"
  by (auto simp: all_cores_def clusters_def cores_def distinct_product)

lemma boot_allocators_ok:
  assumes "arenas_usable A (ARCH_NUM_CORE_PER_CLUSTER A)" and "dims_ok A g0 g"
  shows "dims_ok A g0 (boot_allocators A g) \<and> (\<forall>ck\<in>all_cores A. core_ok A 1 ck (boot_allocators A g))"
proof -
  let ?Q = "\<lambda>c g. \<forall>k<ARCH_NUM_CORE_PER_CLUSTER A. core_ok A 1 (c, k) g"
  let ?f = "\<lambda>cid g. soc_printf ''[BOOT] Done (cluster %u)'' [cid] (soc_daml_init_allocators_this_cluster A cid
       (soc_printf ''[BOOT] Init allocators (cluster %u)'' [cid] g))"
  have "dims_ok A g0 (fold ?f (clusters A) g) \<and> (\<forall>c\<in>set (clusters A). ?Q c (fold ?f (clusters A) g))"
  proof (rule fold_each [where P = "\<lambda>_ _. True" and X = UNIV])
    fix c g
    assume dims: "dims_ok A g0 g"
    let ?h = "soc_printf ''[BOOT] Init allocators (cluster %u)'' [c] g"
    let ?g = "soc_daml_init_allocators_this_cluster A c ?h"
    have h: "g_rt_cores_per_cluster ?h = ARCH_NUM_CORE_PER_CLUSTER A" "dims_ok A g0 ?h"
      using dims by (simp_all add: dims_ok_def soc_printf_def)
    have "core_inv A c k ?g [(arena_lo A k, arena_hi A k - arena_lo A k)]" if "k < ARCH_NUM_CORE_PER_CLUSTER A" for k
      using init_cluster_ready [of A ?h c] assms(1) that h(1)
      by (cases "daml_compute_core_arena A (ARCH_NUM_CORE_PER_CLUSTER A) k")
        (auto simp: arenas_ready_def core_inv_def alloc_inv_def)
    then have q: "?Q c (?f c g)" by (fastforce simp: core_ok_def)
    have other: "?Q y g \<longrightarrow> ?Q y (?f c g)" if "y \<noteq> c" for y
    proof -
      have "core_inv A y k ?g = core_inv A y k g" for k
        using that core_inv_same [of ?g y ?h k A] by (simp add: init_cluster_frame)
      then show ?thesis by (simp add: core_ok_def)
    qed
    have "dims_ok A g0 (?f c g)" using h(2) by (subst dims_ok_printf) (simp add: dims_ok_def init_cluster_frame)
    then show "dims_ok A g0 (?f c g) \<and> ?Q c (?f c g) \<and> (\<forall>y\<in>UNIV. y \<noteq> c \<longrightarrow> (True \<longrightarrow> True) \<and> (?Q y g \<longrightarrow> ?Q y (?f c g)))"
      using q other by blast
  qed (use assms(2) in \<open>simp_all add: clusters_def\<close>)
  then show ?thesis by (simp add: boot_allocators_def all_cores_def clusters_def)
qed

lemma boot_preload_ok:
  assumes use: "arenas_usable A (ARCH_NUM_CORE_PER_CLUSTER A)" and "dims_ok A g0 g" and "\<forall>ck\<in>all_cores A. core_ok A 1 ck g"
  shows "\<exists>g'. boot_preload A g = Some g' \<and> dims_ok A g0 g' \<and> (\<forall>ck\<in>all_cores A. core_ok A 2 ck g')"
proof -
  let ?xs = "List.product (clusters A) (cores A)"
  have "\<exists>g'. fold_opt (\<lambda>(c, k). preload_core A c k) ?xs g = Some g' \<and> dims_ok A g0 g' \<and>
      (\<forall>x\<in>set ?xs. core_ok A 2 x g') \<and> (\<forall>y\<in>all_cores A - set ?xs. core_ok A 2 y g \<longrightarrow> core_ok A 2 y g')"
  proof (rule fold_opt_each [where P = "core_ok A 1" and Q = "core_ok A 2" and X = "all_cores A" and I = "dims_ok A g0"])
    fix ck g
    assume ck: "ck \<in> all_cores A" and dims: "dims_ok A g0 g" and ok: "core_ok A 1 ck g"
    obtain c k where x: "ck = (c, k)" by (cases ck)
    obtain g' where g': "preload_core A c k g = Some g'" "core_ok A 2 (c, k) g'" "core_only A c k g g'"
      using preload_core_ok [OF ok [unfolded x]] by blast
    have "core_ok A N y g \<longrightarrow> core_ok A N y g'" if "y \<in> all_cores A" "y \<noteq> ck" for y N
      using core_inv_other [OF use g'(3), of "snd y" "fst y"] ck that x
      by (cases y) (auto simp: core_ok_def all_cores_def)
    then show "\<exists>s'. (case ck of (c, k) \<Rightarrow> preload_core A c k) g = Some s' \<and> dims_ok A g0 s' \<and> core_ok A 2 ck s' \<and>
        (\<forall>y\<in>all_cores A. y \<noteq> ck \<longrightarrow> (core_ok A 1 y g \<longrightarrow> core_ok A 1 y s') \<and> (core_ok A 2 y g \<longrightarrow> core_ok A 2 y s'))"
      using g' x dims core_only_dims by auto
  qed (use assms product_cores in auto)
  then have "\<exists>g'. fold_opt (\<lambda>(c, k). preload_core A c k) ?xs g = Some g' \<and> dims_ok A g0 g' \<and> (\<forall>x\<in>all_cores A. core_ok A 2 x g')"
    unfolding product_cores(1) by blast
  then show ?thesis
    by (simp add: boot_preload_def preload_l1_this_cluster_def [abs_def] fold_opt_pairs)
qed

subsection \<open>From the snapshots to the bitmaps\<close>

lemma core_blocks:
  assumes "arenas_usable A (ARCH_NUM_CORE_PER_CLUSTER A)" and "k < ARCH_NUM_CORE_PER_CLUSTER A"
    and "core_inv A c k g bs"
  shows "snapshot_ok A bs" and "b \<in> set bs \<Longrightarrow> block_in_heap A (daml_block b)"
proof -
  note c = core_arena_bounds [OF assms(1,2)]
  have ok: "block_ok (arena_lo A k) (arena_hi A k) b" if "b \<in> set bs" for b
    using wf_blocks_ok alloc_invD(2) [OF assms(3) [unfolded core_inv_def]] that by blast
  have low: "unat (ARCH_CLUSTER_HEAP_BASE A) \<le> arena_lo A k" using c(1) by simp
  have eight: "8 \<le> snd b" if "b \<in> set bs" for b using ok [OF that] by (auto simp: block_ok_def elim: dvdE)
  show "snapshot_ok A bs"
    using ok eight low c(6) unfolding snapshot_ok_def block_ok_def by fastforce
  assume b: "b \<in> set bs"
  have "fst b + snd b \<le> unat (ARCH_CLUSTER_HEAP_END A)" using ok [OF b] c(6) by (simp add: block_ok_def)
  moreover from this have "fst b < 4294967296" "snd b < 4294967296"
    using unat_lt32 [of "ARCH_CLUSTER_HEAP_END A"] by linarith+
  ultimately show "block_in_heap A (daml_block b)"
    using ok [OF b] low eight [OF b] by (simp add: block_in_heap_def daml_block_def block_ok_def unat_of_nat32)
qed

definition snap_ok :: "soc_arch \<Rightarrow> u32 \<times> u32 \<Rightarrow> soc_daml \<Rightarrow> bool" where
  "snap_ok A ck g =
     (\<exists>bs. core_inv A (fst ck) (snd ck) g bs \<and> length bs \<le> 128 \<and>
        g_hbm_core_free_count g (fst ck) (snd ck) = of_nat (length bs) \<and>
        (\<forall>i<length bs. g_hbm_core_free g (fst ck) (snd ck) (of_nat i) = daml_block (bs ! i)))"

definition bits_ok :: "soc_arch \<Rightarrow> u32 \<times> u32 \<Rightarrow> soc_daml \<Rightarrow> bool" where
  "bits_ok A ck g =
     (\<exists>bs. core_inv A (fst ck) (snd ck) g bs \<and>
        (\<forall>s<L1_SLOT_COUNT A. test_slot (g_core_free_bitmap g (fst ck) (snd ck)) s \<longleftrightarrow>
          (\<exists>b\<in>set bs. touches A (daml_block b) (unat s))))"

lemma upload_snap:
  assumes "arenas_usable A (ARCH_NUM_CORE_PER_CLUSTER A)" and "k < ARCH_NUM_CORE_PER_CLUSTER A"
    and "core_ok A 2 (c, k) g"
  shows "snap_ok A (c, k) (soc_daml_upload_free_list A c k g)"
    and "dims_ok A g0 (soc_daml_upload_free_list A c k g) = dims_ok A g0 g"
    and "y \<noteq> (c, k) \<Longrightarrow> core_ok A 2 y g \<Longrightarrow> core_ok A 2 y (soc_daml_upload_free_list A c k g)"
    and "y \<noteq> (c, k) \<Longrightarrow> snap_ok A y g \<Longrightarrow> snap_ok A y (soc_daml_upload_free_list A c k g)"
proof -
  obtain bs where bs: "core_inv A c k g bs" "length bs \<le> 2" using assms(3) by (auto simp: core_ok_def)
  note i = alloc_invD [OF bs(1) [unfolded core_inv_def]]
  obtain l where u: "soc_daml_upload_free_list A c k g =
      g\<lparr>g_hbm_core_free := upd2 (g_hbm_core_free g) c k (with_blocks (g_hbm_core_free g c k) 0 (length bs) bs),
        g_hbm_core_free_count := upd2 (g_hbm_core_free_count g) c k (of_nat (length bs)), soc_log := l\<rparr>"
    using upload_eq [of g c k bs A "length bs"] i(1) core_blocks(1) [OF assms(1,2) bs(1)] bs(2) by auto
  have "with_blocks f 0 (length bs) bs (of_nat i) = daml_block (bs ! i)" if "i < length bs" for i f
    using that bs(2) by (simp add: with_blocks_def unat_of_nat32)
  then show "snap_ok A (c, k) (soc_daml_upload_free_list A c k g)"
    using bs unfolding snap_ok_def u by (auto simp: core_inv_def)
  show "dims_ok A g0 (soc_daml_upload_free_list A c k g) = dims_ok A g0 g" by (simp add: u dims_ok_def)
  show "core_ok A 2 y (soc_daml_upload_free_list A c k g)" if "core_ok A 2 y g"
    using that by (simp add: u core_ok_def core_inv_def)
  show "snap_ok A y (soc_daml_upload_free_list A c k g)" if "y \<noteq> (c, k)" "snap_ok A y g"
    using that by (cases y) (auto simp: u snap_ok_def core_inv_def)
qed

lemma boot_snapshots_ok:
  assumes use: "arenas_usable A (ARCH_NUM_CORE_PER_CLUSTER A)" and "dims_ok A g0 g" and "\<forall>ck\<in>all_cores A. core_ok A 2 ck g"
  shows "dims_ok A g0 (boot_snapshots A g) \<and> (\<forall>ck\<in>all_cores A. snap_ok A ck (boot_snapshots A g))"
proof -
  let ?xs = "List.product (clusters A) (cores A)"
  let ?g = "soc_printf ''[BOOT] Uploading per-core free lists...'' [] g"
  let ?f = "\<lambda>(cid, kid) g. soc_printf ''[BOOT] Snapshot end   C%u/K%u'' [cid, kid] (soc_daml_upload_free_list A cid kid
       (soc_printf ''[BOOT] Snapshot begin C%u/K%u'' [cid, kid] g))"
  have log: "core_ok A N ck (soc_printf s as g) = core_ok A N ck g" "snap_ok A ck (soc_printf s as g) = snap_ok A ck g" for N ck s as g
    by (simp_all add: core_ok_def snap_ok_def) (simp add: soc_printf_def)
  have "dims_ok A g0 (fold ?f ?xs ?g) \<and> (\<forall>x\<in>set ?xs. snap_ok A x (fold ?f ?xs ?g))"
  proof (rule fold_each [where P = "core_ok A 2" and Q = "snap_ok A" and X = "all_cores A"])
    fix ck g
    assume ck: "ck \<in> all_cores A" and dims: "dims_ok A g0 g" and ok: "core_ok A 2 ck g"
    obtain c k where x: "ck = (c, k)" by (cases ck)
    have k: "k < ARCH_NUM_CORE_PER_CLUSTER A" using ck x by (simp add: all_cores_def)
    show "dims_ok A g0 (?f ck g) \<and> snap_ok A ck (?f ck g) \<and>
        (\<forall>y\<in>all_cores A. y \<noteq> ck \<longrightarrow> (core_ok A 2 y g \<longrightarrow> core_ok A 2 y (?f ck g)) \<and> (snap_ok A y g \<longrightarrow> snap_ok A y (?f ck g)))"
      using upload_snap [OF use k, of c "soc_printf ''[BOOT] Snapshot begin C%u/K%u'' [c, k] g"] dims ok x
      by (simp add: log)
  qed (use assms product_cores in \<open>auto simp: log\<close>)
  then show ?thesis unfolding product_cores(1) boot_snapshots_def fold_pairs by simp
qed

lemma build_core_bits:
  assumes use: "arenas_usable A (ARCH_NUM_CORE_PER_CLUSTER A)" and "k < ARCH_NUM_CORE_PER_CLUSTER A"
    and "snap_ok A (c, k) g"
  shows "bits_ok A (c, k) (soc_daml_build_core_bitmap A c k g)"
proof -
  obtain bs where bs: "core_inv A c k g bs" "length bs \<le> 128" "g_hbm_core_free_count g c k = of_nat (length bs)"
    "\<And>i. i < length bs \<Longrightarrow> g_hbm_core_free g c k (of_nat i) = daml_block (bs ! i)"
    using assms(3) by (auto simp: snap_ok_def)
  have ok: "heap_ok A" using use by (simp add: arenas_usable_def arena_heap_ok_def)
  let ?is = "u32_range 0 (of_nat (length bs))"
  have "(\<lambda>i. g_hbm_core_free g c k i) ` set ?is = daml_block ` set bs"
  proof -
    have "set ?is = of_nat ` {..<length bs}" using bs(2) by (simp add: u32_range_def unat_of_nat32 atLeast0LessThan)
    then have "(\<lambda>i. g_hbm_core_free g c k i) ` set ?is = (\<lambda>i. daml_block (bs ! i)) ` {..<length bs}"
      using bs(4) by (simp add: image_image)
    moreover have "set bs = (\<lambda>i. bs ! i) ` {..<length bs}" by (auto simp: set_conv_nth)
    ultimately show ?thesis by (simp add: image_image)
  qed
  then have all: "(\<forall>i\<in>set ?is. R (g_hbm_core_free g c k i)) \<longleftrightarrow> (\<forall>b\<in>set bs. R (daml_block b))"
    and ex: "(\<exists>i\<in>set ?is. R (g_hbm_core_free g c k i)) \<longleftrightarrow> (\<exists>b\<in>set bs. R (daml_block b))" for R
    by (metis (mono_tags, lifting) image_iff)+
  have "\<forall>i\<in>set ?is. block_in_heap A (g_hbm_core_free g c k i)"
    unfolding all using core_blocks(2) [OF use assms(2) bs(1)] by blast
  then have "test_slot (g_core_free_bitmap (soc_daml_build_core_bitmap A c k g) c k) s \<longleftrightarrow>
      (\<exists>b\<in>set bs. touches A (daml_block b) (unat s))" if s: "s < L1_SLOT_COUNT A" for s
    using mark_blocks_slots [OF ok _ s, of ?is "g_hbm_core_free g c k"] test_slot_zero [OF ok s]
      ex [of "\<lambda>b. touches A b (unat s)"]
    by (simp add: soc_daml_build_core_bitmap_def Let_def bs(3) del: set_u32_range)
  moreover have "core_inv A c k (soc_daml_build_core_bitmap A c k g) bs"
    using bs(1) by (simp add: core_inv_def soc_daml_build_core_bitmap_def Let_def)
  ultimately show ?thesis by (auto simp: bits_ok_def)
qed

lemma build_core_frame:
  "dims_ok A g0 (soc_daml_build_core_bitmap A c k g) = dims_ok A g0 g"
  "snap_ok A y (soc_daml_build_core_bitmap A c k g) = snap_ok A y g"
  "y \<noteq> (c, k) \<Longrightarrow> bits_ok A y (soc_daml_build_core_bitmap A c k g) = bits_ok A y g"
  by (cases y; auto simp: dims_ok_def snap_ok_def bits_ok_def core_inv_def soc_daml_build_core_bitmap_def Let_def)+

lemma clusters_frame:
  "dims_ok A g0 (fold (soc_daml_build_cluster_free_bitmap A) cs g) = dims_ok A g0 g"
  "tcdm (fold (soc_daml_build_cluster_free_bitmap A) cs g) = tcdm g"
  "g_hbm_l1_allocators (fold (soc_daml_build_cluster_free_bitmap A) cs g) = g_hbm_l1_allocators g"
proof -
  have "dims_ok A g0 (soc_daml_build_cluster_free_bitmap A c g) = dims_ok A g0 g"
    "tcdm (soc_daml_build_cluster_free_bitmap A c g) = tcdm g"
    "g_hbm_l1_allocators (soc_daml_build_cluster_free_bitmap A c g) = g_hbm_l1_allocators g" for c g
    by (simp_all add: soc_daml_build_cluster_free_bitmap_def Let_def dims_ok_def)
  then show "dims_ok A g0 (fold (soc_daml_build_cluster_free_bitmap A) cs g) = dims_ok A g0 g"
    "tcdm (fold (soc_daml_build_cluster_free_bitmap A) cs g) = tcdm g"
    "g_hbm_l1_allocators (fold (soc_daml_build_cluster_free_bitmap A) cs g) = g_hbm_l1_allocators g"
    by (induction cs arbitrary: g) simp_all
qed

lemma ranges_loop_frame:
  "\<exists>f n. ranges_loop A s g = g\<lparr>g_hbm_system_common := f, g_hbm_system_common_count := n\<rparr>"
proof (induction A s g rule: ranges_loop.induct)
  case (1 A s g)
  have here: "\<exists>f n. g = g\<lparr>g_hbm_system_common := f, g_hbm_system_common_count := n\<rparr>"
    by (intro exI [of _ "g_hbm_system_common g"] exI [of _ "g_hbm_system_common_count g"]) simp
  show ?case
  proof (cases "s < L1_SLOT_COUNT A \<and> g_hbm_system_common_count g < MAX_COMMON_BLOCKS \<and>
      \<not> next_slot True (g_system_common_bitmap g) (L1_SLOT_COUNT A) s \<ge> L1_SLOT_COUNT A")
    case True
    note ih = 1 [OF refl refl _ refl _ refl refl refl]
    show ?thesis using True ih by (subst ranges_loop.simps) (fastforce simp: Let_def)
  next
    case False
    then show ?thesis using here by (subst ranges_loop.simps) (auto simp: Let_def)
  qed
qed

lemma boot_core_bitmaps_ok:
  assumes use: "arenas_usable A (ARCH_NUM_CORE_PER_CLUSTER A)" and "dims_ok A g0 g" and "\<forall>ck\<in>all_cores A. snap_ok A ck g"
  defines "h \<equiv> fold (\<lambda>cid. fold (soc_daml_build_core_bitmap A cid) (cores A)) (clusters A) g"
  shows "dims_ok A g0 h" and "ck \<in> all_cores A \<Longrightarrow> bits_ok A ck h"
proof -
  let ?xs = "List.product (clusters A) (cores A)"
  let ?f = "\<lambda>(c, k). soc_daml_build_core_bitmap A c k"
  have "dims_ok A g0 (fold ?f ?xs g) \<and> (\<forall>x\<in>set ?xs. bits_ok A x (fold ?f ?xs g))"
  proof (rule fold_each [where P = "snap_ok A" and Q = "bits_ok A" and X = "all_cores A"])
    fix ck g
    assume "ck \<in> all_cores A" and "dims_ok A g0 g" "snap_ok A ck g"
    then show "dims_ok A g0 (?f ck g) \<and> bits_ok A ck (?f ck g) \<and>
        (\<forall>y\<in>all_cores A. y \<noteq> ck \<longrightarrow> (snap_ok A y g \<longrightarrow> snap_ok A y (?f ck g)) \<and> (bits_ok A y g \<longrightarrow> bits_ok A y (?f ck g)))"
      using build_core_bits [OF use] build_core_frame by (cases ck) (auto simp: all_cores_def)
  qed (use assms product_cores in auto)
  then show "dims_ok A g0 h" "ck \<in> all_cores A \<Longrightarrow> bits_ok A ck h"
    unfolding product_cores(1) h_def fold_pairs by simp_all
qed

lemma print_common_frame: "\<exists>l. print_common g = g\<lparr>soc_log := l\<rparr>"
proof -
  have "\<exists>l. fold (\<lambda>i. soc_printf (f i) (a i)) xs (soc_printf s as g) = g\<lparr>soc_log := l\<rparr>" for f a xs s as and g :: soc_daml
  proof (induction xs arbitrary: g s as)
    case Nil
    show ?case by (auto simp: soc_printf_def)
  next
    case (Cons x xs)
    show ?case using Cons.IH [of "f x" "a x" "soc_printf s as g"] by (auto simp: soc_printf_def)
  qed
  then show ?thesis unfolding print_common_def Let_def .
qed

lemma boot_common_frame:
  "tcdm (boot_common A g) = tcdm g" "g_hbm_l1_allocators (boot_common A g) = g_hbm_l1_allocators g"
  "dims_ok A g0 (boot_common A g) = dims_ok A g0 g" "hbm (boot_common A g) = hbm g" "soc_alloc_hbm (boot_common A g) = soc_alloc_hbm g"
  "g_system_common_bitmap (boot_common A g) = g_system_common_bitmap (soc_daml_build_system_common_bitmap A g)"
proof -
  let ?b = "soc_daml_build_system_common_bitmap A (soc_printf ''[BOOT] Building SYSTEM-COMMON (AND across clusters)...'' [] g)"
  obtain f n where r: "soc_daml_system_common_bitmap_to_ranges A ?b =
      ?b\<lparr>g_hbm_system_common_count := 0, g_hbm_system_common := f, g_hbm_system_common_count := n\<rparr>"
    using ranges_loop_frame unfolding soc_daml_system_common_bitmap_to_ranges_def by blast
  obtain l where "boot_common A g = (soc_daml_system_common_bitmap_to_ranges A ?b)\<lparr>soc_log := l\<rparr>"
    using print_common_frame unfolding boot_common_def by blast
  then have eq: "boot_common A g = ?b\<lparr>g_hbm_system_common := f, g_hbm_system_common_count := n, soc_log := l\<rparr>"
    unfolding r by simp
  show "tcdm (boot_common A g) = tcdm g" "g_hbm_l1_allocators (boot_common A g) = g_hbm_l1_allocators g"
    "dims_ok A g0 (boot_common A g) = dims_ok A g0 g" "hbm (boot_common A g) = hbm g" "soc_alloc_hbm (boot_common A g) = soc_alloc_hbm g"
    "g_system_common_bitmap (boot_common A g) = g_system_common_bitmap (soc_daml_build_system_common_bitmap A g)"
    by (simp_all add: eq soc_daml_build_system_common_bitmap_def Let_def soc_printf_def dims_ok_def)
qed

subsection \<open>The bring-up\<close>

lemma boot_bitmaps_ok:
  assumes use: "arenas_usable A (ARCH_NUM_CORE_PER_CLUSTER A)" and "dims_ok A g0 g" and "\<forall>ck\<in>all_cores A. snap_ok A ck g"
    and "0 < NUM_CLUSTERS A"
  defines "g' \<equiv> boot_common A (boot_bitmaps A g)"
  shows "dims_ok A g0 g' \<and> (\<exists>bs. (\<forall>c<NUM_CLUSTERS A. \<forall>k<ARCH_NUM_CORE_PER_CLUSTER A. core_inv A c k g' (bs c k)) \<and>
    (\<forall>s<L1_SLOT_COUNT A. test_slot (g_system_common_bitmap g') s \<longleftrightarrow>
      (\<forall>c<NUM_CLUSTERS A. \<exists>k<ARCH_NUM_CORE_PER_CLUSTER A. \<exists>b\<in>set (bs c k). touches A (daml_block b) (unat s))))"
proof -
  have ok: "heap_ok A" using use by (simp add: arenas_usable_def arena_heap_ok_def)
  let ?p = "soc_printf ''[BOOT] Building per-core FREE bitmaps (S=0x%08x)...'' [SLOT_SIZE] g"
  define h where "h = soc_printf ''[BOOT] Building CLUSTER-FREE bitmaps (OR across cores)...'' []
    (fold (\<lambda>cid. fold (soc_daml_build_core_bitmap A cid) (cores A)) (clusters A) ?p)"
  have "\<forall>ck\<in>all_cores A. snap_ok A ck ?p" "dims_ok A g0 ?p"
    using assms(2,3) by (simp_all add: snap_ok_def) (simp add: soc_printf_def)
  note bits = boot_core_bitmaps_ok [OF use this(2,1)]
  have dims: "g_rt_num_clusters h = NUM_CLUSTERS A" "g_rt_cores_per_cluster h = ARCH_NUM_CORE_PER_CLUSTER A"
    using bits(1) unfolding h_def by (simp_all add: dims_ok_def soc_printf_def)
  have "\<forall>ck\<in>all_cores A. bits_ok A ck h"
    using bits(2) unfolding h_def by (simp add: bits_ok_def) (simp add: soc_printf_def)
  then obtain F where F: "\<And>c k. (c, k) \<in> all_cores A \<Longrightarrow> core_inv A c k h (F (c, k))"
    "\<And>c k s. (c, k) \<in> all_cores A \<Longrightarrow> s < L1_SLOT_COUNT A \<Longrightarrow>
      test_slot (g_core_free_bitmap h c k) s \<longleftrightarrow> (\<exists>b\<in>set (F (c, k)). touches A (daml_block b) (unat s))"
    unfolding bits_ok_def by (metis fst_conv snd_conv)
  define cf where "cf = fold (soc_daml_build_cluster_free_bitmap A) (clusters A) h"
  have g': "g' = boot_common A cf" unfolding g'_def boot_bitmaps_def cf_def h_def by simp
  have "core_inv A c k g' = core_inv A c k h" for c k
    by (rule core_inv_same) (simp_all add: g' boot_common_frame cf_def clusters_frame)
  then have inv: "core_inv A c k g' (F (c, k))" if "c < NUM_CLUSTERS A" "k < ARCH_NUM_CORE_PER_CLUSTER A" for c k
    using F(1) that by (simp add: all_cores_def)
  have "test_slot (g_system_common_bitmap g') s \<longleftrightarrow>
      (\<forall>c<NUM_CLUSTERS A. \<exists>k<ARCH_NUM_CORE_PER_CLUSTER A. test_slot (g_core_free_bitmap h c k) s)"
    if s: "s < L1_SLOT_COUNT A" for s
    using system_bitmap_slots [OF ok s, of cf] cluster_bitmaps_slots [OF ok s _ cf_def] assms(4) dims
    by (simp add: g' boot_common_frame clusters_def cong: all_cong imp_cong)
  then have "test_slot (g_system_common_bitmap g') s \<longleftrightarrow>
      (\<forall>c<NUM_CLUSTERS A. \<exists>k<ARCH_NUM_CORE_PER_CLUSTER A. \<exists>b\<in>set (F (c, k)). touches A (daml_block b) (unat s))"
    if s: "s < L1_SLOT_COUNT A" for s
    using F(2) s by (simp add: all_cores_def cong: conj_cong)
  moreover have "dims_ok A g0 g'"
    using bits(1) by (simp add: g' boot_common_frame cf_def clusters_frame h_def)
  ultimately show ?thesis using inv by (intro conjI exI [of _ "\<lambda>c k. F (c, k)"]) simp_all
qed

lemma boot_ok:
  assumes use: "arenas_usable A (ARCH_NUM_CORE_PER_CLUSTER A)" and "0 < NUM_CLUSTERS A"
  obtains g' bs where "boot A g = Some g'" and "dims_ok A g g'"
    and "\<And>c k. c < NUM_CLUSTERS A \<Longrightarrow> k < ARCH_NUM_CORE_PER_CLUSTER A \<Longrightarrow> core_inv A c k g' (bs c k)"
    and "\<And>s. s < L1_SLOT_COUNT A \<Longrightarrow> test_slot (g_system_common_bitmap g') s \<longleftrightarrow>
      (\<forall>c<NUM_CLUSTERS A. \<exists>k<ARCH_NUM_CORE_PER_CLUSTER A. \<exists>b\<in>set (bs c k). touches A (daml_block b) (unat s))"
proof -
  let ?g = "soc_daml_set_runtime_dims A (NUM_CLUSTERS A) (ARCH_NUM_CORE_PER_CLUSTER A) g"
  have "dims_ok A g ?g" by (simp add: dims_ok_def dims_set) (simp add: soc_daml_set_runtime_dims_def)
  note a = boot_allocators_ok [OF use this]
  obtain g1 where p: "boot_preload A (boot_allocators A ?g) = Some g1" "dims_ok A g g1" "\<forall>ck\<in>all_cores A. core_ok A 2 ck g1"
    using boot_preload_ok [OF use a [THEN conjunct1] a [THEN conjunct2]] by blast
  note s = boot_snapshots_ok [OF use p(2,3)]
  have "boot A g = Some (boot_common A (boot_bitmaps A (boot_snapshots A g1)))" by (simp add: boot_def p(1))
  then show thesis
    using that boot_bitmaps_ok [OF use s [THEN conjunct1] s [THEN conjunct2] assms(2)] by blast
qed

text \<open>C18: The bring-up of \<open>main_soc_daml_test.c\<close>, from the initialisation of the allocators through the
  preload, the snapshots and the bitmaps to the common ranges, returns from any initial state; every
  core's allocator then satisfies its invariant, and a slot of the common bitmap is set if and only if
  every cluster has a core with a free block that has a byte in the slot.\<close>

theorem boot_common_slots:
  assumes use: "arenas_usable A (ARCH_NUM_CORE_PER_CLUSTER A)" and "0 < NUM_CLUSTERS A"
  shows "\<exists>g' bs. boot A g = Some g' \<and>
    (\<forall>c<NUM_CLUSTERS A. \<forall>k<ARCH_NUM_CORE_PER_CLUSTER A.
      alloc_inv (arena_lo A k) (arena_hi A k) (g_hbm_l1_allocators g' c k) \<lparr>mheap = tcdm g' c, mlog = soc_log g'\<rparr> (bs c k)) \<and>
    (\<forall>s<L1_SLOT_COUNT A. test_slot (g_system_common_bitmap g') s \<longleftrightarrow>
      (\<forall>c<NUM_CLUSTERS A. \<exists>k<ARCH_NUM_CORE_PER_CLUSTER A. \<exists>b\<in>set (bs c k). touches A (daml_block b) (unat s)))"
proof (rule boot_ok [OF assms, of g], intro exI conjI allI impI)
  fix g' bs c k
  assume "c < NUM_CLUSTERS A" "k < ARCH_NUM_CORE_PER_CLUSTER A"
    and "\<And>c k. c < NUM_CLUSTERS A \<Longrightarrow> k < ARCH_NUM_CORE_PER_CLUSTER A \<Longrightarrow> core_inv A c k g' (bs c k)"
  then show "alloc_inv (arena_lo A k) (arena_hi A k) (g_hbm_l1_allocators g' c k) \<lparr>mheap = tcdm g' c, mlog = soc_log g'\<rparr> (bs c k)"
    using core_inv_log by blast
qed

theorem boot_common_slots_witness:
  "\<exists>g' bs. boot soc_default soc_sample = Some g' \<and>
    (test_slot (g_system_common_bitmap g') 24 \<longleftrightarrow>
      (\<forall>c<16. \<exists>k<3. \<exists>b\<in>set (bs (c :: u32) (k :: u32) :: blocks). touches soc_default (daml_block b) 24))"
proof -
  have d: "L1_SLOT_COUNT soc_default = 992" "NUM_CLUSTERS soc_default = 16"
    by (simp_all add: soc_default_slots NUM_CLUSTERS_def)
  obtain g' bs where "boot soc_default soc_sample = Some g'" "\<forall>s<992. test_slot (g_system_common_bitmap g') s \<longleftrightarrow>
      (\<forall>c<16. \<exists>k<3. \<exists>b\<in>set (bs (c :: u32) (k :: u32)). touches soc_default (daml_block b) (unat s))"
    using boot_common_slots [of soc_default soc_sample] soc_sample_usable unfolding d soc_default_sel by auto
  then show ?thesis by (intro exI [of _ g'] exI [of _ bs]) simp
qed

end
