(* ===== verification/Soc_Copy_Props.thy ===== *)
theory Soc_Copy_Props
  imports Soc_Boot_Props
begin

text \<open>
  The copy test of \<open>main_soc_daml_test.c\<close>: it verifies on every cluster and gives the HBM buffer back,
  but the common range it writes to is free memory that still carries the headers of the free lists, and
  a header it overwrites breaks the list of its core for good.
\<close>

subsection \<open>Stores in a loop\<close>

lemma fold_store_other: "y \<notin> a ` set xs \<Longrightarrow> fold (\<lambda>i m. m(a i := v i)) xs m y = m y"
  by (induction xs arbitrary: m) simp_all

lemma fold_store: "inj_on a (set xs) \<Longrightarrow> x \<in> set xs \<Longrightarrow> fold (\<lambda>i m. m(a i := v i)) xs m (a x) = v x"
proof (induction xs arbitrary: m)
  case (Cons z xs)
  show ?case
  proof (cases "x \<in> set xs")
    case False
    then have "x = z" "a x \<notin> a ` set xs" using Cons.prems by (auto simp: inj_on_def)
    then show ?thesis using fold_store_other [of "a x" a xs v "m(a z := v z)"]
        by (simp del: fun_upd_apply) simp
  qed (use Cons in simp)
qed simp

lemma word_steps_inj:
  assumes "unat n \<le> 1073741824"
  shows "inj_on (\<lambda>i. p + 4 * i) {i :: u32. i < n}"
proof (rule inj_onI)
  fix i j :: u32
  assume "i \<in> {i. i < n}" "j \<in> {i. i < n}" and eq: "p + 4 * i = p + 4 * j"
  then have "unat i < 1073741824" "unat j < 1073741824" using assms by (simp_all add: word_less_nat_alt)
  moreover have "4 * i = 4 * j" using eq by simp
  ultimately have "4 * unat i = 4 * unat j" using unat_mult32 [of 4 i] unat_mult32 [of 4 j] by simp
  then show "i = j" by (simp add: unat_eq_iff32)
qed

lemma fill_pattern_word:
  assumes "unat n \<le> 1073741824"
  shows "i < n \<Longrightarrow> fill_pattern_u32 p n seed m (p + 4 * i) = pattern_u32 seed i"
    and "(\<And>i. i < n \<Longrightarrow> x \<noteq> p + 4 * i) \<Longrightarrow> fill_pattern_u32 p n seed m x = m x"
  using fold_store [of "\<lambda>i. p + 4 * i" "u32_range 0 n" i "pattern_u32 seed" m] word_steps_inj [OF assms, of p]
    fold_store_other [of x "\<lambda>i. p + 4 * i" "u32_range 0 n" "pattern_u32 seed" m]
  by (auto simp: fill_pattern_u32_def)

lemma local_copy_word:
  assumes "unat (drop_bit 2 len :: u32) \<le> 1073741824"
  shows "i < drop_bit 2 len \<Longrightarrow> local_copy_from_hbm d s len h m (d + 4 * i) = h (s + 4 * i)"
    and "(\<And>i. i < drop_bit 2 len \<Longrightarrow> x \<noteq> d + 4 * i) \<Longrightarrow> local_copy_from_hbm d s len h m x = m x"
  using fold_store [of "\<lambda>i. d + 4 * i" "u32_range 0 (drop_bit 2 len)" i "\<lambda>i. h (s + 4 * i)" m] word_steps_inj [OF assms, of d]
    fold_store_other [of x "\<lambda>i. d + 4 * i" "u32_range 0 (drop_bit 2 len)" "\<lambda>i. h (s + 4 * i)" m]
  by (auto simp: local_copy_from_hbm_def)

lemma verify_pattern_ok:
  assumes "\<And>i. i < n \<Longrightarrow> m (p + 4 * i) = pattern_u32 seed i"
  shows "verify_pattern_u32 p n seed m = -1"
proof -
  have "find (\<lambda>i. m (p + 4 * i) \<noteq> pattern_u32 seed i) (u32_range 0 n) = None"
    using assms by (simp add: find_None_iff)
  then show ?thesis by (simp add: verify_pattern_u32_def)
qed

text \<open>The copy of a filled buffer is the buffer filled at the destination.\<close>

lemma copy_of_pattern:
  assumes "unat (drop_bit 2 len :: u32) \<le> 1073741824"
  shows "local_copy_from_hbm d s len (fill_pattern_u32 s (drop_bit 2 len) seed h) m = fill_pattern_u32 d (drop_bit 2 len) seed m"
proof
  fix x
  show "local_copy_from_hbm d s len (fill_pattern_u32 s (drop_bit 2 len) seed h) m x = fill_pattern_u32 d (drop_bit 2 len) seed m x"
  proof (cases "\<exists>i<drop_bit 2 len. x = d + 4 * i")
    case True
    then show ?thesis using local_copy_word(1) [OF assms] fill_pattern_word(1) [OF assms] by auto
  next
    case False
    then show ?thesis
      using local_copy_word(2) [OF assms, of x] fill_pattern_word(2) [OF assms, of x] by metis
  qed
qed

subsection \<open>The clusters\<close>

lemma test_copies:
  "distinct cs \<Longrightarrow> fold (test_copy base len) cs t =
    t\<lparr>soc := (soc t)\<lparr>tcdm := (\<lambda>c. if c \<in> set cs then local_copy_from_hbm base (g_hbm_src t) len (hbm (soc t)) (tcdm (soc t) c)
       else tcdm (soc t) c)\<rparr>\<rparr>"
  by (induction cs arbitrary: t) (auto simp: test_copy_def on_soc_def fun_eq_iff)

lemma test_verifies:
  assumes "\<And>c. c \<in> set cs \<Longrightarrow> verify_pattern_u32 base (drop_bit 2 len) TEST_SEED (tcdm (soc t) c) = -1"
  shows "fold (test_verify base len) cs t =
    t\<lparr>g_cluster_verify_status := (\<lambda>c. if c \<in> set cs then 1 else g_cluster_verify_status t c)\<rparr>"
  using assms by (induction cs arbitrary: t) (auto simp: test_verify_def fun_eq_iff)

lemma report_frame: "\<exists>l. fold (report_status base len) cs t = t\<lparr>soc := (soc t)\<lparr>soc_log := l\<rparr>\<rparr>"
proof (induction cs arbitrary: t)
  case Nil
  show ?case by (intro exI [of _ "soc_log (soc t)"]) simp
next
  case (Cons c cs)
  define l where "l = soc_log (soc (report_status base len c t))"
  have r: "report_status base len c t = t\<lparr>soc := (soc t)\<lparr>soc_log := l\<rparr>\<rparr>"
    by (simp add: l_def report_status_def on_soc_def soc_printf_def Let_def)
  obtain l' where "fold (report_status base len) cs (t\<lparr>soc := (soc t)\<lparr>soc_log := l\<rparr>\<rparr>) = t\<lparr>soc := (soc t)\<lparr>soc_log := l'\<rparr>\<rparr>"
    using Cons.IH [of "t\<lparr>soc := (soc t)\<lparr>soc_log := l\<rparr>\<rparr>"] by auto
  then show ?case by (intro exI [of _ l']) (simp add: r)
qed

subsection \<open>The buffer in HBM\<close>

lemma hbm_malloc_fill:
  assumes inv: "alloc_inv lo hi (soc_alloc_hbm g) \<lparr>mheap = hbm g, mlog = soc_log g\<rparr> bs" and len: "unat len \<le> 2048"
    and some: "served len bs = Some (b, cs)"
  obtains p g' where "soc_daml_hbm_malloc len g = Some (p, g')" and "p \<noteq> 0"
    and "g' = g\<lparr>soc_alloc_hbm := soc_alloc_hbm g', hbm := hbm g'\<rparr>"
    and "alloc_inv lo hi (soc_alloc_hbm g') \<lparr>mheap = fill_pattern_u32 p (drop_bit 2 len) seed (hbm g'), mlog = l\<rparr> cs"
    and "live_block lo hi \<lparr>mheap = fill_pattern_u32 p (drop_bit 2 len) seed (hbm g'), mlog = l\<rparr> cs (p - 4) (ALIGN_UP (len + 4) MIN_BLOCK_SIZE)"
    and "fl_free (unat (p - 4)) (unat (ALIGN_UP (len + 4) MIN_BLOCK_SIZE)) cs = bs"
proof -
  let ?s = "\<lparr>mheap = hbm g, mlog = soc_log g\<rparr>" and ?n = "ALIGN_UP (len + 4) MIN_BLOCK_SIZE"
  have sz: "unat len < 4294967285" using len by simp
  obtain al s' where m: "domain_malloc (soc_alloc_hbm g) len ?s = Some (of_nat b + 4, al, s')" "0 < b"
    "b + block_request len \<le> hi" "mlog s' = soc_log g" "alloc_inv lo hi al s' cs" "live_block lo hi s' cs (of_nat b) ?n"
    by (rule domain_malloc_served [OF inv sz some]) (rule that, simp_all)
  note i = alloc_invD [OF m(5)]
  have b: "unat (of_nat b :: u32) = b" "b + unat len + 4 < 4294967296"
    using m(3) i(4) block_request_bounds(1) [of len] by (simp_all add: unat_of_nat32)
  define p where "p = (of_nat b + 4 :: u32)"
  have up: "unat p = b + 4" using b unat_add32 [of "of_nat b" 4] by (simp add: p_def)
  have word: "unat (p + 4 * i) \<in> {b + 4 ..< b + block_request len}" if "i < drop_bit 2 len" for i
  proof -
    have "unat i < unat len div 4" using that by (simp add: word_less_nat_alt drop_bit_eq_div unat_div_distrib)
    then have d: "4 * unat i + 4 \<le> unat len" by linarith
    then have "unat (4 * i) = 4 * unat i" using len unat_mult32 [of 4 i] by simp
    then have "unat (p + 4 * i) = b + 4 + 4 * unat i" using up d b(2) unat_add32 [of p "4 * i"] by simp
    then show ?thesis using d block_request_bounds(1) [of len] by simp
  qed
  have small: "unat (drop_bit 2 len) \<le> 1073741824" using len by (simp add: drop_bit_eq_div unat_div_distrib)
  let ?f = "fill_pattern_u32 p (drop_bit 2 len) seed (mheap s')"
  have frame: "?f x = mheap s' x" if "unat x \<notin> {b + 4 ..< b + block_request len}" for x
    using that word by (intro fill_pattern_word(2) [OF small]) auto
  have disj: "{b ..< b + block_request len} \<inter> free_set cs = {}"
    using m(6) request_size [OF sz] b(1) by (simp add: live_block_def)
  have keep: "?f x = mheap s' x" if "unat x \<in> free_set cs" for x
  proof (rule frame)
    have "unat x \<notin> {b ..< b + block_request len}" using that disj by blast
    then show "unat x \<notin> {b + 4 ..< b + block_request len}" by auto
  qed
  have "alloc_inv lo hi al \<lparr>mheap = ?f, mlog = l\<rparr> cs"
    using seg_frame [OF i(2) less_imp_le [OF i(4)] keep] i by (simp add: alloc_inv_def fl_def)
  moreover have "live_block lo hi \<lparr>mheap = ?f, mlog = l\<rparr> cs (of_nat b) ?n"
    using m(6) frame [of "of_nat b"] b(1) by (simp add: live_block_def)
  moreover have "fl_free b (block_request len) cs = bs"
    using some by (intro fl_alloc_free [OF alloc_invD(2) [OF inv] _ block_request_bounds(3,4)]) (simp split: if_splits)
  moreover have "p \<noteq> 0" using up by (metis add_is_0 unat_0 zero_neq_numeral)
  ultimately show thesis
    by (intro that [of p "g\<lparr>soc_alloc_hbm := al, hbm := mheap s'\<rparr>"])
      (simp_all add: soc_daml_hbm_malloc_def m(1) m(4) p_def request_size [OF sz] b(1))
qed

lemma test_len_le: "unat (test_len g) \<le> 2048"
proof -
  have "unat (x AND NOT 3) \<le> unat x" for x :: u32
    using unat_and_not_mask [of x 2] by (simp add: mask_eq_exp_minus_1)
  then have "unat (test_len g) \<le> unat (if BROADCAST_BYTES > blk_bytes (soc_daml_get_system_common g 0)
      then blk_bytes (soc_daml_get_system_common g 0) else BROADCAST_BYTES)"
    unfolding test_len_def Let_def by blast
  then show ?thesis by (auto simp: BROADCAST_BYTES_def word_less_nat_alt split: if_splits)
qed

lemma test_words: "unat (drop_bit 2 (test_len g)) \<le> 1073741824"
  using test_len_le [of g] by (simp add: drop_bit_eq_div unat_div_distrib)

subsection \<open>The test\<close>

text \<open>The state after a test that found a buffer.\<close>

lemma broadcast_test_run:
  assumes "soc_daml_get_system_common_count (soc t) \<noteq> 0"
    and inv: "alloc_inv lo hi (soc_alloc_hbm (soc t)) \<lparr>mheap = hbm (soc t), mlog = soc_log (soc t)\<rparr> bs"
    and "fl_alloc (block_request (test_len (soc t))) bs \<noteq> None"
  obtains t' where "broadcast_test A t = Some t'" and "g_hbm_src t' = 0"
    and "alloc_inv lo hi (soc_alloc_hbm (soc t')) \<lparr>mheap = hbm (soc t'), mlog = soc_log (soc t')\<rparr> bs"
    and "\<And>c. c < NUM_CLUSTERS A \<Longrightarrow> g_cluster_verify_status t' c = 1"
    and "\<And>c. c < NUM_CLUSTERS A \<Longrightarrow> tcdm (soc t') c =
      fill_pattern_u32 (blk_addr (soc_daml_get_system_common (soc t) 0)) (drop_bit 2 (test_len (soc t))) TEST_SEED (tcdm (soc t) c)"
    and "g_hbm_l1_allocators (soc t') = g_hbm_l1_allocators (soc t)"
proof -
  let ?len = "test_len (soc t)" and ?base = "blk_addr (soc_daml_get_system_common (soc t) 0)"
  define l1 where "l1 = soc_log (soc (on_soc (soc_printf ''       common L1 dst = 0x%08x, size available = 0x%08x, copy len = 0x%08x''
    [?base, blk_bytes (soc_daml_get_system_common (soc t) 0), ?len]) (on_soc (soc_printf ''[TEST] DMA broadcast demo:'' []) t)))"
  define g where "g = (soc t)\<lparr>soc_log := l1\<rparr>"
  have len: "unat ?len \<le> 2048" by (rule test_len_le)
  obtain b cs where a: "fl_alloc (block_request ?len) bs = Some (b, cs)" using assms(3) by auto
  have "block_request ?len < 2 ^ 24" using len block_request_bounds(2) [of ?len] by simp
  then have some: "served ?len bs = Some (b, cs)" using a by simp
  have inv': "alloc_inv lo hi (soc_alloc_hbm g) \<lparr>mheap = hbm g, mlog = soc_log g\<rparr> bs"
    using inv by (simp add: g_def alloc_inv_def)
  obtain p g' where m: "soc_daml_hbm_malloc ?len g = Some (p, g')" "p \<noteq> 0"
    "g' = g\<lparr>soc_alloc_hbm := soc_alloc_hbm g', hbm := hbm g'\<rparr>"
    "\<And>l. alloc_inv lo hi (soc_alloc_hbm g') \<lparr>mheap = fill_pattern_u32 p (drop_bit 2 ?len) TEST_SEED (hbm g'), mlog = l\<rparr> cs"
    "\<And>l. live_block lo hi \<lparr>mheap = fill_pattern_u32 p (drop_bit 2 ?len) TEST_SEED (hbm g'), mlog = l\<rparr> cs (p - 4) (ALIGN_UP (?len + 4) MIN_BLOCK_SIZE)"
    "fl_free (unat (p - 4)) (unat (ALIGN_UP (?len + 4) MIN_BLOCK_SIZE)) cs = bs"
    using hbm_malloc_fill [OF inv' len some, where seed = TEST_SEED]
    by (simp add: alloc_inv_def live_block_def) blast
  have same: "tcdm g' = tcdm (soc t)" "g_hbm_l1_allocators g' = g_hbm_l1_allocators (soc t)"
    by (subst m(3), simp add: g_def)+
  define t2 where "t2 = t\<lparr>g_hbm_src := p, soc := soc_printf ''[TEST] HBM src @ %p filled with pattern'' [p]
    (g'\<lparr>hbm := fill_pattern_u32 p (drop_bit 2 ?len) TEST_SEED (hbm g')\<rparr>)\<rparr>"
  have src: "test_source ?len (t\<lparr>soc := g\<rparr>) = Some t2" using m(1,2) by (simp add: test_source_def t2_def)
  define m3 where "m3 = (\<lambda>c. if c < NUM_CLUSTERS A then fill_pattern_u32 ?base (drop_bit 2 ?len) TEST_SEED (tcdm (soc t) c) else tcdm (soc t) c)"
  have copies: "fold (test_copy ?base ?len) (clusters A) t2 = t2\<lparr>soc := (soc t2)\<lparr>tcdm := m3\<rparr>\<rparr>"
    using test_copies [of "clusters A" ?base ?len t2] copy_of_pattern [OF test_words]
    by (simp add: t2_def soc_printf_def m3_def clusters_def same cong: if_cong)
  have "verify_pattern_u32 ?base (drop_bit 2 ?len) TEST_SEED (m3 c) = -1" if "c < NUM_CLUSTERS A" for c
    using that fill_pattern_word(1) [OF test_words] by (intro verify_pattern_ok) (simp add: m3_def)
  then have verifies: "fold (test_verify ?base ?len) (clusters A) (t2\<lparr>soc := (soc t2)\<lparr>tcdm := m3\<rparr>\<rparr>) =
      t2\<lparr>soc := (soc t2)\<lparr>tcdm := m3\<rparr>, g_cluster_verify_status := (\<lambda>c. if c \<in> set (clusters A) then 1 else g_cluster_verify_status t2 c)\<rparr>"
    by (subst test_verifies) (simp_all add: clusters_def cong: if_cong)
  define v where "v = t2\<lparr>soc := (soc t2)\<lparr>tcdm := m3\<rparr>,
        g_cluster_verify_status := (\<lambda>c. if c \<in> set (clusters A) then 1 else g_cluster_verify_status t2 c)\<rparr>"
  obtain l3 where report: "fold (report_status ?base ?len) (clusters A) v = v\<lparr>soc := (soc v)\<lparr>soc_log := l3\<rparr>\<rparr>"
    using report_frame by blast
  define t3 where "t3 = v\<lparr>soc := (soc v)\<lparr>soc_log := l3\<rparr>\<rparr>"
  have t3: "g_hbm_src t3 = p" "soc_alloc_hbm (soc t3) = soc_alloc_hbm g'" "tcdm (soc t3) = m3" "soc_log (soc t3) = l3"
    "hbm (soc t3) = fill_pattern_u32 p (drop_bit 2 ?len) TEST_SEED (hbm g')" "g_hbm_l1_allocators (soc t3) = g_hbm_l1_allocators (soc t)"
    by (simp_all add: t3_def v_def t2_def soc_printf_def same)
  obtain al s' where f: "domain_free (soc_alloc_hbm g') p \<lparr>mheap = hbm (soc t3), mlog = l3\<rparr> = Some (al, s')"
    "alloc_inv lo hi al s' bs"
    by (rule domain_free_live [OF m(4) [of l3] m(5) [of l3]], rule that) (simp_all add: t3(5) m(6))
  define t' where "t' = t3\<lparr>soc := (soc t3)\<lparr>soc_alloc_hbm := al, hbm := mheap s', soc_log := mlog s'\<rparr>, g_hbm_src := 0\<rparr>"
  have "test_release t3 = Some t'"
    using m(2) f(1) by (simp add: test_release_def soc_daml_hbm_free_def t3 t'_def)
  moreover have "broadcast_test A t = test_release t3"
  proof -
    have "on_soc (soc_printf ''       common L1 dst = 0x%08x, size available = 0x%08x, copy len = 0x%08x''
        [?base, blk_bytes (soc_daml_get_system_common (soc t) 0), ?len]) (on_soc (soc_printf ''[TEST] DMA broadcast demo:'' []) t) = t\<lparr>soc := g\<rparr>"
      by (simp add: g_def l1_def on_soc_def soc_printf_def)
    moreover have "g_hbm_src t2 \<noteq> 0" using m(2) by (simp add: t2_def)
    ultimately show ?thesis
      using assms(1) by (simp add: broadcast_test_def Let_def src copies verifies [folded v_def] report [folded t3_def])
  qed
  ultimately have "broadcast_test A t = Some t'" by simp
  then show thesis
    by (rule that) (use f(2) t3 in \<open>simp_all add: t'_def m3_def clusters_def t3_def v_def alloc_inv_def\<close>)
qed

subsection \<open>The free lists\<close>

text \<open>A list walk that meets a header whose size has become odd.\<close>

lemma even_unat32: "even (unat (w :: u32)) \<longleftrightarrow> even w"
  by (simp add: even_iff_mod_2_eq_zero unat_mod word_unat_eq_iff)

lemma odd_header:
  assumes "seg m p bs 0" and "seg m' p bs' 0"
    and "\<And>b q. b \<in> set bs \<Longrightarrow> unat q = fst b \<Longrightarrow> fst b \<notin> R \<Longrightarrow> m' q = m q \<and> m' (q + 4) = m (q + 4)"
    and "\<And>b q. b \<in> set bs \<Longrightarrow> unat q = fst b \<Longrightarrow> fst b \<in> R \<Longrightarrow> odd (m' q)"
    and "\<exists>b\<in>set bs. fst b \<in> R"
  shows "\<exists>b\<in>set bs'. odd (snd b)"
  using assms
proof (induction bs arbitrary: p bs')
  case (Cons b bs)
  then obtain b' bs'' where bs': "bs' = b' # bs''" by (cases bs') auto
  have p: "unat p = fst b" "unat (m' p) = snd b'" "seg m (m (p + 4)) bs 0" "seg m' (m' (p + 4)) bs'' 0"
    using Cons.prems(1,2) bs' by simp_all
  show ?case
  proof (cases "fst b \<in> R")
    case True
    then have "odd (m' p)" using Cons.prems(4) [of b p] p(1) by simp
    then have "odd (snd b')" by (simp add: even_unat32 flip: p(2))
    then show ?thesis using bs' by simp
  next
    case False
    then have "m' (p + 4) = m (p + 4)" using Cons.prems(3) [of b p] p(1) by simp
    then have "\<exists>b\<in>set bs''. odd (snd b)"
    proof (intro Cons.IH [of "m (p + 4)" bs''])
      show "\<exists>b\<in>set bs. fst b \<in> R" using Cons.prems(5) False by simp
      show "m' q = m q \<and> m' (q + 4) = m (q + 4)" if "x \<in> set bs" "unat q = fst x" "fst x \<notin> R" for x q
        using Cons.prems(3) [of x q] that by simp
      show "odd (m' q)" if "x \<in> set bs" "unat q = fst x" "fst x \<in> R" for x q
        using Cons.prems(4) [of x q] that by simp
    qed (use p(3,4) \<open>m' (p + 4) = m (p + 4)\<close> in simp_all)
    then show ?thesis using bs' by simp
  qed
qed simp

lemma pattern_header:
  fixes base n q :: u32
  assumes base: "8 dvd unat base" "unat base + 4 * unat n < 4294967296" and q: "8 dvd unat q"
  defines "R \<equiv> {unat base ..< unat base + 4 * unat n}"
  shows "unat q \<in> R \<Longrightarrow> odd (fill_pattern_u32 base n TEST_SEED m q)"
    and "unat q \<notin> R \<Longrightarrow> unat q + 8 < 4294967296 \<Longrightarrow>
      fill_pattern_u32 base n TEST_SEED m q = m q \<and> fill_pattern_u32 base n TEST_SEED m (q + 4) = m (q + 4)"
proof -
  have small: "unat n \<le> 1073741824" using base(2) by simp
  have word: "unat (base + 4 * i) = unat base + 4 * unat i" "unat (base + 4 * i) \<in> R" if "i < n" for i
  proof -
    have i: "unat i < unat n" using that by (simp add: word_less_nat_alt)
    then have "unat (4 * i) = 4 * unat i" using base(2) unat_mult32 [of 4 i] by simp
    then show "unat (base + 4 * i) = unat base + 4 * unat i" using i base(2) unat_add32 [of base "4 * i"] by simp
    then show "unat (base + 4 * i) \<in> R" using i by (simp add: R_def)
  qed
  show "odd (fill_pattern_u32 base n TEST_SEED m q)" if "unat q \<in> R"
  proof -
    define i where "i = (of_nat ((unat q - unat base) div 4) :: u32)"
    have d: "8 dvd unat q - unat base" using base(1) q by (rule dvd_diff_nat [rotated])
    have le: "(unat q - unat base) div 4 < unat n" using that by (auto simp: R_def)
    also have "unat n < 4294967296" by simp
    finally have i: "unat i = (unat q - unat base) div 4" unfolding i_def by (rule unat_of_nat32)
    have "i < n" using le i by (simp add: word_less_nat_alt)
    have "even (unat i)" "4 * unat i = unat q - unat base" using d i by (auto elim!: dvdE)
    moreover have "unat base \<le> unat q" using that by (simp add: R_def)
    ultimately have "q = base + 4 * i" "even i" using word(1) [OF \<open>i < n\<close>] by (simp_all add: unat_eq_iff32 even_unat32)
    then show ?thesis
      using fill_pattern_word(1) [OF small \<open>i < n\<close>] by (simp add: pattern_u32_def TEST_SEED_def even_xor_iff)
  qed
  assume q': "unat q \<notin> R" "unat q + 8 < 4294967296"
  then have q4: "unat (q + 4) = unat q + 4" using unat_add32 [of q 4] by simp
  have "unat q < unat base \<Longrightarrow> unat q + 8 \<le> unat base" using base(1) q by (elim dvdE) simp
  then have "unat (q + 4) \<notin> R" using q' q4 by (auto simp: R_def)
  then show "fill_pattern_u32 base n TEST_SEED m q = m q \<and> fill_pattern_u32 base n TEST_SEED m (q + 4) = m (q + 4)"
    using q'(1) word(2) by (intro conjI fill_pattern_word(2) [OF small]) auto
qed

subsection \<open>The HBM allocator after its initialisation\<close>

text \<open>The heap between the linker symbols, with room for the test buffer.\<close>

definition hbm_usable :: "soc_arch \<Rightarrow> bool" where
  "hbm_usable A = (0 < hbm_heap_start A \<and> unat (hbm_heap_start A) + 4096 \<le> unat (hbm_heap_end A))"

lemma hbm_init_inv:
  assumes "hbm_usable A"
  obtains lo hi n where "alloc_inv lo hi (soc_alloc_hbm (soc_daml_init_hbm_allocator A g))
      \<lparr>mheap = hbm (soc_daml_init_hbm_allocator A g), mlog = l\<rparr> [(lo, n)]" and "4000 \<le> n"
proof -
  let ?lb = "hbm_heap_start A" and ?le = "hbm_heap_end A"
  have h: "0 < unat ?lb" "unat ?lb + 4096 \<le> unat ?le" "?le > ?lb \<and> ?lb \<noteq> 0"
    using assms by (auto simp: hbm_usable_def word_less_nat_alt)
  have le: "unat ?le < 4294967296" by simp
  define ab where "ab = (?lb + 8 - 1) AND NOT (8 - 1)"
  define az where "az = (?le - ?lb - (ab - ?lb)) div 8 * 8"
  have "unat ?lb + 7 < 4294967296" using h(2) le by linarith
  then have "unat (?lb + 7) = unat ?lb + 7" using unat_add32 [of ?lb 7] by simp
  then have ab: "unat ab = (unat ?lb + 7) div 8 * 8" by (simp add: ab_def unat_and_neg8 add.commute)
  then have ab': "unat ?lb \<le> unat ab" "unat ab < unat ?lb + 8" "8 dvd unat ab" by presburger+
  have "unat (?le - ?lb) = unat ?le - unat ?lb" "unat (ab - ?lb) = unat ab - unat ?lb"
    using h(2) ab'(1) by (simp_all add: unat_sub32)
  then have "unat (?le - ?lb - (ab - ?lb)) = unat ?le - unat ab"
    using h(2) ab' by (subst unat_sub32) simp_all
  moreover have "(unat ?le - unat ab) div 8 * 8 < 4294967296"
    using le div_times_less_eq_dividend [of "unat ?le - unat ab" 8] by linarith
  ultimately have az: "unat az = (unat ?le - unat ab) div 8 * 8"
    unfolding az_def by (subst unat_mult32) (simp_all add: unat_div_distrib)
  have "4080 \<le> unat ?le - unat ab" using h(2) ab'(2) by linarith
  then have room: "4000 \<le> unat az" "unat ab + unat az < 4294967296" "8 dvd unat az"
  proof -
    have d: "4080 \<le> x \<Longrightarrow> 4000 \<le> x div 8 * 8" for x :: nat by presburger
    show "4000 \<le> unat az" unfolding az by (rule d) fact
    show "8 dvd unat az" by (simp add: az)
    have "unat az \<le> unat ?le - unat ab" unfolding az by (rule div_times_less_eq_dividend)
    then show "unat ab + unat az < 4294967296" using \<open>4080 \<le> unat ?le - unat ab\<close> le by linarith
  qed
  obtain al s' where i: "flex_cluster_alloc_init ab az \<lparr>mheap = hbm g, mlog = soc_log g\<rparr> = (al, s')"
    "alloc_inv ((unat ab + 7) div 8 * 8) (unat ab + unat az) al s'
      [((unat ab + 7) div 8 * 8, (unat ab + unat az - (unat ab + 7) div 8 * 8) div 8 * 8)]"
    by (rule flex_cluster_alloc_init_inv [of ab az "\<lparr>mheap = hbm g, mlog = soc_log g\<rparr>"]) (use h(1) ab'(1) room in simp_all)
  have up: "(unat ab + 7) div 8 * 8 = unat ab" using ab'(3) by presburger
  have sz: "(unat ab + unat az - unat ab) div 8 * 8 = unat az" using room(3) by simp
  have az_alt: "(?le - ab) div 8 * 8 = az" by (simp add: az_def)
  have "\<not> az < 8" using room(1) by (simp add: word_less_nat_alt)
  then have "soc_alloc_hbm (soc_daml_init_hbm_allocator A g) = al" "hbm (soc_daml_init_hbm_allocator A g) = mheap s'"
    using h(3) i(1) az_alt
    by (simp_all add: soc_daml_init_hbm_allocator_def Let_def soc_printf_def ab_def [simplified, symmetric])
  then show thesis using that i(2) room(1) unfolding up sz by (simp add: alloc_inv_def)
qed

subsection \<open>Properties\<close>

text \<open>If there is a common range and the HBM allocator can serve the request, the copy test of
  \<open>main_soc_daml_test.c\<close> returns with the status of every cluster OK, the pattern and nothing else in the
  L1 memory of every cluster, and the buffer given back to the HBM allocator.\<close>

lemma broadcast_test_verifies:
  assumes "soc_daml_get_system_common_count (soc t) \<noteq> 0"
    and "alloc_inv lo hi (soc_alloc_hbm (soc t)) \<lparr>mheap = hbm (soc t), mlog = soc_log (soc t)\<rparr> bs"
    and "fl_alloc (block_request (test_len (soc t))) bs \<noteq> None"
  shows "\<exists>t'. broadcast_test A t = Some t' \<and> g_hbm_src t' = 0 \<and>
    alloc_inv lo hi (soc_alloc_hbm (soc t')) \<lparr>mheap = hbm (soc t'), mlog = soc_log (soc t')\<rparr> bs \<and>
    (\<forall>c<NUM_CLUSTERS A. g_cluster_verify_status t' c = 1 \<and>
      tcdm (soc t') c = fill_pattern_u32 (blk_addr (soc_daml_get_system_common (soc t) 0)) (drop_bit 2 (test_len (soc t)))
        TEST_SEED (tcdm (soc t) c))"
  by (rule broadcast_test_run [OF assms]) blast

text \<open>C19: \<open>main\<close> of \<open>main_soc_daml_test.c\<close> returns from any initial memory, and whenever the bring-up finds a
  common range, every cluster verifies the copied pattern and records the status OK.\<close>

theorem soc_daml_test_passes:
  assumes "arenas_usable A (ARCH_NUM_CORE_PER_CLUSTER A)" and "0 < NUM_CLUSTERS A" and "hbm_usable A"
  shows "\<exists>g t'. boot A (soc (test_init A t)) = Some g \<and> soc_daml_test_main A t = Some t' \<and>
    (soc_daml_get_system_common_count g \<noteq> 0 \<longrightarrow> (\<forall>c<NUM_CLUSTERS A. g_cluster_verify_status t' c = 1))"
proof -
  let ?t = "test_init A t"
  obtain g bs where g: "boot A (soc ?t) = Some g" "dims_ok A (soc ?t) g"
    by (rule boot_ok [OF assms(1,2)])
  define u where "u = ?t\<lparr>soc := g\<rparr>"
  have main: "soc_daml_test_main A t = (case broadcast_test A u of None \<Rightarrow> None
      | Some t \<Rightarrow> Some (on_soc (print_in_cluster_core_order A ''HELLO-ORDERED'') t))"
    by (simp add: soc_daml_test_main_def Let_def g(1) u_def)
  show ?thesis
  proof (cases "soc_daml_get_system_common_count g = 0")
    case True
    then show ?thesis using g(1) by (simp add: main broadcast_test_def u_def)
  next
    case False
    obtain lo hi n where i: "alloc_inv lo hi (soc_alloc_hbm (soc ?t)) \<lparr>mheap = hbm (soc ?t), mlog = soc_log g\<rparr> [(lo, n)]" "4000 \<le> n"
      using hbm_init_inv [OF assms(3)] unfolding test_init_def Let_def by (simp add: test_init_def) blast
    then have inv: "alloc_inv lo hi (soc_alloc_hbm (soc u)) \<lparr>mheap = hbm (soc u), mlog = soc_log (soc u)\<rparr> [(lo, n)]"
      using g(2) by (simp add: u_def dims_ok_def)
    have "block_request (test_len (soc u)) \<le> n"
      using test_len_le [of "soc u"] block_request_bounds(2) [of "test_len (soc u)"] i(2) by linarith
    then have fits: "fl_alloc (block_request (test_len (soc u))) [(lo, n)] \<noteq> None" by (simp add: fl_alloc_NoneD)
    have "soc_daml_get_system_common_count (soc u) \<noteq> 0" using False by (simp add: u_def)
    then obtain t' where "broadcast_test A u = Some t'" "\<forall>c<NUM_CLUSTERS A. g_cluster_verify_status t' c = 1"
      by (rule broadcast_test_run [OF _ inv fits, of A]) blast
    then show ?thesis using g(1) by (simp add: main on_soc_def)
  qed
qed

text \<open>C20: The copy test breaks every free list with a header in the range it writes to, although the
  common bitmap counts the bytes of a header as free: afterwards the memory holds no valid free list for
  the allocator of that core, whatever blocks one takes it to have.\<close>

theorem broadcast_breaks_free_list:
  fixes t :: soc_test
  defines "base \<equiv> blk_addr (soc_daml_get_system_common (soc t) 0)" and "len \<equiv> test_len (soc t)"
  assumes "soc_daml_get_system_common_count (soc t) \<noteq> 0"
    and "alloc_inv lo hi (soc_alloc_hbm (soc t)) \<lparr>mheap = hbm (soc t), mlog = soc_log (soc t)\<rparr> bs"
    and "fl_alloc (block_request (test_len (soc t))) bs \<noteq> None"
    and c: "c < NUM_CLUSTERS A" and core: "alloc_inv lo' hi' (g_hbm_l1_allocators (soc t) c k) \<lparr>mheap = tcdm (soc t) c, mlog = l\<rparr> fs"
    and base: "8 dvd unat base" "unat base + unat len < 4294967296"
    and header: "b \<in> set fs" "unat base \<le> fst b" "fst b < unat base + unat len div 4 * 4"
  shows "\<exists>t'. broadcast_test A t = Some t' \<and>
    (\<forall>fs'. \<not> alloc_inv lo' hi' (g_hbm_l1_allocators (soc t') c k) \<lparr>mheap = tcdm (soc t') c, mlog = l'\<rparr> fs')"
proof -
  obtain t' where t': "broadcast_test A t = Some t'" "g_hbm_l1_allocators (soc t') = g_hbm_l1_allocators (soc t)"
    "tcdm (soc t') c = fill_pattern_u32 base (drop_bit 2 len) TEST_SEED (tcdm (soc t) c)"
    by (rule broadcast_test_run [OF assms(3-5), of A]) (use c in \<open>auto simp: base_def len_def\<close>)
  let ?n = "drop_bit 2 len" and ?R = "{unat base ..< unat base + 4 * unat (drop_bit 2 len)}"
  have n: "4 * unat ?n = unat len div 4 * 4" by (simp add: drop_bit_eq_div unat_div_distrib)
  then have room: "unat base + 4 * unat ?n < 4294967296" using base(2) div_times_less_eq_dividend [of "unat len" 4] by linarith
  note i = alloc_invD [OF core]
  have ok: "8 dvd fst x" "fst x + 8 < 4294967296" if "x \<in> set fs" for x
    using wf_blocks_ok [OF i(2) that] i(4) by (auto simp: block_ok_def elim!: dvdE)
  have "\<exists>x\<in>set fs'. odd (snd x)" if inv: "alloc_inv lo' hi' (g_hbm_l1_allocators (soc t') c k) \<lparr>mheap = tcdm (soc t') c, mlog = l'\<rparr> fs'" for fs'
  proof (rule odd_header [where R = ?R])
    show "seg (tcdm (soc t) c) (first_block (g_hbm_l1_allocators (soc t) c k)) fs 0" using i(1) by (simp add: fl_def)
    show "seg (tcdm (soc t') c) (first_block (g_hbm_l1_allocators (soc t) c k)) fs' 0"
      using alloc_invD(1) [OF inv] by (simp add: fl_def t'(2))
    show "\<exists>b\<in>set fs. fst b \<in> ?R" using header n by auto
  qed (use pattern_header [OF base(1) room] ok in \<open>metis t'(3)\<close>)+
  moreover have "even (snd x)" if "alloc_inv lo' hi' (g_hbm_l1_allocators (soc t') c k) \<lparr>mheap = tcdm (soc t') c, mlog = l'\<rparr> fs'" "x \<in> set fs'" for fs' x
    using wf_blocks_ok [OF alloc_invD(2) [OF that(1)] that(2)] by (auto simp: block_ok_def elim!: dvdE)
  ultimately show ?thesis using t'(1) by blast
qed

text \<open>One common range of 16 bytes at the free block of the sample state, and 64 free bytes in HBM.\<close>

definition copy_sample :: soc_test where
  "copy_sample =
     \<lparr>soc = soc_sample\<lparr>g_hbm_system_common_count := 1, g_hbm_system_common := (\<lambda>_. \<lparr>blk_addr = 0x8000, blk_bytes = 16\<rparr>),
        soc_alloc_hbm := \<lparr>first_block = 0xC0010000\<rparr>, hbm := (\<lambda>_. 0)(0xC0010000 := 64)\<rparr>,
      g_cluster_verify_status = \<lambda>_. 0, g_hbm_src = 0\<rparr>"

lemma copy_sample_ready:
  "soc_daml_get_system_common_count (soc copy_sample) \<noteq> 0"
  "alloc_inv 0xC0010000 0xC0020000 (soc_alloc_hbm (soc copy_sample)) \<lparr>mheap = hbm (soc copy_sample), mlog = soc_log (soc copy_sample)\<rparr> [(0xC0010000, 64)]"
  "test_len (soc copy_sample) = 16"
  "fl_alloc (block_request (test_len (soc copy_sample))) [(0xC0010000, 64)] \<noteq> None"
  "alloc_inv 0x8000 0x10000 (g_hbm_l1_allocators (soc copy_sample) 0 k) \<lparr>mheap = tcdm (soc copy_sample) 0, mlog = []\<rparr> [(0x8000, 16)]"
  by (simp_all add: copy_sample_def soc_sample_def alloc_inv_def fl_def wf_blocks_Cons block_ok_def test_len_def
      BROADCAST_BYTES_def fl_alloc_def block_request_def soc_daml_get_system_common_def soc_daml_get_system_common_count_def)

theorem soc_daml_test_passes_witness:
  "\<exists>g t'. boot soc_default (soc (test_init soc_default copy_sample)) = Some g \<and> soc_daml_test_main soc_default copy_sample = Some t' \<and>
    (soc_daml_get_system_common_count g \<noteq> 0 \<longrightarrow> g_cluster_verify_status t' 15 = 1)"
proof -
  have "hbm_usable soc_default" by (simp add: hbm_usable_def soc_default_def arch.defs)
  moreover have "NUM_CLUSTERS soc_default = 16" by (simp add: NUM_CLUSTERS_def)
  ultimately show ?thesis
    using soc_daml_test_passes [of soc_default copy_sample] soc_sample_usable by fastforce
qed

theorem broadcast_breaks_free_list_witness:
  "\<exists>t'. broadcast_test soc_default copy_sample = Some t' \<and>
    (\<forall>fs. \<not> alloc_inv 0x8000 0x10000 (g_hbm_l1_allocators (soc t') 0 1) \<lparr>mheap = tcdm (soc t') 0, mlog = []\<rparr> fs)"
proof -
  have "blk_addr (soc_daml_get_system_common (soc copy_sample) 0) = 0x8000"
    by (simp add: copy_sample_def soc_daml_get_system_common_def)
  then show ?thesis
    by (intro broadcast_breaks_free_list [OF copy_sample_ready(1,2,4) _ copy_sample_ready(5), where b = "(0x8000, 16)"])
      (simp_all add: NUM_CLUSTERS_def copy_sample_ready(3))
qed


end
