(* ===== verification/Spec2Isabelle.thy ===== *)
theory Spec2Isabelle
  imports Flex_Alloc_Client Barrier_Props Flex_Group_Barrier Soc_Daml_Props Flex_DMA_Props Fixed_Proj Flex_Fp8 Flex_Printf_Typing Flex_Printf_Float App_Tile App_Sync App_Broadcast App_Redmule_Engine Sim_Redmule_Insn App_Systolic_Code Sim_Banks_Props Sim_Ctrl_Props Sim_Dump_Props Sim_Registers_Barrier Soc_Copy_Props
begin

text \<open>
  A verification development for the SoftHier cluster SDK and the hardware models it runs on.

  \<^bold>\<open>The program.\<close>  SoftHier simulates a mesh of clusters, each with some RISC-V cores, a
  scratch-pad memory (L1), a matrix engine and a DMA engine, with HBM channels along the edges of the
  mesh.  The runtime (\<open>soft_hier/flex_cluster_sdk/runtime/include\<close>) is a set of C headers an
  application includes; every core of every cluster runs the same \<open>main\<close> and finds its role from its
  position.  The applications (\<open>flex_cluster_sdk/app_example\<close>) allocate buffers in L1, move tiles with
  the DMA engine, multiply them on a core or on the matrix engine, and synchronise with barriers built on
  atomic additions and wake-up broadcasts.  The hardware is C++ under \<open>soft_hier/flex_cluster\<close>.

  \<^bold>\<open>Modelling.\<close>  A C integer is a machine word, so overflow wraps as in the code; a pointer is a
  32-bit word into a memory, which is a function from byte addresses to words.  Code that shares memory
  with other cores or issues custom instructions is an \<open>io\<close> tree (\<open>Flex_Runtime\<close>): one node per volatile
  access, with the rest of the program for every value the access may return.  \<open>Flex_Hw\<close> interleaves such
  programs in any order; \<open>App_Solo\<close> runs one on its own.  Other code is a function on an explicit state.  A
  loop that may not end is \<open>partial_function (option)\<close>, with \<open>None\<close> for "does not return"; where a theorem
  says that the code returns, it says \<open>Some\<close>.  All other loops are structural or have a
  termination proof, by the end of their index or of the buffer they fill; no function has fuel
  (\<open>run_fsm\<close> counts calls of a handler and \<open>run_clock\<close> cycles of its clock, and the theorems give the numbers).  The generated header \<open>flex_cluster_arch.h\<close> is the record \<open>arch\<close>.

  \<^bold>\<open>Theories and sources.\<close>

  \<^item> \<open>SH_Prelude\<close>: integer types, memories, the log, lemmas on words and lists.

  \<^item> \<open>Flex_Alloc\<close> is \<open>flex_alloc.h\<close>, word for word.  \<open>Free_Blocks\<close> is its abstract specification, a list of
  blocks in address order; \<open>Flex_Alloc_Props\<close> proves the refinement, by segments of the linked list.
  \<open>Heap_Interface\<close> holds the locale \<open>heap_alloc\<close>, the contract between an allocator and its client, in which
  whole client runs are shown to keep held blocks disjoint and untouched; \<open>Flex_Alloc_Client\<close> interprets it.

  \<^item> \<open>Flex_Arch\<close> and \<open>Flex_Runtime\<close> are \<open>flex_runtime.h\<close>: the address map, positions, registers, the three
  barriers.  \<open>Flex_Hw\<close> is the machine of the harts with the synchronisation part of
  \<open>cluster_registers.cpp\<close> and of the router patch \<open>gvsoc_pulp.patch\<close>.  \<open>Barrier_Code\<close>, \<open>Barrier_Count\<close>,
  \<open>Barrier_XY\<close> and \<open>Barrier_Props\<close> prove the two-level barrier: an invariant on control points and counters,
  then mutual separation of the phases, absence of deadlock and termination.

  \<^item> \<open>Flex_Group_Barrier\<close> is \<open>flex_group_barrier.h\<close>; its lemmas show which clusters a group wakes.

  \<^item> \<open>Soc_Daml\<close> is \<open>soc_daml.h\<close>, the bitmaps of free L1 slots kept in HBM; \<open>Soc_Daml_Props\<close> says what each
  operation computes.  \<open>Soc_Boot\<close> is \<open>main_soc_daml_test.c\<close>; \<open>Soc_Boot_Props\<close> and \<open>Soc_Copy_Props\<close> follow the
  bring-up and the copy test to their end states.

  \<^item> \<open>Flex_DMA\<close> is \<open>flex_dma_pattern.h\<close> and \<open>flex_dump.h\<close>, \<open>Flex_Redmule\<close> is \<open>flex_redmule.h\<close>: the custom
  instructions issued.  \<open>Flex_DMA_Props\<close> reads them back as requests to the engines.

  \<^item> \<open>Flex_Fp16\<close>, \<open>Flex_Fp8\<close> are \<open>flex_libfp16.h\<close>, \<open>flex_libfp8.h\<close>; \<open>Fixed_Proj\<close> is \<open>fixed_proj.h\<close>.

  \<^item> \<open>Flex_Printf\<close> is \<open>flex_printf.h\<close>.  \<open>Flex_Printf_Props\<close> has the locale \<open>put_invariant\<close>, a property of the
  sink kept by every piece of the formatter (interpreted for the calls at consecutive indices), and with it
  bounds, agreement of the sinks and reading back of numbers; \<open>Flex_Printf_Typing\<close> says which calls are defined,
  \<open>Flex_Printf_Float\<close> treats \<open>%f\<close> over exact arithmetic.

  \<^item> \<open>App_Kernels\<close>, \<open>App_Bench\<close>, \<open>App_Grid\<close>, \<open>App_Redmule\<close> are the applications \<open>benchmark_1.c\<close> to
  \<open>benchmark_5.c\<close>, \<open>main_load.c\<close>, \<open>main_load_nonextend.c\<close>, \<open>main.c\<close>, \<open>main_timer.c\<close> and
  \<open>example_one_cluster_gemm.h\<close>.  \<open>App_Product\<close> and \<open>App_Tile\<close> show what a cluster computes, \<open>App_Sync\<close> that all
  cores take part in the same synchronisations, \<open>App_Broadcast\<close> whom the broadcasts reach,
  \<open>App_Redmule_Props\<close> that the double buffering is free of races and yields the product.

  \<^item> \<open>App_Systolic\<close> is the example \<open>gemm_systolic\<close> (\<open>examples/SoftHier/software\<close>), a matrix product in which tiles of X
  move east and tiles of W north from cluster to cluster.  \<open>App_Systolic_Props\<close> says over natural numbers what a
  cluster transfers and multiplies in an iteration, \<open>App_Systolic_Flow\<close> follows the tiles through the memories of all
  clusters by induction on the distance to the edge, and \<open>App_Systolic_Code\<close> shows that the program starts these
  transfers and what its schedule gets wrong.

  \<^item> \<open>Sim_Redmule\<close> is the simulator of the matrix engine, \<open>light_redmule.cpp\<close>: registers, state machine, the
  requests it sends to L1, the tile buffers and the tile arithmetic.  \<open>Sim_Redmule_Time\<close> separates time from
  data (a phase ends in the state its requests in a row give, whatever their latencies); \<open>Sim_Redmule_Data\<close>
  says what the requests of a phase load and store; \<open>Sim_Redmule_Tiles\<close> describes tiles and memory over natural
  numbers; \<open>Sim_Redmule_Arith\<close> holds the locale \<open>element_array\<close> (elements over a byte array, interpreted for
  bytes and half words) with the tile product; \<open>Sim_Redmule_Run\<close> and \<open>Sim_Redmule_Gemm\<close> prove the invariant
  between two phases and the run from the trigger to the end, \<open>Sim_Redmule_Wait\<close> the answer to a waiting core,
  and \<open>Sim_Redmule_Product\<close> the elements of the result.  \<open>App_Redmule_Engine\<close> joins the simulator with the
  abstract engine step of \<open>App_Redmule_Props\<close>.  Its clock (\<open>clock_cycle\<close>) calls the handler only at
  the event the last call has enqueued, and not at all when there is none.  The number of calls in a run is bounded by the
  number of phases times \<open>phase_bound\<close>, the requests of a phase times the largest latency plus one; the number
  of cycles, \<open>run_cycles\<close>, adds to each phase the delay of the array (\<open>jump_delay\<close>).  \<open>Sim_Redmule_Insn\<close> is the
  path from the custom instructions of \<open>flex_redmule.h\<close> to the requests of the engine, through the decoder and the
  two handlers of the instruction set simulator in \<open>gvsoc_pulp.patch\<close> and \<open>gvsoc_core.patch\<close>.

  \<^item> \<open>Sim_Banks\<close> is the HBM controller \<open>hbm_ctrl.cpp\<close> and the interleaver of the L1 banks
  \<open>hwpe_interleaver.cpp\<close>.  \<open>Sim_Banks_Props\<close> shows over natural numbers that the interleaving is a bijection, hence
  that the requests of different nodes of HBM never meet and that the banks of L1 are one flat memory, with the
  splitting of a request at the lines by induction on its size.

  \<^item> \<open>Sim_Registers\<close> is the component \<open>cluster_registers.cpp\<close> itself, all its handlers.  \<open>Sim_Registers_Props\<close> builds a
  machine of such components and proves step by step that it is the machine of \<open>Flex_Hw\<close> (\<open>view\<close>), in both directions;
  \<open>Sim_Registers_Barrier\<close> carries the results on the barrier over to it.

  \<^item> \<open>Sim_Ctrl\<close> is \<open>ctrl_registers.cpp\<close>: end of simulation, timer, console and the queue of delayed wake-ups.
  \<open>Sim_Ctrl_Props\<close> runs it on the clock engine and proves that wake-ups are delivered once, in order and in time.

  \<^item> \<open>Sim_Dump\<close> is the dump device \<open>util_dumpper.cpp\<close>; \<open>Sim_Dump_Props\<close> runs the functions of \<open>flex_dump.h\<close> on it and says
  what the file holds and how it reads back.

  \<^bold>\<open>Parameters.\<close>  Floating point arithmetic is a record of operations (\<open>flt_ops\<close>, \<open>dbl_ops\<close>); theorems about
  values say which of its laws they use.  The network delivers wake-up messages in any order.  A DMA transfer
  is performed where it is started in the sequential runs, and between the synchronisations in any order in
  \<open>App_Redmule_Props\<close>; in \<open>App_Systolic_Flow\<close> all transfers between two barriers read what was there before
  (no buffer a neighbour reads is written in the same iteration, \<open>neighbour_kept\<close>; the areas of Z may meet the streams of W, \<open>main_output\<close>).  The clock engine runs an event at its
  cycle or later and may keep or replace the cycle of a pending event (\<open>enqueue\<close>).  The port of the engine to L1 (\<open>tcdm_env\<close>) answers at once with any latencies; the
  fused step on fp8 values is a parameter (\<open>rm_arith\<close>).  The buffers of the engine are unbounded byte
  functions: that \<open>access_buffer\<close> holds a row of Z (\<open>buffer_w * elem_size \<le> 2 * bandwidth\<close>), and that the
  configured element size is at least that of the format, is left to the configuration.  The product of two
  unsigned 16-bit elements wraps, where C multiplies them as \<open>int\<close>; a conversion of a \<open>double\<close> out of the range of its
  integer type has the value its parameter gives; the fused step on half precision values of the C code is a product and a
  sum, each rounded.  The theorems on the engine start from its request; \<open>runtime_gemm\<close> starts from
  \<open>flex_redmule_config\<close> and \<open>flex_redmule_trigger\<close>.

  \<^bold>\<open>Not modelled.\<close>  Timing beyond the cycles of the engine (run times, traces, VCD), the simulation kernel GVSOC and its routers beyond
  the collective target test, the instruction set simulator beyond the two instructions of the engine, DRAMSys, the start-up assembly and linker
  scripts, the Python generators and configurations, the trace tools, the vendored BFD headers under
  \<open>gapy/gen-debug-info-src\<close>, the tutorials of GVSOC under \<open>docs\<close> and the other sample applications under
  \<open>examples\<close> and \<open>tutorial\<close>, whose kernels repeat those of \<open>app_example\<close> on the vector unit or as
  copies.
\<close>

end
